(* ===== verification/Prelude.thy ===== *)
theory Prelude
  imports
    Complex_Main
    "HOL-Library.List_Lexorder"
    "HOL-Library.Char_ord"
    "HOL-Library.Product_Lexorder"
begin

text \<open>
  Shared vocabulary of the development.

  \<^item> Rust \<open>String\<close>/\<open>&str\<close> is \<open>string\<close>; \<open>List_Lexorder\<close> and \<open>Char_ord\<close> give it
    the byte-wise lexicographic order Rust's \<open>Ord\<close> uses, \<open>Product_Lexorder\<close> the tuple order.
  \<^item> A computation that may panic (failed \<open>expect\<close>, out-of-range index, failed
    \<open>assert!\<close>, arithmetic overflow with overflow checks on) has type \<open>'a outcome\<close>.
  \<^item> \<open>Result<T, E>\<close> is \<open>E + T\<close> with \<open>Inl\<close> the error.
  \<^item> \<open>BTreeSet<T>\<close> is its ascending duplicate-free list (\<open>bset_of\<close> collects one),
    \<open>BTreeMap<K, V>\<close> the association list ascending in its keys (\<open>bmap_insert\<close>,
    \<open>bmap_collect\<close>), so that iteration order is part of the model.
\<close>

named_theorems bset_simps "laws of the ordered-set model"
named_theorems bmap_simps "laws of the ordered-map model"

subsection \<open>Panics\<close>

datatype 'a outcome = Panic | Ret 'a

fun bind_outcome :: "'a outcome \<Rightarrow> ('a \<Rightarrow> 'b outcome) \<Rightarrow> 'b outcome" where
  "bind_outcome Panic f = Panic"
| "bind_outcome (Ret x) f = f x"

lemma bind_outcome_Ret_iff [simp]:
  "bind_outcome m f = Ret y \<longleftrightarrow> (\<exists>x. m = Ret x \<and> f x = Ret y)"
  by (cases m) auto

definition outcome_of_option :: "'a option \<Rightarrow> 'a outcome" where
  "outcome_of_option x = (case x of None \<Rightarrow> Panic | Some y \<Rightarrow> Ret y)"

lemma outcome_of_option_simps [simp]:
  "outcome_of_option None = Panic" "outcome_of_option (Some y) = Ret y"
  by (simp_all add: outcome_of_option_def)

subsection \<open>Ordered sets: \<open>BTreeSet\<close>\<close>

definition bset_of :: "'a::linorder list \<Rightarrow> 'a list" where
  "bset_of xs = remdups (sort xs)"

abbreviation bset_ok :: "'a::linorder list \<Rightarrow> bool" where
  "bset_ok xs \<equiv> sorted_wrt (<) xs"

lemma set_bset_of [simp, bset_simps]: "set (bset_of xs) = set xs"
  by (simp add: bset_of_def)

lemma distinct_bset_of [simp, bset_simps]: "distinct (bset_of xs)"
  by (simp add: bset_of_def)

lemma sorted_bset_of [simp, bset_simps]: "sorted (bset_of xs)"
  by (simp add: bset_of_def sorted_remdups)

lemma bset_ok_bset_of [simp, bset_simps]: "bset_ok (bset_of xs)"
  by (simp add: strict_sorted_iff)

lemma bset_of_sorted_list_of_set: "bset_of xs = sorted_list_of_set (set xs)"
  by (rule sorted_distinct_set_unique) simp_all

lemma bset_of_cong: "set xs = set ys \<Longrightarrow> bset_of xs = bset_of ys"
  by (simp add: bset_of_sorted_list_of_set)

lemma bset_of_id [bset_simps]: "bset_ok xs \<Longrightarrow> bset_of xs = xs"
  by (rule sorted_distinct_set_unique) (auto simp: strict_sorted_iff)

lemma bset_of_Nil_iff [simp]: "bset_of xs = [] \<longleftrightarrow> xs = []"
  by (metis set_bset_of set_empty)

lemma bset_ok_eq_iff: "bset_ok xs \<Longrightarrow> bset_ok ys \<Longrightarrow> xs = ys \<longleftrightarrow> set xs = set ys"
  by (metis bset_of_cong bset_of_id)

lemma hd_bset_of: "xs \<noteq> [] \<Longrightarrow> hd (bset_of xs) = Min (set xs)"
proof -
  assume "xs \<noteq> []"
  then obtain y ys where eq: "bset_of xs = y # ys" by (metis bset_of_Nil_iff neq_Nil_conv)
  have "sorted (y # ys)" using sorted_bset_of [of xs] unfolding eq .
  then have "Min (set (y # ys)) = y" by (auto intro: Min_eqI)
  then show ?thesis using eq set_bset_of [of xs] by simp
qed

subsection \<open>Ordered maps: \<open>BTreeMap\<close>\<close>

type_synonym ('k, 'v) bmap = "('k \<times> 'v) list"

fun bmap_insert :: "'k::linorder \<Rightarrow> 'v \<Rightarrow> ('k, 'v) bmap \<Rightarrow> ('k, 'v) bmap" where
  "bmap_insert k v [] = [(k, v)]"
| "bmap_insert k v ((k', v') # m) =
     (if k < k' then (k, v) # (k', v') # m
      else if k = k' then (k, v) # m
      else (k', v') # bmap_insert k v m)"

abbreviation bmap_keys :: "('k, 'v) bmap \<Rightarrow> 'k list" where
  "bmap_keys m \<equiv> map fst m"

definition bmap_ok :: "('k::linorder, 'v) bmap \<Rightarrow> bool" where
  "bmap_ok m \<longleftrightarrow> sorted_wrt (<) (bmap_keys m)"

definition bmap_collect :: "('k::linorder \<times> 'v) list \<Rightarrow> ('k, 'v) bmap" where
  "bmap_collect kvs = fold (\<lambda>(k, v). bmap_insert k v) kvs []"

lemma bmap_ok_Nil [simp, bmap_simps]: "bmap_ok []"
  by (simp add: bmap_ok_def)

lemma keys_bmap_insert [simp, bmap_simps]:
  "fst ` set (bmap_insert k v m) = insert k (fst ` set m)"
  by (induction k v m rule: bmap_insert.induct) auto

lemma bmap_ok_insert [simp, bmap_simps]: "bmap_ok m \<Longrightarrow> bmap_ok (bmap_insert k v m)"
  unfolding bmap_ok_def
proof (induction k v m rule: bmap_insert.induct)
  case (2 k v k' v' m)
  then have less: "\<forall>x \<in> fst ` set m. k' < x" by auto
  have "\<forall>x \<in> fst ` set (bmap_insert k v m). k' < x" if "k' < k"
    using that less by simp
  with 2 show ?case by (auto simp: not_less_iff_gr_or_eq)
qed simp

lemma bmap_get_insert [simp, bmap_simps]:
  "map_of (bmap_insert k v m) = (map_of m)(k \<mapsto> v)"
  by (induction k v m rule: bmap_insert.induct) (auto simp: fun_upd_twist)

text \<open>\<open>entry(k).or_default()\<close> for a collection value.\<close>

fun or_default :: "'a list option \<Rightarrow> 'a list" where
  "or_default None = []"
| "or_default (Some xs) = xs"

text \<open>The interface the components use, with the facts derived from it.\<close>

locale ordered_map =
  fixes empty :: "'m"
    and ins :: "'k::linorder \<Rightarrow> 'v \<Rightarrow> 'm \<Rightarrow> 'm"
    and get :: "'m \<Rightarrow> 'k \<Rightarrow> 'v option"
    and keys :: "'m \<Rightarrow> 'k list"
    and ok :: "'m \<Rightarrow> bool"
  assumes ok_empty: "ok empty"
    and ok_ins: "ok m \<Longrightarrow> ok (ins k v m)"
    and get_empty: "get empty = (\<lambda>_. None)"
    and get_ins: "get (ins k v m) = (get m)(k \<mapsto> v)"
    and keys_dom: "set (keys m) = dom (get m)"
    and keys_ascending: "ok m \<Longrightarrow> sorted_wrt (<) (keys m)"
begin

lemma ok_collect: "ok m \<Longrightarrow> ok (fold (\<lambda>(k, v). ins k v) kvs m)"
  by (induction kvs arbitrary: m) (auto simp: ok_ins)

lemma get_collect: "get (fold (\<lambda>(k, v). ins k v) kvs m) = get m ++ map_of (rev kvs)"
proof (induction kvs arbitrary: m)
  case (Cons kv kvs)
  then show ?case by (cases kv) (simp add: get_ins map_add_upd_left fun_eq_iff map_add_def split: option.split)
qed simp

lemma keys_unique: "ok m \<Longrightarrow> keys m = sorted_list_of_set (dom (get m))"
proof -
  assume "ok m"
  then have "sorted (keys m)" and "distinct (keys m)"
    using keys_ascending by (auto simp: strict_sorted_iff)
  moreover have "finite (dom (get m))" using keys_dom [of m] by (metis List.finite_set)
  ultimately show ?thesis
    by (intro sorted_distinct_set_unique) (simp_all add: keys_dom)
qed

end

interpretation btree_map: ordered_map "[]" bmap_insert map_of bmap_keys bmap_ok
proof unfold_locales
  show "set (bmap_keys m) = dom (map_of m)" for m :: "('k::linorder, 'v) bmap"
    by (simp add: dom_map_of_conv_image_fst)
  show "sorted_wrt (<) (bmap_keys m)" if "bmap_ok m" for m :: "('k::linorder, 'v) bmap"
    using that by (simp add: bmap_ok_def)
qed (simp_all add: bmap_simps)

lemma bmap_ok_collect [simp, bmap_simps]: "bmap_ok (bmap_collect kvs)"
  by (simp add: bmap_collect_def btree_map.ok_collect)

lemma bmap_get_collect [bmap_simps]: "map_of (bmap_collect kvs) = map_of (rev kvs)"
  by (simp add: bmap_collect_def btree_map.get_collect)

lemma bmap_get_collect_distinct [bmap_simps]:
  "distinct (map fst kvs) \<Longrightarrow> map_of (bmap_collect kvs) = map_of kvs"
  by (rule ext, simp add: bmap_get_collect, rule option.expand)
    (auto simp: map_of_eq_None_iff map_of_eq_Some_iff rev_map [symmetric] weak_map_of_SomeI
       dest!: map_of_SomeD)

lemma bmap_get_mem: "bmap_ok m \<Longrightarrow> map_of m k = Some v \<longleftrightarrow> (k, v) \<in> set m"
  by (auto simp: bmap_ok_def strict_sorted_iff map_of_eq_Some_iff)

subsection \<open>Strings\<close>

fun split_once :: "char \<Rightarrow> string \<Rightarrow> (string \<times> string) option" where
  "split_once c [] = None"
| "split_once c (x # xs) =
     (if x = c then Some ([], xs)
      else map_option (\<lambda>(a, b). (x # a, b)) (split_once c xs))"

fun split_on :: "char \<Rightarrow> string \<Rightarrow> string list" where
  "split_on c [] = [[]]"
| "split_on c (x # xs) =
     (if x = c then [] # split_on c xs
      else (case split_on c xs of [] \<Rightarrow> [[x]] | y # ys \<Rightarrow> (x # y) # ys))"

fun join_with :: "string \<Rightarrow> string list \<Rightarrow> string" where
  "join_with sep [] = []"
| "join_with sep [x] = x"
| "join_with sep (x # y # ys) = x @ sep @ join_with sep (y # ys)"

lemma split_once_None_iff: "split_once c s = None \<longleftrightarrow> c \<notin> set s"
  by (induction s) auto

lemma split_once_append: "c \<notin> set a \<Longrightarrow> split_once c (a @ c # b) = Some (a, b)"
  by (induction a) auto

lemma split_once_SomeD: "split_once c s = Some (a, b) \<Longrightarrow> s = a @ c # b \<and> c \<notin> set a"
  by (induction s arbitrary: a) (auto split: if_splits)

lemma split_on_nonempty [simp]: "split_on c s \<noteq> []"
  by (cases s) (auto split: list.splits)

definition digit_val :: "char \<Rightarrow> int option" where
  "digit_val c = (let n = of_char c :: nat in if 48 \<le> n \<and> n \<le> 57 then Some (int n - 48) else None)"

fun parse_digits :: "int \<Rightarrow> string \<Rightarrow> int option" where
  "parse_digits acc [] = Some acc"
| "parse_digits acc (c # cs) =
     (case digit_val c of None \<Rightarrow> None | Some d \<Rightarrow> parse_digits (10 * acc + d) cs)"

definition parse_unsigned :: "string \<Rightarrow> int option" where
  "parse_unsigned s = (if s = [] then None else parse_digits 0 s)"

text \<open>\<open>str::parse::<i64>\<close>: an optional sign, at least one digit, in range.\<close>

definition in_i64 :: "int \<Rightarrow> bool" where
  "in_i64 x \<longleftrightarrow> - (2 ^ 63) \<le> x \<and> x < 2 ^ 63"

definition parse_i64 :: "string \<Rightarrow> int option" where
  "parse_i64 s =
     (case (case s of [] \<Rightarrow> None
              | c # cs \<Rightarrow> if c = CHR ''-'' then map_option uminus (parse_unsigned cs)
                         else if c = CHR ''+'' then parse_unsigned cs
                         else parse_unsigned s) of
        None \<Rightarrow> None
      | Some n \<Rightarrow> if in_i64 n then Some n else None)"

text \<open>\<open>str::parse::<u32>\<close>: an optional \<open>+\<close>, at least one digit, in range.\<close>

definition parse_u32 :: "string \<Rightarrow> nat option" where
  "parse_u32 s =
     (case (case s of [] \<Rightarrow> None
              | c # cs \<Rightarrow> if c = CHR ''+'' then parse_unsigned cs else parse_unsigned s) of
        None \<Rightarrow> None
      | Some n \<Rightarrow> if n < 2 ^ 32 then Some (nat n) else None)"

lemma parse_u32_bound: "parse_u32 s = Some n \<Longrightarrow> n < 2 ^ 32"
  by (auto simp: parse_u32_def split: option.splits if_splits list.splits)

text \<open>A digest's bytes as lowercase hex (\<open>{byte:02x}\<close>).\<close>

definition hex_digit :: "nat \<Rightarrow> char" where
  "hex_digit d = (if d < 10 then char_of (48 + d) else char_of (87 + d))"

definition hex_byte :: "nat \<Rightarrow> string" where
  "hex_byte b = [hex_digit (b div 16), hex_digit (b mod 16)]"

definition hex_bytes :: "nat list \<Rightarrow> string" where
  "hex_bytes bs = concat (map hex_byte bs)"

text \<open>Decimal rendering of an unsigned integer (\<open>to_string\<close>).\<close>

fun show_nat :: "nat \<Rightarrow> string" where
  "show_nat n = (if n < 10 then [char_of (48 + n)]
                 else show_nat (n div 10) @ [char_of (48 + n mod 10)])"

declare show_nat.simps [simp del]

lemma show_nat_nonempty [simp]: "show_nat n \<noteq> []"
  by (subst show_nat.simps) simp

end
