(* ===== verification/Ids.thy ===== *)
theory Ids
  imports Prelude
begin

text \<open>
  Identity primitives of \<^verbatim>\<open>er-ids/src/lib.rs\<close>: record keys and their round trip, pair
  canonicalisation, the lake timestamp literal, deterministic UUIDv7 minting and the bounded
  redirect walk behind external entity ids. The \<open>uuid\<close> crate's text rendering and SHA-256
  are parameters (\<open>uuid_text\<close>, \<open>sha256\<close>); the text of an \<open>IdCycle\<close> error is
  kept as the data it prints.
\<close>

subsection \<open>Errors and constants\<close>

datatype cycle_report =
    RedirectCycle "string list"
  | HopsExceeded string nat string

datatype id_error =
    EmptySourceSystem
  | EmptySourceRecordId
  | SeparatorInSourceSystem string
  | SeparatorInSourceRecordId string
  | NoSeparator string
  | EmptySplitSystem string
  | EmptySplitRecordId string
  | PairSameKey string
  | IdCycle cycle_report
  | BadTimestamp string

definition RECORD_KEY_SEPARATOR :: char where
  "RECORD_KEY_SEPARATOR = CHR '':''"

definition DEFAULT_MAX_HOPS :: nat where
  "DEFAULT_MAX_HOPS = 64"

subsection \<open>Record keys and pairs\<close>

definition record_key :: "string \<Rightarrow> string \<Rightarrow> id_error + string" where
  "record_key source_system source_record_id =
     (if source_system = [] then Inl EmptySourceSystem
      else if source_record_id = [] then Inl EmptySourceRecordId
      else if RECORD_KEY_SEPARATOR \<in> set source_system
        then Inl (SeparatorInSourceSystem source_system)
      else if RECORD_KEY_SEPARATOR \<in> set source_record_id
        then Inl (SeparatorInSourceRecordId source_record_id)
      else Inr (source_system @ [RECORD_KEY_SEPARATOR] @ source_record_id))"

definition split_record_key :: "string \<Rightarrow> id_error + (string \<times> string)" where
  "split_record_key key =
     (case split_once RECORD_KEY_SEPARATOR key of
        None \<Rightarrow> Inl (NoSeparator key)
      | Some (ss, srid) \<Rightarrow>
          if ss = [] then Inl (EmptySplitSystem key)
          else if srid = [] then Inl (EmptySplitRecordId key)
          else Inr (ss, srid))"

definition canonicalize_pair :: "string \<Rightarrow> string \<Rightarrow> id_error + (string \<times> string)" where
  "canonicalize_pair a b =
     (if a = b then Inl (PairSameKey a) else Inr (if a < b then (a, b) else (b, a)))"

subsection \<open>The lake timestamp literal\<close>

fun next3 :: "string list \<Rightarrow> (int \<times> int \<times> int) option" where
  "next3 (a # b # c # rest) =
     (case parse_i64 a of None \<Rightarrow> None | Some x \<Rightarrow>
      (case parse_i64 b of None \<Rightarrow> None | Some y \<Rightarrow>
       (case parse_i64 c of None \<Rightarrow> None | Some z \<Rightarrow> Some (x, y, z))))"
| "next3 _ = None"

definition tdiv :: "int \<Rightarrow> int \<Rightarrow> int" where
  "tdiv a b = sgn a * sgn b * (\<bar>a\<bar> div \<bar>b\<bar>)"

text \<open>Every intermediate of the \<open>i64\<close> computation; the model panics when one overflows.\<close>

definition civil_days :: "int \<Rightarrow> int \<Rightarrow> int \<Rightarrow> int" where
  "civil_days y m day =
     (let y_adj = (if m \<le> 2 then y - 1 else y);
          era = tdiv (if y_adj \<ge> 0 then y_adj else y_adj - 399) 400;
          yoe = y_adj - era * 400;
          mp = (m + 9) mod 12;
          doy = tdiv (153 * mp + 2) 5 + day - 1;
          doe = yoe * 365 + tdiv yoe 4 - tdiv yoe 100 + doy
      in era * 146097 + doe - 719468)"

definition civil_fits :: "int \<Rightarrow> int \<Rightarrow> int \<Rightarrow> int \<Rightarrow> int \<Rightarrow> int \<Rightarrow> bool" where
  "civil_fits y m day hh mm ss =
     (let y_adj = (if m \<le> 2 then y - 1 else y);
          shifted = (if y_adj \<ge> 0 then y_adj else y_adj - 399);
          era = tdiv shifted 400;
          doe = civil_days y m day - era * 146097 + 719468;
          days = civil_days y m day
      in in_i64 y_adj \<and> in_i64 shifted \<and> in_i64 (era * 146097) \<and> in_i64 (era * 146097 + doe)
         \<and> in_i64 days \<and> in_i64 (days * 86400) \<and> in_i64 (hh * 3600)
         \<and> in_i64 (days * 86400 + hh * 3600) \<and> in_i64 (mm * 60)
         \<and> in_i64 (days * 86400 + hh * 3600 + mm * 60)
         \<and> in_i64 (days * 86400 + hh * 3600 + mm * 60 + ss))"

definition parse_lake_timestamp_ms :: "string \<Rightarrow> int option outcome" where
  "parse_lake_timestamp_ms ts =
     (case split_once CHR '' '' ts of
        None \<Rightarrow> Ret None
      | Some (date, time) \<Rightarrow>
     (case next3 (split_on CHR ''-'' date) of
        None \<Rightarrow> Ret None
      | Some (y, m, day) \<Rightarrow>
     (case next3 (split_on CHR '':'' time) of
        None \<Rightarrow> Ret None
      | Some (hh, mm, ss) \<Rightarrow>
        if \<not> (1 \<le> m \<and> m \<le> 12) \<or> \<not> (1 \<le> day \<and> day \<le> 31) \<or> hh > 23 \<or> mm > 59 \<or> ss > 59
        then Ret None
        else if \<not> civil_fits y m day hh mm ss then Panic
        else let secs = civil_days y m day * 86400 + hh * 3600 + mm * 60 + ss
             in if secs < 0 then Ret None
                else if secs * 1000 < 2 ^ 64 then Ret (Some (secs * 1000)) else Ret None)))"

subsection \<open>Deterministic UUIDv7 minting\<close>

definition be_bytes64 :: "nat \<Rightarrow> nat list" where
  "be_bytes64 n = map (\<lambda>i. (n div 256 ^ (7 - i)) mod 256) [0..<8]"

definition deterministic_v7 ::
  "(nat \<Rightarrow> nat list \<Rightarrow> string) \<Rightarrow> nat \<Rightarrow> nat \<Rightarrow> string outcome" where
  "deterministic_v7 uuid_text unix_ts_ms counter =
     (if \<not> counter < 2 ^ 62 then Panic
      else Ret (uuid_text unix_ts_ms ([0, 0] @ be_bytes64 counter)))"

record v7_factory =
  unix_ts_ms :: nat
  next_counter :: nat

definition from_lake_timestamp :: "string \<Rightarrow> nat \<Rightarrow> (id_error + v7_factory) outcome" where
  "from_lake_timestamp ts start =
     bind_outcome (parse_lake_timestamp_ms ts)
       (\<lambda>r. case r of
              None \<Rightarrow> Ret (Inl (BadTimestamp ts))
            | Some ms \<Rightarrow> Ret (Inr \<lparr>unix_ts_ms = nat ms, next_counter = start\<rparr>))"

definition v7_new_id ::
  "(nat \<Rightarrow> nat list \<Rightarrow> string) \<Rightarrow> v7_factory \<Rightarrow> (string \<times> v7_factory) outcome" where
  "v7_new_id uuid_text f =
     (let value = next_counter f in
      if \<not> value + 1 < 2 ^ 64 then Panic
      else bind_outcome (deterministic_v7 uuid_text (unix_ts_ms f) value)
             (\<lambda>s. Ret (s, f\<lparr>next_counter := value + 1\<rparr>)))"

text \<open>The counting ULID factory of the tests; \<open>ulid_text\<close> is the \<open>ulid\<close> crate's rendering.\<close>

definition counting_new_id :: "(nat \<Rightarrow> string) \<Rightarrow> nat \<Rightarrow> (string \<times> nat) outcome" where
  "counting_new_id ulid_text next_value =
     (if \<not> next_value + 1 < 2 ^ 128 then Panic else Ret (ulid_text next_value, next_value + 1))"

definition natural_id_preimage :: "string \<Rightarrow> string list \<Rightarrow> string" where
  "natural_id_preimage relation parts = relation @ concat (map (\<lambda>p. '':'' @ p) parts)"

definition natural_id :: "(string \<Rightarrow> nat list) \<Rightarrow> string \<Rightarrow> string list \<Rightarrow> string" where
  "natural_id sha256 relation parts = hex_bytes (sha256 (natural_id_preimage relation parts))"

subsection \<open>Redirect resolution\<close>

function resolve_loop ::
  "(string \<rightharpoonup> string) \<Rightarrow> nat \<Rightarrow> string \<Rightarrow> string list \<Rightarrow> string \<Rightarrow> id_error + string" where
  "resolve_loop redirects max_hops entity_id seen current =
     (case redirects current of
        None \<Rightarrow> Inr current
      | Some nxt \<Rightarrow>
          if nxt \<in> set seen then Inl (IdCycle (RedirectCycle (seen @ [nxt])))
          else if length seen > max_hops
            then Inl (IdCycle (HopsExceeded entity_id max_hops current))
          else resolve_loop redirects max_hops entity_id (seen @ [nxt]) nxt)"
  by pat_completeness auto
termination
  by (relation "measure (\<lambda>(redirects, max_hops, entity_id, seen, current). Suc max_hops - length seen)")
    auto

declare resolve_loop.simps [simp del]

definition resolve :: "string \<Rightarrow> (string \<rightharpoonup> string) \<Rightarrow> nat \<Rightarrow> id_error + string" where
  "resolve entity_id redirects max_hops =
     resolve_loop redirects max_hops entity_id [entity_id] entity_id"


subsection \<open>Minting a run of ids\<close>

text \<open>What reconcile needs of an \<open>IdFactory\<close>: a run of \<open>n\<close> mints returns and
  the ids are pairwise distinct.\<close>

fun mint_ids :: "('f \<Rightarrow> (string \<times> 'f) outcome) \<Rightarrow> nat \<Rightarrow> 'f \<Rightarrow> (string list \<times> 'f) outcome" where
  "mint_ids new_id 0 f = Ret ([], f)"
| "mint_ids new_id (Suc n) f =
     bind_outcome (new_id f) (\<lambda>(x, f'). bind_outcome (mint_ids new_id n f')
       (\<lambda>(xs, f''). Ret (x # xs, f'')))"

locale id_factory =
  fixes new_id :: "'f \<Rightarrow> (string \<times> 'f) outcome"
    and able :: "'f \<Rightarrow> nat \<Rightarrow> bool"
    and nth_id :: "'f \<Rightarrow> nat \<Rightarrow> string"
  assumes new_id_step:
    "able f (Suc n) \<Longrightarrow>
       \<exists>f'. new_id f = Ret (nth_id f 0, f') \<and> able f' n \<and> (\<forall>i. nth_id f' i = nth_id f (Suc i))"
    and ids_distinct: "able f n \<Longrightarrow> inj_on (nth_id f) {..<n}"
begin

lemma mint_ids_run:
  "able f n \<Longrightarrow> \<exists>f'. mint_ids new_id n f = Ret (map (nth_id f) [0..<n], f')"
proof (induction n arbitrary: f)
  case (Suc n)
  from new_id_step [OF Suc.prems] obtain f1 where
    f1: "new_id f = Ret (nth_id f 0, f1)" "able f1 n" "\<forall>i. nth_id f1 i = nth_id f (Suc i)" by blast
  from Suc.IH [OF f1(2)] obtain f2 where "mint_ids new_id n f1 = Ret (map (nth_id f1) [0..<n], f2)"
    by blast
  moreover have "map (nth_id f) [0..<Suc n] = nth_id f 0 # map (nth_id f1) [0..<n]"
    using f1(3) by (simp add: map_upt_Suc del: upt_Suc)
  ultimately show ?case using f1(1) by simp
qed simp

lemma mint_ids_distinct:
  assumes "able f n" and "mint_ids new_id n f = Ret (xs, f')"
  shows "length xs = n \<and> distinct xs"
  using mint_ids_run [OF assms(1)] ids_distinct [OF assms(1)] assms(2)
  by (auto simp: distinct_map lessThan_atLeast0)

end

definition v7_nth_id :: "(nat \<Rightarrow> nat list \<Rightarrow> string) \<Rightarrow> v7_factory \<Rightarrow> nat \<Rightarrow> string" where
  "v7_nth_id uuid_text f i = uuid_text (unix_ts_ms f) ([0, 0] @ be_bytes64 (next_counter f + i))"

definition v7_able :: "(nat \<Rightarrow> nat list \<Rightarrow> string) \<Rightarrow> v7_factory \<Rightarrow> nat \<Rightarrow> bool" where
  "v7_able uuid_text f n \<longleftrightarrow>
     next_counter f + n \<le> 2 ^ 62 \<and> inj_on (uuid_text (unix_ts_ms f)) {bs. length bs = 10}"

lemma length_be_bytes64 [simp]: "length (be_bytes64 n) = 8"
  by (simp add: be_bytes64_def)

fun be_value :: "nat list \<Rightarrow> nat" where
  "be_value [] = 0"
| "be_value (b # bs) = b * 256 ^ length bs + be_value bs"

lemma be_value_digits:
  "be_value (map (\<lambda>i. n div 256 ^ (k - Suc i) mod 256) [0..<k]) = n mod 256 ^ k"
proof (induction k)
  case (Suc k)
  have "map (\<lambda>i. n div 256 ^ (Suc k - Suc i) mod 256) [0..<Suc k] =
      (n div 256 ^ k mod 256) # map (\<lambda>i. n div 256 ^ (k - Suc i) mod 256) [0..<k]"
    by (simp add: map_upt_Suc del: upt_Suc)
  with Suc have "be_value (map (\<lambda>i. n div 256 ^ (Suc k - Suc i) mod 256) [0..<Suc k]) =
      (n div 256 ^ k mod 256) * 256 ^ k + n mod 256 ^ k" by simp
  also have "\<dots> = n mod (256 ^ k * 256)" by (simp add: mod_mult2_eq)
  finally show ?case by (simp add: mult.commute)
qed simp

lemma be_value_be_bytes64: "n < 2 ^ 64 \<Longrightarrow> be_value (be_bytes64 n) = n"
  using be_value_digits [of n 8] by (simp add: be_bytes64_def)

lemma be_bytes64_inj: "inj_on be_bytes64 {..<2 ^ 64}"
  by (metis be_value_be_bytes64 inj_onI lessThan_iff)

lemma be_value_bound: "\<forall>b \<in> set bs. b < 256 \<Longrightarrow> be_value bs < 256 ^ length bs"
proof (induction bs)
  case (Cons b bs)
  then have "b * 256 ^ length bs + be_value bs < Suc b * 256 ^ length bs" by simp
  also have "\<dots> \<le> 256 * 256 ^ length bs" using Cons.prems by (intro mult_right_mono) auto
  finally show ?case by simp
qed simp

lemma be_value_lex:
  "length xs = length ys \<Longrightarrow> \<forall>b \<in> set xs \<union> set ys. b < 256 \<Longrightarrow>
     be_value xs < be_value ys \<longleftrightarrow> xs < ys"
proof (induction xs ys rule: list_induct2)
  case (Cons x xs y ys)
  have bx: "be_value xs < 256 ^ length ys" and by': "be_value ys < 256 ^ length ys"
    using Cons.prems be_value_bound [of xs] be_value_bound [of ys] Cons.hyps by auto
  have "be_value (x # xs) < be_value (y # ys)" if "x < y"
  proof -
    have "x * 256 ^ length ys + be_value xs < Suc x * 256 ^ length ys" using bx by simp
    also have "\<dots> \<le> y * 256 ^ length ys" using that by (intro mult_right_mono) auto
    finally show ?thesis using Cons.hyps by simp
  qed
  moreover have "be_value (y # ys) < be_value (x # xs)" if "y < x"
  proof -
    have "y * 256 ^ length ys + be_value ys < Suc y * 256 ^ length ys" using by' by simp
    also have "\<dots> \<le> x * 256 ^ length ys" using that by (intro mult_right_mono) auto
    finally show ?thesis using Cons.hyps by simp
  qed
  ultimately show ?case using Cons by (cases x y rule: linorder_cases) auto
qed simp

interpretation v7: id_factory "v7_new_id uuid_text" "v7_able uuid_text" "v7_nth_id uuid_text"
  for uuid_text
proof unfold_locales
  fix f :: v7_factory and n :: nat
  assume able: "v7_able uuid_text f (Suc n)"
  then have "v7_new_id uuid_text f =
      Ret (v7_nth_id uuid_text f 0, f\<lparr>next_counter := next_counter f + 1\<rparr>)"
    by (auto simp: v7_able_def v7_new_id_def deterministic_v7_def v7_nth_id_def Let_def)
  moreover have "v7_able uuid_text (f\<lparr>next_counter := next_counter f + 1\<rparr>) n"
    using able by (simp add: v7_able_def)
  moreover have "\<forall>i. v7_nth_id uuid_text (f\<lparr>next_counter := next_counter f + 1\<rparr>) i
      = v7_nth_id uuid_text f (Suc i)" by (simp add: v7_nth_id_def)
  ultimately show "\<exists>f'. v7_new_id uuid_text f = Ret (v7_nth_id uuid_text f 0, f') \<and>
      v7_able uuid_text f' n \<and> (\<forall>i. v7_nth_id uuid_text f' i = v7_nth_id uuid_text f (Suc i))"
    by blast
next
  fix f :: v7_factory and n :: nat
  assume able: "v7_able uuid_text f n"
  show "inj_on (v7_nth_id uuid_text f) {..<n}"
  proof (rule inj_onI)
    fix i j assume ij: "i \<in> {..<n}" "j \<in> {..<n}" "v7_nth_id uuid_text f i = v7_nth_id uuid_text f j"
    then have "be_bytes64 (next_counter f + i) = be_bytes64 (next_counter f + j)"
      using able by (auto simp: v7_able_def v7_nth_id_def dest: inj_onD)
    moreover have "next_counter f + i < 2 ^ 64" "next_counter f + j < 2 ^ 64"
      using ij able by (auto simp: v7_able_def)
    ultimately show "i = j" using inj_onD [OF be_bytes64_inj] by fastforce
  qed
qed

definition counting_able :: "(nat \<Rightarrow> string) \<Rightarrow> nat \<Rightarrow> nat \<Rightarrow> bool" where
  "counting_able ulid_text c n \<longleftrightarrow> c + n < 2 ^ 128 \<and> inj_on ulid_text {..<2 ^ 128}"

interpretation counting: id_factory "counting_new_id ulid_text" "counting_able ulid_text"
  "\<lambda>c i. ulid_text (c + i)" for ulid_text
proof unfold_locales
  show "inj_on (\<lambda>i. ulid_text (c + i)) {..<n}" if "counting_able ulid_text c n" for c n
  proof (rule inj_onI)
    fix i j assume ij: "i \<in> {..<n}" "j \<in> {..<n}" "ulid_text (c + i) = ulid_text (c + j)"
    with that have "c + i = c + j"
      by (intro inj_onD [where f = ulid_text]) (auto simp: counting_able_def)
    then show "i = j" by simp
  qed
qed (auto simp: counting_able_def counting_new_id_def)

subsection \<open>Lemmas behind the properties\<close>

fun follow :: "(string \<rightharpoonup> string) \<Rightarrow> nat \<Rightarrow> string \<Rightarrow> string option" where
  "follow r 0 e = Some e"
| "follow r (Suc n) e = (case r e of None \<Rightarrow> None | Some x \<Rightarrow> follow r n x)"

lemma follow_add: "follow r (a + b) e = Option.bind (follow r a e) (follow r b)"
  by (induction a arbitrary: e) (auto split: option.split)

lemma follow_Suc_right: "follow r n e = Some c \<Longrightarrow> r c = Some d \<Longrightarrow> follow r (Suc n) e = Some d"
  using follow_add [of r n 1 e] by simp

lemma follow_stuck: "r t = None \<Longrightarrow> 0 < n \<Longrightarrow> follow r n t = None"
  by (cases n) auto

lemma follow_cycle_never_ends:
  "follow r (Suc k) c = Some c \<Longrightarrow> follow r n c = Some t \<Longrightarrow> r t \<noteq> None"
proof (induction n rule: less_induct)
  case (less n)
  show ?case
  proof (cases "n < Suc k")
    case True
    then have "follow r (n + (Suc k - n)) c = Some c" using less.prems(1) by simp
    with less.prems(2) have "follow r (Suc k - n) t = Some c" by (simp only: follow_add) simp
    with True follow_stuck [of r t "Suc k - n"] show ?thesis by auto
  next
    case False
    then have "follow r (Suc k + (n - Suc k)) c = Some t" using less.prems(2) by simp
    with less.prems(1) have "follow r (n - Suc k) c = Some t" by (simp only: follow_add) simp
    moreover have "n - Suc k < n" using False by simp
    ultimately show ?thesis using less.IH less.prems(1) by blast
  qed
qed

lemma resolve_loop_correct:
  assumes "\<forall>s \<in> set seen. \<exists>k. follow r k s = Some cur" and "length seen \<le> Suc m"
  shows "resolve_loop r m e seen cur = Inr t \<longleftrightarrow>
           (\<exists>n. n + length seen \<le> Suc m \<and> follow r n cur = Some t \<and> r t = None)"
  using assms
proof (induction r m e seen cur rule: resolve_loop.induct)
  case (1 r m e seen cur)
  note unfold = resolve_loop.simps [of r m e seen cur]
  show ?case
  proof (cases "r cur")
    case None
    have "follow r n cur = Some t \<longleftrightarrow> n = 0 \<and> t = cur" for n
      using None by (cases n) auto
    with None "1.prems" show ?thesis by (auto simp: unfold)
  next
    case (Some nxt)
    have shift: "(\<exists>n. n + length seen \<le> Suc m \<and> follow r n cur = Some t \<and> r t = None) \<longleftrightarrow>
        (\<exists>n. Suc n + length seen \<le> Suc m \<and> follow r n nxt = Some t \<and> r t = None)" (is "?L = ?R")
    proof
      assume ?L
      then obtain n where n: "n + length seen \<le> Suc m" "follow r n cur = Some t" "r t = None" by blast
      with Some show ?R by (cases n) auto
    next
      assume ?R
      then obtain n where "Suc n + length seen \<le> Suc m" "follow r n nxt = Some t" "r t = None" by blast
      with Some show ?L by (intro exI [of _ "Suc n"]) simp
    qed
    consider (cycle) "nxt \<in> set seen" | (hops) "nxt \<notin> set seen" "length seen > m"
      | (step) "nxt \<notin> set seen" "length seen \<le> m" by linarith
    then show ?thesis
    proof cases
      case cycle
      then obtain k where "follow r k nxt = Some cur" using "1.prems" by blast
      then have "follow r (Suc k) cur = Some cur" using Some by simp
      then have "\<not> (\<exists>n. n + length seen \<le> Suc m \<and> follow r n cur = Some t \<and> r t = None)"
        using follow_cycle_never_ends by blast
      with cycle Some show ?thesis by (simp add: unfold)
    next
      case hops
      then show ?thesis unfolding shift by (simp add: unfold Some)
    next
      case step
      have inv: "\<exists>k. follow r k s = Some nxt" if s: "s \<in> set (seen @ [nxt])" for s
      proof (cases "s = nxt")
        case True
        then show ?thesis by (intro exI [of _ 0]) simp
      next
        case False
        then obtain k where "follow r k s = Some cur" using s "1.prems" by auto
        then show ?thesis using Some by (intro exI [of _ "Suc k"] follow_Suc_right)
      qed
      have "resolve_loop r m e (seen @ [nxt]) nxt = Inr t \<longleftrightarrow>
          (\<exists>n. n + length (seen @ [nxt]) \<le> Suc m \<and> follow r n nxt = Some t \<and> r t = None)"
        using step inv by (intro "1.IH" [OF Some]) auto
      with step Some show ?thesis unfolding shift by (simp add: unfold)
    qed
  qed
qed

subsection \<open>The proleptic Gregorian calendar as reference\<close>

definition leap_year :: "int \<Rightarrow> bool" where
  "leap_year y \<longleftrightarrow> 4 dvd y \<and> (\<not> 100 dvd y \<or> 400 dvd y)"

definition days_in_month :: "int \<Rightarrow> int \<Rightarrow> int" where
  "days_in_month y m =
     (if m = 2 then (if leap_year y then 29 else 28)
      else if m = 4 \<or> m = 6 \<or> m = 9 \<or> m = 11 then 30 else 31)"

definition next_day :: "int \<times> int \<times> int \<Rightarrow> int \<times> int \<times> int" where
  "next_day = (\<lambda>(y, m, d).
     if d < days_in_month y m then (y, m, d + 1)
     else if m < 12 then (y, m + 1, 1) else (y + 1, 1, 1))"

definition flat_days :: "int \<Rightarrow> int" where
  "flat_days a = 365 * a + a div 4 - a div 100 + a div 400"

lemma tdiv_nonneg: "0 \<le> a \<Longrightarrow> 0 < b \<Longrightarrow> tdiv a b = a div b"
  by (cases "a = 0") (auto simp: tdiv_def sgn_if)

lemma tdiv_era: "tdiv (if a \<ge> 0 then a else a - 399) 400 = a div 400"
proof (cases "a \<ge> 0")
  case False
  then have "tdiv (a - 399) 400 = - ((399 - a) div 400)" by (auto simp: tdiv_def sgn_if)
  also have "(399 - a) div 400 = - (a div 400)"
    by (rule int_div_pos_eq [where r = "399 - a mod 400"]) (simp_all add: minus_mod_eq_mult_div [symmetric])
  finally show ?thesis using False by simp
qed (simp add: tdiv_nonneg)

lemma civil_days_flat:
  assumes "1 \<le> m"
  shows "civil_days y m d =
    flat_days (if m \<le> 2 then y - 1 else y) + (153 * ((m + 9) mod 12) + 2) div 5 + d - 719469"
proof -
  define a where "a = (if m \<le> 2 then y - 1 else y)"
  define r where "r = a mod 400"
  define e where "e = a div 400"
  have a: "a = 400 * e + r" and r: "0 \<le> r" "r < 400" by (simp_all add: r_def e_def)
  have "(153 * ((m + 9) mod 12) + 2) \<ge> 0" by simp
  then have "civil_days y m d = e * 146097 + (r * 365 + r div 4 - r div 100
      + ((153 * ((m + 9) mod 12) + 2) div 5 + d - 1)) - 719468"
    using r a unfolding civil_days_def Let_def a_def [symmetric] tdiv_era e_def [symmetric]
    by (simp add: tdiv_nonneg)
  moreover have "flat_days a = e * 146097 + (r * 365 + r div 4 - r div 100)"
  proof -
    have "a div 4 = 100 * e + r div 4" "a div 100 = 4 * e + r div 100" "a div 400 = e"
      using r by (simp_all add: a div_mult_self2 [of 4 r "100 * e", simplified]
          div_mult_self2 [of 100 r "4 * e", simplified] add.commute [of _ r])
    then show ?thesis by (simp add: flat_days_def a)
  qed
  ultimately show ?thesis unfolding a_def [symmetric] by simp
qed

lemma div_step:
  assumes "0 < (n::int)"
  shows "y div n - (y - 1) div n = (if n dvd y then 1 else 0)"
proof -
  define q where "q = y div n"
  define r where "r = y mod n"
  have y: "y = n * q + r" and r: "0 \<le> r" "r < n" using assms by (simp_all add: q_def r_def)
  show ?thesis
  proof (cases "r = 0")
    case True
    then have "(y - 1) div n = q - 1"
      using assms y by (intro int_div_pos_eq [where r = "n - 1"]) (auto simp: algebra_simps)
    with True show ?thesis by (simp add: q_def r_def dvd_eq_mod_eq_0)
  next
    case False
    then have "(y - 1) div n = q"
      using r y by (intro int_div_pos_eq [where r = "r - 1"]) auto
    with False show ?thesis by (simp add: q_def r_def dvd_eq_mod_eq_0)
  qed
qed

lemma flat_days_step: "flat_days y - flat_days (y - 1) = (if leap_year y then 366 else 365)"
proof -
  have regroup: "365 * a + p - q + r - (365 * (a - 1) + p' - q' + r') =
      365 + (p - p') - (q - q') + (r - r')" for a p q r p' q' r' :: int by simp
  have "flat_days y - flat_days (y - 1) =
      365 + (if 4 dvd y then 1 else 0) - (if 100 dvd y then 1 else 0) + (if 400 dvd y then 1 else 0)"
    unfolding flat_days_def regroup by (simp only: div_step zero_less_numeral)
  moreover have "100 dvd y" if "400 dvd y" using dvd_trans [of 100 400 y] that by simp
  moreover have "4 dvd y" if "100 dvd y" using dvd_trans [of 4 100 y] that by simp
  ultimately show ?thesis unfolding leap_year_def by (cases "4 dvd y"; cases "100 dvd y"; cases "400 dvd y") simp_all
qed

lemma month_cases:
  "1 \<le> m \<Longrightarrow> m \<le> 12 \<Longrightarrow> m = (1::int) \<or> m = 2 \<or> m = 3 \<or> m = 4 \<or> m = 5 \<or> m = 6 \<or> m = 7
     \<or> m = 8 \<or> m = 9 \<or> m = 10 \<or> m = 11 \<or> m = 12"
  by presburger

subsection \<open>Properties\<close>

text \<open>\<open>split_record_key\<close> inverts \<open>record_key\<close> on every key it accepts, and a key whose
  record id holds no separator is accepted again with the same text.\<close>

lemma record_key_roundtrip:
  "record_key a b = Inr k \<longleftrightarrow> split_record_key k = Inr (a, b) \<and> RECORD_KEY_SEPARATOR \<notin> set b"
proof
  assume "record_key a b = Inr k"
  then have "a \<noteq> []" "b \<noteq> []" "RECORD_KEY_SEPARATOR \<notin> set a" "RECORD_KEY_SEPARATOR \<notin> set b"
    "k = a @ RECORD_KEY_SEPARATOR # b" by (auto simp: record_key_def split: if_splits)
  then show "split_record_key k = Inr (a, b) \<and> RECORD_KEY_SEPARATOR \<notin> set b"
    by (simp add: split_record_key_def split_once_append)
next
  assume "split_record_key k = Inr (a, b) \<and> RECORD_KEY_SEPARATOR \<notin> set b"
  then show "record_key a b = Inr k"
    by (auto simp: split_record_key_def record_key_def split: option.splits if_splits
        dest: split_once_SomeD)
qed

text \<open>\<open>resolve\<close> returns an entity exactly when the \<open>merged_into\<close> chain reaches one with no
  further redirect in at most \<open>max_hops\<close> hops; a cycle or a longer chain is an error, and the
  walk always ends.\<close>

lemma resolve_iff_chain_ends:
  "resolve e redirects max_hops = Inr t \<longleftrightarrow>
     (\<exists>n \<le> max_hops. follow redirects n e = Some t \<and> redirects t = None)"
  unfolding resolve_def
  by (subst resolve_loop_correct) (auto intro: exI [of _ 0])

text \<open>The timestamp's day count is the calendar's: the epoch is day zero and the day after any
  valid date is counted one higher, across month ends, leap days and centuries.\<close>

lemma civil_days_next_day:
  assumes "1 \<le> m" "m \<le> 12" "1 \<le> d" "d \<le> days_in_month y m"
    and "next_day (y, m, d) = (y', m', d')"
  shows "civil_days y' m' d' = civil_days y m d + 1 \<and> civil_days 1970 1 1 = 0"
proof -
  have epoch: "civil_days 1970 1 1 = 0" by (simp add: civil_days_def tdiv_def)
  show ?thesis
  proof (cases "d < days_in_month y m")
    case True
    with assms show ?thesis
      by (auto simp: next_day_def civil_days_flat epoch)
  next
    case False
    with assms have d: "d = days_in_month y m" by simp
    from month_cases [OF assms(1,2)] show ?thesis
      using d assms(5) epoch flat_days_step [of y]
      by (elim disjE) (auto simp: next_day_def days_in_month_def civil_days_flat split: if_splits)
  qed
qed

lemma civil_days_next_day_witness:
  "next_day (2024, 2, 29) = (2024, 3, 1) \<and> civil_days 2024 3 1 = civil_days 2024 2 29 + 1"
proof -
  have nd: "next_day (2024, 2, 29) = (2024, 3, 1)"
    by (simp add: next_day_def days_in_month_def leap_year_def)
  have "29 \<le> days_in_month 2024 2" by (simp add: days_in_month_def leap_year_def)
  then show ?thesis using civil_days_next_day [OF _ _ _ _ nd] nd by simp
qed

lemma v7_mint_run_facts:
  assumes "v7_able uuid_text f n"
  shows "\<exists>f'. mint_ids (v7_new_id uuid_text) n f =
           Ret (map (\<lambda>i. uuid_text (unix_ts_ms f) ([0, 0] @ be_bytes64 (next_counter f + i))) [0..<n], f')"
    and "distinct (map (\<lambda>i. uuid_text (unix_ts_ms f) ([0, 0] @ be_bytes64 (next_counter f + i))) [0..<n])"
    and "i < j \<Longrightarrow> j < n \<Longrightarrow> be_bytes64 (next_counter f + i) < be_bytes64 (next_counter f + j)"
proof -
  have fn: "v7_nth_id uuid_text f = (\<lambda>i. uuid_text (unix_ts_ms f) ([0, 0] @ be_bytes64 (next_counter f + i)))"
    by (rule ext) (simp add: v7_nth_id_def)
  show run: "\<exists>f'. mint_ids (v7_new_id uuid_text) n f =
           Ret (map (\<lambda>i. uuid_text (unix_ts_ms f) ([0, 0] @ be_bytes64 (next_counter f + i))) [0..<n], f')"
    using v7.mint_ids_run [OF assms] unfolding fn .
  then show "distinct (map (\<lambda>i. uuid_text (unix_ts_ms f) ([0, 0] @ be_bytes64 (next_counter f + i))) [0..<n])"
    using v7.mint_ids_distinct [OF assms] by blast
  show "be_bytes64 (next_counter f + i) < be_bytes64 (next_counter f + j)" if "i < j" "j < n"
  proof -
    have "next_counter f + j < 2 ^ 64" "next_counter f + i < 2 ^ 64"
      using that assms by (auto simp: v7_able_def)
    then have "be_value (be_bytes64 (next_counter f + i)) < be_value (be_bytes64 (next_counter f + j))"
      using that by (simp add: be_value_be_bytes64)
    then show ?thesis by (subst (asm) be_value_lex) (auto simp: be_bytes64_def)
  qed
qed

text \<open>A run of \<open>n\<close> mints of the deterministic UUIDv7 factory is the pure function of the run's
  logical clock and the start counter the design asks for: it never panics below the 62-bit
  bound, the ids are distinct, and the counter bytes ascend lexicographically with mint order.\<close>

lemma v7_mint_run:
  assumes "v7_able uuid_text f n"
  shows "\<exists>ids f'. mint_ids (v7_new_id uuid_text) n f = Ret (ids, f') \<and> length ids = n \<and> distinct ids \<and>
     (\<forall>i < n. ids ! i = uuid_text (unix_ts_ms f) ([0, 0] @ be_bytes64 (next_counter f + i))) \<and>
     (\<forall>j < n. \<forall>i < j. be_bytes64 (next_counter f + i) < be_bytes64 (next_counter f + j))"
proof -
  obtain f' where "mint_ids (v7_new_id uuid_text) n f =
      Ret (map (\<lambda>i. uuid_text (unix_ts_ms f) ([0, 0] @ be_bytes64 (next_counter f + i))) [0..<n], f')"
    using v7_mint_run_facts(1) [OF assms] by blast
  then show ?thesis using v7_mint_run_facts(2,3) [OF assms] by auto
qed

lemma v7_mint_run_witness:
  "\<exists>ids f'. mint_ids (v7_new_id (\<lambda>ts bs. concat (map (\<lambda>b. replicate b CHR ''1'' @ ''-'') bs))) 2
       \<lparr>unix_ts_ms = 0, next_counter = 7\<rparr> = Ret (ids, f') \<and> length ids = 2 \<and> distinct ids"
proof -
  let ?u = "\<lambda>(ts::nat) bs. concat (map (\<lambda>b. replicate b CHR ''1'' @ ''-'') bs)"
  have prefix: "replicate a CHR ''1'' @ CHR ''-'' # s = replicate b CHR ''1'' @ CHR ''-'' # t \<Longrightarrow> a = b \<and> s = t"
    for a b s t
    by (induction a arbitrary: b) (case_tac b; auto)+
  have "concat (map (\<lambda>b. replicate b CHR ''1'' @ ''-'') xs) = concat (map (\<lambda>b. replicate b CHR ''1'' @ ''-'') ys)
      \<Longrightarrow> xs = ys" for xs ys :: "nat list"
    by (induction xs arbitrary: ys) (case_tac ys; auto dest: prefix)+
  then have "v7_able ?u \<lparr>unix_ts_ms = 0, next_counter = 7\<rparr> 2"
    by (auto simp: v7_able_def inj_on_def)
  from v7_mint_run [OF this] show ?thesis by blast
qed

text \<open>The hour, minute and second have no lower bound, and extra \<open>-\<close> or \<open>:\<close> fields are ignored: a
  stamp that is not the documented literal is accepted.\<close>

lemma lake_timestamp_accepts_negative_hour:
  "parse_lake_timestamp_ms ''2026-01-01 -1:00:00'' = Ret (Some 1767222000000)"
  by code_simp

end
