(* ===== verification/Errors.thy ===== *)
theory Errors
  imports Prelude
begin

text \<open>
  The failure taxonomy of \<^verbatim>\<open>er-errors/src/lib.rs\<close>: error classes, the exit-code contract,
  the error value with its builders, and the exit status of a foreign error. Every stage and the
  task ledger read a failure through \<open>err_code\<close>, \<open>err_retryable\<close> and \<open>err_classify\<close>.
\<close>

datatype exit_code = Success | StageFailure | ConfigExit | PreconditionExit | NothingToDo

fun exit_status :: "exit_code \<Rightarrow> int" where
  "exit_status Success = 0"
| "exit_status StageFailure = 1"
| "exit_status ConfigExit = 2"
| "exit_status PreconditionExit = 3"
| "exit_status NothingToDo = 10"

datatype error_class =
  TransientIo | LockConflict | Precondition | ConfigClass | Contradiction | NonConvergenceClass | DataClass

definition UNCLASSIFIED :: error_class where
  "UNCLASSIFIED = DataClass"

definition error_class_ALL :: "error_class list" where
  "error_class_ALL =
     [TransientIo, LockConflict, Precondition, ConfigClass, Contradiction, NonConvergenceClass, DataClass]"

fun error_class_str :: "error_class \<Rightarrow> string" where
  "error_class_str TransientIo = ''transient_io''"
| "error_class_str LockConflict = ''lock_conflict''"
| "error_class_str Precondition = ''precondition''"
| "error_class_str ConfigClass = ''config''"
| "error_class_str Contradiction = ''contradiction''"
| "error_class_str NonConvergenceClass = ''non_convergence''"
| "error_class_str DataClass = ''data''"

fun class_exit_code :: "error_class \<Rightarrow> exit_code" where
  "class_exit_code LockConflict = PreconditionExit"
| "class_exit_code Precondition = PreconditionExit"
| "class_exit_code ConfigClass = ConfigExit"
| "class_exit_code TransientIo = StageFailure"
| "class_exit_code Contradiction = StageFailure"
| "class_exit_code NonConvergenceClass = StageFailure"
| "class_exit_code DataClass = StageFailure"

fun class_retryable :: "error_class \<Rightarrow> bool" where
  "class_retryable TransientIo = True"
| "class_retryable LockConflict = True"
| "class_retryable _ = False"

record er_error =
  message :: string
  err_class :: "error_class option"
  detail :: string
  unclassified_exit :: exit_code

definition new_error :: "string \<Rightarrow> error_class option \<Rightarrow> exit_code \<Rightarrow> er_error" where
  "new_error msg c u = \<lparr>message = msg, err_class = c, detail = msg, unclassified_exit = u\<rparr>"

definition stage_failure :: "string \<Rightarrow> er_error" where
  "stage_failure msg = new_error msg (Some DataClass) StageFailure"

definition non_convergence :: "string \<Rightarrow> er_error" where
  "non_convergence msg = new_error msg (Some NonConvergenceClass) StageFailure"

definition precondition_error :: "string \<Rightarrow> er_error" where
  "precondition_error msg = new_error msg (Some Precondition) StageFailure"

definition config_error :: "string \<Rightarrow> er_error" where
  "config_error msg = new_error msg (Some ConfigClass) StageFailure"

definition nothing_to_do :: "string \<Rightarrow> er_error" where
  "nothing_to_do msg = new_error msg None NothingToDo"

definition with_class :: "er_error \<Rightarrow> error_class \<Rightarrow> er_error" where
  "with_class e c = e\<lparr>err_class := Some c\<rparr>"

definition with_detail :: "er_error \<Rightarrow> string \<Rightarrow> er_error" where
  "with_detail e d = e\<lparr>detail := d\<rparr>"

definition err_code :: "er_error \<Rightarrow> int" where
  "err_code e = (case err_class e of
      Some c \<Rightarrow> exit_status (class_exit_code c)
    | None \<Rightarrow> exit_status (unclassified_exit e))"

definition err_retryable :: "er_error \<Rightarrow> bool" where
  "err_retryable e = (case err_class e of Some c \<Rightarrow> class_retryable c | None \<Rightarrow> False)"

definition err_classify :: "er_error \<Rightarrow> error_class" where
  "err_classify e = (case err_class e of Some c \<Rightarrow> c | None \<Rightarrow> UNCLASSIFIED)"

definition exit_code_for :: "int option \<Rightarrow> int" where
  "exit_code_for code = (case code of
      Some c \<Rightarrow> if c \<in> set [0, 1, 2, 3, 10] then c else exit_status StageFailure
    | None \<Rightarrow> exit_status StageFailure)"

subsection \<open>Reachable error values\<close>

text \<open>Every \<open>ErError\<close> the crate can build: the five constructors and the two overrides (the
  \<open>unclassified_exit\<close> field and \<open>new\<close> are private).\<close>

inductive built_error :: "er_error \<Rightarrow> bool" where
  stage: "built_error (stage_failure m)"
| nonconv: "built_error (non_convergence m)"
| precond: "built_error (precondition_error m)"
| conf: "built_error (config_error m)"
| nothing: "built_error (nothing_to_do m)"
| reclass: "built_error e \<Longrightarrow> built_error (with_class e c)"
| redetail: "built_error e \<Longrightarrow> built_error (with_detail e d)"

lemmas error_defs = new_error_def stage_failure_def non_convergence_def precondition_error_def
  config_error_def nothing_to_do_def with_class_def with_detail_def err_code_def err_retryable_def
  err_classify_def

lemma built_unclassified_is_no_op:
  "built_error e \<Longrightarrow> err_class e = None \<Longrightarrow> unclassified_exit e = NothingToDo"
  by (induction rule: built_error.induct) (auto simp: error_defs)

lemma class_status: "exit_status (class_exit_code c) \<in> {1, 2, 3}"
  by (cases c) auto

lemma retryable_status: "class_retryable c \<Longrightarrow> exit_status (class_exit_code c) \<in> {1, 3}"
  by (cases c) auto

text \<open>Every error value the crate can build exits with one of the contract's failure statuses
  1, 2, 3, or with 10 exactly when it carries no class; it never exits 0, is retryable only under
  the two external-cause classes, and the foreign-error rule passes its status through.\<close>

lemma error_exit_contract:
  assumes "built_error e"
  shows "err_code e \<in> {1, 2, 3, 10} \<and> (err_code e = 10 \<longleftrightarrow> err_class e = None)
    \<and> (err_retryable e \<longleftrightarrow> err_class e \<in> {Some TransientIo, Some LockConflict})
    \<and> exit_code_for (Some (err_code e)) = err_code e"
proof (cases "err_class e")
  case None
  with built_unclassified_is_no_op [OF assms] show ?thesis
    by (simp add: err_code_def err_retryable_def exit_code_for_def)
next
  case (Some c)
  then show ?thesis by (cases c) (simp_all add: err_code_def err_retryable_def exit_code_for_def)
qed

lemma error_exit_contract_witness:
  "built_error (with_class (stage_failure ''s3 5xx'') TransientIo)
   \<and> err_code (with_class (stage_failure ''s3 5xx'') TransientIo) \<in> {1, 2, 3, 10}"
proof -
  have "built_error (with_class (stage_failure ''s3 5xx'') TransientIo)"
    by (intro built_error.reclass built_error.stage)
  then show ?thesis using error_exit_contract by blast
qed

end
