(* ===== verification/Json.thy ===== *)
theory Json
  imports Prelude
begin

text \<open>
  The part of \<open>serde_json::Value\<close> the program reads: constructors, object lookup and the checked
  accessors. An object is the ordered map \<open>json!\<close> builds; a number is an integer or the text of
  a non-integer one.
\<close>

datatype json =
    JNull
  | JBool bool
  | JInt int
  | JFloat string
  | JStr string
  | JArr "json list"
  | JObj "(string \<times> json) list"

definition json_object :: "(string \<times> json) list \<Rightarrow> json" where
  "json_object kvs = JObj (bmap_collect kvs)"

fun json_get :: "json \<Rightarrow> string \<Rightarrow> json option" where
  "json_get (JObj m) k = map_of m k"
| "json_get _ k = None"

fun as_str :: "json \<Rightarrow> string option" where
  "as_str (JStr s) = Some s"
| "as_str _ = None"

fun as_i64 :: "json \<Rightarrow> int option" where
  "as_i64 (JInt n) = (if in_i64 n then Some n else None)"
| "as_i64 _ = None"

lemma json_get_object: "distinct (map fst kvs) \<Longrightarrow> json_get (json_object kvs) k = map_of kvs k"
  by (simp add: json_object_def bmap_get_collect_distinct)

lemma as_str_Some_iff [simp]: "as_str v = Some s \<longleftrightarrow> v = JStr s"
  by (cases v) auto

lemma as_i64_Some_iff [simp]: "as_i64 v = Some n \<longleftrightarrow> v = JInt n \<and> in_i64 n"
  by (cases v) auto

end
