(* ===== verification/DagPolicy.thy ===== *)
theory DagPolicy
  imports Prelude
begin

text \<open>
  Per-node execution policy of \<^verbatim>\<open>er-dag/src/policy.rs\<close>: resource classes with their
  escalation ladder, class rules, backoff, trigger rules and the two policy defaults.
\<close>

datatype resource_class = ClassS | ClassM | ClassL

fun class_rank :: "resource_class \<Rightarrow> nat" where
  "class_rank ClassS = 0" | "class_rank ClassM = 1" | "class_rank ClassL = 2"

lemma class_rank_inj: "class_rank a = class_rank b \<Longrightarrow> a = b"
  by (cases a; cases b) auto

instantiation resource_class :: linorder
begin

definition less_eq_resource_class :: "resource_class \<Rightarrow> resource_class \<Rightarrow> bool" where
  "less_eq_resource_class a b \<longleftrightarrow> class_rank a \<le> class_rank b"

definition less_resource_class :: "resource_class \<Rightarrow> resource_class \<Rightarrow> bool" where
  "less_resource_class a b \<longleftrightarrow> class_rank a < class_rank b"

instance
  by standard (auto simp: less_eq_resource_class_def less_resource_class_def intro: class_rank_inj)

end

fun class_str :: "resource_class \<Rightarrow> string" where
  "class_str ClassS = ''S''" | "class_str ClassM = ''M''" | "class_str ClassL = ''L''"

definition parse_class :: "string \<Rightarrow> resource_class option" where
  "parse_class s =
     (if s = ''S'' then Some ClassS else if s = ''M'' then Some ClassM
      else if s = ''L'' then Some ClassL else None)"

fun escalated :: "resource_class \<Rightarrow> resource_class option" where
  "escalated ClassS = Some ClassM"
| "escalated ClassM = Some ClassL"
| "escalated ClassL = None"

datatype class_rule = Fixed resource_class | FromRun

record backoff =
  base_secs :: nat
  cap_secs :: nat

datatype trigger_rule = AllSucceeded | AllTerminal | AnyFailed

fun trigger_rule_str :: "trigger_rule \<Rightarrow> string" where
  "trigger_rule_str AllSucceeded = ''all_succeeded''"
| "trigger_rule_str AllTerminal = ''all_terminal''"
| "trigger_rule_str AnyFailed = ''any_failed''"

record node_policy =
  p_retries :: nat
  p_backoff :: backoff
  p_timeout_secs :: "nat option"
  p_class :: class_rule
  p_escalate_on_oom :: bool
  p_segment :: "string option"
  p_teardown :: bool
  p_threads :: "nat option"

definition default_policy :: node_policy where
  "default_policy = \<lparr>p_retries = 2, p_backoff = \<lparr>base_secs = 30, cap_secs = 900\<rparr>,
     p_timeout_secs = None, p_class = FromRun, p_escalate_on_oom = False, p_segment = None,
     p_teardown = False, p_threads = None\<rparr>"

definition control_policy :: node_policy where
  "control_policy = default_policy\<lparr>p_backoff := \<lparr>base_secs = 5, cap_secs = 60\<rparr>,
     p_timeout_secs := Some 60\<rparr>"

lemma class_le_L: "c \<le> ClassL"
  by (cases c) (auto simp: less_eq_resource_class_def)

text \<open>The class names round-trip, and the out-of-memory ladder climbs one class at a time and
  stops at the largest: \<open>escalated\<close> is the least class above its argument, absent only at \<open>L\<close>.\<close>

lemma class_ladder:
  "(parse_class s = Some c \<longleftrightarrow> s = class_str c)
   \<and> (escalated c = Some c' \<longleftrightarrow> c < c' \<and> (\<forall>d. d \<le> c \<or> c' \<le> d))
   \<and> (escalated c = None \<longleftrightarrow> (\<forall>d. d \<le> c))"
proof (intro conjI)
  show "parse_class s = Some c \<longleftrightarrow> s = class_str c"
    by (cases c) (auto simp: parse_class_def)
  show "escalated c = Some c' \<longleftrightarrow> c < c' \<and> (\<forall>d. d \<le> c \<or> c' \<le> d)"
  proof -
    have all: "(\<forall>d. P d) \<longleftrightarrow> P ClassS \<and> P ClassM \<and> P ClassL" for P
      by (metis resource_class.exhaust)
    show ?thesis
      by (cases c; cases c')
        (simp_all add: all less_eq_resource_class_def less_resource_class_def)
  qed
  show "escalated c = None \<longleftrightarrow> (\<forall>d. d \<le> c)"
  proof (cases "c = ClassL")
    case True
    then show ?thesis by (simp add: class_le_L)
  next
    case False
    then have "\<not> ClassL \<le> c" by (cases c) (simp_all add: less_eq_resource_class_def)
    with False show ?thesis by (cases c) auto
  qed
qed

end
