(* ===== verification/Worklist.thy ===== *)
theory Worklist
  imports Prelude
begin

text \<open>
  The worklist step the graph walks of the program share: \<open>for d in succs { if seen.insert(d)
  { frontier.push(d) } }\<close>. A \<open>Vec\<close> used as a stack is a list whose head is the top. The
  locale \<open>finite_graph\<close> gives the facts every such walk rests on: a measure that each step
  decreases, and what a set closed under the edges says about reachability.
\<close>

fun push_new :: "'a list \<Rightarrow> 'a set \<Rightarrow> 'a list \<Rightarrow> 'a set \<times> 'a list" where
  "push_new [] seen fr = (seen, fr)"
| "push_new (d # ds) seen fr =
     (if d \<in> seen then push_new ds seen fr else push_new ds (insert d seen) (d # fr))"

lemma push_new_seen: "push_new ds seen fr = (seen', fr') \<Longrightarrow> seen' = seen \<union> set ds"
  by (induction ds seen fr rule: push_new.induct) (auto split: if_splits)

lemma push_new_frontier: "push_new ds seen fr = (seen', fr') \<Longrightarrow> set fr' = set fr \<union> (set ds - seen)"
  by (induction ds seen fr arbitrary: seen' fr' rule: push_new.induct) (auto split: if_splits)

lemma push_new_length:
  "push_new ds seen fr = (seen', fr') \<Longrightarrow> finite seen \<Longrightarrow>
     length fr' + card seen = length fr + card seen'"
proof (induction ds seen fr rule: push_new.induct)
  case (2 d ds seen fr)
  then show ?case by (cases "d \<in> seen") auto
qed simp

lemma push_new_same: "set ds \<subseteq> seen \<Longrightarrow> push_new ds seen fr = (seen, fr)"
  by (induction ds) auto

definition edge_rel :: "('a \<Rightarrow> 'a list) \<Rightarrow> ('a \<times> 'a) set" where
  "edge_rel succs = {(x, y). y \<in> set (succs x)}"

lemma edge_rel_iff [simp]: "(x, y) \<in> edge_rel succs \<longleftrightarrow> y \<in> set (succs x)"
  by (simp add: edge_rel_def)

lemma closed_reach:
  assumes "(x, y) \<in> (edge_rel succs)\<^sup>*" and "x \<in> V"
    and "\<And>v. v \<in> V \<Longrightarrow> set (succs v) \<subseteq> V"
  shows "y \<in> V"
  using assms(1,2) by (induction rule: rtrancl_induct) (use assms(3) in auto)

locale finite_graph =
  fixes succs :: "'a \<Rightarrow> 'a list" and nodes :: "'a set"
  assumes finite_nodes: "finite nodes"
    and succs_in: "set (succs x) \<subseteq> nodes"
begin

text \<open>One popped node: either new nodes were marked, or the stack shrank.\<close>

lemma push_decreases:
  assumes "push_new (succs x) seen fr = (seen', fr')"
  shows "card (nodes - seen') < card (nodes - seen)
       \<or> card (nodes - seen') = card (nodes - seen) \<and> length fr' < Suc (length fr)"
proof (cases "set (succs x) \<subseteq> seen")
  case True
  with assms show ?thesis by (simp add: push_new_same)
next
  case False
  then obtain y where "y \<in> set (succs x)" "y \<notin> seen" by auto
  then have "nodes - seen' \<subset> nodes - seen"
    using push_new_seen [OF assms] succs_in by auto
  then show ?thesis using finite_nodes by (simp add: psubset_card_mono)
qed

lemmas push_decreases_sym = push_decreases [OF sym]

text \<open>The invariant of a walk: every visited node is still on the stack or fully expanded.\<close>

definition expanded :: "'a set \<Rightarrow> 'a list \<Rightarrow> 'a set \<Rightarrow> bool" where
  "expanded V fr seen \<longleftrightarrow> (\<forall>x \<in> V. x \<in> set fr \<or> set (succs x) \<subseteq> seen)"

lemma expanded_push:
  assumes "expanded V (x # fr) seen" and "push_new (succs x) seen fr = (seen', fr')"
    and "seen \<subseteq> V"
  shows "expanded (V \<union> set (succs x)) fr' seen'"
  using assms(1,3) push_new_seen [OF assms(2)] push_new_frontier [OF assms(2)]
  unfolding expanded_def by (auto 5 3)

lemma reach_step:
  "x \<in> V \<Longrightarrow> (\<exists>v \<in> V \<union> set (succs x). (v, t) \<in> (edge_rel succs)\<^sup>*) \<longleftrightarrow>
     (\<exists>v \<in> V. (v, t) \<in> (edge_rel succs)\<^sup>*)"
  by (meson UnE UnI1 converse_rtrancl_into_rtrancl edge_rel_iff)

lemma expanded_done:
  "expanded V [] seen \<Longrightarrow> seen \<subseteq> V \<Longrightarrow> v \<in> V \<Longrightarrow> (v, t) \<in> (edge_rel succs)\<^sup>* \<Longrightarrow> t \<in> V"
  by (rule closed_reach [of v t succs V]) (auto simp: expanded_def)

lemma image_step: "x \<in> V \<Longrightarrow> (edge_rel succs)\<^sup>* `` (V \<union> set (succs x)) = (edge_rel succs)\<^sup>* `` V"
  using reach_step [of x V] by (auto simp: Image_def)

lemma image_done: "expanded V [] V \<Longrightarrow> (edge_rel succs)\<^sup>* `` V = V"
  using expanded_done [of V V] by auto

end

end
