(* ===== verification/Dag.thy ===== *)
theory Dag
  imports DagPolicy Worklist
begin

text \<open>
  The compiled graph of \<^verbatim>\<open>er-dag/src/builder.rs\<close> and \<^verbatim>\<open>er-dag/src/assembly.rs\<close>: nodes,
  the typed builder, reachability, the assembly checks and the two fingerprints. A
  \<open>Handle\<close>/\<open>NodeId\<close> is the node's index; a task type is the record of the constants the
  builder reads from it (\<open>NAME\<close>, \<open>VERSION\<close>, the stable names of its inputs and output,
  \<open>WRITES_LAKE\<close>, \<open>policy()\<close>). SHA-256 is the parameter \<open>sha256\<close>, from a byte
  string to its digest bytes.
\<close>

subsection \<open>Nodes and graphs\<close>

datatype node_kind = Pod | Control

fun node_kind_str :: "node_kind \<Rightarrow> string" where
  "node_kind_str Pod = ''pod''" | "node_kind_str Control = ''control''"

record node =
  n_task_id :: string
  n_version :: nat
  n_kind :: node_kind
  n_input_names :: "string list"
  n_output_name :: string
  n_writes_lake :: bool
  n_trigger_rule :: trigger_rule
  n_teardown :: bool
  n_policy :: node_policy
  n_upstream :: "nat list"

datatype assembly_error =
    Empty
  | DuplicateTaskName string
  | TeardownWithInputs string
  | EscalateOnFixedL string
  | SegmentNotContiguous string
  | SegmentClassMismatch string
  | UnorderedLakeWriters string string

record dag =
  dag_name :: string
  nodes :: "node list"
  structural_fingerprint :: string
  policy_hash :: string

definition node_by_task_id :: "dag \<Rightarrow> string \<Rightarrow> (nat \<times> node) option" where
  "node_by_task_id d task_id = find (\<lambda>(i, n). n_task_id n = task_id) (enumerate 0 (nodes d))"

definition downstream_in :: "node list \<Rightarrow> nat \<Rightarrow> nat list" where
  "downstream_in ns idx = map fst (filter (\<lambda>(i, n). idx \<in> set (n_upstream n)) (enumerate 0 ns))"

definition downstream_of :: "dag \<Rightarrow> nat \<Rightarrow> nat list" where
  "downstream_of d idx = downstream_in (nodes d) idx"

lemma set_downstream_in:
  "set (downstream_in ns i) = {j. j < length ns \<and> i \<in> set (n_upstream (ns ! j))}"
  by (force simp: downstream_in_def in_set_enumerate_eq)

interpretation down: finite_graph "downstream_in ns" "{..<length ns}" for ns
  by unfold_locales (auto simp: set_downstream_in)

subsection \<open>Reachability\<close>

fun scan_for :: "nat \<Rightarrow> nat list \<Rightarrow> nat set \<Rightarrow> nat list \<Rightarrow> (nat set \<times> nat list) option" where
  "scan_for to [] seen fr = Some (seen, fr)"
| "scan_for to (d # ds) seen fr =
     (if d = to then None
      else if d \<in> seen then scan_for to ds seen fr
      else scan_for to ds (insert d seen) (d # fr))"

lemma scan_for_push: "scan_for to ds seen fr = (if to \<in> set ds then None else Some (push_new ds seen fr))"
  by (induction to ds seen fr rule: scan_for.induct) auto

function reaches_loop :: "node list \<Rightarrow> nat \<Rightarrow> nat list \<Rightarrow> nat set \<Rightarrow> bool" where
  "reaches_loop ns to [] seen = False"
| "reaches_loop ns to (i # fr) seen =
     (case scan_for to (downstream_in ns i) seen fr of
        None \<Rightarrow> True
      | Some (seen', fr') \<Rightarrow> reaches_loop ns to fr' seen')"
  by pat_completeness auto
termination
  by (relation "measures [\<lambda>(ns, to, fr, seen). card ({..<length ns} - seen), \<lambda>(ns, to, fr, seen). length fr]")
    (auto simp: scan_for_push split: if_splits dest: down.push_decreases)

definition reaches :: "dag \<Rightarrow> nat \<Rightarrow> nat \<Rightarrow> bool" where
  "reaches d from to = (from = to \<or> reaches_loop (nodes d) to [from] {})"

abbreviation edges :: "node list \<Rightarrow> (nat \<times> nat) set" where
  "edges ns \<equiv> edge_rel (downstream_in ns)"

subsection \<open>Descriptions and fingerprints\<close>

fun show_bool :: "bool \<Rightarrow> string" where
  "show_bool True = ''true''" | "show_bool False = ''false''"

definition structural_line :: "node \<Rightarrow> string" where
  "structural_line n =
     n_task_id n @ ''|v'' @ show_nat (n_version n) @ ''|'' @ node_kind_str (n_kind n)
     @ ''|in:'' @ join_with '','' (n_input_names n) @ ''|out:'' @ n_output_name n
     @ ''|lake:'' @ show_bool (n_writes_lake n) @ ''|rule:'' @ trigger_rule_str (n_trigger_rule n)
     @ ''|teardown:'' @ show_bool (n_teardown n)
     @ ''|up:'' @ join_with '','' (map show_nat (n_upstream n))"

definition structural_lines :: "node list \<Rightarrow> string list" where
  "structural_lines ns = map structural_line ns"

text \<open>\<open>{:?}\<close> of an optional number and of an optional name (names are plain identifiers, so
  quoting is all the debug form adds).\<close>

definition debug_opt_nat :: "nat option \<Rightarrow> string" where
  "debug_opt_nat x = (case x of None \<Rightarrow> ''None'' | Some n \<Rightarrow> ''Some('' @ show_nat n @ '')'')"

definition debug_opt_name :: "string option \<Rightarrow> string" where
  "debug_opt_name x = (case x of None \<Rightarrow> ''None''
     | Some s \<Rightarrow> ''Some('' @ [CHR 34] @ s @ [CHR 34] @ '')'')"

definition policy_line :: "node \<Rightarrow> string" where
  "policy_line n =
     n_task_id n @ ''|retries:'' @ show_nat (p_retries (n_policy n))
     @ ''|backoff:'' @ show_nat (base_secs (p_backoff (n_policy n))) @ ''/''
     @ show_nat (cap_secs (p_backoff (n_policy n)))
     @ ''|timeout:'' @ debug_opt_nat (p_timeout_secs (n_policy n))
     @ ''|class:'' @ (case p_class (n_policy n) of Fixed c \<Rightarrow> ''fixed:'' @ class_str c
                                                | FromRun \<Rightarrow> ''from_run'')
     @ ''|escalate:'' @ show_bool (p_escalate_on_oom (n_policy n))
     @ ''|segment:'' @ debug_opt_name (p_segment (n_policy n))
     @ ''|threads:'' @ debug_opt_nat (p_threads (n_policy n))"

definition policy_lines :: "node list \<Rightarrow> string list" where
  "policy_lines ns = map policy_line ns"

subsection \<open>Assembly\<close>

fun check_nodes :: "node list \<Rightarrow> string set \<Rightarrow> assembly_error option" where
  "check_nodes [] seen = None"
| "check_nodes (n # ns) seen =
     (if n_task_id n \<in> seen then Some (DuplicateTaskName (n_task_id n))
      else if n_teardown n \<and> n_input_names n \<noteq> [] then Some (TeardownWithInputs (n_task_id n))
      else if p_escalate_on_oom (n_policy n) \<and> p_class (n_policy n) = Fixed ClassL
        then Some (EscalateOnFixedL (n_task_id n))
      else check_nodes ns (insert (n_task_id n) seen))"

definition node_segment :: "node \<Rightarrow> string option" where
  "node_segment n = p_segment (n_policy n)"

definition segments_of :: "node list \<Rightarrow> string list" where
  "segments_of ns = bset_of (List.map_filter node_segment ns)"

definition segment_members :: "node list \<Rightarrow> string \<Rightarrow> nat list" where
  "segment_members ns segment = filter (\<lambda>i. node_segment (ns ! i) = Some segment) [0..<length ns]"

fun consecutive :: "nat list \<Rightarrow> bool" where
  "consecutive (x # y # zs) = (y = x + 1 \<and> consecutive (y # zs))"
| "consecutive _ = True"

fun check_segments :: "node list \<Rightarrow> string list \<Rightarrow> assembly_error option" where
  "check_segments ns [] = None"
| "check_segments ns (segment # rest) =
     (let members = segment_members ns segment;
          first_class = p_class (n_policy (ns ! (members ! 0))) in
      if \<not> consecutive members then Some (SegmentNotContiguous segment)
      else if list_ex (\<lambda>i. p_class (n_policy (ns ! i)) \<noteq> first_class) members
        then Some (SegmentClassMismatch segment)
      else check_segments ns rest)"

definition lake_writers :: "node list \<Rightarrow> nat list" where
  "lake_writers ns = filter (\<lambda>i. n_writes_lake (ns ! i)) [0..<length ns]"

fun ordered_pairs :: "'a list \<Rightarrow> ('a \<times> 'a) list" where
  "ordered_pairs [] = []"
| "ordered_pairs (a # bs) = map (Pair a) bs @ ordered_pairs bs"

definition check_writers :: "dag \<Rightarrow> assembly_error option" where
  "check_writers d =
     map_option (\<lambda>(a, b). UnorderedLakeWriters (n_task_id (nodes d ! a)) (n_task_id (nodes d ! b)))
       (find (\<lambda>(a, b). \<not> reaches d a b \<and> \<not> reaches d b a) (ordered_pairs (lake_writers (nodes d))))"

definition sha256_hex :: "(string \<Rightarrow> nat list) \<Rightarrow> string list \<Rightarrow> string" where
  "sha256_hex sha256 parts = hex_bytes (sha256 (concat (map (\<lambda>p. p @ [CHR 10]) parts)))"

definition assemble :: "(string \<Rightarrow> nat list) \<Rightarrow> string \<Rightarrow> node list \<Rightarrow> assembly_error + dag" where
  "assemble sha256 name ns =
     (if ns = [] then Inl Empty
      else case check_nodes ns {} of Some e \<Rightarrow> Inl e | None \<Rightarrow>
      (case check_segments ns (segments_of ns) of Some e \<Rightarrow> Inl e | None \<Rightarrow>
       let d = \<lparr>dag_name = name, nodes = ns, structural_fingerprint = [], policy_hash = []\<rparr> in
       (case check_writers d of Some e \<Rightarrow> Inl e | None \<Rightarrow>
          Inr (d\<lparr>structural_fingerprint := sha256_hex sha256 ((''dag:'' @ name) # structural_lines ns),
                 policy_hash := sha256_hex sha256 (policy_lines ns)\<rparr>))))"

subsection \<open>The builder\<close>

record task_spec =
  t_name :: string
  t_version :: nat
  t_input_names :: "string list"
  t_output_name :: string
  t_writes_lake :: bool
  t_policy :: node_policy

record builder =
  b_name :: string
  b_nodes :: "node list"

definition new_builder :: "string \<Rightarrow> builder" where
  "new_builder name = \<lparr>b_name = name, b_nodes = []\<rparr>"

definition push_node :: "builder \<Rightarrow> node \<Rightarrow> builder \<times> nat" where
  "push_node b n = (b\<lparr>b_nodes := b_nodes b @ [n]\<rparr>, length (b_nodes b))"

definition then_task :: "builder \<Rightarrow> task_spec \<Rightarrow> nat list \<Rightarrow> builder \<times> nat" where
  "then_task b t deps = push_node b
     \<lparr>n_task_id = t_name t, n_version = t_version t, n_kind = Pod,
      n_input_names = t_input_names t, n_output_name = t_output_name t,
      n_writes_lake = t_writes_lake t, n_trigger_rule = AllSucceeded,
      n_teardown = p_teardown (t_policy t), n_policy = t_policy t, n_upstream = deps\<rparr>"

definition source_task :: "builder \<Rightarrow> task_spec \<Rightarrow> builder \<times> nat" where
  "source_task b t = then_task b t []"

definition control_task :: "builder \<Rightarrow> task_spec \<Rightarrow> nat list \<Rightarrow> builder \<times> nat" where
  "control_task b t deps = push_node b
     \<lparr>n_task_id = t_name t, n_version = t_version t, n_kind = Control,
      n_input_names = t_input_names t, n_output_name = t_output_name t,
      n_writes_lake = False, n_trigger_rule = AllSucceeded,
      n_teardown = p_teardown (t_policy t), n_policy = t_policy t, n_upstream = deps\<rparr>"

definition epilogue_task :: "builder \<Rightarrow> task_spec \<Rightarrow> nat list \<Rightarrow> trigger_rule \<Rightarrow> builder \<times> nat" where
  "epilogue_task b t after rule = push_node b
     \<lparr>n_task_id = t_name t, n_version = t_version t, n_kind = Pod,
      n_input_names = [], n_output_name = t_output_name t,
      n_writes_lake = t_writes_lake t, n_trigger_rule = rule,
      n_teardown = p_teardown (t_policy t), n_policy = t_policy t, n_upstream = after\<rparr>"

definition build :: "(string \<Rightarrow> nat list) \<Rightarrow> builder \<Rightarrow> assembly_error + dag" where
  "build sha256 b = assemble sha256 (b_name b) (b_nodes b)"

subsection \<open>Reachability is the reflexive-transitive closure of the edges\<close>

lemma reaches_loop_correct:
  assumes "to \<notin> V" "set fr \<subseteq> V" "seen \<subseteq> V" "down.expanded ns V fr seen"
  shows "reaches_loop ns to fr seen \<longleftrightarrow> (\<exists>v \<in> V. (v, to) \<in> (edges ns)\<^sup>*)"
  using assms
proof (induction ns to fr seen arbitrary: V rule: reaches_loop.induct)
  case (1 ns to seen)
  have "to \<in> V" if "v \<in> V" "(v, to) \<in> (edges ns)\<^sup>*" for v
    using down.expanded_done [OF "1.prems"(4,3) that] .
  with "1.prems"(1) show ?case by auto
next
  case (2 ns to i fr seen)
  show ?case
  proof (cases "to \<in> set (downstream_in ns i)")
    case True
    then have "(i, to) \<in> (edges ns)\<^sup>*" by auto
    with True 2 show ?thesis by (auto simp: scan_for_push)
  next
    case False
    obtain seen' fr' where push: "push_new (downstream_in ns i) seen fr = (seen', fr')" by fastforce
    let ?V = "V \<union> set (downstream_in ns i)"
    have "reaches_loop ns to fr' seen' \<longleftrightarrow> (\<exists>v \<in> ?V. (v, to) \<in> (edges ns)\<^sup>*)"
      using False "2.prems" push_new_seen [OF push] push_new_frontier [OF push]
        down.expanded_push [OF "2.prems"(4) push]
      by (intro "2.IH") (auto simp: scan_for_push push)
    with False push "2.prems" show ?thesis by (simp add: scan_for_push down.reach_step)
  qed
qed

lemma reaches_iff: "reaches d i j \<longleftrightarrow> (i, j) \<in> (edges (nodes d))\<^sup>*"
proof (cases "i = j")
  case False
  then have "reaches_loop (nodes d) j [i] {} \<longleftrightarrow> (\<exists>v \<in> {i}. (v, j) \<in> (edges (nodes d))\<^sup>*)"
    by (intro reaches_loop_correct) (auto simp: down.expanded_def)
  with False show ?thesis by (simp add: reaches_def)
qed (simp add: reaches_def)

subsection \<open>What assembly accepts\<close>

lemma check_nodes_None_iff:
  "check_nodes ns seen = None \<longleftrightarrow>
     distinct (map n_task_id ns) \<and> n_task_id ` set ns \<inter> seen = {}
     \<and> (\<forall>n \<in> set ns. (n_teardown n \<longrightarrow> n_input_names n = [])
          \<and> \<not> (p_escalate_on_oom (n_policy n) \<and> p_class (n_policy n) = Fixed ClassL))"
  by (induction ns seen rule: check_nodes.induct) auto

lemma consecutive_convex:
  assumes "consecutive xs" "sorted_wrt (<) xs" "i \<in> set xs" "k \<in> set xs" "i \<le> j" "j \<le> k"
  shows "j \<in> set xs"
  using assms
proof (induction xs arbitrary: i rule: consecutive.induct)
  case (1 x y zs)
  show ?case
  proof (cases "i = x")
    case True
    show ?thesis
    proof (cases "j = x")
      case False
      then have "y \<le> j" using True 1 by simp
      moreover have "k \<in> set (y # zs)" using False True 1 by auto
      ultimately show ?thesis using 1 by (auto intro!: "1.IH" [of y])
    qed simp
  next
    case False
    then have "i \<in> set (y # zs)" using 1 by simp
    moreover have "k \<in> set (y # zs)" using False 1 by auto
    ultimately show ?thesis using "1.IH" [of i] 1 by auto
  qed
qed auto

lemma convex_consecutive:
  assumes "sorted_wrt (<) xs"
    and "\<And>i j k. i \<in> set xs \<Longrightarrow> k \<in> set xs \<Longrightarrow> i < j \<Longrightarrow> j < k \<Longrightarrow> j \<in> set xs"
  shows "consecutive xs"
  using assms
proof (induction xs rule: consecutive.induct)
  case (1 x y zs)
  have "y = x + 1"
  proof (rule ccontr)
    assume "y \<noteq> x + 1"
    moreover have "x < y" using 1 by simp
    ultimately have "x + 1 \<in> set (x # y # zs)" using 1(3) [of x y "x + 1"] by simp
    with 1 \<open>y \<noteq> x + 1\<close> show False by auto
  qed
  have conv: "j \<in> set (y # zs)" if "i \<in> set (y # zs)" "k \<in> set (y # zs)" "i < j" "j < k" for i j k
  proof -
    have "j \<in> set (x # y # zs)" using that by (intro 1(3) [of i k j]) auto
    moreover have "x < i" using that 1(2) by auto
    ultimately show ?thesis using that by auto
  qed
  have "sorted_wrt (<) (y # zs)" using "1.prems"(1) by simp
  then have "consecutive (y # zs)" using conv by (rule "1.IH")
  with \<open>y = x + 1\<close> show ?case by simp
qed auto

lemma segment_members_sorted: "sorted_wrt (<) (segment_members ns s)"
  by (simp add: segment_members_def sorted_wrt_filter)

lemma set_segment_members:
  "set (segment_members ns s) = {i. i < length ns \<and> node_segment (ns ! i) = Some s}"
  by (auto simp: segment_members_def)

definition segment_contiguous :: "node list \<Rightarrow> string \<Rightarrow> bool" where
  "segment_contiguous ns s \<longleftrightarrow>
     (\<forall>i j k. i < j \<longrightarrow> j < k \<longrightarrow> k < length ns \<longrightarrow> node_segment (ns ! i) = Some s \<longrightarrow>
        node_segment (ns ! k) = Some s \<longrightarrow> node_segment (ns ! j) = Some s)"

definition segment_one_class :: "node list \<Rightarrow> string \<Rightarrow> bool" where
  "segment_one_class ns s \<longleftrightarrow>
     (\<forall>a \<in> set ns. \<forall>b \<in> set ns. node_segment a = Some s \<longrightarrow> node_segment b = Some s \<longrightarrow>
        p_class (n_policy a) = p_class (n_policy b))"

lemma consecutive_segment: "consecutive (segment_members ns s) \<longleftrightarrow> segment_contiguous ns s"
proof
  assume c: "consecutive (segment_members ns s)"
  show "segment_contiguous ns s"
    unfolding segment_contiguous_def
  proof (intro allI impI)
    fix i j k
    assume "i < j" "j < k" "k < length ns" "node_segment (ns ! i) = Some s" "node_segment (ns ! k) = Some s"
    then have "i \<in> set (segment_members ns s)" "k \<in> set (segment_members ns s)" "i \<le> j" "j \<le> k"
      by (simp_all add: set_segment_members)
    then have "j \<in> set (segment_members ns s)"
      by (rule consecutive_convex [OF c segment_members_sorted])
    then show "node_segment (ns ! j) = Some s" by (simp add: set_segment_members)
  qed
next
  assume "segment_contiguous ns s"
  then show "consecutive (segment_members ns s)"
    by (intro convex_consecutive segment_members_sorted)
      (auto simp: set_segment_members segment_contiguous_def)
qed

lemma segment_class_check:
  assumes "segment_members ns s \<noteq> []"
  shows "(\<not> list_ex (\<lambda>i. p_class (n_policy (ns ! i)) \<noteq>
            p_class (n_policy (ns ! (segment_members ns s ! 0)))) (segment_members ns s))
         \<longleftrightarrow> segment_one_class ns s"
proof -
  define f where "f = segment_members ns s ! 0"
  have f: "f < length ns" "node_segment (ns ! f) = Some s"
    using nth_mem [of 0 "segment_members ns s"] assms by (auto simp: f_def set_segment_members)
  have "segment_one_class ns s \<longleftrightarrow>
      (\<forall>i < length ns. node_segment (ns ! i) = Some s \<longrightarrow> p_class (n_policy (ns ! i)) = p_class (n_policy (ns ! f)))"
    (is "?L \<longleftrightarrow> ?R")
  proof
    assume ?L
    then show ?R unfolding segment_one_class_def using f by (metis nth_mem)
  next
    assume ?R
    then show ?L unfolding segment_one_class_def by (metis in_set_conv_nth)
  qed
  then show ?thesis
    unfolding f_def [symmetric] by (auto simp: list_ex_iff set_segment_members)
qed

lemma check_segments_None_iff:
  "\<forall>s \<in> set ss. segment_members ns s \<noteq> [] \<Longrightarrow>
   check_segments ns ss = None \<longleftrightarrow>
     (\<forall>s \<in> set ss. segment_contiguous ns s \<and> segment_one_class ns s)"
  by (induction ss) (auto simp: Let_def consecutive_segment segment_class_check [symmetric])

lemma set_segments_of: "set (segments_of ns) = {s. \<exists>n \<in> set ns. node_segment n = Some s}"
  by (auto simp: segments_of_def List.map_filter_def image_iff) force

lemma segments_have_members: "s \<in> set (segments_of ns) \<Longrightarrow> segment_members ns s \<noteq> []"
proof -
  assume "s \<in> set (segments_of ns)"
  then obtain i where "i < length ns" "node_segment (ns ! i) = Some s"
    by (auto simp: set_segments_of in_set_conv_nth)
  then have "i \<in> set (segment_members ns s)" by (simp add: set_segment_members)
  then show ?thesis by auto
qed

lemma set_ordered_pairs:
  "(a, b) \<in> set (ordered_pairs xs) \<longleftrightarrow> (\<exists>i j. i < j \<and> j < length xs \<and> xs ! i = a \<and> xs ! j = b)"
proof (induction xs)
  case (Cons x xs)
  have "(a, b) \<in> set (ordered_pairs (x # xs)) \<longleftrightarrow> (a = x \<and> b \<in> set xs) \<or> (a, b) \<in> set (ordered_pairs xs)"
    by auto
  also have "\<dots> \<longleftrightarrow> (\<exists>i j. i < j \<and> j < length (x # xs) \<and> (x # xs) ! i = a \<and> (x # xs) ! j = b)"
    unfolding Cons
  proof (safe, goal_cases)
    case 1
    then obtain j where "j < length xs" "xs ! j = b" by (auto simp: in_set_conv_nth)
    then show ?case by (intro exI [of _ 0] exI [of _ "Suc j"]) simp
  next
    case (2 i j)
    then show ?case by (intro exI [of _ "Suc i"] exI [of _ "Suc j"]) simp
  next
    case (3 i j)
    then obtain j' where j: "j = Suc j'" "j' < length xs" by (cases j) auto
    with 3 show ?case
    proof (cases i)
      case (Suc i')
      with 3 j show ?thesis by (auto intro: exI [of _ i'] exI [of _ j'])
    qed auto
  next
    case (4 i j)
    then obtain j' where j: "j = Suc j'" "j' < length xs" by (cases j) auto
    with 4 show ?case
    proof (cases i)
      case (Suc i')
      with 4 j show ?thesis by (auto intro: exI [of _ i'] exI [of _ j'])
    qed auto
  qed
  finally show ?case .
qed simp

lemma ordered_pairs_Ball:
  assumes "symp P"
  shows "(\<forall>(a, b) \<in> set (ordered_pairs xs). P a b) \<longleftrightarrow>
    (\<forall>i < length xs. \<forall>j < length xs. i \<noteq> j \<longrightarrow> P (xs ! i) (xs ! j))"
proof
  assume L: "\<forall>(a, b) \<in> set (ordered_pairs xs). P a b"
  have *: "P (xs ! i) (xs ! j)" if "i < j" "j < length xs" for i j
    using L that set_ordered_pairs [of "xs ! i" "xs ! j" xs] by auto
  then show "\<forall>i < length xs. \<forall>j < length xs. i \<noteq> j \<longrightarrow> P (xs ! i) (xs ! j)"
    using sympD [OF assms] by (metis linorder_neqE_nat)
next
  assume R: "\<forall>i < length xs. \<forall>j < length xs. i \<noteq> j \<longrightarrow> P (xs ! i) (xs ! j)"
  show "\<forall>(a, b) \<in> set (ordered_pairs xs). P a b"
  proof clarify
    fix a b
    assume "(a, b) \<in> set (ordered_pairs xs)"
    then obtain i j where "i < j" "j < length xs" "xs ! i = a" "xs ! j = b"
      by (auto simp: set_ordered_pairs)
    with R show "P a b" by (metis less_trans nat_neq_iff)
  qed
qed

definition writers_ordered :: "node list \<Rightarrow> bool" where
  "writers_ordered ns \<longleftrightarrow>
     (\<forall>i < length ns. \<forall>j < length ns. n_writes_lake (ns ! i) \<longrightarrow> n_writes_lake (ns ! j) \<longrightarrow>
        (i, j) \<in> (edges ns)\<^sup>* \<or> (j, i) \<in> (edges ns)\<^sup>*)"

lemma check_writers_None_iff: "check_writers d = None \<longleftrightarrow> writers_ordered (nodes d)"
proof -
  let ?P = "\<lambda>a b. (a, b) \<in> (edges (nodes d))\<^sup>* \<or> (b, a) \<in> (edges (nodes d))\<^sup>*"
  let ?w = "lake_writers (nodes d)"
  have "check_writers d = None \<longleftrightarrow> (\<forall>(a, b) \<in> set (ordered_pairs ?w). ?P a b)"
    by (force simp: check_writers_def find_None_iff reaches_iff)
  also have "\<dots> \<longleftrightarrow> (\<forall>i < length ?w. \<forall>j < length ?w. i \<noteq> j \<longrightarrow> ?P (?w ! i) (?w ! j))"
    by (rule ordered_pairs_Ball) (auto simp: symp_def)
  also have "\<dots> \<longleftrightarrow> (\<forall>a \<in> set ?w. \<forall>b \<in> set ?w. ?P a b)"
    (is "?L \<longleftrightarrow> ?R")
  proof
    assume ?L
    then have "?P (?w ! i) (?w ! j)" if "i < length ?w" "j < length ?w" for i j
      using that by (cases "i = j") auto
    then show ?R by (metis (no_types, lifting) in_set_conv_nth)
  next
    assume ?R
    then show ?L by (meson nth_mem)
  qed
  also have "\<dots> \<longleftrightarrow> writers_ordered (nodes d)"
    by (auto simp: writers_ordered_def lake_writers_def)
  finally show ?thesis .
qed

definition assembly_ok :: "node list \<Rightarrow> bool" where
  "assembly_ok ns \<longleftrightarrow> ns \<noteq> [] \<and> distinct (map n_task_id ns)
     \<and> (\<forall>n \<in> set ns. n_teardown n \<longrightarrow> n_input_names n = [])
     \<and> (\<forall>n \<in> set ns. \<not> (p_escalate_on_oom (n_policy n) \<and> p_class (n_policy n) = Fixed ClassL))
     \<and> (\<forall>s. segment_contiguous ns s \<and> segment_one_class ns s)
     \<and> writers_ordered ns"

lemma no_segment_trivial:
  "s \<notin> set (segments_of ns) \<Longrightarrow> segment_contiguous ns s \<and> segment_one_class ns s"
proof
  assume none: "s \<notin> set (segments_of ns)"
  then have "node_segment n \<noteq> Some s" if "n \<in> set ns" for n using that by (auto simp: set_segments_of)
  then show "segment_contiguous ns s" and "segment_one_class ns s"
    by (auto simp: segment_contiguous_def segment_one_class_def)
qed

subsection \<open>The builder's graphs\<close>

definition topological :: "node list \<Rightarrow> bool" where
  "topological ns \<longleftrightarrow> (\<forall>i < length ns. \<forall>u \<in> set (n_upstream (ns ! i)). u < i)"

text \<open>A program that builds a graph: it holds only handles this builder minted, passes one handle
  per declared input, and gives \<open>epilogue\<close> a task without inputs (\<open>Input = ()\<close>).\<close>

inductive built :: "builder \<Rightarrow> bool" where
  new: "built (new_builder name)"
| source: "built b \<Longrightarrow> t_input_names t = [] \<Longrightarrow> built (fst (source_task b t))"
| then_: "built b \<Longrightarrow> set deps \<subseteq> {..<length (b_nodes b)} \<Longrightarrow> length deps = length (t_input_names t) \<Longrightarrow>
    built (fst (then_task b t deps))"
| control: "built b \<Longrightarrow> set deps \<subseteq> {..<length (b_nodes b)} \<Longrightarrow> length deps = length (t_input_names t) \<Longrightarrow>
    built (fst (control_task b t deps))"
| epilogue: "built b \<Longrightarrow> set after \<subseteq> {..<length (b_nodes b)} \<Longrightarrow> t_input_names t = [] \<Longrightarrow>
    built (fst (epilogue_task b t after rule))"

lemmas builder_defs = new_builder_def push_node_def then_task_def source_task_def control_task_def
  epilogue_task_def

definition node_typed :: "node \<Rightarrow> bool" where
  "node_typed n \<longleftrightarrow>
     (n_trigger_rule n \<noteq> AllSucceeded \<longrightarrow> n_input_names n = [])
     \<and> (n_kind n = Control \<longrightarrow> \<not> n_writes_lake n)
     \<and> n_teardown n = p_teardown (n_policy n)
     \<and> (n_input_names n \<noteq> [] \<longrightarrow> length (n_upstream n) = length (n_input_names n))"

lemma topological_snoc:
  "topological ns \<Longrightarrow> set (n_upstream n) \<subseteq> {..<length ns} \<Longrightarrow> topological (ns @ [n])"
  by (auto simp: topological_def nth_append less_Suc_eq split: if_splits)

lemma built_invariant: "built b \<Longrightarrow> topological (b_nodes b) \<and> list_all node_typed (b_nodes b)"
proof (induction rule: built.induct)
  case (new name)
  then show ?case by (simp add: builder_defs topological_def)
qed (auto simp: builder_defs node_typed_def intro!: topological_snoc)

lemma topological_edges_increase: "topological ns \<Longrightarrow> (i, j) \<in> edges ns \<Longrightarrow> i < j"
  by (auto simp: set_downstream_in topological_def)

lemma topological_trancl_increase:
  assumes "topological ns" and "(i, j) \<in> (edges ns)\<^sup>+"
  shows "i < j"
  using assms(2)
proof (induction rule: trancl_induct)
  case (base y)
  then show ?case using topological_edges_increase [OF assms(1)] by blast
next
  case (step y z)
  then show ?case using topological_edges_increase [OF assms(1), of y z] by simp
qed

lemma assemble_Inr_iff:
  "assemble sha256 name ns = Inr d \<longleftrightarrow> assembly_ok ns
     \<and> d = \<lparr>dag_name = name, nodes = ns,
            structural_fingerprint = sha256_hex sha256 ((''dag:'' @ name) # structural_lines ns),
            policy_hash = sha256_hex sha256 (policy_lines ns)\<rparr>"
proof -
  let ?d = "\<lparr>dag_name = name, nodes = ns, structural_fingerprint = [], policy_hash = []\<rparr>"
  have "check_segments ns (segments_of ns) = None \<longleftrightarrow>
      (\<forall>s. segment_contiguous ns s \<and> segment_one_class ns s)"
    using check_segments_None_iff [of "segments_of ns" ns] segments_have_members no_segment_trivial
    by blast
  then have "assembly_ok ns \<longleftrightarrow> ns \<noteq> [] \<and> check_nodes ns {} = None
      \<and> check_segments ns (segments_of ns) = None \<and> check_writers ?d = None"
    by (auto simp only: assembly_ok_def check_nodes_None_iff check_writers_None_iff dag.simps)
  then show ?thesis by (auto simp: assemble_def Let_def split: option.splits)
qed

subsection \<open>Properties\<close>

text \<open>\<open>Dag::reaches\<close> terminates on every graph and answers exactly whether there is a path along
  the edges.\<close>

lemma reaches_is_path: "reaches d from to \<longleftrightarrow> (from, to) \<in> (edges (nodes d))\<^sup>*"
  by (rule reaches_iff)

text \<open>C36: \<open>assemble\<close> accepts a node list exactly when it is non-empty, task names are distinct, no
  teardown node has data inputs, no node escalates from a fixed L class, every fusion segment is
  contiguous and of one class, and any two lake writers are connected by a path; the accepted graph
  has those nodes.\<close>

theorem assemble_iff_ok:
  "assemble sha256 name ns = Inr d \<longleftrightarrow> assembly_ok ns
     \<and> d = \<lparr>dag_name = name, nodes = ns,
            structural_fingerprint = sha256_hex sha256 ((''dag:'' @ name) # structural_lines ns),
            policy_hash = sha256_hex sha256 (policy_lines ns)\<rparr>"
  by (rule assemble_Inr_iff)

text \<open>A graph a program builds from its own handles is acyclic with registration order as a
  topological order: every edge goes from a lower to a higher index. A node with a non-default
  trigger rule has no data inputs, a control node never writes the lake, and each data input has
  its one upstream.\<close>

lemma built_graph_acyclic:
  assumes "built b"
  shows "(\<forall>(i, j) \<in> (edges (b_nodes b))\<^sup>+. i < j) \<and> acyclic (edges (b_nodes b))
    \<and> (\<forall>n \<in> set (b_nodes b). node_typed n)"
proof -
  note inv = built_invariant [OF assms]
  then have "\<forall>(i, j) \<in> (edges (b_nodes b))\<^sup>+. i < j"
    using topological_trancl_increase by blast
  then show ?thesis using inv by (auto simp: acyclic_def list_all_iff)
qed

definition sample_task :: "string \<Rightarrow> string list \<Rightarrow> bool \<Rightarrow> task_spec" where
  "sample_task name ins writes = \<lparr>t_name = name, t_version = 1, t_input_names = ins,
     t_output_name = name, t_writes_lake = writes, t_policy = default_policy\<rparr>"

lemma built_graph_acyclic_witness:
  "acyclic (edges (b_nodes (fst (then_task (fst (source_task (new_builder ''full'')
     (sample_task ''ingest'' [] True))) (sample_task ''match'' [''ingest''] True) [0]))))"
proof -
  have "built (fst (then_task (fst (source_task (new_builder ''full'')
     (sample_task ''ingest'' [] True))) (sample_task ''match'' [''ingest''] True) [0]))"
    by (intro built.intros) (simp_all add: sample_task_def builder_defs)
  then show ?thesis using built_graph_acyclic by blast
qed

text \<open>The execution policy never reaches the structural fingerprint: two graphs that differ in
  nothing but their nodes' policies assemble to the same fingerprint, so a policy change never
  refuses a resume.\<close>

lemma policy_outside_fingerprint:
  assumes "assemble sha256 name ns = Inr d" and "assemble sha256 name ns' = Inr d'"
    and "map (\<lambda>n. n\<lparr>n_policy := default_policy\<rparr>) ns = map (\<lambda>n. n\<lparr>n_policy := default_policy\<rparr>) ns'"
  shows "structural_fingerprint d = structural_fingerprint d'"
proof -
  have line: "structural_line (n\<lparr>n_policy := default_policy\<rparr>) = structural_line n" for n
    by (simp add: structural_line_def)
  have "structural_lines ns = structural_lines (map (\<lambda>n. n\<lparr>n_policy := default_policy\<rparr>) ns)" for ns
    by (simp add: structural_lines_def line)
  then have "structural_lines ns = structural_lines ns'" using assms(3) by metis
  moreover have "structural_fingerprint d = sha256_hex sha256 ((''dag:'' @ name) # structural_lines ns)"
    "structural_fingerprint d' = sha256_hex sha256 ((''dag:'' @ name) # structural_lines ns')"
    using assms(1,2) by (auto simp: assemble_def Let_def split: if_splits option.splits)
  ultimately show ?thesis by simp
qed

definition sample_node :: "string \<Rightarrow> nat list \<Rightarrow> node" where
  "sample_node name up = \<lparr>n_task_id = name, n_version = 1, n_kind = Pod, n_input_names = [],
     n_output_name = name, n_writes_lake = True, n_trigger_rule = AllSucceeded, n_teardown = False,
     n_policy = default_policy, n_upstream = up\<rparr>"

lemma policy_outside_fingerprint_witness:
  "\<exists>d d'. assemble (\<lambda>s. [length s]) ''k'' [sample_node ''a'' []] = Inr d
     \<and> assemble (\<lambda>s. [length s]) ''k'' [(sample_node ''a'' [])\<lparr>n_policy := control_policy\<rparr>] = Inr d'
     \<and> policy_hash d \<noteq> policy_hash d' \<and> structural_fingerprint d = structural_fingerprint d'"
proof -
  let ?n = "sample_node ''a'' []" and ?m = "(sample_node ''a'' [])\<lparr>n_policy := control_policy\<rparr>"
  have ok: "assembly_ok [?n]" "assembly_ok [?m]"
    by (simp_all add: assembly_ok_def sample_node_def default_policy_def control_policy_def
        segment_contiguous_def segment_one_class_def writers_ordered_def)
  obtain d d' where a: "assemble (\<lambda>s. [length s]) ''k'' [?n] = Inr d" and b: "assemble (\<lambda>s. [length s]) ''k'' [?m] = Inr d'"
    using ok by (simp add: assemble_Inr_iff)
  have "sha256_hex (\<lambda>s. [length s]) (policy_lines [?n]) \<noteq> sha256_hex (\<lambda>s. [length s]) (policy_lines [?m])"
    by (simp add: sha256_hex_def hex_bytes_def hex_byte_def hex_digit_def debug_opt_nat_def debug_opt_name_def
        policy_lines_def policy_line_def sample_node_def default_policy_def
        control_policy_def show_nat.simps)
  then have "policy_hash d \<noteq> policy_hash d'" using a b by (simp add: assemble_Inr_iff)
  with a b policy_outside_fingerprint [OF a b] show ?thesis by auto
qed

end
