(* ===== verification/Readiness.thy ===== *)
theory Readiness
  imports Dag
begin

text \<open>
  The readiness evaluator of \<^verbatim>\<open>er-dag/src/readiness.rs\<close>: the closed task-state set and its
  classes, one trigger-rule evaluation, the readiness pass over a job's live states and the settle
  check. An \<open>assert_eq!\<close> or an index outside the state vector is \<open>Panic\<close>. The effect of
  recording a pass (the guarded \<open>mark_scheduled\<close> and \<open>propagate\<close> statements, which move a
  \<open>none\<close> row) is \<open>apply_actions\<close>.
\<close>

datatype task_state =
    NoneState | Scheduled | Queued | Running | UpForRetry | Restarting | Canceling
  | Succeeded | Skipped | Failed | TimedOut | UpstreamFailed | UpstreamSkipped | Canceled

datatype state_class = SuccessLike | SkipLike | FailureLike | StopLike | Pending

definition task_state_ALL :: "task_state list" where
  "task_state_ALL = [NoneState, Scheduled, Queued, Running, UpForRetry, Restarting, Canceling,
     Succeeded, Skipped, Failed, TimedOut, UpstreamFailed, UpstreamSkipped, Canceled]"

fun task_state_str :: "task_state \<Rightarrow> string" where
  "task_state_str NoneState = ''none''"
| "task_state_str Scheduled = ''scheduled''"
| "task_state_str Queued = ''queued''"
| "task_state_str Running = ''running''"
| "task_state_str UpForRetry = ''up_for_retry''"
| "task_state_str Restarting = ''restarting''"
| "task_state_str Canceling = ''canceling''"
| "task_state_str Succeeded = ''succeeded''"
| "task_state_str Skipped = ''skipped''"
| "task_state_str Failed = ''failed''"
| "task_state_str TimedOut = ''timed_out''"
| "task_state_str UpstreamFailed = ''upstream_failed''"
| "task_state_str UpstreamSkipped = ''upstream_skipped''"
| "task_state_str Canceled = ''canceled''"

definition parse_task_state :: "string \<Rightarrow> task_state option" where
  "parse_task_state s = find (\<lambda>t. task_state_str t = s) task_state_ALL"

fun class_of :: "task_state \<Rightarrow> state_class" where
  "class_of Succeeded = SuccessLike"
| "class_of Skipped = SkipLike"
| "class_of UpstreamSkipped = SkipLike"
| "class_of Failed = FailureLike"
| "class_of TimedOut = FailureLike"
| "class_of UpstreamFailed = FailureLike"
| "class_of Canceled = StopLike"
| "class_of NoneState = Pending"
| "class_of Scheduled = Pending"
| "class_of Queued = Pending"
| "class_of Running = Pending"
| "class_of UpForRetry = Pending"
| "class_of Restarting = Pending"
| "class_of Canceling = Pending"

definition is_terminal :: "task_state \<Rightarrow> bool" where
  "is_terminal s = (class_of s \<noteq> Pending)"

datatype verdict = Fire | Propagate task_state | Wait

definition evaluate :: "trigger_rule \<Rightarrow> task_state list \<Rightarrow> verdict" where
  "evaluate rule upstream =
     (if list_ex (\<lambda>s. \<not> is_terminal s) upstream then Wait
      else case rule of
        AllSucceeded \<Rightarrow>
          (let non_success = filter (\<lambda>c. c \<noteq> SuccessLike) (map class_of upstream) in
           if non_success = [] then Fire
           else if list_all (\<lambda>c. c = SkipLike) non_success then Propagate UpstreamSkipped
           else if list_all (\<lambda>c. c = StopLike) non_success then Propagate Canceled
           else Propagate UpstreamFailed)
      | AllTerminal \<Rightarrow> Fire
      | AnyFailed \<Rightarrow>
          (if list_ex (\<lambda>s. class_of s = FailureLike) upstream then Fire
           else Propagate UpstreamSkipped))"

datatype pass_action = Schedule | PropagateTo task_state

definition lookup_all :: "task_state list \<Rightarrow> nat list \<Rightarrow> task_state list outcome" where
  "lookup_all states us =
     (if list_all (\<lambda>u. u < length states) us then Ret (map (nth states) us) else Panic)"

fun pass_loop ::
  "node list \<Rightarrow> nat \<Rightarrow> task_state list \<Rightarrow> (nat \<times> pass_action) list \<Rightarrow>
     (task_state list \<times> (nat \<times> pass_action) list) outcome" where
  "pass_loop [] idx effective actions = Ret (effective, actions)"
| "pass_loop (n # ns) idx effective actions =
     (if effective ! idx \<noteq> NoneState then pass_loop ns (Suc idx) effective actions
      else bind_outcome (lookup_all effective (n_upstream n)) (\<lambda>upstream.
        case evaluate (n_trigger_rule n) upstream of
          Fire \<Rightarrow> pass_loop ns (Suc idx) effective (actions @ [(idx, Schedule)])
        | Propagate state \<Rightarrow>
            pass_loop ns (Suc idx) (effective[idx := state]) (actions @ [(idx, PropagateTo state)])
        | Wait \<Rightarrow> pass_loop ns (Suc idx) effective actions))"

definition pass :: "dag \<Rightarrow> task_state list \<Rightarrow> (nat \<times> pass_action) list outcome" where
  "pass d states =
     (if length states \<noteq> length (nodes d) then Panic
      else bind_outcome (pass_loop (nodes d) 0 states []) (\<lambda>(effective, actions). Ret actions))"

datatype settle_verdict = NotYet | Settled task_state | Deadlock nat

fun all_terminal :: "task_state list \<Rightarrow> nat list \<Rightarrow> bool outcome" where
  "all_terminal states [] = Ret True"
| "all_terminal states (u # us) =
     (if \<not> u < length states then Panic
      else if is_terminal (states ! u) then all_terminal states us else Ret False)"

fun settle_scan :: "node list \<Rightarrow> task_state list \<Rightarrow> nat list \<Rightarrow> settle_verdict option outcome" where
  "settle_scan ns states [] = Ret None"
| "settle_scan ns states (idx # rest) =
     (if is_terminal (states ! idx) then settle_scan ns states rest
      else if states ! idx = NoneState
        then bind_outcome (all_terminal states (n_upstream (ns ! idx)))
               (\<lambda>b. Ret (Some (if b then Deadlock idx else NotYet)))
      else Ret (Some NotYet))"

definition settle_leaves :: "dag \<Rightarrow> nat list" where
  "settle_leaves d = filter
     (\<lambda>i. \<not> n_teardown (nodes d ! i) \<and> list_all (\<lambda>j. n_teardown (nodes d ! j)) (downstream_of d i))
     [0..<length (nodes d)]"

definition settle :: "dag \<Rightarrow> task_state list \<Rightarrow> settle_verdict outcome" where
  "settle d states =
     (if length states \<noteq> length (nodes d) then Panic
      else bind_outcome (settle_scan (nodes d) states [0..<length states]) (\<lambda>r.
        case r of Some v \<Rightarrow> Ret v | None \<Rightarrow>
        (let classes = map (\<lambda>i. class_of (states ! i)) (settle_leaves d) in
         Ret (Settled (if FailureLike \<in> set classes then Failed
                       else if StopLike \<in> set classes then Canceled
                       else Succeeded)))))"

fun action_state :: "pass_action \<Rightarrow> task_state" where
  "action_state Schedule = Scheduled"
| "action_state (PropagateTo s) = s"

definition apply_actions :: "task_state list \<Rightarrow> (nat \<times> pass_action) list \<Rightarrow> task_state list" where
  "apply_actions states actions = fold (\<lambda>(i, a) st. st[i := action_state a]) actions states"

subsection \<open>Evaluation depends on the state classes only\<close>

lemma evaluate_class_cong:
  assumes "map class_of xs = map class_of ys"
  shows "evaluate rule xs = evaluate rule ys"
proof -
  have ex: "list_ex (\<lambda>s. P (class_of s)) zs \<longleftrightarrow> (\<exists>c \<in> set (map class_of zs). P c)" for P zs
    by (auto simp: list_ex_iff)
  show ?thesis
    unfolding evaluate_def is_terminal_def ex [of "\<lambda>c. \<not> c \<noteq> Pending"] ex [of "\<lambda>c. c = FailureLike"] assms
    by (rule refl)
qed

lemma evaluate_Wait_iff: "evaluate rule xs = Wait \<longleftrightarrow> (\<exists>s \<in> set xs. \<not> is_terminal s)"
  by (auto simp: evaluate_def Let_def list_ex_iff split: trigger_rule.splits)

lemma evaluate_Propagate_terminal: "evaluate rule xs = Propagate s \<Longrightarrow> is_terminal s \<and> s \<noteq> NoneState"
  by (auto simp: evaluate_def Let_def is_terminal_def split: trigger_rule.splits if_splits)

subsection \<open>One pass, node by node\<close>

definition decided ::
  "node list \<Rightarrow> task_state list \<Rightarrow> task_state list \<Rightarrow> (nat \<times> pass_action) list \<Rightarrow> nat \<Rightarrow> bool" where
  "decided ns eff eff' acts i \<longleftrightarrow>
     (if eff ! i \<noteq> NoneState then eff' ! i = eff ! i \<and> i \<notin> fst ` set acts
      else case evaluate (n_trigger_rule (ns ! i)) (map (nth eff') (n_upstream (ns ! i))) of
        Fire \<Rightarrow> eff' ! i = NoneState \<and> (i, Schedule) \<in> set acts
      | Propagate s \<Rightarrow> eff' ! i = s \<and> (i, PropagateTo s) \<in> set acts
      | Wait \<Rightarrow> eff' ! i = NoneState \<and> i \<notin> fst ` set acts)"

lemma topological_up: "topological ns \<Longrightarrow> k < length ns \<Longrightarrow> u \<in> set (n_upstream (ns ! k)) \<Longrightarrow> u < k"
  by (auto simp: topological_def)

lemma lookup_all_topological:
  "topological ns \<Longrightarrow> k < length ns \<Longrightarrow> length eff = length ns \<Longrightarrow>
     lookup_all eff (n_upstream (ns ! k)) = Ret (map (nth eff) (n_upstream (ns ! k)))"
  using topological_up [of ns k] by (fastforce simp: lookup_all_def list_all_iff)

lemma decided_cons:
  assumes "decided ns e1 eff' new i" "e1 ! i = eff ! i" "i \<notin> fst ` set a"
  shows "decided ns eff eff' (a @ new) i"
  using assms unfolding decided_def by (auto split: if_splits verdict.splits)

lemma pass_loop_spec:
  assumes "topological ns" "length eff = length ns" "k \<le> length ns"
  shows "\<exists>eff' new. pass_loop (drop k ns) k eff acts = Ret (eff', acts @ new)
     \<and> length eff' = length eff \<and> (\<forall>i < k. eff' ! i = eff ! i)
     \<and> fst ` set new \<subseteq> {k..<length ns} \<and> distinct (map fst new)
     \<and> (\<forall>i. k \<le> i \<longrightarrow> i < length ns \<longrightarrow> decided ns eff eff' new i)"
  using assms(3,2)
proof (induction k arbitrary: eff acts rule: inc_induct)
  case base
  then show ?case by simp
next
  case (step k)
  let ?n = "ns ! k" and ?up = "n_upstream (ns ! k)"
  have drop: "drop k ns = ?n # drop (Suc k) ns" using step.hyps by (simp add: Cons_nth_drop_Suc)
  have goal: ?case
    if run: "pass_loop (drop k ns) k eff acts = pass_loop (drop (Suc k) ns) (Suc k) e1 (acts @ a)"
      and e1: "length e1 = length eff" "\<forall>i. i \<noteq> k \<longrightarrow> e1 ! i = eff ! i"
      and a: "set a \<subseteq> {k} \<times> UNIV" "length a \<le> 1"
      and dk: "\<And>eff' new. evaluate (n_trigger_rule ?n) (map (nth eff') ?up) =
            evaluate (n_trigger_rule ?n) (map (nth eff) ?up) \<Longrightarrow> eff' ! k = e1 ! k \<Longrightarrow>
          fst ` set new \<subseteq> {Suc k..} \<Longrightarrow> decided ns eff eff' (a @ new) k" for e1 a
  proof -
    obtain eff' new where IH: "pass_loop (drop (Suc k) ns) (Suc k) e1 (acts @ a) = Ret (eff', (acts @ a) @ new)"
      "length eff' = length e1" "\<forall>i < Suc k. eff' ! i = e1 ! i" "fst ` set new \<subseteq> {Suc k..<length ns}"
      "distinct (map fst new)" "\<forall>i. Suc k \<le> i \<longrightarrow> i < length ns \<longrightarrow> decided ns e1 eff' new i"
      using step.IH [of e1 "acts @ a"] e1 step.prems by auto
    have pre: "\<forall>i < k. eff' ! i = eff ! i" using IH(3) e1(2) by simp
    moreover have "fst ` set (a @ new) \<subseteq> {k..<length ns}"
      using a(1) IH(4) step.hyps by fastforce
    moreover have "distinct (map fst (a @ new))"
      using a IH(4,5) by (cases a) (auto simp: Suc_le_eq)
    moreover have "decided ns eff eff' (a @ new) i" if i: "k \<le> i" "i < length ns" for i
    proof (cases "i = k")
      case True
      have "eff' ! u = eff ! u" if "u \<in> set ?up" for u
        using pre topological_up [OF assms(1) step.hyps(2) that] by simp
      then have "map (nth eff') ?up = map (nth eff) ?up" by simp
      then have "evaluate (n_trigger_rule ?n) (map (nth eff') ?up) =
            evaluate (n_trigger_rule ?n) (map (nth eff) ?up)" by (rule arg_cong)
      moreover have "eff' ! k = e1 ! k" using IH(3) by simp
      moreover have "fst ` set new \<subseteq> {Suc k..}" using IH(4) by auto
      ultimately show ?thesis using True dk by simp
    next
      case False
      then show ?thesis using i IH(6) e1(2) a(1) by (intro decided_cons [of ns e1]) auto
    qed
    ultimately show ?thesis using run IH(1,2) e1(1) by (intro exI [of _ eff'] exI [of _ "a @ new"]) simp
  qed
  have notin: "k \<notin> fst ` set new" if "fst ` set new \<subseteq> {Suc k..}" for new :: "(nat \<times> pass_action) list"
    using that by auto
  note look = lookup_all_topological [OF assms(1) step.hyps(2) step.prems]
  show ?case
  proof (cases "eff ! k = NoneState")
    case False
    then show ?thesis
      by (intro goal [of eff "[]"]) (auto simp: drop decided_def dest: notin)
  next
    case True
    show ?thesis
    proof (cases "evaluate (n_trigger_rule ?n) (map (nth eff) ?up)")
      case Fire
      with True show ?thesis
        by (intro goal [of eff "[(k, Schedule)]"]) (auto simp: drop look decided_def)
    next
      case (Propagate s)
      with True show ?thesis
        using step by (intro goal [of "eff[k := s]" "[(k, PropagateTo s)]"]) (auto simp: drop look decided_def)
    next
      case Wait
      with True show ?thesis
        by (intro goal [of eff "[]"]) (auto simp: drop look decided_def dest: notin)
    qed
  qed
qed

lemma apply_actions_nth:
  "distinct (map fst acts) \<Longrightarrow> fst ` set acts \<subseteq> {..<length st} \<Longrightarrow>
     apply_actions st acts ! i = (case map_of acts i of Some a \<Rightarrow> action_state a | None \<Rightarrow> st ! i)"
proof (induction acts arbitrary: st)
  case (Cons x acts)
  obtain j a where x: "x = (j, a)" by fastforce
  have "apply_actions st (x # acts) ! i = apply_actions (st[j := action_state a]) acts ! i"
    by (simp add: apply_actions_def x)
  also have "\<dots> = (case map_of acts i of Some a \<Rightarrow> action_state a | None \<Rightarrow> st[j := action_state a] ! i)"
    using Cons.prems x by (intro Cons.IH) auto
  also have "\<dots> = (case map_of (x # acts) i of Some a \<Rightarrow> action_state a | None \<Rightarrow> st ! i)"
  proof (cases "i = j")
    case True
    then have "map_of acts i = None" using Cons.prems by (simp add: x map_of_eq_None_iff)
    with True Cons.prems show ?thesis by (simp add: x)
  qed (simp add: x split: option.split)
  finally show ?case .
qed (simp add: apply_actions_def)

lemma length_apply_actions [simp]: "length (apply_actions st acts) = length st"
proof (induction acts arbitrary: st)
  case (Cons x acts)
  then show ?case by (cases x) (simp add: apply_actions_def)
qed (simp add: apply_actions_def)

subsection \<open>The states a pass leaves\<close>

text \<open>The recorded states and the pass's own effective states agree on every state class.\<close>

lemma pass_effect:
  assumes "topological (nodes d)" "length states = length (nodes d)"
  obtains acts eff where "pass d states = Ret acts" "distinct (map fst acts)"
    "fst ` set acts \<subseteq> {..<length (nodes d)}" "length eff = length states"
    "\<And>i. i < length (nodes d) \<Longrightarrow> decided (nodes d) states eff acts i"
    "\<And>i. i < length (nodes d) \<Longrightarrow> class_of (apply_actions states acts ! i) = class_of (eff ! i)"
    "\<And>i. i < length (nodes d) \<Longrightarrow> apply_actions states acts ! i = NoneState \<Longrightarrow> states ! i = NoneState
       \<and> evaluate (n_trigger_rule (nodes d ! i)) (map (nth eff) (n_upstream (nodes d ! i))) = Wait"
proof -
  obtain eff acts where run: "pass_loop (nodes d) 0 states [] = Ret (eff, acts)"
    and len: "length eff = length states" and range: "fst ` set acts \<subseteq> {0..<length (nodes d)}"
    and dist: "distinct (map fst acts)"
    and dec: "\<And>i. i < length (nodes d) \<Longrightarrow> decided (nodes d) states eff acts i"
    using pass_loop_spec [OF assms(1,2), of 0 "[]"] by auto
  have nth: "apply_actions states acts ! i = (case map_of acts i of Some a \<Rightarrow> action_state a | None \<Rightarrow> states ! i)" for i
    using dist range assms(2) by (intro apply_actions_nth) auto
  have mem: "(i, a) \<in> set acts \<Longrightarrow> apply_actions states acts ! i = action_state a" for i a
    using dist by (simp add: nth)
  have out: "i \<notin> fst ` set acts \<Longrightarrow> apply_actions states acts ! i = states ! i" for i
    by (simp add: nth map_of_eq_None_iff [THEN iffD2])
  show thesis
  proof (rule that [of acts eff])
    show "pass d states = Ret acts" using run assms(2) by (simp add: pass_def)
    fix i assume i: "i < length (nodes d)"
    show "class_of (apply_actions states acts ! i) = class_of (eff ! i)"
      using dec [OF i] mem [of i] out [of i] unfolding decided_def
      by (auto split: if_splits verdict.splits)
    assume none: "apply_actions states acts ! i = NoneState"
    show "states ! i = NoneState
       \<and> evaluate (n_trigger_rule (nodes d ! i)) (map (nth eff) (n_upstream (nodes d ! i))) = Wait"
    proof (cases "states ! i = NoneState")
      case False
      then show ?thesis using dec [OF i] out [of i] none by (simp add: decided_def)
    next
      case True
      show ?thesis
      proof (cases "evaluate (n_trigger_rule (nodes d ! i)) (map (nth eff) (n_upstream (nodes d ! i)))")
        case Fire
        with True dec [OF i] mem [of i Schedule] none show ?thesis by (simp add: decided_def)
      next
        case (Propagate s)
        with True dec [OF i] mem [of i "PropagateTo s"] none evaluate_Propagate_terminal [OF Propagate]
        show ?thesis by (simp add: decided_def)
      qed (use True in simp)
    qed
  qed (use range dist len dec in auto)
qed

lemma map_class_up:
  assumes "topological ns" "i < length ns" "\<And>j. j < length ns \<Longrightarrow> class_of (a ! j) = class_of (b ! j)"
  shows "evaluate rule (map (nth a) (n_upstream (ns ! i))) = evaluate rule (map (nth b) (n_upstream (ns ! i)))"
proof (rule evaluate_class_cong)
  have "class_of (a ! u) = class_of (b ! u)" if "u \<in> set (n_upstream (ns ! i))" for u
    using assms(2,3) topological_up [OF assms(1,2) that] by simp
  then show "map class_of (map (nth a) (n_upstream (ns ! i))) = map class_of (map (nth b) (n_upstream (ns ! i)))"
    by simp
qed

lemma pass_loop_idle:
  assumes "topological ns" "length st = length ns" "k \<le> length ns"
    and "\<And>i. i < length ns \<Longrightarrow> st ! i = NoneState \<Longrightarrow>
       evaluate (n_trigger_rule (ns ! i)) (map (nth st) (n_upstream (ns ! i))) = Wait"
  shows "pass_loop (drop k ns) k st acts = Ret (st, acts)"
  using assms(3)
proof (induction k rule: inc_induct)
  case (step k)
  then show ?case
    using lookup_all_topological [OF assms(1) _ assms(2), of k] assms(4) [of k]
    by (simp add: Cons_nth_drop_Suc [symmetric])
qed simp

lemma pass_no_stuck_none:
  assumes "topological (nodes d)" "length states = length (nodes d)" "pass d states = Ret acts"
    and "i < length (nodes d)" "apply_actions states acts ! i = NoneState"
  shows "evaluate (n_trigger_rule (nodes d ! i))
    (map (nth (apply_actions states acts)) (n_upstream (nodes d ! i))) = Wait"
proof (rule pass_effect [OF assms(1,2)])
  fix acts' eff
  assume run: "pass d states = Ret acts'"
    and cls: "\<And>i. i < length (nodes d) \<Longrightarrow> class_of (apply_actions states acts' ! i) = class_of (eff ! i)"
    and wait: "\<And>i. i < length (nodes d) \<Longrightarrow> apply_actions states acts' ! i = NoneState \<Longrightarrow> states ! i = NoneState
       \<and> evaluate (n_trigger_rule (nodes d ! i)) (map (nth eff) (n_upstream (nodes d ! i))) = Wait"
  have "acts' = acts" using run assms(3) by simp
  then show ?thesis using wait [of i] map_class_up [OF assms(1,4) cls] assms(4,5) by metis
qed

lemma all_terminal_correct:
  "\<forall>u \<in> set us. u < length st \<Longrightarrow> all_terminal st us = Ret (\<forall>u \<in> set us. is_terminal (st ! u))"
  by (induction st us rule: all_terminal.induct) auto

lemma settle_scan_None: "\<forall>i \<in> set is. is_terminal (st ! i) \<Longrightarrow> settle_scan ns st is = Ret None"
  by (induction "is") auto

lemma settle_scan_NotYet:
  assumes "\<exists>i \<in> set is. \<not> is_terminal (st ! i)"
    and "\<And>i. i \<in> set is \<Longrightarrow> st ! i = NoneState \<Longrightarrow> \<forall>u \<in> set (n_upstream (ns ! i)). u < length st"
    and "\<And>i. i \<in> set is \<Longrightarrow> st ! i = NoneState \<Longrightarrow> \<exists>u \<in> set (n_upstream (ns ! i)). \<not> is_terminal (st ! u)"
  shows "settle_scan ns st is = Ret (Some NotYet)"
  using assms
proof (induction "is")
  case (Cons i "is")
  show ?case
  proof (cases "is_terminal (st ! i)")
    case True
    with Cons.prems(1) have "\<exists>i \<in> set is. \<not> is_terminal (st ! i)" by simp
    then have "settle_scan ns st is = Ret (Some NotYet)"
    proof (rule Cons.IH)
      fix j assume j: "j \<in> set is" "st ! j = NoneState"
      show "\<forall>u \<in> set (n_upstream (ns ! j)). u < length st"
        by (rule Cons.prems(2) [OF list.set_intros(2) [OF j(1)] j(2)])
      show "\<exists>u \<in> set (n_upstream (ns ! j)). \<not> is_terminal (st ! u)"
        by (rule Cons.prems(3) [OF list.set_intros(2) [OF j(1)] j(2)])
    qed
    with True show ?thesis by simp
  next
    case False
    show ?thesis
    proof (cases "st ! i = NoneState")
      case True
      have "all_terminal st (n_upstream (ns ! i)) = Ret False"
        using Cons.prems(2,3) [OF list.set_intros(1) True] by (subst all_terminal_correct) auto
      with True False show ?thesis by simp
    qed (use False in simp)
  qed
qed simp

lemma set_settle_leaves:
  "set (settle_leaves d) = {i. i < length (nodes d) \<and> \<not> n_teardown (nodes d ! i)
     \<and> (\<forall>j. (i, j) \<in> edges (nodes d) \<longrightarrow> n_teardown (nodes d ! j))}"
  by (auto simp: settle_leaves_def downstream_of_def list_all_iff)

lemma pass_sweep:
  assumes "topological (nodes d)" and "length states = length (nodes d)"
  shows "\<exists>acts. pass d states = Ret acts \<and> distinct (map fst acts)
     \<and> (\<forall>(i, a) \<in> set acts. i < length (nodes d) \<and> states ! i = NoneState)
     \<and> pass d (apply_actions states acts) = Ret []"
proof -
  obtain acts eff where run: "pass d states = Ret acts" and dist: "distinct (map fst acts)"
    and range: "fst ` set acts \<subseteq> {..<length (nodes d)}"
    and dec: "\<And>i. i < length (nodes d) \<Longrightarrow> decided (nodes d) states eff acts i"
    by (rule pass_effect [OF assms]) blast
  have "pass_loop (drop 0 (nodes d)) 0 (apply_actions states acts) [] = Ret (apply_actions states acts, [])"
    using assms(2) pass_no_stuck_none [OF assms run] by (intro pass_loop_idle assms(1)) auto
  then have "pass d (apply_actions states acts) = Ret []" using assms(2) by (simp add: pass_def)
  moreover have "i < length (nodes d) \<and> states ! i = NoneState" if "(i, a) \<in> set acts" for i a
  proof -
    from that range have i: "i < length (nodes d)" by auto
    with dec [OF i] that show ?thesis by (force simp: decided_def split: if_splits)
  qed
  ultimately show ?thesis using run dist by blast
qed

lemma pass_settles:
  assumes "topological (nodes d)" and "length states = length (nodes d)" and "pass d states = Ret acts"
  shows "settle d (apply_actions states acts) \<noteq> Panic
     \<and> (\<forall>i. settle d (apply_actions states acts) \<noteq> Ret (Deadlock i))
     \<and> ((\<exists>s \<in> set (apply_actions states acts). \<not> is_terminal s) \<longrightarrow>
          (\<exists>s \<in> set (apply_actions states acts). \<not> is_terminal s \<and> s \<noteq> NoneState))"
proof -
  let ?st = "apply_actions states acts" and ?ns = "nodes d"
  have len: "length ?st = length ?ns" using assms(2) by simp
  have up: "u < i" if "i < length ?ns" "u \<in> set (n_upstream (?ns ! i))" for i u
    using topological_up [OF assms(1) that] .
  have stuck: "\<exists>u \<in> set (n_upstream (?ns ! i)). \<not> is_terminal (?st ! u)"
    if "i < length ?ns" "?st ! i = NoneState" for i
    using pass_no_stuck_none [OF assms that] by (auto simp: evaluate_Wait_iff)
  have verdict: "settle_scan ?ns ?st [0..<length ?st] = Ret None
      \<or> settle_scan ?ns ?st [0..<length ?st] = Ret (Some NotYet)"
  proof (cases "\<forall>i \<in> set [0..<length ?st]. is_terminal (?st ! i)")
    case False
    then have "settle_scan ?ns ?st [0..<length ?st] = Ret (Some NotYet)"
      using len up stuck by (intro settle_scan_NotYet) (force dest: less_trans)+
    then show ?thesis ..
  qed (simp add: settle_scan_None)
  moreover have "\<exists>s \<in> set ?st. \<not> is_terminal s \<and> s \<noteq> NoneState" if ex: "\<exists>s \<in> set ?st. \<not> is_terminal s"
  proof -
    from ex have "\<exists>i. i < length ?st \<and> \<not> is_terminal (?st ! i)" by (auto simp: in_set_conv_nth)
    then obtain i where i: "i < length ?st" "\<not> is_terminal (?st ! i)"
      and least: "\<And>j. j < i \<Longrightarrow> \<not> (j < length ?st \<and> \<not> is_terminal (?st ! j))"
      using exists_least_iff [of "\<lambda>i. i < length ?st \<and> \<not> is_terminal (?st ! i)"] by blast
    have "?st ! i \<noteq> NoneState"
    proof
      assume "?st ! i = NoneState"
      with stuck i len obtain u where "u \<in> set (n_upstream (?ns ! i))" "\<not> is_terminal (?st ! u)" by auto
      with up [of i u] least [of u] i len show False by auto
    qed
    with i show ?thesis by (meson nth_mem)
  qed
  ultimately show ?thesis using len by (auto simp: settle_def Let_def)
qed

lemma settle_settled_iff:
  assumes "length states = length (nodes d)"
  shows "settle d states = Ret (Settled s) \<longleftrightarrow>
     (\<forall>x \<in> set states. is_terminal x) \<and>
     s = (let L = {i. i < length (nodes d) \<and> \<not> n_teardown (nodes d ! i)
                    \<and> (\<forall>j. (i, j) \<in> edges (nodes d) \<longrightarrow> n_teardown (nodes d ! j))} in
          if \<exists>i \<in> L. class_of (states ! i) = FailureLike then Failed
          else if \<exists>i \<in> L. class_of (states ! i) = StopLike then Canceled else Succeeded)"
proof (cases "\<forall>x \<in> set states. is_terminal x")
  case True
  then have "settle_scan (nodes d) states [0..<length states] = Ret None"
    by (intro settle_scan_None) auto
  then have "settle d states = Ret (Settled (if FailureLike \<in> (\<lambda>i. class_of (states ! i)) ` set (settle_leaves d) then Failed
      else if StopLike \<in> (\<lambda>i. class_of (states ! i)) ` set (settle_leaves d) then Canceled else Succeeded))"
    using assms by (simp add: settle_def)
  moreover have "c \<in> (\<lambda>i. class_of (states ! i)) ` A \<longleftrightarrow> (\<exists>i \<in> A. class_of (states ! i) = c)" for c A
    by auto
  ultimately show ?thesis using True unfolding set_settle_leaves Let_def by auto
next
  case False
  then obtain i where "i < length states" "\<not> is_terminal (states ! i)" by (auto simp: in_set_conv_nth)
  then have "settle_scan (nodes d) states is \<noteq> Ret None" if "i \<in> set is" for "is"
    using that by (induction "is") auto
  with \<open>i < length states\<close> have "settle_scan (nodes d) states [0..<length states] \<noteq> Ret None" by simp
  moreover have "settle_scan (nodes d) states is \<noteq> Ret (Some (Settled s))" for "is"
    by (induction "is") auto
  ultimately have "settle d states \<noteq> Ret (Settled s)" by (auto simp: settle_def split: option.splits)
  with False show ?thesis by auto
qed

subsection \<open>Properties\<close>

text \<open>The trigger-rule table. A node waits exactly while some upstream is not terminal; once all
  are, the default rule fires only on all successes and otherwise propagates skip, cancel or failure
  by the classes present, \<open>all_terminal\<close> always fires, \<open>any_failed\<close> fires exactly on a failure.\<close>

lemma evaluate_table:
  "evaluate rule up =
     (if \<exists>s \<in> set up. class_of s = Pending then Wait
      else case rule of
        AllTerminal \<Rightarrow> Fire
      | AnyFailed \<Rightarrow> if \<exists>s \<in> set up. class_of s = FailureLike then Fire else Propagate UpstreamSkipped
      | AllSucceeded \<Rightarrow>
          if class_of ` set up \<subseteq> {SuccessLike} then Fire
          else if class_of ` set up \<subseteq> {SuccessLike, SkipLike} then Propagate UpstreamSkipped
          else if class_of ` set up \<subseteq> {SuccessLike, StopLike} then Propagate Canceled
          else Propagate UpstreamFailed)"
proof -
  have e: "filter (\<lambda>c. c \<noteq> SuccessLike) (map class_of up) = [] \<longleftrightarrow> class_of ` set up \<subseteq> {SuccessLike}"
    by (auto simp: filter_empty_conv)
  have l: "list_all (\<lambda>c. c = k) (filter (\<lambda>c. c \<noteq> SuccessLike) (map class_of up))
      \<longleftrightarrow> class_of ` set up \<subseteq> {SuccessLike, k}" for k by (auto simp: list_all_iff)
  show ?thesis
    unfolding evaluate_def is_terminal_def Let_def e l
    by (auto simp: list_ex_iff split: trigger_rule.split)
qed

text \<open>On a topologically ordered graph one sweep decides everything: the pass returns, touches
  each node at most once and only \<open>none\<close> rows, and once its actions are recorded a second pass
  finds nothing to do, so a failure deadens its whole downstream chain in one sweep.\<close>

lemma pass_one_sweep:
  assumes "topological (nodes d)" and "length states = length (nodes d)"
  shows "\<exists>acts. pass d states = Ret acts \<and> distinct (map fst acts)
     \<and> (\<forall>(i, a) \<in> set acts. i < length (nodes d) \<and> states ! i = NoneState)
     \<and> pass d (apply_actions states acts) = Ret []"
  using assms by (rule pass_sweep)

definition chain3 :: dag where
  "chain3 = \<lparr>dag_name = ''chain'', nodes = [sample_node ''a'' [], sample_node ''b'' [0], sample_node ''c'' [1]],
     structural_fingerprint = [], policy_hash = []\<rparr>"

lemma chain3_topological: "topological (nodes chain3)"
  by (simp add: chain3_def topological_def sample_node_def less_Suc_eq All_less_Suc2)

lemma pass_one_sweep_witness:
  "pass chain3 [Failed, NoneState, NoneState] = Ret [(1, PropagateTo UpstreamFailed), (2, PropagateTo UpstreamFailed)]
   \<and> pass chain3 (apply_actions [Failed, NoneState, NoneState]
        [(1, PropagateTo UpstreamFailed), (2, PropagateTo UpstreamFailed)]) = Ret []"
proof -
  have run: "pass chain3 [Failed, NoneState, NoneState] =
      Ret [(1, PropagateTo UpstreamFailed), (2, PropagateTo UpstreamFailed)]"
    by (simp add: pass_def chain3_def sample_node_def lookup_all_def evaluate_def is_terminal_def)
  moreover have "length [Failed, NoneState, NoneState] = length (nodes chain3)" by (simp add: chain3_def)
  ultimately show ?thesis using pass_one_sweep [OF chain3_topological, of "[Failed, NoneState, NoneState]"] by auto
qed

text \<open>The pass schedules a node exactly when its row was \<open>none\<close>, every upstream is terminal in
  the states the pass records, and the rule fires on them; it never schedules under a pending or, for
  the default rule, a failed upstream.\<close>

lemma pass_schedules_iff_ready:
  assumes "topological (nodes d)" and "length states = length (nodes d)" and "pass d states = Ret acts"
    and "i < length (nodes d)"
  shows "(i, Schedule) \<in> set acts \<longleftrightarrow> states ! i = NoneState
     \<and> evaluate (n_trigger_rule (nodes d ! i))
          (map (nth (apply_actions states acts)) (n_upstream (nodes d ! i))) = Fire"
proof -
  obtain acts' eff where run: "pass d states = Ret acts'" and dist: "distinct (map fst acts')"
    and dec: "decided (nodes d) states eff acts' i"
    and cls: "\<And>j. j < length (nodes d) \<Longrightarrow> class_of (apply_actions states acts' ! j) = class_of (eff ! j)"
    using assms(4) by (rule_tac pass_effect [OF assms(1,2)]) blast
  have same: "acts' = acts" using run assms(3) by simp
  have ev: "evaluate (n_trigger_rule (nodes d ! i)) (map (nth (apply_actions states acts)) (n_upstream (nodes d ! i)))
      = evaluate (n_trigger_rule (nodes d ! i)) (map (nth eff) (n_upstream (nodes d ! i)))"
    using cls unfolding same by (rule map_class_up [OF assms(1,4)])
  have "(i, Schedule) \<notin> set acts" if "(i, PropagateTo s) \<in> set acts" for s
    using dist that unfolding same by (auto dest: eq_key_imp_eq_value)
  then show ?thesis
    using dec unfolding ev same decided_def by (force split: if_splits verdict.splits)
qed

lemma pass_schedules_iff_ready_witness:
  "(1, Schedule) \<in> set [(1, Schedule)]
   \<and> evaluate AllSucceeded (map (nth (apply_actions [Succeeded, NoneState, NoneState] [(1, Schedule)])) [0]) = Fire"
proof -
  have run: "pass chain3 [Succeeded, NoneState, NoneState] = Ret [(1, Schedule)]"
    by (simp add: pass_def chain3_def sample_node_def lookup_all_def evaluate_def is_terminal_def)
  have len: "length [Succeeded, NoneState, NoneState] = length (nodes chain3)" and i: "1 < length (nodes chain3)"
    by (simp_all add: chain3_def)
  show ?thesis using pass_schedules_iff_ready [OF chain3_topological len run i]
    by (simp add: chain3_def sample_node_def)
qed

text \<open>C28: a job cannot hang on the graph. After a recorded pass the settle check never reports a
  deadlock, and while any row is still pending some row is in flight (pending but no longer
  \<open>none\<close>), so the job's progress depends on live work only.\<close>

theorem pass_then_settle_no_deadlock:
  assumes "topological (nodes d)" and "length states = length (nodes d)" and "pass d states = Ret acts"
  shows "settle d (apply_actions states acts) \<noteq> Panic
     \<and> (\<forall>i. settle d (apply_actions states acts) \<noteq> Ret (Deadlock i))
     \<and> ((\<exists>s \<in> set (apply_actions states acts). \<not> is_terminal s) \<longrightarrow>
          (\<exists>s \<in> set (apply_actions states acts). \<not> is_terminal s \<and> s \<noteq> NoneState))"
  using assms by (rule pass_settles)

theorem pass_then_settle_no_deadlock_witness:
  "settle chain3 (apply_actions [Succeeded, NoneState, NoneState] [(1, Schedule)]) \<noteq> Panic
   \<and> settle chain3 [Succeeded, NoneState, NoneState] = Ret (Deadlock 1)"
proof -
  have run: "pass chain3 [Succeeded, NoneState, NoneState] = Ret [(1, Schedule)]"
    by (simp add: pass_def chain3_def sample_node_def lookup_all_def evaluate_def is_terminal_def)
  have len: "length [Succeeded, NoneState, NoneState] = length (nodes chain3)" by (simp add: chain3_def)
  have "settle chain3 [Succeeded, NoneState, NoneState] = Ret (Deadlock 1)"
    by (simp add: settle_def chain3_def sample_node_def is_terminal_def upt_rec)
  then show ?thesis using pass_then_settle_no_deadlock [OF chain3_topological len run] by blast
qed

text \<open>The settled outcome. When every row is terminal the job settles, from its non-teardown
  leaves alone: failed if one failed, else canceled if one was stopped, else succeeded; while a row is
  pending it never settles.\<close>

lemma settle_outcome:
  assumes "length states = length (nodes d)"
  shows "settle d states = Ret (Settled s) \<longleftrightarrow>
     (\<forall>x \<in> set states. is_terminal x) \<and>
     s = (let L = {i. i < length (nodes d) \<and> \<not> n_teardown (nodes d ! i)
                    \<and> (\<forall>j. (i, j) \<in> edges (nodes d) \<longrightarrow> n_teardown (nodes d ! j))} in
          if \<exists>i \<in> L. class_of (states ! i) = FailureLike then Failed
          else if \<exists>i \<in> L. class_of (states ! i) = StopLike then Canceled else Succeeded)"
  using assms by (rule settle_settled_iff)

lemma settle_outcome_witness:
  "settle chain3 [Succeeded, Succeeded, TimedOut] = Ret (Settled Failed)"
proof -
  have len: "length [Succeeded, Succeeded, TimedOut] = length (nodes chain3)" by (simp add: chain3_def)
  have "settle chain3 [Succeeded, Succeeded, TimedOut] = Ret (Settled Failed)"
    by (simp add: settle_def chain3_def sample_node_def is_terminal_def upt_rec settle_leaves_def
        downstream_of_def downstream_in_def)
  with settle_outcome [OF len, of Failed] show ?thesis by simp
qed

text \<open>The stored spelling of a task state is unambiguous and total: parsing accepts exactly the
  fourteen spellings and returns the state that has it.\<close>

lemma task_state_roundtrip: "parse_task_state s = Some t \<longleftrightarrow> s = task_state_str t"
proof
  assume "parse_task_state s = Some t"
  then show "s = task_state_str t"
    by (auto simp: parse_task_state_def find_Some_iff)
next
  assume "s = task_state_str t"
  then show "parse_task_state s = Some t"
    by (cases t) (simp_all add: parse_task_state_def task_state_ALL_def)
qed

end
