(* ===== verification/Resume.thy ===== *)
theory Resume
  imports Readiness
begin

text \<open>
  The clear closure of \<^verbatim>\<open>er-dag/src/resume.rs\<close>: the operator's seeds, closed downward when
  asked, then upward demand to a fixpoint over the inputs whose recorded output no longer exists.
  \<open>probe\<close> is the caller's existence check. An index outside the graph is \<open>Panic\<close>.
\<close>

datatype reference_existence = Present | Missing

record clear_plan =
  must_run :: "nat set"
  demanded_upstream :: "nat set"

function down_loop :: "node list \<Rightarrow> nat list \<Rightarrow> nat set \<Rightarrow> nat set" where
  "down_loop ns [] mr = mr"
| "down_loop ns (i # fr) mr =
     (case push_new (downstream_in ns i) mr fr of (mr', fr') \<Rightarrow> down_loop ns fr' mr')"
  by pat_completeness auto
termination
  by (relation "measures [\<lambda>(ns, fr, mr). card ({..<length ns} - mr), \<lambda>(ns, fr, mr). length fr]")
    (auto dest: down.push_decreases_sym)

fun demand :: "(nat \<Rightarrow> reference_existence) \<Rightarrow> nat list \<Rightarrow> nat set \<Rightarrow> nat set \<Rightarrow> nat list \<Rightarrow>
    nat set \<times> nat set \<times> nat list" where
  "demand probe [] mr dm fr = (mr, dm, fr)"
| "demand probe (u # us) mr dm fr =
     (if u \<in> mr then demand probe us mr dm fr
      else if probe u = Missing then demand probe us (insert u mr) (insert u dm) (u # fr)
      else demand probe us mr dm fr)"

definition missing_inputs :: "node list \<Rightarrow> (nat \<Rightarrow> reference_existence) \<Rightarrow> nat \<Rightarrow> nat list" where
  "missing_inputs ns probe i =
     (if i < length ns then filter (\<lambda>u. probe u = Missing) (n_upstream (ns ! i)) else [])"

interpretation up: finite_graph "missing_inputs ns probe" "\<Union>n \<in> set ns. set (n_upstream n)" for ns probe
  by unfold_locales (auto simp: missing_inputs_def intro!: bexI [OF _ nth_mem])

lemma demand_push:
  "demand probe us mr dm fr = (mr', dm', fr') \<longleftrightarrow>
     push_new (filter (\<lambda>u. probe u = Missing) us) mr fr = (mr', fr') \<and> dm' = dm \<union> (mr' - mr)"
proof (induction probe us mr dm fr rule: demand.induct)
  case (2 probe u us mr dm fr)
  show ?case
  proof (cases "u \<in> mr \<or> probe u \<noteq> Missing")
    case False
    then show ?thesis using 2(2) by (auto dest: push_new_seen)
  qed (use 2 in auto)
qed auto

function demand_loop ::
  "node list \<Rightarrow> (nat \<Rightarrow> reference_existence) \<Rightarrow> nat list \<Rightarrow> nat set \<Rightarrow> nat set \<Rightarrow> (nat set \<times> nat set) outcome" where
  "demand_loop ns probe [] mr dm = Ret (mr, dm)"
| "demand_loop ns probe (i # fr) mr dm =
     (if \<not> i < length ns then Panic
      else case demand probe (n_upstream (ns ! i)) mr dm fr of
        (mr', dm', fr') \<Rightarrow> demand_loop ns probe fr' mr' dm')"
  by pat_completeness auto
termination
proof (relation "measures [\<lambda>(ns, probe, fr, mr, dm). card ((\<Union>n \<in> set ns. set (n_upstream n)) - mr),
    \<lambda>(ns, probe, fr, mr, dm). length fr]", simp, goal_cases)
  case (1 ns probe i fr mr dm mr' y dm' fr')
  then have "i < length ns" and "demand probe (n_upstream (ns ! i)) mr dm fr = (mr', dm', fr')"
    by simp_all
  then have "push_new (missing_inputs ns probe i) mr fr = (mr', fr')"
    by (simp add: demand_push missing_inputs_def)
  from up.push_decreases [OF this] show ?case by auto
qed

definition clear_closure ::
  "dag \<Rightarrow> nat list \<Rightarrow> bool \<Rightarrow> (nat \<Rightarrow> reference_existence) \<Rightarrow> clear_plan outcome" where
  "clear_closure d seeds include_downstream probe =
     (let mr0 = set seeds;
          mr1 = (if include_downstream
                 then down_loop (nodes d) (rev (sorted_list_of_set mr0)) mr0 else mr0) in
      bind_outcome (demand_loop (nodes d) probe (rev (sorted_list_of_set mr1)) mr1 {})
        (\<lambda>(mr, dm). Ret \<lparr>must_run = mr, demanded_upstream = dm\<rparr>))"

subsection \<open>Both loops compute a closure\<close>

lemma down_loop_closure:
  assumes "set fr \<subseteq> mr" "down.expanded ns mr fr mr"
  shows "down_loop ns fr mr = (edges ns)\<^sup>* `` mr"
  using assms
proof (induction ns fr mr rule: down_loop.induct)
  case (1 ns mr)
  then show ?case by (simp add: down.image_done)
next
  case (2 ns i fr mr)
  obtain mr' fr' where push: "push_new (downstream_in ns i) mr fr = (mr', fr')" by fastforce
  have mr': "mr' = mr \<union> set (downstream_in ns i)" using push_new_seen [OF push] .
  have "down_loop ns fr' mr' = (edges ns)\<^sup>* `` mr'"
    using "2.prems" push_new_frontier [OF push] down.expanded_push [OF "2.prems"(2) push] mr'
    by (intro "2.IH" [OF push [symmetric]]) auto
  then show ?case using "2.prems" push by (simp add: mr' down.image_step)
qed

lemma demand_loop_closure:
  assumes "mr \<subseteq> {..<length ns}" "\<forall>n \<in> set ns. set (n_upstream n) \<subseteq> {..<length ns}"
    and "set fr \<subseteq> mr" "up.expanded ns probe mr fr mr"
  shows "demand_loop ns probe fr mr dm =
    Ret ((edge_rel (missing_inputs ns probe))\<^sup>* `` mr, dm \<union> ((edge_rel (missing_inputs ns probe))\<^sup>* `` mr - mr))"
  using assms
proof (induction ns probe fr mr dm rule: demand_loop.induct)
  case (1 ns probe mr dm)
  then show ?case by (simp add: up.image_done)
next
  case (2 ns probe i fr mr dm)
  let ?c = "\<lambda>S. (edge_rel (missing_inputs ns probe))\<^sup>* `` S"
  have i: "i < length ns" "i \<in> mr" using "2.prems" by auto
  obtain mr' dm' fr' where dem: "demand probe (n_upstream (ns ! i)) mr dm fr = (mr', dm', fr')"
    by (metis prod_cases3)
  then have push: "push_new (missing_inputs ns probe i) mr fr = (mr', fr')" and dm': "dm' = dm \<union> (mr' - mr)"
    using i by (simp_all add: demand_push missing_inputs_def)
  have mr': "mr' = mr \<union> set (missing_inputs ns probe i)" using push_new_seen [OF push] .
  have bound: "set (missing_inputs ns probe i) \<subseteq> {..<length ns}"
    using "2.prems"(2) i nth_mem [of i ns] by (fastforce simp: missing_inputs_def)
  have "demand_loop ns probe fr' mr' dm' = Ret (?c mr', dm' \<union> (?c mr' - mr'))"
    using "2.prems" push_new_frontier [OF push] up.expanded_push [OF "2.prems"(4) push] mr' bound i
    by (intro "2.IH" [OF _ dem [symmetric] refl]) auto
  moreover have same: "?c mr' = ?c mr" using up.image_step [OF i(2)] by (simp add: mr')
  moreover have "dm' \<union> (?c mr' - mr') = dm \<union> (?c mr - mr)"
    using same mr' dm' by auto
  ultimately show ?case using i dem by simp
qed

definition rerun_base :: "dag \<Rightarrow> nat list \<Rightarrow> bool \<Rightarrow> nat set" where
  "rerun_base d seeds ds = (if ds then (edges (nodes d))\<^sup>* `` set seeds else set seeds)"

definition lost_inputs :: "dag \<Rightarrow> (nat \<Rightarrow> reference_existence) \<Rightarrow> (nat \<times> nat) set" where
  "lost_inputs d probe =
     {(i, u). i < length (nodes d) \<and> u \<in> set (n_upstream (nodes d ! i)) \<and> probe u = Missing}"

lemma lost_inputs_edges: "lost_inputs d probe = edge_rel (missing_inputs (nodes d) probe)"
  by (auto simp: lost_inputs_def missing_inputs_def edge_rel_def)

lemma rerun_base_in_range:
  assumes "set seeds \<subseteq> {..<length (nodes d)}"
  shows "rerun_base d seeds ds \<subseteq> {..<length (nodes d)}"
proof -
  have "j < length (nodes d)" if "(i, j) \<in> (edges (nodes d))\<^sup>*" "i < length (nodes d)" for i j
    using that by (induction rule: rtrancl_induct) (auto simp: set_downstream_in)
  then show ?thesis using assms by (auto simp: rerun_base_def)
qed

lemma clear_closure_result:
  assumes "topological (nodes d)" and "set seeds \<subseteq> {..<length (nodes d)}"
  shows "clear_closure d seeds ds probe =
    Ret \<lparr>must_run = (lost_inputs d probe)\<^sup>* `` rerun_base d seeds ds,
         demanded_upstream = (lost_inputs d probe)\<^sup>* `` rerun_base d seeds ds - rerun_base d seeds ds\<rparr>"
proof -
  let ?ns = "nodes d" and ?base = "rerun_base d seeds ds"
  have up: "\<forall>n \<in> set ?ns. set (n_upstream n) \<subseteq> {..<length ?ns}"
  proof
    fix n assume "n \<in> set ?ns"
    then obtain i where i: "i < length ?ns" "n = ?ns ! i" by (auto simp: in_set_conv_nth)
    have "u < length ?ns" if "u \<in> set (n_upstream n)" for u
      using topological_up [OF assms(1) i(1), of u] that i by simp
    then show "set (n_upstream n) \<subseteq> {..<length ?ns}" by auto
  qed
  have "down_loop ?ns (rev (sorted_list_of_set (set seeds))) (set seeds) = (edges ?ns)\<^sup>* `` set seeds"
    by (rule down_loop_closure) (auto simp: down.expanded_def)
  then have base: "(if ds then down_loop ?ns (rev (sorted_list_of_set (set seeds))) (set seeds) else set seeds) = ?base"
    by (simp add: rerun_base_def)
  note in_range = rerun_base_in_range [OF assms(2)]
  then have "finite ?base" by (rule finite_subset) simp
  then have "demand_loop ?ns probe (rev (sorted_list_of_set ?base)) ?base {} =
      Ret ((lost_inputs d probe)\<^sup>* `` ?base, {} \<union> ((lost_inputs d probe)\<^sup>* `` ?base - ?base))"
    unfolding lost_inputs_edges by (intro demand_loop_closure in_range up) (auto simp: up.expanded_def)
  then show ?thesis unfolding clear_closure_def Let_def base by simp
qed

text \<open>The clear closure is exact. On a topologically ordered graph and in-range seeds it returns,
  and the rows it re-runs are the least set that holds the seeds, their downstream (when asked) and,
  for each re-run task, every input whose recorded output is gone; the demanded set is what that
  last step added.\<close>

lemma clear_closure_exact:
  assumes "topological (nodes d)" and "set seeds \<subseteq> {..<length (nodes d)}"
  shows "clear_closure d seeds ds probe =
    Ret \<lparr>must_run = (lost_inputs d probe)\<^sup>* `` rerun_base d seeds ds,
         demanded_upstream = (lost_inputs d probe)\<^sup>* `` rerun_base d seeds ds - rerun_base d seeds ds\<rparr>"
  using assms by (rule clear_closure_result)

lemma clear_closure_exact_witness:
  "\<exists>plan. clear_closure chain3 [2] True (\<lambda>u. if u = 1 then Missing else Present) = Ret plan
     \<and> 1 \<in> must_run plan"
proof -
  let ?probe = "\<lambda>u::nat. if u = 1 then Missing else Present"
  have "set [2] \<subseteq> {..<length (nodes chain3)}" by (simp add: chain3_def)
  note run = clear_closure_exact [OF chain3_topological this, of True ?probe]
  have "(2, 1) \<in> lost_inputs chain3 ?probe"
    by (simp add: lost_inputs_def chain3_def sample_node_def)
  moreover have "2 \<in> rerun_base chain3 [2] True" by (auto simp: rerun_base_def)
  ultimately have "1 \<in> (lost_inputs chain3 ?probe)\<^sup>* `` rerun_base chain3 [2] True" by blast
  with run show ?thesis by simp
qed

end
