(* ===== verification/DurableRefs.thy ===== *)
theory DurableRefs
  imports Json Resume
begin

text \<open>
  Durable edge references of \<^verbatim>\<open>er-dag/src/task.rs\<close>: the lake reference and the typed plan
  document, each with its serialized form, its rehydration and its existence probe. A
  \<open>LakeEdge\<close> or \<open>PlanDoc\<close> type is its \<open>STABLE_NAME\<close>; the derived serde code of a plan
  type is the pair of parameters \<open>to_value\<close>, \<open>from_value\<close>; the lake's snapshot catalog is
  the parameter \<open>snapshot_exists\<close>.
\<close>

datatype ref_error =
    Malformed string
  | Serialize string
  | Probe int

record lake_ref =
  snapshot_end :: int
  rows :: int

definition lake_serialize :: "string \<Rightarrow> lake_ref \<Rightarrow> ref_error + json" where
  "lake_serialize edge r = Inr (json_object
     [(''edge'', JStr edge), (''snapshot_end'', JInt (snapshot_end r)), (''rows'', JInt (rows r))])"

definition lake_rehydrate :: "string \<Rightarrow> json \<Rightarrow> ref_error + lake_ref" where
  "lake_rehydrate edge v =
     (if Option.bind (json_get v ''edge'') as_str \<noteq> Some edge then Inl (Malformed edge)
      else case Option.bind (json_get v ''snapshot_end'') as_i64 of
        None \<Rightarrow> Inl (Malformed edge)
      | Some se \<Rightarrow>
          (case Option.bind (json_get v ''rows'') as_i64 of
             None \<Rightarrow> Inl (Malformed edge)
           | Some rs \<Rightarrow> Inr \<lparr>snapshot_end = se, rows = rs\<rparr>))"

definition lake_probe :: "(int \<Rightarrow> ref_error + bool) \<Rightarrow> lake_ref \<Rightarrow> ref_error + reference_existence" where
  "lake_probe snapshot_exists r =
     (case snapshot_exists (snapshot_end r) of
        Inl e \<Rightarrow> Inl e
      | Inr b \<Rightarrow> Inr (if b then Present else Missing))"

definition plan_serialize :: "('p \<Rightarrow> json option) \<Rightarrow> string \<Rightarrow> 'p \<Rightarrow> ref_error + json" where
  "plan_serialize to_value name p =
     (case to_value p of
        None \<Rightarrow> Inl (Serialize name)
      | Some doc \<Rightarrow> Inr (json_object [(''plan'', JStr name), (''doc'', doc)]))"

definition plan_rehydrate :: "(json \<Rightarrow> 'p option) \<Rightarrow> string \<Rightarrow> json \<Rightarrow> ref_error + 'p" where
  "plan_rehydrate from_value name v =
     (if Option.bind (json_get v ''plan'') as_str \<noteq> Some name then Inl (Malformed name)
      else case json_get v ''doc'' of
        None \<Rightarrow> Inl (Malformed name)
      | Some doc \<Rightarrow> (case from_value doc of None \<Rightarrow> Inl (Malformed name) | Some p \<Rightarrow> Inr p))"

definition plan_probe :: "'p \<Rightarrow> ref_error + reference_existence" where
  "plan_probe p = Inr Present"

text \<open>The contract every durable output keeps, and what a consumer concludes from it: the document a
  producer stores comes back as the same value under its own name and is refused under any other.\<close>

locale durable_output =
  fixes ser :: "string \<Rightarrow> 'r \<Rightarrow> ref_error + json"
    and reh :: "string \<Rightarrow> json \<Rightarrow> ref_error + 'r"
    and valid :: "'r \<Rightarrow> bool"
  assumes roundtrip: "valid r \<Longrightarrow> \<exists>v. ser n r = Inr v \<and> reh n v = Inr r"
    and foreign: "ser n r = Inr v \<Longrightarrow> m \<noteq> n \<Longrightarrow> reh m v = Inl (Malformed m)"
begin

lemma ser_injective:
  assumes "valid r" "valid r'" "ser n r = ser n' r'"
  shows "n = n' \<and> r = r'"
proof -
  obtain v where v: "ser n r = Inr v" "reh n v = Inr r" using roundtrip assms(1) by blast
  obtain v' where v': "ser n' r' = Inr v'" "reh n' v' = Inr r'" using roundtrip assms(2) by blast
  have vv: "v = v'" using v v' assms(3) by simp
  moreover have "n = n'" using foreign [OF v'(1), of n] v(2) vv by (cases "n = n'") auto
  ultimately show ?thesis using v v' by simp
qed

end

definition lake_ref_valid :: "lake_ref \<Rightarrow> bool" where
  "lake_ref_valid r \<longleftrightarrow> in_i64 (snapshot_end r) \<and> in_i64 (rows r)"

interpretation lake_output: durable_output lake_serialize lake_rehydrate lake_ref_valid
  by unfold_locales (auto simp: lake_serialize_def lake_rehydrate_def json_get_object lake_ref_valid_def)

interpretation plan_output: durable_output "plan_serialize to_value" "plan_rehydrate from_value"
  "\<lambda>p. \<exists>doc. to_value p = Some doc \<and> from_value doc = Some p" for to_value from_value
proof unfold_locales
  show "\<exists>v. plan_serialize to_value n p = Inr v \<and> plan_rehydrate from_value n v = Inr p"
    if "\<exists>doc. to_value p = Some doc \<and> from_value doc = Some p" for p :: 'a and n
  proof -
    from that obtain doc where "to_value p = Some doc" "from_value doc = Some p" by blast
    then show ?thesis
      by (intro exI [of _ "json_object [(''plan'', JStr n), (''doc'', doc)]"])
        (simp add: plan_serialize_def plan_rehydrate_def json_get_object)
  qed
  show "plan_rehydrate from_value m v = Inl (Malformed m)"
    if "plan_serialize to_value n p = Inr v" "m \<noteq> n" for p :: 'a and n m v
    using that by (auto simp: plan_serialize_def plan_rehydrate_def json_get_object split: option.splits)
qed

text \<open>A lake reference with 64-bit fields survives storage: it serializes, comes back equal under
  its own edge name, is refused as malformed under any other edge, and no other reference has the
  same document.\<close>

lemma lake_ref_roundtrip:
  assumes "in_i64 (snapshot_end r)" and "in_i64 (rows r)"
  shows "\<exists>v. lake_serialize edge r = Inr v \<and> lake_rehydrate edge v = Inr r
    \<and> (\<forall>other. other \<noteq> edge \<longrightarrow> lake_rehydrate other v = Inl (Malformed other))
    \<and> (\<forall>edge' r'. lake_ref_valid r' \<longrightarrow> lake_serialize edge' r' = Inr v \<longrightarrow> edge' = edge \<and> r' = r)"
proof -
  have valid: "lake_ref_valid r" using assms by (simp add: lake_ref_valid_def)
  then obtain v where v: "lake_serialize edge r = Inr v" "lake_rehydrate edge v = Inr r"
    using lake_output.roundtrip by blast
  then show ?thesis
    using lake_output.foreign [OF v(1)] lake_output.ser_injective [OF valid, of _ edge] by metis
qed

lemma lake_ref_roundtrip_witness:
  "\<exists>v. lake_serialize ''test_edge'' \<lparr>snapshot_end = 41, rows = 10\<rparr> = Inr v
     \<and> lake_rehydrate ''test_edge'' v = Inr \<lparr>snapshot_end = 41, rows = 10\<rparr>
     \<and> lake_rehydrate ''other'' v = Inl (Malformed ''other'')"
  using lake_ref_roundtrip [of "\<lparr>snapshot_end = 41, rows = 10\<rparr>" "''test_edge''"]
  by (fastforce simp: in_i64_def)

end
