(* ===== verification/Forest.thy ===== *)
theory Forest
  imports Prelude
begin

text \<open>
  Parent-pointer forests, the abstract side of the three union-find structures of the program
  (\<^verbatim>\<open>er-reconcile/src/cluster.rs\<close>, \<^verbatim>\<open>never_cut.rs\<close>, \<^verbatim>\<open>assertions.rs\<close>). A parent
  function over a finite carrier is a forest when some bounded rank rises along every proper parent
  step. Shortcutting a node to an ancestor keeps every root (path halving, path compression); linking
  one root to another merges exactly the two trees (union). The locale \<open>disjoint_sets\<close> is the
  interface the clients use: folding \<open>union\<close> over an edge list makes two elements share a
  representative exactly when the edges connect them.
\<close>

inductive root :: "('k \<Rightarrow> 'k) \<Rightarrow> 'k \<Rightarrow> 'k \<Rightarrow> bool" for f where
  self: "f x = x \<Longrightarrow> root f x x"
| step: "f x \<noteq> x \<Longrightarrow> root f (f x) y \<Longrightarrow> root f x y"

definition rep :: "('k \<Rightarrow> 'k) \<Rightarrow> 'k \<Rightarrow> 'k" where
  "rep f x = (THE y. root f x y)"

definition forest :: "('k \<Rightarrow> 'k) \<Rightarrow> 'k set \<Rightarrow> ('k \<Rightarrow> nat) \<Rightarrow> nat \<Rightarrow> bool" where
  "forest f C r N \<longleftrightarrow> (\<forall>x \<in> C. f x \<in> C \<and> r x \<le> N \<and> (f x \<noteq> x \<longrightarrow> r x < r (f x)))"

lemma root_self_iff: "f x = x \<Longrightarrow> root f x z \<longleftrightarrow> z = x"
  by (metis root.simps)

lemma root_step_iff: "f x \<noteq> x \<Longrightarrow> root f x z \<longleftrightarrow> root f (f x) z"
  by (metis root.simps)

lemma root_unique: "root f x y \<Longrightarrow> root f x z \<Longrightarrow> y = z"
  by (induction arbitrary: z rule: root.induct) (simp_all add: root_self_iff root_step_iff)

lemma root_fixed: "root f x y \<Longrightarrow> f y = y"
  by (induction rule: root.induct) auto

lemma rep_eq: "root f x y \<Longrightarrow> rep f x = y"
  unfolding rep_def by (rule the_equality) (auto intro: root_unique)

lemma rep_self: "f x = x \<Longrightarrow> rep f x = x"
  by (rule rep_eq) (rule root.self)

lemma forest_induct [consumes 2, case_names fixed step]:
  assumes "forest f C r N" "x \<in> C"
    and fixed: "\<And>x. x \<in> C \<Longrightarrow> f x = x \<Longrightarrow> P x"
    and step: "\<And>x. x \<in> C \<Longrightarrow> f x \<noteq> x \<Longrightarrow> f x \<in> C \<Longrightarrow>
       (\<And>y. y \<in> C \<Longrightarrow> r x < r y \<Longrightarrow> P y) \<Longrightarrow> P x"
  shows "P x"
  using assms(2)
proof (induction "N - r x" arbitrary: x rule: less_induct)
  case less
  show ?case
  proof (cases "f x = x")
    case False
    have fx: "f x \<in> C" using assms(1) less.prems by (simp add: forest_def)
    have "P y" if y: "y \<in> C" "r x < r y" for y
    proof -
      have "r y \<le> N" using assms(1) y by (simp add: forest_def)
      then show ?thesis using y by (intro less.hyps) auto
    qed
    then show ?thesis using step less.prems False fx by blast
  qed (use fixed less.prems in blast)
qed

lemma forest_rise: "forest f C r N \<Longrightarrow> x \<in> C \<Longrightarrow> f x \<noteq> x \<Longrightarrow> r x < r (f x)"
  by (simp add: forest_def)

lemma forest_bound: "forest f C r N \<Longrightarrow> x \<in> C \<Longrightarrow> r x \<le> N"
  by (simp add: forest_def)

lemma forest_in: "forest f C r N \<Longrightarrow> x \<in> C \<Longrightarrow> f x \<in> C"
  by (simp add: forest_def)

lemma root_exists: "forest f C r N \<Longrightarrow> x \<in> C \<Longrightarrow> \<exists>y \<in> C. root f x y \<and> r x \<le> r y"
proof -
  assume F: "forest f C r N" and "x \<in> C"
  from this show ?thesis
  proof (induction rule: forest_induct)
    case (step x)
    have rise: "r x < r (f x)" using forest_rise [OF F step(1,2)] .
    from step(4) [OF step(3) rise] obtain y where y: "y \<in> C" "root f (f x) y" "r (f x) \<le> r y" by blast
    from y(2) step(2) have "root f x y" by (simp add: root_step_iff)
    with y rise show ?case by auto
  qed (auto intro: root.self)
qed

lemma root_rep: "forest f C r N \<Longrightarrow> x \<in> C \<Longrightarrow> root f x (rep f x)"
  using root_exists rep_eq by metis

lemma rep_in: "forest f C r N \<Longrightarrow> x \<in> C \<Longrightarrow> rep f x \<in> C"
  using root_exists rep_eq by metis

lemma rep_fixed: "forest f C r N \<Longrightarrow> x \<in> C \<Longrightarrow> f (rep f x) = rep f x"
  using root_rep root_fixed by metis

lemma rep_idem: "forest f C r N \<Longrightarrow> x \<in> C \<Longrightarrow> rep f (rep f x) = rep f x"
  by (simp add: rep_fixed rep_self)

lemma rep_parent: "forest f C r N \<Longrightarrow> x \<in> C \<Longrightarrow> rep f (f x) = rep f x"
  by (metis forest_in rep_eq root.step root_rep)

lemma rep_rank: "forest f C r N \<Longrightarrow> x \<in> C \<Longrightarrow> f x \<noteq> x \<Longrightarrow> r x < r (rep f x)"
proof -
  assume F: "forest f C r N" and x: "x \<in> C" "f x \<noteq> x"
  obtain y where "root f (f x) y" "r (f x) \<le> r y" using root_exists [OF F forest_in [OF F x(1)]] by blast
  moreover have "rep f x = y" using rep_parent [OF F x(1)] rep_eq [OF calculation(1)] by simp
  ultimately show ?thesis using forest_rise [OF F x] by simp
qed

subsection \<open>Shortcuts keep the roots\<close>

lemma shortcut_forest:
  "forest f C r N \<Longrightarrow> c \<in> C \<Longrightarrow> r x < r c \<Longrightarrow> forest (f(x := c)) C r N"
  by (auto simp: forest_def)

lemma shortcut_rep:
  assumes F: "forest f C r N" and x: "x \<in> C" and c: "c \<in> C" "r x < r c" "rep f c = rep f x" and z: "z \<in> C"
  shows "rep (f(x := c)) z = rep f z"
proof -
  let ?g = "f(x := c)"
  have G: "forest ?g C r N" using shortcut_forest [OF F c(1,2)] .
  show ?thesis using G z
  proof (induction rule: forest_induct)
    case (fixed z)
    then have "z \<noteq> x" using c(2) by auto
    with fixed show ?case by (simp add: rep_self)
  next
    case (step z)
    have up: "rep ?g z = rep ?g (?g z)" using rep_parent [OF G step(1)] by simp
    have IH: "rep ?g (?g z) = rep f (?g z)"
      using step(4) [OF step(3)] forest_rise [OF G step(1,2)] by blast
    show ?case
    proof (cases "z = x")
      case True
      then have "?g z = c" by simp
      with up IH c(3) True show ?thesis by metis
    next
      case False
      then have "?g z = f z" by simp
      with up IH rep_parent [OF F step(1)] show ?thesis by metis
    qed
  qed
qed

subsection \<open>Linking two roots merges their trees\<close>

lemma link_forest:
  assumes F: "forest f C r N" and a: "a \<in> C" "f a = a" and b: "b \<in> C" "f b = b" and "a \<noteq> b"
  shows "\<exists>r' N'. forest (f(a := b)) C r' N'"
proof -
  let ?r = "\<lambda>x. if rep f x = b then r x + r a + 1 else r x"
  have "forest (f(a := b)) C ?r (N + N + 1)"
    unfolding forest_def
  proof (intro ballI conjI impI)
    fix x assume x: "x \<in> C"
    show "(f(a := b)) x \<in> C" using b F x by (simp add: forest_def)
    have "r x \<le> N" "r a \<le> N" using F x a by (auto simp: forest_def)
    then show "?r x \<le> N + N + 1" by simp
    assume ne: "(f(a := b)) x \<noteq> x"
    show "?r x < ?r ((f(a := b)) x)"
    proof (cases "x = a")
      case True
      then show ?thesis using a b \<open>a \<noteq> b\<close> by (simp add: rep_self)
    next
      case False
      with ne forest_rise [OF F x] rep_parent [OF F x] show ?thesis by simp
    qed
  qed
  then show ?thesis by blast
qed

lemma link_rep:
  assumes F: "forest f C r N" and a: "a \<in> C" "f a = a" and b: "b \<in> C" "f b = b" and ab: "a \<noteq> b" and z: "z \<in> C"
  shows "rep (f(a := b)) z = (if rep f z = a then b else rep f z)"
  using F z
proof (induction rule: forest_induct)
  case (fixed z)
  show ?case
  proof (cases "z = a")
    case True
    have "root (f(a := b)) b b" using ab b by (intro root.self) simp
    then have "root (f(a := b)) a b" using ab by (subst root_step_iff) simp_all
    then have "rep (f(a := b)) a = b" by (rule rep_eq)
    moreover have "rep f a = a" using a(2) by (rule rep_self)
    ultimately show ?thesis using True by metis
  next
    case False
    then have "rep (f(a := b)) z = z" using fixed by (intro rep_self) simp
    moreover have "rep f z = z" using fixed(2) by (rule rep_self)
    ultimately show ?thesis using False by metis
  qed
next
  case (step z)
  have za: "z \<noteq> a" using step(2) a by auto
  have IH: "rep (f(a := b)) (f z) = (if rep f (f z) = a then b else rep f (f z))"
    using step(4) [OF step(3)] forest_rise [OF F step(1,2)] by blast
  obtain r' N' where G: "forest (f(a := b)) C r' N'" using link_forest [OF F a b ab] by blast
  have "rep (f(a := b)) z = rep (f(a := b)) (f z)" using rep_parent [OF G step(1)] za by simp
  with IH rep_parent [OF F step(1)] show ?case by metis
qed

subsection \<open>The interface\<close>

definition sym_edges :: "('k \<times> 'k) list \<Rightarrow> ('k \<times> 'k) set" where
  "sym_edges es = set es \<union> (set es)\<inverse>"

abbreviation connected :: "('k \<times> 'k) list \<Rightarrow> ('k \<times> 'k) set" where
  "connected es \<equiv> (sym_edges es)\<^sup>*"

lemma sym_sym_edges: "sym (sym_edges es)"
  by (auto simp: sym_edges_def sym_def)

lemma connected_sym: "(x, y) \<in> connected es \<Longrightarrow> (y, x) \<in> connected es"
  using sym_rtrancl [OF sym_sym_edges] by (metis symD)

lemma sym_edges_Cons: "sym_edges ((a, b) # es) = insert (a, b) (insert (b, a) (sym_edges es))"
  by (auto simp: sym_edges_def)

lemma connected_image_fwd:
  "(x, y) \<in> connected es \<Longrightarrow> (h x, h y) \<in> connected (map (map_prod h h) es)"
proof (induction rule: rtrancl_induct)
  case (step y z)
  then have "(h y, h z) \<in> sym_edges (map (map_prod h h) es)" by (force simp: sym_edges_def)
  with step show ?case by (meson rtrancl_into_rtrancl)
qed simp

lemma connected_image_bwd:
  assumes "inj_on h C" "\<forall>(a, b) \<in> set es. a \<in> C \<and> b \<in> C" "x \<in> C"
  shows "(h x, w) \<in> connected (map (map_prod h h) es) \<Longrightarrow> \<exists>y \<in> C. w = h y \<and> (x, y) \<in> connected es"
proof (induction rule: rtrancl_induct)
  case base
  then show ?case using assms(3) by blast
next
  case (step v w)
  then obtain y where y: "y \<in> C" "v = h y" "(x, y) \<in> connected es" by blast
  from step(2) obtain a b where ab: "(a, b) \<in> sym_edges es" "v = h a" "w = h b"
    by (force simp: sym_edges_def)
  have "a \<in> C" "b \<in> C" using ab(1) assms(2) by (auto simp: sym_edges_def)
  moreover from this y ab have "a = y" using assms(1) by (auto dest: inj_onD)
  ultimately have "b \<in> C \<and> w = h b \<and> (x, b) \<in> connected es" using ab y by (auto intro: rtrancl_into_rtrancl)
  then show ?case by blast
qed

lemma connected_image:
  assumes "inj_on h C" "\<forall>(a, b) \<in> set es. a \<in> C \<and> b \<in> C" "x \<in> C" "y \<in> C"
  shows "(h x, h y) \<in> connected (map (map_prod h h) es) \<longleftrightarrow> (x, y) \<in> connected es"
  using connected_image_fwd connected_image_bwd [OF assms(1-3)] assms(1,4) by (metis inj_onD)

lemma connected_closed:
  "(x, y) \<in> connected es \<Longrightarrow> x \<in> C \<Longrightarrow> \<forall>(a, b) \<in> set es. a \<in> C \<and> b \<in> C \<Longrightarrow> y \<in> C"
  by (induction rule: rtrancl_induct) (auto simp: sym_edges_def)

lemma sym_edges_cong: "set es = set es' \<Longrightarrow> sym_edges es = sym_edges es'"
  by (simp add: sym_edges_def)

fun unions :: "('s \<Rightarrow> 'k \<Rightarrow> 'k \<Rightarrow> 's option) \<Rightarrow> ('k \<times> 'k) list \<Rightarrow> 's \<Rightarrow> 's option" where
  "unions un [] s = Some s"
| "unions un ((a, b) # es) s = (case un s a b of None \<Rightarrow> None | Some s' \<Rightarrow> unions un es s')"

locale disjoint_sets =
  fixes union :: "'s \<Rightarrow> 'k \<Rightarrow> 'k \<Rightarrow> 's option"
    and ok :: "'s \<Rightarrow> bool"
    and carrier :: "'s \<Rightarrow> 'k set"
    and repr :: "'s \<Rightarrow> 'k \<Rightarrow> 'k"
  assumes union_returns: "ok s \<Longrightarrow> a \<in> carrier s \<Longrightarrow> b \<in> carrier s \<Longrightarrow>
      \<exists>s'. union s a b = Some s' \<and> ok s' \<and> carrier s' = carrier s"
    and union_merges: "ok s \<Longrightarrow> a \<in> carrier s \<Longrightarrow> b \<in> carrier s \<Longrightarrow> union s a b = Some s' \<Longrightarrow>
      x \<in> carrier s \<Longrightarrow> y \<in> carrier s \<Longrightarrow>
      repr s' x = repr s' y \<longleftrightarrow> repr s x = repr s y
        \<or> repr s x = repr s a \<and> repr s y = repr s b \<or> repr s x = repr s b \<and> repr s y = repr s a"
begin

definition same :: "'s \<Rightarrow> ('k \<times> 'k) set" where
  "same s = {(x, y). x \<in> carrier s \<and> y \<in> carrier s \<and> repr s x = repr s y}"

text \<open>After the unions, two elements share a representative exactly when a path of edges and old
  classes leads from one to the other.\<close>

lemma unions_connect:
  assumes "ok s" and "\<forall>(a, b) \<in> set es. a \<in> carrier s \<and> b \<in> carrier s"
  shows "\<exists>s'. unions union es s = Some s' \<and> ok s' \<and> carrier s' = carrier s
    \<and> same s' = {(x, y). x \<in> carrier s \<and> y \<in> carrier s \<and> (x, y) \<in> (same s \<union> sym_edges es)\<^sup>*}"
  using assms
proof (induction es arbitrary: s)
  case Nil
  have "trans (same s)" by (auto simp: trans_def same_def)
  then have "(same s)\<^sup>* = (same s)\<^sup>=" by (simp add: rtrancl_trancl_reflcl)
  with Nil show ?case by (auto simp: sym_edges_def same_def)
next
  case (Cons e es)
  obtain a b where e: "e = (a, b)" by fastforce
  with Cons.prems have ab: "a \<in> carrier s" "b \<in> carrier s" by auto
  from union_returns [OF Cons.prems(1) ab] obtain s1 where s1: "union s a b = Some s1" "ok s1"
    "carrier s1 = carrier s" by blast
  obtain s' where s': "unions union es s1 = Some s'" "ok s'" "carrier s' = carrier s1"
    "same s' = {(x, y). x \<in> carrier s1 \<and> y \<in> carrier s1 \<and> (x, y) \<in> (same s1 \<union> sym_edges es)\<^sup>*}"
    using Cons.IH [of s1] Cons.prems s1 by auto
  let ?R = "same s \<union> sym_edges ((a, b) # es)"
  have sub: "same s \<subseteq> same s1" "(a, b) \<in> same s1" "(b, a) \<in> same s1"
    using union_merges [OF Cons.prems(1) ab s1(1)] ab s1(3) by (auto simp: same_def)
  have path: "(x, y) \<in> ?R\<^sup>*" if "(x, y) \<in> same s1" for x y
  proof -
    have xy: "x \<in> carrier s" "y \<in> carrier s" "repr s1 x = repr s1 y" using that s1(3) by (auto simp: same_def)
    have edge: "(a, b) \<in> ?R" "(b, a) \<in> ?R" by (auto simp: sym_edges_Cons)
    consider "repr s x = repr s y" | "repr s x = repr s a" "repr s y = repr s b"
      | "repr s x = repr s b" "repr s y = repr s a"
      using union_merges [OF Cons.prems(1) ab s1(1) xy(1,2)] xy(3) by blast
    then show ?thesis
    proof cases
      case 1
      then have "(x, y) \<in> ?R" using xy by (auto simp: same_def)
      then show ?thesis ..
    next
      case 2
      then have "(x, a) \<in> ?R" "(b, y) \<in> ?R" using xy ab by (auto simp: same_def)
      then show ?thesis using edge by (meson rtrancl.rtrancl_refl rtrancl_into_rtrancl)
    next
      case 3
      then have "(x, b) \<in> ?R" "(a, y) \<in> ?R" using xy ab by (auto simp: same_def)
      then show ?thesis using edge by (meson rtrancl.rtrancl_refl rtrancl_into_rtrancl)
    qed
  qed
  have "(same s1 \<union> sym_edges es)\<^sup>* = ?R\<^sup>*"
  proof
    have "same s1 \<union> sym_edges es \<subseteq> ?R\<^sup>*" using path by (auto simp: sym_edges_Cons)
    then show "(same s1 \<union> sym_edges es)\<^sup>* \<subseteq> ?R\<^sup>*" by (rule rtrancl_subset_rtrancl)
    show "?R\<^sup>* \<subseteq> (same s1 \<union> sym_edges es)\<^sup>*"
      using sub by (intro rtrancl_mono) (auto simp: sym_edges_Cons)
  qed
  with s1 s' e show ?case by simp
qed

text \<open>From singletons, the classes are the connected components.\<close>

lemma unions_components:
  assumes "ok s" and "\<forall>(a, b) \<in> set es. a \<in> carrier s \<and> b \<in> carrier s"
    and "\<And>x y. x \<in> carrier s \<Longrightarrow> y \<in> carrier s \<Longrightarrow> repr s x = repr s y \<Longrightarrow> x = y"
  shows "\<exists>s'. unions union es s = Some s' \<and> ok s' \<and> carrier s' = carrier s
    \<and> (\<forall>x \<in> carrier s. \<forall>y \<in> carrier s. repr s' x = repr s' y \<longleftrightarrow> (x, y) \<in> connected es)"
proof -
  have "same s \<subseteq> Id" using assms(3) by (auto simp: same_def)
  then have eq: "(same s \<union> sym_edges es)\<^sup>* = connected es"
    by (intro rtrancl_subset) auto
  from unions_connect [OF assms(1,2)] obtain s' where "unions union es s = Some s'" "ok s'"
    "carrier s' = carrier s"
    "same s' = {(x, y). x \<in> carrier s \<and> y \<in> carrier s \<and> (x, y) \<in> connected es}"
    unfolding eq by blast
  then show ?thesis by (auto simp: same_def)
qed

end

end
