(* ===== verification/Cluster.thy ===== *)
theory Cluster
  imports Forest
begin

text \<open>
  \<^verbatim>\<open>er-reconcile/src/cluster.rs\<close>: the index-based union-find with path halving and the
  min-label propagation built on it. \<open>uf_find\<close> is the source's \<open>while\<close> loop: its value
  \<open>None\<close> stands for an out-of-range index (a panic) or a run that never ends, and the theorems show
  that neither happens. The same loop is the nested \<open>find\<close> of \<^verbatim>\<open>never_cut.rs\<close>.
\<close>

subsection \<open>UnionFind\<close>

record union_find =
  parent :: "nat list"

definition uf_new :: "nat \<Rightarrow> union_find" where
  "uf_new n = \<lparr>parent = [0..<n]\<rparr>"

partial_function (option) uf_loop :: "nat list \<Rightarrow> nat \<Rightarrow> (nat list \<times> nat) option" where
  "uf_loop p x =
     (if x \<ge> length p then None
      else if p ! x = x then Some (p, x)
      else if p ! x \<ge> length p then None
      else uf_loop (p[x := p ! (p ! x)]) (p ! (p ! x)))"

lemmas [code] = uf_loop.simps

definition uf_find :: "union_find \<Rightarrow> nat \<Rightarrow> (union_find \<times> nat) option" where
  "uf_find u x = map_option (\<lambda>(p, r). (u\<lparr>parent := p\<rparr>, r)) (uf_loop (parent u) x)"

definition uf_union :: "union_find \<Rightarrow> nat \<Rightarrow> nat \<Rightarrow> union_find option" where
  "uf_union u a b =
     (case uf_find u a of None \<Rightarrow> None
      | Some (u1, ra) \<Rightarrow>
          (case uf_find u1 b of None \<Rightarrow> None
           | Some (u2, rb) \<Rightarrow> Some (if ra \<noteq> rb then u2\<lparr>parent := (parent u2)[ra := rb]\<rparr> else u2)))"

subsection \<open>Label propagation\<close>

definition node_ids :: "string list \<Rightarrow> (string \<times> string) list \<Rightarrow> string list" where
  "node_ids nodes edges = bset_of (nodes @ concat (map (\<lambda>(a, b). [a, b]) edges))"

definition id_index :: "string list \<Rightarrow> (string, nat) bmap" where
  "id_index ids = bmap_collect (zip ids [0..<length ids])"

fun union_edges :: "(string, nat) bmap \<Rightarrow> (string \<times> string) list \<Rightarrow> union_find \<Rightarrow> union_find option" where
  "union_edges index [] u = Some u"
| "union_edges index ((a, b) # es) u =
     (case (map_of index a, map_of index b) of
        (Some i, Some j) \<Rightarrow> (case uf_union u i j of None \<Rightarrow> None | Some u' \<Rightarrow> union_edges index es u')
      | _ \<Rightarrow> None)"

fun root_min :: "nat \<Rightarrow> string list \<Rightarrow> union_find \<Rightarrow> (nat, string) bmap \<Rightarrow> (union_find \<times> (nat, string) bmap) option" where
  "root_min i [] u m = Some (u, m)"
| "root_min i (s # ss) u m =
     (case uf_find u i of None \<Rightarrow> None
      | Some (u', rt) \<Rightarrow>
          root_min (i + 1) ss u' (if map_of m rt = None then bmap_insert rt s m else m))"

fun label_loop :: "nat \<Rightarrow> string list \<Rightarrow> union_find \<Rightarrow> (nat, string) bmap \<Rightarrow> (string \<times> string) list option" where
  "label_loop i [] u m = Some []"
| "label_loop i (s # ss) u m =
     (case uf_find u i of None \<Rightarrow> None
      | Some (u', rt) \<Rightarrow>
          (case map_of m rt of None \<Rightarrow> None
           | Some l \<Rightarrow> map_option (\<lambda>rest. (s, l) # rest) (label_loop (i + 1) ss u' m)))"

definition label_propagate :: "string list \<Rightarrow> (string \<times> string) list \<Rightarrow> (string, string) bmap option" where
  "label_propagate nodes edges =
     (let ids = node_ids nodes edges; index = id_index ids in
      case union_edges index edges (uf_new (length ids)) of None \<Rightarrow> None
      | Some u \<Rightarrow>
          (case root_min 0 ids u [] of None \<Rightarrow> None
           | Some (u', m) \<Rightarrow> map_option bmap_collect (label_loop 0 ids u' m)))"

subsection \<open>The union-find is a forest\<close>

abbreviation par :: "union_find \<Rightarrow> nat \<Rightarrow> nat" where
  "par u \<equiv> (!) (parent u)"

abbreviation slots :: "union_find \<Rightarrow> nat set" where
  "slots u \<equiv> {..<length (parent u)}"

definition uf_ok :: "union_find \<Rightarrow> bool" where
  "uf_ok u \<longleftrightarrow> (\<exists>r N. forest (par u) (slots u) r N)"

abbreviation uf_rep :: "union_find \<Rightarrow> nat \<Rightarrow> nat" where
  "uf_rep u \<equiv> rep (par u)"

lemma nth_update_fun: "x < length p \<Longrightarrow> (!) (p[x := v]) = ((!) p)(x := v)"
  by (rule ext) (simp add: nth_list_update)

lemma uf_loop_correct:
  assumes "forest ((!) p) {..<length p} r N" "x < length p"
  shows "\<exists>p'. uf_loop p x = Some (p', rep ((!) p) x) \<and> length p' = length p
    \<and> forest ((!) p') {..<length p} r N \<and> (\<forall>z < length p. rep ((!) p') z = rep ((!) p) z)"
  using assms
proof (induction "N - r x" arbitrary: p x rule: less_induct)
  case less
  show ?case
  proof (cases "p ! x = x")
    case True
    then show ?thesis using less.prems by (subst uf_loop.simps) (simp add: rep_self)
  next
    case False
    let ?g = "p ! (p ! x)" and ?p = "p[x := p ! (p ! x)]"
    have x: "x \<in> {..<length p}" using less.prems by simp
    note F = less.prems(1)
    have px: "p ! x \<in> {..<length p}" using forest_in [OF F x] .
    have gx: "?g \<in> {..<length p}" using forest_in [OF F px] .
    have rise: "r x < r ?g"
      using forest_rise [OF F x False] forest_rise [OF F px] by (cases "?g = p ! x") auto
    have same: "rep ((!) p) ?g = rep ((!) p) x" using rep_parent [OF F px] rep_parent [OF F x] by simp
    have upd: "(!) ?p = ((!) p)(x := ?g)" using x by (intro nth_update_fun) simp
    have F': "forest ((!) ?p) {..<length ?p} r N" using shortcut_forest [OF F gx rise] upd by simp
    have keep: "rep ((!) ?p) z = rep ((!) p) z" if "z < length p" for z
      using shortcut_rep [OF F x gx rise same, of z] that upd by simp
    have "r ?g \<le> N" using F gx by (simp add: forest_def)
    then have "N - r ?g < N - r x" using rise by simp
    from less.hyps [OF this F'] gx obtain p' where p': "uf_loop ?p ?g = Some (p', rep ((!) ?p) ?g)"
      "length p' = length p" "forest ((!) p') {..<length p} r N"
      "\<forall>z < length p. rep ((!) p') z = rep ((!) ?p) z" by auto
    have "uf_loop p x = uf_loop ?p ?g" using x px False by (subst uf_loop.simps) simp
    then show ?thesis using p' keep same gx by simp
  qed
qed

lemma uf_find_correct:
  assumes "uf_ok u" "x < length (parent u)"
  shows "\<exists>u'. uf_find u x = Some (u', uf_rep u x) \<and> uf_ok u' \<and> slots u' = slots u
    \<and> (\<forall>z \<in> slots u. uf_rep u' z = uf_rep u z)"
proof -
  obtain r N where "forest (par u) (slots u) r N" using assms by (auto simp: uf_ok_def)
  from uf_loop_correct [OF this] assms(2) obtain p' where
    "uf_loop (parent u) x = Some (p', uf_rep u x)" "length p' = length (parent u)"
    "forest ((!) p') (slots u) r N" "\<forall>z < length (parent u). rep ((!) p') z = uf_rep u z"
    by auto
  then show ?thesis by (intro exI [of _ "u\<lparr>parent := p'\<rparr>"]) (auto simp: uf_find_def uf_ok_def)
qed

lemma uf_union_correct:
  assumes ok: "uf_ok u" and a: "a \<in> slots u" and b: "b \<in> slots u"
  shows "\<exists>u'. uf_union u a b = Some u' \<and> uf_ok u' \<and> slots u' = slots u
    \<and> (\<forall>z \<in> slots u. uf_rep u' z = (if uf_rep u z = uf_rep u a then uf_rep u b else uf_rep u z))"
proof -
  obtain u1 where u1: "uf_find u a = Some (u1, uf_rep u a)" "uf_ok u1" "slots u1 = slots u"
    "\<forall>z \<in> slots u. uf_rep u1 z = uf_rep u z" using uf_find_correct [OF ok] a by blast
  have b1: "b < length (parent u1)" using b u1(3) by auto
  obtain u2 where u2: "uf_find u1 b = Some (u2, uf_rep u1 b)" "uf_ok u2" "slots u2 = slots u1"
    "\<forall>z \<in> slots u1. uf_rep u2 z = uf_rep u1 z" using uf_find_correct [OF u1(2) b1] by blast
  let ?ra = "uf_rep u a" and ?rb = "uf_rep u b"
  have rb: "uf_rep u1 b = ?rb" using u1(4) b by blast
  have keep: "uf_rep u2 z = uf_rep u z" if "z \<in> slots u" for z using that u1 u2 by metis
  show ?thesis
  proof (cases "?ra = ?rb")
    case True
    then show ?thesis using u1 u2 rb keep by (auto simp: uf_union_def)
  next
    case False
    obtain r N where F: "forest (par u2) (slots u2) r N" using u2(2) by (auto simp: uf_ok_def)
    have sl: "slots u2 = slots u" using u1(3) u2(3) by simp
    have A: "?ra \<in> slots u2" "par u2 ?ra = ?ra"
      using rep_in [OF F, of a] rep_fixed [OF F, of a] keep [OF a] a sl by auto
    have B: "?rb \<in> slots u2" "par u2 ?rb = ?rb"
      using rep_in [OF F, of b] rep_fixed [OF F, of b] keep [OF b] b sl by auto
    let ?u = "u2\<lparr>parent := (parent u2)[?ra := ?rb]\<rparr>"
    have upd: "par ?u = (par u2)(?ra := ?rb)" using A by (simp add: nth_update_fun)
    have "uf_ok ?u" using link_forest [OF F A B False] upd by (auto simp: uf_ok_def)
    moreover have "uf_rep ?u z = (if uf_rep u2 z = ?ra then ?rb else uf_rep u2 z)" if "z \<in> slots u2" for z
      using link_rep [OF F A B False that] upd by simp
    ultimately show ?thesis using u1 u2 rb keep sl False by (auto simp: uf_union_def)
  qed
qed

interpretation uf: disjoint_sets uf_union uf_ok slots uf_rep
proof unfold_locales
  fix u a b assume ab: "uf_ok u" "a \<in> slots u" "b \<in> slots u"
  from uf_union_correct [OF ab] show "\<exists>u'. uf_union u a b = Some u' \<and> uf_ok u' \<and> slots u' = slots u" by blast
  fix u' x y assume "uf_union u a b = Some u'" "x \<in> slots u" "y \<in> slots u"
  with uf_union_correct [OF ab] show "uf_rep u' x = uf_rep u' y \<longleftrightarrow> uf_rep u x = uf_rep u y
        \<or> uf_rep u x = uf_rep u a \<and> uf_rep u y = uf_rep u b
        \<or> uf_rep u x = uf_rep u b \<and> uf_rep u y = uf_rep u a" by auto
qed

lemma uf_new_ok: "uf_ok (uf_new n)" "slots (uf_new n) = {..<n}" "x < n \<Longrightarrow> uf_rep (uf_new n) x = x"
proof -
  have "forest (par (uf_new n)) (slots (uf_new n)) (\<lambda>_. 0) 0" by (auto simp: forest_def uf_new_def)
  then show "uf_ok (uf_new n)" unfolding uf_ok_def by blast
qed (auto simp: uf_new_def intro: rep_self)


subsection \<open>Indexing the record keys\<close>

lemma id_index_nth: "distinct ids \<Longrightarrow> i < length ids \<Longrightarrow> map_of (id_index ids) (ids ! i) = Some i"
  by (simp add: id_index_def bmap_get_collect_distinct map_of_zip_nth)

lemma id_index_None: "distinct ids \<Longrightarrow> map_of (id_index ids) s = None \<longleftrightarrow> s \<notin> set ids"
  by (simp add: id_index_def bmap_get_collect_distinct map_of_zip_is_None)

lemma id_index_SomeD: "distinct ids \<Longrightarrow> map_of (id_index ids) s = Some i \<Longrightarrow> i < length ids \<and> ids ! i = s"
proof -
  assume d: "distinct ids" and s: "map_of (id_index ids) s = Some i"
  then have "s \<in> set ids" using id_index_None [OF d] by (metis option.distinct(1))
  then obtain j where "j < length ids" "ids ! j = s" by (auto simp: in_set_conv_nth)
  with id_index_nth [OF d this(1)] s show ?thesis by simp
qed

abbreviation idx :: "string list \<Rightarrow> string \<Rightarrow> nat" where
  "idx ids s \<equiv> the (map_of (id_index ids) s)"

lemma idx_nth: "distinct ids \<Longrightarrow> i < length ids \<Longrightarrow> idx ids (ids ! i) = i"
  by (simp add: id_index_nth)

lemma idx_bound: "distinct ids \<Longrightarrow> s \<in> set ids \<Longrightarrow> idx ids s < length ids \<and> ids ! idx ids s = s"
proof -
  assume d: "distinct ids" and "s \<in> set ids"
  then obtain i where "map_of (id_index ids) s = Some i" using id_index_None [OF d] by auto
  with id_index_SomeD [OF d this] show ?thesis by simp
qed

lemma idx_inj: "distinct ids \<Longrightarrow> inj_on (idx ids) (set ids)"
  by (rule inj_on_inverseI [where g = "(!) ids"]) (simp add: idx_bound)

lemma union_edges_unions:
  "distinct ids \<Longrightarrow> \<forall>(a, b) \<in> set es. a \<in> set ids \<and> b \<in> set ids \<Longrightarrow>
   union_edges (id_index ids) es u = unions uf_union (map (map_prod (idx ids) (idx ids)) es) u"
proof (induction es arbitrary: u)
  case (Cons e es)
  obtain a b where e: "e = (a, b)" by fastforce
  with Cons.prems have "map_of (id_index ids) a \<noteq> None" "map_of (id_index ids) b \<noteq> None"
    by (simp_all add: id_index_None)
  with Cons e show ?case by (auto split: option.split)
qed simp

text \<open>Uniting the edges leaves two indices in one tree exactly when the edges connect their keys.\<close>

lemma union_edges_components:
  assumes "distinct ids" "\<forall>(a, b) \<in> set es. a \<in> set ids \<and> b \<in> set ids"
  shows "\<exists>u. union_edges (id_index ids) es (uf_new (length ids)) = Some u \<and> uf_ok u
    \<and> slots u = {..<length ids}
    \<and> (\<forall>i < length ids. \<forall>j < length ids. uf_rep u i = uf_rep u j \<longleftrightarrow> (ids ! i, ids ! j) \<in> connected es)"
proof -
  let ?h = "idx ids" and ?n = "length ids" and ?es = "map (map_prod (idx ids) (idx ids)) es"
  have range: "\<forall>(a, b) \<in> set ?es. a \<in> slots (uf_new ?n) \<and> b \<in> slots (uf_new ?n)"
  proof -
    have "a \<in> set ids \<and> b \<in> set ids" if "(a, b) \<in> set es" for a b using that assms(2) by blast
    then show ?thesis using idx_bound [OF assms(1)] by (auto simp: uf_new_ok(2))
  qed
  have fresh: "x = y" if "x \<in> slots (uf_new ?n)" "y \<in> slots (uf_new ?n)" "uf_rep (uf_new ?n) x = uf_rep (uf_new ?n) y"
    for x y using that uf_new_ok by simp
  from uf.unions_components [OF uf_new_ok(1) range fresh] obtain u where u:
    "unions uf_union ?es (uf_new ?n) = Some u" "uf_ok u" "slots u = {..<?n}"
    "\<forall>x \<in> {..<?n}. \<forall>y \<in> {..<?n}. uf_rep u x = uf_rep u y \<longleftrightarrow> (x, y) \<in> connected ?es"
    unfolding uf_new_ok(2) by blast
  have "(i, j) \<in> connected ?es \<longleftrightarrow> (ids ! i, ids ! j) \<in> connected es" if "i < ?n" "j < ?n" for i j
    using connected_image [OF idx_inj [OF assms(1)] assms(2), of "ids ! i" "ids ! j"] that
    by (simp only: idx_nth [OF assms(1)] nth_mem)
  with u show ?thesis using union_edges_unions [OF assms] by auto
qed

subsection \<open>Labels\<close>

lemma root_min_correct:
  "uf_ok u \<Longrightarrow> slots u = {..<i + length ss} \<Longrightarrow>
   \<exists>u' m'. root_min i ss u m = Some (u', m') \<and> uf_ok u' \<and> slots u' = slots u
     \<and> (\<forall>z \<in> slots u. uf_rep u' z = uf_rep u z)
     \<and> map_of m' = map_of (zip (map (uf_rep u) [i..<i + length ss]) ss) ++ map_of m"
proof (induction ss arbitrary: i u m)
  case (Cons s ss)
  have "i < length (parent u)" using Cons.prems(2) by auto
  from uf_find_correct [OF Cons.prems(1) this] obtain u1 where u1: "uf_find u i = Some (u1, uf_rep u i)"
    "uf_ok u1" "slots u1 = slots u" "\<forall>z \<in> slots u. uf_rep u1 z = uf_rep u z" by blast
  let ?m = "if map_of m (uf_rep u i) = None then bmap_insert (uf_rep u i) s m else m"
  from Cons.IH [OF u1(2), of "i + 1" ?m] u1(3) Cons.prems(2) obtain u' m' where u': "root_min (i + 1) ss u1 ?m = Some (u', m')"
    "uf_ok u'" "slots u' = slots u1" "\<forall>z \<in> slots u1. uf_rep u' z = uf_rep u1 z"
    "map_of m' = map_of (zip (map (uf_rep u1) [i + 1..<i + 1 + length ss]) ss) ++ map_of ?m" by auto
  have same: "map (uf_rep u1) [i + 1..<i + 1 + length ss] = map (uf_rep u) [i + 1..<i + 1 + length ss]"
    using u1(4) Cons.prems(2) by auto
  have "[i..<i + length (s # ss)] = i # [i + 1..<i + 1 + length ss]" by (subst upt_conv_Cons) auto
  then have "map_of m' = map_of (zip (map (uf_rep u) [i..<i + length (s # ss)]) (s # ss)) ++ map_of m"
    unfolding u'(5) same by (auto simp: map_add_def fun_eq_iff split: option.split)
  with u1 u' show ?case by auto
qed simp

lemma label_loop_correct:
  "uf_ok u \<Longrightarrow> slots u = {..<i + length ss} \<Longrightarrow> (\<And>z. i \<le> z \<Longrightarrow> z < i + length ss \<Longrightarrow> map_of m (uf_rep u z) \<noteq> None) \<Longrightarrow>
   label_loop i ss u m = Some (zip ss (map (\<lambda>j. the (map_of m (uf_rep u j))) [i..<i + length ss]))"
proof (induction ss arbitrary: i u)
  case (Cons s ss)
  have "i < length (parent u)" using Cons.prems(2) by auto
  from uf_find_correct [OF Cons.prems(1) this] obtain u1 where u1: "uf_find u i = Some (u1, uf_rep u i)"
    "uf_ok u1" "slots u1 = slots u" "\<forall>z \<in> slots u. uf_rep u1 z = uf_rep u z" by blast
  have same: "uf_rep u1 z = uf_rep u z" if "z < i + 1 + length ss" for z using that u1(4) Cons.prems(2) by auto
  have "label_loop (i + 1) ss u1 m =
      Some (zip ss (map (\<lambda>j. the (map_of m (uf_rep u1 j))) [i + 1..<i + 1 + length ss]))"
    by (rule Cons.IH) (use u1 Cons.prems same in auto)
  also have "map (\<lambda>j. the (map_of m (uf_rep u1 j))) [i + 1..<i + 1 + length ss] =
      map (\<lambda>j. the (map_of m (uf_rep u j))) [i + 1..<i + 1 + length ss]" using same by auto
  finally have rest: "label_loop (i + 1) ss u1 m =
      Some (zip ss (map (\<lambda>j. the (map_of m (uf_rep u j))) [i + 1..<i + 1 + length ss]))" .
  have "[i..<i + length (s # ss)] = i # [i + 1..<i + 1 + length ss]" by (subst upt_conv_Cons) auto
  moreover obtain l where "map_of m (uf_rep u i) = Some l" using Cons.prems(3) [of i] by auto
  ultimately show ?case using u1(1) rest by simp
qed simp

lemma map_of_zip_least:
  "length ks = length xs \<Longrightarrow> sorted xs \<Longrightarrow> map_of (zip ks xs) y = Some s \<Longrightarrow>
   (\<exists>k < length xs. ks ! k = y \<and> xs ! k = s) \<and> (\<forall>j < length xs. ks ! j = y \<longrightarrow> s \<le> xs ! j)"
proof (induction ks xs rule: list_induct2)
  case (Cons k ks x xs)
  show ?case
  proof (cases "y = k")
    case True
    with Cons show ?thesis by (auto simp: nth_Cons split: nat.split)
  next
    case False
    with Cons have "map_of (zip ks xs) y = Some s" "sorted xs" by auto
    from Cons.IH [OF this(2,1)] False show ?thesis by (auto simp: nth_Cons split: nat.split)
  qed
qed simp

definition universe :: "string list \<Rightarrow> (string \<times> string) list \<Rightarrow> string set" where
  "universe nodes edges = set nodes \<union> fst ` set edges \<union> snd ` set edges"

lemma set_node_ids: "set (node_ids nodes edges) = universe nodes edges"
  by (force simp: node_ids_def universe_def)

lemma label_of_component:
  assumes reps: "\<forall>i < length ids. \<forall>j < length ids. f i = f j \<longleftrightarrow> (ids ! i, ids ! j) \<in> connected es"
    and ids: "sorted ids" "\<forall>(a, b) \<in> set es. a \<in> set ids \<and> b \<in> set ids" and j: "j < length ids"
  shows "map_of (zip (map f [0..<length ids]) ids) (f j) = Some (Min {v. (ids ! j, v) \<in> connected es})"
proof -
  let ?ks = "map f [0..<length ids]"
  have "f j \<in> set ?ks" using j by auto
  then obtain l where l: "map_of (zip ?ks ids) (f j) = Some l"
    by (metis length_map length_upt map_of_zip_is_None minus_nat.diff_0 not_None_eq)
  from map_of_zip_least [OF _ ids(1) l] obtain k where k: "k < length ids" "f k = f j" "ids ! k = l"
    and least: "\<And>i. i < length ids \<Longrightarrow> f i = f j \<Longrightarrow> l \<le> ids ! i" by auto
  have closed: "v \<in> set ids" if "(ids ! j, v) \<in> connected es" for v
    using connected_closed [OF that] ids(2) j by simp
  have "Min {v. (ids ! j, v) \<in> connected es} = l"
  proof (rule Min_eqI)
    show "finite {v. (ids ! j, v) \<in> connected es}" using closed by (blast intro: finite_subset [of _ "set ids"])
    show "l \<in> {v. (ids ! j, v) \<in> connected es}" using reps k j by (metis mem_Collect_eq)
    show "l \<le> v" if "v \<in> {v. (ids ! j, v) \<in> connected es}" for v
      using that closed least reps j by (metis in_set_conv_nth mem_Collect_eq)
  qed
  with l show ?thesis by simp
qed

lemma label_propagate_run:
  fixes nodes edges
  defines "ids \<equiv> node_ids nodes edges"
  shows "label_propagate nodes edges =
    Some (bmap_collect (zip ids (map (\<lambda>v. Min {w. (v, w) \<in> connected edges}) ids)))"
proof -
  have ids: "distinct ids" "sorted ids" "\<forall>(a, b) \<in> set edges. a \<in> set ids \<and> b \<in> set ids"
    by (auto simp: ids_def node_ids_def)
  from union_edges_components [OF ids(1,3)] obtain u where u:
    "union_edges (id_index ids) edges (uf_new (length ids)) = Some u" "uf_ok u" "slots u = {..<length ids}"
    "\<forall>i < length ids. \<forall>j < length ids. uf_rep u i = uf_rep u j \<longleftrightarrow> (ids ! i, ids ! j) \<in> connected edges"
    by blast
  from root_min_correct [OF u(2), of 0 ids "[]"] u(3) obtain u' m where m: "root_min 0 ids u [] = Some (u', m)"
    "uf_ok u'" "slots u' = slots u" "\<forall>z \<in> slots u. uf_rep u' z = uf_rep u z"
    "map_of m = map_of (zip (map (uf_rep u) [0..<length ids]) ids)" by auto
  have get: "map_of m (uf_rep u' z) = Some (Min {w. (ids ! z, w) \<in> connected edges})" if "z < length ids" for z
    using label_of_component [OF u(4) ids(2,3) that] m(4,5) u(3) that by simp
  have "label_loop 0 ids u' m = Some (zip ids (map (\<lambda>j. the (map_of m (uf_rep u' j))) [0..<length ids]))"
    using label_loop_correct [OF m(2), of 0 ids m] m(3) u(3) get by auto
  also have "map (\<lambda>j. the (map_of m (uf_rep u' j))) [0..<length ids] = map (\<lambda>v. Min {w. (v, w) \<in> connected edges}) ids"
    using get by (intro nth_equalityI) auto
  finally show ?thesis
    using u(1) m(1) by (simp add: label_propagate_def Let_def ids_def [symmetric])
qed

subsection \<open>Properties\<close>

text \<open>C29: \<open>label_propagate\<close> always returns (no index is out of range and every \<open>find\<close> loop ends); its
  keys are the nodes and edge endpoints in ascending order, and each key is labelled with the
  smallest record key of its connected component, whatever the order and orientation of the edges.\<close>

theorem label_propagate_correct:
  "\<exists>labels. label_propagate nodes edges = Some labels
    \<and> bmap_keys labels = sorted_list_of_set (universe nodes edges)
    \<and> (\<forall>v. map_of labels v = (if v \<in> universe nodes edges then Some (Min {w. (v, w) \<in> connected edges}) else None))"
proof -
  let ?ids = "node_ids nodes edges"
  let ?l = "bmap_collect (zip ?ids (map (\<lambda>v. Min {w. (v, w) \<in> connected edges}) ?ids))"
  have get: "map_of ?l v = (if v \<in> universe nodes edges then Some (Min {w. (v, w) \<in> connected edges}) else None)" for v
  proof -
    have d: "distinct (map fst (zip ?ids (map (\<lambda>v. Min {w. (v, w) \<in> connected edges}) ?ids)))"
      by (simp add: node_ids_def)
    show ?thesis unfolding bmap_get_collect_distinct [OF d] map_of_zip_map set_node_ids ..
  qed
  then have "dom (map_of ?l) = universe nodes edges" by (auto simp: dom_def split: if_splits)
  then have "bmap_keys ?l = sorted_list_of_set (universe nodes edges)"
    using btree_map.keys_unique [of ?l] by simp
  with get label_propagate_run show ?thesis by blast
qed

end
