(* ===== verification/Assertions.thy ===== *)
theory Assertions
  imports Forest
begin

text \<open>
  \<^verbatim>\<open>er-reconcile/src/assertions.rs\<close>: steward assertions, the string-keyed union-find with full
  path compression, and the contradiction check. The parent map is an ordered map; its two loops
  have the value \<open>None\<close> for a missing key (a panic) or a run that never ends.
\<close>

datatype assertion_kind = Always | Never

record assertion =
  assertion_id :: string
  rec_a_key :: string
  rec_b_key :: string
  a_kind :: assertion_kind
  active :: bool

record contradiction =
  x_rec_a_key :: string
  x_rec_b_key :: string
  never_assertion_id :: string
  always_assertion_ids :: "string list"
  x_component :: "string list"

subsection \<open>The string-keyed union-find\<close>

type_synonym parents = "(string, string) bmap"

partial_function (option) root_loop :: "parents \<Rightarrow> string \<Rightarrow> string option" where
  "root_loop p r =
     (case map_of p r of None \<Rightarrow> None
      | Some nxt \<Rightarrow> if nxt = r then Some r else root_loop p nxt)"

partial_function (option) compress_loop :: "parents \<Rightarrow> string \<Rightarrow> string \<Rightarrow> parents option" where
  "compress_loop p r cursor =
     (case map_of p cursor of None \<Rightarrow> None
      | Some nxt \<Rightarrow> if nxt = r then Some p else compress_loop (bmap_insert cursor r p) r nxt)"

lemmas [code] = root_loop.simps compress_loop.simps

definition key_find :: "parents \<Rightarrow> string \<Rightarrow> (parents \<times> string) option" where
  "key_find p key =
     (case root_loop p key of None \<Rightarrow> None
      | Some r \<Rightarrow> map_option (\<lambda>p'. (p', r)) (compress_loop p r key))"

definition key_union :: "parents \<Rightarrow> string \<Rightarrow> string \<Rightarrow> parents option" where
  "key_union p a b =
     (case key_find p a of None \<Rightarrow> None
      | Some (p1, ra) \<Rightarrow>
          (case key_find p1 b of None \<Rightarrow> None
           | Some (p2, rb) \<Rightarrow>
               Some (if ra = rb then p2
                     else if rb < ra then bmap_insert ra rb p2
                     else bmap_insert rb ra p2)))"

subsection \<open>The contradiction check\<close>

definition always_of :: "assertion list \<Rightarrow> assertion list" where
  "always_of assertions = filter (\<lambda>a. a_kind a = Always) (filter active assertions)"

definition seed_key :: "string \<Rightarrow> parents \<Rightarrow> parents" where
  "seed_key k p = (if map_of p k = None then bmap_insert k k p else p)"

definition seed_parents :: "assertion list \<Rightarrow> parents" where
  "seed_parents always = fold seed_key (concat (map (\<lambda>a. [rec_a_key a, rec_b_key a]) always)) []"

definition assertion_pair :: "assertion \<Rightarrow> string \<times> string" where
  "assertion_pair a = (rec_a_key a, rec_b_key a)"

fun group_loop :: "('x \<Rightarrow> string) \<Rightarrow> ('v option \<Rightarrow> 'x \<Rightarrow> 'v) \<Rightarrow> 'x list \<Rightarrow> parents \<Rightarrow> (string, 'v) bmap
    \<Rightarrow> (parents \<times> (string, 'v) bmap) option" where
  "group_loop key add [] p m = Some (p, m)"
| "group_loop key add (x # xs) p m =
     (case key_find p (key x) of None \<Rightarrow> None
      | Some (p', r) \<Rightarrow> group_loop key add xs p' (bmap_insert r (add (map_of m r) x) m))"

definition add_member :: "string list option \<Rightarrow> string \<Rightarrow> string list" where
  "add_member old k = bset_of (or_default old @ [k])"

definition add_offender :: "string list option \<Rightarrow> assertion \<Rightarrow> string list" where
  "add_offender old a = or_default old @ [assertion_id a]"

fun never_loop :: "(string, string list) bmap \<Rightarrow> (string, string list) bmap \<Rightarrow> assertion list \<Rightarrow> parents
    \<Rightarrow> contradiction list option" where
  "never_loop components offenders [] p = Some []"
| "never_loop components offenders (a # as) p =
     (if a_kind a \<noteq> Never then never_loop components offenders as p
      else if map_of p (rec_a_key a) = None \<or> map_of p (rec_b_key a) = None
        then never_loop components offenders as p
      else case key_find p (rec_a_key a) of None \<Rightarrow> None
      | Some (p1, ra) \<Rightarrow>
      (case key_find p1 (rec_b_key a) of None \<Rightarrow> None
      | Some (p2, rb) \<Rightarrow>
          if ra \<noteq> rb then never_loop components offenders as p2
          else case (map_of offenders ra, map_of components ra) of
            (Some ids, Some members) \<Rightarrow>
              map_option (\<lambda>rest. \<lparr>x_rec_a_key = rec_a_key a, x_rec_b_key = rec_b_key a,
                  never_assertion_id = assertion_id a, always_assertion_ids = sort ids,
                  x_component = members\<rparr> # rest)
                (never_loop components offenders as p2)
          | _ \<Rightarrow> None))"

definition check_contradiction_1 :: "assertion list \<Rightarrow> contradiction list option" where
  "check_contradiction_1 assertions =
     (let always = always_of assertions in
      case unions key_union (map assertion_pair always) (seed_parents always) of None \<Rightarrow> None
      | Some p \<Rightarrow>
      (case group_loop id add_member (bmap_keys p) p [] of None \<Rightarrow> None
      | Some (p1, components) \<Rightarrow>
      (case group_loop rec_a_key add_offender always p1 [] of None \<Rightarrow> None
      | Some (p2, offenders) \<Rightarrow>
          map_option (sort_key (\<lambda>c. (x_rec_a_key c, x_rec_b_key c)))
            (never_loop components offenders (filter active assertions) p2))))"

subsection \<open>The parent map is a forest\<close>

definition key_par :: "parents \<Rightarrow> string \<Rightarrow> string" where
  "key_par p k = (case map_of p k of None \<Rightarrow> k | Some v \<Rightarrow> v)"

definition keys_of :: "parents \<Rightarrow> string set" where
  "keys_of p = fst ` set p"

lemma keys_of_insert [simp]: "keys_of (bmap_insert k v p) = insert k (keys_of p)"
  by (simp add: keys_of_def)

lemma keys_of_None: "map_of p k = None \<longleftrightarrow> k \<notin> keys_of p"
  by (simp add: keys_of_def map_of_eq_None_iff)

abbreviation key_rep :: "parents \<Rightarrow> string \<Rightarrow> string" where
  "key_rep p \<equiv> rep (key_par p)"

definition parents_ok :: "parents \<Rightarrow> bool" where
  "parents_ok p \<longleftrightarrow> bmap_ok p \<and> (\<exists>r N. forest (key_par p) (keys_of p) r N)"

lemma key_par_insert: "key_par (bmap_insert k v p) = (key_par p)(k := v)"
  by (rule ext) (simp add: key_par_def)

lemma key_par_get: "k \<in> keys_of p \<Longrightarrow> map_of p k = Some (key_par p k)"
  by (auto simp: key_par_def keys_of_None split: option.split)

lemma root_loop_correct:
  "forest (key_par p) (keys_of p) r N \<Longrightarrow> k \<in> keys_of p \<Longrightarrow> root_loop p k = Some (key_rep p k)"
proof -
  assume F: "forest (key_par p) (keys_of p) r N" and "k \<in> keys_of p"
  from this show ?thesis
  proof (induction rule: forest_induct)
    case (fixed k)
    then show ?case by (subst root_loop.simps) (simp add: key_par_get rep_self)
  next
    case (step k)
    then have "root_loop p (key_par p k) = Some (key_rep p (key_par p k))"
      using forest_rise [OF F step(1,2)] by blast
    then show ?case using step(1,2) rep_parent [OF F step(1)]
      by (subst root_loop.simps) (simp add: key_par_get)
  qed
qed

lemma compress_loop_correct:
  assumes "bmap_ok p" "forest (key_par p) (keys_of p) r N" "c \<in> keys_of p"
  shows "\<exists>p'. compress_loop p (key_rep p c) c = Some p' \<and> bmap_ok p' \<and> keys_of p' = keys_of p
    \<and> forest (key_par p') (keys_of p) r N \<and> (\<forall>z \<in> keys_of p. key_rep p' z = key_rep p z)"
  using assms
proof (induction "N - r c" arbitrary: p c rule: less_induct)
  case less
  note F = less.prems(2) and c = less.prems(3)
  let ?r = "key_rep p c" and ?n = "key_par p c"
  show ?case
  proof (cases "?n = ?r")
    case True
    then show ?thesis using less.prems by (subst compress_loop.simps) (simp add: key_par_get)
  next
    case False
    have move: "?n \<noteq> c"
    proof
      assume "?n = c"
      then have "?r = c" by (rule rep_self)
      with False \<open>?n = c\<close> show False by simp
    qed
    let ?p = "bmap_insert c ?r p"
    have r: "?r \<in> keys_of p" using rep_in [OF F c] .
    have up: "r c < r ?r" using rep_rank [OF F c move] .
    have same: "key_rep p ?r = key_rep p c" using rep_idem [OF F c] .
    have keys: "keys_of ?p = keys_of p" using c by auto
    have F': "forest (key_par ?p) (keys_of ?p) r N"
      using shortcut_forest [OF F r up] by (simp add: key_par_insert keys del: keys_of_insert)
    have keep: "key_rep ?p z = key_rep p z" if "z \<in> keys_of p" for z
      using shortcut_rep [OF F c r up same that] by (simp add: key_par_insert)
    have n: "?n \<in> keys_of p" using forest_in [OF F c] .
    have rn: "key_rep ?p ?n = ?r" using keep [OF n] rep_parent [OF F c] by simp
    have "r ?n \<le> N" using forest_bound [OF F n] .
    then have "N - r ?n < N - r c" using forest_rise [OF F c move] by simp
    moreover have "?n \<in> keys_of ?p" using n keys by simp
    ultimately obtain p' where p': "compress_loop ?p ?r ?n = Some p'" "bmap_ok p'" "keys_of p' = keys_of ?p"
      "forest (key_par p') (keys_of ?p) r N" "\<forall>z \<in> keys_of ?p. key_rep p' z = key_rep ?p z"
      using less.hyps [of ?n ?p] F' less.prems(1) unfolding rn by auto
    have "compress_loop p ?r c = compress_loop ?p ?r ?n"
      using c False by (subst compress_loop.simps) (simp add: key_par_get)
    then show ?thesis using p' keep unfolding keys by auto
  qed
qed

lemma key_find_correct:
  assumes "parents_ok p" "k \<in> keys_of p"
  shows "\<exists>p'. key_find p k = Some (p', key_rep p k) \<and> parents_ok p' \<and> keys_of p' = keys_of p
    \<and> (\<forall>z \<in> keys_of p. key_rep p' z = key_rep p z)"
proof -
  obtain r N where ok: "bmap_ok p" and F: "forest (key_par p) (keys_of p) r N"
    using assms by (auto simp: parents_ok_def)
  from compress_loop_correct [OF ok F assms(2)] obtain p' where p':
    "compress_loop p (key_rep p k) k = Some p'" "bmap_ok p'" "keys_of p' = keys_of p"
    "forest (key_par p') (keys_of p) r N" "\<forall>z \<in> keys_of p. key_rep p' z = key_rep p z" by blast
  then have "parents_ok p'" by (auto simp: parents_ok_def)
  then show ?thesis using p' root_loop_correct [OF F assms(2)] by (simp add: key_find_def)
qed

lemma key_link:
  assumes ok: "parents_ok p" and a: "a \<in> keys_of p" "key_par p a = a" and b: "b \<in> keys_of p" "key_par p b = b"
    and "a \<noteq> b"
  shows "parents_ok (bmap_insert a b p)" "keys_of (bmap_insert a b p) = keys_of p"
    "z \<in> keys_of p \<Longrightarrow> key_rep (bmap_insert a b p) z = (if key_rep p z = a then b else key_rep p z)"
proof -
  obtain r N where F: "forest (key_par p) (keys_of p) r N" using ok by (auto simp: parents_ok_def)
  show keys: "keys_of (bmap_insert a b p) = keys_of p" using a by auto
  show "parents_ok (bmap_insert a b p)"
    using link_forest [OF F a b \<open>a \<noteq> b\<close>] ok unfolding parents_ok_def keys key_par_insert by simp
  show "z \<in> keys_of p \<Longrightarrow> key_rep (bmap_insert a b p) z = (if key_rep p z = a then b else key_rep p z)"
    using link_rep [OF F a b \<open>a \<noteq> b\<close>] unfolding key_par_insert by blast
qed

lemma key_rep_root: "parents_ok p \<Longrightarrow> k \<in> keys_of p \<Longrightarrow> key_rep p k \<in> keys_of p \<and> key_par p (key_rep p k) = key_rep p k"
  using rep_in rep_fixed unfolding parents_ok_def by metis

lemma key_union_correct:
  assumes ok: "parents_ok p" and a: "a \<in> keys_of p" and b: "b \<in> keys_of p"
  shows "\<exists>p'. key_union p a b = Some p' \<and> parents_ok p' \<and> keys_of p' = keys_of p
    \<and> (\<forall>z \<in> keys_of p. key_rep p' z =
         (if key_rep p z \<in> {key_rep p a, key_rep p b} then min (key_rep p a) (key_rep p b) else key_rep p z))"
proof -
  obtain p1 where p1: "key_find p a = Some (p1, key_rep p a)" "parents_ok p1" "keys_of p1 = keys_of p"
    "\<forall>z \<in> keys_of p. key_rep p1 z = key_rep p z" using key_find_correct [OF ok a] by blast
  obtain p2 where p2: "key_find p1 b = Some (p2, key_rep p1 b)" "parents_ok p2" "keys_of p2 = keys_of p1"
    "\<forall>z \<in> keys_of p1. key_rep p2 z = key_rep p1 z" using key_find_correct [OF p1(2), of b] b p1(3) by blast
  let ?ra = "key_rep p a" and ?rb = "key_rep p b"
  have keep: "key_rep p2 z = key_rep p z" if "z \<in> keys_of p" for z using that p1 p2 by metis
  have keys: "keys_of p2 = keys_of p" using p1(3) p2(3) by simp
  have A: "?ra \<in> keys_of p2" "key_par p2 ?ra = ?ra" using key_rep_root [OF p2(2), of a] a keys keep [OF a] by auto
  have B: "?rb \<in> keys_of p2" "key_par p2 ?rb = ?rb" using key_rep_root [OF p2(2), of b] b keys keep [OF b] by auto
  have run: "key_union p a b = Some (if ?ra = ?rb then p2 else if ?rb < ?ra then bmap_insert ?ra ?rb p2 else bmap_insert ?rb ?ra p2)"
  proof -
    have "key_rep p1 b = ?rb" using p1(4) b by blast
    then show ?thesis using p1(1) p2(1) by (simp add: key_union_def)
  qed
  consider "?ra = ?rb" | "?rb < ?ra" | "?ra < ?rb" using linorder_less_linear by blast
  then show ?thesis
  proof cases
    case 1
    then show ?thesis using run p2 keep keys by auto
  next
    case 2
    then have "?ra \<noteq> ?rb" by simp
    note link = key_link [OF p2(2) A B this]
    show ?thesis using run 2 link keep keys by (auto simp: min_def)
  next
    case 3
    then have "?rb \<noteq> ?ra" by simp
    note link = key_link [OF p2(2) B A this]
    show ?thesis using run 3 link keep keys by (auto simp: min_def)
  qed
qed

interpretation kuf: disjoint_sets key_union parents_ok keys_of key_rep
proof unfold_locales
  fix p a b assume ab: "parents_ok p" "a \<in> keys_of p" "b \<in> keys_of p"
  from key_union_correct [OF ab] show "\<exists>p'. key_union p a b = Some p' \<and> parents_ok p' \<and> keys_of p' = keys_of p" by blast
  fix p' x y assume "key_union p a b = Some p'" "x \<in> keys_of p" "y \<in> keys_of p"
  with key_union_correct [OF ab] have
    "key_rep p' z = (if key_rep p z \<in> {key_rep p a, key_rep p b} then min (key_rep p a) (key_rep p b) else key_rep p z)"
    if "z \<in> {x, y}" for z using that by auto
  then show "key_rep p' x = key_rep p' y \<longleftrightarrow> key_rep p x = key_rep p y
        \<or> key_rep p x = key_rep p a \<and> key_rep p y = key_rep p b
        \<or> key_rep p x = key_rep p b \<and> key_rep p y = key_rep p a" by (auto simp: min_def)
qed


subsection \<open>What the check computes\<close>

definition always_edges :: "assertion list \<Rightarrow> (string \<times> string) list" where
  "always_edges assertions = map assertion_pair (always_of assertions)"

definition always_keys :: "assertion list \<Rightarrow> string set" where
  "always_keys assertions = fst ` set (always_edges assertions) \<union> snd ` set (always_edges assertions)"

definition clashing :: "assertion list \<Rightarrow> assertion \<Rightarrow> bool" where
  "clashing assertions a \<longleftrightarrow> a_kind a = Never \<and> rec_a_key a \<in> always_keys assertions
     \<and> rec_b_key a \<in> always_keys assertions
     \<and> (rec_a_key a, rec_b_key a) \<in> connected (always_edges assertions)"

definition finding :: "assertion list \<Rightarrow> assertion \<Rightarrow> contradiction" where
  "finding assertions a =
     \<lparr>x_rec_a_key = rec_a_key a, x_rec_b_key = rec_b_key a, never_assertion_id = assertion_id a,
      always_assertion_ids = sort (map assertion_id (filter
        (\<lambda>x. (rec_a_key x, rec_a_key a) \<in> connected (always_edges assertions)) (always_of assertions))),
      x_component = sorted_list_of_set {k. (k, rec_a_key a) \<in> connected (always_edges assertions)}\<rparr>"

lemma seed_fold:
  "bmap_ok p \<Longrightarrow> (\<And>k. key_par p k = k) \<Longrightarrow>
   bmap_ok (fold seed_key ks p) \<and> keys_of (fold seed_key ks p) = keys_of p \<union> set ks
   \<and> (\<forall>k. key_par (fold seed_key ks p) k = k)"
proof (induction ks arbitrary: p)
  case (Cons k ks)
  have "bmap_ok (seed_key k p)" using Cons.prems by (simp add: seed_key_def)
  moreover have "key_par (seed_key k p) z = z" for z
    using Cons.prems by (simp add: seed_key_def key_par_insert)
  moreover have "keys_of (seed_key k p) = insert k (keys_of p)" by (auto simp: seed_key_def keys_of_None)
  ultimately show ?case using Cons.IH [of "seed_key k p"] by simp
qed simp

lemma seed_parents_ok:
  "parents_ok (seed_parents (always_of as)) \<and> keys_of (seed_parents (always_of as)) = always_keys as
   \<and> (\<forall>k. key_rep (seed_parents (always_of as)) k = k)"
proof -
  let ?ks = "concat (map (\<lambda>a. [rec_a_key a, rec_b_key a]) (always_of as))"
  have s: "bmap_ok (seed_parents (always_of as))" "keys_of (seed_parents (always_of as)) = set ?ks"
    "\<And>k. key_par (seed_parents (always_of as)) k = k"
    using seed_fold [of "[]" ?ks] by (auto simp: seed_parents_def key_par_def keys_of_def)
  have "forest (key_par (seed_parents (always_of as))) (keys_of (seed_parents (always_of as))) (\<lambda>_. 0) 0"
    using s(3) by (simp add: forest_def)
  moreover have "set ?ks = always_keys as" by (force simp: always_keys_def always_edges_def assertion_pair_def)
  ultimately show ?thesis using s by (auto simp: parents_ok_def intro: rep_self)
qed

lemma group_loop_correct:
  "parents_ok p \<Longrightarrow> key ` set xs \<subseteq> keys_of p \<Longrightarrow>
   \<exists>p' m'. group_loop key add xs p m = Some (p', m') \<and> parents_ok p' \<and> keys_of p' = keys_of p
     \<and> (\<forall>z \<in> keys_of p. key_rep p' z = key_rep p z)
     \<and> (\<forall>r. map_of m' r = fold (\<lambda>x old. if key_rep p (key x) = r then Some (add old x) else old) xs (map_of m r))"
proof (induction xs arbitrary: p m)
  case (Cons x xs)
  have kx: "key x \<in> keys_of p" using Cons.prems(2) by simp
  from key_find_correct [OF Cons.prems(1) kx] obtain p1 where p1: "key_find p (key x) = Some (p1, key_rep p (key x))"
    "parents_ok p1" "keys_of p1 = keys_of p" "\<forall>z \<in> keys_of p. key_rep p1 z = key_rep p z" by blast
  let ?r = "key_rep p (key x)" and ?m = "bmap_insert (key_rep p (key x)) (add (map_of m (key_rep p (key x))) x) m"
  have "key ` set xs \<subseteq> keys_of p1" using Cons.prems(2) p1(3) by simp
  from Cons.IH [OF p1(2) this, of ?m] obtain p' m' where p': "group_loop key add xs p1 ?m = Some (p', m')"
    "parents_ok p'" "keys_of p' = keys_of p1" "\<forall>z \<in> keys_of p1. key_rep p' z = key_rep p1 z"
    "\<forall>r. map_of m' r = fold (\<lambda>x old. if key_rep p1 (key x) = r then Some (add old x) else old) xs (map_of ?m r)" by blast
  have same: "fold (\<lambda>x old. if key_rep p1 (key x) = r then Some (add old x) else old) xs o0 =
      fold (\<lambda>x old. if key_rep p (key x) = r then Some (add old x) else old) xs o0" for r o0
    using p1(4) Cons.prems(2) by (intro fold_cong) auto
  have "map_of m' r = fold (\<lambda>x old. if key_rep p (key x) = r then Some (add old x) else old) (x # xs) (map_of m r)" for r
    using p'(5) unfolding same by simp
  with p1 p' show ?case by auto
qed simp

lemma fold_members:
  "fold (\<lambda>x old. if P x then Some (add_member old x) else old) xs o0 =
     (if filter P xs = [] then o0 else Some (bset_of (or_default o0 @ filter P xs)))"
proof (induction xs arbitrary: o0)
  case (Cons x xs)
  then show ?case by (auto simp: add_member_def intro!: bset_of_cong)
qed simp

lemma fold_offenders:
  "fold (\<lambda>x old. if P x then Some (add_offender old x) else old) xs o0 =
     (if filter P xs = [] then o0 else Some (or_default o0 @ map assertion_id (filter P xs)))"
  by (induction xs arbitrary: o0) (auto simp: add_offender_def)

lemma never_loop_correct:
  assumes "parents_ok p" "\<And>k. k \<in> keys_of p \<Longrightarrow> map_of offenders (key_rep p k) = Some (f k)"
    "\<And>k. k \<in> keys_of p \<Longrightarrow> map_of components (key_rep p k) = Some (g k)"
  shows "never_loop components offenders as p =
    Some (map (\<lambda>a. \<lparr>x_rec_a_key = rec_a_key a, x_rec_b_key = rec_b_key a, never_assertion_id = assertion_id a,
                    always_assertion_ids = sort (f (rec_a_key a)), x_component = g (rec_a_key a)\<rparr>)
      (filter (\<lambda>a. a_kind a = Never \<and> rec_a_key a \<in> keys_of p \<and> rec_b_key a \<in> keys_of p
                   \<and> key_rep p (rec_a_key a) = key_rep p (rec_b_key a)) as))"
  using assms
proof (induction "as" arbitrary: p)
  case (Cons a as)
  show ?case
  proof (cases "a_kind a = Never \<and> rec_a_key a \<in> keys_of p \<and> rec_b_key a \<in> keys_of p")
    case False
    with Cons show ?thesis by (auto simp: keys_of_None)
  next
    case True
    obtain p1 where p1: "key_find p (rec_a_key a) = Some (p1, key_rep p (rec_a_key a))" "parents_ok p1" "keys_of p1 = keys_of p"
      "\<forall>z \<in> keys_of p. key_rep p1 z = key_rep p z" using key_find_correct [OF Cons.prems(1)] True by blast
    obtain p2 where p2: "key_find p1 (rec_b_key a) = Some (p2, key_rep p1 (rec_b_key a))" "parents_ok p2" "keys_of p2 = keys_of p1"
      "\<forall>z \<in> keys_of p1. key_rep p2 z = key_rep p1 z" using key_find_correct [OF p1(2)] True p1(3) by blast
    have keep: "key_rep p2 z = key_rep p z" if "z \<in> keys_of p" for z using that p1 p2 by metis
    have rb: "key_rep p1 (rec_b_key a) = key_rep p (rec_b_key a)" using p1(4) True by blast
    have keys: "keys_of p2 = keys_of p" using p1(3) p2(3) by simp
    have rest: "never_loop components offenders as p2 =
      Some (map (\<lambda>a. \<lparr>x_rec_a_key = rec_a_key a, x_rec_b_key = rec_b_key a, never_assertion_id = assertion_id a,
                    always_assertion_ids = sort (f (rec_a_key a)), x_component = g (rec_a_key a)\<rparr>)
      (filter (\<lambda>a. a_kind a = Never \<and> rec_a_key a \<in> keys_of p \<and> rec_b_key a \<in> keys_of p
                   \<and> key_rep p2 (rec_a_key a) = key_rep p2 (rec_b_key a)) as))"
      using Cons.IH [OF p2(2)] Cons.prems(2,3) keep unfolding keys by simp
    have filt: "filter (\<lambda>a. a_kind a = Never \<and> rec_a_key a \<in> keys_of p \<and> rec_b_key a \<in> keys_of p
                   \<and> key_rep p2 (rec_a_key a) = key_rep p2 (rec_b_key a)) as =
      filter (\<lambda>a. a_kind a = Never \<and> rec_a_key a \<in> keys_of p \<and> rec_b_key a \<in> keys_of p
                   \<and> key_rep p (rec_a_key a) = key_rep p (rec_b_key a)) as"
      using keep by (intro filter_cong) auto
    have look: "map_of offenders (key_rep p (rec_a_key a)) = Some (f (rec_a_key a))"
      "map_of components (key_rep p (rec_a_key a)) = Some (g (rec_a_key a))" using Cons.prems(2,3) True by simp_all
    show ?thesis
    proof (cases "key_rep p (rec_a_key a) = key_rep p (rec_b_key a)")
      case same: True
      show ?thesis using True p1(1) p2(1) rb rest filt look same [symmetric] by (simp add: keys_of_None)
    next
      case False
      show ?thesis using True p1(1) p2(1) rb rest filt False by (simp add: keys_of_None)
    qed
  qed
qed simp

lemma always_edges_keys: "\<forall>(a, b) \<in> set (always_edges as). a \<in> always_keys as \<and> b \<in> always_keys as"
  by (force simp: always_keys_def)

lemma connected_swap: "(x, y) \<in> connected es \<longleftrightarrow> (y, x) \<in> connected es"
  using connected_sym by metis

lemma check_run:
  "check_contradiction_1 as = Some (sort_key (\<lambda>c. (x_rec_a_key c, x_rec_b_key c))
     (map (finding as) (filter (clashing as) (filter active as))))"
proof -
  let ?K = "always_keys as" and ?E = "always_edges as"
  note seed = seed_parents_ok [of "as"]
  have inj: "x = y" if "key_rep (seed_parents (always_of as)) x = key_rep (seed_parents (always_of as)) y" for x y
    using that seed by simp
  from kuf.unions_components [of "seed_parents (always_of as)" ?E] seed always_edges_keys inj
  obtain p where p: "unions key_union ?E (seed_parents (always_of as)) = Some p" "parents_ok p" "keys_of p = ?K"
    "\<forall>x \<in> ?K. \<forall>y \<in> ?K. key_rep p x = key_rep p y \<longleftrightarrow> (x, y) \<in> connected ?E" by metis
  have "id ` set (bmap_keys p) \<subseteq> keys_of p" by (simp add: keys_of_def)
  from group_loop_correct [OF p(2) this, of add_member "[]"] obtain p1 comps where g1:
    "group_loop id add_member (bmap_keys p) p [] = Some (p1, comps)" "parents_ok p1" "keys_of p1 = ?K"
    "\<forall>z \<in> ?K. key_rep p1 z = key_rep p z"
    "\<And>r. map_of comps r = fold (\<lambda>x old. if key_rep p x = r then Some (add_member old x) else old) (bmap_keys p) None"
    using p(3) by auto
  have "rec_a_key ` set (always_of as) \<subseteq> keys_of p1"
    unfolding g1(3) by (auto simp: always_keys_def always_edges_def assertion_pair_def image_iff)
  from group_loop_correct [OF g1(2) this, of add_offender "[]"] obtain p2 offs where g2:
    "group_loop rec_a_key add_offender (always_of as) p1 [] = Some (p2, offs)" "parents_ok p2" "keys_of p2 = ?K"
    "\<forall>z \<in> ?K. key_rep p2 z = key_rep p1 z"
    "\<And>r. map_of offs r = fold (\<lambda>x old. if key_rep p1 (rec_a_key x) = r then Some (add_offender old x) else old) (always_of as) None"
    using g1(3) by auto
  let ?R = "key_rep p"
  have rep2: "key_rep p2 z = ?R z" if "z \<in> ?K" for z using that g1(4) g2(4) by simp
  have inK: "rec_a_key x \<in> ?K" if "x \<in> set (always_of as)" for x
    using that by (auto simp: always_keys_def always_edges_def assertion_pair_def image_iff)
  have K: "set (bmap_keys p) = ?K" using p(3) by (simp add: keys_of_def)
  have offenders: "map_of offs (key_rep p2 k) =
      Some (map assertion_id (filter (\<lambda>x. (rec_a_key x, k) \<in> connected ?E) (always_of as)))" if k: "k \<in> ?K" for k
  proof -
    have eq: "filter (\<lambda>x. key_rep p1 (rec_a_key x) = key_rep p2 k) (always_of as) =
        filter (\<lambda>x. (rec_a_key x, k) \<in> connected ?E) (always_of as)"
      using g1(4) g2(4) p(4) k inK by (intro filter_cong) auto
    obtain x where x: "x \<in> set (always_of as)" "k = rec_a_key x \<or> k = rec_b_key x"
      using k by (auto simp: always_keys_def always_edges_def assertion_pair_def)
    from x(2) have "(rec_a_key x, k) \<in> connected ?E"
    proof
      assume "k = rec_b_key x"
      then have "(rec_a_key x, k) \<in> sym_edges ?E"
        using x(1) by (auto simp: sym_edges_def always_edges_def assertion_pair_def)
      then show ?thesis ..
    qed simp
    then have "filter (\<lambda>x. (rec_a_key x, k) \<in> connected ?E) (always_of as) \<noteq> []"
      using x(1) by (auto simp: filter_empty_conv)
    then show ?thesis unfolding g2(5) fold_offenders eq by simp
  qed
  have components: "map_of comps (key_rep p2 k) = Some (sorted_list_of_set {z. (z, k) \<in> connected ?E})" if k: "k \<in> ?K" for k
  proof -
    have eq: "set (filter (\<lambda>x. ?R x = key_rep p2 k) (bmap_keys p)) = {z. (z, k) \<in> connected ?E}"
    proof -
      have "z \<in> ?K" if "(z, k) \<in> connected ?E" for z
        using connected_closed [OF connected_sym [OF that] k always_edges_keys] .
      moreover have "?R z = key_rep p2 k \<longleftrightarrow> (z, k) \<in> connected ?E" if "z \<in> ?K" for z
        using p(4) k that unfolding rep2 [OF k] by blast
      ultimately show ?thesis unfolding set_filter K by auto
    qed
    moreover have "(k, k) \<in> connected ?E" by simp
    ultimately have "filter (\<lambda>x. ?R x = key_rep p2 k) (bmap_keys p) \<noteq> []" by (metis empty_iff list.set(1) mem_Collect_eq)
    then show ?thesis unfolding g1(5) fold_members by (simp add: bset_of_sorted_list_of_set eq del: set_filter)
  qed
  have "never_loop comps offs (filter active as) p2 = Some (map (finding as) (filter (clashing as) (filter active as)))"
  proof -
    have filt: "filter (\<lambda>a. a_kind a = Never \<and> rec_a_key a \<in> keys_of p2 \<and> rec_b_key a \<in> keys_of p2
        \<and> key_rep p2 (rec_a_key a) = key_rep p2 (rec_b_key a)) xs = filter (clashing as) xs" for xs
      using rep2 p(4) unfolding g2(3) by (intro filter_cong) (auto simp: clashing_def)
    show ?thesis
      using never_loop_correct [OF g2(2) offenders [folded g2(3)] components [folded g2(3)]]
      unfolding filt by (simp add: finding_def [abs_def])
  qed
  then show ?thesis
    using p(1) g1(1) g2(1) by (simp add: check_contradiction_1_def Let_def flip: always_edges_def)
qed

definition satisfies :: "(string \<Rightarrow> 'c) \<Rightarrow> assertion \<Rightarrow> bool" where
  "satisfies cell a \<longleftrightarrow>
     (case a_kind a of Always \<Rightarrow> cell (rec_a_key a) = cell (rec_b_key a)
      | Never \<Rightarrow> cell (rec_a_key a) \<noteq> cell (rec_b_key a))"

lemma connected_same_cell:
  assumes "\<And>a. a \<in> set (always_of as) \<Longrightarrow> cell (rec_a_key a) = cell (rec_b_key a)"
  shows "(x, y) \<in> connected (always_edges as) \<Longrightarrow> cell x = cell y"
proof (induction rule: rtrancl_induct)
  case (step y z)
  then show ?case using assms by (auto simp: sym_edges_def always_edges_def assertion_pair_def)
qed simp

lemma connected_keys:
  "(x, y) \<in> connected (always_edges as) \<Longrightarrow> x \<noteq> y \<Longrightarrow> x \<in> always_keys as \<and> y \<in> always_keys as"
proof (induction rule: rtrancl_induct)
  case (step y z)
  then have "y \<in> always_keys as" "z \<in> always_keys as"
    using always_edges_keys by (auto simp: sym_edges_def)
  with step show ?case by (cases "x = y") auto
qed simp

definition component_cell :: "assertion list \<Rightarrow> string \<Rightarrow> string set" where
  "component_cell as k = {v. (k, v) \<in> connected (always_edges as)}"

lemma component_cell_eq: "component_cell as x = component_cell as y \<longleftrightarrow> (x, y) \<in> connected (always_edges as)"
proof
  assume "component_cell as x = component_cell as y"
  then have "y \<in> component_cell as x" by (simp add: component_cell_def)
  then show "(x, y) \<in> connected (always_edges as)" by (simp add: component_cell_def)
next
  assume "(x, y) \<in> connected (always_edges as)"
  then show "component_cell as x = component_cell as y"
    unfolding component_cell_def using connected_sym rtrancl_trans by (metis (no_types, lifting))
qed

subsection \<open>Properties\<close>

text \<open>The contradiction check always returns, and its findings are exact: one per active
  \<open>never\<close> whose endpoints the active \<open>always\<close> assertions connect, in canonical-pair order,
  each naming the whole component and, sorted, every \<open>always\<close> assertion inside it.\<close>

lemma check_contradiction_1_exact:
  "check_contradiction_1 as = Some (sort_key (\<lambda>c. (x_rec_a_key c, x_rec_b_key c))
     (map (finding as) (filter (clashing as) (filter active as))))"
  by (rule check_run)

text \<open>C32: the check is empty exactly when the active assertions are satisfiable: some partition of the
  records puts every \<open>always\<close> pair together and every \<open>never\<close> pair apart.\<close>

theorem contradiction_free_iff_satisfiable:
  assumes "list_all (\<lambda>a. rec_a_key a \<noteq> rec_b_key a) as"
  shows "check_contradiction_1 as = Some [] \<longleftrightarrow>
    (\<exists>cell :: string \<Rightarrow> string set. list_all (satisfies cell) (filter active as))"
proof -
  have free: "check_contradiction_1 as = Some [] \<longleftrightarrow> filter (clashing as) (filter active as) = []"
    by (simp add: check_run flip: length_0_conv)
  show ?thesis
  proof
    assume "check_contradiction_1 as = Some []"
    then have none: "\<not> clashing as a" if "a \<in> set as" "active a" for a
      using that by (simp add: free filter_empty_conv)
    have "satisfies (component_cell as) a" if a: "a \<in> set as" "active a" for a
    proof (cases "a_kind a")
      case Always
      then have "(rec_a_key a, rec_b_key a) \<in> sym_edges (always_edges as)"
        using a by (auto simp: sym_edges_def always_edges_def assertion_pair_def always_of_def)
      then have "(rec_a_key a, rec_b_key a) \<in> connected (always_edges as)" ..
      then show ?thesis using Always by (simp add: satisfies_def component_cell_eq)
    next
      case Never
      have "rec_a_key a \<noteq> rec_b_key a" using assms a by (simp add: list_all_iff)
      then have "(rec_a_key a, rec_b_key a) \<notin> connected (always_edges as)"
        using none [OF a] Never connected_keys by (auto simp: clashing_def)
      then show ?thesis using Never by (simp add: satisfies_def component_cell_eq)
    qed
    then show "\<exists>cell :: string \<Rightarrow> string set. list_all (satisfies cell) (filter active as)"
      by (auto simp: list_all_iff)
  next
    assume "\<exists>cell :: string \<Rightarrow> string set. list_all (satisfies cell) (filter active as)"
    then obtain cell :: "string \<Rightarrow> string set" where cell: "satisfies cell a" if "a \<in> set as" "active a" for a
      by (auto simp: list_all_iff)
    have "\<not> clashing as a" if "a \<in> set as" "active a" for a
    proof
      assume c: "clashing as a"
      have "cell (rec_a_key x) = cell (rec_b_key x)" if "x \<in> set (always_of as)" for x
        using cell [of x] that by (simp add: always_of_def satisfies_def)
      from connected_same_cell [OF this] c cell [OF that] show False
        by (simp add: clashing_def satisfies_def)
    qed
    then show "check_contradiction_1 as = Some []" by (simp add: free filter_empty_conv)
  qed
qed

definition sample_assertion :: "string \<Rightarrow> string \<Rightarrow> string \<Rightarrow> assertion_kind \<Rightarrow> assertion" where
  "sample_assertion i a b k = \<lparr>assertion_id = i, rec_a_key = a, rec_b_key = b, a_kind = k, active = True\<rparr>"

theorem contradiction_free_iff_satisfiable_witness:
  "check_contradiction_1 [sample_assertion ''1'' ''a'' ''b'' Always, sample_assertion ''2'' ''b'' ''c'' Always,
      sample_assertion ''3'' ''a'' ''c'' Never] \<noteq> Some []
   \<and> \<not> (\<exists>cell :: string \<Rightarrow> string set. list_all (satisfies cell)
        (filter active [sample_assertion ''1'' ''a'' ''b'' Always, sample_assertion ''2'' ''b'' ''c'' Always,
           sample_assertion ''3'' ''a'' ''c'' Never]))"
proof -
  let ?as = "[sample_assertion ''1'' ''a'' ''b'' Always, sample_assertion ''2'' ''b'' ''c'' Always,
      sample_assertion ''3'' ''a'' ''c'' Never]"
  have "list_all (\<lambda>a. rec_a_key a \<noteq> rec_b_key a) ?as" by (simp add: sample_assertion_def)
  moreover have "check_contradiction_1 ?as \<noteq> Some []" by code_simp
  ultimately show ?thesis using contradiction_free_iff_satisfiable [of ?as] by blast
qed

end
