(* ===== verification/ShortestPath.thy ===== *)
theory ShortestPath
  imports Forest Ids
begin

text \<open>
  The path search of \<^verbatim>\<open>er-reconcile/src/never_cut.rs\<close>: sorted adjacency and the breadth-first
  search for the shortest, lexicographically smallest vertex sequence. An \<open>f64\<close> is a
  not-a-number, an infinity or a real; only comparisons are made, so the sign of zero is not kept.
  \<open>bfs_loop\<close> has the value \<open>None\<close> for a missing map key (a panic) or a run that never ends.
\<close>

datatype f64 = NaN | NegInf | Finite real | PosInf

type_synonym path_edge = "string \<times> string \<times> f64"

definition edge_pair :: "path_edge \<Rightarrow> string \<times> string" where
  "edge_pair e = (fst e, fst (snd e))"

subsection \<open>Adjacency\<close>

definition add_neighbour :: "string \<Rightarrow> string \<Rightarrow> (string, string list) bmap \<Rightarrow> (string, string list) bmap" where
  "add_neighbour x y g = bmap_insert x (bset_of (or_default (map_of g x) @ [y])) g"

fun adjacency_loop :: "path_edge list \<Rightarrow> (string, string list) bmap \<Rightarrow> (string, string list) bmap" where
  "adjacency_loop [] g = g"
| "adjacency_loop ((left, right, v) # es) g =
     adjacency_loop es (add_neighbour right left (add_neighbour left right g))"

definition adjacency :: "path_edge list \<Rightarrow> (string, string list) bmap" where
  "adjacency es = adjacency_loop es []"

subsection \<open>Breadth-first search\<close>

record bfs =
  best :: "string \<rightharpoonup> string list"
  depth :: "string \<rightharpoonup> nat"
  frontier :: "string list"

text \<open>The body of the search for one neighbour, and the loop over the neighbours of one node.\<close>

definition relax :: "string list \<Rightarrow> nat \<Rightarrow> string \<Rightarrow> bfs \<Rightarrow> bfs option" where
  "relax node_best node_depth neighbour s =
     (let candidate = node_best @ [neighbour] in
      case depth s neighbour of
        None \<Rightarrow> Some (s\<lparr>depth := (depth s)(neighbour \<mapsto> node_depth + 1),
                       best := (best s)(neighbour \<mapsto> candidate),
                       frontier := frontier s @ [neighbour]\<rparr>)
      | Some d \<Rightarrow>
          if d = node_depth + 1
          then (case best s neighbour of None \<Rightarrow> None
                | Some b \<Rightarrow> Some (if candidate < b then s\<lparr>best := (best s)(neighbour \<mapsto> candidate)\<rparr> else s))
          else Some s)"

fun relax_all :: "string list \<Rightarrow> nat \<Rightarrow> string list \<Rightarrow> bfs \<Rightarrow> bfs option" where
  "relax_all node_best node_depth [] s = Some s"
| "relax_all node_best node_depth (n # ns) s =
     (case relax node_best node_depth n s of None \<Rightarrow> None | Some s' \<Rightarrow> relax_all node_best node_depth ns s')"

partial_function (option) bfs_loop :: "(string, string list) bmap \<Rightarrow> bfs \<Rightarrow> bfs option" where
  "bfs_loop graph s =
     (case frontier s of
        [] \<Rightarrow> Some s
      | node # rest \<Rightarrow>
          (case (depth s node, best s node, map_of graph node) of
             (Some d, Some b, Some ns) \<Rightarrow>
               (case relax_all b d ns (s\<lparr>frontier := rest\<rparr>) of None \<Rightarrow> None
                | Some s' \<Rightarrow> bfs_loop graph s')
           | _ \<Rightarrow> None))"

lemmas [code] = bfs_loop.simps

definition bfs_start :: "string \<Rightarrow> bfs" where
  "bfs_start source = \<lparr>best = [source \<mapsto> [source]], depth = [source \<mapsto> 0], frontier = [source]\<rparr>"

definition shortest_path :: "string \<Rightarrow> string \<Rightarrow> path_edge list \<Rightarrow> string list option option" where
  "shortest_path source target es =
     (if source = target then Some (Some [source])
      else let graph = adjacency es in
        if map_of graph source = None \<or> map_of graph target = None then Some None
        else map_option (\<lambda>s. best s target) (bfs_loop graph (bfs_start source)))"

subsection \<open>Adjacency is the symmetric edge relation\<close>

abbreviation pairs :: "path_edge list \<Rightarrow> (string \<times> string) list" where
  "pairs es \<equiv> map edge_pair es"

definition neighbours :: "(string, string list) bmap \<Rightarrow> string \<Rightarrow> string list" where
  "neighbours g x = or_default (map_of g x)"

lemma neighbours_add:
  "set (neighbours (add_neighbour x y g) z) = (if z = x then insert y (set (neighbours g x)) else set (neighbours g z))"
  by (simp add: neighbours_def add_neighbour_def)

lemma map_of_add_None: "map_of (add_neighbour x y g) z = None \<longleftrightarrow> z \<noteq> x \<and> map_of g z = None"
  by (simp add: add_neighbour_def)

lemma adjacency_loop_set:
  "set (neighbours (adjacency_loop es g) x) = set (neighbours g x) \<union> {y. (x, y) \<in> sym_edges (pairs es)}"
proof (induction es g rule: adjacency_loop.induct)
  case (2 left right v es g)
  have "(x, y) \<in> sym_edges (pairs ((left, right, v) # es)) \<longleftrightarrow>
      (x, y) = (left, right) \<or> (x, y) = (right, left) \<or> (x, y) \<in> sym_edges (pairs es)" for y
    by (simp add: edge_pair_def sym_edges_Cons)
  with 2 show ?case by (auto simp: neighbours_add)
qed (simp add: sym_edges_def)

lemma adjacency_loop_keys:
  "map_of (adjacency_loop es g) x = None \<longleftrightarrow> map_of g x = None \<and> x \<notin> fst ` sym_edges (pairs es)"
proof (induction es g rule: adjacency_loop.induct)
  case (2 left right v es g)
  have "fst ` sym_edges (pairs ((left, right, v) # es)) = {left, right} \<union> fst ` sym_edges (pairs es)"
    by (auto simp: edge_pair_def sym_edges_Cons)
  with 2 show ?case by (auto simp: map_of_add_None)
qed (simp add: sym_edges_def)

lemma adjacency_neighbours: "set (neighbours (adjacency es) x) = {y. (x, y) \<in> sym_edges (pairs es)}"
  by (simp add: adjacency_def adjacency_loop_set) (simp add: neighbours_def)

lemma adjacency_None: "map_of (adjacency es) x = None \<longleftrightarrow> x \<notin> fst ` sym_edges (pairs es)"
  by (simp add: adjacency_def adjacency_loop_keys)

subsection \<open>Walks\<close>

definition walk :: "('a \<times> 'a) set \<Rightarrow> 'a \<Rightarrow> 'a list \<Rightarrow> 'a \<Rightarrow> bool" where
  "walk E s p t \<longleftrightarrow> p \<noteq> [] \<and> hd p = s \<and> last p = t \<and> successively (\<lambda>x y. (x, y) \<in> E) p"

lemma walk_single: "walk E s [s] s"
  by (simp add: walk_def)

lemma walk_snoc: "walk E s p t \<Longrightarrow> (t, u) \<in> E \<Longrightarrow> walk E s (p @ [u]) u"
  by (auto simp: walk_def successively_append_iff)

lemma walk_snocE:
  assumes "walk E s (p @ [v]) t" "p \<noteq> []"
  obtains u where "walk E s p u" "(u, v) \<in> E" "t = v"
proof -
  have "walk E s p (last p)" "(last p, v) \<in> E" "t = v"
    using assms by (auto simp: walk_def successively_append_iff)
  then show ?thesis by (rule that)
qed

lemma walk_connected: "walk E s p t \<Longrightarrow> (s, t) \<in> E\<^sup>*"
proof (induction p arbitrary: t rule: rev_induct)
  case (snoc v p)
  show ?case
  proof (cases "p = []")
    case True
    with snoc.prems show ?thesis by (auto simp: walk_def)
  next
    case False
    from snoc.prems False obtain u where "walk E s p u" "(u, v) \<in> E" "t = v" by (rule walk_snocE)
    with snoc.IH show ?thesis by (meson rtrancl_into_rtrancl)
  qed
qed (simp add: walk_def)

lemma connected_walk: "(s, t) \<in> E\<^sup>* \<Longrightarrow> \<exists>p. walk E s p t"
proof (induction rule: rtrancl_induct)
  case base
  show ?case using walk_single by (rule exI)
next
  case (step y z)
  then obtain p where "walk E s p y" by blast
  from walk_snoc [OF this step(2)] show ?case by (rule exI)
qed

lemma lex_snoc_mono: "length p = length q \<Longrightarrow> p \<le> q \<Longrightarrow> p @ [v] \<le> q @ [v::'a::linorder]"
proof (induction p q rule: list_induct2)
  case (Cons x xs y ys)
  then show ?case by (cases "x = y") auto
qed simp


subsection \<open>The search invariant\<close>

abbreviation dep :: "bfs \<Rightarrow> string \<Rightarrow> nat" where
  "dep s v \<equiv> the (depth s v)"

abbreviation bst :: "bfs \<Rightarrow> string \<Rightarrow> string list" where
  "bst s v \<equiv> the (best s v)"

abbreviation found :: "bfs \<Rightarrow> string set" where
  "found s \<equiv> dom (depth s)"

text \<open>An edge out of a settled node is already accounted for at its far end.\<close>

definition accounted :: "bfs \<Rightarrow> string \<Rightarrow> string \<Rightarrow> bool" where
  "accounted s v n \<longleftrightarrow> n \<in> found s \<and> dep s n \<le> dep s v + 1 \<and> (dep s n = dep s v + 1 \<longrightarrow> bst s n \<le> bst s v @ [n])"

definition settled :: "(string \<times> string) set \<Rightarrow> bfs \<Rightarrow> string \<Rightarrow> bool" where
  "settled E s v \<longleftrightarrow> (\<forall>n. (v, n) \<in> E \<longrightarrow> accounted s v n)"

definition explored :: "(string \<times> string) set \<Rightarrow> string \<Rightarrow> bfs \<Rightarrow> bool" where
  "explored E src s \<longleftrightarrow> dom (best s) = found s \<and> found s \<subseteq> fst ` E \<and> depth s src = Some 0
     \<and> (\<forall>v \<in> found s. walk E src (bst s v) v \<and> length (bst s v) = dep s v + 1)
     \<and> distinct (frontier s) \<and> set (frontier s) \<subseteq> found s \<and> sorted (map (dep s) (frontier s))"

definition bfs_inv :: "(string \<times> string) set \<Rightarrow> string \<Rightarrow> bfs \<Rightarrow> bool" where
  "bfs_inv E src s \<longleftrightarrow> explored E src s \<and> (\<forall>v \<in> found s - set (frontier s). settled E s v)
     \<and> (\<forall>x \<in> set (frontier s). (\<forall>v \<in> found s. dep s v \<le> dep s x + 1) \<and> (\<forall>v \<in> found s - set (frontier s). dep s v \<le> dep s x))"

text \<open>While the edges of the popped node \<open>x\<close> are relaxed, \<open>done\<close> of them being handled.\<close>

definition bfs_mid :: "(string \<times> string) set \<Rightarrow> string \<Rightarrow> string \<Rightarrow> nat \<Rightarrow> string list \<Rightarrow> string set \<Rightarrow> bfs \<Rightarrow> bool" where
  "bfs_mid E src x d b handled s \<longleftrightarrow> explored E src s \<and> x \<in> found s - set (frontier s)
     \<and> depth s x = Some d \<and> best s x = Some b
     \<and> (\<forall>v \<in> found s - set (frontier s) - {x}. settled E s v) \<and> (\<forall>n \<in> handled. accounted s x n)
     \<and> (\<forall>v \<in> found s. dep s v \<le> d + 1) \<and> (\<forall>v \<in> found s - set (frontier s). dep s v \<le> d)
     \<and> (\<forall>u \<in> set (frontier s). d \<le> dep s u)"

lemma bfs_midD:
  assumes "bfs_mid E src x d b handled s"
  shows "explored E src s" "x \<in> found s" "x \<notin> set (frontier s)" "depth s x = Some d" "best s x = Some b"
    "v \<in> found s \<Longrightarrow> v \<notin> set (frontier s) \<Longrightarrow> v \<noteq> x \<Longrightarrow> settled E s v"
    "n \<in> handled \<Longrightarrow> accounted s x n" "v \<in> found s \<Longrightarrow> dep s v \<le> d + 1"
    "v \<in> found s \<Longrightarrow> v \<notin> set (frontier s) \<Longrightarrow> dep s v \<le> d" "v \<in> set (frontier s) \<Longrightarrow> d \<le> dep s v"
  using assms by (auto simp: bfs_mid_def)

lemma exploredD:
  assumes "explored E src s"
  shows "dom (best s) = found s" "found s \<subseteq> fst ` E" "depth s src = Some 0"
    "v \<in> found s \<Longrightarrow> walk E src (bst s v) v" "v \<in> found s \<Longrightarrow> length (bst s v) = dep s v + 1"
    "distinct (frontier s)" "set (frontier s) \<subseteq> found s" "sorted (map (dep s) (frontier s))"
  using assms by (auto simp: explored_def)

lemma relax_new:
  assumes mid: "bfs_mid E src x d b handled s" and n: "(x, n) \<in> E" "sym E" and new: "depth s n = None"
  defines "s' \<equiv> s\<lparr>depth := (depth s)(n \<mapsto> d + 1), best := (best s)(n \<mapsto> b @ [n]), frontier := frontier s @ [n]\<rparr>"
  shows "bfs_mid E src x d b (insert n handled) s'"
proof -
  note M = bfs_midD [OF mid] and X = exploredD [OF bfs_midD(1) [OF mid]]
  have nf: "n \<notin> found s" "n \<notin> set (frontier s)" "n \<noteq> x" using new X(7) M(2) by auto
  have dep: "dep s' v = (if v = n then d + 1 else dep s v)" for v by (simp add: s'_def)
  have bst: "bst s' v = (if v = n then b @ [n] else bst s v)" for v by (simp add: s'_def)
  have found: "found s' = insert n (found s)" and front: "frontier s' = frontier s @ [n]"
    by (auto simp: s'_def)
  have acc: "accounted s' v m" if "accounted s v m" "v \<in> found s" for v m
    using that nf by (auto simp: accounted_def dep bst found)
  have "explored E src s'"
    unfolding explored_def
  proof (intro conjI)
    show "dom (best s') = found s'" using X(1) by (auto simp: s'_def)
    have "n \<in> fst ` E" using n by (metis fst_conv image_eqI symD)
    then show "found s' \<subseteq> fst ` E" using X(2) found by auto
    show "depth s' src = Some 0" using X(3) new by (auto simp: s'_def)
    have "walk E src b x" "length b = d + 1" using X(4,5) [OF M(2)] M(4,5) by auto
    then show "\<forall>v \<in> found s'. walk E src (bst s' v) v \<and> length (bst s' v) = dep s' v + 1"
      using X(4,5) walk_snoc [OF _ n(1)] nf found by (auto simp: dep bst)
    show "distinct (frontier s')" "set (frontier s') \<subseteq> found s'" using X(6,7) nf front found by auto
    have m: "map (dep s') (frontier s') = map (dep s) (frontier s) @ [d + 1]" using nf by (auto simp: front dep)
    have "\<forall>v \<in> set (frontier s). dep s v \<le> d + 1" using M(8) X(7) by blast
    then show "sorted (map (dep s') (frontier s'))" using X(8) unfolding m by (simp add: sorted_append)
  qed
  moreover have "settled E s' v" if "v \<in> found s" "v \<notin> set (frontier s)" "v \<noteq> x" for v
    using M(6) [OF that] acc that(1) by (auto simp: settled_def)
  moreover have "accounted s' x m" if "m \<in> insert n handled" for m
  proof (cases "m = n")
    case True
    then show ?thesis using nf M(4,5) by (simp add: accounted_def dep bst found)
  next
    case False
    then show ?thesis using that M(2,7) acc by blast
  qed
  moreover have "depth s' x = Some d" "best s' x = Some b" using nf M(4,5) by (simp_all add: s'_def)
  moreover have "dep s' v \<le> d + 1" if "v \<in> found s'" for v using that M(8) found by (auto simp: dep)
  moreover have "dep s' v \<le> d" if "v \<in> found s' - set (frontier s')" for v
    using that M(9) found front by (auto simp: dep)
  moreover have "d \<le> dep s' u" if "u \<in> set (frontier s')" for u using that M(10) front by (auto simp: dep)
  moreover have "found s' - set (frontier s') = found s - set (frontier s)" using found front nf by auto
  moreover have "x \<in> found s' - set (frontier s')" using found front M(2,3) nf by auto
  ultimately show ?thesis unfolding bfs_mid_def by auto
qed

lemma relax_better:
  assumes mid: "bfs_mid E src x d b handled s" and n: "(x, n) \<in> E" and old: "depth s n = Some (d + 1)"
    and less: "b @ [n] < bst s n"
  defines "s' \<equiv> s\<lparr>best := (best s)(n \<mapsto> b @ [n])\<rparr>"
  shows "bfs_mid E src x d b (insert n handled) s'"
proof -
  note M = bfs_midD [OF mid] and X = exploredD [OF bfs_midD(1) [OF mid]]
  have nf: "n \<in> found s" "n \<in> set (frontier s)" "n \<noteq> x"
  proof -
    show "n \<in> found s" using old by auto
    then show "n \<in> set (frontier s)" using M(9) [of n] old by auto
    show "n \<noteq> x" using M(4) old by auto
  qed
  have dep: "depth s' = depth s" and found: "found s' = found s" and front: "frontier s' = frontier s"
    by (auto simp: s'_def)
  have bst: "bst s' v = (if v = n then b @ [n] else bst s v)" for v by (simp add: s'_def)
  have acc: "accounted s' v m" if "accounted s v m" "v \<noteq> n" for v m
    using that less by (auto simp: accounted_def dep bst found)
  have "explored E src s'"
    unfolding explored_def found front dep
  proof (intro conjI)
    show "dom (best s') = found s" using X(1) nf by (auto simp: s'_def)
    have "walk E src b x" "length b = d + 1" using X(4,5) [OF M(2)] M(4,5) by auto
    then show "\<forall>v \<in> found s. walk E src (bst s' v) v \<and> length (bst s' v) = dep s v + 1"
      using X(4,5) walk_snoc [OF _ n(1)] old by (auto simp: bst)
  qed (use X in auto)
  moreover have "settled E s' v" if "v \<in> found s" "v \<notin> set (frontier s)" "v \<noteq> x" for v
    using M(6) [OF that] acc nf that by (auto simp: settled_def)
  moreover have "accounted s' x m" if "m \<in> insert n handled" for m
  proof (cases "m = n")
    case True
    then show ?thesis using nf M(4,5) old by (simp add: accounted_def dep bst found)
  next
    case False
    then show ?thesis using that M(7) acc nf by blast
  qed
  moreover have "depth s' x = Some d" "best s' x = Some b" using nf M(4,5) by (simp_all add: s'_def)
  ultimately show ?thesis using M(2,3,8-10) unfolding bfs_mid_def found front dep by auto
qed

lemma relax_mid:
  assumes mid: "bfs_mid E src x d b handled s" and n: "(x, n) \<in> E" "sym E"
  shows "\<exists>s'. relax b d n s = Some s' \<and> bfs_mid E src x d b (insert n handled) s'
    \<and> found s' - set (frontier s') = found s - set (frontier s)"
proof (cases "depth s n")
  case None
  have "found s - set (frontier s) = insert n (found s) - set (frontier s @ [n])"
    using None exploredD(7) [OF bfs_midD(1) [OF mid]] by auto
  then show ?thesis using relax_new [OF mid n None] None by (auto simp: relax_def Let_def)
next
  case (Some dn)
  note M = bfs_midD [OF mid] and X = exploredD [OF bfs_midD(1) [OF mid]]
  have nf: "n \<in> found s" using Some by auto
  then obtain bn where bn: "best s n = Some bn" using X(1) by blast
  have keep: "bfs_mid E src x d b (insert n handled) s" if "dn = d + 1 \<longrightarrow> bn \<le> b @ [n]"
  proof -
    have "accounted s x n" using that Some bn nf M(4,5) M(8) [OF nf] by (auto simp: accounted_def)
    then show ?thesis using mid by (auto simp: bfs_mid_def)
  qed
  show ?thesis
  proof (cases "dn = d + 1 \<and> b @ [n] < bn")
    case True
    then show ?thesis using relax_better [OF mid n(1)] Some bn by (auto simp: relax_def Let_def)
  next
    case False
    then have "relax b d n s = Some s" using Some bn by (auto simp: relax_def Let_def)
    moreover have "bfs_mid E src x d b (insert n handled) s" using False by (intro keep) auto
    ultimately show ?thesis by auto
  qed
qed

lemma relax_all_mid:
  assumes "bfs_mid E src x d b handled s" "\<forall>n \<in> set ns. (x, n) \<in> E" "sym E"
  shows "\<exists>s'. relax_all b d ns s = Some s' \<and> bfs_mid E src x d b (handled \<union> set ns) s'
    \<and> found s' - set (frontier s') = found s - set (frontier s)"
  using assms
proof (induction ns arbitrary: s handled)
  case (Cons n ns)
  from relax_mid [OF Cons.prems(1) _ Cons.prems(3), of n] Cons.prems(2) obtain s1 where s1:
    "relax b d n s = Some s1" "bfs_mid E src x d b (insert n handled) s1"
    "found s1 - set (frontier s1) = found s - set (frontier s)" by auto
  from Cons.IH [OF s1(2)] Cons.prems(2,3) obtain s' where
    "relax_all b d ns s1 = Some s'" "bfs_mid E src x d b (insert n handled \<union> set ns) s'"
    "found s' - set (frontier s') = found s1 - set (frontier s1)" by auto
  with s1 show ?case by auto
qed simp


lemma pop_mid:
  assumes inv: "bfs_inv E src s" and front: "frontier s = x # rest" and x: "depth s x = Some d" "best s x = Some b"
  shows "bfs_mid E src x d b {} (s\<lparr>frontier := rest\<rparr>)"
proof -
  have X: "explored E src s" using inv by (simp add: bfs_inv_def)
  note XD = exploredD [OF X]
  let ?s = "s\<lparr>frontier := rest\<rparr>"
  have xf: "x \<in> found s" "x \<notin> set rest" using x XD(6) front by auto
  have "explored E src ?s" using X front by (auto simp: explored_def)
  moreover have "settled E ?s v" if "v \<in> found s - set rest - {x}" for v
  proof -
    have "v \<in> found s - set (frontier s)" using that front by auto
    then have "settled E s v" using inv unfolding bfs_inv_def by blast
    then show ?thesis unfolding settled_def accounted_def by simp
  qed
  moreover have "\<forall>v \<in> found s. dep s v \<le> d + 1" "\<forall>v \<in> found s - set rest. dep s v \<le> d"
  proof -
    have "dep s x = d" using x by simp
    moreover have x_in: "x \<in> set (frontier s)" using front by simp
    ultimately have all: "dep s v \<le> d + 1" and old: "v \<notin> set (frontier s) \<Longrightarrow> dep s v \<le> d" if "v \<in> found s" for v
      using inv that unfolding bfs_inv_def by blast+
    show "\<forall>v \<in> found s. dep s v \<le> d + 1" using all by blast
    show "\<forall>v \<in> found s - set rest. dep s v \<le> d"
      using old front \<open>dep s x = d\<close> by (metis DiffD1 DiffD2 order_refl set_ConsD)
  qed
  moreover have "\<forall>u \<in> set rest. d \<le> dep s u" using XD(8) x front by simp
  ultimately show ?thesis using x xf by (simp add: bfs_mid_def)
qed

lemma mid_done:
  assumes mid: "bfs_mid E src x d b {n. (x, n) \<in> E} s"
  shows "bfs_inv E src s"
proof -
  note M = bfs_midD [OF mid]
  have "settled E s x" using M(7) by (auto simp: settled_def)
  then have "settled E s v" if "v \<in> found s - set (frontier s)" for v using that M(6) by (cases "v = x") auto
  moreover have "dep s v \<le> dep s u + 1" if "v \<in> found s" "u \<in> set (frontier s)" for u v
    using M(8) [OF that(1)] M(10) [OF that(2)] by simp
  moreover have "dep s v \<le> dep s u" if "v \<in> found s - set (frontier s)" "u \<in> set (frontier s)" for u v
    using M(9) [of v] M(10) [OF that(2)] that(1) by simp
  ultimately show ?thesis using M(1) by (auto simp: bfs_inv_def)
qed


lemma bfs_loop_run:
  assumes g: "\<And>x. set (neighbours g x) = {y. (x, y) \<in> E}" "\<And>x. x \<in> fst ` E \<Longrightarrow> map_of g x \<noteq> None"
    and E: "sym E" "finite E"
  shows "bfs_inv E src s \<Longrightarrow> \<exists>s'. bfs_loop g s = Some s' \<and> bfs_inv E src s' \<and> frontier s' = []"
proof (induction "card (fst ` E - (found s - set (frontier s)))" arbitrary: s rule: less_induct)
  case less
  show ?case
  proof (cases "frontier s")
    case Nil
    then show ?thesis using less.prems by (subst bfs_loop.simps) simp
  next
    case (Cons x rest)
    let ?s = "s\<lparr>frontier := rest\<rparr>"
    have I: "explored E src s" using less.prems by (simp add: bfs_inv_def)
    have "x \<in> found s" "x \<in> dom (best s)" using exploredD(1,7) [OF I] Cons by auto
    then obtain d b where x: "depth s x = Some d" "best s x = Some b" by blast
    note mid = pop_mid [OF less.prems Cons x]
    note M = bfs_midD [OF mid] and X = exploredD [OF bfs_midD(1) [OF mid]]
    have xE: "x \<in> fst ` E" using M(2) X(2) by auto
    then obtain ns where ns: "map_of g x = Some ns" using g(2) by blast
    then have set: "set ns = {n. (x, n) \<in> E}" using g(1) [of x] by (simp add: neighbours_def)
    from relax_all_mid [OF mid _ E(1), of ns] set obtain s1 where s1:
      "relax_all b d ns ?s = Some s1" "bfs_mid E src x d b {n. (x, n) \<in> E} s1"
      "found s1 - set (frontier s1) = found s - set rest" by auto
    have inv: "bfs_inv E src s1" by (rule mid_done [OF s1(2)])
    have "x \<notin> set rest" using M(3) by simp
    then have "found s - set rest = insert x (found s - set (frontier s))" "x \<notin> found s - set (frontier s)"
      using M(2) Cons by auto
    then have "fst ` E - (found s1 - set (frontier s1)) \<subset> fst ` E - (found s - set (frontier s))"
      using s1(3) xE by auto
    then have "card (fst ` E - (found s1 - set (frontier s1))) < card (fst ` E - (found s - set (frontier s)))"
      using E(2) by (intro psubset_card_mono) auto
    from less.hyps [OF this inv] obtain s' where "bfs_loop g s1 = Some s'" "bfs_inv E src s'" "frontier s' = []" by blast
    moreover have "bfs_loop g s = bfs_loop g s1"
      using Cons ns s1(1) x by (subst bfs_loop.simps) simp
    ultimately show ?thesis by auto
  qed
qed

text \<open>When the frontier is empty, every walk is at least as long as the recorded one, and one of the
  same length is lexicographically no smaller.\<close>

lemma bfs_final:
  assumes inv: "bfs_inv E src s" "frontier s = []" and "walk E src q v"
  shows "v \<in> found s \<and> dep s v + 1 \<le> length q \<and> (dep s v + 1 = length q \<longrightarrow> bst s v \<le> q)"
  using assms(3)
proof (induction q arbitrary: v rule: rev_induct)
  case Nil
  then show ?case by (simp add: walk_def)
next
  case (snoc w q)
  have X: "explored E src s" using inv by (simp add: bfs_inv_def)
  note XD = exploredD [OF X]
  show ?case
  proof (cases "q = []")
    case True
    then have v: "v = src" "w = src" using snoc.prems by (auto simp: walk_def)
    have "src \<in> found s" using XD(3) by auto
    then have "bst s src = [src]" using XD(3) XD(4,5) [of src] by (auto simp: walk_def length_Suc_conv)
    then show ?thesis using True v XD(3) by auto
  next
    case False
    from snoc.prems False obtain u where u: "walk E src q u" "(u, w) \<in> E" "v = w" by (rule walk_snocE)
    from snoc.IH [OF u(1)] have uf: "u \<in> found s" "dep s u + 1 \<le> length q" "dep s u + 1 = length q \<longrightarrow> bst s u \<le> q" by auto
    then have "settled E s u" using inv by (simp add: bfs_inv_def)
    then have acc: "accounted s u v" using u by (auto simp: settled_def)
    have "bst s v \<le> q @ [w]" if "dep s v + 1 = length (q @ [w])"
    proof -
      have "dep s u + 1 = length q" "dep s v = dep s u + 1" using that acc uf(2) by (auto simp: accounted_def)
      then have "bst s v \<le> bst s u @ [v]" "bst s u \<le> q" "length (bst s u) = length q"
        using acc uf XD(5) [OF uf(1)] by (auto simp: accounted_def)
      then show ?thesis using lex_snoc_mono [of "bst s u" q w] u(3) by simp
    qed
    then show ?thesis using acc uf(2) by (auto simp: accounted_def)
  qed
qed


subsection \<open>The search is exact\<close>

definition best_path :: "(string \<times> string) set \<Rightarrow> string \<Rightarrow> string \<Rightarrow> string list \<Rightarrow> bool" where
  "best_path E source target p \<longleftrightarrow> walk E source p target
     \<and> (\<forall>q. walk E source q target \<longrightarrow> length p < length q \<or> length p = length q \<and> p \<le> q)"

lemma best_path_unique: "best_path E a b p \<Longrightarrow> best_path E a b q \<Longrightarrow> p = q"
proof -
  assume p: "best_path E a b p" and q: "best_path E a b q"
  then have "length p < length q \<or> length p = length q \<and> p \<le> q" "length q < length p \<or> length q = length p \<and> q \<le> p"
    unfolding best_path_def by blast+
  then show ?thesis by auto
qed

lemma finite_sym_edges: "finite (sym_edges es)"
  by (simp add: sym_edges_def)

lemma shortest_path_run:
  fixes es
  defines "E \<equiv> sym_edges (pairs es)"
  assumes "source \<noteq> target"
  shows "\<exists>r. shortest_path source target es = Some r
    \<and> (case r of None \<Rightarrow> (source, target) \<notin> E\<^sup>* | Some p \<Rightarrow> best_path E source target p)"
proof (cases "source \<in> fst ` E \<and> target \<in> fst ` E")
  case False
  have "(source, target) \<notin> E\<^sup>*"
  proof
    assume st: "(source, target) \<in> E\<^sup>*"
    then have "source \<in> fst ` E" using assms(2) by (metis converse_rtranclE fst_conv image_eqI)
    moreover have "(target, source) \<in> E\<^sup>*" using connected_sym st unfolding E_def .
    then have "target \<in> fst ` E" using assms(2) by (metis converse_rtranclE fst_conv image_eqI)
    ultimately show False using False by blast
  qed
  then show ?thesis using False assms(2) by (auto simp: shortest_path_def Let_def adjacency_None E_def)
next
  case True
  have inv: "bfs_inv E source (bfs_start source)"
    using True by (auto simp: bfs_inv_def explored_def bfs_start_def walk_single)
  have g: "\<And>x. set (neighbours (adjacency es) x) = {y. (x, y) \<in> E}" "\<And>x. x \<in> fst ` E \<Longrightarrow> map_of (adjacency es) x \<noteq> None"
    using adjacency_neighbours adjacency_None unfolding E_def by blast+
  have E: "sym E" "finite E" unfolding E_def by (rule sym_sym_edges) (rule finite_sym_edges)
  from bfs_loop_run [OF g E inv] obtain s where s: "bfs_loop (adjacency es) (bfs_start source) = Some s"
    "bfs_inv E source s" "frontier s = []" by blast
  have X: "explored E source s" using s by (simp add: bfs_inv_def)
  have run: "shortest_path source target es = Some (best s target)"
    using True assms(2) s(1) by (auto simp: shortest_path_def Let_def adjacency_None E_def)
  show ?thesis
  proof (cases "best s target")
    case None
    then have "target \<notin> found s" using exploredD(1) [OF X] by auto
    then have "\<not> walk E source q target" for q using bfs_final [OF s(2,3)] by blast
    then have "(source, target) \<notin> E\<^sup>*" using connected_walk by metis
    then show ?thesis using run None by simp
  next
    case (Some p)
    then have t: "target \<in> found s" "bst s target = p" using exploredD(1) [OF X] by auto
    have "walk E source p target" "length p = dep s target + 1" using exploredD(4,5) [OF X t(1)] t(2) by auto
    moreover have "length p < length q \<or> length p = length q \<and> p \<le> q" if "walk E source q target" for q
      using bfs_final [OF s(2,3) that] calculation(2) t(2) by (auto simp: le_less)
    ultimately have "best_path E source target p" by (auto simp: best_path_def)
    then show ?thesis using run Some by simp
  qed
qed

text \<open>C38: \<open>shortest_path\<close> always returns. Between distinct vertices it finds a path exactly when the
  edges connect them, and the path it returns has the fewest hops and, among those, the
  lexicographically smallest vertex sequence, so the edge it proposes to cut depends on the edge set
  alone.\<close>

theorem shortest_path_exact:
  assumes "source \<noteq> target"
  shows "\<exists>r. shortest_path source target es = Some r
    \<and> (r = None \<longleftrightarrow> (source, target) \<notin> connected (pairs es))
    \<and> (\<forall>p. r = Some p \<longleftrightarrow> best_path (sym_edges (pairs es)) source target p)"
proof -
  obtain r where r: "shortest_path source target es = Some r"
    "case r of None \<Rightarrow> (source, target) \<notin> connected (pairs es) | Some p \<Rightarrow> best_path (sym_edges (pairs es)) source target p"
    using shortest_path_run [OF assms] by blast
  have conn: "(source, target) \<in> connected (pairs es)" if "best_path (sym_edges (pairs es)) source target p" for p
    using that walk_connected by (auto simp: best_path_def)
  have "(r = None \<longleftrightarrow> (source, target) \<notin> connected (pairs es))
      \<and> (\<forall>p. r = Some p \<longleftrightarrow> best_path (sym_edges (pairs es)) source target p)"
  proof (cases r)
    case None
    then show ?thesis using r(2) conn by auto
  next
    case (Some p)
    then have "best_path (sym_edges (pairs es)) source target p" using r(2) by simp
    then show ?thesis using Some conn best_path_unique by blast
  qed
  then show ?thesis using r(1) by blast
qed

theorem shortest_path_exact_witness:
  "best_path (sym_edges (pairs [(''a'', ''c'', Finite 1), (''c'', ''d'', Finite 1), (''b'', ''d'', Finite 1), (''a'', ''b'', Finite 1)]))
     ''a'' ''d'' [''a'', ''b'', ''d'']"
proof -
  let ?es = "[(''a'', ''c'', Finite 1), (''c'', ''d'', Finite 1), (''b'', ''d'', Finite 1), (''a'', ''b'', Finite 1)]"
  have "shortest_path ''a'' ''d'' ?es = Some (Some [''a'', ''b'', ''d''])" by code_simp
  then show ?thesis using shortest_path_exact [of "''a''" "''d''" ?es] by auto
qed

end
