(* ===== verification/NeverCut.thy ===== *)
theory NeverCut
  imports ShortestPath Cluster Assertions
begin

text \<open>
  The never-cut fixpoint of \<^verbatim>\<open>er-reconcile/src/never_cut.rs\<close>: the choice of the edge to cut, the
  component map and the bounded loop that cuts or escalates until no active \<open>never\<close> pair is
  co-clustered. A failed \<open>expect\<close> or a missing key is \<open>Panic\<close>. The outer loop is bounded
  by \<open>max_iterations\<close>, which is its termination measure.
\<close>

record cut =
  c_rec_a_key :: string
  c_rec_b_key :: string
  match_probability :: f64
  c_assertion_id :: string

record cut_result =
  cuts :: "cut list"
  escalations :: "(string \<times> string \<times> string) list"
  iterations :: nat

datatype never_cut_error = NonConvergence nat nat | NoProgress nat

definition canon :: "string \<Rightarrow> string \<Rightarrow> (string \<times> string) outcome" where
  "canon a b = (case canonicalize_pair a b of Inl e \<Rightarrow> Panic | Inr p \<Rightarrow> Ret p)"

subsection \<open>Comparing probabilities\<close>

datatype ordering = OrdLess | OrdEqual | OrdGreater

fun f64_lt :: "f64 \<Rightarrow> f64 \<Rightarrow> bool" where
  "f64_lt NegInf (Finite y) = True"
| "f64_lt NegInf PosInf = True"
| "f64_lt (Finite x) (Finite y) = (x < y)"
| "f64_lt (Finite x) PosInf = True"
| "f64_lt _ _ = False"

definition f64_partial_cmp :: "f64 \<Rightarrow> f64 \<Rightarrow> ordering option" where
  "f64_partial_cmp a b =
     (if a = NaN \<or> b = NaN then None
      else Some (if f64_lt a b then OrdLess else if f64_lt b a then OrdGreater else OrdEqual))"

definition str_cmp :: "string \<Rightarrow> string \<Rightarrow> ordering" where
  "str_cmp a b = (if a < b then OrdLess else if a = b then OrdEqual else OrdGreater)"

fun edge_cmp :: "path_edge \<Rightarrow> path_edge \<Rightarrow> ordering option" where
  "edge_cmp (a0, a1, a2) (b0, b1, b2) =
     (case f64_partial_cmp a2 b2 of
        Some OrdEqual \<Rightarrow> Some (case str_cmp a0 b0 of OrdEqual \<Rightarrow> str_cmp a1 b1 | c \<Rightarrow> c)
      | c \<Rightarrow> c)"

fun min_by_edge :: "path_edge \<Rightarrow> path_edge list \<Rightarrow> path_edge outcome" where
  "min_by_edge x [] = Ret x"
| "min_by_edge x (y # ys) =
     (case edge_cmp x y of
        None \<Rightarrow> Panic
      | Some OrdGreater \<Rightarrow> min_by_edge y ys
      | Some c \<Rightarrow> min_by_edge x ys)"

subsection \<open>Choosing the edge to cut\<close>

fun canon_edges :: "path_edge list \<Rightarrow> ((string \<times> string) \<times> f64) list outcome" where
  "canon_edges [] = Ret []"
| "canon_edges ((l, r, v) # es) =
     bind_outcome (canon l r) (\<lambda>p. bind_outcome (canon_edges es) (\<lambda>rest. Ret ((p, v) # rest)))"

fun cut_candidates ::
  "(string \<times> string, f64) bmap \<Rightarrow> f64 \<Rightarrow> string set \<Rightarrow> string list \<Rightarrow> path_edge list outcome" where
  "cut_candidates probability cut_protect protected (x # y # zs) =
     bind_outcome (canon x y) (\<lambda>pair.
       bind_outcome (cut_candidates probability cut_protect protected (y # zs)) (\<lambda>rest.
         Ret (case map_of probability pair of
                Some value \<Rightarrow>
                  if f64_lt value cut_protect \<and> fst pair \<notin> protected \<and> snd pair \<notin> protected
                  then (fst pair, snd pair, value) # rest else rest
              | None \<Rightarrow> rest)))"
| "cut_candidates probability cut_protect protected path = Ret []"

definition choose_cut_edge ::
  "string list \<Rightarrow> path_edge list \<Rightarrow> f64 \<Rightarrow> string set \<Rightarrow> path_edge option outcome" where
  "choose_cut_edge path es cut_protect protected =
     bind_outcome (canon_edges es) (\<lambda>kvs.
       bind_outcome (cut_candidates (bmap_collect kvs) cut_protect protected path) (\<lambda>cs.
         case cs of [] \<Rightarrow> Ret None
         | c # rest \<Rightarrow> bind_outcome (min_by_edge c rest) (\<lambda>e. Ret (Some e))))"

subsection \<open>Components of the live edges\<close>

fun component_loop :: "nat \<Rightarrow> string list \<Rightarrow> union_find \<Rightarrow> (string \<times> nat) list option" where
  "component_loop i [] u = Some []"
| "component_loop i (s # ss) u =
     (case uf_find u i of None \<Rightarrow> None
      | Some (u', r) \<Rightarrow> map_option (\<lambda>rest. (s, r) # rest) (component_loop (i + 1) ss u'))"

definition components :: "path_edge list \<Rightarrow> string list \<Rightarrow> (string, nat) bmap option" where
  "components es nodes =
     (let ids = node_ids nodes (pairs es) in
      case union_edges (id_index ids) (pairs es) (uf_new (length ids)) of None \<Rightarrow> None
      | Some u \<Rightarrow> map_option bmap_collect (component_loop 0 ids u))"

subsection \<open>The fixpoint\<close>

record cut_state =
  live :: "path_edge list"
  s_cuts :: "cut list"
  escalated :: "(string \<times> string \<times> string) list"
  escalated_pairs :: "(string \<times> string) set"

fun violations :: "(string, nat) bmap \<Rightarrow> (string \<times> string) set \<Rightarrow> assertion list \<Rightarrow> assertion list outcome" where
  "violations component esc [] = Ret []"
| "violations component esc (a # as) =
     bind_outcome (canon (rec_a_key a) (rec_b_key a)) (\<lambda>pair.
       bind_outcome (violations component esc as) (\<lambda>rest.
         Ret (if pair \<notin> esc
                 \<and> (case (map_of component (rec_a_key a), map_of component (rec_b_key a)) of
                      (Some x, Some y) \<Rightarrow> x = y | _ \<Rightarrow> False)
              then a # rest else rest)))"

fun retain_uncut :: "string \<times> string \<Rightarrow> path_edge list \<Rightarrow> path_edge list outcome" where
  "retain_uncut cut_pair [] = Ret []"
| "retain_uncut cut_pair ((l, r, v) # es) =
     bind_outcome (canon l r) (\<lambda>p.
       bind_outcome (retain_uncut cut_pair es) (\<lambda>rest.
         Ret (if p \<noteq> cut_pair then (l, r, v) # rest else rest)))"

definition cut_step :: "f64 \<Rightarrow> string set \<Rightarrow> assertion \<Rightarrow> cut_state \<times> bool \<Rightarrow> (cut_state \<times> bool) outcome" where
  "cut_step cut_protect protected a st_progressed =
     (let st = fst st_progressed in
      bind_outcome (outcome_of_option (shortest_path (rec_a_key a) (rec_b_key a) (live st))) (\<lambda>found_path.
        case found_path of
          None \<Rightarrow> Ret st_progressed
        | Some path \<Rightarrow>
            bind_outcome (choose_cut_edge path (live st) cut_protect protected) (\<lambda>choice.
              case choice of
                None \<Rightarrow>
                  bind_outcome (canon (rec_a_key a) (rec_b_key a)) (\<lambda>pair.
                    Ret (st\<lparr>escalated := escalated st @ [(fst pair, snd pair, assertion_id a)],
                            escalated_pairs := insert pair (escalated_pairs st)\<rparr>, True))
              | Some (ea, eb, ev) \<Rightarrow>
                  bind_outcome (retain_uncut (ea, eb) (live st)) (\<lambda>live'.
                    Ret (st\<lparr>s_cuts := s_cuts st @ [\<lparr>c_rec_a_key = ea, c_rec_b_key = eb,
                                match_probability = ev, c_assertion_id = assertion_id a\<rparr>],
                            live := live'\<rparr>, True)))))"

fun cut_round :: "f64 \<Rightarrow> string set \<Rightarrow> assertion list \<Rightarrow> cut_state \<times> bool \<Rightarrow> (cut_state \<times> bool) outcome" where
  "cut_round cut_protect protected [] st = Ret st"
| "cut_round cut_protect protected (a # as) st =
     bind_outcome (cut_step cut_protect protected a st) (cut_round cut_protect protected as)"

function fixpoint_loop ::
  "f64 \<Rightarrow> string set \<Rightarrow> assertion list \<Rightarrow> string list \<Rightarrow> nat \<Rightarrow> cut_state \<Rightarrow> nat \<Rightarrow> (never_cut_error + cut_result) outcome" where
  "fixpoint_loop cut_protect protected never every_node max_iterations st iters =
     bind_outcome (outcome_of_option (components (live st) every_node)) (\<lambda>component.
     bind_outcome (violations component (escalated_pairs st) never) (\<lambda>vs.
       if vs = [] then
         Ret (Inr \<lparr>cuts = s_cuts st, escalations = escalated st, iterations = iters\<rparr>)
       else if iters \<ge> max_iterations then Ret (Inl (NonConvergence max_iterations (length vs)))
       else bind_outcome (cut_round cut_protect protected vs (st, False)) (\<lambda>(st', progressed).
         if \<not> progressed then Ret (Inl (NoProgress (length never)))
         else fixpoint_loop cut_protect protected never every_node max_iterations st' (iters + 1))))"
  by pat_completeness auto
termination
  by (relation "measure (\<lambda>(cut_protect, protected, never, every_node, max_iterations, st, iters). max_iterations - iters)")
    auto

declare fixpoint_loop.simps [simp del]

definition never_of :: "assertion list \<Rightarrow> assertion list" where
  "never_of assertions = filter (\<lambda>a. a_kind a = Never \<and> active a) assertions"

definition never_cut_fixpoint ::
  "path_edge list \<Rightarrow> assertion list \<Rightarrow> string list \<Rightarrow> f64 \<Rightarrow> string set \<Rightarrow> nat \<Rightarrow> (never_cut_error + cut_result) outcome" where
  "never_cut_fixpoint es assertions nodes cut_protect protected max_iterations =
     (let never = never_of assertions in
      if never = [] then Ret (Inr \<lparr>cuts = [], escalations = [], iterations = 0\<rparr>)
      else fixpoint_loop cut_protect protected never (node_ids nodes (pairs es)) max_iterations
             \<lparr>live = es, s_cuts = [], escalated = [], escalated_pairs = {}\<rparr> 0)"

subsection \<open>Canonical pairs\<close>

definition cpair :: "string \<Rightarrow> string \<Rightarrow> string \<times> string" where
  "cpair a b = (min a b, max a b)"

lemma canon_Ret: "a \<noteq> b \<Longrightarrow> canon a b = Ret (cpair a b)"
  by (auto simp: canon_def canonicalize_pair_def cpair_def min_def max_def)

lemma cpair_commute: "cpair a b = cpair b a"
  by (simp add: cpair_def min.commute max.commute)

lemma cpair_eq: "cpair a b = cpair c d \<longleftrightarrow> a = c \<and> b = d \<or> a = d \<and> b = c"
  by (auto simp: cpair_def min_def max_def split: if_splits)

abbreviation epair :: "path_edge \<Rightarrow> string \<times> string" where
  "epair e \<equiv> cpair (fst e) (fst (snd e))"

abbreviation evalue :: "path_edge \<Rightarrow> f64" where
  "evalue e \<equiv> snd (snd e)"

definition edges_ok :: "path_edge list \<Rightarrow> bool" where
  "edges_ok es \<longleftrightarrow> list_all (\<lambda>e. fst e \<noteq> fst (snd e)) es"

lemma canon_edges_Ret: "edges_ok es \<Longrightarrow> canon_edges es = Ret (map (\<lambda>e. (epair e, evalue e)) es)"
  by (induction es rule: canon_edges.induct) (simp_all add: edges_ok_def canon_Ret)

lemma retain_uncut_Ret: "edges_ok es \<Longrightarrow> retain_uncut p es = Ret (filter (\<lambda>e. epair e \<noteq> p) es)"
  by (induction p es rule: retain_uncut.induct) (simp_all add: edges_ok_def canon_Ret)

subsection \<open>The cut order\<close>

fun f64_rank :: "f64 \<Rightarrow> int \<times> real" where
  "f64_rank NaN = (0, 0)"
| "f64_rank NegInf = (-1, 0)"
| "f64_rank (Finite x) = (0, x)"
| "f64_rank PosInf = (1, 0)"

lemma f64_lt_rank: "a \<noteq> NaN \<Longrightarrow> b \<noteq> NaN \<Longrightarrow> f64_lt a b \<longleftrightarrow> f64_rank a < f64_rank b"
  by (cases a; cases b) auto

lemma f64_rank_inj: "a \<noteq> NaN \<Longrightarrow> b \<noteq> NaN \<Longrightarrow> f64_rank a = f64_rank b \<Longrightarrow> a = b"
  by (cases a; cases b) auto

lemma f64_lt_not_NaN: "f64_lt a b \<Longrightarrow> a \<noteq> NaN"
  by auto

definition edge_key :: "path_edge \<Rightarrow> (int \<times> real) \<times> string \<times> string" where
  "edge_key e = (f64_rank (evalue e), fst e, fst (snd e))"

lemma edge_cmp_key:
  assumes "evalue a \<noteq> NaN" "evalue b \<noteq> NaN"
  shows "edge_cmp a b = Some (if edge_key a < edge_key b then OrdLess
    else if edge_key a = edge_key b then OrdEqual else OrdGreater)"
proof -
  obtain a0 a1 a2 b0 b1 b2 where e: "a = (a0, a1, a2)" "b = (b0, b1, b2)" by (metis prod_cases3)
  have n: "a2 \<noteq> NaN" "b2 \<noteq> NaN" using assms e by auto
  show ?thesis using n unfolding e
    by (auto simp: f64_partial_cmp_def f64_lt_rank str_cmp_def edge_key_def dest: f64_rank_inj)
qed

lemma min_by_edge_least:
  "evalue x \<noteq> NaN \<Longrightarrow> \<forall>y \<in> set ys. evalue y \<noteq> NaN \<Longrightarrow>
   \<exists>m \<in> insert x (set ys). min_by_edge x ys = Ret m \<and> (\<forall>y \<in> insert x (set ys). edge_key m \<le> edge_key y)"
proof (induction ys arbitrary: x)
  case (Cons y ys)
  have cmp: "edge_cmp x y = Some (if edge_key x < edge_key y then OrdLess
    else if edge_key x = edge_key y then OrdEqual else OrdGreater)" using Cons.prems by (intro edge_cmp_key) auto
  show ?case
  proof (cases "edge_key y < edge_key x")
    case True
    then have g: "edge_cmp x y = Some OrdGreater" using cmp by auto
    from Cons.IH [of y] Cons.prems obtain m where "m \<in> insert y (set ys)" "min_by_edge y ys = Ret m"
      "\<forall>z \<in> insert y (set ys). edge_key m \<le> edge_key z"
      by (metis list.set_intros(1) list.set_intros(2))
    then show ?thesis using g True by (intro bexI [of _ m]) auto
  next
    case False
    then obtain c where c: "edge_cmp x y = Some c" "c = OrdLess \<or> c = OrdEqual" using cmp by auto
    then have "\<exists>m \<in> insert x (set ys). min_by_edge x ys = Ret m \<and> (\<forall>z \<in> insert x (set ys). edge_key m \<le> edge_key z)"
      using Cons.IH [of x] Cons.prems by simp
    then show ?thesis using c False by force
  qed
qed simp


subsection \<open>Which edges may be cut\<close>

definition prob :: "path_edge list \<Rightarrow> string \<times> string \<rightharpoonup> f64" where
  "prob es = map_of (rev (map (\<lambda>e. (epair e, evalue e)) es))"

definition cuttable :: "path_edge list \<Rightarrow> f64 \<Rightarrow> string set \<Rightarrow> string \<times> string \<Rightarrow> bool" where
  "cuttable es cut_protect protected k \<longleftrightarrow>
     (case prob es k of None \<Rightarrow> False | Some v \<Rightarrow> f64_lt v cut_protect)
     \<and> fst k \<notin> protected \<and> snd k \<notin> protected"

definition hops :: "string list \<Rightarrow> (string \<times> string) list" where
  "hops p = map (\<lambda>(x, y). cpair x y) (zip p (tl p))"

lemma hops_Cons: "hops (x # y # zs) = cpair x y # hops (y # zs)"
  by (simp add: hops_def)

lemma prob_dom: "dom (prob es) = epair ` set es"
  by (simp add: prob_def dom_map_of_conv_image_fst image_image)

lemma prob_filter: "P k \<Longrightarrow> prob (filter (\<lambda>e. P (epair e)) es) k = prob es k"
proof (induction es rule: rev_induct)
  case (snoc e es)
  then show ?case by (auto simp: prob_def)
qed (simp add: prob_def)

lemma cut_candidates_Ret:
  assumes "distinct_adj path"
  shows "cut_candidates m cut_protect protected path =
    Ret (map (\<lambda>k. (fst k, snd k, the (map_of m k))) (filter (\<lambda>k. (case map_of m k of None \<Rightarrow> False | Some v \<Rightarrow> f64_lt v cut_protect)
      \<and> fst k \<notin> protected \<and> snd k \<notin> protected) (hops path)))"
  using assms
proof (induction m cut_protect protected path rule: cut_candidates.induct)
  case (1 m cut_protect protected x y zs)
  then have "x \<noteq> y" "distinct_adj (y # zs)" by auto
  with 1(1) [OF this(2)] show ?case
    by (auto simp: canon_Ret hops_Cons split: option.split)
qed (auto simp: hops_def)

lemma choose_cut_edge_run:
  assumes "edges_ok es" "distinct_adj path"
  shows "\<exists>r. choose_cut_edge path es cut_protect protected = Ret r
    \<and> (case r of
         None \<Rightarrow> \<forall>k \<in> set (hops path). \<not> cuttable es cut_protect protected k
       | Some (a, b, v) \<Rightarrow> (a, b) \<in> set (hops path) \<and> cuttable es cut_protect protected (a, b) \<and> prob es (a, b) = Some v
           \<and> (\<forall>k \<in> set (hops path). cuttable es cut_protect protected k \<longrightarrow>
                edge_key (a, b, v) \<le> edge_key (fst k, snd k, the (prob es k))))"
proof -
  let ?ks = "filter (cuttable es cut_protect protected) (hops path)"
  let ?edge = "\<lambda>k. (fst k, snd k, the (prob es k))"
  have m: "map_of (bmap_collect (map (\<lambda>e. (epair e, evalue e)) es)) = prob es"
    by (simp add: bmap_get_collect prob_def)
  have run: "choose_cut_edge path es cut_protect protected =
     (case map ?edge ?ks of [] \<Rightarrow> Ret None | c # rest \<Rightarrow> bind_outcome (min_by_edge c rest) (\<lambda>e. Ret (Some e)))"
    using canon_edges_Ret [OF assms(1)] cut_candidates_Ret [OF assms(2)]
    by (simp add: choose_cut_edge_def m cuttable_def [abs_def])
  show ?thesis
  proof (cases ?ks)
    case Nil
    then show ?thesis using run by (auto simp: filter_empty_conv)
  next
    case (Cons c rest)
    have ok: "evalue (?edge k) \<noteq> NaN" if "k \<in> set ?ks" for k
      using that f64_lt_not_NaN by (auto simp: cuttable_def split: option.splits)
    have "c \<in> set ?ks" "set rest \<subseteq> set ?ks" unfolding Cons by auto
    then have prem: "evalue (?edge c) \<noteq> NaN" "\<forall>y \<in> set (map ?edge rest). evalue y \<noteq> NaN" using ok by auto
    from min_by_edge_least [OF prem] obtain e where e: "e \<in> insert (?edge c) (set (map ?edge rest))" "min_by_edge (?edge c) (map ?edge rest) = Ret e"
      "\<forall>y \<in> insert (?edge c) (set (map ?edge rest)). edge_key e \<le> edge_key y"
      by blast
    have img: "insert (?edge c) (set (map ?edge rest)) = ?edge ` set ?ks" unfolding Cons by simp
    then obtain k where k: "k \<in> set ?ks" "e = ?edge k" using e(1) by blast
    then obtain v where v: "prob es k = Some v" by (auto simp: cuttable_def split: option.splits)
    with k have ek: "e = (fst k, snd k, v)" by simp
    have "choose_cut_edge path es cut_protect protected = Ret (Some e)" using run Cons e(2) by simp
    moreover have "edge_key (fst k, snd k, v) \<le> edge_key (?edge j)" if "j \<in> set (hops path)" "cuttable es cut_protect protected j" for j
    proof -
      have "?edge j \<in> ?edge ` set ?ks" using that by (intro imageI) simp
      then show ?thesis using e(3) unfolding img ek by blast
    qed
    ultimately show ?thesis using k(1) v unfolding ek by auto
  qed
qed


subsection \<open>Violations are the connected pairs\<close>

lemma component_loop_correct:
  "uf_ok u \<Longrightarrow> slots u = {..<i + length ss} \<Longrightarrow> component_loop i ss u = Some (zip ss (map (uf_rep u) [i..<i + length ss]))"
proof (induction ss arbitrary: i u)
  case (Cons s ss)
  have "i < length (parent u)" using Cons.prems(2) by auto
  from uf_find_correct [OF Cons.prems(1) this] obtain u1 where u1: "uf_find u i = Some (u1, uf_rep u i)"
    "uf_ok u1" "slots u1 = slots u" "\<forall>z \<in> slots u. uf_rep u1 z = uf_rep u z" by blast
  have "component_loop (i + 1) ss u1 = Some (zip ss (map (uf_rep u1) [i + 1..<i + 1 + length ss]))"
    using Cons.IH [OF u1(2), of "i + 1"] u1(3) Cons.prems(2) by simp
  also have "map (uf_rep u1) [i + 1..<i + 1 + length ss] = map (uf_rep u) [i + 1..<i + 1 + length ss]"
    using u1(4) Cons.prems(2) by auto
  finally have "component_loop (i + 1) ss u1 = Some (zip ss (map (uf_rep u) [i + 1..<i + 1 + length ss]))" .
  moreover have "[i..<i + length (s # ss)] = i # [i + 1..<i + 1 + length ss]" by (subst upt_conv_Cons) auto
  ultimately show ?case using u1(1) by simp
qed simp

lemma components_correct:
  "\<exists>c. components es nodes = Some c
    \<and> (\<forall>x. map_of c x = None \<longleftrightarrow> x \<notin> universe nodes (pairs es))
    \<and> (\<forall>x \<in> universe nodes (pairs es). \<forall>y \<in> universe nodes (pairs es). map_of c x = map_of c y \<longleftrightarrow> (x, y) \<in> connected (pairs es))"
proof -
  let ?ids = "node_ids nodes (pairs es)"
  have ids: "distinct ?ids" "\<forall>(a, b) \<in> set (pairs es). a \<in> set ?ids \<and> b \<in> set ?ids"
    by (auto simp: node_ids_def) (force+)
  from union_edges_components [OF ids] obtain u where u:
    "union_edges (id_index ?ids) (pairs es) (uf_new (length ?ids)) = Some u" "uf_ok u" "slots u = {..<length ?ids}"
    "\<forall>i < length ?ids. \<forall>j < length ?ids. uf_rep u i = uf_rep u j \<longleftrightarrow> (?ids ! i, ?ids ! j) \<in> connected (pairs es)"
    by blast
  let ?kv = "zip ?ids (map (uf_rep u) [0..<length ?ids])"
  have run: "components es nodes = Some (bmap_collect ?kv)"
    using u(1) component_loop_correct [OF u(2), of 0 ?ids] u(3) by (simp add: components_def Let_def)
  have get: "map_of (bmap_collect ?kv) = map_of ?kv" using ids(1) by (intro bmap_get_collect_distinct) simp
  have none: "map_of ?kv x = None \<longleftrightarrow> x \<notin> universe nodes (pairs es)" for x
    by (simp add: map_of_zip_is_None set_node_ids)
  have nth: "map_of ?kv (?ids ! i) = Some (uf_rep u i)" if "i < length ?ids" for i
    using map_of_zip_nth [of ?ids "map (uf_rep u) [0..<length ?ids]" i] ids(1) that by simp
  have "map_of ?kv x = map_of ?kv y \<longleftrightarrow> (x, y) \<in> connected (pairs es)"
    if "x \<in> universe nodes (pairs es)" "y \<in> universe nodes (pairs es)" for x y
  proof -
    have "x \<in> set ?ids" "y \<in> set ?ids" using that unfolding set_node_ids by simp_all
    then obtain i j where "i < length ?ids" "?ids ! i = x" "j < length ?ids" "?ids ! j = y"
      unfolding in_set_conv_nth by blast
    then show ?thesis using nth u(4) by auto
  qed
  then show ?thesis using run get none by auto
qed

definition never_ok :: "assertion list \<Rightarrow> bool" where
  "never_ok as \<longleftrightarrow> list_all (\<lambda>a. rec_a_key a \<noteq> rec_b_key a) as"

abbreviation apair :: "assertion \<Rightarrow> string \<times> string" where
  "apair a \<equiv> cpair (rec_a_key a) (rec_b_key a)"

definition violating :: "path_edge list \<Rightarrow> (string \<times> string) set \<Rightarrow> assertion \<Rightarrow> bool" where
  "violating es esc a \<longleftrightarrow> apair a \<notin> esc \<and> (rec_a_key a, rec_b_key a) \<in> connected (pairs es)"

lemma connected_universe:
  "(x, y) \<in> connected es \<Longrightarrow> x \<noteq> y \<Longrightarrow> x \<in> universe nodes es \<and> y \<in> universe nodes es"
proof (induction rule: rtrancl_induct)
  case (step y z)
  from step(2) have "(y, z) \<in> set es \<or> (z, y) \<in> set es" by (simp add: sym_edges_def)
  then have "y \<in> universe nodes es" "z \<in> universe nodes es"
    unfolding universe_def by (auto intro: rev_image_eqI)
  with step show ?case by (cases "x = y") auto
qed simp

lemma violations_correct:
  assumes c: "\<And>x. map_of c x = None \<longleftrightarrow> x \<notin> universe nodes (pairs es)"
    "\<And>x y. x \<in> universe nodes (pairs es) \<Longrightarrow> y \<in> universe nodes (pairs es) \<Longrightarrow>
       map_of c x = map_of c y \<longleftrightarrow> (x, y) \<in> connected (pairs es)"
  shows "never_ok as \<Longrightarrow> violations c esc as = Ret (filter (violating es esc) as)"
proof (induction "as")
  case (Cons a as)
  let ?x = "rec_a_key a" and ?y = "rec_b_key a"
  have ne: "?x \<noteq> ?y" and ok: "never_ok as" using Cons.prems by (simp_all add: never_ok_def)
  have "(case (map_of c ?x, map_of c ?y) of (Some x, Some y) \<Rightarrow> x = y | _ \<Rightarrow> False) \<longleftrightarrow> (?x, ?y) \<in> connected (pairs es)"
  proof (cases "?x \<in> universe nodes (pairs es) \<and> ?y \<in> universe nodes (pairs es)")
    case True
    then have "map_of c ?x \<noteq> None" "map_of c ?y \<noteq> None" using c(1) by auto
    moreover have "map_of c ?x = map_of c ?y \<longleftrightarrow> (?x, ?y) \<in> connected (pairs es)" using c(2) True by blast
    ultimately show ?thesis by (auto split: option.split)
  next
    case False
    then have "map_of c ?x = None \<or> map_of c ?y = None" using c(1) by auto
    then show ?thesis using False connected_universe [of ?x ?y "pairs es" nodes] ne by (auto split: option.split)
  qed
  then show ?case using Cons.IH [OF ok] ne by (simp add: canon_Ret violating_def)
qed simp


subsection \<open>One step of a round\<close>

lemma sym_edges_cpair: "(x, y) \<in> sym_edges (pairs es) \<longleftrightarrow> cpair x y \<in> epair ` set es"
proof
  assume "(x, y) \<in> sym_edges (pairs es)"
  then obtain e where "e \<in> set es" "edge_pair e = (x, y) \<or> edge_pair e = (y, x)" by (auto simp: sym_edges_def)
  then have "cpair x y = epair e" "e \<in> set es" by (auto simp: edge_pair_def cpair_eq)
  then show "cpair x y \<in> epair ` set es" by blast
next
  assume "cpair x y \<in> epair ` set es"
  then obtain e where e: "e \<in> set es" "cpair x y = epair e" by blast
  then have "edge_pair e = (x, y) \<or> edge_pair e = (y, x)" by (auto simp: edge_pair_def cpair_eq)
  then show "(x, y) \<in> sym_edges (pairs es)" using e(1) by (force simp: sym_edges_def)
qed

lemma sym_edges_filter:
  "(x, y) \<in> sym_edges (pairs (filter (\<lambda>e. P (epair e)) es)) \<longleftrightarrow> (x, y) \<in> sym_edges (pairs es) \<and> P (cpair x y)"
  unfolding sym_edges_cpair by auto

lemma successively_hops: "successively (\<lambda>x y. P (cpair x y)) p \<longleftrightarrow> (\<forall>k \<in> set (hops p). P k)"
proof (induction p rule: induct_list012)
  case (3 x y zs)
  then show ?case by (simp add: hops_Cons)
qed (simp_all add: hops_def)

lemma walk_hops: "walk (sym_edges (pairs es)) s p t \<Longrightarrow> k \<in> set (hops p) \<Longrightarrow> k \<in> epair ` set es"
  unfolding walk_def sym_edges_cpair using successively_hops [of "\<lambda>k. k \<in> epair ` set es" p] by blast

lemma walk_restrict:
  assumes "walk (sym_edges (pairs es)) s p t" "\<forall>k \<in> set (hops p). P k"
  shows "walk (sym_edges (pairs (filter (\<lambda>e. P (epair e)) es))) s p t"
proof -
  have "successively (\<lambda>x y. (x, y) \<in> sym_edges (pairs es)) p" "successively (\<lambda>x y. P (cpair x y)) p"
    using assms successively_hops [of P p] by (auto simp: walk_def)
  then have "successively (\<lambda>x y. (x, y) \<in> sym_edges (pairs es) \<and> P (cpair x y)) p"
    by (simp add: successively_conv_nth)
  then show ?thesis using assms(1) by (simp add: walk_def sym_edges_filter)
qed

lemma walk_distinct_adj: "edges_ok es \<Longrightarrow> walk (sym_edges (pairs es)) s p t \<Longrightarrow> distinct_adj p"
proof -
  assume ok: "edges_ok es" and w: "walk (sym_edges (pairs es)) s p t"
  have "x \<noteq> y" if xy: "(x, y) \<in> sym_edges (pairs es)" for x y
  proof -
    obtain e where "e \<in> set es" "cpair x y = epair e" using xy unfolding sym_edges_cpair by blast
    then show ?thesis using ok by (auto simp: cpair_eq edges_ok_def list_all_iff)
  qed
  then have "successively (\<noteq>) p" using w successively_mono [of _ p "(\<noteq>)"] by (auto simp: walk_def)
  then show ?thesis by (simp add: distinct_adj_def)
qed

definition cut_pairs :: "cut_state \<Rightarrow> (string \<times> string) set" where
  "cut_pairs st = (\<lambda>c. (c_rec_a_key c, c_rec_b_key c)) ` set (s_cuts st)"

definition uncut :: "path_edge list \<Rightarrow> f64 \<Rightarrow> string set \<Rightarrow> path_edge list" where
  "uncut es cut_protect protected = filter (\<lambda>e. \<not> cuttable es cut_protect protected (epair e)) es"

definition cut_sound :: "path_edge list \<Rightarrow> f64 \<Rightarrow> string set \<Rightarrow> assertion list \<Rightarrow> cut \<Rightarrow> bool" where
  "cut_sound es cut_protect protected never c \<longleftrightarrow> cuttable es cut_protect protected (c_rec_a_key c, c_rec_b_key c)
     \<and> prob es (c_rec_a_key c, c_rec_b_key c) = Some (match_probability c)
     \<and> c_assertion_id c \<in> assertion_id ` set never"

definition escalation_sound :: "path_edge list \<Rightarrow> f64 \<Rightarrow> string set \<Rightarrow> assertion list \<Rightarrow> string \<times> string \<times> string \<Rightarrow> bool" where
  "escalation_sound es cut_protect protected never x \<longleftrightarrow>
     (\<exists>n \<in> set never. x = (fst (apair n), snd (apair n), assertion_id n)
        \<and> (rec_a_key n, rec_b_key n) \<in> connected (pairs (uncut es cut_protect protected)))"

definition cut_inv :: "path_edge list \<Rightarrow> f64 \<Rightarrow> string set \<Rightarrow> assertion list \<Rightarrow> cut_state \<Rightarrow> bool" where
  "cut_inv es cut_protect protected never st \<longleftrightarrow>
     live st = filter (\<lambda>e. epair e \<notin> cut_pairs st) es
     \<and> list_all (cut_sound es cut_protect protected never) (s_cuts st)
     \<and> escalated_pairs st = (\<lambda>(a, b, i). (a, b)) ` set (escalated st)
     \<and> list_all (escalation_sound es cut_protect protected never) (escalated st)"

definition cut_measure :: "path_edge list \<Rightarrow> assertion list \<Rightarrow> cut_state \<Rightarrow> nat" where
  "cut_measure es never st = card (epair ` set es - cut_pairs st) + card (apair ` set never - escalated_pairs st)"

lemma cuttable_live:
  assumes "k \<in> epair ` set (filter (\<lambda>e. epair e \<notin> X) es)"
  shows "k \<in> epair ` set es" "k \<notin> X"
    "cuttable (filter (\<lambda>e. epair e \<notin> X) es) cut_protect protected k \<longleftrightarrow> cuttable es cut_protect protected k"
    "prob (filter (\<lambda>e. epair e \<notin> X) es) k = prob es k"
proof -
  show k: "k \<in> epair ` set es" "k \<notin> X" using assms by auto
  show p: "prob (filter (\<lambda>e. epair e \<notin> X) es) k = prob es k"
    using prob_filter [of "\<lambda>k. k \<notin> X" k es] k(2) by simp
  then show "cuttable (filter (\<lambda>e. epair e \<notin> X) es) cut_protect protected k \<longleftrightarrow> cuttable es cut_protect protected k"
    by (simp add: cuttable_def)
qed


lemma cut_keeps_inv:
  assumes inv: "cut_inv es cp pr never st" and a: "a \<in> set never"
    and k: "(ea, eb) \<in> epair ` set (live st)" "cuttable (live st) cp pr (ea, eb)" "prob (live st) (ea, eb) = Some ev"
  defines "st' \<equiv> st\<lparr>s_cuts := s_cuts st @ [\<lparr>c_rec_a_key = ea, c_rec_b_key = eb, match_probability = ev,
      c_assertion_id = assertion_id a\<rparr>], live := filter (\<lambda>e. epair e \<noteq> (ea, eb)) (live st)\<rparr>"
  shows "cut_inv es cp pr never st' \<and> cut_measure es never st' < cut_measure es never st"
proof -
  have live: "live st = filter (\<lambda>e. epair e \<notin> cut_pairs st) es" using inv by (simp add: cut_inv_def)
  note K = cuttable_live [OF k(1) [unfolded live]]
  have pairs': "cut_pairs st' = insert (ea, eb) (cut_pairs st)" by (simp add: st'_def cut_pairs_def)
  have "live st' = filter (\<lambda>e. epair e \<notin> cut_pairs st') es"
    unfolding pairs' by (simp add: st'_def live) (rule filter_cong, auto)
  moreover have "cut_sound es cp pr never \<lparr>c_rec_a_key = ea, c_rec_b_key = eb, match_probability = ev, c_assertion_id = assertion_id a\<rparr>"
    using a k(2,3) K(3,4) unfolding live by (simp add: cut_sound_def)
  ultimately have "cut_inv es cp pr never st'" using inv by (simp add: cut_inv_def st'_def)
  moreover have "epair ` set es - cut_pairs st' \<subset> epair ` set es - cut_pairs st"
    using K(1,2) unfolding pairs' by auto
  then have "card (epair ` set es - cut_pairs st') < card (epair ` set es - cut_pairs st)"
    by (intro psubset_card_mono) auto
  then have "cut_measure es never st' < cut_measure es never st" by (simp add: cut_measure_def st'_def)
  ultimately show ?thesis by blast
qed

lemma escalation_keeps_inv:
  assumes inv: "cut_inv es cp pr never st" and a: "a \<in> set never"
    and w: "walk (sym_edges (pairs (live st))) (rec_a_key a) path (rec_b_key a)"
    and hops: "\<forall>k \<in> set (hops path). \<not> cuttable (live st) cp pr k"
  defines "st' \<equiv> st\<lparr>escalated := escalated st @ [(fst (apair a), snd (apair a), assertion_id a)],
      escalated_pairs := insert (apair a) (escalated_pairs st)\<rparr>"
  shows "cut_inv es cp pr never st' \<and> cut_measure es never st' \<le> cut_measure es never st
    \<and> (apair a \<notin> escalated_pairs st \<longrightarrow> cut_measure es never st' < cut_measure es never st)"
proof -
  have live: "live st = filter (\<lambda>e. epair e \<notin> cut_pairs st) es" using inv by (simp add: cut_inv_def)
  have "\<not> cuttable es cp pr k" "k \<notin> cut_pairs st" if "k \<in> set (hops path)" for k
    using cuttable_live [OF walk_hops [OF w that, unfolded live]] hops that unfolding live by auto
  then have "walk (sym_edges (pairs (filter (\<lambda>e. \<not> cuttable es cp pr (epair e)) (live st)))) (rec_a_key a) path (rec_b_key a)"
    using w by (intro walk_restrict) auto
  then have "(rec_a_key a, rec_b_key a) \<in> connected (pairs (filter (\<lambda>e. \<not> cuttable es cp pr (epair e)) (live st)))"
    by (rule walk_connected)
  moreover have "sym_edges (pairs (filter (\<lambda>e. \<not> cuttable es cp pr (epair e)) (live st))) \<subseteq> sym_edges (pairs (uncut es cp pr))"
    unfolding live uncut_def by (auto simp: sym_edges_def)
  ultimately have "(rec_a_key a, rec_b_key a) \<in> connected (pairs (uncut es cp pr))"
    using rtrancl_mono by blast
  then have "escalation_sound es cp pr never (fst (apair a), snd (apair a), assertion_id a)"
    using a by (auto simp: escalation_sound_def)
  then have "cut_inv es cp pr never st'" using inv by (auto simp: cut_inv_def st'_def cut_pairs_def)
  moreover have "apair ` set never - escalated_pairs st' = (apair ` set never - escalated_pairs st) - {apair a}"
    by (auto simp: st'_def)
  then have m: "cut_measure es never st' = card (epair ` set es - cut_pairs st) + card ((apair ` set never - escalated_pairs st) - {apair a})"
    by (simp add: cut_measure_def cut_pairs_def st'_def)
  have m0: "cut_measure es never st = card (epair ` set es - cut_pairs st) + card (apair ` set never - escalated_pairs st)"
    by (simp add: cut_measure_def)
  have "card ((apair ` set never - escalated_pairs st) - {apair a}) \<le> card (apair ` set never - escalated_pairs st)"
    by (rule card_Diff1_le)
  then have "cut_measure es never st' \<le> cut_measure es never st" using m m0 by linarith
  moreover have "cut_measure es never st' < cut_measure es never st" if "apair a \<notin> escalated_pairs st"
  proof -
    have "apair a \<in> apair ` set never - escalated_pairs st" using a that by blast
    then have "card ((apair ` set never - escalated_pairs st) - {apair a}) < card (apair ` set never - escalated_pairs st)"
      by (intro card_Diff1_less) auto
    then show ?thesis using m m0 by linarith
  qed
  ultimately show ?thesis by blast
qed

lemma cut_step_correct:
  assumes ok: "edges_ok es" "never_ok never" and inv: "cut_inv es cp pr never st" and a: "a \<in> set never"
  shows "\<exists>st' p'. cut_step cp pr a (st, p) = Ret (st', p') \<and> cut_inv es cp pr never st' \<and> (p \<longrightarrow> p')
    \<and> cut_measure es never st' \<le> cut_measure es never st
    \<and> (violating (live st) (escalated_pairs st) a \<longrightarrow> p' \<and> cut_measure es never st' < cut_measure es never st)"
proof -
  have ne: "rec_a_key a \<noteq> rec_b_key a" using ok(2) a by (auto simp: never_ok_def list_all_iff)
  have lok: "edges_ok (live st)" using ok(1) inv by (auto simp: edges_ok_def cut_inv_def list_all_iff)
  obtain r where r: "shortest_path (rec_a_key a) (rec_b_key a) (live st) = Some r"
    "case r of None \<Rightarrow> (rec_a_key a, rec_b_key a) \<notin> connected (pairs (live st))
      | Some path \<Rightarrow> best_path (sym_edges (pairs (live st))) (rec_a_key a) (rec_b_key a) path"
    using shortest_path_run [OF ne] by blast
  show ?thesis
  proof (cases r)
    case None
    then show ?thesis using r inv by (auto simp: cut_step_def violating_def)
  next
    case (Some path)
    then have w: "walk (sym_edges (pairs (live st))) (rec_a_key a) path (rec_b_key a)"
      using r(2) by (simp add: best_path_def)
    obtain c where c: "choose_cut_edge path (live st) cp pr = Ret c"
      "case c of None \<Rightarrow> \<forall>k \<in> set (hops path). \<not> cuttable (live st) cp pr k
         | Some (ea, eb, ev) \<Rightarrow> (ea, eb) \<in> set (hops path) \<and> cuttable (live st) cp pr (ea, eb) \<and> prob (live st) (ea, eb) = Some ev
           \<and> (\<forall>k \<in> set (hops path). cuttable (live st) cp pr k \<longrightarrow> edge_key (ea, eb, ev) \<le> edge_key (fst k, snd k, the (prob (live st) k)))"
      using choose_cut_edge_run [OF lok walk_distinct_adj [OF lok w]] by blast
    show ?thesis
    proof (cases c)
      case None
      then have "\<forall>k \<in> set (hops path). \<not> cuttable (live st) cp pr k" using c(2) by simp
      from escalation_keeps_inv [OF inv a w this] show ?thesis
        using r(1) Some c(1) None canon_Ret [OF ne] by (auto simp: cut_step_def violating_def)
    next
      case E: (Some e)
      obtain ea eb ev where e: "e = (ea, eb, ev)" by (metis prod_cases3)
      then have k: "(ea, eb) \<in> epair ` set (live st)" "cuttable (live st) cp pr (ea, eb)" "prob (live st) (ea, eb) = Some ev"
        using c(2) E walk_hops [OF w] by auto
      from cut_keeps_inv [OF inv a k] show ?thesis
        using r(1) Some c(1) E e retain_uncut_Ret [OF lok] by (auto simp: cut_step_def)
    qed
  qed
qed

lemma cut_round_correct:
  assumes ok: "edges_ok es" "never_ok never"
  shows "cut_inv es cp pr never st \<Longrightarrow> set vs \<subseteq> set never \<Longrightarrow>
    \<exists>st' p'. cut_round cp pr vs (st, p) = Ret (st', p') \<and> cut_inv es cp pr never st' \<and> (p \<longrightarrow> p')
      \<and> cut_measure es never st' \<le> cut_measure es never st
      \<and> (vs \<noteq> [] \<and> violating (live st) (escalated_pairs st) (hd vs) \<longrightarrow> p' \<and> cut_measure es never st' < cut_measure es never st)"
proof (induction vs arbitrary: st p)
  case (Cons a vs)
  have a: "a \<in> set never" using Cons.prems(2) by simp
  from cut_step_correct [OF ok Cons.prems(1) a, of p] obtain st1 p1 where 1: "cut_step cp pr a (st, p) = Ret (st1, p1)"
    "cut_inv es cp pr never st1" "p \<longrightarrow> p1" "cut_measure es never st1 \<le> cut_measure es never st"
    "violating (live st) (escalated_pairs st) a \<longrightarrow> p1 \<and> cut_measure es never st1 < cut_measure es never st" by blast
  from Cons.IH [OF 1(2), of p1] Cons.prems(2) obtain st' p' where "cut_round cp pr vs (st1, p1) = Ret (st', p')"
    "cut_inv es cp pr never st'" "p1 \<longrightarrow> p'" "cut_measure es never st' \<le> cut_measure es never st1" by auto
  with 1 show ?case by auto
qed simp


subsection \<open>The loop\<close>

definition residual :: "path_edge list \<Rightarrow> cut_result \<Rightarrow> path_edge list" where
  "residual es r = filter (\<lambda>e. epair e \<notin> (\<lambda>c. (c_rec_a_key c, c_rec_b_key c)) ` set (cuts r)) es"

definition escalated_in :: "cut_result \<Rightarrow> assertion \<Rightarrow> bool" where
  "escalated_in r a \<longleftrightarrow> apair a \<in> (\<lambda>(a, b, i). (a, b)) ` set (escalations r)"

definition settled_result :: "path_edge list \<Rightarrow> f64 \<Rightarrow> string set \<Rightarrow> assertion list \<Rightarrow> cut_result \<Rightarrow> bool" where
  "settled_result es cp pr never r \<longleftrightarrow>
     list_all (cut_sound es cp pr never) (cuts r) \<and> list_all (escalation_sound es cp pr never) (escalations r)
     \<and> list_all (\<lambda>a. escalated_in r a \<or> (rec_a_key a, rec_b_key a) \<notin> connected (pairs (residual es r))) never"

lemma fixpoint_loop_correct:
  assumes ok: "edges_ok es" "never_ok never"
  shows "cut_inv es cp pr never st \<Longrightarrow>
    \<exists>res. fixpoint_loop cp pr never nodes max_it st iters = Ret res
      \<and> (case res of Inr r \<Rightarrow> settled_result es cp pr never r \<and> iterations r \<le> iters + cut_measure es never st
         | Inl e \<Rightarrow> (\<exists>k. e = NonConvergence max_it k) \<and> max_it < iters + cut_measure es never st)"
proof (induction "max_it - iters" arbitrary: st iters rule: less_induct)
  case less
  note inv = less.prems
  obtain c where c: "components (live st) nodes = Some c"
    "\<forall>x. map_of c x = None \<longleftrightarrow> x \<notin> universe nodes (pairs (live st))"
    "\<forall>x \<in> universe nodes (pairs (live st)). \<forall>y \<in> universe nodes (pairs (live st)).
       map_of c x = map_of c y \<longleftrightarrow> (x, y) \<in> connected (pairs (live st))"
    using components_correct [of "live st" nodes] by blast
  let ?vs = "filter (violating (live st) (escalated_pairs st)) never"
  have viol: "violations c (escalated_pairs st) never = Ret ?vs"
    using violations_correct [OF _ _ ok(2), of c nodes "live st"] c(2,3) by blast
  have live: "live st = filter (\<lambda>e. epair e \<notin> cut_pairs st) es" using inv by (simp add: cut_inv_def)
  show ?case
  proof (cases "?vs = []")
    case True
    let ?r = "\<lparr>cuts = s_cuts st, escalations = escalated st, iterations = iters\<rparr>"
    have run: "fixpoint_loop cp pr never nodes max_it st iters = Ret (Inr ?r)"
      using c(1) viol True by (subst fixpoint_loop.simps) simp
    have res: "residual es ?r = live st" using live by (simp add: residual_def cut_pairs_def)
    have esc: "escalated_in ?r a \<longleftrightarrow> apair a \<in> escalated_pairs st" for a
      using inv by (simp add: escalated_in_def cut_inv_def)
    have "list_all (\<lambda>a. escalated_in ?r a \<or> (rec_a_key a, rec_b_key a) \<notin> connected (pairs (residual es ?r))) never"
      using True by (auto simp: res esc filter_empty_conv violating_def list_all_iff)
    then show ?thesis using run inv by (simp add: settled_result_def cut_inv_def)
  next
    case False
    then obtain v where v: "v \<in> set never" "violating (live st) (escalated_pairs st) v" by (auto simp: filter_empty_conv)
    have hd_v: "violating (live st) (escalated_pairs st) (hd ?vs)"
      using hd_in_set [OF False] by simp
    from cut_round_correct [OF ok inv, of ?vs False] False hd_v obtain st' where st':
      "cut_round cp pr ?vs (st, False) = Ret (st', True)" "cut_inv es cp pr never st'"
      "cut_measure es never st' < cut_measure es never st" by fastforce
    show ?thesis
    proof (cases "iters \<ge> max_it")
      case True
      then have "fixpoint_loop cp pr never nodes max_it st iters = Ret (Inl (NonConvergence max_it (length ?vs)))"
        using c(1) viol False by (subst fixpoint_loop.simps) simp
      then show ?thesis using True st'(3) by auto
    next
      case more: False
      then have "max_it - (iters + 1) < max_it - iters" by simp
      from less.hyps [OF this st'(2)] obtain res where res:
        "fixpoint_loop cp pr never nodes max_it st' (iters + 1) = Ret res"
        "case res of Inr r \<Rightarrow> settled_result es cp pr never r \<and> iterations r \<le> (iters + 1) + cut_measure es never st'
         | Inl e \<Rightarrow> (\<exists>k. e = NonConvergence max_it k) \<and> max_it < (iters + 1) + cut_measure es never st'" by blast
      have "fixpoint_loop cp pr never nodes max_it st iters = Ret res"
        using c(1) viol False more st'(1) res(1) by (subst fixpoint_loop.simps) simp
      then show ?thesis using res(2) st'(3) by (auto split: sum.splits)
    qed
  qed
qed

lemma never_cut_run:
  assumes ok: "edges_ok es" "never_ok (never_of as)"
  shows "\<exists>res. never_cut_fixpoint es as nodes cp pr max_it = Ret res
      \<and> (case res of Inr r \<Rightarrow> settled_result es cp pr (never_of as) r
                           \<and> iterations r \<le> card (epair ` set es) + card (apair ` set (never_of as))
         | Inl e \<Rightarrow> (\<exists>k. e = NonConvergence max_it k) \<and> max_it < card (epair ` set es) + card (apair ` set (never_of as)))"
proof (cases "never_of as = []")
  case True
  then show ?thesis by (simp add: never_cut_fixpoint_def settled_result_def)
next
  case False
  let ?st = "\<lparr>live = es, s_cuts = [], escalated = [], escalated_pairs = {}\<rparr>"
  have inv: "cut_inv es cp pr (never_of as) ?st" by (simp add: cut_inv_def cut_pairs_def)
  have m: "cut_measure es (never_of as) ?st = card (epair ` set es) + card (apair ` set (never_of as))"
    by (simp add: cut_measure_def cut_pairs_def)
  from fixpoint_loop_correct [OF ok inv, of "node_ids nodes (pairs es)" max_it 0] False show ?thesis
    unfolding m add_0 by (simp only: never_cut_fixpoint_def Let_def if_False)
qed

text \<open>A settled result escalates exactly the pairs the uncuttable edges join.\<close>

lemma settled_exact:
  assumes "settled_result es cp pr never r" "a \<in> set never"
  shows "escalated_in r a \<longleftrightarrow> (rec_a_key a, rec_b_key a) \<in> connected (pairs (uncut es cp pr))"
    and "\<not> escalated_in r a \<Longrightarrow> (rec_a_key a, rec_b_key a) \<notin> connected (pairs (residual es r))"
proof -
  have "sym_edges (pairs (uncut es cp pr)) \<subseteq> sym_edges (pairs (residual es r))"
  proof (clarify)
    fix x y assume "(x, y) \<in> sym_edges (pairs (uncut es cp pr))"
    then have xy: "(x, y) \<in> sym_edges (pairs es)" "\<not> cuttable es cp pr (cpair x y)"
      unfolding uncut_def using sym_edges_filter [of x y "\<lambda>k. \<not> cuttable es cp pr k" es] by blast+
    then have "cpair x y \<notin> (\<lambda>c. (c_rec_a_key c, c_rec_b_key c)) ` set (cuts r)"
      using assms(1) by (auto simp: settled_result_def list_all_iff cut_sound_def)
    then show "(x, y) \<in> sym_edges (pairs (residual es r))"
      unfolding residual_def using xy(1) sym_edges_filter [of x y "\<lambda>k. k \<notin> (\<lambda>c. (c_rec_a_key c, c_rec_b_key c)) ` set (cuts r)" es] by blast
  qed
  then have keep: "connected (pairs (uncut es cp pr)) \<subseteq> connected (pairs (residual es r))" by (rule rtrancl_mono)
  have sep: "escalated_in r a \<or> (rec_a_key a, rec_b_key a) \<notin> connected (pairs (residual es r))"
    using assms by (auto simp: settled_result_def list_all_iff)
  then show "\<not> escalated_in r a \<Longrightarrow> (rec_a_key a, rec_b_key a) \<notin> connected (pairs (residual es r))" by blast
  have "(rec_a_key a, rec_b_key a) \<in> connected (pairs (uncut es cp pr))" if esc: "escalated_in r a"
  proof -
    obtain i where "(fst (apair a), snd (apair a), i) \<in> set (escalations r)" 
      using esc by (force simp: escalated_in_def)
    then have "escalation_sound es cp pr never (fst (apair a), snd (apair a), i)"
      using assms(1) by (simp add: settled_result_def list_all_iff)
    then obtain n where n: "(fst (apair a), snd (apair a), i) = (fst (apair n), snd (apair n), assertion_id n)"
      "(rec_a_key n, rec_b_key n) \<in> connected (pairs (uncut es cp pr))" unfolding escalation_sound_def by blast
    then have "apair n = apair a" by (simp add: prod_eq_iff)
    then show ?thesis using n(2) connected_sym by (auto simp: cpair_eq)
  qed
  then show "escalated_in r a \<longleftrightarrow> (rec_a_key a, rec_b_key a) \<in> connected (pairs (uncut es cp pr))"
    using sep keep by blast
qed


subsection \<open>Properties\<close>

text \<open>The choice of the cut. On a path without repeated neighbours and edges between distinct
  records the choice never panics (the \<open>expect("finite probabilities")\<close> cannot fail, even with
  not-a-number scores); it returns nothing exactly when no hop may be cut, and otherwise a hop that
  may be cut and is least by probability, then by the two keys.\<close>

lemma choose_cut_edge_least:
  assumes "edges_ok es" "distinct_adj path"
  shows "\<exists>r. choose_cut_edge path es cut_protect protected = Ret r
    \<and> (r = None \<longleftrightarrow> (\<forall>k \<in> set (hops path). \<not> cuttable es cut_protect protected k))
    \<and> (\<forall>a b v. r = Some (a, b, v) \<longrightarrow> (a, b) \<in> set (hops path) \<and> cuttable es cut_protect protected (a, b)
         \<and> prob es (a, b) = Some v
         \<and> (\<forall>k \<in> set (hops path). cuttable es cut_protect protected k \<longrightarrow>
              edge_key (a, b, v) \<le> edge_key (fst k, snd k, the (prob es k))))"
proof -
  obtain r where r: "choose_cut_edge path es cut_protect protected = Ret r"
    "case r of
         None \<Rightarrow> \<forall>k \<in> set (hops path). \<not> cuttable es cut_protect protected k
       | Some (a, b, v) \<Rightarrow> (a, b) \<in> set (hops path) \<and> cuttable es cut_protect protected (a, b) \<and> prob es (a, b) = Some v
           \<and> (\<forall>k \<in> set (hops path). cuttable es cut_protect protected k \<longrightarrow>
                edge_key (a, b, v) \<le> edge_key (fst k, snd k, the (prob es k)))"
    using choose_cut_edge_run [OF assms] by blast
  show ?thesis
  proof (cases r)
    case None
    then show ?thesis using r by auto
  next
    case (Some e)
    obtain a b v where "e = (a, b, v)" by (metis prod_cases3)
    then show ?thesis using r Some by auto
  qed
qed

lemma choose_cut_edge_least_witness:
  "\<exists>r. choose_cut_edge [''a'', ''b'', ''c''] [(''a'', ''b'', Finite 2), (''c'', ''b'', Finite 1)] (Finite 3) {} = Ret r
    \<and> r \<noteq> None"
proof -
  let ?es = "[(''a'', ''b'', Finite 2), (''c'', ''b'', Finite 1)]" and ?p = "[''a'', ''b'', ''c'']"
  have "edges_ok ?es" "distinct_adj ?p" by (simp_all add: edges_ok_def)
  from choose_cut_edge_least [OF this, of "Finite 3" "{}"] show ?thesis
    by (auto simp: hops_def cuttable_def prob_def cpair_def)
qed

text \<open>C31: the fixpoint settles the graph. With edges and active \<open>never\<close> pairs between distinct
  records, whenever the loop returns a result, every active \<open>never\<close> pair is either escalated or no
  longer connected by the edges that remain; it is escalated exactly when edges that may not be cut
  connect it. Every cut is an input edge below the protection threshold with no protected endpoint,
  recorded with its probability.\<close>

theorem never_cut_settles:
  assumes "edges_ok es" "never_ok (never_of as)"
    and "never_cut_fixpoint es as nodes cut_protect protected max_it = Ret (Inr r)"
  shows "list_all (\<lambda>a. (escalated_in r a \<longleftrightarrow> (rec_a_key a, rec_b_key a) \<in> connected (pairs (uncut es cut_protect protected)))
        \<and> (escalated_in r a \<or> (rec_a_key a, rec_b_key a) \<notin> connected (pairs (residual es r)))) (never_of as)
    \<and> list_all (cut_sound es cut_protect protected (never_of as)) (cuts r)"
proof -
  have "settled_result es cut_protect protected (never_of as) r"
    using never_cut_run [OF assms(1,2), of nodes cut_protect protected max_it] assms(3) by auto
  note S = this
  have "(escalated_in r a \<longleftrightarrow> (rec_a_key a, rec_b_key a) \<in> connected (pairs (uncut es cut_protect protected)))
        \<and> (escalated_in r a \<or> (rec_a_key a, rec_b_key a) \<notin> connected (pairs (residual es r)))"
    if "a \<in> set (never_of as)" for a using settled_exact [OF S that] by blast
  moreover have "list_all (cut_sound es cut_protect protected (never_of as)) (cuts r)"
    using S unfolding settled_result_def by blast
  ultimately show ?thesis unfolding list_all_iff by blast
qed

theorem never_cut_settles_witness:
  "\<exists>r. never_cut_fixpoint [(''a'', ''b'', Finite 1), (''b'', ''c'', Finite 9)] [sample_assertion ''n'' ''a'' ''c'' Never] []
       (Finite 5) {} 4 = Ret (Inr r) \<and> \<not> escalated_in r (sample_assertion ''n'' ''a'' ''c'' Never)
     \<and> (''a'', ''c'') \<notin> connected (pairs (residual [(''a'', ''b'', Finite 1), (''b'', ''c'', Finite 9)] r))"
proof -
  let ?es = "[(''a'', ''b'', Finite 1), (''b'', ''c'', Finite 9)]" and ?n = "sample_assertion ''n'' ''a'' ''c'' Never"
  have ok: "edges_ok ?es" "never_ok (never_of [?n])"
    by (simp_all add: edges_ok_def never_ok_def never_of_def sample_assertion_def)
  have run: "never_cut_fixpoint ?es [?n] [] (Finite 5) {} 4 =
    Ret (Inr \<lparr>cuts = [\<lparr>c_rec_a_key = ''a'', c_rec_b_key = ''b'', match_probability = Finite 1, c_assertion_id = ''n''\<rparr>],
       escalations = [], iterations = 1\<rparr>)" by code_simp
  have n: "?n \<in> set (never_of [?n])" by (simp add: never_of_def sample_assertion_def)
  have "\<not> escalated_in \<lparr>cuts = [\<lparr>c_rec_a_key = ''a'', c_rec_b_key = ''b'', match_probability = Finite 1, c_assertion_id = ''n''\<rparr>],
       escalations = [], iterations = 1\<rparr> ?n" by (simp add: escalated_in_def)
  with never_cut_settles [OF ok run] n run show ?thesis
    by (auto simp: list_all_iff sample_assertion_def)
qed

text \<open>C37: the loop always ends well when it is given enough rounds: as many as there are distinct edge
  pairs and distinct active \<open>never\<close> pairs. It then returns a result within that many rounds; it
  never panics and never reports that it made no progress.\<close>

theorem never_cut_converges:
  assumes "edges_ok es" "never_ok (never_of as)"
    and "card (epair ` set es) + card (apair ` set (never_of as)) \<le> max_it"
  shows "\<exists>r. never_cut_fixpoint es as nodes cut_protect protected max_it = Ret (Inr r) \<and> iterations r \<le> max_it"
proof -
  obtain res where res: "never_cut_fixpoint es as nodes cut_protect protected max_it = Ret res"
    "case res of Inr r \<Rightarrow> settled_result es cut_protect protected (never_of as) r
          \<and> iterations r \<le> card (epair ` set es) + card (apair ` set (never_of as))
     | Inl e \<Rightarrow> (\<exists>k. e = NonConvergence max_it k) \<and> max_it < card (epair ` set es) + card (apair ` set (never_of as))"
    using never_cut_run [OF assms(1,2)] by blast
  then show ?thesis using assms(3) by (cases res) auto
qed

theorem never_cut_converges_witness:
  "\<exists>r. never_cut_fixpoint [(''a'', ''b'', NaN)] [sample_assertion ''n'' ''b'' ''a'' Never] [] (Finite 5) {} 2 = Ret (Inr r)
     \<and> iterations r \<le> 2"
  by (rule never_cut_converges)
    (simp_all add: edges_ok_def never_ok_def never_of_def sample_assertion_def)

text \<open>The only failure the loop reports is that the rounds ran out, and only when fewer rounds were
  allowed than there are edges and \<open>never\<close> pairs to settle.\<close>

lemma never_cut_failure:
  assumes "edges_ok es" "never_ok (never_of as)"
    and "never_cut_fixpoint es as nodes cut_protect protected max_it = Ret (Inl e)"
  shows "\<exists>k. e = NonConvergence max_it k \<and> max_it < card (epair ` set es) + card (apair ` set (never_of as))"
  using never_cut_run [OF assms(1,2), of nodes cut_protect protected max_it] assms(3) by auto

lemma never_cut_failure_witness:
  "never_cut_fixpoint [(''a'', ''b'', Finite 1)] [sample_assertion ''n'' ''a'' ''b'' Never] [] (Finite 5) {} 0
     = Ret (Inl (NonConvergence 0 1))
   \<and> (\<exists>k. NonConvergence 0 1 = NonConvergence 0 k)"
proof -
  have ok: "edges_ok [(''a'', ''b'', Finite 1)]" "never_ok (never_of [sample_assertion ''n'' ''a'' ''b'' Never])"
    by (simp_all add: edges_ok_def never_ok_def never_of_def sample_assertion_def)
  have run: "never_cut_fixpoint [(''a'', ''b'', Finite 1)] [sample_assertion ''n'' ''a'' ''b'' Never] [] (Finite 5) {} 0
     = Ret (Inl (NonConvergence 0 1))" by code_simp
  with never_cut_failure [OF ok run] show ?thesis by blast
qed

end
