(* ===== verification/Reconcile.thy ===== *)
theory Reconcile
  imports Ids Json
begin

text \<open>
  \<^verbatim>\<open>er-reconcile/src/reconcile.rs\<close>: the offer/acceptance plan that carries persistent entity ids
  from one clustering to the next. Ordered sets and maps are ascending lists; filtering or mapping
  the values of an ordered map keeps its order. The id factory is the function \<open>new_id\<close> with its
  state; SHA-256 and the text encoding of \<open>serde_json\<close> are the parameters \<open>sha256\<close> and
  \<open>to_text\<close>. A missing key or a failed \<open>expect\<close> is \<open>Panic\<close>.
\<close>

subsection \<open>Rows\<close>

definition ACTIVE :: string where "ACTIVE = ''active''"
definition MERGED :: string where "MERGED = ''merged''"
definition RETIRED :: string where "RETIRED = ''retired''"
definition CREATED :: string where "CREATED = ''created''"
definition MEMBER_ADDED :: string where "MEMBER_ADDED = ''member_added''"
definition MEMBER_REMOVED :: string where "MEMBER_REMOVED = ''member_removed''"
definition SPLIT :: string where "SPLIT = ''split''"
definition RECLUSTER :: string where "RECLUSTER = ''recluster''"

lemmas event_names = ACTIVE_def MERGED_def RETIRED_def CREATED_def MEMBER_ADDED_def MEMBER_REMOVED_def
  SPLIT_def RECLUSTER_def

definition PLANNED_EVENT_ORDER :: "string list" where
  "PLANNED_EVENT_ORDER = [CREATED, MEMBER_ADDED, MEMBER_REMOVED, MERGED, SPLIT, RETIRED]"

fun position_of :: "'a \<Rightarrow> 'a list \<Rightarrow> nat option" where
  "position_of x [] = None"
| "position_of x (y # ys) = (if y = x then Some 0 else map_option Suc (position_of x ys))"

definition event_rank :: "string \<Rightarrow> nat option" where
  "event_rank event_type = position_of event_type PLANNED_EVENT_ORDER"

record planned_event =
  ev_entity_id :: string
  ev_event_type :: string
  ev_details :: json
  ev_details_hash :: string

record membership_assignment =
  as_record_key :: string
  as_entity_id :: string

record entity_transition =
  tr_entity_id :: string
  tr_status :: string
  tr_merged_into :: "string option"
  tr_is_new :: bool

record reconcile_plan_rows =
  assignments :: "membership_assignment list"
  transitions :: "entity_transition list"
  events :: "planned_event list"
  minted :: "string list"

definition plan_is_empty :: "reconcile_plan_rows \<Rightarrow> bool" where
  "plan_is_empty p \<longleftrightarrow> assignments p = [] \<and> transitions p = [] \<and> events p = []"

definition details_hash :: "(json \<Rightarrow> string) \<Rightarrow> (string \<Rightarrow> nat list) \<Rightarrow> json \<Rightarrow> string" where
  "details_hash to_text sha256 details = hex_bytes (sha256 (to_text details))"

definition planned_event_new :: "(json \<Rightarrow> string) \<Rightarrow> (string \<Rightarrow> nat list) \<Rightarrow> string \<Rightarrow> string \<Rightarrow> json \<Rightarrow> planned_event" where
  "planned_event_new to_text sha256 entity_id event_type details =
     \<lparr>ev_entity_id = entity_id, ev_event_type = event_type, ev_details = details,
      ev_details_hash = details_hash to_text sha256 details\<rparr>"

text \<open>A comparison is made as soon as there are two events, and it looks at every element.\<close>

definition sort_planned_events :: "planned_event list \<Rightarrow> planned_event list outcome" where
  "sort_planned_events evs =
     (if length evs \<ge> 2 \<and> list_ex (\<lambda>e. event_rank (ev_event_type e) = None) evs then Panic
      else Ret (sort_key (\<lambda>e. (the (event_rank (ev_event_type e)), ev_entity_id e, ev_details_hash e)) evs))"

subsection \<open>Overlaps\<close>

type_synonym members = "string list"
type_synonym overlap_cells = "(string, members) bmap"

definition canonical_old :: "(string, string list) bmap \<Rightarrow> (string, members) bmap" where
  "canonical_old p_old = map (\<lambda>(e, ms). (e, bset_of ms)) p_old"

fun canonical_groups :: "string list list \<Rightarrow> (string, members) bmap \<Rightarrow> (string, members) bmap outcome" where
  "canonical_groups [] groups = Ret groups"
| "canonical_groups (g # gs) groups =
     (case bset_of g of
        [] \<Rightarrow> Panic
      | key # rest \<Rightarrow> canonical_groups gs (bmap_insert key (key # rest) groups))"

definition overlap :: "members \<Rightarrow> members \<Rightarrow> members" where
  "overlap members entity_members = filter (\<lambda>m. m \<in> set entity_members) members"

definition overlap_row :: "(string, members) bmap \<Rightarrow> members \<Rightarrow> overlap_cells" where
  "overlap_row old members =
     filter (\<lambda>(e, ov). ov \<noteq> []) (map (\<lambda>(e, em). (e, overlap members em)) old)"

definition overlap_matrix :: "(string, members) bmap \<Rightarrow> (string, members) bmap \<Rightarrow> (string, overlap_cells) bmap" where
  "overlap_matrix old groups = map (\<lambda>(key, members). (key, overlap_row old members)) groups"

subsection \<open>Offers and acceptances\<close>

definition fragment_rank :: "members \<Rightarrow> (int \<times> string) option" where
  "fragment_rank ms = (case ms of [] \<Rightarrow> None | m # rest \<Rightarrow> Some (- int (length ms), m))"

fun min_by_rank :: "('a \<Rightarrow> (int \<times> string) option) \<Rightarrow> 'a \<Rightarrow> 'a list \<Rightarrow> 'a outcome" where
  "min_by_rank rank x [] = Ret x"
| "min_by_rank rank x (y # ys) =
     (case (rank x, rank y) of
        (Some rx, Some ry) \<Rightarrow> if ry < rx then min_by_rank rank y ys else min_by_rank rank x ys
      | _ \<Rightarrow> Panic)"

definition add_fragment :: "string \<Rightarrow> string \<Rightarrow> members \<Rightarrow> (string, overlap_cells) bmap \<Rightarrow> (string, overlap_cells) bmap" where
  "add_fragment key e ov fr = bmap_insert e (bmap_insert key ov (or_default (map_of fr e))) fr"

definition fragments_of :: "(string, overlap_cells) bmap \<Rightarrow> (string, overlap_cells) bmap" where
  "fragments_of matrix = fold (\<lambda>(key, cells). fold (\<lambda>(e, ov). add_fragment key e ov) cells) matrix []"

fun offers_of :: "(string, overlap_cells) bmap \<Rightarrow> (string, string) bmap outcome" where
  "offers_of [] = Ret []"
| "offers_of ((e, by_group) # rest) =
     (case by_group of
        [] \<Rightarrow> Panic
      | g # gs \<Rightarrow>
          bind_outcome (min_by_rank (\<lambda>(k, ov). fragment_rank ov) g gs) (\<lambda>best.
            bind_outcome (offers_of rest) (\<lambda>os. Ret ((e, fst best) # os))))"

definition offered_of :: "(string, string) bmap \<Rightarrow> (string, string list) bmap" where
  "offered_of offers = fold (\<lambda>(e, key) m. bmap_insert key (or_default (map_of m key) @ [e]) m) offers []"

definition cell_of :: "(string, overlap_cells) bmap \<Rightarrow> string \<Rightarrow> string \<Rightarrow> members option" where
  "cell_of matrix key e = Option.bind (map_of matrix key) (\<lambda>cells. map_of cells e)"

fun accepted_of :: "(string, overlap_cells) bmap \<Rightarrow> (string, string list) bmap \<Rightarrow> (string, string) bmap outcome" where
  "accepted_of matrix [] = Ret []"
| "accepted_of matrix ((key, candidates) # rest) =
     (case candidates of
        [] \<Rightarrow> Panic
      | c # cs \<Rightarrow>
          bind_outcome (min_by_rank (\<lambda>e. Option.bind (cell_of matrix key e) fragment_rank) c cs) (\<lambda>winner.
            bind_outcome (accepted_of matrix rest) (\<lambda>as. Ret ((key, winner) # as))))"

subsection \<open>Minting\<close>

definition entity_of_record_map :: "(string, members) bmap \<Rightarrow> (string, string) bmap" where
  "entity_of_record_map old = fold (\<lambda>(e, ms). fold (\<lambda>m. bmap_insert m e) ms) old []"

definition clustered_set :: "(string, members) bmap \<Rightarrow> string set" where
  "clustered_set groups = (\<Union>(k, ms) \<in> set groups. set ms)"

definition orphans_of :: "(string, string) bmap \<Rightarrow> (string, members) bmap \<Rightarrow> string list" where
  "orphans_of entity_of_record groups = filter (\<lambda>m. m \<notin> clustered_set groups) (bmap_keys entity_of_record)"

definition mint_keys_of :: "(string, members) bmap \<Rightarrow> (string, string) bmap \<Rightarrow> string list \<Rightarrow> string list" where
  "mint_keys_of groups accepted orphans =
     sort (filter (\<lambda>k. map_of accepted k = None) (bmap_keys groups) @ orphans)"

subsection \<open>The rows of one group, one prior entity, one orphan\<close>

type_synonym rows = "membership_assignment list \<times> entity_transition list \<times> planned_event list"

definition keys_json :: "string list \<Rightarrow> json" where
  "keys_json ks = JArr (map JStr ks)"

definition group_entity :: "(string, string) bmap \<Rightarrow> (string, string) bmap \<Rightarrow> string \<Rightarrow> string option" where
  "group_entity accepted minted_ids key =
     (case map_of accepted key of Some e \<Rightarrow> Some e | None \<Rightarrow> map_of minted_ids key)"

definition group_assignments :: "(string, string) bmap \<Rightarrow> string \<Rightarrow> members \<Rightarrow> membership_assignment list" where
  "group_assignments entity_of_record entity_id members =
     map (\<lambda>m. \<lparr>as_record_key = m, as_entity_id = entity_id\<rparr>)
       (filter (\<lambda>m. map_of entity_of_record m \<noteq> Some entity_id) members)"

definition split_events :: "(string \<Rightarrow> string \<Rightarrow> json \<Rightarrow> planned_event) \<Rightarrow> (string, string) bmap \<Rightarrow> string \<Rightarrow> string \<Rightarrow> overlap_cells \<Rightarrow> planned_event list" where
  "split_events mk offers key entity_id cells =
     map (\<lambda>(e, ov). mk entity_id SPLIT (json_object [(''member_keys'', keys_json ov), (''split_from'', JStr e)]))
       (filter (\<lambda>(e, ov). map_of offers e \<noteq> Some key) cells)"

definition kept_rows :: "(string \<Rightarrow> string \<Rightarrow> json \<Rightarrow> planned_event) \<Rightarrow> (string, string) bmap \<Rightarrow> string \<Rightarrow> members \<Rightarrow> members
    \<Rightarrow> entity_transition list \<times> planned_event list" where
  "kept_rows mk entity_of_record entity_id old_members members =
     (let joined = filter (\<lambda>m. map_of entity_of_record m = None) members;
          left = filter (\<lambda>m. m \<notin> set members) old_members in
      (if old_members \<noteq> members
       then [\<lparr>tr_entity_id = entity_id, tr_status = ACTIVE, tr_merged_into = None, tr_is_new = False\<rparr>] else [],
       (if joined \<noteq> [] then [mk entity_id MEMBER_ADDED (json_object [(''member_keys'', keys_json joined)])] else [])
       @ (if left \<noteq> [] then [mk entity_id MEMBER_REMOVED
            (json_object [(''member_keys'', keys_json left), (''cause'', JStr RECLUSTER)])] else [])))"

definition group_rows :: "(string \<Rightarrow> string \<Rightarrow> json \<Rightarrow> planned_event) \<Rightarrow> (string, members) bmap \<Rightarrow> (string, overlap_cells) bmap
    \<Rightarrow> (string, string) bmap \<Rightarrow> (string, string) bmap \<Rightarrow> (string, string) bmap \<Rightarrow> (string, string) bmap
    \<Rightarrow> string \<Rightarrow> members \<Rightarrow> rows outcome" where
  "group_rows mk old matrix offers accepted entity_of_record minted_ids key members =
     bind_outcome (outcome_of_option (group_entity accepted minted_ids key)) (\<lambda>entity_id.
     bind_outcome
       (case map_of accepted key of
          None \<Rightarrow> Ret ([\<lparr>tr_entity_id = entity_id, tr_status = ACTIVE, tr_merged_into = None, tr_is_new = True\<rparr>],
                       [mk entity_id CREATED (json_object [(''member_keys'', keys_json members)])])
        | Some kept \<Rightarrow>
            bind_outcome (outcome_of_option (map_of old kept)) (\<lambda>old_members.
              Ret (kept_rows mk entity_of_record entity_id old_members members))) (\<lambda>(trs, evs).
     bind_outcome (outcome_of_option (map_of matrix key)) (\<lambda>cells.
       Ret (group_assignments entity_of_record entity_id members, trs,
            evs @ split_events mk offers key entity_id cells))))"

definition entity_rows :: "(string \<Rightarrow> string \<Rightarrow> json \<Rightarrow> planned_event) \<Rightarrow> (string, overlap_cells) bmap
    \<Rightarrow> (string, string) bmap \<Rightarrow> (string, string) bmap \<Rightarrow> string \<Rightarrow> members \<Rightarrow> rows outcome" where
  "entity_rows mk matrix offers accepted entity_id old_members =
     (case map_of offers entity_id of
        None \<Rightarrow> Ret ([],
          [\<lparr>tr_entity_id = entity_id, tr_status = RETIRED, tr_merged_into = None, tr_is_new = False\<rparr>],
          [mk entity_id RETIRED (json_object [(''member_keys'', keys_json old_members)])])
      | Some offered_to \<Rightarrow>
          bind_outcome (outcome_of_option (map_of accepted offered_to)) (\<lambda>claimant.
            if claimant = entity_id then Ret ([], [], [])
            else bind_outcome (outcome_of_option (cell_of matrix offered_to entity_id)) (\<lambda>ov.
              Ret ([],
                [\<lparr>tr_entity_id = entity_id, tr_status = MERGED, tr_merged_into = Some claimant, tr_is_new = False\<rparr>],
                [mk entity_id MERGED (json_object [(''member_keys'', keys_json ov), (''merged_into'', JStr claimant)])]))))"

definition orphan_rows :: "(string \<Rightarrow> string \<Rightarrow> json \<Rightarrow> planned_event) \<Rightarrow> (string, string) bmap \<Rightarrow> string \<Rightarrow> rows outcome" where
  "orphan_rows mk minted_ids orphan =
     bind_outcome (outcome_of_option (map_of minted_ids orphan)) (\<lambda>entity_id.
       Ret ([\<lparr>as_record_key = orphan, as_entity_id = entity_id\<rparr>],
         [\<lparr>tr_entity_id = entity_id, tr_status = ACTIVE, tr_merged_into = None, tr_is_new = True\<rparr>],
         [mk entity_id CREATED (json_object [(''member_keys'', keys_json [orphan])])]))"

fun collect_rows :: "('x \<Rightarrow> rows outcome) \<Rightarrow> 'x list \<Rightarrow> rows outcome" where
  "collect_rows f [] = Ret ([], [], [])"
| "collect_rows f (x # xs) =
     bind_outcome (f x) (\<lambda>(a, t, e).
       bind_outcome (collect_rows f xs) (\<lambda>(a', t', e'). Ret (a @ a', t @ t', e @ e')))"

subsection \<open>The plan\<close>

definition reconcile_plan :: "(json \<Rightarrow> string) \<Rightarrow> (string \<Rightarrow> nat list) \<Rightarrow> ('f \<Rightarrow> (string \<times> 'f) outcome)
    \<Rightarrow> (string, string list) bmap \<Rightarrow> string list list \<Rightarrow> 'f \<Rightarrow> (reconcile_plan_rows \<times> 'f) outcome" where
  "reconcile_plan to_text sha256 new_id p_old p_new factory =
     (let mk = planned_event_new to_text sha256; old = canonical_old p_old in
      bind_outcome (canonical_groups p_new []) (\<lambda>groups.
      let matrix = overlap_matrix old groups in
      bind_outcome (offers_of (fragments_of matrix)) (\<lambda>offers.
      bind_outcome (accepted_of matrix (offered_of offers)) (\<lambda>accepted.
      let entity_of_record = entity_of_record_map old;
          orphans = orphans_of entity_of_record groups;
          mint_keys = mint_keys_of groups accepted orphans in
      bind_outcome (mint_ids new_id (length mint_keys) factory) (\<lambda>(ids, factory').
      let minted_ids = bmap_collect (zip mint_keys ids) in
      bind_outcome (collect_rows (\<lambda>(key, members).
          group_rows mk old matrix offers accepted entity_of_record minted_ids key members) groups) (\<lambda>(a1, t1, e1).
      bind_outcome (collect_rows (\<lambda>(e, ms). entity_rows mk matrix offers accepted e ms) old) (\<lambda>(a2, t2, e2).
      bind_outcome (collect_rows (orphan_rows mk minted_ids) orphans) (\<lambda>(a3, t3, e3).
      bind_outcome (sort_planned_events (e1 @ e2 @ e3)) (\<lambda>evs.
        Ret (\<lparr>assignments = sort_key as_record_key (a1 @ a2 @ a3),
              transitions = sort_key tr_entity_id (t1 @ t2 @ t3),
              events = evs,
              minted = map (\<lambda>k. the (map_of minted_ids k)) mint_keys\<rparr>, factory'))))))))))"


subsection \<open>Well-formed partitions\<close>

definition old_ok :: "(string, string list) bmap \<Rightarrow> bool" where
  "old_ok p_old \<longleftrightarrow> bmap_ok p_old \<and> pairwise (\<lambda>x y. set (snd x) \<inter> set (snd y) = {}) (set p_old)"

definition new_ok :: "string list list \<Rightarrow> bool" where
  "new_ok p_new \<longleftrightarrow> list_all (\<lambda>g. g \<noteq> []) p_new \<and> sorted_wrt (\<lambda>g h. set g \<inter> set h = {}) p_new"

definition group_kv :: "string list \<Rightarrow> string \<times> members" where
  "group_kv g = (hd (bset_of g), bset_of g)"

lemma bmap_insert_nonempty [simp]: "bmap_insert k v m \<noteq> []"
  by (cases "(k, v, m)" rule: bmap_insert.cases) auto

lemma bmap_ok_distinct: "bmap_ok m \<Longrightarrow> distinct (bmap_keys m)"
  by (simp add: bmap_ok_def strict_sorted_iff)

lemma map_of_filter_distinct:
  "distinct (bmap_keys xs) \<Longrightarrow>
   map_of (filter keep xs) k = Option.bind (map_of xs k) (\<lambda>v. if keep (k, v) then Some v else None)"
proof (induction xs)
  case (Cons x xs)
  obtain k' v where x: "x = (k', v)" by fastforce
  have "map_of xs k' = None" using Cons.prems x by (simp add: map_of_eq_None_iff)
  with Cons x show ?case by auto
qed simp

lemma canonical_groups_run:
  "list_all (\<lambda>g. g \<noteq> []) gs \<Longrightarrow> canonical_groups gs acc = Ret (fold (\<lambda>(k, v). bmap_insert k v) (map group_kv gs) acc)"
proof (induction gs arbitrary: acc)
  case (Cons g gs)
  then have "bset_of g \<noteq> []" by simp
  then obtain k rest where "bset_of g = k # rest" by (cases "bset_of g") auto
  then show ?case using Cons by (simp add: group_kv_def)
qed simp

lemma group_keys_distinct: "new_ok p_new \<Longrightarrow> distinct (map fst (map group_kv p_new))"
proof (induction p_new)
  case (Cons g gs)
  have "fst (group_kv g) \<noteq> fst (group_kv h)" if "h \<in> set gs" for h
  proof -
    have "g \<noteq> []" "h \<noteq> []" "set g \<inter> set h = {}" using Cons.prems that by (auto simp: new_ok_def list_all_iff)
    moreover have "hd (bset_of x) \<in> set x" if "x \<noteq> []" for x :: "string list"
      using that hd_in_set [of "bset_of x"] by simp
    ultimately have "hd (bset_of g) \<in> set g" "hd (bset_of h) \<notin> set g" by blast+
    then show ?thesis unfolding group_kv_def by auto
  qed
  then show ?case using Cons by (force simp: new_ok_def)
qed simp

definition groups_of :: "string list list \<Rightarrow> (string, members) bmap" where
  "groups_of p_new = bmap_collect (map group_kv p_new)"

lemma groups_run: "new_ok p_new \<Longrightarrow> canonical_groups p_new [] = Ret (groups_of p_new)"
  by (simp add: canonical_groups_run groups_of_def bmap_collect_def new_ok_def)

lemma groups_of_mem:
  assumes "new_ok p_new"
  shows "bmap_ok (groups_of p_new)" "set (groups_of p_new) = group_kv ` set p_new"
proof -
  show ok: "bmap_ok (groups_of p_new)" by (simp add: groups_of_def)
  have "(k, v) \<in> set (groups_of p_new) \<longleftrightarrow> (k, v) \<in> set (map group_kv p_new)" for k v
  proof -
    have "(k, v) \<in> set (groups_of p_new) \<longleftrightarrow> map_of (groups_of p_new) k = Some v"
      using bmap_get_mem [OF ok] by blast
    also have "\<dots> \<longleftrightarrow> map_of (map group_kv p_new) k = Some v"
      unfolding groups_of_def bmap_get_collect_distinct [OF group_keys_distinct [OF assms]] ..
    also have "\<dots> \<longleftrightarrow> (k, v) \<in> set (map group_kv p_new)"
      using map_of_eq_Some_iff [OF group_keys_distinct [OF assms]] by blast
    finally show ?thesis .
  qed
  then show "set (groups_of p_new) = group_kv ` set p_new" by auto
qed

lemma groups_disjoint:
  assumes "new_ok p_new" "(k, ms) \<in> set (groups_of p_new)" "(k', ms') \<in> set (groups_of p_new)" "x \<in> set ms" "x \<in> set ms'"
  shows "k = k' \<and> ms = ms'"
proof -
  obtain g g' where g: "g \<in> set p_new" "(k, ms) = group_kv g" "g' \<in> set p_new" "(k', ms') = group_kv g'"
    using assms(2,3) groups_of_mem(2) [OF assms(1)] by auto
  then have x: "x \<in> set g" "x \<in> set g'" using assms(4,5) by (auto simp: group_kv_def)
  obtain i j where ij: "i < length p_new" "g = p_new ! i" "j < length p_new" "g' = p_new ! j"
    using g by (metis in_set_conv_nth)
  have dis: "set (p_new ! a) \<inter> set (p_new ! b) = {}" if "a < b" "b < length p_new" for a b
    using assms(1) that by (simp add: new_ok_def sorted_wrt_iff_nth_less)
  have "i = j" using dis [of i j] dis [of j i] ij x by (cases i j rule: linorder_cases) auto
  then show ?thesis using g ij by (metis Pair_inject)
qed

lemma group_members:
  assumes "new_ok p_new" "(k, ms) \<in> set (groups_of p_new)"
  shows "sorted ms" "distinct ms" "ms \<noteq> []" "k = hd ms" "k \<in> set ms"
proof -
  obtain g where g: "g \<in> set p_new" "(k, ms) = group_kv g" using assms groups_of_mem(2) [OF assms(1)] by auto
  then have "g \<noteq> []" using assms(1) by (simp add: new_ok_def list_all_iff)
  with g show "sorted ms" "distinct ms" "ms \<noteq> []" "k = hd ms" by (auto simp: group_kv_def)
  then show "k \<in> set ms" by simp
qed

subsection \<open>Who owned a record\<close>

lemma canonical_old_mem:
  "bmap_keys (canonical_old p) = bmap_keys p" "bmap_ok p \<Longrightarrow> bmap_ok (canonical_old p)"
  "(e, em) \<in> set (canonical_old p) \<longleftrightarrow> (\<exists>ms. (e, ms) \<in> set p \<and> em = bset_of ms)"
  by (force simp: canonical_old_def bmap_ok_def comp_def case_prod_unfold)+

lemma canonical_old_disjoint:
  assumes "old_ok p" "(e, em) \<in> set (canonical_old p)" "(e', em') \<in> set (canonical_old p)" "x \<in> set em" "x \<in> set em'"
  shows "e = e' \<and> em = em'"
proof -
  obtain ms ms' where m: "(e, ms) \<in> set p" "em = bset_of ms" "(e', ms') \<in> set p" "em' = bset_of ms'"
    using assms(2,3) by (auto simp: canonical_old_mem(3))
  then have "x \<in> set ms \<inter> set ms'" using assms(4,5) by simp
  then have "(e, ms) = (e', ms')" using assms(1) m pairwiseD [of _ "set p" "(e, ms)" "(e', ms')"] by (force simp: old_ok_def)
  then show ?thesis using m by simp
qed

lemma insert_members: "map_of (fold (\<lambda>m. bmap_insert m e) ms acc) x = (if x \<in> set ms then Some e else map_of acc x)"
  by (induction ms arbitrary: acc) auto

lemma entity_fold:
  assumes "\<And>e em e' em'. (e, em) \<in> set old \<Longrightarrow> (e', em') \<in> set old \<Longrightarrow> x \<in> set em \<Longrightarrow> x \<in> set em' \<Longrightarrow> e = e'"
  shows "map_of (fold (\<lambda>(e, ms). fold (\<lambda>m. bmap_insert m e) ms) old acc) x = Some f \<longleftrightarrow>
    (\<exists>em. (f, em) \<in> set old \<and> x \<in> set em) \<or> map_of acc x = Some f \<and> (\<forall>(e, em) \<in> set old. x \<notin> set em)"
  using assms
proof (induction old arbitrary: acc)
  case (Cons oe old)
  obtain e em where o: "oe = (e, em)" by fastforce
  have IH: "map_of (fold (\<lambda>(e, ms). fold (\<lambda>m. bmap_insert m e) ms) old (fold (\<lambda>m. bmap_insert m e) em acc)) x = Some f \<longleftrightarrow>
    (\<exists>em. (f, em) \<in> set old \<and> x \<in> set em)
    \<or> map_of (fold (\<lambda>m. bmap_insert m e) em acc) x = Some f \<and> (\<forall>(e, em) \<in> set old. x \<notin> set em)"
    by (rule Cons.IH) (use Cons.prems in auto)
  show ?case
  proof (cases "x \<in> set em")
    case True
    then have same: "e' = e" if "(e', em') \<in> set old" "x \<in> set em'" for e' em' using Cons.prems [of e' em' e em] that o by auto
    show ?thesis using IH True same unfolding o by (auto simp: insert_members)
  next
    case False
    then show ?thesis using IH unfolding o by (auto simp: insert_members)
  qed
qed simp

lemma entity_of_record_iff:
  assumes "old_ok p"
  shows "map_of (entity_of_record_map (canonical_old p)) x = Some e \<longleftrightarrow> (\<exists>em. (e, em) \<in> set (canonical_old p) \<and> x \<in> set em)"
proof -
  have "map_of (fold (\<lambda>(e, ms). fold (\<lambda>m. bmap_insert m e) ms) (canonical_old p) []) x = Some e \<longleftrightarrow>
    (\<exists>em. (e, em) \<in> set (canonical_old p) \<and> x \<in> set em) \<or> map_of [] x = Some e \<and> (\<forall>(e, em) \<in> set (canonical_old p). x \<notin> set em)"
    by (rule entity_fold) (use canonical_old_disjoint [OF assms] in blast)
  then show ?thesis by (simp add: entity_of_record_map_def)
qed

lemma entity_of_record_ok: "bmap_ok (entity_of_record_map old)"
proof -
  have "bmap_ok acc \<Longrightarrow> bmap_ok (fold (\<lambda>m. bmap_insert m e) ms acc)" for e :: string and ms :: "string list" and acc
    by (induction ms arbitrary: acc) auto
  note row = this
  have "bmap_ok acc \<Longrightarrow> bmap_ok (fold (\<lambda>(e, ms). fold (\<lambda>m. bmap_insert m e) ms) old acc)" for acc
  proof (induction old arbitrary: acc)
    case (Cons oe old)
    then show ?case using row by (cases oe) simp
  qed simp
  then show ?thesis by (simp add: entity_of_record_map_def)
qed


subsection \<open>Cells, fragments, offers\<close>

lemma overlap_row_get:
  assumes "bmap_ok old"
  shows "map_of (overlap_row old members) e = (case map_of old e of None \<Rightarrow> None
     | Some em \<Rightarrow> if overlap members em = [] then None else Some (overlap members em))"
proof -
  let ?xs = "map (\<lambda>(e, em). (e, overlap members em)) old"
  have d: "distinct (map fst ?xs)" using bmap_ok_distinct [OF assms] by (simp add: comp_def case_prod_unfold)
  have "map_of ?xs e = map_option (overlap members) (map_of old e)"
    using map_of_map [of "overlap members" old] by (simp add: case_prod_unfold)
  then show ?thesis unfolding overlap_row_def map_of_filter_distinct [OF d] by (simp split: option.split)
qed

lemma overlap_row_ok: "bmap_ok old \<Longrightarrow> bmap_ok (overlap_row old members)"
  by (simp add: overlap_row_def bmap_ok_def comp_def case_prod_unfold filter_map sorted_wrt_map sorted_wrt_filter)

lemma matrix_get: "map_of (overlap_matrix old groups) k = map_option (overlap_row old) (map_of groups k)"
  using map_of_map [of "overlap_row old" groups] by (simp add: overlap_matrix_def case_prod_unfold)

lemma matrix_keys: "bmap_keys (overlap_matrix old groups) = bmap_keys groups"
  by (simp add: overlap_matrix_def comp_def case_prod_unfold)

lemma cell_iff:
  assumes "bmap_ok old"
  shows "cell_of (overlap_matrix old groups) k e = Some ov \<longleftrightarrow>
    (\<exists>ms em. map_of groups k = Some ms \<and> map_of old e = Some em \<and> ov = overlap ms em \<and> ov \<noteq> [])"
  by (cases "map_of groups k"; cases "map_of old e") (auto simp: cell_of_def matrix_get overlap_row_get [OF assms])

definition frag_ok :: "(string, overlap_cells) bmap \<Rightarrow> bool" where
  "frag_ok fr \<longleftrightarrow> bmap_ok fr \<and> (\<forall>e f. map_of fr e = Some f \<longrightarrow> f \<noteq> [] \<and> bmap_ok f)"

lemma add_fragment_ok: "frag_ok fr \<Longrightarrow> frag_ok (add_fragment key e ov fr)"
proof -
  assume "frag_ok fr"
  then have "bmap_ok (or_default (map_of fr e))" by (cases "map_of fr e") (auto simp: frag_ok_def)
  with \<open>frag_ok fr\<close> show ?thesis by (auto simp: frag_ok_def add_fragment_def)
qed

lemma add_fragment_cell:
  "cell_of (add_fragment key e ov fr) e' k = (if e' = e \<and> k = key then Some ov else cell_of fr e' k)"
  by (cases "map_of fr e") (auto simp: cell_of_def add_fragment_def)

lemma add_row:
  "frag_ok fr \<Longrightarrow> distinct (map fst cells) \<Longrightarrow> frag_ok (fold (\<lambda>(e, ov). add_fragment key e ov) cells fr)
   \<and> cell_of (fold (\<lambda>(e, ov). add_fragment key e ov) cells fr) e' k =
       (if k = key \<and> map_of cells e' \<noteq> None then map_of cells e' else cell_of fr e' k)"
proof (induction cells arbitrary: fr)
  case (Cons c cells)
  obtain e ov where c: "c = (e, ov)" by fastforce
  have "map_of cells e = None" using Cons.prems c by (simp add: map_of_eq_None_iff)
  with Cons.IH [OF add_fragment_ok [OF Cons.prems(1)], of key e ov] Cons.prems c show ?case
    by (auto simp: add_fragment_cell)
qed simp

lemma add_rows:
  "frag_ok fr \<Longrightarrow> distinct (map fst m) \<Longrightarrow> (\<And>k cells. (k, cells) \<in> set m \<Longrightarrow> distinct (map fst cells)) \<Longrightarrow>
   frag_ok (fold (\<lambda>(key, cells). fold (\<lambda>(e, ov). add_fragment key e ov) cells) m fr)
   \<and> cell_of (fold (\<lambda>(key, cells). fold (\<lambda>(e, ov). add_fragment key e ov) cells) m fr) e' k =
       (case cell_of m k e' of Some ov \<Rightarrow> Some ov | None \<Rightarrow> cell_of fr e' k)"
proof (induction m arbitrary: fr)
  case (Cons r m)
  obtain key cells where r: "r = (key, cells)" by fastforce
  have new: "map_of m key = None" using Cons.prems(2) r by (simp add: map_of_eq_None_iff)
  have d: "distinct (map fst cells)" by (rule Cons.prems(3) [of key]) (simp add: r)
  note row = add_row [OF Cons.prems(1) d]
  have "frag_ok (fold (\<lambda>(key, cells). fold (\<lambda>(e, ov). add_fragment key e ov) cells) m
      (fold (\<lambda>(e, ov). add_fragment key e ov) cells fr))
    \<and> cell_of (fold (\<lambda>(key, cells). fold (\<lambda>(e, ov). add_fragment key e ov) cells) m
      (fold (\<lambda>(e, ov). add_fragment key e ov) cells fr)) e' k =
       (case cell_of m k e' of Some ov \<Rightarrow> Some ov
        | None \<Rightarrow> cell_of (fold (\<lambda>(e, ov). add_fragment key e ov) cells fr) e' k)"
  proof (rule Cons.IH)
    show "frag_ok (fold (\<lambda>(e, ov). add_fragment key e ov) cells fr)" using row by blast
    show "distinct (map fst m)" using Cons.prems(2) by simp
    show "distinct (map fst cs)" if "(k, cs) \<in> set m" for k cs
      by (rule Cons.prems(3) [of k]) (simp add: that)
  qed
  then show ?case using row new unfolding r by (auto simp: cell_of_def split: option.split)
qed (simp add: cell_of_def)

lemma fragments_of_matrix:
  assumes "bmap_ok old" "bmap_ok groups"
  shows "frag_ok (fragments_of (overlap_matrix old groups))"
    "cell_of (fragments_of (overlap_matrix old groups)) e k = cell_of (overlap_matrix old groups) k e"
proof -
  let ?m = "overlap_matrix old groups"
  have d: "distinct (map fst ?m)" using bmap_ok_distinct [OF assms(2)] matrix_keys [of old groups] by simp
  have rows: "distinct (map fst cells)" if "(k, cells) \<in> set ?m" for k cells
    using that bmap_ok_distinct [OF overlap_row_ok [OF assms(1)]] by (auto simp: overlap_matrix_def)
  have start: "frag_ok []" by (simp add: frag_ok_def)
  have all: "frag_ok (fragments_of ?m) \<and> cell_of (fragments_of ?m) e k =
      (case cell_of ?m k e of Some ov \<Rightarrow> Some ov | None \<Rightarrow> cell_of [] e k)"
    unfolding fragments_of_def by (rule add_rows [OF start d rows])
  then show "frag_ok (fragments_of ?m)" by blast
  have "cell_of [] e k = None" by (simp add: cell_of_def)
  then show "cell_of (fragments_of ?m) e k = cell_of ?m k e" using all by (simp split: option.splits)
qed

lemma min_by_rank_least:
  assumes "\<forall>y \<in> insert x (set ys). rank y \<noteq> None"
  shows "\<exists>m \<in> insert x (set ys). min_by_rank rank x ys = Ret m \<and> (\<forall>y \<in> insert x (set ys). the (rank m) \<le> the (rank y))"
  using assms
proof (induction ys arbitrary: x)
  case (Cons y ys)
  obtain rx ry where r: "rank x = Some rx" "rank y = Some ry" using Cons.prems by auto
  show ?case
  proof (cases "ry < rx")
    case True
    from Cons.IH [of y] Cons.prems obtain m where m: "m \<in> insert y (set ys)" "min_by_rank rank y ys = Ret m"
      "\<forall>z \<in> insert y (set ys). the (rank m) \<le> the (rank z)" by (metis insert_iff list.set(2))
    then have "the (rank m) \<le> the (rank x)" using True r by force
    with m r True show ?thesis by (intro bexI [of _ m]) auto
  next
    case False
    from Cons.IH [of x] Cons.prems obtain m where m: "m \<in> insert x (set ys)" "min_by_rank rank x ys = Ret m"
      "\<forall>z \<in> insert x (set ys). the (rank m) \<le> the (rank z)" by (metis insert_iff list.set(2))
    then have "the (rank m) \<le> the (rank y)" using False r by force
    with m r False show ?thesis by (intro bexI [of _ m]) auto
  qed
qed simp

lemma fragment_rank_Some: "fragment_rank ov = None \<longleftrightarrow> ov = []"
  by (simp add: fragment_rank_def split: list.split)

abbreviation frank :: "members \<Rightarrow> int \<times> string" where
  "frank ov \<equiv> the (fragment_rank ov)"

lemma offers_of_run:
  "list_all (\<lambda>(e, f). f \<noteq> [] \<and> list_all (\<lambda>(k, ov). ov \<noteq> []) f) fr \<Longrightarrow>
   \<exists>os. offers_of fr = Ret os \<and> map fst os = map fst fr
     \<and> list_all2 (\<lambda>(e, f) (e', k). e' = e \<and> (\<exists>ov. (k, ov) \<in> set f \<and> (\<forall>(k', ov') \<in> set f. frank ov \<le> frank ov'))) fr os"
proof (induction fr)
  case (Cons ef fr)
  obtain e f where ef: "ef = (e, f)" by fastforce
  with Cons.prems obtain g gs where f: "f = g # gs" by (cases f) auto
  have all: "\<forall>y \<in> insert g (set gs). (\<lambda>(k, ov). fragment_rank ov) y \<noteq> None"
  proof -
    have "ov \<noteq> []" if "(k, ov) \<in> set f" for k ov using Cons.prems ef that by (auto simp: list_all_iff)
    then have "fragment_rank (snd y) \<noteq> None" if "y \<in> set f" for y
      using that by (metis fragment_rank_Some prod.collapse)
    then show ?thesis unfolding f by (simp add: case_prod_unfold)
  qed
  from min_by_rank_least [OF all] obtain m where m: "m \<in> set f" "min_by_rank (\<lambda>(k, ov). fragment_rank ov) g gs = Ret m"
    "\<forall>y \<in> set f. the ((\<lambda>(k, ov). fragment_rank ov) m) \<le> the ((\<lambda>(k, ov). fragment_rank ov) y)"
    unfolding f list.set(2) by blast
  obtain k ov where kov: "m = (k, ov)" by fastforce
  from Cons.IH Cons.prems obtain os where os: "offers_of fr = Ret os" "map fst os = map fst fr"
    "list_all2 (\<lambda>(e, f) (e', k). e' = e \<and> (\<exists>ov. (k, ov) \<in> set f \<and> (\<forall>(k', ov') \<in> set f. frank ov \<le> frank ov'))) fr os"
    by auto
  have run: "offers_of (ef # fr) = Ret ((e, k) # os)" using ef f m(2) kov os(1) by simp
  have least: "\<exists>ov. (k, ov) \<in> set f \<and> (\<forall>(k', ov') \<in> set f. frank ov \<le> frank ov')" using m(1,3) kov by fastforce
  show ?case by (rule exI [of _ "(e, k) # os"]) (use run least os ef in simp)
qed simp


lemma offers_correct:
  assumes ok: "bmap_ok old" "bmap_ok groups"
  defines "m \<equiv> overlap_matrix old groups"
  shows "\<exists>os. offers_of (fragments_of m) = Ret os \<and> bmap_ok os
    \<and> (\<forall>e. map_of os e = None \<longleftrightarrow> (\<forall>k. cell_of m k e = None))
    \<and> (\<forall>e k. map_of os e = Some k \<longrightarrow>
         (\<exists>ov. cell_of m k e = Some ov \<and> (\<forall>k' ov'. cell_of m k' e = Some ov' \<longrightarrow> frank ov \<le> frank ov')))"
proof -
  let ?fr = "fragments_of m"
  note F = fragments_of_matrix [OF ok, folded m_def]
  have fr: "bmap_ok ?fr" and f: "f \<noteq> [] \<and> bmap_ok f" if "map_of ?fr e = Some f" for e f
    using F(1) that by (auto simp: frag_ok_def)
  have fr_ok: "bmap_ok ?fr" using F(1) by (simp add: frag_ok_def)
  have cell: "(k, ov) \<in> set f \<longleftrightarrow> cell_of m k e = Some ov" if "map_of ?fr e = Some f" for e f k ov
    using bmap_get_mem [of f k ov] f [OF that] F(2) [of e k] that by (simp add: cell_of_def)
  have ne: "ov \<noteq> []" if "cell_of m k e = Some ov" for k e ov using that cell_iff [OF ok(1)] unfolding m_def by blast
  have "list_all (\<lambda>(e, f). f \<noteq> [] \<and> list_all (\<lambda>(k, ov). ov \<noteq> []) f) ?fr"
    unfolding list_all_iff
  proof (clarify, intro conjI ballI)
    fix e f assume "(e, f) \<in> set ?fr"
    then have ef: "map_of ?fr e = Some f" using bmap_get_mem [OF fr_ok] by blast
    then show "f \<noteq> []" using f by blast
    fix x assume "x \<in> set f"
    then show "case x of (k, ov) \<Rightarrow> ov \<noteq> []"
    proof -
      obtain k ov where Pair: "x = (k, ov)" by fastforce
      with \<open>x \<in> set f\<close> cell [OF ef] have "cell_of m k e = Some ov" by blast
      then show ?thesis using ne Pair by simp
    qed
  qed
  from offers_of_run [OF this] obtain os where os: "offers_of ?fr = Ret os" "map fst os = map fst ?fr"
    "list_all2 (\<lambda>(e, f) (e', k). e' = e \<and> (\<exists>ov. (k, ov) \<in> set f \<and> (\<forall>(k', ov') \<in> set f. frank ov \<le> frank ov'))) ?fr os"
    by blast
  have ok_os: "bmap_ok os" using fr_ok os(2) by (simp add: bmap_ok_def)
  have none: "map_of os e = None \<longleftrightarrow> (\<forall>k. cell_of m k e = None)" for e
  proof -
    have "map_of os e = None \<longleftrightarrow> map_of ?fr e = None"
      unfolding map_of_eq_None_iff using os(2) by (metis list.set_map)
    also have "\<dots> \<longleftrightarrow> (\<forall>k. cell_of ?fr e k = None)"
    proof (cases "map_of ?fr e")
      case (Some g)
      then obtain k ov where "(k, ov) \<in> set g" using f [OF Some] by (cases g) auto
      then have "cell_of ?fr e k = Some ov" using cell [OF Some] F(2) by simp
      then show ?thesis using Some by auto
    qed (simp add: cell_of_def)
    finally show ?thesis using F(2) by simp
  qed
  have some: "\<exists>ov. cell_of m k e = Some ov \<and> (\<forall>k' ov'. cell_of m k' e = Some ov' \<longrightarrow> frank ov \<le> frank ov')"
    if "map_of os e = Some k" for e k
  proof -
    have "(e, k) \<in> set os" using that by (rule map_of_SomeD)
    then obtain i where i: "i < length os" "os ! i = (e, k)" by (auto simp: in_set_conv_nth)
    obtain e' g where eg: "?fr ! i = (e', g)" by fastforce
    then have g: "?fr ! i = (e, g)" "\<exists>ov. (k, ov) \<in> set g \<and> (\<forall>(k', ov') \<in> set g. frank ov \<le> frank ov')"
      using list_all2_nthD2 [OF os(3) i(1)] i(2) by auto
    have "(e, g) \<in> set ?fr" using g(1) i(1) os(2) by (metis length_map nth_mem)
    then have "map_of ?fr e = Some g" using bmap_get_mem [OF fr_ok] by blast
    from cell [OF this] g(2) show ?thesis by blast
  qed
  show ?thesis using os(1) ok_os none some by blast
qed

lemma offered_fold:
  "map_of (fold (\<lambda>(e, key) m. bmap_insert key (or_default (map_of m key) @ [e]) m) os m) k =
     (if filter (\<lambda>(e, k'). k' = k) os = [] then map_of m k
      else Some (or_default (map_of m k) @ map fst (filter (\<lambda>(e, k'). k' = k) os)))"
proof (induction os arbitrary: m)
  case (Cons x os)
  then show ?case by (cases x) auto
qed simp

lemma offered_ok: "bmap_ok (offered_of os)"
proof -
  have "bmap_ok m \<Longrightarrow> bmap_ok (fold (\<lambda>(e, key) m. bmap_insert key (or_default (map_of m key) @ [e]) m) os m)" for m :: "(string, string list) bmap"
  proof (induction os arbitrary: m)
    case (Cons x os)
    then show ?case by (cases x) simp
  qed simp
  then show ?thesis by (simp add: offered_of_def)
qed

lemma accepted_of_run:
  "list_all (\<lambda>(k, cs). cs \<noteq> [] \<and> list_all (\<lambda>e. Option.bind (cell_of m k e) fragment_rank \<noteq> None) cs) off \<Longrightarrow>
   \<exists>acc. accepted_of m off = Ret acc \<and> map fst acc = map fst off
     \<and> list_all2 (\<lambda>(k, cs) (k', e). k' = k \<and> e \<in> set cs
         \<and> (\<forall>e' \<in> set cs. the (Option.bind (cell_of m k e) fragment_rank) \<le> the (Option.bind (cell_of m k e') fragment_rank))) off acc"
proof (induction off)
  case (Cons kc off)
  obtain k f where kc: "kc = (k, f)" by fastforce
  with Cons.prems obtain c cs where f: "f = c # cs" by (cases f) auto
  let ?rank = "\<lambda>e. Option.bind (cell_of m k e) fragment_rank"
  have "\<forall>y \<in> insert c (set cs). ?rank y \<noteq> None" using Cons.prems kc f by (simp add: list_all_iff)
  from min_by_rank_least [OF this] obtain e where e: "e \<in> set f" "min_by_rank ?rank c cs = Ret e"
    "\<forall>y \<in> set f. the (?rank e) \<le> the (?rank y)" unfolding f list.set(2) by blast
  from Cons.IH Cons.prems obtain acc where acc: "accepted_of m off = Ret acc" "map fst acc = map fst off"
    "list_all2 (\<lambda>(k, cs) (k', e). k' = k \<and> e \<in> set cs
         \<and> (\<forall>e' \<in> set cs. the (Option.bind (cell_of m k e) fragment_rank) \<le> the (Option.bind (cell_of m k e') fragment_rank))) off acc" by auto
  have run: "accepted_of m (kc # off) = Ret ((k, e) # acc)" using kc f e(2) acc(1) by simp
  show ?case by (rule exI [of _ "(k, e) # acc"]) (use run e(1,3) acc kc in simp)
qed simp

lemma accepted_correct:
  assumes ok: "bmap_ok old" "bmap_ok groups" "bmap_ok os"
  defines "m \<equiv> overlap_matrix old groups"
  assumes os: "\<And>e k. map_of os e = Some k \<Longrightarrow> \<exists>ov. cell_of m k e = Some ov"
  shows "\<exists>acc. accepted_of m (offered_of os) = Ret acc \<and> bmap_ok acc
    \<and> (\<forall>k. map_of acc k = None \<longleftrightarrow> (\<forall>e. map_of os e \<noteq> Some k))
    \<and> (\<forall>k e. map_of acc k = Some e \<longrightarrow> map_of os e = Some k
         \<and> (\<forall>e'. map_of os e' = Some k \<longrightarrow> frank (the (cell_of m k e)) \<le> frank (the (cell_of m k e'))))"
proof -
  let ?off = "offered_of os"
  have mem: "map_of os e = Some k \<longleftrightarrow> (e, k) \<in> set os" for e k using bmap_get_mem [OF ok(3)] by blast
  have get: "map_of ?off k = (let es = map fst (filter (\<lambda>(e, k'). k' = k) os) in if es = [] then None else Some es)" for k
    by (simp add: offered_of_def offered_fold Let_def)
  have cs: "cs \<noteq> [] \<and> (\<forall>e. e \<in> set cs \<longleftrightarrow> map_of os e = Some k)" if "map_of ?off k = Some cs" for k cs
    using that by (force simp: get Let_def mem split: if_splits)
  have off_mem: "map_of ?off k = Some cs \<longleftrightarrow> (k, cs) \<in> set ?off" for k cs using bmap_get_mem [OF offered_ok] by blast
  have rank: "Option.bind (cell_of m k e) fragment_rank = fragment_rank (the (cell_of m k e))
      \<and> fragment_rank (the (cell_of m k e)) \<noteq> None" if offer: "map_of os e = Some k" for e k
  proof -
    obtain ov where "cell_of m k e = Some ov" using os [OF offer] by blast
    moreover from this have "ov \<noteq> []" using cell_iff [OF ok(1)] unfolding m_def by blast
    ultimately show ?thesis by (simp add: fragment_rank_Some)
  qed
  have "list_all (\<lambda>(k, cs). cs \<noteq> [] \<and> list_all (\<lambda>e. Option.bind (cell_of m k e) fragment_rank \<noteq> None) cs) ?off"
    unfolding list_all_iff
  proof (clarify, intro conjI ballI)
    fix k es assume "(k, es) \<in> set ?off"
    then have o: "map_of ?off k = Some es" using off_mem by blast
    show "es \<noteq> []" using cs [OF o] by blast
    show "Option.bind (cell_of m k e) fragment_rank \<noteq> None" if "e \<in> set es" for e
      using that cs [OF o] rank by metis
  qed
  from accepted_of_run [OF this] obtain acc where acc: "accepted_of m ?off = Ret acc" "map fst acc = map fst ?off"
    "list_all2 (\<lambda>(k, cs) (k', e). k' = k \<and> e \<in> set cs
         \<and> (\<forall>e' \<in> set cs. the (Option.bind (cell_of m k e) fragment_rank) \<le> the (Option.bind (cell_of m k e') fragment_rank))) ?off acc" by blast
  have ok_acc: "bmap_ok acc" using offered_ok [of os] acc(2) by (simp add: bmap_ok_def)
  have none: "map_of acc k = None \<longleftrightarrow> (\<forall>e. map_of os e \<noteq> Some k)" for k
  proof -
    have "map_of acc k = None \<longleftrightarrow> map_of ?off k = None" unfolding map_of_eq_None_iff using acc(2) by (metis list.set_map)
    also have "\<dots> \<longleftrightarrow> (\<forall>e. map_of os e \<noteq> Some k)" by (auto simp: get Let_def mem filter_empty_conv)
    finally show ?thesis .
  qed
  have some: "map_of os e = Some k \<and> (\<forall>e'. map_of os e' = Some k \<longrightarrow> frank (the (cell_of m k e)) \<le> frank (the (cell_of m k e')))"
    if "map_of acc k = Some e" for k e
  proof -
    have "(k, e) \<in> set acc" using that by (rule map_of_SomeD)
    then obtain i where i: "i < length acc" "acc ! i = (k, e)" by (auto simp: in_set_conv_nth)
    obtain k' es where ke: "?off ! i = (k', es)" by fastforce
    then have es: "?off ! i = (k, es)" "e \<in> set es"
      "\<forall>e' \<in> set es. the (Option.bind (cell_of m k e) fragment_rank) \<le> the (Option.bind (cell_of m k e') fragment_rank)"
      using list_all2_nthD2 [OF acc(3) i(1)] i(2) by auto
    have "(k, es) \<in> set ?off" using es(1) i(1) acc(2) by (metis length_map nth_mem)
    then have "map_of ?off k = Some es" using off_mem by blast
    from cs [OF this] es(2,3) rank show ?thesis by metis
  qed
  show ?thesis using acc(1) ok_acc none some by blast
qed


subsection \<open>The matching\<close>

definition matching :: "(string, members) bmap \<Rightarrow> (string, members) bmap \<Rightarrow> (string, string) bmap \<Rightarrow> (string, string) bmap \<Rightarrow> bool" where
  "matching old groups offers accepted \<longleftrightarrow> bmap_ok offers \<and> bmap_ok accepted
     \<and> (\<forall>e. map_of offers e = None \<longleftrightarrow> (\<forall>k. cell_of (overlap_matrix old groups) k e = None))
     \<and> (\<forall>e k. map_of offers e = Some k \<longrightarrow> (\<exists>ov. cell_of (overlap_matrix old groups) k e = Some ov
          \<and> (\<forall>k' ov'. cell_of (overlap_matrix old groups) k' e = Some ov' \<longrightarrow> frank ov \<le> frank ov')))
     \<and> (\<forall>k. map_of accepted k = None \<longleftrightarrow> (\<forall>e. map_of offers e \<noteq> Some k))
     \<and> (\<forall>k e. map_of accepted k = Some e \<longrightarrow> map_of offers e = Some k
          \<and> (\<forall>e'. map_of offers e' = Some k \<longrightarrow> frank (the (cell_of (overlap_matrix old groups) k e))
                                            \<le> frank (the (cell_of (overlap_matrix old groups) k e'))))"

lemma matching_exists:
  assumes ok: "bmap_ok old" "bmap_ok groups"
  shows "\<exists>offers accepted. offers_of (fragments_of (overlap_matrix old groups)) = Ret offers
    \<and> accepted_of (overlap_matrix old groups) (offered_of offers) = Ret accepted
    \<and> matching old groups offers accepted"
proof -
  let ?m = "overlap_matrix old groups"
  obtain os where os: "offers_of (fragments_of ?m) = Ret os" "bmap_ok os"
    "\<forall>e. map_of os e = None \<longleftrightarrow> (\<forall>k. cell_of ?m k e = None)"
    "\<forall>e k. map_of os e = Some k \<longrightarrow> (\<exists>ov. cell_of ?m k e = Some ov
        \<and> (\<forall>k' ov'. cell_of ?m k' e = Some ov' \<longrightarrow> frank ov \<le> frank ov'))"
    using offers_correct [OF ok] by blast
  have "\<exists>ov. cell_of ?m k e = Some ov" if "map_of os e = Some k" for e k using os(4) that by blast
  from accepted_correct [OF ok os(2) this] obtain acc where acc: "accepted_of ?m (offered_of os) = Ret acc"
    "bmap_ok acc" "\<forall>k. map_of acc k = None \<longleftrightarrow> (\<forall>e. map_of os e \<noteq> Some k)"
    "\<forall>k e. map_of acc k = Some e \<longrightarrow> map_of os e = Some k
         \<and> (\<forall>e'. map_of os e' = Some k \<longrightarrow> frank (the (cell_of ?m k e)) \<le> frank (the (cell_of ?m k e')))" by blast
  have "matching old groups os acc" unfolding matching_def using os(2-4) acc(2-4) by blast
  then show ?thesis using os(1) acc(1) by blast
qed

lemma matchingD:
  assumes "matching old groups offers accepted" "bmap_ok old"
  shows "map_of offers e = None \<longleftrightarrow> (\<forall>k. cell_of (overlap_matrix old groups) k e = None)"
    "map_of accepted k = Some e \<Longrightarrow> map_of offers e = Some k"
    "map_of offers e = Some k \<Longrightarrow> map_of accepted k \<noteq> None"
    "map_of offers e = Some k \<Longrightarrow> \<exists>ms em. map_of groups k = Some ms \<and> map_of old e = Some em \<and> overlap ms em \<noteq> []"
    "map_of offers e = Some k \<Longrightarrow> cell_of (overlap_matrix old groups) k' e = Some ov'
       \<Longrightarrow> frank (the (cell_of (overlap_matrix old groups) k e)) \<le> frank ov'"
proof -
  note M = assms(1) [unfolded matching_def]
  show "map_of offers e = None \<longleftrightarrow> (\<forall>k. cell_of (overlap_matrix old groups) k e = None)" using M by blast
  show "map_of accepted k = Some e \<Longrightarrow> map_of offers e = Some k" using M by blast
  show "map_of offers e = Some k \<Longrightarrow> map_of accepted k \<noteq> None" using M by blast
  show "map_of offers e = Some k \<Longrightarrow> \<exists>ms em. map_of groups k = Some ms \<and> map_of old e = Some em \<and> overlap ms em \<noteq> []"
  proof -
    assume "map_of offers e = Some k"
    then obtain ov where "cell_of (overlap_matrix old groups) k e = Some ov" using M by blast
    then show ?thesis unfolding cell_iff [OF assms(2)] by blast
  qed
  show "map_of offers e = Some k \<Longrightarrow> cell_of (overlap_matrix old groups) k' e = Some ov'
       \<Longrightarrow> frank (the (cell_of (overlap_matrix old groups) k e)) \<le> frank ov'"
  proof -
    assume "map_of offers e = Some k" and c: "cell_of (overlap_matrix old groups) k' e = Some ov'"
    then obtain ov where "cell_of (overlap_matrix old groups) k e = Some ov"
      "\<forall>k' ov'. cell_of (overlap_matrix old groups) k' e = Some ov' \<longrightarrow> frank ov \<le> frank ov'" using M by blast
    then show ?thesis using c by simp
  qed
qed

subsection \<open>Collecting rows\<close>

fun the_ret :: "'a outcome \<Rightarrow> 'a" where
  "the_ret (Ret x) = x"

lemma not_PanicE: "m \<noteq> Panic \<Longrightarrow> m = Ret (the_ret m)"
  by (cases m) auto

lemma collect_rows_Ret:
  "\<forall>x \<in> set xs. f x \<noteq> Panic \<Longrightarrow> collect_rows f xs =
     Ret (concat (map (\<lambda>x. fst (the_ret (f x))) xs), concat (map (\<lambda>x. fst (snd (the_ret (f x)))) xs),
          concat (map (\<lambda>x. snd (snd (the_ret (f x)))) xs))"
proof (induction xs)
  case (Cons x xs)
  obtain a t e where "f x = Ret (a, t, e)" using Cons.prems by (cases "f x") auto
  then show ?case using Cons by simp
qed simp

definition known_event :: "planned_event \<Rightarrow> bool" where
  "known_event ev \<longleftrightarrow> event_rank (ev_event_type ev) \<noteq> None"

lemma known_mk:
  "known_event (planned_event_new tt sh e t d) \<longleftrightarrow> t \<in> set PLANNED_EVENT_ORDER"
  by (auto simp: known_event_def planned_event_new_def event_rank_def PLANNED_EVENT_ORDER_def event_names)

lemma sort_events_Ret: "list_all known_event evs \<Longrightarrow> \<exists>s. sort_planned_events evs = Ret s \<and> set s = set evs"
  by (auto simp: sort_planned_events_def list_ex_iff list_all_iff known_event_def)

subsection \<open>Minted ids\<close>

definition mints_fresh :: "('f \<Rightarrow> (string \<times> 'f) outcome) \<Rightarrow> 'f \<Rightarrow> string set \<Rightarrow> nat \<Rightarrow> bool" where
  "mints_fresh new_id factory taken n \<longleftrightarrow>
     (\<forall>k \<le> n. \<exists>ids f'. mint_ids new_id k factory = Ret (ids, f') \<and> length ids = k \<and> distinct ids \<and> set ids \<inter> taken = {})"

lemma minted_get:
  assumes "distinct ks" "length ids = length ks"
  shows "i < length ks \<Longrightarrow> map_of (bmap_collect (zip ks ids)) (ks ! i) = Some (ids ! i)"
    "map_of (bmap_collect (zip ks ids)) k = None \<longleftrightarrow> k \<notin> set ks"
proof -
  have "map_of (bmap_collect (zip ks ids)) = map_of (zip ks ids)" using assms by (intro bmap_get_collect_distinct) simp
  then show "i < length ks \<Longrightarrow> map_of (bmap_collect (zip ks ids)) (ks ! i) = Some (ids ! i)"
    "map_of (bmap_collect (zip ks ids)) k = None \<longleftrightarrow> k \<notin> set ks"
    using assms map_of_zip_nth [of ks ids i] by (simp_all add: map_of_zip_is_None)
qed

lemma minted_inj:
  assumes "distinct ks" "length ids = length ks" "distinct ids"
    and "map_of (bmap_collect (zip ks ids)) k = Some x"
  shows "x \<in> set ids" "map_of (bmap_collect (zip ks ids)) k' = Some x \<Longrightarrow> k = k'"
proof -
  have idx: "\<exists>i < length ks. ks ! i = k \<and> ids ! i = x" if "map_of (bmap_collect (zip ks ids)) k = Some x" for k
  proof -
    have "k \<in> set ks" using that minted_get(2) [OF assms(1,2)] by (metis option.distinct(1))
    then obtain i where "i < length ks" "ks ! i = k" by (auto simp: in_set_conv_nth)
    then show ?thesis using that minted_get(1) [OF assms(1,2)] by auto
  qed
  show "x \<in> set ids" using idx [OF assms(4)] assms(2) by (metis nth_mem)
  show "map_of (bmap_collect (zip ks ids)) k' = Some x \<Longrightarrow> k = k'"
    using idx [OF assms(4)] idx [of k'] assms(2,3) by (metis nth_eq_iff_index_eq)
qed


subsection \<open>The rows are complete\<close>

abbreviation new_row :: "string \<Rightarrow> entity_transition" where
  "new_row e \<equiv> \<lparr>tr_entity_id = e, tr_status = ACTIVE, tr_merged_into = None, tr_is_new = True\<rparr>"

lemma group_rows_Ret:
  assumes m: "matching old groups offers accepted" and ok: "bmap_ok old" "bmap_ok groups"
    and k: "(k, ms) \<in> set groups" and eid: "group_entity accepted minted_ids k = Some eid"
  shows "group_rows mk old (overlap_matrix old groups) offers accepted eor minted_ids k ms =
    Ret (group_assignments eor eid ms,
         case map_of accepted k of None \<Rightarrow> [new_row eid] | Some e \<Rightarrow> fst (kept_rows mk eor eid (the (map_of old e)) ms),
         (case map_of accepted k of None \<Rightarrow> [mk eid CREATED (json_object [(''member_keys'', keys_json ms)])]
          | Some e \<Rightarrow> snd (kept_rows mk eor eid (the (map_of old e)) ms))
         @ split_events mk offers k eid (overlap_row old ms))"
proof -
  have row: "map_of (overlap_matrix old groups) k = Some (overlap_row old ms)"
  proof -
    have "map_of groups k = Some ms" using k bmap_get_mem [OF ok(2)] by blast
    then show ?thesis by (simp add: matrix_get)
  qed
  show ?thesis
  proof (cases "map_of accepted k")
    case None
    then show ?thesis using eid row by (simp add: group_rows_def)
  next
    case (Some e)
    then obtain em where "map_of old e = Some em" using matchingD(2,4) [OF m ok(1)] by blast
    then show ?thesis using eid row Some by (simp add: group_rows_def case_prod_unfold)
  qed
qed

lemma entity_rows_Ret:
  assumes m: "matching old groups offers accepted" and ok: "bmap_ok old"
  shows "entity_rows mk (overlap_matrix old groups) offers accepted e em =
    Ret (case map_of offers e of
      None \<Rightarrow> ([], [\<lparr>tr_entity_id = e, tr_status = RETIRED, tr_merged_into = None, tr_is_new = False\<rparr>],
               [mk e RETIRED (json_object [(''member_keys'', keys_json em)])])
    | Some k \<Rightarrow> let c = the (map_of accepted k) in if c = e then ([], [], [])
        else ([], [\<lparr>tr_entity_id = e, tr_status = MERGED, tr_merged_into = Some c, tr_is_new = False\<rparr>],
              [mk e MERGED (json_object [(''member_keys'', keys_json (the (cell_of (overlap_matrix old groups) k e))),
                 (''merged_into'', JStr c)])]))"
proof (cases "map_of offers e")
  case (Some k)
  obtain c where c: "map_of accepted k = Some c" using matchingD(3) [OF m ok Some] by blast
  obtain ov where "cell_of (overlap_matrix old groups) k e = Some ov"
    using matchingD(4) [OF m ok Some] cell_iff [OF ok] by blast
  then show ?thesis using Some c by (simp add: entity_rows_def Let_def)
qed (simp add: entity_rows_def)

lemma rows_known:
  "list_all known_event (snd (snd (the_ret (orphan_rows (planned_event_new tt sh) minted_ids x)))) \<or> map_of minted_ids x = None"
  "list_all known_event (snd (kept_rows (planned_event_new tt sh) eor eid om ms))"
  "list_all known_event (split_events (planned_event_new tt sh) offers k eid cells)"
  by (auto simp: orphan_rows_def kept_rows_def split_events_def known_mk list_all_iff Let_def PLANNED_EVENT_ORDER_def
      split: option.split)

definition plan_sets :: "(string \<Rightarrow> string \<Rightarrow> json \<Rightarrow> planned_event) \<Rightarrow> (string, members) bmap \<Rightarrow> (string, members) bmap \<Rightarrow> (string, string) bmap
    \<Rightarrow> (string, string) bmap \<Rightarrow> (string, string) bmap \<Rightarrow> (rows \<Rightarrow> 'r list) \<Rightarrow> 'r set" where
  "plan_sets mk old groups offers accepted minted_ids part =
     (\<Union>(k, ms) \<in> set groups. set (part (the_ret (group_rows mk old (overlap_matrix old groups) offers accepted
                                                 (entity_of_record_map old) minted_ids k ms))))
     \<union> (\<Union>(e, ms) \<in> set old. set (part (the_ret (entity_rows mk (overlap_matrix old groups) offers accepted e ms))))
     \<union> (\<Union>x \<in> set (orphans_of (entity_of_record_map old) groups). set (part (the_ret (orphan_rows mk minted_ids x))))"

lemma mint_keys_distinct:
  assumes "new_ok p_new"
  shows "distinct (mint_keys_of (groups_of p_new) accepted (orphans_of (entity_of_record_map old) (groups_of p_new)))"
proof -
  have "k \<in> clustered_set (groups_of p_new)" if key: "k \<in> set (bmap_keys (groups_of p_new))" for k
  proof -
    obtain ms where "(k, ms) \<in> set (groups_of p_new)" using key by auto
    then show ?thesis using group_members(5) [OF assms] unfolding clustered_set_def by blast
  qed
  moreover have "distinct (bmap_keys (groups_of p_new))" using bmap_ok_distinct [OF groups_of_mem(1) [OF assms]] .
  moreover have "distinct (bmap_keys (entity_of_record_map old))" using bmap_ok_distinct [OF entity_of_record_ok] .
  ultimately show ?thesis by (auto simp: mint_keys_of_def orphans_of_def)
qed

lemma mint_keys_bound:
  assumes "old_ok p_old" "new_ok p_new"
  shows "length (mint_keys_of (groups_of p_new) accepted (orphans_of (entity_of_record_map (canonical_old p_old)) (groups_of p_new)))
    \<le> length p_new + length (concat (map snd p_old))"
proof -
  let ?eor = "entity_of_record_map (canonical_old p_old)"
  have "length (filter (\<lambda>k. map_of accepted k = None) (bmap_keys (groups_of p_new))) \<le> card (fst ` set (groups_of p_new))"
    using length_filter_le [of _ "bmap_keys (groups_of p_new)"]
      distinct_card [OF bmap_ok_distinct [OF groups_of_mem(1) [OF assms(2)]]] by simp
  also have "\<dots> \<le> length p_new"
    unfolding groups_of_mem(2) [OF assms(2)] image_image by (rule order_trans [OF card_image_le card_length]) simp
  finally have a: "length (filter (\<lambda>k. map_of accepted k = None) (bmap_keys (groups_of p_new))) \<le> length p_new" .
  have "x \<in> set (concat (map snd p_old))" if x: "x \<in> fst ` set ?eor" for x
  proof -
    obtain e where "map_of ?eor x = Some e" using x map_of_eq_None_iff [of ?eor x] by auto
    then obtain em where "(e, em) \<in> set (canonical_old p_old)" "x \<in> set em"
      unfolding entity_of_record_iff [OF assms(1)] by blast
    then show ?thesis by (auto simp: canonical_old_mem(3) intro!: bexI)
  qed
  then have "card (fst ` set ?eor) \<le> card (set (concat (map snd p_old)))" by (intro card_mono) auto
  also have "\<dots> \<le> length (concat (map snd p_old))" by (rule card_length)
  finally have "length (bmap_keys ?eor) \<le> length (concat (map snd p_old))"
    using distinct_card [OF bmap_ok_distinct [OF entity_of_record_ok, of "canonical_old p_old"]] by simp
  then have b: "length (orphans_of ?eor (groups_of p_new)) \<le> length (concat (map snd p_old))"
    unfolding orphans_of_def using length_filter_le [of _ "bmap_keys ?eor"] order_trans by blast
  from a b show ?thesis by (simp add: mint_keys_of_def)
qed


lemma group_entity_exists:
  assumes "(k, ms) \<in> set groups" "\<And>k. map_of minted_ids k = None \<longleftrightarrow> k \<notin> set (mint_keys_of groups accepted orphans)"
  shows "\<exists>eid. group_entity accepted minted_ids k = Some eid"
proof (cases "map_of accepted k")
  case None
  then have "k \<in> set (mint_keys_of groups accepted orphans)" using assms(1) by (force simp: mint_keys_of_def)
  then have "map_of minted_ids k \<noteq> None" using assms(2) by blast
  then show ?thesis using None by (auto simp: group_entity_def)
qed (simp add: group_entity_def)

definition minted_ok :: "(string, members) bmap \<Rightarrow> (string, members) bmap \<Rightarrow> (string, string) bmap \<Rightarrow> (string, string) bmap \<Rightarrow> bool" where
  "minted_ok old groups accepted minted_ids \<longleftrightarrow>
     (\<forall>k. map_of minted_ids k = None \<longleftrightarrow> k \<notin> set (mint_keys_of groups accepted (orphans_of (entity_of_record_map old) groups)))
     \<and> (\<forall>k x. map_of minted_ids k = Some x \<longrightarrow> x \<notin> fst ` set old)
     \<and> (\<forall>k k' x. map_of minted_ids k = Some x \<longrightarrow> map_of minted_ids k' = Some x \<longrightarrow> k = k')"

lemma minted_okD:
  assumes "minted_ok old groups accepted minted_ids"
  shows "map_of minted_ids k = None \<longleftrightarrow> k \<notin> set (mint_keys_of groups accepted (orphans_of (entity_of_record_map old) groups))"
    "map_of minted_ids k = Some x \<Longrightarrow> x \<notin> fst ` set old"
    "map_of minted_ids k = Some x \<Longrightarrow> map_of minted_ids k' = Some x \<Longrightarrow> k = k'"
  using assms unfolding minted_ok_def by blast+

lemma all_events_known:
  fixes tt :: "json \<Rightarrow> string" and sh :: "string \<Rightarrow> nat list"
  assumes m: "matching old groups offers accepted" and ok: "bmap_ok old" "bmap_ok groups"
    and mi: "minted_ok old groups accepted minted_ids"
  defines "mk \<equiv> planned_event_new tt sh"
  shows "(k, ms) \<in> set groups \<Longrightarrow> list_all known_event (snd (snd (the_ret (group_rows mk old (overlap_matrix old groups) offers accepted
        (entity_of_record_map old) minted_ids k ms))))"
    "list_all known_event (snd (snd (the_ret (entity_rows mk (overlap_matrix old groups) offers accepted e em))))"
    "x \<in> set (orphans_of (entity_of_record_map old) groups) \<Longrightarrow> list_all known_event (snd (snd (the_ret (orphan_rows mk minted_ids x))))"
proof -
  show "list_all known_event (snd (snd (the_ret (group_rows mk old (overlap_matrix old groups) offers accepted
        (entity_of_record_map old) minted_ids k ms))))" if kms: "(k, ms) \<in> set groups"
  proof -
    obtain eid where eid: "group_entity accepted minted_ids k = Some eid"
      using group_entity_exists [OF kms minted_okD(1) [OF mi]] by blast
    show ?thesis unfolding group_rows_Ret [OF m ok kms eid]
      using rows_known(2,3) [of tt sh] by (auto simp: mk_def known_mk PLANNED_EVENT_ORDER_def split: option.split)
  qed
  show "list_all known_event (snd (snd (the_ret (entity_rows mk (overlap_matrix old groups) offers accepted e em))))"
    unfolding entity_rows_Ret [OF m ok(1)]
    by (simp add: mk_def known_mk PLANNED_EVENT_ORDER_def Let_def split: option.split)
  show "list_all known_event (snd (snd (the_ret (orphan_rows mk minted_ids x))))"
    if x: "x \<in> set (orphans_of (entity_of_record_map old) groups)"
  proof -
    have "x \<in> set (mint_keys_of groups accepted (orphans_of (entity_of_record_map old) groups))"
      using x by (simp add: mint_keys_of_def)
    then have "map_of minted_ids x \<noteq> None" using minted_okD(1) [OF mi] by blast
    then show ?thesis using rows_known(1) [of tt sh minted_ids x] by (auto simp: mk_def)
  qed
qed

lemma plan_run:
  fixes p_old p_new
  defines "old \<equiv> canonical_old p_old" and "groups \<equiv> groups_of p_new"
  assumes ok: "old_ok p_old" "new_ok p_new"
    and fresh: "mints_fresh new_id factory (fst ` set p_old) (length p_new + length (concat (map snd p_old)))"
  shows "\<exists>plan f' offers accepted minted_ids.
      reconcile_plan to_text sha256 new_id p_old p_new factory = Ret (plan, f')
    \<and> matching old groups offers accepted \<and> minted_ok old groups accepted minted_ids
    \<and> set (assignments plan) = plan_sets (planned_event_new to_text sha256) old groups offers accepted minted_ids fst
    \<and> set (transitions plan) = plan_sets (planned_event_new to_text sha256) old groups offers accepted minted_ids (\<lambda>r. fst (snd r))
    \<and> set (events plan) = plan_sets (planned_event_new to_text sha256) old groups offers accepted minted_ids (\<lambda>r. snd (snd r))
    \<and> length (minted plan) = length (mint_keys_of groups accepted (orphans_of (entity_of_record_map old) groups))"
proof -
  let ?mk = "planned_event_new to_text sha256" and ?m = "overlap_matrix old groups" and ?eor = "entity_of_record_map old"
  let ?orphans = "orphans_of ?eor groups"
  have bo: "bmap_ok old" using ok(1) canonical_old_mem(2) by (simp add: old_def old_ok_def)
  have bg: "bmap_ok groups" using groups_of_mem(1) [OF ok(2)] by (simp add: groups_def)
  have keys: "fst ` set old = fst ` set p_old" using canonical_old_mem(1) [of p_old] unfolding old_def by (metis list.set_map)
  obtain offers accepted where oa: "offers_of (fragments_of ?m) = Ret offers"
    "accepted_of ?m (offered_of offers) = Ret accepted" "matching old groups offers accepted"
    using matching_exists [OF bo bg] by blast
  let ?ks = "mint_keys_of groups accepted ?orphans"
  have d: "distinct ?ks" using mint_keys_distinct [OF ok(2)] by (simp add: groups_def)
  have "length ?ks \<le> length p_new + length (concat (map snd p_old))"
    using mint_keys_bound [OF ok] by (simp add: groups_def old_def)
  with fresh obtain ids f' where ids: "mint_ids new_id (length ?ks) factory = Ret (ids, f')" "length ids = length ?ks"
    "distinct ids" "set ids \<inter> fst ` set p_old = {}" unfolding mints_fresh_def by blast
  let ?mi = "bmap_collect (zip ?ks ids)"
  have mi: "minted_ok old groups accepted ?mi"
    unfolding minted_ok_def keys using minted_get(2) [OF d ids(2)] minted_inj [OF d ids(2,3)] ids(4) by blast
  let ?g = "\<lambda>(k, ms). group_rows ?mk old ?m offers accepted ?eor ?mi k ms"
  let ?e = "\<lambda>(e, ms). entity_rows ?mk ?m offers accepted e ms" and ?o = "orphan_rows ?mk ?mi"
  have "?g x \<noteq> Panic" if "x \<in> set groups" for x
  proof -
    obtain k ms where x: "x = (k, ms)" by fastforce
    then have kms: "(k, ms) \<in> set groups" using that by simp
    obtain eid where "group_entity accepted ?mi k = Some eid"
      using group_entity_exists [OF kms minted_okD(1) [OF mi]] by blast
    from group_rows_Ret [OF oa(3) bo bg kms this] show ?thesis unfolding x by simp
  qed
  then have G: "collect_rows ?g groups = Ret (concat (map (\<lambda>x. fst (the_ret (?g x))) groups),
      concat (map (\<lambda>x. fst (snd (the_ret (?g x)))) groups), concat (map (\<lambda>x. snd (snd (the_ret (?g x)))) groups))"
    by (intro collect_rows_Ret) blast
  have "?e x \<noteq> Panic" for x using entity_rows_Ret [OF oa(3) bo] by (cases x) simp
  then have E: "collect_rows ?e old = Ret (concat (map (\<lambda>x. fst (the_ret (?e x))) old),
      concat (map (\<lambda>x. fst (snd (the_ret (?e x)))) old), concat (map (\<lambda>x. snd (snd (the_ret (?e x)))) old))"
    by (intro collect_rows_Ret) blast
  have "?o x \<noteq> Panic" if "x \<in> set ?orphans" for x
  proof -
    have "map_of ?mi x \<noteq> None" using that minted_okD(1) [OF mi] by (simp add: mint_keys_of_def)
    then show ?thesis by (auto simp: orphan_rows_def)
  qed
  then have O: "collect_rows ?o ?orphans = Ret (concat (map (\<lambda>x. fst (the_ret (?o x))) ?orphans),
      concat (map (\<lambda>x. fst (snd (the_ret (?o x)))) ?orphans), concat (map (\<lambda>x. snd (snd (the_ret (?o x)))) ?orphans))"
    by (intro collect_rows_Ret) blast
  let ?all = "concat (map (\<lambda>x. snd (snd (the_ret (?g x)))) groups) @ concat (map (\<lambda>x. snd (snd (the_ret (?e x)))) old)
      @ concat (map (\<lambda>x. snd (snd (the_ret (?o x)))) ?orphans)"
  note K = all_events_known [OF oa(3) bo bg mi, where tt = to_text and sh = sha256]
  have "list_all known_event ?all"
    unfolding list_all_append
  proof (intro conjI)
    show "list_all known_event (concat (map (\<lambda>x. snd (snd (the_ret (?g x)))) groups))"
      by (auto simp: list_all_iff split: prod.splits dest!: K(1) [unfolded list_all_iff])
    show "list_all known_event (concat (map (\<lambda>x. snd (snd (the_ret (?e x)))) old))"
      using K(2) by (auto simp: list_all_iff)
    show "list_all known_event (concat (map (\<lambda>x. snd (snd (the_ret (?o x)))) ?orphans))"
      using K(3) by (auto simp: list_all_iff)
  qed
  from sort_events_Ret [OF this] obtain evs where evs: "sort_planned_events ?all = Ret evs" "set evs = set ?all" by blast
  show ?thesis
    apply (rule exI [of _ "\<lparr>assignments = sort_key as_record_key (concat (map (\<lambda>x. fst (the_ret (?g x))) groups)
         @ concat (map (\<lambda>x. fst (the_ret (?e x))) old) @ concat (map (\<lambda>x. fst (the_ret (?o x))) ?orphans)),
       transitions = sort_key tr_entity_id (concat (map (\<lambda>x. fst (snd (the_ret (?g x)))) groups)
         @ concat (map (\<lambda>x. fst (snd (the_ret (?e x)))) old) @ concat (map (\<lambda>x. fst (snd (the_ret (?o x)))) ?orphans)),
       events = evs, minted = map (\<lambda>k. the (map_of ?mi k)) ?ks\<rparr>"])
    apply (rule exI [of _ f'], rule exI [of _ offers], rule exI [of _ accepted], rule exI [of _ ?mi])
    using groups_run [OF ok(2)] oa ids(1) G E O evs mi
    by (simp add: reconcile_plan_def Let_def plan_sets_def old_def [symmetric] groups_def [symmetric] Un_assoc split_def)
qed


subsection \<open>Membership after the plan\<close>

definition membership_after :: "(string, string list) bmap \<Rightarrow> reconcile_plan_rows \<Rightarrow> string \<Rightarrow> string option" where
  "membership_after p_old plan m =
     (case map_of (map (\<lambda>a. (as_record_key a, as_entity_id a)) (assignments plan)) m of
        Some e \<Rightarrow> Some e
      | None \<Rightarrow> map_of (entity_of_record_map (canonical_old p_old)) m)"

lemma map_of_functional:
  "(\<And>a. a \<in> set as \<Longrightarrow> f a = m \<Longrightarrow> g a = v) \<Longrightarrow>
   map_of (map (\<lambda>a. (f a, g a)) as) m = (if m \<in> f ` set as then Some v else None)"
  by (induction "as") auto

lemma group_entity_inj:
  assumes m: "matching old groups offers accepted" and ok: "bmap_ok old" and mi: "minted_ok old groups accepted minted_ids"
    and x: "group_entity accepted minted_ids k = Some x" "group_entity accepted minted_ids k' = Some x"
  shows "k = k'"
proof -
  have acc: "map_of offers x = Some j \<and> x \<in> fst ` set old" if "map_of accepted j = Some x" for j
  proof -
    have o: "map_of offers x = Some j" using matchingD(2) [OF m ok that] .
    moreover from matchingD(4) [OF m ok o] obtain em where "map_of old x = Some em" by blast
    ultimately show ?thesis by (metis map_of_eq_None_iff option.distinct(1))
  qed
  have mint: "x \<notin> fst ` set old" if "map_of minted_ids j = Some x" for j using minted_okD(2) [OF mi that] .
  show ?thesis
  proof (cases "map_of accepted k")
    case None
    then have k: "map_of minted_ids k = Some x" using x(1) by (simp add: group_entity_def)
    then have "map_of accepted k' = None" using x(2) mint acc by (cases "map_of accepted k'") (auto simp: group_entity_def)
    then have "map_of minted_ids k' = Some x" using x(2) by (simp add: group_entity_def)
    then show ?thesis using minted_okD(3) [OF mi k] by blast
  next
    case (Some y)
    then have k: "map_of accepted k = Some x" using x(1) by (simp add: group_entity_def)
    have "map_of accepted k' \<noteq> None" using x(2) acc [OF k] mint by (auto simp: group_entity_def split: option.splits)
    then have "map_of accepted k' = Some x" using x(2) by (auto simp: group_entity_def)
    from acc [OF this] acc [OF k] show ?thesis by simp
  qed
qed

lemma group_entity_not_orphan:
  assumes m: "matching old groups offers accepted" and ok: "bmap_ok old" and mi: "minted_ok old groups accepted minted_ids"
    and x: "group_entity accepted minted_ids k = Some x" "map_of minted_ids j = Some x"
  shows "j = k"
proof (cases "map_of accepted k")
  case None
  then have "map_of minted_ids k = Some x" using x(1) by (simp add: group_entity_def)
  then show ?thesis using minted_okD(3) [OF mi x(2)] by blast
next
  case (Some y)
  then have "map_of accepted k = Some x" using x(1) by (simp add: group_entity_def)
  from matchingD(4) [OF m ok matchingD(2) [OF m ok this]] obtain em where "map_of old x = Some em" by blast
  then have "x \<in> fst ` set old" by (metis map_of_eq_None_iff option.distinct(1))
  then show ?thesis using minted_okD(2) [OF mi x(2)] by blast
qed

lemma assignment_iff:
  fixes p_old p_new
  defines "old \<equiv> canonical_old p_old" and "groups \<equiv> groups_of p_new"
  assumes m: "matching old groups offers accepted" and ok: "bmap_ok old" "bmap_ok groups"
    and mi: "minted_ok old groups accepted minted_ids"
  shows "a \<in> plan_sets mk old groups offers accepted minted_ids fst \<longleftrightarrow>
     (\<exists>k ms. (k, ms) \<in> set groups \<and> as_record_key a \<in> set ms \<and> group_entity accepted minted_ids k = Some (as_entity_id a)
        \<and> map_of (entity_of_record_map old) (as_record_key a) \<noteq> Some (as_entity_id a))
     \<or> as_record_key a \<in> set (orphans_of (entity_of_record_map old) groups) \<and> map_of minted_ids (as_record_key a) = Some (as_entity_id a)"
    (is "_ \<longleftrightarrow> ?G \<or> ?O")
proof -
  let ?eor = "entity_of_record_map old" and ?M = "overlap_matrix old groups"
  have G: "(\<exists>k ms. (k, ms) \<in> set groups \<and> a \<in> set (fst (the_ret (group_rows mk old ?M offers accepted ?eor minted_ids k ms)))) \<longleftrightarrow> ?G"
  proof -
    have "a \<in> set (fst (the_ret (group_rows mk old ?M offers accepted ?eor minted_ids k ms))) \<longleftrightarrow>
        as_record_key a \<in> set ms \<and> group_entity accepted minted_ids k = Some (as_entity_id a) \<and> map_of ?eor (as_record_key a) \<noteq> Some (as_entity_id a)"
      if kms: "(k, ms) \<in> set groups" for k ms
    proof -
      obtain eid where eid: "group_entity accepted minted_ids k = Some eid"
        using group_entity_exists [OF kms minted_okD(1) [OF mi]] by blast
      have "a = \<lparr>as_record_key = as_record_key a, as_entity_id = as_entity_id a\<rparr>" by simp
      then show ?thesis unfolding group_rows_Ret [OF m ok kms eid] using eid
        by (auto simp: group_assignments_def image_iff)
    qed
    then show ?thesis by blast
  qed
  have E: "fst (the_ret (entity_rows mk ?M offers accepted e ms)) = []" for e ms
    unfolding entity_rows_Ret [OF m ok(1)] by (simp add: Let_def split: option.split)
  have O: "(\<exists>x \<in> set (orphans_of ?eor groups). a \<in> set (fst (the_ret (orphan_rows mk minted_ids x)))) \<longleftrightarrow> ?O"
  proof -
    have "a \<in> set (fst (the_ret (orphan_rows mk minted_ids x))) \<longleftrightarrow> as_record_key a = x \<and> map_of minted_ids x = Some (as_entity_id a)"
      if x: "x \<in> set (orphans_of ?eor groups)" for x
    proof -
      have "map_of minted_ids x \<noteq> None" using x minted_okD(1) [OF mi] by (simp add: mint_keys_of_def)
      then obtain i where i: "map_of minted_ids x = Some i" by blast
      have "a = \<lparr>as_record_key = as_record_key a, as_entity_id = as_entity_id a\<rparr>" by simp
      then show ?thesis using i by (auto simp: orphan_rows_def)
    qed
    then show ?thesis by blast
  qed
  have "a \<in> plan_sets mk old groups offers accepted minted_ids fst \<longleftrightarrow>
    (\<exists>k ms. (k, ms) \<in> set groups \<and> a \<in> set (fst (the_ret (group_rows mk old ?M offers accepted ?eor minted_ids k ms))))
    \<or> (\<exists>x \<in> set (orphans_of ?eor groups). a \<in> set (fst (the_ret (orphan_rows mk minted_ids x))))"
    unfolding plan_sets_def using E by (auto split: prod.splits)
  then show ?thesis using G O by blast
qed

lemma after_plan:
  fixes p_old p_new
  defines "old \<equiv> canonical_old p_old" and "groups \<equiv> groups_of p_new"
  assumes wf: "old_ok p_old" "new_ok p_new"
    and m: "matching old groups offers accepted" and mi: "minted_ok old groups accepted minted_ids"
    and plan: "set (assignments plan) = plan_sets mk old groups offers accepted minted_ids fst"
  shows "(k, ms) \<in> set groups \<Longrightarrow> x \<in> set ms \<Longrightarrow> membership_after p_old plan x = group_entity accepted minted_ids k"
    "x \<in> set (orphans_of (entity_of_record_map old) groups) \<Longrightarrow> membership_after p_old plan x = map_of minted_ids x"
proof -
  have ok: "bmap_ok old" "bmap_ok groups"
    using wf(1) canonical_old_mem(2) groups_of_mem(1) [OF wf(2)] by (auto simp: old_def groups_def old_ok_def)
  note A = assignment_iff [OF m [unfolded old_def groups_def] ok [unfolded old_def groups_def] mi [unfolded old_def groups_def],
      folded old_def groups_def, of _ mk]
  have clust: "x \<notin> set (orphans_of (entity_of_record_map old) groups)" if "(k, ms) \<in> set groups" "x \<in> set ms" for k ms x
    using that by (force simp: orphans_of_def clustered_set_def)
  show "membership_after p_old plan x = group_entity accepted minted_ids k" if kms: "(k, ms) \<in> set groups" and x: "x \<in> set ms"
  proof -
    obtain eid where eid: "group_entity accepted minted_ids k = Some eid"
      using group_entity_exists [OF kms minted_okD(1) [OF mi]] by blast
    have uniq: "k' = k" if "(k', ms') \<in> set groups" "x \<in> set ms'" for k' ms'
      using groups_disjoint [OF wf(2), folded groups_def] that kms x by blast
    have val: "as_entity_id a = eid" if "a \<in> set (assignments plan)" "as_record_key a = x" for a
      using that A uniq eid clust [OF kms x] unfolding plan by fastforce
    have "x \<in> as_record_key ` set (assignments plan) \<longleftrightarrow> map_of (entity_of_record_map old) x \<noteq> Some eid"
    proof
      assume "x \<in> as_record_key ` set (assignments plan)"
      then show "map_of (entity_of_record_map old) x \<noteq> Some eid"
        using A uniq eid clust [OF kms x] unfolding plan by fastforce
    next
      assume ne: "map_of (entity_of_record_map old) x \<noteq> Some eid"
      have "\<lparr>as_record_key = x, as_entity_id = eid\<rparr> \<in> set (assignments plan)"
        unfolding plan A using kms x eid ne by auto
      then show "x \<in> as_record_key ` set (assignments plan)" by force
    qed
    moreover have "map_of (map (\<lambda>a. (as_record_key a, as_entity_id a)) (assignments plan)) x =
        (if x \<in> as_record_key ` set (assignments plan) then Some eid else None)"
      by (rule map_of_functional) (rule val)
    ultimately show ?thesis unfolding membership_after_def using eid by (simp add: old_def)
  qed
  show "membership_after p_old plan x = map_of minted_ids x" if x: "x \<in> set (orphans_of (entity_of_record_map old) groups)"
  proof -
    have "map_of minted_ids x \<noteq> None" using x minted_okD(1) [OF mi] by (simp add: mint_keys_of_def)
    then obtain i where i: "map_of minted_ids x = Some i" by blast
    have val: "as_entity_id a = i" if "a \<in> set (assignments plan)" "as_record_key a = x" for a
      using that A i clust x unfolding plan by fastforce
    have "\<lparr>as_record_key = x, as_entity_id = i\<rparr> \<in> set (assignments plan)" unfolding plan A using x i by auto
    then have "x \<in> as_record_key ` set (assignments plan)" by force
    moreover have "map_of (map (\<lambda>a. (as_record_key a, as_entity_id a)) (assignments plan)) x =
        (if x \<in> as_record_key ` set (assignments plan) then Some i else None)"
      by (rule map_of_functional) (rule val)
    ultimately show ?thesis unfolding membership_after_def using i by simp
  qed
qed


definition all_records :: "(string, string list) bmap \<Rightarrow> string list list \<Rightarrow> string set" where
  "all_records p_old p_new = (\<Union>g \<in> set p_new. set g) \<union> (\<Union>(e, ms) \<in> set p_old. set ms)"

lemma group_of_iff:
  assumes "new_ok p_new"
  shows "(\<exists>g \<in> set p_new. x \<in> set g \<and> y \<in> set g) \<longleftrightarrow> (\<exists>k ms. (k, ms) \<in> set (groups_of p_new) \<and> x \<in> set ms \<and> y \<in> set ms)"
  unfolding groups_of_mem(2) [OF assms] by (force simp: group_kv_def)

lemma orphan_iff:
  assumes "old_ok p_old" "new_ok p_new"
  shows "x \<in> set (orphans_of (entity_of_record_map (canonical_old p_old)) (groups_of p_new)) \<longleftrightarrow>
    (\<exists>e ms. (e, ms) \<in> set p_old \<and> x \<in> set ms) \<and> (\<forall>g \<in> set p_new. x \<notin> set g)"
proof -
  let ?eor = "entity_of_record_map (canonical_old p_old)"
  have "x \<in> fst ` set ?eor \<longleftrightarrow> (\<exists>e. map_of ?eor x = Some e)" using map_of_eq_None_iff [of ?eor x] by auto
  also have "\<dots> \<longleftrightarrow> (\<exists>e ms. (e, ms) \<in> set p_old \<and> x \<in> set ms)"
  proof -
    have "(\<exists>em. (e, em) \<in> set (canonical_old p_old) \<and> x \<in> set em) \<longleftrightarrow> (\<exists>ms. (e, ms) \<in> set p_old \<and> x \<in> set ms)" for e
      unfolding canonical_old_mem(3) using set_bset_of by blast
    then show ?thesis unfolding entity_of_record_iff [OF assms(1)] by blast
  qed
  finally have a: "x \<in> fst ` set ?eor \<longleftrightarrow> (\<exists>e ms. (e, ms) \<in> set p_old \<and> x \<in> set ms)" .
  have b: "x \<in> clustered_set (groups_of p_new) \<longleftrightarrow> (\<exists>g \<in> set p_new. x \<in> set g)"
    using group_of_iff [OF assms(2), of x x] by (auto simp: clustered_set_def)
  show ?thesis using a b by (auto simp: orphans_of_def)
qed

text \<open>Two records share an entity after the plan exactly when they share a new group.\<close>

lemma after_plan_partition:
  assumes wf: "old_ok p_old" "new_ok p_new"
    and m: "matching (canonical_old p_old) (groups_of p_new) offers accepted"
    and mi: "minted_ok (canonical_old p_old) (groups_of p_new) accepted minted_ids"
    and plan: "set (assignments plan) = plan_sets mk (canonical_old p_old) (groups_of p_new) offers accepted minted_ids fst"
    and xy: "x \<in> all_records p_old p_new" "y \<in> all_records p_old p_new"
  shows "membership_after p_old plan x \<noteq> None"
    "membership_after p_old plan x = membership_after p_old plan y \<longleftrightarrow> x = y \<or> (\<exists>g \<in> set p_new. x \<in> set g \<and> y \<in> set g)"
proof -
  let ?groups = "groups_of p_new" and ?orphans = "orphans_of (entity_of_record_map (canonical_old p_old)) (groups_of p_new)"
  note after = after_plan [OF wf m mi plan]
  have ok: "bmap_ok (canonical_old p_old)" using wf(1) canonical_old_mem(2) by (simp add: old_ok_def)
  have cases: "(\<exists>k ms. (k, ms) \<in> set ?groups \<and> z \<in> set ms) \<or> z \<in> set ?orphans" if "z \<in> all_records p_old p_new" for z
    using that orphan_iff [OF wf, of z] group_of_iff [OF wf(2), of z z] by (auto simp: all_records_def)
  have entity: "\<exists>i. group_entity accepted minted_ids k = Some i" if "(k, ms) \<in> set ?groups" for k ms
    using group_entity_exists [OF that minted_okD(1) [OF mi]] .
  have orphan: "\<exists>i. map_of minted_ids z = Some i" if "z \<in> set ?orphans" for z
    using that minted_okD(1) [OF mi, of z] by (auto simp: mint_keys_of_def)
  show "membership_after p_old plan x \<noteq> None" using cases [OF xy(1)] after entity orphan by fastforce
  have apart: "\<not> (\<exists>g \<in> set p_new. z \<in> set g)" if "z \<in> set ?orphans" for z using that orphan_iff [OF wf, of z] by blast
  have key_in: "\<exists>g \<in> set p_new. k \<in> set g" if "(k, ms) \<in> set ?groups" for k ms
    using group_members(5) [OF wf(2) that] that group_of_iff [OF wf(2), of k k] by blast
  have mixed: "membership_after p_old plan u \<noteq> membership_after p_old plan v"
    if u: "(k, ms) \<in> set ?groups" "u \<in> set ms" and v: "v \<in> set ?orphans" for u v k ms
  proof
    assume eq: "membership_after p_old plan u = membership_after p_old plan v"
    obtain i where i: "map_of minted_ids v = Some i" using orphan [OF v] by blast
    then have "group_entity accepted minted_ids k = Some i" using eq after(1) [OF u] after(2) [OF v] by simp
    then have "v = k" using group_entity_not_orphan [OF m ok mi _ i] by blast
    then show False using key_in [OF u(1)] apart [OF v] by blast
  qed
  show "membership_after p_old plan x = membership_after p_old plan y \<longleftrightarrow> x = y \<or> (\<exists>g \<in> set p_new. x \<in> set g \<and> y \<in> set g)"
  proof (cases "x \<in> set ?orphans \<or> y \<in> set ?orphans")
    case True
    then have no: "\<not> (\<exists>g \<in> set p_new. x \<in> set g \<and> y \<in> set g)" using apart by blast
    have "x = y" if eq: "membership_after p_old plan x = membership_after p_old plan y"
    proof -
      have both: "x \<in> set ?orphans" "y \<in> set ?orphans"
      proof -
        have nx: "x \<in> set ?orphans" if "y \<in> set ?orphans"
          using cases [OF xy(1)] mixed [OF _ _ that] eq by blast
        have ny: "y \<in> set ?orphans" if "x \<in> set ?orphans"
          using cases [OF xy(2)] mixed [OF _ _ that] eq [symmetric] by blast
        show "x \<in> set ?orphans" "y \<in> set ?orphans" using True nx ny by blast+
      qed
      obtain i where i: "map_of minted_ids x = Some i" using orphan [OF both(1)] by blast
      have "map_of minted_ids y = membership_after p_old plan y" using after(2) [OF both(2)] by (rule sym)
      also have "\<dots> = membership_after p_old plan x" using eq by (rule sym)
      also have "\<dots> = Some i" using after(2) [OF both(1)] i by (rule trans)
      finally have "map_of minted_ids y = Some i" .
      with i show ?thesis by (rule minted_okD(3) [OF mi])
    qed
    then show ?thesis using no by blast
  next
    case False
    then obtain k ms k' ms' where g: "(k, ms) \<in> set ?groups" "x \<in> set ms" "(k', ms') \<in> set ?groups" "y \<in> set ms'"
      using cases xy by blast
    obtain i where i: "group_entity accepted minted_ids k = Some i" using entity [OF g(1)] by blast
    have same_key: "ms = ms'" if "k = k'"
      using that g bmap_get_mem [OF groups_of_mem(1) [OF wf(2)]] by (metis option.inject)
    have "membership_after p_old plan x = membership_after p_old plan y \<longleftrightarrow> k = k'"
      unfolding after(1) [OF g(1,2)] after(1) [OF g(3,4)]
    proof
      assume "group_entity accepted minted_ids k = group_entity accepted minted_ids k'"
      then have "group_entity accepted minted_ids k' = Some i" using i by (rule trans [OF sym])
      then show "k = k'" by (rule group_entity_inj [OF m ok mi i])
    qed (rule arg_cong)
    also have "\<dots> \<longleftrightarrow> (\<exists>g \<in> set p_new. x \<in> set g \<and> y \<in> set g)"
      unfolding group_of_iff [OF wf(2)] using g same_key groups_disjoint [OF wf(2)] by blast
    finally show ?thesis using g(1,2) group_of_iff [OF wf(2), of x x] by blast
  qed
qed

subsection \<open>Properties\<close>

text \<open>C30: the plan realises the new partition. For disjoint prior entities, disjoint non-empty new groups
  and a factory that mints fresh ids, the plan is computed without a panic; after its assignments
  every record has an entity, and two records have the same one exactly when the clustering put them
  in one group. A prior record the clustering placed nowhere gets an entity of its own.\<close>

theorem reconcile_realises_partition:
  assumes "old_ok p_old" "new_ok p_new"
    and "mints_fresh new_id factory (fst ` set p_old) (length p_new + length (concat (map snd p_old)))"
  shows "\<exists>plan factory'. reconcile_plan to_text sha256 new_id p_old p_new factory = Ret (plan, factory')
    \<and> (\<forall>x \<in> all_records p_old p_new. membership_after p_old plan x \<noteq> None
        \<and> (\<forall>y \<in> all_records p_old p_new. membership_after p_old plan x = membership_after p_old plan y
             \<longleftrightarrow> x = y \<or> (\<exists>g \<in> set p_new. x \<in> set g \<and> y \<in> set g)))"
proof -
  obtain plan f' offers accepted minted_ids where run:
    "reconcile_plan to_text sha256 new_id p_old p_new factory = Ret (plan, f')"
    "matching (canonical_old p_old) (groups_of p_new) offers accepted"
    "minted_ok (canonical_old p_old) (groups_of p_new) accepted minted_ids"
    "set (assignments plan) = plan_sets (planned_event_new to_text sha256) (canonical_old p_old) (groups_of p_new) offers accepted minted_ids fst"
    using plan_run [OF assms] by blast
  note part = after_plan_partition [OF assms(1,2) run(2-4)]
  have "\<forall>x \<in> all_records p_old p_new. membership_after p_old plan x \<noteq> None
        \<and> (\<forall>y \<in> all_records p_old p_new. membership_after p_old plan x = membership_after p_old plan y
             \<longleftrightarrow> x = y \<or> (\<exists>g \<in> set p_new. x \<in> set g \<and> y \<in> set g))"
  proof (intro ballI conjI)
    fix x assume x: "x \<in> all_records p_old p_new"
    show "membership_after p_old plan x \<noteq> None" by (rule part(1) [OF x x])
    fix y assume y: "y \<in> all_records p_old p_new"
    show "membership_after p_old plan x = membership_after p_old plan y \<longleftrightarrow> x = y \<or> (\<exists>g \<in> set p_new. x \<in> set g \<and> y \<in> set g)"
      by (rule part(2) [OF x y])
  qed
  then show ?thesis using run(1) by blast
qed

text \<open>A factory that counts and writes its counter in unary: enough to exhibit the hypotheses.\<close>

definition hash_id :: "nat \<Rightarrow> string" where
  "hash_id n = replicate n CHR ''#''"

lemma counting_fresh:
  assumes "counting_able t c n" "\<forall>i. t (c + i) \<notin> taken"
  shows "mints_fresh (counting_new_id t) c taken n"
  unfolding mints_fresh_def
proof (intro allI impI)
  fix k assume "k \<le> n"
  then have able: "counting_able t c k" using assms(1) by (auto simp: counting_able_def)
  obtain f' where run: "mint_ids (counting_new_id t) k c = Ret (map (\<lambda>i. t (c + i)) [0..<k], f')"
    using counting.mint_ids_run [OF able] by blast
  have "set (map (\<lambda>i. t (c + i)) [0..<k]) \<inter> taken = {}" using assms(2) by auto
  then show "\<exists>ids f'. mint_ids (counting_new_id t) k c = Ret (ids, f') \<and> length ids = k \<and> distinct ids \<and> set ids \<inter> taken = {}"
    using run counting.mint_ids_distinct [OF able run] by blast
qed

definition sample_old :: "(string, string list) bmap" where
  "sample_old = [(''e1'', [''a'', ''b'', ''c'']), (''e2'', [''d'', ''e'', ''f''])]"

definition sample_new :: "string list list" where
  "sample_new = [[''a'', ''b'', ''d''], [''c''], [''e'', ''g'']]"

lemma sample_ok: "old_ok sample_old" "new_ok sample_new"
  by (simp_all add: sample_old_def sample_new_def old_ok_def new_ok_def bmap_ok_def pairwise_def)

lemma sample_fresh: "mints_fresh (counting_new_id hash_id) 3 (fst ` set sample_old) n" if "n < 100"
proof (rule counting_fresh)
  show "counting_able hash_id 3 n" using that by (auto simp: counting_able_def hash_id_def inj_on_def)
  show "\<forall>i. hash_id (3 + i) \<notin> fst ` set sample_old"
    by (auto simp: sample_old_def hash_id_def dest: arg_cong [where f = length])
qed

theorem reconcile_realises_partition_witness:
  "\<exists>plan factory'. reconcile_plan (\<lambda>d. ''details'') (\<lambda>s. replicate 32 0) (counting_new_id hash_id) sample_old sample_new 3
      = Ret (plan, factory')
    \<and> membership_after sample_old plan ''a'' = membership_after sample_old plan ''d''
    \<and> membership_after sample_old plan ''a'' \<noteq> membership_after sample_old plan ''c''
    \<and> membership_after sample_old plan ''f'' \<noteq> membership_after sample_old plan ''e''"
proof -
  have n: "length sample_new + length (concat (map snd sample_old)) < 100" by (simp add: sample_old_def sample_new_def)
  obtain plan factory' where
    run: "reconcile_plan (\<lambda>d. ''details'') (\<lambda>s. replicate 32 0) (counting_new_id hash_id) sample_old sample_new 3 = Ret (plan, factory')"
    and all: "\<forall>x \<in> all_records sample_old sample_new. membership_after sample_old plan x \<noteq> None
      \<and> (\<forall>y \<in> all_records sample_old sample_new. membership_after sample_old plan x = membership_after sample_old plan y
        \<longleftrightarrow> x = y \<or> (\<exists>g \<in> set sample_new. x \<in> set g \<and> y \<in> set g))"
    using reconcile_realises_partition [OF sample_ok sample_fresh [OF n],
      of "\<lambda>d. ''details''" "\<lambda>s. replicate 32 0"] by (elim exE conjE)
  have part: "membership_after sample_old plan x = membership_after sample_old plan y
        \<longleftrightarrow> x = y \<or> (\<exists>g \<in> set sample_new. x \<in> set g \<and> y \<in> set g)"
    if "x \<in> all_records sample_old sample_new" "y \<in> all_records sample_old sample_new" for x y
    using bspec [OF all that(1)] that(2) by (elim conjE) (rule bspec)
  have mem: "{''a'', ''c'', ''d'', ''e'', ''f''} \<subseteq> all_records sample_old sample_new"
    by (simp add: all_records_def sample_old_def sample_new_def)
  have "membership_after sample_old plan ''a'' = membership_after sample_old plan ''d''"
    by (subst part) (use mem in \<open>auto simp: sample_new_def\<close>)
  moreover have "membership_after sample_old plan ''a'' \<noteq> membership_after sample_old plan ''c''"
    by (subst part) (use mem in \<open>auto simp: sample_new_def\<close>)
  moreover have "membership_after sample_old plan ''f'' \<noteq> membership_after sample_old plan ''e''"
    by (subst part) (use mem in \<open>auto simp: sample_new_def\<close>)
  ultimately show ?thesis using run by blast
qed

end
