(* ===== verification/Identity.thy ===== *)
theory Identity
  imports Reconcile
begin

text \<open>
  What the reconcile plan promises about entity ids, over the model of \<open>er-reconcile/src/reconcile.rs\<close>
  in theory \<open>Reconcile\<close>: re-running it on its own result changes nothing, a prior entity is
  retired, merged or kept exactly as its members dictate, merges never chain, and an id that
  survives follows its largest fragment.
\<close>

section \<open>The rows of a plan\<close>

lemma statuses_distinct [simp]:
  "ACTIVE \<noteq> RETIRED" "ACTIVE \<noteq> MERGED" "MERGED \<noteq> RETIRED" "RETIRED \<noteq> ACTIVE" "MERGED \<noteq> ACTIVE" "RETIRED \<noteq> MERGED"
  by (simp_all add: ACTIVE_def RETIRED_def MERGED_def)

lemma overlap_set [simp]: "set (overlap ms em) = set ms \<inter> set em"
  by (auto simp: overlap_def)

lemma overlap_Nil_iff: "overlap ms em = [] \<longleftrightarrow> set ms \<inter> set em = {}"
  by (metis overlap_set set_empty)

lemma length_overlap: "distinct ms \<Longrightarrow> length (overlap ms em) = card (set ms \<inter> set em)"
  by (metis distinct_card distinct_filter overlap_def overlap_set)

lemma frank_length: "ov \<noteq> [] \<Longrightarrow> ov' \<noteq> [] \<Longrightarrow> frank ov \<le> frank ov' \<Longrightarrow> length ov' \<le> length ov"
  by (auto simp: fragment_rank_def less_eq_prod_def split: list.splits)

text \<open>The transitions that touch a prior entity.\<close>

lemma transition_cases:
  fixes p_old p_new
  defines "old \<equiv> canonical_old p_old" and "groups \<equiv> groups_of p_new"
  assumes m: "matching old groups offers accepted" and ok: "bmap_ok old" "bmap_ok groups"
    and mi: "minted_ok old groups accepted minted_ids"
    and t: "t \<in> plan_sets mk old groups offers accepted minted_ids (\<lambda>r. fst (snd r))"
  shows "tr_status t = ACTIVE
    \<or> (\<exists>em. (tr_entity_id t, em) \<in> set old \<and> map_of offers (tr_entity_id t) = None \<and> tr_status t = RETIRED \<and> tr_merged_into t = None)
    \<or> (\<exists>em k c. (tr_entity_id t, em) \<in> set old \<and> map_of offers (tr_entity_id t) = Some k \<and> map_of accepted k = Some c
         \<and> c \<noteq> tr_entity_id t \<and> tr_status t = MERGED \<and> tr_merged_into t = Some c)"
proof -
  let ?eor = "entity_of_record_map old" and ?M = "overlap_matrix old groups"
  consider (group) k ms where "(k, ms) \<in> set groups"
      "t \<in> set (fst (snd (the_ret (group_rows mk old ?M offers accepted ?eor minted_ids k ms))))"
    | (entity) e em where "(e, em) \<in> set old" "t \<in> set (fst (snd (the_ret (entity_rows mk ?M offers accepted e em))))"
    | (orphan) x where "x \<in> set (orphans_of ?eor groups)" "t \<in> set (fst (snd (the_ret (orphan_rows mk minted_ids x))))"
    using t unfolding plan_sets_def by blast
  then show ?thesis
  proof cases
    case group
    obtain eid where "group_entity accepted minted_ids k = Some eid"
      using group_entity_exists [OF group(1) minted_okD(1) [OF mi]] by blast
    from group(2) [unfolded group_rows_Ret [OF m ok group(1) this]] show ?thesis
      by (auto simp: kept_rows_def Let_def split: option.splits if_splits)
  next
    case entity
    show ?thesis
    proof (cases "map_of offers e")
      case None
      then show ?thesis using entity unfolding entity_rows_Ret [OF m ok(1)] by auto
    next
      case (Some k)
      then obtain c where "map_of accepted k = Some c" using matchingD(3) [OF m ok(1)] by blast
      then show ?thesis using entity Some unfolding entity_rows_Ret [OF m ok(1)]
        by (auto simp: Let_def split: if_splits)
    qed
  next
    case orphan
    obtain i where "map_of minted_ids x = Some i"
      using orphan(1) minted_okD(1) [OF mi, of x] by (auto simp: mint_keys_of_def)
    then show ?thesis using orphan(2) by (simp add: orphan_rows_def)
  qed
qed

text \<open>Conversely, the row each prior entity gets.\<close>

lemma entity_transition_rows:
  assumes m: "matching old groups offers accepted" and ok: "bmap_ok old" and e: "(e, em) \<in> set old"
  shows "map_of offers e = None \<Longrightarrow> \<lparr>tr_entity_id = e, tr_status = RETIRED, tr_merged_into = None, tr_is_new = False\<rparr>
      \<in> plan_sets mk old groups offers accepted minted_ids (\<lambda>r. fst (snd r))"
    "map_of offers e = Some k \<Longrightarrow> map_of accepted k = Some c \<Longrightarrow> c \<noteq> e \<Longrightarrow>
      \<lparr>tr_entity_id = e, tr_status = MERGED, tr_merged_into = Some c, tr_is_new = False\<rparr>
      \<in> plan_sets mk old groups offers accepted minted_ids (\<lambda>r. fst (snd r))"
proof -
  have sub: "set (fst (snd (the_ret (entity_rows mk (overlap_matrix old groups) offers accepted e em))))
      \<subseteq> plan_sets mk old groups offers accepted minted_ids (\<lambda>r. fst (snd r))"
    using e unfolding plan_sets_def by blast
  show "map_of offers e = None \<Longrightarrow> \<lparr>tr_entity_id = e, tr_status = RETIRED, tr_merged_into = None, tr_is_new = False\<rparr>
      \<in> plan_sets mk old groups offers accepted minted_ids (\<lambda>r. fst (snd r))"
    by (rule subsetD [OF sub]) (simp add: entity_rows_Ret [OF m ok])
  show "map_of offers e = Some k \<Longrightarrow> map_of accepted k = Some c \<Longrightarrow> c \<noteq> e \<Longrightarrow>
      \<lparr>tr_entity_id = e, tr_status = MERGED, tr_merged_into = Some c, tr_is_new = False\<rparr>
      \<in> plan_sets mk old groups offers accepted minted_ids (\<lambda>r. fst (snd r))"
    by (rule subsetD [OF sub]) (simp add: entity_rows_Ret [OF m ok])
qed

section \<open>Fates of the prior entities\<close>

lemma old_facts:
  assumes "old_ok p_old" "(e, ms) \<in> set p_old"
  shows "bmap_ok (canonical_old p_old)" "(e, bset_of ms) \<in> set (canonical_old p_old)"
    "map_of (canonical_old p_old) e = Some (bset_of ms)"
proof -
  show ok: "bmap_ok (canonical_old p_old)" using assms(1) canonical_old_mem(2) by (simp add: old_ok_def)
  show mem: "(e, bset_of ms) \<in> set (canonical_old p_old)" using assms(2) canonical_old_mem(3) by blast
  show "map_of (canonical_old p_old) e = Some (bset_of ms)" using bmap_get_mem [OF ok] mem by blast
qed

lemma group_facts:
  assumes "new_ok p_new" "g \<in> set p_new"
  shows "(hd (bset_of g), bset_of g) \<in> set (groups_of p_new)" "map_of (groups_of p_new) (hd (bset_of g)) = Some (bset_of g)"
proof -
  show mem: "(hd (bset_of g), bset_of g) \<in> set (groups_of p_new)"
    using assms(2) unfolding groups_of_mem(2) [OF assms(1)] group_kv_def by blast
  show "map_of (groups_of p_new) (hd (bset_of g)) = Some (bset_of g)"
    using bmap_get_mem [OF groups_of_mem(1) [OF assms(1)]] mem by blast
qed

lemma group_ofE:
  assumes "new_ok p_new" "map_of (groups_of p_new) k = Some ks"
  obtains g where "g \<in> set p_new" "k = hd (bset_of g)" "ks = bset_of g"
proof -
  have "(k, ks) \<in> group_kv ` set p_new"
    using bmap_get_mem [OF groups_of_mem(1) [OF assms(1)]] assms(2) groups_of_mem(2) [OF assms(1)] by blast
  then show ?thesis using that by (auto simp: group_kv_def)
qed

lemma offer_None_iff:
  assumes wf: "old_ok p_old" "new_ok p_new" and e: "(e, ms) \<in> set p_old"
    and m: "matching (canonical_old p_old) (groups_of p_new) offers accepted"
  shows "map_of offers e = None \<longleftrightarrow> (\<forall>g \<in> set p_new. set g \<inter> set ms = {})"
proof -
  note old = old_facts [OF wf(1) e]
  have "(\<exists>k ov. cell_of (overlap_matrix (canonical_old p_old) (groups_of p_new)) k e = Some ov)
      \<longleftrightarrow> (\<exists>g \<in> set p_new. set g \<inter> set ms \<noteq> {})" (is "?c \<longleftrightarrow> ?g")
  proof
    assume ?c
    then obtain k ks where "map_of (groups_of p_new) k = Some ks" "overlap ks (bset_of ms) \<noteq> []"
      unfolding cell_iff [OF old(1)] old(3) by blast
    then show ?g by (elim group_ofE [OF wf(2)]) (auto simp: overlap_Nil_iff)
  next
    assume ?g
    then obtain g where g: "g \<in> set p_new" "set g \<inter> set ms \<noteq> {}" by blast
    have "overlap (bset_of g) (bset_of ms) \<noteq> []" using g(2) by (simp add: overlap_Nil_iff)
    then show ?c unfolding cell_iff [OF old(1)] old(3) using group_facts(2) [OF wf(2) g(1)] by blast
  qed
  then show ?thesis unfolding matchingD(1) [OF m old(1)] by (metis not_None_eq)
qed

text \<open>An accepted entity neither retires nor merges.\<close>

lemma accepted_survives:
  fixes p_old p_new
  defines "old \<equiv> canonical_old p_old" and "groups \<equiv> groups_of p_new"
  assumes m: "matching old groups offers accepted" and ok: "bmap_ok old" "bmap_ok groups"
    and mi: "minted_ok old groups accepted minted_ids" and c: "map_of accepted k = Some c"
    and t: "t \<in> plan_sets mk old groups offers accepted minted_ids (\<lambda>r. fst (snd r))" "tr_entity_id t = c"
  shows "tr_status t = ACTIVE"
proof -
  have "map_of offers c = Some k" using matchingD(2) [OF m ok(1) c] .
  then show ?thesis
    using transition_cases [OF m [unfolded old_def groups_def] ok [unfolded old_def groups_def]
        mi [unfolded old_def groups_def] t(1) [unfolded old_def groups_def]] t(2) c by auto
qed

section \<open>Properties\<close>

text \<open>A prior entity is retired by the plan exactly when no new group holds any of its members.\<close>

lemma reconcile_retires_exactly:
  assumes wf: "old_ok p_old" "new_ok p_new"
    and fresh: "mints_fresh new_id factory (fst ` set p_old) (length p_new + length (concat (map snd p_old)))"
    and e: "(e, ms) \<in> set p_old"
  shows "\<exists>plan factory'. reconcile_plan to_text sha256 new_id p_old p_new factory = Ret (plan, factory')
    \<and> ((\<exists>t \<in> set (transitions plan). tr_entity_id t = e \<and> tr_status t = RETIRED)
        \<longleftrightarrow> (\<forall>g \<in> set p_new. set g \<inter> set ms = {}))"
proof -
  obtain plan f' offers accepted minted_ids where run:
    "reconcile_plan to_text sha256 new_id p_old p_new factory = Ret (plan, f')"
    "matching (canonical_old p_old) (groups_of p_new) offers accepted"
    "minted_ok (canonical_old p_old) (groups_of p_new) accepted minted_ids"
    "set (transitions plan) = plan_sets (planned_event_new to_text sha256) (canonical_old p_old) (groups_of p_new)
        offers accepted minted_ids (\<lambda>r. fst (snd r))"
    using plan_run [OF wf fresh] by blast
  note old = old_facts [OF wf(1) e] and groups_ok = groups_of_mem(1) [OF wf(2)]
  have "(\<exists>t \<in> set (transitions plan). tr_entity_id t = e \<and> tr_status t = RETIRED) \<longleftrightarrow> map_of offers e = None"
  proof
    assume "\<exists>t \<in> set (transitions plan). tr_entity_id t = e \<and> tr_status t = RETIRED"
    then show "map_of offers e = None" unfolding run(4)
      by (auto dest!: transition_cases [OF run(2) old(1) groups_ok run(3)])
  next
    assume "map_of offers e = None"
    from entity_transition_rows(1) [OF run(2) old(1,2) this]
    show "\<exists>t \<in> set (transitions plan). tr_entity_id t = e \<and> tr_status t = RETIRED" unfolding run(4) by force
  qed
  also have "\<dots> \<longleftrightarrow> (\<forall>g \<in> set p_new. set g \<inter> set ms = {})" by (rule offer_None_iff [OF wf e run(2)])
  finally show ?thesis using run(1) by blast
qed

lemma reconcile_retires_exactly_witness:
  "\<exists>plan factory'. reconcile_plan (\<lambda>d. ''details'') (\<lambda>s. replicate 32 0) (counting_new_id hash_id) sample_old [[''a'', ''b'']] 3
      = Ret (plan, factory')
    \<and> (\<exists>t \<in> set (transitions plan). tr_entity_id t = ''e2'' \<and> tr_status t = RETIRED)"
proof -
  have new: "new_ok [[''a'', ''b'']]" by (simp add: new_ok_def)
  have n: "length [[''a'', ''b'']] + length (concat (map snd sample_old)) < 100" by (simp add: sample_old_def)
  have e: "(''e2'', [''d'', ''e'', ''f'']) \<in> set sample_old" by (simp add: sample_old_def)
  from reconcile_retires_exactly [OF sample_ok(1) new sample_fresh [OF n] e, of "\<lambda>d. ''details''" "\<lambda>s. replicate 32 0"]
  show ?thesis by simp
qed

text \<open>Merges do not chain. Every entity the plan merges names a different prior entity that the plan
  keeps active, and some member of the merged entity belongs to that target afterwards.\<close>

lemma reconcile_merge_targets_survive:
  assumes wf: "old_ok p_old" "new_ok p_new"
    and fresh: "mints_fresh new_id factory (fst ` set p_old) (length p_new + length (concat (map snd p_old)))"
  shows "\<exists>plan factory'. reconcile_plan to_text sha256 new_id p_old p_new factory = Ret (plan, factory')
    \<and> (\<forall>t \<in> set (transitions plan). tr_status t = MERGED \<longrightarrow>
        (\<exists>c ms x. tr_merged_into t = Some c \<and> c \<noteq> tr_entity_id t \<and> c \<in> fst ` set p_old
          \<and> (\<forall>t' \<in> set (transitions plan). tr_entity_id t' = c \<longrightarrow> tr_status t' = ACTIVE)
          \<and> (tr_entity_id t, ms) \<in> set p_old \<and> x \<in> set ms \<and> membership_after p_old plan x = Some c))"
proof -
  obtain plan f' offers accepted minted_ids where run:
    "reconcile_plan to_text sha256 new_id p_old p_new factory = Ret (plan, f')"
    "matching (canonical_old p_old) (groups_of p_new) offers accepted"
    "minted_ok (canonical_old p_old) (groups_of p_new) accepted minted_ids"
    "set (assignments plan) = plan_sets (planned_event_new to_text sha256) (canonical_old p_old) (groups_of p_new)
        offers accepted minted_ids fst"
    "set (transitions plan) = plan_sets (planned_event_new to_text sha256) (canonical_old p_old) (groups_of p_new)
        offers accepted minted_ids (\<lambda>r. fst (snd r))"
    using plan_run [OF wf fresh] by blast
  have ok: "bmap_ok (canonical_old p_old)" "bmap_ok (groups_of p_new)"
    using wf(1) canonical_old_mem(2) groups_of_mem(1) [OF wf(2)] by (auto simp: old_ok_def)
  have "\<exists>c ms x. tr_merged_into t = Some c \<and> c \<noteq> tr_entity_id t \<and> c \<in> fst ` set p_old
      \<and> (\<forall>t' \<in> set (transitions plan). tr_entity_id t' = c \<longrightarrow> tr_status t' = ACTIVE)
      \<and> (tr_entity_id t, ms) \<in> set p_old \<and> x \<in> set ms \<and> membership_after p_old plan x = Some c"
    if t: "t \<in> set (transitions plan)" "tr_status t = MERGED" for t
  proof -
    obtain em k c where c: "(tr_entity_id t, em) \<in> set (canonical_old p_old)" "map_of offers (tr_entity_id t) = Some k"
      "map_of accepted k = Some c" "c \<noteq> tr_entity_id t" "tr_merged_into t = Some c"
      using transition_cases [OF run(2) ok run(3) t(1) [unfolded run(5)]] t(2) by auto
    obtain ms where ms: "(tr_entity_id t, ms) \<in> set p_old" "em = bset_of ms" using c(1) canonical_old_mem(3) by blast
    obtain cem where "map_of (canonical_old p_old) c = Some cem"
      using matchingD(4) [OF run(2) ok(1) matchingD(2) [OF run(2) ok(1) c(3)]] by blast
    then have "(c, cem) \<in> set (canonical_old p_old)" by (rule map_of_SomeD)
    then have prior: "c \<in> fst ` set p_old" using canonical_old_mem(3) by force
    obtain ks em' where ks: "map_of (groups_of p_new) k = Some ks" "map_of (canonical_old p_old) (tr_entity_id t) = Some em'"
      "overlap ks em' \<noteq> []" using matchingD(4) [OF run(2) ok(1) c(2)] by blast
    have "map_of (canonical_old p_old) (tr_entity_id t) = Some em" using c(1) bmap_get_mem [OF ok(1)] by blast
    then have "em' = em" using ks(2) by simp
    then obtain x where x: "x \<in> set ks" "x \<in> set ms" using ks(3) ms(2) by (auto simp: overlap_Nil_iff)
    have "group_entity accepted minted_ids k = Some c" using c(3) by (simp add: group_entity_def)
    then have "membership_after p_old plan x = Some c"
      using after_plan(1) [OF wf run(2-4) map_of_SomeD [OF ks(1)] x(1)] by simp
    moreover have "\<forall>t' \<in> set (transitions plan). tr_entity_id t' = c \<longrightarrow> tr_status t' = ACTIVE"
      using accepted_survives [OF run(2) ok run(3) c(3)] unfolding run(5) by blast
    ultimately show ?thesis using c(4,5) prior ms(1) x(2) by blast
  qed
  then show ?thesis using run(1) by blast
qed

lemma reconcile_merge_targets_survive_witness:
  "\<exists>plan factory'. reconcile_plan (\<lambda>d. ''details'') (\<lambda>s. replicate 32 0) (counting_new_id hash_id) sample_old sample_new 3
      = Ret (plan, factory')
    \<and> (\<forall>t \<in> set (transitions plan). tr_status t = MERGED \<longrightarrow> tr_merged_into t \<noteq> Some (tr_entity_id t))"
proof -
  have n: "length sample_new + length (concat (map snd sample_old)) < 100" by (simp add: sample_old_def sample_new_def)
  from reconcile_merge_targets_survive [OF sample_ok sample_fresh [OF n], of "\<lambda>d. ''details''" "\<lambda>s. replicate 32 0"]
  show ?thesis by force
qed

text \<open>A surviving id follows its largest fragment. When a record of a new group carries the id of a
  prior entity after the plan, that group holds at least as many of the entity's former members as
  any other new group.\<close>

lemma reconcile_id_follows_largest_fragment:
  assumes wf: "old_ok p_old" "new_ok p_new"
    and fresh: "mints_fresh new_id factory (fst ` set p_old) (length p_new + length (concat (map snd p_old)))"
    and e: "(e, ms) \<in> set p_old" and g: "g \<in> set p_new" "x \<in> set g"
  shows "\<exists>plan factory'. reconcile_plan to_text sha256 new_id p_old p_new factory = Ret (plan, factory')
    \<and> (membership_after p_old plan x = Some e \<longrightarrow>
        set g \<inter> set ms \<noteq> {} \<and> (\<forall>h \<in> set p_new. card (set h \<inter> set ms) \<le> card (set g \<inter> set ms)))"
proof -
  obtain plan f' offers accepted minted_ids where run:
    "reconcile_plan to_text sha256 new_id p_old p_new factory = Ret (plan, f')"
    "matching (canonical_old p_old) (groups_of p_new) offers accepted"
    "minted_ok (canonical_old p_old) (groups_of p_new) accepted minted_ids"
    "set (assignments plan) = plan_sets (planned_event_new to_text sha256) (canonical_old p_old) (groups_of p_new)
        offers accepted minted_ids fst"
    using plan_run [OF wf fresh] by blast
  note old = old_facts [OF wf(1) e] and gf = group_facts [OF wf(2)]
  let ?k = "hd (bset_of g)" and ?M = "overlap_matrix (canonical_old p_old) (groups_of p_new)"
  have "set g \<inter> set ms \<noteq> {} \<and> (\<forall>h \<in> set p_new. card (set h \<inter> set ms) \<le> card (set g \<inter> set ms))"
    if id: "membership_after p_old plan x = Some e"
  proof -
    have "group_entity accepted minted_ids ?k = Some e"
      using after_plan(1) [OF wf run(2-4) gf(1) [OF g(1)]] g(2) id by simp
    moreover have "e \<in> fst ` set (canonical_old p_old)" using old(2) by force
    ultimately have "map_of accepted ?k = Some e"
      using minted_okD(2) [OF run(3)] by (auto simp: group_entity_def split: option.splits)
    then have offer: "map_of offers e = Some ?k" using matchingD(2) [OF run(2) old(1)] by blast
    have cell: "cell_of ?M (hd (bset_of h)) e = Some (overlap (bset_of h) (bset_of ms))"
      if "h \<in> set p_new" "set h \<inter> set ms \<noteq> {}" for h
      unfolding cell_iff [OF old(1)] using gf(2) [OF that(1)] old(3) that(2) by (auto simp: overlap_Nil_iff)
    have own: "set g \<inter> set ms \<noteq> {}"
      using matchingD(4) [OF run(2) old(1) offer] gf(2) [OF g(1)] old(3) by (auto simp: overlap_Nil_iff)
    have "card (set h \<inter> set ms) \<le> card (set g \<inter> set ms)" if h: "h \<in> set p_new" for h
    proof (cases "set h \<inter> set ms = {}")
      case False
      have "length (overlap (bset_of h) (bset_of ms)) \<le> length (overlap (bset_of g) (bset_of ms))"
        using matchingD(5) [OF run(2) old(1) offer cell [OF h False]] cell [OF g(1) own] False own
        by (intro frank_length) (simp_all add: overlap_Nil_iff)
      then show ?thesis by (simp add: length_overlap)
    qed simp
    then show ?thesis using own by blast
  qed
  then show ?thesis using run(1) by blast
qed

lemma reconcile_id_follows_largest_fragment_witness:
  "\<exists>plan factory'. reconcile_plan (\<lambda>d. ''details'') (\<lambda>s. replicate 32 0) (counting_new_id hash_id) sample_old sample_new 3
      = Ret (plan, factory') \<and> membership_after sample_old plan ''c'' \<noteq> Some ''e1''"
proof -
  have n: "length sample_new + length (concat (map snd sample_old)) < 100" by (simp add: sample_old_def sample_new_def)
  have e: "(''e1'', [''a'', ''b'', ''c'']) \<in> set sample_old" by (simp add: sample_old_def)
  have g: "[''c''] \<in> set sample_new" "''c'' \<in> set [''c'']" by (simp_all add: sample_new_def)
  have h: "[''a'', ''b'', ''d''] \<in> set sample_new" by (simp add: sample_new_def)
  have "\<not> card (set [''a'', ''b'', ''d''] \<inter> set [''a'', ''b'', ''c'']) \<le> card (set [''c''] \<inter> set [''a'', ''b'', ''c''])" by simp
  with reconcile_id_follows_largest_fragment [OF sample_ok sample_fresh [OF n] e g, of "\<lambda>d. ''details''" "\<lambda>s. replicate 32 0"] h
  show ?thesis by blast
qed

section \<open>Stability\<close>

text \<open>When the new groups are the old member sets, every entity offers to and is accepted by its own group.\<close>

definition same_partition :: "(string, string list) bmap \<Rightarrow> string list list \<Rightarrow> bool" where
  "same_partition p_old p_new \<longleftrightarrow> (\<lambda>(e, ms). set ms) ` set p_old = set ` set p_new"

lemma same_partition_group:
  assumes wf: "old_ok p_old" "new_ok p_new" and same: "same_partition p_old p_new"
    and k: "(k, ks) \<in> set (groups_of p_new)"
  obtains e where "(e, ks) \<in> set (canonical_old p_old)"
proof -
  obtain g where g: "g \<in> set p_new" "ks = bset_of g" using k unfolding groups_of_mem(2) [OF wf(2)] by (auto simp: group_kv_def)
  have "set g \<in> (\<lambda>(e, ms). set ms) ` set p_old" using same g(1) unfolding same_partition_def by blast
  then obtain e ms where "(e, ms) \<in> set p_old" "set ms = set g" by auto
  then show ?thesis using that canonical_old_mem(3) g(2) bset_of_cong by metis
qed

lemma same_partition_entity:
  assumes wf: "old_ok p_old" "new_ok p_new" and same: "same_partition p_old p_new"
    and e: "(e, em) \<in> set (canonical_old p_old)"
  shows "em \<noteq> []" "(hd em, em) \<in> set (groups_of p_new)"
proof -
  obtain ms where ms: "(e, ms) \<in> set p_old" "em = bset_of ms" using e canonical_old_mem(3) by blast
  have "set ms \<in> (\<lambda>(e, ms). set ms) ` set p_old" using ms(1) by (rule rev_image_eqI) simp
  then obtain g where g: "g \<in> set p_new" "set g = set ms" unfolding same [unfolded same_partition_def] by (elim imageE) simp
  have em: "em = bset_of g" using g(2) ms(2) bset_of_cong by metis
  then show mem: "(hd em, em) \<in> set (groups_of p_new)" using group_facts(1) [OF wf(2) g(1)] by simp
  show "em \<noteq> []" using group_members(3) [OF wf(2) mem] .
qed

lemma same_partition_matching:
  assumes wf: "old_ok p_old" "new_ok p_new" and same: "same_partition p_old p_new"
    and m: "matching (canonical_old p_old) (groups_of p_new) offers accepted"
    and e: "(e, em) \<in> set (canonical_old p_old)"
  shows "map_of offers e = Some (hd em)" "map_of accepted (hd em) = Some e"
proof -
  have ok: "bmap_ok (canonical_old p_old)" "bmap_ok (groups_of p_new)"
    using wf(1) canonical_old_mem(2) groups_of_mem(1) [OF wf(2)] by (auto simp: old_ok_def)
  have own: "e' = e'' \<and> k = hd em'" if e': "(e', em') \<in> set (canonical_old p_old)" and o: "map_of offers e'' = Some k"
    and hit: "map_of (groups_of p_new) k = Some ks" "x \<in> set ks" "x \<in> set em'" "map_of (canonical_old p_old) e'' = Some ex" "x \<in> set ex"
    for e' em' e'' k ks x ex
    using canonical_old_disjoint [OF wf(1) e' map_of_SomeD [OF hit(4)] hit(3,5)]
      groups_disjoint [OF wf(2) map_of_SomeD [OF hit(1)] same_partition_entity(2) [OF wf same e'] hit(2,3)] by blast
  have eg: "map_of (canonical_old p_old) e = Some em" using bmap_get_mem [OF ok(1)] e by blast
  have "cell_of (overlap_matrix (canonical_old p_old) (groups_of p_new)) (hd em) e = Some em"
  proof -
    have "overlap em em = em" by (simp add: overlap_def)
    moreover have "map_of (groups_of p_new) (hd em) = Some em"
      using same_partition_entity(2) [OF wf same e] bmap_get_mem [OF ok(2)] by blast
    ultimately show ?thesis unfolding cell_iff [OF ok(1)] using eg same_partition_entity(1) [OF wf same e] by simp
  qed
  then have "map_of offers e \<noteq> None" using matchingD(1) [OF m ok(1), of e] by (metis option.distinct(1))
  then obtain k where k: "map_of offers e = Some k" by blast
  from matchingD(4) [OF m ok(1) k] obtain ks where ks: "map_of (groups_of p_new) k = Some ks" "overlap ks em \<noteq> []"
    unfolding eg by auto
  then obtain x where "x \<in> set ks" "x \<in> set em" by (auto simp: overlap_Nil_iff)
  with own [OF e k ks(1) _ _ eg] have "k = hd em" by blast
  with k show offer: "map_of offers e = Some (hd em)" by simp
  obtain c where c: "map_of accepted (hd em) = Some c" using matchingD(3) [OF m ok(1) offer] by blast
  have oc: "map_of offers c = Some (hd em)" using matchingD(2) [OF m ok(1) c] .
  from matchingD(4) [OF m ok(1) oc] obtain ks cem where
    kc: "map_of (groups_of p_new) (hd em) = Some ks" "map_of (canonical_old p_old) c = Some cem" "overlap ks cem \<noteq> []" by blast
  have "ks = em" using kc(1) same_partition_entity(2) [OF wf same e] bmap_get_mem [OF ok(2)] by (metis option.inject)
  with kc(3) obtain x where "x \<in> set em" "x \<in> set cem" by (auto simp: overlap_Nil_iff)
  with own [OF e oc kc(1) _ _ kc(2)] \<open>ks = em\<close> have "e = c" by blast
  with c show "map_of accepted (hd em) = Some e" by simp
qed

lemma same_partition_quiet:
  fixes p_old p_new
  defines "old \<equiv> canonical_old p_old" and "groups \<equiv> groups_of p_new"
  assumes wf: "old_ok p_old" "new_ok p_new" and same: "same_partition p_old p_new"
    and m: "matching old groups offers accepted"
  shows "orphans_of (entity_of_record_map old) groups = []" "mint_keys_of groups accepted [] = []"
    "(k, ks) \<in> set groups \<Longrightarrow> group_rows mk old (overlap_matrix old groups) offers accepted (entity_of_record_map old) minted_ids k ks
       = Ret ([], [], [])"
    "(e, em) \<in> set old \<Longrightarrow> entity_rows mk (overlap_matrix old groups) offers accepted e em = Ret ([], [], [])"
proof -
  have ok: "bmap_ok old" "bmap_ok groups"
    using wf(1) canonical_old_mem(2) groups_of_mem(1) [OF wf(2)] by (auto simp: old_def groups_def old_ok_def)
  note match = same_partition_matching [OF wf same m [unfolded old_def groups_def], folded old_def groups_def]
  have acc: "\<exists>e. (e, ks) \<in> set old \<and> k = hd ks \<and> map_of accepted k = Some e" if k: "(k, ks) \<in> set groups" for k ks
  proof -
    obtain e where e: "(e, ks) \<in> set old" using same_partition_group [OF wf same] k unfolding old_def groups_def by blast
    then show ?thesis using match(2) [OF e] group_members(4) [OF wf(2) k [unfolded groups_def]] by auto
  qed
  have "x \<notin> set (orphans_of (entity_of_record_map old) groups)" for x
  proof
    assume x: "x \<in> set (orphans_of (entity_of_record_map old) groups)"
    then have "map_of (entity_of_record_map old) x \<noteq> None" unfolding map_of_eq_None_iff by (auto simp: orphans_of_def)
    then obtain e em where "(e, em) \<in> set old" "x \<in> set em" using entity_of_record_iff [OF wf(1)] unfolding old_def by blast
    then have "x \<in> clustered_set groups"
      using same_partition_entity(2) [OF wf same] unfolding old_def groups_def clustered_set_def by blast
    then show False using x by (simp add: orphans_of_def)
  qed
  then show "orphans_of (entity_of_record_map old) groups = []" by (metis list.set_intros(1) neq_Nil_conv)
  show "mint_keys_of groups accepted [] = []"
  proof -
    have "filter (\<lambda>k. map_of accepted k = None) (bmap_keys groups) = []"
      unfolding filter_empty_conv
    proof
      fix k assume "k \<in> set (bmap_keys groups)"
      then obtain ks where "(k, ks) \<in> set groups" by auto
      then show "map_of accepted k \<noteq> None" using acc by force
    qed
    then show ?thesis by (simp add: mint_keys_of_def)
  qed
  show "entity_rows mk (overlap_matrix old groups) offers accepted e em = Ret ([], [], [])" if e: "(e, em) \<in> set old"
    unfolding entity_rows_Ret [OF m ok(1)] using match [OF e] by simp
  show "group_rows mk old (overlap_matrix old groups) offers accepted (entity_of_record_map old) minted_ids k ks = Ret ([], [], [])"
    if k: "(k, ks) \<in> set groups"
  proof -
    obtain e where e: "(e, ks) \<in> set old" "k = hd ks" "map_of accepted k = Some e" using acc [OF k] by blast
    have own: "map_of (entity_of_record_map old) x = Some e" if "x \<in> set ks" for x
      using e(1) that entity_of_record_iff [OF wf(1)] unfolding old_def by blast
    have get: "map_of old e = Some ks" using e(1) bmap_get_mem [OF ok(1)] by blast
    have cells: "map_of offers e' = Some k" if "(e', ov) \<in> set (overlap_row old ks)" for e' ov
    proof -
      from that obtain em where em: "(e', em) \<in> set old" "overlap ks em \<noteq> []" by (auto simp: overlap_row_def)
      then obtain x where "x \<in> set ks" "x \<in> set em" by (auto simp: overlap_Nil_iff)
      then have "e' = e" using canonical_old_disjoint [OF wf(1) em(1) [unfolded old_def] e(1) [unfolded old_def]] by blast
      then show ?thesis using match(1) [OF e(1)] e(2) by simp
    qed
    have "group_assignments (entity_of_record_map old) e ks = []" using own by (simp add: group_assignments_def filter_empty_conv)
    moreover have "kept_rows mk (entity_of_record_map old) e ks ks = ([], [])" using own by (simp add: kept_rows_def filter_empty_conv)
    moreover have "split_events mk offers k e (overlap_row old ks) = []"
      using cells by (auto simp: split_events_def filter_empty_conv)
    moreover have "group_entity accepted minted_ids k = Some e" using e(3) by (simp add: group_entity_def)
    ultimately show ?thesis using group_rows_Ret [OF m ok k] e(3) get by simp
  qed
qed

text \<open>C33: reconciliation is stable. When the new groups are exactly the prior member sets, in any order and
  with any repetition inside a list, the plan is empty and no id is minted.\<close>

theorem reconcile_stable:
  assumes wf: "old_ok p_old" "new_ok p_new" and same: "same_partition p_old p_new"
    and fresh: "mints_fresh new_id factory (fst ` set p_old) (length p_new + length (concat (map snd p_old)))"
  shows "\<exists>plan factory'. reconcile_plan to_text sha256 new_id p_old p_new factory = Ret (plan, factory')
    \<and> plan_is_empty plan \<and> minted plan = []"
proof -
  obtain plan f' offers accepted minted_ids where run:
    "reconcile_plan to_text sha256 new_id p_old p_new factory = Ret (plan, f')"
    and m: "matching (canonical_old p_old) (groups_of p_new) offers accepted"
    and a: "set (assignments plan) = plan_sets (planned_event_new to_text sha256) (canonical_old p_old) (groups_of p_new)
        offers accepted minted_ids fst"
    and t: "set (transitions plan) = plan_sets (planned_event_new to_text sha256) (canonical_old p_old) (groups_of p_new)
        offers accepted minted_ids (\<lambda>r. fst (snd r))"
    and e: "set (events plan) = plan_sets (planned_event_new to_text sha256) (canonical_old p_old) (groups_of p_new)
        offers accepted minted_ids (\<lambda>r. snd (snd r))"
    and n: "length (minted plan) = length (mint_keys_of (groups_of p_new) accepted
        (orphans_of (entity_of_record_map (canonical_old p_old)) (groups_of p_new)))"
    using plan_run [OF wf fresh] by blast
  note quiet = same_partition_quiet [OF wf same m]
  have empty: "plan_sets mk (canonical_old p_old) (groups_of p_new) offers accepted minted_ids part = {}"
    if "part ([], [], []) = []" for mk and part :: "rows \<Rightarrow> 'r list"
    unfolding plan_sets_def using quiet(1,3,4) that by auto
  have "assignments plan = []" "transitions plan = []" "events plan = []"
    using a t e by (simp_all add: empty flip: set_empty)
  moreover have "minted plan = []" using n quiet(1,2) by simp
  ultimately show ?thesis using run by (auto simp: plan_is_empty_def)
qed

theorem reconcile_stable_witness:
  "\<exists>plan factory'. reconcile_plan (\<lambda>d. ''details'') (\<lambda>s. replicate 32 0) (counting_new_id hash_id) sample_old
      [[''f'', ''e'', ''d''], [''b'', ''a'', ''c'', ''a'']] 3 = Ret (plan, factory') \<and> plan_is_empty plan \<and> minted plan = []"
proof (rule reconcile_stable [OF sample_ok(1)])
  show "new_ok [[''f'', ''e'', ''d''], [''b'', ''a'', ''c'', ''a'']]" by (simp add: new_ok_def)
  show "same_partition sample_old [[''f'', ''e'', ''d''], [''b'', ''a'', ''c'', ''a'']]"
    by (auto simp: same_partition_def sample_old_def)
  show "mints_fresh (counting_new_id hash_id) 3 (fst ` set sample_old)
      (length [[''f'', ''e'', ''d''], [''b'', ''a'', ''c'', ''a'']] + length (concat (map snd sample_old)))"
    by (rule sample_fresh) (simp add: sample_old_def)
qed

end
