(* ===== verification/Utf8.thy ===== *)
theory Utf8
  imports Prelude
begin

text \<open>
  The \<open>str\<close> methods of the standard library the program calls whose meaning depends on the UTF-8
  encoding: trimming and splitting at Unicode white space, character boundaries, substring search.
  A string is the list of its bytes. A white-space character is recognised by its encoded bytes, so
  on text that is valid UTF-8 the functions agree with the character-wise definition.
\<close>

section \<open>White space\<close>

text \<open>The length of the white-space character a string starts with, 0 when it starts with another one.\<close>

abbreviation byte :: "char \<Rightarrow> nat" where
  "byte c \<equiv> of_char c"

definition ws1 :: "char \<Rightarrow> bool" where
  "ws1 a \<longleftrightarrow> 9 \<le> byte a \<and> byte a \<le> 13 \<or> byte a = 32"

definition ws2 :: "char \<Rightarrow> char \<Rightarrow> bool" where
  "ws2 a b \<longleftrightarrow> byte a = 0xC2 \<and> (byte b = 0x85 \<or> byte b = 0xA0)"

definition ws3 :: "char \<Rightarrow> char \<Rightarrow> char \<Rightarrow> bool" where
  "ws3 a b c \<longleftrightarrow>
     byte a = 0xE1 \<and> byte b = 0x9A \<and> byte c = 0x80
     \<or> byte a = 0xE2 \<and> byte b = 0x80
         \<and> (0x80 \<le> byte c \<and> byte c \<le> 0x8A \<or> byte c = 0xA8 \<or> byte c = 0xA9 \<or> byte c = 0xAF)
     \<or> byte a = 0xE2 \<and> byte b = 0x81 \<and> byte c = 0x9F
     \<or> byte a = 0xE3 \<and> byte b = 0x80 \<and> byte c = 0x80"

fun ws_len :: "string \<Rightarrow> nat" where
  "ws_len [] = 0"
| "ws_len [a] = (if ws1 a then 1 else 0)"
| "ws_len [a, b] = (if ws1 a then 1 else if ws2 a b then 2 else 0)"
| "ws_len (a # b # c # s) = (if ws1 a then 1 else if ws2 a b then 2 else if ws3 a b c then 3 else 0)"

text \<open>The length of the white-space character a string ends with.\<close>

definition ws_end_len :: "string \<Rightarrow> nat" where
  "ws_end_len s =
     (if s \<noteq> [] \<and> ws_len (drop (length s - 1) s) = 1 then 1
      else if 2 \<le> length s \<and> ws_len (drop (length s - 2) s) = 2 then 2
      else if 3 \<le> length s \<and> ws_len (drop (length s - 3) s) = 3 then 3
      else 0)"

lemma ws_len_le: "ws_len s \<le> length s"
  by (induction s rule: ws_len.induct) auto

lemma ws_end_len_le: "ws_end_len s \<le> length s"
  by (cases s) (auto simp: ws_end_len_def)

lemma ws_shorter: "0 < ws_len s \<Longrightarrow> length s - ws_len s < length s" "0 < ws_end_len s \<Longrightarrow> length s - ws_end_len s < length s"
  using ws_len_le [of s] ws_end_len_le [of s] by linarith+

function trim_start :: "string \<Rightarrow> string" where
  "trim_start s = (if ws_len s = 0 then s else trim_start (drop (ws_len s) s))"
  by pat_completeness auto
termination
  by (relation "measure length") (auto dest: ws_shorter)

function trim_end :: "string \<Rightarrow> string" where
  "trim_end s = (if ws_end_len s = 0 then s else trim_end (take (length s - ws_end_len s) s))"
  by pat_completeness auto
termination
  by (relation "measure length") (auto dest: ws_shorter)

declare trim_start.simps [simp del] trim_end.simps [simp del]

definition trim :: "string \<Rightarrow> string" where
  "trim s = trim_end (trim_start s)"

text \<open>\<open>split_whitespace\<close>: the maximal runs of other characters.\<close>

function words_loop :: "string \<Rightarrow> string \<Rightarrow> string list" where
  "words_loop cur s =
     (case s of
        [] \<Rightarrow> if cur = [] then [] else [cur]
      | c # cs \<Rightarrow>
          if ws_len s = 0 then words_loop (cur @ [c]) cs
          else (if cur = [] then [] else [cur]) @ words_loop [] (drop (ws_len s) s))"
  by pat_completeness auto
termination
  by (relation "measure (\<lambda>(cur, s). length s)") (auto simp: diff_less_Suc ws_len_le)

declare words_loop.simps [simp del]

definition split_whitespace :: "string \<Rightarrow> string list" where
  "split_whitespace s = words_loop [] s"

definition no_ws :: "string \<Rightarrow> bool" where
  "no_ws s \<longleftrightarrow> list_all (\<lambda>c. (33 :: nat) \<le> of_char c \<and> (of_char c :: nat) < 128) s"

lemma ws_len_visible: "no_ws (c # cs) \<Longrightarrow> ws_len (c # rest) = 0"
  by (cases "c # rest" rule: ws_len.cases) (auto simp: no_ws_def ws1_def ws2_def ws3_def)

lemma ws_len_space: "ws_len (CHR '' '' # rest) = 1"
  by (cases "CHR '' '' # rest" rule: ws_len.cases) (auto simp: ws1_def)

lemma words_loop_visible: "no_ws w \<Longrightarrow> words_loop cur (w @ s) = words_loop (cur @ w) s"
proof (induction w arbitrary: cur)
  case (Cons c w)
  have "words_loop cur ((c # w) @ s) = words_loop (cur @ [c]) (w @ s)"
    by (subst words_loop.simps) (simp add: ws_len_visible [OF Cons.prems])
  then show ?case using Cons by (simp add: no_ws_def)
qed simp

lemma words_loop_join:
  "list_all (\<lambda>w. w \<noteq> [] \<and> no_ws w) ws \<Longrightarrow> words_loop [] (join_with '' '' ws) = ws"
proof (induction "'' ''" ws rule: join_with.induct)
  case 1
  then show ?case by (simp add: words_loop.simps)
next
  case (2 x)
  then show ?case using words_loop_visible [of x "[]" "[]"] by (simp add: words_loop.simps)
next
  case (3 x y ys)
  have "words_loop [] (x @ '' '' @ join_with '' '' (y # ys)) = words_loop x ('' '' @ join_with '' '' (y # ys))"
    using 3 words_loop_visible [of x "[]"] by simp
  also have "\<dots> = [x] @ words_loop [] (join_with '' '' (y # ys))"
    using 3 by (subst words_loop.simps) (simp add: ws_len_space)
  finally show ?case using 3 by simp
qed

section \<open>Boundaries and substrings\<close>

definition is_char_boundary :: "string \<Rightarrow> nat \<Rightarrow> bool" where
  "is_char_boundary s i \<longleftrightarrow> i = 0 \<or> i = length s
     \<or> i < length s \<and> \<not> (128 \<le> (of_char (s ! i) :: nat) \<and> (of_char (s ! i) :: nat) < 192)"

fun contains :: "string \<Rightarrow> string \<Rightarrow> bool" where
  "contains needle [] = (needle = [])"
| "contains needle (c # cs) = (take (length needle) (c # cs) = needle \<or> contains needle cs)"

lemma contains_iff: "contains needle s \<longleftrightarrow> (\<exists>a b. s = a @ needle @ b)"
proof (induction s)
  case (Cons c cs)
  have "take (length needle) (c # cs) = needle \<longleftrightarrow> (\<exists>b. c # cs = needle @ b)"
    by (metis append_eq_conv_conj append_take_drop_id)
  then show ?case using Cons by (auto simp: Cons_eq_append_conv)
qed simp

text \<open>\<open>chars().take(n)\<close>: a byte that continues a character does not count.\<close>

fun take_chars :: "nat \<Rightarrow> string \<Rightarrow> string" where
  "take_chars n [] = []"
| "take_chars n (c # cs) =
     (if 128 \<le> byte c \<and> byte c < 192 then c # take_chars n cs
      else case n of 0 \<Rightarrow> [] | Suc m \<Rightarrow> c # take_chars m cs)"

fun trim_start_matches :: "char \<Rightarrow> string \<Rightarrow> string" where
  "trim_start_matches c [] = []"
| "trim_start_matches c (x # xs) = (if x = c then trim_start_matches c xs else x # xs)"

definition trim_end_matches :: "char \<Rightarrow> string \<Rightarrow> string" where
  "trim_end_matches c s = rev (trim_start_matches c (rev s))"

end
