(* ===== verification/PodClassify.thy ===== *)
theory PodClassify
  imports Json Utf8
begin

text \<open>
  The pod classifiers of \<open>er-k8s\<close>: the evidence snapshots of \<open>api.rs\<close>, the terminal record of
  \<open>record.rs\<close> with its size cap, and the two verdict tables of \<open>classify.rs\<close>. The Kubernetes object
  types are records of the fields the code reads; \<open>serde_json\<close>'s text form of a terminal record is
  the pair of parameters \<open>to_string\<close>/\<open>from_str\<close>.
\<close>

section \<open>Snapshots\<close>

record k8s_condition =
  c_type :: string
  c_status :: string
  c_reason :: "string option"
  c_message :: "string option"

record k8s_meta =
  m_name :: "string option"
  m_uid :: "string option"
  m_labels :: "(string, string) bmap option"
  m_annotations :: "(string, string) bmap option"
  m_deletion_timestamp :: "string option"

record k8s_job_status =
  js_conditions :: "k8s_condition list option"
  js_active :: "int option"
  js_succeeded :: "int option"
  js_failed :: "int option"

record k8s_job =
  j_metadata :: k8s_meta
  j_status :: "k8s_job_status option"

record job_snapshot =
  job_name :: string
  job_labels :: "(string, string) bmap"
  job_annotations :: "(string, string) bmap"
  active :: int
  succeeded :: int
  failed :: int
  failed_deadline :: bool
  failed_backoff :: bool
  job_deletion_timestamp :: bool

definition unwrap_or :: "'a \<Rightarrow> 'a option \<Rightarrow> 'a" where
  "unwrap_or d x = (case x of None \<Rightarrow> d | Some y \<Rightarrow> y)"

definition job_conditions :: "k8s_condition list \<Rightarrow> bool \<times> bool \<Rightarrow> bool \<times> bool" where
  "job_conditions cs = fold (\<lambda>c (deadline, backoff).
     if c_type c = ''Failed'' \<and> c_status c = ''True'' then
       (if c_reason c = Some ''DeadlineExceeded'' then (True, backoff)
        else if c_reason c = Some ''BackoffLimitExceeded'' then (deadline, True)
        else (deadline, backoff))
     else (deadline, backoff)) cs"

definition from_job :: "k8s_job \<Rightarrow> job_snapshot" where
  "from_job job =
     (let meta = j_metadata job; status = j_status job;
          flags = (case Option.bind status js_conditions of
                     None \<Rightarrow> (False, False) | Some cs \<Rightarrow> job_conditions cs (False, False)) in
      \<lparr>job_name = unwrap_or [] (m_name meta),
       job_labels = bmap_collect (unwrap_or [] (m_labels meta)),
       job_annotations = bmap_collect (unwrap_or [] (m_annotations meta)),
       active = unwrap_or 0 (Option.bind status js_active),
       succeeded = unwrap_or 0 (Option.bind status js_succeeded),
       failed = unwrap_or 0 (Option.bind status js_failed),
       failed_deadline = fst flags,
       failed_backoff = snd flags,
       job_deletion_timestamp = (m_deletion_timestamp meta \<noteq> None)\<rparr>)"

datatype pod_phase = Pending | PodRunning | PodSucceeded | PodFailed | UnknownPhase

record k8s_terminated =
  t_exit_code :: int
  t_reason :: "string option"
  t_message :: "string option"

record k8s_container_state =
  waiting :: "string option option"
  terminated :: "k8s_terminated option"

record k8s_pod_status =
  ps_phase :: "string option"
  ps_container_statuses :: "k8s_container_state option list option"
  ps_conditions :: "k8s_condition list option"
  ps_reason :: "string option"

record k8s_pod =
  p_metadata :: k8s_meta
  p_node_name :: "string option option"
  p_status :: "k8s_pod_status option"

record pod_snapshot =
  pod_name :: string
  pod_uid :: string
  node_name :: "string option"
  pod_labels :: "(string, string) bmap"
  pod_annotations :: "(string, string) bmap"
  phase :: pod_phase
  waiting_reason :: "string option"
  terminated_exit_code :: "int option"
  terminated_reason :: "string option"
  termination_message :: "string option"
  disruption_target :: "string option"
  status_reason :: "string option"
  unschedulable :: bool
  scheduling_message :: "string option"
  node_not_ready :: bool

definition phase_of :: "string option \<Rightarrow> pod_phase" where
  "phase_of p =
     (if p = Some ''Running'' then PodRunning
      else if p = Some ''Succeeded'' then PodSucceeded
      else if p = Some ''Failed'' then PodFailed
      else if p = Some ''Pending'' \<or> p = None then Pending
      else UnknownPhase)"

record container_evidence =
  ce_waiting_reason :: "string option"
  ce_exit_code :: "int option"
  ce_reason :: "string option"
  ce_message :: "string option"

definition container_step :: "k8s_container_state option \<Rightarrow> container_evidence \<Rightarrow> container_evidence" where
  "container_step cs ev =
     (case cs of
        None \<Rightarrow> ev
      | Some state \<Rightarrow>
          let ev' = (case waiting state of None \<Rightarrow> ev | Some reason \<Rightarrow> ev\<lparr>ce_waiting_reason := reason\<rparr>) in
          (case terminated state of
             None \<Rightarrow> ev'
           | Some t \<Rightarrow> ev'\<lparr>ce_exit_code := Some (t_exit_code t), ce_reason := t_reason t, ce_message := t_message t\<rparr>))"

definition no_container_evidence :: container_evidence where
  "no_container_evidence = \<lparr>ce_waiting_reason = None, ce_exit_code = None, ce_reason = None, ce_message = None\<rparr>"

record condition_evidence =
  cd_disruption_target :: "string option"
  cd_unschedulable :: bool
  cd_scheduling_message :: "string option"
  cd_node_not_ready :: bool

definition condition_step :: "k8s_condition \<Rightarrow> condition_evidence \<Rightarrow> condition_evidence" where
  "condition_step c ev =
     (if c_type c = ''DisruptionTarget'' \<and> c_status c = ''True''
        then ev\<lparr>cd_disruption_target := Some (unwrap_or ''DisruptionTarget'' (c_reason c))\<rparr>
      else if c_type c = ''PodScheduled'' \<and> c_status c = ''False''
        then ev\<lparr>cd_unschedulable := (c_reason c = Some ''Unschedulable'' \<or> cd_unschedulable ev),
                cd_scheduling_message := c_message c\<rparr>
      else if c_type c = ''Ready'' \<and> c_status c = ''False'' \<and> c_reason c = Some ''NodeNotReady''
        then ev\<lparr>cd_node_not_ready := True\<rparr>
      else ev)"

definition no_condition_evidence :: condition_evidence where
  "no_condition_evidence = \<lparr>cd_disruption_target = None, cd_unschedulable = False,
     cd_scheduling_message = None, cd_node_not_ready = False\<rparr>"

definition from_pod :: "k8s_pod \<Rightarrow> pod_snapshot" where
  "from_pod pod =
     (let meta = p_metadata pod; status = p_status pod;
          ce = fold container_step (unwrap_or [] (Option.bind status ps_container_statuses)) no_container_evidence;
          cd = fold condition_step (unwrap_or [] (Option.bind status ps_conditions)) no_condition_evidence in
      \<lparr>pod_name = unwrap_or [] (m_name meta),
       pod_uid = unwrap_or [] (m_uid meta),
       node_name = Option.bind (p_node_name pod) (\<lambda>n. n),
       pod_labels = bmap_collect (unwrap_or [] (m_labels meta)),
       pod_annotations = bmap_collect (unwrap_or [] (m_annotations meta)),
       phase = phase_of (Option.bind status ps_phase),
       waiting_reason = ce_waiting_reason ce,
       terminated_exit_code = ce_exit_code ce,
       terminated_reason = ce_reason ce,
       termination_message = ce_message ce,
       disruption_target = cd_disruption_target cd,
       status_reason = Option.bind status ps_reason,
       unschedulable = cd_unschedulable cd,
       scheduling_message = cd_scheduling_message cd,
       node_not_ready = cd_node_not_ready cd\<rparr>)"

definition pod_is_terminal :: "pod_snapshot \<Rightarrow> bool" where
  "pod_is_terminal pod \<longleftrightarrow> phase pod = PodSucceeded \<or> phase pod = PodFailed"

section \<open>The terminal record\<close>

definition TERMINATION_MESSAGE_CAP :: nat where
  "TERMINATION_MESSAGE_CAP = 4096"

datatype terminal_state = RecSucceeded | RecSkipped | RecFailed | Interrupted

record terminal_record =
  rec_v :: nat
  rec_attempt :: string
  rec_state :: terminal_state
  rec_exit :: int
  rec_error_class :: "string option"
  rec_termination_reason :: "string option"
  rec_detail :: "string option"
  rec_output :: "json option"
  rec_snapshot_start :: "int option"
  rec_snapshot_end :: "int option"
  rec_counters :: "json option"

text \<open>Serialization with the fallback that drops the output; the second failure is the panic of
  \<open>expect\<close>. The record is returned because the fallback changes it for the rest of the loop.\<close>

definition serialize_record :: "(terminal_record \<Rightarrow> string option) \<Rightarrow> terminal_record \<Rightarrow> (string \<times> terminal_record) outcome" where
  "serialize_record to_string r =
     (case to_string r of
        Some json \<Rightarrow> Ret (json, r)
      | None \<Rightarrow> (case to_string (r\<lparr>rec_output := None\<rparr>) of
                   Some json \<Rightarrow> Ret (json, r\<lparr>rec_output := None\<rparr>)
                 | None \<Rightarrow> Panic))"

fun boundary_below :: "string \<Rightarrow> nat \<Rightarrow> nat" where
  "boundary_below s 0 = 0"
| "boundary_below s (Suc n) = (if is_char_boundary s (Suc n) then Suc n else boundary_below s n)"

text \<open>\<open>usize\<close> subtraction saturates as truncated subtraction does; the slack addition cannot
  overflow below the address space and saturates to a cut of 0 beyond it.\<close>

definition cut_detail :: "string \<Rightarrow> string \<Rightarrow> string" where
  "cut_detail json detail =
     (let overflow = length json - TERMINATION_MESSAGE_CAP;
          cut = length detail - (overflow + 64) in
      take (boundary_below detail cut) detail)"

lemma boundary_below_le: "boundary_below s n \<le> n"
  by (induction s n rule: boundary_below.induct) auto

lemma cut_detail_shorter: "detail \<noteq> [] \<Longrightarrow> length (cut_detail json detail) < length detail"
  using boundary_below_le [of detail "length detail - (length json - TERMINATION_MESSAGE_CAP + 64)"]
  by (cases detail) (auto simp: cut_detail_def Let_def min_def)

definition shed_measure :: "terminal_record \<Rightarrow> nat" where
  "shed_measure r = (case rec_detail r of None \<Rightarrow> 0 | Some d \<Rightarrow> length d)
     + (if rec_output r = None then 0 else 1) + (if rec_counters r = None then 0 else 1)"

lemma serialize_record_measure:
  "serialize_record to_string r = Ret (json, r') \<Longrightarrow> shed_measure r' \<le> shed_measure r"
  by (auto simp: serialize_record_def shed_measure_def split: option.splits)

text \<open>What one round of the loop drops from a record that is still too long: the end of the detail, then
  the output, then the counters; \<open>None\<close> when nothing is left.\<close>

definition shed :: "string \<Rightarrow> terminal_record \<Rightarrow> terminal_record option" where
  "shed json r =
     (case rec_detail r of
        Some (d # ds) \<Rightarrow> Some (r\<lparr>rec_detail := Some (cut_detail json (d # ds))\<rparr>)
      | _ \<Rightarrow>
          if rec_output r \<noteq> None then Some (r\<lparr>rec_output := None\<rparr>)
          else if rec_counters r \<noteq> None then Some (r\<lparr>rec_counters := None\<rparr>)
          else None)"

lemma shed_decreases: "shed json r = Some r' \<Longrightarrow> shed_measure r' < shed_measure r"
  using cut_detail_shorter [of "the (rec_detail r)" json]
  by (auto simp: shed_def shed_measure_def split: option.splits list.splits if_splits)

function capped_loop :: "(terminal_record \<Rightarrow> string option) \<Rightarrow> terminal_record \<Rightarrow> string outcome" where
  "capped_loop to_string r =
     (case serialize_record to_string r of
        Panic \<Rightarrow> Panic
      | Ret (json, r') \<Rightarrow>
          if length json \<le> TERMINATION_MESSAGE_CAP then Ret json
          else (case shed json r' of None \<Rightarrow> Ret json | Some r'' \<Rightarrow> capped_loop to_string r''))"
  by pat_completeness auto

termination
proof (relation "measure (\<lambda>(to_string, r). shed_measure r)")
qed (auto intro: less_le_trans [OF shed_decreases serialize_record_measure])

declare capped_loop.simps [simp del]

definition to_capped_json :: "(terminal_record \<Rightarrow> string option) \<Rightarrow> terminal_record \<Rightarrow> string outcome" where
  "to_capped_json to_string r = capped_loop to_string r"

definition parse_record :: "(string \<Rightarrow> terminal_record option) \<Rightarrow> string \<Rightarrow> terminal_record option" where
  "parse_record from_str message =
     (case from_str (trim message) of
        None \<Rightarrow> None
      | Some r \<Rightarrow> if rec_v r \<noteq> 1 then None else Some r)"

section \<open>The classifiers\<close>

definition FATAL_WAIT_BOUND_SECS :: nat where "FATAL_WAIT_BOUND_SECS = 60"
definition UNSCHEDULABLE_BOUND_SECS :: nat where "UNSCHEDULABLE_BOUND_SECS = 600"
definition NO_POD_BOUND_SECS :: nat where "NO_POD_BOUND_SECS = 60"
definition NO_RECORD_BOUND_SECS :: nat where "NO_RECORD_BOUND_SECS = 60"

definition FATAL_WAITING_REASONS :: "string list" where
  "FATAL_WAITING_REASONS = [''ImagePullBackOff'', ''ErrImagePull'', ''CreateContainerConfigError'', ''InvalidImageName'']"

datatype row_state = RowQueued | RowRunning | RowRestarting | RowCanceling

datatype pre_start_verdict =
    PreWait
  | RequeueLaunch string "string option"
  | CapacityWait string "string option"

definition pre_start_pod :: "pod_snapshot \<Rightarrow> nat \<Rightarrow> nat \<Rightarrow> pre_start_verdict" where
  "pre_start_pod pod fatal_waiting_secs unschedulable_secs =
     (case waiting_reason pod of
        Some reason \<Rightarrow>
          if reason \<in> set FATAL_WAITING_REASONS then
            (if fatal_waiting_secs \<ge> FATAL_WAIT_BOUND_SECS then RequeueLaunch reason None else PreWait)
          else if unschedulable pod then
            (if unschedulable_secs \<ge> UNSCHEDULABLE_BOUND_SECS
             then CapacityWait ''Unschedulable'' (scheduling_message pod) else PreWait)
          else PreWait
      | None \<Rightarrow>
          if unschedulable pod then
            (if unschedulable_secs \<ge> UNSCHEDULABLE_BOUND_SECS
             then CapacityWait ''Unschedulable'' (scheduling_message pod) else PreWait)
          else PreWait)"

definition pre_start :: "pod_snapshot option \<Rightarrow> job_snapshot \<Rightarrow> string option \<Rightarrow> nat \<Rightarrow> nat \<Rightarrow> nat \<Rightarrow> pre_start_verdict" where
  "pre_start pod job newest_failed_create fatal_waiting_secs unschedulable_secs no_pod_secs =
     (case pod of
        Some p \<Rightarrow> pre_start_pod p fatal_waiting_secs unschedulable_secs
      | None \<Rightarrow>
          if active job = 0 \<and> no_pod_secs \<ge> NO_POD_BOUND_SECS then
            (case newest_failed_create of
               Some message \<Rightarrow>
                 if contains ''exceeded quota'' message then CapacityWait ''quota'' (Some message)
                 else RequeueLaunch ''FailedCreate'' (Some message)
             | None \<Rightarrow> RequeueLaunch ''no_pod_created'' None)
          else PreWait)"

datatype terminal_verdict =
    TermWait
  | RecordEvidence "int option" "string option"
  | ApplyRecord terminal_record
  | FailNoRecord
  | TimedOut
  | FailResources string "string option"
  | Requeue string
  | SettleCanceled "int option" "string option"
  | CompleteRestart "int option" "string option"

record row_view =
  rv_state :: row_state
  finish_landed :: bool

text \<open>The verdict on a row that is queued or running, once the evidence is terminal. The \<open>unreachable!\<close>
  arm for the two other states is a panic.\<close>

definition interrupted_verdict :: "pod_snapshot option \<Rightarrow> job_snapshot \<Rightarrow> bool \<Rightarrow> terminal_verdict" where
  "interrupted_verdict pod job deleted =
     (if failed_deadline job then TimedOut
      else (case Option.bind pod disruption_target of
              Some target \<Rightarrow> Requeue target
            | None \<Rightarrow>
                if deleted \<or> Option.bind pod status_reason = Some ''NodeLost'' then Requeue ''vanished''
                else Requeue ''sigterm''))"

definition platform_verdict :: "row_state \<Rightarrow> pod_snapshot option \<Rightarrow> job_snapshot \<Rightarrow> bool \<Rightarrow> nat \<Rightarrow> terminal_verdict outcome" where
  "platform_verdict state pod job deleted no_record_secs =
     (if Option.bind pod terminated_reason = Some ''OOMKilled'' then Ret (FailResources ''OOMKilled'' None)
      else if Option.bind pod status_reason = Some ''Evicted'' \<and> Option.bind pod disruption_target = None
        then Ret (FailResources ''Evicted'' (Option.bind pod termination_message))
      else (case Option.bind pod disruption_target of
              Some target \<Rightarrow> Ret (Requeue target)
            | None \<Rightarrow>
                if failed_deadline job then Ret TimedOut
                else if Option.bind pod terminated_exit_code = Some 137 then Ret (Requeue ''sigkill'')
                else if deleted then Ret (Requeue (unwrap_or ''vanished'' (Option.bind pod status_reason)))
                else (case state of
                        RowRunning \<Rightarrow> Ret (if no_record_secs \<ge> NO_RECORD_BOUND_SECS then FailNoRecord else TermWait)
                      | RowQueued \<Rightarrow> Ret (Requeue ''no_terminal_record'')
                      | _ \<Rightarrow> Panic)))"

definition live_verdict :: "row_state \<Rightarrow> pod_snapshot option \<Rightarrow> job_snapshot \<Rightarrow> bool \<Rightarrow> nat \<Rightarrow> terminal_record option
    \<Rightarrow> terminal_verdict outcome" where
  "live_verdict state pod job deleted no_record_secs rec =
     (case rec of
        None \<Rightarrow> platform_verdict state pod job deleted no_record_secs
      | Some r \<Rightarrow>
          if rec_state r = Interrupted then Ret (interrupted_verdict pod job deleted)
          else if rec_termination_reason r = Some ''control_plane_unreachable''
            then Ret (Requeue ''control_plane_unreachable'')
          else Ret (ApplyRecord r))"

definition terminal :: "(string \<Rightarrow> terminal_record option) \<Rightarrow> row_view \<Rightarrow> pod_snapshot option \<Rightarrow> job_snapshot \<Rightarrow> bool \<Rightarrow> nat
    \<Rightarrow> terminal_verdict outcome" where
  "terminal from_str row pod job deleted no_record_secs =
     (let exit_code = Option.bind pod terminated_exit_code; reason = Option.bind pod terminated_reason in
      if finish_landed row then Ret (RecordEvidence exit_code reason)
      else if \<not> (deleted \<or> (\<exists>p \<in> set_option pod. pod_is_terminal p)) then
        (if failed_deadline job \<and> pod = None then
           (case rv_state row of
              RowCanceling \<Rightarrow> Ret (SettleCanceled None (Some ''DeadlineExceeded''))
            | RowRestarting \<Rightarrow> Ret (CompleteRestart None (Some ''DeadlineExceeded''))
            | _ \<Rightarrow> Ret TimedOut)
         else Ret TermWait)
      else
        (case rv_state row of
           RowCanceling \<Rightarrow> Ret (SettleCanceled exit_code reason)
         | RowRestarting \<Rightarrow> Ret (CompleteRestart exit_code reason)
         | state \<Rightarrow> live_verdict state pod job deleted no_record_secs
             (Option.bind (Option.bind pod termination_message) (parse_record from_str))))"

section \<open>What the cap keeps\<close>

text \<open>\<open>r'\<close> is \<open>r\<close> with its detail cut at a character boundary and possibly without output and counters.\<close>

definition cut_of :: "string option \<Rightarrow> string option \<Rightarrow> bool" where
  "cut_of d d' \<longleftrightarrow> d' = d \<or> (\<exists>s n. d = Some s \<and> is_char_boundary s n \<and> d' = Some (take n s))"

definition trimmed :: "terminal_record \<Rightarrow> terminal_record \<Rightarrow> bool" where
  "trimmed r r' \<longleftrightarrow> r'\<lparr>rec_detail := rec_detail r, rec_output := rec_output r, rec_counters := rec_counters r\<rparr> = r
     \<and> cut_of (rec_detail r) (rec_detail r') \<and> rec_output r' \<in> {rec_output r, None} \<and> rec_counters r' \<in> {rec_counters r, None}"

definition bare :: "terminal_record \<Rightarrow> bool" where
  "bare r \<longleftrightarrow> (rec_detail r = None \<or> rec_detail r = Some []) \<and> rec_output r = None \<and> rec_counters r = None"

lemma boundary_below_boundary: "n \<le> length s \<Longrightarrow> is_char_boundary s (boundary_below s n)"
  by (induction s n rule: boundary_below.induct) (auto simp: is_char_boundary_def)

lemma boundary_take:
  assumes "is_char_boundary s n" "n \<le> length s" "is_char_boundary (take n s) m" "m \<le> n"
  shows "is_char_boundary s m"
proof (cases "m = n")
  case False
  then have "m < n" using assms(4) by simp
  moreover have "length (take n s) = n" using assms(2) by simp
  ultimately show ?thesis using assms(2,3) by (auto simp: is_char_boundary_def)
qed (use assms(1) in simp)

lemma cut_of_trans: "cut_of d d' \<Longrightarrow> cut_of d' d'' \<Longrightarrow> cut_of d d''"
proof -
  assume a: "cut_of d d'" and b: "cut_of d' d''"
  show ?thesis
  proof (cases "d' = d \<or> d'' = d'")
    case False
    from False a obtain s n where s1: "d = Some s" "is_char_boundary s n" "d' = Some (take n s)" unfolding cut_of_def by blast
    from False b obtain s' m where s2: "d' = Some s'" "is_char_boundary s' m" "d'' = Some (take m s')" unfolding cut_of_def by blast
    have s: "d = Some s" "is_char_boundary s n" "d' = Some (take n s)"
      "is_char_boundary (take n s) m" "d'' = Some (take m (take n s))" using s1 s2 by simp_all
    have n: "n \<le> length s" and m: "m \<le> n" using s(2,4) by (auto simp: is_char_boundary_def min_def split: if_splits)
    then show ?thesis using s boundary_take [OF s(2) n s(4) m] by (auto simp: cut_of_def min_def)
  qed (use a b in auto)
qed

lemma trimmed_refl: "trimmed r r"
  by (simp add: trimmed_def cut_of_def)

lemma trimmed_trans:
  assumes "trimmed r r'" "trimmed r' r''"
  shows "trimmed r r''"
proof -
  have "r''\<lparr>rec_detail := rec_detail r, rec_output := rec_output r, rec_counters := rec_counters r\<rparr> =
      (r''\<lparr>rec_detail := rec_detail r', rec_output := rec_output r', rec_counters := rec_counters r'\<rparr>)
        \<lparr>rec_detail := rec_detail r, rec_output := rec_output r, rec_counters := rec_counters r\<rparr>" by simp
  also have "\<dots> = r" using assms unfolding trimmed_def by simp
  finally show ?thesis using assms cut_of_trans unfolding trimmed_def by auto
qed

lemma trimmed_v: "trimmed r r' \<Longrightarrow> rec_v r' = rec_v r \<and> rec_attempt r' = rec_attempt r \<and> rec_state r' = rec_state r
    \<and> rec_exit r' = rec_exit r \<and> rec_error_class r' = rec_error_class r \<and> rec_termination_reason r' = rec_termination_reason r"
  by (cases r; cases r') (simp add: trimmed_def)

lemma serialize_trimmed:
  "serialize_record to_string r = Ret (json, r') \<Longrightarrow> trimmed r r' \<and> to_string r' = Some json"
  by (auto simp: serialize_record_def trimmed_def cut_of_def split: option.splits)

lemma cut_detail_cut: "cut_of (Some d) (Some (cut_detail json d))"
proof -
  have "is_char_boundary d (boundary_below d (length d - (length json - TERMINATION_MESSAGE_CAP + 64)))"
    by (rule boundary_below_boundary) simp
  then show ?thesis unfolding cut_of_def cut_detail_def Let_def by blast
qed

lemma shed_trimmed: "shed json r = Some r' \<Longrightarrow> trimmed r r'"
  by (auto simp: shed_def trimmed_def cut_detail_cut split: option.splits list.splits if_splits) (auto simp: cut_of_def)

lemma shed_None_bare: "shed json r = None \<longleftrightarrow> bare r"
  by (auto simp: shed_def bare_def split: option.splits list.splits)

lemma capped_loop_result:
  assumes "\<forall>r'. trimmed r r' \<and> rec_output r' = None \<longrightarrow> to_string r' \<noteq> None"
  shows "\<exists>json r'. capped_loop to_string r = Ret json \<and> to_string r' = Some json \<and> trimmed r r'
     \<and> (length json \<le> TERMINATION_MESSAGE_CAP \<or> bare r')"
  using assms
proof (induction to_string r rule: capped_loop.induct)
  case (1 to_string r)
  have "trimmed r (r\<lparr>rec_output := None\<rparr>)" by (simp add: trimmed_def cut_of_def)
  then have "to_string (r\<lparr>rec_output := None\<rparr>) \<noteq> None" using "1.prems" by simp
  then obtain json r1 where ser: "serialize_record to_string r = Ret (json, r1)"
    by (cases "to_string r") (auto simp: serialize_record_def)
  note t1 = serialize_trimmed [OF ser]
  show ?case
  proof (cases "length json \<le> TERMINATION_MESSAGE_CAP \<or> shed json r1 = None")
    case True
    then have "capped_loop to_string r = Ret json" using ser by (subst capped_loop.simps) auto
    moreover have "length json \<le> TERMINATION_MESSAGE_CAP \<or> bare r1" using True by (simp add: shed_None_bare)
    ultimately show ?thesis using t1 by blast
  next
    case False
    then obtain r2 where r2: "shed json r1 = Some r2" by blast
    have t2: "trimmed r r2" using trimmed_trans t1 shed_trimmed [OF r2] by blast
    have "\<forall>r'. trimmed r2 r' \<and> rec_output r' = None \<longrightarrow> to_string r' \<noteq> None"
      using "1.prems" trimmed_trans [OF t2] by blast
    from "1.IH" [OF ser refl _ r2 this] False obtain json' r' where
      "capped_loop to_string r2 = Ret json'" "to_string r' = Some json'" "trimmed r2 r'"
      "length json' \<le> TERMINATION_MESSAGE_CAP \<or> bare r'" by blast
    moreover have "capped_loop to_string r = capped_loop to_string r2"
      using ser False r2 by (subst capped_loop.simps) simp
    ultimately show ?thesis using trimmed_trans [OF t2] by auto
  qed
qed

section \<open>Properties\<close>

text \<open>The loop that fits a terminal record under the kubelet's cap always ends. When serialization
  succeeds on records without output, it returns the text of a record that keeps every verdict field,
  whose detail is cut at a character boundary, and the text is at most 4096 bytes unless detail,
  output and counters have all been dropped.\<close>

lemma capped_json_fits:
  assumes "\<forall>r'. trimmed r r' \<and> rec_output r' = None \<longrightarrow> to_string r' \<noteq> None"
  shows "\<exists>json r'. to_capped_json to_string r = Ret json \<and> to_string r' = Some json \<and> trimmed r r'
     \<and> (length json \<le> 4096 \<or> bare r')"
  using capped_loop_result [OF assms] unfolding to_capped_json_def TERMINATION_MESSAGE_CAP_def .

definition sample_record :: terminal_record where
  "sample_record = \<lparr>rec_v = 1, rec_attempt = ''a'', rec_state = RecFailed, rec_exit = 1, rec_error_class = Some ''data'',
     rec_termination_reason = None, rec_detail = Some (replicate 5000 CHR ''x''), rec_output = None,
     rec_snapshot_start = None, rec_snapshot_end = Some 12, rec_counters = None\<rparr>"

definition sample_text :: "terminal_record \<Rightarrow> string option" where
  "sample_text r = (case rec_detail r of None \<Rightarrow> Some ''{}'' | Some d \<Rightarrow> Some (CHR ''{'' # d @ ''}''))"

lemma capped_json_fits_witness:
  "\<exists>json r'. to_capped_json sample_text sample_record = Ret json \<and> trimmed sample_record r' \<and> length json \<le> 4096"
proof -
  have "\<forall>r'. trimmed sample_record r' \<and> rec_output r' = None \<longrightarrow> sample_text r' \<noteq> None"
    by (auto simp: sample_text_def split: option.split)
  from capped_json_fits [OF this] obtain json r' where run: "to_capped_json sample_text sample_record = Ret json"
    "sample_text r' = Some json" "trimmed sample_record r'" "length json \<le> 4096 \<or> bare r'" by blast
  have "bare r' \<Longrightarrow> length json \<le> 4096" using run(2) by (auto simp: bare_def sample_text_def)
  then show ?thesis using run by blast
qed

text \<open>What the pod writes is what the watch reads. For a version-1 record and a serializer whose text,
  trimmed of white space, parses back, the capped text parses to a record with the same version, attempt, state,
  exit, error class and termination reason.\<close>

lemma capped_record_parses:
  assumes ser: "\<forall>r'. trimmed r r' \<and> rec_output r' = None \<longrightarrow> to_string r' \<noteq> None"
    and round: "\<forall>r' json. trimmed r r' \<and> to_string r' = Some json \<longrightarrow> from_str (trim json) = Some r'"
    and v: "rec_v r = 1"
  shows "\<exists>json r'. to_capped_json to_string r = Ret json \<and> parse_record from_str json = Some r'
    \<and> rec_attempt r' = rec_attempt r \<and> rec_state r' = rec_state r \<and> rec_exit r' = rec_exit r
    \<and> rec_error_class r' = rec_error_class r \<and> rec_termination_reason r' = rec_termination_reason r"
proof -
  obtain json r' where run: "capped_loop to_string r = Ret json" "to_string r' = Some json" "trimmed r r'"
    using capped_loop_result [OF ser] by blast
  have "from_str (trim json) = Some r'" using round run by blast
  then have "parse_record from_str json = Some r'" using trimmed_v [OF run(3)] v by (simp add: parse_record_def)
  then show ?thesis using run(1) trimmed_v [OF run(3)] unfolding to_capped_json_def by blast
qed

definition small_record :: terminal_record where
  "small_record = sample_record\<lparr>rec_detail := None\<rparr>"

lemma small_record_trimmed: "trimmed small_record r' \<Longrightarrow> r' = small_record"
  by (cases r') (auto simp: trimmed_def cut_of_def small_record_def sample_record_def)

lemma capped_record_parses_witness:
  "\<exists>json r'. to_capped_json (\<lambda>r. Some ''{}'') small_record = Ret json
    \<and> parse_record (\<lambda>s. if s = ''{}'' then Some small_record else None) json = Some r' \<and> rec_state r' = RecFailed"
proof -
  have trim: "trim ''{}'' = ''{}''" by code_simp
  have "\<exists>json r'. to_capped_json (\<lambda>r. Some ''{}'') small_record = Ret json
    \<and> parse_record (\<lambda>s. if s = ''{}'' then Some small_record else None) json = Some r'
    \<and> rec_attempt r' = rec_attempt small_record \<and> rec_state r' = rec_state small_record \<and> rec_exit r' = rec_exit small_record
    \<and> rec_error_class r' = rec_error_class small_record \<and> rec_termination_reason r' = rec_termination_reason small_record"
    by (rule capped_record_parses) (auto simp: trim dest: small_record_trimmed, simp add: small_record_def sample_record_def)
  then show ?thesis by (auto simp: small_record_def sample_record_def)
qed

lemma platform_verdict_Ret:
  "state = RowQueued \<or> state = RowRunning \<Longrightarrow> \<exists>v. platform_verdict state pod job deleted secs = Ret v"
  by (auto simp: platform_verdict_def split: option.splits)

abbreviation gone :: "pod_snapshot option \<Rightarrow> bool \<Rightarrow> bool" where
  "gone pod deleted \<equiv> deleted \<or> (\<exists>p. pod = Some p \<and> pod_is_terminal p)"

lemma live_verdict_Ret:
  "state = RowQueued \<or> state = RowRunning \<Longrightarrow> \<exists>v. live_verdict state pod job deleted secs rec = Ret v"
  by (auto simp: live_verdict_def platform_verdict_Ret split: option.split)

lemma live_verdict_facts:
  assumes "live_verdict state pod job deleted secs rec = Ret v"
  shows "\<not> (\<exists>code why. v = RecordEvidence code why)"
    "v = ApplyRecord r \<Longrightarrow> rec = Some r \<and> rec_state r \<noteq> Interrupted"
    "v = FailResources why d \<Longrightarrow> \<exists>p. pod = Some p \<and> (terminated_reason p = Some ''OOMKilled''
         \<or> status_reason p = Some ''Evicted'' \<and> disruption_target p = None)"
  using assms by (cases pod; auto simp: live_verdict_def platform_verdict_def interrupted_verdict_def
      split: option.splits if_splits row_state.splits)+

lemma gone_unfold: "(\<exists>p \<in> set_option pod. P p) \<longleftrightarrow> (\<exists>p. pod = Some p \<and> P p)"
  by (cases pod) auto

text \<open>C34: the terminal classifier never panics, and its verdicts rest on the evidence it documents. A landed finish
  is only annotated. Without a deletion or a terminal phase it waits, unless the job's own deadline
  fired and there is no pod. A relaunch needs the pod deleted or terminal. A resource failure needs the
  \<open>OOMKilled\<close> reason or an eviction without disruption target, whatever the exit code. A canceling row only
  ever settles as canceled and a restarting row only completes its restart.\<close>

theorem terminal_verdict_evidence:
  "\<exists>v. terminal from_str row pod job deleted secs = Ret v
    \<and> (finish_landed row \<longleftrightarrow> (\<exists>code why. v = RecordEvidence code why))
    \<and> (\<not> finish_landed row \<and> v \<noteq> TermWait \<longrightarrow> gone pod deleted \<or> failed_deadline job \<and> pod = None)
    \<and> ((\<exists>why. v = Requeue why) \<longrightarrow> gone pod deleted)
    \<and> ((\<exists>r. v = ApplyRecord r) \<longrightarrow> (\<exists>p m r. pod = Some p \<and> termination_message p = Some m \<and> parse_record from_str m = Some r
         \<and> v = ApplyRecord r \<and> rec_state r \<noteq> Interrupted))
    \<and> ((\<exists>why d. v = FailResources why d) \<longrightarrow> (\<exists>p. pod = Some p \<and> (terminated_reason p = Some ''OOMKilled''
         \<or> status_reason p = Some ''Evicted'' \<and> disruption_target p = None)))
    \<and> (rv_state row = RowCanceling \<and> \<not> finish_landed row \<and> v \<noteq> TermWait \<longrightarrow> (\<exists>code why. v = SettleCanceled code why))
    \<and> (rv_state row = RowRestarting \<and> \<not> finish_landed row \<and> v \<noteq> TermWait \<longrightarrow> (\<exists>code why. v = CompleteRestart code why))"
proof (cases "finish_landed row \<or> \<not> gone pod deleted \<or> rv_state row = RowCanceling \<or> rv_state row = RowRestarting")
  case True
  then show ?thesis
    by (cases "finish_landed row"; cases "gone pod deleted"; cases "rv_state row")
      (simp_all add: terminal_def gone_unfold)
next
  case False
  let ?rec = "Option.bind (Option.bind pod termination_message) (parse_record from_str)"
  have state: "rv_state row = RowQueued \<or> rv_state row = RowRunning" using False by (cases "rv_state row") auto
  obtain v where v: "live_verdict (rv_state row) pod job deleted secs ?rec = Ret v" using live_verdict_Ret [OF state] by blast
  have run: "terminal from_str row pod job deleted secs = Ret v"
    using False v by (cases "rv_state row") (auto simp: terminal_def gone_unfold)
  have apply_rec: "\<exists>p m r. pod = Some p \<and> termination_message p = Some m \<and> parse_record from_str m = Some r
         \<and> v = ApplyRecord r \<and> rec_state r \<noteq> Interrupted" if "v = ApplyRecord r" for r
    using live_verdict_facts(2) [OF v that] that by (auto simp: bind_eq_Some_conv)
  show ?thesis
    by (rule exI [of _ v]) (use run False live_verdict_facts(1,3) [OF v] apply_rec state in auto)
qed

definition sample_pod :: pod_snapshot where
  "sample_pod = from_pod \<lparr>
     p_metadata = \<lparr>m_name = Some ''pod'', m_uid = None, m_labels = None, m_annotations = None, m_deletion_timestamp = None\<rparr>,
     p_node_name = None,
     p_status = Some \<lparr>ps_phase = Some ''Failed'',
       ps_container_statuses = Some [Some \<lparr>waiting = None,
         terminated = Some \<lparr>t_exit_code = 137, t_reason = Some ''Error'', t_message = None\<rparr>\<rparr>],
       ps_conditions = None, ps_reason = None\<rparr>\<rparr>"

definition sample_job :: job_snapshot where
  "sample_job = from_job \<lparr>
     j_metadata = \<lparr>m_name = Some ''job'', m_uid = None, m_labels = None, m_annotations = None, m_deletion_timestamp = None\<rparr>,
     j_status = None\<rparr>"

theorem terminal_verdict_evidence_witness:
  "terminal (\<lambda>s. None) \<lparr>rv_state = RowRunning, finish_landed = False\<rparr> (Some sample_pod) sample_job False 0 = Ret (Requeue ''sigkill'')
    \<and> pod_is_terminal sample_pod"
proof -
  have run: "terminal (\<lambda>s. None) \<lparr>rv_state = RowRunning, finish_landed = False\<rparr> (Some sample_pod) sample_job False 0 = Ret (Requeue ''sigkill'')"
    by code_simp
  then show ?thesis
    using terminal_verdict_evidence [of "\<lambda>s. None" "\<lparr>rv_state = RowRunning, finish_landed = False\<rparr>" "Some sample_pod" sample_job False 0] by simp
qed

text \<open>The verdict without the exit code it stores.\<close>

fun verdict_shape :: "terminal_verdict \<Rightarrow> terminal_verdict" where
  "verdict_shape (RecordEvidence code why) = RecordEvidence None why"
| "verdict_shape (SettleCanceled code why) = SettleCanceled None why"
| "verdict_shape (CompleteRestart code why) = CompleteRestart None why"
| "verdict_shape v = v"

fun outcome_shape :: "terminal_verdict outcome \<Rightarrow> terminal_verdict outcome" where
  "outcome_shape (Ret v) = Ret (verdict_shape v)"
| "outcome_shape Panic = Panic"

lemma live_verdict_exit_code:
  assumes "code \<noteq> Some 137" "code' \<noteq> Some 137"
  shows "live_verdict state (Some (p\<lparr>terminated_exit_code := code\<rparr>)) job deleted secs rec =
    live_verdict state (Some (p\<lparr>terminated_exit_code := code'\<rparr>)) job deleted secs rec"
  using assms by (simp add: live_verdict_def platform_verdict_def interrupted_verdict_def split: option.split)

text \<open>Exit codes are evidence, not classifier inputs. Two pods that differ only in their exit code, neither of it
  137, get the same verdict up to the stored code.\<close>

lemma terminal_ignores_exit_code:
  assumes "code \<noteq> Some 137" "code' \<noteq> Some 137"
  shows "outcome_shape (terminal from_str row (Some (p\<lparr>terminated_exit_code := code\<rparr>)) job deleted secs) =
    outcome_shape (terminal from_str row (Some (p\<lparr>terminated_exit_code := code'\<rparr>)) job deleted secs)"
  using live_verdict_exit_code [OF assms, of _ p job deleted secs]
  by (cases "rv_state row") (auto simp: terminal_def Let_def pod_is_terminal_def)

lemma terminal_ignores_exit_code_witness:
  "outcome_shape (terminal (\<lambda>s. None) \<lparr>rv_state = RowRunning, finish_landed = False\<rparr> (Some (sample_pod\<lparr>terminated_exit_code := Some 1\<rparr>)) sample_job False 60)
     = Ret FailNoRecord
   \<and> outcome_shape (terminal (\<lambda>s. None) \<lparr>rv_state = RowRunning, finish_landed = False\<rparr> (Some (sample_pod\<lparr>terminated_exit_code := Some 2\<rparr>)) sample_job False 60)
     = Ret FailNoRecord"
proof -
  have "outcome_shape (terminal (\<lambda>s. None) \<lparr>rv_state = RowRunning, finish_landed = False\<rparr> (Some (sample_pod\<lparr>terminated_exit_code := Some 1\<rparr>)) sample_job False 60)
     = Ret FailNoRecord" by code_simp
  with terminal_ignores_exit_code [of "Some 1" "Some 2" "\<lambda>s. None" "\<lparr>rv_state = RowRunning, finish_landed = False\<rparr>" sample_pod sample_job False 60]
  show ?thesis by simp
qed

text \<open>The exit code, reason and message of a snapshot come from one and the same container: the last
  terminated one.\<close>

lemma container_fold_keeps:
  "\<forall>c \<in> set cs. \<forall>s. c = Some s \<longrightarrow> terminated s = None \<Longrightarrow>
     ce_exit_code (fold container_step cs ev) = ce_exit_code ev \<and> ce_reason (fold container_step cs ev) = ce_reason ev
     \<and> ce_message (fold container_step cs ev) = ce_message ev"
proof (induction cs arbitrary: ev)
  case (Cons c cs)
  have "ce_exit_code (container_step c ev) = ce_exit_code ev \<and> ce_reason (container_step c ev) = ce_reason ev
      \<and> ce_message (container_step c ev) = ce_message ev"
    using Cons.prems by (auto simp: container_step_def Let_def split: option.splits)
  then show ?case using Cons by simp
qed simp

lemma from_pod_last_terminated:
  assumes "p_status pod = Some st" "ps_container_statuses st = Some (before @ Some c # after)" "terminated c = Some t"
    and "\<forall>c \<in> set after. \<forall>s. c = Some s \<longrightarrow> terminated s = None"
  shows "terminated_exit_code (from_pod pod) = Some (t_exit_code t)" "terminated_reason (from_pod pod) = t_reason t"
    "termination_message (from_pod pod) = t_message t"
  using assms(1-3) container_fold_keeps [OF assms(4)]
  by (simp_all add: from_pod_def Let_def unwrap_or_def container_step_def)

end
