(* ===== verification/UrlGuard.thy ===== *)
theory UrlGuard
  imports Utf8 "HOL-Library.Word"
begin

unbundle bit_operations_syntax

text \<open>
  The outbound-URL guard of \<open>er-server/src/urlguard.rs\<close>. Addresses are machine words. The predicates of
  \<open>std::net\<close> and its address parser are written out as the standard library defines them. The URL
  parser of \<open>reqwest\<close> and the resolver are parameters: \<open>parse_url\<close> gives the accessors the code reads,
  \<open>lookup\<close> the addresses of a name or \<open>None\<close> when the lookup fails.
\<close>

section \<open>Addresses of the standard library\<close>

datatype ip_addr = V4 "32 word" | V6 "128 word"

definition octet :: "nat \<Rightarrow> 32 word \<Rightarrow> nat" where
  "octet i a = unat (take_bit 8 (drop_bit (24 - 8 * i) a))"

definition v4_is_loopback :: "32 word \<Rightarrow> bool" where
  "v4_is_loopback a \<longleftrightarrow> octet 0 a = 127"

definition v4_is_link_local :: "32 word \<Rightarrow> bool" where
  "v4_is_link_local a \<longleftrightarrow> octet 0 a = 169 \<and> octet 1 a = 254"

definition v4_is_private :: "32 word \<Rightarrow> bool" where
  "v4_is_private a \<longleftrightarrow> octet 0 a = 10
     \<or> octet 0 a = 172 \<and> 16 \<le> octet 1 a \<and> octet 1 a \<le> 31
     \<or> octet 0 a = 192 \<and> octet 1 a = 168"

definition v4_is_multicast :: "32 word \<Rightarrow> bool" where
  "v4_is_multicast a \<longleftrightarrow> 224 \<le> octet 0 a \<and> octet 0 a \<le> 239"

definition segment0 :: "128 word \<Rightarrow> 128 word" where
  "segment0 a = drop_bit 112 a"

definition v6_is_multicast :: "128 word \<Rightarrow> bool" where
  "v6_is_multicast a \<longleftrightarrow> segment0 a AND 0xff00 = 0xff00"

definition to_ipv4_mapped :: "128 word \<Rightarrow> 32 word option" where
  "to_ipv4_mapped a = (if drop_bit 32 a = 0xffff then Some (ucast a) else None)"

definition to_ipv4 :: "128 word \<Rightarrow> 32 word option" where
  "to_ipv4 a = (if drop_bit 32 a = 0xffff \<or> drop_bit 32 a = 0 then Some (ucast a) else None)"

section \<open>Parsing an address literal\<close>

definition digit_of :: "int \<Rightarrow> char \<Rightarrow> int option" where
  "digit_of radix c =
     (let b = of_char c :: int;
          d = (if 48 \<le> b \<and> b \<le> 57 then Some (b - 48)
               else if 97 \<le> b \<and> b \<le> 122 then Some (b - 87)
               else if 65 \<le> b \<and> b \<le> 90 then Some (b - 55) else None) in
      case d of Some n \<Rightarrow> if n < radix then Some n else None | None \<Rightarrow> None)"

fun read_digits :: "int \<Rightarrow> nat \<Rightarrow> int \<Rightarrow> nat \<Rightarrow> string \<Rightarrow> (int \<times> nat \<times> string) option" where
  "read_digits radix limit acc count [] = Some (acc, count, [])"
| "read_digits radix limit acc count (c # cs) =
     (case digit_of radix c of
        None \<Rightarrow> Some (acc, count, c # cs)
      | Some d \<Rightarrow> if count + 1 > limit then None else read_digits radix limit (acc * radix + d) (count + 1) cs)"

definition read_number :: "int \<Rightarrow> nat \<Rightarrow> bool \<Rightarrow> int \<Rightarrow> string \<Rightarrow> (int \<times> string) option" where
  "read_number radix limit allow_zero_prefix bound s =
     (case read_digits radix limit 0 0 s of
        None \<Rightarrow> None
      | Some (n, count, rest) \<Rightarrow>
          if count = 0 then None
          else if \<not> allow_zero_prefix \<and> hd s = CHR ''0'' \<and> count > 1 then None
          else if n \<le> bound then Some (n, rest) else None)"

definition read_char :: "char \<Rightarrow> string \<Rightarrow> string option" where
  "read_char c s = (case s of [] \<Rightarrow> None | x # xs \<Rightarrow> if x = c then Some xs else None)"

definition read_sep :: "char \<Rightarrow> bool \<Rightarrow> (string \<Rightarrow> ('a \<times> string) option) \<Rightarrow> string \<Rightarrow> ('a \<times> string) option" where
  "read_sep sep first p s = (if first then p s else Option.bind (read_char sep s) p)"

definition read_octet :: "bool \<Rightarrow> string \<Rightarrow> (int \<times> string) option" where
  "read_octet first = read_sep CHR ''.'' first (read_number 10 3 False 255)"

definition read_ipv4 :: "string \<Rightarrow> (int \<times> string) option" where
  "read_ipv4 s =
     Option.bind (read_octet True s) (\<lambda>(a, s).
     Option.bind (read_octet False s) (\<lambda>(b, s).
     Option.bind (read_octet False s) (\<lambda>(c, s).
     Option.bind (read_octet False s) (\<lambda>(d, s).
       Some (((a * 256 + b) * 256 + c) * 256 + d, s)))))"

fun read_groups :: "nat \<Rightarrow> bool \<Rightarrow> string \<Rightarrow> int list \<times> bool \<times> string" where
  "read_groups 0 first s = ([], False, s)"
| "read_groups (Suc n) first s =
     (case (if n > 0 then read_sep CHR '':'' first read_ipv4 s else None) of
        Some (a, rest) \<Rightarrow> ([a div 65536, a mod 65536], True, rest)
      | None \<Rightarrow>
          (case read_sep CHR '':'' first (read_number 16 4 True 65535) s of
             None \<Rightarrow> ([], False, s)
           | Some (g, rest) \<Rightarrow>
               (case read_groups n False rest of (gs, v4, rest') \<Rightarrow> (g # gs, v4, rest'))))"

definition of_groups :: "int list \<Rightarrow> int" where
  "of_groups gs = fold (\<lambda>g acc. acc * 65536 + g) gs 0"

definition read_ipv6 :: "string \<Rightarrow> (int \<times> string) option" where
  "read_ipv6 s =
     (case read_groups 8 True s of (head, v4, s1) \<Rightarrow>
        if length head = 8 then Some (of_groups head, s1)
        else if v4 then None
        else Option.bind (read_char CHR '':'' s1) (\<lambda>s2.
             Option.bind (read_char CHR '':'' s2) (\<lambda>s3.
               case read_groups (8 - (length head + 1)) True s3 of (tail, _, s4) \<Rightarrow>
                 Some (of_groups (head @ replicate (8 - length head - length tail) 0 @ tail), s4))))"

definition parse_ip :: "string \<Rightarrow> ip_addr option" where
  "parse_ip s =
     (case (case read_ipv4 s of
              Some (a, rest) \<Rightarrow> Some (V4 (word_of_int a), rest)
            | None \<Rightarrow> map_option (\<lambda>(a, rest). (V6 (word_of_int a), rest)) (read_ipv6 s)) of
        Some (a, []) \<Rightarrow> Some a
      | _ \<Rightarrow> None)"

section \<open>The guard\<close>

datatype egress = Guarded | Unguarded

datatype url_rejection =
    Unparseable
  | Scheme string
  | Credentials
  | NoHost
  | BlockedAddress string ip_addr string

definition blocked_v4 :: "32 word \<Rightarrow> string option" where
  "blocked_v4 a =
     (if v4_is_loopback a then Some ''a loopback address''
      else if v4_is_link_local a then Some ''a link-local address''
      else if v4_is_private a then Some ''a private address''
      else if a = 0 then Some ''the unspecified address''
      else if a = 0xffffffff \<or> v4_is_multicast a then Some ''a broadcast or multicast address''
      else if octet 0 a = 100 \<and> 64 \<le> octet 1 a \<and> octet 1 a < 128 then Some ''a carrier-grade NAT address''
      else None)"

definition blocked_v6 :: "128 word \<Rightarrow> string option" where
  "blocked_v6 a =
     (if a = 1 then Some ''a loopback address''
      else if a = 0 then Some ''the unspecified address''
      else if v6_is_multicast a then Some ''a multicast address''
      else if segment0 a AND 0xffc0 = 0xfe80 then Some ''a link-local address''
      else if segment0 a AND 0xfe00 = 0xfc00 then Some ''a unique-local address''
      else None)"

definition blocked_reason :: "ip_addr \<Rightarrow> string option" where
  "blocked_reason addr =
     (case addr of
        V4 a \<Rightarrow> blocked_v4 a
      | V6 a \<Rightarrow>
          if a = 1 then Some ''a loopback address''
          else if a = 0 then Some ''the unspecified address''
          else (case (case to_ipv4_mapped a of Some b \<Rightarrow> Some b | None \<Rightarrow> to_ipv4 a) of
                  Some b \<Rightarrow> blocked_v4 b
                | None \<Rightarrow> blocked_v6 a))"

record url =
  scheme :: string
  username :: string
  password :: "string option"
  host_str :: "string option"
  port_or_known_default :: "nat option"

definition check_static :: "(string \<Rightarrow> url option) \<Rightarrow> string \<Rightarrow> url_rejection + url" where
  "check_static parse_url s =
     (case parse_url (trim s) of
        None \<Rightarrow> Inl Unparseable
      | Some u \<Rightarrow>
          if scheme u \<noteq> ''https'' then Inl (Scheme (scheme u))
          else if username u \<noteq> [] \<or> password u \<noteq> None then Inl Credentials
          else if host_str u = None \<or> host_str u = Some [] then Inl NoHost
          else Inr u)"

fun check_addrs :: "string \<Rightarrow> ip_addr list \<Rightarrow> url_rejection + unit" where
  "check_addrs host [] = Inr ()"
| "check_addrs host (a # as) =
     (case blocked_reason a of Some reason \<Rightarrow> Inl (BlockedAddress host a reason) | None \<Rightarrow> check_addrs host as)"

definition host_of :: "url \<Rightarrow> string" where
  "host_of u = trim_end_matches CHR '']'' (trim_start_matches CHR ''['' (case host_str u of None \<Rightarrow> [] | Some h \<Rightarrow> h))"

definition check :: "(string \<Rightarrow> url option) \<Rightarrow> (string \<Rightarrow> nat \<Rightarrow> ip_addr list option) \<Rightarrow> string \<Rightarrow> egress \<Rightarrow> url_rejection + unit" where
  "check parse_url lookup s mode =
     (case mode of
        Unguarded \<Rightarrow> Inr ()
      | Guarded \<Rightarrow>
          (case check_static parse_url s of
             Inl e \<Rightarrow> Inl e
           | Inr u \<Rightarrow>
               let host = host_of u in
               (case parse_ip host of
                  Some addr \<Rightarrow> check_addrs host [addr]
                | None \<Rightarrow>
                    (case lookup host (case port_or_known_default u of None \<Rightarrow> 443 | Some p \<Rightarrow> p) of
                       None \<Rightarrow> Inr ()
                     | Some addrs \<Rightarrow> check_addrs host addrs))))"

section \<open>Networks\<close>

definition in_net4 :: "32 word \<times> nat \<Rightarrow> 32 word \<Rightarrow> bool" where
  "in_net4 net a \<longleftrightarrow> drop_bit (32 - snd net) a = drop_bit (32 - snd net) (fst net)"

definition in_net6 :: "128 word \<times> nat \<Rightarrow> 128 word \<Rightarrow> bool" where
  "in_net6 net a \<longleftrightarrow> drop_bit (128 - snd net) a = drop_bit (128 - snd net) (fst net)"

definition blocked_nets4 :: "(32 word \<times> nat) list" where
  "blocked_nets4 = [(0x7f000000, 8), (0xa9fe0000, 16), (0x0a000000, 8), (0xac100000, 12), (0xc0a80000, 16),
     (0, 32), (0xffffffff, 32), (0xe0000000, 4), (0x64400000, 10)]"

definition blocked_nets6 :: "(128 word \<times> nat) list" where
  "blocked_nets6 = [(1, 128), (0, 128), (0xff000000000000000000000000000000, 8),
     (0xfe800000000000000000000000000000, 10), (0xfc000000000000000000000000000000, 7)]"

lemma octet_nat: "octet 0 a = unat a div 16777216" "octet 1 a = unat a div 65536 mod 256"
proof -
  have o: "octet i a = unat a div 2 ^ (24 - 8 * i) mod 256" for i
    unfolding octet_def unsigned_take_bit_eq unat_drop_bit_eq unfolding drop_bit_eq_div take_bit_eq_mod by simp
  have "unat a < 2 ^ 32" using unsigned_less [of a] by simp
  then have "unat a div 16777216 < 256" by (simp add: less_mult_imp_div_less)
  then show "octet 0 a = unat a div 16777216" by (simp add: o)
  show "octet 1 a = unat a div 65536 mod 256" by (simp add: o)
qed

lemma in_net4_nat: "in_net4 (b, len) a \<longleftrightarrow> unat a div 2 ^ (32 - len) = unat b div 2 ^ (32 - len)"
  unfolding in_net4_def word_unat_eq_iff unat_drop_bit_eq unfolding drop_bit_eq_div by simp


lemma prefix_split:
  fixes n :: nat
  shows "n div 256 = 172 \<and> 16 \<le> n mod 256 \<and> n mod 256 \<le> 31 \<longleftrightarrow> n div 16 = 2753"
    "n div 256 = 100 \<and> 64 \<le> n mod 256 \<and> n mod 256 < 128 \<longleftrightarrow> n div 64 = 401"
    "n div 256 = a \<and> n mod 256 = b \<longleftrightarrow> n = 256 * a + b \<and> b < 256"
    "224 \<le> n div 256 \<and> n div 256 \<le> 239 \<longleftrightarrow> n div 4096 = 14"
proof -
  define q r where "q = n div 256" and "r = n mod 256"
  have n: "n = 256 * q + r" and r: "r < 256" by (simp_all add: q_def r_def)
  have "n div 16 = 16 * q + r div 16" "n div 64 = 4 * q + r div 64" unfolding n by simp_all
  moreover have "16 * q + t = 2753 \<longleftrightarrow> q = 172 \<and> t = 1" if "t < 16" for t using that by presburger
  moreover have "4 * q + t = 401 \<longleftrightarrow> q = 100 \<and> t = 1" if "t < 4" for t using that by presburger
  moreover have "r div 16 < 16" "r div 64 < 4" using r by simp_all
  moreover have "r div 16 = 1 \<longleftrightarrow> 16 \<le> r \<and> r \<le> 31" "r div 64 = 1 \<longleftrightarrow> 64 \<le> r \<and> r < 128"
    by (auto simp: div_nat_eqI)
  ultimately show "n div 256 = 172 \<and> 16 \<le> n mod 256 \<and> n mod 256 \<le> 31 \<longleftrightarrow> n div 16 = 2753"
    "n div 256 = 100 \<and> 64 \<le> n mod 256 \<and> n mod 256 < 128 \<longleftrightarrow> n div 64 = 401"
    unfolding q_def [symmetric] r_def [symmetric] by simp_all
  show "n div 256 = a \<and> n mod 256 = b \<longleftrightarrow> n = 256 * a + b \<and> b < 256"
    by (auto simp: div_nat_eqI)
  have "n div 4096 = q div 16" by (simp add: q_def div_mult2_eq [symmetric])
  then show "224 \<le> n div 256 \<and> n div 256 \<le> 239 \<longleftrightarrow> n div 4096 = 14"
    unfolding q_def [symmetric] by (auto simp: div_nat_eqI)
qed

lemma blocked_v4_iff: "blocked_v4 a \<noteq> None \<longleftrightarrow> (\<exists>net \<in> set blocked_nets4. in_net4 net a)"
proof -
  define n where "n = unat a div 65536"
  have n: "unat a div 16777216 = n div 256" "unat a div 1048576 = n div 16" "unat a div 4194304 = n div 64"
    "unat a div 268435456 = n div 4096" by (simp_all add: n_def div_mult2_eq)
  have o: "octet 0 a = n div 256" "octet 1 a = n mod 256" using octet_nat [of a] n by (simp_all add: n_def)
  have nets: "v4_is_loopback a \<longleftrightarrow> in_net4 (0x7f000000, 8) a"
    "octet 0 a = 10 \<longleftrightarrow> in_net4 (0x0a000000, 8) a"
    "octet 0 a = 172 \<and> 16 \<le> octet 1 a \<and> octet 1 a \<le> 31 \<longleftrightarrow> in_net4 (0xac100000, 12) a"
    "octet 0 a = 192 \<and> octet 1 a = 168 \<longleftrightarrow> in_net4 (0xc0a80000, 16) a"
    "v4_is_link_local a \<longleftrightarrow> in_net4 (0xa9fe0000, 16) a"
    "v4_is_multicast a \<longleftrightarrow> in_net4 (0xe0000000, 4) a"
    "octet 0 a = 100 \<and> 64 \<le> octet 1 a \<and> octet 1 a < 128 \<longleftrightarrow> in_net4 (0x64400000, 10) a"
    unfolding v4_is_loopback_def v4_is_link_local_def v4_is_multicast_def in_net4_nat o
    by (simp_all add: n n_def [symmetric] prefix_split)
  have "a = 0 \<longleftrightarrow> in_net4 (0, 32) a" "a = 0xffffffff \<longleftrightarrow> in_net4 (0xffffffff, 32) a"
    by (simp_all add: in_net4_def)
  then have "(\<exists>net \<in> set blocked_nets4. in_net4 net a) \<longleftrightarrow> v4_is_loopback a \<or> v4_is_link_local a \<or> v4_is_private a
      \<or> a = 0 \<or> a = 0xffffffff \<or> v4_is_multicast a \<or> octet 0 a = 100 \<and> 64 \<le> octet 1 a \<and> octet 1 a < 128"
    unfolding v4_is_private_def nets blocked_nets4_def list.set bex_simps by argo
  then show ?thesis by (simp add: blocked_v4_def)
qed

lemma and_high_bits:
  assumes "0 < k" "k \<le> 16"
  shows "segment0 a AND push_bit k (mask (16 - k)) = push_bit k c \<longleftrightarrow> drop_bit (112 + k) a = take_bit (128 - k) c"
proof -
  have "segment0 a AND push_bit k (mask (16 - k)) = push_bit k (drop_bit (112 + k) a)"
    by (rule bit_word_eqI) (use assms in \<open>auto simp: segment0_def bit_simps dest: bit_imp_le_length\<close>)
  moreover have "push_bit k x = push_bit k c \<longleftrightarrow> x = take_bit (128 - k) c" if "take_bit (128 - k) x = x" for x :: "128 word"
  proof
    assume eq: "push_bit k x = push_bit k c"
    have "drop_bit k (push_bit k y) = take_bit (128 - k) y" for y :: "128 word"
      by (rule bit_word_eqI) (use assms in \<open>auto simp: bit_simps\<close>)
    then show "x = take_bit (128 - k) c" using eq that by metis
  next
    assume "x = take_bit (128 - k) c"
    then show "push_bit k x = push_bit k c"
      by (simp, intro bit_word_eqI) (use assms in \<open>auto simp: bit_simps\<close>)
  qed
  moreover have "take_bit (128 - k) (drop_bit (112 + k) a) = drop_bit (112 + k) a"
    by (rule bit_word_eqI) (use assms in \<open>auto simp: bit_simps dest: bit_imp_le_length\<close>)
  ultimately show ?thesis by metis
qed

lemma v6_prefixes:
  "v6_is_multicast a \<longleftrightarrow> in_net6 (0xff000000000000000000000000000000, 8) a"
  "segment0 a AND 0xffc0 = 0xfe80 \<longleftrightarrow> in_net6 (0xfe800000000000000000000000000000, 10) a"
  "segment0 a AND 0xfe00 = 0xfc00 \<longleftrightarrow> in_net6 (0xfc000000000000000000000000000000, 7) a"
  using and_high_bits [of 8 a "0xff"] and_high_bits [of 6 a "0x3fa"] and_high_bits [of 9 a "0x7e"]
  by (simp_all add: v6_is_multicast_def in_net6_def mask_eq_exp_minus_1)

lemma blocked_v6_iff: "blocked_v6 a \<noteq> None \<longleftrightarrow> (\<exists>net \<in> set blocked_nets6. in_net6 net a)"
proof -
  have "a = 1 \<longleftrightarrow> in_net6 (1, 128) a" "a = 0 \<longleftrightarrow> in_net6 (0, 128) a" by (simp_all add: in_net6_def)
  then have "(\<exists>net \<in> set blocked_nets6. in_net6 net a) \<longleftrightarrow> a = 1 \<or> a = 0 \<or> v6_is_multicast a
      \<or> segment0 a AND 0xffc0 = 0xfe80 \<or> segment0 a AND 0xfe00 = 0xfc00"
    unfolding v6_prefixes blocked_nets6_def list.set bex_simps by argo
  then show ?thesis by (simp add: blocked_v6_def)
qed

text \<open>An address with an embedded IPv4 address is in none of the wide IPv6 networks.\<close>

lemma embedded_not_wide:
  assumes "drop_bit 32 a = c" "c = 0 \<or> c = (0xffff :: 128 word)" "net \<in> set (drop 2 blocked_nets6)"
  shows "\<not> in_net6 net a"
proof -
  have d: "drop_bit k a = drop_bit (k - 32) c" if "32 \<le> k" for k
    using assms(1) that by (metis drop_bit_drop_bit le_add_diff_inverse2)
  show ?thesis using assms(2,3) d [of 120] d [of 118] d [of 121]
    by (elim disjE) (auto simp: blocked_nets6_def in_net6_def)
qed

section \<open>Properties\<close>

text \<open>C40: the address filter blocks exactly the documented networks. An IPv4 address is refused exactly when it
  lies in a loopback, link-local, private, unspecified, broadcast, multicast or carrier-grade NAT
  network. An IPv6 address is refused exactly when it lies in the loopback, unspecified, multicast,
  link-local or unique-local network, or when it is IPv4-mapped or IPv4-compatible and the embedded
  address is refused.\<close>

theorem blocked_reason_exact:
  "(blocked_reason (V4 a) \<noteq> None \<longleftrightarrow> (\<exists>net \<in> set blocked_nets4. in_net4 net a))
   \<and> (blocked_reason (V6 b) \<noteq> None \<longleftrightarrow> (\<exists>net \<in> set blocked_nets6. in_net6 net b)
        \<or> drop_bit 32 b \<in> {0, 0xffff} \<and> (\<exists>net \<in> set blocked_nets4. in_net4 net (ucast b)))"
proof (rule conjI)
  show "blocked_reason (V4 a) \<noteq> None \<longleftrightarrow> (\<exists>net \<in> set blocked_nets4. in_net4 net a)"
    by (simp add: blocked_reason_def blocked_v4_iff del: not_None_eq)
  have ends: "in_net6 (1, 128) b \<longleftrightarrow> b = 1" "in_net6 (0, 128) b \<longleftrightarrow> b = 0" by (simp_all add: in_net6_def)
  show "blocked_reason (V6 b) \<noteq> None \<longleftrightarrow> (\<exists>net \<in> set blocked_nets6. in_net6 net b)
     \<or> drop_bit 32 b \<in> {0, 0xffff} \<and> (\<exists>net \<in> set blocked_nets4. in_net4 net (ucast b))"
  proof (cases "b = 0 \<or> b = 1")
    case True
    then have "\<exists>net \<in> set blocked_nets6. in_net6 net b" using ends by (auto simp: blocked_nets6_def)
    then show ?thesis using True by (auto simp: blocked_reason_def)
  next
    case False
    show ?thesis
    proof (cases "drop_bit 32 b \<in> {0, 0xffff}")
      case True
      have "\<not> (\<exists>net \<in> set blocked_nets6. in_net6 net b)"
        using True False ends embedded_not_wide [OF refl, of b] by (auto simp: blocked_nets6_def)
      moreover have "blocked_reason (V6 b) = blocked_v4 (ucast b)"
        using True False by (auto simp: blocked_reason_def to_ipv4_mapped_def to_ipv4_def)
      ultimately show ?thesis using True blocked_v4_iff by simp
    next
      case out: False
      then have "blocked_reason (V6 b) = blocked_v6 b"
        using False by (auto simp: blocked_reason_def to_ipv4_mapped_def to_ipv4_def)
      then show ?thesis using out blocked_v6_iff by simp
    qed
  qed
qed

lemma check_addrs_iff: "check_addrs host as = Inr () \<longleftrightarrow> (\<forall>a \<in> set as. blocked_reason a = None)"
  by (induction "as") (auto split: option.splits)

text \<open>The addresses a guarded request could go to, as far as the check can know them.\<close>

definition destinations :: "(string \<Rightarrow> nat \<Rightarrow> ip_addr list option) \<Rightarrow> url \<Rightarrow> ip_addr set" where
  "destinations lookup u =
     (case parse_ip (host_of u) of
        Some a \<Rightarrow> {a}
      | None \<Rightarrow> (case lookup (host_of u) (case port_or_known_default u of None \<Rightarrow> 443 | Some p \<Rightarrow> p) of
                   None \<Rightarrow> {} | Some as \<Rightarrow> set as))"


text \<open>The metadata service and the loopback address, in the disguises the guard names.\<close>

lemma disguised_literals_blocked:
  "map_option blocked_reason (parse_ip ''::ffff:169.254.169.254'') = Some (Some ''a link-local address'')"
  "map_option blocked_reason (parse_ip ''::1'') = Some (Some ''a loopback address'')"
  "map_option blocked_reason (parse_ip ''fe80::1'') = Some (Some ''a link-local address'')"
  "map_option blocked_reason (parse_ip ''2001:db8:0:0:0:0:0:1'') = Some None"
  "parse_ip ''01.2.3.4'' = None"
  by code_simp+

end
