(* ===== verification/Cron.thy ===== *)
theory Cron
  imports Utf8 "HOL-Library.Word"
begin

unbundle bit_operations_syntax

text \<open>
  The five-field cron matcher of \<open>er-server/src/cron.rs\<close>. A field is a 64-bit mask. \<open>u32\<close> values are
  naturals below \<open>2 ^ 32\<close> with the wrap-around written out; \<open>checked\<close> says whether the build has
  overflow checks, which turn an overflow into a panic. The stepping loop is a partial function whose
  value \<open>None\<close> would be non-termination.
\<close>

section \<open>Fields\<close>

record field =
  fmask :: "64 word"
  wildcard :: bool

definition field_matches :: "field \<Rightarrow> nat \<Rightarrow> nat \<Rightarrow> bool" where
  "field_matches f v mn \<longleftrightarrow> mn \<le> v \<and> v - mn < 64 \<and> fmask f AND push_bit (v - mn) 1 \<noteq> 0"

datatype cron_error =
    FieldCount nat
  | FieldError string string
  | RangeError string string nat nat
  | ZeroStep string string

definition add_u32 :: "bool \<Rightarrow> nat \<Rightarrow> nat \<Rightarrow> nat outcome" where
  "add_u32 checked a b =
     (if a + b < 2 ^ 32 then Ret (a + b) else if checked then Panic else Ret (a + b - 2 ^ 32))"

definition bit_at :: "bool \<Rightarrow> nat \<Rightarrow> nat \<Rightarrow> 64 word outcome" where
  "bit_at checked v mn =
     (if mn \<le> v \<and> v - mn < 64 then Ret (push_bit (v - mn) 1)
      else if checked then Panic
      else Ret (push_bit ((if mn \<le> v then v - mn else v + 2 ^ 32 - mn) mod 64) 1))"

partial_function (option) mask_loop :: "bool \<Rightarrow> nat \<Rightarrow> nat \<Rightarrow> nat \<Rightarrow> nat \<Rightarrow> 64 word \<Rightarrow> 64 word outcome option" where
  "mask_loop checked mn hi step v m =
     (if v \<le> hi then
        (case bit_at checked v mn of
           Panic \<Rightarrow> Some Panic
         | Ret b \<Rightarrow>
             (case add_u32 checked v step of
                Panic \<Rightarrow> Some Panic
              | Ret v' \<Rightarrow> mask_loop checked mn hi step v' (m OR b)))
      else Some (Ret m))"

lemmas [code] = mask_loop.simps

definition DAY_OF_WEEK :: string where
  "DAY_OF_WEEK = ''day-of-week''"

definition parse_step :: "string \<Rightarrow> string \<Rightarrow> string \<Rightarrow> cron_error + (string \<times> nat)" where
  "parse_step spec name term =
     (case split_once CHR ''/'' term of
        Some (r, s) \<Rightarrow>
          (case parse_u32 s of
             None \<Rightarrow> Inl (FieldError name spec)
           | Some step \<Rightarrow> if step = 0 then Inl (ZeroStep name spec) else Inr (r, step))
      | None \<Rightarrow> Inr (term, 1))"

definition parse_range :: "string \<Rightarrow> string \<Rightarrow> nat \<Rightarrow> nat \<Rightarrow> string \<Rightarrow> cron_error + (nat \<times> nat \<times> bool)" where
  "parse_range spec name mn mx r =
     (if r = ''*'' then Inr (mn, mx, True)
      else (case split_once CHR ''-'' r of
              Some (a, b) \<Rightarrow>
                (case parse_u32 a of
                   None \<Rightarrow> Inl (FieldError name spec)
                 | Some lo \<Rightarrow>
                     (case parse_u32 b of
                        None \<Rightarrow> Inl (FieldError name spec)
                      | Some hi \<Rightarrow> if lo > hi then Inl (FieldError name spec) else Inr (lo, hi, False)))
            | None \<Rightarrow>
                (case parse_u32 r of
                   None \<Rightarrow> Inl (FieldError name spec)
                 | Some v \<Rightarrow> Inr (v, v, False))))"

definition fold_sunday :: "string \<Rightarrow> nat \<Rightarrow> nat" where
  "fold_sunday name v = (if name = DAY_OF_WEEK \<and> v = 7 then 0 else v)"

definition parse_term :: "bool \<Rightarrow> string \<Rightarrow> string \<Rightarrow> nat \<Rightarrow> nat \<Rightarrow> string \<Rightarrow> field \<Rightarrow> (cron_error + field) outcome option" where
  "parse_term checked spec name mn mx term acc =
     (if term = [] then Some (Ret (Inl (FieldError name spec)))
      else (case parse_step spec name term of
              Inl e \<Rightarrow> Some (Ret (Inl e))
            | Inr (r, step) \<Rightarrow>
                (case parse_range spec name mn mx r of
                   Inl e \<Rightarrow> Some (Ret (Inl e))
                 | Inr (lo, hi, star) \<Rightarrow>
                     let lo = fold_sunday name lo; hi = fold_sunday name hi in
                     if lo < mn \<or> hi > mx then Some (Ret (Inl (RangeError name spec mn mx)))
                     else map_option (\<lambda>out. bind_outcome out (\<lambda>m. Ret (Inr \<lparr>fmask = m, wildcard = wildcard acc \<or> star\<rparr>)))
                       (mask_loop checked mn hi step lo (fmask acc)))))"

fun parse_terms :: "bool \<Rightarrow> string \<Rightarrow> string \<Rightarrow> nat \<Rightarrow> nat \<Rightarrow> string list \<Rightarrow> field \<Rightarrow> (cron_error + field) outcome option" where
  "parse_terms checked spec name mn mx [] acc =
     Some (Ret (if fmask acc = 0 then Inl (FieldError name spec) else Inr acc))"
| "parse_terms checked spec name mn mx (t # ts) acc =
     (case parse_term checked spec name mn mx t acc of
        Some (Ret (Inr acc')) \<Rightarrow> parse_terms checked spec name mn mx ts acc'
      | other \<Rightarrow> other)"

definition parse_field :: "bool \<Rightarrow> string \<Rightarrow> string \<Rightarrow> nat \<Rightarrow> nat \<Rightarrow> (cron_error + field) outcome option" where
  "parse_field checked spec name mn mx =
     parse_terms checked spec name mn mx (split_on CHR '','' spec) \<lparr>fmask = 0, wildcard = False\<rparr>"

section \<open>Expressions\<close>

record cron =
  minute :: field
  hour :: field
  day_of_month :: field
  month :: field
  day_of_week :: field

definition and_then :: "('e + 'a) outcome option \<Rightarrow> ('a \<Rightarrow> ('e + 'b) outcome option) \<Rightarrow> ('e + 'b) outcome option" where
  "and_then r f =
     (case r of
        None \<Rightarrow> None
      | Some Panic \<Rightarrow> Some Panic
      | Some (Ret (Inl e)) \<Rightarrow> Some (Ret (Inl e))
      | Some (Ret (Inr x)) \<Rightarrow> f x)"

definition parse_cron :: "bool \<Rightarrow> string \<Rightarrow> (cron_error + cron) outcome option" where
  "parse_cron checked expr =
     (case split_whitespace expr of
        [f0, f1, f2, f3, f4] \<Rightarrow>
          and_then (parse_field checked f0 ''minute'' 0 59) (\<lambda>mi.
          and_then (parse_field checked f1 ''hour'' 0 23) (\<lambda>h.
          and_then (parse_field checked f2 ''day-of-month'' 1 31) (\<lambda>dm.
          and_then (parse_field checked f3 ''month'' 1 12) (\<lambda>mo.
          and_then (parse_field checked f4 DAY_OF_WEEK 0 6) (\<lambda>dw.
            Some (Ret (Inr \<lparr>minute = mi, hour = h, day_of_month = dm, month = mo, day_of_week = dw\<rparr>)))))))
      | fs \<Rightarrow> Some (Ret (Inl (FieldCount (length fs)))))"

definition cron_matches :: "cron \<Rightarrow> nat \<Rightarrow> nat \<Rightarrow> nat \<Rightarrow> nat \<Rightarrow> nat \<Rightarrow> bool" where
  "cron_matches c mi h d mo wd =
     (if \<not> field_matches (minute c) mi 0 \<or> \<not> field_matches (hour c) h 0 \<or> \<not> field_matches (month c) mo 1 then False
      else
        let by_month_day = field_matches (day_of_month c) d 1;
            by_week_day = field_matches (day_of_week c) wd 0 in
        if \<not> wildcard (day_of_month c) \<and> \<not> wildcard (day_of_week c) then by_month_day \<or> by_week_day
        else by_month_day \<and> by_week_day)"

text \<open>The fields of a UTC time \<open>chrono\<close> gives; the week day counts from Sunday.\<close>

record utc_time =
  at_minute :: nat
  at_hour :: nat
  at_day :: nat
  at_month :: nat
  at_weekday :: nat

definition cron_matches_at :: "cron \<Rightarrow> utc_time \<Rightarrow> bool" where
  "cron_matches_at c t = cron_matches c (at_minute t) (at_hour t) (at_day t) (at_month t) (at_weekday t)"

section \<open>The stepping loop\<close>

text \<open>Without overflow the loop sets exactly the bits of the arithmetic progression.\<close>

definition progression :: "nat \<Rightarrow> nat \<Rightarrow> nat \<Rightarrow> nat set" where
  "progression lo hi step = {v. \<exists>k. v = lo + k * step \<and> v \<le> hi}"

lemma progression_step:
  "progression lo hi step = (if lo \<le> hi then insert lo (progression (lo + step) hi step) else {})"
proof -
  have "v \<in> progression lo hi step \<longleftrightarrow> v = lo \<and> lo \<le> hi \<or> v \<in> progression (lo + step) hi step" for v
  proof -
    have "(\<exists>k. v = lo + k * step) \<longleftrightarrow> v = lo \<or> (\<exists>k. v = lo + step + k * step)"
      by (metis (no_types, opaque_lifting) add.assoc add_0_right mult_0 mult_Suc not0_implies_Suc)
    then show ?thesis by (auto simp: progression_def)
  qed
  moreover have "progression (lo + step) hi step = {}" if "\<not> lo \<le> hi" using that by (auto simp: progression_def)
  ultimately show ?thesis by auto
qed

definition mask_of :: "nat \<Rightarrow> nat set \<Rightarrow> 64 word \<Rightarrow> bool" where
  "mask_of mn S m \<longleftrightarrow> (\<forall>i < 64. bit m i \<longleftrightarrow> mn + i \<in> S)"

lemma field_matches_bit: "field_matches f v mn \<longleftrightarrow> mn \<le> v \<and> v - mn < 64 \<and> bit (fmask f) (v - mn)"
proof -
  have "fmask f AND push_bit n 1 \<noteq> 0 \<longleftrightarrow> bit (fmask f) n" if "n < 64" for n
    using that by (metis bit_iff_and_push_bit_not_eq_0)
  then show ?thesis by (auto simp: field_matches_def)
qed

lemma mask_loop_run:
  assumes "0 < step" "hi + step < 2 ^ 32" "mn \<le> lo" "hi < mn + 64" "mask_of mn S m"
  shows "\<exists>m'. mask_loop checked mn hi step lo m = Some (Ret m') \<and> mask_of mn (S \<union> progression lo hi step) m'"
  using assms(3,5)
proof (induction "Suc hi - lo" arbitrary: lo m S rule: less_induct)
  case less
  show ?case
  proof (cases "lo \<le> hi")
    case False
    then show ?thesis using less.prems progression_step [of lo hi step] by (subst mask_loop.simps) simp
  next
    case True
    have b: "bit_at checked lo mn = Ret (push_bit (lo - mn) 1)" using less.prems True assms(4) by (auto simp: bit_at_def)
    have a: "add_u32 checked lo step = Ret (lo + step)" using True assms(2) by (simp add: add_u32_def)
    have "mask_of mn (insert lo S) (m OR push_bit (lo - mn) 1)"
      using less.prems True assms(4) by (auto simp: mask_of_def bit_simps)
    moreover have "Suc hi - (lo + step) < Suc hi - lo" "mn \<le> lo + step" using True assms(1) less.prems by simp_all
    ultimately obtain m' where
      "mask_loop checked mn hi step (lo + step) (m OR push_bit (lo - mn) 1) = Some (Ret m')"
      "mask_of mn (insert lo S \<union> progression (lo + step) hi step) m'" using less.hyps by meson
    moreover have "insert lo S \<union> progression (lo + step) hi step = S \<union> progression lo hi step"
      using True progression_step [of lo hi step] by auto
    ultimately show ?thesis using True a b by (subst mask_loop.simps) simp
  qed
qed

section \<open>Written fields\<close>

text \<open>The syntax of a field: a list of terms, each a star, a value or a range with an optional step.\<close>

datatype range = Star | Val nat | Span nat nat

type_synonym cterm = "range \<times> nat option"

fun show_range :: "range \<Rightarrow> string" where
  "show_range Star = ''*''"
| "show_range (Val v) = show_nat v"
| "show_range (Span a b) = show_nat a @ ''-'' @ show_nat b"

fun show_cterm :: "cterm \<Rightarrow> string" where
  "show_cterm (r, None) = show_range r"
| "show_cterm (r, Some k) = show_range r @ ''/'' @ show_nat k"

definition show_spec :: "cterm list \<Rightarrow> string" where
  "show_spec ts = join_with '','' (map show_cterm ts)"

fun range_bounds :: "nat \<Rightarrow> nat \<Rightarrow> range \<Rightarrow> nat \<times> nat" where
  "range_bounds mn mx Star = (mn, mx)"
| "range_bounds mn mx (Val v) = (v, v)"
| "range_bounds mn mx (Span a b) = (a, b)"

definition term_lo :: "string \<Rightarrow> nat \<Rightarrow> nat \<Rightarrow> cterm \<Rightarrow> nat" where
  "term_lo name mn mx t = fold_sunday name (fst (range_bounds mn mx (fst t)))"

definition term_hi :: "string \<Rightarrow> nat \<Rightarrow> nat \<Rightarrow> cterm \<Rightarrow> nat" where
  "term_hi name mn mx t = fold_sunday name (snd (range_bounds mn mx (fst t)))"

definition term_step :: "cterm \<Rightarrow> nat" where
  "term_step t = (case snd t of None \<Rightarrow> 1 | Some k \<Rightarrow> k)"

definition term_ok :: "string \<Rightarrow> nat \<Rightarrow> nat \<Rightarrow> cterm \<Rightarrow> bool" where
  "term_ok name mn mx t \<longleftrightarrow> mn \<le> term_lo name mn mx t \<and> term_hi name mn mx t \<le> mx
     \<and> fst (range_bounds mn mx (fst t)) \<le> snd (range_bounds mn mx (fst t)) \<and> snd (range_bounds mn mx (fst t)) < 2 ^ 32
     \<and> 0 < term_step t \<and> mx + term_step t < 2 ^ 32"

definition term_values :: "string \<Rightarrow> nat \<Rightarrow> nat \<Rightarrow> cterm \<Rightarrow> nat set" where
  "term_values name mn mx t = progression (term_lo name mn mx t) (term_hi name mn mx t) (term_step t)"

definition spec_values :: "string \<Rightarrow> nat \<Rightarrow> nat \<Rightarrow> cterm list \<Rightarrow> nat set" where
  "spec_values name mn mx ts = (\<Union>t \<in> set ts. term_values name mn mx t)"

definition spec_ok :: "string \<Rightarrow> nat \<Rightarrow> nat \<Rightarrow> cterm list \<Rightarrow> bool" where
  "spec_ok name mn mx ts \<longleftrightarrow> list_all (term_ok name mn mx) ts \<and> spec_values name mn mx ts \<noteq> {}"

definition has_star :: "cterm list \<Rightarrow> bool" where
  "has_star ts \<longleftrightarrow> list_ex (\<lambda>t. fst t = Star) ts"

subsection \<open>Printed numbers parse back\<close>

lemma show_nat_digits: "c \<in> set (show_nat n) \<Longrightarrow> 48 \<le> byte c \<and> byte c \<le> 57"
proof (induction n rule: show_nat.induct)
  case (1 n)
  show ?case
  proof (cases "n < 10")
    case True
    then show ?thesis using "1.prems" by (simp add: show_nat.simps [of n])
  next
    case False
    then have "c \<in> set (show_nat (n div 10)) \<or> c = char_of (48 + n mod 10)"
      using "1.prems" by (auto simp: show_nat.simps [of n])
    moreover have "byte (char_of (48 + n mod 10)) = 48 + n mod 10"
    proof -
      have "48 + n mod 10 < 256" using mod_less_divisor [of 10 n] by linarith
      then show ?thesis by (simp add: of_char_of)
    qed
    moreover have "n mod 10 \<le> 9" using mod_less_divisor [of 10 n] by linarith
    ultimately show ?thesis using "1.IH" [OF False] by auto
  qed
qed

lemma show_nat_chars: "c \<in> set (show_nat n) \<Longrightarrow> c \<noteq> CHR '','' \<and> c \<noteq> CHR ''/'' \<and> c \<noteq> CHR ''-'' \<and> c \<noteq> CHR ''*'' \<and> c \<noteq> CHR ''+''"
  using show_nat_digits [of c n] by auto

lemma parse_digits_append: "parse_digits acc (xs @ ys) = Option.bind (parse_digits acc xs) (\<lambda>a. parse_digits a ys)"
  by (induction acc xs rule: parse_digits.induct) (auto split: option.split)

lemma parse_digits_show: "parse_digits 0 (show_nat n) = Some (int n)"
proof (induction n rule: show_nat.induct)
  case (1 n)
  have d: "digit_val (char_of (48 + k)) = Some (int k)" if "k < 10" for k
    using that by (simp add: digit_val_def of_char_of)
  show ?case
  proof (cases "n < 10")
    case True
    then show ?thesis using d [of n] by (simp add: show_nat.simps [of n])
  next
    case False
    then show ?thesis using "1.IH" d [of "n mod 10"]
      by (simp add: show_nat.simps [of n] parse_digits_append) (simp flip: of_nat_mod of_nat_div add: mult_div_mod_eq zdiv_int zmod_int)
  qed
qed

lemma parse_u32_show: "n < 2 ^ 32 \<Longrightarrow> parse_u32 (show_nat n) = Some n"
  using parse_digits_show [of n] show_nat_chars [of _ n]
  by (cases "show_nat n") (auto simp: parse_u32_def parse_unsigned_def)

subsection \<open>Printed fields parse back\<close>

lemma split_on_join:
  "list_all (\<lambda>x. c \<notin> set x) (x # xs) \<Longrightarrow> split_on c (join_with [c] (x # xs)) = x # xs"
proof (induction xs arbitrary: x)
  case Nil
  then show ?case by simp (induction x, auto)
next
  case (Cons y ys)
  have "split_on c (x @ c # s) = x # split_on c s" if "c \<notin> set x" for s using that by (induction x) auto
  then show ?case using Cons by simp
qed

lemma split_once_digits: "d \<notin> set a \<Longrightarrow> split_once d (a @ [d] @ b) = Some (a, b)"
  by (simp add: split_once_append)

lemma show_nat_fresh: "CHR '','' \<notin> set (show_nat n)" "CHR ''/'' \<notin> set (show_nat n)" "CHR ''-'' \<notin> set (show_nat n)" "CHR ''*'' \<notin> set (show_nat n)"
  using show_nat_chars by blast+

lemma show_range_fresh: "CHR '','' \<notin> set (show_range r)" "CHR ''/'' \<notin> set (show_range r)"
  by (cases r; simp add: show_nat_fresh)+

lemma show_cterm_fresh: "CHR '','' \<notin> set (show_cterm t)"
  by (cases t rule: show_cterm.cases) (simp_all add: show_nat_fresh show_range_fresh)

lemma show_range_nonempty: "show_range r \<noteq> []"
  by (cases r) simp_all

lemma show_cterm_nonempty: "show_cterm t \<noteq> []"
  by (cases t rule: show_cterm.cases) (simp_all add: show_range_nonempty)

lemma parse_range_show:
  assumes "fst (range_bounds mn mx r) \<le> snd (range_bounds mn mx r)" "snd (range_bounds mn mx r) < 2 ^ 32"
  shows "parse_range spec name mn mx (show_range r) = Inr (fst (range_bounds mn mx r), snd (range_bounds mn mx r), r = Star)"
proof (cases r)
  case Star
  then show ?thesis by (simp add: parse_range_def)
next
  case (Val v)
  have "show_nat v \<noteq> ''*''" using show_nat_fresh(4) [of v] by auto
  then show ?thesis using assms Val show_nat_fresh(3) [of v] parse_u32_show [of v]
    by (simp add: parse_range_def split_once_None_iff [THEN iffD2])
next
  case (Span a b)
  have "show_nat a @ ''-'' @ show_nat b \<noteq> ''*''" using show_nat_fresh(4) [of a] by (cases "show_nat a") auto
  then show ?thesis using assms Span split_once_digits [OF show_nat_fresh(3), of a "show_nat b"] parse_u32_show [of a] parse_u32_show [of b]
    by (simp add: parse_range_def)
qed

lemma parse_step_show:
  assumes "0 < term_step t" "term_step t < 2 ^ 32"
  shows "parse_step spec name (show_cterm t) = Inr (show_range (fst t), term_step t)"
  using assms split_once_digits [OF show_range_fresh(2), of "fst t"] parse_u32_show [of "term_step t"] show_range_fresh(2) [of "fst t"]
  by (cases t rule: show_cterm.cases) (simp_all add: parse_step_def term_step_def split_once_None_iff [THEN iffD2])

lemma parse_term_show:
  assumes ok: "term_ok name mn mx t" and mx: "mx < mn + 64" and acc: "mask_of mn S (fmask acc)"
  shows "\<exists>f. parse_term checked spec name mn mx (show_cterm t) acc = Some (Ret (Inr f))
    \<and> mask_of mn (S \<union> term_values name mn mx t) (fmask f) \<and> wildcard f = (wildcard acc \<or> fst t = Star)"
proof -
  have step: "0 < term_step t" "term_step t < 2 ^ 32" and bounds: "fst (range_bounds mn mx (fst t)) \<le> snd (range_bounds mn mx (fst t))"
    "snd (range_bounds mn mx (fst t)) < 2 ^ 32" "mn \<le> term_lo name mn mx t" "term_hi name mn mx t \<le> mx"
    "mx + term_step t < 2 ^ 32" using ok by (auto simp: term_ok_def)
  have "term_hi name mn mx t + term_step t < 2 ^ 32" "term_hi name mn mx t < mn + 64" using bounds mx by simp_all
  from mask_loop_run [OF step(1) this(1) bounds(3) this(2) acc, of checked] obtain m where
    "mask_loop checked mn (term_hi name mn mx t) (term_step t) (term_lo name mn mx t) (fmask acc) = Some (Ret m)"
    "mask_of mn (S \<union> term_values name mn mx t) m" unfolding term_values_def by blast
  then show ?thesis using parse_step_show [OF step] parse_range_show [OF bounds(1,2)] bounds(3,4)
    by (simp add: parse_term_def show_cterm_nonempty Let_def term_lo_def term_hi_def)
qed

lemma parse_terms_show:
  assumes mx: "mx < mn + 64"
  shows "list_all (term_ok name mn mx) ts \<Longrightarrow> mask_of mn S (fmask acc) \<Longrightarrow>
    \<exists>f. parse_terms checked spec name mn mx (map show_cterm ts) acc = Some (Ret (if fmask f = 0 then Inl (FieldError name spec) else Inr f))
      \<and> mask_of mn (S \<union> spec_values name mn mx ts) (fmask f) \<and> wildcard f = (wildcard acc \<or> has_star ts)"
proof (induction ts arbitrary: S acc)
  case Nil
  then show ?case by (intro exI [of _ acc]) (simp add: spec_values_def has_star_def)
next
  case (Cons t ts)
  have t: "term_ok name mn mx t" using Cons.prems(1) by simp
  obtain f where f: "parse_term checked spec name mn mx (show_cterm t) acc = Some (Ret (Inr f))"
    "mask_of mn (S \<union> term_values name mn mx t) (fmask f)" "wildcard f = (wildcard acc \<or> fst t = Star)"
    using parse_term_show [OF t mx Cons.prems(2), of checked spec] by blast
  obtain g where "parse_terms checked spec name mn mx (map show_cterm ts) f = Some (Ret (if fmask g = 0 then Inl (FieldError name spec) else Inr g))"
    "mask_of mn (S \<union> term_values name mn mx t \<union> spec_values name mn mx ts) (fmask g)" "wildcard g = (wildcard f \<or> has_star ts)"
    using Cons.IH [OF _ f(2)] Cons.prems(1) by auto
  then show ?case using f by (intro exI [of _ g]) (simp add: spec_values_def has_star_def Un_assoc disj_assoc)
qed

lemma spec_values_bounded: "spec_ok name mn mx ts \<Longrightarrow> v \<in> spec_values name mn mx ts \<Longrightarrow> mn \<le> v \<and> v \<le> mx"
  by (fastforce simp: spec_ok_def spec_values_def term_values_def progression_def term_ok_def list_all_iff)

lemma parse_field_show:
  assumes ok: "spec_ok name mn mx ts" and mx: "mx < mn + 64"
  shows "\<exists>f. parse_field checked (show_spec ts) name mn mx = Some (Ret (Inr f))
    \<and> (\<forall>v. field_matches f v mn \<longleftrightarrow> v \<in> spec_values name mn mx ts) \<and> (wildcard f \<longleftrightarrow> has_star ts)"
proof -
  have "mask_of mn {} (fmask \<lparr>fmask = 0, wildcard = False\<rparr>)" by (simp add: mask_of_def)
  from parse_terms_show [OF mx _ this, where ts = ts and spec = "show_spec ts" and checked = checked] ok obtain f where
    f: "parse_terms checked (show_spec ts) name mn mx (map show_cterm ts) \<lparr>fmask = 0, wildcard = False\<rparr>
        = Some (Ret (if fmask f = 0 then Inl (FieldError name (show_spec ts)) else Inr f))"
    "mask_of mn (spec_values name mn mx ts) (fmask f)" "wildcard f \<longleftrightarrow> has_star ts" by (auto simp: spec_ok_def)
  have "ts \<noteq> []" using ok by (auto simp: spec_ok_def spec_values_def)
  then have split: "split_on CHR '','' (show_spec ts) = map show_cterm ts"
    using split_on_join [of "CHR '',''" "show_cterm (hd ts)" "map show_cterm (tl ts)"] show_cterm_fresh
    by (cases ts) (simp_all add: show_spec_def list_all_iff)
  have m: "field_matches f v mn \<longleftrightarrow> v \<in> spec_values name mn mx ts" for v
  proof -
    have "mn \<le> v \<and> v - mn < 64" if "v \<in> spec_values name mn mx ts" using spec_values_bounded [OF ok that] mx by linarith
    then show ?thesis using f(2) unfolding field_matches_bit mask_of_def by auto
  qed
  obtain v where "v \<in> spec_values name mn mx ts" using ok by (auto simp: spec_ok_def)
  then have "field_matches f v mn" using m by blast
  then have "fmask f \<noteq> 0" by (auto simp: field_matches_def)
  then show ?thesis using f m by (simp add: parse_field_def split)
qed

lemma show_spec_visible: "ts \<noteq> [] \<Longrightarrow> show_spec ts \<noteq> [] \<and> no_ws (show_spec ts)"
proof (induction ts)
  case (Cons t ts)
  have digits: "no_ws (show_nat n)" for n using show_nat_digits [of _ n] by (fastforce simp: no_ws_def list_all_iff)
  have "no_ws (show_range r)" for r by (cases r) (simp_all add: digits [unfolded no_ws_def] no_ws_def)
  then have t: "no_ws (show_cterm t)" by (cases t rule: show_cterm.cases) (simp_all add: digits [unfolded no_ws_def] no_ws_def)
  show ?case
  proof (cases ts)
    case Nil
    then show ?thesis using t show_cterm_nonempty by (simp add: show_spec_def)
  next
    case (Cons u us)
    then show ?thesis using t show_cterm_nonempty Cons.IH by (simp add: show_spec_def no_ws_def)
  qed
qed simp

section \<open>Properties\<close>


text \<open>Every quarter of an hour during working hours, Monday to Friday.\<close>

definition office :: "cterm list list" where
  "office = [[(Star, Some 15)], [(Span 9 17, None)], [(Star, None)], [(Star, None)], [(Span 1 5, None)]]"

lemma office_ok:
  "spec_ok ''minute'' 0 59 (office ! 0)" "spec_ok ''hour'' 0 23 (office ! 1)" "spec_ok ''day-of-month'' 1 31 (office ! 2)"
  "spec_ok ''month'' 1 12 (office ! 3)" "spec_ok DAY_OF_WEEK 0 6 (office ! 4)"
proof -
  have "lo \<in> progression lo hi k" if "lo \<le> hi" for lo hi k using that progression_step [of lo hi k] by simp
  then have ne: "progression lo hi k \<noteq> {}" if "lo \<le> hi" for lo hi k using that by blast
  show "spec_ok ''minute'' 0 59 (office ! 0)" "spec_ok ''hour'' 0 23 (office ! 1)" "spec_ok ''day-of-month'' 1 31 (office ! 2)"
    "spec_ok ''month'' 1 12 (office ! 3)" "spec_ok DAY_OF_WEEK 0 6 (office ! 4)"
    by (simp_all add: spec_ok_def office_def spec_values_def term_values_def ne term_ok_def term_lo_def term_hi_def
        term_step_def fold_sunday_def DAY_OF_WEEK_def)
qed


section \<open>Where the matcher departs from its documentation\<close>

text \<open>\<open>7\<close> is Sunday only where it stands alone: as the end of a range it is folded to 0 before the loop, so
  \<open>0-7\<close> admits Sunday only, \<open>5-7\<close> alone is refused, and in a list it silently admits nothing.\<close>

lemma sunday_ranges:
  "spec_values DAY_OF_WEEK 0 6 [(Span 0 7, None)] = {0}"
  "parse_field checked ''5-7'' DAY_OF_WEEK 0 6 = Some (Ret (Inl (FieldError DAY_OF_WEEK ''5-7'')))"
  "spec_values DAY_OF_WEEK 0 6 [(Val 1, None), (Span 5 7, None)] = {1}"
proof -
  show "spec_values DAY_OF_WEEK 0 6 [(Span 0 7, None)] = {0}" "spec_values DAY_OF_WEEK 0 6 [(Val 1, None), (Span 5 7, None)] = {1}"
    by (auto simp: spec_values_def term_values_def progression_def term_lo_def term_hi_def term_step_def fold_sunday_def)
  show "parse_field checked ''5-7'' DAY_OF_WEEK 0 6 = Some (Ret (Inl (FieldError DAY_OF_WEEK ''5-7'')))"
    by (cases checked; simp; code_simp)
qed

text \<open>A step near \<open>2 ^ 32\<close> overflows the loop variable: with overflow checks the parser panics on \<open>5/4294967295\<close>;
  without them the variable wraps downwards and the field admits every value up to 5.\<close>

lemma step_overflow:
  "parse_field True ''5/4294967295'' ''minute'' 0 59 = Some Panic"
  "parse_field False ''5/4294967295'' ''minute'' 0 59 = Some (Ret (Inr \<lparr>fmask = 63, wildcard = False\<rparr>))"
proof -
  have big: "parse_u32 ''4294967295'' = Some 4294967295" "parse_u32 ''5'' = Some 5"
    by (simp_all add: parse_u32_def parse_unsigned_def digit_val_def)
  have split: "split_on CHR '','' ''5/4294967295'' = [''5/4294967295'']" by simp
  show "parse_field True ''5/4294967295'' ''minute'' 0 59 = Some Panic"
    unfolding parse_field_def split
    by (simp add: parse_term_def parse_step_def parse_range_def big fold_sunday_def DAY_OF_WEEK_def mask_loop.simps
        bit_at_def add_u32_def)
  show "parse_field False ''5/4294967295'' ''minute'' 0 59 = Some (Ret (Inr \<lparr>fmask = 63, wildcard = False\<rparr>))"
    unfolding parse_field_def split
    by (simp add: parse_term_def parse_step_def parse_range_def big fold_sunday_def DAY_OF_WEEK_def mask_loop.simps
        bit_at_def add_u32_def)
qed

end
