(* ===== verification/TaskLedger.thy ===== *)
theory TaskLedger
  imports Readiness Json Ids Errors Utf8
begin

text \<open>
  The task ledger: the rows of \<open>task_instances\<close> and \<open>jobs\<close>, the SQL statements of
  \<open>er-entities/src/task_instance.rs\<close> and \<open>job.rs\<close> that move them, and the multi-statement
  transactions of \<open>er-server/src/taskpg.rs\<close>.

  A table is the list of its rows. A statement is a function of the ledger that returns the rows of
  its \<open>RETURNING\<close> clause with the new ledger, or the constraint it violates; a transaction that
  fails leaves the ledger as it was. Statements are atomic. The columns are those of the schema:
  \<open>live\<close> is \<open>TRUE\<close> or \<open>NULL\<close>, closed text columns are the data types they spell, a
  timestamp is an integer and \<open>now\<close> is the transaction's. PostgreSQL's \<open>hashtext\<close> is a parameter.
\<close>

section \<open>Rows\<close>

datatype archived_reason = RetryReason | ClearedReason | RestartedReason

record task_instance =
  ti_id :: string
  ti_org_id :: string
  ti_dataset_id :: "string option"
  ti_job_id :: string
  ti_task_id :: string
  ti_seq :: nat
  ti_try_number :: int
  ti_live :: bool
  ti_archived_reason :: "archived_reason option"
  ti_kind :: node_kind
  ti_state :: task_state
  ti_trigger_rule :: trigger_rule
  ti_upstream :: json
  ti_teardown :: bool
  ti_segment :: "string option"
  ti_resource_class :: "resource_class option"
  ti_next_resource_class :: "resource_class option"
  ti_escalated_from :: "resource_class option"
  ti_max_tries :: int
  ti_launches :: int
  ti_max_launches :: int
  ti_not_before :: "int option"
  ti_input :: "json option"
  ti_output :: "json option"
  ti_outcome :: "string option"
  ti_exit_code :: "int option"
  ti_termination_reason :: "string option"
  ti_error_class :: "string option"
  ti_error_detail :: "string option"
  ti_owner_epoch :: "string option"
  ti_k8s_job_name :: "string option"
  ti_pod_name :: "string option"
  ti_pod_uid :: "string option"
  ti_node_name :: "string option"
  ti_image_digest :: "string option"
  ti_snapshot_start :: "int option"
  ti_snapshot_end :: "int option"
  ti_counters :: "json option"
  ti_trace_context :: "string option"
  ti_token_hash :: "string option"
  ti_scheduled_at :: "int option"
  ti_queued_at :: "int option"
  ti_started_at :: "int option"
  ti_heartbeat_at :: "int option"
  ti_finished_at :: "int option"
  ti_created_at :: int
  ti_updated_at :: int

datatype job_state = JobQueued | Dispatching | JobRunning | JobCanceling | JobSucceeded | JobFailed | JobCanceled

record job =
  jb_id :: string
  jb_org_id :: string
  jb_dataset_id :: "string option"
  jb_kind :: string
  jb_params :: json
  jb_state :: job_state
  jb_priority :: int
  jb_idempotency_key :: "string option"
  jb_run_id :: "string option"
  jb_attempt :: int
  jb_max_attempts :: int
  jb_error_class :: "string option"
  jb_error_detail :: "string option"
  jb_not_before :: "int option"
  jb_created_by :: "string option"
  jb_schedule_id :: "string option"
  jb_resource_class :: "string option"
  jb_trace_context :: "string option"
  jb_structural_fingerprint :: "string option"
  jb_policy_hash :: "string option"
  jb_image_digest :: "string option"
  jb_clear_number :: "int option"
  jb_owner_epoch :: "string option"
  jb_created_at :: int
  jb_updated_at :: int
  jb_started_at :: "int option"
  jb_finished_at :: "int option"

record ledger =
  tasks :: "task_instance list"
  jobs :: "job list"

section \<open>Constraints\<close>

datatype sql_error = UniqueViolation | CheckViolation | ReferenceViolation | NullViolation

definition ERROR_CLASSES :: "string list" where
  "ERROR_CLASSES = [''transient_io'', ''lock_conflict'', ''precondition'', ''config'', ''contradiction'', ''non_convergence'',
     ''data'', ''internal'', ''infrastructure'', ''resources'', ''timeout'']"

text \<open>The \<open>CHECK\<close> constraints that the column types do not already enforce.\<close>

definition row_checks :: "task_instance \<Rightarrow> bool" where
  "row_checks r \<longleftrightarrow> ti_escalated_from r \<noteq> Some ClassL
     \<and> (case ti_error_class r of None \<Rightarrow> True | Some c \<Rightarrow> c \<in> set ERROR_CLASSES)
     \<and> (case ti_outcome r of None \<Rightarrow> True | Some c \<Rightarrow> c = ''done'' \<or> c = ''no_op'')"

definition holds_pod :: "task_instance \<Rightarrow> bool" where
  "holds_pod r \<longleftrightarrow> ti_live r \<and> ti_kind r = Pod \<and> ti_state r \<in> {Queued, Running, Restarting, Canceling}"

abbreviation coordinate :: "task_instance \<Rightarrow> string \<times> string" where
  "coordinate r \<equiv> (ti_job_id r, ti_task_id r)"

definition unique_ok :: "task_instance list \<Rightarrow> bool" where
  "unique_ok rows \<longleftrightarrow> distinct (map ti_id rows)
     \<and> distinct (map (\<lambda>r. (ti_job_id r, ti_task_id r, ti_try_number r)) rows)
     \<and> distinct (map coordinate (filter ti_live rows))
     \<and> distinct (map ti_dataset_id (filter (\<lambda>r. holds_pod r \<and> ti_dataset_id r \<noteq> None) rows))
     \<and> distinct (map ti_org_id (filter (\<lambda>r. holds_pod r \<and> ti_dataset_id r = None) rows))"

definition store :: "task_instance list \<Rightarrow> 'a \<Rightarrow> ledger \<Rightarrow> sql_error + ('a \<times> ledger)" where
  "store rows result db =
     (if \<not> list_all row_checks rows then Inl CheckViolation
      else if \<not> unique_ok rows then Inl UniqueViolation
      else Inr (result, db\<lparr>tasks := rows\<rparr>))"

definition update_tasks :: "(task_instance \<Rightarrow> bool) \<Rightarrow> (task_instance \<Rightarrow> task_instance) \<Rightarrow> ledger
    \<Rightarrow> sql_error + (task_instance list \<times> ledger)" where
  "update_tasks guard change db =
     store (map (\<lambda>r. if guard r then change r else r) (tasks db)) (map change (filter guard (tasks db))) db"

definition insert_tasks :: "task_instance list \<Rightarrow> ledger \<Rightarrow> sql_error + (task_instance list \<times> ledger)" where
  "insert_tasks new db = store (tasks db @ new) new db"

definition update_jobs :: "(job \<Rightarrow> bool) \<Rightarrow> (job \<Rightarrow> job) \<Rightarrow> ledger \<Rightarrow> job list \<times> ledger" where
  "update_jobs guard change db =
     (map change (filter guard (jobs db)), db\<lparr>jobs := map (\<lambda>j. if guard j then change j else j) (jobs db)\<rparr>)"

definition find_job :: "ledger \<Rightarrow> string \<Rightarrow> job option" where
  "find_job db job_id = find (\<lambda>j. jb_id j = job_id) (jobs db)"

text \<open>The scalar subquery on the row's job: \<open>NULL\<close> compares as false when there is no such job.\<close>

definition clear_number_is :: "ledger \<Rightarrow> int \<Rightarrow> task_instance \<Rightarrow> bool" where
  "clear_number_is db clear_number r \<longleftrightarrow>
     (case find_job db (ti_job_id r) of
        None \<Rightarrow> False
      | Some j \<Rightarrow> (case jb_clear_number j of None \<Rightarrow> 0 | Some n \<Rightarrow> n) = clear_number)"

definition job_open_for :: "ledger \<Rightarrow> task_instance \<Rightarrow> bool" where
  "job_open_for db r \<longleftrightarrow>
     (case find_job db (ti_job_id r) of
        None \<Rightarrow> False
      | Some j \<Rightarrow> jb_state j = JobRunning \<or> jb_state j = JobCanceling \<and> ti_teardown r)"

definition coalesce :: "'a option \<Rightarrow> 'a option \<Rightarrow> 'a option" where
  "coalesce a b = (case a of Some x \<Rightarrow> Some x | None \<Rightarrow> b)"

section \<open>Creating attempts\<close>

definition attempt_id :: "(string \<Rightarrow> nat list) \<Rightarrow> string \<Rightarrow> string \<Rightarrow> int \<Rightarrow> string" where
  "attempt_id sha256 job_id task_id try_number = natural_id sha256 ''task_instances'' [job_id, task_id, show_nat (nat try_number)]"

text \<open>The id the insert statements compute in SQL.\<close>

definition sql_attempt_id :: "(string \<Rightarrow> nat list) \<Rightarrow> string \<Rightarrow> string \<Rightarrow> int \<Rightarrow> string" where
  "sql_attempt_id sha256 job_id task_id try_number =
     hex_bytes (sha256 (''task_instances:'' @ job_id @ '':'' @ task_id @ '':'' @ show_nat (nat try_number)))"

definition blank_row :: "int \<Rightarrow> task_instance" where
  "blank_row now = \<lparr>ti_id = [], ti_org_id = [], ti_dataset_id = None, ti_job_id = [], ti_task_id = [], ti_seq = 0,
     ti_try_number = 1, ti_live = True, ti_archived_reason = None, ti_kind = Pod, ti_state = NoneState,
     ti_trigger_rule = AllSucceeded, ti_upstream = JArr [], ti_teardown = False, ti_segment = None,
     ti_resource_class = None, ti_next_resource_class = None, ti_escalated_from = None, ti_max_tries = 0,
     ti_launches = 0, ti_max_launches = 3, ti_not_before = None, ti_input = None, ti_output = None,
     ti_outcome = None, ti_exit_code = None, ti_termination_reason = None, ti_error_class = None,
     ti_error_detail = None, ti_owner_epoch = None, ti_k8s_job_name = None, ti_pod_name = None,
     ti_pod_uid = None, ti_node_name = None, ti_image_digest = None, ti_snapshot_start = None,
     ti_snapshot_end = None, ti_counters = None, ti_trace_context = None, ti_token_hash = None,
     ti_scheduled_at = None, ti_queued_at = None, ti_started_at = None, ti_heartbeat_at = None,
     ti_finished_at = None, ti_created_at = now, ti_updated_at = now\<rparr>"

definition no_live :: "ledger \<Rightarrow> task_instance \<Rightarrow> bool" where
  "no_live db r \<longleftrightarrow> list_all (\<lambda>l. coordinate l = coordinate r \<longrightarrow> \<not> ti_live l) (tasks db)"

text \<open>The columns both successor inserts copy from the archived row.\<close>

definition successor_of :: "(string \<Rightarrow> nat list) \<Rightarrow> int \<Rightarrow> task_instance \<Rightarrow> task_instance" where
  "successor_of sha256 now r = (blank_row now)\<lparr>
     ti_id := sql_attempt_id sha256 (ti_job_id r) (ti_task_id r) (ti_try_number r + 1),
     ti_org_id := ti_org_id r, ti_dataset_id := ti_dataset_id r, ti_job_id := ti_job_id r, ti_task_id := ti_task_id r,
     ti_seq := ti_seq r, ti_try_number := ti_try_number r + 1, ti_live := True, ti_kind := ti_kind r,
     ti_trigger_rule := ti_trigger_rule r, ti_upstream := ti_upstream r, ti_teardown := ti_teardown r,
     ti_max_launches := ti_max_launches r, ti_trace_context := ti_trace_context r\<rparr>"

definition insert_cleared_try :: "(string \<Rightarrow> nat list) \<Rightarrow> int \<Rightarrow> resource_class option \<Rightarrow> int \<Rightarrow> string option \<Rightarrow> string
    \<Rightarrow> ledger \<Rightarrow> sql_error + (task_instance list \<times> ledger)" where
  "insert_cleared_try sha256 now resource_class retries image_digest task_instance_id db =
     insert_tasks
       (map (\<lambda>r. (successor_of sha256 now r)\<lparr>ti_state := NoneState, ti_segment := ti_segment r,
               ti_resource_class := coalesce resource_class (coalesce (ti_next_resource_class r) (ti_resource_class r)),
               ti_max_tries := ti_try_number r + retries, ti_image_digest := image_digest\<rparr>)
         (filter (\<lambda>r. ti_id r = task_instance_id \<and> \<not> ti_live r
              \<and> ti_archived_reason r \<in> {Some ClearedReason, Some RestartedReason} \<and> no_live db r) (tasks db)))
       db"

definition backoff_secs :: "int \<Rightarrow> int \<Rightarrow> int \<Rightarrow> int" where
  "backoff_secs cap base try_number = min cap (base * 2 ^ nat (try_number - 1))"

definition retry_delay :: "(string \<Rightarrow> int) \<Rightarrow> int \<Rightarrow> int \<Rightarrow> task_instance \<Rightarrow> int" where
  "retry_delay hashtext cap base r =
     backoff_secs cap base (ti_try_number r)
     + \<bar>hashtext (ti_job_id r @ ''#'' @ ti_task_id r @ ''#'' @ show_nat (nat (ti_try_number r)))\<bar>
       mod backoff_secs cap base (ti_try_number r)"

definition escalate_class :: "bool \<Rightarrow> resource_class option \<Rightarrow> resource_class option" where
  "escalate_class escalate c =
     (if escalate \<and> c = Some ClassS then Some ClassM else if escalate \<and> c = Some ClassM then Some ClassL else c)"

definition insert_retry_try :: "(string \<Rightarrow> nat list) \<Rightarrow> (string \<Rightarrow> int) \<Rightarrow> int \<Rightarrow> bool \<Rightarrow> int \<Rightarrow> int \<Rightarrow> string
    \<Rightarrow> ledger \<Rightarrow> sql_error + (task_instance list \<times> ledger)" where
  "insert_retry_try sha256 hashtext now escalate backoff_cap backoff_base task_instance_id db =
     insert_tasks
       (map (\<lambda>r. (successor_of sha256 now r)\<lparr>ti_state := UpForRetry,
               ti_segment := (if escalate then None else ti_segment r),
               ti_resource_class := escalate_class escalate (ti_resource_class r),
               ti_escalated_from := (if escalate then ti_resource_class r else None),
               ti_max_tries := ti_max_tries r,
               ti_not_before := Some (now + retry_delay hashtext backoff_cap backoff_base r),
               ti_input := ti_input r, ti_image_digest := ti_image_digest r\<rparr>)
         (filter (\<lambda>r. ti_id r = task_instance_id \<and> \<not> ti_live r \<and> ti_archived_reason r = Some RetryReason \<and> no_live db r)
           (tasks db)))
       db"

text \<open>\<open>plan.sql\<close>: one row, unless the attempt exists.\<close>

definition plan_row :: "task_instance \<Rightarrow> ledger \<Rightarrow> sql_error + (task_instance list \<times> ledger)" where
  "plan_row row db =
     (if list_ex (\<lambda>r. ti_job_id r = ti_job_id row \<and> ti_task_id r = ti_task_id row \<and> ti_try_number r = 1) (tasks db)
      then Inr ([], db) else insert_tasks [row] db)"

section \<open>Moving attempts\<close>

definition adopt :: "int \<Rightarrow> string \<Rightarrow> ledger \<Rightarrow> sql_error + (task_instance list \<times> ledger)" where
  "adopt now owner_epoch =
     update_tasks (\<lambda>r. ti_live r \<and> ti_state r \<in> {Queued, Running, Restarting, Canceling})
       (\<lambda>r. r\<lparr>ti_owner_epoch := Some owner_epoch, ti_updated_at := now\<rparr>)"

definition advance_segment :: "int \<Rightarrow> string \<Rightarrow> string \<Rightarrow> string option \<Rightarrow> string \<Rightarrow> string option \<Rightarrow> string option \<Rightarrow> json \<Rightarrow> string
    \<Rightarrow> string \<Rightarrow> string \<Rightarrow> resource_class \<Rightarrow> int \<Rightarrow> ledger \<Rightarrow> sql_error + (task_instance list \<times> ledger)" where
  "advance_segment now k8s_job_name owner_epoch pod_name pod_uid node_name image_digest input next_task_instance_id job_id segment
       resource_class clear_number db =
     update_tasks (\<lambda>r. ti_id r = next_task_instance_id \<and> ti_live r \<and> ti_kind r = Pod \<and> ti_state r = NoneState
         \<and> ti_job_id r = job_id \<and> ti_segment r = Some segment \<and> ti_resource_class r = Some resource_class
         \<and> clear_number_is db clear_number r)
       (\<lambda>r. r\<lparr>ti_state := Running, ti_k8s_job_name := Some k8s_job_name, ti_owner_epoch := Some owner_epoch,
            ti_pod_name := pod_name, ti_pod_uid := Some pod_uid, ti_node_name := node_name, ti_image_digest := image_digest,
            ti_input := Some input, ti_launches := 1, ti_scheduled_at := Some now, ti_queued_at := Some now,
            ti_started_at := Some now, ti_heartbeat_at := Some now, ti_updated_at := now\<rparr>) db"

definition archive_cleared :: "int \<Rightarrow> string \<Rightarrow> string \<Rightarrow> string list \<Rightarrow> ledger \<Rightarrow> sql_error + (task_instance list \<times> ledger)" where
  "archive_cleared now org_id job_id task_ids =
     update_tasks (\<lambda>r. ti_org_id r = org_id \<and> ti_job_id r = job_id \<and> ti_live r
         \<and> ti_state r \<in> {Succeeded, Skipped, Failed, TimedOut, UpstreamFailed, UpstreamSkipped, Canceled}
         \<and> ti_task_id r \<in> set task_ids)
       (\<lambda>r. r\<lparr>ti_live := False, ti_archived_reason := Some ClearedReason, ti_updated_at := now\<rparr>)"

definition archive_restarted :: "int \<Rightarrow> int option \<Rightarrow> string option \<Rightarrow> string \<Rightarrow> string option \<Rightarrow> ledger
    \<Rightarrow> sql_error + (task_instance list \<times> ledger)" where
  "archive_restarted now exit_code termination_reason task_instance_id k8s_job_name =
     update_tasks (\<lambda>r. ti_id r = task_instance_id \<and> ti_live r \<and> ti_state r = Restarting \<and> ti_k8s_job_name r = k8s_job_name)
       (\<lambda>r. r\<lparr>ti_state := Failed, ti_live := False, ti_archived_reason := Some RestartedReason, ti_exit_code := exit_code,
            ti_termination_reason := termination_reason, ti_finished_at := Some now, ti_updated_at := now\<rparr>)"

definition retry_granted :: "bool \<Rightarrow> task_instance \<Rightarrow> bool" where
  "retry_granted retryable r \<longleftrightarrow> retryable \<and> ti_try_number r \<le> ti_max_tries r"

definition archive_try :: "int \<Rightarrow> task_state \<Rightarrow> bool \<Rightarrow> int option \<Rightarrow> string option \<Rightarrow> string option \<Rightarrow> string option \<Rightarrow> string
    \<Rightarrow> string option \<Rightarrow> ledger \<Rightarrow> sql_error + (task_instance list \<times> ledger)" where
  "archive_try now terminal_state retryable exit_code termination_reason error_class error_detail task_instance_id k8s_job_name db =
     update_tasks (\<lambda>r. ti_id r = task_instance_id \<and> ti_live r \<and> ti_state r \<in> {Queued, Running}
         \<and> ti_k8s_job_name r = k8s_job_name \<and> job_open_for db r)
       (\<lambda>r. r\<lparr>ti_state := terminal_state, ti_live := \<not> retry_granted retryable r,
            ti_archived_reason := (if retry_granted retryable r then Some RetryReason else ti_archived_reason r),
            ti_exit_code := exit_code, ti_termination_reason := termination_reason, ti_error_class := error_class,
            ti_error_detail := error_detail, ti_finished_at := Some now, ti_updated_at := now\<rparr>) db"

definition cancel_live :: "int \<Rightarrow> string \<Rightarrow> string \<Rightarrow> ledger \<Rightarrow> sql_error + (task_instance list \<times> ledger)" where
  "cancel_live now org_id job_id =
     update_tasks (\<lambda>r. ti_org_id r = org_id \<and> ti_job_id r = job_id \<and> ti_live r
         \<and> ti_state r \<in> {Queued, Running, Restarting} \<and> \<not> ti_teardown r)
       (\<lambda>r. r\<lparr>ti_state := Canceling, ti_updated_at := now\<rparr>)"

definition cancel_pending :: "int \<Rightarrow> string \<Rightarrow> string \<Rightarrow> ledger \<Rightarrow> sql_error + (task_instance list \<times> ledger)" where
  "cancel_pending now org_id job_id =
     update_tasks (\<lambda>r. ti_org_id r = org_id \<and> ti_job_id r = job_id \<and> ti_live r
         \<and> ti_state r \<in> {NoneState, Scheduled, UpForRetry} \<and> \<not> ti_teardown r)
       (\<lambda>r. r\<lparr>ti_state := Canceled, ti_finished_at := Some now, ti_updated_at := now\<rparr>)"

definition capacity_wait :: "int \<Rightarrow> int \<Rightarrow> string option \<Rightarrow> string \<Rightarrow> string \<Rightarrow> ledger \<Rightarrow> sql_error + (task_instance list \<times> ledger)" where
  "capacity_wait now wait_secs termination_reason task_instance_id k8s_job_name =
     update_tasks (\<lambda>r. ti_id r = task_instance_id \<and> ti_live r \<and> ti_state r = Queued \<and> ti_k8s_job_name r = Some k8s_job_name
         \<and> ti_launches r > 0)
       (\<lambda>r. r\<lparr>ti_state := Scheduled, ti_launches := ti_launches r - 1, ti_k8s_job_name := None, ti_pod_name := None,
            ti_pod_uid := None, ti_not_before := Some (now + wait_secs), ti_termination_reason := termination_reason,
            ti_updated_at := now\<rparr>)"

text \<open>The claim statements pick the first claimable row in claim order; \<open>FOR UPDATE SKIP LOCKED\<close> makes the choice
  atomic and passes over a row another transaction holds, so any claimable row may be the one taken:
  \<open>pick\<close> chooses it.\<close>

definition claimable :: "node_kind \<Rightarrow> int \<Rightarrow> ledger \<Rightarrow> task_instance \<Rightarrow> bool" where
  "claimable kind now db t \<longleftrightarrow> ti_live t \<and> ti_kind t = kind \<and> ti_state t \<in> {Scheduled, UpForRetry}
     \<and> (case ti_not_before t of None \<Rightarrow> True | Some nb \<Rightarrow> nb \<le> now) \<and> job_open_for db t"

definition claim_control :: "int \<Rightarrow> (task_instance list \<Rightarrow> string) \<Rightarrow> string \<Rightarrow> ledger \<Rightarrow> sql_error + (task_instance list \<times> ledger)" where
  "claim_control now pick owner_epoch db =
     (let candidates = filter (claimable Control now db) (tasks db) in
      update_tasks (\<lambda>r. candidates \<noteq> [] \<and> ti_id r = pick candidates \<and> r \<in> set candidates)
        (\<lambda>r. r\<lparr>ti_state := Running, ti_started_at := Some now, ti_heartbeat_at := Some now, ti_owner_epoch := Some owner_epoch,
             ti_updated_at := now\<rparr>) db)"

definition INPROC :: string where
  "INPROC = ''inproc''"

definition launchable :: "int \<Rightarrow> int \<Rightarrow> ledger \<Rightarrow> task_instance \<Rightarrow> bool" where
  "launchable now in_flight_cap db t \<longleftrightarrow> claimable Pod now db t
     \<and> list_all (\<lambda>a. ti_org_id a = ti_org_id t \<longrightarrow> \<not> holds_pod a) (tasks db)
     \<and> in_flight_cap > int (length (filter (\<lambda>c. ti_live c \<and> ti_kind c = Pod \<and> ti_state c \<in> {Queued, Running}
           \<and> ti_k8s_job_name c \<noteq> Some INPROC) (tasks db)))"

definition launch_name :: "task_instance \<Rightarrow> string" where
  "launch_name r = ''er-t-'' @ take 20 (ti_id r) @ ''-l'' @ show_nat (nat (ti_launches r + 1))"

definition claim_launch_sql :: "int \<Rightarrow> (task_instance list \<Rightarrow> string) \<Rightarrow> string \<Rightarrow> string option \<Rightarrow> string option \<Rightarrow> int \<Rightarrow> ledger
    \<Rightarrow> sql_error + (task_instance list \<times> ledger)" where
  "claim_launch_sql now pick owner_epoch k8s_job_name token_hash in_flight_cap db =
     (let candidates = filter (launchable now in_flight_cap db) (tasks db) in
      update_tasks (\<lambda>r. candidates \<noteq> [] \<and> ti_id r = pick candidates \<and> r \<in> set candidates)
        (\<lambda>r. r\<lparr>ti_state := Queued, ti_queued_at := Some now, ti_owner_epoch := Some owner_epoch,
             ti_launches := ti_launches r + 1, ti_k8s_job_name := coalesce k8s_job_name (Some (launch_name r)),
             ti_token_hash := token_hash, ti_updated_at := now\<rparr>) db)"

definition finish :: "int \<Rightarrow> bool \<Rightarrow> string \<Rightarrow> json option \<Rightarrow> int option \<Rightarrow> int option \<Rightarrow> json option \<Rightarrow> int option \<Rightarrow> string \<Rightarrow> string
    \<Rightarrow> ledger \<Rightarrow> sql_error + (task_instance list \<times> ledger)" where
  "finish now skipped outcome out snapshot_start snapshot_end counters exit_code task_instance_id pod_uid =
     update_tasks (\<lambda>r. ti_id r = task_instance_id \<and> ti_live r \<and> ti_state r = Running \<and> ti_pod_uid r = Some pod_uid)
       (\<lambda>r. r\<lparr>ti_state := (if skipped then Skipped else Succeeded), ti_outcome := Some outcome, ti_output := out,
            ti_snapshot_start := snapshot_start, ti_snapshot_end := snapshot_end, ti_counters := coalesce counters (ti_counters r),
            ti_exit_code := exit_code, ti_token_hash := None, ti_finished_at := Some now, ti_updated_at := now\<rparr>)"

definition finish_control :: "int \<Rightarrow> bool \<Rightarrow> string \<Rightarrow> json option \<Rightarrow> json option \<Rightarrow> string \<Rightarrow> string
    \<Rightarrow> ledger \<Rightarrow> sql_error + (task_instance list \<times> ledger)" where
  "finish_control now skipped outcome out counters task_instance_id owner_epoch =
     update_tasks (\<lambda>r. ti_id r = task_instance_id \<and> ti_live r \<and> ti_state r = Running \<and> ti_kind r = Control
         \<and> ti_owner_epoch r = Some owner_epoch)
       (\<lambda>r. r\<lparr>ti_state := (if skipped then Skipped else Succeeded), ti_outcome := Some outcome, ti_output := out,
            ti_counters := coalesce counters (ti_counters r), ti_finished_at := Some now, ti_updated_at := now\<rparr>)"

definition heartbeat :: "int \<Rightarrow> json option \<Rightarrow> string \<Rightarrow> string \<Rightarrow> ledger \<Rightarrow> sql_error + (task_instance list \<times> ledger)" where
  "heartbeat now counters task_instance_id pod_uid =
     update_tasks (\<lambda>r. ti_id r = task_instance_id \<and> ti_live r \<and> ti_state r = Running \<and> ti_pod_uid r = Some pod_uid)
       (\<lambda>r. r\<lparr>ti_heartbeat_at := Some now, ti_counters := coalesce counters (ti_counters r), ti_updated_at := now\<rparr>)"

definition mark_scheduled :: "int \<Rightarrow> json \<Rightarrow> string \<Rightarrow> int \<Rightarrow> ledger \<Rightarrow> sql_error + (task_instance list \<times> ledger)" where
  "mark_scheduled now input task_instance_id clear_number db =
     update_tasks (\<lambda>r. ti_id r = task_instance_id \<and> ti_live r \<and> ti_state r = NoneState \<and> clear_number_is db clear_number r)
       (\<lambda>r. r\<lparr>ti_state := Scheduled, ti_scheduled_at := Some now, ti_input := Some input, ti_updated_at := now\<rparr>) db"

definition note_interruption :: "int \<Rightarrow> string \<Rightarrow> json option \<Rightarrow> string \<Rightarrow> string \<Rightarrow> ledger
    \<Rightarrow> sql_error + (task_instance list \<times> ledger)" where
  "note_interruption now termination_reason counters task_instance_id pod_uid =
     update_tasks (\<lambda>r. ti_id r = task_instance_id \<and> ti_live r \<and> ti_state r \<in> {Running, Restarting, Canceling}
         \<and> ti_pod_uid r = Some pod_uid)
       (\<lambda>r. r\<lparr>ti_termination_reason := Some termination_reason, ti_counters := coalesce counters (ti_counters r), ti_updated_at := now\<rparr>)"

definition propagate :: "int \<Rightarrow> task_state \<Rightarrow> string \<Rightarrow> int \<Rightarrow> ledger \<Rightarrow> sql_error + (task_instance list \<times> ledger)" where
  "propagate now new_state task_instance_id clear_number db =
     update_tasks (\<lambda>r. ti_id r = task_instance_id \<and> ti_live r \<and> ti_state r = NoneState \<and> clear_number_is db clear_number r)
       (\<lambda>r. r\<lparr>ti_state := new_state, ti_finished_at := Some now, ti_updated_at := now\<rparr>) db"

definition record_evidence :: "int \<Rightarrow> int option \<Rightarrow> string option \<Rightarrow> string \<Rightarrow> string \<Rightarrow> string \<Rightarrow> ledger
    \<Rightarrow> sql_error + (task_instance list \<times> ledger)" where
  "record_evidence now exit_code termination_reason task_instance_id pod_uid k8s_job_name =
     update_tasks (\<lambda>r. ti_id r = task_instance_id \<and> ti_pod_uid r = Some pod_uid \<and> ti_k8s_job_name r = Some k8s_job_name
         \<and> ti_state r \<in> {Succeeded, Skipped})
       (\<lambda>r. r\<lparr>ti_exit_code := exit_code, ti_termination_reason := termination_reason, ti_updated_at := now\<rparr>)"

definition requeue_launch :: "int \<Rightarrow> int \<Rightarrow> string option \<Rightarrow> string \<Rightarrow> string \<Rightarrow> ledger \<Rightarrow> sql_error + (task_instance list \<times> ledger)" where
  "requeue_launch now wait_secs termination_reason task_instance_id k8s_job_name =
     update_tasks (\<lambda>r. ti_id r = task_instance_id \<and> ti_live r \<and> ti_state r \<in> {Queued, Running}
         \<and> ti_k8s_job_name r = Some k8s_job_name \<and> ti_launches r < ti_max_launches r)
       (\<lambda>r. r\<lparr>ti_state := Scheduled, ti_k8s_job_name := None, ti_pod_name := None, ti_pod_uid := None, ti_node_name := None,
            ti_not_before := Some (now + wait_secs), ti_termination_reason := termination_reason, ti_updated_at := now\<rparr>)"

definition reset_pending :: "int \<Rightarrow> int \<Rightarrow> resource_class option \<Rightarrow> string option \<Rightarrow> string \<Rightarrow> string \<Rightarrow> string list \<Rightarrow> ledger
    \<Rightarrow> sql_error + (task_instance list \<times> ledger)" where
  "reset_pending now retries resource_class image_digest org_id job_id task_ids =
     update_tasks (\<lambda>r. ti_org_id r = org_id \<and> ti_job_id r = job_id \<and> ti_live r
         \<and> ti_state r \<in> {NoneState, Scheduled, UpForRetry} \<and> ti_task_id r \<in> set task_ids)
       (\<lambda>r. r\<lparr>ti_state := NoneState, ti_input := None, ti_not_before := None, ti_scheduled_at := None,
            ti_max_tries := ti_try_number r - 1 + retries, ti_resource_class := coalesce resource_class (ti_resource_class r),
            ti_image_digest := image_digest, ti_updated_at := now\<rparr>)"

definition restart_cleared :: "int \<Rightarrow> resource_class option \<Rightarrow> string \<Rightarrow> string \<Rightarrow> string list \<Rightarrow> ledger
    \<Rightarrow> sql_error + (task_instance list \<times> ledger)" where
  "restart_cleared now resource_class org_id job_id task_ids =
     update_tasks (\<lambda>r. ti_org_id r = org_id \<and> ti_job_id r = job_id \<and> ti_live r \<and> ti_state r \<in> {Queued, Running}
         \<and> ti_task_id r \<in> set task_ids)
       (\<lambda>r. r\<lparr>ti_state := Restarting, ti_next_resource_class := resource_class, ti_updated_at := now\<rparr>)"

definition settle_canceled :: "int \<Rightarrow> int option \<Rightarrow> string option \<Rightarrow> string \<Rightarrow> string option \<Rightarrow> ledger
    \<Rightarrow> sql_error + (task_instance list \<times> ledger)" where
  "settle_canceled now exit_code termination_reason task_instance_id k8s_job_name =
     update_tasks (\<lambda>r. ti_id r = task_instance_id \<and> ti_live r \<and> ti_state r = Canceling \<and> ti_k8s_job_name r = k8s_job_name)
       (\<lambda>r. r\<lparr>ti_state := Canceled, ti_exit_code := exit_code, ti_termination_reason := termination_reason,
            ti_finished_at := Some now, ti_updated_at := now\<rparr>)"

definition start :: "int \<Rightarrow> string option \<Rightarrow> string \<Rightarrow> string option \<Rightarrow> string option \<Rightarrow> string \<Rightarrow> string \<Rightarrow> ledger
    \<Rightarrow> sql_error + (task_instance list \<times> ledger)" where
  "start now pod_name pod_uid node_name image_digest task_instance_id k8s_job_name =
     update_tasks (\<lambda>r. ti_id r = task_instance_id \<and> ti_live r \<and> ti_state r = Queued \<and> ti_k8s_job_name r = Some k8s_job_name)
       (\<lambda>r. r\<lparr>ti_state := Running, ti_pod_name := pod_name, ti_pod_uid := Some pod_uid, ti_node_name := node_name,
            ti_image_digest := image_digest, ti_started_at := Some now, ti_heartbeat_at := Some now, ti_updated_at := now\<rparr>)"

section \<open>Job statements\<close>

definition lock_job :: "string \<Rightarrow> ledger \<Rightarrow> job list" where
  "lock_job job_id db = filter (\<lambda>j. jb_id j = job_id) (jobs db)"

definition plan_job :: "int \<Rightarrow> string \<Rightarrow> string \<Rightarrow> string option \<Rightarrow> string \<Rightarrow> string \<Rightarrow> ledger \<Rightarrow> job list \<times> ledger" where
  "plan_job now fingerprint hash image_digest owner_epoch job_id =
     update_jobs (\<lambda>j. jb_id j = job_id \<and> jb_state j = Dispatching)
       (\<lambda>j. j\<lparr>jb_state := JobRunning, jb_run_id := Some (jb_id j), jb_structural_fingerprint := Some fingerprint,
            jb_policy_hash := Some hash, jb_image_digest := image_digest, jb_owner_epoch := Some owner_epoch,
            jb_updated_at := now\<rparr>)"

definition refuse_plan_job :: "int \<Rightarrow> string option \<Rightarrow> string option \<Rightarrow> string \<Rightarrow> ledger \<Rightarrow> job list \<times> ledger" where
  "refuse_plan_job now error_class error_detail job_id =
     update_jobs (\<lambda>j. jb_id j = job_id \<and> jb_state j = Dispatching)
       (\<lambda>j. j\<lparr>jb_state := JobFailed, jb_error_class := error_class, jb_error_detail := error_detail,
            jb_finished_at := Some now, jb_updated_at := now\<rparr>)"

definition cancel_job :: "int \<Rightarrow> string \<Rightarrow> string \<Rightarrow> ledger \<Rightarrow> job list \<times> ledger" where
  "cancel_job now job_id org_id =
     update_jobs (\<lambda>j. jb_id j = job_id \<and> jb_org_id j = org_id \<and> jb_state j \<in> {JobQueued, Dispatching, JobRunning})
       (\<lambda>j. j\<lparr>jb_state := (if jb_state j = JobQueued then JobCanceled else JobCanceling),
            jb_finished_at := (if jb_state j = JobQueued then Some now else jb_finished_at j), jb_updated_at := now\<rparr>)"

definition settle_job :: "int \<Rightarrow> job_state \<Rightarrow> string option \<Rightarrow> string option \<Rightarrow> string \<Rightarrow> ledger \<Rightarrow> job list \<times> ledger" where
  "settle_job now new_state error_class error_detail job_id =
     update_jobs (\<lambda>j. jb_id j = job_id \<and> jb_state j \<in> {JobRunning, JobCanceling})
       (\<lambda>j. j\<lparr>jb_state := new_state,
            jb_error_class := (if new_state = JobSucceeded then None else coalesce error_class (jb_error_class j)),
            jb_error_detail := (if new_state = JobSucceeded then None else coalesce error_detail (jb_error_detail j)),
            jb_finished_at := Some now, jb_updated_at := now\<rparr>)"

definition reopen_job :: "int \<Rightarrow> string \<Rightarrow> string \<Rightarrow> ledger \<Rightarrow> job list \<times> ledger" where
  "reopen_job now job_id org_id =
     update_jobs (\<lambda>j. jb_id j = job_id \<and> jb_org_id j = org_id)
       (\<lambda>j. j\<lparr>jb_clear_number := Some ((case jb_clear_number j of None \<Rightarrow> 0 | Some n \<Rightarrow> n) + 1),
            jb_state := (if jb_state j \<in> {JobSucceeded, JobFailed, JobCanceled} then JobQueued else jb_state j),
            jb_finished_at := None, jb_error_class := None, jb_error_detail := None, jb_not_before := Some now,
            jb_updated_at := now\<rparr>)"

section \<open>Transactions\<close>

definition DEFAULT_MAX_LAUNCHES :: int where "DEFAULT_MAX_LAUNCHES = 3"
definition POD_BACKOFF :: "int \<times> int" where "POD_BACKOFF = (30, 900)"
definition CONTROL_BACKOFF :: "int \<times> int" where "CONTROL_BACKOFF = (5, 60)"

text \<open>Sequencing inside a transaction: the first error aborts it.\<close>

definition seq_tx :: "sql_error + ('a \<times> ledger) \<Rightarrow> ('a \<Rightarrow> ledger \<Rightarrow> sql_error + 'b) \<Rightarrow> sql_error + 'b" where
  "seq_tx m f = (case m of Inl e \<Rightarrow> Inl e | Inr (x, db) \<Rightarrow> f x db)"

subsection \<open>Planning\<close>

definition planned_class :: "job \<Rightarrow> node \<Rightarrow> resource_class option" where
  "planned_class job n =
     (case n_kind n of
        Control \<Rightarrow> None
      | Pod \<Rightarrow> Some (case p_class (n_policy n) of
                     Fixed c \<Rightarrow> c
                   | FromRun \<Rightarrow> (case Option.bind (jb_resource_class job) parse_class of Some c \<Rightarrow> c | None \<Rightarrow> ClassM)))"

text \<open>The row of node \<open>seq\<close>; an upstream index outside the graph is the panic of the slice access.\<close>

definition upstream_json :: "dag \<Rightarrow> node \<Rightarrow> json outcome" where
  "upstream_json d n =
     (if list_all (\<lambda>u. u < length (nodes d)) (n_upstream n)
      then Ret (JArr (map (\<lambda>u. JStr (n_task_id (nodes d ! u))) (n_upstream n))) else Panic)"

definition planned_row :: "(string \<Rightarrow> nat list) \<Rightarrow> int \<Rightarrow> job \<Rightarrow> string option \<Rightarrow> nat \<Rightarrow> node \<Rightarrow> json \<Rightarrow> task_instance" where
  "planned_row sha256 now job image_digest seq n upstream = (blank_row now)\<lparr>
     ti_id := attempt_id sha256 (jb_id job) (n_task_id n) 1,
     ti_org_id := jb_org_id job, ti_dataset_id := jb_dataset_id job, ti_job_id := jb_id job, ti_task_id := n_task_id n,
     ti_seq := seq, ti_kind := n_kind n, ti_trigger_rule := n_trigger_rule n, ti_upstream := upstream,
     ti_teardown := n_teardown n, ti_segment := p_segment (n_policy n), ti_resource_class := planned_class job n,
     ti_max_tries := int (p_retries (n_policy n)), ti_max_launches := DEFAULT_MAX_LAUNCHES,
     ti_image_digest := image_digest, ti_trace_context := jb_trace_context job\<rparr>"

fun plan_nodes :: "(string \<Rightarrow> nat list) \<Rightarrow> int \<Rightarrow> job \<Rightarrow> dag \<Rightarrow> string option \<Rightarrow> (nat \<times> node) list \<Rightarrow> ledger
    \<Rightarrow> (sql_error + ledger) outcome" where
  "plan_nodes sha256 now job d image_digest [] db = Ret (Inr db)"
| "plan_nodes sha256 now job d image_digest ((seq, n) # rest) db =
     bind_outcome (upstream_json d n) (\<lambda>upstream.
       case plan_row (planned_row sha256 now job image_digest seq n upstream) db of
         Inl e \<Rightarrow> Ret (Inl e)
       | Inr (_, db') \<Rightarrow> plan_nodes sha256 now job d image_digest rest db')"

text \<open>Without a job row to move the transaction is dropped, not committed.\<close>

definition plan :: "(string \<Rightarrow> nat list) \<Rightarrow> int \<Rightarrow> job \<Rightarrow> dag \<Rightarrow> string \<Rightarrow> string option \<Rightarrow> ledger
    \<Rightarrow> (sql_error + (job option \<times> ledger)) outcome" where
  "plan sha256 now job d owner_epoch image_digest db =
     bind_outcome (plan_nodes sha256 now job d image_digest (enumerate 0 (nodes d)) db) (\<lambda>r.
       case r of
         Inl e \<Rightarrow> Ret (Inl e)
       | Inr db1 \<Rightarrow>
           (case plan_job now (structural_fingerprint d) (policy_hash d) image_digest owner_epoch (jb_id job) db1 of
              ([], _) \<Rightarrow> Ret (Inr (None, db))
            | (j # _, db2) \<Rightarrow> Ret (Inr (Some j, db2))))"

definition refuse_plan :: "int \<Rightarrow> string \<Rightarrow> string \<Rightarrow> string \<Rightarrow> ledger \<Rightarrow> job option \<times> ledger" where
  "refuse_plan now job_id error_class error_detail db =
     (case refuse_plan_job now (Some error_class) (Some (take_chars 2000 error_detail)) job_id db of
        ([], db') \<Rightarrow> (None, db')
      | (j # _, db') \<Rightarrow> (Some j, db'))"

subsection \<open>Failing\<close>

record task_failure =
  f_terminal_state :: task_state
  f_retryable :: bool
  f_escalate :: bool
  f_exit_code :: "int option"
  f_termination_reason :: "string option"
  f_error_class :: "string option"
  f_error_detail :: "string option"
  f_k8s_job_name :: "string option"
  f_backoff :: "int \<times> int"

datatype task_error = Skip | TaskFailed er_error

definition control_failure :: "task_error \<Rightarrow> task_failure" where
  "control_failure err =
     (case err of
        Skip \<Rightarrow> \<lparr>f_terminal_state = Skipped, f_retryable = False, f_escalate = False, f_exit_code = None,
          f_termination_reason = Some ''skipped'', f_error_class = None, f_error_detail = None, f_k8s_job_name = None,
          f_backoff = CONTROL_BACKOFF\<rparr>
      | TaskFailed e \<Rightarrow> \<lparr>f_terminal_state = Failed, f_retryable = err_retryable e, f_escalate = False,
          f_exit_code = Some (err_code e), f_termination_reason = Some ''control_error'',
          f_error_class = Some (error_class_str (err_classify e)), f_error_detail = None, f_k8s_job_name = None,
          f_backoff = CONTROL_BACKOFF\<rparr>)"

definition fail_or_retry_task :: "(string \<Rightarrow> nat list) \<Rightarrow> (string \<Rightarrow> int) \<Rightarrow> int \<Rightarrow> string \<Rightarrow> task_failure \<Rightarrow> ledger
    \<Rightarrow> sql_error + (task_instance option \<times> task_instance option) \<times> ledger" where
  "fail_or_retry_task sha256 hashtext now task_instance_id failure db =
     seq_tx (archive_try now (f_terminal_state failure) (f_retryable failure) (f_exit_code failure)
         (f_termination_reason failure) (f_error_class failure) (map_option (take_chars 2000) (f_error_detail failure))
         task_instance_id (f_k8s_job_name failure) db)
       (\<lambda>archived db1.
         case archived of
           [] \<Rightarrow> Inr ((None, None), db1)
         | row # _ \<Rightarrow>
             if ti_live row then Inr ((Some row, None), db1)
             else seq_tx (insert_retry_try sha256 hashtext now (f_escalate failure) (snd (f_backoff failure)) (fst (f_backoff failure))
                 task_instance_id db1)
               (\<lambda>inserted db2. Inr ((Some row, case inserted of [] \<Rightarrow> None | s # _ \<Rightarrow> Some s), db2)))"

subsection \<open>Clearing\<close>

record cleared =
  cl_restarting :: "task_instance list"
  cl_rotated :: "task_instance list"
  cl_reset :: "task_instance list"
  cl_job :: "job option"

datatype clear_error = UnderCancel | ClearPg sql_error

fun rotate_all :: "(string \<Rightarrow> nat list) \<Rightarrow> int \<Rightarrow> resource_class option \<Rightarrow> int \<Rightarrow> string option \<Rightarrow> task_instance list \<Rightarrow> ledger
    \<Rightarrow> sql_error + (task_instance list \<times> ledger)" where
  "rotate_all sha256 now resource_class retries image_digest [] db = Inr ([], db)"
| "rotate_all sha256 now resource_class retries image_digest (row # rows) db =
     seq_tx (insert_cleared_try sha256 now resource_class retries image_digest (ti_id row) db) (\<lambda>new db1.
       seq_tx (rotate_all sha256 now resource_class retries image_digest rows db1) (\<lambda>rest db2. Inr (new @ rest, db2)))"

definition clear_rows :: "(string \<Rightarrow> nat list) \<Rightarrow> int \<Rightarrow> string \<Rightarrow> string \<Rightarrow> string list \<Rightarrow> int \<Rightarrow> resource_class option \<Rightarrow> string option
    \<Rightarrow> ledger \<Rightarrow> sql_error + (cleared \<times> ledger)" where
  "clear_rows sha256 now org_id job_id task_ids retries resource_class image_digest db =
     seq_tx (restart_cleared now resource_class org_id job_id task_ids db) (\<lambda>restarting db1.
     seq_tx (archive_cleared now org_id job_id task_ids db1) (\<lambda>archived db2.
     seq_tx (rotate_all sha256 now resource_class retries image_digest archived db2) (\<lambda>rotated db3.
     seq_tx (reset_pending now retries resource_class image_digest org_id job_id task_ids db3) (\<lambda>reset db4.
       case reopen_job now job_id org_id db4 of (js, db5) \<Rightarrow>
         Inr (\<lparr>cl_restarting = restarting, cl_rotated = rotated, cl_reset = reset,
               cl_job = (case js of [] \<Rightarrow> None | j # _ \<Rightarrow> Some j)\<rparr>, db5)))))"

definition clear :: "(string \<Rightarrow> nat list) \<Rightarrow> int \<Rightarrow> string \<Rightarrow> string \<Rightarrow> string list \<Rightarrow> int \<Rightarrow> resource_class option \<Rightarrow> string option
    \<Rightarrow> ledger \<Rightarrow> clear_error + (cleared \<times> ledger)" where
  "clear sha256 now org_id job_id task_ids retries resource_class image_digest db =
     (case lock_job job_id db of
        [] \<Rightarrow> Inr (\<lparr>cl_restarting = [], cl_rotated = [], cl_reset = [], cl_job = None\<rparr>, db)
      | j # _ \<Rightarrow>
          if jb_state j = JobCanceling then Inl UnderCancel
          else (case clear_rows sha256 now org_id job_id task_ids retries resource_class image_digest db of
                  Inl e \<Rightarrow> Inl (ClearPg e)
                | Inr r \<Rightarrow> Inr r))"

subsection \<open>Handing a fused pod on\<close>

record advance_args =
  next_task_instance_id :: string
  adv_job_id :: string
  adv_segment :: string
  adv_resource_class :: resource_class
  adv_clear_number :: int
  adv_input :: json

definition finish_and_advance :: "int \<Rightarrow> string \<Rightarrow> string \<Rightarrow> bool \<Rightarrow> string \<Rightarrow> json option \<Rightarrow> int option \<times> int option \<Rightarrow> json option
    \<Rightarrow> int option \<Rightarrow> advance_args option \<Rightarrow> ledger \<Rightarrow> sql_error + (task_instance option \<times> task_instance option) \<times> ledger" where
  "finish_and_advance now finished_id pod_uid skipped outcome out snapshots counters exit_code next db =
     seq_tx (finish now skipped outcome out (fst snapshots) (snd snapshots) counters exit_code finished_id pod_uid db) (\<lambda>finished db1.
       case (finished, next) of
         (done # _, Some a) \<Rightarrow>
           seq_tx (advance_segment now (case ti_k8s_job_name done of None \<Rightarrow> [] | Some n \<Rightarrow> n)
               (case ti_owner_epoch done of None \<Rightarrow> [] | Some n \<Rightarrow> n) (ti_pod_name done) pod_uid (ti_node_name done)
               (ti_image_digest done) (adv_input a) (next_task_instance_id a) (adv_job_id a) (adv_segment a)
               (adv_resource_class a) (adv_clear_number a) db1)
             (\<lambda>advanced db2. Inr ((Some done, case advanced of [] \<Rightarrow> None | r # _ \<Rightarrow> Some r), db2))
       | (done # _, None) \<Rightarrow> Inr ((Some done, None), db1)
       | ([], _) \<Rightarrow> Inr ((None, None), db1))"

subsection \<open>Claiming a launch\<close>

definition claim_launch :: "int \<Rightarrow> (task_instance list \<Rightarrow> string) \<Rightarrow> string \<Rightarrow> string option \<Rightarrow> string option \<Rightarrow> int \<Rightarrow> ledger
    \<Rightarrow> sql_error + (task_instance option \<times> ledger)" where
  "claim_launch now pick owner_epoch k8s_job_name token_hash in_flight_cap db =
     (case claim_launch_sql now pick owner_epoch k8s_job_name token_hash in_flight_cap db of
        Inr (rows, db') \<Rightarrow> Inr (case rows of [] \<Rightarrow> None | r # _ \<Rightarrow> Some r, db')
      | Inl UniqueViolation \<Rightarrow> Inr (None, db)
      | Inl e \<Rightarrow> Inl e)"

end
