(* ===== verification/LedgerLaws.thy ===== *)
theory LedgerLaws
  imports TaskLedger
begin

text \<open>
  Laws of the task ledger of theory \<open>TaskLedger\<close>: the invariant every statement keeps, the life
  cycle of an attempt as an abstract specification that every statement refines, and the behaviour of
  the transactions. The contract of a statement is the locale \<open>ledger_statement\<close>; each statement is
  an interpretation of it.
\<close>

section \<open>The invariant\<close>

abbreviation pending :: "task_state set" where
  "pending \<equiv> {NoneState, Scheduled, UpForRetry}"

definition row_inv :: "task_instance \<Rightarrow> bool" where
  "row_inv r \<longleftrightarrow> (ti_live r \<longleftrightarrow> ti_archived_reason r = None)
     \<and> (\<not> ti_live r \<longrightarrow> is_terminal (ti_state r))
     \<and> 1 \<le> ti_max_launches r \<and> 0 \<le> ti_launches r \<and> ti_launches r \<le> ti_max_launches r
     \<and> (ti_state r \<in> pending \<longrightarrow> ti_launches r < ti_max_launches r)
     \<and> 1 \<le> ti_try_number r
     \<and> (ti_archived_reason r = Some RetryReason \<longrightarrow> ti_try_number r \<le> ti_max_tries r)
     \<and> (holds_pod r \<longrightarrow> ti_k8s_job_name r \<noteq> None)"

text \<open>Every later try has an archived predecessor.\<close>

definition history :: "task_instance list \<Rightarrow> bool" where
  "history rows \<longleftrightarrow> (\<forall>s \<in> set rows. 1 < ti_try_number s \<longrightarrow>
     (\<exists>p \<in> set rows. coordinate p = coordinate s \<and> ti_try_number p = ti_try_number s - 1 \<and> \<not> ti_live p))"

definition ledger_inv :: "ledger \<Rightarrow> bool" where
  "ledger_inv db \<longleftrightarrow> list_all row_inv (tasks db) \<and> list_all row_checks (tasks db) \<and> unique_ok (tasks db) \<and> history (tasks db)"

section \<open>The life cycle of an attempt\<close>

fun life_edge :: "task_state \<Rightarrow> task_state \<Rightarrow> bool" where
  "life_edge NoneState t \<longleftrightarrow> t \<in> {Scheduled, Running, UpstreamFailed, UpstreamSkipped, Canceled}"
| "life_edge Scheduled t \<longleftrightarrow> t \<in> {Queued, Running, Canceled, NoneState}"
| "life_edge UpForRetry t \<longleftrightarrow> t \<in> {Queued, Running, Canceled, NoneState}"
| "life_edge Queued t \<longleftrightarrow> t \<in> {Running, Scheduled, Restarting, Canceling, Failed, TimedOut, Skipped}"
| "life_edge Running t \<longleftrightarrow> t \<in> {Succeeded, Skipped, Failed, TimedOut, Scheduled, Restarting, Canceling}"
| "life_edge Restarting t \<longleftrightarrow> t \<in> {Failed, Canceling}"
| "life_edge Canceling t \<longleftrightarrow> t \<in> {Canceled}"
| "life_edge _ t \<longleftrightarrow> False"

text \<open>One move: an archived attempt is frozen, archiving needs a terminal state, a live attempt follows an edge.\<close>

definition life :: "task_state \<times> bool \<Rightarrow> task_state \<times> bool \<Rightarrow> bool" where
  "life a b \<longleftrightarrow> (fst a = fst b \<or> life_edge (fst a) (fst b)) \<and> (snd b \<longrightarrow> snd a) \<and> (\<not> snd a \<longrightarrow> a = b)
     \<and> (snd a \<and> \<not> snd b \<longrightarrow> is_terminal (fst b))"

definition born :: "task_state \<times> bool \<Rightarrow> bool" where
  "born a \<longleftrightarrow> a = (NoneState, True) \<or> a = (UpForRetry, True)"

type_synonym attempt_key = "string \<times> string \<times> int"

fun life_opt :: "(task_state \<times> bool) option \<Rightarrow> (task_state \<times> bool) option \<Rightarrow> bool" where
  "life_opt None None = True"
| "life_opt None (Some b) = (\<exists>a. born a \<and> life\<^sup>*\<^sup>* a b)"
| "life_opt (Some a) (Some b) = life\<^sup>*\<^sup>* a b"
| "life_opt (Some a) None = False"

definition key_of :: "task_instance \<Rightarrow> attempt_key" where
  "key_of r = (ti_job_id r, ti_task_id r, ti_try_number r)"

definition attempt :: "ledger \<Rightarrow> attempt_key \<Rightarrow> (task_state \<times> bool) option" where
  "attempt db k = map_option (\<lambda>r. (ti_state r, ti_live r)) (find (\<lambda>r. key_of r = k) (tasks db))"

definition refines :: "ledger \<Rightarrow> ledger \<Rightarrow> bool" where
  "refines db db' \<longleftrightarrow> (\<forall>k. life_opt (attempt db k) (attempt db' k))"

lemma life_refl: "life a a"
  by (simp add: life_def)

lemma life_opt_refl: "life_opt a a"
  by (cases a) auto

lemma life_opt_trans: "life_opt a b \<Longrightarrow> life_opt b c \<Longrightarrow> life_opt a c"
  by (cases a; cases b; cases c) (auto intro: rtranclp_trans)

lemma life_opt_born: "born b \<Longrightarrow> life_opt None (Some b)"
  using rtranclp.rtrancl_refl [of life b] by (simp only: life_opt.simps) blast

lemma refines_refl: "refines db db"
  by (simp add: refines_def life_opt_refl)

lemma refines_trans: "refines a b \<Longrightarrow> refines b c \<Longrightarrow> refines a c"
  unfolding refines_def using life_opt_trans by blast

lemma terminal_no_edge: "is_terminal s \<Longrightarrow> \<not> life_edge s t"
  by (cases s) (simp_all add: is_terminal_def)

lemma terminal_stuck: "life a b \<Longrightarrow> is_terminal (fst a) \<Longrightarrow> fst b = fst a \<and> (snd b \<longrightarrow> snd a)"
  by (simp add: life_def terminal_no_edge)

lemma terminal_stuck_star: "life\<^sup>*\<^sup>* a b \<Longrightarrow> is_terminal (fst a) \<Longrightarrow> fst b = fst a \<and> (\<not> snd a \<longrightarrow> \<not> snd b)"
proof (induction rule: rtranclp_induct)
  case (step b c)
  then have b: "fst b = fst a" "\<not> snd a \<longrightarrow> \<not> snd b" by simp_all
  then have "is_terminal (fst b)" using step.prems by simp
  then have "fst c = fst b \<and> (snd c \<longrightarrow> snd b)" by (rule terminal_stuck [OF step.hyps(2)])
  then show ?case using b by (intro conjI impI) (simp, blast)
qed simp

section \<open>The contract of a statement\<close>

locale ledger_statement =
  fixes stmt :: "ledger \<Rightarrow> sql_error + ('a \<times> ledger)"
  assumes contract: "ledger_inv db \<Longrightarrow> stmt db = Inr (x, db') \<Longrightarrow> ledger_inv db' \<and> refines db db'"
begin

lemma tx_last:
  assumes "ledger_inv db" "seq_tx (stmt db) (\<lambda>x db1. Inr (g x, db1)) = Inr (y, db')"
  shows "ledger_inv db' \<and> refines db db'"
  using assms(2) contract [OF assms(1)] by (auto simp: seq_tx_def split: sum.splits)

lemma tx_step:
  assumes "ledger_inv db" "seq_tx (stmt db) f = Inr y"
    "\<And>x db1. stmt db = Inr (x, db1) \<Longrightarrow> ledger_inv db1 \<Longrightarrow> refines db db1 \<Longrightarrow> f x db1 = Inr y \<Longrightarrow> ledger_inv db' \<and> refines db1 db'"
  shows "ledger_inv db' \<and> refines db db'"
proof -
  obtain x db1 where s: "stmt db = Inr (x, db1)" "f x db1 = Inr y"
    using assms(2) by (auto simp: seq_tx_def split: sum.splits)
  with contract [OF assms(1) s(1)] assms(3) [OF s(1)] show ?thesis using refines_trans by blast
qed

end

subsection \<open>Updates\<close>

text \<open>What a change has to respect on the rows its guard selects.\<close>

definition row_move :: "task_instance \<Rightarrow> task_instance \<Rightarrow> bool" where
  "row_move r r' \<longleftrightarrow> row_inv r' \<and> key_of r' = key_of r \<and> life (ti_state r, ti_live r) (ti_state r', ti_live r')"

lemma storeD:
  "store rows x db = Inr (y, db') \<Longrightarrow> y = x \<and> db' = db\<lparr>tasks := rows\<rparr> \<and> list_all row_checks rows \<and> unique_ok rows"
  by (auto simp: store_def split: if_splits)

lemma find_in_set: "find P xs = Some x \<Longrightarrow> x \<in> set xs \<and> P x"
  by (induction xs) (auto split: if_splits)

lemma find_key_map:
  assumes "\<And>r. r \<in> set rows \<Longrightarrow> key_of (f r) = key_of r"
  shows "find (\<lambda>r. key_of r = k) (map f rows) = map_option f (find (\<lambda>r. key_of r = k) rows)"
  using assms by (induction rows) auto

lemma update_refines:
  assumes moves: "\<And>r. r \<in> set (tasks db) \<Longrightarrow> guard r \<Longrightarrow> row_move r (change r)"
    and upd: "update_tasks guard change db = Inr (x, db')" and inv: "ledger_inv db"
  shows "ledger_inv db' \<and> refines db db'"
proof -
  define f where "f r = (if guard r then change r else r)" for r
  have db': "db' = db\<lparr>tasks := map f (tasks db)\<rparr>" "list_all row_checks (map f (tasks db))" "unique_ok (map f (tasks db))"
    using storeD [OF upd [unfolded update_tasks_def]] unfolding f_def by blast+
  have move: "key_of (f r) = key_of r \<and> row_inv (f r) \<and> life (ti_state r, ti_live r) (ti_state (f r), ti_live (f r))" if r: "r \<in> set (tasks db)" for r
  proof (cases "guard r")
    case True
    then have "f r = change r" by (simp only: f_def if_True)
    with moves [OF r True] show ?thesis unfolding row_move_def by metis
  next
    case False
    then have "f r = r" by (simp only: f_def if_False)
    moreover have "row_inv r" using inv r by (simp add: ledger_inv_def list_all_iff)
    ultimately show ?thesis by (simp only: life_refl)
  qed
  have keep: "\<not> ti_live (f r) \<and> coordinate (f r) = coordinate r \<and> ti_try_number (f r) = ti_try_number r"
    if "r \<in> set (tasks db)" "\<not> ti_live r" for r
    using move [OF that(1)] that(2) by (auto simp: life_def key_of_def)
  have "history (map f (tasks db))"
    unfolding history_def
  proof (intro ballI impI)
    fix s assume "s \<in> set (map f (tasks db))" "1 < ti_try_number s"
    then obtain r where r: "r \<in> set (tasks db)" "s = f r" by auto
    have k: "ti_try_number s = ti_try_number r" "coordinate s = coordinate r" using move [OF r(1)] r(2) by (auto simp: key_of_def)
    obtain p where "p \<in> set (tasks db)" "coordinate p = coordinate r" "ti_try_number p = ti_try_number r - 1" "\<not> ti_live p"
      using inv r(1) \<open>1 < ti_try_number s\<close> k unfolding ledger_inv_def history_def by force
    with keep k show "\<exists>p \<in> set (map f (tasks db)). coordinate p = coordinate s \<and> ti_try_number p = ti_try_number s - 1 \<and> \<not> ti_live p"
      by (intro bexI [of _ "f p"]) auto
  qed
  then have "ledger_inv db'" using db' move by (simp add: ledger_inv_def list_all_iff)
  moreover have "refines db db'"
    unfolding refines_def
  proof
    fix k
    have "find (\<lambda>r. key_of r = k) (tasks db') = map_option f (find (\<lambda>r. key_of r = k) (tasks db))"
      unfolding db'(1) using find_key_map [of "tasks db" f k] move by simp
    then show "life_opt (attempt db k) (attempt db' k)"
    proof (cases "find (\<lambda>r. key_of r = k) (tasks db)")
      case (Some r)
      with find_in_set [OF this] move show ?thesis
        using \<open>find _ (tasks db') = _\<close> by (simp add: attempt_def r_into_rtranclp)
    qed (simp add: attempt_def)
  qed
  ultimately show ?thesis by blast
qed

lemma update_contract:
  assumes "\<And>db. stmt db = update_tasks (guard db) change db"
    and "\<And>db r. row_inv r \<Longrightarrow> guard db r \<Longrightarrow> row_move r (change r)"
  shows "ledger_statement stmt"
proof
  fix db x db' assume "ledger_inv db" "stmt db = Inr (x, db')"
  then show "ledger_inv db' \<and> refines db db'"
    unfolding assms(1) by (intro update_refines [where guard = "guard db" and change = change]) (auto intro: assms(2) simp: ledger_inv_def list_all_iff)
qed

lemmas row_laws = row_move_def row_inv_def key_of_def life_def holds_pod_def is_terminal_def
  coalesce_def

lemma claimable_pending: "claimable kind now db t \<Longrightarrow> ti_live t \<and> ti_kind t = kind \<and> (ti_state t = Scheduled \<or> ti_state t = UpForRetry)"
  by (simp add: claimable_def)

lemma launchable_pending: "launchable now cap db t \<Longrightarrow> ti_live t \<and> ti_kind t = Pod \<and> (ti_state t = Scheduled \<or> ti_state t = UpForRetry)"
  unfolding launchable_def by (intro claimable_pending) blast

lemma claimable_mem:
  "r \<in> set (filter (claimable kind now db) rows) \<Longrightarrow> ti_live r \<and> ti_kind r = kind \<and> (ti_state r = Scheduled \<or> ti_state r = UpForRetry)"
  unfolding set_filter mem_Collect_eq by (elim conjE, rule claimable_pending)

lemma claim_move:
  assumes "row_inv r" "ti_live r \<and> ti_kind r = Control \<and> (ti_state r = Scheduled \<or> ti_state r = UpForRetry)"
  shows "row_move r (r\<lparr>ti_state := Running, ti_started_at := a, ti_heartbeat_at := b, ti_owner_epoch := e, ti_updated_at := u\<rparr>)"
  using assms by (elim conjE disjE) (simp_all add: row_laws)

lemma launchable_mem:
  "r \<in> set (filter (launchable now cap db) rows) \<Longrightarrow> ti_live r \<and> ti_kind r = Pod \<and> (ti_state r = Scheduled \<or> ti_state r = UpForRetry)"
  unfolding set_filter mem_Collect_eq by (elim conjE, rule launchable_pending)

lemma queue_move:
  assumes "row_inv r" "ti_live r \<and> ti_kind r = Pod \<and> (ti_state r = Scheduled \<or> ti_state r = UpForRetry)"
  shows "row_move r (r\<lparr>ti_state := Queued, ti_queued_at := q, ti_owner_epoch := e, ti_launches := ti_launches r + 1,
    ti_k8s_job_name := coalesce k (Some n), ti_token_hash := h, ti_updated_at := u\<rparr>)"
proof -
  have "coalesce k (Some n) \<noteq> None" by (cases k) (simp_all add: coalesce_def)
  moreover have "ti_state r \<in> pending" using assms(2) by auto
  moreover have "life_edge (ti_state r) Queued" using assms(2) by (elim conjE disjE) simp_all
  ultimately show ?thesis
    using assms unfolding row_move_def row_inv_def life_def key_of_def holds_pod_def by simp
qed

interpretation adopt: ledger_statement "adopt now owner_epoch"
  for now owner_epoch
  by (rule update_contract, rule fun_cong [OF adopt_def]) (elim conjE insertE emptyE; simp add: row_laws)

interpretation advance_segment: ledger_statement "advance_segment now k8s_job_name owner_epoch pod_name pod_uid node_name image_digest input next_id job_id segment resource_class clear_number"
  for now k8s_job_name owner_epoch pod_name pod_uid node_name image_digest input next_id job_id segment resource_class clear_number
  by (rule update_contract, rule advance_segment_def) (elim conjE insertE emptyE; simp add: row_laws)

interpretation archive_cleared: ledger_statement "archive_cleared now org_id job_id task_ids"
  for now org_id job_id task_ids
  by (rule update_contract, rule fun_cong [OF archive_cleared_def]) (elim conjE insertE emptyE; simp add: row_laws)

interpretation archive_restarted: ledger_statement "archive_restarted now exit_code termination_reason task_instance_id k8s_job_name"
  for now exit_code termination_reason task_instance_id k8s_job_name
  by (rule update_contract, rule fun_cong [OF archive_restarted_def]) (elim conjE insertE emptyE; simp add: row_laws)

interpretation cancel_live: ledger_statement "cancel_live now org_id job_id"
  for now org_id job_id
  by (rule update_contract, rule fun_cong [OF cancel_live_def]) (elim conjE insertE emptyE; simp add: row_laws)

interpretation cancel_pending: ledger_statement "cancel_pending now org_id job_id"
  for now org_id job_id
  by (rule update_contract, rule fun_cong [OF cancel_pending_def]) (elim conjE insertE emptyE; simp add: row_laws)

interpretation capacity_wait: ledger_statement "capacity_wait now wait_secs termination_reason task_instance_id k8s_job_name"
  for now wait_secs termination_reason task_instance_id k8s_job_name
  by (rule update_contract, rule fun_cong [OF capacity_wait_def]) (elim conjE insertE emptyE; simp add: row_laws)

interpretation claim_control: ledger_statement "claim_control now pick owner_epoch"
  for now pick owner_epoch
  by (rule update_contract, rule claim_control_def [unfolded Let_def])
     (elim conjE, rule claim_move, assumption, erule claimable_mem)

interpretation claim_launch_sql: ledger_statement "claim_launch_sql now pick owner_epoch k8s_job_name token_hash in_flight_cap"
  for now pick owner_epoch k8s_job_name token_hash in_flight_cap
  by (rule update_contract, rule claim_launch_sql_def [unfolded Let_def])
     (elim conjE, rule queue_move, assumption, erule launchable_mem)

interpretation finish: ledger_statement "finish now skipped outcome_text out snapshot_start snapshot_end counters exit_code task_instance_id pod_uid"
  for now skipped outcome_text out snapshot_start snapshot_end counters exit_code task_instance_id pod_uid
  by (rule update_contract, rule fun_cong [OF finish_def]) (elim conjE insertE emptyE; simp add: row_laws)

interpretation finish_control: ledger_statement "finish_control now skipped outcome_text out counters task_instance_id owner_epoch"
  for now skipped outcome_text out counters task_instance_id owner_epoch
  by (rule update_contract, rule fun_cong [OF finish_control_def]) (elim conjE insertE emptyE; simp add: row_laws)

interpretation heartbeat: ledger_statement "heartbeat now counters task_instance_id pod_uid"
  for now counters task_instance_id pod_uid
  by (rule update_contract, rule fun_cong [OF heartbeat_def]) (elim conjE insertE emptyE; simp add: row_laws)

interpretation mark_scheduled: ledger_statement "mark_scheduled now input task_instance_id clear_number"
  for now input task_instance_id clear_number
  by (rule update_contract, rule mark_scheduled_def) (elim conjE insertE emptyE; simp add: row_laws)

interpretation note_interruption: ledger_statement "note_interruption now termination_reason counters task_instance_id pod_uid"
  for now termination_reason counters task_instance_id pod_uid
  by (rule update_contract, rule fun_cong [OF note_interruption_def]) (elim conjE insertE emptyE; simp add: row_laws)

interpretation record_evidence: ledger_statement "record_evidence now exit_code termination_reason task_instance_id pod_uid k8s_job_name"
  for now exit_code termination_reason task_instance_id pod_uid k8s_job_name
  by (rule update_contract, rule fun_cong [OF record_evidence_def]) (elim conjE insertE emptyE; simp add: row_laws)

interpretation requeue_launch: ledger_statement "requeue_launch now wait_secs termination_reason task_instance_id k8s_job_name"
  for now wait_secs termination_reason task_instance_id k8s_job_name
  by (rule update_contract, rule fun_cong [OF requeue_launch_def]) (elim conjE insertE emptyE; simp add: row_laws)

interpretation restart_cleared: ledger_statement "restart_cleared now resource_class org_id job_id task_ids"
  for now resource_class org_id job_id task_ids
  by (rule update_contract, rule fun_cong [OF restart_cleared_def]) (elim conjE insertE emptyE; simp add: row_laws)

interpretation settle_canceled: ledger_statement "settle_canceled now exit_code termination_reason task_instance_id k8s_job_name"
  for now exit_code termination_reason task_instance_id k8s_job_name
  by (rule update_contract, rule fun_cong [OF settle_canceled_def]) (elim conjE insertE emptyE; simp add: row_laws)

interpretation start: ledger_statement "start now pod_name pod_uid node_name image_digest task_instance_id k8s_job_name"
  for now pod_name pod_uid node_name image_digest task_instance_id k8s_job_name
  by (rule update_contract, rule fun_cong [OF start_def]) (elim conjE insertE emptyE; simp add: row_laws)


interpretation reset_pending: ledger_statement "reset_pending now retries resource_class image_digest org_id job_id task_ids"
  for now retries resource_class image_digest org_id job_id task_ids
  by (rule update_contract, rule fun_cong [OF reset_pending_def]) (auto simp: row_laws)

text \<open>Two statements take the new state as an argument; they keep the contract for the states their callers pass.\<close>

lemma archive_try_contract:
  assumes "terminal_state \<in> {Failed, TimedOut, Skipped}"
  shows "ledger_statement (archive_try now terminal_state retryable exit_code termination_reason error_class error_detail
    task_instance_id k8s_job_name)"
proof (rule update_contract, rule archive_try_def)
  fix db r
  let ?r' = "r\<lparr>ti_state := terminal_state, ti_live := \<not> retry_granted retryable r,
    ti_archived_reason := (if retry_granted retryable r then Some RetryReason else ti_archived_reason r),
    ti_exit_code := exit_code, ti_termination_reason := termination_reason, ti_error_class := error_class,
    ti_error_detail := error_detail, ti_finished_at := Some now, ti_updated_at := now\<rparr>"
  assume r: "row_inv r" and g: "ti_id r = task_instance_id \<and> ti_live r \<and> ti_state r \<in> {Queued, Running}
    \<and> ti_k8s_job_name r = k8s_job_name \<and> job_open_for db r"
  have t: "is_terminal terminal_state" "terminal_state \<notin> pending" "terminal_state \<notin> {Queued, Running, Restarting, Canceling}"
    using assms by (auto simp: is_terminal_def)
  have "ti_state r = Queued \<or> ti_state r = Running" using g by simp
  then have "life_edge (ti_state r) terminal_state"
    using assms by (elim disjE insertE emptyE) simp_all
  then have "life (ti_state r, ti_live r) (terminal_state, \<not> retry_granted retryable r)"
    using g t by (simp add: life_def)
  moreover have "row_inv ?r'"
    using r g t by (simp add: row_inv_def holds_pod_def retry_granted_def)
  ultimately show "row_move r ?r'" by (simp add: row_move_def key_of_def)
qed

lemma propagate_contract:
  assumes "new_state \<in> {UpstreamFailed, UpstreamSkipped, Canceled}"
  shows "ledger_statement (propagate now new_state task_instance_id clear_number)"
  by (rule update_contract, rule propagate_def) (use assms in \<open>auto simp: row_laws\<close>)

subsection \<open>Inserts\<close>

definition fresh_row :: "ledger \<Rightarrow> task_instance \<Rightarrow> bool" where
  "fresh_row db s \<longleftrightarrow> row_inv s \<and> born (ti_state s, ti_live s) \<and> (1 < ti_try_number s \<longrightarrow>
     (\<exists>p \<in> set (tasks db). coordinate p = coordinate s \<and> ti_try_number p = ti_try_number s - 1 \<and> \<not> ti_live p))"

lemma find_append: "find P (xs @ ys) = (case find P xs of Some x \<Rightarrow> Some x | None \<Rightarrow> find P ys)"
  by (induction xs) auto

lemma insert_refines:
  assumes ins: "insert_tasks new db = Inr (x, db')" and inv: "ledger_inv db"
    and new: "\<And>s. s \<in> set new \<Longrightarrow> fresh_row db s"
  shows "ledger_inv db' \<and> refines db db'"
proof -
  have db': "db' = db\<lparr>tasks := tasks db @ new\<rparr>" "list_all row_checks (tasks db @ new)" "unique_ok (tasks db @ new)"
    using storeD [OF ins [unfolded insert_tasks_def]] by blast+
  have "history (tasks db @ new)"
    using inv new unfolding ledger_inv_def history_def fresh_row_def by (metis Un_iff set_append)
  moreover have "list_all row_inv (tasks db @ new)"
    using inv new by (auto simp: ledger_inv_def fresh_row_def list_all_iff)
  ultimately have "ledger_inv db'" using db' by (simp add: ledger_inv_def)
  moreover have "life_opt (attempt db k) (attempt db' k)" for k
  proof (cases "find (\<lambda>r. key_of r = k) (tasks db)")
    case None
    then have "attempt db' k = map_option (\<lambda>r. (ti_state r, ti_live r)) (find (\<lambda>r. key_of r = k) new)"
      by (simp add: attempt_def db'(1) find_append)
    moreover have "born (ti_state s, ti_live s)" if "find (\<lambda>r. key_of r = k) new = Some s" for s
      using find_in_set [OF that] new unfolding fresh_row_def by blast
    moreover have "attempt db k = None" using None by (simp add: attempt_def)
    ultimately show ?thesis
      by (cases "find (\<lambda>r. key_of r = k) new") (simp_all add: life_opt_born del: life_opt.simps(2))
  qed (simp add: attempt_def db'(1) find_append)
  ultimately show ?thesis by (simp add: refines_def)
qed

lemma ledger_inv_rows: "ledger_inv db \<Longrightarrow> r \<in> set (tasks db) \<Longrightarrow> row_inv r"
  by (simp add: ledger_inv_def list_all_iff)

lemma insert_successors:
  assumes "insert_tasks (map f (filter g (tasks db))) db = Inr (x, db')" "ledger_inv db"
    and succ: "\<And>r. row_inv r \<Longrightarrow> g r \<Longrightarrow> \<not> ti_live r \<and> row_inv (f r) \<and> born (ti_state (f r), ti_live (f r))
      \<and> coordinate (f r) = coordinate r \<and> ti_try_number (f r) = ti_try_number r + 1"
  shows "ledger_inv db' \<and> refines db db'"
proof (rule insert_refines [OF assms(1,2)])
  fix s assume "s \<in> set (map f (filter g (tasks db)))"
  then obtain r where r: "r \<in> set (tasks db)" "g r" "s = f r" by auto
  from succ [OF ledger_inv_rows [OF assms(2) r(1)] r(2)] r show "fresh_row db s"
    unfolding fresh_row_def by (intro conjI impI bexI [of _ r]) simp_all
qed

lemmas new_row_laws = born_def successor_of_def blank_row_def row_inv_def holds_pod_def

interpretation insert_cleared_try: ledger_statement "insert_cleared_try sha256 now resource_class retries image_digest task_instance_id"
  for sha256 now resource_class retries image_digest task_instance_id
proof
  fix db x db'
  assume "insert_cleared_try sha256 now resource_class retries image_digest task_instance_id db = Inr (x, db')" "ledger_inv db"
  then show "ledger_inv db' \<and> refines db db'"
    unfolding insert_cleared_try_def
    by (elim insert_successors) (auto simp: new_row_laws)
qed

interpretation insert_retry_try: ledger_statement "insert_retry_try sha256 hashtext now escalate backoff_cap backoff_base task_instance_id"
  for sha256 hashtext now escalate backoff_cap backoff_base task_instance_id
proof
  fix db x db'
  assume "insert_retry_try sha256 hashtext now escalate backoff_cap backoff_base task_instance_id db = Inr (x, db')" "ledger_inv db"
  then show "ledger_inv db' \<and> refines db db'"
    unfolding insert_retry_try_def
    by (elim insert_successors) (auto simp: new_row_laws)
qed

subsection \<open>Transactions\<close>

text \<open>Only the task rows matter to the contract.\<close>

lemma same_tasks: "tasks db' = tasks db \<Longrightarrow> ledger_inv db \<Longrightarrow> ledger_inv db' \<and> refines db db'"
  by (simp add: ledger_inv_def refines_def attempt_def life_opt_refl)

lemma update_jobs_tasks: "update_jobs guard change db = (js, db') \<Longrightarrow> tasks db' = tasks db"
  by (auto simp: update_jobs_def)

lemma fail_or_retry_contract:
  assumes "f_terminal_state failure \<in> {Failed, TimedOut, Skipped}"
  shows "ledger_statement (fail_or_retry_task sha256 hashtext now task_instance_id failure)"
proof
  fix db x db'
  assume inv: "ledger_inv db" and "fail_or_retry_task sha256 hashtext now task_instance_id failure db = Inr (x, db')"
  then show "ledger_inv db' \<and> refines db db'"
    unfolding fail_or_retry_task_def
  proof (rule ledger_statement.tx_step [OF archive_try_contract [OF assms]], goal_cases)
    case (1 archived db1)
    then show ?case
    proof (cases archived)
      case (Cons row rest)
      then show ?thesis
      proof (cases "ti_live row")
        case False
        with 1(4) Cons have "seq_tx (insert_retry_try sha256 hashtext now (f_escalate failure) (snd (f_backoff failure))
            (fst (f_backoff failure)) task_instance_id db1)
            (\<lambda>inserted db2. Inr ((Some row, case inserted of [] \<Rightarrow> None | s # _ \<Rightarrow> Some s), db2)) = Inr (x, db')" by simp
        then show ?thesis by (rule insert_retry_try.tx_last [OF 1(2)])
      qed (use 1 Cons in \<open>simp add: refines_refl\<close>)
    qed (use 1 in \<open>simp add: refines_refl\<close>)
  qed
qed

lemma rotate_all_contract:
  "ledger_inv db \<Longrightarrow> rotate_all sha256 now resource_class retries image_digest rows db = Inr (x, db') \<Longrightarrow> ledger_inv db' \<and> refines db db'"
proof (induction rows arbitrary: db x db')
  case Nil
  then show ?case by (simp add: refines_refl)
next
  case (Cons row rows)
  from Cons.prems(2) have "seq_tx (insert_cleared_try sha256 now resource_class retries image_digest (ti_id row) db)
      (\<lambda>new db1. seq_tx (rotate_all sha256 now resource_class retries image_digest rows db1) (\<lambda>rest db2. Inr (new @ rest, db2)))
      = Inr (x, db')" by simp
  then show ?case
  proof (rule insert_cleared_try.tx_step [OF Cons.prems(1)])
    fix new db1 assume "ledger_inv db1"
      and "seq_tx (rotate_all sha256 now resource_class retries image_digest rows db1) (\<lambda>rest db2. Inr (new @ rest, db2)) = Inr (x, db')"
    then show "ledger_inv db' \<and> refines db1 db'"
    proof (rule ledger_statement.tx_last [rotated])
      show "ledger_statement (rotate_all sha256 now resource_class retries image_digest rows)"
        by unfold_locales (rule Cons.IH)
    qed
  qed
qed

interpretation rotate_all: ledger_statement "rotate_all sha256 now resource_class retries image_digest rows"
  for sha256 now resource_class retries image_digest rows
  by unfold_locales (rule rotate_all_contract)

interpretation clear_rows: ledger_statement "clear_rows sha256 now org_id job_id task_ids retries resource_class image_digest"
  for sha256 now org_id job_id task_ids retries resource_class image_digest
proof
  fix db x db'
  assume "ledger_inv db" "clear_rows sha256 now org_id job_id task_ids retries resource_class image_digest db = Inr (x, db')"
  then show "ledger_inv db' \<and> refines db db'"
    unfolding clear_rows_def
  proof (rule restart_cleared.tx_step, goal_cases)
    case (1 restarting db1)
    from 1(2,4) show ?case
    proof (rule archive_cleared.tx_step, goal_cases)
      case (1 archived db2)
      from 1(2,4) show ?case
      proof (rule rotate_all.tx_step, goal_cases)
        case (1 rotated db3)
        from 1(2,4) show ?case
        proof (rule reset_pending.tx_step, goal_cases)
          case (1 reset db4)
          obtain js db5 where "reopen_job now job_id org_id db4 = (js, db5)" by fastforce
          with 1 have "tasks db' = tasks db4" by (auto simp: reopen_job_def dest!: update_jobs_tasks)
          then show ?case using 1(2) by (rule same_tasks)
        qed
      qed
    qed
  qed
qed

lemma clear_contract:
  assumes "ledger_inv db" "clear sha256 now org_id job_id task_ids retries resource_class image_digest db = Inr (x, db')"
  shows "ledger_inv db' \<and> refines db db'"
  using assms clear_rows.contract [OF assms(1)]
  by (auto simp: clear_def refines_refl split: list.splits if_splits sum.splits)

interpretation finish_and_advance: ledger_statement "finish_and_advance now finished_id pod_uid skipped outcome_text out snapshots counters
    exit_code next_args"
  for now finished_id pod_uid skipped outcome_text out snapshots counters exit_code next_args
proof
  fix db x db'
  assume "ledger_inv db" "finish_and_advance now finished_id pod_uid skipped outcome_text out snapshots counters exit_code next_args db = Inr (x, db')"
  then show "ledger_inv db' \<and> refines db db'"
    unfolding finish_and_advance_def
  proof (rule finish.tx_step, goal_cases)
    case (1 finished db1)
    from 1(4,2) show ?case
      by (cases finished; cases next_args) (simp_all add: refines_refl, rule advance_segment.tx_last)
  qed
qed

interpretation claim_launch: ledger_statement "claim_launch now pick owner_epoch k8s_job_name token_hash in_flight_cap"
  for now pick owner_epoch k8s_job_name token_hash in_flight_cap
proof
  fix db x db'
  assume "ledger_inv db" "claim_launch now pick owner_epoch k8s_job_name token_hash in_flight_cap db = Inr (x, db')"
  then show "ledger_inv db' \<and> refines db db'"
    unfolding claim_launch_def using claim_launch_sql.contract
    by (auto simp: refines_refl split: sum.splits prod.splits sql_error.splits)
qed

lemma plan_row_contract:
  assumes "ledger_inv db" "plan_row (planned_row sha256 now job image_digest seq n upstream) db = Inr (x, db')"
  shows "ledger_inv db' \<and> refines db db'"
proof -
  let ?row = "planned_row sha256 now job image_digest seq n upstream"
  have "fresh_row db ?row"
    by (simp add: planned_row_def fresh_row_def new_row_laws DEFAULT_MAX_LAUNCHES_def)
  then show ?thesis
    using assms insert_refines [of "[?row]" db x db'] by (auto simp: plan_row_def refines_refl split: if_splits)
qed

lemma plan_nodes_contract:
  "ledger_inv db \<Longrightarrow> plan_nodes sha256 now job d image_digest ns db = Ret (Inr db') \<Longrightarrow> ledger_inv db' \<and> refines db db'"
proof (induction ns arbitrary: db)
  case (Cons a ns)
  obtain seq n where a: "a = (seq, n)" by fastforce
  obtain u x db1 where "plan_row (planned_row sha256 now job image_digest seq n u) db = Inr (x, db1)"
    and rest: "plan_nodes sha256 now job d image_digest ns db1 = Ret (Inr db')"
    using Cons.prems(2) unfolding a
    by (cases "upstream_json d n") (auto split: sum.splits)
  then have "ledger_inv db1 \<and> refines db db1" using plan_row_contract [OF Cons.prems(1)] by blast
  then show ?case using Cons.IH rest refines_trans by blast
qed (simp add: refines_refl)

lemma plan_contract:
  assumes "ledger_inv db" "plan sha256 now job d owner_epoch image_digest db = Ret (Inr (x, db'))"
  shows "ledger_inv db' \<and> refines db db'"
proof -
  obtain r where r: "plan_nodes sha256 now job d image_digest (enumerate 0 (nodes d)) db = Ret r"
    using assms(2) by (cases "plan_nodes sha256 now job d image_digest (enumerate 0 (nodes d)) db") (auto simp: plan_def)
  then obtain db1 where db1: "r = Inr db1" using assms(2) by (cases r) (auto simp: plan_def)
  have 1: "ledger_inv db1 \<and> refines db db1" using plan_nodes_contract [OF assms(1)] r db1 by blast
  obtain js db2 where p: "plan_job now (structural_fingerprint d) (policy_hash d) image_digest owner_epoch (jb_id job) db1 = (js, db2)"
    by fastforce
  then have "ledger_inv db2 \<and> refines db1 db2" using 1 by (auto simp: plan_job_def dest!: update_jobs_tasks intro!: same_tasks)
  then show ?thesis
    using assms 1 p refines_trans [of db db1 db2] by (cases js) (auto simp: plan_def r db1 refines_refl)
qed

section \<open>Consequences of the invariant\<close>

lemma history_below:
  assumes "ledger_inv db" "r \<in> set (tasks db)" "1 \<le> m" "m < ti_try_number r"
  shows "\<exists>p \<in> set (tasks db). coordinate p = coordinate r \<and> ti_try_number p = m \<and> \<not> ti_live p"
  using assms(2-4)
proof (induction "nat (ti_try_number r - m)" arbitrary: r)
  case 0
  then show ?case by simp
next
  case (Suc n)
  then obtain p where p: "p \<in> set (tasks db)" "coordinate p = coordinate r" "ti_try_number p = ti_try_number r - 1" "\<not> ti_live p"
    using assms(1) unfolding ledger_inv_def history_def by force
  show ?case
  proof (cases "ti_try_number p = m")
    case True
    then show ?thesis using p by blast
  next
    case False
    then have "\<exists>q \<in> set (tasks db). coordinate q = coordinate p \<and> ti_try_number q = m \<and> \<not> ti_live q"
      using Suc.hyps(2) Suc.prems p(3) by (intro Suc.hyps(1)) (auto simp: p(1))
    then show ?thesis using p(2) by simp
  qed
qed

lemma distinct_map_filter_eq:
  "distinct (map f (filter P xs)) \<Longrightarrow> a \<in> set xs \<Longrightarrow> b \<in> set xs \<Longrightarrow> P a \<Longrightarrow> P b \<Longrightarrow> f a = f b \<Longrightarrow> a = b"
  using inj_onD [of f "set (filter P xs)" a b] by (simp add: distinct_map)

lemma one_live_row:
  assumes "ledger_inv db" "a \<in> set (tasks db)" "b \<in> set (tasks db)" "ti_live a" "ti_live b" "coordinate a = coordinate b"
  shows "a = b"
proof -
  have "distinct (map coordinate (filter ti_live (tasks db)))" using assms(1) by (simp add: ledger_inv_def unique_ok_def)
  then show ?thesis using assms(2-6) by (rule distinct_map_filter_eq)
qed

lemma one_pod:
  assumes "ledger_inv db" "a \<in> set (tasks db)" "b \<in> set (tasks db)" "holds_pod a" "holds_pod b"
    and "ti_dataset_id a = ti_dataset_id b" "ti_org_id a = ti_org_id b"
  shows "a = b"
proof (cases "ti_dataset_id a")
  case None
  have "distinct (map ti_org_id (filter (\<lambda>r. holds_pod r \<and> ti_dataset_id r = None) (tasks db)))"
    using assms(1) by (simp add: ledger_inv_def unique_ok_def)
  then show ?thesis by (rule distinct_map_filter_eq) (use assms None in simp_all)
next
  case (Some x)
  have d: "distinct (map ti_dataset_id (filter (\<lambda>r. holds_pod r \<and> ti_dataset_id r \<noteq> None) (tasks db)))"
    using assms(1) by (simp add: ledger_inv_def unique_ok_def)
  have "ti_dataset_id b = Some x" using Some assms(6) by simp
  then show ?thesis by (intro distinct_map_filter_eq [OF d]) (use assms Some in simp_all)
qed

end
