(* ===== verification/JobGraphs.thy ===== *)
theory JobGraphs
  imports Dag Readiness Errors
begin

text \<open>
  The compiled graphs of the server (\<open>er-server/src/dags\<close>): the closed set of job kinds, the declaration
  of every task body (name, version, inputs, output, lake writes, policy), the graph of every kind
  built with the builder of theory \<open>Dag\<close>, and the two dispatch tables that choose the body a task runs
  and the pins it rehydrates. The bodies themselves call the engine and are not modelled.
\<close>

section \<open>Job kinds\<close>

datatype job_kind =
    RunAllFull | RunAllIncremental | CorrectKind | TrainKind | LakeMaintain | ProfileKind | LakeMigrate
  | Provision | DatasetProvision | ApplyCorrections | ApplyApproved

definition job_kind_ALL :: "job_kind list" where
  "job_kind_ALL = [RunAllFull, RunAllIncremental, CorrectKind, TrainKind, LakeMaintain, ProfileKind, LakeMigrate,
     Provision, DatasetProvision, ApplyCorrections, ApplyApproved]"

fun job_kind_str :: "job_kind \<Rightarrow> string" where
  "job_kind_str RunAllFull = ''run_all_full''"
| "job_kind_str RunAllIncremental = ''run_all_incremental''"
| "job_kind_str CorrectKind = ''correct''"
| "job_kind_str TrainKind = ''train''"
| "job_kind_str LakeMaintain = ''lake_maintain''"
| "job_kind_str ProfileKind = ''profile''"
| "job_kind_str LakeMigrate = ''lake_migrate''"
| "job_kind_str Provision = ''provision''"
| "job_kind_str DatasetProvision = ''dataset_provision''"
| "job_kind_str ApplyCorrections = ''apply_corrections''"
| "job_kind_str ApplyApproved = ''apply_approved''"

definition parse_job_kind :: "string \<Rightarrow> job_kind option" where
  "parse_job_kind s = find (\<lambda>k. job_kind_str k = s) job_kind_ALL"

fun dag_name_of :: "job_kind \<Rightarrow> string" where
  "dag_name_of RunAllFull = ''run_all''"
| "dag_name_of RunAllIncremental = ''run_all''"
| "dag_name_of other = job_kind_str other"

section \<open>Task declarations\<close>

text \<open>A control task's output is a plan, so it never writes the lake.\<close>

definition declare_task :: "string \<Rightarrow> string list \<Rightarrow> string \<Rightarrow> bool \<Rightarrow> node_policy \<Rightarrow> task_spec" where
  "declare_task name inputs output writes_lake policy =
     \<lparr>t_name = name, t_version = 1, t_input_names = inputs, t_output_name = output, t_writes_lake = writes_lake, t_policy = policy\<rparr>"

definition escalating :: node_policy where
  "escalating = default_policy\<lparr>p_escalate_on_oom := True\<rparr>"

definition teardown_policy :: node_policy where
  "teardown_policy = default_policy\<lparr>p_teardown := True\<rparr>"

definition Init :: task_spec where
  "Init = declare_task ''init'' [] ''run_plan'' True default_policy"

definition Ingest :: task_spec where
  "Ingest = declare_task ''ingest'' [''run_plan''] ''landed'' True default_policy"

definition Standardize :: task_spec where
  "Standardize = declare_task ''standardize'' [''run_plan'', ''landed''] ''standardized'' True default_policy"

definition Match :: task_spec where
  "Match = declare_task ''match'' [''run_plan'', ''standardized''] ''scored'' True escalating"

definition ReconcileTask :: task_spec where
  "ReconcileTask = declare_task ''reconcile'' [''run_plan'', ''scored''] ''resolved'' True escalating"

definition Assemble :: task_spec where
  "Assemble = declare_task ''assemble'' [''run_plan'', ''resolved''] ''assembled'' True default_policy"

definition Finish :: task_spec where
  "Finish = declare_task ''finish'' [] ''finish_report'' True teardown_policy"

definition CorrectReconcile :: task_spec where
  "CorrectReconcile = declare_task ''reconcile'' [''run_plan''] ''resolved'' True escalating"

definition CorrectionsInit :: task_spec where
  "CorrectionsInit = declare_task ''init'' [''drained_actions''] ''run_plan'' True default_policy"

definition ApplyStaged :: task_spec where
  "ApplyStaged = declare_task ''apply_staged'' [''run_plan''] ''staged_applied'' True default_policy"

definition CorrectionsReconcile :: task_spec where
  "CorrectionsReconcile = declare_task ''reconcile'' [''run_plan'', ''staged_applied''] ''resolved'' True escalating"

definition ReconcileSchema :: task_spec where
  "ReconcileSchema = declare_task ''reconcile_schema'' [] ''schema_reconciled'' True default_policy"

definition ProfileCorpus :: task_spec where
  "ProfileCorpus = declare_task ''profile'' [''schema_reconciled''] ''profiled'' True default_policy"

definition Maintain :: task_spec where
  "Maintain = declare_task ''maintain'' [''schema_reconciled''] ''maintenance_report'' True default_policy"

definition Train :: task_spec where
  "Train = declare_task ''train'' [''schema_reconciled''] ''trained_model'' False default_policy"

definition LakeInit :: task_spec where
  "LakeInit = declare_task ''lake_init'' [''catalog_created''] ''lake_initialized'' True default_policy"

definition CreateCatalog :: task_spec where
  "CreateCatalog = declare_task ''create_catalog'' [] ''catalog_created'' False control_policy"

definition Activate :: task_spec where
  "Activate = declare_task ''activate'' [''lake_initialized''] ''org_activated'' False control_policy"

definition RegisterModel :: task_spec where
  "RegisterModel = declare_task ''register_model'' [''trained_model''] ''model_registered'' False control_policy"

definition DrainActions :: task_spec where
  "DrainActions = declare_task ''drain_actions'' [] ''drained_actions'' False control_policy"

definition SettleActions :: task_spec where
  "SettleActions = declare_task ''settle_actions'' [''staged_applied'', ''assembled''] ''settled_actions'' False control_policy"

definition StageApproved :: task_spec where
  "StageApproved = declare_task ''stage_approved'' [] ''staged_approved'' False control_policy"

section \<open>Graphs\<close>

definition run_all_graph :: builder where
  "run_all_graph =
     (let d = new_builder (dag_name_of RunAllFull);
          (d, plan) = source_task d Init;
          (d, raw) = then_task d Ingest [plan];
          (d, std) = then_task d Standardize [plan, raw];
          (d, scored) = then_task d Match [plan, std];
          (d, ents) = then_task d ReconcileTask [plan, scored];
          (d, fin) = then_task d Assemble [plan, ents];
          (d, _) = epilogue_task d Finish [fin] AllTerminal
      in d)"

definition correct_graph :: builder where
  "correct_graph =
     (let d = new_builder (dag_name_of CorrectKind);
          (d, plan) = source_task d Init;
          (d, ents) = then_task d CorrectReconcile [plan];
          (d, fin) = then_task d Assemble [plan, ents];
          (d, _) = epilogue_task d Finish [fin] AllTerminal
      in d)"

definition train_graph :: builder where
  "train_graph =
     (let d = new_builder (dag_name_of TrainKind);
          (d, schema) = source_task d ReconcileSchema;
          (d, model) = then_task d Train [schema];
          (d, _) = control_task d RegisterModel [model]
      in d)"

definition lake_maintain_graph :: builder where
  "lake_maintain_graph =
     (let d = new_builder (dag_name_of LakeMaintain);
          (d, schema) = source_task d ReconcileSchema;
          (d, _) = then_task d Maintain [schema]
      in d)"

definition profile_graph :: builder where
  "profile_graph =
     (let d = new_builder (dag_name_of ProfileKind);
          (d, schema) = source_task d ReconcileSchema;
          (d, _) = then_task d ProfileCorpus [schema]
      in d)"

definition lake_migrate_graph :: builder where
  "lake_migrate_graph =
     (let d = new_builder (dag_name_of LakeMigrate);
          (d, _) = source_task d ReconcileSchema
      in d)"

definition provision_graph :: builder where
  "provision_graph =
     (let d = new_builder (dag_name_of Provision);
          (d, catalog) = control_task d CreateCatalog [];
          (d, lake) = then_task d LakeInit [catalog];
          (d, _) = control_task d Activate [lake]
      in d)"

definition dataset_provision_graph :: builder where
  "dataset_provision_graph =
     (let d = new_builder (dag_name_of DatasetProvision);
          (d, catalog) = control_task d CreateCatalog [];
          (d, lake) = then_task d LakeInit [catalog];
          (d, _) = control_task d Activate [lake]
      in d)"

definition apply_corrections_graph :: builder where
  "apply_corrections_graph =
     (let d = new_builder (dag_name_of ApplyCorrections);
          (d, drained) = control_task d DrainActions [];
          (d, plan) = then_task d CorrectionsInit [drained];
          (d, applied) = then_task d ApplyStaged [plan];
          (d, ents) = then_task d CorrectionsReconcile [plan, applied];
          (d, fin) = then_task d Assemble [plan, ents];
          (d, settled) = control_task d SettleActions [applied, fin];
          (d, _) = epilogue_task d Finish [settled] AllTerminal
      in d)"

definition apply_approved_graph :: builder where
  "apply_approved_graph =
     (let d = new_builder (dag_name_of ApplyApproved);
          (d, _) = control_task d StageApproved []
      in d)"

text \<open>The registry; a graph that does not assemble is a panic.\<close>

definition graph_of :: "job_kind \<Rightarrow> builder" where
  "graph_of kind =
     (case kind of
        RunAllFull \<Rightarrow> run_all_graph
      | RunAllIncremental \<Rightarrow> run_all_graph
      | CorrectKind \<Rightarrow> correct_graph
      | TrainKind \<Rightarrow> train_graph
      | LakeMaintain \<Rightarrow> lake_maintain_graph
      | ProfileKind \<Rightarrow> profile_graph
      | LakeMigrate \<Rightarrow> lake_migrate_graph
      | Provision \<Rightarrow> provision_graph
      | DatasetProvision \<Rightarrow> dataset_provision_graph
      | ApplyCorrections \<Rightarrow> apply_corrections_graph
      | ApplyApproved \<Rightarrow> apply_approved_graph)"

definition dag_for :: "(string \<Rightarrow> nat list) \<Rightarrow> job_kind \<Rightarrow> dag outcome" where
  "dag_for sha256 kind = (case build sha256 (graph_of kind) of Inl _ \<Rightarrow> Panic | Inr d \<Rightarrow> Ret d)"

fun verify_all_loop :: "(string \<Rightarrow> nat list) \<Rightarrow> job_kind list \<Rightarrow> unit outcome" where
  "verify_all_loop sha256 [] = Ret ()"
| "verify_all_loop sha256 (k # ks) = bind_outcome (dag_for sha256 k) (\<lambda>_. verify_all_loop sha256 ks)"

definition verify_all :: "(string \<Rightarrow> nat list) \<Rightarrow> unit outcome" where
  "verify_all sha256 = verify_all_loop sha256 job_kind_ALL"

section \<open>Dispatch\<close>

text \<open>The body a task runs with the stable names of the pins it rehydrates, in position; \<open>None\<close> is the
  precondition refusal.\<close>

definition control_dispatch :: "job_kind \<Rightarrow> string \<Rightarrow> (task_spec \<times> string list) option" where
  "control_dispatch kind task =
     (if kind \<in> {Provision, DatasetProvision} \<and> task = ''create_catalog'' then Some (CreateCatalog, [])
      else if kind \<in> {Provision, DatasetProvision} \<and> task = ''activate'' then Some (Activate, [''lake_initialized''])
      else if kind = ApplyApproved \<and> task = ''stage_approved'' then Some (StageApproved, [])
      else if kind = ApplyCorrections \<and> task = ''drain_actions'' then Some (DrainActions, [])
      else if kind = ApplyCorrections \<and> task = ''settle_actions'' then Some (SettleActions, [''staged_applied'', ''assembled''])
      else if kind = TrainKind \<and> task = ''register_model'' then Some (RegisterModel, [''trained_model''])
      else None)"

definition pod_dispatch :: "job_kind \<Rightarrow> string \<Rightarrow> (task_spec \<times> string list) option" where
  "pod_dispatch kind task =
     (if kind \<in> {LakeMaintain, LakeMigrate, TrainKind} \<and> task = ''reconcile_schema'' then Some (ReconcileSchema, [])
      else if kind = LakeMaintain \<and> task = ''maintain'' then Some (Maintain, [''schema_reconciled''])
      else if kind \<in> {Provision, DatasetProvision} \<and> task = ''lake_init'' then Some (LakeInit, [''catalog_created''])
      else if kind = ApplyCorrections \<and> task = ''init'' then Some (CorrectionsInit, [''drained_actions''])
      else if kind = ApplyCorrections \<and> task = ''apply_staged'' then Some (ApplyStaged, [''run_plan''])
      else if kind = ApplyCorrections \<and> task = ''reconcile'' then Some (CorrectionsReconcile, [''run_plan'', ''staged_applied''])
      else if kind = TrainKind \<and> task = ''train'' then Some (Train, [''schema_reconciled''])
      else if kind = ProfileKind \<and> task = ''profile'' then Some (ProfileCorpus, [''schema_reconciled''])
      else if kind \<in> {RunAllFull, RunAllIncremental} \<and> task = ''init'' then Some (Init, [])
      else if kind \<in> {RunAllFull, RunAllIncremental} \<and> task = ''ingest'' then Some (Ingest, [''run_plan''])
      else if kind \<in> {RunAllFull, RunAllIncremental} \<and> task = ''standardize'' then Some (Standardize, [''run_plan'', ''landed''])
      else if kind \<in> {RunAllFull, RunAllIncremental} \<and> task = ''match'' then Some (Match, [''run_plan'', ''standardized''])
      else if kind \<in> {RunAllFull, RunAllIncremental} \<and> task = ''reconcile'' then Some (ReconcileTask, [''run_plan'', ''scored''])
      else if kind \<in> {RunAllFull, RunAllIncremental, CorrectKind, ApplyCorrections} \<and> task = ''assemble''
        then Some (Assemble, [''run_plan'', ''resolved''])
      else if kind \<in> {RunAllFull, RunAllIncremental, CorrectKind, ApplyCorrections} \<and> task = ''finish'' then Some (Finish, [])
      else if kind = CorrectKind \<and> task = ''init'' then Some (Init, [])
      else if kind = CorrectKind \<and> task = ''reconcile'' then Some (CorrectReconcile, [''run_plan''])
      else None)"

definition dispatch :: "job_kind \<Rightarrow> node \<Rightarrow> (task_spec \<times> string list) option" where
  "dispatch kind n = (case n_kind n of Pod \<Rightarrow> pod_dispatch kind (n_task_id n) | Control \<Rightarrow> control_dispatch kind (n_task_id n))"

section \<open>Lemmas\<close>

lemmas task_defs = Init_def Ingest_def Standardize_def Match_def ReconcileTask_def Assemble_def Finish_def CorrectReconcile_def
  CorrectionsInit_def ApplyStaged_def CorrectionsReconcile_def ReconcileSchema_def ProfileCorpus_def Maintain_def Train_def
  LakeInit_def CreateCatalog_def Activate_def RegisterModel_def DrainActions_def SettleActions_def StageApproved_def
  declare_task_def

lemmas graph_defs = run_all_graph_def correct_graph_def train_graph_def lake_maintain_graph_def profile_graph_def
  lake_migrate_graph_def provision_graph_def dataset_provision_graph_def apply_corrections_graph_def apply_approved_graph_def

lemma graph_nodes_checked:
  "b_nodes (graph_of kind) \<noteq> [] \<and> check_nodes (b_nodes (graph_of kind)) {} = None
     \<and> segments_of (b_nodes (graph_of kind)) = []"
  by (induction kind; code_simp)

lemma graph_writers_checked:
  "check_writers \<lparr>dag_name = dag_name_of kind, nodes = b_nodes (graph_of kind), structural_fingerprint = [], policy_hash = []\<rparr> = None"
  by (induction kind; code_simp)

lemma graph_name: "b_name (graph_of kind) = dag_name_of kind"
  by (induction kind; code_simp)

definition upstream_before :: "(nat \<times> node) list \<Rightarrow> bool" where
  "upstream_before ns \<longleftrightarrow> list_all (\<lambda>(i, n). list_all (\<lambda>u. u < i) (n_upstream n)) ns"

lemma topological_code: "topological ns \<longleftrightarrow> upstream_before (enumerate 0 ns)"
proof -
  have "upstream_before (enumerate 0 ns) \<longleftrightarrow> (\<forall>i < length ns. list_all (\<lambda>u. u < i) (n_upstream (ns ! i)))"
    by (simp add: upstream_before_def list_all_length nth_enumerate_eq)
  then show ?thesis by (simp add: topological_def list_all_iff)
qed

lemma graph_topological: "topological (b_nodes (graph_of kind))"
  unfolding topological_code by (induction kind; code_simp)

lemma dag_for_Ret:
  "dag_for sha256 kind = Ret \<lparr>dag_name = dag_name_of kind, nodes = b_nodes (graph_of kind),
     structural_fingerprint = sha256_hex sha256 ((''dag:'' @ dag_name_of kind) # structural_lines (b_nodes (graph_of kind))),
     policy_hash = sha256_hex sha256 (policy_lines (b_nodes (graph_of kind)))\<rparr>"
  using graph_nodes_checked [of kind] graph_writers_checked [of kind]
  by (simp add: dag_for_def build_def graph_name assemble_def Let_def)

lemma verify_all_loop_Ret: "verify_all_loop sha256 ks = Ret ()"
  by (induction ks) (simp_all add: dag_for_Ret)

text \<open>A dispatched body is the one its node was declared with.\<close>

definition dispatched_as_declared :: "job_kind \<Rightarrow> node \<Rightarrow> bool" where
  "dispatched_as_declared kind n \<longleftrightarrow>
     (case dispatch kind n of
        None \<Rightarrow> False
      | Some (t, pins) \<Rightarrow> pins = n_input_names n \<and> pins = t_input_names t \<and> t_name t = n_task_id n
          \<and> t_version t = n_version n \<and> t_output_name t = n_output_name n)"

lemma dispatch_table:
  "list_all (\<lambda>n. dispatched_as_declared kind n \<noteq> (kind = ProfileKind \<and> n_task_id n = ''reconcile_schema'')) (b_nodes (graph_of kind))"
  by (induction kind; code_simp)

lemma dag_for_ok:
  assumes "dag_for sha256 kind = Ret d"
  shows "dag_name d = dag_name_of kind \<and> topological (nodes d) \<and> assembly_ok (nodes d) \<and> acyclic (edges (nodes d))"
proof -
  have d: "dag_name d = dag_name_of kind" "nodes d = b_nodes (graph_of kind)" using assms by (auto simp: dag_for_Ret)
  have "assemble sha256 (dag_name_of kind) (b_nodes (graph_of kind)) = Inr d"
    using assms by (simp add: dag_for_def build_def graph_name split: sum.splits)
  then have "assembly_ok (nodes d)" using d(2) by (simp add: assemble_Inr_iff)
  moreover have "acyclic (edges (nodes d))"
    unfolding acyclic_def d(2) using topological_trancl_increase [OF graph_topological [of kind]] by fastforce
  ultimately show ?thesis using d graph_topological [of kind] by simp
qed

section \<open>Properties\<close>


text \<open>C26: the dispatch tables agree with the graphs on every node but one. A node's body is the task it was declared
  with, and the pins it rehydrates are the node's inputs in their order; the exception is \<open>reconcile_schema\<close> of
  the \<open>profile\<close> kind, which no arm dispatches.\<close>

theorem dispatch_matches_graph:
  assumes "dag_for sha256 kind = Ret d" and "n \<in> set (nodes d)"
  shows "if kind = ProfileKind \<and> n_task_id n = ''reconcile_schema'' then dispatch kind n = None
    else \<exists>t. dispatch kind n = Some (t, n_input_names n) \<and> t_input_names t = n_input_names n \<and> t_name t = n_task_id n
      \<and> t_version t = n_version n \<and> t_output_name t = n_output_name n"
proof (cases "kind = ProfileKind \<and> n_task_id n = ''reconcile_schema''")
  case True
  moreover have "dispatch kind n = None"
    using True by (cases "n_kind n") (simp_all add: dispatch_def pod_dispatch_def control_dispatch_def)
  ultimately show ?thesis by simp
next
  case False
  have "n \<in> set (b_nodes (graph_of kind))" using assms by (auto simp: dag_for_Ret)
  then have "dispatched_as_declared kind n" using dispatch_table [of kind] False unfolding list_all_iff by blast
  then show ?thesis using False by (auto simp: dispatched_as_declared_def split: option.splits)
qed

theorem dispatch_matches_graph_witness:
  "\<exists>n. n_task_id n = ''reconcile_schema'' \<and> dispatch ProfileKind n = None
     \<and> n \<in> set (nodes (\<lparr>dag_name = ''profile'', nodes = b_nodes profile_graph, structural_fingerprint = [], policy_hash = []\<rparr>))"
proof -
  let ?n = "hd (b_nodes profile_graph)"
  have n: "n_task_id ?n = ''reconcile_schema''" "b_nodes profile_graph \<noteq> []" by code_simp+
  obtain d where d: "dag_for (\<lambda>s. []) ProfileKind = Ret d" "nodes d = b_nodes profile_graph"
    using dag_for_Ret [of "\<lambda>s. []" ProfileKind] by (simp add: graph_of_def)
  have "dispatch ProfileKind ?n = None"
    using dispatch_matches_graph [OF d(1), of ?n] n d(2) by simp
  then show ?thesis using n by auto
qed

lemma job_kind_roundtrip: "parse_job_kind s = Some k \<longleftrightarrow> s = job_kind_str k"
proof
  assume "s = job_kind_str k"
  then show "parse_job_kind s = Some k" by (cases k) (simp_all add: parse_job_kind_def job_kind_ALL_def)
qed (auto simp: parse_job_kind_def find_Some_iff)

end
