(* ===== verification/Executor.thy ===== *)
theory Executor
  imports LedgerLaws JobGraphs PodClassify
begin

text \<open>
  The executor of \<open>er-server/src/executor.rs\<close>: the scheduler passes and the watch handlers that drive the
  task ledger. A handler is a function of the executor's state: the ledger, the pre-start clocks and the
  Kubernetes writes it has issued, in order. Answers of the Kubernetes API (a listing, a Job, the result of
  a create) and of a control body are arguments. Every statement of one call reads the same clock \<open>now\<close>. A
  statement whose error the code drops (\<open>let _ =\<close>) leaves the ledger as it was.
\<close>

section \<open>State and configuration\<close>

datatype object_kind = JobObject | PodObject

datatype k8s_call =
    PatchLabels object_kind string "(string \<times> string option) list"
  | DeleteJob string
  | CreateJob string

record executor =
  ex_db :: ledger
  ex_pending_since :: "(string, int) bmap"
  ex_calls :: "k8s_call list"

record executor_config =
  cfg_dag_kinds :: "string list"
  cfg_in_flight_cap :: int
  cfg_image_digest :: "string option"
  cfg_epoch :: string

definition ZOMBIE_STALE_SECS :: int where "ZOMBIE_STALE_SECS = 300"
definition QUOTA_WAIT_SECS :: int where "QUOTA_WAIT_SECS = 30"
definition NO_RECORD_GRACE :: nat where "NO_RECORD_GRACE = NO_RECORD_BOUND_SECS"

definition OWNER_LABEL :: string where "OWNER_LABEL = ''er.dupezero.com/owner''"
definition DONE_LABEL :: string where "DONE_LABEL = ''er.dupezero.com/done''"
definition REVOKED :: string where "REVOKED = ''revoked''"
definition TASK_INSTANCE_ANNOTATION :: string where "TASK_INSTANCE_ANNOTATION = ''er.dupezero.com/task-instance-id''"
definition FINGERPRINT_ANNOTATION :: string where "FINGERPRINT_ANNOTATION = ''er.dupezero.com/structural-fingerprint''"

text \<open>The section mark as the two bytes of its UTF-8 form.\<close>

definition section_ref :: "string \<Rightarrow> string" where
  "section_ref n = '' ('' @ [CHR 0xC2, CHR 0xA7] @ n @ '')''"

definition BUDGET_SPENT :: string where
  "BUDGET_SPENT = ''the infrastructure budget is spent: three launches never ran user code'' @ section_ref ''5.5''"
definition NO_RECORD_DETAIL :: string where
  "NO_RECORD_DETAIL = ''the pod reached a terminal phase with no terminal record; never a success and never retryable'' @ section_ref ''6.5''"
definition DEADLINE_DETAIL :: string where
  "DEADLINE_DETAIL = ''the Job'' @ [CHR 0x27] @ ''s activeDeadlineSeconds fired; a longer timeout is a policy change the operator applies by clearing'' @ section_ref ''5.5''"

definition handles :: "executor_config \<Rightarrow> string \<Rightarrow> bool" where
  "handles cfg kind \<longleftrightarrow> kind \<in> set (cfg_dag_kinds cfg)"

definition issue :: "k8s_call \<Rightarrow> executor \<Rightarrow> executor" where
  "issue c st = st\<lparr>ex_calls := ex_calls st @ [c]\<rparr>"

text \<open>\<open>let _ = statement\<close>.\<close>

definition ignoring :: "(ledger \<Rightarrow> sql_error + ('a \<times> ledger)) \<Rightarrow> executor \<Rightarrow> executor" where
  "ignoring stmt st = (case stmt (ex_db st) of Inl _ \<Rightarrow> st | Inr (_, db) \<Rightarrow> st\<lparr>ex_db := db\<rparr>)"

section \<open>Reads\<close>

definition by_job :: "string \<Rightarrow> string \<Rightarrow> ledger \<Rightarrow> task_instance list" where
  "by_job org_id job_id db =
     sort_key ti_seq (sort_key ti_try_number (filter (\<lambda>r. ti_org_id r = org_id \<and> ti_job_id r = job_id) (tasks db)))"

definition live_claimed_pods :: "ledger \<Rightarrow> task_instance list" where
  "live_claimed_pods db =
     sort_key ti_job_id (sort_key ti_seq (filter (\<lambda>r. ti_live r \<and> ti_kind r = Pod
        \<and> ti_state r \<in> {Queued, Running, Restarting, Canceling} \<and> ti_k8s_job_name r \<noteq> Some INPROC) (tasks db)))"

text \<open>The recursive query: a row, then the archived try it retried, and so on. Try numbers fall along a chain, so
  as many levels as there are rows reach its end.\<close>

fun lineage :: "nat \<Rightarrow> ledger \<Rightarrow> task_instance \<Rightarrow> task_instance list" where
  "lineage 0 db r = [r]"
| "lineage (Suc depth) db r = r # concat (map (lineage depth db)
     (filter (\<lambda>p. coordinate p = coordinate r \<and> ti_try_number p = ti_try_number r - 1
        \<and> \<not> ti_live p \<and> ti_archived_reason p = Some RetryReason) (tasks db)))"

definition retry_lineage :: "string \<Rightarrow> ledger \<Rightarrow> task_instance list" where
  "retry_lineage task_instance_id db =
     sort_key (\<lambda>r. - ti_try_number r)
       (concat (map (lineage (length (tasks db)) db) (filter (\<lambda>r. ti_id r = task_instance_id) (tasks db))))"

definition stale_heartbeats :: "int \<Rightarrow> string \<Rightarrow> int \<Rightarrow> ledger \<Rightarrow> task_instance list" where
  "stale_heartbeats now owner_epoch stale_secs db =
     sort_key (\<lambda>r. case ti_heartbeat_at r of None \<Rightarrow> now | Some h \<Rightarrow> h)
       (filter (\<lambda>r. ti_live r \<and> ti_kind r = Pod \<and> ti_state r = Running \<and> ti_k8s_job_name r \<noteq> Some INPROC
          \<and> ti_owner_epoch r = Some owner_epoch
          \<and> (case ti_heartbeat_at r of None \<Rightarrow> False | Some h \<Rightarrow> h < now - stale_secs)) (tasks db))"

definition get_job :: "string \<Rightarrow> string \<Rightarrow> ledger \<Rightarrow> job option" where
  "get_job org_id job_id db = find (\<lambda>j. jb_org_id j = org_id \<and> jb_id j = job_id) (jobs db)"

definition parse_row_kind :: "task_instance \<Rightarrow> ledger \<Rightarrow> job_kind option" where
  "parse_row_kind row db = Option.bind (get_job (ti_org_id row) (ti_job_id row) db) (\<lambda>j. parse_job_kind (jb_kind j))"

definition list_jobs :: "job_state \<Rightarrow> ledger \<Rightarrow> job list" where
  "list_jobs state db = take 200 (rev (sort_key jb_id (filter (\<lambda>j. jb_state j = state) (jobs db))))"

definition dag_jobs :: "executor_config \<Rightarrow> job_state \<Rightarrow> ledger \<Rightarrow> job list" where
  "dag_jobs cfg state db = filter (\<lambda>j. handles cfg (jb_kind j)) (list_jobs state db)"

definition hd_opt :: "'a list \<Rightarrow> 'a option" where
  "hd_opt xs = (case xs of [] \<Rightarrow> None | x # _ \<Rightarrow> Some x)"

section \<open>Helpers\<close>

definition row_view_of :: "task_instance \<Rightarrow> row_view option" where
  "row_view_of row =
     (case ti_state row of
        Queued \<Rightarrow> Some \<lparr>rv_state = RowQueued, finish_landed = False\<rparr>
      | Running \<Rightarrow> Some \<lparr>rv_state = RowRunning, finish_landed = False\<rparr>
      | Restarting \<Rightarrow> Some \<lparr>rv_state = RowRestarting, finish_landed = False\<rparr>
      | Canceling \<Rightarrow> Some \<lparr>rv_state = RowCanceling, finish_landed = False\<rparr>
      | Succeeded \<Rightarrow> Some \<lparr>rv_state = RowRunning, finish_landed = True\<rparr>
      | Skipped \<Rightarrow> Some \<lparr>rv_state = RowRunning, finish_landed = True\<rparr>
      | _ \<Rightarrow> None)"

definition escalates :: "(string \<Rightarrow> nat list) \<Rightarrow> job_kind option \<Rightarrow> string \<Rightarrow> bool outcome" where
  "escalates sha256 kind task_id =
     (case kind of
        None \<Rightarrow> Ret False
      | Some k \<Rightarrow> bind_outcome (dag_for sha256 k) (\<lambda>d. Ret
          (case node_by_task_id d task_id of None \<Rightarrow> False | Some (_, n) \<Rightarrow> p_escalate_on_oom (n_policy n))))"

definition class_default_timeout :: "resource_class option \<Rightarrow> nat" where
  "class_default_timeout c =
     (case c of Some ClassS \<Rightarrow> 2 * 3600 | Some ClassL \<Rightarrow> 24 * 3600 | _ \<Rightarrow> 6 * 3600)"

definition api_delete :: "string \<Rightarrow> executor \<Rightarrow> executor" where
  "api_delete jname st = issue (DeleteJob jname) st"

definition revoke_and_delete :: "string \<Rightarrow> executor \<Rightarrow> executor" where
  "revoke_and_delete jname st =
     api_delete jname (issue (PatchLabels JobObject jname [(OWNER_LABEL, Some REVOKED)]) st)"

definition tombstone :: "string \<Rightarrow> string option \<Rightarrow> executor \<Rightarrow> executor" where
  "tombstone jname pod st =
     (let st = issue (PatchLabels JobObject jname [(DONE_LABEL, Some ''true'')]) st;
          st = (case pod of None \<Rightarrow> st | Some p \<Rightarrow> issue (PatchLabels PodObject p [(DONE_LABEL, Some ''true'')]) st)
      in api_delete jname st)"

definition forget_pending :: "string \<Rightarrow> executor \<Rightarrow> executor" where
  "forget_pending jname st = st\<lparr>ex_pending_since := filter (\<lambda>(k, _). k \<noteq> jname) (ex_pending_since st)\<rparr>"

definition pod_failure :: "task_state \<Rightarrow> bool \<Rightarrow> bool \<Rightarrow> int option \<Rightarrow> string option \<Rightarrow> string option \<Rightarrow> string option \<Rightarrow> string \<Rightarrow> task_failure" where
  "pod_failure terminal_state retryable escalate exit_code termination_reason error_class error_detail jname =
     \<lparr>f_terminal_state = terminal_state, f_retryable = retryable, f_escalate = escalate, f_exit_code = exit_code,
      f_termination_reason = termination_reason, f_error_class = error_class, f_error_detail = error_detail,
      f_k8s_job_name = Some jname, f_backoff = POD_BACKOFF\<rparr>"

definition requeue :: "(string \<Rightarrow> nat list) \<Rightarrow> (string \<Rightarrow> int) \<Rightarrow> int \<Rightarrow> task_instance \<Rightarrow> string \<Rightarrow> string \<Rightarrow> int \<Rightarrow> executor \<Rightarrow> executor" where
  "requeue sha256 hashtext now row jname reason wait st =
     forget_pending jname
       (case requeue_launch now wait (Some reason) (ti_id row) jname (ex_db st) of
          Inl _ \<Rightarrow> st
        | Inr ([], db) \<Rightarrow>
            (let st = st\<lparr>ex_db := db\<rparr> in
             case hd_opt (retry_lineage (ti_id row) db) of
               None \<Rightarrow> st
             | Some fresh \<Rightarrow>
                 if ti_live fresh \<and> ti_state fresh \<in> {Queued, Running} \<and> ti_launches fresh \<ge> ti_max_launches fresh
                 then ignoring (fail_or_retry_task sha256 hashtext now (ti_id row)
                   (pod_failure Failed True False None (Some reason) (Some ''infrastructure'')
                     (Some BUDGET_SPENT) jname)) st
                 else st)
        | Inr (_ # _, db) \<Rightarrow> st\<lparr>ex_db := db\<rparr>)"

definition wait_for_capacity :: "int \<Rightarrow> task_instance \<Rightarrow> string \<Rightarrow> string \<Rightarrow> string \<Rightarrow> executor \<Rightarrow> executor" where
  "wait_for_capacity now row jname reason det st =
     forget_pending jname
       (ignoring (capacity_wait now QUOTA_WAIT_SECS (Some (reason @ '': '' @ det)) (ti_id row) jname)
         (api_delete jname st))"

section \<open>The watch\<close>

text \<open>\<open>archive_restarted\<close> and, when it moved the row, \<open>insert_cleared_try\<close>: two statements, not one transaction.\<close>

definition rotate_restarted :: "(string \<Rightarrow> nat list) \<Rightarrow> executor_config \<Rightarrow> int \<Rightarrow> int option \<Rightarrow> string option \<Rightarrow> string \<Rightarrow> string
    \<Rightarrow> executor \<Rightarrow> executor" where
  "rotate_restarted sha256 cfg now exit_code reason task_instance_id jname st =
     (case archive_restarted now exit_code reason task_instance_id (Some jname) (ex_db st) of
        Inl _ \<Rightarrow> st
      | Inr ([], db) \<Rightarrow> st\<lparr>ex_db := db\<rparr>
      | Inr (_ # _, db) \<Rightarrow>
          ignoring (insert_cleared_try sha256 now None 2 (cfg_image_digest cfg) task_instance_id) (st\<lparr>ex_db := db\<rparr>))"

definition record_retryable :: "string \<Rightarrow> bool" where
  "record_retryable c \<longleftrightarrow> c \<in> {''transient_io'', ''lock_conflict'', ''infrastructure'', ''resources''}"

definition apply_record :: "(string \<Rightarrow> nat list) \<Rightarrow> (string \<Rightarrow> int) \<Rightarrow> int \<Rightarrow> job_kind option \<Rightarrow> task_instance \<Rightarrow> string \<Rightarrow> terminal_record
    \<Rightarrow> executor \<Rightarrow> executor outcome" where
  "apply_record sha256 hashtext now kind row jname record st =
     (case rec_state record of
        RecFailed \<Rightarrow>
          let c = (case rec_error_class record of None \<Rightarrow> ''internal'' | Some c \<Rightarrow> c) in
          bind_outcome (if c = ''resources'' then escalates sha256 kind (ti_task_id row) else Ret False) (\<lambda>escalate.
            Ret (ignoring (fail_or_retry_task sha256 hashtext now (ti_id row)
              (pod_failure Failed (record_retryable c) escalate (Some (rec_exit record)) (rec_termination_reason record)
                (Some c) (rec_detail record) jname)) st))
      | Interrupted \<Rightarrow> Ret st
      | s \<Rightarrow> Ret (ignoring (finish now (s = RecSkipped) ''done'' (rec_output record) (rec_snapshot_start record)
              (rec_snapshot_end record) (rec_counters record) (Some (rec_exit record)) (ti_id row)
              (case ti_pod_uid row of None \<Rightarrow> [] | Some u \<Rightarrow> u)) st))"

definition apply_verdict :: "(string \<Rightarrow> nat list) \<Rightarrow> (string \<Rightarrow> int) \<Rightarrow> executor_config \<Rightarrow> int \<Rightarrow> task_instance \<Rightarrow> string \<Rightarrow> terminal_verdict
    \<Rightarrow> executor \<Rightarrow> executor outcome" where
  "apply_verdict sha256 hashtext cfg now row jname verdict st =
     (let kind = parse_row_kind row (ex_db st) in
      case verdict of
        TermWait \<Rightarrow> Ret st
      | RecordEvidence exit_code reason \<Rightarrow>
          Ret (tombstone jname None (ignoring (record_evidence now exit_code reason (ti_id row)
            (case ti_pod_uid row of None \<Rightarrow> [] | Some u \<Rightarrow> u) jname) st))
      | ApplyRecord record \<Rightarrow>
          bind_outcome (apply_record sha256 hashtext now kind row jname record st) (\<lambda>st. Ret (tombstone jname None st))
      | FailNoRecord \<Rightarrow>
          Ret (tombstone jname None (ignoring (fail_or_retry_task sha256 hashtext now (ti_id row)
            (pod_failure Failed False False None (Some ''no_terminal_record'') (Some ''internal'')
              (Some NO_RECORD_DETAIL) jname)) st))
      | terminal_verdict.TimedOut \<Rightarrow>
          Ret (tombstone jname None (ignoring (fail_or_retry_task sha256 hashtext now (ti_id row)
            (pod_failure task_state.TimedOut False False None (Some ''DeadlineExceeded'') (Some ''timeout'')
              (Some DEADLINE_DETAIL) jname)) st))
      | FailResources reason det \<Rightarrow>
          bind_outcome (escalates sha256 kind (ti_task_id row)) (\<lambda>e.
            Ret (tombstone jname None (ignoring (fail_or_retry_task sha256 hashtext now (ti_id row)
              (pod_failure Failed True (e \<and> ti_resource_class row \<noteq> Some ClassL) None (Some reason) (Some ''resources'') det
                jname)) st)))
      | Requeue reason \<Rightarrow> Ret (requeue sha256 hashtext now row jname reason QUOTA_WAIT_SECS (api_delete jname st))
      | SettleCanceled exit_code reason \<Rightarrow>
          Ret (tombstone jname None (ignoring (settle_canceled now exit_code reason (ti_id row) (Some jname)) st))
      | CompleteRestart exit_code reason \<Rightarrow>
          Ret (tombstone jname None (rotate_restarted sha256 cfg now exit_code reason (ti_id row) jname st)))"

definition row_for_annotation :: "(string, string) bmap \<Rightarrow> ledger \<Rightarrow> task_instance option" where
  "row_for_annotation annotations db =
     Option.bind (map_of annotations TASK_INSTANCE_ANNOTATION) (\<lambda>id. hd_opt (retry_lineage id db))"

definition apply_job :: "(string \<Rightarrow> nat list) \<Rightarrow> (string \<Rightarrow> int) \<Rightarrow> (string \<Rightarrow> terminal_record option) \<Rightarrow> executor_config \<Rightarrow> int
    \<Rightarrow> job_snapshot \<Rightarrow> executor \<Rightarrow> executor outcome" where
  "apply_job sha256 hashtext from_str cfg now job st =
     (if \<not> failed_deadline job then Ret st
      else case row_for_annotation (job_annotations job) (ex_db st) of
        None \<Rightarrow> Ret st
      | Some row \<Rightarrow>
          if ti_k8s_job_name row \<noteq> Some (job_name job) then Ret st
          else case row_view_of row of
            None \<Rightarrow> Ret st
          | Some view \<Rightarrow>
              bind_outcome (terminal from_str view None job False 0) (\<lambda>v.
                apply_verdict sha256 hashtext cfg now row (job_name job) v st))"

definition default_job :: job_snapshot where
  "default_job = \<lparr>job_name = [], job_labels = [], job_annotations = [], active = 0, succeeded = 0, failed = 0,
     failed_deadline = False, failed_backoff = False, job_deletion_timestamp = False\<rparr>"

definition zombie_record :: "task_instance \<Rightarrow> pod_snapshot \<Rightarrow> terminal_record" where
  "zombie_record row pod =
     \<lparr>rec_v = 1, rec_attempt = ti_id row, rec_state = RecFailed,
      rec_exit = (case terminated_exit_code pod of None \<Rightarrow> 1 | Some c \<Rightarrow> c),
      rec_error_class = Some ''infrastructure'', rec_termination_reason = Some ''heartbeat_timeout'',
      rec_detail = Some ''no heartbeat for 5 minutes; something ran and the outcome is unknown'',
      rec_output = None, rec_snapshot_start = None, rec_snapshot_end = None, rec_counters = None\<rparr>"

definition override_zombie :: "task_instance \<Rightarrow> pod_snapshot \<Rightarrow> terminal_verdict \<Rightarrow> terminal_verdict" where
  "override_zombie row pod verdict =
     (case verdict of
        Requeue _ \<Rightarrow> if ti_termination_reason row = Some ''heartbeat_timeout'' then ApplyRecord (zombie_record row pod) else verdict
      | _ \<Rightarrow> verdict)"

text \<open>\<open>get_api_job\<close> is the Job the API returns for a name, with errors as \<open>None\<close>.\<close>

definition apply_pod :: "(string \<Rightarrow> nat list) \<Rightarrow> (string \<Rightarrow> int) \<Rightarrow> (string \<Rightarrow> terminal_record option) \<Rightarrow> (string \<Rightarrow> job_snapshot option)
    \<Rightarrow> executor_config \<Rightarrow> int \<Rightarrow> pod_snapshot \<Rightarrow> bool \<Rightarrow> executor \<Rightarrow> executor outcome" where
  "apply_pod sha256 hashtext from_str get_api_job cfg now pod deleted st =
     (case row_for_annotation (pod_annotations pod) (ex_db st) of
        None \<Rightarrow> Ret st
      | Some row \<Rightarrow>
          (case ti_k8s_job_name row of
             None \<Rightarrow> Ret st
           | Some jname \<Rightarrow>
               if take (length jname) (pod_snapshot.pod_name pod) \<noteq> jname then Ret st
               else let st = (if phase pod = PodRunning then forget_pending jname st else st) in
                 (case row_view_of row of
                    None \<Rightarrow>
                      if ti_state row \<in> {Succeeded, Skipped} then
                        Ret (tombstone jname (Some (pod_snapshot.pod_name pod))
                          (ignoring (record_evidence now (terminated_exit_code pod) (terminated_reason pod) (ti_id row)
                            (case ti_pod_uid row of None \<Rightarrow> pod_snapshot.pod_uid pod | Some u \<Rightarrow> u) jname) st))
                      else Ret st
                  | Some view \<Rightarrow>
                      let job = (case get_api_job jname of None \<Rightarrow> default_job | Some j \<Rightarrow> j) in
                      bind_outcome (terminal from_str view (Some pod) job deleted NO_RECORD_GRACE) (\<lambda>v.
                        apply_verdict sha256 hashtext cfg now row jname (override_zombie row pod v) st))))"

section \<open>Resync\<close>

record listing =
  ls_jobs :: "job_snapshot list"
  ls_pods :: "pod_snapshot list"

definition BUILD_SKEW_DETAIL :: string where
  "BUILD_SKEW_DETAIL = ''the running Job was launched from a different build'' @ [CHR 0x27] @ ''s graph''"

definition reconcile_row :: "(string \<Rightarrow> nat list) \<Rightarrow> (string \<Rightarrow> int) \<Rightarrow> executor_config \<Rightarrow> int \<Rightarrow> listing \<Rightarrow> task_instance
    \<Rightarrow> executor \<Rightarrow> executor outcome" where
  "reconcile_row sha256 hashtext cfg now ls row st =
     (case ti_k8s_job_name row of
        None \<Rightarrow> Ret st
      | Some jname \<Rightarrow>
          (case (ti_state row, find (\<lambda>j. job_name j = jname) (ls_jobs ls)) of
             (Restarting, None) \<Rightarrow> Ret (rotate_restarted sha256 cfg now None (Some ''no_pod'') (ti_id row) jname st)
           | (Canceling, None) \<Rightarrow> Ret (ignoring (settle_canceled now None (Some ''vanished'') (ti_id row) (Some jname)) st)
           | (Canceling, Some _) \<Rightarrow> Ret (revoke_and_delete jname st)
           | (s, Some j) \<Rightarrow>
               if s = Queued \<or> s = Running then
                 bind_outcome (case parse_row_kind row (ex_db st) of
                     None \<Rightarrow> Ret None
                   | Some k \<Rightarrow> bind_outcome (dag_for sha256 k) (\<lambda>d. Ret (Some (structural_fingerprint d)))) (\<lambda>ours.
                   if ours = map_of (job_annotations j) FINGERPRINT_ANNOTATION
                   then Ret (issue (PatchLabels JobObject jname [(OWNER_LABEL, Some (cfg_epoch cfg))]) st)
                   else Ret (ignoring (fail_or_retry_task sha256 hashtext now (ti_id row)
                     (pod_failure Failed False False None (Some ''build_skew'') (Some ''internal'') (Some BUILD_SKEW_DETAIL) jname))
                     (tombstone jname None st)))
               else Ret st
           | (Running, None) \<Rightarrow> Ret (requeue sha256 hashtext now row jname ''vanished'' QUOTA_WAIT_SECS st)
           | (Queued, None) \<Rightarrow> Ret (requeue sha256 hashtext now row jname ''adoption_relaunch'' 0 st)
           | _ \<Rightarrow> Ret st))"

fun reconcile_rows :: "(string \<Rightarrow> nat list) \<Rightarrow> (string \<Rightarrow> int) \<Rightarrow> executor_config \<Rightarrow> int \<Rightarrow> listing \<Rightarrow> task_instance list
    \<Rightarrow> executor \<Rightarrow> executor outcome" where
  "reconcile_rows sha256 hashtext cfg now ls [] st = Ret st"
| "reconcile_rows sha256 hashtext cfg now ls (row # rows) st =
     bind_outcome (reconcile_row sha256 hashtext cfg now ls row st) (reconcile_rows sha256 hashtext cfg now ls rows)"

text \<open>A failed listing (\<open>None\<close>) ends the reconcile.\<close>

definition reconcile_jobs :: "(string \<Rightarrow> nat list) \<Rightarrow> (string \<Rightarrow> int) \<Rightarrow> executor_config \<Rightarrow> int \<Rightarrow> listing option \<Rightarrow> executor \<Rightarrow> executor outcome" where
  "reconcile_jobs sha256 hashtext cfg now listed st =
     (case listed of
        None \<Rightarrow> Ret st
      | Some ls \<Rightarrow>
          (let rows = live_claimed_pods (ex_db st); names = List.map_filter ti_k8s_job_name rows in
           bind_outcome (reconcile_rows sha256 hashtext cfg now ls rows st) (\<lambda>st.
             Ret (fold (\<lambda>j st. if job_name j \<notin> set names \<and> map_of (job_labels j) DONE_LABEL = None
                               then tombstone (job_name j) None st else st) (ls_jobs ls) st))))"

datatype watch_frame = JobFrame job_snapshot | JobDeleted job_snapshot | PodFrame pod_snapshot | PodDeleted pod_snapshot | Resync

definition apply_frame :: "(string \<Rightarrow> nat list) \<Rightarrow> (string \<Rightarrow> int) \<Rightarrow> (string \<Rightarrow> terminal_record option) \<Rightarrow> (string \<Rightarrow> job_snapshot option)
    \<Rightarrow> executor_config \<Rightarrow> int \<Rightarrow> listing option \<Rightarrow> watch_frame \<Rightarrow> executor \<Rightarrow> executor outcome" where
  "apply_frame sha256 hashtext from_str get_api_job cfg now listed frame st =
     (case frame of
        Resync \<Rightarrow> reconcile_jobs sha256 hashtext cfg now listed st
      | PodFrame pod \<Rightarrow> apply_pod sha256 hashtext from_str get_api_job cfg now pod False st
      | PodDeleted pod \<Rightarrow> apply_pod sha256 hashtext from_str get_api_job cfg now pod True st
      | JobFrame job \<Rightarrow> apply_job sha256 hashtext from_str cfg now job st
      | JobDeleted job \<Rightarrow> apply_job sha256 hashtext from_str cfg now job st)"

section \<open>Sweeps\<close>

text \<open>A statement error ends the sweep; what ran before it stays.\<close>

fun settle_swept :: "int \<Rightarrow> task_instance list \<Rightarrow> executor \<Rightarrow> bool \<times> executor" where
  "settle_swept now [] st = (True, st)"
| "settle_swept now (row # rows) st =
     (if ti_kind row = Control \<or> ti_k8s_job_name row = Some INPROC then
        (case settle_canceled now None (Some ''canceled'') (ti_id row) (ti_k8s_job_name row) (ex_db st) of
           Inl _ \<Rightarrow> (False, st)
         | Inr (_, db) \<Rightarrow> settle_swept now rows (st\<lparr>ex_db := db\<rparr>))
      else settle_swept now rows (case ti_k8s_job_name row of None \<Rightarrow> st | Some jname \<Rightarrow> revoke_and_delete jname st))"

definition cancel_one :: "int \<Rightarrow> job \<Rightarrow> executor \<Rightarrow> bool \<times> executor" where
  "cancel_one now job st =
     (case cancel_pending now (jb_org_id job) (jb_id job) (ex_db st) of
        Inl _ \<Rightarrow> (False, st)
      | Inr (_, db) \<Rightarrow>
          (case cancel_live now (jb_org_id job) (jb_id job) db of
             Inl _ \<Rightarrow> (False, st\<lparr>ex_db := db\<rparr>)
           | Inr (live, db) \<Rightarrow> settle_swept now live (st\<lparr>ex_db := db\<rparr>)))"

fun cancel_all :: "int \<Rightarrow> job list \<Rightarrow> executor \<Rightarrow> executor" where
  "cancel_all now [] st = st"
| "cancel_all now (job # rest) st = (case cancel_one now job st of (ok, st) \<Rightarrow> if ok then cancel_all now rest st else st)"

definition cancel_sweep :: "executor_config \<Rightarrow> int \<Rightarrow> executor \<Rightarrow> executor" where
  "cancel_sweep cfg now st = cancel_all now (dag_jobs cfg JobCanceling (ex_db st)) st"

definition zombie_row :: "int \<Rightarrow> listing \<Rightarrow> task_instance \<Rightarrow> executor \<Rightarrow> executor" where
  "zombie_row now ls row st =
     (case find (\<lambda>p. Some (pod_snapshot.pod_name p) = ti_pod_name row) (ls_pods ls) of
        Some p \<Rightarrow>
          if node_not_ready p \<or> disruption_target p \<noteq> None then st
          else (let st = (case ti_pod_uid row of None \<Rightarrow> st
                          | Some uid \<Rightarrow> ignoring (note_interruption now ''heartbeat_timeout'' None (ti_id row) uid) st)
                in case ti_k8s_job_name row of None \<Rightarrow> st | Some jname \<Rightarrow> revoke_and_delete jname st)
      | None \<Rightarrow>
          (let st = (case ti_pod_uid row of None \<Rightarrow> st
                     | Some uid \<Rightarrow> ignoring (note_interruption now ''heartbeat_timeout'' None (ti_id row) uid) st)
           in case ti_k8s_job_name row of None \<Rightarrow> st | Some jname \<Rightarrow> revoke_and_delete jname st))"

definition zombie_sweep :: "executor_config \<Rightarrow> int \<Rightarrow> listing option \<Rightarrow> executor \<Rightarrow> executor" where
  "zombie_sweep cfg now listed st =
     (let stale = stale_heartbeats now (cfg_epoch cfg) ZOMBIE_STALE_SECS (ex_db st) in
      if stale = [] then st
      else (case listed of None \<Rightarrow> st | Some ls \<Rightarrow> fold (zombie_row now ls) stale st))"

text \<open>\<open>events\<close> are the messages of a Job's events with their reasons, oldest first.\<close>

definition stuck_row :: "(string \<Rightarrow> nat list) \<Rightarrow> (string \<Rightarrow> int) \<Rightarrow> (string \<Rightarrow> (string \<times> string) list) \<Rightarrow> int \<Rightarrow> listing \<Rightarrow> task_instance
    \<Rightarrow> executor \<Rightarrow> executor" where
  "stuck_row sha256 hashtext events now ls row st =
     (case ti_k8s_job_name row of
        None \<Rightarrow> st
      | Some jname \<Rightarrow>
          (let job = find (\<lambda>j. job_name j = jname) (ls_jobs ls);
               pod = find (\<lambda>p. take (length jname) (pod_snapshot.pod_name p) = jname \<and> phase p = pod_phase.Pending) (ls_pods ls);
               age = (case map_of (ex_pending_since st) jname of None \<Rightarrow> 0 | Some t \<Rightarrow> nat (now - t));
               newest = (if (case job of None \<Rightarrow> False | Some j \<Rightarrow> active j = 0) \<and> pod = None
                         then map_option snd (find (\<lambda>(reason, _). reason = ''FailedCreate'') (rev (events jname)))
                         else None) in
           case pre_start pod (case job of None \<Rightarrow> default_job | Some j \<Rightarrow> j) newest age age age of
             PreWait \<Rightarrow> st
           | RequeueLaunch reason det \<Rightarrow>
               requeue sha256 hashtext now row jname (case det of None \<Rightarrow> reason | Some d \<Rightarrow> reason @ '': '' @ d) QUOTA_WAIT_SECS
                 (api_delete jname st)
           | CapacityWait reason det \<Rightarrow>
               wait_for_capacity now row jname reason (case det of None \<Rightarrow> reason | Some d \<Rightarrow> d) (api_delete jname st)))"

definition stuck_pending_sweep :: "(string \<Rightarrow> nat list) \<Rightarrow> (string \<Rightarrow> int) \<Rightarrow> (string \<Rightarrow> (string \<times> string) list) \<Rightarrow> int \<Rightarrow> listing option
    \<Rightarrow> executor \<Rightarrow> executor" where
  "stuck_pending_sweep sha256 hashtext events now listed st =
     (let queued = filter (\<lambda>r. ti_state r = Queued) (live_claimed_pods (ex_db st)) in
      if queued = [] then st
      else (case listed of None \<Rightarrow> st | Some ls \<Rightarrow> fold (stuck_row sha256 hashtext events now ls) queued st))"

section \<open>Readiness and settle\<close>

definition live_rows :: "string \<Rightarrow> string \<Rightarrow> ledger \<Rightarrow> (string, task_instance) bmap" where
  "live_rows org_id job_id db = bmap_collect (map (\<lambda>r. (ti_task_id r, r)) (filter ti_live (by_job org_id job_id db)))"

definition states_of :: "dag \<Rightarrow> (string, task_instance) bmap \<Rightarrow> task_state list" where
  "states_of d live = map (\<lambda>n. case map_of live (n_task_id n) of None \<Rightarrow> NoneState | Some r \<Rightarrow> ti_state r) (nodes d)"

fun failure_text :: "dag \<Rightarrow> (nat \<times> task_state) list \<Rightarrow> (string, task_instance) bmap \<Rightarrow> string option \<times> string option" where
  "failure_text d [] live = (None, None)"
| "failure_text d ((idx, s) # rest) live =
     (if class_of s = FailureLike then
        (case map_of live (n_task_id (nodes d ! idx)) of
           Some row \<Rightarrow> (coalesce (ti_error_class row) (Some ''internal''),
             coalesce (ti_error_detail row)
               (Some (''task '' @ [CHR 0x27] @ ti_task_id row @ [CHR 0x27] @ '' '' @ task_state_str (ti_state row))))
         | None \<Rightarrow> failure_text d rest live)
      else failure_text d rest live)"

definition compose_input :: "dag \<Rightarrow> nat \<Rightarrow> (string, task_instance) bmap \<Rightarrow> job \<Rightarrow> json" where
  "compose_input d idx live job =
     (let node = nodes d ! idx;
          pins = map (\<lambda>u. case Option.bind (map_of live (n_task_id (nodes d ! u))) ti_output of None \<Rightarrow> JNull | Some v \<Rightarrow> v) (n_upstream node);
          leaves = json_object (List.map_filter (\<lambda>n. map_option (\<lambda>r. (n_task_id n, JStr (task_state_str (ti_state r)))) (map_of live (n_task_id n)))
                     (filter (\<lambda>n. \<not> n_teardown n) (nodes d))) in
      json_object ([(''pins'', JArr pins), (''params'', jb_params job)] @ (if n_teardown node then [(''leaves'', leaves)] else [])))"

text \<open>The verdicts of a pass, applied in order. \<open>None\<close> is the roll-back on a statement that moved no row.\<close>

fun record_actions :: "int \<Rightarrow> dag \<Rightarrow> job \<Rightarrow> int \<Rightarrow> (string, task_instance) bmap \<Rightarrow> (nat \<times> pass_action) list \<Rightarrow> task_state list \<Rightarrow> ledger
    \<Rightarrow> sql_error + (task_state list \<times> ledger) option" where
  "record_actions now d job clear_number live [] effective db = Inr (Some (effective, db))"
| "record_actions now d job clear_number live ((idx, action) # rest) effective db =
     (case map_of live (n_task_id (nodes d ! idx)) of
        None \<Rightarrow> record_actions now d job clear_number live rest effective db
      | Some row \<Rightarrow>
          (case (case action of
                   Schedule \<Rightarrow> mark_scheduled now (compose_input d idx live job) (ti_id row) clear_number db
                 | PropagateTo s \<Rightarrow> propagate now s (ti_id row) clear_number db) of
             Inl e \<Rightarrow> Inl e
           | Inr ([], _) \<Rightarrow> Inr None
           | Inr (_ # _, db') \<Rightarrow>
               record_actions now d job clear_number live rest (effective[idx := action_state action]) db'))"

definition deadlock_detail :: "string \<Rightarrow> string" where
  "deadlock_detail task_id = ''task '' @ [CHR 0x27] @ task_id @ [CHR 0x27]
     @ '' is pending with every upstream terminal '' @ [CHR 0xE2, CHR 0x80, CHR 0x94] @ '' a scheduler bug (Airflow'' @ [CHR 0x27] @ ''s deadlock branch)''"

definition settled_state :: "task_state \<Rightarrow> job_state" where
  "settled_state s = (case s of Failed \<Rightarrow> JobFailed | Canceled \<Rightarrow> JobCanceled | _ \<Rightarrow> JobSucceeded)"

definition settle_after :: "int \<Rightarrow> dag \<Rightarrow> job \<Rightarrow> (string, task_instance) bmap \<Rightarrow> task_state list \<Rightarrow> settle_verdict \<Rightarrow> ledger \<Rightarrow> job list \<times> ledger" where
  "settle_after now d job live effective verdict db =
     (case verdict of
        NotYet \<Rightarrow> ([], db)
      | Settled s \<Rightarrow>
          (case failure_text d (enumerate 0 effective) live of (c, det) \<Rightarrow> settle_job now (settled_state s) c det (jb_id job) db)
      | Deadlock idx \<Rightarrow>
          settle_job now JobFailed (Some ''internal'') (Some (deadlock_detail (n_task_id (nodes d ! idx)))) (jb_id job) db)"

text \<open>One transaction: \<open>Inr (worked, db)\<close>, with the ledger unchanged where the transaction is dropped.\<close>

definition readiness_tx :: "int \<Rightarrow> job \<Rightarrow> dag \<Rightarrow> job \<Rightarrow> ledger \<Rightarrow> (sql_error + (bool \<times> ledger)) outcome" where
  "readiness_tx now job d locked db =
     (let clear_number = (case jb_clear_number locked of None \<Rightarrow> 0 | Some n \<Rightarrow> n);
          live = live_rows (jb_org_id job) (jb_id job) db; states = states_of d live in
      bind_outcome (pass d states) (\<lambda>actions.
        case record_actions now d job clear_number live actions states db of
          Inl e \<Rightarrow> Ret (Inl e)
        | Inr None \<Rightarrow> Ret (Inr (False, db))
        | Inr (Some (effective, db1)) \<Rightarrow>
            bind_outcome (settle d effective) (\<lambda>verdict.
              case settle_after now d job live effective verdict db1 of (settled, db2) \<Rightarrow>
                Ret (Inr (actions \<noteq> [] \<or> settled \<noteq> [], db2)))))"

definition readiness_for :: "(string \<Rightarrow> nat list) \<Rightarrow> int \<Rightarrow> job \<Rightarrow> ledger \<Rightarrow> (sql_error + (bool \<times> ledger)) outcome" where
  "readiness_for sha256 now job db =
     (case parse_job_kind (jb_kind job) of
        None \<Rightarrow> Ret (Inr (False, db))
      | Some kind \<Rightarrow>
          bind_outcome (dag_for sha256 kind) (\<lambda>d.
            case lock_job (jb_id job) db of
              [] \<Rightarrow> Ret (Inr (False, db))
            | locked # _ \<Rightarrow> readiness_tx now job d locked db))"

fun readiness_all :: "(string \<Rightarrow> nat list) \<Rightarrow> int \<Rightarrow> job list \<Rightarrow> executor \<Rightarrow> executor outcome" where
  "readiness_all sha256 now [] st = Ret st"
| "readiness_all sha256 now (job # rest) st =
     bind_outcome (readiness_for sha256 now job (ex_db st)) (\<lambda>r.
       readiness_all sha256 now rest (case r of Inl _ \<Rightarrow> st | Inr (_, db) \<Rightarrow> st\<lparr>ex_db := db\<rparr>))"

definition readiness_pass :: "(string \<Rightarrow> nat list) \<Rightarrow> executor_config \<Rightarrow> int \<Rightarrow> executor \<Rightarrow> executor outcome" where
  "readiness_pass sha256 cfg now st =
     readiness_all sha256 now (dag_jobs cfg JobRunning (ex_db st) @ dag_jobs cfg JobCanceling (ex_db st)) st"

section \<open>Planning\<close>

definition adopt_jobs :: "int \<Rightarrow> string \<Rightarrow> ledger \<Rightarrow> job list \<times> ledger" where
  "adopt_jobs now owner_epoch =
     update_jobs (\<lambda>j. jb_state j \<in> {JobRunning, JobCanceling}) (\<lambda>j. j\<lparr>jb_owner_epoch := Some owner_epoch, jb_updated_at := now\<rparr>)"

definition adopt_all :: "executor_config \<Rightarrow> int \<Rightarrow> executor \<Rightarrow> executor" where
  "adopt_all cfg now st = ignoring (adopt now (cfg_epoch cfg)) (st\<lparr>ex_db := snd (adopt_jobs now (cfg_epoch cfg) (ex_db st))\<rparr>)"

definition unknown_kind_detail :: "string \<Rightarrow> string" where
  "unknown_kind_detail kind = ''kind '' @ [CHR 0x27] @ kind @ [CHR 0x27] @ '' does not parse into the DAG registry''"

definition fingerprint_detail :: "string \<Rightarrow> string \<Rightarrow> string" where
  "fingerprint_detail fp ours = ''the job was planned against structural fingerprint '' @ fp @ ''; this build compiles '' @ ours
     @ '' '' @ [CHR 0xE2, CHR 0x80, CHR 0x94] @ '' clear into a new job rather than mixing graphs'' @ section_ref ''9.4''"

definition plan_claimed :: "(string \<Rightarrow> nat list) \<Rightarrow> executor_config \<Rightarrow> int \<Rightarrow> job \<Rightarrow> executor \<Rightarrow> executor outcome" where
  "plan_claimed sha256 cfg now job st =
     (case parse_job_kind (jb_kind job) of
        None \<Rightarrow> Ret (st\<lparr>ex_db := snd (refuse_plan now (jb_id job) ''config'' (unknown_kind_detail (jb_kind job)) (ex_db st))\<rparr>)
      | Some kind \<Rightarrow>
          bind_outcome (dag_for sha256 kind) (\<lambda>d.
            case jb_structural_fingerprint job of
              Some fp \<Rightarrow>
                if fp \<noteq> structural_fingerprint d
                then Ret (st\<lparr>ex_db := snd (refuse_plan now (jb_id job) ''config'' (fingerprint_detail fp (structural_fingerprint d)) (ex_db st))\<rparr>)
                else bind_outcome (plan sha256 now job d (cfg_epoch cfg) (cfg_image_digest cfg) (ex_db st)) (\<lambda>r.
                  Ret (case r of Inl _ \<Rightarrow> st | Inr (_, db) \<Rightarrow> st\<lparr>ex_db := db\<rparr>))
            | None \<Rightarrow> bind_outcome (plan sha256 now job d (cfg_epoch cfg) (cfg_image_digest cfg) (ex_db st)) (\<lambda>r.
                  Ret (case r of Inl _ \<Rightarrow> st | Inr (_, db) \<Rightarrow> st\<lparr>ex_db := db\<rparr>))))"

section \<open>Control tasks\<close>

record pod_task_run =
  run_skipped :: bool
  run_outcome :: string
  run_output :: json
  run_counters :: "json option"

text \<open>\<open>body\<close> is what the control body returned.\<close>

definition run_one_control :: "(string \<Rightarrow> nat list) \<Rightarrow> (string \<Rightarrow> int) \<Rightarrow> executor_config \<Rightarrow> int \<Rightarrow> task_error + pod_task_run \<Rightarrow> task_instance
    \<Rightarrow> executor \<Rightarrow> executor" where
  "run_one_control sha256 hashtext cfg now body row st =
     (case parse_row_kind row (ex_db st) of
        None \<Rightarrow> ignoring (fail_or_retry_task sha256 hashtext now (ti_id row)
          \<lparr>f_terminal_state = Failed, f_retryable = False, f_escalate = False, f_exit_code = None, f_termination_reason = Some ''config'',
           f_error_class = Some ''config'', f_error_detail = Some (''the job'' @ [CHR 0x27] @ ''s kind does not parse into the DAG registry''),
           f_k8s_job_name = None, f_backoff = POD_BACKOFF\<rparr>) st
      | Some kind \<Rightarrow>
          (case body of
             Inr run \<Rightarrow> ignoring (finish_control now (run_skipped run) (run_outcome run) (Some (run_output run)) (run_counters run)
               (ti_id row) (cfg_epoch cfg)) st
           | Inl e \<Rightarrow> ignoring (fail_or_retry_task sha256 hashtext now (ti_id row) (control_failure e)) st))"

text \<open>One turn of the control loop, which ends when no row is claimable or the claim fails.\<close>

definition control_turn :: "(string \<Rightarrow> nat list) \<Rightarrow> (string \<Rightarrow> int) \<Rightarrow> executor_config \<Rightarrow> int \<Rightarrow> (task_instance list \<Rightarrow> string)
    \<Rightarrow> (task_instance \<Rightarrow> task_error + pod_task_run) \<Rightarrow> executor \<Rightarrow> executor option" where
  "control_turn sha256 hashtext cfg now pick body st =
     (case claim_control now pick (cfg_epoch cfg) (ex_db st) of
        Inl _ \<Rightarrow> None
      | Inr ([], _) \<Rightarrow> None
      | Inr (row # _, db) \<Rightarrow> Some (run_one_control sha256 hashtext cfg now (body row) row (st\<lparr>ex_db := db\<rparr>)))"

section \<open>The launcher\<close>

datatype create_result = Created | Quota string | AlreadyExists | RateLimited "nat option" | CreateFailed

text \<open>\<open>created\<close> is the API's answer to the create, \<open>None\<close> when the manifest does not render; \<open>get_api_job\<close> as above.\<close>

definition create_for :: "(string \<Rightarrow> nat list) \<Rightarrow> (string \<Rightarrow> int) \<Rightarrow> executor_config \<Rightarrow> int \<Rightarrow> create_result option \<Rightarrow> (string \<Rightarrow> job_snapshot option)
    \<Rightarrow> task_instance \<Rightarrow> executor \<Rightarrow> executor outcome" where
  "create_for sha256 hashtext cfg now created get_api_job row st =
     (case (ti_k8s_job_name row, parse_row_kind row (ex_db st)) of
        (Some jname, Some kind) \<Rightarrow>
          bind_outcome (dag_for sha256 kind) (\<lambda>d.
            case created of
              None \<Rightarrow> Ret st
            | Some result \<Rightarrow>
                let st = issue (CreateJob jname) st in
                Ret (case result of
                  Created \<Rightarrow> st\<lparr>ex_pending_since := bmap_insert jname now (ex_pending_since st)\<rparr>
                | Quota msg \<Rightarrow> wait_for_capacity now row jname ''quota'' msg st
                | AlreadyExists \<Rightarrow>
                    (case get_api_job jname of
                       Some found \<Rightarrow>
                         if map_of (job_annotations found) TASK_INSTANCE_ANNOTATION = Some (ti_id row)
                            \<and> map_of (job_annotations found) FINGERPRINT_ANNOTATION = Some (structural_fingerprint d)
                            \<and> \<not> job_deletion_timestamp found \<and> map_of (job_labels found) DONE_LABEL = None
                         then issue (PatchLabels JobObject jname [(OWNER_LABEL, Some (cfg_epoch cfg))]) st
                         else requeue sha256 hashtext now row jname ''foreign_job_name'' QUOTA_WAIT_SECS st
                     | None \<Rightarrow> requeue sha256 hashtext now row jname ''foreign_job_name'' QUOTA_WAIT_SECS st)
                | RateLimited secs \<Rightarrow>
                    requeue sha256 hashtext now row jname ''rate_limited''
                      (case secs of Some n \<Rightarrow> if n < 2 ^ 63 then int n else QUOTA_WAIT_SECS | None \<Rightarrow> QUOTA_WAIT_SECS) st
                | CreateFailed \<Rightarrow>
                    (case get_api_job jname of
                       Some _ \<Rightarrow> st
                     | None \<Rightarrow> requeue sha256 hashtext now row jname ''create_failed'' QUOTA_WAIT_SECS st)))
      | _ \<Rightarrow> Ret st)"

definition launch_turn :: "(string \<Rightarrow> nat list) \<Rightarrow> (string \<Rightarrow> int) \<Rightarrow> executor_config \<Rightarrow> int \<Rightarrow> (task_instance list \<Rightarrow> string) \<Rightarrow> string
    \<Rightarrow> create_result option \<Rightarrow> (string \<Rightarrow> job_snapshot option) \<Rightarrow> executor \<Rightarrow> executor option outcome" where
  "launch_turn sha256 hashtext cfg now pick token_hash created get_api_job st =
     (case claim_launch now pick (cfg_epoch cfg) None (Some token_hash) (cfg_in_flight_cap cfg) (ex_db st) of
        Inl _ \<Rightarrow> Ret None
      | Inr (None, _) \<Rightarrow> Ret None
      | Inr (Some row, db) \<Rightarrow>
          (let st = st\<lparr>ex_db := db\<rparr> in
           case hd_opt (retry_lineage (ti_id row) db) of
             Some f \<Rightarrow>
               if ti_state f = Queued \<and> ti_try_number f = ti_try_number row \<and> ti_owner_epoch f = Some (cfg_epoch cfg)
               then bind_outcome (create_for sha256 hashtext cfg now created get_api_job row st) (\<lambda>st. Ret (Some st))
               else Ret (Some st)
           | None \<Rightarrow> Ret (Some st)))"

end
