(* ===== verification/ExecutorLaws.thy ===== *)
theory ExecutorLaws
  imports Executor
begin

text \<open>
  Laws of the executor of theory \<open>Executor\<close>. Every handler keeps the ledger's invariant and moves attempts
  only along the life cycle (the contract \<open>ledger_statement\<close> of theory \<open>LedgerLaws\<close>, lifted to handlers); the
  step relation \<open>server_step\<close> collects the handlers with the statements the HTTP layer runs, and its runs
  inherit both. The readiness transaction is related to the pure pass of theory \<open>Readiness\<close>.
\<close>

section \<open>Handlers keep the contract\<close>

definition keeps :: "executor \<Rightarrow> executor \<Rightarrow> bool" where
  "keeps st st' \<longleftrightarrow> (ledger_inv (ex_db st) \<longrightarrow> ledger_inv (ex_db st') \<and> refines (ex_db st) (ex_db st'))"

named_theorems keeps_intros "handlers that keep the contract"

lemma keeps_refl [keeps_intros]: "keeps st st"
  by (simp add: keeps_def refines_refl)

lemma keeps_trans: "keeps a b \<Longrightarrow> keeps b c \<Longrightarrow> keeps a c"
  unfolding keeps_def using refines_trans by blast

lemma keeps_same_db: "ex_db st' = ex_db st \<Longrightarrow> keeps st st'"
  by (simp add: keeps_def refines_refl)

lemma keeps_after: "keeps st st' \<Longrightarrow> ex_db st'' = ex_db st' \<Longrightarrow> keeps st st''"
  by (simp add: keeps_def)

lemma keeps_before: "keeps st' st'' \<Longrightarrow> ex_db st' = ex_db st \<Longrightarrow> keeps st st''"
  by (simp add: keeps_def)

lemma keeps_stmt: "ledger_statement stmt \<Longrightarrow> stmt (ex_db st) = Inr (x, db) \<Longrightarrow> keeps st (st\<lparr>ex_db := db\<rparr>)"
  unfolding keeps_def using ledger_statement.contract by fastforce

lemma keeps_ignoring: "ledger_statement stmt \<Longrightarrow> keeps st (ignoring stmt st)"
  unfolding ignoring_def by (auto split: sum.splits intro: keeps_refl keeps_stmt)

text \<open>The Kubernetes writes and the clocks do not touch the ledger.\<close>

lemma ex_db_calls [simp]:
  "ex_db (issue c st) = ex_db st" "ex_db (api_delete j st) = ex_db st" "ex_db (revoke_and_delete j st) = ex_db st"
  "ex_db (tombstone j p st) = ex_db st" "ex_db (forget_pending j st) = ex_db st"
  by (simp_all add: issue_def api_delete_def revoke_and_delete_def tombstone_def forget_pending_def Let_def split: option.splits)

lemma keeps_tombstone: "keeps st st' \<Longrightarrow> keeps st (tombstone j p st')"
  by (simp add: keeps_def)

lemma keeps_issue: "keeps st st' \<Longrightarrow> keeps st (issue c st')"
  by (simp add: keeps_def)

lemma keeps_revoke: "keeps st (revoke_and_delete j st)"
  by (simp add: keeps_def refines_refl)

lemma keeps_ignoring_after: "ledger_statement stmt \<Longrightarrow> keeps st (ignoring stmt (tombstone j p st))"
  by (rule keeps_before, rule keeps_ignoring) simp_all

lemma pod_failure_contract:
  "s \<in> {Failed, task_state.TimedOut, Skipped} \<Longrightarrow>
   ledger_statement (fail_or_retry_task sha256 hashtext now i (pod_failure s r e ec tr cl dt j))"
  by (rule fail_or_retry_contract) (simp add: pod_failure_def)

lemma control_failure_contract: "ledger_statement (fail_or_retry_task sha256 hashtext now i (control_failure e))"
  by (rule fail_or_retry_contract) (cases e; simp add: control_failure_def)

lemma keeps_requeue [keeps_intros]: "keeps st (requeue sha256 hashtext now row j reason wait st)"
proof (cases "requeue_launch now wait (Some reason) (ti_id row) j (ex_db st)")
  case (Inr p)
  obtain rows db where p: "p = (rows, db)" by fastforce
  let ?st = "st\<lparr>ex_db := db\<rparr>"
  have 1: "keeps st ?st" using keeps_stmt [OF requeue_launch.ledger_statement_axioms] Inr p by blast
  have 2: "keeps ?st (ignoring (fail_or_retry_task sha256 hashtext now (ti_id row) (pod_failure Failed True False None
      (Some reason) (Some ''infrastructure'') (Some BUDGET_SPENT) j)) ?st)"
    by (rule keeps_ignoring, rule pod_failure_contract) simp
  show ?thesis
    using 1 keeps_trans [OF 1 2]
    by (cases rows) (auto simp: requeue_def Inr p Let_def split: option.splits intro: keeps_after)
qed (simp add: requeue_def keeps_same_db)

lemma keeps_wait_for_capacity [keeps_intros]: "keeps st (wait_for_capacity now row j reason det st)"
  unfolding wait_for_capacity_def
  by (rule keeps_after, rule keeps_before, rule keeps_ignoring, rule capacity_wait.ledger_statement_axioms) simp_all

lemma keeps_rotate_restarted [keeps_intros]: "keeps st (rotate_restarted sha256 cfg now ec reason i j st)"
proof (cases "archive_restarted now ec reason i (Some j) (ex_db st)")
  case (Inr p)
  obtain rows db where p: "p = (rows, db)" by fastforce
  have 1: "keeps st (st\<lparr>ex_db := db\<rparr>)" using keeps_stmt [OF archive_restarted.ledger_statement_axioms] Inr p by blast
  show ?thesis
    using 1 keeps_trans [OF 1 keeps_ignoring [OF insert_cleared_try.ledger_statement_axioms]]
    by (cases rows) (simp_all add: rotate_restarted_def Inr p)
qed (simp add: rotate_restarted_def keeps_refl)

lemma keeps_apply_record:
  "apply_record sha256 hashtext now kind row j record st = Ret st' \<Longrightarrow> keeps st st'"
  unfolding apply_record_def
  by (cases "rec_state record")
     (auto simp: Let_def intro!: keeps_refl keeps_ignoring pod_failure_contract finish.ledger_statement_axioms split: if_splits)

lemma keeps_apply_verdict:
  assumes "apply_verdict sha256 hashtext cfg now row j verdict st = Ret st'"
  shows "keeps st st'"
proof (cases verdict)
  case (ApplyRecord rcd)
  then obtain st1 where "apply_record sha256 hashtext now (parse_row_kind row (ex_db st)) row j rcd st = Ret st1"
      and "st' = tombstone j None st1" using assms by (auto simp: apply_verdict_def Let_def)
  then show ?thesis by (auto intro: keeps_after [OF keeps_apply_record])
next
  case (Requeue reason)
  then show ?thesis using assms keeps_before [OF keeps_requeue]
      by (auto simp: apply_verdict_def Let_def)
qed (use assms in \<open>auto simp: apply_verdict_def Let_def intro!: keeps_refl keeps_tombstone
      keeps_ignoring pod_failure_contract record_evidence.ledger_statement_axioms settle_canceled.ledger_statement_axioms keeps_rotate_restarted\<close>)

lemma keeps_apply_job: "apply_job sha256 hashtext from_str cfg now job st = Ret st' \<Longrightarrow> keeps st st'"
  unfolding apply_job_def
  by (auto split: if_splits option.splits intro: keeps_refl keeps_apply_verdict)

lemma keeps_apply_pod: "apply_pod sha256 hashtext from_str get_api_job cfg now pod deleted st = Ret st' \<Longrightarrow> keeps st st'"
  unfolding apply_pod_def
  by (auto simp: Let_def split: if_splits option.splits
      intro: keeps_refl keeps_same_db keeps_apply_verdict keeps_before [OF keeps_apply_verdict]
        keeps_after [OF keeps_ignoring [OF record_evidence.ledger_statement_axioms]]
        keeps_before [OF keeps_after [OF keeps_ignoring [OF record_evidence.ledger_statement_axioms]]])

subsection \<open>Resync and sweeps\<close>

lemma keeps_reconcile_row: "reconcile_row sha256 hashtext cfg now ls row st = Ret st' \<Longrightarrow> keeps st st'"
  unfolding reconcile_row_def
  by (auto split: option.splits task_state.splits prod.splits if_splits
      intro!: keeps_refl keeps_requeue keeps_rotate_restarted keeps_issue keeps_revoke keeps_ignoring keeps_ignoring_after
        settle_canceled.ledger_statement_axioms pod_failure_contract)

lemma keeps_reconcile_rows: "reconcile_rows sha256 hashtext cfg now ls rows st = Ret st' \<Longrightarrow> keeps st st'"
  by (induction rows arbitrary: st) (auto intro: keeps_refl keeps_trans dest: keeps_reconcile_row)

lemma ex_db_fold_tombstone:
  "ex_db (fold (\<lambda>j st. if P j then tombstone (f j) None st else st) js st) = ex_db st"
  by (induction js arbitrary: st) auto

lemma keeps_reconcile_jobs: "reconcile_jobs sha256 hashtext cfg now listed st = Ret st' \<Longrightarrow> keeps st st'"
  unfolding reconcile_jobs_def
  by (auto simp: Let_def ex_db_fold_tombstone split: option.splits intro: keeps_refl keeps_after [OF keeps_reconcile_rows])

lemma keeps_apply_frame:
  "apply_frame sha256 hashtext from_str get_api_job cfg now listed frame st = Ret st' \<Longrightarrow> keeps st st'"
  unfolding apply_frame_def
  by (cases frame) (auto dest: keeps_reconcile_jobs keeps_apply_pod keeps_apply_job)

lemma keeps_settle_swept: "keeps st (snd (settle_swept now rows st))"
proof (induction rows arbitrary: st)
  case (Cons row rows)
  show ?case
  proof (cases "ti_kind row = Control \<or> ti_k8s_job_name row = Some INPROC")
    case True
    then show ?thesis
      using Cons keeps_trans [OF keeps_stmt [OF settle_canceled.ledger_statement_axioms]]
      by (auto split: sum.splits intro: keeps_refl)
  next
    case False
    then show ?thesis using Cons keeps_before [OF Cons] by (auto split: option.splits)
  qed
qed (simp add: keeps_refl)

lemma keeps_cancel_one: "keeps st (snd (cancel_one now job st))"
proof (cases "cancel_pending now (jb_org_id job) (jb_id job) (ex_db st)")
  case (Inr p)
  obtain x db where p: "p = (x, db)" by fastforce
  have 1: "keeps st (st\<lparr>ex_db := db\<rparr>)" using keeps_stmt [OF cancel_pending.ledger_statement_axioms] Inr p by blast
  have 2: "keeps (st\<lparr>ex_db := db\<rparr>) (st\<lparr>ex_db := db2\<rparr>)" if "cancel_live now (jb_org_id job) (jb_id job) db = Inr (y, db2)" for y db2
    using keeps_stmt [OF cancel_live.ledger_statement_axioms, of now "jb_org_id job" "jb_id job" "st\<lparr>ex_db := db\<rparr>" y db2] that by simp
  show ?thesis
    using 1 keeps_trans [OF 1 keeps_trans [OF 2 keeps_settle_swept]]
    by (auto simp: cancel_one_def Inr p split: sum.splits)
qed (simp add: cancel_one_def keeps_refl)

lemma keeps_cancel_all: "keeps st (cancel_all now js st)"
proof (induction js arbitrary: st)
  case (Cons job js)
  obtain ok st1 where c: "cancel_one now job st = (ok, st1)" by fastforce
  then have "keeps st st1" using keeps_cancel_one [of st now job] by simp
  then show ?case using keeps_trans [OF _ Cons] c by simp
qed (simp add: keeps_refl)

lemma keeps_fold: "(\<And>x st. keeps st (f x st)) \<Longrightarrow> keeps st (fold f xs st)"
  by (induction xs arbitrary: st) (auto intro: keeps_refl keeps_trans)

lemma keeps_zombie_row: "keeps st (zombie_row now ls row st)"
proof -
  have "keeps st (case ti_pod_uid row of None \<Rightarrow> st
      | Some uid \<Rightarrow> ignoring (note_interruption now ''heartbeat_timeout'' None (ti_id row) uid) st)"
    by (auto split: option.splits intro: keeps_refl keeps_ignoring note_interruption.ledger_statement_axioms)
  then show ?thesis
    unfolding zombie_row_def Let_def by (auto split: option.splits intro: keeps_refl keeps_after)
qed

lemma keeps_zombie_sweep: "keeps st (zombie_sweep cfg now listed st)"
  unfolding zombie_sweep_def Let_def by (auto split: option.splits intro: keeps_refl keeps_fold keeps_zombie_row)

lemma keeps_stuck_row: "keeps st (stuck_row sha256 hashtext events now ls row st)"
proof (cases "ti_k8s_job_name row")
  case (Some j)
  have "keeps st (case v of PreWait \<Rightarrow> st
      | RequeueLaunch reason det \<Rightarrow> requeue sha256 hashtext now row j (f reason det) QUOTA_WAIT_SECS (api_delete j st)
      | CapacityWait reason det \<Rightarrow> wait_for_capacity now row j reason (g reason det) (api_delete j st))" for v f g
    using keeps_before [OF keeps_requeue, of "api_delete j st" st] keeps_before [OF keeps_wait_for_capacity, of "api_delete j st" st]
    by (cases v) (simp_all add: keeps_refl)
  then show ?thesis unfolding stuck_row_def Let_def Some option.case .
qed (simp add: stuck_row_def keeps_refl)

lemma keeps_stuck_pending_sweep: "keeps st (stuck_pending_sweep sha256 hashtext events now listed st)"
  unfolding stuck_pending_sweep_def Let_def by (auto split: option.splits intro: keeps_refl keeps_fold keeps_stuck_row)

subsection \<open>Readiness, planning, control, launches\<close>

definition propagated :: "task_state \<Rightarrow> bool" where
  "propagated s \<longleftrightarrow> s \<in> {UpstreamFailed, UpstreamSkipped, Canceled}"

definition pass_actions_ok :: "(nat \<times> pass_action) list \<Rightarrow> bool" where
  "pass_actions_ok acts \<longleftrightarrow> (\<forall>(i, a) \<in> set acts. case a of Schedule \<Rightarrow> True | PropagateTo s \<Rightarrow> propagated s)"

lemma pass_actions_ok_snoc [simp]:
  "pass_actions_ok (acts @ [(i, a)]) \<longleftrightarrow> pass_actions_ok acts \<and> (case a of Schedule \<Rightarrow> True | PropagateTo s \<Rightarrow> propagated s)"
  unfolding pass_actions_ok_def by (simp add: ball_Un conj_commute)

lemma evaluate_propagates: "evaluate rule up = Propagate s \<Longrightarrow> propagated s"
  by (auto simp: evaluate_def propagated_def Let_def split: if_splits trigger_rule.splits)

lemma pass_loop_actions_ok:
  "pass_loop ns i eff acc = Ret (eff', acts) \<Longrightarrow> pass_actions_ok acc \<Longrightarrow> pass_actions_ok acts"
proof (induction ns arbitrary: i eff acc)
  case (Cons n ns)
  show ?case
  proof (cases "eff ! i = NoneState")
    case True
    with Cons.prems obtain up where "lookup_all eff (n_upstream n) = Ret up" by auto
    then have run: "(case evaluate (n_trigger_rule n) up of
          Fire \<Rightarrow> pass_loop ns (Suc i) eff (acc @ [(i, Schedule)])
        | Propagate s \<Rightarrow> pass_loop ns (Suc i) (eff[i := s]) (acc @ [(i, PropagateTo s)])
        | Wait \<Rightarrow> pass_loop ns (Suc i) eff acc) = Ret (eff', acts)"
      using Cons.prems(1) True by simp
    show ?thesis
    proof (cases "evaluate (n_trigger_rule n) up")
      case Fire
      then show ?thesis using run Cons.prems(2) by (intro Cons.IH [of "Suc i" eff "acc @ [(i, Schedule)]"]) simp_all
    next
      case (Propagate s)
      then show ?thesis using run Cons.prems(2) evaluate_propagates [OF Propagate]
        by (intro Cons.IH [of "Suc i" "eff[i := s]" "acc @ [(i, PropagateTo s)]"]) simp_all
    next
      case Wait
      then show ?thesis using run Cons.prems(2) by (intro Cons.IH [of "Suc i" eff acc]) simp_all
    qed
  qed (use Cons in simp)
qed simp

lemma pass_ok: "pass d states = Ret acts \<Longrightarrow> pass_actions_ok acts"
  by (auto simp: pass_def pass_actions_ok_def split: if_splits dest!: pass_loop_actions_ok)

lemma record_actions_contract:
  assumes "ledger_inv db" "pass_actions_ok acts" "record_actions now d job cn live acts eff db = Inr (Some (eff', db'))"
  shows "ledger_inv db' \<and> refines db db'"
  using assms
proof (induction acts arbitrary: eff db)
  case Nil
  then show ?case by (simp add: refines_refl)
next
  case (Cons p acts)
  obtain idx a where p: "p = (idx, a)" by fastforce
  have ok: "pass_actions_ok acts" "case a of Schedule \<Rightarrow> True | PropagateTo s \<Rightarrow> propagated s"
    using Cons.prems(2) by (auto simp: pass_actions_ok_def p)
  show ?case
  proof (cases "map_of live (n_task_id (nodes d ! idx))")
    case None
    then show ?thesis using Cons ok by (simp add: p)
  next
    case (Some row)
    let ?stmt = "\<lambda>db. case a of Schedule \<Rightarrow> mark_scheduled now (compose_input d idx live job) (ti_id row) cn db
      | PropagateTo s \<Rightarrow> propagate now s (ti_id row) cn db"
    have stmt: "ledger_statement ?stmt"
      using ok(2) mark_scheduled.ledger_statement_axioms propagate_contract
      by (cases a) (auto simp: propagated_def)
    obtain x xs db1 where s: "?stmt db = Inr (x # xs, db1)"
      "record_actions now d job cn live acts (eff[idx := action_state a]) db1 = Inr (Some (eff', db'))"
      using Cons.prems(3) Some by (auto simp: p split: sum.splits list.splits)
    have 1: "ledger_inv db1 \<and> refines db db1" using ledger_statement.contract [OF stmt Cons.prems(1) s(1)] .
    then show ?thesis using Cons.IH [OF _ ok(1) s(2)] refines_trans by blast
  qed
qed

lemma settle_after_tasks: "tasks (snd (settle_after now d job live eff v db)) = tasks db"
  by (auto simp: settle_after_def settle_job_def update_jobs_def split: settle_verdict.splits prod.splits)

lemma readiness_tx_cases:
  assumes "readiness_tx now job d locked db = Ret (Inr (w, db'))"
  obtains "db' = db" | acts cn live eff db1 v where "pass d (states_of d live) = Ret acts"
    "record_actions now d job cn live acts (states_of d live) db = Inr (Some (eff, db1))"
    "db' = snd (settle_after now d job live eff v db1)"
proof -
  define live where "live = live_rows (jb_org_id job) (jb_id job) db"
  define cn where "cn = (case jb_clear_number locked of None \<Rightarrow> 0 | Some n \<Rightarrow> n)"
  obtain acts where acts: "pass d (states_of d live) = Ret acts"
    using assms by (auto simp: readiness_tx_def Let_def live_def)
  note run = assms [unfolded readiness_tx_def Let_def, folded live_def cn_def, unfolded acts bind_outcome.simps]
  show thesis
  proof (cases "record_actions now d job cn live acts (states_of d live) db")
    case (Inr o1)
    show ?thesis
    proof (cases o1)
      case None
      then show ?thesis using run Inr that(1) by simp
    next
      case (Some p)
      obtain eff db1 where p: "p = (eff, db1)" by fastforce
      then obtain v where "db' = snd (settle_after now d job live eff v db1)"
        using run Inr Some by (auto simp: case_prod_beta)
      then show ?thesis using that(2) [OF acts] Inr Some p by simp
    qed
  qed (use run in simp)
qed

lemma readiness_for_contract:
  assumes "ledger_inv db" "readiness_for sha256 now job db = Ret (Inr (w, db'))"
  shows "ledger_inv db' \<and> refines db db'"
proof -
  consider "db' = db" | d live acts cn eff db1 v where "pass d (states_of d live) = Ret acts"
    "record_actions now d job cn live acts (states_of d live) db = Inr (Some (eff, db1))"
    "db' = snd (settle_after now d job live eff v db1)"
  proof (cases "parse_job_kind (jb_kind job)")
    case None
    then show ?thesis using assms(2) that(1) by (simp add: readiness_for_def)
  next
    case (Some k)
    then obtain d where d: "dag_for sha256 k = Ret d" using dag_for_Ret by blast
    show ?thesis
    proof (cases "lock_job (jb_id job) db")
      case Nil
      then show ?thesis using assms(2) that(1) Some d by (simp add: readiness_for_def)
    next
      case (Cons locked rest)
      then have "readiness_tx now job d locked db = Ret (Inr (w, db'))" using assms(2) Some d by (simp add: readiness_for_def)
      then show ?thesis using that by (rule readiness_tx_cases)
    qed
  qed
  then show ?thesis
  proof cases
    case 1
    then show ?thesis using assms(1) by (simp add: refines_refl)
  next
    case 2
    have "ledger_inv db1 \<and> refines db db1" using record_actions_contract [OF assms(1) pass_ok [OF 2(1)] 2(2)] .
    moreover have "ledger_inv db1 \<Longrightarrow> ledger_inv db' \<and> refines db1 db'"
      by (rule same_tasks) (simp_all add: 2(3) settle_after_tasks)
    ultimately show ?thesis using refines_trans by blast
  qed
qed

lemma keeps_readiness_all: "readiness_all sha256 now js st = Ret st' \<Longrightarrow> keeps st st'"
proof (induction js arbitrary: st)
  case (Cons job js)
  then obtain r where r: "readiness_for sha256 now job (ex_db st) = Ret r"
    and rest: "readiness_all sha256 now js (case r of Inl _ \<Rightarrow> st | Inr (_, db) \<Rightarrow> st\<lparr>ex_db := db\<rparr>) = Ret st'" by auto
  have "keeps st (case r of Inl _ \<Rightarrow> st | Inr (_, db) \<Rightarrow> st\<lparr>ex_db := db\<rparr>)"
    using readiness_for_contract [of "ex_db st" sha256 now job] r
    by (auto simp: keeps_def refines_refl split: sum.splits)
  then show ?case using Cons.IH [OF rest] keeps_trans by blast
qed (simp add: keeps_refl)

lemma keeps_jobs_only: "tasks db = tasks (ex_db st) \<Longrightarrow> keeps st (st\<lparr>ex_db := db\<rparr>)"
  unfolding keeps_def using same_tasks by auto

lemma keeps_adopt_all: "keeps st (adopt_all cfg now st)"
  unfolding adopt_all_def
  by (rule keeps_trans [OF keeps_jobs_only keeps_ignoring [OF adopt.ledger_statement_axioms]])
     (simp add: adopt_jobs_def update_jobs_def)

lemma refuse_plan_tasks: "tasks (snd (refuse_plan now i c dt db)) = tasks db"
  by (auto simp: refuse_plan_def refuse_plan_job_def update_jobs_def split: list.splits)

lemma keeps_plan:
  assumes "plan sha256 now job d e i (ex_db st) = Ret r"
  shows "keeps st (case r of Inl _ \<Rightarrow> st | Inr (_, db) \<Rightarrow> st\<lparr>ex_db := db\<rparr>)"
  using assms plan_contract [of "ex_db st" sha256 now job d e i] unfolding keeps_def
  by (auto simp: refines_refl split: sum.splits)

lemma keeps_plan_claimed: "plan_claimed sha256 cfg now job st = Ret st' \<Longrightarrow> keeps st st'"
  unfolding plan_claimed_def
  by (auto split: option.splits if_splits intro!: keeps_jobs_only simp: refuse_plan_tasks dest!: keeps_plan)

lemma keeps_run_one_control: "keeps st (run_one_control sha256 hashtext cfg now body row st)"
  unfolding run_one_control_def
  by (auto split: option.splits sum.splits
      intro!: keeps_ignoring finish_control.ledger_statement_axioms control_failure_contract fail_or_retry_contract)

lemma keeps_control_turn: "control_turn sha256 hashtext cfg now pick body st = Some st' \<Longrightarrow> keeps st st'"
  unfolding control_turn_def
  by (auto split: sum.splits list.splits
      intro!: keeps_trans [OF keeps_stmt [OF claim_control.ledger_statement_axioms] keeps_run_one_control])

lemma keeps_create_for:
  assumes "create_for sha256 hashtext cfg now created get_api_job row st = Ret st'"
  shows "keeps st st'"
proof (cases "ti_k8s_job_name row = None \<or> parse_row_kind row (ex_db st) = None \<or> created = None")
  case True
  then have "st' = st" using assms by (auto simp: create_for_def dag_for_Ret split: option.splits)
  then show ?thesis by (simp add: keeps_refl)
next
  case False
  then obtain j kind result where c: "ti_k8s_job_name row = Some j" "parse_row_kind row (ex_db st) = Some kind" "created = Some result"
    by auto
  let ?st = "issue (CreateJob j) st"
  have step: "keeps st x" if "keeps ?st x" for x using that by (rule keeps_before) simp
  have rq: "keeps st (requeue sha256 hashtext now row j reason wait ?st)" for reason wait by (rule step, rule keeps_requeue)
  have issued: "keeps st ?st" "keeps st (issue call ?st)" for call by (simp_all add: keeps_same_db)
  show ?thesis
    using assms c rq issued step [OF keeps_wait_for_capacity]
    by (cases result; cases "get_api_job j") (auto simp: create_for_def dag_for_Ret Let_def keeps_same_db split: if_splits)
qed

lemma keeps_launch_turn:
  assumes "launch_turn sha256 hashtext cfg now pick h created get_api_job st = Ret (Some st')"
  shows "keeps st st'"
proof -
  obtain row db where c: "claim_launch now pick (cfg_epoch cfg) None (Some h) (cfg_in_flight_cap cfg) (ex_db st) = Inr (Some row, db)"
    using assms by (auto simp: launch_turn_def split: sum.splits option.splits)
  have 1: "keeps st (st\<lparr>ex_db := db\<rparr>)" using keeps_stmt [OF claim_launch.ledger_statement_axioms c] .
  have "keeps (st\<lparr>ex_db := db\<rparr>) st'"
    using assms c by (auto simp: launch_turn_def Let_def keeps_refl split: option.splits if_splits dest: keeps_create_for)
  then show ?thesis using 1 keeps_trans by blast
qed

section \<open>Runs of the server\<close>

text \<open>One step of the server: a scheduler pass or a watch frame of the executor, a report of a pod or an operator's
  request through the HTTP layer, a move of the in-process reporter, or a change of the job queue alone.\<close>

inductive server_step :: "(string \<Rightarrow> nat list) \<Rightarrow> (string \<Rightarrow> int) \<Rightarrow> (string \<Rightarrow> terminal_record option) \<Rightarrow> executor \<Rightarrow> executor \<Rightarrow> bool"
  for sha256 hashtext from_str where
  frame: "apply_frame sha256 hashtext from_str get_api_job cfg now listed frame st = Ret st' \<Longrightarrow> server_step sha256 hashtext from_str st st'"
| cancel: "server_step sha256 hashtext from_str st (cancel_sweep cfg now st)"
| zombie: "server_step sha256 hashtext from_str st (zombie_sweep cfg now listed st)"
| stuck: "server_step sha256 hashtext from_str st (stuck_pending_sweep sha256 hashtext events now listed st)"
| readiness: "readiness_pass sha256 cfg now st = Ret st' \<Longrightarrow> server_step sha256 hashtext from_str st st'"
| adoption: "server_step sha256 hashtext from_str st (adopt_all cfg now st)"
| planning: "plan_claimed sha256 cfg now job st = Ret st' \<Longrightarrow> server_step sha256 hashtext from_str st st'"
| control: "control_turn sha256 hashtext cfg now pick body st = Some st' \<Longrightarrow> server_step sha256 hashtext from_str st st'"
| launch: "launch_turn sha256 hashtext cfg now pick h created get_api_job st = Ret (Some st') \<Longrightarrow> server_step sha256 hashtext from_str st st'"
| claim: "claim_launch now pick epoch k h cap (ex_db st) = Inr (x, db) \<Longrightarrow> server_step sha256 hashtext from_str st (st\<lparr>ex_db := db\<rparr>)"
| started: "start now pn pu nn img i k (ex_db st) = Inr (x, db) \<Longrightarrow> server_step sha256 hashtext from_str st (st\<lparr>ex_db := db\<rparr>)"
| beat: "heartbeat now counters i pu (ex_db st) = Inr (x, db) \<Longrightarrow> server_step sha256 hashtext from_str st (st\<lparr>ex_db := db\<rparr>)"
| interrupted: "note_interruption now tr counters i pu (ex_db st) = Inr (x, db) \<Longrightarrow> server_step sha256 hashtext from_str st (st\<lparr>ex_db := db\<rparr>)"
| reported: "finish_and_advance now i pu skipped oc out snaps counters ec nxt (ex_db st) = Inr (x, db) \<Longrightarrow>
    server_step sha256 hashtext from_str st (st\<lparr>ex_db := db\<rparr>)"
| reported_failure: "f_terminal_state failure \<in> {Failed, task_state.TimedOut, Skipped} \<Longrightarrow>
    fail_or_retry_task sha256 hashtext now i failure (ex_db st) = Inr (y, db) \<Longrightarrow>
    server_step sha256 hashtext from_str st (st\<lparr>ex_db := db\<rparr>)"
| unreported: "propagated s \<Longrightarrow> propagate now s i cn (ex_db st) = Inr (x, db) \<Longrightarrow> server_step sha256 hashtext from_str st (st\<lparr>ex_db := db\<rparr>)"
| cleared: "clear sha256 now org_id job_id task_ids retries resource_class image_digest (ex_db st) = Inr (z, db) \<Longrightarrow>
    server_step sha256 hashtext from_str st (st\<lparr>ex_db := db\<rparr>)"
| queue: "tasks db = tasks (ex_db st) \<Longrightarrow> server_step sha256 hashtext from_str st (st\<lparr>ex_db := db\<rparr>)"

lemma keeps_step: "server_step sha256 hashtext from_str st st' \<Longrightarrow> keeps st st'"
proof (induction rule: server_step.induct)
  case (cleared now org_id job_id task_ids retries resource_class image_digest st z db)
  then show ?case unfolding keeps_def using clear_contract by fastforce
qed (auto simp: cancel_sweep_def readiness_pass_def propagated_def
     intro: keeps_apply_frame keeps_cancel_all keeps_zombie_sweep keeps_stuck_pending_sweep keeps_readiness_all keeps_adopt_all
       keeps_plan_claimed keeps_control_turn keeps_launch_turn keeps_jobs_only keeps_stmt
       claim_launch.ledger_statement_axioms start.ledger_statement_axioms heartbeat.ledger_statement_axioms
       note_interruption.ledger_statement_axioms finish_and_advance.ledger_statement_axioms fail_or_retry_contract propagate_contract)

lemma keeps_run: "(server_step sha256 hashtext from_str)\<^sup>*\<^sup>* st st' \<Longrightarrow> keeps st st'"
  by (induction rule: rtranclp_induct) (auto intro: keeps_refl keeps_trans dest: keeps_step)

lemma ledger_inv_empty: "tasks db = [] \<Longrightarrow> ledger_inv db"
  by (simp add: ledger_inv_def unique_ok_def history_def)

section \<open>Properties\<close>

definition sample_cfg :: executor_config where
  "sample_cfg = \<lparr>cfg_dag_kinds = [''lake_migrate''], cfg_in_flight_cap = 1, cfg_image_digest = None, cfg_epoch = ''e1''\<rparr>"

definition queued_job :: job where
  "queued_job = \<lparr>jb_id = ''j1'', jb_org_id = ''o1'', jb_dataset_id = None, jb_kind = ''lake_migrate'', jb_params = JNull,
     jb_state = Dispatching, jb_priority = 0, jb_idempotency_key = None, jb_run_id = None, jb_attempt = 1, jb_max_attempts = 3,
     jb_error_class = None, jb_error_detail = None, jb_not_before = None, jb_created_by = None, jb_schedule_id = None,
     jb_resource_class = None, jb_trace_context = None, jb_structural_fingerprint = None, jb_policy_hash = None,
     jb_image_digest = None, jb_clear_number = None, jb_owner_epoch = None, jb_created_at = 0, jb_updated_at = 0,
     jb_started_at = None, jb_finished_at = None\<rparr>"

definition fresh_server :: executor where
  "fresh_server = \<lparr>ex_db = \<lparr>tasks = [], jobs = [queued_job]\<rparr>, ex_pending_since = [], ex_calls = []\<rparr>"

definition planned_server :: executor where
  "planned_server = (case plan_claimed (\<lambda>s. [7]) sample_cfg 5 queued_job fresh_server of Ret st \<Rightarrow> st | Panic \<Rightarrow> fresh_server)"

lemma planned_server_rows: "map (\<lambda>r. (ti_job_id r, ti_task_id r, ti_try_number r, ti_state r, ti_live r)) (tasks (ex_db planned_server))
    = [(''j1'', ''reconcile_schema'', 1, NoneState, True)]"
  by code_simp

lemma planned_step: "server_step (\<lambda>s. [7]) (\<lambda>s. 3) (\<lambda>s. None) fresh_server planned_server"
proof -
  have "plan_claimed (\<lambda>s. [7]) sample_cfg 5 queued_job fresh_server \<noteq> Panic" by code_simp
  then have "plan_claimed (\<lambda>s. [7]) sample_cfg 5 queued_job fresh_server = Ret planned_server"
    by (simp add: planned_server_def split: outcome.splits)
  then show ?thesis by (rule server_step.planning)
qed

text \<open>C1: whatever the server does, in any order, the ledger stays sound. From an empty task table every row a run reaches is
  live exactly while it is not archived and archived only in a terminal state; its launches stay within its launch budget,
  with one to spare while it waits to be launched; a retry is only ever granted within the try budget; every earlier try of
  the task is still there, archived; a task has one live row, and a dataset (or an organization without one) one pod.\<close>

theorem runs_keep_the_ledger_sound:
  assumes "(server_step sha256 hashtext from_str)\<^sup>*\<^sup>* st st'" and "tasks (ex_db st) = []" and "r \<in> set (tasks (ex_db st'))"
  shows "(ti_live r \<longleftrightarrow> ti_archived_reason r = None) \<and> (\<not> ti_live r \<longrightarrow> is_terminal (ti_state r))
    \<and> 0 \<le> ti_launches r \<and> ti_launches r \<le> ti_max_launches r
    \<and> (ti_state r \<in> {NoneState, Scheduled, UpForRetry} \<longrightarrow> ti_launches r < ti_max_launches r)
    \<and> (ti_archived_reason r = Some RetryReason \<longrightarrow> ti_try_number r \<le> ti_max_tries r)
    \<and> (\<forall>m. 1 \<le> m \<and> m < ti_try_number r \<longrightarrow> (\<exists>p \<in> set (tasks (ex_db st')). coordinate p = coordinate r \<and> ti_try_number p = m \<and> \<not> ti_live p))
    \<and> (\<forall>q \<in> set (tasks (ex_db st')). ti_live r \<and> ti_live q \<and> coordinate q = coordinate r \<longrightarrow> q = r)
    \<and> (\<forall>q \<in> set (tasks (ex_db st')). holds_pod r \<and> holds_pod q \<and> ti_dataset_id q = ti_dataset_id r \<and> ti_org_id q = ti_org_id r \<longrightarrow> q = r)"
proof -
  have inv: "ledger_inv (ex_db st')"
    using keeps_run [OF assms(1)] ledger_inv_empty [OF assms(2)] by (simp add: keeps_def)
  have "row_inv r" using ledger_inv_rows [OF inv assms(3)] .
  then show ?thesis
    using history_below [OF inv assms(3)] one_live_row [OF inv _ assms(3)] one_pod [OF inv _ assms(3)]
    unfolding row_inv_def by (intro conjI) blast+
qed

theorem runs_keep_the_ledger_sound_witness:
  "\<exists>r \<in> set (tasks (ex_db planned_server)). ti_live r \<and> ti_archived_reason r = None \<and> ti_launches r < ti_max_launches r"
proof -
  obtain r where r: "r \<in> set (tasks (ex_db planned_server))" "ti_live r" "ti_state r = NoneState"
    using planned_server_rows by (cases "tasks (ex_db planned_server)") auto
  have "tasks (ex_db fresh_server) = []" by (simp add: fresh_server_def)
  note runs_keep_the_ledger_sound [OF r_into_rtranclp [of "server_step (\<lambda>s. [7]) (\<lambda>s. 3) (\<lambda>s. None)", OF planned_step] this r(1)]
  then show ?thesis using r by (intro bexI [OF _ r(1)]) simp
qed

text \<open>C2: the ledger refines the life cycle of an attempt. Along any run an attempt, identified by job, task and try number, never
  disappears; it is born \<open>none\<close> or \<open>up_for_retry\<close> and then only moves along the edges of the life cycle, is archived only
  in a terminal state, and never changes once archived.\<close>

theorem runs_refine_life_cycle:
  assumes "(server_step sha256 hashtext from_str)\<^sup>*\<^sup>* st st'" and "ledger_inv (ex_db st)"
  shows "life_opt (attempt (ex_db st) k) (attempt (ex_db st') k)"
  using keeps_run [OF assms(1)] assms(2) unfolding keeps_def refines_def by blast

theorem runs_refine_life_cycle_witness:
  "life_opt None (attempt (ex_db planned_server) (''j1'', ''reconcile_schema'', 1))
     \<and> attempt (ex_db planned_server) (''j1'', ''reconcile_schema'', 1) = Some (NoneState, True)"
proof
  have "ledger_inv (ex_db fresh_server)" by (rule ledger_inv_empty) (simp add: fresh_server_def)
  moreover have "attempt (ex_db fresh_server) (''j1'', ''reconcile_schema'', 1) = None"
    by (simp add: attempt_def fresh_server_def)
  ultimately show "life_opt None (attempt (ex_db planned_server) (''j1'', ''reconcile_schema'', 1))"
    using runs_refine_life_cycle [OF r_into_rtranclp [of "server_step (\<lambda>s. [7]) (\<lambda>s. 3) (\<lambda>s. None)", OF planned_step],
        of "(''j1'', ''reconcile_schema'', 1)"] by simp
  show "attempt (ex_db planned_server) (''j1'', ''reconcile_schema'', 1) = Some (NoneState, True)"
    using planned_server_rows by (cases "tasks (ex_db planned_server)") (auto simp: attempt_def key_of_def)
qed

text \<open>C5: a verdict is final. Once an attempt is in a terminal state, no later step of the server changes that state or brings an
  archived attempt back to life: a late report, a repeated watch frame or a crash between two statements cannot rewrite it.\<close>

theorem verdicts_are_final:
  assumes "(server_step sha256 hashtext from_str)\<^sup>*\<^sup>* st st'" and "ledger_inv (ex_db st)"
    and "attempt (ex_db st) k = Some (s, l)" and "is_terminal s"
  shows "\<exists>l'. attempt (ex_db st') k = Some (s, l') \<and> (\<not> l \<longrightarrow> \<not> l')"
proof -
  have "life_opt (Some (s, l)) (attempt (ex_db st') k)"
    using keeps_run [OF assms(1)] assms(2,3) unfolding keeps_def refines_def by metis
  then obtain b where b: "attempt (ex_db st') k = Some b" "life\<^sup>*\<^sup>* (s, l) b"
    by (cases "attempt (ex_db st') k") auto
  then have "fst b = s" "\<not> l \<longrightarrow> \<not> snd b" using terminal_stuck_star [OF b(2)] assms(4) by simp_all
  then show ?thesis using b(1) by (cases b) simp
qed

definition canceled_server :: executor where
  "canceled_server = planned_server\<lparr>ex_db := (ex_db planned_server)\<lparr>tasks :=
     map (\<lambda>r. r\<lparr>ti_state := Canceled, ti_finished_at := Some 6\<rparr>) (tasks (ex_db planned_server))\<rparr>\<rparr>"

theorem verdicts_are_final_witness:
  "\<exists>l. attempt (ex_db (cancel_sweep sample_cfg 9 canceled_server)) (''j1'', ''reconcile_schema'', 1) = Some (Canceled, l)"
proof -
  have "list_all row_inv (tasks (ex_db canceled_server))" "list_all row_checks (tasks (ex_db canceled_server))"
    "unique_ok (tasks (ex_db canceled_server))" by code_simp+
  moreover have "history (tasks (ex_db canceled_server))"
    using planned_server_rows by (cases "tasks (ex_db planned_server)") (auto simp: history_def canceled_server_def)
  ultimately have inv: "ledger_inv (ex_db canceled_server)" by (simp add: ledger_inv_def)
  have a: "attempt (ex_db canceled_server) (''j1'', ''reconcile_schema'', 1) = Some (Canceled, True)"
    using planned_server_rows by (cases "tasks (ex_db planned_server)") (auto simp: attempt_def key_of_def canceled_server_def)
  have "(server_step (\<lambda>s. [7]) (\<lambda>s. 3) (\<lambda>s. None))\<^sup>*\<^sup>* canceled_server (cancel_sweep sample_cfg 9 canceled_server)"
    by (rule r_into_rtranclp, rule server_step.cancel)
  from verdicts_are_final [OF this inv a] show ?thesis by (auto simp: is_terminal_def)
qed

end
