(* ===== verification/RetryLaws.thy ===== *)
theory RetryLaws
  imports LedgerLaws
begin

text \<open>
  What the transactions of theory \<open>TaskLedger\<close> do, exactly: when their statements pass the table's constraints,
  the retry decision with its back-off window, the launch claim against its two limits, and the identity of the attempt ids
  computed in SQL and in Rust.
\<close>

section \<open>When an update passes the constraints\<close>

text \<open>A change that keeps the identifying columns and takes up no new live slot or pod slot cannot violate a constraint.\<close>

definition tame :: "task_instance \<Rightarrow> task_instance \<Rightarrow> bool" where
  "tame r r' \<longleftrightarrow> row_checks r' \<and> ti_id r' = ti_id r \<and> coordinate r' = coordinate r \<and> ti_try_number r' = ti_try_number r
     \<and> ti_org_id r' = ti_org_id r \<and> ti_dataset_id r' = ti_dataset_id r \<and> (ti_live r' \<longrightarrow> ti_live r) \<and> (holds_pod r' \<longrightarrow> holds_pod r)"

lemma distinct_filter_shrink:
  assumes "distinct (map g (filter P xs))"
    and "\<And>x. x \<in> set xs \<Longrightarrow> Q (f x) \<Longrightarrow> P x" and "\<And>x. x \<in> set xs \<Longrightarrow> g (f x) = g x"
  shows "distinct (map g (filter Q (map f xs)))"
  using assms
proof (induction xs)
  case (Cons x xs)
  have "g ` set (filter Q (map f xs)) \<subseteq> g ` set (filter P xs)"
    using Cons.prems(2,3) by force
  with Cons show ?case by (auto split: if_splits)
qed simp

lemma unique_ok_map:
  assumes "unique_ok rows" and "\<And>r. r \<in> set rows \<Longrightarrow> tame r (f r)"
  shows "unique_ok (map f rows)"
proof -
  have [simp]: "map (ti_id \<circ> f) rows = map ti_id rows"
    "map ((\<lambda>r. (ti_job_id r, ti_task_id r, ti_try_number r)) \<circ> f) rows = map (\<lambda>r. (ti_job_id r, ti_task_id r, ti_try_number r)) rows"
    using assms(2) by (auto simp: tame_def)
  have "distinct (map coordinate (filter ti_live (map f rows)))"
    by (rule distinct_filter_shrink [of coordinate ti_live]) (use assms in \<open>auto simp: unique_ok_def tame_def\<close>)
  moreover have "distinct (map ti_dataset_id (filter (\<lambda>r. holds_pod r \<and> ti_dataset_id r \<noteq> None) (map f rows)))"
    by (rule distinct_filter_shrink [of ti_dataset_id "\<lambda>r. holds_pod r \<and> ti_dataset_id r \<noteq> None"]) (use assms in \<open>auto simp: unique_ok_def tame_def\<close>)
  moreover have "distinct (map ti_org_id (filter (\<lambda>r. holds_pod r \<and> ti_dataset_id r = None) (map f rows)))"
    by (rule distinct_filter_shrink [of ti_org_id "\<lambda>r. holds_pod r \<and> ti_dataset_id r = None"]) (use assms in \<open>auto simp: unique_ok_def tame_def\<close>)
  ultimately show ?thesis using assms(1) unfolding unique_ok_def by simp
qed

lemma tame_refl: "row_checks r \<Longrightarrow> tame r r"
  by (simp add: tame_def)

lemma update_passes:
  assumes "ledger_inv db" and "\<And>r. r \<in> set (tasks db) \<Longrightarrow> guard r \<Longrightarrow> tame r (change r)"
  shows "update_tasks guard change db = Inr (map change (filter guard (tasks db)),
    db\<lparr>tasks := map (\<lambda>r. if guard r then change r else r) (tasks db)\<rparr>)"
proof -
  let ?f = "\<lambda>r. if guard r then change r else r"
  have tame: "tame r (?f r)" if "r \<in> set (tasks db)" for r
    using assms that tame_refl by (simp add: ledger_inv_def list_all_iff)
  have "row_checks (?f r)" if "r \<in> set (tasks db)" for r using tame [OF that] unfolding tame_def by blast
  then have "list_all row_checks (map ?f (tasks db))" unfolding list_all_iff set_map by (intro ballI, elim imageE) (simp only:)
  moreover have "unique_ok (map ?f (tasks db))" using assms(1) tame by (intro unique_ok_map) (simp_all add: ledger_inv_def)
  ultimately show ?thesis by (simp add: update_tasks_def store_def)
qed

lemma filter_by_id:
  "distinct (map ti_id rows) \<Longrightarrow> r \<in> set rows \<Longrightarrow> P r \<Longrightarrow> filter (\<lambda>x. ti_id x = ti_id r \<and> P x) rows = [r]"
proof (induction rows)
  case (Cons a rows)
  show ?case
  proof (cases "a = r")
    case True
    then have "\<forall>x \<in> set rows. ti_id x \<noteq> ti_id r" using Cons.prems(1) by (metis distinct.simps(2) image_eqI list.simps(9) set_map)
    then show ?thesis using True Cons.prems(3) by (simp add: filter_empty_conv)
  next
    case False
    then have "r \<in> set rows" using Cons.prems(2) by simp
    moreover have "ti_id a \<noteq> ti_id r" using Cons.prems(1) \<open>r \<in> set rows\<close> by auto
    ultimately show ?thesis using Cons by simp
  qed
qed simp

lemma update_one:
  assumes inv: "ledger_inv db" and r: "r \<in> set (tasks db)" "P r" "tame r (change r)"
  shows "update_tasks (\<lambda>x. ti_id x = ti_id r \<and> P x) change db
    = Inr ([change r], db\<lparr>tasks := map (\<lambda>x. if x = r then change r else x) (tasks db)\<rparr>)"
proof -
  let ?g = "\<lambda>x. ti_id x = ti_id r \<and> P x"
  have ids: "distinct (map ti_id (tasks db))" using inv by (simp add: ledger_inv_def unique_ok_def)
  have only: "?g x \<longleftrightarrow> x = r" if "x \<in> set (tasks db)" for x
  proof
    assume "?g x"
    then show "x = r" using inj_onD [OF distinct_map [THEN iffD1, OF ids, THEN conjunct2], of x r] that r(1) by simp
  qed (use r(2) in simp)
  have "map (\<lambda>x. if ?g x then change x else x) (tasks db) = map (\<lambda>x. if x = r then change r else x) (tasks db)"
  proof (rule map_cong [OF refl])
    fix x assume x: "x \<in> set (tasks db)"
    show "(if ?g x then change x else x) = (if x = r then change r else x)"
      unfolding only [OF x] by (rule if_cong) simp_all
  qed
  moreover have "tame x (change x)" if "x \<in> set (tasks db)" "?g x" for x using only [OF that(1)] that(2) r(3) by blast
  ultimately show ?thesis
    using update_passes [OF inv, of ?g change] filter_by_id [of "tasks db" r P, OF ids r(1,2)] by simp
qed

lemma unique_ok_snoc:
  assumes "unique_ok rows" "ti_id s \<notin> ti_id ` set rows" "\<And>r. r \<in> set rows \<Longrightarrow> coordinate r = coordinate s \<Longrightarrow> ti_try_number r \<noteq> ti_try_number s"
    "\<And>r. r \<in> set rows \<Longrightarrow> coordinate r = coordinate s \<Longrightarrow> \<not> ti_live r" "\<not> holds_pod s"
  shows "unique_ok (rows @ [s])"
proof -
  have "(ti_job_id s, ti_task_id s, ti_try_number s) \<notin> (\<lambda>r. (ti_job_id r, ti_task_id r, ti_try_number r)) ` set rows"
    using assms(3) unfolding image_iff prod.inject by metis
  moreover have "coordinate s \<notin> coordinate ` set (filter ti_live rows)" using assms(4) by fastforce
  ultimately show ?thesis using assms(1,2,5) unfolding unique_ok_def by simp
qed

section \<open>The retry transaction\<close>

text \<open>The row \<open>archive_try\<close> writes.\<close>

definition failed_row :: "int \<Rightarrow> task_failure \<Rightarrow> task_instance \<Rightarrow> task_instance" where
  "failed_row now failure r = r\<lparr>ti_state := f_terminal_state failure, ti_live := \<not> retry_granted (f_retryable failure) r,
     ti_archived_reason := (if retry_granted (f_retryable failure) r then Some RetryReason else ti_archived_reason r),
     ti_exit_code := f_exit_code failure, ti_termination_reason := f_termination_reason failure,
     ti_error_class := f_error_class failure, ti_error_detail := map_option (take_chars 2000) (f_error_detail failure),
     ti_finished_at := Some now, ti_updated_at := now\<rparr>"

definition may_fail :: "ledger \<Rightarrow> task_failure \<Rightarrow> task_instance \<Rightarrow> bool" where
  "may_fail db failure r \<longleftrightarrow> r \<in> set (tasks db) \<and> ti_live r \<and> ti_state r \<in> {Queued, Running}
     \<and> ti_k8s_job_name r = f_k8s_job_name failure \<and> job_open_for db r
     \<and> f_terminal_state failure \<in> {Failed, TimedOut, Skipped}
     \<and> (case f_error_class failure of None \<Rightarrow> True | Some c \<Rightarrow> c \<in> set ERROR_CLASSES)"

lemma ledger_inv_ids: "ledger_inv db \<Longrightarrow> distinct (map ti_id (tasks db))"
  by (simp add: ledger_inv_def unique_ok_def)

lemma ledger_inv_checks: "ledger_inv db \<Longrightarrow> r \<in> set (tasks db) \<Longrightarrow> row_checks r"
  by (simp add: ledger_inv_def list_all_iff)

lemma tame_failed_row:
  assumes "ledger_inv db" "may_fail db failure r"
  shows "tame r (failed_row now failure r)"
proof -
  have "row_checks r" using assms ledger_inv_checks by (simp add: may_fail_def)
  moreover have "\<not> holds_pod (failed_row now failure r)"
    using assms(2) by (auto simp: may_fail_def failed_row_def holds_pod_def)
  ultimately show ?thesis using assms(2) by (simp add: tame_def failed_row_def may_fail_def row_checks_def)
qed

lemma archive_try_result:
  assumes inv: "ledger_inv db" and may: "may_fail db failure r"
  shows "archive_try now (f_terminal_state failure) (f_retryable failure) (f_exit_code failure) (f_termination_reason failure)
      (f_error_class failure) (map_option (take_chars 2000) (f_error_detail failure)) (ti_id r) (f_k8s_job_name failure) db
    = Inr ([failed_row now failure r], db\<lparr>tasks := map (\<lambda>x. if x = r then failed_row now failure r else x) (tasks db)\<rparr>)"
  using update_one [OF inv, of r "\<lambda>x. ti_live x \<and> ti_state x \<in> {Queued, Running} \<and> ti_k8s_job_name x = f_k8s_job_name failure
      \<and> job_open_for db x" "failed_row now failure"] tame_failed_row [OF inv may] may
  unfolding may_fail_def archive_try_def failed_row_def by simp

lemma same_key_same_row:
  assumes "ledger_inv db" "a \<in> set (tasks db)" "b \<in> set (tasks db)" "coordinate a = coordinate b" "ti_try_number a = ti_try_number b"
  shows "a = b"
proof -
  have "inj_on (\<lambda>r. (ti_job_id r, ti_task_id r, ti_try_number r)) (set (tasks db))"
    using assms(1) by (simp add: ledger_inv_def unique_ok_def distinct_map)
  then show ?thesis by (rule inj_onD) (use assms in simp_all)
qed

text \<open>The live try is the last one.\<close>

lemma no_later_try:
  assumes inv: "ledger_inv db" and r: "r \<in> set (tasks db)" "ti_live r" and x: "x \<in> set (tasks db)" "coordinate x = coordinate r"
  shows "ti_try_number x \<noteq> ti_try_number r + 1"
proof
  assume e: "ti_try_number x = ti_try_number r + 1"
  moreover have "1 \<le> ti_try_number r" using ledger_inv_rows [OF inv r(1)] by (simp add: row_inv_def)
  ultimately have "ti_try_number r < ti_try_number x" by simp
  then obtain p where "p \<in> set (tasks db)" "coordinate p = coordinate x" "ti_try_number p = ti_try_number r" "\<not> ti_live p"
    using history_below [OF inv x(1) \<open>1 \<le> ti_try_number r\<close>] by blast
  then show False using same_key_same_row [OF inv _ r(1), of p] x(2) r(2) by simp
qed

definition retry_row :: "(string \<Rightarrow> nat list) \<Rightarrow> (string \<Rightarrow> int) \<Rightarrow> int \<Rightarrow> task_failure \<Rightarrow> task_instance \<Rightarrow> task_instance" where
  "retry_row sha256 hashtext now failure r = (successor_of sha256 now r)\<lparr>ti_state := UpForRetry,
     ti_segment := (if f_escalate failure then None else ti_segment r),
     ti_resource_class := escalate_class (f_escalate failure) (ti_resource_class r),
     ti_escalated_from := (if f_escalate failure then ti_resource_class r else None),
     ti_max_tries := ti_max_tries r,
     ti_not_before := Some (now + retry_delay hashtext (snd (f_backoff failure)) (fst (f_backoff failure)) r),
     ti_input := ti_input r, ti_image_digest := ti_image_digest r\<rparr>"

lemmas new_row_columns = retry_row_def successor_of_def blank_row_def failed_row_def

lemma insert_retry_step:
  fixes now failure r
  defines "f \<equiv> \<lambda>x. if x = r then failed_row now failure r else x"
  assumes inv: "ledger_inv db" and may: "may_fail db failure r" and granted: "retry_granted (f_retryable failure) r"
  shows "insert_retry_try sha256 hashtext now (f_escalate failure) (snd (f_backoff failure)) (fst (f_backoff failure)) (ti_id r) (db\<lparr>tasks := map f (tasks db)\<rparr>)
    = insert_tasks [retry_row sha256 hashtext now failure (failed_row now failure r)] (db\<lparr>tasks := map f (tasks db)\<rparr>)"
proof -
  let ?r = "failed_row now failure r" and ?db = "db\<lparr>tasks := map f (tasks db)\<rparr>"
  have r: "r \<in> set (tasks db)" "ti_live r" using may by (simp_all add: may_fail_def)
  have "ledger_inv ?db"
    using ledger_statement.contract [OF archive_try_contract inv archive_try_result [OF inv may]] may
    by (simp add: may_fail_def f_def)
  then have ids: "distinct (map ti_id (map f (tasks db)))" using ledger_inv_ids by fastforce
  have mem: "?r \<in> set (map f (tasks db))" using r(1) by (force simp: f_def)
  have "\<not> ti_live (f x)" if "x \<in> set (tasks db)" "coordinate (f x) = coordinate ?r" for x
    using that one_live_row [OF inv that(1) r(1)] r(2) granted by (auto simp: f_def failed_row_def split: if_splits)
  then have "no_live ?db ?r" by (simp add: no_live_def list_all_iff)
  then have "filter (\<lambda>x. ti_id x = ti_id ?r \<and> (\<not> ti_live x \<and> ti_archived_reason x = Some RetryReason \<and> no_live ?db x)) (map f (tasks db)) = [?r]"
    using granted by (intro filter_by_id [OF ids mem]) (simp add: failed_row_def)
  moreover have "ti_id ?r = ti_id r" by (simp add: failed_row_def)
  ultimately show ?thesis unfolding insert_retry_try_def retry_row_def by simp
qed

lemma insert_retry_store:
  fixes now failure r sha256 hashtext
  defines "f \<equiv> \<lambda>x. if x = r then failed_row now failure r else x"
    and "s \<equiv> retry_row sha256 hashtext now failure (failed_row now failure r)"
  assumes inv: "ledger_inv db" and may: "may_fail db failure r" and granted: "retry_granted (f_retryable failure) r"
    and new_id: "sql_attempt_id sha256 (ti_job_id r) (ti_task_id r) (ti_try_number r + 1) \<notin> ti_id ` set (tasks db)"
  shows "insert_tasks [s] (db\<lparr>tasks := map f (tasks db)\<rparr>) =
    (if f_escalate failure \<and> ti_resource_class r = Some ClassL then Inl CheckViolation
     else Inr ([s], db\<lparr>tasks := map f (tasks db) @ [s]\<rparr>))"
proof -
  let ?r = "failed_row now failure r"
  have r: "r \<in> set (tasks db)" "ti_live r" using may by (simp_all add: may_fail_def)
  have "ledger_inv (db\<lparr>tasks := map f (tasks db)\<rparr>)"
    using ledger_statement.contract [OF archive_try_contract inv archive_try_result [OF inv may]] may
    by (simp add: may_fail_def f_def)
  then have ok: "list_all row_checks (map f (tasks db))" "unique_ok (map f (tasks db))" by (simp_all add: ledger_inv_def)
  have f: "ti_id (f x) = ti_id x \<and> coordinate (f x) = coordinate x \<and> ti_try_number (f x) = ti_try_number x" for x
    by (simp add: f_def failed_row_def)
  have s: "coordinate s = coordinate r" "ti_try_number s = ti_try_number r + 1" "\<not> holds_pod s"
    "ti_id s = sql_attempt_id sha256 (ti_job_id r) (ti_task_id r) (ti_try_number r + 1)"
    by (simp_all add: s_def new_row_columns holds_pod_def)
  have checks: "row_checks s \<longleftrightarrow> \<not> (f_escalate failure \<and> ti_resource_class r = Some ClassL)"
    by (simp add: s_def new_row_columns row_checks_def)
  have "unique_ok (map f (tasks db) @ [s])"
  proof (rule unique_ok_snoc [OF ok(2)])
    show "ti_id s \<notin> ti_id ` set (map f (tasks db))" using new_id f by (auto simp: s)
    fix x assume x: "x \<in> set (map f (tasks db))" "coordinate x = coordinate s"
    then obtain y where y: "y \<in> set (tasks db)" "x = f y" by auto
    have c: "coordinate y = coordinate r" using x(2) y(2) f s(1) by simp
    show "ti_try_number x \<noteq> ti_try_number s" using no_later_try [OF inv r y(1) c] f y(2) s(2) by simp
    show "\<not> ti_live x"
      using one_live_row [OF inv y(1) r(1) _ r(2) c] granted y(2) by (auto simp: f_def failed_row_def)
  qed (rule s(3))
  then show ?thesis using ok(1) checks by (simp add: insert_tasks_def store_def)
qed

lemma fail_or_retry_result:
  fixes now failure r sha256 hashtext
  defines "f \<equiv> \<lambda>x. if x = r then failed_row now failure r else x"
    and "s \<equiv> retry_row sha256 hashtext now failure (failed_row now failure r)"
  assumes inv: "ledger_inv db" and may: "may_fail db failure r"
    and new_id: "sql_attempt_id sha256 (ti_job_id r) (ti_task_id r) (ti_try_number r + 1) \<notin> ti_id ` set (tasks db)"
  shows "fail_or_retry_task sha256 hashtext now (ti_id r) failure db =
    (if \<not> retry_granted (f_retryable failure) r
     then Inr ((Some (failed_row now failure r), None), db\<lparr>tasks := map f (tasks db)\<rparr>)
     else if f_escalate failure \<and> ti_resource_class r = Some ClassL then Inl CheckViolation
     else Inr ((Some (failed_row now failure r), Some s), db\<lparr>tasks := map f (tasks db) @ [s]\<rparr>))"
proof (cases "retry_granted (f_retryable failure) r")
  case True
  have "\<not> ti_live (failed_row now failure r)" using True by (simp add: failed_row_def)
  then show ?thesis
    using True insert_retry_step [OF inv may True, of sha256 hashtext now] insert_retry_store [OF inv may True new_id, of hashtext now]
    by (simp add: fail_or_retry_task_def archive_try_result [OF inv may] seq_tx_def f_def s_def)
next
  case False
  have "ti_live (failed_row now failure r)" using False by (simp add: failed_row_def)
  then show ?thesis using False
    by (simp add: fail_or_retry_task_def archive_try_result [OF inv may] seq_tx_def f_def)
qed

lemma backoff_positive: "0 < cap \<Longrightarrow> 0 < base \<Longrightarrow> 0 < backoff_secs cap base t"
  by (simp add: backoff_secs_def)

lemma retry_delay_window:
  assumes "0 < cap" "0 < base"
  shows "backoff_secs cap base (ti_try_number r) \<le> retry_delay hashtext cap base r
    \<and> retry_delay hashtext cap base r < 2 * backoff_secs cap base (ti_try_number r)"
  using backoff_positive [OF assms, of "ti_try_number r"] by (simp add: retry_delay_def)

section \<open>The launch claim\<close>

definition in_flight :: "ledger \<Rightarrow> nat" where
  "in_flight db = length (filter (\<lambda>c. ti_live c \<and> ti_kind c = Pod \<and> ti_state c \<in> {Queued, Running} \<and> ti_k8s_job_name c \<noteq> Some INPROC) (tasks db))"

definition launched_row :: "int \<Rightarrow> string \<Rightarrow> string option \<Rightarrow> string option \<Rightarrow> task_instance \<Rightarrow> task_instance" where
  "launched_row now epoch k h r = r\<lparr>ti_state := Queued, ti_queued_at := Some now, ti_owner_epoch := Some epoch, ti_launches := ti_launches r + 1,
     ti_k8s_job_name := coalesce k (Some (launch_name r)), ti_token_hash := h, ti_updated_at := now\<rparr>"

lemma claim_launch_Some:
  assumes inv: "ledger_inv db" and c: "claim_launch now pick epoch k h cap db = Inr (Some row, db')"
  shows "\<exists>t \<in> set (tasks db). launchable now cap db t \<and> row = launched_row now epoch k h t
    \<and> db' = db\<lparr>tasks := map (\<lambda>x. if x = t then row else x) (tasks db)\<rparr>"
proof -
  define cs where "cs = filter (launchable now cap db) (tasks db)"
  let ?g = "\<lambda>r. cs \<noteq> [] \<and> ti_id r = pick cs \<and> r \<in> set cs" and ?c = "launched_row now epoch k h"
  obtain rows where u: "update_tasks ?g ?c db = Inr (rows, db')" and hd: "\<exists>rest. rows = row # rest"
    using c unfolding claim_launch_def claim_launch_sql_def Let_def cs_def [symmetric] launched_row_def
    by (auto split: sum.splits sql_error.splits list.splits)
  have st: "rows = map ?c (filter ?g (tasks db))" "db' = db\<lparr>tasks := map (\<lambda>r. if ?g r then ?c r else r) (tasks db)\<rparr>"
    using storeD [OF u [unfolded update_tasks_def]] by blast+
  obtain t where t: "t \<in> set (filter ?g (tasks db))" "row = ?c t" using hd st(1) by (cases "filter ?g (tasks db)") auto
  have only: "?g x \<longleftrightarrow> x = t" if "x \<in> set (tasks db)" for x
  proof
    assume "?g x"
    moreover have "ti_id t = pick cs" using t(1) by simp
    ultimately show "x = t" using inj_onD [OF distinct_map [THEN iffD1, OF ledger_inv_ids [OF inv], THEN conjunct2], of x t] that t(1) by simp
  qed (use t(1) in simp)
  have "map (\<lambda>r. if ?g r then ?c r else r) (tasks db) = map (\<lambda>x. if x = t then row else x) (tasks db)"
  proof (rule map_cong [OF refl])
    fix x assume x: "x \<in> set (tasks db)"
    show "(if ?g x then ?c x else x) = (if x = t then row else x)" unfolding only [OF x] using t(2) by simp
  qed
  then show ?thesis using t st(2) by (intro bexI [of _ t]) (auto simp: cs_def)
qed

lemma length_filter_change_one:
  "distinct xs \<Longrightarrow> length (filter P (map (\<lambda>x. if x = t then y else x) xs)) \<le> length (filter P xs) + 1"
proof (induction xs)
  case (Cons a xs)
  have "map (\<lambda>x. if x = t then y else x) xs = xs" if "t \<notin> set xs" using that by (intro map_idI) auto
  then show ?case using Cons by (cases "a = t") (simp_all del: filter_map)
qed simp

lemma ledger_inv_distinct: "ledger_inv db \<Longrightarrow> distinct (tasks db)"
  using ledger_inv_ids distinct_map by blast

section \<open>Properties\<close>

definition sample_row :: task_instance where
  "sample_row = (blank_row 0)\<lparr>ti_id := ''a1'', ti_org_id := ''o1'', ti_job_id := ''j1'', ti_task_id := ''match'', ti_try_number := 1,
     ti_state := Running, ti_resource_class := Some ClassS, ti_max_tries := 2, ti_launches := 1, ti_k8s_job_name := Some ''er-t-a1-l1''\<rparr>"

definition running_job :: job where
  "running_job = \<lparr>jb_id = ''j1'', jb_org_id = ''o1'', jb_dataset_id = None, jb_kind = ''run_all_full'', jb_params = JNull,
     jb_state = JobRunning, jb_priority = 0, jb_idempotency_key = None, jb_run_id = None, jb_attempt = 1, jb_max_attempts = 3,
     jb_error_class = None, jb_error_detail = None, jb_not_before = None, jb_created_by = None, jb_schedule_id = None,
     jb_resource_class = None, jb_trace_context = None, jb_structural_fingerprint = None, jb_policy_hash = None,
     jb_image_digest = None, jb_clear_number = None, jb_owner_epoch = None, jb_created_at = 0, jb_updated_at = 0,
     jb_started_at = None, jb_finished_at = None\<rparr>"

definition sample_failure :: task_failure where
  "sample_failure = \<lparr>f_terminal_state = Failed, f_retryable = True, f_escalate = True, f_exit_code = None,
     f_termination_reason = Some ''OOMKilled'', f_error_class = Some ''resources'', f_error_detail = None,
     f_k8s_job_name = Some ''er-t-a1-l1'', f_backoff = POD_BACKOFF\<rparr>"

abbreviation ledger_with :: "task_instance \<Rightarrow> ledger" where
  "ledger_with r \<equiv> \<lparr>tasks = [r], jobs = [running_job]\<rparr>"

lemma sample_ledger: "ledger_inv (ledger_with (sample_row\<lparr>ti_resource_class := c\<rparr>))"
  "may_fail (ledger_with (sample_row\<lparr>ti_resource_class := c\<rparr>)) sample_failure (sample_row\<lparr>ti_resource_class := c\<rparr>)"
  by (simp_all add: ledger_inv_def row_inv_def row_checks_def unique_ok_def history_def holds_pod_def sample_row_def blank_row_def
      may_fail_def sample_failure_def job_open_for_def find_job_def running_job_def ERROR_CLASSES_def)



text \<open>Escalating an attempt that already runs in the largest class aborts the whole transaction: the insert would record
  the class it escalated from, which the table's check admits only for the two smaller classes, so the failed attempt
  stays live and unrecorded.\<close>

lemma escalation_from_L_aborts:
  assumes "ledger_inv db" and "may_fail db failure r"
    and "sql_attempt_id sha256 (ti_job_id r) (ti_task_id r) (ti_try_number r + 1) \<notin> ti_id ` set (tasks db)"
    and "f_escalate failure" and "f_retryable failure" and "ti_try_number r \<le> ti_max_tries r" and "ti_resource_class r = Some ClassL"
  shows "fail_or_retry_task sha256 hashtext now (ti_id r) failure db = Inl CheckViolation"
  using fail_or_retry_result [OF assms(1-3), of hashtext now] assms(4-7) by (simp add: retry_granted_def)

lemma escalation_from_L_aborts_witness:
  "fail_or_retry_task (\<lambda>s. [7]) (\<lambda>s. -5) 100 ''a1'' sample_failure (ledger_with (sample_row\<lparr>ti_resource_class := Some ClassL\<rparr>)) = Inl CheckViolation"
proof -
  let ?r = "sample_row\<lparr>ti_resource_class := Some ClassL\<rparr>"
  have "sql_attempt_id (\<lambda>s. [7]) (ti_job_id ?r) (ti_task_id ?r) (ti_try_number ?r + 1) \<notin> ti_id ` set (tasks (ledger_with ?r))" by code_simp
  from escalation_from_L_aborts [OF sample_ledger(1) [of "Some ClassL"] sample_ledger(2) [of "Some ClassL"] this, of "\<lambda>s. -5" 100]
  show ?thesis by (simp add: sample_row_def sample_failure_def blank_row_def)
qed

text \<open>C7: a launch respects its limits. The attempt \<open>claim_launch\<close> hands out was live, due and of an open job; no other pod of its
  organization was claimed; it is charged one launch, within its launch budget, and the pods in flight never exceed the
  configured cap.\<close>

theorem claim_launch_within_limits:
  assumes "ledger_inv db" and "claim_launch now pick epoch k h cap db = Inr (Some row, db')"
  shows "\<exists>t \<in> set (tasks db). ti_id row = ti_id t \<and> ti_state row = Queued \<and> ti_launches row = ti_launches t + 1 \<and> ti_launches row \<le> ti_max_launches row
    \<and> ti_live t \<and> ti_kind t = Pod \<and> ti_state t \<in> {Scheduled, UpForRetry}
    \<and> (case ti_not_before t of None \<Rightarrow> True | Some due \<Rightarrow> due \<le> now) \<and> job_open_for db t
    \<and> (\<forall>a \<in> set (tasks db). holds_pod a \<longrightarrow> ti_org_id a \<noteq> ti_org_id t)
    \<and> int (in_flight db) < cap \<and> int (in_flight db') \<le> cap"
proof -
  obtain t where t: "t \<in> set (tasks db)" "launchable now cap db t" "row = launched_row now epoch k h t"
    "db' = db\<lparr>tasks := map (\<lambda>x. if x = t then row else x) (tasks db)\<rparr>"
    using claim_launch_Some [OF assms] by blast
  have "ti_launches t < ti_max_launches t"
    using ledger_inv_rows [OF assms(1) t(1)] launchable_pending [OF t(2)] by (auto simp: row_inv_def)
  moreover have "int (in_flight db) < cap" using t(2) by (simp add: launchable_def in_flight_def)
  moreover have "in_flight db' \<le> in_flight db + 1"
    unfolding in_flight_def t(4) using length_filter_change_one [OF ledger_inv_distinct [OF assms(1)]] by simp
  ultimately show ?thesis using t(2,3) by (intro bexI [OF _ t(1)]) (auto simp: launched_row_def launchable_def claimable_def list_all_iff)
qed

definition due_row :: task_instance where
  "due_row = sample_row\<lparr>ti_state := UpForRetry, ti_try_number := 1, ti_launches := 0, ti_k8s_job_name := None, ti_not_before := Some 90\<rparr>"

theorem claim_launch_within_limits_witness:
  "\<exists>row db'. claim_launch 100 (\<lambda>_. ''a1'') ''e1'' None None 1 (ledger_with due_row) = Inr (Some row, db')
     \<and> ti_state row = Queued \<and> ti_launches row = 1 \<and> in_flight db' \<le> 1"
proof -
  have inv: "ledger_inv (ledger_with due_row)"
    by (simp add: ledger_inv_def row_inv_def row_checks_def unique_ok_def history_def holds_pod_def sample_row_def blank_row_def due_row_def)
  have "case claim_launch 100 (\<lambda>_. ''a1'') ''e1'' None None 1 (ledger_with due_row) of Inr (Some _, _) \<Rightarrow> True | _ \<Rightarrow> False" by code_simp
  then obtain row db' where c: "claim_launch 100 (\<lambda>_. ''a1'') ''e1'' None None 1 (ledger_with due_row) = Inr (Some row, db')"
    by (auto split: sum.splits option.splits prod.splits)
  show ?thesis using claim_launch_within_limits [OF inv c] c by (auto simp: due_row_def sample_row_def)
qed

text \<open>The two computations of an attempt's id agree: the digest the insert statements take in SQL is \<open>attempt_id\<close> of the
  same job, task and try, so a successor written by the database carries the id the server derives for it.\<close>

lemma sql_attempt_id_agrees: "sql_attempt_id sha256 job_id task_id n = attempt_id sha256 job_id task_id n"
  by (simp add: sql_attempt_id_def attempt_id_def natural_id_def natural_id_preimage_def)

end
