(* ===== verification/Scheduler.thy ===== *)
theory Scheduler
  imports ExecutorLaws RetryLaws
begin

text \<open>
  The readiness transaction of the executor implements the pure pass of theory \<open>Readiness\<close> on the stored rows: it always
  commits, leaves the live rows in the states the pass computes, and settles the job from them.
\<close>

section \<open>The live rows of a job\<close>

lemma set_by_job: "set (by_job org_id job_id db) = {r \<in> set (tasks db). ti_org_id r = org_id \<and> ti_job_id r = job_id}"
  by (auto simp: by_job_def)

lemma live_rows_get:
  assumes "ledger_inv db"
  shows "map_of (live_rows org_id job_id db) task = Some r \<longleftrightarrow>
    r \<in> set (tasks db) \<and> ti_org_id r = org_id \<and> ti_job_id r = job_id \<and> ti_task_id r = task \<and> ti_live r"
proof -
  let ?rows = "filter ti_live (by_job org_id job_id db)"
  have "inj_on ti_task_id (set ?rows)"
    by (rule inj_onI) (use one_live_row [OF assms] in \<open>auto simp: set_by_job\<close>)
  moreover have "distinct ?rows" using ledger_inv_distinct [OF assms] by (simp add: by_job_def)
  ultimately have d: "distinct (map fst (map (\<lambda>r. (ti_task_id r, r)) ?rows))" by (simp add: comp_def distinct_map)
  show ?thesis
    unfolding live_rows_def bmap_get_collect_distinct [OF d] map_of_eq_Some_iff [OF d] by (auto simp: set_by_job)
qed

abbreviation live_states :: "dag \<Rightarrow> job \<Rightarrow> ledger \<Rightarrow> task_state list" where
  "live_states d job db \<equiv> states_of d (live_rows (jb_org_id job) (jb_id job) db)"

lemma option_ext: "(\<And>x. a = Some x \<longleftrightarrow> b = Some x) \<Longrightarrow> a = b"
  by (cases a; cases b) auto

text \<open>Rewriting the live row of one node changes that node's state and no other.\<close>

lemma live_rows_update:
  assumes inv: "ledger_inv db" "ledger_inv (db\<lparr>tasks := map (\<lambda>x. if x = r then r' else x) (tasks db)\<rparr>)"
    and r: "map_of (live_rows org_id job_id db) task = Some r"
    and r': "ti_live r'" "ti_org_id r' = ti_org_id r" "coordinate r' = coordinate r"
  shows "map_of (live_rows org_id job_id (db\<lparr>tasks := map (\<lambda>x. if x = r then r' else x) (tasks db)\<rparr>))
    = (map_of (live_rows org_id job_id db))(task \<mapsto> r')"
proof
  fix t
  let ?db = "db\<lparr>tasks := map (\<lambda>x. if x = r then r' else x) (tasks db)\<rparr>"
  have mem: "r \<in> set (tasks db)" "ti_org_id r = org_id" "coordinate r = (job_id, task)" "ti_live r"
    using r live_rows_get [OF inv(1)] by auto
  have "map_of (live_rows org_id job_id ?db) t = Some x \<longleftrightarrow> ((map_of (live_rows org_id job_id db))(task \<mapsto> r')) t = Some x" for x
  proof (cases "t = task")
    case True
    have "x = r'" if "x \<in> set (tasks ?db)" "coordinate x = (job_id, task)" "ti_live x"
      using that one_live_row [OF inv(1), of x r] mem r' by (auto split: if_splits)
    moreover have "r' \<in> set (tasks ?db)" using mem(1) by force
    ultimately show ?thesis using True mem r' by (auto simp: live_rows_get [OF inv(2)])
  next
    case False
    have "x \<in> set (tasks ?db) \<longleftrightarrow> x \<in> set (tasks db)" if "ti_task_id x = t" for x
    proof -
      have ne: "x \<noteq> r" "x \<noteq> r'" using that False mem(3) r'(3) by auto
      have "tasks ?db = map (\<lambda>x. if x = r then r' else x) (tasks db)" by simp
      then have "x \<in> set (tasks ?db) \<longleftrightarrow> (\<exists>y \<in> set (tasks db). x = (if y = r then r' else y))" by (simp only: set_map image_iff)
      also have "\<dots> \<longleftrightarrow> (\<exists>y \<in> set (tasks db). x = y)" using ne by (metis (full_types))
      finally show ?thesis by blast
    qed
    then have "map_of (live_rows org_id job_id ?db) t = Some x \<longleftrightarrow> map_of (live_rows org_id job_id db) t = Some x"
      unfolding live_rows_get [OF inv(1)] live_rows_get [OF inv(2)] by blast
    then show ?thesis using False by simp
  qed
  then show "map_of (live_rows org_id job_id ?db) t = ((map_of (live_rows org_id job_id db))(task \<mapsto> r')) t"
    by (rule option_ext)
qed

lemma states_of_update:
  assumes "distinct (map n_task_id (nodes d))" "idx < length (nodes d)"
    "map_of live' = (map_of live)(n_task_id (nodes d ! idx) \<mapsto> r')"
  shows "states_of d live' = (states_of d live)[idx := ti_state r']"
proof (rule nth_equalityI)
  fix i assume "i < length (states_of d live')"
  then have i: "i < length (nodes d)" by (simp add: states_of_def)
  have "n_task_id (nodes d ! i) = n_task_id (nodes d ! idx) \<longleftrightarrow> i = idx"
    using nth_eq_iff_index_eq [OF assms(1), of i idx] i assms(2) by simp
  then show "states_of d live' ! i = (states_of d live)[idx := ti_state r'] ! i"
    using i assms(2,3) by (auto simp: states_of_def nth_list_update)
qed (simp add: states_of_def)

section \<open>Recording a pass\<close>

text \<open>What the pass found: the rows it acts on are the live \<open>none\<close> rows of the job.\<close>

definition recordable :: "dag \<Rightarrow> job \<Rightarrow> (string, task_instance) bmap \<Rightarrow> (nat \<times> pass_action) list \<Rightarrow> ledger \<Rightarrow> bool" where
  "recordable d job live acts db \<longleftrightarrow> distinct (map fst acts) \<and> pass_actions_ok acts
     \<and> (\<forall>i \<in> fst ` set acts. i < length (nodes d) \<and> (\<exists>r. map_of live (n_task_id (nodes d ! i)) = Some r
          \<and> map_of (live_rows (jb_org_id job) (jb_id job) db) (n_task_id (nodes d ! i)) = Some r \<and> ti_state r = NoneState))"

definition action_row :: "int \<Rightarrow> json \<Rightarrow> pass_action \<Rightarrow> task_instance \<Rightarrow> task_instance" where
  "action_row now input a r =
     (case a of
        Schedule \<Rightarrow> r\<lparr>ti_state := Scheduled, ti_scheduled_at := Some now, ti_input := Some input, ti_updated_at := now\<rparr>
      | PropagateTo s \<Rightarrow> r\<lparr>ti_state := s, ti_finished_at := Some now, ti_updated_at := now\<rparr>)"

lemma action_row_columns [simp]:
  "ti_state (action_row now input a r) = action_state a" "ti_live (action_row now input a r) = ti_live r"
  "ti_org_id (action_row now input a r) = ti_org_id r" "ti_job_id (action_row now input a r) = ti_job_id r"
  "ti_task_id (action_row now input a r) = ti_task_id r"
  by (cases a; simp add: action_row_def)+

lemma tame_action_row:
  assumes "row_checks r" "case a of Schedule \<Rightarrow> True | PropagateTo s \<Rightarrow> propagated s"
  shows "tame r (action_row now input a r)"
  using assms by (cases a) (auto simp: tame_def action_row_def row_checks_def holds_pod_def propagated_def)

lemma action_statement:
  assumes inv: "ledger_inv db" and r: "r \<in> set (tasks db)" "ti_live r" "ti_state r = NoneState" "clear_number_is db cn r"
    and ok: "case a of Schedule \<Rightarrow> True | PropagateTo s \<Rightarrow> propagated s"
  shows "(case a of Schedule \<Rightarrow> mark_scheduled now input (ti_id r) cn db | PropagateTo s \<Rightarrow> propagate now s (ti_id r) cn db)
    = Inr ([action_row now input a r], db\<lparr>tasks := map (\<lambda>x. if x = r then action_row now input a r else x) (tasks db)\<rparr>)"
proof -
  have "update_tasks (\<lambda>x. ti_id x = ti_id r \<and> (ti_live x \<and> ti_state x = NoneState \<and> clear_number_is db cn x)) (action_row now input a) db
    = Inr ([action_row now input a r], db\<lparr>tasks := map (\<lambda>x. if x = r then action_row now input a r else x) (tasks db)\<rparr>)"
    using r tame_action_row [OF ledger_inv_checks [OF inv r(1)] ok] by (intro update_one [OF inv]) simp_all
  moreover have "action_row now input Schedule = (\<lambda>r. r\<lparr>ti_state := Scheduled, ti_scheduled_at := Some now, ti_input := Some input, ti_updated_at := now\<rparr>)"
    "action_row now input (PropagateTo s) = (\<lambda>r. r\<lparr>ti_state := s, ti_finished_at := Some now, ti_updated_at := now\<rparr>)" for s
    by (simp_all add: fun_eq_iff action_row_def)
  ultimately show ?thesis by (cases a) (simp_all only: mark_scheduled_def propagate_def pass_action.case)
qed

lemma record_actions_result:
  assumes "distinct (map n_task_id (nodes d))" and "ledger_inv db" and "recordable d job live acts db"
    and "\<And>r. ti_job_id r = jb_id job \<Longrightarrow> clear_number_is db cn r"
  shows "\<exists>db'. record_actions now d job cn live acts (live_states d job db) db = Inr (Some (live_states d job db', db'))
    \<and> live_states d job db' = apply_actions (live_states d job db) acts \<and> jobs db' = jobs db"
  using assms(2-4)
proof (induction acts arbitrary: db)
  case Nil
  then show ?case by (simp add: apply_actions_def)
next
  case (Cons p acts)
  obtain i a where p: "p = (i, a)" by fastforce
  from Cons.prems(2) obtain r where i: "i < length (nodes d)" "i \<notin> fst ` set acts"
    and r: "map_of live (n_task_id (nodes d ! i)) = Some r" "ti_state r = NoneState"
      "map_of (live_rows (jb_org_id job) (jb_id job) db) (n_task_id (nodes d ! i)) = Some r"
    and a: "case a of Schedule \<Rightarrow> True | PropagateTo s \<Rightarrow> propagated s"
    by (auto simp: recordable_def p pass_actions_ok_def)
  have mem: "r \<in> set (tasks db)" "ti_live r" "ti_job_id r = jb_id job"
    using r(3) live_rows_get [OF Cons.prems(1)] by auto
  let ?r' = "action_row now (compose_input d i live job) a r"
  let ?db = "db\<lparr>tasks := map (\<lambda>x. if x = r then ?r' else x) (tasks db)\<rparr>"
  let ?stmt = "\<lambda>db. case a of Schedule \<Rightarrow> mark_scheduled now (compose_input d i live job) (ti_id r) cn db
    | PropagateTo s \<Rightarrow> propagate now s (ti_id r) cn db"
  have stmt: "?stmt db = Inr ([?r'], ?db)"
    by (rule action_statement [OF Cons.prems(1) mem(1,2) r(2) Cons.prems(3) [OF mem(3)] a])
  have "ledger_statement ?stmt"
    using a mark_scheduled.ledger_statement_axioms propagate_contract by (cases a) (auto simp: propagated_def)
  from ledger_statement.contract [OF this Cons.prems(1) stmt] have inv: "ledger_inv ?db" by blast
  have live': "map_of (live_rows (jb_org_id job) (jb_id job) ?db)
      = (map_of (live_rows (jb_org_id job) (jb_id job) db))(n_task_id (nodes d ! i) \<mapsto> ?r')"
    by (rule live_rows_update [OF Cons.prems(1) inv r(3)]) (simp_all add: mem)
  have states: "live_states d job ?db = (live_states d job db)[i := action_state a]"
    using states_of_update [OF assms(1) i(1) live'] by simp
  have other: "n_task_id (nodes d ! j) \<noteq> n_task_id (nodes d ! i)" if "j \<in> fst ` set acts" "j < length (nodes d)" for j
    using nth_eq_iff_index_eq [OF assms(1), of j i] i that by auto
  have "recordable d job live acts ?db"
    using Cons.prems(2) other unfolding recordable_def live' by (auto simp: p pass_actions_ok_def)
  moreover have "clear_number_is ?db cn x = clear_number_is db cn x" for x
    by (simp add: clear_number_is_def find_job_def)
  ultimately obtain db' where "record_actions now d job cn live acts (live_states d job ?db) ?db = Inr (Some (live_states d job db', db'))"
    "live_states d job db' = apply_actions (live_states d job ?db) acts" "jobs db' = jobs ?db"
    using Cons.IH [OF inv] Cons.prems(3) by blast
  then show ?case using r(1) stmt by (intro exI [of _ db']) (simp add: p states apply_actions_def)
qed

section \<open>Settling\<close>

lemma find_hd_filter: "find P xs = hd_opt (filter P xs)"
  by (induction xs) (simp_all add: hd_opt_def)

lemma lock_job_find: "find_job db i = Some j \<Longrightarrow> \<exists>rest. lock_job i db = j # rest"
  by (auto simp: find_job_def find_hd_filter lock_job_def hd_opt_def split: list.splits)

lemma find_job_update:
  assumes "\<And>j. jb_id (change j) = jb_id j"
  shows "find_job (snd (update_jobs guard change db)) i = map_option (\<lambda>j. if guard j then change j else j) (find_job db i)"
proof -
  have "find (\<lambda>j. jb_id j = i) (map (\<lambda>j. if guard j then change j else j) js)
      = map_option (\<lambda>j. if guard j then change j else j) (find (\<lambda>j. jb_id j = i) js)" for js
    by (induction js) (auto simp: assms)
  then show ?thesis by (simp add: find_job_def update_jobs_def)
qed

lemma live_states_tasks: "tasks db' = tasks db \<Longrightarrow> live_states d job db' = live_states d job db"
  by (simp add: live_rows_def by_job_def)

lemma settle_after_job:
  assumes "find_job db (jb_id job) = Some locked" and "\<And>i. v \<noteq> Deadlock i"
  shows "\<exists>j. find_job (snd (settle_after now d job live eff v db)) (jb_id job) = Some j
    \<and> (case v of Settled s \<Rightarrow> if jb_state locked \<in> {JobRunning, JobCanceling} then jb_state j = settled_state s else j = locked | _ \<Rightarrow> j = locked)"
proof (cases v)
  case (Settled s)
  obtain c det where f: "failure_text d (enumerate 0 eff) live = (c, det)" by fastforce
  have "find_job (snd (settle_after now d job live eff v db)) (jb_id job) = Some
      (if jb_id locked = jb_id job \<and> jb_state locked \<in> {JobRunning, JobCanceling}
       then locked\<lparr>jb_state := settled_state s,
         jb_error_class := (if settled_state s = JobSucceeded then None else coalesce c (jb_error_class locked)),
         jb_error_detail := (if settled_state s = JobSucceeded then None else coalesce det (jb_error_detail locked)),
         jb_finished_at := Some now, jb_updated_at := now\<rparr> else locked)"
    unfolding settle_after_def Settled settle_verdict.case f prod.case settle_job_def
    by (subst find_job_update) (simp_all add: assms(1))
  moreover have "jb_id locked = jb_id job" using find_in_set [of "\<lambda>j. jb_id j = jb_id job"] assms(1) by (auto simp: find_job_def)
  ultimately show ?thesis using Settled by simp
qed (use assms in \<open>simp_all add: settle_after_def\<close>)

section \<open>Properties\<close>

text \<open>C3: the readiness transaction implements the pure pass on the ledger. For a planned job whose every node has its live row the
  transaction commits; the live rows are left in exactly the states that recording the pass gives, so that a second pass finds
  nothing to do; and the job settles exactly when all of them are terminal, with the outcome of its leaves and never as a deadlock.\<close>

theorem readiness_implements_pass:
  assumes "ledger_inv db" and "parse_job_kind (jb_kind job) = Some kind" and "dag_for sha256 kind = Ret d"
    and "find_job db (jb_id job) = Some locked"
    and "\<forall>n \<in> set (nodes d). \<exists>r \<in> set (tasks db). ti_org_id r = jb_org_id job \<and> ti_job_id r = jb_id job \<and> ti_task_id r = n_task_id n \<and> ti_live r"
  shows "\<exists>acts w db' j. pass d (live_states d job db) = Ret acts \<and> readiness_for sha256 now job db = Ret (Inr (w, db'))
    \<and> live_states d job db' = apply_actions (live_states d job db) acts \<and> pass d (live_states d job db') = Ret []
    \<and> find_job db' (jb_id job) = Some j
    \<and> (if (\<forall>s \<in> set (live_states d job db'). is_terminal s) \<and> jb_state locked \<in> {JobRunning, JobCanceling}
       then \<exists>s. settle d (live_states d job db') = Ret (Settled s) \<and> jb_state j = settled_state s else j = locked)"
proof -
  let ?st = "live_states d job db" and ?live = "live_rows (jb_org_id job) (jb_id job) db"
  define cn where "cn = (case jb_clear_number locked of None \<Rightarrow> 0 | Some n \<Rightarrow> n)"
  note ok = dag_for_ok [OF assms(3)]
  then have top: "topological (nodes d)" and names: "distinct (map n_task_id (nodes d))" by (simp_all add: assembly_ok_def)
  have len: "length ?st = length (nodes d)" by (simp add: states_of_def)
  obtain acts where acts: "pass d ?st = Ret acts" "distinct (map fst acts)" "pass d (apply_actions ?st acts) = Ret []"
    and none: "\<And>i a. (i, a) \<in> set acts \<Longrightarrow> i < length (nodes d) \<and> ?st ! i = NoneState"
    using pass_sweep [OF top len] by blast
  have row: "\<exists>r. map_of ?live (n_task_id (nodes d ! i)) = Some r \<and> ti_state r = ?st ! i" if i: "i < length (nodes d)" for i
  proof -
    obtain r where "r \<in> set (tasks db)" "ti_org_id r = jb_org_id job" "ti_job_id r = jb_id job" "ti_task_id r = n_task_id (nodes d ! i)" "ti_live r"
      using assms(5) nth_mem [OF i] by blast
    then have "map_of ?live (n_task_id (nodes d ! i)) = Some r" using live_rows_get [OF assms(1)] by blast
    then show ?thesis using i by (simp add: states_of_def)
  qed
  have rec: "recordable d job ?live acts db"
    using acts(2) pass_ok [OF acts(1)] none row unfolding recordable_def by fastforce
  have cnok: "clear_number_is db cn r" if "ti_job_id r = jb_id job" for r
    using assms(4) that by (simp add: clear_number_is_def cn_def)
  obtain db1 where db1: "record_actions now d job cn ?live acts ?st db = Inr (Some (live_states d job db1, db1))"
    "live_states d job db1 = apply_actions ?st acts" "jobs db1 = jobs db"
    using record_actions_result [OF names assms(1) rec cnok] by blast
  obtain v where v: "settle d (live_states d job db1) = Ret v"
    using pass_settles [OF top len acts(1)] db1(2) by (cases "settle d (live_states d job db1)") auto
  have nodead: "v \<noteq> Deadlock i" for i using pass_settles [OF top len acts(1)] v db1(2) by auto
  obtain settled db2 where s: "settle_after now d job ?live (live_states d job db1) v db1 = (settled, db2)" by fastforce
  have t2: "tasks db2 = tasks db1" using settle_after_tasks [of now d job ?live "live_states d job db1" v db1] s by simp
  obtain rest where lock: "lock_job (jb_id job) db = locked # rest" using lock_job_find [OF assms(4)] by blast
  have run: "readiness_for sha256 now job db = Ret (Inr (acts \<noteq> [] \<or> settled \<noteq> [], db2))"
    using assms(2,3) lock acts(1) db1(1) v s by (simp add: readiness_for_def readiness_tx_def Let_def cn_def)
  have "find_job db1 (jb_id job) = Some locked" using assms(4) db1(3) by (simp add: find_job_def)
  from settle_after_job [OF this nodead, of now d ?live "live_states d job db1"]
  obtain j where j: "find_job db2 (jb_id job) = Some j"
    "case v of Settled s \<Rightarrow> if jb_state locked \<in> {JobRunning, JobCanceling} then jb_state j = settled_state s else j = locked | _ \<Rightarrow> j = locked"
    unfolding s by auto
  have len1: "length (live_states d job db1) = length (nodes d)" by (simp add: states_of_def)
  have "(\<exists>s. v = Settled s) \<longleftrightarrow> (\<forall>x \<in> set (live_states d job db1). is_terminal x)"
    using settle_settled_iff [OF len1] v by auto
  with j(2) v nodead have fin: "if (\<forall>s \<in> set (live_states d job db1). is_terminal s) \<and> jb_state locked \<in> {JobRunning, JobCanceling}
      then \<exists>s. settle d (live_states d job db1) = Ret (Settled s) \<and> jb_state j = settled_state s else j = locked"
    by (cases v) auto
  have "live_states d job db2 = live_states d job db1" using t2 by (rule live_states_tasks)
  then show ?thesis using acts(1,3) run j(1) fin db1(2) by metis
qed

theorem readiness_implements_pass_witness:
  "\<exists>d w db'. dag_for (\<lambda>s. [7]) LakeMigrate = Ret d \<and> readiness_for (\<lambda>s. [7]) 9 queued_job (ex_db planned_server) = Ret (Inr (w, db'))
     \<and> live_states d queued_job (ex_db planned_server) = [NoneState] \<and> live_states d queued_job db' = [Scheduled]"
proof -
  have inv: "ledger_inv (ex_db planned_server)"
    using keeps_step [OF planned_step] ledger_inv_empty [of "ex_db fresh_server"] by (simp add: keeps_def fresh_server_def)
  have kind: "parse_job_kind (jb_kind queued_job) = Some LakeMigrate" by code_simp
  obtain d where d: "dag_for (\<lambda>s. [7]) LakeMigrate = Ret d" using dag_for_Ret by blast
  have nodes: "map n_task_id (nodes d) = [''reconcile_schema'']" "map n_upstream (nodes d) = [[]]" "map n_trigger_rule (nodes d) = [AllSucceeded]"
    using d graph_of_def [of LakeMigrate] unfolding dag_for_Ret
    by (auto simp: lake_migrate_graph_def builder_defs Let_def task_defs)
  obtain locked where locked: "find_job (ex_db planned_server) (jb_id queued_job) = Some locked"
  proof -
    have "find_job (ex_db planned_server) (jb_id queued_job) \<noteq> None" by code_simp
    then show ?thesis using that by blast
  qed
  obtain r where r: "tasks (ex_db planned_server) = [r]" "ti_job_id r = ''j1''" "ti_task_id r = ''reconcile_schema''" "ti_live r" "ti_state r = NoneState"
    using planned_server_rows by (cases "tasks (ex_db planned_server)") auto
  have "map ti_org_id (tasks (ex_db planned_server)) = [''o1'']" by code_simp
  then have org: "ti_org_id r = jb_org_id queued_job" using r(1) by (simp add: queued_job_def)
  obtain n where n: "nodes d = [n]" "n_task_id n = ''reconcile_schema''" "n_upstream n = []" "n_trigger_rule n = AllSucceeded"
    using nodes by (cases "nodes d") auto
  have rows: "\<forall>n \<in> set (nodes d). \<exists>r \<in> set (tasks (ex_db planned_server)). ti_org_id r = jb_org_id queued_job \<and> ti_job_id r = jb_id queued_job
      \<and> ti_task_id r = n_task_id n \<and> ti_live r" using r org n by (simp add: queued_job_def)
  have "map_of (live_rows (jb_org_id queued_job) (jb_id queued_job) (ex_db planned_server)) ''reconcile_schema'' = Some r"
    using live_rows_get [OF inv] r org by (simp add: queued_job_def)
  then have before: "live_states d queued_job (ex_db planned_server) = [NoneState]" using n r(5) by (simp add: states_of_def)
  have "pass d [NoneState] = Ret [(0, Schedule)]"
    using n by (simp add: pass_def lookup_all_def evaluate_def is_terminal_def)
  with readiness_implements_pass [OF inv kind d locked rows, of 9] before
  show ?thesis using d by (auto simp: apply_actions_def)
qed

end
