(* ===== verification/JobQueue.thy ===== *)
theory JobQueue
  imports Executor
begin

text \<open>
  The job queue: the statements of \<open>er-entities/src/job.rs\<close> that enqueue, claim and finish jobs, with the functions of
  \<open>er-server/src/pg.rs\<close> over them. A table is the list of its rows; an insert or update that violates a unique index
  is refused and leaves it unchanged. \<open>max_jobs\<close> is the \<open>max_concurrent_jobs\<close> column of the job's organization. Statements that
  theory \<open>TaskLedger\<close> already has (\<open>plan_job\<close>, \<open>cancel_job\<close>, \<open>settle_job\<close>, \<open>reopen_job\<close>, \<open>refuse_plan_job\<close>) act on the same
  table.
\<close>

section \<open>Constraints\<close>

definition active_job :: "job \<Rightarrow> bool" where
  "active_job j \<longleftrightarrow> jb_state j \<in> {Dispatching, JobRunning, JobCanceling}"

definition jobs_ok :: "job list \<Rightarrow> bool" where
  "jobs_ok js \<longleftrightarrow> distinct (map jb_id js)
     \<and> distinct (map (\<lambda>j. (jb_org_id j, jb_idempotency_key j)) (filter (\<lambda>j. jb_idempotency_key j \<noteq> None) js))
     \<and> distinct (map jb_dataset_id (filter (\<lambda>j. active_job j \<and> jb_dataset_id j \<noteq> None) js))
     \<and> distinct (map jb_org_id (filter (\<lambda>j. active_job j \<and> jb_dataset_id j = None) js))"

definition checked_update :: "(job \<Rightarrow> bool) \<Rightarrow> (job \<Rightarrow> job) \<Rightarrow> job list \<Rightarrow> sql_error + (job list \<times> job list)" where
  "checked_update guard change js =
     (let js' = map (\<lambda>j. if guard j then change j else j) js in
      if jobs_ok js' then Inr (map change (filter guard js), js') else Inl UniqueViolation)"

section \<open>Enqueueing\<close>

definition new_job :: "int \<Rightarrow> string \<Rightarrow> string \<Rightarrow> string option \<Rightarrow> string \<Rightarrow> int \<Rightarrow> string option \<Rightarrow> json option \<Rightarrow> string option \<Rightarrow> string option
    \<Rightarrow> string option \<Rightarrow> job" where
  "new_job now job_id org_id dataset_id kind priority idempotency_key params schedule_id created_by trace_context =
     \<lparr>jb_id = job_id, jb_org_id = org_id, jb_dataset_id = dataset_id, jb_kind = kind,
      jb_params = (case params of None \<Rightarrow> JObj [] | Some p \<Rightarrow> p), jb_state = JobQueued, jb_priority = priority,
      jb_idempotency_key = idempotency_key, jb_run_id = None, jb_attempt = 0, jb_max_attempts = 3,
      jb_error_class = None, jb_error_detail = None, jb_not_before = None, jb_created_by = created_by,
      jb_schedule_id = schedule_id, jb_resource_class = None, jb_trace_context = trace_context,
      jb_structural_fingerprint = None, jb_policy_hash = None, jb_image_digest = None, jb_clear_number = None,
      jb_owner_epoch = None, jb_created_at = now, jb_updated_at = now, jb_started_at = None, jb_finished_at = None\<rparr>"

definition same_request :: "job \<Rightarrow> job \<Rightarrow> bool" where
  "same_request row j \<longleftrightarrow> jb_idempotency_key row \<noteq> None \<and> jb_org_id j = jb_org_id row \<and> jb_idempotency_key j = jb_idempotency_key row"

text \<open>\<open>INSERT .. ON CONFLICT (org_id, idempotency_key) DO UPDATE\<close>: the conflicting row only gets a new \<open>updated_at\<close>.\<close>

definition upsert_job :: "int \<Rightarrow> job \<Rightarrow> job list \<Rightarrow> sql_error + (job list \<times> job list)" where
  "upsert_job now row js =
     (if list_ex (same_request row) js then checked_update (same_request row) (\<lambda>j. j\<lparr>jb_updated_at := now\<rparr>) js
      else if jobs_ok (js @ [row]) then Inr ([row], js @ [row]) else Inl UniqueViolation)"

definition enqueue_sql :: "int \<Rightarrow> string \<Rightarrow> string \<Rightarrow> string option \<Rightarrow> string \<Rightarrow> int \<Rightarrow> string option \<Rightarrow> json option \<Rightarrow> string option \<Rightarrow> string option
    \<Rightarrow> job list \<Rightarrow> sql_error + (job list \<times> job list)" where
  "enqueue_sql now job_id org_id dataset_id kind priority idempotency_key params created_by trace_context js =
     upsert_job now (new_job now job_id org_id dataset_id kind priority idempotency_key params None created_by trace_context) js"

definition enqueue_scheduled_sql :: "int \<Rightarrow> string \<Rightarrow> string \<Rightarrow> string option \<Rightarrow> string \<Rightarrow> int \<Rightarrow> string option \<Rightarrow> json option \<Rightarrow> string \<Rightarrow> string option
    \<Rightarrow> job list \<Rightarrow> sql_error + (job list \<times> job list)" where
  "enqueue_scheduled_sql now job_id org_id dataset_id kind priority idempotency_key params schedule_id trace_context js =
     upsert_job now (new_job now job_id org_id dataset_id kind priority idempotency_key params (Some schedule_id) (Some ''scheduler'') trace_context) js"

text \<open>The two \<open>expect\<close>s on the returned row are panics when it is missing.\<close>

definition enqueue :: "int \<Rightarrow> string \<Rightarrow> string \<Rightarrow> string option \<Rightarrow> string \<Rightarrow> int \<Rightarrow> string option \<Rightarrow> json option \<Rightarrow> string option \<Rightarrow> string option
    \<Rightarrow> job list \<Rightarrow> (sql_error + (job \<times> job list)) outcome" where
  "enqueue now job_id org_id dataset_id kind priority idempotency_key params created_by trace_context js =
     (case enqueue_sql now job_id org_id dataset_id kind priority idempotency_key params created_by trace_context js of
        Inl e \<Rightarrow> Ret (Inl e)
      | Inr ([], _) \<Rightarrow> Panic
      | Inr (j # _, js') \<Rightarrow> Ret (Inr (j, js')))"

definition enqueue_scheduled :: "int \<Rightarrow> string \<Rightarrow> string \<Rightarrow> string option \<Rightarrow> string \<Rightarrow> string \<Rightarrow> json option \<Rightarrow> string \<Rightarrow> string option
    \<Rightarrow> job list \<Rightarrow> (sql_error + ((job \<times> bool) \<times> job list)) outcome" where
  "enqueue_scheduled now job_id org_id dataset_id kind idempotency_key params schedule_id trace_context js =
     (case enqueue_scheduled_sql now job_id org_id dataset_id kind 0 (Some idempotency_key) params schedule_id trace_context js of
        Inl e \<Rightarrow> Ret (Inl e)
      | Inr ([], _) \<Rightarrow> Panic
      | Inr (j # _, js') \<Rightarrow> Ret (Inr ((j, jb_id j = job_id), js')))"

section \<open>Claiming\<close>

definition excludes :: "job \<Rightarrow> job \<Rightarrow> bool" where
  "excludes a j \<longleftrightarrow> active_job a \<and>
     (jb_dataset_id j \<noteq> None \<and> (jb_dataset_id a = jb_dataset_id j \<or> jb_org_id a = jb_org_id j \<and> jb_dataset_id a = None)
      \<or> jb_dataset_id j = None \<and> jb_org_id a = jb_org_id j)"

definition active_in_org :: "string \<Rightarrow> job list \<Rightarrow> nat" where
  "active_in_org org js = length (filter (\<lambda>c. jb_org_id c = org \<and> active_job c) js)"

definition claimable_job :: "int \<Rightarrow> (string \<Rightarrow> int option) \<Rightarrow> int \<Rightarrow> job list \<Rightarrow> job \<Rightarrow> bool" where
  "claimable_job now max_jobs default_cap js j \<longleftrightarrow> jb_state j = JobQueued
     \<and> (case jb_not_before j of None \<Rightarrow> True | Some t \<Rightarrow> t \<le> now)
     \<and> list_all (\<lambda>a. \<not> excludes a j) js
     \<and> int (active_in_org (jb_org_id j) js) < (case max_jobs (jb_org_id j) of None \<Rightarrow> default_cap | Some c \<Rightarrow> c)"

text \<open>The first claimable job by descending priority, then id, unless its row is locked; \<open>skip\<close> says which rows are.\<close>

definition claim_order :: "job list \<Rightarrow> job list" where
  "claim_order js = sort_key (\<lambda>j. - jb_priority j) (sort_key jb_id js)"

definition claim_sql :: "int \<Rightarrow> (string \<Rightarrow> bool) \<Rightarrow> (string \<Rightarrow> int option) \<Rightarrow> int \<Rightarrow> job list \<Rightarrow> sql_error + (job list \<times> job list)" where
  "claim_sql now skip max_jobs default_cap js =
     (case find (\<lambda>j. claimable_job now max_jobs default_cap js j \<and> \<not> skip (jb_id j)) (claim_order js) of
        None \<Rightarrow> Inr ([], js)
      | Some c \<Rightarrow> checked_update (\<lambda>j. jb_id j = jb_id c)
          (\<lambda>j. j\<lparr>jb_state := Dispatching, jb_started_at := Some now, jb_updated_at := now, jb_attempt := jb_attempt j + 1\<rparr>) js)"

definition claim :: "int \<Rightarrow> (string \<Rightarrow> bool) \<Rightarrow> (string \<Rightarrow> int option) \<Rightarrow> int \<Rightarrow> job list \<Rightarrow> sql_error + (job option \<times> job list)" where
  "claim now skip max_jobs default_cap js =
     (case claim_sql now skip max_jobs default_cap js of
        Inr (rows, js') \<Rightarrow> Inr (case rows of [] \<Rightarrow> None | j # _ \<Rightarrow> Some j, js')
      | Inl UniqueViolation \<Rightarrow> Inr (None, js)
      | Inl e \<Rightarrow> Inl e)"

definition org_job_cap :: "int option \<Rightarrow> int" where
  "org_job_cap env = (case env of Some cap \<Rightarrow> if cap \<ge> 1 then cap else 1 | None \<Rightarrow> 1)"

section \<open>Finishing\<close>

datatype failure_class = PreconditionFailure | TransientIoFailure | ConfigFailure | InternalFailure

fun failure_class_str :: "failure_class \<Rightarrow> string" where
  "failure_class_str PreconditionFailure = ''precondition''"
| "failure_class_str TransientIoFailure = ''transient_io''"
| "failure_class_str ConfigFailure = ''config''"
| "failure_class_str InternalFailure = ''internal''"

definition failure_retryable :: "failure_class \<Rightarrow> bool" where
  "failure_retryable c \<longleftrightarrow> c = TransientIoFailure"

definition ascii_lower :: "string \<Rightarrow> string" where
  "ascii_lower = map (\<lambda>c. if CHR ''A'' \<le> c \<and> c \<le> CHR ''Z'' then char_of (of_char c + 32 :: nat) else c)"

definition classify_message :: "string \<Rightarrow> failure_class" where
  "classify_message text_message =
     (let m = ascii_lower text_message in
      if list_ex (\<lambda>n. contains n m) [''org env missing'', ''no prior run'', ''no source deliveries'', ''no trained model'', ''no model yet'',
           ''has no drop_root'', ''param:''] then PreconditionFailure
      else if take 7 m = ''config:'' \<or> contains ''read config'' m then ConfigFailure
      else if list_ex (\<lambda>n. contains n m) [''open lake'', ''read model'', ''connection'', ''timed out'', ''timeout'', ''temporarily'', ''i/o error'']
        then TransientIoFailure
      else InternalFailure)"

definition job_backoff :: "int \<Rightarrow> int" where
  "job_backoff tries = min 300 (5 * 2 ^ nat (max (tries - 1) 0))"

definition fail_or_retry_sql :: "int \<Rightarrow> bool \<Rightarrow> string option \<Rightarrow> string option \<Rightarrow> string \<Rightarrow> job list \<Rightarrow> sql_error + (job list \<times> job list)" where
  "fail_or_retry_sql now retryable error_class error_detail job_id =
     checked_update (\<lambda>j. jb_id j = job_id)
       (\<lambda>j. let again = retryable \<and> jb_attempt j < jb_max_attempts j in
            j\<lparr>jb_state := (if again then JobQueued else JobFailed),
              jb_not_before := (if again then Some (now + job_backoff (jb_attempt j)) else jb_not_before j),
              jb_started_at := (if again then None else jb_started_at j),
              jb_finished_at := (if again then None else Some now),
              jb_error_class := error_class, jb_error_detail := error_detail, jb_updated_at := now\<rparr>)"

definition fail_or_retry_job :: "int \<Rightarrow> string \<Rightarrow> failure_class \<Rightarrow> string \<Rightarrow> job list \<Rightarrow> (sql_error + (job \<times> job list)) outcome" where
  "fail_or_retry_job now job_id c detail_text js =
     (case fail_or_retry_sql now (failure_retryable c) (Some (failure_class_str c)) (Some (take_chars 2000 detail_text)) job_id js of
        Inl e \<Rightarrow> Ret (Inl e)
      | Inr ([], _) \<Rightarrow> Panic
      | Inr (j # _, js') \<Rightarrow> Ret (Inr (j, js')))"

definition mark :: "int \<Rightarrow> job_state \<Rightarrow> string \<Rightarrow> job list \<Rightarrow> sql_error + (job list \<times> job list)" where
  "mark now new_state job_id =
     checked_update (\<lambda>j. jb_id j = job_id)
       (\<lambda>j. j\<lparr>jb_state := new_state, jb_updated_at := now,
            jb_error_class := (if new_state = JobSucceeded then None else jb_error_class j),
            jb_error_detail := (if new_state = JobSucceeded then None else jb_error_detail j),
            jb_finished_at := (if new_state \<in> {JobSucceeded, JobFailed, JobCanceled} then Some now else jb_finished_at j)\<rparr>)"

definition resume_sql :: "int \<Rightarrow> string \<Rightarrow> string \<Rightarrow> job list \<Rightarrow> sql_error + (job list \<times> job list)" where
  "resume_sql now org_id job_id =
     checked_update (\<lambda>j. jb_org_id j = org_id \<and> jb_id j = job_id \<and> jb_state j \<in> {JobFailed, JobCanceled})
       (\<lambda>j. j\<lparr>jb_state := JobQueued, jb_not_before := Some now, jb_updated_at := now, jb_finished_at := None\<rparr>)"

definition resume_job :: "int \<Rightarrow> string \<Rightarrow> string \<Rightarrow> job list \<Rightarrow> sql_error + (bool \<times> job list)" where
  "resume_job now org_id job_id js =
     (case resume_sql now org_id job_id js of Inl e \<Rightarrow> Inl e | Inr (rows, js') \<Rightarrow> Inr (length rows = 1, js'))"

section \<open>Runs of the queue\<close>

definition job_cap :: "(string \<Rightarrow> int option) \<Rightarrow> int \<Rightarrow> string \<Rightarrow> int" where
  "job_cap max_jobs default_cap org = (case max_jobs org of None \<Rightarrow> default_cap | Some c \<Rightarrow> c)"

text \<open>The statements in any order. Marking a job with an active state is restricted to a job that is still active, which is when
  the dispatcher marks it: right after its claim.\<close>

inductive queue_step :: "(string \<Rightarrow> int option) \<Rightarrow> int \<Rightarrow> job list \<Rightarrow> job list \<Rightarrow> bool" for max_jobs default_cap where
  enqueued: "enqueue_sql now i org ds kind prio key params created_by tc js = Inr (rows, js') \<Longrightarrow> queue_step max_jobs default_cap js js'"
| scheduled: "enqueue_scheduled_sql now i org ds kind prio key params sid tc js = Inr (rows, js') \<Longrightarrow> queue_step max_jobs default_cap js js'"
| claimed: "claim now skip max_jobs default_cap js = Inr (j, js') \<Longrightarrow> queue_step max_jobs default_cap js js'"
| failed: "fail_or_retry_sql now retryable c dt i js = Inr (rows, js') \<Longrightarrow> queue_step max_jobs default_cap js js'"
| marked: "mark now s i js = Inr (rows, js') \<Longrightarrow> (s \<in> {Dispatching, JobRunning, JobCanceling} \<Longrightarrow> \<forall>j \<in> set js. jb_id j = i \<longrightarrow> active_job j)
    \<Longrightarrow> queue_step max_jobs default_cap js js'"
| resumed: "resume_sql now org i js = Inr (rows, js') \<Longrightarrow> queue_step max_jobs default_cap js js'"
| planned: "queue_step max_jobs default_cap (jobs db) (jobs (snd (plan_job now fp h img e i db)))"
| refused: "queue_step max_jobs default_cap (jobs db) (jobs (snd (refuse_plan_job now c dt i db)))"
| canceled: "queue_step max_jobs default_cap (jobs db) (jobs (snd (cancel_job now i org db)))"
| settled: "s \<in> {JobSucceeded, JobFailed, JobCanceled} \<Longrightarrow> queue_step max_jobs default_cap (jobs db) (jobs (snd (settle_job now s c dt i db)))"
| reopened: "queue_step max_jobs default_cap (jobs db) (jobs (snd (reopen_job now i org db)))"
| adopted: "queue_step max_jobs default_cap (jobs db) (jobs (snd (adopt_jobs now e db)))"

text \<open>Two active jobs clash when they write the same lake: the same dataset, or an organization-level job beside any other of
  its organization.\<close>

definition clash :: "job \<Rightarrow> job \<Rightarrow> bool" where
  "clash a b \<longleftrightarrow> jb_dataset_id a = jb_dataset_id b \<and> jb_dataset_id a \<noteq> None
     \<or> jb_org_id a = jb_org_id b \<and> (jb_dataset_id a = None \<or> jb_dataset_id b = None)"

definition exclusive :: "job list \<Rightarrow> bool" where
  "exclusive js \<longleftrightarrow> (\<forall>a \<in> set js. \<forall>b \<in> set js. jb_id a \<noteq> jb_id b \<and> active_job a \<and> active_job b \<longrightarrow> \<not> clash a b)"

definition queue_inv :: "(string \<Rightarrow> int option) \<Rightarrow> int \<Rightarrow> job list \<Rightarrow> bool" where
  "queue_inv max_jobs default_cap js \<longleftrightarrow> jobs_ok js \<and> exclusive js
     \<and> (\<forall>org. int (active_in_org org js) \<le> max 0 (job_cap max_jobs default_cap org))"

subsection \<open>Updates that activate no job\<close>

definition calm :: "job \<Rightarrow> job \<Rightarrow> bool" where
  "calm j j' \<longleftrightarrow> jb_id j' = jb_id j \<and> jb_org_id j' = jb_org_id j \<and> jb_dataset_id j' = jb_dataset_id j
     \<and> jb_idempotency_key j' = jb_idempotency_key j \<and> (active_job j' \<longrightarrow> active_job j)"

text \<open>No row is forgotten: whatever a step does, every job keeps its identity, its dataset and its request key.\<close>

definition remembers :: "job list \<Rightarrow> job list \<Rightarrow> bool" where
  "remembers js js' \<longleftrightarrow> (\<forall>j \<in> set js. \<exists>j' \<in> set js'. jb_id j' = jb_id j \<and> jb_org_id j' = jb_org_id j
     \<and> jb_dataset_id j' = jb_dataset_id j \<and> jb_idempotency_key j' = jb_idempotency_key j)"

definition follows :: "(string \<Rightarrow> int option) \<Rightarrow> int \<Rightarrow> job list \<Rightarrow> job list \<Rightarrow> bool" where
  "follows max_jobs default_cap js js' \<longleftrightarrow> queue_inv max_jobs default_cap js' \<and> remembers js js'"

lemma remembers_trans: "remembers a b \<Longrightarrow> remembers b c \<Longrightarrow> remembers a c"
  unfolding remembers_def by metis

lemma remembers_map:
  "(\<And>j. j \<in> set js \<Longrightarrow> jb_id (f j) = jb_id j \<and> jb_org_id (f j) = jb_org_id j \<and> jb_dataset_id (f j) = jb_dataset_id j
     \<and> jb_idempotency_key (f j) = jb_idempotency_key j) \<Longrightarrow> remembers js (map f js)"
  unfolding remembers_def by auto

lemma distinct_map_filter_image:
  assumes "distinct (map g (filter P xs))" and "\<And>x. x \<in> set xs \<Longrightarrow> g (f x) = g x \<and> (P (f x) \<longrightarrow> P x)"
  shows "distinct (map g (filter P (map f xs)))"
  using assms by (induction xs) (auto simp: image_iff split: if_splits, metis)

lemma calm_jobs_ok:
  assumes "jobs_ok js" and "\<And>j. j \<in> set js \<Longrightarrow> calm j (f j)"
  shows "jobs_ok (map f js)"
proof -
  have ids: "map jb_id (map f js) = map jb_id js" using assms(2) by (simp add: calm_def)
  show ?thesis
    unfolding jobs_ok_def ids
    by (intro conjI distinct_map_filter_image) (use assms in \<open>simp_all add: jobs_ok_def calm_def\<close>)
qed
lemma calm_active_in_org:
  "(\<And>j. j \<in> set js \<Longrightarrow> calm j (f j)) \<Longrightarrow> active_in_org org (map f js) \<le> active_in_org org js"
  unfolding active_in_org_def by (induction js) (auto simp: calm_def)

lemma calm_keeps:
  assumes "queue_inv max_jobs default_cap js" and "\<And>j. j \<in> set js \<Longrightarrow> calm j (f j)"
  shows "follows max_jobs default_cap js (map f js)"
proof -
  have "jobs_ok (map f js)" using assms calm_jobs_ok unfolding queue_inv_def by blast
  moreover have "exclusive (map f js)"
    unfolding exclusive_def
  proof (intro ballI impI)
    fix a b assume ab: "a \<in> set (map f js)" "b \<in> set (map f js)" "jb_id a \<noteq> jb_id b \<and> active_job a \<and> active_job b"
    then obtain x y where xy: "x \<in> set js" "y \<in> set js" "a = f x" "b = f y" by auto
    then have c: "calm x a" "calm y b" using assms(2) by simp_all
    have "\<not> clash x y" using assms(1) xy ab c unfolding queue_inv_def exclusive_def calm_def by metis
    then show "\<not> clash a b" using c by (simp add: calm_def clash_def)
  qed
  moreover have "int (active_in_org org (map f js)) \<le> max 0 (job_cap max_jobs default_cap org)" for org
    using calm_active_in_org [of js f org, OF assms(2)] assms(1) unfolding queue_inv_def
    by (meson order_trans of_nat_mono)
  moreover have "remembers js (map f js)" using assms(2) by (intro remembers_map) (simp add: calm_def)
  ultimately show ?thesis unfolding follows_def queue_inv_def by blast
qed

lemma checked_calm:
  assumes "queue_inv max_jobs default_cap js" and "checked_update guard change js = Inr (rows, js')"
    and "\<And>j. j \<in> set js \<Longrightarrow> guard j \<Longrightarrow> calm j (change j)"
  shows "follows max_jobs default_cap js js'"
proof -
  have "js' = map (\<lambda>j. if guard j then change j else j) js" using assms(2) by (auto simp: checked_update_def Let_def split: if_splits)
  moreover have "calm j (if guard j then change j else j)" if "j \<in> set js" for j using assms(3) that by (simp add: calm_def)
  ultimately show ?thesis using calm_keeps [OF assms(1)] by simp
qed

lemma ledger_calm:
  assumes "queue_inv max_jobs default_cap (jobs db)" and "\<And>j. guard j \<Longrightarrow> calm j (change j)"
  shows "follows max_jobs default_cap (jobs db) (jobs (snd (update_jobs guard change db)))"
proof -
  have "jobs (snd (update_jobs guard change db)) = map (\<lambda>j. if guard j then change j else j) (jobs db)" by (simp add: update_jobs_def)
  moreover have "calm j (if guard j then change j else j)" for j using assms(2) by (simp add: calm_def)
  ultimately show ?thesis using calm_keeps [OF assms(1)] by simp
qed

subsection \<open>New and claimed jobs\<close>

lemma upsert_keeps:
  assumes inv: "queue_inv max_jobs default_cap js" and up: "upsert_job now row js = Inr (rows, js')" and row: "jb_state row = JobQueued"
  shows "follows max_jobs default_cap js js'"
proof (cases "list_ex (same_request row) js")
  case True
  then have "checked_update (same_request row) (\<lambda>j. j\<lparr>jb_updated_at := now\<rparr>) js = Inr (rows, js')"
    using up by (simp add: upsert_job_def)
  then show ?thesis by (rule checked_calm [OF inv]) (simp add: calm_def active_job_def)
next
  case False
  then have js': "js' = js @ [row]" "jobs_ok (js @ [row])" using up by (auto simp: upsert_job_def split: if_splits)
  have "\<not> active_job row" using row by (simp add: active_job_def)
  then show ?thesis
    using inv js' unfolding follows_def queue_inv_def exclusive_def active_in_org_def remembers_def by auto
qed

lemma only_by_id:
  assumes "distinct (map jb_id js)" and "j \<in> set js"
  shows "filter (\<lambda>x. jb_id x = jb_id j) js = [j]"
    and "map (\<lambda>x. if jb_id x = jb_id j then g x else x) js = map (\<lambda>x. if x = j then g j else x) js"
proof -
  show "filter (\<lambda>x. jb_id x = jb_id j) js = [j]"
    using assms by (induction js) (auto simp: filter_empty_conv image_iff)
  have only: "jb_id x = jb_id j \<longleftrightarrow> x = j" if "x \<in> set js" for x
    using inj_onD [OF distinct_map [THEN iffD1, OF assms(1), THEN conjunct2], of x j] that assms(2) by auto
  show "map (\<lambda>x. if jb_id x = jb_id j then g x else x) js = map (\<lambda>x. if x = j then g j else x) js"
  proof (rule map_cong [OF refl])
    fix x assume "x \<in> set js"
    show "(if jb_id x = jb_id j then g x else x) = (if x = j then g j else x)"
      unfolding only [OF \<open>x \<in> set js\<close>] by (rule if_cong) simp_all
  qed
qed

lemma claim_result:
  assumes "claim now skip max_jobs default_cap js = Inr (r, js')" and "distinct (map jb_id js)"
  shows "js' = js \<and> r = None \<or> (\<exists>c \<in> set js. claimable_job now max_jobs default_cap js c \<and> \<not> skip (jb_id c)
     \<and> r = Some (c\<lparr>jb_state := Dispatching, jb_started_at := Some now, jb_updated_at := now, jb_attempt := jb_attempt c + 1\<rparr>)
     \<and> js' = map (\<lambda>j. if j = c then the r else j) js \<and> jobs_ok js')"
proof (cases "find (\<lambda>j. claimable_job now max_jobs default_cap js j \<and> \<not> skip (jb_id j)) (claim_order js)")
  case None
  then show ?thesis using assms(1) by (simp add: claim_def claim_sql_def)
next
  case (Some c)
  have c: "c \<in> set js" "claimable_job now max_jobs default_cap js c" "\<not> skip (jb_id c)"
    using find_in_set [OF Some] by (auto simp: claim_order_def)
  let ?change = "\<lambda>j. j\<lparr>jb_state := Dispatching, jb_started_at := Some now, jb_updated_at := now, jb_attempt := jb_attempt j + 1\<rparr>"
  note one = only_by_id [OF assms(2) c(1)]
  note run = assms(1) [unfolded claim_def claim_sql_def Some option.case checked_update_def Let_def one]
  show ?thesis
  proof (cases "jobs_ok (map (\<lambda>j. if j = c then ?change c else j) js)")
    case True
    then have "r = Some (?change c)" "js' = map (\<lambda>j. if j = c then ?change c else j) js" using run by simp_all
    then show ?thesis using c True by (intro disjI2 bexI [OF _ c(1)] conjI) simp_all
  next
    case False
    then show ?thesis using run by simp
  qed
qed

lemma claim_returns:
  assumes "claim now skip max_jobs default_cap js = Inr (Some r, js')" and "distinct (map jb_id js)"
  shows "\<exists>x \<in> set js. claimable_job now max_jobs default_cap js x \<and> jb_id r = jb_id x"
  using claim_result [OF assms] by auto

lemma claim_skips:
  assumes ids: "distinct (map jb_id js)" and j: "j \<in> set js" "jb_id j' = jb_id j"
    and not: "\<not> claimable_job now max_jobs default_cap (map (\<lambda>x. if x = j then j' else x) js) j'"
    and won: "claim now skip max_jobs default_cap (map (\<lambda>x. if x = j then j' else x) js) = Inr (Some r, js')"
  shows "jb_id r \<noteq> jb_id j"
proof -
  have "map jb_id (map (\<lambda>x. if x = j then j' else x) js) = map jb_id js" using j by simp
  then have "distinct (map jb_id (map (\<lambda>x. if x = j then j' else x) js))" using ids by argo
  then obtain x where x: "x \<in> set (map (\<lambda>x. if x = j then j' else x) js)"
      "claimable_job now max_jobs default_cap (map (\<lambda>x. if x = j then j' else x) js) x" "jb_id r = jb_id x"
    using claim_returns [OF won] by blast
  then have "x \<noteq> j'" using not by blast
  then have "x \<in> set js" "x \<noteq> j" using x(1) by (auto split: if_splits)
  then show ?thesis using x(3) inj_onD [OF distinct_map [THEN iffD1, OF ids, THEN conjunct2], of x j] j by auto
qed

lemma excludes_clash: "excludes a j \<longleftrightarrow> active_job a \<and> clash a j"
  unfolding excludes_def clash_def by (cases "jb_dataset_id a"; cases "jb_dataset_id j") auto

lemma clash_sym: "clash a b \<longleftrightarrow> clash b a"
  unfolding clash_def by (cases "jb_dataset_id a"; cases "jb_dataset_id b") auto

lemma active_in_org_claim:
  "distinct js \<Longrightarrow> active_in_org org (map (\<lambda>j. if j = c then c' else j) js)
     \<le> active_in_org org js + (if jb_org_id c' = org then 1 else 0)"
proof (induction js)
  case (Cons x js)
  have "map (\<lambda>j. if j = c then c' else j) js = js" if "x = c"
    using Cons.prems that by (intro map_idI) auto
  then show ?case using Cons unfolding active_in_org_def by (cases "x = c") auto
qed (simp add: active_in_org_def)

lemma claim_keeps:
  assumes inv: "queue_inv max_jobs default_cap js" and run: "claim now skip max_jobs default_cap js = Inr (r, js')"
  shows "follows max_jobs default_cap js js'"
proof -
  have ids: "distinct (map jb_id js)" using inv by (simp add: queue_inv_def jobs_ok_def)
  then have dj: "distinct js" by (simp add: distinct_map)
  consider "js' = js" | c c' where "c \<in> set js" "claimable_job now max_jobs default_cap js c" "js' = map (\<lambda>j. if j = c then c' else j) js"
      "c' = c\<lparr>jb_state := Dispatching, jb_started_at := Some now, jb_updated_at := now, jb_attempt := jb_attempt c + 1\<rparr>" "jobs_ok js'"
    using claim_result [OF run ids] by (elim disjE bexE conjE) (simp, simp only: option.sel)
  then show ?thesis
  proof cases
    case 1
    then show ?thesis using inv by (auto simp: follows_def remembers_def)
  next
    case (2 c c')
    have same: "jb_id c' = jb_id c" "jb_org_id c' = jb_org_id c" "jb_dataset_id c' = jb_dataset_id c"
      "jb_idempotency_key c' = jb_idempotency_key c" using 2(4) by simp_all
    have free: "\<not> clash a c" if "a \<in> set js" "active_job a" for a
      using 2(2) that by (auto simp: claimable_job_def list_all_iff excludes_clash)
    have free': "\<not> clash a c'" "\<not> clash c' a" if "a \<in> set js" "active_job a" for a
      using free [OF that] clash_sym [of c' a] by (simp_all add: clash_def same)
    have "exclusive js'"
      unfolding exclusive_def
    proof (intro ballI impI)
      fix a b assume ab: "a \<in> set js'" "b \<in> set js'" "jb_id a \<noteq> jb_id b \<and> active_job a \<and> active_job b"
      then consider "a = c'" "b \<in> set js" | "b = c'" "a \<in> set js" | "a \<in> set js" "b \<in> set js"
        unfolding 2(3) by (auto split: if_splits)
      then show "\<not> clash a b"
        using ab free' inv by cases (auto simp: queue_inv_def exclusive_def)
    qed
    moreover have "int (active_in_org org js') \<le> max 0 (job_cap max_jobs default_cap org)" for org
    proof (cases "jb_org_id c' = org")
      case True
      then have "int (active_in_org org js) < job_cap max_jobs default_cap org"
        using 2(2) same(2) by (simp add: claimable_job_def job_cap_def)
      moreover have "active_in_org org js' \<le> active_in_org org js + 1"
        using active_in_org_claim [of js org c c', OF dj] True 2(3) by simp
      ultimately show ?thesis by linarith
    next
      case False
      then have "active_in_org org js' \<le> active_in_org org js"
        using active_in_org_claim [of js org c c', OF dj] 2(3) by simp
      then show ?thesis using inv unfolding queue_inv_def by (meson of_nat_mono order_trans)
    qed
    moreover have "remembers js js'" unfolding 2(3) using same by (intro remembers_map) simp
    ultimately show ?thesis using 2(5) by (simp add: follows_def queue_inv_def)
  qed
qed

lemma step_follows:
  assumes "queue_step max_jobs default_cap js js'" and inv: "queue_inv max_jobs default_cap js"
  shows "follows max_jobs default_cap js js'"
  using assms(1)
proof cases
  case enqueued
  show ?thesis by (rule upsert_keeps [OF inv enqueued [unfolded enqueue_sql_def]]) (simp add: new_job_def)
next
  case scheduled
  show ?thesis by (rule upsert_keeps [OF inv scheduled [unfolded enqueue_scheduled_sql_def]]) (simp add: new_job_def)
next
  case claimed
  then show ?thesis using claim_keeps [OF inv] by blast
next
  case failed
  show ?thesis by (rule checked_calm [OF inv failed [unfolded fail_or_retry_sql_def]]) (simp add: calm_def active_job_def Let_def)
next
  case (marked now s i rows)
  show ?thesis
    by (rule checked_calm [OF inv marked(1) [unfolded mark_def]]) (use marked(2) in \<open>auto simp: calm_def active_job_def\<close>)
next
  case resumed
  show ?thesis by (rule checked_calm [OF inv resumed [unfolded resume_sql_def]]) (simp add: calm_def active_job_def)
qed (use inv in \<open>simp_all add: plan_job_def refuse_plan_job_def cancel_job_def settle_job_def reopen_job_def adopt_jobs_def\<close>,
     (rule ledger_calm; auto simp: calm_def active_job_def)+)

lemma run_follows:
  "(queue_step max_jobs default_cap)\<^sup>*\<^sup>* js js' \<Longrightarrow> queue_inv max_jobs default_cap js \<Longrightarrow> follows max_jobs default_cap js js'"
proof (induction rule: rtranclp_induct)
  case base
  then show ?case by (auto simp: follows_def remembers_def)
next
  case (step js1 js2)
  then have "follows max_jobs default_cap js js1" by simp
  then show ?case using step_follows [OF step.hyps(2)] remembers_trans unfolding follows_def by blast
qed

lemma empty_queue: "queue_inv max_jobs default_cap []"
  by (simp add: queue_inv_def jobs_ok_def exclusive_def active_in_org_def)

lemma reachable_queue: "(queue_step max_jobs default_cap)\<^sup>*\<^sup>* [] js \<Longrightarrow> queue_inv max_jobs default_cap js"
  using run_follows [OF _ empty_queue] by (simp add: follows_def)

text \<open>A sample queue: two jobs of one dataset and one of another, in one organization that may run two at a time.\<close>

definition sample_caps :: "string \<Rightarrow> int option" where
  "sample_caps = [''acme'' \<mapsto> 2]"

definition sample_request :: "string \<Rightarrow> string \<Rightarrow> int \<Rightarrow> job list \<Rightarrow> job list" where
  "sample_request i ds prio js =
     (case enqueue_sql 0 i ''acme'' (Some ds) ''run_all'' prio (Some i) None None None js of Inr (_, js') \<Rightarrow> js' | Inl _ \<Rightarrow> [])"

definition sample_waiting :: "job list" where
  "sample_waiting = sample_request ''j3'' ''d2'' 0 (sample_request ''j2'' ''d1'' 0 (sample_request ''j1'' ''d1'' 5 []))"

definition sample_claimed :: "job list" where
  "sample_claimed = (case claim 10 (\<lambda>_. False) sample_caps 1 sample_waiting of Inr (_, js) \<Rightarrow> js | Inl _ \<Rightarrow> [])"

lemma sample_waiting_rest:
  "queue_step sample_caps 1 [] (sample_request ''j1'' ''d1'' 5 [])" "(queue_step sample_caps 1)\<^sup>*\<^sup>* (sample_request ''j1'' ''d1'' 5 []) sample_waiting"
proof -
  have one: "queue_step sample_caps 1 js (sample_request i ds prio js)" if "sample_request i ds prio js \<noteq> []" for i ds prio js
    using that enqueued [of 0 i "''acme''" "Some ds" "''run_all''" prio "Some i" None None None js]
    by (auto simp: sample_request_def split: sum.splits)
  moreover have "sample_request ''j1'' ''d1'' 5 [] \<noteq> []" "sample_request ''j2'' ''d1'' 0 (sample_request ''j1'' ''d1'' 5 []) \<noteq> []"
    "sample_waiting \<noteq> []" by (code_simp, code_simp, code_simp)
  ultimately show "queue_step sample_caps 1 [] (sample_request ''j1'' ''d1'' 5 [])"
    "(queue_step sample_caps 1)\<^sup>*\<^sup>* (sample_request ''j1'' ''d1'' 5 []) sample_waiting" unfolding sample_waiting_def
    by (auto intro!: one intro: rtranclp.rtrancl_into_rtrancl [OF r_into_rtranclp])
qed

lemma sample_claimed_step: "queue_step sample_caps 1 sample_waiting sample_claimed"
proof -
  have "\<not> isl (claim 10 (\<lambda>_. False) sample_caps 1 sample_waiting)" by code_simp
  then have "\<exists>r. claim 10 (\<lambda>_. False) sample_caps 1 sample_waiting = Inr (r, sample_claimed)"
    unfolding sample_claimed_def by (cases "claim 10 (\<lambda>_. False) sample_caps 1 sample_waiting") auto
  then show ?thesis using claimed by blast
qed

lemma sample_claimed_run: "(queue_step sample_caps 1)\<^sup>*\<^sup>* [] sample_claimed"
  using sample_waiting_rest sample_claimed_step
  by (meson converse_rtranclp_into_rtranclp rtranclp.rtrancl_into_rtrancl)



subsection \<open>Requests are idempotent\<close>

lemma enqueue_outcome:
  assumes "enqueue now i org ds kind prio key params created_by tc js = Ret (Inr (j, js'))"
  shows "enqueue_sql now i org ds kind prio key params created_by tc js = Inr (j # tl (fst (projr (enqueue_sql now i org ds kind prio key params created_by tc js))), js')"
  using assms by (auto simp: enqueue_def split: sum.splits list.splits prod.splits)

lemma upsert_row:
  assumes "upsert_job now row js = Inr (j # rows, js')" and "jb_idempotency_key row = Some key"
  shows "j \<in> set js' \<and> jb_org_id j = jb_org_id row \<and> jb_idempotency_key j = Some key"
proof (cases "list_ex (same_request row) js")
  case True
  then have "map (\<lambda>x. x\<lparr>jb_updated_at := now\<rparr>) (filter (same_request row) js) = j # rows"
      "js' = map (\<lambda>x. if same_request row x then x\<lparr>jb_updated_at := now\<rparr> else x) js"
    using assms(1) by (simp_all add: upsert_job_def checked_update_def Let_def split: if_splits)
  moreover from this(1) have "j \<in> set (map (\<lambda>x. x\<lparr>jb_updated_at := now\<rparr>) (filter (same_request row) js))" by simp
  then obtain x where x: "x \<in> set js" "same_request row x" "j = x\<lparr>jb_updated_at := now\<rparr>" by auto
  ultimately have "j \<in> set js'" by auto
  then show ?thesis using assms(2) x by (simp add: same_request_def)
next
  case False
  then have "j = row" "js' = js @ [row]" using assms(1) by (auto simp: upsert_job_def split: if_splits)
  then show ?thesis using assms(2) by simp
qed

lemma enqueue_row:
  assumes "enqueue now i org ds kind prio (Some key) params created_by tc js = Ret (Inr (j, js'))"
  shows "j \<in> set js' \<and> jb_org_id j = org \<and> jb_idempotency_key j = Some key"
  using enqueue_outcome [OF assms] upsert_row [of now "new_job now i org ds kind prio (Some key) params None created_by tc" js j _ js' key]
  unfolding enqueue_sql_def by (auto simp: new_job_def)

lemma known_upsert:
  assumes "jobs_ok js" and "j \<in> set js" and "jb_org_id j = jb_org_id row" "jb_idempotency_key j = jb_idempotency_key row" "jb_idempotency_key row \<noteq> None"
  shows "upsert_job now row js = Inr ([j\<lparr>jb_updated_at := now\<rparr>], map (\<lambda>x. if x = j then j\<lparr>jb_updated_at := now\<rparr> else x) js)"
    and "jobs_ok (map (\<lambda>x. if x = j then j\<lparr>jb_updated_at := now\<rparr> else x) js)"
proof -
  let ?keyed = "filter (\<lambda>j. jb_idempotency_key j \<noteq> None) js"
  have keys: "inj_on (\<lambda>j. (jb_org_id j, jb_idempotency_key j)) (set ?keyed)" and ids: "distinct (map jb_id js)"
    using assms(1) by (simp_all add: jobs_ok_def distinct_map)
  have only: "same_request row x \<longleftrightarrow> x = j" if "x \<in> set js" for x
    using inj_onD [OF keys, of x j] that assms(2-5) by (auto simp: same_request_def)
  have ex: "list_ex (same_request row) js" using only assms(2) by (auto simp: list_ex_iff)
  have m: "map (\<lambda>x. if same_request row x then x\<lparr>jb_updated_at := now\<rparr> else x) js
    = map (\<lambda>x. if x = j then j\<lparr>jb_updated_at := now\<rparr> else x) js"
  proof (rule map_cong [OF refl])
    fix x assume "x \<in> set js"
    show "(if same_request row x then x\<lparr>jb_updated_at := now\<rparr> else x) = (if x = j then j\<lparr>jb_updated_at := now\<rparr> else x)"
      unfolding only [OF \<open>x \<in> set js\<close>] by (rule if_cong) simp_all
  qed
  have "filter (same_request row) js = filter (\<lambda>x. x = j) js" using only by (intro filter_cong) auto
  moreover have "filter (\<lambda>x. x = j) js = [j]" using assms(2) ids by (induction js) (auto simp: filter_empty_conv)
  ultimately have f: "filter (same_request row) js = [j]" by simp
  show ok: "jobs_ok (map (\<lambda>x. if x = j then j\<lparr>jb_updated_at := now\<rparr> else x) js)"
    by (rule calm_jobs_ok [OF assms(1)]) (simp add: calm_def active_job_def)
  then show "upsert_job now row js = Inr ([j\<lparr>jb_updated_at := now\<rparr>], map (\<lambda>x. if x = j then j\<lparr>jb_updated_at := now\<rparr> else x) js)"
    unfolding upsert_job_def checked_update_def Let_def m f if_P [OF ex] by simp
qed

lemma known_request:
  assumes "jobs_ok js" and "j \<in> set js" and "jb_org_id j = org" "jb_idempotency_key j = Some key"
  shows "enqueue now i org ds kind prio (Some key) params created_by tc js
    = Ret (Inr (j\<lparr>jb_updated_at := now\<rparr>, map (\<lambda>x. if x = j then j\<lparr>jb_updated_at := now\<rparr> else x) js))"
  using known_upsert(1) [of js j "new_job now i org ds kind prio (Some key) params None created_by tc" now] assms
  by (simp add: enqueue_def enqueue_sql_def new_job_def)

text \<open>Enqueueing is idempotent for good: once a request with an idempotency key has been accepted, repeating it after any further
  run of the queue, with whatever other arguments, succeeds, returns the same job and adds no row.\<close>

lemma enqueue_idempotent:
  assumes "(queue_step max_jobs default_cap)\<^sup>*\<^sup>* [] js"
    and "enqueue now i org ds kind prio (Some key) params created_by tc js = Ret (Inr (j, js1))"
    and "(queue_step max_jobs default_cap)\<^sup>*\<^sup>* js1 js2"
  shows "\<exists>j' js3. enqueue now' i' org ds' kind' prio' (Some key) params' created_by' tc' js2 = Ret (Inr (j', js3))
    \<and> jb_id j' = jb_id j \<and> jb_dataset_id j' = jb_dataset_id j \<and> map jb_id js3 = map jb_id js2"
proof -
  have "queue_step max_jobs default_cap js js1" using enqueue_outcome [OF assms(2)] enqueued by blast
  then have inv1: "queue_inv max_jobs default_cap js1" using step_follows reachable_queue [OF assms(1)] follows_def by blast
  then have inv2: "queue_inv max_jobs default_cap js2" and "remembers js1 js2"
    using run_follows [OF assms(3)] by (simp_all add: follows_def)
  then obtain x where x: "x \<in> set js2" "jb_id x = jb_id j" "jb_org_id x = org" "jb_dataset_id x = jb_dataset_id j" "jb_idempotency_key x = Some key"
    using enqueue_row [OF assms(2)] unfolding remembers_def by metis
  have ok: "jobs_ok js2" using inv2 by (simp add: queue_inv_def)
  have "map jb_id (map (\<lambda>y. if y = x then x\<lparr>jb_updated_at := now'\<rparr> else y) js2) = map jb_id js2" by simp
  then show ?thesis using known_request [OF ok x(1,3,5)] x(2,4) by simp
qed

lemma enqueue_idempotent_witness:
  "\<exists>j' js3. enqueue 99 ''j9'' ''acme'' None ''profile'' 7 (Some ''j1'') None None None sample_claimed = Ret (Inr (j', js3))
    \<and> jb_id j' = ''j1'' \<and> map jb_id js3 = map jb_id sample_claimed"
proof -
  let ?js1 = "sample_request ''j1'' ''d1'' 5 []"
  have first: "enqueue 0 ''j1'' ''acme'' (Some ''d1'') ''run_all'' 5 (Some ''j1'') None None None [] = Ret (Inr (hd ?js1, ?js1))" by code_simp
  have rest: "(queue_step sample_caps 1)\<^sup>*\<^sup>* ?js1 sample_claimed"
    using sample_claimed_step sample_waiting_rest by (meson rtranclp.rtrancl_into_rtrancl)
  have "jb_id (hd ?js1) = ''j1''" by code_simp
  then show ?thesis using enqueue_idempotent [OF rtranclp.rtrancl_refl first rest] by metis
qed

subsection \<open>Failures\<close>

lemma job_backoff_range: "5 \<le> job_backoff n" "job_backoff n \<le> 300"
  by (simp_all add: job_backoff_def)

text \<open>C8: a failing job is queued again exactly when its failure is transient and attempts remain, and otherwise ends as failed; the
  statement always succeeds. A job queued again has a delay of between five seconds and five minutes, and no claim made before
  the delay is over returns it.\<close>

theorem failed_job_backs_off:
  assumes "(queue_step max_jobs default_cap)\<^sup>*\<^sup>* [] js" and "j \<in> set js"
  shows "\<exists>j' js'. fail_or_retry_job now (jb_id j) c message_text js = Ret (Inr (j', js')) \<and> jb_id j' = jb_id j
    \<and> jb_state j' = (if c = TransientIoFailure \<and> jb_attempt j < jb_max_attempts j then JobQueued else JobFailed)
    \<and> jb_error_class j' = Some (failure_class_str c)
    \<and> (jb_state j' = JobQueued \<longrightarrow> (\<exists>d. 5 \<le> d \<and> d \<le> 300 \<and> jb_not_before j' = Some (now + d)
         \<and> (\<forall>t skip r js''. t < now + d \<and> claim t skip max_jobs default_cap js' = Inr (Some r, js'') \<longrightarrow> jb_id r \<noteq> jb_id j)))"
proof -
  let ?again = "failure_retryable c \<and> jb_attempt j < jb_max_attempts j"
  let ?change = "\<lambda>x. let again = failure_retryable c \<and> jb_attempt x < jb_max_attempts x in
            x\<lparr>jb_state := (if again then JobQueued else JobFailed),
              jb_not_before := (if again then Some (now + job_backoff (jb_attempt x)) else jb_not_before x),
              jb_started_at := (if again then None else jb_started_at x),
              jb_finished_at := (if again then None else Some now),
              jb_error_class := Some (failure_class_str c), jb_error_detail := Some (take_chars 2000 message_text), jb_updated_at := now\<rparr>"
  let ?js = "map (\<lambda>x. if x = j then ?change j else x) js"
  have ok: "jobs_ok js" using reachable_queue [OF assms(1)] by (simp add: queue_inv_def)
  then have ids: "distinct (map jb_id js)" by (simp add: jobs_ok_def)
  have ok': "jobs_ok ?js" by (rule calm_jobs_ok [OF ok]) (simp add: calm_def active_job_def Let_def)
  note one = only_by_id [OF ids assms(2)]
  have run: "fail_or_retry_job now (jb_id j) c message_text js = Ret (Inr (?change j, ?js))"
    unfolding fail_or_retry_job_def fail_or_retry_sql_def checked_update_def one Let_def [of "map _ js"] if_P [OF ok'] by simp
  have st: "jb_state (?change j) = (if ?again then JobQueued else JobFailed)"
    "jb_error_class (?change j) = Some (failure_class_str c)" "jb_id (?change j) = jb_id j"
    "?again \<Longrightarrow> jb_not_before (?change j) = Some (now + job_backoff (jb_attempt j))" by (simp_all add: Let_def)
  obtain j' where j': "j' = ?change j" by blast
  have late: "jb_id r \<noteq> jb_id j"
    if again: "?again" and soon: "t < now + job_backoff (jb_attempt j)"
      and won: "claim t skip max_jobs default_cap (map (\<lambda>x. if x = j then j' else x) js) = Inr (Some r, js'')" for t skip r js''
    by (rule claim_skips [OF ids assms(2) _ _ won]) (use st again soon j' in \<open>simp_all add: claimable_job_def\<close>)
  have run': "fail_or_retry_job now (jb_id j) c message_text js = Ret (Inr (j', map (\<lambda>x. if x = j then j' else x) js))"
    using run j' by simp
  show ?thesis
  proof (intro exI conjI impI, rule run')
    show "jb_id j' = jb_id j" "jb_error_class j' = Some (failure_class_str c)"
      "jb_state j' = (if c = TransientIoFailure \<and> jb_attempt j < jb_max_attempts j then JobQueued else JobFailed)"
      using st by (simp_all add: j' failure_retryable_def)
    assume "jb_state j' = JobQueued"
    then have again: ?again using st by (auto simp: j' split: if_splits)
    show "5 \<le> job_backoff (jb_attempt j)" "job_backoff (jb_attempt j) \<le> 300" by (rule job_backoff_range)+
    show "jb_not_before j' = Some (now + job_backoff (jb_attempt j))" using st(4) [OF again] by (simp add: j')
    show "\<forall>t skip r js''. t < now + job_backoff (jb_attempt j)
        \<and> claim t skip max_jobs default_cap (map (\<lambda>x. if x = j then j' else x) js) = Inr (Some r, js'') \<longrightarrow> jb_id r \<noteq> jb_id j"
      using late [OF again] by blast
  qed
qed

theorem failed_job_backs_off_witness:
  "\<exists>j' js'. fail_or_retry_job 40 ''j1'' TransientIoFailure ''timed out'' sample_claimed = Ret (Inr (j', js')) \<and> jb_state j' = JobQueued"
proof -
  have j: "hd sample_claimed \<in> set sample_claimed" "jb_id (hd sample_claimed) = ''j1''"
    "jb_attempt (hd sample_claimed) < jb_max_attempts (hd sample_claimed)" by (code_simp, code_simp, code_simp)
  then show ?thesis
    using failed_job_backs_off [OF sample_claimed_run j(1), of 40 TransientIoFailure "''timed out''"] by auto
qed

text \<open>The legacy cancellation marks a job canceled whatever its state. A job that is still being worked on then no longer holds its
  dataset: the next claim hands out another job of that dataset, and when the first worker finishes, its mark overwrites the
  cancellation.\<close>

definition sample_marked :: "job_state \<Rightarrow> job list \<Rightarrow> job list" where
  "sample_marked new_state js = (case mark 20 new_state ''j1'' js of Inr (_, js') \<Rightarrow> js' | Inl _ \<Rightarrow> [])"

definition sample_reclaimed :: "job list" where
  "sample_reclaimed = (case claim 30 (\<lambda>_. False) sample_caps 1 (sample_marked JobCanceled (sample_marked JobRunning sample_claimed)) of
     Inr (_, js) \<Rightarrow> js | Inl _ \<Rightarrow> [])"

lemma canceled_worker_loses_its_lock:
  "map (\<lambda>j. (jb_id j, jb_dataset_id j, jb_state j)) sample_reclaimed
     = [(''j1'', Some ''d1'', JobCanceled), (''j2'', Some ''d1'', Dispatching), (''j3'', Some ''d2'', JobQueued)]"
  "map jb_state (sample_marked JobSucceeded sample_reclaimed) = [JobSucceeded, Dispatching, JobQueued]"
  by (code_simp, code_simp)

end
