(* ===== verification/Access.thy ===== *)
theory Access
  imports Prelude Utf8 Json "HOL-Library.Word"
begin

text \<open>
  Authentication and authorization of the HTTP API, from \<open>er-server/src/lib.rs\<close> (roles, principals, guards, the key handlers), \<open>pg.rs\<close>
  (key functions) and \<open>er-entities/src/api_key.rs\<close> (its statements). Request headers are a function from lower-case names to values that
  are visible ASCII; SHA-256 is a parameter, and so are the minted key id and secret of a new key. The database is the lists of rows of
  the tables the code reads; \<open>Inl e\<close> stands for a connection or query that fails with the message \<open>e\<close>.
\<close>

unbundle bit_operations_syntax

section \<open>Roles\<close>

datatype role = Viewer | Steward | Admin | Operator

fun role_str :: "role \<Rightarrow> string" where
  "role_str Viewer = ''viewer''"
| "role_str Steward = ''steward''"
| "role_str Admin = ''admin''"
| "role_str Operator = ''operator''"

definition parse_role :: "string \<Rightarrow> role option" where
  "parse_role s =
     (if s = ''viewer'' then Some Viewer else if s = ''steward'' then Some Steward else if s = ''admin'' then Some Admin
      else if s = ''operator'' then Some Operator else None)"

definition parse_key_role :: "string \<Rightarrow> role option" where
  "parse_key_role s = (case parse_role s of None \<Rightarrow> None | Some Operator \<Rightarrow> None | Some r \<Rightarrow> Some r)"

text \<open>The derived order ranks the constructors as they are declared.\<close>

fun role_rank :: "role \<Rightarrow> nat" where
  "role_rank Viewer = 0"
| "role_rank Steward = 1"
| "role_rank Admin = 2"
| "role_rank Operator = 3"

instantiation role :: linorder
begin

definition less_eq_role :: "role \<Rightarrow> role \<Rightarrow> bool" where
  "less_eq_role a b \<longleftrightarrow> role_rank a \<le> role_rank b"

definition less_role :: "role \<Rightarrow> role \<Rightarrow> bool" where
  "less_role a b \<longleftrightarrow> role_rank a < role_rank b"

instance
proof
  fix a b :: role
  show "a = b" if "a \<le> b" "b \<le> a"
    using that by (cases a; cases b) (simp_all add: less_eq_role_def)
qed (auto simp: less_eq_role_def less_role_def)

end

section \<open>Comparing secrets\<close>

definition bytes :: "string \<Rightarrow> 8 word list" where
  "bytes s = map (\<lambda>c. word_of_nat (of_char c)) s"

definition ct_eq :: "8 word list \<Rightarrow> 8 word list \<Rightarrow> bool" where
  "ct_eq a b =
     (if length a \<noteq> length b then False
      else fold (\<lambda>(x, y) diff. diff OR (x XOR y)) (zip a b) 0 = 0)"

definition hash_secret :: "(string \<Rightarrow> nat list) \<Rightarrow> string \<Rightarrow> string" where
  "hash_secret sha256 secret = hex_bytes (sha256 secret)"

section \<open>Headers\<close>

type_synonym headers = "string \<Rightarrow> string option"

definition strip_prefix :: "string \<Rightarrow> string \<Rightarrow> string option" where
  "strip_prefix p s = (if take (length p) s = p then Some (drop (length p) s) else None)"

definition bearer :: "headers \<Rightarrow> string option" where
  "bearer hdr =
     (case Option.bind (hdr ''authorization'') (strip_prefix ''Bearer '') of
        None \<Rightarrow> None
      | Some t \<Rightarrow> if trim t = [] then None else Some (trim t))"

definition ACTING_USER_MAX :: nat where "ACTING_USER_MAX = 128"

definition ascii_graphic :: "char \<Rightarrow> bool" where
  "ascii_graphic c \<longleftrightarrow> 33 \<le> byte c \<and> byte c \<le> 126"

definition acceptable_actor :: "string \<Rightarrow> bool" where
  "acceptable_actor raw \<longleftrightarrow> raw \<noteq> [] \<and> length raw \<le> ACTING_USER_MAX
     \<and> list_all (\<lambda>c. ascii_graphic c \<and> c \<noteq> CHR 0x22 \<and> c \<noteq> CHR 0x5C) raw"

definition forwarded_actor :: "headers \<Rightarrow> string option" where
  "forwarded_actor hdr =
     (case hdr ''x-acting-user'' of
        None \<Rightarrow> None
      | Some v \<Rightarrow> if acceptable_actor (trim v) then Some (trim v) else None)"

definition TRACEPARENT_LEN :: nat where "TRACEPARENT_LEN = 55"

definition hexdigit :: "char \<Rightarrow> bool" where
  "hexdigit c \<longleftrightarrow> 48 \<le> byte c \<and> byte c \<le> 57 \<or> 65 \<le> byte c \<and> byte c \<le> 70 \<or> 97 \<le> byte c \<and> byte c \<le> 102"

definition hex_field :: "nat \<Rightarrow> string \<Rightarrow> bool" where
  "hex_field n s \<longleftrightarrow> length s = n \<and> list_all hexdigit s"

definition acceptable_traceparent :: "string \<Rightarrow> bool" where
  "acceptable_traceparent raw =
     (if length raw \<noteq> TRACEPARENT_LEN then False
      else case split_on (CHR ''-'') raw of
        [version, trace_id, span_id, flags] \<Rightarrow>
          hex_field 2 version \<and> version = ''00'' \<and> hex_field 32 trace_id \<and> list_ex (\<lambda>b. b \<noteq> CHR ''0'') trace_id
          \<and> hex_field 16 span_id \<and> list_ex (\<lambda>b. b \<noteq> CHR ''0'') span_id \<and> hex_field 2 flags
          \<and> list_all (\<lambda>b. \<not> (CHR ''A'' \<le> b \<and> b \<le> CHR ''Z'')) raw
      | _ \<Rightarrow> False)"

definition forwarded_traceparent :: "headers \<Rightarrow> string option" where
  "forwarded_traceparent hdr =
     (case hdr ''traceparent'' of
        None \<Rightarrow> None
      | Some v \<Rightarrow> if acceptable_traceparent (trim v) then Some (trim v) else None)"

definition compose_actor :: "string \<Rightarrow> string option \<Rightarrow> string" where
  "compose_actor credential user =
     (case user of Some u \<Rightarrow> ''user:'' @ u @ '' via '' @ credential | None \<Rightarrow> credential)"

section \<open>Keys and principals\<close>

record principal =
  pr_actor :: string
  pr_org :: "string option"
  pr_role :: role
  pr_trace_context :: "string option"

record api_key =
  ak_id :: string
  ak_org_id :: string
  ak_role :: string
  ak_key_hash :: string
  ak_created_at :: int
  ak_revoked_at :: "int option"
  ak_updated_at :: int

datatype tenant_state = Provisioning | Active | Suspended | Purging

record org_row =
  og_id :: string
  og_name :: string
  og_config_path :: string
  og_env :: json
  og_drop_root :: "string option"
  og_s3_ingest_bucket :: "string option"
  og_s3_ingest_prefix :: "string option"
  og_active_config_version :: "int option"
  og_state :: tenant_state
  og_max_concurrent_jobs :: "int option"
  og_created_at :: int
  og_updated_at :: int

record dataset_row =
  dt_id :: string
  dt_org_id :: string
  dt_name :: string
  dt_display_name :: "string option"
  dt_entity_type :: string
  dt_config_path :: string
  dt_env :: json
  dt_drop_root :: "string option"
  dt_s3_ingest_bucket :: "string option"
  dt_s3_ingest_prefix :: "string option"
  dt_active_config_version :: "int option"
  dt_state :: tenant_state
  dt_created_at :: int
  dt_updated_at :: int

record access_db =
  ac_keys :: "api_key list"
  ac_orgs :: "org_row list"
  ac_audit :: "(string \<times> string option \<times> string option \<times> string \<times> json) list"

type_synonym http_error = "nat \<times> string"

definition unauthorized :: "string \<Rightarrow> http_error" where
  "unauthorized msg = (401, msg)"

definition live_by_id :: "string \<Rightarrow> access_db \<Rightarrow> api_key list" where
  "live_by_id i db = filter (\<lambda>k. ak_id k = i \<and> ak_revoked_at k = None) (ac_keys db)"

definition lookup_key :: "string \<Rightarrow> access_db \<Rightarrow> (string \<times> string \<times> string) option" where
  "lookup_key i db = (case live_by_id i db of [] \<Rightarrow> None | k # _ \<Rightarrow> Some (ak_org_id k, ak_role k, ak_key_hash k))"

definition get_org_by_id :: "string \<Rightarrow> access_db \<Rightarrow> org_row option" where
  "get_org_by_id i db = find (\<lambda>g. og_id g = i) (ac_orgs db)"

definition get_org :: "string \<Rightarrow> access_db \<Rightarrow> org_row option" where
  "get_org name db = find (\<lambda>g. og_name g = name) (ac_orgs db)"

fun splitn3 :: "char \<Rightarrow> string \<Rightarrow> string list" where
  "splitn3 c s =
     (case split_once c s of
        None \<Rightarrow> [s]
      | Some (a, r) \<Rightarrow> (case split_once c r of None \<Rightarrow> [a, r] | Some (b, t) \<Rightarrow> [a, b, t]))"

declare splitn3.simps [simp del]

text \<open>The extractor of a principal. \<open>dsn\<close> is absent without a Postgres backend.\<close>

definition from_request_parts :: "(string \<Rightarrow> nat list) \<Rightarrow> string \<Rightarrow> (string + access_db) option \<Rightarrow> headers \<Rightarrow> http_error + principal" where
  "from_request_parts sha256 operator_token dsn hdr =
     (case bearer hdr of
        None \<Rightarrow> Inl (unauthorized ''missing bearer credential'')
      | Some credential \<Rightarrow>
          if operator_token \<noteq> [] \<and> ct_eq (bytes credential) (bytes operator_token)
          then Inr \<lparr>pr_actor = compose_actor ''operator'' (forwarded_actor hdr), pr_org = None, pr_role = Operator,
                    pr_trace_context = forwarded_traceparent hdr\<rparr>
          else case splitn3 (CHR ''_'') credential of
            [p, i, secret] \<Rightarrow>
              if p \<noteq> ''erk'' then Inl (unauthorized ''invalid credential'')
              else (case dsn of
                  None \<Rightarrow> Inl (unauthorized ''invalid credential'')
                | Some (Inl e) \<Rightarrow> Inl (500, ''db connect: '' @ e)
                | Some (Inr db) \<Rightarrow>
                    (case lookup_key i db of
                       None \<Rightarrow> Inl (unauthorized ''invalid credential'')
                     | Some (org_id, r, key_hash) \<Rightarrow>
                         if ct_eq (bytes key_hash) (bytes (hash_secret sha256 secret)) then
                           (case get_org_by_id org_id db of
                              None \<Rightarrow> Inl (unauthorized ''invalid credential'')
                            | Some g \<Rightarrow> Inr \<lparr>pr_actor = compose_actor (''key:'' @ i) (forwarded_actor hdr), pr_org = Some (og_name g),
                                 pr_role = (case parse_role r of None \<Rightarrow> Viewer | Some x \<Rightarrow> x),
                                 pr_trace_context = forwarded_traceparent hdr\<rparr>)
                         else Inl (unauthorized ''invalid credential'')))
          | _ \<Rightarrow> Inl (unauthorized ''invalid credential''))"

section \<open>Guards\<close>

definition quoted :: "string \<Rightarrow> string" where
  "quoted s = [CHR 0x27] @ s @ [CHR 0x27]"

definition guard :: "principal \<Rightarrow> string \<Rightarrow> role \<Rightarrow> http_error + unit" where
  "guard p org minimum =
     (if pr_role p = Operator then Inr ()
      else if pr_org p \<noteq> Some org then Inl (404, ''no org '' @ quoted org)
      else if pr_role p < minimum then Inl (403, ''requires '' @ role_str minimum @ '' role'')
      else Inr ())"

definition operator_only :: "principal \<Rightarrow> http_error + unit" where
  "operator_only p = (if pr_role p = Operator then Inr () else Inl (403, ''requires operator role''))"

section \<open>Minting and revoking keys\<close>

text \<open>The insert violates a constraint when the id is taken, the organization is missing or the role is not one a key may have.\<close>

definition issue_sql :: "int \<Rightarrow> string \<Rightarrow> string \<Rightarrow> string \<Rightarrow> string \<Rightarrow> access_db \<Rightarrow> access_db option" where
  "issue_sql now i org_id r key_hash db =
     (if i \<in> ak_id ` set (ac_keys db) \<or> org_id \<notin> og_id ` set (ac_orgs db) \<or> r \<notin> {''admin'', ''steward'', ''viewer''} then None
      else Some (db\<lparr>ac_keys := ac_keys db @ [\<lparr>ak_id = i, ak_org_id = org_id, ak_role = r, ak_key_hash = key_hash, ak_created_at = now,
             ak_revoked_at = None, ak_updated_at = now\<rparr>]\<rparr>))"

definition issue_key :: "(string \<Rightarrow> nat list) \<Rightarrow> int \<Rightarrow> string \<Rightarrow> nat list \<Rightarrow> string \<Rightarrow> string \<Rightarrow> access_db \<Rightarrow> ((string \<times> string) \<times> access_db) option" where
  "issue_key sha256 now new_v7 random org_id r db =
     (let secret = hex_bytes random in
      case issue_sql now new_v7 org_id r (hash_secret sha256 secret) db of
        None \<Rightarrow> None
      | Some db' \<Rightarrow> Some ((new_v7, ''erk_'' @ new_v7 @ ''_'' @ secret), db'))"

definition revoke_sql :: "int \<Rightarrow> string \<Rightarrow> string \<Rightarrow> access_db \<Rightarrow> nat \<times> access_db" where
  "revoke_sql now i org_id db =
     (let hit = (\<lambda>k. ak_id k = i \<and> ak_org_id k = org_id \<and> ak_revoked_at k = None) in
      (length (filter hit (ac_keys db)),
       db\<lparr>ac_keys := map (\<lambda>k. if hit k then k\<lparr>ak_revoked_at := Some now, ak_updated_at := now\<rparr> else k) (ac_keys db)\<rparr>))"

definition revoke_key :: "int \<Rightarrow> string \<Rightarrow> string \<Rightarrow> access_db \<Rightarrow> bool \<times> access_db" where
  "revoke_key now i org_id db = (case revoke_sql now i org_id db of (n, db') \<Rightarrow> (n = 1, db'))"

text \<open>A row of the audit ledger: actor, organization, dataset, action and detail. Its generated id and time and the ambient trace id are left out.\<close>

definition audit :: "string \<Rightarrow> string option \<Rightarrow> string option \<Rightarrow> string \<Rightarrow> json \<Rightarrow> access_db \<Rightarrow> access_db" where
  "audit actor org dataset action detail db = db\<lparr>ac_audit := ac_audit db @ [(actor, org, dataset, action, detail)]\<rparr>"

text \<open>The two handlers; \<open>pg_message\<close> is the text of the error when the insert is refused.\<close>

definition create_key_handler :: "(string \<Rightarrow> nat list) \<Rightarrow> string \<Rightarrow> int \<Rightarrow> string \<Rightarrow> nat list \<Rightarrow> principal \<Rightarrow> (string + access_db) option \<Rightarrow> string \<Rightarrow> string
    \<Rightarrow> http_error + (string \<times> string \<times> access_db)" where
  "create_key_handler sha256 pg_message now new_v7 random p dsn org body_role =
     (case operator_only p of
        Inl e \<Rightarrow> Inl e
      | Inr _ \<Rightarrow>
          (case parse_key_role body_role of
             None \<Rightarrow> Inl (422, ''invalid role '' @ quoted body_role)
           | Some r \<Rightarrow>
               (case dsn of
                  None \<Rightarrow> Inl (501, ''api keys require Postgres'')
                | Some (Inl e) \<Rightarrow> Inl (500, ''db connect: '' @ e)
                | Some (Inr db) \<Rightarrow>
                    (case get_org org db of
                       None \<Rightarrow> Inl (404, ''no org '' @ quoted org)
                     | Some g \<Rightarrow>
                         (case issue_key sha256 now new_v7 random (og_id g) (role_str r) db of
                            None \<Rightarrow> Inl (500, ''db: '' @ pg_message)
                          | Some ((i, key), db') \<Rightarrow>
                              Inr (i, key, audit (pr_actor p) (Some org) None ''key.issue''
                                (json_object [(''key_id'', JStr i), (''role'', JStr (role_str r))]) db'))))))"

definition revoke_key_handler :: "int \<Rightarrow> principal \<Rightarrow> (string + access_db) option \<Rightarrow> string \<Rightarrow> string \<Rightarrow> http_error + (bool \<times> access_db)" where
  "revoke_key_handler now p dsn org i =
     (case operator_only p of
        Inl e \<Rightarrow> Inl e
      | Inr _ \<Rightarrow>
          (case dsn of
             None \<Rightarrow> Inl (501, ''api keys require Postgres'')
           | Some (Inl e) \<Rightarrow> Inl (500, ''db connect: '' @ e)
           | Some (Inr db) \<Rightarrow>
               (case get_org org db of
                  None \<Rightarrow> Inl (404, ''no org '' @ quoted org)
                | Some g \<Rightarrow>
                    (case revoke_key now i (og_id g) db of (revoked, db') \<Rightarrow>
                       Inr (revoked, audit (pr_actor p) (Some org) None ''key.revoke''
                         (json_object [(''key_id'', JStr i), (''revoked'', JBool revoked)]) db')))))"


section \<open>Laws\<close>

lemma xor_word_eq_0_iff: "x XOR y = 0 \<longleftrightarrow> x = y" for x y :: "8 word"
  by (auto simp: bit_eq_iff bit_simps)

lemma ct_diff_zero:
  "fold (\<lambda>(x, y) diff. diff OR (x XOR y)) ps d = 0 \<longleftrightarrow> d = 0 \<and> (\<forall>(x, y) \<in> set ps. x = y)" for d :: "8 word"
  by (induction ps arbitrary: d) (auto simp: or_eq_0_iff xor_word_eq_0_iff)

text \<open>The constant-time comparison is equality.\<close>

lemma ct_eq_iff [simp]: "ct_eq a b \<longleftrightarrow> a = b"
proof -
  have "a = b \<longleftrightarrow> (\<forall>(x, y) \<in> set (zip a b). x = y)" if "length a = length b"
    using that by (induction a b rule: list_induct2) auto
  then show ?thesis by (auto simp: ct_eq_def ct_diff_zero)
qed

lemma bytes_inj [simp]: "bytes s = bytes t \<longleftrightarrow> s = t"
proof -
  have "inj (\<lambda>c. word_of_nat (of_char c) :: 8 word)"
  proof (rule injI)
    fix c d assume "(word_of_nat (of_char c) :: 8 word) = word_of_nat (of_char d)"
    then show "c = d" by (simp add: word_of_nat_eq_iff take_bit_eq_mod)
  qed
  then show ?thesis unfolding bytes_def by (simp add: inj_map_eq_map)
qed

lemma role_roundtrip: "parse_role (role_str r) = Some r"
  by (cases r) (simp_all add: parse_role_def)

lemma key_role_iff: "parse_key_role s = Some r \<longleftrightarrow> r \<noteq> Operator \<and> s = role_str r"
  by (cases r) (auto simp: parse_key_role_def parse_role_def split: if_splits option.splits role.splits)

lemma lookup_keyD:
  "lookup_key i db = Some (g, r, h) \<Longrightarrow> \<exists>k \<in> set (ac_keys db). ak_id k = i \<and> ak_revoked_at k = None \<and> ak_org_id k = g \<and> ak_role k = r \<and> ak_key_hash k = h"
  by (auto simp: lookup_key_def live_by_id_def filter_eq_Cons_iff split: list.splits)

lemma get_org_by_idD: "get_org_by_id i db = Some g \<Longrightarrow> g \<in> set (ac_orgs db) \<and> og_id g = i"
  by (auto simp: get_org_by_id_def find_Some_iff)

lemma splitn3_key: "CHR ''_'' \<notin> set i \<Longrightarrow> splitn3 (CHR ''_'') (''erk_'' @ i @ ''_'' @ secret) = [''erk'', i, secret]"
  using split_once_append [of "CHR ''_''" "''erk''" "i @ ''_'' @ secret"] split_once_append [of "CHR ''_''" i secret]
  by (simp add: splitn3.simps)

lemma from_request_parts_Inr:
  assumes "from_request_parts sha256 operator_token dsn hdr = Inr p"
  obtains (operator) "operator_token \<noteq> []" "bearer hdr = Some operator_token" "pr_role p = Operator" "pr_org p = None"
      "pr_actor p = compose_actor ''operator'' (forwarded_actor hdr)"
    | (key) i secret db k g where "bearer hdr = Some (''erk_'' @ i @ ''_'' @ secret)" "CHR ''_'' \<notin> set i" "dsn = Some (Inr db)" "k \<in> set (ac_keys db)"
      "ak_id k = i" "ak_revoked_at k = None" "ak_key_hash k = hash_secret sha256 secret" "g \<in> set (ac_orgs db)" "og_id g = ak_org_id k"
      "pr_org p = Some (og_name g)" "pr_role p = (case parse_role (ak_role k) of None \<Rightarrow> Viewer | Some x \<Rightarrow> x)"
      "pr_actor p = compose_actor (''key:'' @ i) (forwarded_actor hdr)"
proof -
  obtain cred where cred: "bearer hdr = Some cred" using assms by (cases "bearer hdr") (simp_all add: from_request_parts_def)
  show thesis
  proof (cases "operator_token \<noteq> [] \<and> cred = operator_token")
    case True
    then show thesis using operator assms cred by (auto simp: from_request_parts_def)
  next
    case False
    note run = assms [unfolded from_request_parts_def cred option.case ct_eq_iff bytes_inj if_not_P [OF False]]
    then obtain pre i secret where parts: "splitn3 (CHR ''_'') cred = [pre, i, secret]" by (auto split: list.splits)
    note run = run [unfolded parts list.case]
    then have "pre = ''erk''" by (auto split: if_splits)
    obtain db where db: "dsn = Some (Inr db)" using run by (auto split: if_splits option.splits sum.splits)
    obtain org_id r h where look: "lookup_key i db = Some (org_id, r, h)" using run by (auto simp: db split: if_splits option.splits)
    obtain g where g: "get_org_by_id org_id db = Some g" using run by (auto simp: db look split: if_splits option.splits)
    obtain k where k: "k \<in> set (ac_keys db)" "ak_id k = i" "ak_revoked_at k = None" "ak_org_id k = org_id" "ak_role k = r" "ak_key_hash k = h"
      using lookup_keyD [OF look] by blast
    obtain b where "cred = pre @ CHR ''_'' # b" "split_once (CHR ''_'') b = Some (i, secret)"
      using parts split_once_SomeD by (fastforce simp: splitn3.simps split: option.splits prod.splits)
    then have "cred = ''erk_'' @ i @ ''_'' @ secret" "CHR ''_'' \<notin> set i"
      using split_once_SomeD [of "CHR ''_''" b i secret] \<open>pre = ''erk''\<close> by simp_all
    moreover have "h = hash_secret sha256 secret" "p = \<lparr>pr_actor = compose_actor (''key:'' @ i) (forwarded_actor hdr), pr_org = Some (og_name g),
         pr_role = (case parse_role r of None \<Rightarrow> Viewer | Some x \<Rightarrow> x), pr_trace_context = forwarded_traceparent hdr\<rparr>"
      using run by (auto simp: db look g split: if_splits)
    ultimately show thesis using key [of i secret db k g] cred db k get_org_by_idD [OF g] by simp
  qed
qed

section \<open>Who may do what\<close>

text \<open>The role check of the key table; \<open>issue_sql\<close> enforces it.\<close>

definition keys_ok :: "access_db \<Rightarrow> bool" where
  "keys_ok db \<longleftrightarrow> (\<forall>k \<in> set (ac_keys db). ak_role k \<in> {''admin'', ''steward'', ''viewer''})"

text \<open>C9: tenants are isolated. A request that authenticates and passes the guard of an organization at some minimum role carries either the
  configured operator token or a token whose key is stored, not revoked, with the hash of the token's secret, belongs to that very organization and has at
  least that role. No other header plays a part.\<close>

theorem guarded_request_has_credential:
  assumes "from_request_parts sha256 operator_token dsn hdr = Inr p" and "guard p org minimum = Inr ()"
    and "\<And>db. dsn = Some (Inr db) \<Longrightarrow> keys_ok db"
  shows "operator_token \<noteq> [] \<and> bearer hdr = Some operator_token \<or>
    (\<exists>db k g secret r. dsn = Some (Inr db) \<and> k \<in> set (ac_keys db) \<and> ak_revoked_at k = None \<and> bearer hdr = Some (''erk_'' @ ak_id k @ ''_'' @ secret)
       \<and> ak_key_hash k = hash_secret sha256 secret \<and> g \<in> set (ac_orgs db) \<and> og_id g = ak_org_id k \<and> og_name g = org
       \<and> parse_role (ak_role k) = Some r \<and> minimum \<le> r \<and> r \<noteq> Operator)"
  using assms(1)
proof (cases rule: from_request_parts_Inr)
  case operator
  then show ?thesis by blast
next
  case (key i secret db k g)
  have "ak_role k \<in> {''admin'', ''steward'', ''viewer''}" using assms(3) [OF key(3)] key(4) by (simp add: keys_ok_def)
  then obtain x where x: "parse_role (ak_role k) = Some x" "x \<noteq> Operator" by (auto simp: parse_role_def)
  then have "pr_role p = x" using key by simp
  then have "og_name g = org" "minimum \<le> x" using assms(2) x(2) key(10) by (auto simp: guard_def split: if_splits)
  then show ?thesis using key x by (intro disjI2 exI [of _ db] exI [of _ k] exI [of _ g] exI [of _ secret] exI [of _ x]) simp
qed

text \<open>Every minted key, and every key a run of the key handlers leaves, has one of the three roles.\<close>

inductive key_step :: "(string \<Rightarrow> nat list) \<Rightarrow> access_db \<Rightarrow> access_db \<Rightarrow> bool" for sha256 where
  minted: "create_key_handler sha256 pg_message now i random p (Some (Inr db)) org r = Inr (i', key, db') \<Longrightarrow> key_step sha256 db db'"
| revoked: "revoke_key_handler now p (Some (Inr db)) org i = Inr (b, db') \<Longrightarrow> key_step sha256 db db'"

lemma create_keyD:
  assumes "create_key_handler sha256 pg_message now i random p (Some (Inr db)) org r = Inr (i', key, db')"
  obtains g x where "pr_role p = Operator" "r = role_str x" "x \<noteq> Operator" "get_org org db = Some g" "i' = i" "i \<notin> ak_id ` set (ac_keys db)"
    "key = ''erk_'' @ i @ ''_'' @ hex_bytes random" "ac_orgs db' = ac_orgs db"
    "ac_keys db' = ac_keys db @ [\<lparr>ak_id = i, ak_org_id = og_id g, ak_role = r, ak_key_hash = hash_secret sha256 (hex_bytes random), ak_created_at = now,
       ak_revoked_at = None, ak_updated_at = now\<rparr>]"
proof -
  have "pr_role p = Operator" using assms by (auto simp: create_key_handler_def operator_only_def split: if_splits)
  note run = assms [unfolded create_key_handler_def operator_only_def if_P [OF this] sum.case option.case]
  obtain x where x: "parse_key_role r = Some x" using run by (auto split: option.splits)
  then have role: "x \<noteq> Operator" "r = role_str x" by (simp_all add: key_role_iff)
  obtain g where g: "get_org org db = Some g" using run by (auto simp: x split: option.splits)
  show thesis
    using that [OF \<open>pr_role p = Operator\<close> role(2,1) g] run
    by (auto simp: x x [unfolded role(2)] g role(2) issue_key_def issue_sql_def Let_def audit_def split: if_splits)
qed

lemma revoke_keyD:
  assumes "revoke_key_handler now p (Some (Inr db)) org i = Inr (b, db')"
  obtains g where "pr_role p = Operator" "get_org org db = Some g" "ac_orgs db' = ac_orgs db"
    "ac_keys db' = map (\<lambda>k. if ak_id k = i \<and> ak_org_id k = og_id g \<and> ak_revoked_at k = None
       then k\<lparr>ak_revoked_at := Some now, ak_updated_at := now\<rparr> else k) (ac_keys db)"
  using assms
  by (auto simp: revoke_key_handler_def operator_only_def revoke_key_def revoke_sql_def Let_def audit_def split: if_splits option.splits)

definition is_key :: "string \<Rightarrow> string \<Rightarrow> string \<Rightarrow> string \<Rightarrow> api_key \<Rightarrow> bool" where
  "is_key i org_id r h k \<longleftrightarrow> ak_id k = i \<and> ak_org_id k = org_id \<and> ak_role k = r \<and> ak_key_hash k = h"

text \<open>One row carries the id, and it is the minted one.\<close>

definition tracked :: "string \<Rightarrow> string \<Rightarrow> string \<Rightarrow> string \<Rightarrow> access_db \<Rightarrow> bool" where
  "tracked i org_id r h db \<longleftrightarrow> (\<exists>k. filter (\<lambda>k. ak_id k = i) (ac_keys db) = [k] \<and> is_key i org_id r h k)"

lemma filter_map_same: "(\<And>x. P (f x) = P x) \<Longrightarrow> filter P (map f xs) = map f (filter P xs)"
  by (induction xs) auto

lemma key_step_tracked:
  assumes "key_step sha256 db db'" and "tracked i org_id r h db"
  shows "tracked i org_id r h db' \<and> ac_orgs db' = ac_orgs db \<and> (live_by_id i db = [] \<longrightarrow> live_by_id i db' = [])"
  using assms(1)
proof cases
  case (minted pg_message now j random p org ro j' key)
  then show ?thesis
  proof (rule create_keyD)
    fix g assume c: "j \<notin> ak_id ` set (ac_keys db)" "ac_orgs db' = ac_orgs db"
      "ac_keys db' = ac_keys db @ [\<lparr>ak_id = j, ak_org_id = og_id g, ak_role = ro, ak_key_hash = hash_secret sha256 (hex_bytes random), ak_created_at = now,
         ak_revoked_at = None, ak_updated_at = now\<rparr>]"
    have "i \<in> ak_id ` set (ac_keys db)" using assms(2) unfolding tracked_def filter_eq_Cons_iff by auto
    then have "j \<noteq> i" using c(1) by blast
    then show ?thesis using assms(2) c by (simp add: tracked_def live_by_id_def)
  qed
next
  case (revoked now p org j b)
  obtain g :: org_row where c: "ac_orgs db' = ac_orgs db"
    "ac_keys db' = map (\<lambda>k. if ak_id k = j \<and> ak_org_id k = og_id g \<and> ak_revoked_at k = None
       then k\<lparr>ak_revoked_at := Some now, ak_updated_at := now\<rparr> else k) (ac_keys db)" (is "_ = map ?f _") by (rule revoke_keyD [OF revoked]) (rule that)
  have "filter (\<lambda>k. ak_id k = i) (ac_keys db') = map ?f (filter (\<lambda>k. ak_id k = i) (ac_keys db))"
    unfolding c(2) by (rule filter_map_same) simp
  then have "tracked i org_id r h db'" using assms(2) by (auto simp: tracked_def is_key_def)
  moreover have "live_by_id i db' = []" if "live_by_id i db = []"
    using that unfolding live_by_id_def c(2) filter_empty_conv by auto
  ultimately show ?thesis using c(1) by blast
qed

lemma key_run_tracked:
  assumes "(key_step sha256)\<^sup>*\<^sup>* db db'" and "tracked i org_id r h db"
  shows "tracked i org_id r h db' \<and> ac_orgs db' = ac_orgs db \<and> (live_by_id i db = [] \<longrightarrow> live_by_id i db' = [])"
  using assms(1)
proof (induction rule: rtranclp_induct)
  case (step a b)
  then show ?case using key_step_tracked [OF step.hyps(2), of i org_id r h] by auto
qed (use assms(2) in simp)

lemma hex_bytes_visible: "\<forall>b \<in> set bs. b < 256 \<Longrightarrow> no_ws (hex_bytes bs)"
proof -
  have digit: "no_ws [hex_digit d]" if "d < 16" for d
    using that by (auto simp: no_ws_def hex_digit_def)
  have "no_ws (hex_byte b)" if "b < 256" for b
    using digit [of "b div 16"] digit [of "b mod 16"] that by (simp add: hex_byte_def no_ws_def)
  then show "\<forall>b \<in> set bs. b < 256 \<Longrightarrow> no_ws (hex_bytes bs)"
    by (induction bs) (auto simp: hex_bytes_def no_ws_def)
qed

lemma ws_len_no_ws: "no_ws s \<Longrightarrow> ws_len s = 0"
  by (induction s rule: ws_len.induct) (auto simp: no_ws_def ws1_def ws2_def ws3_def)

lemma trim_visible: "no_ws s \<Longrightarrow> trim s = s"
proof -
  assume s: "no_ws s"
  then have "no_ws (drop n s)" for n by (auto simp: no_ws_def list_all_iff dest: in_set_dropD)
  then have "ws_end_len s = 0" by (simp add: ws_end_len_def ws_len_no_ws)
  then show "trim s = s" using ws_len_no_ws [OF s] by (simp add: trim_def trim_start.simps [of s] trim_end.simps [of s])
qed


text \<open>A sample installation: one organization, the operator, and the key minted for it.\<close>

definition sample_sha :: "string \<Rightarrow> nat list" where
  "sample_sha s = map (\<lambda>c. byte c mod 256) s"

definition sample_org :: org_row where
  "sample_org = \<lparr>og_id = ''o1'', og_name = ''acme'', og_config_path = ''/srv/acme/config.yaml'', og_env = JNull, og_drop_root = None,
     og_s3_ingest_bucket = None, og_s3_ingest_prefix = None, og_active_config_version = None, og_state = Active,
     og_max_concurrent_jobs = None, og_created_at = 0, og_updated_at = 0\<rparr>"

definition sample_dataset :: dataset_row where
  "sample_dataset = \<lparr>dt_id = ''d1'', dt_org_id = ''o1'', dt_name = ''people'', dt_display_name = None, dt_entity_type = ''person'',
     dt_config_path = ''/srv/acme/people/config.yaml'', dt_env = JNull, dt_drop_root = None, dt_s3_ingest_bucket = None,
     dt_s3_ingest_prefix = None, dt_active_config_version = None, dt_state = Active, dt_created_at = 0, dt_updated_at = 0\<rparr>"

definition sample_access :: access_db where
  "sample_access = \<lparr>ac_keys = [], ac_orgs = [sample_org], ac_audit = []\<rparr>"

definition the_operator :: principal where
  "the_operator = \<lparr>pr_actor = ''operator'', pr_org = None, pr_role = Operator, pr_trace_context = None\<rparr>"

definition sample_key :: string where
  "sample_key = ''erk_k1_0aff''"

definition sample_minted :: access_db where
  "sample_minted = (case create_key_handler sample_sha [] 1 ''k1'' [10, 255] the_operator (Some (Inr sample_access)) ''acme'' ''steward'' of
     Inr (_, _, db) \<Rightarrow> db | Inl _ \<Rightarrow> sample_access)"

definition sample_revoked :: access_db where
  "sample_revoked = (case revoke_key_handler 2 the_operator (Some (Inr sample_minted)) ''acme'' ''k1'' of Inr (_, db) \<Rightarrow> db | Inl _ \<Rightarrow> sample_access)"

definition sample_headers :: headers where
  "sample_headers = [''authorization'' \<mapsto> ''Bearer '' @ sample_key, ''x-acting-user'' \<mapsto> ''ada@acme.test'']"


theorem guarded_request_has_credential_witness:
  "\<exists>p k. from_request_parts sample_sha ''root'' (Some (Inr sample_minted)) sample_headers = Inr p \<and> guard p ''acme'' Viewer = Inr ()
     \<and> k \<in> set (ac_keys sample_minted) \<and> ak_revoked_at k = None"
proof -
  obtain p where p: "from_request_parts sample_sha ''root'' (Some (Inr sample_minted)) sample_headers = Inr p" "guard p ''acme'' Viewer = Inr ()"
  proof (cases "from_request_parts sample_sha ''root'' (Some (Inr sample_minted)) sample_headers")
    case (Inl e)
    have "\<not> isl (from_request_parts sample_sha ''root'' (Some (Inr sample_minted)) sample_headers)" by code_simp
    then show thesis using Inl by simp
  next
    case (Inr p)
    have "map_sum fst (\<lambda>p. guard p ''acme'' Viewer) (from_request_parts sample_sha ''root'' (Some (Inr sample_minted)) sample_headers) = Inr (Inr ())" by code_simp
    then show thesis using Inr that by simp
  qed
  have ok: "keys_ok sample_minted" by code_simp
  have no: "bearer sample_headers \<noteq> Some ''root''" by code_simp
  have "\<exists>k \<in> set (ac_keys sample_minted). ak_revoked_at k = None"
    using guarded_request_has_credential [OF p] ok no by auto
  then show ?thesis using p by blast
qed

text \<open>Attribution: the recorded actor determines the credential and the named human, so a forged name never hides the credential behind it.\<close>

lemma actor_names_credential:
  assumes "compose_actor c u = compose_actor c' u'"
    and "CHR '' '' \<notin> set c" "CHR '' '' \<notin> set c'" "take 5 c \<noteq> ''user:''" "take 5 c' \<noteq> ''user:''"
    and "\<And>x. u = Some x \<Longrightarrow> acceptable_actor x" "\<And>x. u' = Some x \<Longrightarrow> acceptable_actor x"
  shows "c = c' \<and> u = u'"
proof -
  have "\<not> ascii_graphic (CHR '' '')" by (simp add: ascii_graphic_def)
  then have blank: "CHR '' '' \<notin> set x" if "acceptable_actor x" for x
    using that unfolding acceptable_actor_def list_all_iff by blast
  have take: "take 5 (compose_actor d (Some x)) = ''user:''" for d x by (simp add: compose_actor_def)
  have both: "d = d' \<and> x = x'" if "compose_actor d (Some x) = compose_actor d' (Some x')" "acceptable_actor x" "acceptable_actor x'" for d d' x x'
  proof -
    have "x @ CHR '' '' # (''via '' @ d) = x' @ CHR '' '' # (''via '' @ d')" using that(1) by (simp add: compose_actor_def)
    then have "split_once (CHR '' '') (x @ CHR '' '' # (''via '' @ d)) = split_once (CHR '' '') (x' @ CHR '' '' # (''via '' @ d'))" by simp
    then show ?thesis using split_once_append blank that(2,3) by simp
  qed
  have none: "compose_actor d None = d" for d by (simp add: compose_actor_def)
  show ?thesis
  proof (cases u)
    case None
    have "u' = None"
    proof (cases u')
      case (Some x)
      then have "take 5 c = ''user:''" using assms(1) None take [of c' x] none by simp
      then show ?thesis using assms(4) by simp
    qed
    then show ?thesis using assms(1) None none by simp
  next
    case (Some x)
    obtain x' where "u' = Some x'"
    proof (cases u')
      case None
      then have "take 5 c' = ''user:''" using assms(1) Some take [of c x] none by simp
      then show thesis using assms(5) by simp
    qed
    then show ?thesis using both [of c x c' x'] assms(1,6,7) Some by simp
  qed
qed

end
