(* ===== verification/Webhook.thy ===== *)
theory Webhook
  imports Access TaskLedger UrlGuard
begin

text \<open>
  Outbound webhooks: the outbox of \<open>er-server/src/webhook.rs\<close>, the statements on subscriptions and deliveries
  (\<open>er-entities/src/webhook.rs\<close>, \<open>webhook_delivery.rs\<close>), the functions of \<open>pg.rs\<close> over them and the handlers of \<open>lib.rs\<close>. An event becomes one
  row per subscriber; a drainer claims a due row, posts it and settles the row by the answer. HMAC-SHA256, JSON serialization, URL parsing,
  name resolution, the text of a refusal and the network are parameters. The column \<open>events\<close> holds the JSON array of the
  list of names; times are in seconds.
\<close>

section \<open>Events\<close>

definition EVENT_NAMES :: "string list" where
  "EVENT_NAMES = [''job.succeeded'', ''job.failed'', ''job.canceled'', ''config.published'', ''import.received'', ''review.resolved'',
     ''entity.created'', ''entity.member_added'', ''entity.member_removed'', ''entity.merged'', ''entity.split'', ''entity.retired'',
     ''entity.write_back'']"

definition is_known_event :: "string \<Rightarrow> bool" where
  "is_known_event event_type \<longleftrightarrow> list_ex (\<lambda>name. name = event_type) EVENT_NAMES"

definition MAX_DELIVERY_ATTEMPTS :: int where "MAX_DELIVERY_ATTEMPTS = 6"

definition sign :: "(string \<Rightarrow> string \<Rightarrow> nat list) \<Rightarrow> string \<Rightarrow> string \<Rightarrow> string" where
  "sign hmac secret body = ''sha256='' @ hex_bytes (hmac secret body)"

section \<open>Tables\<close>

record webhook =
  wh_id :: string
  wh_org_id :: string
  wh_dataset_id :: "string option"
  wh_url :: string
  wh_events :: "string list"
  wh_secret :: string
  wh_active :: bool
  wh_created_at :: int
  wh_updated_at :: int

datatype delivery_state = Pending | Delivered | DeliveryFailed

fun delivery_state_str :: "delivery_state \<Rightarrow> string" where
  "delivery_state_str Pending = ''pending''"
| "delivery_state_str Delivered = ''delivered''"
| "delivery_state_str DeliveryFailed = ''failed''"

record delivery =
  wd_id :: string
  wd_org_id :: string
  wd_dataset_id :: "string option"
  wd_webhook_id :: string
  wd_event_type :: string
  wd_payload :: json
  wd_state :: delivery_state
  wd_attempt :: int
  wd_max_attempts :: int
  wd_next_attempt_at :: "int option"
  wd_response_code :: "nat option"
  wd_error :: "string option"
  wd_delivered_at :: "int option"
  wd_created_at :: int
  wd_updated_at :: int

record hook_db =
  hk_access :: access_db
  hk_datasets :: "dataset_row list"
  hk_webhooks :: "webhook list"
  hk_deliveries :: "delivery list"

section \<open>Statements\<close>

text \<open>A statement that violates a key or a reference gives \<open>None\<close>.\<close>

definition enqueue_delivery :: "int \<Rightarrow> string \<Rightarrow> string \<Rightarrow> string option \<Rightarrow> string \<Rightarrow> string \<Rightarrow> json \<Rightarrow> int \<Rightarrow> hook_db \<Rightarrow> (delivery list \<times> hook_db) option" where
  "enqueue_delivery now i org_id dataset_id webhook_id event_type payload max_attempts db =
     (if i \<in> wd_id ` set (hk_deliveries db) \<or> org_id \<notin> og_id ` set (ac_orgs (hk_access db))
         \<or> (case dataset_id of None \<Rightarrow> False | Some d \<Rightarrow> d \<notin> dt_id ` set (hk_datasets db)) \<or> webhook_id \<notin> wh_id ` set (hk_webhooks db) then None
      else let d = \<lparr>wd_id = i, wd_org_id = org_id, wd_dataset_id = dataset_id, wd_webhook_id = webhook_id, wd_event_type = event_type,
                    wd_payload = payload, wd_state = Pending, wd_attempt = 0, wd_max_attempts = max_attempts, wd_next_attempt_at = None,
                    wd_response_code = None, wd_error = None, wd_delivered_at = None, wd_created_at = now, wd_updated_at = now\<rparr>
           in Some ([d], db\<lparr>hk_deliveries := hk_deliveries db @ [d]\<rparr>))"

definition page_deliveries :: "string \<Rightarrow> string option \<Rightarrow> string option \<Rightarrow> int \<Rightarrow> hook_db \<Rightarrow> delivery list" where
  "page_deliveries org_id webhook_id state page db =
     take (nat page) (rev (sort_key wd_created_at (sort_key wd_id (filter (\<lambda>d. wd_org_id d = org_id
       \<and> (webhook_id = None \<or> webhook_id = Some (wd_webhook_id d)) \<and> (state = None \<or> state = Some (delivery_state_str (wd_state d))))
       (hk_deliveries db)))))"

definition due :: "int \<Rightarrow> delivery \<Rightarrow> bool" where
  "due now d \<longleftrightarrow> wd_state d = Pending \<and> (case wd_next_attempt_at d of None \<Rightarrow> True | Some t \<Rightarrow> t \<le> now)"

definition update_deliveries :: "(delivery \<Rightarrow> bool) \<Rightarrow> (delivery \<Rightarrow> delivery) \<Rightarrow> hook_db \<Rightarrow> delivery list \<times> hook_db" where
  "update_deliveries hit f db =
     (map f (filter hit (hk_deliveries db)), db\<lparr>hk_deliveries := map (\<lambda>d. if hit d then f d else d) (hk_deliveries db)\<rparr>)"

definition next_due :: "int \<Rightarrow> hook_db \<Rightarrow> delivery option" where
  "next_due now db = (case sort_key wd_created_at (sort_key wd_id (filter (due now) (hk_deliveries db))) of [] \<Rightarrow> None | d # _ \<Rightarrow> Some d)"

definition claim_delivery :: "int \<Rightarrow> hook_db \<Rightarrow> delivery list \<times> hook_db" where
  "claim_delivery now db =
     (case next_due now db of
        None \<Rightarrow> ([], db)
      | Some d \<Rightarrow> update_deliveries (\<lambda>x. wd_id x = wd_id d) (\<lambda>x. x\<lparr>wd_attempt := wd_attempt x + 1, wd_updated_at := now\<rparr>) db)"

definition delivery_backoff :: "int \<Rightarrow> int" where
  "delivery_backoff attempt = min 300 (5 * 2 ^ nat (max (attempt - 1) 0))"

definition settle_delivery :: "int \<Rightarrow> bool \<Rightarrow> bool \<Rightarrow> nat option \<Rightarrow> string option \<Rightarrow> string \<Rightarrow> hook_db \<Rightarrow> delivery list \<times> hook_db" where
  "settle_delivery now delivered retryable response_code error delivery_id =
     update_deliveries (\<lambda>x. wd_id x = delivery_id)
       (\<lambda>x. x\<lparr>wd_state := (if delivered then Delivered else if retryable \<and> wd_attempt x < wd_max_attempts x then Pending else DeliveryFailed),
              wd_next_attempt_at := (if \<not> delivered \<and> retryable \<and> wd_attempt x < wd_max_attempts x
                then Some (now + delivery_backoff (wd_attempt x)) else wd_next_attempt_at x),
              wd_response_code := response_code, wd_error := error,
              wd_delivered_at := (if delivered then Some now else wd_delivered_at x), wd_updated_at := now\<rparr>)"

definition create_hook_sql :: "int \<Rightarrow> string \<Rightarrow> string \<Rightarrow> string option \<Rightarrow> string \<Rightarrow> string list \<Rightarrow> string \<Rightarrow> hook_db \<Rightarrow> hook_db option" where
  "create_hook_sql now i org_id dataset_id url events secret db =
     (if i \<in> wh_id ` set (hk_webhooks db) \<or> org_id \<notin> og_id ` set (ac_orgs (hk_access db))
         \<or> (case dataset_id of None \<Rightarrow> False | Some d \<Rightarrow> d \<notin> dt_id ` set (hk_datasets db)) then None
      else Some (db\<lparr>hk_webhooks := hk_webhooks db @ [\<lparr>wh_id = i, wh_org_id = org_id, wh_dataset_id = dataset_id, wh_url = url,
             wh_events = events, wh_secret = secret, wh_active = True, wh_created_at = now, wh_updated_at = now\<rparr>]\<rparr>))"

definition hook_by_id :: "string \<Rightarrow> hook_db \<Rightarrow> webhook list" where
  "hook_by_id i db = filter (\<lambda>w. wh_id w = i \<and> wh_active w) (hk_webhooks db)"

definition for_delivery :: "string \<Rightarrow> string \<Rightarrow> hook_db \<Rightarrow> webhook list" where
  "for_delivery org_id event_type db =
     sort_key wh_created_at (filter (\<lambda>w. wh_org_id w = org_id \<and> wh_active w \<and> (event_type \<in> set (wh_events w) \<or> wh_events w = []))
       (hk_webhooks db))"

definition list_active :: "string \<Rightarrow> hook_db \<Rightarrow> webhook list" where
  "list_active org_id db = sort_key wh_created_at (filter (\<lambda>w. wh_org_id w = org_id \<and> wh_active w) (hk_webhooks db))"

definition deactivate :: "int \<Rightarrow> string \<Rightarrow> string \<Rightarrow> hook_db \<Rightarrow> nat \<times> hook_db" where
  "deactivate now org_id webhook_id db =
     (let hit = (\<lambda>w. wh_org_id w = org_id \<and> wh_id w = webhook_id \<and> wh_active w) in
      (length (filter hit (hk_webhooks db)),
       db\<lparr>hk_webhooks := map (\<lambda>w. if hit w then w\<lparr>wh_active := False, wh_updated_at := now\<rparr> else w) (hk_webhooks db)\<rparr>))"

section \<open>The functions over them\<close>

definition create_webhook :: "int \<Rightarrow> string \<Rightarrow> string \<Rightarrow> string option \<Rightarrow> string \<Rightarrow> string list \<Rightarrow> string \<Rightarrow> hook_db \<Rightarrow> (string \<times> hook_db) option" where
  "create_webhook now new_v7 org_id dataset_id url events secret db =
     (case create_hook_sql now new_v7 org_id dataset_id url events secret db of None \<Rightarrow> None | Some db' \<Rightarrow> Some (new_v7, db'))"

definition list_webhooks :: "string \<Rightarrow> hook_db \<Rightarrow> (string \<times> string \<times> string list \<times> bool) list" where
  "list_webhooks org_id db = map (\<lambda>w. (wh_id w, wh_url w, wh_events w, wh_active w)) (list_active org_id db)"

definition webhooks_for_delivery :: "string \<Rightarrow> string \<Rightarrow> hook_db \<Rightarrow> (string \<times> string \<times> string) list" where
  "webhooks_for_delivery org_id event_type db = map (\<lambda>w. (wh_id w, wh_url w, wh_secret w)) (for_delivery org_id event_type db)"

definition webhook_endpoint :: "string \<Rightarrow> hook_db \<Rightarrow> (string \<times> string) option" where
  "webhook_endpoint webhook_id db = (case hook_by_id webhook_id db of [] \<Rightarrow> None | w # _ \<Rightarrow> Some (wh_url w, wh_secret w))"

definition delete_webhook :: "int \<Rightarrow> string \<Rightarrow> string \<Rightarrow> hook_db \<Rightarrow> bool \<times> hook_db" where
  "delete_webhook now org_id webhook_id db = (case deactivate now org_id webhook_id db of (n, db') \<Rightarrow> (n = 1, db'))"

section \<open>Recording an event\<close>

text \<open>The body of an event: its type and organization, then the fields of its data.\<close>

definition event_body :: "string \<Rightarrow> string \<Rightarrow> json \<Rightarrow> json" where
  "event_body event_type org_name data =
     (let doc = [(''event'', JStr event_type), (''org'', JStr org_name)] in
      json_object (case data of JObj extra \<Rightarrow> doc @ extra | _ \<Rightarrow> doc))"

text \<open>The rows of the subscribers, each with an id of its own; \<open>mint\<close> gives the ids in the order of the calls. An error stops the loop and
  leaves the rows already inserted.\<close>

fun enqueue_all :: "int \<Rightarrow> (nat \<Rightarrow> string) \<Rightarrow> nat \<Rightarrow> string \<Rightarrow> string option \<Rightarrow> string \<Rightarrow> json \<Rightarrow> (string \<times> string \<times> string) list \<Rightarrow> hook_db
    \<Rightarrow> delivery list option \<times> hook_db" where
  "enqueue_all now mint i org_id dataset_id event_type body [] db = (Some [], db)"
| "enqueue_all now mint i org_id dataset_id event_type body ((webhook_id, _, _) # targets) db =
     (case enqueue_delivery now (mint i) org_id dataset_id webhook_id event_type body MAX_DELIVERY_ATTEMPTS db of
        None \<Rightarrow> (None, db)
      | Some (rows, db1) \<Rightarrow>
          (case enqueue_all now mint (Suc i) org_id dataset_id event_type body targets db1 of
             (None, db2) \<Rightarrow> (None, db2)
           | (Some queued, db2) \<Rightarrow> (Some (rows @ queued), db2)))"

definition emit :: "int \<Rightarrow> (nat \<Rightarrow> string) \<Rightarrow> string \<Rightarrow> string option \<Rightarrow> string \<Rightarrow> string \<Rightarrow> json \<Rightarrow> hook_db \<Rightarrow> delivery list option \<times> hook_db" where
  "emit now mint org_id dataset_id org_name event_type data db =
     (let targets = webhooks_for_delivery org_id event_type db in
      if targets = [] then (Some [], db)
      else enqueue_all now mint 0 org_id dataset_id event_type (event_body event_type org_name data) targets db)"

fun job_state_str :: "job_state \<Rightarrow> string" where
  "job_state_str JobQueued = ''queued''"
| "job_state_str Dispatching = ''dispatching''"
| "job_state_str JobRunning = ''running''"
| "job_state_str JobCanceling = ''canceling''"
| "job_state_str JobSucceeded = ''succeeded''"
| "job_state_str JobFailed = ''failed''"
| "job_state_str JobCanceled = ''canceled''"

definition emit_job_event :: "int \<Rightarrow> (nat \<Rightarrow> string) \<Rightarrow> job \<Rightarrow> hook_db \<Rightarrow> delivery list option \<times> hook_db" where
  "emit_job_event now mint job db =
     (let event_type = ''job.'' @ job_state_str (jb_state job);
          data = json_object [(''job_id'', JStr (jb_id job)), (''kind'', JStr (jb_kind job)), (''state'', JStr (job_state_str (jb_state job)))];
          org_name = (case get_org_by_id (jb_org_id job) (hk_access db) of None \<Rightarrow> jb_org_id job | Some g \<Rightarrow> og_name g) in
      emit now mint (jb_org_id job) (jb_dataset_id job) org_name event_type data db)"

section \<open>Draining the outbox\<close>

text \<open>What the drainer meets outside: \<open>send url body signature\<close> is a transport error or a status code.\<close>

record network =
  nw_parse_url :: "string \<Rightarrow> url option"
  nw_lookup :: "string \<Rightarrow> nat \<Rightarrow> ip_addr list option"
  nw_display :: "url_rejection \<Rightarrow> string"
  nw_send :: "string \<Rightarrow> string \<Rightarrow> string \<Rightarrow> string + nat"

record posted =
  po_delivery :: string
  po_url :: string
  po_body :: string
  po_signature :: string
  po_answer :: "string + nat"

record delivered_report =
  dr_delivery_id :: string
  dr_webhook_id :: string
  dr_state :: string
  dr_status :: "nat option"
  dr_error :: "string option"

definition classify_answer :: "string + nat \<Rightarrow> bool \<times> bool \<times> nat option \<times> string option" where
  "classify_answer answer =
     (case answer of
        Inr code \<Rightarrow>
          if 200 \<le> code \<and> code < 300 then (True, False, Some code, None)
          else (False, code = 408 \<or> code = 429 \<or> 500 \<le> code \<and> code < 600, Some code, Some (''HTTP '' @ show_nat code))
      | Inl e \<Rightarrow> (False, True, None, Some e))"

definition settle_post :: "int \<Rightarrow> string \<Rightarrow> bool \<Rightarrow> bool \<Rightarrow> nat option \<Rightarrow> string option \<Rightarrow> hook_db \<Rightarrow> string \<times> hook_db" where
  "settle_post now delivery_id delivered retryable status error db =
     (case settle_delivery now delivered retryable status error delivery_id db of
        ([], db') \<Rightarrow> (''failed'', db')
      | (r # _, db') \<Rightarrow> (delivery_state_str (wd_state r), db'))"

text \<open>One attempt, claimed at \<open>now\<close> and settled at \<open>later\<close>, with the request it sent, if any.\<close>

definition drain_once_with_egress :: "(string \<Rightarrow> string \<Rightarrow> nat list) \<Rightarrow> (json \<Rightarrow> string) \<Rightarrow> network \<Rightarrow> egress \<Rightarrow> int \<Rightarrow> int \<Rightarrow> hook_db
    \<Rightarrow> delivered_report option \<times> posted list \<times> hook_db" where
  "drain_once_with_egress hmac to_vec net egress now later db =
     (case claim_delivery now db of
        ([], db1) \<Rightarrow> (None, [], db1)
      | (d # _, db1) \<Rightarrow>
          (let settled = (\<lambda>delivered retryable status error.
             (case settle_post later (wd_id d) delivered retryable status error db1 of (state, db2) \<Rightarrow>
                (\<lparr>dr_delivery_id = wd_id d, dr_webhook_id = wd_webhook_id d, dr_state = state, dr_status = status, dr_error = error\<rparr>, db2))) in
           case webhook_endpoint (wd_webhook_id d) db1 of
             None \<Rightarrow> (case settled False False None (Some ''the subscription no longer exists'') of (rep, db2) \<Rightarrow> (Some rep, [], db2))
           | Some (url, secret) \<Rightarrow>
               (case check (nw_parse_url net) (nw_lookup net) url egress of
                  Inl rejection \<Rightarrow>
                    (case settled False False None (Some (''refused: '' @ nw_display net rejection)) of (rep, db2) \<Rightarrow> (Some rep, [], db2))
                | Inr _ \<Rightarrow>
                    (let body = to_vec (wd_payload d); signature = sign hmac secret body; answer = nw_send net url body signature in
                     case classify_answer answer of (delivered, retryable, status, error) \<Rightarrow>
                       (case settled delivered retryable status error of (rep, db2) \<Rightarrow>
                          (Some rep, [\<lparr>po_delivery = wd_id d, po_url = url, po_body = body, po_signature = signature, po_answer = answer\<rparr>], db2))))))"

definition drain_once :: "(string \<Rightarrow> string \<Rightarrow> nat list) \<Rightarrow> (json \<Rightarrow> string) \<Rightarrow> network \<Rightarrow> int \<Rightarrow> int \<Rightarrow> hook_db
    \<Rightarrow> delivered_report option \<times> posted list \<times> hook_db" where
  "drain_once hmac to_vec net now later = drain_once_with_egress hmac to_vec net Guarded now later"

text \<open>At most \<open>budget\<close> attempts; the \<open>i\<close>-th is made in the network \<open>nets i\<close> at the times \<open>fst (clock i)\<close> and \<open>snd (clock i)\<close>.\<close>

fun drain :: "(string \<Rightarrow> string \<Rightarrow> nat list) \<Rightarrow> (json \<Rightarrow> string) \<Rightarrow> (nat \<Rightarrow> network) \<Rightarrow> (nat \<Rightarrow> int \<times> int) \<Rightarrow> nat \<Rightarrow> nat \<Rightarrow> hook_db
    \<Rightarrow> nat \<times> posted list \<times> hook_db" where
  "drain hmac to_vec nets clock i 0 db = (0, [], db)"
| "drain hmac to_vec nets clock i (Suc budget) db =
     (case drain_once hmac to_vec (nets i) (fst (clock i)) (snd (clock i)) db of
        (None, _, db1) \<Rightarrow> (0, [], db1)
      | (Some _, p, db1) \<Rightarrow> (case drain hmac to_vec nets clock (Suc i) budget db1 of (n, ps, db2) \<Rightarrow> (Suc n, p @ ps, db2)))"

section \<open>Handlers\<close>

text \<open>The handlers of \<open>lib.rs\<close>. The actor set for the history triggers is not part of the model.\<close>

definition org_or_404 :: "string \<Rightarrow> access_db \<Rightarrow> http_error + org_row" where
  "org_or_404 org db = (case get_org org db of None \<Rightarrow> Inl (404, ''no org '' @ quoted org) | Some g \<Rightarrow> Inr g)"

definition hook_audit :: "string \<Rightarrow> string \<Rightarrow> string \<Rightarrow> json \<Rightarrow> hook_db \<Rightarrow> hook_db" where
  "hook_audit actor org action info db = db\<lparr>hk_access := audit actor (Some org) None action info (hk_access db)\<rparr>"

definition with_org :: "principal \<Rightarrow> role \<Rightarrow> (string + hook_db) option \<Rightarrow> string \<Rightarrow> (org_row \<Rightarrow> hook_db \<Rightarrow> http_error + 'a) \<Rightarrow> http_error + 'a" where
  "with_org p minimum dsn org run =
     (case guard p org minimum of
        Inl e \<Rightarrow> Inl e
      | Inr _ \<Rightarrow>
          (case dsn of
             None \<Rightarrow> Inl (501, ''webhooks require Postgres'')
           | Some (Inl e) \<Rightarrow> Inl (500, ''db connect: '' @ e)
           | Some (Inr db) \<Rightarrow> (case org_or_404 org (hk_access db) of Inl e \<Rightarrow> Inl e | Inr g \<Rightarrow> run g db)))"

fun join :: "string \<Rightarrow> string list \<Rightarrow> string" where
  "join sep [] = []"
| "join sep [s] = s"
| "join sep (s # ss) = s @ sep @ join sep ss"

definition unknown_events :: "string list \<Rightarrow> http_error" where
  "unknown_events unknown = (422, ''unknown event type(s) '' @ join '', '' unknown @ ''; this system emits '' @ join '', '' EVENT_NAMES
     @ '' (see GET /v1/orgs/{org}/webhooks/events)'')"

definition create_webhook_handler :: "network \<Rightarrow> string \<Rightarrow> int \<Rightarrow> string \<Rightarrow> nat list \<Rightarrow> principal \<Rightarrow> (string + hook_db) option \<Rightarrow> string
    \<Rightarrow> string \<Rightarrow> string list \<Rightarrow> string option \<Rightarrow> http_error + ((string \<times> string \<times> string list \<times> string) \<times> hook_db)" where
  "create_webhook_handler net pg_message now new_v7 random p dsn org url events body_secret =
     (case guard p org Admin of
        Inl e \<Rightarrow> Inl e
      | Inr _ \<Rightarrow>
          if trim url = [] then Inl (422, ''url is required'')
          else (case check (nw_parse_url net) (nw_lookup net) url Guarded of
              Inl rejection \<Rightarrow> Inl (422, nw_display net rejection)
            | Inr _ \<Rightarrow>
                with_org p Admin dsn org (\<lambda>g db.
                  let secret = (case body_secret of Some s \<Rightarrow> if s \<noteq> [] then s else hex_bytes random | None \<Rightarrow> hex_bytes random);
                      unknown = filter (\<lambda>e. \<not> is_known_event e) events in
                  if unknown \<noteq> [] then Inl (unknown_events unknown)
                  else (case create_webhook now new_v7 (og_id g) None url events secret db of
                      None \<Rightarrow> Inl (500, ''db: '' @ pg_message)
                    | Some (webhook_id, db') \<Rightarrow>
                        Inr ((webhook_id, url, events, secret), hook_audit (pr_actor p) org ''webhook.create''
                          (json_object [(''webhook_id'', JStr webhook_id), (''url'', JStr url)]) db')))))"

definition delete_webhook_handler :: "int \<Rightarrow> principal \<Rightarrow> (string + hook_db) option \<Rightarrow> string \<Rightarrow> string \<Rightarrow> http_error + (bool \<times> hook_db)" where
  "delete_webhook_handler now p dsn org webhook_id =
     with_org p Admin dsn org (\<lambda>g db.
       case delete_webhook now (og_id g) webhook_id db of (deleted, db') \<Rightarrow>
         Inr (deleted, if deleted then hook_audit (pr_actor p) org ''webhook.delete'' (json_object [(''webhook_id'', JStr webhook_id)]) db' else db'))"

definition webhooks_index :: "principal \<Rightarrow> (string + hook_db) option \<Rightarrow> string \<Rightarrow> http_error + (string \<times> string \<times> string list \<times> bool) list" where
  "webhooks_index p dsn org = with_org p Viewer dsn org (\<lambda>g db. Inr (list_webhooks (og_id g) db))"

definition webhook_deliveries :: "principal \<Rightarrow> (string + hook_db) option \<Rightarrow> string \<Rightarrow> string option \<Rightarrow> string option \<Rightarrow> int option
    \<Rightarrow> http_error + delivery list" where
  "webhook_deliveries p dsn org webhook_id state page =
     with_org p Viewer dsn org (\<lambda>g db.
       case state of
         Some s \<Rightarrow>
           if s \<in> {''pending'', ''delivered'', ''failed''}
           then Inr (page_deliveries (og_id g) webhook_id state (max 1 (min 200 (case page of None \<Rightarrow> 50 | Some n \<Rightarrow> n))) db)
           else Inl (422, ''unknown state '' @ quoted s @ '' (pending, delivered, failed)'')
       | None \<Rightarrow> Inr (page_deliveries (og_id g) webhook_id state (max 1 (min 200 (case page of None \<Rightarrow> 50 | Some n \<Rightarrow> n))) db))"

section \<open>One drainer\<close>

text \<open>The steps of the outbox while one dispatcher drains it: events are recorded, attempts are made in whatever network there is, and
  subscriptions come and go. The second component collects the requests sent.\<close>

inductive hook_step :: "(string \<Rightarrow> string \<Rightarrow> nat list) \<Rightarrow> (json \<Rightarrow> string) \<Rightarrow> hook_db \<times> posted list \<Rightarrow> hook_db \<times> posted list \<Rightarrow> bool" for hmac to_vec where
  recorded: "emit now mint org_id dataset_id org_name event_type data db = (res, db') \<Longrightarrow> hook_step hmac to_vec (db, ps) (db', ps)"
| attempted: "drain_once hmac to_vec net now later db = (rep, p, db') \<Longrightarrow> hook_step hmac to_vec (db, ps) (db', ps @ p)"
| subscribed: "create_webhook_handler net msg now new_v7 random pr (Some (Inr db)) org url events sec = Inr (out, db')
    \<Longrightarrow> hook_step hmac to_vec (db, ps) (db', ps)"
| unsubscribed: "delete_webhook_handler now pr (Some (Inr db)) org i = Inr (out, db') \<Longrightarrow> hook_step hmac to_vec (db, ps) (db', ps)"

definition accepted :: "posted \<Rightarrow> bool" where
  "accepted p \<longleftrightarrow> (\<exists>code. po_answer p = Inr code \<and> 200 \<le> code \<and> code < 300)"

definition posts_of :: "string \<Rightarrow> posted list \<Rightarrow> posted list" where
  "posts_of i ps = filter (\<lambda>p. po_delivery p = i) ps"

text \<open>A request of a delivery: the stored body, to the subscriber's address, signed with its secret.\<close>

definition faithful_post :: "(string \<Rightarrow> string \<Rightarrow> nat list) \<Rightarrow> (json \<Rightarrow> string) \<Rightarrow> webhook list \<Rightarrow> delivery \<Rightarrow> posted \<Rightarrow> bool" where
  "faithful_post hmac to_vec ws d p \<longleftrightarrow> po_body p = to_vec (wd_payload d)
     \<and> (\<exists>w \<in> set ws. wh_id w = wd_webhook_id d \<and> po_url p = wh_url w \<and> po_signature p = sign hmac (wh_secret w) (po_body p))"

definition delivery_ok :: "(string \<Rightarrow> string \<Rightarrow> nat list) \<Rightarrow> (json \<Rightarrow> string) \<Rightarrow> webhook list \<Rightarrow> posted list \<Rightarrow> delivery \<Rightarrow> bool" where
  "delivery_ok hmac to_vec ws qs d \<longleftrightarrow>
     wd_max_attempts d = MAX_DELIVERY_ATTEMPTS \<and> int (length qs) \<le> wd_attempt d \<and> wd_attempt d \<le> MAX_DELIVERY_ATTEMPTS
     \<and> (wd_state d = Pending \<longrightarrow> wd_attempt d < MAX_DELIVERY_ATTEMPTS)
     \<and> (wd_state d = Delivered \<longleftrightarrow> qs \<noteq> [] \<and> accepted (last qs))
     \<and> (\<forall>q \<in> set (butlast qs). \<not> accepted q)
     \<and> (wd_delivered_at d \<noteq> None \<longleftrightarrow> wd_state d = Delivered)
     \<and> (\<forall>q \<in> set qs. faithful_post hmac to_vec ws d q)"

definition outbox_ok :: "(string \<Rightarrow> string \<Rightarrow> nat list) \<Rightarrow> (json \<Rightarrow> string) \<Rightarrow> hook_db \<times> posted list \<Rightarrow> bool" where
  "outbox_ok hmac to_vec st \<longleftrightarrow>
     distinct (map wd_id (hk_deliveries (fst st)))
     \<and> po_delivery ` set (snd st) \<subseteq> wd_id ` set (hk_deliveries (fst st))
     \<and> (\<forall>d \<in> set (hk_deliveries (fst st)). delivery_ok hmac to_vec (hk_webhooks (fst st)) (posts_of (wd_id d) (snd st)) d)"

subsection \<open>What an attempt does\<close>

definition settled_row :: "int \<Rightarrow> bool \<Rightarrow> bool \<Rightarrow> nat option \<Rightarrow> string option \<Rightarrow> delivery \<Rightarrow> delivery" where
  "settled_row now delivered retryable status error x =
     x\<lparr>wd_state := (if delivered then Delivered else if retryable \<and> wd_attempt x < wd_max_attempts x then Pending else DeliveryFailed),
       wd_next_attempt_at := (if \<not> delivered \<and> retryable \<and> wd_attempt x < wd_max_attempts x
         then Some (now + delivery_backoff (wd_attempt x)) else wd_next_attempt_at x),
       wd_response_code := status, wd_error := error,
       wd_delivered_at := (if delivered then Some now else wd_delivered_at x), wd_updated_at := now\<rparr>"

definition attempt_row :: "int \<Rightarrow> int \<Rightarrow> bool \<Rightarrow> bool \<Rightarrow> nat option \<Rightarrow> string option \<Rightarrow> delivery \<Rightarrow> delivery" where
  "attempt_row now later delivered retryable status error x =
     settled_row later delivered retryable status error (x\<lparr>wd_attempt := wd_attempt x + 1, wd_updated_at := now\<rparr>)"

lemma attempt_row_columns [simp]:
  "wd_id (attempt_row now later b r s e x) = wd_id x"
  "wd_webhook_id (attempt_row now later b r s e x) = wd_webhook_id x"
  "wd_payload (attempt_row now later b r s e x) = wd_payload x"
  "wd_attempt (attempt_row now later b r s e x) = wd_attempt x + 1"
  "wd_max_attempts (attempt_row now later b r s e x) = wd_max_attempts x"
  "wd_created_at (attempt_row now later b r s e x) = wd_created_at x"
  "wd_state (attempt_row now later b r s e x) = (if b then Delivered else if r \<and> wd_attempt x + 1 < wd_max_attempts x then Pending else DeliveryFailed)"
  "wd_delivered_at (attempt_row now later b r s e x) = (if b then Some later else wd_delivered_at x)"
  "wd_next_attempt_at (attempt_row now later b r s e x) = (if \<not> b \<and> r \<and> wd_attempt x + 1 < wd_max_attempts x
     then Some (later + delivery_backoff (wd_attempt x + 1)) else wd_next_attempt_at x)"
  by (simp_all add: attempt_row_def settled_row_def)

lemma next_dueD: "next_due now db = Some d \<Longrightarrow> d \<in> set (hk_deliveries db) \<and> due now d"
proof -
  assume "next_due now db = Some d"
  then obtain rest where "sort_key wd_created_at (sort_key wd_id (filter (due now) (hk_deliveries db))) = d # rest"
    by (auto simp: next_due_def split: list.splits)
  then have "d \<in> set (sort_key wd_created_at (sort_key wd_id (filter (due now) (hk_deliveries db))))"
    by (metis list.set_intros(1))
  then show ?thesis by simp
qed

lemma next_due_None: "next_due now db = None \<longleftrightarrow> (\<forall>d \<in> set (hk_deliveries db). \<not> due now d)"
proof -
  have "next_due now db = None \<longleftrightarrow> sort_key wd_created_at (sort_key wd_id (filter (due now) (hk_deliveries db))) = []"
    by (simp add: next_due_def split: list.splits)
  also have "\<dots> \<longleftrightarrow> set (sort_key wd_created_at (sort_key wd_id (filter (due now) (hk_deliveries db)))) = {}"
    by (simp only: set_empty)
  also have "\<dots> \<longleftrightarrow> (\<forall>d \<in> set (hk_deliveries db). \<not> due now d)" by auto
  finally show ?thesis .
qed

lemma same_row: "distinct (map f xs) \<Longrightarrow> x \<in> set xs \<Longrightarrow> y \<in> set xs \<Longrightarrow> f x = f y \<Longrightarrow> x = y"
  by (simp add: distinct_map inj_on_def)

lemma filter_one_id:
  assumes "distinct (map f xs)" "x \<in> set xs"
  shows "filter (\<lambda>y. f y = f x) xs = [x]"
  using assms by (induction xs) (force simp: filter_empty_conv image_iff)+

lemma settle_row:
  "snd (settle_post later i delivered retryable status error db) =
     db\<lparr>hk_deliveries := map (\<lambda>x. if wd_id x = i then settled_row later delivered retryable status error x else x) (hk_deliveries db)\<rparr>"
  by (auto simp: settle_post_def settle_delivery_def update_deliveries_def settled_row_def split: list.splits)

lemma claim_and_settle:
  assumes "next_due now db = Some d" "claim_delivery now db = (d' # rest, db1)"
  shows "snd (settle_post later (wd_id d) delivered retryable status error db1) =
    db\<lparr>hk_deliveries := map (\<lambda>x. if wd_id x = wd_id d then attempt_row now later delivered retryable status error x else x) (hk_deliveries db)\<rparr>"
  using assms by (auto simp: settle_row claim_delivery_def update_deliveries_def attempt_row_def)

definition attempted_db :: "int \<Rightarrow> int \<Rightarrow> delivery \<Rightarrow> bool \<Rightarrow> bool \<Rightarrow> nat option \<Rightarrow> string option \<Rightarrow> hook_db \<Rightarrow> hook_db" where
  "attempted_db now later d delivered retryable status error db =
     db\<lparr>hk_deliveries := map (\<lambda>x. if wd_id x = wd_id d then attempt_row now later delivered retryable status error x else x) (hk_deliveries db)\<rparr>"

lemma drain_once_idle:
  assumes "next_due now db = None"
  shows "drain_once hmac to_vec net now later db = (None, [], db)"
  using assms by (simp add: drain_once_def drain_once_with_egress_def claim_delivery_def)

lemma drain_once_busy:
  assumes d: "next_due now db = Some d" and ids: "distinct (map wd_id (hk_deliveries db))"
    and run: "drain_once hmac to_vec net now later db = (rep, p, db')"
  shows "rep \<noteq> None \<and> (\<exists>delivered retryable status error. db' = attempted_db now later d delivered retryable status error db
    \<and> (p = [] \<and> \<not> delivered \<and> \<not> retryable
        \<and> (\<forall>url secret. webhook_endpoint (wd_webhook_id d) db = Some (url, secret) \<longrightarrow> check (nw_parse_url net) (nw_lookup net) url Guarded \<noteq> Inr ())
       \<or> (\<exists>url secret body. webhook_endpoint (wd_webhook_id d) db = Some (url, secret)
            \<and> check (nw_parse_url net) (nw_lookup net) url Guarded = Inr () \<and> body = to_vec (wd_payload d)
            \<and> p = [\<lparr>po_delivery = wd_id d, po_url = url, po_body = body, po_signature = sign hmac secret body,
                    po_answer = nw_send net url body (sign hmac secret body)\<rparr>]
            \<and> classify_answer (po_answer (hd p)) = (delivered, retryable, status, error))))"
proof -
  have mem: "d \<in> set (hk_deliveries db)" using next_dueD [OF d] by simp
  let ?d = "d\<lparr>wd_attempt := wd_attempt d + 1, wd_updated_at := now\<rparr>"
  obtain db1 where claim: "claim_delivery now db = ([?d], db1)" and same: "hk_webhooks db1 = hk_webhooks db"
    by (simp add: claim_delivery_def d update_deliveries_def filter_one_id [OF ids mem])
  have ep: "webhook_endpoint i db1 = webhook_endpoint i db" for i by (simp add: webhook_endpoint_def hook_by_id_def same)
  have settled: "\<exists>state. settle_post later (wd_id d) b r s e db1 = (state, attempted_db now later d b r s e db)" for b r s e
    using claim_and_settle [OF d claim, of later b r s e] by (metis attempted_db_def prod.collapse)
  show ?thesis
  proof (cases "webhook_endpoint (wd_webhook_id d) db")
    case None
    obtain state where "settle_post later (wd_id d) False False None (Some ''the subscription no longer exists'') db1
        = (state, attempted_db now later d False False None (Some ''the subscription no longer exists'') db)" using settled by blast
    with run None claim ep show ?thesis
      by (auto simp: drain_once_def drain_once_with_egress_def Let_def)
  next
    case (Some us)
    then obtain url secret where e: "webhook_endpoint (wd_webhook_id d) db = Some (url, secret)" by (cases us) simp
    show ?thesis
    proof (cases "check (nw_parse_url net) (nw_lookup net) url Guarded")
      case (Inl rejection)
      obtain state where "settle_post later (wd_id d) False False None (Some (''refused: '' @ nw_display net rejection)) db1
        = (state, attempted_db now later d False False None (Some (''refused: '' @ nw_display net rejection)) db)" using settled by blast
      with run e Inl claim ep show ?thesis
        by (auto simp: drain_once_def drain_once_with_egress_def Let_def)
    next
      case (Inr u)
      let ?body = "to_vec (wd_payload d)"
      let ?answer = "nw_send net url ?body (sign hmac secret ?body)"
      obtain b r s er where c: "classify_answer ?answer = (b, r, s, er)" by (metis prod_cases4)
      obtain state where "settle_post later (wd_id d) b r s er db1 = (state, attempted_db now later d b r s er db)" using settled by blast
      with run e Inr claim ep c show ?thesis
        by (fastforce simp: drain_once_def drain_once_with_egress_def Let_def)
    qed
  qed
qed

lemma drain_once_shape:
  assumes "next_due now db = Some d" "distinct (map wd_id (hk_deliveries db))" "drain_once hmac to_vec net now later db = (rep, p, db')"
  shows "rep \<noteq> None \<and> (\<exists>b r s e. db' = attempted_db now later d b r s e db \<and> (\<forall>q \<in> set p. po_delivery q = wd_id d))"
proof -
  from drain_once_busy [OF assms] obtain b r s e where rep: "rep \<noteq> None" and db': "db' = attempted_db now later d b r s e db"
    and p: "p = [] \<or> (\<exists>url body sig a. p = [\<lparr>po_delivery = wd_id d, po_url = url, po_body = body, po_signature = sig, po_answer = a\<rparr>])"
    by blast
  from p have "\<forall>q \<in> set p. po_delivery q = wd_id d" by auto
  with rep db' show ?thesis by blast
qed

subsection \<open>The outbox stays in order\<close>

lemma classify_accepted: "classify_answer (po_answer q) = (b, r, s, e) \<Longrightarrow> b \<longleftrightarrow> accepted q"
  by (auto simp: classify_answer_def accepted_def split: sum.splits if_splits)

lemma faithful_attempt_row [simp]: "faithful_post hmac to_vec ws (attempt_row now later b r s e d) q = faithful_post hmac to_vec ws d q"
  by (simp add: faithful_post_def)

lemma pending_unaccepted:
  assumes "delivery_ok hmac to_vec ws qs d" "wd_state d = Pending"
  shows "\<forall>q \<in> set qs. \<not> accepted q"
proof (cases qs rule: rev_cases)
  case (snoc ys y) with assms show ?thesis by (auto simp: delivery_ok_def)
qed simp

lemma attempt_keeps_ok:
  assumes ok: "delivery_ok hmac to_vec ws qs d" and due: "due now d"
    and p: "p = [] \<and> \<not> b \<and> \<not> r \<or> (\<exists>q. p = [q] \<and> faithful_post hmac to_vec ws d q \<and> (b \<longleftrightarrow> accepted q))"
  shows "delivery_ok hmac to_vec ws (qs @ p) (attempt_row now later b r s e d)"
proof -
  have pending: "wd_state d = Pending" using due by (simp add: due_def)
  note none = pending_unaccepted [OF ok pending]
  have no_last: "qs \<noteq> [] \<Longrightarrow> \<not> accepted (last qs)" using none by simp
  have rest: "\<forall>q \<in> set (butlast qs). \<not> accepted q" using none by (auto dest: in_set_butlastD)
  from p ok pending none no_last rest show ?thesis
    by (auto simp: delivery_ok_def butlast_append)
qed

lemma attempted_ok:
  assumes ok: "outbox_ok hmac to_vec (db, ps)" and d: "next_due now db = Some d"
    and p: "p = [] \<and> \<not> b \<and> \<not> r \<or> (\<exists>q. p = [q] \<and> po_delivery q = wd_id d \<and> faithful_post hmac to_vec (hk_webhooks db) d q \<and> (b \<longleftrightarrow> accepted q))"
  shows "outbox_ok hmac to_vec (attempted_db now later d b r s e db, ps @ p)"
proof -
  note mem = next_dueD [OF d]
  have ids: "distinct (map wd_id (hk_deliveries db))" using ok by (simp add: outbox_ok_def)
  have same: "map wd_id (hk_deliveries (attempted_db now later d b r s e db)) = map wd_id (hk_deliveries db)"
    by (simp add: attempted_db_def)
  have row: "delivery_ok hmac to_vec (hk_webhooks db) (posts_of (wd_id x) (ps @ p)) (if wd_id x = wd_id d then attempt_row now later b r s e x else x)"
    if x: "x \<in> set (hk_deliveries db)" for x
  proof -
    have okx: "delivery_ok hmac to_vec (hk_webhooks db) (posts_of (wd_id x) ps) x" using ok x by (simp add: outbox_ok_def)
    show ?thesis
    proof (cases "wd_id x = wd_id d")
      case True
      then have "x = d" using same_row [OF ids x] mem by blast
      moreover have "posts_of (wd_id d) (ps @ p) = posts_of (wd_id d) ps @ p" using p by (auto simp: posts_of_def)
      ultimately show ?thesis using attempt_keeps_ok [OF okx, of now p b r] mem p by auto
    next
      case False
      then have "posts_of (wd_id x) (ps @ p) = posts_of (wd_id x) ps" using p by (auto simp: posts_of_def)
      with False okx show ?thesis by simp
    qed
  qed
  have "delivery_ok hmac to_vec (hk_webhooks db) (posts_of (wd_id y) (ps @ p)) y"
    if y: "y \<in> set (hk_deliveries (attempted_db now later d b r s e db))" for y
  proof -
    from y obtain x where "x \<in> set (hk_deliveries db)" "y = (if wd_id x = wd_id d then attempt_row now later b r s e x else x)"
      by (auto simp: attempted_db_def)
    with row [of x] show ?thesis by (simp split: if_splits)
  qed
  moreover have "po_delivery ` set (ps @ p) \<subseteq> set (map wd_id (hk_deliveries db))"
    using ok p mem by (auto simp: outbox_ok_def)
  moreover have "hk_webhooks (attempted_db now later d b r s e db) = hk_webhooks db" by (simp add: attempted_db_def)
  ultimately show ?thesis using ids by (simp add: outbox_ok_def same flip: set_map)
qed

lemma drain_ok:
  assumes ok: "outbox_ok hmac to_vec (db, ps)" and run: "drain_once hmac to_vec net now later db = (rep, p, db')"
  shows "outbox_ok hmac to_vec (db', ps @ p)"
proof (cases "next_due now db")
  case None with drain_once_idle [OF None] run ok show ?thesis by simp
next
  case (Some d)
  have ids: "distinct (map wd_id (hk_deliveries db))" using ok by (simp add: outbox_ok_def)
  have faithful: "faithful_post hmac to_vec (hk_webhooks db) d \<lparr>po_delivery = wd_id d, po_url = url, po_body = to_vec (wd_payload d),
      po_signature = sign hmac secret (to_vec (wd_payload d)), po_answer = a\<rparr>"
    if "webhook_endpoint (wd_webhook_id d) db = Some (url, secret)" for url secret a
  proof -
    from that obtain w rest where w: "hook_by_id (wd_webhook_id d) db = w # rest" "wh_url w = url" "wh_secret w = secret"
      by (auto simp: webhook_endpoint_def split: list.splits)
    then have "w \<in> set (hk_webhooks db)" "wh_id w = wd_webhook_id d" by (auto simp: hook_by_id_def filter_eq_Cons_iff)
    with w show ?thesis by (auto simp: faithful_post_def)
  qed
  from drain_once_busy [OF Some ids run] obtain b r s e where db': "db' = attempted_db now later d b r s e db"
    and sent: "p = [] \<and> \<not> b \<and> \<not> r \<or> (\<exists>url secret. webhook_endpoint (wd_webhook_id d) db = Some (url, secret)
       \<and> (\<exists>a. p = [\<lparr>po_delivery = wd_id d, po_url = url, po_body = to_vec (wd_payload d),
           po_signature = sign hmac secret (to_vec (wd_payload d)), po_answer = a\<rparr>]) \<and> classify_answer (po_answer (hd p)) = (b, r, s, e))"
    by blast
  have "p = [] \<and> \<not> b \<and> \<not> r \<or> (\<exists>q. p = [q] \<and> po_delivery q = wd_id d \<and> faithful_post hmac to_vec (hk_webhooks db) d q \<and> (b \<longleftrightarrow> accepted q))"
    using sent
  proof (elim disjE exE conjE)
    fix url secret a
    let ?q = "\<lparr>po_delivery = wd_id d, po_url = url, po_body = to_vec (wd_payload d),
           po_signature = sign hmac secret (to_vec (wd_payload d)), po_answer = a\<rparr>"
    assume e: "webhook_endpoint (wd_webhook_id d) db = Some (url, secret)" and p: "p = [?q]"
      and c: "classify_answer (po_answer (hd p)) = (b, r, s, e)"
    have "b \<longleftrightarrow> accepted ?q" by (rule classify_accepted) (use c p in simp)
    with faithful [OF e, of a] p show ?thesis by simp
  qed simp
  from attempted_ok [OF ok Some this] show ?thesis unfolding db' .
qed

lemma enqueue_ok:
  assumes ok: "outbox_ok hmac to_vec (db, ps)" and e: "enqueue_delivery now i org_id ds w ev body MAX_DELIVERY_ATTEMPTS db = Some (rows, db')"
  shows "outbox_ok hmac to_vec (db', ps)"
proof -
  from e have i: "i \<notin> wd_id ` set (hk_deliveries db)" by (auto simp: enqueue_delivery_def split: if_splits)
  with ok have "posts_of i ps = []" by (auto simp: outbox_ok_def posts_of_def filter_empty_conv)
  with e ok i show ?thesis
    by (auto simp: enqueue_delivery_def outbox_ok_def delivery_ok_def MAX_DELIVERY_ATTEMPTS_def Let_def split: if_splits)
qed

lemma enqueue_all_ok:
  "outbox_ok hmac to_vec (db, ps) \<Longrightarrow> enqueue_all now mint i org_id ds ev body ts db = (res, db') \<Longrightarrow> outbox_ok hmac to_vec (db', ps)"
proof (induction now mint i org_id ds ev body ts db arbitrary: res db' rule: enqueue_all.induct)
  case (2 now mint i org_id ds ev body w u sec ts db)
  show ?case
  proof (cases "enqueue_delivery now (mint i) org_id ds w ev body MAX_DELIVERY_ATTEMPTS db")
    case None with 2 show ?thesis by simp
  next
    case (Some r)
    then obtain rows db1 where r: "enqueue_delivery now (mint i) org_id ds w ev body MAX_DELIVERY_ATTEMPTS db = Some (rows, db1)" by (cases r) simp
    obtain q db2 where rest: "enqueue_all now mint (Suc i) org_id ds ev body ts db1 = (q, db2)" by fastforce
    from 2(1) [OF r refl enqueue_ok [OF 2(2) r] rest] 2(3) r rest show ?thesis by (auto split: option.splits)
  qed
qed simp

lemma hooks_kept:
  assumes ok: "outbox_ok hmac to_vec (db, ps)" and same: "hk_deliveries db' = hk_deliveries db"
    and kept: "\<And>w. w \<in> set (hk_webhooks db) \<Longrightarrow> \<exists>w' \<in> set (hk_webhooks db'). wh_id w' = wh_id w \<and> wh_url w' = wh_url w \<and> wh_secret w' = wh_secret w"
  shows "outbox_ok hmac to_vec (db', ps)"
proof -
  have "faithful_post hmac to_vec (hk_webhooks db') d q" if "faithful_post hmac to_vec (hk_webhooks db) d q" for d q
    using that kept unfolding faithful_post_def by metis
  then have "delivery_ok hmac to_vec (hk_webhooks db') qs d" if "delivery_ok hmac to_vec (hk_webhooks db) qs d" for d qs
    using that by (simp add: delivery_ok_def)
  with ok same show ?thesis by (auto simp: outbox_ok_def)
qed

lemma deactivate_keeps:
  assumes "w \<in> set (hk_webhooks db)"
  shows "\<exists>w' \<in> set (hk_webhooks (snd (deactivate now org_id i db))). wh_id w' = wh_id w \<and> wh_url w' = wh_url w \<and> wh_secret w' = wh_secret w"
  using assms
  by (intro bexI [of _ "if wh_org_id w = org_id \<and> wh_id w = i \<and> wh_active w then w\<lparr>wh_active := False, wh_updated_at := now\<rparr> else w"])
    (auto simp: deactivate_def Let_def)

lemma with_orgD: "with_org p m (Some (Inr db)) org run = Inr x \<Longrightarrow> \<exists>g. guard p org m = Inr () \<and> get_org org (hk_access db) = Some g \<and> run g db = Inr x"
  by (auto simp: with_org_def org_or_404_def split: sum.splits option.splits)

lemma step_ok: "hook_step hmac to_vec st st' \<Longrightarrow> outbox_ok hmac to_vec st \<Longrightarrow> outbox_ok hmac to_vec st'"
proof (induction rule: hook_step.induct)
  case (recorded now mint org_id dataset_id org_name event_type data db res db' ps)
  then show ?case by (auto simp: emit_def Let_def split: if_splits dest: enqueue_all_ok)
next
  case (attempted net now later db rep p db' ps)
  then show ?case by (blast intro: drain_ok)
next
  case (subscribed net msg now new_v7 random pr db org url events sec out db' ps)
  from subscribed(1) have "hk_deliveries db' = hk_deliveries db" "set (hk_webhooks db) \<subseteq> set (hk_webhooks db')"
    by (auto simp: create_webhook_handler_def create_webhook_def create_hook_sql_def hook_audit_def Let_def
        split: sum.splits option.splits if_splits dest!: with_orgD)
  with subscribed(2) show ?case by (auto intro: hooks_kept)
next
  case (unsubscribed now pr db org i out db' ps)
  from with_orgD [OF unsubscribed(1) [unfolded delete_webhook_handler_def]] obtain g :: org_row where
      "(case delete_webhook now (og_id g) i db of (deleted, db') \<Rightarrow> Inr (deleted, if deleted then
          hook_audit (pr_actor pr) org ''webhook.delete'' (json_object [(''webhook_id'', JStr i)]) db' else db')) = (Inr (out, db') :: http_error + (bool \<times> hook_db))"
    by blast
  then have "hk_deliveries db' = hk_deliveries db" "hk_webhooks db' = hk_webhooks (snd (deactivate now (og_id g) i db))"
    by (auto simp: delete_webhook_def deactivate_def hook_audit_def Let_def split: if_splits)
  with unsubscribed(2) deactivate_keeps show ?case by (auto intro: hooks_kept)
qed

lemma run_outbox_ok: "(hook_step hmac to_vec)\<^sup>*\<^sup>* st st' \<Longrightarrow> outbox_ok hmac to_vec st \<Longrightarrow> outbox_ok hmac to_vec st'"
  by (induction rule: rtranclp_induct) (auto intro: step_ok)

subsection \<open>Working off a backlog\<close>

definition pending_count :: "hook_db \<Rightarrow> nat" where
  "pending_count db = length (filter (\<lambda>d. wd_state d = Pending) (hk_deliveries db))"

text \<open>Every pending delivery has a live subscription whose address passes the guard and answers with success.\<close>

definition answering :: "network \<Rightarrow> hook_db \<Rightarrow> bool" where
  "answering net db \<longleftrightarrow> (\<forall>d \<in> set (hk_deliveries db). wd_state d = Pending \<longrightarrow>
     (\<exists>url secret. webhook_endpoint (wd_webhook_id d) db = Some (url, secret) \<and> check (nw_parse_url net) (nw_lookup net) url Guarded = Inr ()
        \<and> (\<forall>body signature. \<exists>code. nw_send net url body signature = Inr code \<and> 200 \<le> code \<and> code < 300)))"

lemma answered_attempt:
  assumes d: "next_due now db = Some d" and ids: "distinct (map wd_id (hk_deliveries db))" and net: "answering net db"
    and run: "drain_once hmac to_vec net now later db = (rep, p, db')"
  shows "rep \<noteq> None \<and> (\<exists>r s e. db' = attempted_db now later d True r s e db)
    \<and> (\<exists>q. p = [q] \<and> po_delivery q = wd_id d \<and> po_body q = to_vec (wd_payload d) \<and> accepted q)"
proof -
  from next_dueD [OF d] have "d \<in> set (hk_deliveries db)" "wd_state d = Pending" by (auto simp: due_def)
  with net obtain url secret where e: "webhook_endpoint (wd_webhook_id d) db = Some (url, secret)"
      and c: "check (nw_parse_url net) (nw_lookup net) url Guarded = Inr ()"
      and a: "\<forall>body signature. \<exists>code. nw_send net url body signature = Inr code \<and> 200 \<le> code \<and> code < 300"
    unfolding answering_def by blast
  let ?body = "to_vec (wd_payload d)"
  let ?q = "\<lparr>po_delivery = wd_id d, po_url = url, po_body = ?body, po_signature = sign hmac secret ?body,
      po_answer = nw_send net url ?body (sign hmac secret ?body)\<rparr>"
  have acc: "accepted ?q" using a by (auto simp: accepted_def)
  from drain_once_busy [OF d ids run] e c obtain b r s er where rep: "rep \<noteq> None" and db': "db' = attempted_db now later d b r s er db"
      and p: "p = [?q]" and cl: "classify_answer (po_answer (hd p)) = (b, r, s, er)" by auto
  have "b \<longleftrightarrow> accepted ?q" by (rule classify_accepted) (use cl p in simp)
  with acc db' have "db' = attempted_db now later d True r s er db" by simp
  with rep p acc show ?thesis by auto
qed

lemma length_filter_flip_one:
  assumes "distinct (map f xs)" "x \<in> set xs" "P x" "\<not> P (g x)" "\<And>y. f y = f x \<Longrightarrow> f (g y) = f x"
  shows "Suc (length (filter P (map (\<lambda>y. if f y = f x then g y else y) xs))) = length (filter P xs)"
  using assms
proof (induction xs)
  case (Cons y ys)
  show ?case
  proof (cases "f y = f x")
    case True
    with Cons.prems have "y = x" by (metis distinct.simps(2) image_eqI list.map(2) list.set_map set_ConsD)
    with Cons.prems have "map (\<lambda>y. if f y = f x then g y else y) ys = ys" by (intro map_idI) (auto simp: image_iff)
    with \<open>y = x\<close> Cons.prems show ?thesis by simp
  next
    case False
    with Cons have "Suc (length (filter P (map (\<lambda>y. if f y = f x then g y else y) ys))) = length (filter P ys)" by auto
    with False show ?thesis by simp
  qed
qed simp

lemma attempted_pending:
  assumes "next_due now db = Some d" "distinct (map wd_id (hk_deliveries db))"
  shows "Suc (pending_count (attempted_db now later d True r s e db)) = pending_count db"
  using length_filter_flip_one [OF assms(2), of d "\<lambda>d. wd_state d = Pending" "attempt_row now later True r s e"] next_dueD [OF assms(1)]
  by (simp add: pending_count_def attempted_db_def due_def)

lemma answering_attempted:
  assumes "answering net db" "distinct (map wd_id (hk_deliveries db))"
  shows "answering net (attempted_db now later d True r s e db)"
proof -
  have "webhook_endpoint i (attempted_db now later d True r s e db) = webhook_endpoint i db" for i
    by (simp add: webhook_endpoint_def hook_by_id_def attempted_db_def)
  with assms(1) show ?thesis unfolding answering_def by (auto simp: attempted_db_def split: if_splits)
qed

lemma drain_keeps_delivered:
  assumes "drain hmac to_vec nets clock i budget db = (n, ps, db')" "distinct (map wd_id (hk_deliveries db))"
    and "x \<in> set (hk_deliveries db)" "wd_state x = Delivered"
  shows "x \<in> set (hk_deliveries db') \<and> posts_of (wd_id x) ps = []"
  using assms
proof (induction budget arbitrary: i db n ps)
  case (Suc budget)
  obtain rep p db1 where one: "drain_once hmac to_vec (nets i) (fst (clock i)) (snd (clock i)) db = (rep, p, db1)" by (metis prod_cases3)
  show ?case
  proof (cases "next_due (fst (clock i)) db")
    case None
    with drain_once_idle [OF None] Suc.prems show ?thesis by (auto simp: posts_of_def)
  next
    case (Some d)
    from drain_once_shape [OF Some Suc.prems(2) one] obtain b r s e where rep: "rep \<noteq> None"
        and db1: "db1 = attempted_db (fst (clock i)) (snd (clock i)) d b r s e db" and p: "\<forall>q \<in> set p. po_delivery q = wd_id d" by blast
    have other: "wd_id x \<noteq> wd_id d"
      using same_row [OF Suc.prems(2,3), of d] next_dueD [OF Some] Suc.prems(4) by (auto simp: due_def)
    obtain m qs where rest: "drain hmac to_vec nets clock (Suc i) budget db1 = (m, qs, db')" and ps: "ps = p @ qs"
      using Suc.prems(1) one rep by (auto split: prod.splits)
    have "distinct (map wd_id (hk_deliveries db1))" using Suc.prems(2) by (simp add: db1 attempted_db_def comp_def if_distrib cong: if_cong)
    moreover have "x \<in> set (hk_deliveries db1)" using Suc.prems(3) other by (auto simp: db1 attempted_db_def)
    ultimately have "x \<in> set (hk_deliveries db') \<and> posts_of (wd_id x) qs = []" using Suc.IH [OF rest] Suc.prems(4) by simp
    with p other show ?thesis by (auto simp: ps posts_of_def filter_empty_conv)
  qed
qed (simp add: posts_of_def)

lemma attempted_ids: "map wd_id (hk_deliveries (attempted_db now later d b r s e db)) = map wd_id (hk_deliveries db)"
  by (simp add: attempted_db_def)

lemma drain_works_off:
  assumes "drain hmac to_vec nets clock i budget db = (n, ps, db')" "distinct (map wd_id (hk_deliveries db))"
    and "\<And>j. answering (nets j) db" "\<And>j. t \<le> fst (clock j)" "pending_count db \<le> budget"
    and "x \<in> set (hk_deliveries db)" "due t x"
  shows "(\<exists>x' \<in> set (hk_deliveries db'). wd_id x' = wd_id x \<and> wd_state x' = Delivered)
    \<and> (\<exists>q. posts_of (wd_id x) ps = [q] \<and> po_body q = to_vec (wd_payload x) \<and> accepted q)"
  using assms
proof (induction budget arbitrary: i db n ps)
  case 0
  then show ?case by (auto simp: pending_count_def due_def filter_empty_conv)
next
  case (Suc budget)
  let ?now = "fst (clock i)" and ?later = "snd (clock i)"
  obtain rep p db1 where one: "drain_once hmac to_vec (nets i) ?now ?later db = (rep, p, db1)" by (metis prod_cases3)
  have due: "due ?now x" using Suc.prems(4) [of i] Suc.prems(7) by (auto simp: due_def split: option.splits)
  with Suc.prems(6) obtain d where d: "next_due ?now db = Some d" using next_due_None [of ?now db] by fastforce
  note mem = next_dueD [OF d]
  from answered_attempt [OF d Suc.prems(2) Suc.prems(3) one] obtain r s e q where rep: "rep \<noteq> None"
      and db1: "db1 = attempted_db ?now ?later d True r s e db"
      and p: "p = [q]" "po_delivery q = wd_id d" "po_body q = to_vec (wd_payload d)" "accepted q" by blast
  obtain m qs where rest: "drain hmac to_vec nets clock (Suc i) budget db1 = (m, qs, db')" and ps: "ps = p @ qs"
    using Suc.prems(1) one rep by (auto split: prod.splits)
  have ids: "distinct (map wd_id (hk_deliveries db1))" using Suc.prems(2) by (simp add: db1 attempted_ids)
  show ?case
  proof (cases "wd_id x = wd_id d")
    case True
    then have xd: "x = d" using same_row [OF Suc.prems(2,6), of d] mem by blast
    let ?x = "attempt_row ?now ?later True r s e x"
    have "?x \<in> set (hk_deliveries db1)" using Suc.prems(6) xd by (auto simp: db1 attempted_db_def)
    from drain_keeps_delivered [OF rest ids this] have "?x \<in> set (hk_deliveries db')" "posts_of (wd_id x) qs = []" by auto
    with p xd show ?thesis by (auto simp: ps posts_of_def intro!: bexI [of _ ?x])
  next
    case False
    then have x1: "x \<in> set (hk_deliveries db1)" using Suc.prems(6) by (auto simp: db1 attempted_db_def)
    have "pending_count db1 \<le> budget" using attempted_pending [OF d Suc.prems(2), of ?later r s e] Suc.prems(5) by (simp add: db1)
    moreover have "answering (nets j) db1" for j using answering_attempted [OF Suc.prems(3) Suc.prems(2)] by (simp add: db1)
    ultimately have "(\<exists>x' \<in> set (hk_deliveries db'). wd_id x' = wd_id x \<and> wd_state x' = Delivered)
      \<and> (\<exists>q. posts_of (wd_id x) qs = [q] \<and> po_body q = to_vec (wd_payload x) \<and> accepted q)"
      using Suc.IH [OF rest ids _ Suc.prems(4) _ x1 Suc.prems(7)] by blast
    with p False show ?thesis by (auto simp: ps posts_of_def)
  qed
qed

subsection \<open>Two drainers\<close>

lemma insort_key_map: "(\<And>x. k (f x) = k x) \<Longrightarrow> insort_key k (f a) (map f xs) = map f (insort_key k a xs)"
  by (induction xs) auto

lemma sort_key_map: "(\<And>x. k (f x) = k x) \<Longrightarrow> sort_key k (map f xs) = map f (sort_key k xs)"
  by (induction xs) (auto simp: insort_key_map)

text \<open>A claim counts the attempt and leaves the row as due as it was, whatever its budget: until the row is settled the next claim hands
  out the same delivery.\<close>

lemma claim_leaves_due:
  assumes "next_due now db = Some d"
  shows "next_due now (snd (claim_delivery now db)) = Some (d\<lparr>wd_attempt := wd_attempt d + 1, wd_updated_at := now\<rparr>)"
proof -
  let ?f = "\<lambda>x. if wd_id x = wd_id d then x\<lparr>wd_attempt := wd_attempt x + 1, wd_updated_at := now\<rparr> else x"
  have "due now (?f x) = due now x" for x by (simp add: due_def)
  then have f: "filter (due now) (map ?f (hk_deliveries db)) = map ?f (filter (due now) (hk_deliveries db))" by (rule filter_map_same)
  have m: "sort_key wd_created_at (sort_key wd_id (map ?f ds)) = map ?f (sort_key wd_created_at (sort_key wd_id ds))" for ds
    by (simp add: sort_key_map)
  have c: "hk_deliveries (snd (claim_delivery now db)) = map ?f (hk_deliveries db)"
    by (simp add: claim_delivery_def assms update_deliveries_def)
  from assms obtain rest where "sort_key wd_created_at (sort_key wd_id (filter (due now) (hk_deliveries db))) = d # rest"
    by (auto simp: next_due_def split: list.splits)
  then show ?thesis unfolding next_due_def c f m by simp
qed

section \<open>Properties\<close>

subsection \<open>A subscriber, an event and its delivery\<close>

definition sample_hook :: webhook where
  "sample_hook = \<lparr>wh_id = ''w1'', wh_org_id = ''o1'', wh_dataset_id = None, wh_url = ''https://h'', wh_events = [''job.failed''],
     wh_secret = ''s'', wh_active = True, wh_created_at = 0, wh_updated_at = 0\<rparr>"

definition sample_hooks :: hook_db where
  "sample_hooks = \<lparr>hk_access = \<lparr>ac_keys = [], ac_orgs = [sample_org], ac_audit = []\<rparr>,
     hk_datasets = [], hk_webhooks = [sample_hook], hk_deliveries = []\<rparr>"

definition sample_net :: "nat \<Rightarrow> network" where
  "sample_net code = \<lparr>nw_parse_url = (\<lambda>s. Some \<lparr>scheme = ''https'', username = [], password = None, host_str = Some ''h'', port_or_known_default = Some 443\<rparr>),
     nw_lookup = (\<lambda>h p. Some []), nw_display = (\<lambda>r. ''refused''), nw_send = (\<lambda>url body sig. Inr code)\<rparr>"

definition sample_event :: hook_db where
  "sample_event = snd (emit 10 (\<lambda>i. ''d1'') ''o1'' None ''acme'' ''job.failed'' JNull sample_hooks)"

definition sample_hmac :: "string \<Rightarrow> string \<Rightarrow> nat list" where
  "sample_hmac secret body = [1, 2]"

definition sample_to_vec :: "json \<Rightarrow> string" where
  "sample_to_vec j = ''{}''"

definition sample_attempt :: "delivered_report option \<times> posted list \<times> hook_db" where
  "sample_attempt = drain_once sample_hmac sample_to_vec (sample_net 200) 20 21 sample_event"

lemma sample_event_rows: "map (\<lambda>d. (wd_id d, wd_webhook_id d, wd_state d, wd_next_attempt_at d)) (hk_deliveries sample_event) = [(''d1'', ''w1'', Pending, None)]"
  by code_simp

lemma sample_attempt_rows:
  "map (\<lambda>d. (wd_id d, wd_state d)) (hk_deliveries (snd (snd sample_attempt))) = [(''d1'', Delivered)]"
  "map (\<lambda>q. (po_delivery q, po_answer q)) (fst (snd sample_attempt)) = [(''d1'', Inr 200)]"
  by (code_simp, code_simp)

lemma sample_hook_run: "(hook_step sample_hmac sample_to_vec)\<^sup>*\<^sup>* (sample_hooks, []) (snd (snd sample_attempt), fst (snd sample_attempt))"
proof -
  have "hook_step sample_hmac sample_to_vec (sample_hooks, []) (sample_event, [])"
    by (rule hook_step.recorded) (simp add: sample_event_def prod_eq_iff)
  moreover have "hook_step sample_hmac sample_to_vec (sample_event, []) (snd (snd sample_attempt), [] @ fst (snd sample_attempt))"
    by (rule hook_step.attempted) (simp add: sample_attempt_def prod_eq_iff)
  ultimately show ?thesis by simp
qed



text \<open>C14: A drain with a budget for every pending delivery, while the subscribers answer with success, delivers everything that was due when it
  began: each such delivery is sent exactly once, with its stored payload, and ends as delivered.\<close>

theorem drain_delivers_backlog:
  assumes "drain hmac to_vec nets clock 0 budget db = (n, ps, db')" and "distinct (map wd_id (hk_deliveries db))"
    and "\<And>j. answering (nets j) db" and "\<And>j. t \<le> fst (clock j)"
    and "length (filter (\<lambda>d. wd_state d = Pending) (hk_deliveries db)) \<le> budget"
    and "d \<in> set (hk_deliveries db)" and "due t d"
  shows "(\<exists>d' \<in> set (hk_deliveries db'). wd_id d' = wd_id d \<and> wd_state d' = Delivered)
    \<and> (\<exists>q. posts_of (wd_id d) ps = [q] \<and> po_body q = to_vec (wd_payload d) \<and> accepted q)"
  using drain_works_off [OF assms(1-4) _ assms(6,7)] assms(5) by (simp add: pending_count_def)

theorem drain_delivers_backlog_witness:
  "\<exists>q. posts_of ''d1'' (fst (snd (drain sample_hmac sample_to_vec (\<lambda>j. sample_net 200) (\<lambda>j. (20, 21)) 0 16 sample_event))) = [q] \<and> accepted q"
proof -
  obtain d where d: "hk_deliveries sample_event = [d]" "wd_id d = ''d1''" "wd_webhook_id d = ''w1''" "wd_state d = Pending" "wd_next_attempt_at d = None"
    using sample_event_rows by (auto simp: map_eq_Cons_conv)
  have e: "webhook_endpoint ''w1'' sample_event = Some (''https://h'', ''s'')" by code_simp
  have c: "check (nw_parse_url (sample_net 200)) (nw_lookup (sample_net 200)) ''https://h'' Guarded = Inr ()" by code_simp
  have "answering (sample_net 200) sample_event"
    using e c by (auto simp: answering_def d sample_net_def)
  moreover obtain n ps db' where r: "drain sample_hmac sample_to_vec (\<lambda>j. sample_net 200) (\<lambda>j. (20, 21)) 0 16 sample_event = (n, ps, db')"
    by (metis prod_cases3)
  ultimately have "\<exists>q. posts_of (wd_id d) ps = [q] \<and> po_body q = sample_to_vec (wd_payload d) \<and> accepted q"
    using drain_delivers_backlog [OF r, of 20 d] d by (simp add: due_def)
  with r d show ?thesis by auto
qed

text \<open>The waits between the six attempts of a delivery add up to 155 seconds.\<close>

lemma retry_window: "(\<Sum>n \<leftarrow> [1, 2, 3, 4, 5]. delivery_backoff n) = 155"
  by (simp add: delivery_backoff_def)

text \<open>Two drainers that claim the same row: the second one's failure puts a delivered event back into the queue.\<close>

lemma second_drainer_reopens:
  "let (a, db1) = claim_delivery 20 sample_event; (b, db2) = claim_delivery 20 db1;
       db3 = snd (settle_post 21 ''d1'' True False (Some 200) None db2); db4 = snd (settle_post 22 ''d1'' False True (Some 503) (Some ''HTTP 503'') db3) in
   map wd_id a = [''d1''] \<and> map wd_id b = [''d1''] \<and> map wd_state (hk_deliveries db3) = [Delivered] \<and> map wd_state (hk_deliveries db4) = [Pending]"
  by code_simp

text \<open>A request is sent only to an address the guard let through at that time.\<close>

lemma drain_posts_are_guarded:
  assumes "drain_once hmac to_vec net now later db = (rep, [q], db')" "distinct (map wd_id (hk_deliveries db))"
  shows "check (nw_parse_url net) (nw_lookup net) (po_url q) Guarded = Inr ()"
proof (cases "next_due now db")
  case None with drain_once_idle [OF None] assms(1) show ?thesis by simp
next
  case (Some d)
  from drain_once_busy [OF Some assms(2,1)] show ?thesis by auto
qed

end
