(* ===== verification/ClearLaws.thy ===== *)
theory ClearLaws
  imports RetryLaws
begin

text \<open>
  What a clear does to the task ledger: the transaction \<open>clear\<close> of theory \<open>TaskLedger\<close> (\<open>er-server/src/taskpg.rs\<close>), read off its five statements.
\<close>

definition in_clear :: "string \<Rightarrow> string \<Rightarrow> string list \<Rightarrow> task_instance \<Rightarrow> bool" where
  "in_clear org_id job_id task_ids r \<longleftrightarrow> ti_org_id r = org_id \<and> ti_job_id r = job_id \<and> ti_task_id r \<in> set task_ids"

lemma update_rows:
  "update_tasks g f db = Inr (x, db') \<Longrightarrow>
     x = map f (filter g (tasks db)) \<and> db' = db\<lparr>tasks := map (\<lambda>r. if g r then f r else r) (tasks db)\<rparr>"
  unfolding update_tasks_def by (drule storeD) simp

lemma update_row_cases:
  assumes "update_tasks g f db = Inr (x, db')" "r \<in> set (tasks db')"
  obtains (changed) q where "q \<in> set (tasks db)" "g q" "r = f q" | (same) "r \<in> set (tasks db)" "\<not> g r"
proof -
  from assms update_rows [OF assms(1)] obtain q where "q \<in> set (tasks db)" "r = (if g q then f q else q)" by auto
  then show ?thesis using that by (cases "g q") auto
qed

lemma insert_rows: "insert_tasks new db = Inr (x, db') \<Longrightarrow> x = new \<and> db' = db\<lparr>tasks := tasks db @ new\<rparr>"
  unfolding insert_tasks_def by (drule storeD) simp

text \<open>Along a clear three things hold of the ledger before and after: rows outside it are the same, and no live task of it is lost.\<close>

definition clears :: "(task_instance \<Rightarrow> bool) \<Rightarrow> ledger \<Rightarrow> ledger \<Rightarrow> bool" where
  "clears P db db' \<longleftrightarrow> (\<forall>r \<in> set (tasks db). \<not> P r \<longrightarrow> r \<in> set (tasks db')) \<and> (\<forall>r \<in> set (tasks db'). \<not> P r \<longrightarrow> r \<in> set (tasks db))"

lemma clears_trans: "clears P a b \<Longrightarrow> clears P b c \<Longrightarrow> clears P a c"
  unfolding clears_def by blast

lemma clears_refl: "clears P db db"
  by (simp add: clears_def)

lemma clears_update:
  assumes "update_tasks g f db = Inr (x, db')" "\<And>r. g r \<Longrightarrow> P r \<and> P (f r)"
  shows "clears P db db'"
  using update_rows [OF assms(1)] assms(2) by (auto simp: clears_def)

definition alive :: "ledger \<Rightarrow> string \<times> string \<Rightarrow> bool" where
  "alive db c \<longleftrightarrow> (\<exists>r \<in> set (tasks db). ti_live r \<and> coordinate r = c)"

lemma alive_update:
  assumes "update_tasks g f db = Inr (x, db')" "alive db c" "\<And>r. g r \<Longrightarrow> ti_live (f r) = ti_live r \<and> coordinate (f r) = coordinate r"
  shows "alive db' c"
proof -
  from assms(2) obtain r where r: "r \<in> set (tasks db)" "ti_live r" "coordinate r = c" by (auto simp: alive_def)
  let ?r = "if g r then f r else r"
  have "?r \<in> set (tasks db')" using r(1) update_rows [OF assms(1)] by auto
  moreover have "ti_live ?r" "coordinate ?r = c" using r assms(3) [of r] by auto
  ultimately show ?thesis unfolding alive_def by blast
qed

section \<open>The statements\<close>

lemma insert_cleared_rows:
  assumes "insert_cleared_try sha256 now cls retries dig i db = Inr (new, db1)"
  shows "db1 = db\<lparr>tasks := tasks db @ new\<rparr>"
    and "\<And>s. s \<in> set new \<Longrightarrow> \<exists>r \<in> set (tasks db). ti_id r = i \<and> coordinate s = coordinate r \<and> ti_org_id s = ti_org_id r \<and> ti_state s = NoneState"
    and "\<And>r. r \<in> set (tasks db) \<Longrightarrow> ti_id r = i \<Longrightarrow> \<not> ti_live r \<Longrightarrow> ti_archived_reason r = Some ClearedReason \<Longrightarrow> alive db1 (coordinate r)"
proof -
  let ?keep = "\<lambda>r. ti_id r = i \<and> \<not> ti_live r \<and> ti_archived_reason r \<in> {Some ClearedReason, Some RestartedReason} \<and> no_live db r"
  let ?row = "\<lambda>r. (successor_of sha256 now r)\<lparr>ti_state := NoneState, ti_segment := ti_segment r,
               ti_resource_class := coalesce cls (coalesce (ti_next_resource_class r) (ti_resource_class r)),
               ti_max_tries := ti_try_number r + retries, ti_image_digest := dig\<rparr>"
  have row: "ti_live (?row r)" "coordinate (?row r) = coordinate r" "ti_org_id (?row r) = ti_org_id r" "ti_state (?row r) = NoneState" for r
    by (simp_all add: successor_of_def)
  from insert_rows [OF assms [unfolded insert_cleared_try_def]] have new: "new = map ?row (filter ?keep (tasks db))"
    and db1: "db1 = db\<lparr>tasks := tasks db @ new\<rparr>" by blast+
  show "db1 = db\<lparr>tasks := tasks db @ new\<rparr>" by (rule db1)
  show "\<exists>r \<in> set (tasks db). ti_id r = i \<and> coordinate s = coordinate r \<and> ti_org_id s = ti_org_id r \<and> ti_state s = NoneState" if s: "s \<in> set new" for s
  proof -
    from s obtain r where "r \<in> set (tasks db)" "?keep r" "s = ?row r" unfolding new by auto
    with row show ?thesis by blast
  qed
  show "alive db1 (coordinate r)" if r: "r \<in> set (tasks db)" "ti_id r = i" "\<not> ti_live r" "ti_archived_reason r = Some ClearedReason" for r
  proof (cases "no_live db r")
    case True
    with r have "?row r \<in> set new" unfolding new by auto
    then have "?row r \<in> set (tasks db1)" by (simp add: db1)
    with row [of r] show ?thesis unfolding alive_def by blast
  next
    case False
    then show ?thesis by (auto simp: no_live_def list_all_iff alive_def db1)
  qed
qed

lemma rotate_all_rows:
  assumes "rotate_all sha256 now cls retries dig rows db = Inr (x, db')"
    and "\<And>r row. r \<in> set (tasks db) \<Longrightarrow> row \<in> set rows \<Longrightarrow> ti_id r = ti_id row \<Longrightarrow> in_clear org_id job_id task_ids r"
  shows "set (tasks db) \<subseteq> set (tasks db') \<and> (\<forall>r \<in> set (tasks db'). r \<in> set (tasks db) \<or> in_clear org_id job_id task_ids r \<and> ti_state r = NoneState)"
  using assms
proof (induction rows arbitrary: db x)
  case (Cons row rows)
  from Cons.prems(1) obtain new db1 rest where ins: "insert_cleared_try sha256 now cls retries dig (ti_id row) db = Inr (new, db1)"
    and rot: "rotate_all sha256 now cls retries dig rows db1 = Inr (rest, db')"
    by (auto simp: seq_tx_def split: sum.splits)
  note i = insert_cleared_rows [OF ins]
  have new: "in_clear org_id job_id task_ids s \<and> ti_state s = NoneState" if s: "s \<in> set new" for s
  proof -
    from i(2) [OF s] obtain r where r: "r \<in> set (tasks db)" "ti_id r = ti_id row" "coordinate s = coordinate r" "ti_org_id s = ti_org_id r" "ti_state s = NoneState"
      by blast
    with Cons.prems(2) [OF r(1) _ r(2)] show ?thesis by (simp add: in_clear_def)
  qed
  have rows1: "r \<in> set (tasks db) \<or> r \<in> set new" if "r \<in> set (tasks db1)" for r using that by (auto simp: i(1))
  have "set (tasks db1) \<subseteq> set (tasks db') \<and> (\<forall>r \<in> set (tasks db'). r \<in> set (tasks db1) \<or> in_clear org_id job_id task_ids r \<and> ti_state r = NoneState)"
    by (rule Cons.IH [OF rot]) (use rows1 new Cons.prems(2) in \<open>auto\<close>)
  with rows1 new show ?case by (auto simp: i(1))
qed simp

lemma rotate_all_alive:
  assumes "rotate_all sha256 now cls retries dig rows db = Inr (x, db')"
  shows "alive db c \<Longrightarrow> alive db' c"
    and "\<And>r. r \<in> set rows \<Longrightarrow> r \<in> set (tasks db) \<Longrightarrow> \<not> ti_live r \<Longrightarrow> ti_archived_reason r = Some ClearedReason \<Longrightarrow> alive db' (coordinate r)"
proof -
  have "(alive db c \<longrightarrow> alive db' c) \<and> (\<forall>r \<in> set rows. r \<in> set (tasks db) \<longrightarrow> \<not> ti_live r \<longrightarrow> ti_archived_reason r = Some ClearedReason \<longrightarrow> alive db' (coordinate r))" for c
    using assms
  proof (induction rows arbitrary: db x c)
    case (Cons row rows)
    from Cons.prems obtain new db1 rest where ins: "insert_cleared_try sha256 now cls retries dig (ti_id row) db = Inr (new, db1)"
      and rot: "rotate_all sha256 now cls retries dig rows db1 = Inr (rest, db')"
      by (auto simp: seq_tx_def split: sum.splits)
    note i = insert_cleared_rows [OF ins]
    have keep: "alive db1 k" if "alive db k" for k using that by (auto simp: alive_def i(1))
    have mem: "r \<in> set (tasks db1)" if "r \<in> set (tasks db)" for r using that by (simp add: i(1))
    have "alive db' (coordinate r)" if "r \<in> set (row # rows)" "r \<in> set (tasks db)" "\<not> ti_live r" "ti_archived_reason r = Some ClearedReason" for r
    proof (cases "r = row")
      case True
      then have "alive db1 (coordinate r)" using i(3) [OF that(2) _ that(3,4)] by simp
      then show ?thesis using Cons.IH [OF rot] by blast
    next
      case False
      then show ?thesis using Cons.IH [OF rot] that mem by auto
    qed
    then show ?case using Cons.IH [OF rot] keep by blast
  qed simp
  then show "alive db c \<Longrightarrow> alive db' c"
    and "\<And>r. r \<in> set rows \<Longrightarrow> r \<in> set (tasks db) \<Longrightarrow> \<not> ti_live r \<Longrightarrow> ti_archived_reason r = Some ClearedReason \<Longrightarrow> alive db' (coordinate r)"
    by blast+
qed

section \<open>The transaction\<close>

lemma clear_rows_steps:
  assumes "clear_rows sha256 now org_id job_id task_ids retries cls dig db = Inr (c, db')"
  obtains db1 archived db2 db3 db4 where
    "restart_cleared now cls org_id job_id task_ids db = Inr (cl_restarting c, db1)"
    "archive_cleared now org_id job_id task_ids db1 = Inr (archived, db2)"
    "rotate_all sha256 now cls retries dig archived db2 = Inr (cl_rotated c, db3)"
    "reset_pending now retries cls dig org_id job_id task_ids db3 = Inr (cl_reset c, db4)"
    "tasks db' = tasks db4"
  using assms unfolding clear_rows_def seq_tx_def
  by (auto simp: reopen_job_def update_jobs_def split: sum.splits prod.splits)

text \<open>What the second and third statement do together.\<close>

lemma archive_rotate:
  assumes inv: "ledger_inv db1" and s2: "archive_cleared now org_id job_id task_ids db1 = Inr (archived, db2)"
    and s3: "rotate_all sha256 now cls retries dig archived db2 = Inr (rotated, db3)"
  shows archived_rows: "\<And>a. a \<in> set archived \<Longrightarrow> a \<in> set (tasks db2) \<and> in_clear org_id job_id task_ids a \<and> \<not> ti_live a \<and> ti_archived_reason a = Some ClearedReason"
    and rotated_rows: "set (tasks db2) \<subseteq> set (tasks db3)" "\<forall>r \<in> set (tasks db3). r \<in> set (tasks db2) \<or> in_clear org_id job_id task_ids r \<and> ti_state r = NoneState"
proof -
  have inv2: "ledger_inv db2" using archive_cleared.contract [OF inv s2] by blast
  note u2 = update_rows [OF s2 [unfolded archive_cleared_def]]
  show archived: "a \<in> set (tasks db2) \<and> in_clear org_id job_id task_ids a \<and> \<not> ti_live a \<and> ti_archived_reason a = Some ClearedReason" if "a \<in> set archived" for a
    using that u2 by (auto simp: in_clear_def)
  have same: "r = a" if "r \<in> set (tasks db2)" "a \<in> set archived" "ti_id r = ti_id a" for r a
    using that archived [OF that(2)] ledger_inv_ids [OF inv2] by (auto simp: distinct_map dest: inj_onD)
  show "set (tasks db2) \<subseteq> set (tasks db3)" "\<forall>r \<in> set (tasks db3). r \<in> set (tasks db2) \<or> in_clear org_id job_id task_ids r \<and> ti_state r = NoneState"
    using rotate_all_rows [OF s3, of org_id job_id task_ids] same archived by blast+
qed

text \<open>All rows outside a clear are as they were.\<close>

lemma clear_rows_clears:
  assumes inv: "ledger_inv db" and run: "clear_rows sha256 now org_id job_id task_ids retries cls dig db = Inr (c, db')"
  shows "clears (in_clear org_id job_id task_ids) db db'"
proof (rule clear_rows_steps [OF run])
  fix db1 archived db2 db3 db4
  let ?P = "in_clear org_id job_id task_ids"
  assume s1: "restart_cleared now cls org_id job_id task_ids db = Inr (cl_restarting c, db1)"
    and s2: "archive_cleared now org_id job_id task_ids db1 = Inr (archived, db2)"
    and s3: "rotate_all sha256 now cls retries dig archived db2 = Inr (cl_rotated c, db3)"
    and s4: "reset_pending now retries cls dig org_id job_id task_ids db3 = Inr (cl_reset c, db4)" and t: "tasks db' = tasks db4"
  have inv1: "ledger_inv db1" using restart_cleared.contract [OF inv s1] by blast
  have "clears ?P db db1" by (rule clears_update [OF s1 [unfolded restart_cleared_def]]) (auto simp: in_clear_def)
  moreover have "clears ?P db1 db2" by (rule clears_update [OF s2 [unfolded archive_cleared_def]]) (auto simp: in_clear_def)
  moreover have "clears ?P db2 db3" using rotated_rows [OF inv1 s2 s3] by (auto simp: clears_def)
  moreover have "clears ?P db3 db4" by (rule clears_update [OF s4 [unfolded reset_pending_def]]) (auto simp: in_clear_def)
  ultimately have "clears ?P db db4" using clears_trans by blast
  then show ?thesis by (simp add: clears_def t)
qed

text \<open>After a clear every live row of its tasks waits to run again, or for its pod to go; one that waits runs with as many retries as the
  clear grants.\<close>

lemma clear_rows_states:
  assumes inv: "ledger_inv db" and run: "clear_rows sha256 now org_id job_id task_ids retries cls dig db = Inr (c, db')"
    and r: "r \<in> set (tasks db')" "in_clear org_id job_id task_ids r" "ti_live r"
  shows "ti_state r \<in> {NoneState, Restarting, Canceling} \<and> (ti_state r = NoneState \<longrightarrow> ti_max_tries r = ti_try_number r - 1 + retries)"
proof (rule clear_rows_steps [OF run])
  fix db1 archived db2 db3 db4
  let ?P = "in_clear org_id job_id task_ids"
  assume s1: "restart_cleared now cls org_id job_id task_ids db = Inr (cl_restarting c, db1)"
    and s2: "archive_cleared now org_id job_id task_ids db1 = Inr (archived, db2)"
    and s3: "rotate_all sha256 now cls retries dig archived db2 = Inr (cl_rotated c, db3)"
    and s4: "reset_pending now retries cls dig org_id job_id task_ids db3 = Inr (cl_reset c, db4)" and t: "tasks db' = tasks db4"
  have inv1: "ledger_inv db1" using restart_cleared.contract [OF inv s1] by blast
  have p1: "ti_state x \<notin> {Queued, Running}" if "x \<in> set (tasks db1)" "?P x" "ti_live x" for x
    by (rule update_row_cases [OF s1 [unfolded restart_cleared_def] that(1)]) (use that(2,3) in \<open>simp_all add: in_clear_def\<close>)
  have p2: "ti_state x \<in> {NoneState, Scheduled, UpForRetry, Restarting, Canceling}" if "x \<in> set (tasks db2)" "?P x" "ti_live x" for x
  proof -
    have "x \<in> set (tasks db1) \<and> ti_state x \<notin> {Succeeded, Skipped, Failed, task_state.TimedOut, UpstreamFailed, UpstreamSkipped, Canceled}"
      by (rule update_row_cases [OF s2 [unfolded archive_cleared_def] that(1)]) (use that(2,3) in \<open>simp_all add: in_clear_def\<close>)
    with p1 [OF _ that(2,3)] show ?thesis by (cases "ti_state x") auto
  qed
  then have p3: "ti_state x \<in> {NoneState, Scheduled, UpForRetry, Restarting, Canceling}" if "x \<in> set (tasks db3)" "?P x" "ti_live x" for x
    using that rotated_rows(2) [OF inv1 s2 s3] by fastforce
  show ?thesis
  proof (rule update_row_cases [OF s4 [unfolded reset_pending_def] r(1) [unfolded t]])
    assume a: "r \<in> set (tasks db3)" and "\<not> (ti_org_id r = org_id \<and> ti_job_id r = job_id \<and> ti_live r
         \<and> ti_state r \<in> {NoneState, Scheduled, UpForRetry} \<and> ti_task_id r \<in> set task_ids)"
    with r(2,3) have "ti_state r \<notin> {NoneState, Scheduled, UpForRetry}" by (simp add: in_clear_def)
    with p3 [OF a r(2,3)] show ?thesis by auto
  qed simp
qed

text \<open>Every task of a clear that had a live row has one after it.\<close>

lemma clear_rows_alive:
  assumes inv: "ledger_inv db" and run: "clear_rows sha256 now org_id job_id task_ids retries cls dig db = Inr (c, db')"
    and r: "alive db k"
  shows "alive db' k"
proof (rule clear_rows_steps [OF run])
  fix db1 archived db2 db3 db4
  assume s1: "restart_cleared now cls org_id job_id task_ids db = Inr (cl_restarting c, db1)"
    and s2: "archive_cleared now org_id job_id task_ids db1 = Inr (archived, db2)"
    and s3: "rotate_all sha256 now cls retries dig archived db2 = Inr (cl_rotated c, db3)"
    and s4: "reset_pending now retries cls dig org_id job_id task_ids db3 = Inr (cl_reset c, db4)" and t: "tasks db' = tasks db4"
  have inv1: "ledger_inv db1" using restart_cleared.contract [OF inv s1] by blast
  note u2 = update_rows [OF s2 [unfolded archive_cleared_def]]
  from r have "alive db1 k" by (rule alive_update [OF s1 [unfolded restart_cleared_def]]) simp_all
  then obtain q where q: "q \<in> set (tasks db1)" "ti_live q" "coordinate q = k" by (auto simp: alive_def)
  have "alive db3 k"
  proof (cases "\<exists>q' \<in> set archived. coordinate q' = k")
    case True
    then show ?thesis using rotate_all_alive(2) [OF s3] archived_rows [OF inv1 s2 s3] by metis
  next
    case False
    have "q \<in> set (tasks db2)"
    proof (rule ccontr)
      assume "q \<notin> set (tasks db2)"
      with q(1) u2 have "\<exists>q' \<in> set archived. coordinate q' = coordinate q" by auto
      with False q(3) show False by auto
    qed
    with q have "alive db2 k" by (auto simp: alive_def)
    then show ?thesis by (rule rotate_all_alive(1) [OF s3])
  qed
  then have "alive db4 k" by (rule alive_update [OF s4 [unfolded reset_pending_def]]) simp_all
  then show ?thesis by (simp add: alive_def t)
qed

end
