(* ===== verification/SaToken.thy ===== *)
theory SaToken
  imports Prelude
begin

text \<open>
  The service-account token verifier of the attempt channel, \<open>er-server/src/satoken.rs\<close>: a bearer token of a task pod is verified offline
  against a cached key set of the cluster. Parsing and cryptography belong to the package \<open>jsonwebtoken\<close> and are parameters:
  \<open>decode_header\<close> reads the header of a token, \<open>parse_set\<close> a key-set document and \<open>decode\<close> checks a token against a key under the
  validation rules the code sets. A call reads the clock at most four times and fetches the key set at most twice; the readings and the
  answers are numbered in the order of the source. Times are in seconds.
\<close>

section \<open>Data\<close>

definition AUDIENCE :: string where "AUDIENCE = ''er-control-plane''"

definition LEEWAY_SECS :: nat where "LEEWAY_SECS = 30"

definition REFRESH_AFTER :: int where "REFRESH_AFTER = 3600"

definition UNKNOWN_KID_FETCH_FLOOR :: int where "UNKNOWN_KID_FETCH_FLOOR = 60"

record pod_claims =
  pc_namespace :: string
  pc_pod_name :: string
  pc_pod_uid :: string
  pc_service_account :: string

datatype algorithm = RS256 | ES256 | OtherAlgorithm string

datatype verify_error = HeaderError | NoKid | WrongAlgorithm algorithm | UnknownKid string | FetchError string | Invalid | NoPod

record jwt_header =
  hd_alg :: algorithm
  hd_kid :: "string option"

text \<open>A key of a key-set document: its id, the decoding key the package makes of it, and the family of its parameters.\<close>

datatype key_params = RSA | EllipticCurve | OtherParams

record 'key jwk =
  jk_kid :: "string option"
  jk_key :: "'key option"
  jk_params :: key_params

record 'key cache =
  ca_keys :: "(string \<times> 'key \<times> algorithm) list"
  ca_fetched_at :: "int option"

record validation =
  va_alg :: algorithm
  va_aud :: "string list"
  va_leeway :: nat
  va_validate_nbf :: bool
  va_validate_aud :: bool

record ref_claim =
  rc_name :: string
  rc_uid :: string

record k8s_claims =
  kc_namespace :: string
  kc_pod :: "ref_claim option"
  kc_serviceaccount :: "ref_claim option"

section \<open>The key cache\<close>

definition new_cache :: "'key cache" where
  "new_cache = \<lparr>ca_keys = [], ca_fetched_at = None\<rparr>"

text \<open>A key without an id, without a usable decoding key or of another family is passed over.\<close>

fun usable_keys :: "'key jwk list \<Rightarrow> (string \<times> 'key \<times> algorithm) list" where
  "usable_keys [] = []"
| "usable_keys (jwk # keys) =
     (case (jk_kid jwk, jk_key jwk, jk_params jwk) of
        (Some kid, Some key, RSA) \<Rightarrow> (kid, key, RS256) # usable_keys keys
      | (Some kid, Some key, EllipticCurve) \<Rightarrow> (kid, key, ES256) # usable_keys keys
      | _ \<Rightarrow> usable_keys keys)"

definition refresh :: "(string \<Rightarrow> string + 'key jwk list) \<Rightarrow> string + string \<Rightarrow> int \<Rightarrow> 'key cache \<Rightarrow> verify_error + 'key cache" where
  "refresh parse_set fetched now cache =
     (case fetched of
        Inl e \<Rightarrow> Inl (FetchError e)
      | Inr body \<Rightarrow> (case parse_set body of
            Inl e \<Rightarrow> Inl (FetchError e)
          | Inr keys \<Rightarrow> Inr (cache\<lparr>ca_keys := usable_keys keys, ca_fetched_at := Some now\<rparr>)))"

definition knows_kid :: "string \<Rightarrow> 'key cache \<Rightarrow> bool" where
  "knows_kid kid cache \<longleftrightarrow> list_ex (\<lambda>(k, _, _). k = kid) (ca_keys cache)"

text \<open>The two refreshes of a call. Each result carries the cache it leaves and the fetches it made: the answer and the time it was taken in.\<close>

type_synonym fetches = "((string + string) \<times> int) list"

definition refresh_stale :: "(string \<Rightarrow> string + 'key jwk list) \<Rightarrow> (nat \<Rightarrow> string + string) \<Rightarrow> (nat \<Rightarrow> int) \<Rightarrow> 'key cache
    \<Rightarrow> verify_error option \<times> 'key cache \<times> fetches" where
  "refresh_stale parse_set fetch clock cache =
     (if (case ca_fetched_at cache of None \<Rightarrow> True | Some t \<Rightarrow> REFRESH_AFTER \<le> clock 0 - t) then
        (case refresh parse_set (fetch 0) (clock 1) cache of
           Inl e \<Rightarrow> (Some e, cache, [(fetch 0, clock 1)])
         | Inr cache' \<Rightarrow> (None, cache', [(fetch 0, clock 1)]))
      else (None, cache, []))"

definition refresh_unknown :: "(string \<Rightarrow> string + 'key jwk list) \<Rightarrow> (nat \<Rightarrow> string + string) \<Rightarrow> (nat \<Rightarrow> int) \<Rightarrow> string \<Rightarrow> 'key cache
    \<Rightarrow> verify_error option \<times> 'key cache \<times> fetches" where
  "refresh_unknown parse_set fetch clock kid cache =
     (if knows_kid kid cache then (None, cache, [])
      else if (case ca_fetched_at cache of None \<Rightarrow> False | Some t \<Rightarrow> clock 2 - t < UNKNOWN_KID_FETCH_FLOOR) then (None, cache, [])
      else (case refresh parse_set (fetch 1) (clock 3) cache of
              Inl e \<Rightarrow> (Some e, cache, [(fetch 1, clock 3)])
            | Inr cache' \<Rightarrow> (None, cache', [(fetch 1, clock 3)])))"

section \<open>Verifying a token\<close>

definition validation_for :: "algorithm \<Rightarrow> validation" where
  "validation_for alg = \<lparr>va_alg = alg, va_aud = [AUDIENCE], va_leeway = LEEWAY_SECS, va_validate_nbf = True, va_validate_aud = True\<rparr>"

definition claims_of :: "k8s_claims \<Rightarrow> verify_error + pod_claims" where
  "claims_of k8s =
     (case kc_pod k8s of
        None \<Rightarrow> Inl NoPod
      | Some pod \<Rightarrow> Inr \<lparr>pc_namespace = kc_namespace k8s, pc_pod_name = rc_name pod, pc_pod_uid = rc_uid pod,
            pc_service_account = (case kc_serviceaccount k8s of None \<Rightarrow> [] | Some s \<Rightarrow> rc_name s)\<rparr>)"

definition check_token :: "(string \<Rightarrow> 'key \<Rightarrow> validation \<Rightarrow> k8s_claims option) \<Rightarrow> string \<Rightarrow> string \<Rightarrow> 'key cache \<Rightarrow> verify_error + pod_claims" where
  "check_token decode token kid cache =
     (case find (\<lambda>(k, _, _). k = kid) (ca_keys cache) of
        None \<Rightarrow> Inl (UnknownKid kid)
      | Some (_, key, alg) \<Rightarrow> (case decode token key (validation_for alg) of None \<Rightarrow> Inl Invalid | Some k8s \<Rightarrow> claims_of k8s))"

definition verify :: "(string \<Rightarrow> jwt_header option) \<Rightarrow> (string \<Rightarrow> string + 'key jwk list) \<Rightarrow> (string \<Rightarrow> 'key \<Rightarrow> validation \<Rightarrow> k8s_claims option)
    \<Rightarrow> (nat \<Rightarrow> string + string) \<Rightarrow> (nat \<Rightarrow> int) \<Rightarrow> string \<Rightarrow> 'key cache \<Rightarrow> (verify_error + pod_claims) \<times> 'key cache \<times> fetches" where
  "verify decode_header parse_set decode fetch clock token cache =
     (case decode_header token of
        None \<Rightarrow> (Inl HeaderError, cache, [])
      | Some header \<Rightarrow>
          if hd_alg header \<noteq> RS256 \<and> hd_alg header \<noteq> ES256 then (Inl (WrongAlgorithm (hd_alg header)), cache, [])
          else (case hd_kid header of
              None \<Rightarrow> (Inl NoKid, cache, [])
            | Some kid \<Rightarrow>
                (case refresh_stale parse_set fetch clock cache of
                   (Some e, cache1, f1) \<Rightarrow> (Inl e, cache1, f1)
                 | (None, cache1, f1) \<Rightarrow>
                     (case refresh_unknown parse_set fetch clock kid cache1 of
                        (Some e, cache2, f2) \<Rightarrow> (Inl e, cache2, f1 @ f2)
                      | (None, cache2, f2) \<Rightarrow> (check_token decode token kid cache2, cache2, f1 @ f2)))))"

definition looks_like_jwt :: "(string \<Rightarrow> jwt_header option) \<Rightarrow> string \<Rightarrow> bool" where
  "looks_like_jwt decode_header token \<longleftrightarrow> length (filter (\<lambda>b. b = CHR ''.'') token) = 2 \<and> decode_header token \<noteq> None"

section \<open>A verifier over time\<close>

text \<open>The readings of the clock in a call that begins no earlier than \<open>t\<close>.\<close>

definition clock_from :: "int \<Rightarrow> (nat \<Rightarrow> int) \<Rightarrow> bool" where
  "clock_from t clock \<longleftrightarrow> t \<le> clock 0 \<and> clock 0 \<le> clock 1 \<and> clock 1 \<le> clock 2 \<and> clock 2 \<le> clock 3"

text \<open>The caches a verifier can hold, with all fetches so far and the time of the last call. The lock on the cache puts calls in sequence.\<close>

inductive verifier_run for decode_header parse_set decode where
  fresh: "verifier_run decode_header parse_set decode new_cache [] t"
| call: "verifier_run decode_header parse_set decode cache past t \<Longrightarrow> clock_from t clock
    \<Longrightarrow> verify decode_header parse_set decode fetch clock token cache = (res, cache', fs)
    \<Longrightarrow> verifier_run decode_header parse_set decode cache' (past @ fs) (clock 3)"

definition good_fetch :: "(string \<Rightarrow> string + 'key jwk list) \<Rightarrow> (string + string) \<times> int \<Rightarrow> bool" where
  "good_fetch parse_set f \<longleftrightarrow> (case fst f of Inl _ \<Rightarrow> False | Inr body \<Rightarrow> (case parse_set body of Inl _ \<Rightarrow> False | Inr _ \<Rightarrow> True))"

definition good_times :: "(string \<Rightarrow> string + 'key jwk list) \<Rightarrow> fetches \<Rightarrow> int list" where
  "good_times parse_set past = map snd (filter (good_fetch parse_set) past)"

text \<open>The cache holds the keys of the last good fetch.\<close>

definition cache_ok :: "(string \<Rightarrow> string + 'key jwk list) \<Rightarrow> 'key cache \<Rightarrow> fetches \<Rightarrow> int \<Rightarrow> bool" where
  "cache_ok parse_set cache past t \<longleftrightarrow>
     sorted_wrt (\<lambda>a b. a + UNKNOWN_KID_FETCH_FLOOR \<le> b) (good_times parse_set past)
     \<and> (case ca_fetched_at cache of
          None \<Rightarrow> good_times parse_set past = [] \<and> ca_keys cache = []
        | Some s \<Rightarrow> s \<le> t \<and> (\<forall>g \<in> set (good_times parse_set past). g \<le> s)
            \<and> (\<exists>body keys. (Inr body, s) \<in> set past \<and> parse_set body = Inr keys \<and> ca_keys cache = usable_keys keys))"

lemma good_times_append [simp]: "good_times parse_set (a @ b) = good_times parse_set a @ good_times parse_set b"
  by (simp add: good_times_def)

lemma good_times_Nil [simp]: "good_times parse_set [] = []"
  by (simp add: good_times_def)

lemma cache_ok_later: "cache_ok parse_set cache past t \<Longrightarrow> t \<le> t' \<Longrightarrow> cache_ok parse_set cache past t'"
  by (auto simp: cache_ok_def split: option.splits)

lemma cache_ok_failed:
  assumes "cache_ok parse_set cache past t" "refresh parse_set fetched now cache = Inl e"
  shows "cache_ok parse_set cache (past @ [(fetched, now)]) t"
proof -
  from assms(2) have "good_times parse_set [(fetched, now)] = []"
    by (auto simp: refresh_def good_times_def good_fetch_def split: sum.splits)
  with assms(1) show ?thesis by (auto simp: cache_ok_def split: option.splits)
qed

lemma cache_ok_refreshed:
  assumes ok: "cache_ok parse_set cache past t" and t: "t \<le> now" and r: "refresh parse_set fetched now cache = Inr cache'"
    and due: "\<And>s. ca_fetched_at cache = Some s \<Longrightarrow> s + UNKNOWN_KID_FETCH_FLOOR \<le> now"
  shows "cache_ok parse_set cache' (past @ [(fetched, now)]) now \<and> ca_fetched_at cache' = Some now"
proof -
  from r obtain body keys where b: "fetched = Inr body" "parse_set body = Inr keys"
    and c: "cache' = cache\<lparr>ca_keys := usable_keys keys, ca_fetched_at := Some now\<rparr>"
    by (auto simp: refresh_def split: sum.splits)
  have good: "good_times parse_set [(fetched, now)] = [now]" by (simp add: good_times_def good_fetch_def b)
  have spaced: "g + UNKNOWN_KID_FETCH_FLOOR \<le> now" if "g \<in> set (good_times parse_set past)" for g
  proof (cases "ca_fetched_at cache")
    case None with ok that show ?thesis by (simp add: cache_ok_def)
  next
    case (Some s)
    with ok that have "g \<le> s" by (auto simp: cache_ok_def)
    with due [OF Some] show ?thesis by simp
  qed
  then have "\<forall>g \<in> set (good_times parse_set past). g \<le> now" by (fastforce simp: UNKNOWN_KID_FETCH_FLOOR_def)
  moreover have "sorted_wrt (\<lambda>a b. a + UNKNOWN_KID_FETCH_FLOOR \<le> b) (good_times parse_set past @ [now])"
    using ok spaced by (simp add: cache_ok_def sorted_wrt_append)
  ultimately show ?thesis using b by (auto simp: cache_ok_def good [unfolded b] c)
qed

lemma stale_ok:
  assumes "cache_ok parse_set cache past t" "clock_from t clock" "refresh_stale parse_set fetch clock cache = (e, cache', fs)"
  shows "cache_ok parse_set cache' (past @ fs) (clock 1)"
    and "e = None \<Longrightarrow> \<exists>s. ca_fetched_at cache' = Some s \<and> clock 0 - s < REFRESH_AFTER"
proof -
  note mono = assms(2) [unfolded clock_from_def]
  show "cache_ok parse_set cache' (past @ fs) (clock 1)"
    using assms(1,3) mono cache_ok_failed [OF assms(1), of "fetch 0" "clock 1"]
      cache_ok_refreshed [OF assms(1), of "clock 1" "fetch 0"]
    by (fastforce simp: refresh_stale_def REFRESH_AFTER_def UNKNOWN_KID_FETCH_FLOOR_def intro: cache_ok_later
        split: if_splits sum.splits option.splits)
  show "\<exists>s. ca_fetched_at cache' = Some s \<and> clock 0 - s < REFRESH_AFTER" if "e = None"
    using assms(3) that mono
    by (auto simp: refresh_stale_def refresh_def REFRESH_AFTER_def split: if_splits sum.splits option.splits)
qed

lemma unknown_ok:
  assumes "cache_ok parse_set cache past (clock 1)" "clock_from t clock" "refresh_unknown parse_set fetch clock kid cache = (e, cache', fs)"
    and "\<exists>s. ca_fetched_at cache = Some s \<and> clock 0 - s < REFRESH_AFTER"
  shows "cache_ok parse_set cache' (past @ fs) (clock 3)"
    and "\<exists>s. ca_fetched_at cache' = Some s \<and> clock 0 - s < REFRESH_AFTER"
proof -
  note mono = assms(2) [unfolded clock_from_def]
  show "cache_ok parse_set cache' (past @ fs) (clock 3)"
    using assms(1,3,4) mono cache_ok_failed [OF assms(1), of "fetch 1" "clock 3"]
      cache_ok_refreshed [OF assms(1), of "clock 3" "fetch 1"]
    by (fastforce simp: refresh_unknown_def intro: cache_ok_later split: if_splits sum.splits option.splits)
  show "\<exists>s. ca_fetched_at cache' = Some s \<and> clock 0 - s < REFRESH_AFTER"
    using assms(3,4) mono
    by (auto simp: refresh_unknown_def refresh_def REFRESH_AFTER_def split: if_splits sum.splits option.splits)
qed

text \<open>What one call does to a cache in order.\<close>

lemma verify_ok:
  assumes ok: "cache_ok parse_set cache past t" and clock: "clock_from t clock"
    and v: "verify decode_header parse_set decode fetch clock token cache = (res, cache', fs)"
  shows "cache_ok parse_set cache' (past @ fs) (clock 3)
    \<and> (\<forall>claims. res = Inr claims \<longrightarrow> (\<exists>header kid s. decode_header token = Some header \<and> hd_alg header \<in> {RS256, ES256}
        \<and> hd_kid header = Some kid \<and> check_token decode token kid cache' = Inr claims
        \<and> ca_fetched_at cache' = Some s \<and> clock 0 - s < REFRESH_AFTER))"
proof -
  have late: "cache_ok parse_set cache past (clock 3)"
    using cache_ok_later [OF ok] clock by (simp add: clock_from_def)
  show ?thesis
  proof (cases "decode_header token")
    case None with v late show ?thesis by (auto simp: verify_def)
  next
    case (Some header)
    show ?thesis
    proof (cases "hd_alg header \<in> {RS256, ES256} \<and> hd_kid header \<noteq> None")
      case False with v late Some show ?thesis by (auto simp: verify_def split: option.splits if_splits)
    next
      case True
      then obtain kid where kid: "hd_kid header = Some kid" by auto
      obtain e1 c1 f1 where s1: "refresh_stale parse_set fetch clock cache = (e1, c1, f1)" by (metis prod_cases3)
      note one = stale_ok [OF ok clock s1]
      show ?thesis
      proof (cases e1)
        case (Some e)
        with v \<open>decode_header token = Some header\<close> True kid s1 one(1) clock show ?thesis
          by (auto simp: verify_def clock_from_def intro: cache_ok_later)
      next
        case None
        obtain e2 c2 f2 where s2: "refresh_unknown parse_set fetch clock kid c1 = (e2, c2, f2)" by (metis prod_cases3)
        note two = unknown_ok [OF one(1) clock s2 one(2) [OF None]]
        from v \<open>decode_header token = Some header\<close> True kid s1 s2 None
        have "cache' = c2" "fs = f1 @ f2" "res = (case e2 of Some e \<Rightarrow> Inl e | None \<Rightarrow> check_token decode token kid c2)"
          by (auto simp: verify_def split: option.splits)
        with two \<open>decode_header token = Some header\<close> True kid show ?thesis by (auto split: option.splits)
      qed
    qed
  qed
qed

lemma run_ok: "verifier_run decode_header parse_set decode cache past t \<Longrightarrow> cache_ok parse_set cache past t"
proof (induction rule: verifier_run.induct)
  case (fresh t) show ?case by (simp add: cache_ok_def new_cache_def)
next
  case (call cache past t clock fetch token res cache' fs) then show ?case using verify_ok by blast
qed

lemma check_tokenD:
  assumes "check_token decode token kid cache = Inr claims"
  shows "\<exists>key alg k8s. (kid, key, alg) \<in> set (ca_keys cache) \<and> decode token key (validation_for alg) = Some k8s \<and> claims_of k8s = Inr claims"
proof -
  from assms obtain k key alg k8s where f: "find (\<lambda>(k, _, _). k = kid) (ca_keys cache) = Some (k, key, alg)"
    and d: "decode token key (validation_for alg) = Some k8s" "claims_of k8s = Inr claims"
    by (auto simp: check_token_def split: option.splits)
  have "(kid, key, alg) \<in> set (ca_keys cache)" using f by (auto simp: find_Some_iff in_set_conv_nth)
  with d show ?thesis by blast
qed

section \<open>Properties\<close>

text \<open>C12: A token the verifier accepts, whatever calls came before, names a key id and one of the two algorithms in its header; the key set
  document of the latest good fetch, no older than an hour when the call began, has a usable key under that id; and the token
  decoded under that key with the audience of the control plane, with expiry leeway of thirty seconds and \<open>nbf\<close> checked. The claims returned
  are those of the pod the token carries.\<close>

theorem accepted_token_was_signed_by_the_cluster:
  assumes "verifier_run decode_header parse_set decode cache past t" and "clock_from t clock"
    and "verify decode_header parse_set decode fetch clock token cache = (Inr claims, cache', fs)"
  shows "\<exists>header kid body s keys key alg k8s pod.
    decode_header token = Some header \<and> hd_alg header \<in> {RS256, ES256} \<and> hd_kid header = Some kid
    \<and> (Inr body, s) \<in> set (past @ fs) \<and> parse_set body = Inr keys
    \<and> clock 0 - s < 3600 \<and> (\<forall>g \<in> set (good_times parse_set (past @ fs)). g \<le> s)
    \<and> (kid, key, alg) \<in> set (usable_keys keys)
    \<and> decode token key \<lparr>va_alg = alg, va_aud = [''er-control-plane''], va_leeway = 30, va_validate_nbf = True, va_validate_aud = True\<rparr> = Some k8s
    \<and> kc_pod k8s = Some pod \<and> pc_pod_name claims = rc_name pod \<and> pc_pod_uid claims = rc_uid pod"
proof -
  note ok = run_ok [OF assms(1)]
  from verify_ok [OF ok assms(2,3)] obtain header kid s where
      h: "decode_header token = Some header" "hd_alg header \<in> {RS256, ES256}" "hd_kid header = Some kid"
      and chk: "check_token decode token kid cache' = Inr claims"
      and s: "ca_fetched_at cache' = Some s" "clock 0 - s < REFRESH_AFTER"
      and ok': "cache_ok parse_set cache' (past @ fs) (clock 3)" by blast
  from ok' s(1) obtain body keys where b: "(Inr body, s) \<in> set (past @ fs)" "parse_set body = Inr keys" "ca_keys cache' = usable_keys keys"
      and last: "\<forall>g \<in> set (good_times parse_set (past @ fs)). g \<le> s"
    by (auto simp: cache_ok_def)
  from check_tokenD [OF chk] obtain key alg k8s where k: "(kid, key, alg) \<in> set (usable_keys keys)"
      "decode token key (validation_for alg) = Some k8s" and c: "claims_of k8s = Inr claims" unfolding b(3) by blast
  from c obtain pod where "kc_pod k8s = Some pod" "pc_pod_name claims = rc_name pod" "pc_pod_uid claims = rc_uid pod"
    by (auto simp: claims_of_def split: option.splits)
  with h b(1,2) s(2) last k show ?thesis
    unfolding validation_for_def AUDIENCE_def LEEWAY_SECS_def REFRESH_AFTER_def by blast
qed

text \<open>However many tokens arrive and whatever key ids they name, the good fetches of the key set are at least a minute apart.\<close>

lemma key_set_fetched_sparingly:
  assumes "verifier_run decode_header parse_set decode cache past t"
  shows "sorted_wrt (\<lambda>a b. a + 60 \<le> b) (good_times parse_set past)"
  using run_ok [OF assms] by (simp add: cache_ok_def UNKNOWN_KID_FETCH_FLOOR_def)

text \<open>The floor counts good fetches only: when the key set cannot be fetched every call asks again.\<close>

lemma failed_fetch_is_repeated:
  assumes "decode_header token = Some header" "hd_alg header = RS256" "hd_kid header = Some kid" "ca_fetched_at cache = None"
    and "fetch 0 = Inl e"
  shows "verify decode_header parse_set decode fetch clock token cache = (Inl (FetchError e), cache, [(Inl e, clock 1)])"
  using assms by (simp add: verify_def refresh_stale_def refresh_def)

subsection \<open>An example\<close>

definition toy_header :: "string \<Rightarrow> jwt_header option" where
  "toy_header token = (case token of [] \<Rightarrow> None | c # _ \<Rightarrow> Some \<lparr>hd_alg = RS256, hd_kid = Some [c]\<rparr>)"

definition toy_set :: "string \<Rightarrow> string + nat jwk list" where
  "toy_set body = Inr (map (\<lambda>c. \<lparr>jk_kid = Some [c], jk_key = Some 7, jk_params = RSA\<rparr>) body)"

definition toy_decode :: "string \<Rightarrow> nat \<Rightarrow> validation \<Rightarrow> k8s_claims option" where
  "toy_decode token key v = (if key = 7 \<and> va_aud v = [AUDIENCE]
     then Some \<lparr>kc_namespace = ''er'', kc_pod = Some \<lparr>rc_name = token, rc_uid = ''u1''\<rparr>, kc_serviceaccount = None\<rparr> else None)"

definition toy_clock :: "int \<Rightarrow> nat \<Rightarrow> int" where
  "toy_clock t i = t + int i"

definition toy_first :: "(verify_error + pod_claims) \<times> nat cache \<times> fetches" where
  "toy_first = verify toy_header toy_set toy_decode (\<lambda>_. Inr ''ab'') (toy_clock 0) ''c1'' new_cache"

definition toy_second :: "(verify_error + pod_claims) \<times> nat cache \<times> fetches" where
  "toy_second = verify toy_header toy_set toy_decode (\<lambda>_. Inr ''abc'') (toy_clock 100) ''c1'' (fst (snd toy_first))"

lemmas toy_defs = toy_second_def toy_first_def verify_def refresh_stale_def refresh_unknown_def refresh_def new_cache_def toy_header_def
  toy_set_def toy_decode_def toy_clock_def knows_kid_def check_token_def claims_of_def validation_for_def REFRESH_AFTER_def
  UNKNOWN_KID_FETCH_FLOOR_def

lemma toy_values:
  "toy_first = (Inl (UnknownKid ''c''), fst (snd toy_first), [(Inr ''ab'', 1)])"
  "toy_second = (Inr \<lparr>pc_namespace = ''er'', pc_pod_name = ''c1'', pc_pod_uid = ''u1'', pc_service_account = []\<rparr>,
     fst (snd toy_second), [(Inr ''abc'', 103)])"
  by (simp_all add: toy_defs)

lemma toy_runs:
  "verifier_run toy_header toy_set toy_decode (fst (snd toy_first)) [(Inr ''ab'', 1)] 3"
  "verifier_run toy_header toy_set toy_decode (fst (snd toy_second)) [(Inr ''ab'', 1), (Inr ''abc'', 103)] 103"
proof -
  have "verifier_run toy_header toy_set toy_decode (fst (snd toy_first)) ([] @ [(Inr ''ab'', 1)]) (toy_clock 0 3)"
    by (rule verifier_run.call [OF verifier_run.fresh [of _ _ _ 0] _ toy_values(1) [unfolded toy_first_def], folded toy_first_def])
      (simp add: clock_from_def toy_clock_def)
  then show one: "verifier_run toy_header toy_set toy_decode (fst (snd toy_first)) [(Inr ''ab'', 1)] 3" by (simp add: toy_clock_def)
  have "verifier_run toy_header toy_set toy_decode (fst (snd toy_second)) ([(Inr ''ab'', 1)] @ [(Inr ''abc'', 103)]) (toy_clock 100 3)"
    by (rule verifier_run.call [OF one _ toy_values(2) [unfolded toy_second_def], folded toy_second_def])
      (simp add: clock_from_def toy_clock_def)
  then show "verifier_run toy_header toy_set toy_decode (fst (snd toy_second)) [(Inr ''ab'', 1), (Inr ''abc'', 103)] 103"
    by (simp add: toy_clock_def)
qed

lemma key_set_fetched_sparingly_witness: "sorted_wrt (\<lambda>a b. a + 60 \<le> b) (good_times toy_set [(Inr ''ab'', 1), (Inr ''abc'', 103)])"
  by (rule key_set_fetched_sparingly [OF toy_runs(2)])

theorem accepted_token_was_signed_by_the_cluster_witness:
  "\<exists>body s. (Inr body, s) \<in> set [(Inr ''ab'', 1), (Inr ''abc'', 103 :: int)] \<and> 100 - s < (3600 :: int)
     \<and> (\<forall>g \<in> set (good_times toy_set [(Inr ''ab'', 1), (Inr ''abc'', 103)]). g \<le> s)"
proof -
  have c: "clock_from 3 (toy_clock 100)" by (simp add: clock_from_def toy_clock_def)
  note v = toy_values(2) [unfolded toy_second_def]
  show ?thesis using accepted_token_was_signed_by_the_cluster [OF toy_runs(1) c v] by (auto simp: toy_clock_def)
qed

end
