(* ===== verification/AttemptChannel.thy ===== *)
theory AttemptChannel
  imports Access SaToken ExecutorLaws RetryLaws Cron
begin

text \<open>
  The attempt channel of \<open>er-server/src/lib.rs\<close>: how a task pod authenticates for one attempt, fetches its work order and reports its start, its
  heartbeats and its end. The credential is a service-account token verified as in theory \<open>SaToken\<close>, or the token the launch claim minted, kept
  as a hash on the row. The database is the task ledger with the tables the work order reads; \<open>Inl e\<close> stands for a failed connection and
  \<open>pg_text\<close> for the text of a refused statement.
\<close>

section \<open>State\<close>

record matching_model =
  mm_id :: string
  mm_org_id :: string
  mm_dataset_id :: string
  mm_name :: string
  mm_version :: int
  mm_entity_type :: string
  mm_model_json :: string
  mm_model_hash :: string
  mm_model_version_label :: string
  mm_tf_snapshot_id :: "string option"
  mm_state :: string
  mm_provenance :: json
  mm_created_by :: string
  mm_activated_at :: "int option"
  mm_created_at :: int
  mm_updated_at :: int

record pair_label =
  pl_dataset_id :: string
  pl_rec_a_key :: string
  pl_rec_b_key :: string
  pl_verdict :: string
  pl_origin :: string

record channel_db =
  ch_access :: access_db
  ch_datasets :: "dataset_row list"
  ch_models :: "matching_model list"
  ch_labels :: "pair_label list"
  ch_ledger :: ledger

record active_model_spec =
  am_name :: string
  am_version :: int
  am_model_json :: string
  am_model_version_label :: string
  am_tf_snapshot_id :: "string option"

type_synonym verifier = "(string \<Rightarrow> verify_error + pod_claims) option"

section \<open>Who is speaking\<close>

datatype attempt_identity = Fallback | PodIdentity pod_claims

fun identity_pod_uid :: "attempt_identity \<Rightarrow> string \<Rightarrow> string" where
  "identity_pod_uid (PodIdentity claims) from_body = pc_pod_uid claims"
| "identity_pod_uid Fallback from_body = from_body"

definition starts_with :: "string \<Rightarrow> string \<Rightarrow> bool" where
  "starts_with p s \<longleftrightarrow> take (length p) s = p"

definition bound_pod :: "pod_claims \<Rightarrow> task_instance \<Rightarrow> bool" where
  "bound_pod claims r \<longleftrightarrow> (case ti_k8s_job_name r of None \<Rightarrow> False | Some job \<Rightarrow> job \<noteq> INPROC \<and> starts_with (job @ ''-'') (pc_pod_name claims))"

definition attempt_authorized :: "(string \<Rightarrow> nat list) \<Rightarrow> (string \<Rightarrow> jwt_header option) \<Rightarrow> verifier \<Rightarrow> string \<Rightarrow> headers \<Rightarrow> ledger
    \<Rightarrow> http_error + (task_instance list \<times> attempt_identity)" where
  "attempt_authorized sha256 decode_header sa_verifier aid hdr db =
     (case bearer hdr of
        None \<Rightarrow> Inl (unauthorized ''missing attempt token'')
      | Some token \<Rightarrow>
          (case retry_lineage aid db of
             [] \<Rightarrow> Inl (404, ''no such attempt'')
           | current # earlier \<Rightarrow>
               if looks_like_jwt decode_header token then
                 (case sa_verifier of
                    None \<Rightarrow> Inl (unauthorized ''a ServiceAccount token was presented, but this server holds no cluster key set'')
                  | Some verify_token \<Rightarrow>
                      (case verify_token token of
                         Inl _ \<Rightarrow> Inl (unauthorized ''the ServiceAccount token does not verify'')
                       | Inr claims \<Rightarrow>
                           if bound_pod claims current then Inr (current # earlier, PodIdentity claims)
                           else Inl (unauthorized (''the token'' @ [CHR 0x27] @ ''s pod is not this attempt'' @ [CHR 0x27] @ ''s launch''))))
               else
                 (let presented = hash_secret sha256 token in
                  if (case ti_token_hash current of None \<Rightarrow> False | Some stored \<Rightarrow> ct_eq (bytes stored) (bytes presented))
                  then Inr (current # earlier, Fallback)
                  else Inl (unauthorized ''the attempt token does not match this attempt''))))"

text \<open>The frame of every handler of the channel.\<close>

definition with_attempt :: "(string \<Rightarrow> nat list) \<Rightarrow> (string \<Rightarrow> jwt_header option) \<Rightarrow> verifier \<Rightarrow> string \<Rightarrow> headers \<Rightarrow> (string + channel_db) option
    \<Rightarrow> (task_instance list \<Rightarrow> attempt_identity \<Rightarrow> channel_db \<Rightarrow> http_error + 'a) \<Rightarrow> http_error + 'a" where
  "with_attempt sha256 decode_header sa_verifier aid hdr dsn run =
     (case dsn of
        None \<Rightarrow> Inl (501, ''the attempt channel requires Postgres'')
      | Some (Inl e) \<Rightarrow> Inl (500, ''db connect: '' @ e)
      | Some (Inr db) \<Rightarrow>
          (case attempt_authorized sha256 decode_header sa_verifier aid hdr (ch_ledger db) of
             Inl e \<Rightarrow> Inl e
           | Inr (chain, identity) \<Rightarrow> run chain identity db))"

section \<open>The work order\<close>

definition get_dataset_by_id :: "string \<Rightarrow> channel_db \<Rightarrow> dataset_row option" where
  "get_dataset_by_id i db = find (\<lambda>d. dt_id d = i) (ch_datasets db)"

definition lake_env_for_job :: "org_row \<Rightarrow> string option \<Rightarrow> channel_db \<Rightarrow> (json \<times> string option) option" where
  "lake_env_for_job org dataset_id db =
     (case dataset_id of
        Some i \<Rightarrow> map_option (\<lambda>d. (dt_env d, dt_drop_root d)) (get_dataset_by_id i db)
      | None \<Rightarrow> Some (og_env org, og_drop_root org))"

definition active_models :: "string \<Rightarrow> channel_db \<Rightarrow> matching_model list" where
  "active_models dataset_id db = sort_key mm_name (filter (\<lambda>m. mm_dataset_id m = dataset_id \<and> mm_state m = ''active'') (ch_models db))"

definition all_labels :: "string \<Rightarrow> channel_db \<Rightarrow> pair_label list" where
  "all_labels dataset_id db =
     sort_key pl_rec_a_key (sort_key pl_rec_b_key (filter (\<lambda>l. pl_dataset_id l = dataset_id) (ch_labels db)))"

definition model_spec :: "matching_model \<Rightarrow> active_model_spec" where
  "model_spec m = \<lparr>am_name = mm_name m, am_version = mm_version m, am_model_json = mm_model_json m,
     am_model_version_label = mm_model_version_label m, am_tf_snapshot_id = mm_tf_snapshot_id m\<rparr>"

definition training_labels :: "pair_label list \<Rightarrow> (string \<times> string) list" where
  "training_labels rows = map (\<lambda>l. (pl_rec_a_key l, pl_rec_b_key l)) (filter (\<lambda>l. pl_verdict l = ''match'' \<and> pl_origin l \<noteq> ''llm'') rows)"

record work_order =
  wo_org_id :: string
  wo_dataset_id :: "string option"
  wo_job_id :: string
  wo_run_id :: string
  wo_kind :: string
  wo_task_id :: string
  wo_try_number :: int
  wo_state :: task_state
  wo_resource_class :: "resource_class option"
  wo_segment :: "string option"
  wo_trigger_rule :: trigger_rule
  wo_max_tries :: int
  wo_input :: "json option"
  wo_params :: json
  wo_structural_fingerprint :: "string option"
  wo_lineage :: "string list"
  wo_lake_env :: json
  wo_drop_root :: "string option"
  wo_models :: "active_model_spec list"
  wo_labels :: "(string \<times> string) list"

definition order_for :: "task_instance list \<Rightarrow> job \<Rightarrow> json \<times> string option \<Rightarrow> active_model_spec list \<Rightarrow> (string \<times> string) list \<Rightarrow> work_order" where
  "order_for chain job lake models labels =
     (let current = hd chain in
      \<lparr>wo_org_id = ti_org_id current, wo_dataset_id = jb_dataset_id job, wo_job_id = ti_job_id current,
       wo_run_id = (case jb_run_id job of None \<Rightarrow> jb_id job | Some i \<Rightarrow> i), wo_kind = jb_kind job, wo_task_id = ti_task_id current,
       wo_try_number = ti_try_number current, wo_state = ti_state current, wo_resource_class = ti_resource_class current,
       wo_segment = ti_segment current, wo_trigger_rule = ti_trigger_rule current, wo_max_tries = ti_max_tries current,
       wo_input = ti_input current, wo_params = jb_params job, wo_structural_fingerprint = jb_structural_fingerprint job,
       wo_lineage = map ti_id chain, wo_lake_env = fst lake, wo_drop_root = snd lake, wo_models = models, wo_labels = labels\<rparr>)"

definition attempt_work_order :: "(string \<Rightarrow> nat list) \<Rightarrow> (string \<Rightarrow> jwt_header option) \<Rightarrow> verifier \<Rightarrow> string \<Rightarrow> headers \<Rightarrow> (string + channel_db) option
    \<Rightarrow> http_error + work_order" where
  "attempt_work_order sha256 decode_header sa_verifier aid hdr dsn =
     with_attempt sha256 decode_header sa_verifier aid hdr dsn (\<lambda>chain identity db.
       let current = hd chain in
       case get_job (ti_org_id current) (ti_job_id current) (ch_ledger db) of
         None \<Rightarrow> Inl (404, ''no job behind this attempt'')
       | Some job \<Rightarrow>
           (let lake = (case get_org_by_id (ti_org_id current) (ch_access db) of
                          Some org \<Rightarrow> lake_env_for_job org (jb_dataset_id job) db
                        | None \<Rightarrow> Some (JNull, None));
                models = map model_spec (active_models (ti_org_id current) db);
                labels = (if jb_kind job = ''train'' then training_labels (all_labels (ti_org_id current) db) else []) in
            case lake of
              None \<Rightarrow> Inl (409, ''the job'' @ [CHR 0x27] @ ''s dataset no longer exists'')
            | Some pair \<Rightarrow> Inr (order_for chain job pair models labels)))"

text \<open>The models the in-process dispatcher reads for the same job.\<close>

definition dispatcher_models :: "job \<Rightarrow> channel_db \<Rightarrow> active_model_spec list" where
  "dispatcher_models job db =
     map model_spec (active_models (case jb_dataset_id job of None \<Rightarrow> jb_org_id job | Some d \<Rightarrow> d) db)"

section \<open>Reports\<close>

definition pg_err :: "(sql_error \<Rightarrow> string) \<Rightarrow> sql_error \<Rightarrow> http_error" where
  "pg_err pg_text e = (500, ''db: '' @ pg_text e)"

text \<open>A statement that has to have hit a row.\<close>

definition one_row :: "(sql_error \<Rightarrow> string) \<Rightarrow> string \<Rightarrow> channel_db \<Rightarrow> sql_error + (task_instance list \<times> ledger) \<Rightarrow> http_error + (task_instance \<times> channel_db)" where
  "one_row pg_text stale db res =
     (case res of
        Inl e \<Rightarrow> Inl (pg_err pg_text e)
      | Inr ([], _) \<Rightarrow> Inl (409, stale)
      | Inr (row # _, led) \<Rightarrow> Inr (row, db\<lparr>ch_ledger := led\<rparr>))"

record attempt_start_body =
  as_k8s_job_name :: string
  as_pod_uid :: string
  as_pod_name :: "string option"
  as_node_name :: "string option"
  as_image_digest :: "string option"

fun starting_pod :: "attempt_identity \<Rightarrow> attempt_start_body \<Rightarrow> string option \<times> string" where
  "starting_pod (PodIdentity claims) body = (Some (pc_pod_name claims), pc_pod_uid claims)"
| "starting_pod Fallback body = (as_pod_name body, as_pod_uid body)"

definition attempt_start :: "(string \<Rightarrow> nat list) \<Rightarrow> (string \<Rightarrow> jwt_header option) \<Rightarrow> verifier \<Rightarrow> (sql_error \<Rightarrow> string) \<Rightarrow> int \<Rightarrow> string \<Rightarrow> headers
    \<Rightarrow> attempt_start_body \<Rightarrow> (string + channel_db) option \<Rightarrow> http_error + (task_instance \<times> channel_db)" where
  "attempt_start sha256 decode_header sa_verifier pg_text now aid hdr body dsn =
     with_attempt sha256 decode_header sa_verifier aid hdr dsn (\<lambda>chain identity db.
       one_row pg_text ''stale start: the attempt is not queued under this launch'' db
         (start now (fst (starting_pod identity body)) (snd (starting_pod identity body)) (as_node_name body) (as_image_digest body) aid
            (as_k8s_job_name body) (ch_ledger db)))"

record attempt_heartbeat_body =
  ah_pod_uid :: string
  ah_counters :: "json option"

definition attempt_heartbeat :: "(string \<Rightarrow> nat list) \<Rightarrow> (string \<Rightarrow> jwt_header option) \<Rightarrow> verifier \<Rightarrow> (sql_error \<Rightarrow> string) \<Rightarrow> int \<Rightarrow> string \<Rightarrow> headers
    \<Rightarrow> attempt_heartbeat_body \<Rightarrow> (string + channel_db) option \<Rightarrow> http_error + (task_instance \<times> channel_db)" where
  "attempt_heartbeat sha256 decode_header sa_verifier pg_text now aid hdr body dsn =
     with_attempt sha256 decode_header sa_verifier aid hdr dsn (\<lambda>chain identity db.
       one_row pg_text ''fenced: the attempt is no longer running as this pod'' db
         (heartbeat now (ah_counters body) aid (identity_pod_uid identity (ah_pod_uid body)) (ch_ledger db)))"

record attempt_finish_body =
  af_state :: string
  af_pod_uid :: string
  af_outcome :: "string option"
  af_output :: "json option"
  af_snapshot_start :: "int option"
  af_snapshot_end :: "int option"
  af_counters :: "json option"
  af_exit_code :: "int option"
  af_error_class :: "string option"
  af_error_detail :: "string option"
  af_termination_reason :: "string option"

text \<open>What a finish answers: the row, with the schema state it reports for the tenant; the archived row with the retry; or the row noted.\<close>

record schema_report =
  sr_org_id :: string
  sr_dataset_id :: "string option"
  sr_status :: string
  sr_catalog_hash :: string
  sr_detail :: string

datatype finish_answer =
    FinishedRow task_instance "schema_report option"
  | ArchivedRow task_instance "task_instance option"
  | NotedRow task_instance

definition json_index :: "json \<Rightarrow> string \<Rightarrow> json" where
  "json_index j k = (case json_get j k of None \<Rightarrow> JNull | Some v \<Rightarrow> v)"

definition schema_report_of :: "json option \<Rightarrow> task_instance \<Rightarrow> schema_report option" where
  "schema_report_of out row =
     (case out of
        None \<Rightarrow> None
      | Some o' \<Rightarrow>
          if json_index o' ''plan'' = JStr ''schema_reconciled'' then
            (let doc = json_index o' ''doc'';
                 text = (\<lambda>k default. case as_str (json_index doc k) of None \<Rightarrow> default | Some s \<Rightarrow> s) in
             Some \<lparr>sr_org_id = ti_org_id row, sr_dataset_id = ti_dataset_id row, sr_status = text ''status'' ''errored'',
                   sr_catalog_hash = text ''catalog_hash'' [], sr_detail = text ''detail'' []\<rparr>)
          else None)"

definition reported_failure :: "task_instance \<Rightarrow> attempt_finish_body \<Rightarrow> task_failure" where
  "reported_failure current body =
     (let class_str = (case af_error_class body of None \<Rightarrow> ''internal'' | Some c \<Rightarrow> c) in
      \<lparr>f_terminal_state = (if class_str = ''timeout'' then task_state.TimedOut else Failed),
       f_retryable = class_str \<in> {''transient_io'', ''lock_conflict'', ''infrastructure'', ''resources''},
       f_escalate = (class_str = ''resources''), f_exit_code = af_exit_code body, f_termination_reason = af_termination_reason body,
       f_error_class = Some class_str, f_error_detail = af_error_detail body, f_k8s_job_name = ti_k8s_job_name current,
       f_backoff = (if ti_kind current = Control then CONTROL_BACKOFF else POD_BACKOFF)\<rparr>)"

definition finish_report :: "(string \<Rightarrow> nat list) \<Rightarrow> (string \<Rightarrow> int) \<Rightarrow> (sql_error \<Rightarrow> string) \<Rightarrow> int \<Rightarrow> string \<Rightarrow> attempt_finish_body
    \<Rightarrow> task_instance \<Rightarrow> attempt_identity \<Rightarrow> channel_db \<Rightarrow> http_error + (finish_answer \<times> channel_db)" where
  "finish_report sha256 hashtext pg_text now aid body current identity db =
     (let uid = identity_pod_uid identity (af_pod_uid body) in
       if af_state body \<in> {''succeeded'', ''skipped''} then
         (case one_row pg_text ''stale finish: the attempt is no longer running as this pod'' db
                 (finish now (af_state body = ''skipped'') (case af_outcome body of None \<Rightarrow> ''done'' | Some t \<Rightarrow> t) (af_output body)
                    (af_snapshot_start body) (af_snapshot_end body) (af_counters body) (af_exit_code body) aid uid (ch_ledger db)) of
            Inl e \<Rightarrow> Inl e
          | Inr (row, db') \<Rightarrow> Inr (FinishedRow row (schema_report_of (af_output body) row), db'))
       else if af_state body = ''failed'' then
         (case fail_or_retry_task sha256 hashtext now aid (reported_failure current body) (ch_ledger db) of
            Inl e \<Rightarrow> Inl (pg_err pg_text e)
          | Inr ((Some archived, successor), led) \<Rightarrow> Inr (ArchivedRow archived successor, db\<lparr>ch_ledger := led\<rparr>)
          | Inr ((None, _), _) \<Rightarrow> Inl (409, ''stale failure report: the attempt is not live under this launch''))
       else if af_state body = ''interrupted'' then
         (case one_row pg_text ''stale interruption: the attempt is not live as this pod'' db
                 (note_interruption now (case af_termination_reason body of None \<Rightarrow> ''sigterm'' | Some t \<Rightarrow> t) (af_counters body) aid uid (ch_ledger db)) of
            Inl e \<Rightarrow> Inl e
          | Inr (row, db') \<Rightarrow> Inr (NotedRow row, db'))
       else Inl (422, ''unknown terminal state '' @ quoted (af_state body)))"

definition attempt_finish :: "(string \<Rightarrow> nat list) \<Rightarrow> (string \<Rightarrow> int) \<Rightarrow> (string \<Rightarrow> jwt_header option) \<Rightarrow> verifier \<Rightarrow> (sql_error \<Rightarrow> string) \<Rightarrow> int \<Rightarrow> string
    \<Rightarrow> headers \<Rightarrow> attempt_finish_body \<Rightarrow> (string + channel_db) option \<Rightarrow> http_error + (finish_answer \<times> channel_db)" where
  "attempt_finish sha256 hashtext decode_header sa_verifier pg_text now aid hdr body dsn =
     with_attempt sha256 decode_header sa_verifier aid hdr dsn (\<lambda>chain identity db.
       finish_report sha256 hashtext pg_text now aid body (hd chain) identity db)"

text \<open>The three routes that change something.\<close>

datatype attempt_report = StartReport attempt_start_body | HeartbeatReport attempt_heartbeat_body | FinishReport attempt_finish_body

definition handle_report :: "(string \<Rightarrow> nat list) \<Rightarrow> (string \<Rightarrow> int) \<Rightarrow> (string \<Rightarrow> jwt_header option) \<Rightarrow> verifier \<Rightarrow> (sql_error \<Rightarrow> string) \<Rightarrow> int \<Rightarrow> string
    \<Rightarrow> headers \<Rightarrow> attempt_report \<Rightarrow> (string + channel_db) option \<Rightarrow> http_error + channel_db" where
  "handle_report sha256 hashtext decode_header sa_verifier pg_text now aid hdr report dsn =
     (case report of
        StartReport body \<Rightarrow> map_sum id snd (attempt_start sha256 decode_header sa_verifier pg_text now aid hdr body dsn)
      | HeartbeatReport body \<Rightarrow> map_sum id snd (attempt_heartbeat sha256 decode_header sa_verifier pg_text now aid hdr body dsn)
      | FinishReport body \<Rightarrow> map_sum id snd (attempt_finish sha256 hashtext decode_header sa_verifier pg_text now aid hdr body dsn))"

section \<open>Who may report\<close>

text \<open>A credential speaks for an attempt when it is a verified token of a pod of the attempt's launch, or the secret whose hash the attempt holds.\<close>

definition speaks_for :: "(string \<Rightarrow> nat list) \<Rightarrow> (string \<Rightarrow> jwt_header option) \<Rightarrow> verifier \<Rightarrow> string \<Rightarrow> attempt_identity \<Rightarrow> task_instance \<Rightarrow> bool" where
  "speaks_for sha256 decode_header sa_verifier token identity r \<longleftrightarrow>
     (case identity of
        PodIdentity claims \<Rightarrow> looks_like_jwt decode_header token \<and> (\<exists>v. sa_verifier = Some v \<and> v token = Inr claims)
          \<and> (\<exists>job suffix. ti_k8s_job_name r = Some job \<and> job \<noteq> ''inproc'' \<and> pc_pod_name claims = job @ ''-'' @ suffix)
      | Fallback \<Rightarrow> \<not> looks_like_jwt decode_header token \<and> ti_token_hash r = Some (hex_bytes (sha256 token)))"

lemma starts_with_iff: "starts_with p s \<longleftrightarrow> (\<exists>t. s = p @ t)"
  unfolding starts_with_def by (metis append_eq_conv_conj append_take_drop_id)

lemma lineage_tries: "x \<in> set (lineage n db r) \<Longrightarrow> ti_try_number x \<le> ti_try_number r"
proof (induction n db r rule: lineage.induct)
  case (2 depth db r)
  show ?case
  proof (cases "x = r")
    case False
    with 2(2) obtain p where p: "p \<in> set (tasks db)" "coordinate p = coordinate r" "ti_try_number p = ti_try_number r - 1"
        "\<not> ti_live p" "ti_archived_reason p = Some RetryReason" "x \<in> set (lineage depth db p)" by auto
    with 2(1) [of p] show ?thesis by auto
  qed simp
qed simp

lemma lineage_Cons: "\<exists>rest. lineage n db r = r # rest"
  by (cases n) auto

lemma lineage_head:
  assumes inv: "ledger_inv db" and l: "retry_lineage aid db = current # earlier"
  shows "current \<in> set (tasks db) \<and> ti_id current = aid"
proof -
  let ?n = "length (tasks db)" and ?k = "\<lambda>r. - ti_try_number r"
  have ids: "distinct (map ti_id (tasks db))" by (rule ledger_inv_ids [OF inv])
  have "filter (\<lambda>r. ti_id r = aid) (tasks db) \<noteq> []"
  proof
    assume "filter (\<lambda>r. ti_id r = aid) (tasks db) = []"
    then have "retry_lineage aid db = []" by (simp add: retry_lineage_def)
    with l show False by simp
  qed
  then obtain r where r: "r \<in> set (tasks db)" "ti_id r = aid" by (auto simp: filter_empty_conv)
  have "filter (\<lambda>x. ti_id x = ti_id r \<and> True) (tasks db) = [r]" by (rule filter_by_id [OF ids r(1)]) simp
  then have only: "filter (\<lambda>x. ti_id x = aid) (tasks db) = [r]" by (simp add: r(2))
  obtain rest where rest: "lineage ?n db r = r # rest" using lineage_Cons by blast
  have "?k r \<le> ?k x" if "x \<in> set (sort_key ?k rest)" for x
    using that lineage_tries [of x ?n db r] by (simp add: rest)
  then have "sort_key ?k (r # rest) = r # sort_key ?k rest" by (simp add: insort_is_Cons)
  with l only rest have "current = r" by (simp add: retry_lineage_def)
  with r show ?thesis by simp
qed

lemma authorizedD:
  assumes "ledger_inv db" "attempt_authorized sha256 decode_header sa_verifier aid hdr db = Inr (chain, identity)"
  shows "\<exists>token. bearer hdr = Some token \<and> chain \<noteq> [] \<and> hd chain \<in> set (tasks db) \<and> ti_id (hd chain) = aid
    \<and> speaks_for sha256 decode_header sa_verifier token identity (hd chain)"
proof -
  from assms(2) obtain token where t: "bearer hdr = Some token" by (auto simp: attempt_authorized_def split: option.splits)
  with assms(2) obtain current earlier where l: "retry_lineage aid db = current # earlier"
    by (auto simp: attempt_authorized_def split: list.splits)
  note head = lineage_head [OF assms(1) l]
  show ?thesis
  proof (cases "looks_like_jwt decode_header token")
    case True
    with assms(2) t l obtain v claims where "sa_verifier = Some v" "v token = Inr claims" "bound_pod claims current"
        "chain = current # earlier" "identity = PodIdentity claims"
      by (auto simp: attempt_authorized_def split: option.splits sum.splits if_splits)
    with t True head show ?thesis by (auto simp: speaks_for_def bound_pod_def starts_with_iff INPROC_def split: option.splits)
  next
    case False
    with assms(2) t l have "ti_token_hash current = Some (hash_secret sha256 token)" "chain = current # earlier" "identity = Fallback"
      by (auto simp: attempt_authorized_def Let_def split: option.splits if_splits)
    with t False head show ?thesis by (auto simp: speaks_for_def hash_secret_def)
  qed
qed

lemma with_attemptD:
  assumes "ledger_inv (ch_ledger db)" "with_attempt sha256 decode_header sa_verifier aid hdr (Some (Inr db)) run = Inr x"
  shows "\<exists>chain identity token. run chain identity db = Inr x \<and> bearer hdr = Some token \<and> hd chain \<in> set (tasks (ch_ledger db))
    \<and> ti_id (hd chain) = aid \<and> speaks_for sha256 decode_header sa_verifier token identity (hd chain)"
  using assms(2) authorizedD [OF assms(1)] by (fastforce simp: with_attempt_def split: sum.splits prod.splits)

section \<open>What a report changes\<close>

text \<open>One attempt and, when it is retried, its successor.\<close>

definition touches_only :: "task_instance \<Rightarrow> ledger \<Rightarrow> ledger \<Rightarrow> bool" where
  "touches_only r db led \<longleftrightarrow> jobs led = jobs db \<and> (\<forall>x \<in> set (tasks db). x \<noteq> r \<longrightarrow> x \<in> set (tasks led))
     \<and> (\<forall>y \<in> set (tasks led). y \<in> set (tasks db) \<or> coordinate y = coordinate r \<and> ti_try_number y \<in> {ti_try_number r, ti_try_number r + 1})"

lemma update_hits:
  assumes inv: "ledger_inv db" and u: "update_tasks (\<lambda>x. ti_id x = aid \<and> P x) f db = Inr (row # rows, led)"
  shows "\<exists>r. r \<in> set (tasks db) \<and> ti_id r = aid \<and> P r \<and> row = f r \<and> led = db\<lparr>tasks := map (\<lambda>x. if x = r then row else x) (tasks db)\<rparr>"
proof -
  let ?g = "\<lambda>x. ti_id x = aid \<and> P x"
  from storeD [OF u [unfolded update_tasks_def]] have hits: "row # rows = map f (filter ?g (tasks db))"
      and led: "led = db\<lparr>tasks := map (\<lambda>r. if ?g r then f r else r) (tasks db)\<rparr>" by auto
  from hits obtain r rest where r: "filter ?g (tasks db) = r # rest" "row = f r" by auto
  then have mem: "r \<in> set (tasks db)" "ti_id r = aid" "P r" by (auto simp: filter_eq_Cons_iff)
  have "?g x \<longleftrightarrow> x = r" if "x \<in> set (tasks db)" for x
    using that mem ledger_inv_ids [OF inv] by (auto simp: distinct_map dest: inj_onD)
  then have "map (\<lambda>r. if ?g r then f r else r) (tasks db) = map (\<lambda>x. if x = r then f r else x) (tasks db)"
    by (intro map_cong) auto
  with led mem r(2) show ?thesis by auto
qed

lemma touches_one:
  assumes "coordinate r' = coordinate r" "ti_try_number r' = ti_try_number r"
  shows "touches_only r db (db\<lparr>tasks := map (\<lambda>x. if x = r then r' else x) (tasks db)\<rparr>)"
  using assms by (force simp: touches_only_def)

lemma one_row_Inr: "one_row pg_text stale db res = Inr (row, db') \<Longrightarrow> \<exists>rows led. res = Inr (row # rows, led) \<and> db' = db\<lparr>ch_ledger := led\<rparr>"
  by (auto simp: one_row_def split: sum.splits prod.splits list.splits)

lemma fail_touches:
  assumes inv: "ledger_inv db" and run: "fail_or_retry_task sha256 hashtext now aid failure db = Inr ((Some archived, successor), led)"
  shows "\<exists>r. r \<in> set (tasks db) \<and> ti_id r = aid \<and> ti_live r \<and> ti_state r \<in> {Queued, Running} \<and> touches_only r db led"
proof -
  from run obtain row rows db1 where a: "archive_try now (f_terminal_state failure) (f_retryable failure) (f_exit_code failure)
         (f_termination_reason failure) (f_error_class failure) (map_option (take_chars 2000) (f_error_detail failure))
         aid (f_k8s_job_name failure) db = Inr (row # rows, db1)"
    by (auto simp: fail_or_retry_task_def seq_tx_def split: sum.splits list.splits)
  from update_hits [OF inv a [unfolded archive_try_def]] obtain r where r: "r \<in> set (tasks db)" "ti_id r = aid" "ti_live r" "ti_state r \<in> {Queued, Running}"
      and f: "row = failed_row now failure r"
      and db1: "db1 = db\<lparr>tasks := map (\<lambda>x. if x = r then row else x) (tasks db)\<rparr>" unfolding failed_row_def by blast
  from f have row: "coordinate row = coordinate r" "ti_try_number row = ti_try_number r" by (simp_all add: failed_row_def)
  have t1: "touches_only r db db1" unfolding db1 by (rule touches_one) (use row in auto)
  show ?thesis
  proof (cases "ti_live row")
    case True
    with run a have "led = db1" by (simp add: fail_or_retry_task_def seq_tx_def)
    with r t1 show ?thesis by blast
  next
    case False
    with run a obtain new where ins: "insert_retry_try sha256 hashtext now (f_escalate failure) (snd (f_backoff failure)) (fst (f_backoff failure)) aid db1 = Inr (new, led)"
      by (auto simp: fail_or_retry_task_def seq_tx_def split: sum.splits list.splits)
    from storeD [OF ins [unfolded insert_retry_try_def insert_tasks_def]] have led: "jobs led = jobs db1" "set (tasks led) = set (tasks db1) \<union> set new"
      and new: "\<forall>y \<in> set new. \<exists>x \<in> set (tasks db1). ti_id x = aid \<and> coordinate y = coordinate x \<and> ti_try_number y = ti_try_number x + 1"
      by (auto simp: successor_of_def)
    have "x = r" if "x \<in> set (tasks db)" "ti_id x = aid" for x
      using that r ledger_inv_ids [OF inv] by (auto simp: distinct_map dest: inj_onD)
    then have "x = row" if "x \<in> set (tasks db1)" "ti_id x = aid" for x using that by (auto simp: db1 split: if_splits)
    with new row have "\<forall>y \<in> set new. coordinate y = coordinate r \<and> ti_try_number y = ti_try_number r + 1" by fastforce
    with led t1 have "touches_only r db led" by (auto simp: touches_only_def)
    with r show ?thesis by blast
  qed
qed

text \<open>What the ledger has to say of an attempt for a report on it to be taken.\<close>

definition open_to :: "attempt_report \<Rightarrow> attempt_identity \<Rightarrow> task_instance \<Rightarrow> bool" where
  "open_to report identity r \<longleftrightarrow>
     (case report of
        StartReport b \<Rightarrow> ti_state r = Queued \<and> ti_k8s_job_name r = Some (as_k8s_job_name b)
      | HeartbeatReport b \<Rightarrow> ti_state r = Running \<and> ti_pod_uid r = Some (identity_pod_uid identity (ah_pod_uid b))
      | FinishReport b \<Rightarrow>
          if af_state b = ''failed'' then ti_state r \<in> {Queued, Running}
          else ti_pod_uid r = Some (identity_pod_uid identity (af_pod_uid b))
            \<and> (if af_state b = ''interrupted'' then ti_state r \<in> {Running, Restarting, Canceling} else ti_state r = Running))"

lemma statement_hits:
  assumes inv: "ledger_inv (ch_ledger db)" and res: "one_row pg_text stale db (stmt (ch_ledger db)) = Inr (row, db')"
    and stmt: "stmt = update_tasks (\<lambda>x. ti_id x = aid \<and> P x) f"
    and f: "\<And>r. coordinate (f r) = coordinate r" "\<And>r. ti_try_number (f r) = ti_try_number r"
  shows "\<exists>r led. r \<in> set (tasks (ch_ledger db)) \<and> ti_id r = aid \<and> P r \<and> db' = db\<lparr>ch_ledger := led\<rparr> \<and> touches_only r (ch_ledger db) led"
proof -
  from one_row_Inr [OF res] obtain rows led where s: "update_tasks (\<lambda>x. ti_id x = aid \<and> P x) f (ch_ledger db) = Inr (row # rows, led)"
    and db': "db' = db\<lparr>ch_ledger := led\<rparr>" unfolding stmt by blast
  from update_hits [OF inv s] obtain r where r: "r \<in> set (tasks (ch_ledger db))" "ti_id r = aid" "P r"
    and led: "led = (ch_ledger db)\<lparr>tasks := map (\<lambda>x. if x = r then f r else x) (tasks (ch_ledger db))\<rparr>" by (elim exE conjE) simp
  have "touches_only r (ch_ledger db) led" unfolding led by (rule touches_one) (simp_all add: f)
  with r db' show ?thesis by blast
qed

definition taken :: "(string \<Rightarrow> nat list) \<Rightarrow> (string \<Rightarrow> jwt_header option) \<Rightarrow> verifier \<Rightarrow> string \<Rightarrow> headers \<Rightarrow> attempt_report \<Rightarrow> channel_db \<Rightarrow> channel_db \<Rightarrow> bool" where
  "taken sha256 decode_header sa_verifier aid hdr report db db' \<longleftrightarrow>
     (\<exists>token identity r led. bearer hdr = Some token \<and> speaks_for sha256 decode_header sa_verifier token identity r
       \<and> r \<in> set (tasks (ch_ledger db)) \<and> ti_id r = aid \<and> ti_live r \<and> open_to report identity r
       \<and> db' = db\<lparr>ch_ledger := led\<rparr> \<and> touches_only r (ch_ledger db) led)"

text \<open>The authenticated row and the row the statement hit are the same: they have the same id.\<close>

lemma takenI:
  assumes inv: "ledger_inv (ch_ledger db)" and who: "bearer hdr = Some token" "current \<in> set (tasks (ch_ledger db))" "ti_id current = aid"
      "speaks_for sha256 decode_header sa_verifier token identity current"
    and hit: "r \<in> set (tasks (ch_ledger db))" "ti_id r = aid" "ti_live r" "open_to report identity r" "db' = db\<lparr>ch_ledger := led\<rparr>"
      "touches_only r (ch_ledger db) led"
  shows "taken sha256 decode_header sa_verifier aid hdr report db db'"
proof -
  have "current = r" using who(2,3) hit(1,2) ledger_inv_ids [OF inv] by (auto simp: distinct_map dest: inj_onD)
  with who hit show ?thesis unfolding taken_def by blast
qed

lemma start_taken:
  assumes inv: "ledger_inv (ch_ledger db)"
    and s: "attempt_start sha256 decode_header sa_verifier pg_text now aid hdr b (Some (Inr db)) = Inr (row, db')"
  shows "taken sha256 decode_header sa_verifier aid hdr (StartReport b) db db'"
proof -
  from with_attemptD [OF inv s [unfolded attempt_start_def]] obtain chain identity token where
      o: "one_row pg_text ''stale start: the attempt is not queued under this launch'' db
           (start now (fst (starting_pod identity b)) (snd (starting_pod identity b)) (as_node_name b) (as_image_digest b) aid
             (as_k8s_job_name b) (ch_ledger db)) = Inr (row, db')"
      and w: "bearer hdr = Some token" "hd chain \<in> set (tasks (ch_ledger db))" "ti_id (hd chain) = aid"
      "speaks_for sha256 decode_header sa_verifier token identity (hd chain)" by blast
  from statement_hits [OF inv o start_def] obtain r led where "r \<in> set (tasks (ch_ledger db))" "ti_id r = aid"
      "ti_live r \<and> ti_state r = Queued \<and> ti_k8s_job_name r = Some (as_k8s_job_name b)" "db' = db\<lparr>ch_ledger := led\<rparr>" "touches_only r (ch_ledger db) led"
    by auto
  then show ?thesis by (intro takenI [OF inv w]) (auto simp: open_to_def)
qed

lemma heartbeat_taken:
  assumes inv: "ledger_inv (ch_ledger db)"
    and s: "attempt_heartbeat sha256 decode_header sa_verifier pg_text now aid hdr b (Some (Inr db)) = Inr (row, db')"
  shows "taken sha256 decode_header sa_verifier aid hdr (HeartbeatReport b) db db'"
proof -
  from with_attemptD [OF inv s [unfolded attempt_heartbeat_def]] obtain chain identity token where
      o: "one_row pg_text ''fenced: the attempt is no longer running as this pod'' db
           (heartbeat now (ah_counters b) aid (identity_pod_uid identity (ah_pod_uid b)) (ch_ledger db)) = Inr (row, db')"
      and w: "bearer hdr = Some token" "hd chain \<in> set (tasks (ch_ledger db))" "ti_id (hd chain) = aid"
      "speaks_for sha256 decode_header sa_verifier token identity (hd chain)" by blast
  from statement_hits [OF inv o heartbeat_def] obtain r led where "r \<in> set (tasks (ch_ledger db))" "ti_id r = aid"
      "ti_live r \<and> ti_state r = Running \<and> ti_pod_uid r = Some (identity_pod_uid identity (ah_pod_uid b))" "db' = db\<lparr>ch_ledger := led\<rparr>" "touches_only r (ch_ledger db) led"
    by auto
  then show ?thesis by (intro takenI [OF inv w]) (auto simp: open_to_def)
qed

lemma finish_report_cases:
  assumes "finish_report sha256 hashtext pg_text now aid b current identity db = Inr (ans, db')"
  obtains (fin) row stale where "af_state b \<in> {''succeeded'', ''skipped''}" and "one_row pg_text stale db
        (finish now (af_state b = ''skipped'') (case af_outcome b of None \<Rightarrow> ''done'' | Some t \<Rightarrow> t) (af_output b)
          (af_snapshot_start b) (af_snapshot_end b) (af_counters b) (af_exit_code b) aid (identity_pod_uid identity (af_pod_uid b)) (ch_ledger db)) = Inr (row, db')"
  | (failed) a succ led where "af_state b = ''failed''" and "db' = db\<lparr>ch_ledger := led\<rparr>"
      and "fail_or_retry_task sha256 hashtext now aid (reported_failure current b) (ch_ledger db) = Inr ((Some a, succ), led)"
  | (interrupted) row stale where "af_state b = ''interrupted''" and "one_row pg_text stale db
        (note_interruption now (case af_termination_reason b of None \<Rightarrow> ''sigterm'' | Some t \<Rightarrow> t) (af_counters b) aid
          (identity_pod_uid identity (af_pod_uid b)) (ch_ledger db)) = Inr (row, db')"
  using assms unfolding finish_report_def Let_def
  by (simp split: if_splits sum.splits prod.splits option.splits; blast)

lemma finish_taken:
  assumes inv: "ledger_inv (ch_ledger db)"
    and s: "attempt_finish sha256 hashtext decode_header sa_verifier pg_text now aid hdr b (Some (Inr db)) = Inr (ans, db')"
  shows "taken sha256 decode_header sa_verifier aid hdr (FinishReport b) db db'"
proof -
  from with_attemptD [OF inv s [unfolded attempt_finish_def]] obtain chain identity token where
      run: "finish_report sha256 hashtext pg_text now aid b (hd chain) identity db = Inr (ans, db')"
      and w: "bearer hdr = Some token" "hd chain \<in> set (tasks (ch_ledger db))" "ti_id (hd chain) = aid"
      "speaks_for sha256 decode_header sa_verifier token identity (hd chain)" by blast
  from run show ?thesis
  proof (cases rule: finish_report_cases)
    case (fin row stale)
    from statement_hits [OF inv fin(2) finish_def] obtain r led where "r \<in> set (tasks (ch_ledger db))" "ti_id r = aid"
      "ti_live r \<and> ti_state r = Running \<and> ti_pod_uid r = Some (identity_pod_uid identity (af_pod_uid b))"
      "db' = db\<lparr>ch_ledger := led\<rparr>" "touches_only r (ch_ledger db) led" by auto
    then show ?thesis using fin(1) by (intro takenI [OF inv w]) (auto simp: open_to_def)
  next
    case (failed a succ led)
    from fail_touches [OF inv failed(3)] obtain r where "r \<in> set (tasks (ch_ledger db))" "ti_id r = aid" "ti_live r"
      "ti_state r \<in> {Queued, Running}" "touches_only r (ch_ledger db) led" by blast
    then show ?thesis using failed(1,2) by (intro takenI [OF inv w]) (auto simp: open_to_def)
  next
    case (interrupted row stale)
    from statement_hits [OF inv interrupted(2) note_interruption_def] obtain r led where "r \<in> set (tasks (ch_ledger db))" "ti_id r = aid"
      "ti_live r \<and> ti_state r \<in> {Running, Restarting, Canceling} \<and> ti_pod_uid r = Some (identity_pod_uid identity (af_pod_uid b))"
      "db' = db\<lparr>ch_ledger := led\<rparr>" "touches_only r (ch_ledger db) led" by auto
    then show ?thesis using interrupted(1) by (intro takenI [OF inv w]) (auto simp: open_to_def)
  qed
qed

lemma report_taken:
  assumes "ledger_inv (ch_ledger db)" "handle_report sha256 hashtext decode_header sa_verifier pg_text now aid hdr report (Some (Inr db)) = Inr db'"
  shows "taken sha256 decode_header sa_verifier aid hdr report db db'"
  using assms by (cases report)
    (auto simp: handle_report_def map_sum_def split: sum.splits intro: start_taken heartbeat_taken finish_taken)

lemma with_attempt_run:
  "with_attempt sha256 decode_header sa_verifier aid hdr (Some (Inr db)) run = Inr x \<Longrightarrow> \<exists>chain identity. run chain identity db = Inr x"
  by (auto simp: with_attempt_def split: sum.splits prod.splits)

lemma one_row_keeps:
  assumes "ledger_statement stmt" "ledger_inv (ch_ledger db)" "one_row pg_text stale db (stmt (ch_ledger db)) = Inr (row, db')"
  shows "ledger_inv (ch_ledger db') \<and> refines (ch_ledger db) (ch_ledger db')"
proof -
  from one_row_Inr [OF assms(3)] obtain rows led where "stmt (ch_ledger db) = Inr (row # rows, led)" "db' = db\<lparr>ch_ledger := led\<rparr>" by blast
  with ledger_statement.contract [OF assms(1,2)] show ?thesis by simp
qed

lemma report_keeps_ledger:
  assumes inv: "ledger_inv (ch_ledger db)"
    and run: "handle_report sha256 hashtext decode_header sa_verifier pg_text now aid hdr report (Some (Inr db)) = Inr db'"
  shows "ledger_inv (ch_ledger db') \<and> refines (ch_ledger db) (ch_ledger db')"
proof (cases report)
  case (StartReport b)
  with run obtain row where "attempt_start sha256 decode_header sa_verifier pg_text now aid hdr b (Some (Inr db)) = Inr (row, db')"
    by (auto simp: handle_report_def map_sum_def split: sum.splits)
  from with_attempt_run [OF this [unfolded attempt_start_def]] show ?thesis
    using one_row_keeps [OF start.ledger_statement_axioms inv] by blast
next
  case (HeartbeatReport b)
  with run obtain row where "attempt_heartbeat sha256 decode_header sa_verifier pg_text now aid hdr b (Some (Inr db)) = Inr (row, db')"
    by (auto simp: handle_report_def map_sum_def split: sum.splits)
  from with_attempt_run [OF this [unfolded attempt_heartbeat_def]] show ?thesis
    using one_row_keeps [OF heartbeat.ledger_statement_axioms inv] by blast
next
  case (FinishReport b)
  with run obtain ans where "attempt_finish sha256 hashtext decode_header sa_verifier pg_text now aid hdr b (Some (Inr db)) = Inr (ans, db')"
    by (auto simp: handle_report_def map_sum_def split: sum.splits)
  from with_attempt_run [OF this [unfolded attempt_finish_def]] obtain current identity where
      "finish_report sha256 hashtext pg_text now aid b current identity db = Inr (ans, db')" by blast
  then show ?thesis
  proof (cases rule: finish_report_cases)
    case (failed a succ led)
    have "f_terminal_state (reported_failure current b) \<in> {Failed, task_state.TimedOut}" by (simp add: reported_failure_def Let_def)
    with ledger_statement.contract [OF fail_or_retry_contract inv failed(3)] failed(2) show ?thesis by auto
  next
    case (fin row stale) then show ?thesis by (intro one_row_keeps [OF finish.ledger_statement_axioms inv])
  next
    case (interrupted row stale) then show ?thesis by (intro one_row_keeps [OF note_interruption.ledger_statement_axioms inv])
  qed
qed

section \<open>Launch names\<close>

text \<open>The dash after the Job name ends the launch number: a pod belongs to one launch name only.\<close>

lemma pod_binds_one_launch:
  assumes "20 \<le> length (ti_id a)" "20 \<le> length (ti_id b)"
    and "starts_with (launch_name a @ ''-'') pod" "starts_with (launch_name b @ ''-'') pod"
  shows "launch_name a = launch_name b \<and> take 20 (ti_id a) = take 20 (ti_id b) \<and> nat (ti_launches a + 1) = nat (ti_launches b + 1)"
proof -
  let ?n = "\<lambda>r. show_nat (nat (ti_launches r + 1))"
  from assms(3,4) obtain s t where "launch_name a @ ''-'' @ s = launch_name b @ ''-'' @ t" by (auto simp: starts_with_iff)
  then have i: "take 20 (ti_id a) = take 20 (ti_id b)" and e: "?n a @ ''-'' @ s = ?n b @ ''-'' @ t"
    using assms(1,2) by (auto simp: launch_name_def)
  have "takeWhile (\<lambda>c. c \<noteq> CHR ''-'') (?n r @ ''-'' @ u) = ?n r" for r u
    using show_nat_fresh(3) [of "nat (ti_launches r + 1)"] by (subst takeWhile_append2) auto
  with e have n: "?n a = ?n b" by metis
  then have "nat (ti_launches a + 1) = nat (ti_launches b + 1)" using parse_digits_show by (metis of_nat_eq_iff option.inject)
  with i n show ?thesis by (simp add: launch_name_def)
qed

section \<open>Properties\<close>

definition reporting_row :: task_instance where
  "reporting_row = sample_row\<lparr>ti_token_hash := Some (hex_bytes [7]), ti_pod_uid := Some ''u1''\<rparr>"

definition sample_channel :: channel_db where
  "sample_channel = \<lparr>ch_access = \<lparr>ac_keys = [], ac_orgs = [sample_org], ac_audit = []\<rparr>,
     ch_datasets = [sample_dataset],
     ch_models = [\<lparr>mm_id = ''m1'', mm_org_id = ''o1'', mm_dataset_id = ''d1'', mm_name = ''m'', mm_version = 1, mm_entity_type = ''person'', mm_model_json = ''{}'',
       mm_model_hash = [], mm_model_version_label = ''v1'', mm_tf_snapshot_id = None, mm_state = ''active'', mm_provenance = JNull,
       mm_created_by = ''op'', mm_activated_at = Some 0, mm_created_at = 0, mm_updated_at = 0\<rparr>], ch_labels = [],
     ch_ledger = \<lparr>tasks = [reporting_row], jobs = [running_job\<lparr>jb_dataset_id := Some ''d1''\<rparr>]\<rparr>\<rparr>"

definition pod_headers :: headers where
  "pod_headers = [''authorization'' \<mapsto> ''Bearer tok'']"

lemma sample_channel_inv: "ledger_inv (ch_ledger sample_channel)"
  by (simp add: ledger_inv_def row_inv_def row_checks_def unique_ok_def history_def holds_pod_def sample_row_def blank_row_def
      reporting_row_def sample_channel_def ERROR_CLASSES_def)

lemma sample_channel_authorized:
  "attempt_authorized (\<lambda>s. [7]) (\<lambda>t. None) None ''a1'' pod_headers (ch_ledger sample_channel) = Inr ([reporting_row], Fallback)"
proof -
  have "retry_lineage ''a1'' (ch_ledger sample_channel) = [reporting_row]"
    by (simp add: sample_channel_def retry_lineage_def reporting_row_def sample_row_def blank_row_def)
  moreover have "bearer pod_headers = Some ''tok''" by code_simp
  moreover have "ti_token_hash reporting_row = Some (hex_bytes [7])" by (simp add: reporting_row_def)
  ultimately show ?thesis by (simp add: attempt_authorized_def looks_like_jwt_def hash_secret_def)
qed



text \<open>The work order of a pod is filled from the wrong key: it carries the active models registered under the id of the organization, where the
  in-process dispatcher reads those of the job's dataset. As no model and no label belongs to a dataset with that id, a pod gets no model and
  no label, whatever its dataset has.\<close>

lemma work_order_misses_models:
  assumes "attempt_work_order sha256 decode_header sa_verifier aid hdr (Some (Inr db)) = Inr order"
    and "wo_org_id order \<notin> mm_dataset_id ` set (ch_models db)" and "wo_org_id order \<notin> pl_dataset_id ` set (ch_labels db)"
  shows "wo_models order = [] \<and> wo_labels order = []
    \<and> (\<exists>job. jb_id job = wo_job_id order \<and> job \<in> set (jobs (ch_ledger db)) \<and> wo_dataset_id order = jb_dataset_id job
        \<and> (\<forall>d. jb_dataset_id job = Some d \<longrightarrow> dispatcher_models job db
              = map model_spec (sort_key mm_name (filter (\<lambda>m. mm_dataset_id m = d \<and> mm_state m = ''active'') (ch_models db)))))"
proof -
  from with_attempt_run [OF assms(1) [unfolded attempt_work_order_def]] obtain chain :: "task_instance list" where
      o: "(let current = hd chain in
       case get_job (ti_org_id current) (ti_job_id current) (ch_ledger db) of
         None \<Rightarrow> Inl (404, ''no job behind this attempt'')
       | Some job \<Rightarrow>
           (let lake = (case get_org_by_id (ti_org_id current) (ch_access db) of
                          Some org \<Rightarrow> lake_env_for_job org (jb_dataset_id job) db
                        | None \<Rightarrow> Some (JNull, None));
                models = map model_spec (active_models (ti_org_id current) db);
                labels = (if jb_kind job = ''train'' then training_labels (all_labels (ti_org_id current) db) else []) in
            case lake of
              None \<Rightarrow> Inl (409, ''the job'' @ [CHR 0x27] @ ''s dataset no longer exists'')
            | Some pair \<Rightarrow> Inr (order_for chain job pair models labels))) = (Inr order :: http_error + work_order)" by blast
  let ?org = "ti_org_id (hd chain)"
  from o obtain job pair where j: "get_job ?org (ti_job_id (hd chain)) (ch_ledger db) = Some job"
      and order: "order = order_for chain job pair (map model_spec (active_models ?org db))
        (if jb_kind job = ''train'' then training_labels (all_labels ?org db) else [])"
    by (auto simp: Let_def split: option.splits)
  have org: "wo_org_id order = ?org" by (simp add: order order_for_def Let_def)
  have "filter (\<lambda>m. mm_dataset_id m = ?org \<and> mm_state m = ''active'') (ch_models db) = []"
    using assms(2) unfolding org by (force simp: filter_empty_conv)
  then have "active_models ?org db = []" by (simp add: active_models_def)
  moreover have "filter (\<lambda>l. pl_dataset_id l = ?org) (ch_labels db) = []" using assms(3) unfolding org by (force simp: filter_empty_conv)
  then have "all_labels ?org db = []" by (simp add: all_labels_def)
  moreover have "job \<in> set (jobs (ch_ledger db))" "jb_id job = ti_job_id (hd chain)"
    using j find_in_set [of _ "jobs (ch_ledger db)" job] by (auto simp: get_job_def)
  ultimately show ?thesis
    by (auto simp: order order_for_def Let_def training_labels_def dispatcher_models_def active_models_def)
qed

lemma work_order_misses_models_witness:
  "\<exists>order. attempt_work_order (\<lambda>s. [7]) (\<lambda>t. None) None ''a1'' pod_headers (Some (Inr sample_channel)) = Inr order
     \<and> wo_dataset_id order = Some ''d1'' \<and> wo_models order = []
     \<and> map am_name (dispatcher_models (hd (jobs (ch_ledger sample_channel))) sample_channel) = [''m'']"
proof -
  let ?run = "attempt_work_order (\<lambda>s. [7]) (\<lambda>t. None) None ''a1'' pod_headers (Some (Inr sample_channel))"
  have "ti_org_id reporting_row = ''o1''" and "ti_job_id reporting_row = ''j1''" by (simp_all add: reporting_row_def sample_row_def)
  moreover have "get_job ''o1'' ''j1'' (ch_ledger sample_channel) = Some (running_job\<lparr>jb_dataset_id := Some ''d1''\<rparr>)"
    by (simp add: sample_channel_def get_job_def running_job_def)
  moreover have "(case get_org_by_id ''o1'' (ch_access sample_channel) of
      Some org \<Rightarrow> lake_env_for_job org (jb_dataset_id (running_job\<lparr>jb_dataset_id := Some ''d1''\<rparr>)) sample_channel | None \<Rightarrow> Some (JNull, None)) = Some (JNull, None)" by code_simp
  moreover have "jb_kind running_job \<noteq> ''train''" by (simp add: running_job_def)
  ultimately have "?run = Inr (order_for [reporting_row] (running_job\<lparr>jb_dataset_id := Some ''d1''\<rparr>) (JNull, None)
      (map model_spec (active_models ''o1'' sample_channel)) [])"
    by (simp add: attempt_work_order_def with_attempt_def sample_channel_authorized)
  then obtain order where order: "?run = Inr order" "wo_org_id order = ''o1''" "wo_dataset_id order = Some ''d1''"
    using \<open>ti_org_id reporting_row = ''o1''\<close> by (simp add: order_for_def)
  have m: "''o1'' \<notin> mm_dataset_id ` set (ch_models sample_channel)" and l: "''o1'' \<notin> pl_dataset_id ` set (ch_labels sample_channel)"
    by (simp_all add: sample_channel_def)
  from work_order_misses_models [OF order(1), unfolded order(2), OF m l] have "wo_models order = []" by blast
  moreover have "map am_name (dispatcher_models (hd (jobs (ch_ledger sample_channel))) sample_channel) = [''m'']" by code_simp
  ultimately show ?thesis by (intro exI conjI) (rule order(1), rule order(3))
qed

end
