(* ===== verification/JobApi.thy ===== *)
theory JobApi
  imports Webhook JobQueue Resume ClearLaws AttemptChannel
begin

text \<open>
  The job routes of the HTTP API in \<open>er-server/src/lib.rs\<close>: reading a job and its tasks, cancelling, resuming and clearing it, and the two dispatch
  helpers. Without a Postgres backend jobs live in a list in memory. A resource class in the body of a clear is one the
  table accepts.
\<close>

section \<open>State\<close>

record job_db =
  jd_hooks :: hook_db
  jd_ledger :: ledger

datatype backend = Memory "job list" | Postgres "string + job_db"

definition get_dataset :: "string \<Rightarrow> string \<Rightarrow> job_db \<Rightarrow> dataset_row option" where
  "get_dataset org_id name db = find (\<lambda>d. dt_org_id d = org_id \<and> dt_name d = name) (hk_datasets (jd_hooks db))"

definition dataset_or_404 :: "org_row \<Rightarrow> string \<Rightarrow> job_db \<Rightarrow> http_error + dataset_row" where
  "dataset_or_404 g ds db =
     (case get_dataset (og_id g) ds db of
        Some d \<Rightarrow> Inr d
      | None \<Rightarrow> Inl (404, ''no dataset '' @ quoted ds @ '' in org '' @ quoted (og_name g)))"

text \<open>What the handlers do before they turn to the job: resolve the organization and the dataset.\<close>

definition in_dataset :: "string + job_db \<Rightarrow> string \<Rightarrow> string \<Rightarrow> (org_row \<Rightarrow> dataset_row \<Rightarrow> job_db \<Rightarrow> http_error + 'a) \<Rightarrow> http_error + 'a" where
  "in_dataset pg org ds run =
     (case pg of
        Inl e \<Rightarrow> Inl (500, ''db connect: '' @ e)
      | Inr db \<Rightarrow>
          (case org_or_404 org (hk_access (jd_hooks db)) of
             Inl e \<Rightarrow> Inl e
           | Inr g \<Rightarrow> (case dataset_or_404 g ds db of Inl e \<Rightarrow> Inl e | Inr d \<Rightarrow> run g d db)))"

definition put_jobs :: "job list \<Rightarrow> job_db \<Rightarrow> job_db" where
  "put_jobs js db = db\<lparr>jd_ledger := (jd_ledger db)\<lparr>jobs := js\<rparr>\<rparr>"

definition emitted :: "int \<Rightarrow> (nat \<Rightarrow> string) \<Rightarrow> job \<Rightarrow> job_db \<Rightarrow> job_db" where
  "emitted now mint j db = db\<lparr>jd_hooks := snd (emit_job_event now mint j (jd_hooks db))\<rparr>"

section \<open>Reading\<close>

definition no_such_job :: http_error where
  "no_such_job = (404, ''no such job'')"

definition position :: "('a \<Rightarrow> bool) \<Rightarrow> 'a list \<Rightarrow> nat option" where
  "position P xs = (let n = length (takeWhile (\<lambda>x. \<not> P x) xs) in if n < length xs then Some n else None)"

definition memory_job :: "string \<Rightarrow> string \<Rightarrow> job list \<Rightarrow> nat option" where
  "memory_job org job_id js = position (\<lambda>j. jb_org_id j = org \<and> jb_id j = job_id) js"

definition get_job_handler :: "principal \<Rightarrow> backend \<Rightarrow> string \<Rightarrow> string \<Rightarrow> string \<Rightarrow> http_error + job" where
  "get_job_handler p b org ds job_id =
     (case guard p org Viewer of
        Inl e \<Rightarrow> Inl e
      | Inr _ \<Rightarrow>
          (case b of
             Postgres pg \<Rightarrow> in_dataset pg org ds (\<lambda>g d db.
               case get_job (og_id g) job_id (jd_ledger db) of None \<Rightarrow> Inl no_such_job | Some j \<Rightarrow> Inr j)
           | Memory js \<Rightarrow> (case memory_job org job_id js of None \<Rightarrow> Inl no_such_job | Some i \<Rightarrow> Inr (js ! i))))"

definition DEFAULT_LIMIT :: int where "DEFAULT_LIMIT = 50"

definition MAX_LIMIT :: int where "MAX_LIMIT = 200"

definition parse_limit :: "string option \<Rightarrow> int" where
  "parse_limit raw = max 1 (min MAX_LIMIT (case Option.bind raw parse_i64 of None \<Rightarrow> DEFAULT_LIMIT | Some n \<Rightarrow> n))"

definition JOB_STATES :: "string list" where
  "JOB_STATES = [''queued'', ''dispatching'', ''running'', ''canceling'', ''succeeded'', ''failed'', ''canceled'']"

definition list_jobs_all :: "string option \<Rightarrow> string option \<Rightarrow> int \<Rightarrow> ledger \<Rightarrow> job list" where
  "list_jobs_all org_id state page db =
     take (nat (max 1 (min 200 page))) (rev (sort_key jb_id (filter (\<lambda>j. (org_id = None \<or> org_id = Some (jb_org_id j))
       \<and> (state = None \<or> state = Some (job_state_str (jb_state j)))) (jobs db))))"

definition list_jobs_handler :: "principal \<Rightarrow> backend \<Rightarrow> string \<Rightarrow> string \<Rightarrow> string option \<Rightarrow> string option
    \<Rightarrow> http_error + job list" where
  "list_jobs_handler p b org ds state raw_limit =
     (case guard p org Viewer of
        Inl e \<Rightarrow> Inl e
      | Inr _ \<Rightarrow>
          if (case state of None \<Rightarrow> False | Some s \<Rightarrow> s \<notin> set JOB_STATES) then Inl (422, ''unknown state '' @ quoted (the state))
          else (let page = parse_limit raw_limit in
            case b of
              Postgres pg \<Rightarrow> in_dataset pg org ds (\<lambda>g d db.
                Inr (filter (\<lambda>j. jb_dataset_id j = Some (dt_id d)) (list_jobs_all (Some (og_id g)) state page (jd_ledger db))))
            | Memory js \<Rightarrow> Inr (take (nat page) (filter (\<lambda>j. jb_org_id j = org \<and> (state = None \<or> state = Some (job_state_str (jb_state j)))) (rev js)))))"

definition list_job_tasks :: "principal \<Rightarrow> backend \<Rightarrow> string \<Rightarrow> string \<Rightarrow> string \<Rightarrow> http_error + task_instance list" where
  "list_job_tasks p b org ds job_id =
     (case guard p org Viewer of
        Inl e \<Rightarrow> Inl e
      | Inr _ \<Rightarrow>
          (case b of
             Memory _ \<Rightarrow> Inl (501, ''the task ledger requires Postgres'')
           | Postgres pg \<Rightarrow> in_dataset pg org ds (\<lambda>g d db. Inr (by_job (og_id g) job_id (jd_ledger db)))))"

section \<open>Cancelling and resuming\<close>

text \<open>A job of an executor kind is cancelled by its statement; another one is marked.\<close>

definition cancel_executor_job :: "int \<Rightarrow> (nat \<Rightarrow> string) \<Rightarrow> org_row \<Rightarrow> string \<Rightarrow> job_db \<Rightarrow> http_error + (job \<times> job_db)" where
  "cancel_executor_job now mint g job_id db =
     (case cancel_job now job_id (og_id g) (jd_ledger db) of
        ([], _) \<Rightarrow> Inl (409, ''the job is not cancelable (already terminal)'')
      | (updated # _, led) \<Rightarrow>
          (let db' = db\<lparr>jd_ledger := led\<rparr> in
           Inr (updated, if jb_state updated = JobCanceled then emitted now mint updated db' else db')))"

definition cancel_legacy_job :: "(sql_error \<Rightarrow> string) \<Rightarrow> int \<Rightarrow> (nat \<Rightarrow> string) \<Rightarrow> job \<Rightarrow> job_db \<Rightarrow> http_error + (job \<times> job_db)" where
  "cancel_legacy_job pg_text now mint j db =
     (case mark now JobCanceled (jb_id j) (jobs (jd_ledger db)) of
        Inl e \<Rightarrow> Inl (pg_err pg_text e)
      | Inr (_, js) \<Rightarrow>
          (let canceled = j\<lparr>jb_state := JobCanceled\<rparr> in Inr (canceled, emitted now mint canceled (put_jobs js db))))"

definition cancel_job_handler :: "(sql_error \<Rightarrow> string) \<Rightarrow> int \<Rightarrow> (nat \<Rightarrow> string) \<Rightarrow> string list \<Rightarrow> principal \<Rightarrow> backend \<Rightarrow> string \<Rightarrow> string \<Rightarrow> string
    \<Rightarrow> http_error + (job \<times> backend)" where
  "cancel_job_handler pg_text now mint executor_kinds p b org ds job_id =
     (case guard p org Steward of
        Inl e \<Rightarrow> Inl e
      | Inr _ \<Rightarrow>
          (case b of
             Postgres pg \<Rightarrow>
               in_dataset pg org ds (\<lambda>g d db.
                 case get_job (og_id g) job_id (jd_ledger db) of
                   None \<Rightarrow> Inl no_such_job
                 | Some j \<Rightarrow>
                     map_sum id (\<lambda>(j', db'). (j', Postgres (Inr db')))
                       (if jb_kind j \<in> set executor_kinds then cancel_executor_job now mint g job_id db
                        else cancel_legacy_job pg_text now mint j db))
           | Memory js \<Rightarrow>
               (case memory_job org job_id js of
                  None \<Rightarrow> Inl no_such_job
                | Some i \<Rightarrow> (let canceled = (js ! i)\<lparr>jb_state := JobCanceled\<rparr> in Inr (canceled, Memory (js[i := canceled]))))))"

definition resume_job_handler :: "(sql_error \<Rightarrow> string) \<Rightarrow> int \<Rightarrow> principal \<Rightarrow> backend \<Rightarrow> string \<Rightarrow> string \<Rightarrow> string \<Rightarrow> http_error + job_db" where
  "resume_job_handler pg_text now p b org ds job_id =
     (case guard p org Steward of
        Inl e \<Rightarrow> Inl e
      | Inr _ \<Rightarrow>
          (case b of
             Memory _ \<Rightarrow> Inl (501, ''resume requires Postgres'')
           | Postgres pg \<Rightarrow>
               in_dataset pg org ds (\<lambda>g d db.
                 case resume_job now (og_id g) job_id (jobs (jd_ledger db)) of
                   Inl e \<Rightarrow> Inl (pg_err pg_text e)
                 | Inr (True, js) \<Rightarrow> Inr ((put_jobs js db)\<lparr>jd_hooks := hook_audit (pr_actor p) org ''job.resume''
                     (json_object [(''job_id'', JStr job_id)]) (jd_hooks db)\<rparr>)
                 | Inr (False, _) \<Rightarrow> Inl (409, ''job is not resumable (not failed or canceled)''))))"

section \<open>Clearing\<close>

record clear_answer =
  ca_cleared :: "string list"
  ca_restarting :: nat
  ca_rotated :: nat
  ca_reset :: nat
  ca_reopened :: bool
  ca_demanded :: "string list"

definition task_ids_of :: "dag \<Rightarrow> nat set \<Rightarrow> string list" where
  "task_ids_of d is = map (\<lambda>i. n_task_id (nodes d ! i)) (sorted_list_of_set is)"

definition clear_answer_of :: "string list \<Rightarrow> string list \<Rightarrow> cleared \<Rightarrow> clear_answer" where
  "clear_answer_of closure demanded c = \<lparr>ca_cleared = closure, ca_restarting = length (cl_restarting c), ca_rotated = length (cl_rotated c),
     ca_reset = length (cl_reset c), ca_reopened = (cl_job c \<noteq> None), ca_demanded = demanded\<rparr>"

definition clear_in_dag :: "(string \<Rightarrow> nat list) \<Rightarrow> (sql_error \<Rightarrow> string) \<Rightarrow> int \<Rightarrow> org_row \<Rightarrow> job \<Rightarrow> dag \<Rightarrow> string \<Rightarrow> int option \<Rightarrow> resource_class option
    \<Rightarrow> job_db \<Rightarrow> (http_error + (clear_answer \<times> job_db)) outcome" where
  "clear_in_dag sha256 pg_text now g j d task_id retries resource_class db =
     (case position (\<lambda>n. n_task_id n = task_id) (nodes d) of
        None \<Rightarrow> Ret (Inl (404, quoted task_id @ '' is not a task of kind '' @ quoted (jb_kind j)))
      | Some index \<Rightarrow>
          bind_outcome (clear_closure d [index] True (\<lambda>_. Present)) (\<lambda>plan.
            let closure = task_ids_of d (must_run plan) in
            Ret (case clear sha256 now (og_id g) (jb_id j) closure (case retries of None \<Rightarrow> 0 | Some n \<Rightarrow> n) resource_class (jb_image_digest j) (jd_ledger db) of
                   Inr (c, led) \<Rightarrow> Inr (clear_answer_of closure (task_ids_of d (demanded_upstream plan)) c, db\<lparr>jd_ledger := led\<rparr>)
                 | Inl UnderCancel \<Rightarrow> Inl (409, ''the job is canceling; a clear under a cancel is refused'')
                 | Inl (ClearPg e) \<Rightarrow> Inl (pg_err pg_text e))))"

definition clear_job_task :: "(string \<Rightarrow> nat list) \<Rightarrow> (sql_error \<Rightarrow> string) \<Rightarrow> int \<Rightarrow> principal \<Rightarrow> backend \<Rightarrow> string \<Rightarrow> string \<Rightarrow> string \<Rightarrow> string
    \<Rightarrow> int option \<Rightarrow> resource_class option \<Rightarrow> (http_error + (clear_answer \<times> job_db)) outcome" where
  "clear_job_task sha256 pg_text now p b org ds job_id task_id retries resource_class =
     (case guard p org Steward of
        Inl e \<Rightarrow> Ret (Inl e)
      | Inr _ \<Rightarrow>
          (case b of
             Memory _ \<Rightarrow> Ret (Inl (501, ''the task ledger requires Postgres''))
           | Postgres pg \<Rightarrow>
               (case in_dataset pg org ds (\<lambda>g d db.
                   case get_job (og_id g) job_id (jd_ledger db) of None \<Rightarrow> Inl no_such_job | Some j \<Rightarrow> Inr (g, j, db)) of
                  Inl e \<Rightarrow> Ret (Inl e)
                | Inr (g, j, db) \<Rightarrow>
                    (case parse_job_kind (jb_kind j) of
                       None \<Rightarrow> Ret (Inl (409, ''this job'' @ [CHR 0x27] @ ''s kind has no compiled graph, so it has no task to clear''))
                     | Some kind \<Rightarrow> bind_outcome (dag_for sha256 kind) (\<lambda>d. clear_in_dag sha256 pg_text now g j d task_id retries resource_class db)))))"

section \<open>Dispatch helpers\<close>

text \<open>The index of the next queued job of the list in memory: the highest priority, the earliest among equals. \<open>runner\<close> gives an error or
  nothing; the final state goes to the first job with the id of the one that ran.\<close>

definition next_queued :: "job list \<Rightarrow> nat option" where
  "next_queued js =
     (case filter (\<lambda>i. jb_state (js ! i) = JobQueued) [0..<length js] of
        [] \<Rightarrow> None
      | i # rest \<Rightarrow> Some (fold (\<lambda>k best. if jb_priority (js ! best) < jb_priority (js ! k) then k else best) rest i))"

definition dispatch_next :: "(job \<Rightarrow> string option) \<Rightarrow> job list \<Rightarrow> (job \<times> job list) option outcome" where
  "dispatch_next runner js =
     (case next_queued js of
        None \<Rightarrow> Ret None
      | Some idx \<Rightarrow>
          (let running = (js ! idx)\<lparr>jb_state := JobRunning\<rparr>;
               js1 = js[idx := running];
               state = (if runner running = None then JobSucceeded else JobFailed) in
           case position (\<lambda>j. jb_id j = jb_id running) js1 of
             None \<Rightarrow> Panic
           | Some i \<Rightarrow> (let slot = (js1 ! i)\<lparr>jb_state := state\<rparr> in Ret (Some (slot, js1[i := slot])))))"

text \<open>The Postgres twin; \<open>http\<close> is present when the events are to be delivered at once.\<close>

definition record_outcome :: "int \<Rightarrow> job \<Rightarrow> string option \<Rightarrow> job list \<Rightarrow> (sql_error + (job \<times> job list)) outcome" where
  "record_outcome now j err js =
     (case err of
        None \<Rightarrow> Ret (case mark now JobSucceeded (jb_id j) js of Inl e \<Rightarrow> Inl e | Inr (_, js') \<Rightarrow> Inr (j\<lparr>jb_state := JobSucceeded\<rparr>, js'))
      | Some text \<Rightarrow> fail_or_retry_job now (jb_id j) (classify_message text) text js)"

definition dispatch_pg :: "(string \<Rightarrow> string \<Rightarrow> nat list) \<Rightarrow> (json \<Rightarrow> string) \<Rightarrow> int \<Rightarrow> (nat \<Rightarrow> string) \<Rightarrow> (string \<Rightarrow> bool) \<Rightarrow> (string \<Rightarrow> int option) \<Rightarrow> int option
    \<Rightarrow> (job \<Rightarrow> string option) \<Rightarrow> ((nat \<Rightarrow> network) \<times> (nat \<Rightarrow> int \<times> int)) option \<Rightarrow> job_db \<Rightarrow> ((sql_error + job option) \<times> job_db) outcome" where
  "dispatch_pg hmac to_vec now mint skip max_jobs cap runner http db =
     (case claim now skip max_jobs (org_job_cap cap) (jobs (jd_ledger db)) of
        Inl e \<Rightarrow> Ret (Inl e, db)
      | Inr (None, js) \<Rightarrow> Ret (Inr None, put_jobs js db)
      | Inr (Some j, js) \<Rightarrow>
          (case mark now JobRunning (jb_id j) js of
             Inl e \<Rightarrow> Ret (Inl e, put_jobs js db)
           | Inr (_, js1) \<Rightarrow>
               bind_outcome (record_outcome now j (runner j) js1) (\<lambda>r.
                 case r of
                   Inl e \<Rightarrow> Ret (Inl e, put_jobs js1 db)
                 | Inr (completed, js2) \<Rightarrow>
                     (let db1 = emitted now mint completed (put_jobs js2 db) in
                      Ret (Inr (Some completed),
                        case http of
                          None \<Rightarrow> db1
                        | Some (nets, clock) \<Rightarrow>
                            db1\<lparr>jd_hooks := snd (snd (drain hmac to_vec nets clock 0 16 (jd_hooks db1)))\<rparr>)))))"

section \<open>What a clear reruns\<close>

lemma positionD: "position P xs = Some n \<Longrightarrow> n < length xs \<and> P (xs ! n)"
  by (auto simp: position_def Let_def split: if_splits dest: nth_length_takeWhile)

lemma no_lost_inputs: "lost_inputs d (\<lambda>_. Present) = {}"
  by (simp add: lost_inputs_def)

lemma closure_with_inputs:
  assumes "topological (nodes d)" "index < length (nodes d)"
  shows "clear_closure d [index] True (\<lambda>_. Present) = Ret \<lparr>must_run = (edges (nodes d))\<^sup>* `` {index}, demanded_upstream = {}\<rparr>"
  using clear_closure_result [OF assms(1), of "[index]" True "\<lambda>_. Present"] assms(2)
  by (simp add: no_lost_inputs rerun_base_def)

lemma in_datasetD:
  assumes "in_dataset pg org ds run = Inr x"
  shows "\<exists>db g d. pg = Inr db \<and> get_org org (hk_access (jd_hooks db)) = Some g \<and> get_dataset (og_id g) ds db = Some d \<and> run g d db = Inr x"
  using assms by (auto simp: in_dataset_def org_or_404_def dataset_or_404_def split: sum.splits option.splits)

lemma get_jobD: "get_job org_id job_id led = Some j \<Longrightarrow> j \<in> set (jobs led) \<and> jb_org_id j = org_id \<and> jb_id j = job_id"
  unfolding get_job_def by (drule find_in_set) simp

lemma clear_open_job:
  assumes "get_job org_id job_id led = Some j" "clear sha256 now org_id job_id tids retries cls dig led = Inr (c, led')"
  shows "clear_rows sha256 now org_id job_id tids retries cls dig led = Inr (c, led')"
proof -
  from get_jobD [OF assms(1)] have "lock_job job_id led \<noteq> []" by (auto simp: lock_job_def filter_empty_conv)
  with assms(2) show ?thesis by (auto simp: clear_def split: list.splits if_splits sum.splits)
qed

lemma clear_job_taskD:
  assumes "clear_job_task sha256 pg_text now p b org ds job_id task_id retries cls = Ret (Inr (answer, db'))"
  shows "\<exists>db g j kind d. b = Postgres (Inr db) \<and> guard p org Steward = Inr () \<and> get_org org (hk_access (jd_hooks db)) = Some g
    \<and> get_job (og_id g) job_id (jd_ledger db) = Some j \<and> parse_job_kind (jb_kind j) = Some kind \<and> dag_for sha256 kind = Ret d
    \<and> clear_in_dag sha256 pg_text now g j d task_id retries cls db = Ret (Inr (answer, db'))"
proof -
  from assms obtain pg where g: "guard p org Steward = Inr ()" and b: "b = Postgres pg"
    by (auto simp: clear_job_task_def split: sum.splits backend.splits)
  with assms obtain g :: org_row and j and db where i: "in_dataset pg org ds (\<lambda>g d db.
      case get_job (og_id g) job_id (jd_ledger db) of None \<Rightarrow> Inl no_such_job | Some j \<Rightarrow> Inr (g, j, db)) = Inr (g, j, db)"
      and rest: "(case parse_job_kind (jb_kind j) of
           None \<Rightarrow> Ret (Inl (409, ''this job'' @ [CHR 0x27] @ ''s kind has no compiled graph, so it has no task to clear''))
         | Some kind \<Rightarrow> bind_outcome (dag_for sha256 kind) (\<lambda>d. clear_in_dag sha256 pg_text now g j d task_id retries cls db)) = Ret (Inr (answer, db'))"
    by (auto simp: clear_job_task_def split: sum.splits)
  from in_datasetD [OF i] have pg: "pg = Inr db" "get_org org (hk_access (jd_hooks db)) = Some g" "get_job (og_id g) job_id (jd_ledger db) = Some j"
    by (auto split: option.splits)
  from rest obtain kind d where "parse_job_kind (jb_kind j) = Some kind" "dag_for sha256 kind = Ret d"
      "clear_in_dag sha256 pg_text now g j d task_id retries cls db = Ret (Inr (answer, db'))"
    by (cases "parse_job_kind (jb_kind j)") (auto simp: dag_for_Ret)
  with g b pg show ?thesis by blast
qed

lemma clear_in_dagD:
  assumes "topological (nodes d)" "clear_in_dag sha256 pg_text now g j d task_id retries cls db = Ret (Inr (answer, db'))"
  shows "\<exists>index c led. index < length (nodes d) \<and> n_task_id (nodes d ! index) = task_id
    \<and> ca_cleared answer = task_ids_of d ((edges (nodes d))\<^sup>* `` {index}) \<and> db' = db\<lparr>jd_ledger := led\<rparr>
    \<and> clear sha256 now (og_id g) (jb_id j) (ca_cleared answer) (case retries of None \<Rightarrow> 0 | Some n \<Rightarrow> n) cls (jb_image_digest j) (jd_ledger db) = Inr (c, led)"
proof -
  from assms(2) obtain index where p: "position (\<lambda>n. n_task_id n = task_id) (nodes d) = Some index"
    by (auto simp: clear_in_dag_def split: option.splits)
  note i = positionD [OF p]
  let ?closure = "task_ids_of d ((edges (nodes d))\<^sup>* `` {index})"
  from assms(2) have "(case clear sha256 now (og_id g) (jb_id j) ?closure (case retries of None \<Rightarrow> 0 | Some n \<Rightarrow> n) cls (jb_image_digest j) (jd_ledger db) of
                   Inr (c, led) \<Rightarrow> Inr (clear_answer_of ?closure (task_ids_of d {}) c, db\<lparr>jd_ledger := led\<rparr>)
                 | Inl UnderCancel \<Rightarrow> Inl (409, ''the job is canceling; a clear under a cancel is refused'')
                 | Inl (ClearPg e) \<Rightarrow> Inl (pg_err pg_text e)) = (Inr (answer, db') :: http_error + (clear_answer \<times> job_db))"
    using closure_with_inputs [OF assms(1)] i by (simp add: clear_in_dag_def p Let_def cong: sum.case_cong)
  then obtain c led where "clear sha256 now (og_id g) (jb_id j) ?closure (case retries of None \<Rightarrow> 0 | Some n \<Rightarrow> n) cls (jb_image_digest j) (jd_ledger db) = Inr (c, led)"
      "answer = clear_answer_of ?closure (task_ids_of d {}) c" "db' = db\<lparr>jd_ledger := led\<rparr>"
    by (auto split: sum.splits clear_error.splits)
  with i show ?thesis by (auto simp: clear_answer_of_def)
qed

section \<open>Properties\<close>

definition sample_principal :: principal where
  "sample_principal = \<lparr>pr_actor = ''ada'', pr_org = Some ''acme'', pr_role = Steward, pr_trace_context = None\<rparr>"

definition sample_job_db :: "job list \<Rightarrow> task_instance list \<Rightarrow> job_db" where
  "sample_job_db js ts = \<lparr>jd_hooks = sample_hooks\<lparr>hk_datasets := [sample_dataset]\<rparr>,
     jd_ledger = \<lparr>tasks = ts, jobs = js\<rparr>\<rparr>"

subsection \<open>An example of a clear\<close>

definition sample_clear :: "string list \<Rightarrow> clear_error + (cleared \<times> ledger)" where
  "sample_clear closure = clear (\<lambda>s. [7]) 100 ''o1'' ''j1'' closure 0 None None \<lparr>tasks = [sample_row], jobs = [running_job]\<rparr>"

lemma sample_clear_Inr:
  assumes "''match'' \<in> set closure"
  shows "\<exists>c led. sample_clear closure = Inr (c, led)"
  using assms
  by (simp add: sample_clear_def clear_def lock_job_def running_job_def clear_rows_def seq_tx_def restart_cleared_def archive_cleared_def
      reset_pending_def update_tasks_def store_def sample_row_def blank_row_def row_checks_def unique_ok_def holds_pod_def reopen_job_def update_jobs_def)

lemma sample_clear_run:
  "\<exists>answer db'. clear_job_task (\<lambda>s. [7]) (\<lambda>e. ''pg'') 100 sample_principal (Postgres (Inr (sample_job_db [running_job] [sample_row])))
     ''acme'' ''people'' ''j1'' ''match'' None None = Ret (Inr (answer, db'))"
proof -
  let ?db = "sample_job_db [running_job] [sample_row]"
  have kind: "parse_job_kind (jb_kind running_job) = Some RunAllFull"
    and p3: "position (\<lambda>n. n_task_id n = ''match'') (b_nodes (graph_of RunAllFull)) = Some 3" by (code_simp, code_simp)
  obtain d where d: "dag_for (\<lambda>s. [7]) RunAllFull = Ret d" "nodes d = b_nodes (graph_of RunAllFull)" by (simp add: dag_for_Ret)
  have pos: "position (\<lambda>n. n_task_id n = ''match'') (nodes d) = Some 3" using p3 d by simp
  let ?closure = "task_ids_of d ((edges (nodes d))\<^sup>* `` {3})"
  have "topological (nodes d)" using dag_for_ok [OF d(1)] by blast
  note cl = closure_with_inputs [OF this, of 3] positionD [OF pos]
  have "(edges (nodes d))\<^sup>* `` {3} \<subseteq> {..<length (nodes d)}"
    using rerun_base_in_range [of "[3]" d True] positionD [OF pos] by (simp add: rerun_base_def)
  then have "finite ((edges (nodes d))\<^sup>* `` {3})" by (rule finite_subset) simp
  then have "''match'' \<in> set ?closure" using positionD [OF pos] by (force simp: task_ids_of_def)
  from sample_clear_Inr [OF this] obtain c led where c: "sample_clear ?closure = Inr (c, led)" by blast
  have "og_id g = ''o1'' \<Longrightarrow> clear_in_dag (\<lambda>s. [7]) (\<lambda>e. ''pg'') 100 g running_job d ''match'' None None ?db
      = Ret (Inr (clear_answer_of ?closure (task_ids_of d {}) c, ?db\<lparr>jd_ledger := led\<rparr>))" for g :: org_row
    using cl c [unfolded sample_clear_def]
    by (simp add: clear_in_dag_def pos Let_def sample_job_db_def running_job_def cong: sum.case_cong)
  with kind d show ?thesis
    by (simp add: clear_job_task_def in_dataset_def org_or_404_def dataset_or_404_def guard_def sample_principal_def sample_job_db_def
        sample_hooks_def sample_org_def sample_dataset_def get_org_def get_dataset_def get_job_def running_job_def)
qed



text \<open>Cancelling a job of a kind the executor does not run overwrites its outcome: whatever state it is in, also succeeded or failed, its row is
  marked as canceled, finished again. A job of an executor kind that has ended is refused with a conflict.\<close>

lemma cancel_overwrites_outcome:
  assumes guard: "guard p org Steward = Inr ()" and org: "get_org org (hk_access (jd_hooks db)) = Some g"
    and ds: "get_dataset (og_id g) ds db = Some d" and job: "get_job (og_id g) job_id (jd_ledger db) = Some j"
    and settled: "jb_state j \<in> {JobSucceeded, JobFailed}" and ids: "distinct (map jb_id (jobs (jd_ledger db)))" and ok: "jobs_ok (jobs (jd_ledger db))"
  shows "if jb_kind j \<in> set executor_kinds
    then cancel_job_handler pg_text now mint executor_kinds p (Postgres (Inr db)) org ds job_id = Inl (409, ''the job is not cancelable (already terminal)'')
    else \<exists>db'. cancel_job_handler pg_text now mint executor_kinds p (Postgres (Inr db)) org ds job_id
          = Inr (j\<lparr>jb_state := JobCanceled\<rparr>, Postgres (Inr db'))
        \<and> get_job (og_id g) job_id (jd_ledger db') = Some (j\<lparr>jb_state := JobCanceled, jb_updated_at := now, jb_finished_at := Some now\<rparr>)"
proof (cases "jb_kind j \<in> set executor_kinds")
  case True
  have "\<not> (jb_id x = job_id \<and> jb_org_id x = og_id g \<and> jb_state x \<in> {JobQueued, Dispatching, JobRunning})" if x: "x \<in> set (jobs (jd_ledger db))" for x
  proof
    assume a: "jb_id x = job_id \<and> jb_org_id x = og_id g \<and> jb_state x \<in> {JobQueued, Dispatching, JobRunning}"
    have "x = j" using same_row [OF ids x, of j] a get_jobD [OF job] by simp
    with a settled show False by auto
  qed
  then have "filter (\<lambda>x. jb_id x = job_id \<and> jb_org_id x = og_id g \<and> jb_state x \<in> {JobQueued, Dispatching, JobRunning}) (jobs (jd_ledger db)) = []"
    unfolding filter_empty_conv by blast
  then have "fst (cancel_job now job_id (og_id g) (jd_ledger db)) = []" by (simp add: cancel_job_def update_jobs_def)
  then obtain led where "cancel_job now job_id (og_id g) (jd_ledger db) = ([], led)" by (metis prod.collapse)
  with True guard org ds job show ?thesis
    by (simp add: cancel_job_handler_def in_dataset_def org_or_404_def dataset_or_404_def cancel_executor_job_def)
next
  case False
  note j = get_jobD [OF job]
  let ?f = "\<lambda>x. if jb_id x = job_id then x\<lparr>jb_state := JobCanceled, jb_updated_at := now, jb_finished_at := Some now\<rparr> else x"
  have "jobs_ok (map ?f (jobs (jd_ledger db)))" by (rule calm_jobs_ok [OF ok]) (simp add: calm_def active_job_def)
  then have m: "\<exists>rows. mark now JobCanceled (jb_id j) (jobs (jd_ledger db)) = Inr (rows, map ?f (jobs (jd_ledger db)))"
    using j by (simp add: mark_def checked_update_def Let_def cong: if_cong)
  have "find (\<lambda>x. jb_org_id x = og_id g \<and> jb_id x = job_id) (map ?f js) = map_option ?f (find (\<lambda>x. jb_org_id x = og_id g \<and> jb_id x = job_id) js)" for js :: "job list"
    by (induction js) auto
  with job j have "get_job (og_id g) job_id ((jd_ledger db)\<lparr>jobs := map ?f (jobs (jd_ledger db))\<rparr>)
      = Some (j\<lparr>jb_state := JobCanceled, jb_updated_at := now, jb_finished_at := Some now\<rparr>)" by (simp add: get_job_def)
  with m False guard org ds job show ?thesis
    by (auto simp: cancel_job_handler_def in_dataset_def org_or_404_def dataset_or_404_def cancel_legacy_job_def Let_def emitted_def put_jobs_def)
qed

lemma cancel_overwrites_outcome_witness:
  "\<exists>db'. cancel_job_handler (\<lambda>e. ''pg'') 50 (\<lambda>i. ''d1'') [] sample_principal (Postgres (Inr (sample_job_db [running_job\<lparr>jb_state := JobSucceeded\<rparr>] [])))
       ''acme'' ''people'' ''j1'' = Inr ((running_job\<lparr>jb_state := JobSucceeded\<rparr>)\<lparr>jb_state := JobCanceled\<rparr>, Postgres (Inr db'))
     \<and> jobs (jd_ledger (sample_job_db [running_job\<lparr>jb_state := JobSucceeded\<rparr>] [])) = [running_job\<lparr>jb_state := JobSucceeded\<rparr>]"
proof -
  let ?j = "running_job\<lparr>jb_state := JobSucceeded\<rparr>" and ?g = "sample_org"
  let ?db = "sample_job_db [?j] []"
  have "guard sample_principal ''acme'' Steward = Inr ()" by (simp add: guard_def sample_principal_def)
  moreover have "get_org ''acme'' (hk_access (jd_hooks ?db)) = Some ?g" by (simp add: sample_job_db_def sample_hooks_def sample_org_def get_org_def)
  moreover have "get_dataset (og_id ?g) ''people'' ?db = Some sample_dataset"
    by (simp add: sample_job_db_def sample_org_def sample_dataset_def get_dataset_def)
  moreover have "get_job (og_id ?g) ''j1'' (jd_ledger ?db) = Some ?j" by (simp add: sample_job_db_def sample_org_def get_job_def running_job_def)
  moreover have "jb_state ?j \<in> {JobSucceeded, JobFailed}" by simp
  moreover have "distinct (map jb_id (jobs (jd_ledger ?db)))" "jobs_ok (jobs (jd_ledger ?db))"
    by (simp_all add: sample_job_db_def jobs_ok_def active_job_def)
  ultimately have "if jb_kind ?j \<in> set []
    then cancel_job_handler (\<lambda>e. ''pg'') 50 (\<lambda>i. ''d1'') [] sample_principal (Postgres (Inr ?db)) ''acme'' ''people'' ''j1''
      = Inl (409, ''the job is not cancelable (already terminal)'')
    else \<exists>db'. cancel_job_handler (\<lambda>e. ''pg'') 50 (\<lambda>i. ''d1'') [] sample_principal (Postgres (Inr ?db)) ''acme'' ''people'' ''j1''
          = Inr (?j\<lparr>jb_state := JobCanceled\<rparr>, Postgres (Inr db'))
        \<and> get_job (og_id ?g) ''j1'' (jd_ledger db') = Some (?j\<lparr>jb_state := JobCanceled, jb_updated_at := 50, jb_finished_at := Some 50\<rparr>)"
    by (rule cancel_overwrites_outcome)
  then have "\<exists>db'. cancel_job_handler (\<lambda>e. ''pg'') 50 (\<lambda>i. ''d1'') [] sample_principal (Postgres (Inr ?db)) ''acme'' ''people'' ''j1''
          = Inr (?j\<lparr>jb_state := JobCanceled\<rparr>, Postgres (Inr db'))" by auto
  then show ?thesis by (simp add: sample_job_db_def)
qed

text \<open>The page of jobs of a dataset is cut out of the newest jobs of the whole organization: a dataset whose jobs are older than the page
  shows none.\<close>

lemma page_of_other_dataset:
  "list_jobs_handler sample_principal (Postgres (Inr (sample_job_db
       [running_job\<lparr>jb_id := ''j1'', jb_dataset_id := Some ''d1''\<rparr>, running_job\<lparr>jb_id := ''j2'', jb_dataset_id := Some ''d2''\<rparr>] [])))
     ''acme'' ''people'' None (Some ''1'') = Inr []"
  "map_sum id (map jb_id) (list_jobs_handler sample_principal (Postgres (Inr (sample_job_db
       [running_job\<lparr>jb_id := ''j1'', jb_dataset_id := Some ''d1''\<rparr>, running_job\<lparr>jb_id := ''j2'', jb_dataset_id := Some ''d2''\<rparr>] [])))
     ''acme'' ''people'' None None) = Inr [''j1'']"
  by (code_simp, code_simp)

text \<open>A resumed job was failed or canceled, is queued at once, and nothing else of the table changes.\<close>

lemma resume_requeues:
  assumes "resume_job_handler pg_text now p (Postgres (Inr db)) org ds job_id = Inr db'" "distinct (map jb_id (jobs (jd_ledger db)))"
  shows "\<exists>g j. get_org org (hk_access (jd_hooks db)) = Some g \<and> j \<in> set (jobs (jd_ledger db)) \<and> jb_id j = job_id \<and> jb_org_id j = og_id g
    \<and> jb_state j \<in> {JobFailed, JobCanceled} \<and> jobs (jd_ledger db') = map (\<lambda>x. if x = j then
        j\<lparr>jb_state := JobQueued, jb_not_before := Some now, jb_updated_at := now, jb_finished_at := None\<rparr> else x) (jobs (jd_ledger db))"
proof -
  let ?js = "jobs (jd_ledger db)"
  from assms(1) have "in_dataset (Inr db) org ds (\<lambda>g d db.
                 case resume_job now (og_id g) job_id (jobs (jd_ledger db)) of
                   Inl e \<Rightarrow> Inl (pg_err pg_text e)
                 | Inr (True, js) \<Rightarrow> Inr ((put_jobs js db)\<lparr>jd_hooks := hook_audit (pr_actor p) org ''job.resume''
                     (json_object [(''job_id'', JStr job_id)]) (jd_hooks db)\<rparr>)
                 | Inr (False, _) \<Rightarrow> Inl (409, ''job is not resumable (not failed or canceled)'')) = Inr db'"
    by (simp add: resume_job_handler_def split: sum.splits)
  from in_datasetD [OF this] obtain g :: org_row where g: "get_org org (hk_access (jd_hooks db)) = Some g"
    and e: "(case resume_job now (og_id g) job_id ?js of
                   Inl e \<Rightarrow> Inl (pg_err pg_text e)
                 | Inr (True, js) \<Rightarrow> Inr ((put_jobs js db)\<lparr>jd_hooks := hook_audit (pr_actor p) org ''job.resume''
                     (json_object [(''job_id'', JStr job_id)]) (jd_hooks db)\<rparr>)
                 | Inr (False, _) \<Rightarrow> Inl (409, ''job is not resumable (not failed or canceled)'')) = (Inr db' :: http_error + job_db)"
    by auto
  from e obtain js where r: "resume_job now (og_id g) job_id ?js = Inr (True, js)" and js: "jobs (jd_ledger db') = js"
    by (cases "resume_job now (og_id g) job_id ?js") (auto simp: put_jobs_def split: prod.splits bool.splits)
  let ?hit = "\<lambda>x. jb_org_id x = og_id g \<and> jb_id x = job_id \<and> jb_state x \<in> {JobFailed, JobCanceled}"
  let ?f = "\<lambda>x. x\<lparr>jb_state := JobQueued, jb_not_before := Some now, jb_updated_at := now, jb_finished_at := None\<rparr>"
  from r have one: "length (filter ?hit ?js) = 1" and js': "js = map (\<lambda>x. if ?hit x then ?f x else x) ?js"
    by (auto simp: resume_job_def resume_sql_def checked_update_def Let_def split: if_splits sum.splits)
  from one obtain j where j: "filter ?hit ?js = [j]" by (auto simp: length_Suc_conv)
  then have mem: "j \<in> set ?js" "?hit j" by (auto simp: filter_eq_Cons_iff)
  have "(if ?hit x then ?f x else x) = (if x = j then ?f j else x)" if x: "x \<in> set ?js" for x
  proof (cases "x = j")
    case True then show ?thesis using mem(2) by simp
  next
    case False
    then have "\<not> ?hit x" using same_row [OF assms(2) x mem(1)] mem(2) by auto
    with False show ?thesis by (simp only: if_False)
  qed
  then have "js = map (\<lambda>x. if x = j then ?f j else x) ?js" unfolding js' by (rule map_cong [OF refl])
  with g mem js show ?thesis by blast
qed

end
