(* ===== verification/Provision.thy ===== *)
theory Provision
  imports Access JobQueue
begin

text \<open>
  Where a tenant's lake is put: the pure part of \<open>er-server/src/provision.rs\<close> (reading the profile, the plans of an organization and of a
  dataset, the names derived from them) and the name rule of \<open>lib.rs\<close>. Paths and names are UTF-8 strings as in theory \<open>Utf8\<close>; joining paths
  is that of the standard library on Unix. The JSON parser of \<open>serde_json\<close> is a parameter.
\<close>

section \<open>Strings and paths\<close>

text \<open>\<open>str::replace\<close>: every occurrence from left to right, not overlapping; the pattern is not empty.\<close>

fun replace_all :: "string \<Rightarrow> string \<Rightarrow> string \<Rightarrow> string" where
  "replace_all pat by [] = []"
| "replace_all pat by (c # s) =
     (if take (length pat) (c # s) = pat \<and> pat \<noteq> [] then by @ replace_all pat by (drop (length pat) (c # s))
      else c # replace_all pat by s)"

definition path_join :: "string \<Rightarrow> string \<Rightarrow> string" where
  "path_join p q =
     (if take 1 q = ''/'' then q
      else if p = [] \<or> last p = CHR ''/'' then p @ q
      else p @ ''/'' @ q)"

definition rfind :: "char \<Rightarrow> string \<Rightarrow> nat option" where
  "rfind c s = (if c \<in> set s then Some (length s - 1 - length (takeWhile (\<lambda>x. x \<noteq> c) (rev s))) else None)"

definition ends_with :: "string \<Rightarrow> string \<Rightarrow> bool" where
  "ends_with t s \<longleftrightarrow> drop (length s - length t) s = t \<and> length t \<le> length s"

section \<open>Names\<close>

definition lower_letter :: "char \<Rightarrow> bool" where
  "lower_letter c \<longleftrightarrow> CHR ''a'' \<le> c \<and> c \<le> CHR ''z''"

definition ascii_digit :: "char \<Rightarrow> bool" where
  "ascii_digit c \<longleftrightarrow> CHR ''0'' \<le> c \<and> c \<le> CHR ''9''"

definition valid_org_name :: "string \<Rightarrow> bool" where
  "valid_org_name s \<longleftrightarrow> s \<noteq> [] \<and> length s \<le> 128 \<and> (lower_letter (hd s) \<or> ascii_digit (hd s))
     \<and> list_all (\<lambda>b. lower_letter b \<or> ascii_digit b \<or> b = CHR ''_'' \<or> b = CHR ''-'') s"

text \<open>One character of the name gives one character of the identifier; the bytes that continue a character are part of it.\<close>

fun fold_identifier :: "string \<Rightarrow> string" where
  "fold_identifier [] = []"
| "fold_identifier (c # s) =
     (if 128 \<le> byte c \<and> byte c < 192 then fold_identifier s
      else (if lower_letter c \<or> ascii_digit c \<or> CHR ''A'' \<le> c \<and> c \<le> CHR ''Z'' then hd (ascii_lower [c]) else CHR ''_'') # fold_identifier s)"

definition tenant_database :: "string \<Rightarrow> string" where
  "tenant_database org = ''er_t_'' @ fold_identifier org"

definition dataset_schema :: "string \<Rightarrow> string" where
  "dataset_schema dataset = ''ds_'' @ fold_identifier dataset"

definition catalog_dsn :: "string \<Rightarrow> string \<Rightarrow> string" where
  "catalog_dsn maint database =
     (let (base, query) = (case split_once (CHR ''?'') maint of Some (b, q) \<Rightarrow> (b, Some q) | None \<Rightarrow> (maint, None));
          trimmed = trim_end_matches (CHR ''/'') base;
          replaced = (case rfind (CHR ''/'') trimmed of
              Some idx \<Rightarrow> if \<not> ends_with '':'' (take idx trimmed) \<and> \<not> ends_with ''/'' (take idx trimmed)
                          then take idx trimmed @ ''/'' @ database else trimmed @ ''/'' @ database
            | None \<Rightarrow> trimmed @ ''/'' @ database) in
      case query of Some q \<Rightarrow> replaced @ ''?'' @ q | None \<Rightarrow> replaced)"

section \<open>The profile\<close>

datatype provision_mode = LocalMode | PostgresMode

definition parse_mode :: "string \<Rightarrow> provision_mode option" where
  "parse_mode raw =
     (let m = ascii_lower (trim raw) in if m = ''local'' then Some LocalMode else if m = ''postgres'' then Some PostgresMode else None)"

record profile =
  pf_mode :: provision_mode
  pf_root :: string
  pf_config_template :: string
  pf_maint_dsn :: "string option"
  pf_data_template :: "string option"
  pf_env_extra :: "(string, json) bmap"

datatype profile_error = UnknownMode string | MissingKey string | BadEnvJson string

fun kind_of :: "json \<Rightarrow> string" where
  "kind_of JNull = ''null''"
| "kind_of (JBool _) = ''a boolean''"
| "kind_of (JInt _) = ''a number''"
| "kind_of (JFloat _) = ''a number''"
| "kind_of (JStr _) = ''a string''"
| "kind_of (JArr _) = ''an array''"
| "kind_of (JObj _) = ''an object''"

definition required_key :: "(string \<Rightarrow> string option) \<Rightarrow> string \<Rightarrow> profile_error + string" where
  "required_key env key = (case env key of Some v \<Rightarrow> if trim v = [] then Inl (MissingKey key) else Inr v | None \<Rightarrow> Inl (MissingKey key))"

definition env_extra_of :: "(string \<Rightarrow> string + json) \<Rightarrow> (string \<Rightarrow> string option) \<Rightarrow> profile_error + (string, json) bmap" where
  "env_extra_of parse_json env =
     (case env ''ER_PROVISION_ENV_JSON'' of
        None \<Rightarrow> Inr []
      | Some raw \<Rightarrow>
          if raw = [] then Inr []
          else (case parse_json raw of
                  Inr (JObj m) \<Rightarrow> Inr m
                | Inr other \<Rightarrow> Inl (BadEnvJson (''expected an object, got '' @ kind_of other))
                | Inl e \<Rightarrow> Inl (BadEnvJson e)))"

definition from_env :: "(string \<Rightarrow> string + json) \<Rightarrow> (string \<Rightarrow> string option) \<Rightarrow> profile_error + profile option" where
  "from_env parse_json env =
     (case env ''ER_PROVISION_MODE'' of
        None \<Rightarrow> Inr None
      | Some raw \<Rightarrow>
          if trim raw = [] then Inr None
          else (case parse_mode raw of
                  None \<Rightarrow> Inl (UnknownMode raw)
                | Some mode \<Rightarrow>
                    (case env_extra_of parse_json env of
                       Inl e \<Rightarrow> Inl e
                     | Inr extra \<Rightarrow>
                         (case required_key env ''ER_PROVISION_ROOT'' of
                            Inl e \<Rightarrow> Inl e
                          | Inr base \<Rightarrow>
                              (case required_key env ''ER_PROVISION_CONFIG_TEMPLATE'' of
                                 Inl e \<Rightarrow> Inl e
                               | Inr template \<Rightarrow>
                                   (case mode of
                                      LocalMode \<Rightarrow> Inr (Some \<lparr>pf_mode = mode, pf_root = base, pf_config_template = template,
                                                     pf_maint_dsn = None, pf_data_template = None, pf_env_extra = extra\<rparr>)
                                    | PostgresMode \<Rightarrow>
                                        (case required_key env ''ER_PROVISION_MAINT_DSN'' of
                                           Inl e \<Rightarrow> Inl e
                                         | Inr dsn \<Rightarrow>
                                             (case required_key env ''ER_PROVISION_DATA_TEMPLATE'' of
                                                Inl e \<Rightarrow> Inl e
                                              | Inr data \<Rightarrow>
                                                  Inr (Some \<lparr>pf_mode = mode, pf_root = base, pf_config_template = template,
                                                     pf_maint_dsn = Some dsn, pf_data_template = Some data, pf_env_extra = extra\<rparr>)))))))))"

section \<open>Plans\<close>

record lake_plan =
  lp_org :: string
  lp_dir :: string
  lp_config_path :: string
  lp_drop_root :: string
  lp_tenant :: "string option"
  lp_env :: "(string, json) bmap"

definition env_json :: "lake_plan \<Rightarrow> json" where
  "env_json p = JObj (lp_env p)"

definition default_str :: "string option \<Rightarrow> string" where
  "default_str x = (case x of Some s \<Rightarrow> s | None \<Rightarrow> [])"

definition derived_env :: "string \<Rightarrow> string \<Rightarrow> string \<Rightarrow> (string, json) bmap \<Rightarrow> (string, json) bmap" where
  "derived_env config_path catalog data_path env =
     bmap_insert ''ER_LAKE_DATA_PATH'' (JStr data_path)
       (bmap_insert ''ER_LAKE_CATALOG'' (JStr catalog) (bmap_insert ''ER_CONFIG_PATH'' (JStr config_path) env))"

definition plan_org :: "profile \<Rightarrow> string \<Rightarrow> lake_plan" where
  "plan_org f org =
     (let dir = path_join (pf_root f) org;
          config_path = path_join dir ''config.yaml'';
          (catalog, data_path, tenant) =
            (case pf_mode f of
               LocalMode \<Rightarrow> (path_join (path_join dir ''lake'') ''catalog.ducklake'', path_join (path_join dir ''lake'') ''data'', None)
             | PostgresMode \<Rightarrow>
                 (catalog_dsn (default_str (pf_maint_dsn f)) (tenant_database org),
                  replace_all ''{org}'' org (default_str (pf_data_template f)), Some (tenant_database org))) in
      \<lparr>lp_org = org, lp_dir = dir, lp_config_path = config_path, lp_drop_root = path_join dir ''drop'', lp_tenant = tenant,
       lp_env = derived_env config_path catalog data_path (pf_env_extra f)\<rparr>)"

fun substituted :: "string \<Rightarrow> string \<Rightarrow> json \<Rightarrow> json" where
  "substituted org dataset (JStr text) = JStr (replace_all ''{dataset}'' dataset (replace_all ''{org}'' org text))"
| "substituted org dataset v = v"

definition dataset_data_path :: "string \<Rightarrow> string \<Rightarrow> string \<Rightarrow> string" where
  "dataset_data_path template org dataset =
     (if contains ''{dataset}'' template then replace_all ''{dataset}'' dataset (replace_all ''{org}'' org template)
      else trim_end_matches (CHR ''/'') (replace_all ''{org}'' org template) @ ''/'' @ dataset)"

definition plan_dataset :: "profile \<Rightarrow> string \<Rightarrow> string \<Rightarrow> lake_plan" where
  "plan_dataset f org dataset =
     (let dir = path_join (path_join (pf_root f) org) dataset;
          config_path = path_join dir ''config.yaml'';
          extra = bmap_collect (map (\<lambda>(k, v). (k, substituted org dataset v)) (pf_env_extra f)) in
      case pf_mode f of
        LocalMode \<Rightarrow>
          \<lparr>lp_org = org, lp_dir = dir, lp_config_path = config_path, lp_drop_root = path_join dir ''drop'', lp_tenant = None,
           lp_env = derived_env config_path (path_join (path_join dir ''lake'') ''catalog.ducklake'') (path_join (path_join dir ''lake'') ''data'') extra\<rparr>
      | PostgresMode \<Rightarrow>
          \<lparr>lp_org = org, lp_dir = dir, lp_config_path = config_path, lp_drop_root = path_join dir ''drop'', lp_tenant = Some (tenant_database org),
           lp_env = bmap_insert ''ER_LAKE_CATALOG_SCHEMA'' (JStr (dataset_schema dataset))
             (derived_env config_path (catalog_dsn (default_str (pf_maint_dsn f)) (tenant_database org))
                (dataset_data_path (default_str (pf_data_template f)) org dataset) extra)\<rparr>)"

section \<open>Names are kept apart\<close>

lemma valid_org_name_chars: "valid_org_name s \<Longrightarrow> CHR ''/'' \<notin> set s \<and> s \<noteq> []"
  by (auto simp: valid_org_name_def list_all_iff lower_letter_def ascii_digit_def less_eq_char_def)

lemma valid_org_name_last: "valid_org_name s \<Longrightarrow> last s \<noteq> CHR ''/''"
  using valid_org_name_chars last_in_set by metis

lemma fold_valid: "valid_org_name s \<Longrightarrow> fold_identifier s = map (\<lambda>c. if c = CHR ''-'' then CHR ''_'' else c) s"
proof -
  have "list_all (\<lambda>b. lower_letter b \<or> ascii_digit b \<or> b = CHR ''_'' \<or> b = CHR ''-'') s
      \<Longrightarrow> fold_identifier s = map (\<lambda>c. if c = CHR ''-'' then CHR ''_'' else c) s"
  proof (induction s)
    case (Cons c s)
    then have c: "lower_letter c \<or> ascii_digit c \<or> c = CHR ''_'' \<or> c = CHR ''-''" by simp
    then have "byte c < 128" by (auto simp: lower_letter_def ascii_digit_def less_eq_char_def)
    moreover have "hd (ascii_lower [c]) = c" if "lower_letter c \<or> ascii_digit c"
      using that by (auto simp: ascii_lower_def lower_letter_def ascii_digit_def less_eq_char_def)
    ultimately show ?case using Cons c
      by (auto simp: lower_letter_def ascii_digit_def less_eq_char_def)
  qed simp
  then show "valid_org_name s \<Longrightarrow> fold_identifier s = map (\<lambda>c. if c = CHR ''-'' then CHR ''_'' else c) s" by (simp add: valid_org_name_def)
qed

lemma catalog_dsn_inj [simp]: "catalog_dsn maint a = catalog_dsn maint b \<longleftrightarrow> a = b"
  by (auto simp: catalog_dsn_def Let_def split: option.splits prod.splits if_splits)

lemma same_component:
  fixes a b :: string
  assumes "c \<notin> set a" and "c \<notin> set b"
  shows "a @ c # s = b @ c # t \<longleftrightarrow> a = b \<and> s = t"
proof
  assume "a @ c # s = b @ c # t"
  then have "split_once c (a @ c # s) = split_once c (b @ c # t)" by simp
  then show "a = b \<and> s = t" by (simp add: split_once_append assms)
qed simp

text \<open>Substituting a pattern that occurs determines what was substituted: the number of occurrences gives the length, the first one the text.\<close>

fun pieces :: "string \<Rightarrow> string \<Rightarrow> nat" where
  "pieces pat [] = 0"
| "pieces pat (c # s) =
     (if take (length pat) (c # s) = pat \<and> pat \<noteq> [] then Suc (pieces pat (drop (length pat) (c # s))) else pieces pat s)"

lemma replace_all_length: "length (replace_all pat by s) + pieces pat s * length pat = length s + pieces pat s * length by"
proof (induction pat "by" s rule: replace_all.induct)
  case (2 pat "by" c s)
  show ?case
  proof (cases "take (length pat) (c # s) = pat \<and> pat \<noteq> []")
    case True
    then have "length pat \<le> length (c # s)" by (metis nat_le_linear take_all)
    then have "length (drop (length pat) (c # s)) + length pat = length (c # s)" by simp
    with 2(1) [OF True] True show ?thesis by simp
  next
    case False
    with 2(2) [OF False] show ?thesis by auto
  qed
qed simp

lemma pieces_pos: "contains pat s \<Longrightarrow> pat \<noteq> [] \<Longrightarrow> 0 < pieces pat s"
  by (induction pat s rule: pieces.induct) auto

lemma replace_all_inj:
  "0 < pieces pat s \<Longrightarrow> replace_all pat a s = replace_all pat b s \<Longrightarrow> length a = length b \<Longrightarrow> a = b"
  by (induction pat s rule: pieces.induct) (auto split: if_splits)

lemma replace_all_eq_iff:
  assumes "contains pat s" and "pat \<noteq> []"
  shows "replace_all pat a s = replace_all pat b s \<longleftrightarrow> a = b"
proof
  assume eq: "replace_all pat a s = replace_all pat b s"
  have pos: "0 < pieces pat s" using pieces_pos assms by blast
  have "length (replace_all pat a s) = length (replace_all pat b s)" by (simp add: eq)
  with replace_all_length [of pat a s] replace_all_length [of pat b s]
  have "pieces pat s * length a = pieces pat s * length b" by linarith
  with pos have "length a = length b" by simp
  with replace_all_inj [OF pos eq] show "a = b" by blast
qed simp

section \<open>Lakes are kept apart\<close>

text \<open>A lake is that of an organization, planned with it, or that of one of its further datasets.\<close>

type_synonym lake = "string \<times> string option"

definition valid_lake :: "lake \<Rightarrow> bool" where
  "valid_lake l \<longleftrightarrow> valid_org_name (fst l) \<and> pred_option valid_org_name (snd l)"

definition plan_for :: "profile \<Rightarrow> lake \<Rightarrow> lake_plan" where
  "plan_for f l = (case snd l of None \<Rightarrow> plan_org f (fst l) | Some d \<Rightarrow> plan_dataset f (fst l) d)"

abbreviation plan_key :: "lake_plan \<Rightarrow> string \<Rightarrow> json option" where
  "plan_key p k \<equiv> json_get (env_json p) k"

definition catalog_of :: "lake_plan \<Rightarrow> json option \<times> json option" where
  "catalog_of p = (plan_key p ''ER_LAKE_CATALOG'', plan_key p ''ER_LAKE_CATALOG_SCHEMA'')"

definition inside :: "string \<Rightarrow> string \<Rightarrow> bool" where
  "inside p q \<longleftrightarrow> p = q \<or> take (length q + 1) p = q @ ''/''"

lemma insideD: "inside p q \<Longrightarrow> \<exists>r. p = q @ r \<and> (r = [] \<or> hd r = CHR ''/'')"
  unfolding inside_def using append_take_drop_id [of "length q + 1" p] by (metis append.assoc append.right_neutral append_Cons list.sel(1))

definition root_prefix :: "profile \<Rightarrow> string" where
  "root_prefix f = (if pf_root f = [] \<or> last (pf_root f) = CHR ''/'' then pf_root f else pf_root f @ ''/'')"

definition lake_dir :: "lake \<Rightarrow> string" where
  "lake_dir l = fst l @ ''/'' @ (case snd l of None \<Rightarrow> [] | Some d \<Rightarrow> d @ ''/'')"

lemma path_join_name: "valid_org_name n \<Longrightarrow> path_join (pf_root f) n = root_prefix f @ n"
  using valid_org_name_chars [of n] by (cases n) (auto simp: path_join_def root_prefix_def)

lemma path_join_valid: "valid_org_name n \<Longrightarrow> CHR ''/'' \<notin> set q \<Longrightarrow> path_join (s @ n) q = s @ n @ ''/'' @ q"
  using valid_org_name_chars [of n] by (cases q) (auto simp: path_join_def dest: last_in_set)

lemma plan_dir: "valid_lake l \<Longrightarrow> lp_dir (plan_for f l) @ ''/'' = root_prefix f @ lake_dir l"
  using valid_org_name_chars
  by (auto simp: plan_for_def plan_org_def plan_dataset_def Let_def valid_lake_def path_join_name path_join_valid lake_dir_def
      split: option.splits provision_mode.splits prod.splits)

lemma path_join_deep: "CHR ''/'' \<notin> set q \<Longrightarrow> q \<noteq> [] \<Longrightarrow> n \<noteq> [] \<Longrightarrow> CHR ''/'' \<notin> set n \<Longrightarrow> path_join (s @ n) q = s @ n @ ''/'' @ q"
  by (cases q) (auto simp: path_join_def dest: last_in_set)

lemma plan_key_local:
  assumes "pf_mode f = LocalMode" and "valid_lake l"
  shows "plan_key (plan_for f l) ''ER_CONFIG_PATH'' = Some (JStr (root_prefix f @ lake_dir l @ ''config.yaml''))"
    and "plan_key (plan_for f l) ''ER_LAKE_CATALOG'' = Some (JStr (root_prefix f @ lake_dir l @ ''lake/catalog.ducklake''))"
    and "plan_key (plan_for f l) ''ER_LAKE_DATA_PATH'' = Some (JStr (root_prefix f @ lake_dir l @ ''lake/data''))"
proof -
  have dir: "path_join (lp_dir (plan_for f l)) q = root_prefix f @ lake_dir l @ q" if "CHR ''/'' \<notin> set q" "q \<noteq> []" for q
  proof -
    have "lp_dir (plan_for f l) \<noteq> [] \<and> last (lp_dir (plan_for f l)) \<noteq> CHR ''/''"
      using assms(2) valid_org_name_chars valid_org_name_last
      by (auto simp: plan_for_def plan_org_def plan_dataset_def Let_def valid_lake_def path_join_name path_join_valid last_append
          split: option.splits provision_mode.splits prod.splits)
    with that have "path_join (lp_dir (plan_for f l)) q = (lp_dir (plan_for f l) @ ''/'') @ q" by (cases q) (auto simp: path_join_def)
    then show ?thesis by (simp add: plan_dir [OF assms(2)])
  qed
  have lake: "path_join (root_prefix f @ lake_dir l @ ''lake'') q = root_prefix f @ lake_dir l @ ''lake/'' @ q" if "CHR ''/'' \<notin> set q" "q \<noteq> []" for q
    using path_join_deep [of q "''lake''" "root_prefix f @ lake_dir l"] that by simp
  have "lp_env (plan_for f l) = derived_env (path_join (lp_dir (plan_for f l)) ''config.yaml'')
      (path_join (path_join (lp_dir (plan_for f l)) ''lake'') ''catalog.ducklake'') (path_join (path_join (lp_dir (plan_for f l)) ''lake'') ''data'')
      (case snd l of None \<Rightarrow> pf_env_extra f | Some d \<Rightarrow> bmap_collect (map (\<lambda>(k, v). (k, substituted (fst l) d v)) (pf_env_extra f)))"
    using assms(1) by (simp add: plan_for_def plan_org_def plan_dataset_def Let_def split: option.splits)
  then show "plan_key (plan_for f l) ''ER_CONFIG_PATH'' = Some (JStr (root_prefix f @ lake_dir l @ ''config.yaml''))"
    and "plan_key (plan_for f l) ''ER_LAKE_CATALOG'' = Some (JStr (root_prefix f @ lake_dir l @ ''lake/catalog.ducklake''))"
    and "plan_key (plan_for f l) ''ER_LAKE_DATA_PATH'' = Some (JStr (root_prefix f @ lake_dir l @ ''lake/data''))"
    by (simp_all add: env_json_def derived_env_def dir lake)
qed

lemma lake_dir_apart:
  assumes "valid_lake l" and "valid_lake m" and "lake_dir l @ s = lake_dir m @ t"
  obtains "l = m" "s = t"
  | d where "fst l = fst m" "snd l = None" "snd m = Some d" "valid_org_name d" "s = d @ ''/'' @ t"
  | d where "fst l = fst m" "snd l = Some d" "snd m = None" "valid_org_name d" "t = d @ ''/'' @ s"
proof -
  have "fst l = fst m \<and> (case snd l of None \<Rightarrow> s | Some d \<Rightarrow> d @ ''/'' @ s) = (case snd m of None \<Rightarrow> t | Some d \<Rightarrow> d @ ''/'' @ t)"
    using assms same_component [of "CHR ''/''" "fst l" "fst m"] valid_org_name_chars
    by (auto simp: lake_dir_def valid_lake_def split: option.splits)
  then show ?thesis using that assms(1,2) same_component valid_org_name_chars
    by (cases l; cases m) (auto simp: valid_lake_def split: option.splits)
qed

lemma plan_key_postgres:
  assumes "pf_mode f = PostgresMode" and "map_of (pf_env_extra f) ''ER_LAKE_CATALOG_SCHEMA'' = None"
  shows "catalog_of (plan_for f l) = (Some (JStr (catalog_dsn (default_str (pf_maint_dsn f)) (tenant_database (fst l)))),
      map_option (\<lambda>d. JStr (dataset_schema d)) (snd l))"
    and "snd l = None \<Longrightarrow> plan_key (plan_for f l) ''ER_LAKE_DATA_PATH'' = Some (JStr (replace_all ''{org}'' (fst l) (default_str (pf_data_template f))))"
  using assms by (auto simp: plan_for_def plan_org_def plan_dataset_def Let_def catalog_of_def env_json_def derived_env_def split: option.splits)

text \<open>Two lakes of valid names, those of organizations and of their further datasets. In local mode they have different catalog files and different
  configuration files, and neither's data directory lies inside the other's. In Postgres mode two organizations get different data paths when the
  template names \<open>{org}\<close>, but the catalog is shared exactly by the lakes whose names agree up to the difference between a dash and an
  underscore.\<close>

lemma lakes_apart:
  assumes "valid_lake l" and "valid_lake m" and "l \<noteq> m" and "map_of (pf_env_extra f) ''ER_LAKE_CATALOG_SCHEMA'' = None"
  shows "case pf_mode f of
      LocalMode \<Rightarrow> catalog_of (plan_for f l) \<noteq> catalog_of (plan_for f m)
        \<and> plan_key (plan_for f l) ''ER_CONFIG_PATH'' \<noteq> plan_key (plan_for f m) ''ER_CONFIG_PATH''
        \<and> (\<exists>p q. plan_key (plan_for f l) ''ER_LAKE_DATA_PATH'' = Some (JStr p) \<and> plan_key (plan_for f m) ''ER_LAKE_DATA_PATH'' = Some (JStr q)
             \<and> \<not> inside p q)
    | PostgresMode \<Rightarrow>
        (catalog_of (plan_for f l) = catalog_of (plan_for f m) \<longleftrightarrow>
          map (\<lambda>c. if c = CHR ''-'' then CHR ''_'' else c) (fst l) = map (\<lambda>c. if c = CHR ''-'' then CHR ''_'' else c) (fst m)
          \<and> map_option (map (\<lambda>c. if c = CHR ''-'' then CHR ''_'' else c)) (snd l) = map_option (map (\<lambda>c. if c = CHR ''-'' then CHR ''_'' else c)) (snd m))
        \<and> (snd l = None \<and> snd m = None \<and> contains ''{org}'' (default_str (pf_data_template f)) \<longrightarrow>
             plan_key (plan_for f l) ''ER_LAKE_DATA_PATH'' \<noteq> plan_key (plan_for f m) ''ER_LAKE_DATA_PATH'')"
proof (cases "pf_mode f")
  case LocalMode
  note keys = plan_key_local [OF LocalMode assms(1)] plan_key_local [OF LocalMode assms(2)]
  have apart: "lake_dir l @ s = lake_dir m @ t \<Longrightarrow> False"
    if "\<And>d. valid_org_name d \<Longrightarrow> s \<noteq> d @ ''/'' @ t" "\<And>d. valid_org_name d \<Longrightarrow> t \<noteq> d @ ''/'' @ s" for s t
    by (erule lake_dir_apart [OF assms(1,2)]) (use that assms(3) in blast)+
  have far: "s \<noteq> d @ ''/'' @ s @ r" for s d r :: string using arg_cong [of s "d @ ''/'' @ s @ r" length] by auto
  have data: "\<not> inside (root_prefix f @ lake_dir l @ ''lake/data'') (root_prefix f @ lake_dir m @ ''lake/data'')"
  proof
    assume "inside (root_prefix f @ lake_dir l @ ''lake/data'') (root_prefix f @ lake_dir m @ ''lake/data'')"
    then obtain r where r: "lake_dir l @ ''lake/data'' = lake_dir m @ ''lake/data'' @ r" "r = [] \<or> hd r = CHR ''/''"
      by (auto dest!: insideD)
    show False
    proof (rule apart [OF _ _ r(1)])
      show "''lake/data'' \<noteq> d @ ''/'' @ ''lake/data'' @ r" for d by (rule far)
      show "''lake/data'' @ r \<noteq> d @ ''/'' @ ''lake/data''" if "valid_org_name d" for d
        using r(2) far [of "''lake/data''" d "[]"] same_component [of "CHR ''/''" "''lake''" d "''data'' @ r" "''lake/data''"] valid_org_name_chars [OF that]
        by auto
    qed
  qed
  have same: "lake_dir l @ s \<noteq> lake_dir m @ s" for s using apart [of s s] far [of s _ "[]"] by auto
  show ?thesis using LocalMode keys data same by (simp add: catalog_of_def)
next
  case PostgresMode
  note keys = plan_key_postgres [OF PostgresMode assms(4)]
  have f: "fold_identifier n = map (\<lambda>c. if c = CHR ''-'' then CHR ''_'' else c) n" if "valid_org_name n" for n using fold_valid that .
  have cat: "catalog_of (plan_for f l) = catalog_of (plan_for f m) \<longleftrightarrow>
      fold_identifier (fst l) = fold_identifier (fst m) \<and> map_option fold_identifier (snd l) = map_option fold_identifier (snd m)"
    by (cases "snd l"; cases "snd m") (auto simp: keys(1) tenant_database_def dataset_schema_def)
  have opt: "map_option fold_identifier (snd k) = map_option (map (\<lambda>c. if c = CHR ''-'' then CHR ''_'' else c)) (snd k)" if "valid_lake k" for k
    using that f by (cases "snd k") (auto simp: valid_lake_def)
  have org: "fold_identifier (fst k) = map (\<lambda>c. if c = CHR ''-'' then CHR ''_'' else c) (fst k)" if "valid_lake k" for k
    using that f by (simp add: valid_lake_def)
  have "plan_key (plan_for f l) ''ER_LAKE_DATA_PATH'' \<noteq> plan_key (plan_for f m) ''ER_LAKE_DATA_PATH''"
    if "snd l = None" "snd m = None" "contains ''{org}'' (default_str (pf_data_template f))"
    using keys(2) [of l] keys(2) [of m] that replace_all_eq_iff [OF that(3)] assms(3) by (auto simp: prod_eq_iff)
  with PostgresMode cat show ?thesis by (simp add: opt [OF assms(1)] opt [OF assms(2)] org [OF assms(1)] org [OF assms(2)])
qed

text \<open>The organizations \<open>a-b\<close> and \<open>a_b\<close> are put into one catalog.\<close>

definition sample_profile :: "provision_mode \<Rightarrow> profile" where
  "sample_profile mode = \<lparr>pf_mode = mode, pf_root = ''/srv'', pf_config_template = ''/etc/er.yaml'', pf_maint_dsn = Some ''postgresql://u:p@db:5432/postgres'',
     pf_data_template = Some ''s3://lake/{org}/'', pf_env_extra = []\<rparr>"

lemma lakes_apart_witness:
  "catalog_of (plan_for (sample_profile PostgresMode) (''a-b'', None)) = catalog_of (plan_for (sample_profile PostgresMode) (''a_b'', None))"
proof -
  have v: "valid_lake (''a-b'', None)" "valid_lake (''a_b'', None)" unfolding valid_lake_def by (simp_all add: valid_org_name_def lower_letter_def ascii_digit_def less_eq_char_def)
  show ?thesis using lakes_apart [OF v, of "sample_profile PostgresMode"] by (simp add: sample_profile_def)
qed

end
