(* ===== verification/Registry.thy ===== *)
theory Registry
  imports JobApi Provision
begin

text \<open>
  The tenant registry: organizations, their datasets, configuration versions, matching models and schedules, with the statements of
  \<open>er-entities/src/org.rs\<close>, \<open>dataset.rs\<close>, \<open>config_version.rs\<close>, \<open>matching_model.rs\<close> and \<open>schedule.rs\<close>, the functions of \<open>er-server/src/pg.rs\<close> and
  \<open>fixups.rs\<close> over them and the handlers of \<open>lib.rs\<close>. A handler is a function of the state that answers or refuses and, as its statements
  are not in one transaction, leaves what it did before a refusal. A constraint is checked on the table a statement leaves.
  The parser and the checks of a configuration (crate \<open>er-config\<close>, \<open>config_check.rs\<close>), the model parser and the file system are
  parameters, collected in the record of a call.
\<close>

section \<open>State\<close>

datatype version_state = DraftVersion | Published

record config_version =
  cv_id :: string
  cv_org_id :: string
  cv_dataset_id :: string
  cv_version :: int
  cv_yaml :: string
  cv_config_hash :: string
  cv_state :: version_state
  cv_tier :: "string option"
  cv_created_by :: string
  cv_created_at :: int
  cv_published_at :: "int option"
  cv_updated_at :: int

record schedule =
  sc_id :: string
  sc_org_id :: string
  sc_dataset_id :: string
  sc_kind :: string
  sc_params :: json
  sc_cron :: string
  sc_enabled :: bool
  sc_source :: string
  sc_last_enqueued_at :: "int option"
  sc_created_at :: int
  sc_updated_at :: int

text \<open>Without Postgres, jobs are kept in memory with a counter for their ids.\<close>

record registry =
  rg_jobs :: job_db
  rg_configs :: "config_version list"
  rg_models :: "matching_model list"
  rg_schedules :: "schedule list"
  rg_files :: "string \<Rightarrow> string option"
  rg_memory :: "nat \<times> job list"

abbreviation orgs_of :: "registry \<Rightarrow> org_row list" where "orgs_of db \<equiv> ac_orgs (hk_access (jd_hooks (rg_jobs db)))"
abbreviation access_of :: "registry \<Rightarrow> access_db" where "access_of db \<equiv> hk_access (jd_hooks (rg_jobs db))"
abbreviation datasets_of :: "registry \<Rightarrow> dataset_row list" where "datasets_of db \<equiv> hk_datasets (jd_hooks (rg_jobs db))"
abbreviation jobs_of :: "registry \<Rightarrow> job list" where "jobs_of db \<equiv> jobs (jd_ledger (rg_jobs db))"

definition put_hooks :: "hook_db \<Rightarrow> registry \<Rightarrow> registry" where
  "put_hooks h db = db\<lparr>rg_jobs := (rg_jobs db)\<lparr>jd_hooks := h\<rparr>\<rparr>"

definition put_access :: "access_db \<Rightarrow> registry \<Rightarrow> registry" where
  "put_access a db = put_hooks ((jd_hooks (rg_jobs db))\<lparr>hk_access := a\<rparr>) db"

definition put_orgs :: "org_row list \<Rightarrow> registry \<Rightarrow> registry" where
  "put_orgs gs db = put_access ((access_of db)\<lparr>ac_orgs := gs\<rparr>) db"

definition put_datasets :: "dataset_row list \<Rightarrow> registry \<Rightarrow> registry" where
  "put_datasets ds db = put_hooks ((jd_hooks (rg_jobs db))\<lparr>hk_datasets := ds\<rparr>) db"

definition put_job_rows :: "job list \<Rightarrow> registry \<Rightarrow> registry" where
  "put_job_rows js db = db\<lparr>rg_jobs := put_jobs js (rg_jobs db)\<rparr>"

section \<open>What a call meets\<close>

text \<open>The parts of a parsed configuration the registry looks at: its top-level blocks in their serialized form, the names of its models and segments, its entity type
  and the cadence of its correction pass.\<close>

datatype entity_kind = Person | Account

definition entity_str :: "entity_kind \<Rightarrow> string" where
  "entity_str t = (case t of Person \<Rightarrow> ''person'' | Account \<Rightarrow> ''account'')"

record config =
  cf_blocks :: "(string, json) bmap"
  cf_models :: "string list"
  cf_segments :: "string list"
  cf_entity_type :: entity_kind
  cf_cadence :: string

datatype link = NoPostgres | Unreachable string | Connected

record call_env =
  ce_now :: int
  ce_link :: link
  ce_mint :: "nat \<Rightarrow> string"
  ce_random :: "nat list"
  ce_sha256 :: "string \<Rightarrow> nat list"
  ce_pg_text :: "sql_error \<Rightarrow> string"
  ce_load_config :: "string \<Rightarrow> string + config"
  ce_config_hash :: "config \<Rightarrow> string"
  ce_problems :: "config \<Rightarrow> string list"
  ce_model_loads :: "string \<Rightarrow> string + unit"
  ce_mkdir :: "string \<Rightarrow> string option"
  ce_read_error :: "string \<Rightarrow> string"
  ce_write :: "string \<Rightarrow> string option"

type_synonym 'a handler = "registry \<Rightarrow> (http_error + 'a) \<times> registry"

definition reply :: "'a \<Rightarrow> 'a handler" where "reply x db = (Inr x, db)"

definition refuse :: "http_error \<Rightarrow> 'a handler" where "refuse e db = (Inl e, db)"

definition andThen :: "'a handler \<Rightarrow> ('a \<Rightarrow> 'b handler) \<Rightarrow> 'b handler" where
  "andThen m k db = (case m db of (Inl e, db') \<Rightarrow> (Inl e, db') | (Inr x, db') \<Rightarrow> k x db')"

definition ask :: "(registry \<Rightarrow> http_error + 'a) \<Rightarrow> 'a handler" where "ask f db = (f db, db)"

definition change :: "(registry \<Rightarrow> registry) \<Rightarrow> unit handler" where "change f db = (Inr (), f db)"

text \<open>A statement that is refused answers with its error and changes nothing.\<close>

definition statement :: "call_env \<Rightarrow> (registry \<Rightarrow> sql_error + ('a \<times> registry)) \<Rightarrow> 'a handler" where
  "statement e f db = (case f db of Inl x \<Rightarrow> (Inl (pg_err (ce_pg_text e) x), db) | Inr (y, db') \<Rightarrow> (Inr y, db'))"

definition with_pg :: "call_env \<Rightarrow> string \<Rightarrow> 'a handler \<Rightarrow> 'a handler" where
  "with_pg e unavailable h =
     (case ce_link e of
        NoPostgres \<Rightarrow> refuse (501, unavailable)
      | Unreachable m \<Rightarrow> refuse (500, ''db connect: '' @ m)
      | Connected \<Rightarrow> h)"

section \<open>Statements on organizations and datasets\<close>

definition upsert_byo :: "call_env \<Rightarrow> string \<Rightarrow> string \<Rightarrow> string \<Rightarrow> json \<Rightarrow> string option \<Rightarrow> string option \<Rightarrow> string option
    \<Rightarrow> registry \<Rightarrow> sql_error + (unit \<times> registry)" where
  "upsert_byo e i name config_path env drop_root bucket prefix db =
     (if name \<in> og_name ` set (orgs_of db)
      then Inr ((), put_orgs (map (\<lambda>g. if og_name g = name
             then g\<lparr>og_config_path := config_path, og_env := env, og_drop_root := drop_root, og_s3_ingest_bucket := bucket,
                    og_s3_ingest_prefix := prefix, og_updated_at := ce_now e\<rparr> else g) (orgs_of db)) db)
      else if i \<in> og_id ` set (orgs_of db) then Inl UniqueViolation
      else Inr ((), put_orgs (orgs_of db @ [\<lparr>og_id = i, og_name = name, og_config_path = config_path, og_env = env, og_drop_root = drop_root,
             og_s3_ingest_bucket = bucket, og_s3_ingest_prefix = prefix, og_active_config_version = None, og_state = Active,
             og_max_concurrent_jobs = None, og_created_at = ce_now e, og_updated_at = ce_now e\<rparr>]) db))"

definition set_org_state :: "call_env \<Rightarrow> string \<Rightarrow> tenant_state \<Rightarrow> tenant_state \<Rightarrow> registry \<Rightarrow> bool \<times> registry" where
  "set_org_state e name new expected db =
     (let hit = (\<lambda>g. og_name g = name \<and> og_state g = expected) in
      (length (filter hit (orgs_of db)) = 1,
       put_orgs (map (\<lambda>g. if hit g then g\<lparr>og_state := new, og_updated_at := ce_now e\<rparr> else g) (orgs_of db)) db))"

definition set_org_active_config :: "call_env \<Rightarrow> int \<Rightarrow> string \<Rightarrow> registry \<Rightarrow> registry" where
  "set_org_active_config e version name db =
     put_orgs (map (\<lambda>g. if og_name g = name then g\<lparr>og_active_config_version := Some version, og_updated_at := ce_now e\<rparr> else g) (orgs_of db)) db"

text \<open>The \<open>||\<close> of \<open>jsonb\<close> on two objects: the right one wins.\<close>

fun json_concat :: "json \<Rightarrow> json \<Rightarrow> json" where
  "json_concat (JObj a) (JObj b) = JObj (fold (\<lambda>(k, v). bmap_insert k v) b a)"
| "json_concat a b = b"

definition merge_org_env :: "call_env \<Rightarrow> json \<Rightarrow> string \<Rightarrow> registry \<Rightarrow> registry" where
  "merge_org_env e updates name db =
     put_orgs (map (\<lambda>g. if og_name g = name then g\<lparr>og_env := json_concat (og_env g) updates, og_updated_at := ce_now e\<rparr> else g) (orgs_of db)) db"

definition merge_dataset_envs :: "call_env \<Rightarrow> json \<Rightarrow> string \<Rightarrow> registry \<Rightarrow> registry" where
  "merge_dataset_envs e patch org_id db =
     put_datasets (map (\<lambda>d. if dt_org_id d = org_id then d\<lparr>dt_env := json_concat (dt_env d) patch, dt_updated_at := ce_now e\<rparr> else d) (datasets_of db)) db"

definition ensure_dataset :: "call_env \<Rightarrow> string \<Rightarrow> string \<Rightarrow> string \<Rightarrow> string option \<Rightarrow> string \<Rightarrow> string \<Rightarrow> json \<Rightarrow> string option \<Rightarrow> string option
    \<Rightarrow> string option \<Rightarrow> int option \<Rightarrow> tenant_state \<Rightarrow> registry \<Rightarrow> sql_error + (nat \<times> registry)" where
  "ensure_dataset e i org_id name display_name entity_type config_path env drop_root bucket prefix version state db =
     (if entity_type \<notin> {''person'', ''account''} then Inl CheckViolation
      else if (org_id, name) \<in> (\<lambda>d. (dt_org_id d, dt_name d)) ` set (datasets_of db) then Inr (0, db)
      else if i \<in> dt_id ` set (datasets_of db) then Inl UniqueViolation
      else if org_id \<notin> og_id ` set (orgs_of db) then Inl ReferenceViolation
      else Inr (1, put_datasets (datasets_of db @ [\<lparr>dt_id = i, dt_org_id = org_id, dt_name = name, dt_display_name = display_name,
             dt_entity_type = entity_type, dt_config_path = config_path, dt_env = env, dt_drop_root = drop_root,
             dt_s3_ingest_bucket = bucket, dt_s3_ingest_prefix = prefix, dt_active_config_version = version, dt_state = state,
             dt_created_at = ce_now e, dt_updated_at = ce_now e\<rparr>]) db))"

definition set_dataset_state :: "call_env \<Rightarrow> string \<Rightarrow> string \<Rightarrow> tenant_state \<Rightarrow> tenant_state \<Rightarrow> registry \<Rightarrow> bool \<times> registry" where
  "set_dataset_state e org_id name new expected db =
     (let hit = (\<lambda>d. dt_org_id d = org_id \<and> dt_name d = name \<and> dt_state d = expected) in
      (length (filter hit (datasets_of db)) = 1,
       put_datasets (map (\<lambda>d. if hit d then d\<lparr>dt_state := new, dt_updated_at := ce_now e\<rparr> else d) (datasets_of db)) db))"

definition set_dataset_display_name :: "call_env \<Rightarrow> string \<Rightarrow> string \<Rightarrow> string option \<Rightarrow> registry \<Rightarrow> registry" where
  "set_dataset_display_name e org_id name display_name db =
     put_datasets (map (\<lambda>d. if dt_org_id d = org_id \<and> dt_name d = name then d\<lparr>dt_display_name := display_name, dt_updated_at := ce_now e\<rparr> else d)
       (datasets_of db)) db"

definition set_dataset_active_config :: "call_env \<Rightarrow> int \<Rightarrow> string \<Rightarrow> registry \<Rightarrow> registry" where
  "set_dataset_active_config e version dataset_id db =
     put_datasets (map (\<lambda>d. if dt_id d = dataset_id then d\<lparr>dt_active_config_version := Some version, dt_updated_at := ce_now e\<rparr> else d) (datasets_of db)) db"

definition list_datasets :: "string \<Rightarrow> registry \<Rightarrow> dataset_row list" where
  "list_datasets org_id db = sort_key dt_name (filter (\<lambda>d. dt_org_id d = org_id) (datasets_of db))"

definition default_dataset_id :: "string \<Rightarrow> registry \<Rightarrow> string option" where
  "default_dataset_id org_id db = map_option dt_id (get_dataset org_id ''default'' (rg_jobs db))"

section \<open>Statements on configuration versions\<close>

definition versions_of :: "string \<Rightarrow> registry \<Rightarrow> config_version list" where
  "versions_of dataset_id db = filter (\<lambda>v. cv_dataset_id v = dataset_id) (rg_configs db)"

definition draft :: "call_env \<Rightarrow> string \<Rightarrow> string \<Rightarrow> string option \<Rightarrow> string \<Rightarrow> string \<Rightarrow> string \<Rightarrow> registry \<Rightarrow> sql_error + (int \<times> registry)" where
  "draft e i org_id dataset_id yaml hash created_by db =
     (case dataset_id of
        None \<Rightarrow> Inl NullViolation
      | Some ds \<Rightarrow>
          (let version = fold max (map cv_version (versions_of ds db)) 0 + 1 in
           if i \<in> cv_id ` set (rg_configs db) then Inl UniqueViolation
           else if org_id \<notin> og_id ` set (orgs_of db) \<or> ds \<notin> dt_id ` set (datasets_of db) then Inl ReferenceViolation
           else Inr (version, db\<lparr>rg_configs := rg_configs db @ [\<lparr>cv_id = i, cv_org_id = org_id, cv_dataset_id = ds, cv_version = version,
                  cv_yaml = yaml, cv_config_hash = hash, cv_state = DraftVersion, cv_tier = None, cv_created_by = created_by,
                  cv_created_at = ce_now e, cv_published_at = None, cv_updated_at = ce_now e\<rparr>]\<rparr>)))"

definition get_config_version :: "string \<Rightarrow> int \<Rightarrow> registry \<Rightarrow> config_version option" where
  "get_config_version dataset_id version db = find (\<lambda>v. cv_version v = version) (versions_of dataset_id db)"

definition list_config_versions :: "string \<Rightarrow> registry \<Rightarrow> config_version list" where
  "list_config_versions dataset_id db = rev (sort_key cv_version (versions_of dataset_id db))"

definition mark_published :: "call_env \<Rightarrow> string option \<Rightarrow> string \<Rightarrow> int \<Rightarrow> registry \<Rightarrow> registry" where
  "mark_published e tier dataset_id version db =
     db\<lparr>rg_configs := map (\<lambda>v. if cv_dataset_id v = dataset_id \<and> cv_version v = version
            then v\<lparr>cv_state := Published, cv_tier := tier, cv_published_at := Some (ce_now e), cv_updated_at := ce_now e\<rparr> else v) (rg_configs db)\<rparr>"

definition publish_version :: "call_env \<Rightarrow> string \<Rightarrow> string \<Rightarrow> int \<Rightarrow> string option \<Rightarrow> registry \<Rightarrow> registry" where
  "publish_version e org_name dataset_id version tier db =
     set_org_active_config e version org_name (set_dataset_active_config e version dataset_id (mark_published e tier dataset_id version db))"

section \<open>Statements on models and schedules\<close>

definition models_ok :: "matching_model list \<Rightarrow> bool" where
  "models_ok ms \<longleftrightarrow> distinct (map mm_id ms) \<and> distinct (map (\<lambda>m. (mm_dataset_id m, mm_name m, mm_version m)) ms)
     \<and> distinct (map (\<lambda>m. (mm_org_id m, mm_name m, mm_version m)) ms)
     \<and> distinct (map (\<lambda>m. (mm_org_id m, mm_name m)) (filter (\<lambda>m. mm_state m = ''active'') ms))"

definition create_model :: "call_env \<Rightarrow> string \<Rightarrow> string \<Rightarrow> string option \<Rightarrow> string \<Rightarrow> string \<Rightarrow> string \<Rightarrow> string \<Rightarrow> string option \<Rightarrow> json \<Rightarrow> string
    \<Rightarrow> registry \<Rightarrow> sql_error + (matching_model \<times> registry)" where
  "create_model e i org_id dataset_id name entity_type model_json label tf_snapshot_id provenance created_by db =
     (case dataset_id of
        None \<Rightarrow> Inl NullViolation
      | Some ds \<Rightarrow>
          (let row = \<lparr>mm_id = i, mm_org_id = org_id, mm_dataset_id = ds, mm_name = name,
                 mm_version = fold max (map mm_version (filter (\<lambda>m. mm_dataset_id m = ds \<and> mm_name m = name) (rg_models db))) 0 + 1,
                 mm_entity_type = entity_type, mm_model_json = model_json, mm_model_hash = hash_secret (ce_sha256 e) model_json,
                 mm_model_version_label = label, mm_tf_snapshot_id = tf_snapshot_id, mm_state = ''draft'', mm_provenance = provenance,
                 mm_created_by = created_by, mm_activated_at = None, mm_created_at = ce_now e, mm_updated_at = ce_now e\<rparr> in
           if entity_type \<notin> {''person'', ''account''} then Inl CheckViolation
           else if \<not> models_ok (rg_models db @ [row]) then Inl UniqueViolation
           else if org_id \<notin> og_id ` set (orgs_of db) \<or> ds \<notin> dt_id ` set (datasets_of db) then Inl ReferenceViolation
           else Inr (row, db\<lparr>rg_models := rg_models db @ [row]\<rparr>)))"

definition list_models :: "string \<Rightarrow> registry \<Rightarrow> matching_model list" where
  "list_models dataset_id db =
     sort_key mm_name (rev (sort_key mm_version (filter (\<lambda>m. mm_dataset_id m = dataset_id) (rg_models db))))"

definition active_models_of :: "string \<Rightarrow> registry \<Rightarrow> matching_model list" where
  "active_models_of dataset_id db = sort_key mm_name (filter (\<lambda>m. mm_dataset_id m = dataset_id \<and> mm_state m = ''active'') (rg_models db))"

definition model_version :: "string \<Rightarrow> string \<Rightarrow> int \<Rightarrow> registry \<Rightarrow> matching_model option" where
  "model_version dataset_id name version db =
     find (\<lambda>m. mm_dataset_id m = dataset_id \<and> mm_name m = name \<and> mm_version m = version) (rg_models db)"

definition activate_model :: "call_env \<Rightarrow> string \<Rightarrow> string \<Rightarrow> registry \<Rightarrow> sql_error + (unit \<times> registry)" where
  "activate_model e model_id dataset_id db =
     (let names = map mm_name (filter (\<lambda>m. mm_id m = model_id \<and> mm_dataset_id m = dataset_id) (rg_models db));
          hit = (\<lambda>m. mm_dataset_id m = dataset_id \<and> (mm_id m = model_id \<or> mm_state m = ''active'' \<and> mm_name m \<in> set names));
          ms = map (\<lambda>m. if hit m then m\<lparr>mm_state := (if mm_id m = model_id then ''active'' else ''archived''),
                 mm_activated_at := (if mm_id m = model_id then Some (ce_now e) else mm_activated_at m), mm_updated_at := ce_now e\<rparr> else m) (rg_models db) in
      if models_ok ms then Inr ((), db\<lparr>rg_models := ms\<rparr>) else Inl UniqueViolation)"

definition CORRECTION_PASS_SOURCE :: string where "CORRECTION_PASS_SOURCE = ''config:correction_pass''"

definition schedules_ok :: "schedule list \<Rightarrow> bool" where
  "schedules_ok ss \<longleftrightarrow> distinct (map sc_id ss)
     \<and> distinct (map sc_org_id (filter (\<lambda>s. sc_source s = ''config:correction_pass'') ss))
     \<and> distinct (map sc_org_id (filter (\<lambda>s. sc_source s = ''system:lake_maintain'') ss))"

definition new_schedule :: "call_env \<Rightarrow> string \<Rightarrow> string \<Rightarrow> string \<Rightarrow> string \<Rightarrow> json \<Rightarrow> string \<Rightarrow> string \<Rightarrow> schedule" where
  "new_schedule e i org_id dataset_id kind params cron source =
     \<lparr>sc_id = i, sc_org_id = org_id, sc_dataset_id = dataset_id, sc_kind = kind, sc_params = params, sc_cron = cron, sc_enabled = True,
      sc_source = source, sc_last_enqueued_at = None, sc_created_at = ce_now e, sc_updated_at = ce_now e\<rparr>"

definition insert_schedule :: "schedule \<Rightarrow> registry \<Rightarrow> sql_error + (unit \<times> registry)" where
  "insert_schedule row db =
     (if \<not> schedules_ok (rg_schedules db @ [row]) then Inl UniqueViolation
      else if sc_org_id row \<notin> og_id ` set (orgs_of db) \<or> sc_dataset_id row \<notin> dt_id ` set (datasets_of db) then Inl ReferenceViolation
      else Inr ((), db\<lparr>rg_schedules := rg_schedules db @ [row]\<rparr>))"

definition create_schedule_sql :: "call_env \<Rightarrow> string \<Rightarrow> string \<Rightarrow> string option \<Rightarrow> string \<Rightarrow> json \<Rightarrow> string \<Rightarrow> registry \<Rightarrow> sql_error + (unit \<times> registry)" where
  "create_schedule_sql e i org_id dataset_id kind params cron db =
     (case dataset_id of None \<Rightarrow> Inl NullViolation | Some ds \<Rightarrow> insert_schedule (new_schedule e i org_id ds kind params cron ''api'') db)"

definition ensure_config_owned :: "call_env \<Rightarrow> string \<Rightarrow> string \<Rightarrow> string option \<Rightarrow> string \<Rightarrow> string \<Rightarrow> string \<Rightarrow> registry \<Rightarrow> sql_error + (unit \<times> registry)" where
  "ensure_config_owned e i org_id dataset_id kind cron source db =
     (case dataset_id of
        None \<Rightarrow> Inl NullViolation
      | Some ds \<Rightarrow>
          if list_ex (\<lambda>s. sc_dataset_id s = ds \<and> sc_source s = source) (rg_schedules db) then Inr ((), db)
          else insert_schedule (new_schedule e i org_id ds kind (JObj []) cron source) db)"

definition set_config_cron :: "call_env \<Rightarrow> string \<Rightarrow> string \<Rightarrow> string \<Rightarrow> registry \<Rightarrow> registry" where
  "set_config_cron e cron dataset_id source db =
     db\<lparr>rg_schedules := map (\<lambda>s. if sc_dataset_id s = dataset_id \<and> sc_source s = source \<and> sc_cron s \<noteq> cron
            then s\<lparr>sc_cron := cron, sc_updated_at := ce_now e\<rparr> else s) (rg_schedules db)\<rparr>"

definition ensure_correction_schedule :: "call_env \<Rightarrow> string \<Rightarrow> string \<Rightarrow> string option \<Rightarrow> string \<Rightarrow> registry \<Rightarrow> sql_error + (unit \<times> registry)" where
  "ensure_correction_schedule e i org_id dataset_id cadence db =
     (let db1 = set_config_cron e cadence (case dataset_id of Some ds \<Rightarrow> ds | None \<Rightarrow> org_id) CORRECTION_PASS_SOURCE db in
      ensure_config_owned e i org_id dataset_id ''correct'' cadence CORRECTION_PASS_SOURCE db1)"

definition list_schedules :: "string \<Rightarrow> registry \<Rightarrow> schedule list" where
  "list_schedules dataset_id db = sort_key sc_created_at (filter (\<lambda>s. sc_dataset_id s = dataset_id) (rg_schedules db))"

definition due_schedules :: "registry \<Rightarrow> schedule list" where
  "due_schedules db = sort_key sc_id (filter (\<lambda>s. sc_enabled s
     \<and> list_ex (\<lambda>g. og_id g = sc_org_id s \<and> og_state g = Active) (orgs_of db)) (rg_schedules db))"

definition mark_schedule_enqueued :: "int \<Rightarrow> string \<Rightarrow> registry \<Rightarrow> registry" where
  "mark_schedule_enqueued now i db =
     db\<lparr>rg_schedules := map (\<lambda>s. if sc_id s = i then s\<lparr>sc_last_enqueued_at := Some now, sc_updated_at := now\<rparr> else s) (rg_schedules db)\<rparr>"

definition set_schedule_enabled :: "call_env \<Rightarrow> string \<Rightarrow> string \<Rightarrow> bool \<Rightarrow> registry \<Rightarrow> bool \<times> registry" where
  "set_schedule_enabled e dataset_id i enabled db =
     (let hit = (\<lambda>s. sc_id s = i \<and> sc_dataset_id s = dataset_id \<and> sc_source s = ''api'') in
      (length (filter hit (rg_schedules db)) = 1,
       db\<lparr>rg_schedules := map (\<lambda>s. if hit s then s\<lparr>sc_enabled := enabled, sc_updated_at := ce_now e\<rparr> else s) (rg_schedules db)\<rparr>))"

definition delete_schedule_sql :: "string \<Rightarrow> string \<Rightarrow> registry \<Rightarrow> bool \<times> registry" where
  "delete_schedule_sql dataset_id i db =
     (let hit = (\<lambda>s. sc_dataset_id s = dataset_id \<and> sc_id s = i) in
      (length (filter hit (rg_schedules db)) = 1, db\<lparr>rg_schedules := filter (\<lambda>s. \<not> hit s) (rg_schedules db)\<rparr>))"

end
