(* ===== verification/RegistryApi.thy ===== *)
theory RegistryApi
  imports Registry
begin

text \<open>
  The handlers of \<open>er-server/src/lib.rs\<close> over the tenant registry: creating and provisioning organizations and datasets, suspending and
  resuming them, drafting and publishing configuration versions, minting and activating models, schedules, and accepting jobs; and the
  convergence of default datasets from \<open>fixups.rs\<close>. Response bodies are represented by the values they are built from.
\<close>

section \<open>Shared steps\<close>

definition org_h :: "string \<Rightarrow> org_row handler" where
  "org_h org = ask (\<lambda>db. org_or_404 org (access_of db))"

definition dataset_h :: "org_row \<Rightarrow> string \<Rightarrow> dataset_row handler" where
  "dataset_h g ds = ask (\<lambda>db. dataset_or_404 g ds (rg_jobs db))"

definition guarded :: "http_error + unit \<Rightarrow> 'a handler \<Rightarrow> 'a handler" where
  "guarded allowed h = (case allowed of Inl e \<Rightarrow> refuse e | Inr _ \<Rightarrow> h)"

definition audit_h :: "principal \<Rightarrow> string \<Rightarrow> string option \<Rightarrow> string \<Rightarrow> json \<Rightarrow> unit handler" where
  "audit_h p org ds action info = change (\<lambda>db. put_access (audit (pr_actor p) (Some org) ds action info (access_of db)) db)"

text \<open>The missing row of \<open>enqueue\<close> is a panic no table reaches (lemma \<open>enqueue_never_panics\<close>).\<close>

definition enqueue_h :: "call_env \<Rightarrow> nat \<Rightarrow> string \<Rightarrow> string option \<Rightarrow> string \<Rightarrow> int \<Rightarrow> string option \<Rightarrow> json option \<Rightarrow> string option \<Rightarrow> string option \<Rightarrow> job handler" where
  "enqueue_h e k org_id ds kind priority key params created_by trace_context db =
     (case enqueue (ce_now e) (ce_mint e k) org_id ds kind priority key params created_by trace_context (jobs_of db) of
        Ret (Inr (j, js)) \<Rightarrow> (Inr j, put_job_rows js db)
      | Ret (Inl x) \<Rightarrow> (Inl (pg_err (ce_pg_text e) x), db)
      | Panic \<Rightarrow> (Inl (500, ''panicked''), db))"

definition with_dataset :: "call_env \<Rightarrow> string \<Rightarrow> string \<Rightarrow> string \<Rightarrow> (org_row \<Rightarrow> dataset_row \<Rightarrow> 'a handler) \<Rightarrow> 'a handler" where
  "with_dataset e unavailable org ds run =
     with_pg e unavailable (andThen (org_h org) (\<lambda>g. andThen (dataset_h g ds) (run g)))"

definition tenant_state_str :: "tenant_state \<Rightarrow> string" where
  "tenant_state_str s = (case s of Provisioning \<Rightarrow> ''provisioning'' | Active \<Rightarrow> ''active'' | Suspended \<Rightarrow> ''suspended'' | Purging \<Rightarrow> ''purging'')"

definition refuse_unless_active :: "org_row \<Rightarrow> string \<Rightarrow> http_error + unit" where
  "refuse_unless_active g what =
     (if og_state g = Active then Inr ()
      else Inl (409, ''org '' @ quoted (og_name g) @ '' is '' @ tenant_state_str (og_state g) @ ''; '' @ what @ '' are accepted only when active''))"

definition refuse_unless_active_dataset :: "org_row \<Rightarrow> dataset_row \<Rightarrow> string \<Rightarrow> http_error + unit" where
  "refuse_unless_active_dataset g d what =
     (case refuse_unless_active g what of
        Inl e \<Rightarrow> Inl e
      | Inr _ \<Rightarrow>
          if dt_state d = Active then Inr ()
          else Inl (409, ''dataset '' @ quoted (dt_name d) @ '' is '' @ tenant_state_str (dt_state d) @ ''; '' @ what @ '' are accepted only when active''))"

section \<open>The default dataset\<close>

text \<open>\<open>query_opt\<close> of the client fails when the query gives more than one row.\<close>

datatype converge_error = RowCount | ConvergePg sql_error

definition query_opt :: "'a list \<Rightarrow> converge_error + 'a option" where
  "query_opt rows = (case rows of [] \<Rightarrow> Inr None | [r] \<Rightarrow> Inr (Some r) | _ \<Rightarrow> Inl RowCount)"

definition default_entity_type :: "call_env \<Rightarrow> org_row \<Rightarrow> registry \<Rightarrow> converge_error + string" where
  "default_entity_type e g db =
     (case og_active_config_version g of
        None \<Rightarrow> Inr ''person''
      | Some version \<Rightarrow>
          (case query_opt (filter (\<lambda>v. cv_org_id v = og_id g \<and> cv_version v = version) (rg_configs db)) of
             Inl x \<Rightarrow> Inl x
           | Inr None \<Rightarrow> Inr ''person''
           | Inr (Some v) \<Rightarrow> (case ce_load_config e (cv_yaml v) of Inl _ \<Rightarrow> Inr ''person'' | Inr c \<Rightarrow> Inr (entity_str (cf_entity_type c)))))"

definition ensure_default_dataset_for :: "call_env \<Rightarrow> string \<Rightarrow> org_row \<Rightarrow> registry \<Rightarrow> converge_error + registry" where
  "ensure_default_dataset_for e i g db =
     (case default_entity_type e g db of
        Inl x \<Rightarrow> Inl x
      | Inr entity_type \<Rightarrow>
          (case ensure_dataset e i (og_id g) ''default'' None entity_type (og_config_path g) (og_env g) (og_drop_root g) (og_s3_ingest_bucket g)
                  (og_s3_ingest_prefix g) (og_active_config_version g) (og_state g) db of
             Inl x \<Rightarrow> Inl (ConvergePg x)
           | Inr (_, db') \<Rightarrow> Inr db'))"

definition ensure_default_dataset_by_name :: "call_env \<Rightarrow> string \<Rightarrow> string \<Rightarrow> registry \<Rightarrow> converge_error + registry" where
  "ensure_default_dataset_by_name e i name db =
     (case find (\<lambda>g. og_name g = name) (orgs_of db) of None \<Rightarrow> Inr db | Some g \<Rightarrow> ensure_default_dataset_for e i g db)"

text \<open>The sweep at every boot: one transaction over the organizations by name.\<close>

fun converge_all :: "call_env \<Rightarrow> nat \<Rightarrow> org_row list \<Rightarrow> registry \<Rightarrow> converge_error + registry" where
  "converge_all e k [] db = Inr db"
| "converge_all e k (g # gs) db =
     (case ensure_default_dataset_for e (ce_mint e k) g db of Inl x \<Rightarrow> Inl x | Inr db' \<Rightarrow> converge_all e (Suc k) gs db')"

definition ensure_default_datasets :: "call_env \<Rightarrow> registry \<Rightarrow> converge_error + registry" where
  "ensure_default_datasets e db = converge_all e 0 (sort_key og_name (orgs_of db)) db"

definition converge_text :: "call_env \<Rightarrow> converge_error \<Rightarrow> string" where
  "converge_text e x = (case x of RowCount \<Rightarrow> ''query returned an unexpected number of rows'' | ConvergePg y \<Rightarrow> ce_pg_text e y)"

definition converge_h :: "call_env \<Rightarrow> nat \<Rightarrow> string \<Rightarrow> unit handler" where
  "converge_h e k name db =
     (case ensure_default_dataset_by_name e (ce_mint e k) name db of
        Inl x \<Rightarrow> (Inl (500, ''creating the default dataset: '' @ converge_text e x), db)
      | Inr db' \<Rightarrow> (Inr (), db'))"

section \<open>Files of a workspace\<close>

definition starter_config :: "call_env \<Rightarrow> string \<Rightarrow> registry \<Rightarrow> string + string" where
  "starter_config e template db =
     (case rg_files db template of
        None \<Rightarrow> Inl (''read starter config '' @ template @ '': '' @ ce_read_error e template)
      | Some yaml \<Rightarrow> Inr yaml)"

definition create_workspace :: "call_env \<Rightarrow> lake_plan \<Rightarrow> string \<Rightarrow> registry \<Rightarrow> (string + unit) \<times> registry" where
  "create_workspace e p template db =
     (case ce_mkdir e (lp_dir p) of
        Some m \<Rightarrow> (Inl (''create '' @ lp_dir p @ '': '' @ m), db)
      | None \<Rightarrow>
          (case ce_mkdir e (lp_drop_root p) of
             Some m \<Rightarrow> (Inl (''create '' @ lp_drop_root p @ '': '' @ m), db)
           | None \<Rightarrow>
               (case starter_config e template db of
                  Inl m \<Rightarrow> (Inl m, db)
                | Inr yaml \<Rightarrow>
                    if rg_files db (lp_config_path p) \<noteq> None then (Inr (), db)
                    else (case ce_write e (lp_config_path p) of
                            Some m \<Rightarrow> (Inl (''write '' @ lp_config_path p @ '': '' @ m), db)
                          | None \<Rightarrow> (Inr (), db\<lparr>rg_files := (rg_files db)(lp_config_path p \<mapsto> yaml)\<rparr>)))))"

definition path_parent :: "string \<Rightarrow> string option" where
  "path_parent p = (case rfind (CHR ''/'') p of None \<Rightarrow> if p = [] then None else Some [] | Some i \<Rightarrow> Some (if i = 0 then ''/'' else take i p))"

definition create_local_lake :: "call_env \<Rightarrow> lake_plan \<Rightarrow> string + unit" where
  "create_local_lake e p =
     (case Option.bind (plan_key p ''ER_LAKE_CATALOG'') as_str of
        None \<Rightarrow> Inl ''plan is missing ER_LAKE_CATALOG''
      | Some catalog \<Rightarrow>
          (case Option.bind (plan_key p ''ER_LAKE_DATA_PATH'') as_str of
             None \<Rightarrow> Inl ''plan is missing ER_LAKE_DATA_PATH''
           | Some data \<Rightarrow>
               (case Option.bind (path_parent catalog) (\<lambda>d. map_option (\<lambda>m. ''create '' @ d @ '': '' @ m) (ce_mkdir e d)) of
                  Some m \<Rightarrow> Inl m
                | None \<Rightarrow> (case ce_mkdir e data of Some m \<Rightarrow> Inl (''create '' @ data @ '': '' @ m) | None \<Rightarrow> Inr ()))))"

definition internal :: "(registry \<Rightarrow> (string + 'a) \<times> registry) \<Rightarrow> 'a handler" where
  "internal f db = (case f db of (Inl m, db') \<Rightarrow> (Inl (500, m), db') | (Inr x, db') \<Rightarrow> (Inr x, db'))"

text \<open>The temporary file and the rename; a failed rename leaves the temporary file.\<close>

definition write_config_file :: "call_env \<Rightarrow> string \<Rightarrow> string \<Rightarrow> registry \<Rightarrow> (string + unit) \<times> registry" where
  "write_config_file e path yaml db =
     (case ce_write e (path @ ''.tmp'') of
        Some m \<Rightarrow> (Inl m, db)
      | None \<Rightarrow>
          (case ce_write e path of
             Some m \<Rightarrow> (Inl m, db\<lparr>rg_files := (rg_files db)(path @ ''.tmp'' \<mapsto> yaml)\<rparr>)
           | None \<Rightarrow> (Inr (), db\<lparr>rg_files := (rg_files db)(path @ ''.tmp'' := None, path \<mapsto> yaml)\<rparr>)))"

section \<open>Creating organizations\<close>

record org_in =
  oi_name :: string
  oi_config_path :: "string option"
  oi_env :: "(string, string) bmap"
  oi_drop_root :: "string option"
  oi_s3_ingest_bucket :: "string option"
  oi_s3_ingest_prefix :: "string option"

definition env_of_strings :: "(string, string) bmap \<Rightarrow> json" where
  "env_of_strings m = JObj (map (\<lambda>(k, v). (k, JStr v)) m)"

text \<open>The configuration path and \<open>ER_CONFIG_PATH\<close> must name one file; a missing key is filled in.\<close>

definition with_config_path :: "string \<Rightarrow> string \<Rightarrow> (string, string) bmap \<Rightarrow> http_error + (string, string) bmap" where
  "with_config_path why config_path env =
     (case map_of env ''ER_CONFIG_PATH'' of
        None \<Rightarrow> Inr (bmap_insert ''ER_CONFIG_PATH'' config_path env)
      | Some env_path \<Rightarrow>
          if env_path \<noteq> config_path
          then Inl (422, ''config_path '' @ quoted config_path @ '' and env.ER_CONFIG_PATH '' @ quoted env_path @ '' must name the same file'' @ why)
          else Inr env)"

definition seed_model :: "call_env \<Rightarrow> string \<Rightarrow> json \<Rightarrow> string \<Rightarrow> string \<Rightarrow> string \<Rightarrow> org_row \<Rightarrow> string \<Rightarrow> registry \<Rightarrow> bool \<times> registry" where
  "seed_model e actor env path model_json ds_id g entity_type db =
     (let label = (case Option.bind (json_get env ''ER_MODEL_VERSION'') as_str of None \<Rightarrow> ''v0001'' | Some v \<Rightarrow> v);
          provenance = json_object [(''origin'', JStr ''seeded''), (''source_path'', JStr path),
            (''model_version_env'', case json_get env ''ER_MODEL_VERSION'' of None \<Rightarrow> JNull | Some v \<Rightarrow> v), (''by'', JStr actor)] in
      case create_model e (ce_mint e 2) (og_id g) (default_dataset_id (og_id g) db) ''default'' entity_type model_json label
             (Option.bind (json_get env ''ER_TF_SNAPSHOT_ID'') as_str) provenance actor db of
        Inl _ \<Rightarrow> (False, db)
      | Inr (m, db1) \<Rightarrow> (case activate_model e (mm_id m) ds_id db1 of Inl _ \<Rightarrow> (False, db1) | Inr (_, db2) \<Rightarrow> (True, db2)))"

definition seed_starter_model :: "call_env \<Rightarrow> string \<Rightarrow> json \<Rightarrow> string \<Rightarrow> registry \<Rightarrow> bool \<times> registry" where
  "seed_starter_model e org env actor db =
     (case Option.bind (json_get env ''ER_MODEL_PATH'') as_str of
        None \<Rightarrow> (False, db)
      | Some path \<Rightarrow>
          (case rg_files db path of
             None \<Rightarrow> (False, db)
           | Some model_json \<Rightarrow>
               (case ce_model_loads e model_json of
                  Inl _ \<Rightarrow> (False, db)
                | Inr _ \<Rightarrow>
                    (case get_org org (access_of db) of
                       None \<Rightarrow> (False, db)
                     | Some g \<Rightarrow>
                         (case default_dataset_id (og_id g) db of
                            None \<Rightarrow> (False, db)
                          | Some ds_id \<Rightarrow>
                              if list_models ds_id db \<noteq> [] then (False, db)
                              else seed_model e actor env path model_json ds_id g
                                     (case Option.bind (json_get env ''ER_ENTITY_TYPE'') as_str of None \<Rightarrow> ''person'' | Some t \<Rightarrow> t) db)))))"

definition checked_starter :: "call_env \<Rightarrow> string \<Rightarrow> (string \<times> config) handler" where
  "checked_starter e template =
     andThen (internal (\<lambda>db. (starter_config e template db, db))) (\<lambda>yaml.
       case ce_load_config e yaml of
         Inl m \<Rightarrow> refuse (500, ''the starter config '' @ template @ '' does not load: '' @ m)
       | Inr c \<Rightarrow> if ce_problems e c \<noteq> [] then refuse (500, ''the starter config '' @ template @ '' is not valid: '' @ join ''; '' (ce_problems e c))
                 else reply (yaml, c))"

definition mode_str :: "provision_mode \<Rightarrow> string" where
  "mode_str m = (case m of LocalMode \<Rightarrow> ''local'' | PostgresMode \<Rightarrow> ''postgres'')"

definition issue_key_h :: "call_env \<Rightarrow> nat \<Rightarrow> string \<Rightarrow> string \<Rightarrow> (string \<times> string) handler" where
  "issue_key_h e k org_id r = statement e (\<lambda>db.
     case issue_key (ce_sha256 e) (ce_now e) (ce_mint e k) (ce_random e) org_id r (access_of db) of
       None \<Rightarrow> Inl UniqueViolation | Some (pair, a) \<Rightarrow> Inr (pair, put_access a db))"

text \<open>Provisioning once the row of the organization is there, in three parts: the default dataset and the draft, the workspace, the published
  version with the key and the job. The answer holds the job, the version and the key.\<close>

definition provision_finish :: "call_env \<Rightarrow> principal \<Rightarrow> profile \<Rightarrow> string \<Rightarrow> org_row \<Rightarrow> int \<Rightarrow> string \<Rightarrow> (job \<times> int \<times> string \<times> string) handler" where
  "provision_finish e p f name g version ds_id =
     andThen (change (publish_version e name ds_id version (Some ''C''))) (\<lambda>_.
     andThen (issue_key_h e 3 (og_id g) ''admin'') (\<lambda>(key_id, key).
     andThen (enqueue_h e 4 (og_id g) None ''provision'' 0 (Some (''provision:'' @ name)) None (Some (pr_actor p)) (pr_trace_context p)) (\<lambda>job.
     andThen (audit_h p name None ''org.provision'' (json_object [(''job_id'', JStr (jb_id job)), (''mode'', JStr (mode_str (pf_mode f)))])) (\<lambda>_.
       reply (job, version, key_id, key)))))"

definition provision_drafted :: "call_env \<Rightarrow> principal \<Rightarrow> profile \<Rightarrow> string \<Rightarrow> org_row \<Rightarrow> string option \<Rightarrow> int \<Rightarrow> (job \<times> int \<times> string \<times> string) handler" where
  "provision_drafted e p f name g ds version =
     andThen (internal (create_workspace e (plan_org f name) (pf_config_template f))) (\<lambda>_.
     case ds of
       None \<Rightarrow> refuse (500, ''the default dataset was just converged yet cannot be read back'')
     | Some ds_id \<Rightarrow> provision_finish e p f name g version ds_id)"

definition provision_rest :: "call_env \<Rightarrow> principal \<Rightarrow> profile \<Rightarrow> string \<Rightarrow> string \<Rightarrow> config \<Rightarrow> org_row \<Rightarrow> (job \<times> int \<times> string \<times> string) handler" where
  "provision_rest e p f name yaml c g =
     andThen (converge_h e 1 name) (\<lambda>_. andThen (ask (\<lambda>db. Inr (default_dataset_id (og_id g) db))) (\<lambda>ds.
     andThen (statement e (draft e (ce_mint e 2) (og_id g) ds yaml (ce_config_hash e c) (pr_actor p)))
       (provision_drafted e p f name g ds)))"

definition provision_org :: "call_env \<Rightarrow> principal \<Rightarrow> profile \<Rightarrow> string \<Rightarrow> (job \<times> int \<times> string \<times> string) handler" where
  "provision_org e p f name =
     andThen (checked_starter e (pf_config_template f)) (\<lambda>(yaml, c).
     (case ce_link e of
        Unreachable m \<Rightarrow> refuse (500, ''db connect: '' @ m)
      | _ \<Rightarrow>
          andThen (statement e (upsert_byo e (ce_mint e 0) name (lp_config_path (plan_org f name)) (env_json (plan_org f name))
                                 (Some (lp_drop_root (plan_org f name))) None None)) (\<lambda>_.
          andThen (change (\<lambda>db. snd (set_org_state e name Provisioning Active db))) (\<lambda>_.
          andThen (ask (\<lambda>db. case get_org name (access_of db) of None \<Rightarrow> Inl (500, ''org vanished after upsert'') | Some g \<Rightarrow> Inr g))
            (provision_rest e p f name yaml c)))))"

definition create_byo_org :: "call_env \<Rightarrow> principal \<Rightarrow> org_in \<Rightarrow> string \<Rightarrow> bool handler" where
  "create_byo_org e p body config_path =
     (case with_config_path '': publish writes to config_path and every run reads env.ER_CONFIG_PATH, so a mismatch means published configs never take effect''
             config_path (oi_env body) of
        Inl x \<Rightarrow> refuse x
      | Inr env \<Rightarrow>
          with_pg e ''org registry requires Postgres'' (
          andThen (statement e (upsert_byo e (ce_mint e 0) (oi_name body) config_path (env_of_strings env) (oi_drop_root body)
                                 (oi_s3_ingest_bucket body) (oi_s3_ingest_prefix body))) (\<lambda>_.
          andThen (audit_h p (oi_name body) None ''org.upsert'' (JObj [])) (\<lambda>_.
          andThen (converge_h e 1 (oi_name body)) (\<lambda>_ db.
            case seed_starter_model e (oi_name body) (env_of_strings env) (pr_actor p) db of (seeded, db') \<Rightarrow> (Inr seeded, db'))))))"

datatype created_org = Provisioned job int string string | BroughtConfig bool

definition create_org :: "call_env \<Rightarrow> profile_error + profile option \<Rightarrow> (profile_error \<Rightarrow> string) \<Rightarrow> principal \<Rightarrow> org_in \<Rightarrow> created_org handler" where
  "create_org e provisioning show_error p body =
     guarded (operator_only p) (
     if \<not> valid_org_name (oi_name body) then refuse (422, ''invalid org name '' @ quoted (oi_name body))
     else if ce_link e = NoPostgres then refuse (501, ''org registry requires Postgres'')
     else case oi_config_path body of
            None \<Rightarrow>
              (case provisioning of
                 Inr (Some f) \<Rightarrow> andThen (provision_org e p f (oi_name body)) (\<lambda>(j, v, i, k). reply (Provisioned j v i k))
               | Inl x \<Rightarrow> refuse (500, ''auto-provisioning is misconfigured: '' @ show_error x)
               | Inr None \<Rightarrow> refuse (503, ''auto-provisioning not configured (set ER_PROVISION_MODE)''))
          | Some config_path \<Rightarrow> andThen (create_byo_org e p body config_path) (\<lambda>seeded. reply (BroughtConfig seeded)))"

section \<open>The life cycle of organizations and datasets\<close>

definition get_org_handler :: "call_env \<Rightarrow> principal \<Rightarrow> string \<Rightarrow> org_row handler" where
  "get_org_handler e p org = guarded (guard p org Viewer) (with_pg e ''org registry requires Postgres'' (org_h org))"

definition list_orgs_handler :: "call_env \<Rightarrow> principal \<Rightarrow> org_row list handler" where
  "list_orgs_handler e p = guarded (operator_only p) (with_pg e ''org registry requires Postgres'' (ask (\<lambda>db. Inr (sort_key og_name (orgs_of db)))))"

definition transition_org :: "call_env \<Rightarrow> principal \<Rightarrow> string \<Rightarrow> tenant_state \<Rightarrow> tenant_state \<Rightarrow> string \<Rightarrow> tenant_state handler" where
  "transition_org e p org new expected msg =
     guarded (guard p org Operator) (with_pg e ''org registry requires Postgres'' (
     andThen (org_h org) (\<lambda>_ db.
       case set_org_state e org new expected db of
         (True, db') \<Rightarrow> andThen (audit_h p org None (if new = Suspended then ''org.suspend'' else ''org.resume'') (JObj [])) (\<lambda>_. reply new) db'
       | (False, db') \<Rightarrow> refuse (409, msg) db')))"

definition suspend_org :: "call_env \<Rightarrow> principal \<Rightarrow> string \<Rightarrow> tenant_state handler" where
  "suspend_org e p org = transition_org e p org Suspended Active (''org '' @ quoted org @ '' is not active; only active orgs suspend'')"

definition resume_org :: "call_env \<Rightarrow> principal \<Rightarrow> string \<Rightarrow> tenant_state handler" where
  "resume_org e p org = transition_org e p org Active Suspended (''org '' @ quoted org @ '' is not suspended; nothing to resume'')"

definition transition_dataset :: "call_env \<Rightarrow> principal \<Rightarrow> string \<Rightarrow> string \<Rightarrow> tenant_state \<Rightarrow> tenant_state \<Rightarrow> string \<Rightarrow> tenant_state handler" where
  "transition_dataset e p org ds new expected msg =
     guarded (guard p org Admin) (with_dataset e ''org registry requires Postgres'' org ds (\<lambda>g d db.
       case set_dataset_state e (og_id g) ds new expected db of
         (True, db') \<Rightarrow> andThen (audit_h p org (Some ds) (if new = Suspended then ''dataset.suspend'' else ''dataset.resume'')
                               (json_object [(''dataset'', JStr ds)])) (\<lambda>_. reply new) db'
       | (False, db') \<Rightarrow> refuse (409, msg) db'))"

definition suspend_dataset :: "call_env \<Rightarrow> principal \<Rightarrow> string \<Rightarrow> string \<Rightarrow> tenant_state handler" where
  "suspend_dataset e p org ds =
     transition_dataset e p org ds Suspended Active (''dataset '' @ quoted ds @ '' is not active; only active datasets suspend'')"

definition resume_dataset :: "call_env \<Rightarrow> principal \<Rightarrow> string \<Rightarrow> string \<Rightarrow> tenant_state handler" where
  "resume_dataset e p org ds =
     transition_dataset e p org ds Active Suspended (''dataset '' @ quoted ds @ '' is not suspended; nothing to resume'')"

definition update_dataset :: "call_env \<Rightarrow> principal \<Rightarrow> string \<Rightarrow> string \<Rightarrow> string option \<Rightarrow> dataset_row handler" where
  "update_dataset e p org ds display_name =
     guarded (guard p org Admin) (with_dataset e ''org registry requires Postgres'' org ds (\<lambda>g d.
       andThen (change (set_dataset_display_name e (og_id g) ds display_name)) (\<lambda>_. dataset_h g ds)))"

definition list_datasets_route :: "call_env \<Rightarrow> principal \<Rightarrow> string \<Rightarrow> dataset_row list handler" where
  "list_datasets_route e p org =
     guarded (guard p org Viewer) (with_pg e ''org registry requires Postgres'' (andThen (org_h org) (\<lambda>g. ask (\<lambda>db. Inr (list_datasets (og_id g) db)))))"

definition get_dataset_route :: "call_env \<Rightarrow> principal \<Rightarrow> string \<Rightarrow> string \<Rightarrow> dataset_row handler" where
  "get_dataset_route e p org ds = guarded (guard p org Viewer) (with_dataset e ''org registry requires Postgres'' org ds (\<lambda>g d. reply d))"

definition resources_of :: "json \<Rightarrow> int option \<times> string option" where
  "resources_of env = (Option.bind (Option.bind (json_get env ''ER_DUCKDB_THREADS'') as_str) parse_i64,
     Option.bind (json_get env ''ER_DUCKDB_MEMORY_LIMIT'') as_str)"

definition update_resources :: "call_env \<Rightarrow> (int \<Rightarrow> string) \<Rightarrow> principal \<Rightarrow> string \<Rightarrow> int option \<Rightarrow> string option \<Rightarrow> (int option \<times> string option) handler" where
  "update_resources e show_int p org threads memory =
     guarded (operator_only p) (
     let updates = (case memory of Some m \<Rightarrow> if m = [] then (\<lambda>u. u) else bmap_insert ''ER_DUCKDB_MEMORY_LIMIT'' (JStr m) | None \<Rightarrow> (\<lambda>u. u))
           (case threads of Some n \<Rightarrow> [(''ER_DUCKDB_THREADS'', JStr (show_int n))] | None \<Rightarrow> []) in
     if updates = [] then refuse (422, ''provide duckdb_threads and/or duckdb_memory_limit'')
     else with_pg e ''org registry requires Postgres'' (
            andThen (org_h org) (\<lambda>g. andThen (change (merge_org_env e (JObj updates) org)) (\<lambda>_.
            andThen (change (merge_dataset_envs e (JObj updates) (og_id g))) (\<lambda>_.
            andThen (org_h org) (\<lambda>g'. reply (resources_of (og_env g'))))))))"

end
