(* ===== verification/ConfigApi.thy ===== *)
theory ConfigApi
  imports RegistryApi
begin

text \<open>
  The handlers of \<open>er-server/src/lib.rs\<close> that work inside an organization: creating datasets, drafting and publishing configuration
  versions, the model registry, schedules, and submitting jobs. The advisories a publish computes from the lake after it has committed are not
  modelled.
\<close>

section \<open>Creating datasets\<close>

definition RESERVED_DATASET_NAMES :: "string list" where "RESERVED_DATASET_NAMES = [''datasets'', ''settings'']"

record dataset_in =
  di_name :: string
  di_display_name :: "string option"
  di_entity_type :: "string option"
  di_config_path :: "string option"
  di_env :: "(string, string) bmap"
  di_drop_root :: "string option"
  di_s3_ingest_bucket :: "string option"
  di_s3_ingest_prefix :: "string option"

definition dataset_exists :: "string \<Rightarrow> string \<Rightarrow> http_error" where
  "dataset_exists name org = (409, ''dataset '' @ quoted name @ '' already exists in org '' @ quoted org)"

text \<open>What provisioning a dataset does once its workspace is there. The version is marked as published under the id of the organization.\<close>

definition provision_dataset_rows :: "call_env \<Rightarrow> principal \<Rightarrow> lake_plan \<Rightarrow> string \<Rightarrow> dataset_in \<Rightarrow> string \<Rightarrow> org_row \<Rightarrow> string \<Rightarrow> string \<Rightarrow> job handler" where
  "provision_dataset_rows e p lp org body entity_type g starter hash =
     (let ds_id = ce_mint e 0 in
      andThen (statement e (ensure_dataset e ds_id (og_id g) (di_name body) (di_display_name body) entity_type (lp_config_path lp) (env_json lp)
                             (Some (lp_drop_root lp)) None None None Provisioning)) (\<lambda>_.
      andThen (statement e (draft e (ce_mint e 1) (og_id g) (Some ds_id) starter hash (pr_actor p))) (\<lambda>version.
      andThen (change (mark_published e (Some ''C'') (og_id g) version)) (\<lambda>_.
      andThen (change (set_dataset_active_config e version ds_id)) (\<lambda>_.
      andThen (enqueue_h e 2 (og_id g) (Some ds_id) ''dataset_provision'' 0 (Some (''dataset-provision:'' @ org @ '':'' @ di_name body)) None
                (Some (pr_actor p)) None) (\<lambda>job.
      andThen (audit_h p org (Some (di_name body)) ''dataset.provision''
                (json_object [(''dataset'', JStr (di_name body)), (''entity_type'', JStr entity_type), (''job_id'', JStr (jb_id job))])) (\<lambda>_.
        reply job)))))))"

definition auto_dataset :: "call_env \<Rightarrow> principal \<Rightarrow> profile \<Rightarrow> string \<Rightarrow> dataset_in \<Rightarrow> string \<Rightarrow> job handler" where
  "auto_dataset e p f org body entity_type =
     andThen (org_h org) (\<lambda>g.
     guarded (refuse_unless_active g ''create a dataset'') (
     andThen (ask (\<lambda>db. if get_dataset (og_id g) (di_name body) (rg_jobs db) \<noteq> None then Inl (dataset_exists (di_name body) org) else Inr ())) (\<lambda>_.
     let lp = plan_dataset f org (di_name body) in
     andThen (internal (create_workspace e lp (pf_config_template f))) (\<lambda>_.
     andThen (internal (\<lambda>db. (if pf_mode f = LocalMode then create_local_lake e lp else Inr (), db))) (\<lambda>_.
     andThen (internal (\<lambda>db. (starter_config e (pf_config_template f) db, db))) (\<lambda>starter.
     case ce_load_config e starter of
       Inl m \<Rightarrow> refuse (500, ''the starter config template does not load: '' @ m)
     | Inr c \<Rightarrow> provision_dataset_rows e p lp org body entity_type g starter (ce_config_hash e c)))))))"

definition byo_dataset :: "call_env \<Rightarrow> principal \<Rightarrow> string \<Rightarrow> dataset_in \<Rightarrow> string \<Rightarrow> string \<Rightarrow> unit handler" where
  "byo_dataset e p org body entity_type config_path =
     (case with_config_path [] config_path (di_env body) of
        Inl x \<Rightarrow> refuse x
      | Inr env \<Rightarrow>
          with_pg e ''org registry requires Postgres'' (
          andThen (org_h org) (\<lambda>g.
          guarded (refuse_unless_active g ''create a dataset'') (
          andThen (statement e (ensure_dataset e (ce_mint e 0) (og_id g) (di_name body) (di_display_name body) entity_type config_path (env_of_strings env)
                                 (di_drop_root body) (di_s3_ingest_bucket body) (di_s3_ingest_prefix body) None Active)) (\<lambda>n.
          if n = 1
          then audit_h p org (Some (di_name body)) ''dataset.create''
                 (json_object [(''dataset'', JStr (di_name body)), (''entity_type'', JStr entity_type)])
          else refuse (dataset_exists (di_name body) org))))))"

definition create_dataset :: "call_env \<Rightarrow> profile_error + profile option \<Rightarrow> (profile_error \<Rightarrow> string) \<Rightarrow> principal \<Rightarrow> string \<Rightarrow> dataset_in \<Rightarrow> job option handler" where
  "create_dataset e provisioning show_error p org body =
     guarded (if di_config_path body \<noteq> None then operator_only p else guard p org Admin) (
     if \<not> valid_org_name (di_name body) then refuse (422, ''invalid dataset name '' @ quoted (di_name body))
     else if di_name body \<in> set RESERVED_DATASET_NAMES then refuse (422, quoted (di_name body) @ '' is a reserved dataset name'')
     else let entity_type = (case di_entity_type body of None \<Rightarrow> ''person'' | Some t \<Rightarrow> t) in
       if entity_type \<notin> {''person'', ''account''}
       then refuse (422, ''entity_type must be '' @ quoted ''person'' @ '' or '' @ quoted ''account'' @ '', not '' @ quoted entity_type)
       else if ce_link e = NoPostgres then refuse (501, ''org registry requires Postgres'')
       else case di_config_path body of
              None \<Rightarrow>
                (case provisioning of
                   Inr (Some f) \<Rightarrow> with_pg e ''org registry requires Postgres'' (andThen (auto_dataset e p f org body entity_type) (\<lambda>j. reply (Some j)))
                 | Inl x \<Rightarrow> refuse (500, ''auto-provisioning is misconfigured: '' @ show_error x)
                 | Inr None \<Rightarrow> refuse (503, ''dataset auto-provisioning not configured (set ER_PROVISION_MODE); operators may pass config_path and the lake env instead''))
            | Some config_path \<Rightarrow> andThen (byo_dataset e p org body entity_type config_path) (\<lambda>_. reply None))"

section \<open>Configuration versions\<close>

definition CONFIGS_UNAVAILABLE :: string where "CONFIGS_UNAVAILABLE = ''config registry requires Postgres''"

definition config_version_missing :: "string \<Rightarrow> string \<Rightarrow> http_error" where
  "config_version_missing org version = (404, ''no config version '' @ version @ '' for org '' @ quoted org)"

definition create_config_version :: "call_env \<Rightarrow> principal \<Rightarrow> string \<Rightarrow> string \<Rightarrow> string \<Rightarrow> (int \<times> string) handler" where
  "create_config_version e p org ds yaml =
     guarded (guard p org Admin) (
     case ce_load_config e yaml of
       Inl m \<Rightarrow> refuse (422, ''config error: '' @ m)
     | Inr c \<Rightarrow>
         with_dataset e CONFIGS_UNAVAILABLE org ds (\<lambda>g d.
           andThen (statement e (draft e (ce_mint e 0) (og_id g) (Some (dt_id d)) yaml (ce_config_hash e c) (pr_actor p))) (\<lambda>version.
             reply (version, ce_config_hash e c))))"

definition list_config_versions_handler :: "call_env \<Rightarrow> principal \<Rightarrow> string \<Rightarrow> string \<Rightarrow> config_version list handler" where
  "list_config_versions_handler e p org ds =
     guarded (guard p org Viewer) (with_dataset e CONFIGS_UNAVAILABLE org ds (\<lambda>g d. ask (\<lambda>db. Inr (list_config_versions (dt_id d) db))))"

definition get_config_version_handler :: "call_env \<Rightarrow> (int \<Rightarrow> string) \<Rightarrow> principal \<Rightarrow> string \<Rightarrow> string \<Rightarrow> string \<Rightarrow> config_version handler" where
  "get_config_version_handler e show_int p org ds version =
     guarded (guard p org Viewer) (
     case parse_i64 version of
       None \<Rightarrow> refuse (config_version_missing org version)
     | Some v \<Rightarrow> with_dataset e CONFIGS_UNAVAILABLE org ds (\<lambda>g d. ask (\<lambda>db.
         case get_config_version (dt_id d) v db of None \<Rightarrow> Inl (config_version_missing org (show_int v)) | Some row \<Rightarrow> Inr row)))"

text \<open>The version comes from the row of the organization, the document from the dataset.\<close>

definition active_config :: "call_env \<Rightarrow> principal \<Rightarrow> string \<Rightarrow> string \<Rightarrow> config_version handler" where
  "active_config e p org ds =
     guarded (guard p org Viewer) (with_pg e CONFIGS_UNAVAILABLE (
     andThen (ask (\<lambda>db. case Option.bind (get_org org (access_of db)) og_active_config_version of
                           None \<Rightarrow> Inl (404, ''no published config'') | Some v \<Rightarrow> Inr v)) (\<lambda>version.
     andThen (org_h org) (\<lambda>g. andThen (dataset_h g ds) (\<lambda>d. ask (\<lambda>db.
       case get_config_version (dt_id d) version db of None \<Rightarrow> Inl (404, ''no published config'') | Some row \<Rightarrow> Inr row))))))"

definition dataset_active_config :: "call_env \<Rightarrow> (int \<Rightarrow> string) \<Rightarrow> dataset_row \<Rightarrow> registry \<Rightarrow> http_error + config" where
  "dataset_active_config e show_int d db =
     (case dt_active_config_version d of
        None \<Rightarrow> Inl (422, ''no published config; publish a config version first'')
      | Some v \<Rightarrow>
          (case get_config_version (dt_id d) v db of
             None \<Rightarrow> Inl (500, ''active config version '' @ show_int v @ '' is missing'')
           | Some row \<Rightarrow> (case ce_load_config e (cv_yaml row) of
                             Inl m \<Rightarrow> Inl (500, ''active config does not load: '' @ m) | Inr c \<Rightarrow> Inr c)))"

definition org_active_config :: "call_env \<Rightarrow> (int \<Rightarrow> string) \<Rightarrow> org_row \<Rightarrow> registry \<Rightarrow> http_error + config" where
  "org_active_config e show_int g db =
     (case og_active_config_version g of
        None \<Rightarrow> Inl (422, ''no published config; publish a config version first'')
      | Some v \<Rightarrow>
          (case default_dataset_id (og_id g) db of
             None \<Rightarrow> Inl (422, ''the org has no default dataset to read a config from'')
           | Some ds_id \<Rightarrow>
               (case get_config_version ds_id v db of
                  None \<Rightarrow> Inl (422, ''config version '' @ show_int v @ '' is missing for org '' @ quoted (og_name g))
                | Some row \<Rightarrow> (case ce_load_config e (cv_yaml row) of Inl m \<Rightarrow> Inl (422, ''config error: '' @ m) | Inr c \<Rightarrow> Inr c))))"

section \<open>Publishing\<close>

definition TIER_C_BLOCKS :: "string list" where "TIER_C_BLOCKS = [''comparisons'', ''standardization'', ''sources'']"
definition TIER_B_BLOCKS :: "string list" where "TIER_B_BLOCKS = [''blocking'', ''constraints'', ''models'']"
definition TIER_A_BLOCKS :: "string list" where "TIER_A_BLOCKS = [''thresholds'', ''survivorship'']"
definition OPERATOR_ONLY_BLOCKS :: "string list" where
  "OPERATOR_ONLY_BLOCKS = [''tenant'', ''storage'', ''versions'', ''training'', ''clustering'', ''coherence'', ''generator'']"

definition config_changed_blocks :: "config \<Rightarrow> config \<Rightarrow> string list" where
  "config_changed_blocks old new =
     filter (\<lambda>k. map_of (cf_blocks old) k \<noteq> map_of (cf_blocks new) k) (bset_of (map fst (cf_blocks old) @ map fst (cf_blocks new)))"

definition tier_for :: "string list \<Rightarrow> string option" where
  "tier_for changed =
     (let hits = (\<lambda>blocks. list_ex (\<lambda>b. b \<in> set blocks) changed) in
      if hits TIER_C_BLOCKS then Some ''C'' else if hits TIER_B_BLOCKS then Some ''B'' else if hits TIER_A_BLOCKS then Some ''A'' else None)"

definition classify_change :: "call_env \<Rightarrow> int option \<Rightarrow> dataset_row \<Rightarrow> config \<Rightarrow> registry \<Rightarrow> string option \<times> string list" where
  "classify_change e active_v d new db =
     (case active_v of
        None \<Rightarrow> (Some ''C'', [])
      | Some av \<Rightarrow>
          (case ce_load_config e (case get_config_version (dt_id d) av db of Some row \<Rightarrow> cv_yaml row | None \<Rightarrow> []) of
             Inr old \<Rightarrow> (tier_for (config_changed_blocks old new), config_changed_blocks old new)
           | Inl _ \<Rightarrow> (Some ''C'', [])))"

definition missing_models :: "config \<Rightarrow> dataset_row \<Rightarrow> registry \<Rightarrow> string list" where
  "missing_models c d db = filter (\<lambda>n. n \<notin> mm_name ` set (active_models_of (dt_id d) db)) (cf_models c)"

definition rebuild_jobs :: "call_env \<Rightarrow> principal \<Rightarrow> org_row \<Rightarrow> dataset_row \<Rightarrow> string \<Rightarrow> string option \<Rightarrow> job list handler" where
  "rebuild_jobs e p g d version tier =
     (let rebuild = (\<lambda>k. enqueue_h e k (og_id g) (Some (dt_id d)) ''run_all_full'' 0 (Some (''publish:'' @ version @ '':rebuild''))
                          (Some (json_object [(''skip_ingest'', JBool True)])) (Some (pr_actor p)) (pr_trace_context p)) in
      if tier = Some ''C'' then
        andThen (enqueue_h e 1 (og_id g) (Some (dt_id d)) ''train'' 0 (Some (''publish:'' @ version @ '':train'')) None (Some (pr_actor p)) (pr_trace_context p)) (\<lambda>j.
        andThen (rebuild 2) (\<lambda>j'. reply [j, j']))
      else if tier = Some ''A'' \<or> tier = Some ''B'' then andThen (rebuild 1) (\<lambda>j. reply [j])
      else reply [])"

definition opt_str :: "string option \<Rightarrow> json" where
  "opt_str x = (case x of None \<Rightarrow> JNull | Some s \<Rightarrow> JStr s)"

text \<open>What a publish writes, in its order: the file, the three rows, the schedule, the jobs, the audit row and the event.\<close>

definition publish_writes :: "call_env \<Rightarrow> (int \<Rightarrow> string) \<Rightarrow> (nat \<Rightarrow> string) \<Rightarrow> principal \<Rightarrow> string \<Rightarrow> org_row \<Rightarrow> dataset_row \<Rightarrow> config_version \<Rightarrow> config
    \<Rightarrow> string option \<Rightarrow> string list \<Rightarrow> job list handler" where
  "publish_writes e show_int mint p org g d row c tier changed =
     andThen (\<lambda>db. case write_config_file e (og_config_path g) (cv_yaml row) db of
                     (Inl m, db') \<Rightarrow> (Inl (500, ''config write: '' @ m), db') | (Inr x, db') \<Rightarrow> (Inr x, db')) (\<lambda>_.
     andThen (change (publish_version e org (dt_id d) (cv_version row) tier)) (\<lambda>_.
     andThen (statement e (ensure_correction_schedule e (ce_mint e 0) (og_id g) (Some (dt_id d)) (cf_cadence c))) (\<lambda>_.
     andThen (rebuild_jobs e p g d (show_int (cv_version row)) tier) (\<lambda>js.
     andThen (audit_h p org None ''config.publish'' (json_object [(''version'', JInt (cv_version row)), (''tier'', opt_str tier)])) (\<lambda>_.
     andThen (change (\<lambda>db. put_hooks (snd (emit (ce_now e) mint (og_id g) (Some (dt_id d)) org ''config.published''
                (json_object [(''version'', JInt (cv_version row)), (''tier'', opt_str tier), (''changed_blocks'', JArr (map JStr changed)),
                   (''jobs_enqueued'', JArr (map (\<lambda>j. JStr (jb_id j)) js)), (''published_by'', JStr (pr_actor p))])
                (jd_hooks (rg_jobs db)))) db)) (\<lambda>_.
       reply js))))))"

definition publish_config_version :: "call_env \<Rightarrow> (int \<Rightarrow> string) \<Rightarrow> (nat \<Rightarrow> string) \<Rightarrow> principal \<Rightarrow> string \<Rightarrow> string \<Rightarrow> string \<Rightarrow> (string option \<times> string list \<times> job list) handler" where
  "publish_config_version e show_int mint p org ds version =
     guarded (guard p org Admin) (
     case parse_i64 version of
       None \<Rightarrow> refuse (config_version_missing org version)
     | Some v \<Rightarrow>
         with_dataset e CONFIGS_UNAVAILABLE org ds (\<lambda>g d.
         andThen (ask (\<lambda>db. case get_config_version (dt_id d) v db of None \<Rightarrow> Inl (config_version_missing org (show_int v)) | Some row \<Rightarrow> Inr row)) (\<lambda>row.
         case ce_load_config e (cv_yaml row) of
           Inl m \<Rightarrow> refuse (422, ''config error: '' @ m)
         | Inr c \<Rightarrow>
             if ce_problems e c \<noteq> [] then refuse (422, ''the config cannot be published as written: '' @ join ''; '' (ce_problems e c))
             else andThen (ask (\<lambda>db. if cf_models c \<noteq> [] \<and> missing_models c d db \<noteq> []
                     then Inl (422, ''`models:` names '' @ join '', '' (missing_models c d db) @ '' with no ACTIVE version in the registry (active: '' @
                            (let known = bset_of (map mm_name (active_models_of (dt_id d) db)) in if known = [] then ''none'' else join '', '' known) @ '')'')
                     else Inr ())) (\<lambda>_.
                  andThen (ask (\<lambda>db. Inr (classify_change e (og_active_config_version g) d c db))) (\<lambda>(tier, changed).
                  if filter (\<lambda>b. b \<in> set OPERATOR_ONLY_BLOCKS) changed \<noteq> [] \<and> pr_role p \<noteq> Operator
                  then refuse (403, ''blocks ['' @ join '', '' (map (\<lambda>b. [CHR 0x22] @ b @ [CHR 0x22]) (filter (\<lambda>b. b \<in> set OPERATOR_ONLY_BLOCKS) changed)) @ ''] are operator-only; publish refused'')
                  else if og_state g \<noteq> Active then refuse (409, ''org '' @ quoted org @ '' is not active'')
                  else andThen (publish_writes e show_int mint p org g d row c tier changed) (\<lambda>js. reply (tier, changed, js)))))))"

section \<open>The model registry\<close>

definition MODELS_UNAVAILABLE :: string where "MODELS_UNAVAILABLE = ''model registry requires Postgres''"

record model_in =
  mi_model_json :: string
  mi_model_version_label :: string
  mi_name :: "string option"
  mi_tf_snapshot_id :: "string option"
  mi_provenance :: "json option"

definition model_missing :: "(int \<Rightarrow> string) \<Rightarrow> string \<Rightarrow> int \<Rightarrow> http_error" where
  "model_missing show_int name version = (404, ''no model version '' @ name @ ''/'' @ show_int version)"

definition models_index :: "call_env \<Rightarrow> principal \<Rightarrow> string \<Rightarrow> string \<Rightarrow> (matching_model list \<times> matching_model list) handler" where
  "models_index e p org ds =
     guarded (guard p org Viewer) (with_dataset e MODELS_UNAVAILABLE org ds (\<lambda>g d. ask (\<lambda>db.
       Inr (list_models (dt_id d) db, sort_key mm_name (filter (\<lambda>m. mm_state m = ''active'') (list_models (dt_id d) db))))))"

definition create_model_version :: "call_env \<Rightarrow> (int \<Rightarrow> string) \<Rightarrow> principal \<Rightarrow> string \<Rightarrow> string \<Rightarrow> model_in \<Rightarrow> matching_model handler" where
  "create_model_version e show_int p org ds body =
     guarded (guard p org Admin) (
     case ce_model_loads e (mi_model_json body) of
       Inl m \<Rightarrow> refuse (422, ''model_json is not a loadable model: '' @ m)
     | Inr _ \<Rightarrow>
         with_dataset e MODELS_UNAVAILABLE org ds (\<lambda>g d.
         andThen (ask (dataset_active_config e show_int d)) (\<lambda>c.
         andThen (statement e (create_model e (ce_mint e 0) (og_id g) (Some (dt_id d)) (case mi_name body of None \<Rightarrow> ''default'' | Some n \<Rightarrow> n)
                    (entity_str (cf_entity_type c)) (mi_model_json body) (mi_model_version_label body) (mi_tf_snapshot_id body)
                    (case mi_provenance body of Some v \<Rightarrow> v | None \<Rightarrow> json_object [(''origin'', JStr ''uploaded''), (''by'', JStr (pr_actor p))])
                    (pr_actor p))) (\<lambda>m.
         andThen (audit_h p org None ''model.version.create''
                    (json_object [(''name'', JStr (mm_name m)), (''version'', JInt (mm_version m)), (''model_hash'', JStr (mm_model_hash m))])) (\<lambda>_.
           reply m)))))"

definition get_model_version :: "call_env \<Rightarrow> (int \<Rightarrow> string) \<Rightarrow> principal \<Rightarrow> string \<Rightarrow> string \<Rightarrow> string \<Rightarrow> int \<Rightarrow> matching_model handler" where
  "get_model_version e show_int p org ds name version =
     guarded (guard p org Viewer) (with_dataset e MODELS_UNAVAILABLE org ds (\<lambda>g d. ask (\<lambda>db.
       case model_version (dt_id d) name version db of None \<Rightarrow> Inl (model_missing show_int name version) | Some m \<Rightarrow> Inr m)))"

definition activate_model_version :: "call_env \<Rightarrow> (int \<Rightarrow> string) \<Rightarrow> principal \<Rightarrow> string \<Rightarrow> string \<Rightarrow> string \<Rightarrow> int \<Rightarrow> matching_model handler" where
  "activate_model_version e show_int p org ds name version =
     guarded (guard p org Admin) (with_dataset e MODELS_UNAVAILABLE org ds (\<lambda>g d.
     andThen (ask (\<lambda>db. case model_version (dt_id d) name version db of None \<Rightarrow> Inl (model_missing show_int name version) | Some m \<Rightarrow> Inr m)) (\<lambda>target.
     andThen (ask (org_active_config e show_int g)) (\<lambda>c.
     if mm_entity_type target \<noteq> entity_str (cf_entity_type c)
     then refuse (409, ''model '' @ name @ ''/'' @ show_int version @ '' is a '' @ mm_entity_type target @ '' model but this org resolves '' @ entity_str (cf_entity_type c) @ '' entities'')
     else andThen (statement e (activate_model e (mm_id target) (dt_id d))) (\<lambda>_.
          andThen (audit_h p org None ''model.version.activate''
                    (json_object [(''name'', JStr name), (''version'', JInt version), (''model_hash'', JStr (mm_model_hash target))])) (\<lambda>_.
            reply target))))))"

section \<open>Submitting jobs\<close>

record enqueue_body =
  eb_kind :: string
  eb_priority :: int
  eb_segment :: "string option"

definition memory_job_row :: "call_env \<Rightarrow> nat \<Rightarrow> string \<Rightarrow> string \<Rightarrow> int \<Rightarrow> string option \<Rightarrow> job" where
  "memory_job_row e n org kind priority trace_context =
     new_job (ce_now e) (''job-'' @ show_nat n) org None kind priority None None None None trace_context"

definition enqueue_traced :: "call_env \<Rightarrow> string \<Rightarrow> string \<Rightarrow> int \<Rightarrow> string option \<Rightarrow> job handler" where
  "enqueue_traced e org kind priority trace_context db =
     (case rg_memory db of (n, js) \<Rightarrow>
        (let j = memory_job_row e n org kind priority trace_context in (Inr j, db\<lparr>rg_memory := (Suc n, js @ [j])\<rparr>)))"

definition segment_params :: "call_env \<Rightarrow> (int \<Rightarrow> string) \<Rightarrow> dataset_row \<Rightarrow> string option \<Rightarrow> json option handler" where
  "segment_params e show_int d segment =
     (case segment of
        None \<Rightarrow> reply None
      | Some name \<Rightarrow>
          andThen (ask (dataset_active_config e show_int d)) (\<lambda>c.
            if name \<notin> set (cf_segments c)
            then refuse (422, ''segment '' @ quoted name @ '' is not in the published config (declared: '' @
                   (if cf_segments c = [] then ''none'' else join '', '' (cf_segments c)) @ '')'')
            else reply (Some (json_object [(''segment'', JStr name)]))))"

definition create_job :: "call_env \<Rightarrow> (int \<Rightarrow> string) \<Rightarrow> principal \<Rightarrow> string \<Rightarrow> string \<Rightarrow> enqueue_body \<Rightarrow> job handler" where
  "create_job e show_int p org ds body =
     guarded (guard p org Steward) (
     if trim (eb_kind body) = [] then refuse (400, ''kind required'')
     else case ce_link e of
            NoPostgres \<Rightarrow> enqueue_traced e org (eb_kind body) (eb_priority body) (pr_trace_context p)
          | _ \<Rightarrow>
              with_dataset e [] org ds (\<lambda>g d.
              guarded (refuse_unless_active_dataset g d ''jobs'') (
              andThen (segment_params e show_int d (eb_segment body)) (\<lambda>params.
              andThen (enqueue_h e 0 (og_id g) (Some (dt_id d)) (eb_kind body) (eb_priority body) None params (Some (pr_actor p)) (pr_trace_context p)) (\<lambda>job.
              andThen (audit_h p org None ''job.submit'' (json_object [(''job_id'', JStr (jb_id job)), (''kind'', JStr (eb_kind body)), (''segment'', opt_str (eb_segment body))])) (\<lambda>_.
                reply job))))))"

section \<open>Schedules\<close>

definition SCHEDULABLE_KINDS :: "string list" where
  "SCHEDULABLE_KINDS = [''run_all_full'', ''run_all_incremental'', ''correct'', ''train'', ''lake_maintain'', ''apply_approved'', ''profile'']"

definition SCHEDULES_UNAVAILABLE :: string where "SCHEDULES_UNAVAILABLE = ''schedules require Postgres''"

text \<open>The parser as in theory \<open>Cron\<close>; \<open>None\<close> stands for a parse that does not come back with an answer.\<close>

definition valid_cron :: "bool \<Rightarrow> string \<Rightarrow> bool option" where
  "valid_cron checked s = (case parse_cron checked s of Some (Ret r) \<Rightarrow> Some (case r of Inl _ \<Rightarrow> False | Inr _ \<Rightarrow> True) | _ \<Rightarrow> None)"

definition create_schedule :: "call_env \<Rightarrow> bool \<Rightarrow> principal \<Rightarrow> string \<Rightarrow> string \<Rightarrow> string \<Rightarrow> string \<Rightarrow> json option \<Rightarrow> string handler option" where
  "create_schedule e checked p org ds kind cron params =
     (if guard p org Admin \<noteq> Inr () then Some (guarded (guard p org Admin) (reply []))
      else if kind \<notin> set SCHEDULABLE_KINDS then Some (refuse (422, ''kind '' @ quoted kind @ '' is not schedulable''))
      else case valid_cron checked cron of
             None \<Rightarrow> None
           | Some False \<Rightarrow> Some (refuse (422, ''invalid cron expression: '' @ quoted cron))
           | Some True \<Rightarrow>
               Some (with_dataset e SCHEDULES_UNAVAILABLE org ds (\<lambda>g d.
                 andThen (statement e (create_schedule_sql e (ce_mint e 0) (og_id g) (Some (dt_id d)) kind (case params of None \<Rightarrow> JObj [] | Some v \<Rightarrow> v) cron)) (\<lambda>_.
                   reply (ce_mint e 0)))))"

definition schedules_index :: "call_env \<Rightarrow> principal \<Rightarrow> string \<Rightarrow> string \<Rightarrow> schedule list handler" where
  "schedules_index e p org ds =
     guarded (guard p org Viewer) (with_dataset e SCHEDULES_UNAVAILABLE org ds (\<lambda>g d. ask (\<lambda>db. Inr (list_schedules (dt_id d) db))))"

definition update_schedule :: "call_env \<Rightarrow> principal \<Rightarrow> string \<Rightarrow> string \<Rightarrow> string \<Rightarrow> bool \<Rightarrow> bool handler" where
  "update_schedule e p org ds i enabled =
     guarded (guard p org Admin) (with_dataset e SCHEDULES_UNAVAILABLE org ds (\<lambda>g d db.
       case set_schedule_enabled e (dt_id d) i enabled db of
         (True, db') \<Rightarrow> (Inr enabled, db')
       | (False, db') \<Rightarrow> (Inl (409, ''schedule is unknown, belongs to another org, or is config-owned''), db')))"

definition delete_schedule :: "call_env \<Rightarrow> principal \<Rightarrow> string \<Rightarrow> string \<Rightarrow> string \<Rightarrow> bool handler" where
  "delete_schedule e p org ds i =
     guarded (guard p org Admin) (with_dataset e SCHEDULES_UNAVAILABLE org ds (\<lambda>g d db.
       case delete_schedule_sql (dt_id d) i db of (deleted, db') \<Rightarrow> (Inr deleted, db')))"

text \<open>The tick of the dispatcher: one pass over the due schedules, which stops at the first error and keeps what it did.\<close>

fun tick_loop :: "bool \<Rightarrow> int \<Rightarrow> utc_time \<Rightarrow> string \<Rightarrow> (nat \<Rightarrow> string) \<Rightarrow> nat \<Rightarrow> schedule list \<Rightarrow> nat \<Rightarrow> registry \<Rightarrow> (sql_error + nat) outcome option \<times> registry" where
  "tick_loop checked now t minute_key mint k [] n db = (Some (Ret (Inr n)), db)"
| "tick_loop checked now t minute_key mint k (s # ss) n db =
     (case parse_cron checked (sc_cron s) of
        None \<Rightarrow> (None, db)
      | Some Panic \<Rightarrow> (Some Panic, db)
      | Some (Ret (Inl _)) \<Rightarrow> tick_loop checked now t minute_key mint k ss n db
      | Some (Ret (Inr c)) \<Rightarrow>
          if \<not> cron_matches_at c t then tick_loop checked now t minute_key mint k ss n db
          else (case enqueue_scheduled now (mint k) (sc_org_id s) (Some (sc_dataset_id s)) (sc_kind s) (''sched:'' @ sc_id s @ '':'' @ minute_key)
                       (Some (sc_params s)) (sc_id s) None (jobs_of db) of
                  Panic \<Rightarrow> (Some Panic, db)
                | Ret (Inl x) \<Rightarrow> (Some (Ret (Inl x)), db)
                | Ret (Inr ((_, inserted), js)) \<Rightarrow>
                    (let db1 = put_job_rows js db in
                     if inserted then tick_loop checked now t minute_key mint (Suc k) ss (Suc n) (mark_schedule_enqueued now (sc_id s) db1)
                     else tick_loop checked now t minute_key mint (Suc k) ss n db1)))"

definition schedule_tick :: "bool \<Rightarrow> int \<Rightarrow> utc_time \<Rightarrow> string \<Rightarrow> (nat \<Rightarrow> string) \<Rightarrow> registry \<Rightarrow> (sql_error + nat) outcome option \<times> registry" where
  "schedule_tick checked now t minute_key mint db = tick_loop checked now t minute_key mint 0 (due_schedules db) 0 db"

end
