(* ===== verification/RegistryLaws.thy ===== *)
theory RegistryLaws
  imports ConfigApi
begin

text \<open>
  What the tenant registry guarantees. A handler is described by the weakest condition under which it ends well: the condition of
  a composed handler is computed by simplification. The invariant covers names, version numbers, active versions and the unique indexes,
  and every handler keeps it, also when it refuses half-way.
\<close>

section \<open>Conditions of handlers\<close>

text \<open>\<open>ends bad h good db\<close>: run on \<open>db\<close>, the handler leaves a state in \<open>bad\<close> when it refuses and a value and state in \<open>good\<close> otherwise.\<close>

definition ends :: "(registry \<Rightarrow> bool) \<Rightarrow> 'a handler \<Rightarrow> ('a \<Rightarrow> registry \<Rightarrow> bool) \<Rightarrow> registry \<Rightarrow> bool" where
  "ends bad h good db = (case h db of (Inl e, db') \<Rightarrow> bad db' | (Inr x, db') \<Rightarrow> good x db')"

named_theorems ends_simps

lemma ends_reply [simp, ends_simps]: "ends bad (reply x) good = good x"
  by (rule ext) (simp add: ends_def reply_def)

lemma ends_refuse [simp, ends_simps]: "ends bad (refuse e) good db = bad db"
  by (simp add: ends_def refuse_def)

lemma ends_andThen [simp, ends_simps]: "ends bad (andThen m k) good = ends bad m (\<lambda>x. ends bad (k x) good)"
  by (rule ext) (auto simp: ends_def andThen_def split: prod.splits sum.splits)

lemma ends_ask [simp, ends_simps]: "ends bad (ask f) good db = (case f db of Inl _ \<Rightarrow> bad db | Inr x \<Rightarrow> good x db)"
  by (simp add: ends_def ask_def split: sum.splits)

lemma ends_change [simp, ends_simps]: "ends bad (change f) good db = good () (f db)"
  by (simp add: ends_def change_def)

lemma ends_statement [simp, ends_simps]:
  "ends bad (statement e f) good db = (case f db of Inl _ \<Rightarrow> bad db | Inr (x, db') \<Rightarrow> good x db')"
  by (auto simp: ends_def statement_def split: sum.splits prod.splits)

lemma ends_guarded [simp, ends_simps]: "ends bad (guarded c h) good db = (case c of Inl _ \<Rightarrow> bad db | Inr _ \<Rightarrow> ends bad h good db)"
  by (simp add: guarded_def split: sum.splits)

lemma ends_with_pg [simp, ends_simps]:
  "ends bad (with_pg e u h) good db = (if ce_link e = Connected then ends bad h good db else bad db)"
  by (simp add: with_pg_def split: link.splits)

lemma ends_internal [simp, ends_simps]:
  "ends bad (internal f) good db = (case f db of (Inl m, db') \<Rightarrow> bad db' | (Inr x, db') \<Rightarrow> good x db')"
  by (auto simp: ends_def internal_def split: prod.splits sum.splits)

lemma ends_audit [simp, ends_simps]:
  "ends bad (audit_h p org ds action info) good db = good () (put_access (audit (pr_actor p) (Some org) ds action info (access_of db)) db)"
  by (simp add: audit_h_def)

lemma ends_org [simp, ends_simps]: "ends bad (org_h org) good db = (case get_org org (access_of db) of None \<Rightarrow> bad db | Some g \<Rightarrow> good g db)"
  by (simp add: org_h_def org_or_404_def split: option.splits)

lemma ends_dataset [simp, ends_simps]:
  "ends bad (dataset_h g ds) good db = (case get_dataset (og_id g) ds (rg_jobs db) of None \<Rightarrow> bad db | Some d \<Rightarrow> good d db)"
  by (simp add: dataset_h_def dataset_or_404_def split: option.splits)

lemma ends_with_dataset [simp, ends_simps]:
  "ends bad (with_dataset e u org ds run) good db =
     (if ce_link e = Connected then
        (case get_org org (access_of db) of None \<Rightarrow> bad db | Some g \<Rightarrow>
          (case get_dataset (og_id g) ds (rg_jobs db) of None \<Rightarrow> bad db | Some d \<Rightarrow> ends bad (run g d) good db))
      else bad db)"
  by (simp add: with_dataset_def split: option.splits)

lemma ends_mono: "ends bad h good db \<Longrightarrow> (\<And>x db'. good x db' \<Longrightarrow> good' x db') \<Longrightarrow> (\<And>db'. bad db' \<Longrightarrow> bad' db') \<Longrightarrow> ends bad' h good' db"
  by (auto simp: ends_def split: prod.splits sum.splits)

lemma endsD: "ends bad h good db \<Longrightarrow> h db = (r, db') \<Longrightarrow> case r of Inl _ \<Rightarrow> bad db' | Inr x \<Rightarrow> good x db'"
  by (auto simp: ends_def split: sum.splits)

section \<open>The tables after an update\<close>

lemma put_tables [simp]:
  "orgs_of (put_orgs gs db) = gs" "datasets_of (put_orgs gs db) = datasets_of db" "jobs_of (put_orgs gs db) = jobs_of db"
  "rg_configs (put_orgs gs db) = rg_configs db" "rg_models (put_orgs gs db) = rg_models db" "rg_schedules (put_orgs gs db) = rg_schedules db"
  "rg_files (put_orgs gs db) = rg_files db"
  "orgs_of (put_datasets ds db) = orgs_of db" "datasets_of (put_datasets ds db) = ds" "jobs_of (put_datasets ds db) = jobs_of db"
  "rg_configs (put_datasets ds db) = rg_configs db" "rg_models (put_datasets ds db) = rg_models db" "rg_schedules (put_datasets ds db) = rg_schedules db"
  "rg_files (put_datasets ds db) = rg_files db"
  "orgs_of (put_access a db) = ac_orgs a" "datasets_of (put_access a db) = datasets_of db" "jobs_of (put_access a db) = jobs_of db"
  "rg_configs (put_access a db) = rg_configs db" "rg_models (put_access a db) = rg_models db" "rg_schedules (put_access a db) = rg_schedules db"
  "rg_files (put_access a db) = rg_files db"
  "orgs_of (put_job_rows js db) = orgs_of db" "datasets_of (put_job_rows js db) = datasets_of db" "jobs_of (put_job_rows js db) = js"
  "rg_configs (put_job_rows js db) = rg_configs db" "rg_models (put_job_rows js db) = rg_models db" "rg_schedules (put_job_rows js db) = rg_schedules db"
  "rg_files (put_job_rows js db) = rg_files db"
  "orgs_of (put_hooks h db) = ac_orgs (hk_access h)" "datasets_of (put_hooks h db) = hk_datasets h" "jobs_of (put_hooks h db) = jobs_of db"
  "rg_configs (put_hooks h db) = rg_configs db" "rg_models (put_hooks h db) = rg_models db" "rg_schedules (put_hooks h db) = rg_schedules db"
  "rg_files (put_hooks h db) = rg_files db"
  by (simp_all add: put_orgs_def put_datasets_def put_access_def put_hooks_def put_job_rows_def put_jobs_def)

lemma audit_orgs [simp]: "ac_orgs (audit actor org ds action info a) = ac_orgs a"
  by (simp add: audit_def)

lemma enqueue_never_panics: "enqueue now i org ds kind prio key params created_by tc js \<noteq> Panic"
  by (auto simp: enqueue_def enqueue_sql_def upsert_job_def checked_update_def Let_def list_ex_iff filter_empty_conv split: sum.splits prod.splits list.splits)

section \<open>The invariant\<close>

definition names_ok :: "registry \<Rightarrow> bool" where
  "names_ok db \<longleftrightarrow> distinct (map og_id (orgs_of db)) \<and> distinct (map og_name (orgs_of db)) \<and> distinct (map dt_id (datasets_of db))
     \<and> distinct (map (\<lambda>d. (dt_org_id d, dt_name d)) (datasets_of db)) \<and> dt_org_id ` set (datasets_of db) \<subseteq> og_id ` set (orgs_of db)"

definition defaulted :: "string set \<Rightarrow> registry \<Rightarrow> bool" where
  "defaulted names db \<longleftrightarrow> (\<forall>g \<in> set (orgs_of db). og_name g \<in> names \<or> (\<exists>d \<in> set (datasets_of db). dt_org_id d = og_id g \<and> dt_name d = ''default''))"

definition versions_ok :: "registry \<Rightarrow> bool" where
  "versions_ok db \<longleftrightarrow> distinct (map cv_id (rg_configs db)) \<and> cv_dataset_id ` set (rg_configs db) \<subseteq> dt_id ` set (datasets_of db)
     \<and> (\<forall>i. map cv_version (versions_of i db) = map int [1..<Suc (length (versions_of i db))])"

definition active_ok :: "registry \<Rightarrow> bool" where
  "active_ok db \<longleftrightarrow> (\<forall>d \<in> set (datasets_of db). \<forall>v. dt_active_config_version d = Some v \<longrightarrow>
     (\<exists>r \<in> set (rg_configs db). cv_dataset_id r = dt_id d \<and> cv_version r = v \<and> (cv_state r = Published \<or> v = 1)))"

definition registry_ok :: "registry \<Rightarrow> bool" where
  "registry_ok db \<longleftrightarrow> names_ok db \<and> defaulted {} db \<and> versions_ok db \<and> active_ok db \<and> models_ok (rg_models db) \<and> schedules_ok (rg_schedules db)"

lemmas registry_defs = registry_ok_def names_ok_def defaulted_def versions_ok_def versions_of_def active_ok_def

lemma other_tables [simp]:
  "registry_ok (put_job_rows js db) = registry_ok db"
  "ac_orgs a = orgs_of db \<Longrightarrow> registry_ok (put_access a db) = registry_ok db"
  "hk_access h = access_of db \<Longrightarrow> hk_datasets h = datasets_of db \<Longrightarrow> registry_ok (put_hooks h db) = registry_ok db"
  "registry_ok (db\<lparr>rg_files := fs\<rparr>) = registry_ok db" "registry_ok (db\<lparr>rg_memory := m\<rparr>) = registry_ok db"
  by (simp_all add: registry_defs)

lemma org_updates:
  assumes "\<And>g. og_id (f g) = og_id g \<and> og_name (f g) = og_name g"
  shows "registry_ok (put_orgs (map f (orgs_of db)) db) = registry_ok db"
  using assms by (simp add: registry_defs comp_def image_image)

lemma dataset_updates:
  assumes "\<And>d. dt_id (f d) = dt_id d \<and> dt_org_id (f d) = dt_org_id d \<and> dt_name (f d) = dt_name d \<and> dt_active_config_version (f d) = dt_active_config_version d"
  shows "registry_ok (put_datasets (map f (datasets_of db)) db) = registry_ok db"
  using assms by (simp add: registry_defs comp_def image_image)

lemma registry_updates [simp]:
  "registry_ok (snd (set_org_state e name new expected db)) = registry_ok db"
  "registry_ok (set_org_active_config e version name db) = registry_ok db"
  "registry_ok (merge_org_env e u name db) = registry_ok db"
  "registry_ok (merge_dataset_envs e u org_id db) = registry_ok db"
  "registry_ok (snd (set_dataset_state e org_id name new expected db)) = registry_ok db"
  "registry_ok (set_dataset_display_name e org_id name display_name db) = registry_ok db"
  unfolding set_org_state_def set_org_active_config_def merge_org_env_def merge_dataset_envs_def set_dataset_state_def set_dataset_display_name_def Let_def snd_conv
  by (rule org_updates dataset_updates, simp)+

lemma distinct_map_update: "(\<And>x. k (f x) = k x) \<Longrightarrow> distinct (map k (map f xs)) = distinct (map k xs)"
  by (simp add: comp_def)

lemma schedule_updates:
  assumes "\<And>s. sc_id (f s) = sc_id s \<and> sc_org_id (f s) = sc_org_id s \<and> sc_source (f s) = sc_source s"
  shows "schedules_ok (map f ss) = schedules_ok ss"
  using assms by (simp add: schedules_ok_def filter_map comp_def)

lemma parts_kept [simp]:
  "names_ok (db\<lparr>rg_schedules := ss\<rparr>) = names_ok db" "names_ok (db\<lparr>rg_models := ms\<rparr>) = names_ok db"
  "defaulted N (db\<lparr>rg_schedules := ss\<rparr>) = defaulted N db" "defaulted N (db\<lparr>rg_models := ms\<rparr>) = defaulted N db"
  "versions_ok (db\<lparr>rg_schedules := ss\<rparr>) = versions_ok db" "versions_ok (db\<lparr>rg_models := ms\<rparr>) = versions_ok db"
  "active_ok (db\<lparr>rg_schedules := ss\<rparr>) = active_ok db" "active_ok (db\<lparr>rg_models := ms\<rparr>) = active_ok db"
  by (simp_all add: names_ok_def defaulted_def versions_ok_def versions_of_def active_ok_def)

lemma distinct_map_filter_filter: "distinct (map k (filter Q xs)) \<Longrightarrow> distinct (map k (filter Q (filter P xs)))"
  by (induction xs) auto

lemma schedule_statements:
  "registry_ok db \<Longrightarrow> registry_ok (set_config_cron e cron ds source db)"
  "registry_ok db \<Longrightarrow> registry_ok (mark_schedule_enqueued now i db)"
  "registry_ok db \<Longrightarrow> registry_ok (snd (set_schedule_enabled e ds i b db))"
  "registry_ok db \<Longrightarrow> registry_ok (snd (delete_schedule_sql ds i db))"
  "registry_ok db \<Longrightarrow> insert_schedule row db = Inr (x, db') \<Longrightarrow> registry_ok db'"
proof -
  assume ok: "registry_ok db"
  then have s: "schedules_ok (rg_schedules db)" by (simp add: registry_ok_def)
  show "registry_ok (set_config_cron e cron ds source db)" "registry_ok (mark_schedule_enqueued now i db)"
      "registry_ok (snd (set_schedule_enabled e ds i b db))"
    unfolding set_config_cron_def mark_schedule_enqueued_def set_schedule_enabled_def Let_def snd_conv
    using ok s by (simp_all add: registry_ok_def schedule_updates)
  have "schedules_ok (filter P (rg_schedules db))" for P
    using s by (auto simp: schedules_ok_def distinct_map_filter simp del: filter_filter intro: distinct_map_filter_filter)
  then show "registry_ok (snd (delete_schedule_sql ds i db))"
    using ok by (simp add: delete_schedule_sql_def Let_def registry_ok_def)
  show "insert_schedule row db = Inr (x, db') \<Longrightarrow> registry_ok db'"
    using ok by (auto simp: insert_schedule_def registry_ok_def split: if_splits)
qed

lemma model_statements:
  assumes "registry_ok db"
  shows "create_model e i org_id ds name t json label tf prov by db = Inr (m, db') \<Longrightarrow> registry_ok db'"
    and "activate_model e i ds' db = Inr (x, db') \<Longrightarrow> registry_ok db'"
  using assms by (auto simp: create_model_def activate_model_def Let_def registry_ok_def split: option.splits if_splits)

lemma config_updates:
  assumes ok: "registry_ok db"
    and f: "\<And>v. cv_id (f v) = cv_id v" "\<And>v. cv_dataset_id (f v) = cv_dataset_id v" "\<And>v. cv_version (f v) = cv_version v"
    and p: "\<And>v. cv_state v = Published \<Longrightarrow> cv_state (f v) = Published"
  shows "registry_ok (db\<lparr>rg_configs := map f (rg_configs db)\<rparr>)" (is "registry_ok ?db")
proof -
  have vs: "versions_of i ?db = map f (versions_of i db)" for i by (simp add: versions_of_def filter_map comp_def f)
  have "versions_ok ?db" using ok by (simp add: registry_ok_def versions_ok_def vs comp_def f image_image del: upt_Suc)
  moreover have "active_ok ?db"
    unfolding active_ok_def
  proof (intro ballI allI impI)
    fix d v assume d: "d \<in> set (datasets_of ?db)" "dt_active_config_version d = Some v"
    then obtain r where "r \<in> set (rg_configs db)" "cv_dataset_id r = dt_id d" "cv_version r = v" "cv_state r = Published \<or> v = 1"
      using ok by (fastforce simp: registry_ok_def active_ok_def)
    with f p show "\<exists>r \<in> set (rg_configs ?db). cv_dataset_id r = dt_id d \<and> cv_version r = v \<and> (cv_state r = Published \<or> v = 1)" by auto
  qed
  ultimately show ?thesis using ok by (simp add: registry_ok_def names_ok_def defaulted_def)
qed

lemma publish_marks: "registry_ok db \<Longrightarrow> registry_ok (mark_published e tier ds version db)"
  unfolding mark_published_def by (erule config_updates) auto

lemma dataset_activations:
  assumes ok: "registry_ok db" and f: "\<And>d. dt_id (f d) = dt_id d" "\<And>d. dt_org_id (f d) = dt_org_id d" "\<And>d. dt_name (f d) = dt_name d"
    and a: "\<And>d v. dt_active_config_version (f d) = Some v \<Longrightarrow> dt_active_config_version d = Some v
        \<or> (\<exists>r \<in> set (rg_configs db). cv_dataset_id r = dt_id d \<and> cv_version r = v \<and> (cv_state r = Published \<or> v = 1))"
  shows "registry_ok (put_datasets (map f (datasets_of db)) db)" (is "registry_ok ?db")
proof -
  have "active_ok ?db"
    unfolding active_ok_def
  proof (intro ballI allI impI)
    fix d v assume d: "d \<in> set (datasets_of ?db)" "dt_active_config_version d = Some v"
    then obtain x where x: "x \<in> set (datasets_of db)" "d = f x" by auto
    then show "\<exists>r \<in> set (rg_configs ?db). cv_dataset_id r = dt_id d \<and> cv_version r = v \<and> (cv_state r = Published \<or> v = 1)"
      using a [of x v] d ok by (auto simp: registry_ok_def active_ok_def f)
  qed
  moreover have "versions_of i ?db = versions_of i db" for i by (simp add: versions_of_def)
  ultimately show ?thesis using ok
    by (simp add: registry_ok_def names_ok_def defaulted_def versions_ok_def comp_def f image_image del: upt_Suc)
qed

lemma set_active_keeps:
  assumes "registry_ok db" and "\<exists>r \<in> set (rg_configs db). cv_dataset_id r = i \<and> cv_version r = v \<and> (cv_state r = Published \<or> v = 1)"
  shows "registry_ok (set_dataset_active_config e v i db)"
  unfolding set_dataset_active_config_def using assms by (intro dataset_activations) (auto split: if_splits)

lemma max_version: "map cv_version vs = map int [1..<Suc n] \<Longrightarrow> fold max (map cv_version vs) 0 = int n"
proof -
  have "fold max (map int [1..<Suc n]) 0 = int n" by (induction n) auto
  then show "map cv_version vs = map int [1..<Suc n] \<Longrightarrow> fold max (map cv_version vs) 0 = int n" by (simp only:)
qed

lemma draft_keeps:
  assumes ok: "registry_ok db" and "draft e i org_id (Some ds) yaml hash by db = Inr (v, db')"
  shows "registry_ok db'" and "v = int (length (versions_of ds db)) + 1" and "datasets_of db' = datasets_of db" and "orgs_of db' = orgs_of db"
    and "\<exists>r \<in> set (rg_configs db'). cv_dataset_id r = ds \<and> cv_version r = v"
proof -
  have n: "fold max (map cv_version (versions_of ds db)) 0 = int (length (versions_of ds db))"
  proof (rule max_version)
    show "map cv_version (versions_of ds db) = map int [1..<Suc (length (versions_of ds db))]"
      using ok unfolding registry_ok_def versions_ok_def by blast
  qed
  show v: "v = int (length (versions_of ds db)) + 1" and t: "datasets_of db' = datasets_of db" "orgs_of db' = orgs_of db"
    and "\<exists>r \<in> set (rg_configs db'). cv_dataset_id r = ds \<and> cv_version r = v"
    using assms(2) n by (auto simp: draft_def Let_def split: if_splits)
  obtain row where row: "rg_configs db' = rg_configs db @ [row]" "cv_id row = i" "cv_dataset_id row = ds" "cv_version row = v"
    "i \<notin> cv_id ` set (rg_configs db)" "ds \<in> dt_id ` set (datasets_of db)" "rg_models db' = rg_models db" "rg_schedules db' = rg_schedules db"
    using assms(2) by (auto simp: draft_def Let_def split: if_splits)
  have vs: "versions_of k db' = (if k = ds then versions_of ds db @ [row] else versions_of k db)" for k
    by (simp add: versions_of_def row)
  have old: "map cv_version (versions_of k db) = map int [1..<Suc (length (versions_of k db))]" for k
    using ok unfolding registry_ok_def versions_ok_def by blast
  have "map cv_version (versions_of k db') = map int [1..<Suc (length (versions_of k db'))]" for k
    using old [of k] row(4) v upt_Suc_append [of 1 "Suc (length (versions_of k db))"] by (cases "k = ds") (simp_all add: vs del: upt_Suc)
  then have "versions_ok db'" using ok row unfolding registry_ok_def versions_ok_def t by auto
  moreover have "active_ok db'" using ok row unfolding registry_ok_def active_ok_def t by fastforce
  ultimately show "registry_ok db'" using ok by (simp add: registry_ok_def names_ok_def defaulted_def t row)
qed

section \<open>Creating rows\<close>

text \<open>The invariant while an organization still waits for its default dataset.\<close>

definition awaiting :: "string \<Rightarrow> registry \<Rightarrow> bool" where
  "awaiting name db \<longleftrightarrow> names_ok db \<and> defaulted {name} db \<and> versions_ok db \<and> active_ok db \<and> models_ok (rg_models db) \<and> schedules_ok (rg_schedules db)
     \<and> (\<forall>g \<in> set (orgs_of db). og_name g = name \<and> og_active_config_version g \<noteq> None \<longrightarrow>
          (\<exists>d \<in> set (datasets_of db). dt_org_id d = og_id g \<and> dt_name d = ''default''))"

lemma awaiting_audit [simp]: "ac_orgs a = orgs_of db \<Longrightarrow> awaiting name (put_access a db) = awaiting name db"
  by (simp add: awaiting_def names_ok_def defaulted_def versions_ok_def versions_of_def active_ok_def)

lemma upsert_cases:
  assumes "upsert_byo e i name path env drop0 bucket pre db = Inr (x, db')"
  obtains f where "db' = put_orgs (map f (orgs_of db)) db" "\<And>g. og_id (f g) = og_id g" "\<And>g. og_name (f g) = og_name g"
      "\<And>g. og_state (f g) = og_state g" "\<And>g. og_active_config_version (f g) = og_active_config_version g" "name \<in> og_name ` set (orgs_of db)"
  | g where "db' = put_orgs (orgs_of db @ [g]) db" "og_name g = name" "og_id g = i" "i \<notin> og_id ` set (orgs_of db)" "og_active_config_version g = None"
      "og_state g = Active" "name \<notin> og_name ` set (orgs_of db)"
proof (cases "name \<in> og_name ` set (orgs_of db)")
  case True
  then show ?thesis using assms that(1) [of "\<lambda>g. if og_name g = name
         then g\<lparr>og_config_path := path, og_env := env, og_drop_root := drop0, og_s3_ingest_bucket := bucket,
                og_s3_ingest_prefix := pre, og_updated_at := ce_now e\<rparr> else g"] by (simp add: upsert_byo_def)
next
  case False
  then show ?thesis using assms that(2) by (auto simp: upsert_byo_def split: if_splits)
qed

lemma upsert_awaits:
  assumes "registry_ok db" and "upsert_byo e i name path env drop0 bucket pre db = Inr (x, db')"
  shows "awaiting name db' \<and> name \<in> og_name ` set (orgs_of db') \<and> datasets_of db' = datasets_of db"
  using assms(2)
proof (cases rule: upsert_cases)
  case (1 f)
  then have "registry_ok db'" using org_updates [of f] assms(1) by simp
  moreover have "og_name ` set (orgs_of db') = og_name ` set (orgs_of db)" by (simp add: 1(1,3) image_image)
  ultimately show ?thesis using 1(6) by (auto simp: 1(1) registry_ok_def awaiting_def defaulted_def)
next
  case (2 g)
  then show ?thesis using assms(1) by (auto simp: registry_defs awaiting_def)
qed

lemma ensure_dataset_cases:
  assumes "ensure_dataset e i org_id name dn t path env drop0 bucket pre version state db = Inr (n, db')"
  obtains "n = 0" "db' = db" "(org_id, name) \<in> (\<lambda>d. (dt_org_id d, dt_name d)) ` set (datasets_of db)"
  | d where "n = 1" "db' = put_datasets (datasets_of db @ [d]) db" "dt_id d = i" "dt_org_id d = org_id" "dt_name d = name"
      "dt_active_config_version d = version" "dt_state d = state" "dt_config_path d = path"
      "i \<notin> dt_id ` set (datasets_of db)" "org_id \<in> og_id ` set (orgs_of db)" "(org_id, name) \<notin> (\<lambda>d. (dt_org_id d, dt_name d)) ` set (datasets_of db)"
  using assms by (auto simp: ensure_dataset_def split: if_splits)

lemma new_dataset_parts:
  assumes "names_ok db" "versions_ok db" "active_ok db" "dt_id d \<notin> dt_id ` set (datasets_of db)" "dt_org_id d \<in> og_id ` set (orgs_of db)"
    "(dt_org_id d, dt_name d) \<notin> (\<lambda>d. (dt_org_id d, dt_name d)) ` set (datasets_of db)" "dt_active_config_version d = None"
  shows "names_ok (put_datasets (datasets_of db @ [d]) db)" "versions_ok (put_datasets (datasets_of db @ [d]) db)" "active_ok (put_datasets (datasets_of db @ [d]) db)"
  using assms by (auto simp: names_ok_def versions_ok_def versions_of_def active_ok_def simp del: upt_Suc)

lemma ensure_dataset_keeps:
  assumes "registry_ok db" and "ensure_dataset e i org_id name dn t path env drop0 bucket pre None state db = Inr (n, db')"
  shows "registry_ok db'"
  using assms(2)
proof (cases rule: ensure_dataset_cases)
  case 1
  then show ?thesis using assms(1) by simp
next
  case (2 d)
  then show ?thesis using assms(1) new_dataset_parts [of db d] by (auto simp: registry_ok_def defaulted_def)
qed

lemma converge_completes:
  assumes "awaiting name db" and "i \<notin> dt_id ` set (datasets_of db)"
  shows "case ensure_default_dataset_by_name e i name db of Inl _ \<Rightarrow> registry_ok db | Inr db' \<Rightarrow> registry_ok db'"
proof (cases "find (\<lambda>g. og_name g = name) (orgs_of db)")
  case None
  then have "defaulted {} db" using assms(1) by (auto simp: awaiting_def defaulted_def find_None_iff)
  with None assms(1) show ?thesis by (simp add: ensure_default_dataset_by_name_def registry_ok_def awaiting_def)
next
  case (Some g)
  then have g: "g \<in> set (orgs_of db)" "og_name g = name" by (auto simp: find_Some_iff)
  let ?has = "\<exists>d \<in> set (datasets_of db). dt_org_id d = og_id g \<and> dt_name d = ''default''"
  have uniq: "x = g" if "x \<in> set (orgs_of db)" "og_name x = name" for x
    using assms(1) that g by (auto simp: awaiting_def names_ok_def distinct_map dest: inj_onD)
  have all: "defaulted {} db" if ?has
    using assms(1) that uniq by (auto simp: awaiting_def defaulted_def)
  show ?thesis
  proof (cases ?has)
    case True
    then have ok: "registry_ok db" using all assms(1) by (simp add: awaiting_def registry_ok_def)
    have "(og_id g, ''default'') \<in> (\<lambda>d. (dt_org_id d, dt_name d)) ` set (datasets_of db)" using True by force
    then have "ensure_dataset e i (og_id g) ''default'' None t (og_config_path g) (og_env g) (og_drop_root g) (og_s3_ingest_bucket g)
        (og_s3_ingest_prefix g) (og_active_config_version g) (og_state g) db \<in> {Inl CheckViolation, Inr (0, db)}" for t
      by (simp add: ensure_dataset_def)
    then show ?thesis using ok Some
      by (auto simp: ensure_default_dataset_by_name_def ensure_default_dataset_for_def split: sum.splits prod.splits) (metis Inl_Inr_False Inr_inject insertE prod.inject singletonD)
  next
    case False
    then have n: "og_active_config_version g = None" using assms(1) g by (auto simp: awaiting_def)
    have fresh: "(og_id g, ''default'') \<notin> (\<lambda>d. (dt_org_id d, dt_name d)) ` set (datasets_of db)" using False by auto
    have "default_entity_type e g db = Inr ''person''" by (simp add: default_entity_type_def n)
    then obtain d where d: "ensure_default_dataset_by_name e i name db = Inr (put_datasets (datasets_of db @ [d]) db)"
      "dt_id d = i" "dt_org_id d = og_id g" "dt_name d = ''default''" "dt_active_config_version d = None"
      using Some fresh assms(2) g(1) n by (auto simp: ensure_default_dataset_by_name_def ensure_default_dataset_for_def ensure_dataset_def)
    have "defaulted {} (put_datasets (datasets_of db @ [d]) db)"
      using assms(1) d uniq by (auto simp: awaiting_def defaulted_def)
    then show ?thesis using assms d g(1) fresh new_dataset_parts [of db d] by (auto simp: registry_ok_def awaiting_def)
  qed
qed

section \<open>Handlers keep the invariant\<close>

definition keeps :: "'a handler \<Rightarrow> bool" where
  "keeps h \<longleftrightarrow> (\<forall>db. registry_ok db \<longrightarrow> ends registry_ok h (\<lambda>_. registry_ok) db)"

lemma keepsD: "keeps h \<Longrightarrow> registry_ok db \<Longrightarrow> h db = (r, db') \<Longrightarrow> registry_ok db'"
  unfolding keeps_def by (drule spec, drule mp, assumption, drule endsD, assumption) (simp split: sum.splits)

lemma ends_enqueue:
  assumes "bad db" and "\<And>j js. good j (put_job_rows js db)"
  shows "ends bad (enqueue_h e k org_id ds kind prio key params by tc) good db"
  using assms by (auto simp: ends_def enqueue_h_def split: outcome.splits sum.splits prod.splits)

lemma enqueue_delivery_keeps:
  "enqueue_delivery now i org_id ds w ev body n db = Some (rows, db') \<Longrightarrow> hk_access db' = hk_access db \<and> hk_datasets db' = hk_datasets db"
  by (auto simp: enqueue_delivery_def Let_def split: if_splits)

lemma enqueue_all_keeps:
  "hk_access (snd (enqueue_all now mint i org_id ds ev body ts db)) = hk_access db \<and> hk_datasets (snd (enqueue_all now mint i org_id ds ev body ts db)) = hk_datasets db"
proof (induction now mint i org_id ds ev body ts db rule: enqueue_all.induct)
  case (2 now mint i org_id ds ev body w u t ts db)
  show ?case
  proof (cases "enqueue_delivery now (mint i) org_id ds w ev body MAX_DELIVERY_ATTEMPTS db")
    case (Some a)
    obtain rows db1 where a: "a = (rows, db1)" by (cases a)
    have kept: "hk_access db1 = hk_access db" "hk_datasets db1 = hk_datasets db" using enqueue_delivery_keeps [OF Some [unfolded a]] by simp_all
    obtain q db2 where rest: "enqueue_all now mint (Suc i) org_id ds ev body ts db1 = (q, db2)" by fastforce
    have "hk_access db2 = hk_access db1 \<and> hk_datasets db2 = hk_datasets db1" using 2 [OF Some a [symmetric]] rest by simp
    then show ?thesis using Some a kept rest by (cases q) simp_all
  qed simp
qed simp

lemma emit_keeps [simp]:
  "hk_access (snd (emit now mint org_id ds name ev data db)) = hk_access db" "hk_datasets (snd (emit now mint org_id ds name ev data db)) = hk_datasets db"
  using enqueue_all_keeps by (auto simp: emit_def Let_def)

lemma workspace_files: "\<exists>fs. snd (create_workspace e p t db) = db\<lparr>rg_files := fs\<rparr>"
  by (auto simp: create_workspace_def split: option.splits sum.splits intro: exI [of _ "rg_files db"])

lemma config_file_files: "\<exists>fs. snd (write_config_file e path yaml db) = db\<lparr>rg_files := fs\<rparr>"
  by (auto simp: write_config_file_def split: option.splits intro: exI [of _ "rg_files db"])

lemma publish_version_keeps:
  assumes "registry_ok db" and "\<exists>r \<in> set (rg_configs db). cv_dataset_id r = ds \<and> cv_version r = v"
  shows "registry_ok (publish_version e org ds v tier db)"
proof -
  have "\<exists>r \<in> set (rg_configs (mark_published e tier ds v db)). cv_dataset_id r = ds \<and> cv_version r = v \<and> (cv_state r = Published \<or> v = 1)"
  proof -
    obtain r where r: "r \<in> set (rg_configs db)" "cv_dataset_id r = ds" "cv_version r = v" using assms(2) by blast
    let ?r = "r\<lparr>cv_state := Published, cv_tier := tier, cv_published_at := Some (ce_now e), cv_updated_at := ce_now e\<rparr>"
    have "?r \<in> set (rg_configs (mark_published e tier ds v db))" using r unfolding mark_published_def by (auto simp: image_iff intro!: bexI [of _ r])
    then show ?thesis using r by (intro bexI [of _ ?r]) simp_all
  qed
  then show ?thesis using set_active_keeps [OF publish_marks [OF assms(1)]] by (simp add: publish_version_def)
qed

lemma ends_workspace:
  assumes "\<And>fs. bad (db\<lparr>rg_files := fs\<rparr>)" and "\<And>fs. good () (db\<lparr>rg_files := fs\<rparr>)"
  shows "ends bad (internal (create_workspace e p t)) good db"
  using assms workspace_files [of e p t db] by (auto split: prod.splits sum.splits)

lemma ends_converge:
  assumes "awaiting name db" and "ce_mint e k \<notin> dt_id ` set (datasets_of db)" and "\<And>db'. registry_ok db' \<Longrightarrow> good () db'"
  shows "ends registry_ok (converge_h e k name) good db"
  using converge_completes [OF assms(1,2), of e] assms(3) by (auto simp: ends_def converge_h_def split: sum.splits)

lemma ends_draft:
  assumes "registry_ok db"
    and "\<And>v db'. registry_ok db' \<Longrightarrow> (\<And>d. ds = Some d \<Longrightarrow> \<exists>r \<in> set (rg_configs db'). cv_dataset_id r = d \<and> cv_version r = v) \<Longrightarrow> good v db'"
  shows "ends registry_ok (statement e (draft e i org_id ds yaml hash by)) good db"
proof (cases ds)
  case None
  then show ?thesis using assms(1) by (simp add: draft_def)
next
  case (Some d)
  show ?thesis
  proof (cases "draft e i org_id ds yaml hash by db")
    case (Inr a)
    then obtain v db' where "draft e i org_id (Some d) yaml hash by db = Inr (v, db')" using Some by (cases a) auto
    with draft_keeps [OF assms(1) this] assms(2) [of db' v] Some show ?thesis by simp
  qed (use assms(1) in simp)
qed

lemma awaiting_orgs:
  assumes "awaiting name db" and "\<And>g. og_id (f g) = og_id g" "\<And>g. og_name (f g) = og_name g" "\<And>g. og_active_config_version (f g) = og_active_config_version g"
  shows "awaiting name (put_orgs (map f (orgs_of db)) db)"
  using assms by (simp add: awaiting_def names_ok_def defaulted_def versions_ok_def versions_of_def active_ok_def comp_def image_image del: upt_Suc)

lemma awaiting_state: "awaiting name db \<Longrightarrow> awaiting name (snd (set_org_state e n new expected db))"
  unfolding set_org_state_def Let_def snd_conv by (erule awaiting_orgs) auto

lemma seed_model_keeps: "registry_ok db \<Longrightarrow> registry_ok (snd (seed_model e actor env path json ds g t db))"
  by (auto simp: seed_model_def Let_def split: sum.splits prod.splits dest: model_statements)

lemma seed_keeps: "registry_ok db \<Longrightarrow> registry_ok (snd (seed_starter_model e org env actor db))"
  by (simp add: seed_starter_model_def seed_model_keeps split: option.splits sum.splits)

lemma ends_flag [simp]:
  "ends bad (\<lambda>db. case f db of (True, db') \<Rightarrow> h db' | (False, db') \<Rightarrow> h' db') good db =
     (if fst (f db) then ends bad h good (snd (f db)) else ends bad h' good (snd (f db)))"
  by (simp add: ends_def split: prod.splits bool.splits)

lemma ends_answers [simp]:
  "ends bad (Pair (Inr x)) good db = good x db" "ends bad (Pair (Inl y)) good db = bad db"
  "ends bad (\<lambda>db. case f db of (b, db') \<Rightarrow> (Inr b, db')) good db = good (fst (f db)) (snd (f db))"
  by (simp_all add: ends_def split: prod.splits bool.splits)

lemma transitions_keep:
  "keeps (transition_org e p org new expected msg)" "keeps (transition_dataset e p org ds new expected msg)"
  "keeps (update_dataset e p org ds dn)" "keeps (update_resources e show_int p org threads memory)"
  by (simp_all add: keeps_def transition_org_def transition_dataset_def update_dataset_def update_resources_def Let_def split: sum.splits option.splits)

lemma create_config_version_keeps: "keeps (create_config_version e p org ds yaml)"
  by (auto simp: keeps_def create_config_version_def split: sum.splits option.splits dest: draft_keeps)

lemma model_routes_keep: "keeps (create_model_version e show_int p org ds body)" "keeps (activate_model_version e show_int p org ds name version)"
  by (auto simp: keeps_def create_model_version_def activate_model_version_def split: sum.splits option.splits dest: model_statements)

lemma job_route_keeps: "keeps (create_job e show_int p org ds body)"
  by (auto simp: keeps_def create_job_def segment_params_def ends_def [of _ "enqueue_traced a b c d f" for a b c d f] enqueue_traced_def Let_def
      split: sum.splits option.splits link.splits prod.splits intro!: ends_enqueue)

lemma schedule_routes_keep:
  "keeps (update_schedule e p org ds i enabled)" "keeps (delete_schedule e p org ds i)"
  "create_schedule e checked p org ds kind cron params = Some h \<Longrightarrow> keeps h"
proof -
  show "keeps (update_schedule e p org ds i enabled)" "keeps (delete_schedule e p org ds i)"
    by (auto simp: keeps_def update_schedule_def delete_schedule_def schedule_statements split: sum.splits option.splits)
  show "create_schedule e checked p org ds kind cron params = Some h \<Longrightarrow> keeps h"
    by (auto simp: keeps_def create_schedule_def create_schedule_sql_def split: sum.splits option.splits prod.splits if_splits bool.splits dest: schedule_statements(5))
qed

lemma rebuild_jobs_keep:
  assumes "bad db" and "\<And>js rows. good js (put_job_rows rows db)" and "\<And>rows. bad (put_job_rows rows db)" and "\<And>js. good js db"
  shows "ends bad (rebuild_jobs e p g d version tier) good db"
proof -
  have twice: "put_job_rows r2 (put_job_rows r1 db) = put_job_rows r2 db" for r1 r2 by (simp add: put_job_rows_def put_jobs_def)
  show ?thesis using assms by (auto simp: rebuild_jobs_def Let_def twice intro!: ends_enqueue)
qed

lemma publish_writes_keep:
  assumes "registry_ok db" and "row \<in> set (rg_configs db)" "cv_dataset_id row = dt_id d"
  shows "ends registry_ok (publish_writes e show_int mint p org g d row c tier changed) (\<lambda>_. registry_ok) db"
proof -
  obtain r fs where w: "write_config_file e (og_config_path g) (cv_yaml row) db = (r, db\<lparr>rg_files := fs\<rparr>)"
    using config_file_files [of e "og_config_path g" "cv_yaml row" db] by (metis prod.collapse)
  have ok: "registry_ok (publish_version e org (dt_id d) (cv_version row) tier (db\<lparr>rg_files := fs\<rparr>))"
    using assms by (intro publish_version_keeps) auto
  have jobs: "ends registry_ok (rebuild_jobs e p g d version tier) (\<lambda>js. good js) db'"
    if "registry_ok db'" "\<And>js db'. registry_ok db' \<Longrightarrow> good js db'" for db' version good
    using that by (intro rebuild_jobs_keep) simp_all
  show ?thesis
    using w ok assms(1)
    by (simp add: publish_writes_def ends_def [of _ "\<lambda>db. case write_config_file a b c db of (Inl m, db') \<Rightarrow> h1 m db' | (Inr x, db') \<Rightarrow> h2 x db'" for a b c h1 h2]
        ensure_correction_schedule_def ensure_config_owned_def Let_def split: sum.splits prod.splits)
      (auto intro!: jobs dest: schedule_statements)
qed

lemma find_hit: "find P xs = Some x \<Longrightarrow> x \<in> set xs \<and> P x"
  by (induction xs) (auto split: if_splits)

lemma get_config_versionD:
  "get_config_version i v db = Some row \<Longrightarrow> row \<in> set (rg_configs db) \<and> cv_dataset_id row = i \<and> cv_version row = v"
  by (auto simp: get_config_version_def versions_of_def dest!: find_hit)

lemma publish_keeps: "keeps (publish_config_version e show_int mint p org ds version)"
  unfolding keeps_def
proof (intro allI impI)
  fix db assume ok: "registry_ok db"
  have "ends registry_ok (publish_writes e show_int mint p org g d row c tier changed) (\<lambda>_. registry_ok) db"
    if "get_config_version (dt_id d) v db = Some row" for g d v row c tier changed
    using publish_writes_keep ok get_config_versionD [OF that] by blast
  then show "ends registry_ok (publish_config_version e show_int mint p org ds version) (\<lambda>_. registry_ok) db"
    using ok by (auto simp: publish_config_version_def split: sum.splits option.splits prod.splits)
qed

lemma marked_versions:
  "(\<lambda>r. (cv_dataset_id r, cv_version r)) ` set (rg_configs (mark_published e tier k v db)) = (\<lambda>r. (cv_dataset_id r, cv_version r)) ` set (rg_configs db)"
proof -
  have "(\<lambda>r. (cv_dataset_id r, cv_version r)) ` f ` S = (\<lambda>r. (cv_dataset_id r, cv_version r)) ` S"
    if "\<And>r. cv_dataset_id (f r) = cv_dataset_id r" "\<And>r. cv_version (f r) = cv_version r" for f :: "config_version \<Rightarrow> config_version" and S
    by (simp add: image_image that)
  note keys = this
  have "rg_configs (mark_published e tier k v db) = map (\<lambda>w. if cv_dataset_id w = k \<and> cv_version w = v
      then w\<lparr>cv_state := Published, cv_tier := tier, cv_published_at := Some (ce_now e), cv_updated_at := ce_now e\<rparr> else w) (rg_configs db)"
    by (simp add: mark_published_def)
  then show ?thesis unfolding set_map by (simp only: set_map) (rule keys; simp)
qed

lemma fresh_dataset_activates:
  assumes ok: "registry_ok db" and fresh: "i \<notin> dt_id ` set (datasets_of db)"
    and new: "ensure_dataset e i org_id name dn t path env drop0 bucket pre None state db = Inr (n, db1)"
    and drafted: "draft e j org_id (Some i) yaml hash by db1 = Inr (v, db2)"
  shows "v = 1" and "registry_ok (set_dataset_active_config e v i (mark_published e tier k v db2))"
proof -
  have db1: "registry_ok db1" using ensure_dataset_keeps [OF ok new] .
  have "rg_configs db1 = rg_configs db" using new by (cases rule: ensure_dataset_cases) simp_all
  moreover have "versions_of i db = []"
    using ok fresh by (auto simp: registry_ok_def versions_ok_def versions_of_def filter_empty_conv)
  ultimately have "versions_of i db1 = []" by (simp add: versions_of_def)
  then show v: "v = 1" using draft_keeps(2) [OF db1 drafted] by simp
  obtain r where r: "r \<in> set (rg_configs db2)" "cv_dataset_id r = i" "cv_version r = v" using draft_keeps(5) [OF db1 drafted] by blast
  have "\<exists>r \<in> set (rg_configs (mark_published e tier k v db2)). cv_dataset_id r = i \<and> cv_version r = v \<and> (cv_state r = Published \<or> v = 1)"
  proof -
    have "(i, v) \<in> (\<lambda>r. (cv_dataset_id r, cv_version r)) ` set (rg_configs (mark_published e tier k v db2))"
      unfolding marked_versions using r by force
    then show ?thesis using v by auto
  qed
  then show "registry_ok (set_dataset_active_config e v i (mark_published e tier k v db2))"
    using set_active_keeps [OF publish_marks [OF draft_keeps(1) [OF db1 drafted]]] by blast
qed

lemma provision_rows_keep:
  assumes "registry_ok db" and "get_dataset (og_id g) (di_name body) (rg_jobs db) = None"
  shows "ends registry_ok (provision_dataset_rows e p lp org body t g starter hash) (\<lambda>_. registry_ok) db"
proof (cases "ensure_dataset e (ce_mint e 0) (og_id g) (di_name body) (di_display_name body) t (lp_config_path lp) (env_json lp)
    (Some (lp_drop_root lp)) None None None Provisioning db")
  case (Inr a)
  then obtain n db1 where new: "ensure_dataset e (ce_mint e 0) (og_id g) (di_name body) (di_display_name body) t (lp_config_path lp) (env_json lp)
      (Some (lp_drop_root lp)) None None None Provisioning db = Inr (n, db1)" by (cases a) simp
  then have fresh: "ce_mint e 0 \<notin> dt_id ` set (datasets_of db)"
    using assms(2) by (cases rule: ensure_dataset_cases) (auto simp: get_dataset_def find_None_iff)
  have db1: "registry_ok db1" using ensure_dataset_keeps [OF assms(1) new] .
  show ?thesis
  proof (cases "draft e (ce_mint e 1) (og_id g) (Some (ce_mint e 0)) starter hash (pr_actor p) db1")
    case (Inr b)
    then obtain v db2 where d: "draft e (ce_mint e 1) (og_id g) (Some (ce_mint e 0)) starter hash (pr_actor p) db1 = Inr (v, db2)" by (cases b) simp
    from fresh_dataset_activates(2) [OF assms(1) fresh new d] new d show ?thesis
      by (auto simp: provision_dataset_rows_def Let_def intro!: ends_enqueue)
  qed (use new db1 in \<open>simp add: provision_dataset_rows_def Let_def\<close>)
qed (use assms(1) in \<open>simp add: provision_dataset_rows_def Let_def\<close>)

lemma auto_dataset_keeps: "keeps (auto_dataset e p f org body t)"
  unfolding keeps_def
proof (intro allI impI)
  fix db assume ok: "registry_ok db"
  have rows: "ends registry_ok (provision_dataset_rows e p lp org body t g starter hash) (\<lambda>_. registry_ok) (db\<lparr>rg_files := fs\<rparr>)"
    if "get_dataset (og_id g) (di_name body) (rg_jobs db) = None" for lp g starter hash fs
    using ok that by (intro provision_rows_keep) simp_all
  show "ends registry_ok (auto_dataset e p f org body t) (\<lambda>_. registry_ok) db"
    using ok rows unfolding auto_dataset_def Let_def
    by (auto split: sum.splits option.splits if_splits intro!: ends_workspace simp del: ends_internal)
      (auto split: sum.splits option.splits if_splits)
qed

lemma create_dataset_keeps: "keeps (create_dataset e prov show_error p org body)"
proof -
  have "keeps (byo_dataset e p org body t path)" for t path
    by (auto simp: keeps_def byo_dataset_def split: sum.splits option.splits dest: ensure_dataset_keeps)
  then show ?thesis using auto_dataset_keeps unfolding keeps_def
    by (auto simp: create_dataset_def Let_def split: sum.splits option.splits)
qed

lemma converge_idle:
  assumes "registry_ok db" and "set gs \<subseteq> set (orgs_of db)" and "converge_all e k gs db = Inr db'"
  shows "db' = db"
  using assms(2,3)
proof (induction gs arbitrary: k)
  case (Cons g gs)
  have "(og_id g, ''default'') \<in> (\<lambda>d. (dt_org_id d, dt_name d)) ` set (datasets_of db)"
    using assms(1) Cons.prems(1) by (force simp: registry_ok_def defaulted_def)
  then have "ensure_default_dataset_for e (ce_mint e k) g db = Inr db1 \<Longrightarrow> db1 = db" for db1
    by (auto simp: ensure_default_dataset_for_def ensure_dataset_def split: sum.splits if_splits)
  then show ?case using Cons by (auto split: sum.splits)
qed simp

lemma tick_keeps: "registry_ok db \<Longrightarrow> registry_ok (snd (tick_loop checked now t mk mint k ss n db))"
proof (induction ss arbitrary: k n db)
  case (Cons s ss)
  have "registry_ok (snd (tick_loop checked now t mk mint (Suc k) ss m (mark_schedule_enqueued now i (put_job_rows js db))))"
      "registry_ok (snd (tick_loop checked now t mk mint (Suc k) ss m (put_job_rows js db)))"
      "registry_ok (snd (tick_loop checked now t mk mint k ss m db))" for m i js
    using Cons.prems by (simp_all add: Cons.IH schedule_statements(2))
  with Cons.prems show ?case by (simp add: Let_def split: option.split outcome.split sum.split prod.split)
qed simp

lemma get_orgD: "get_org name a = Some g \<Longrightarrow> g \<in> set (ac_orgs a) \<and> og_name g = name"
  unfolding get_org_def by (drule find_hit) simp

lemma ends_issue_key [simp]:
  "registry_ok db \<Longrightarrow> (\<And>x a. ac_orgs a = orgs_of db \<Longrightarrow> good x (put_access a db)) \<Longrightarrow> ends registry_ok (issue_key_h e k org_id r) good db"
  by (auto simp: issue_key_h_def issue_key_def issue_sql_def Let_def split: option.splits sum.splits if_splits prod.splits)

lemma provision_finish_keeps:
  assumes "registry_ok db" "\<exists>r \<in> set (rg_configs db). cv_dataset_id r = ds_id \<and> cv_version r = version"
  shows "ends registry_ok (provision_finish e p f name g version ds_id) (\<lambda>_. registry_ok) db"
  using publish_version_keeps [OF assms, of e name "Some ''C''"]
  by (auto simp: provision_finish_def intro!: ends_issue_key ends_enqueue split: prod.splits)

lemma provision_drafted_keeps:
  assumes "registry_ok db" "\<And>d. ds = Some d \<Longrightarrow> \<exists>r \<in> set (rg_configs db). cv_dataset_id r = d \<and> cv_version r = v"
  shows "ends registry_ok (provision_drafted e p f name g ds v) (\<lambda>_. registry_ok) db"
  unfolding provision_drafted_def ends_andThen
  using assms by (intro ends_workspace) (simp_all add: provision_finish_keeps split: option.split)

lemma provision_rest_keeps:
  assumes "awaiting name db" and "ce_mint e 1 \<notin> dt_id ` set (datasets_of db)"
  shows "ends registry_ok (provision_rest e p f name yaml c g) (\<lambda>_. registry_ok) db"
  unfolding provision_rest_def ends_andThen
proof (rule ends_converge [OF assms])
  fix db1 assume ok: "registry_ok db1"
  then show "ends registry_ok (ask (\<lambda>db. Inr (default_dataset_id (og_id g) db))) (\<lambda>ds.
      ends registry_ok (statement e (draft e (ce_mint e 2) (og_id g) ds yaml (ce_config_hash e c) (pr_actor p)))
        (\<lambda>version. ends registry_ok (provision_drafted e p f name g ds version) (\<lambda>_. registry_ok))) db1"
    unfolding ends_ask sum.case by (rule ends_draft) (rule provision_drafted_keeps)
qed

lemma create_org_keeps:
  assumes ok: "registry_ok db" and fresh: "ce_mint e 1 \<notin> dt_id ` set (datasets_of db)"
  shows "ends registry_ok (create_org e prov show_error p body) (\<lambda>_. registry_ok) db"
proof -
  have awaits: "awaiting name db1" "ce_mint e 1 \<notin> dt_id ` set (datasets_of db1)" "name \<in> og_name ` set (orgs_of db1)"
    if "upsert_byo e i name path env drop0 bucket pre db = Inr (x, db1)" for i name path env drop0 bucket pre x db1
    using upsert_awaits [OF ok that] fresh by auto
  have byo: "ends registry_ok (create_byo_org e p body path) (\<lambda>_. registry_ok) db" for path
    using ok unfolding create_byo_org_def
    by (auto split: sum.splits intro!: ends_converge dest: awaits simp: seed_keeps)
  have [simp]: "datasets_of (snd (set_org_state e n new expected db1)) = datasets_of db1" for n new expected db1
    by (simp add: set_org_state_def Let_def)
  have here: "get_org name (access_of (snd (set_org_state e name new expected db1))) \<noteq> None"
    if "upsert_byo e i name path env drop0 bucket pre db = Inr (x, db1)" for i name path env drop0 bucket pre x db1 new expected
  proof -
    have "og_name ` set (map f gs) = og_name ` set gs" if "\<And>g. og_name (f g) = og_name g" for f :: "org_row \<Rightarrow> org_row" and gs
      using that by (simp add: image_image)
    from this [of "\<lambda>g. if og_name g = name \<and> og_state g = expected then g\<lparr>og_state := new, og_updated_at := ce_now e\<rparr> else g" "orgs_of db1"]
    have "name \<in> og_name ` set (orgs_of (snd (set_org_state e name new expected db1)))"
      using awaits(3) [OF that] unfolding set_org_state_def Let_def snd_conv put_tables by simp
    then show ?thesis by (auto simp: get_org_def find_None_iff)
  qed
  have auto_org: "ends registry_ok (provision_org e p f name) (\<lambda>_. registry_ok) db" for f name
    using ok unfolding provision_org_def checked_starter_def
    by (auto split: sum.splits option.splits link.splits intro!: provision_rest_keeps awaiting_state dest: awaits here [where new = Provisioning and expected = Active])
  show ?thesis using ok byo auto_org by (auto simp: create_org_def split_def split: sum.splits option.splits)
qed

section \<open>The registry along a run\<close>

text \<open>One request to the registry, one tick of the schedules or one boot of the server. A request that refuses half-way keeps what it did. The id of
  a default dataset is new.\<close>

inductive registry_step :: "registry \<Rightarrow> registry \<Rightarrow> bool" where
  create_org: "ce_mint e 1 \<notin> dt_id ` set (datasets_of db) \<Longrightarrow> create_org e prov show_error p body db = (r, db') \<Longrightarrow> registry_step db db'"
| create_dataset: "create_dataset e prov show_error p org dsin db = (r, db') \<Longrightarrow> registry_step db db'"
| suspend_org: "suspend_org e p org db = (r, db') \<Longrightarrow> registry_step db db'"
| resume_org: "resume_org e p org db = (r, db') \<Longrightarrow> registry_step db db'"
| suspend_dataset: "suspend_dataset e p org ds db = (r, db') \<Longrightarrow> registry_step db db'"
| resume_dataset: "resume_dataset e p org ds db = (r, db') \<Longrightarrow> registry_step db db'"
| update_dataset: "update_dataset e p org ds display_name db = (r, db') \<Longrightarrow> registry_step db db'"
| update_resources: "update_resources e show_int p org threads memory db = (r, db') \<Longrightarrow> registry_step db db'"
| create_version: "create_config_version e p org ds yaml db = (r, db') \<Longrightarrow> registry_step db db'"
| publish: "publish_config_version e show_int mint p org ds version db = (r, db') \<Longrightarrow> registry_step db db'"
| create_model: "create_model_version e show_int p org ds model db = (r, db') \<Longrightarrow> registry_step db db'"
| activate_model: "activate_model_version e show_int p org ds name version db = (r, db') \<Longrightarrow> registry_step db db'"
| submit: "create_job e show_int p org ds job_body db = (r, db') \<Longrightarrow> registry_step db db'"
| create_schedule: "create_schedule e checked p org ds kind cron params = Some h \<Longrightarrow> h db = (r, db') \<Longrightarrow> registry_step db db'"
| update_schedule: "update_schedule e p org ds i enabled db = (r, db') \<Longrightarrow> registry_step db db'"
| delete_schedule: "delete_schedule e p org ds i db = (r, db') \<Longrightarrow> registry_step db db'"
| tick: "schedule_tick checked now t minute_key mint db = (r, db') \<Longrightarrow> registry_step db db'"
| boot: "ensure_default_datasets e db = Inr db' \<Longrightarrow> registry_step db db'"

lemma registry_step_ok: "registry_step db db' \<Longrightarrow> registry_ok db \<Longrightarrow> registry_ok db'"
proof (induction rule: registry_step.induct)
  case (create_org e db prov show_error p body r db')
  show ?case using endsD [OF create_org_keeps [OF create_org(3,1)] create_org(2)] by (simp split: sum.splits)
next
  case (tick checked now t minute_key mint db r db')
  then show ?case using tick_keeps [of db] by (metis schedule_tick_def snd_conv)
next
  case (boot e db db')
  then have "db' = db" using converge_idle [of db "sort_key og_name (orgs_of db)" e 0 db'] by (simp add: ensure_default_datasets_def)
  with boot show ?case by simp
qed (auto dest: transitions_keep [THEN keepsD] create_config_version_keeps [THEN keepsD] publish_keeps [THEN keepsD] model_routes_keep [THEN keepsD]
    job_route_keeps [THEN keepsD] schedule_routes_keep(1,2) [THEN keepsD] schedule_routes_keep(3) [THEN keepsD, rotated] create_dataset_keeps [THEN keepsD]
    simp: suspend_org_def resume_org_def suspend_dataset_def resume_dataset_def)

end
