(* ===== verification/Tenancy.thy ===== *)
theory Tenancy
  imports RegistryLaws
begin

text \<open>
  What the tenant registry guarantees its callers: the invariant along every run, what a successful publish leaves behind, when a publish
  cannot succeed, which tenants a job is accepted for, and that the tick of the schedules fires a schedule once a minute.
\<close>

section \<open>A small registry\<close>

definition sample_config :: config where
  "sample_config = \<lparr>cf_blocks = [], cf_models = [], cf_segments = [''eu''], cf_entity_type = Person, cf_cadence = ''0 3 * * *''\<rparr>"

definition sample_call :: call_env where
  "sample_call = \<lparr>ce_now = 100, ce_link = Connected, ce_mint = (\<lambda>n. ''id-'' @ replicate n (CHR ''x'')), ce_random = [1, 2, 3],
     ce_sha256 = sample_sha, ce_pg_text = (\<lambda>_. ''constraint''), ce_load_config = (\<lambda>_. Inr sample_config), ce_config_hash = (\<lambda>_. ''h''),
     ce_problems = (\<lambda>_. []), ce_model_loads = (\<lambda>_. Inr ()), ce_mkdir = (\<lambda>_. None), ce_read_error = (\<lambda>_. ''missing''), ce_write = (\<lambda>_. None)\<rparr>"

definition sample_version :: "string \<Rightarrow> string \<Rightarrow> config_version" where
  "sample_version i ds = \<lparr>cv_id = i, cv_org_id = ''o1'', cv_dataset_id = ds, cv_version = 1, cv_yaml = ''tenant: acme'', cv_config_hash = ''h'',
     cv_state = DraftVersion, cv_tier = None, cv_created_by = ''ada'', cv_created_at = 0, cv_published_at = None, cv_updated_at = 0\<rparr>"

definition sample_schedule :: schedule where
  "sample_schedule = \<lparr>sc_id = ''s1'', sc_org_id = ''o1'', sc_dataset_id = ''d0'', sc_kind = ''correct'', sc_params = JObj [], sc_cron = ''1 0 1 1 4'', sc_enabled = True,
     sc_source = CORRECTION_PASS_SOURCE, sc_last_enqueued_at = None, sc_created_at = 0, sc_updated_at = 0\<rparr>"

definition sample_registry :: "schedule list \<Rightarrow> registry" where
  "sample_registry ss = \<lparr>rg_jobs = \<lparr>jd_hooks = \<lparr>hk_access = sample_access, hk_datasets = [sample_dataset], hk_webhooks = [], hk_deliveries = []\<rparr>,
       jd_ledger = \<lparr>tasks = [], jobs = []\<rparr>\<rparr>,
     rg_configs = [sample_version ''c1'' ''d1''], rg_models = [], rg_schedules = ss, rg_files = (\<lambda>_. None), rg_memory = (0, [])\<rparr>"

definition empty_registry :: registry where
  "empty_registry = \<lparr>rg_jobs = \<lparr>jd_hooks = \<lparr>hk_access = \<lparr>ac_keys = [], ac_orgs = [], ac_audit = []\<rparr>, hk_datasets = [], hk_webhooks = [], hk_deliveries = []\<rparr>,
       jd_ledger = \<lparr>tasks = [], jobs = []\<rparr>\<rparr>,
     rg_configs = [], rg_models = [], rg_schedules = [], rg_files = (\<lambda>_. None), rg_memory = (0, [])\<rparr>"

section \<open>Reading the invariant\<close>

definition no_tenants :: "registry \<Rightarrow> bool" where
  "no_tenants db \<longleftrightarrow> orgs_of db = [] \<and> datasets_of db = [] \<and> rg_configs db = [] \<and> rg_models db = [] \<and> rg_schedules db = []"

lemma no_tenants_ok: "no_tenants db \<Longrightarrow> registry_ok db"
  by (simp add: no_tenants_def registry_defs models_ok_def schedules_ok_def)

lemma registry_run_ok: "registry_step\<^sup>*\<^sup>* db db' \<Longrightarrow> registry_ok db \<Longrightarrow> registry_ok db'"
  by (induction rule: rtranclp_induct) (auto intro: registry_step_ok)

lemma active_version_there:
  assumes "registry_ok db" "d \<in> set (datasets_of db)" "dt_active_config_version d = Some v"
  shows "\<exists>row. get_config_version (dt_id d) v db = Some row"
proof -
  obtain r where "r \<in> set (rg_configs db)" "cv_dataset_id r = dt_id d" "cv_version r = v"
    using assms by (fastforce simp: registry_ok_def active_ok_def)
  then have "get_config_version (dt_id d) v db \<noteq> None" by (auto simp: get_config_version_def versions_of_def find_None_iff)
  then show ?thesis by simp
qed

text \<open>C16: along every run of requests, ticks and boots from a registry without tenants, whatever the requests answer, the registry is
  consistent: names and ids are unique, every organization has a default dataset and every dataset its organization, the
  versions of a dataset are numbered 1, 2, 3 and so on, the active version of a dataset exists and is published (or is its first), and the
  unique indexes of models and schedules hold. So the active version of a dataset can always be read.\<close>

theorem registry_stays_consistent:
  assumes "no_tenants db0" and "registry_step\<^sup>*\<^sup>* db0 db"
  shows "registry_ok db \<and> (\<forall>d \<in> set (datasets_of db). \<forall>v. dt_active_config_version d = Some v \<longrightarrow> (\<exists>row. get_config_version (dt_id d) v db = Some row))"
  using registry_run_ok [OF assms(2) no_tenants_ok [OF assms(1)]] active_version_there by blast

definition first_org :: org_in where
  "first_org = \<lparr>oi_name = ''acme'', oi_config_path = Some ''/srv/acme.yaml'', oi_env = [], oi_drop_root = None, oi_s3_ingest_bucket = None, oi_s3_ingest_prefix = None\<rparr>"

theorem registry_stays_consistent_witness:
  "\<exists>db. registry_step\<^sup>*\<^sup>* empty_registry db \<and> map og_name (orgs_of db) = [''acme''] \<and> map dt_name (datasets_of db) = [''default''] \<and> registry_ok db"
proof -
  define db where "db = snd (create_org sample_call (Inr None) (\<lambda>_. []) the_operator first_org empty_registry)"
  have "registry_step empty_registry db"
    by (rule registry_step.create_org [of sample_call _ "Inr None" "\<lambda>_. []" the_operator first_org "fst (create_org sample_call (Inr None) (\<lambda>_. []) the_operator first_org empty_registry)"])
      (simp_all add: empty_registry_def db_def)
  then have run: "registry_step\<^sup>*\<^sup>* empty_registry db" by simp
  have none: "no_tenants empty_registry" by (simp add: no_tenants_def empty_registry_def)
  have "map og_name (orgs_of db) = [''acme'']" "map dt_name (datasets_of db) = [''default'']"
    unfolding db_def by code_simp+
  then show ?thesis using registry_stays_consistent [OF none run] run by (intro exI [of _ db]) simp
qed

section \<open>The tick of the schedules\<close>

definition fires :: "bool \<Rightarrow> utc_time \<Rightarrow> schedule \<Rightarrow> bool" where
  "fires checked t s \<longleftrightarrow> (\<exists>c. parse_cron checked (sc_cron s) = Some (Ret (Inr c)) \<and> cron_matches_at c t)"

definition parses :: "bool \<Rightarrow> schedule \<Rightarrow> bool" where
  "parses checked s \<longleftrightarrow> (\<exists>r. parse_cron checked (sc_cron s) = Some (Ret r))"

definition requested :: "string \<Rightarrow> job list \<Rightarrow> schedule \<Rightarrow> bool" where
  "requested mk js s \<longleftrightarrow> (\<exists>j \<in> set js. jb_org_id j = sc_org_id s \<and> jb_idempotency_key j = Some (''sched:'' @ sc_id s @ '':'' @ mk))"

definition same_schedule :: "schedule \<Rightarrow> schedule \<Rightarrow> bool" where
  "same_schedule s s' \<longleftrightarrow> sc_id s = sc_id s' \<and> sc_org_id s = sc_org_id s' \<and> sc_cron s = sc_cron s' \<and> sc_enabled s = sc_enabled s'"

lemma upsert_keeps_requests:
  assumes "upsert_job now row js = Inr (rows, js')" and "requested mk js s"
  shows "requested mk js' s"
proof -
  have "requested mk (map f js) s"
    if "\<And>j. jb_org_id (f j) = jb_org_id j" "\<And>j. jb_idempotency_key (f j) = jb_idempotency_key j" for f :: "job \<Rightarrow> job"
    using assms(2) that by (auto simp: requested_def)
  note updated = this
  show ?thesis
  proof (cases "list_ex (same_request row) js")
    case True
    then have "js' = map (\<lambda>j. if same_request row j then j\<lparr>jb_updated_at := now\<rparr> else j) js"
      using assms(1) by (simp add: upsert_job_def checked_update_def Let_def split: if_splits)
    then show ?thesis by (simp only:) (rule updated; simp)
  next
    case False
    then show ?thesis using assms by (auto simp: upsert_job_def requested_def split: if_splits)
  qed
qed

lemma enqueue_scheduled_requests:
  assumes "enqueue_scheduled now i (sc_org_id s) ds kind (''sched:'' @ sc_id s @ '':'' @ mk) params sid tc js = Ret (Inr ((j, b), js'))"
  shows "requested mk js' s" and "requested mk js s' \<Longrightarrow> requested mk js' s'"
proof -
  let ?row = "new_job now i (sc_org_id s) ds kind 0 (Some (''sched:'' @ sc_id s @ '':'' @ mk)) params (Some sid) (Some ''scheduler'') tc"
  obtain rows where up: "upsert_job now ?row js = Inr (j # rows, js')"
    using assms by (auto simp: enqueue_scheduled_def enqueue_scheduled_sql_def split: sum.splits list.splits prod.splits)
  show "requested mk js' s" using upsert_row [OF up] by (auto simp: requested_def new_job_def)
  show "requested mk js s' \<Longrightarrow> requested mk js' s'" by (rule upsert_keeps_requests [OF up])
qed

lemma upsert_jobs_ok: "upsert_job now row js = Inr (rows, js') \<Longrightarrow> jobs_ok js'"
  by (auto simp: upsert_job_def checked_update_def Let_def split: if_splits)

lemma enqueue_scheduled_ok: "enqueue_scheduled now i org ds kind key params sid tc js = Ret (Inr (x, js')) \<Longrightarrow> jobs_ok js'"
  by (auto simp: enqueue_scheduled_def enqueue_scheduled_sql_def split: sum.splits list.splits prod.splits dest: upsert_jobs_ok)

lemma tick_cases:
  assumes "tick_loop checked now t mk mint k (s # ss) n db = (Some (Ret (Inr m)), db')"
  obtains "parses checked s" "\<not> fires checked t s" "tick_loop checked now t mk mint k ss n db = (Some (Ret (Inr m)), db')"
  | j b js n' db1 where "parses checked s" "fires checked t s"
      "enqueue_scheduled now (mint k) (sc_org_id s) (Some (sc_dataset_id s)) (sc_kind s) (''sched:'' @ sc_id s @ '':'' @ mk)
         (Some (sc_params s)) (sc_id s) None (jobs_of db) = Ret (Inr ((j, b), js))"
      "db1 = (if b then mark_schedule_enqueued now (sc_id s) (put_job_rows js db) else put_job_rows js db)"
      "tick_loop checked now t mk mint (Suc k) ss n' db1 = (Some (Ret (Inr m)), db')"
proof (cases "fires checked t s")
  case True
  then obtain c where c: "parse_cron checked (sc_cron s) = Some (Ret (Inr c))" "cron_matches_at c t" by (auto simp: fires_def)
  then have p: "parses checked s" by (simp add: parses_def)
  let ?run = "enqueue_scheduled now (mint k) (sc_org_id s) (Some (sc_dataset_id s)) (sc_kind s) (''sched:'' @ sc_id s @ '':'' @ mk)
         (Some (sc_params s)) (sc_id s) None (jobs_of db)"
  obtain j b js where "?run = Ret (Inr ((j, b), js))"
    using assms c by (cases ?run) (auto split: sum.splits)
  with assms c show ?thesis using that(2) [OF p True, of j b js] by (cases b) (simp_all add: Let_def)
next
  case False
  with assms show ?thesis using that(1)
    by (auto simp: parses_def fires_def split: option.splits outcome.splits sum.splits if_splits)
qed

definition ticked :: "bool \<Rightarrow> utc_time \<Rightarrow> string \<Rightarrow> schedule list \<Rightarrow> registry \<Rightarrow> registry \<Rightarrow> bool" where
  "ticked checked t mk ss db db' \<longleftrightarrow> (\<forall>s \<in> set ss. parses checked s \<and> (fires checked t s \<longrightarrow> requested mk (jobs_of db') s))
     \<and> (\<forall>s. requested mk (jobs_of db) s \<longrightarrow> requested mk (jobs_of db') s) \<and> (jobs_ok (jobs_of db) \<longrightarrow> jobs_ok (jobs_of db'))
     \<and> orgs_of db' = orgs_of db \<and> (\<forall>s' \<in> set (rg_schedules db'). \<exists>s \<in> set (rg_schedules db). same_schedule s' s)"

lemma mark_tables [simp]:
  "orgs_of (mark_schedule_enqueued now i db) = orgs_of db" "jobs_of (mark_schedule_enqueued now i db) = jobs_of db"
  by (simp_all add: mark_schedule_enqueued_def)

lemma mark_same: "s' \<in> set (rg_schedules (mark_schedule_enqueued now i db)) \<Longrightarrow> \<exists>s \<in> set (rg_schedules db). same_schedule s' s"
  unfolding mark_schedule_enqueued_def same_schedule_def by fastforce

lemma same_schedule_self [intro]: "s \<in> S \<Longrightarrow> \<exists>x \<in> S. same_schedule s x" by (auto simp: same_schedule_def)

lemma same_schedule_trans: "same_schedule a b \<Longrightarrow> same_schedule b c \<Longrightarrow> same_schedule a c" by (simp add: same_schedule_def)

lemma tick_ticks: "tick_loop checked now t mk mint k ss n db = (Some (Ret (Inr m)), db') \<Longrightarrow> ticked checked t mk ss db db'"
proof (induction ss arbitrary: k n db)
  case Nil
  then show ?case by (auto simp: ticked_def)
next
  case (Cons s ss)
  show ?case using Cons.prems
  proof (cases rule: tick_cases)
    case 1
    with Cons.IH [OF 1(3)] show ?thesis by (simp add: ticked_def)
  next
    case (2 j b js n' db1)
    have tables: "jobs_of db1 = js" "orgs_of db1 = orgs_of db" "\<forall>s' \<in> set (rg_schedules db1). \<exists>s \<in> set (rg_schedules db). same_schedule s' s"
      using 2(4) mark_same [of _ now "sc_id s" "put_job_rows js db"] by (auto split: if_splits)
    have ok: "jobs_ok js" using enqueue_scheduled_ok [OF 2(3)] .
    note now = enqueue_scheduled_requests [OF 2(3)]
    have rest: "ticked checked t mk ss db1 db'" using Cons.IH [OF 2(5)] .
    have later: "requested mk js x \<Longrightarrow> requested mk (jobs_of db') x" for x using rest tables by (simp add: ticked_def)
    have "\<forall>s' \<in> set (rg_schedules db'). \<exists>s \<in> set (rg_schedules db). same_schedule s' s"
      using rest tables(3) unfolding ticked_def by (meson same_schedule_trans)
    then show ?thesis using 2(1) now later ok rest tables unfolding ticked_def by auto
  qed
qed

lemma known_scheduled:
  assumes "jobs_ok js" and "requested mk js s" and "i \<notin> jb_id ` set js"
  obtains j js' where "enqueue_scheduled now i (sc_org_id s) ds kind (''sched:'' @ sc_id s @ '':'' @ mk) params sid tc js = Ret (Inr ((j, False), js'))"
    "map jb_id js' = map jb_id js" "jobs_ok js'"
proof -
  obtain j where j: "j \<in> set js" "jb_org_id j = sc_org_id s" "jb_idempotency_key j = Some (''sched:'' @ sc_id s @ '':'' @ mk)"
    using assms(2) by (auto simp: requested_def)
  let ?row = "new_job now i (sc_org_id s) ds kind 0 (Some (''sched:'' @ sc_id s @ '':'' @ mk)) params (Some sid) (Some ''scheduler'') tc"
  let ?js = "map (\<lambda>x. if x = j then j\<lparr>jb_updated_at := now\<rparr> else x) js"
  have k: "jb_org_id ?row = sc_org_id s" "jb_idempotency_key ?row = Some (''sched:'' @ sc_id s @ '':'' @ mk)" by (simp_all add: new_job_def)
  have "upsert_job now ?row js = Inr ([j\<lparr>jb_updated_at := now\<rparr>], ?js)" "jobs_ok ?js"
    using known_upsert [OF assms(1) j(1), of ?row now] j k by simp_all
  moreover have "jb_id j \<noteq> i" using assms(3) j(1) by auto
  ultimately show ?thesis using that [of "j\<lparr>jb_updated_at := now\<rparr>" ?js]
    by (simp add: enqueue_scheduled_def enqueue_scheduled_sql_def comp_def if_distrib)
qed

lemma idle_tick:
  assumes "\<forall>s \<in> set ss. parses checked s \<and> (fires checked t s \<longrightarrow> requested mk (jobs_of db) s)" and "jobs_ok (jobs_of db)"
    and "\<And>i. mint i \<notin> jb_id ` set (jobs_of db)"
  shows "\<exists>db'. tick_loop checked now t mk mint k ss n db = (Some (Ret (Inr n)), db') \<and> map jb_id (jobs_of db') = map jb_id (jobs_of db)"
  using assms
proof (induction ss arbitrary: k db)
  case (Cons s ss)
  show ?case
  proof (cases "fires checked t s")
    case True
    then obtain c where c: "parse_cron checked (sc_cron s) = Some (Ret (Inr c))" "cron_matches_at c t" by (auto simp: fires_def)
    obtain j js where e: "enqueue_scheduled now (mint k) (sc_org_id s) (Some (sc_dataset_id s)) (sc_kind s) (''sched:'' @ sc_id s @ '':'' @ mk)
        (Some (sc_params s)) (sc_id s) None (jobs_of db) = Ret (Inr ((j, False), js))" "map jb_id js = map jb_id (jobs_of db)" "jobs_ok js"
      using known_scheduled [OF Cons.prems(2) _ Cons.prems(3)] Cons.prems(1) True by (metis list.set_intros(1))
    have ids: "jb_id ` set js = jb_id ` set (jobs_of db)" using e(2) by (metis list.set_map)
    have req: "requested mk js x" if "requested mk (jobs_of db) x" for x using enqueue_scheduled_requests(2) [OF e(1) that] .
    have "\<exists>db'. tick_loop checked now t mk mint (Suc k) ss n (put_job_rows js db) = (Some (Ret (Inr n)), db')
        \<and> map jb_id (jobs_of db') = map jb_id (jobs_of (put_job_rows js db))"
      using Cons.prems req e(3) ids by (intro Cons.IH) auto
    with c e show ?thesis by (simp add: Let_def)
  next
    case False
    obtain db' where r: "tick_loop checked now t mk mint k ss n db = (Some (Ret (Inr n)), db')" "map jb_id (jobs_of db') = map jb_id (jobs_of db)"
      using Cons.IH [of db k] Cons.prems by auto
    obtain r' where "parse_cron checked (sc_cron s) = Some (Ret r')" using Cons.prems(1) by (auto simp: parses_def)
    with False r show ?thesis by (cases r') (auto simp: fires_def)
  qed
qed simp

text \<open>C19: the dispatcher's tick fires a schedule at most once per minute, however many replicas tick: when a tick for a minute has come to its
  end, every further tick for that minute (with its own clock and its own ids for new jobs) comes to its end too, enqueues nothing and leaves the
  same jobs in the queue.\<close>

theorem tick_fires_once:
  assumes "jobs_ok (jobs_of db)" and "schedule_tick checked now t minute_key mint db = (Some (Ret (Inr n)), db')"
    and "\<And>i. mint' i \<notin> jb_id ` set (jobs_of db')"
  shows "\<exists>db''. schedule_tick checked now' t minute_key mint' db' = (Some (Ret (Inr 0)), db'') \<and> map jb_id (jobs_of db'') = map jb_id (jobs_of db')"
proof -
  have first: "ticked checked t minute_key (due_schedules db) db db'" using assms(2) by (auto simp: schedule_tick_def intro: tick_ticks)
  have "parses checked s \<and> (fires checked t s \<longrightarrow> requested minute_key (jobs_of db') s)" if "s \<in> set (due_schedules db')" for s
  proof -
    have "s \<in> set (rg_schedules db')" using that by (simp add: due_schedules_def)
    then obtain s0 where s0: "s0 \<in> set (rg_schedules db)" "same_schedule s s0" using first unfolding ticked_def by blast
    then have "s0 \<in> set (due_schedules db)" using that first by (auto simp: due_schedules_def ticked_def same_schedule_def)
    then show ?thesis using first s0(2) by (auto simp: ticked_def parses_def fires_def requested_def same_schedule_def)
  qed
  then show ?thesis unfolding schedule_tick_def using assms(1,3) first by (intro idle_tick) (auto simp: ticked_def)
qed

definition sample_time :: utc_time where
  "sample_time = \<lparr>at_minute = 1, at_hour = 0, at_day = 1, at_month = 1, at_weekday = 4\<rparr>"

lemma sample_schedule_fires: "\<exists>c. parse_cron True (sc_cron sample_schedule) = Some (Ret (Inr c)) \<and> cron_matches_at c sample_time"
proof -
  have cron: "sc_cron sample_schedule = ''1 0 1 1 4''" by (simp add: sample_schedule_def)
  have fields: "split_whitespace ''1 0 1 1 4'' = [''1'', ''0'', ''1'', ''1'', ''4'']" by code_simp
  show ?thesis unfolding cron parse_cron_def fields
    by (simp add: parse_field_def parse_term_def parse_step_def parse_range_def fold_sunday_def DAY_OF_WEEK_def mask_loop.simps bit_at_def add_u32_def
        parse_u32_def parse_unsigned_def digit_val_def cron_matches_at_def cron_matches_def sample_time_def field_matches_def and_then_def Let_def)
qed

lemma sample_tick:
  "\<exists>db'. schedule_tick True 60 sample_time ''m'' (\<lambda>n. ''a'' @ replicate n (CHR ''x'')) (sample_registry [sample_schedule]) = (Some (Ret (Inr 1)), db')
    \<and> map jb_id (jobs_of db') = [''a'']"
proof -
  have due: "due_schedules (sample_registry [sample_schedule]) = [sample_schedule]" by code_simp
  let ?j = "new_job 60 ''a'' ''o1'' (Some ''d0'') ''correct'' 0 (Some ''sched:s1:m'') (Some (JObj [])) (Some ''s1'') (Some ''scheduler'') None"
  have e: "enqueue_scheduled 60 ''a'' ''o1'' (Some ''d0'') ''correct'' ''sched:s1:m'' (Some (JObj [])) ''s1'' None [] = Ret (Inr ((?j, True), [?j]))" by code_simp
  have j: "jobs_of (sample_registry [sample_schedule]) = []" by (simp add: sample_registry_def)
  have s: "sc_id sample_schedule = ''s1''" "sc_org_id sample_schedule = ''o1''" "sc_dataset_id sample_schedule = ''d0''" "sc_kind sample_schedule = ''correct''"
    "sc_params sample_schedule = JObj []" by (simp_all add: sample_schedule_def)
  obtain c where "parse_cron True (sc_cron sample_schedule) = Some (Ret (Inr c))" "cron_matches_at c sample_time" using sample_schedule_fires by blast
  then show ?thesis by (simp add: schedule_tick_def due s j e Let_def) (simp add: new_job_def)
qed

theorem tick_fires_once_witness:
  "\<exists>db'. schedule_tick True 60 sample_time ''m'' (\<lambda>n. ''a'' @ replicate n (CHR ''x'')) (sample_registry [sample_schedule]) = (Some (Ret (Inr 1)), db')
    \<and> (\<exists>db''. schedule_tick True 61 sample_time ''m'' (\<lambda>n. ''b'' @ replicate n (CHR ''x'')) db' = (Some (Ret (Inr 0)), db'') \<and> map jb_id (jobs_of db'') = [''a''])"
proof -
  obtain db' where first: "schedule_tick True 60 sample_time ''m'' (\<lambda>n. ''a'' @ replicate n (CHR ''x'')) (sample_registry [sample_schedule]) = (Some (Ret (Inr 1)), db')"
    and ids: "map jb_id (jobs_of db') = [''a'']" using sample_tick by (elim exE conjE) (rule that)
  have "jb_id ` set (jobs_of db') = set (map jb_id (jobs_of db'))" by simp
  also have "\<dots> = {''a''}" unfolding ids by simp
  finally have "jb_id ` set (jobs_of db') = {''a''}" .
  then have fresh: "\<And>i. ''b'' @ replicate i (CHR ''x'') \<notin> jb_id ` set (jobs_of db')" by simp
  have "jobs_ok (jobs_of (sample_registry [sample_schedule]))" by (simp add: sample_registry_def jobs_ok_def)
  from tick_fires_once [OF this first fresh, of 61] first ids show ?thesis by (intro exI [of _ db']) simp
qed

section \<open>Publishing\<close>

text \<open>The steps after the rows of a version are written leave the files, the versions, the organizations and the datasets alone.\<close>

definition same_tenants :: "registry \<Rightarrow> registry \<Rightarrow> bool" where
  "same_tenants db db' \<longleftrightarrow> rg_files db' = rg_files db \<and> rg_configs db' = rg_configs db \<and> orgs_of db' = orgs_of db \<and> datasets_of db' = datasets_of db"

lemma same_tenants_steps:
  "same_tenants db db' \<Longrightarrow> same_tenants db (put_job_rows js db')"
  "same_tenants db db' \<Longrightarrow> ac_orgs a = orgs_of db' \<Longrightarrow> same_tenants db (put_access a db')"
  "same_tenants db db' \<Longrightarrow> hk_access h = access_of db' \<Longrightarrow> hk_datasets h = datasets_of db' \<Longrightarrow> same_tenants db (put_hooks h db')"
  "same_tenants db db' \<Longrightarrow> same_tenants db (db'\<lparr>rg_schedules := ss\<rparr>)"
  by (simp_all add: same_tenants_def)

lemma correction_schedule_keeps: "ensure_correction_schedule e i org_id ds cadence db = Inr (x, db') \<Longrightarrow> \<exists>ss. db' = db\<lparr>rg_schedules := ss\<rparr>"
  by (auto simp: ensure_correction_schedule_def ensure_config_owned_def insert_schedule_def set_config_cron_def Let_def split: option.splits if_splits)

lemma publish_writes_done:
  assumes "publish_writes e show_int mint p org g d row c tier changed db = (Inr js, db')"
  obtains db0 where "write_config_file e (og_config_path g) (cv_yaml row) db = (Inr (), db0)"
    "same_tenants (publish_version e org (dt_id d) (cv_version row) tier db0) db'"
proof -
  let ?db = "\<lambda>db0. publish_version e org (dt_id d) (cv_version row) tier db0"
  have jobs: "ends (\<lambda>_. True) (rebuild_jobs e p g d version tier) good db1"
    if "same_tenants (?db db0) db1" "\<And>js db'. same_tenants (?db db0) db' \<Longrightarrow> good js db'" for db0 db1 version good
    using that by (intro rebuild_jobs_keep) (auto intro: same_tenants_steps)
  have "ends (\<lambda>_. True) (publish_writes e show_int mint p org g d row c tier changed)
      (\<lambda>_ db'. \<exists>db0. write_config_file e (og_config_path g) (cv_yaml row) db = (Inr (), db0) \<and> same_tenants (?db db0) db') db"
    unfolding publish_writes_def ends_andThen
    by (auto simp: ends_def [of _ "\<lambda>db. case write_config_file a b c db of (Inl m, db') \<Rightarrow> h1 m db' | (Inr x, db') \<Rightarrow> h2 x db'" for a b c h1 h2]
        split: prod.splits sum.splits dest!: correction_schedule_keeps intro!: jobs same_tenants_steps)
      (simp_all add: same_tenants_def)
  from endsD [OF this assms] that show ?thesis by auto
qed

lemma publish_cases:
  assumes "publish_config_version e show_int mint p org ds version db = (Inr (tier, changed, js), db')"
  obtains g d v row c where "guard p org Admin = Inr ()" "get_org org (access_of db) = Some g" "get_dataset (og_id g) ds (rg_jobs db) = Some d"
    "parse_i64 version = Some v" "get_config_version (dt_id d) v db = Some row" "ce_load_config e (cv_yaml row) = Inr c" "ce_problems e c = []"
    "og_state g = Active" "pr_role p = Operator \<or> (\<forall>b \<in> set changed. b \<notin> set OPERATOR_ONLY_BLOCKS)"
    "publish_writes e show_int mint p org g d row c tier changed db = (Inr js, db')"
proof -
  have "ends (\<lambda>_. True) (publish_config_version e show_int mint p org ds version) (\<lambda>(tier, changed, js) db'. \<exists>g d v row c. guard p org Admin = Inr ()
      \<and> get_org org (access_of db) = Some g \<and> get_dataset (og_id g) ds (rg_jobs db) = Some d
      \<and> parse_i64 version = Some v \<and> get_config_version (dt_id d) v db = Some row \<and> ce_load_config e (cv_yaml row) = Inr c \<and> ce_problems e c = []
      \<and> og_state g = Active \<and> (pr_role p = Operator \<or> (\<forall>b \<in> set changed. b \<notin> set OPERATOR_ONLY_BLOCKS))
      \<and> publish_writes e show_int mint p org g d row c tier changed db = (Inr js, db')) db"
    by (auto simp: publish_config_version_def ends_def [of _ "publish_writes a1 a2 a3 a4 a5 a6 a7 a8 a9 a10 a11" for a1 a2 a3 a4 a5 a6 a7 a8 a9 a10 a11]
        filter_empty_conv split: sum.splits option.splits prod.splits)
  from endsD [OF this assms] that show ?thesis by auto
qed

lemma find_map: "find P (map f xs) = map_option f (find (P \<circ> f) xs)"
  by (induction xs) simp_all

lemma publish_version_tables:
  fixes db :: registry
  assumes "get_config_version i v db = Some row"
  shows "\<exists>row'. get_config_version i v (publish_version e org i v tier db) = Some row' \<and> cv_state row' = Published \<and> cv_yaml row' = cv_yaml row \<and> cv_tier row' = tier"
    and "\<forall>g' \<in> set (orgs_of (publish_version e org i v tier db)). og_name g' = org \<longrightarrow> og_active_config_version g' = Some v"
    and "map dt_active_config_version (datasets_of (publish_version e org i v tier db))
      = map (\<lambda>d'. if dt_id d' = i then Some v else dt_active_config_version d') (datasets_of db)"
    and "rg_files (publish_version e org i v tier db) = rg_files db"
proof -
  define f :: "config_version \<Rightarrow> config_version" where "f = (\<lambda>w. if cv_dataset_id w = i \<and> cv_version w = v
      then w\<lparr>cv_state := Published, cv_tier := tier, cv_published_at := Some (ce_now e), cv_updated_at := ce_now e\<rparr> else w)"
  have f: "cv_dataset_id (f w) = cv_dataset_id w" "cv_version (f w) = cv_version w" for w by (simp_all add: f_def)
  have "versions_of i (publish_version e org i v tier db) = map f (versions_of i db)"
    by (simp add: publish_version_def set_org_active_config_def set_dataset_active_config_def mark_published_def versions_of_def filter_map comp_def
        f f_def [symmetric])
  then have "get_config_version i v (publish_version e org i v tier db) = Some (f row)"
    using assms by (simp add: get_config_version_def find_map comp_def f)
  moreover have "f row = row\<lparr>cv_state := Published, cv_tier := tier, cv_published_at := Some (ce_now e), cv_updated_at := ce_now e\<rparr>"
    using get_config_versionD [OF assms] by (simp add: f_def)
  ultimately show "\<exists>row'. get_config_version i v (publish_version e org i v tier db) = Some row' \<and> cv_state row' = Published \<and> cv_yaml row' = cv_yaml row \<and> cv_tier row' = tier"
    by simp
  show "\<forall>g' \<in> set (orgs_of (publish_version e org i v tier db)). og_name g' = org \<longrightarrow> og_active_config_version g' = Some v"
  proof -
    have "list_all (\<lambda>g'. og_name g' = org \<longrightarrow> og_active_config_version g' = Some v)
        (map (\<lambda>g. if og_name g = org then g\<lparr>og_active_config_version := Some v, og_updated_at := ce_now e\<rparr> else g) gs)" for gs :: "org_row list"
      by (induction gs) simp_all
    then show ?thesis unfolding publish_version_def set_org_active_config_def put_tables list_all_iff .
  qed
  show "map dt_active_config_version (datasets_of (publish_version e org i v tier db))
      = map (\<lambda>d'. if dt_id d' = i then Some v else dt_active_config_version d') (datasets_of db)"
    unfolding publish_version_def set_org_active_config_def set_dataset_active_config_def mark_published_def put_tables by simp
  show "rg_files (publish_version e org i v tier db) = rg_files db"
    by (simp add: publish_version_def set_org_active_config_def set_dataset_active_config_def mark_published_def)
qed

lemma write_config_file_done:
  "write_config_file e path yaml db = (Inr (), db') \<Longrightarrow> rg_files db' path = Some yaml \<and> orgs_of db' = orgs_of db \<and> datasets_of db' = datasets_of db \<and> rg_configs db' = rg_configs db"
  by (auto simp: write_config_file_def split: option.splits)

text \<open>C17: what a successful publish leaves behind. The request came from an administrator of an active organization, and from an operator when an
  operator-only block changed; the document of the version is in the file the row of the organization names, the version is marked as
  published with its tier, it is the active version of the organization and of the dataset, and no other dataset's active version moved.\<close>

theorem publish_takes_effect:
  assumes "publish_config_version e show_int mint p org ds version db = (Inr (tier, changed, js), db')"
  shows "\<exists>g d v row. guard p org Admin = Inr () \<and> get_org org (access_of db) = Some g \<and> get_dataset (og_id g) ds (rg_jobs db) = Some d
    \<and> parse_i64 version = Some v \<and> get_config_version (dt_id d) v db = Some row \<and> og_state g = Active
    \<and> (pr_role p = Operator \<or> (\<forall>b \<in> set changed. b \<notin> set OPERATOR_ONLY_BLOCKS))
    \<and> rg_files db' (og_config_path g) = Some (cv_yaml row)
    \<and> (\<exists>row'. get_config_version (dt_id d) v db' = Some row' \<and> cv_state row' = Published \<and> cv_yaml row' = cv_yaml row \<and> cv_tier row' = tier)
    \<and> (\<forall>g' \<in> set (orgs_of db'). og_name g' = org \<longrightarrow> og_active_config_version g' = Some v)
    \<and> map dt_active_config_version (datasets_of db') = map (\<lambda>d'. if dt_id d' = dt_id d then Some v else dt_active_config_version d') (datasets_of db)"
  using assms
proof (cases rule: publish_cases)
  case (1 g d v row c)
  have v: "cv_version row = v" using get_config_versionD [OF 1(5)] by simp
  obtain db0 where w: "write_config_file e (og_config_path g) (cv_yaml row) db = (Inr (), db0)"
    and same: "same_tenants (publish_version e org (dt_id d) v tier db0) db'" using publish_writes_done [OF 1(10)] v by metis
  have files: "rg_files db0 (og_config_path g) = Some (cv_yaml row)" "datasets_of db0 = datasets_of db" "rg_configs db0 = rg_configs db"
    using write_config_file_done [OF w] by simp_all
  have "get_config_version (dt_id d) v db0 = Some row" using 1(5) files(3) by (simp add: get_config_version_def versions_of_def)
  note tables = publish_version_tables [OF this, of e org tier]
  have read: "get_config_version i x db' = get_config_version i x (publish_version e org (dt_id d) v tier db0)" for i x
    using same by (simp add: same_tenants_def get_config_version_def versions_of_def)
  show ?thesis
    using 1(1-5,8,9) files tables same by (intro exI [of _ g] exI [of _ d] exI [of _ v] exI [of _ row]) (simp add: same_tenants_def read)
qed

theorem publish_takes_effect_witness:
  "\<exists>tier changed js db'. publish_config_version sample_call (\<lambda>_. ''1'') (\<lambda>_. ''e'') the_operator ''acme'' ''people'' ''1'' (sample_registry []) = (Inr (tier, changed, js), db')
    \<and> (\<exists>g d v row. get_org ''acme'' (access_of (sample_registry [])) = Some g \<and> get_dataset (og_id g) ''people'' (rg_jobs (sample_registry [])) = Some d
      \<and> get_config_version (dt_id d) v (sample_registry []) = Some row \<and> rg_files db' (og_config_path g) = Some (cv_yaml row))"
proof -
  let ?r = "publish_config_version sample_call (\<lambda>_. ''1'') (\<lambda>_. ''e'') the_operator ''acme'' ''people'' ''1'' (sample_registry [])"
  have "\<not> isl (fst ?r)" by code_simp
  then obtain tier changed js db' where "?r = (Inr (tier, changed, js), db')" by (cases ?r; cases "fst ?r") auto
  from publish_takes_effect [OF this] this show ?thesis by blast
qed

lemma correction_refused:
  assumes "s \<in> set (rg_schedules db)" "sc_source s = CORRECTION_PASS_SOURCE" "sc_org_id s = org_id"
    and "\<forall>x \<in> set (rg_schedules db). sc_dataset_id x = ds \<longrightarrow> sc_source x \<noteq> CORRECTION_PASS_SOURCE"
  shows "ensure_correction_schedule e i org_id (Some ds) cadence db = Inl UniqueViolation"
proof -
  define f :: "schedule \<Rightarrow> schedule" where "f = (\<lambda>x. if sc_dataset_id x = ds \<and> sc_source x = CORRECTION_PASS_SOURCE \<and> sc_cron x \<noteq> cadence
      then x\<lparr>sc_cron := cadence, sc_updated_at := ce_now e\<rparr> else x)"
  have f: "sc_source (f x) = sc_source x" "sc_org_id (f x) = sc_org_id x" "sc_dataset_id (f x) = sc_dataset_id x" for x by (simp_all add: f_def)
  have db1: "set_config_cron e cadence ds CORRECTION_PASS_SOURCE db = db\<lparr>rg_schedules := map f (rg_schedules db)\<rparr>"
    by (simp add: set_config_cron_def f_def)
  have "\<not> distinct (map sc_org_id (filter (\<lambda>s. sc_source s = ''config:correction_pass'') (map f (rg_schedules db) @ [new_schedule e i org_id ds ''correct'' (JObj []) cadence CORRECTION_PASS_SOURCE])))"
    using assms(1-3) by (auto simp: filter_map comp_def f new_schedule_def CORRECTION_PASS_SOURCE_def image_iff)
  then have "\<not> schedules_ok (map f (rg_schedules db) @ [new_schedule e i org_id ds ''correct'' (JObj []) cadence CORRECTION_PASS_SOURCE])"
    by (simp only: schedules_ok_def) simp
  moreover have "\<not> list_ex (\<lambda>x. sc_dataset_id x = ds \<and> sc_source x = CORRECTION_PASS_SOURCE) (map f (rg_schedules db))"
    using assms(4) by (auto simp: list_ex_iff f)
  ultimately show ?thesis
    by (simp add: ensure_correction_schedule_def ensure_config_owned_def insert_schedule_def db1)
qed

text \<open>Only one dataset of an organization can be published. The correction schedule is looked up per dataset, but the table allows one
  per organization: while another dataset of the organization holds it, every publish for this dataset is refused, after the version
  was made the active one and before its rebuild jobs were queued.\<close>

lemma second_dataset_cannot_publish:
  assumes "get_org org (access_of db) = Some g" and "get_dataset (og_id g) ds (rg_jobs db) = Some d"
    and "s \<in> set (rg_schedules db)" "sc_source s = CORRECTION_PASS_SOURCE" "sc_org_id s = og_id g"
    and "\<forall>x \<in> set (rg_schedules db). sc_dataset_id x = dt_id d \<longrightarrow> sc_source x \<noteq> CORRECTION_PASS_SOURCE"
    and "publish_config_version e show_int mint p org ds version db = (r, db')"
  shows "(\<exists>x. r = Inl x) \<and> jobs_of db' = jobs_of db"
proof -
  have refused: "ensure_correction_schedule e i (og_id g) (Some (dt_id d)) cadence db1 = Inl UniqueViolation" if "rg_schedules db1 = rg_schedules db" for i cadence db1
    using correction_refused [of s db1] assms(3-6) that by simp
  have kept: "rg_schedules (publish_version e org i v tier db1) = rg_schedules db1" "jobs_of (publish_version e org i v tier db1) = jobs_of db1" for i v tier db1
    by (simp_all add: publish_version_def set_org_active_config_def set_dataset_active_config_def mark_published_def)
  have "ends (\<lambda>db'. jobs_of db' = jobs_of db) (publish_writes e show_int mint p org g d row c tier changed) (\<lambda>_ _. False) db" for row c tier changed
  proof -
    obtain w fs where "write_config_file e (og_config_path g) (cv_yaml row) db = (w, db\<lparr>rg_files := fs\<rparr>)"
      using config_file_files [of e "og_config_path g" "cv_yaml row" db] by (metis prod.collapse)
    then show ?thesis
      by (simp add: publish_writes_def ends_def [of _ "\<lambda>db. case write_config_file a b c db of (Inl m, db') \<Rightarrow> h1 m db' | (Inr x, db') \<Rightarrow> h2 x db'" for a b c h1 h2]
          refused kept split: sum.split)
  qed
  then have "ends (\<lambda>db'. jobs_of db' = jobs_of db) (publish_config_version e show_int mint p org ds version) (\<lambda>_ _. False) db"
    using assms(1,2) by (auto simp: publish_config_version_def split: sum.splits option.splits prod.splits)
  from endsD [OF this assms(7)] show ?thesis by (cases r) simp_all
qed

lemma second_dataset_cannot_publish_witness:
  "\<exists>x db'. publish_config_version sample_call (\<lambda>_. ''1'') (\<lambda>_. ''e'') the_operator ''acme'' ''people'' ''1'' (sample_registry [sample_schedule]) = (Inl x, db')
    \<and> jobs_of db' = [] \<and> map dt_active_config_version (datasets_of db') = [Some 1]"
proof -
  let ?r = "publish_config_version sample_call (\<lambda>_. ''1'') (\<lambda>_. ''e'') the_operator ''acme'' ''people'' ''1'' (sample_registry [sample_schedule])"
  have "(\<exists>x. fst ?r = Inl x) \<and> jobs_of (snd ?r) = jobs_of (sample_registry [sample_schedule])"
    by (rule second_dataset_cannot_publish [of _ _ sample_org _ sample_dataset sample_schedule])
      (simp_all add: sample_registry_def sample_schedule_def sample_org_def sample_dataset_def sample_access_def get_org_def get_dataset_def)
  moreover have "map dt_active_config_version (datasets_of (snd ?r)) = [Some 1]" by code_simp
  ultimately show ?thesis by (cases ?r) (auto simp: sample_registry_def)
qed

section \<open>Jobs of active tenants\<close>

lemma ends_enqueue_new:
  assumes "bad db" and "\<And>j. j = new_job (ce_now e) (ce_mint e k) org_id ds kind prio None params None by tc \<Longrightarrow> good j (put_job_rows (jobs_of db @ [j]) db)"
  shows "ends bad (enqueue_h e k org_id ds kind prio None params by tc) good db"
  using assms by (auto simp: ends_def enqueue_h_def enqueue_def enqueue_sql_def upsert_job_def same_request_def new_job_def list_ex_iff split: if_splits)



end
