(* ===== verification/EntitySpec.thy ===== *)
theory EntitySpec
  imports Utf8
begin

text \<open>
  The entity catalog: the declared tables with their columns, keys and indexes (crate \<open>er-entity-spec\<close>), and the DDL text that is rendered
  from them for the two stores (\<open>er-entity-gen/src/pg_ddl.rs\<close>, \<open>ddl.rs\<close>, \<open>convert.rs\<close> and the renderer of \<open>er-schema/src/model.rs\<close>).
  Parsing of the YAML files is not modelled.
\<close>

section \<open>Types of columns\<close>

datatype column_type = Varchar | Bigint | Double | Boolean | Date | Timestamp | JsonType | ListVarchar

definition as_yaml :: "column_type \<Rightarrow> string" where
  "as_yaml t = (case t of Varchar \<Rightarrow> ''varchar'' | Bigint \<Rightarrow> ''bigint'' | Double \<Rightarrow> ''double'' | Boolean \<Rightarrow> ''boolean'' | Date \<Rightarrow> ''date''
     | Timestamp \<Rightarrow> ''timestamp'' | JsonType \<Rightarrow> ''json'' | ListVarchar \<Rightarrow> ''list<varchar>'')"

definition ducklake_type :: "column_type \<Rightarrow> string" where
  "ducklake_type t = (case t of Varchar \<Rightarrow> ''VARCHAR'' | Bigint \<Rightarrow> ''BIGINT'' | Double \<Rightarrow> ''DOUBLE'' | Boolean \<Rightarrow> ''BOOLEAN'' | Date \<Rightarrow> ''DATE''
     | Timestamp \<Rightarrow> ''TIMESTAMP'' | JsonType \<Rightarrow> ''JSON'' | ListVarchar \<Rightarrow> ''LIST(VARCHAR)'')"

definition postgres_type :: "column_type \<Rightarrow> string" where
  "postgres_type t = (case t of Varchar \<Rightarrow> ''text'' | Bigint \<Rightarrow> ''bigint'' | Double \<Rightarrow> ''double precision'' | Boolean \<Rightarrow> ''boolean'' | Date \<Rightarrow> ''date''
     | Timestamp \<Rightarrow> ''timestamptz'' | JsonType \<Rightarrow> ''jsonb'' | ListVarchar \<Rightarrow> ''text[]'')"

text \<open>Whitespace inside the spelling is dropped.\<close>

definition parse_column_type :: "string \<Rightarrow> string + column_type" where
  "parse_column_type s =
     (let n = concat (split_whitespace s) in
      if n = ''varchar'' then Inr Varchar else if n = ''bigint'' then Inr Bigint else if n = ''double'' then Inr Double
      else if n = ''boolean'' then Inr Boolean else if n = ''date'' then Inr Date else if n = ''timestamp'' then Inr Timestamp
      else if n = ''json'' then Inr JsonType else if n = ''list<varchar>'' then Inr ListVarchar else Inl s)"

datatype store = Duckdb | Postgres

definition qualifier :: "store \<Rightarrow> string" where
  "qualifier s = (case s of Duckdb \<Rightarrow> ''lake.main'' | Postgres \<Rightarrow> ''public'')"

datatype language = Rust | Typescript
datatype wire = ArrowWire | JsonWire

section \<open>Entities\<close>

record generate_block =
  gb_stores :: "store list"
  gb_languages :: "language list"
  gb_wire :: "wire list"
  gb_history :: bool
  gb_append :: bool

record reference_spec =
  rf_relation :: string
  rf_column :: string

record column_spec =
  co_name :: string
  co_type :: column_type
  co_nullable :: bool
  co_description :: string
  co_volatile :: bool
  co_default :: "string option"
  co_serial :: bool
  co_references :: "reference_spec option"
  co_accepted_values :: "string list option"

record index_spec =
  ix_name :: string
  ix_columns :: "string list"
  ix_unique :: bool
  ix_where :: "string option"

record entity_spec =
  en_kind :: string
  en_version :: nat
  en_name :: string
  en_relation :: string
  en_description :: string
  en_key :: "string list"
  en_natural_key :: "string list"
  en_generate :: generate_block
  en_columns :: "column_spec list"
  en_indexes :: "index_spec list"

definition has_store :: "store \<Rightarrow> entity_spec \<Rightarrow> bool" where
  "has_store s e \<longleftrightarrow> s \<in> set (gb_stores (en_generate e))"

definition qualify :: "store \<Rightarrow> string \<Rightarrow> string" where
  "qualify s relation = qualifier s @ ''.'' @ relation"

definition singular :: "string \<Rightarrow> string" where
  "singular relation =
     (let n = length relation; suffix = (\<lambda>x. length x \<le> n \<and> drop (n - length x) relation = x) in
      if suffix ''ies'' then take (n - 3) relation @ ''y''
      else if list_ex suffix [''ses'', ''xes'', ''zes'', ''ches'', ''shes''] then take (n - 2) relation
      else if suffix ''s'' \<and> \<not> suffix ''ss'' then take (n - 1) relation
      else relation)"

section \<open>The catalog\<close>

text \<open>The debug form of a text, for texts without characters that need an escape.\<close>

definition debug_str :: "string \<Rightarrow> string" where
  "debug_str s = [CHR 0x22] @ s @ [CHR 0x22]"

datatype spec_error = Invalid string string | DuplicateRelation string string string

text \<open>The column loop: duplicates, descriptions and serial columns, in the order of the columns.\<close>

fun check_columns :: "string \<Rightarrow> string list \<Rightarrow> column_spec list \<Rightarrow> spec_error option" where
  "check_columns name seen [] = None"
| "check_columns name seen (c # cs) =
     (if co_name c \<in> set seen then Some (Invalid name (''duplicate column '' @ debug_str (co_name c)))
      else if trim (co_description c) = [] then Some (Invalid name (''column '' @ debug_str (co_name c) @ '' needs a description''))
      else if co_serial c \<and> co_type c \<noteq> Bigint then Some (Invalid name (''serial column '' @ debug_str (co_name c) @ '' must be of type bigint''))
      else check_columns name (co_name c # seen) cs)"

definition first_missing :: "string list \<Rightarrow> string list \<Rightarrow> string option" where
  "first_missing names cols = find (\<lambda>c. c \<notin> set names) cols"

definition validate_entity :: "entity_spec \<Rightarrow> spec_error option" where
  "validate_entity e =
     (let invalid = (\<lambda>m. Some (Invalid (en_name e) m)); names = map co_name (en_columns e) in
      if en_kind e \<noteq> ''entity'' then invalid (''kind must be '' @ debug_str ''entity'' @ '', got '' @ debug_str (en_kind e))
      else if trim (en_description e) = [] then invalid ''a table description is required''
      else if gb_stores (en_generate e) = [] then invalid ''generate.stores must list at least one store''
      else if gb_languages (en_generate e) = [] then invalid ''generate.languages must list at least one language''
      else if en_columns e = [] then invalid ''an entity must declare at least one column''
      else case check_columns (en_name e) [] (en_columns e) of
             Some x \<Rightarrow> Some x
           | None \<Rightarrow>
               if en_key e = [] then invalid ''key must name at least one column''
               else case first_missing names (en_key e) of
                      Some k \<Rightarrow> invalid (''key column '' @ debug_str k @ '' is not a column'')
                    | None \<Rightarrow>
                        (case first_missing names (concat (map ix_columns (en_indexes e))) of
                           Some c \<Rightarrow> invalid (''index column '' @ debug_str c @ '' is not a column'')
                         | None \<Rightarrow> None))"

fun claim_relations :: "(string \<times> string) list \<Rightarrow> (string \<times> string) list \<Rightarrow> spec_error option" where
  "claim_relations seen [] = None"
| "claim_relations seen ((q, name) # rest) =
     (case map_of seen q of
        Some first \<Rightarrow> Some (DuplicateRelation q first name)
      | None \<Rightarrow> claim_relations ((q, name) # seen) rest)"

definition relation_claims :: "entity_spec list \<Rightarrow> (string \<times> string) list" where
  "relation_claims es = concat (map (\<lambda>e. map (\<lambda>s. (qualify s (en_relation e), en_name e)) (gb_stores (en_generate e))) es)"

definition from_entities :: "entity_spec list \<Rightarrow> spec_error + entity_spec list" where
  "from_entities es =
     (case List.map_filter validate_entity es of
        x # _ \<Rightarrow> Inl x
      | [] \<Rightarrow> (case claim_relations [] (relation_claims es) of Some x \<Rightarrow> Inl x | None \<Rightarrow> Inr es))"

definition for_store :: "store \<Rightarrow> entity_spec list \<Rightarrow> entity_spec list" where
  "for_store s catalog = filter (has_store s) catalog"

definition by_qualified_name :: "store \<Rightarrow> string \<Rightarrow> entity_spec list \<Rightarrow> entity_spec option" where
  "by_qualified_name s relation catalog = find (\<lambda>e. has_store s e \<and> en_relation e = relation) catalog"

section \<open>The DDL of the lake\<close>

datatype owner = Ddl | Stage

record table_column =
  tc_name :: string
  tc_type :: string
  tc_nullable :: bool

record table_spec =
  ts_name :: string
  ts_owner :: owner
  ts_columns :: "table_column list"
  ts_keys :: "(string list \<times> string option) list"
  ts_enums :: "(string, string list) bmap"

datatype schema_error = BadType string string | DuplicateColumn string | KeyColumnMissing string string | EnumColumnMissing string string | StageOwnedDdl string
datatype convert_error = WrongStore string store | ConvertSchema schema_error

definition COLUMN_TYPES :: "string list" where
  "COLUMN_TYPES = [''VARCHAR'', ''BIGINT'', ''DOUBLE'', ''BOOLEAN'', ''DATE'', ''TIMESTAMP'', ''JSON'', ''LIST(VARCHAR)'']"

definition new_column :: "string \<Rightarrow> string \<Rightarrow> bool \<Rightarrow> schema_error + table_column" where
  "new_column name t nullable =
     (if t \<notin> set COLUMN_TYPES then Inl (BadType name t) else Inr \<lparr>tc_name = name, tc_type = t, tc_nullable = nullable\<rparr>)"

fun new_columns :: "column_spec list \<Rightarrow> schema_error + table_column list" where
  "new_columns [] = Inr []"
| "new_columns (c # cs) =
     (case new_column (co_name c) (ducklake_type (co_type c)) (co_nullable c) of
        Inl x \<Rightarrow> Inl x
      | Inr tc \<Rightarrow> (case new_columns cs of Inl x \<Rightarrow> Inl x | Inr tcs \<Rightarrow> Inr (tc # tcs)))"

definition new_table_spec :: "string \<Rightarrow> owner \<Rightarrow> table_column list \<Rightarrow> (string list \<times> string option) list \<Rightarrow> (string, string list) bmap \<Rightarrow> schema_error + table_spec" where
  "new_table_spec name ow cols keys enums =
     (let names = map tc_name cols in
      if \<not> distinct names then Inl (DuplicateColumn name)
      else case first_missing names (concat (map fst keys)) of
             Some k \<Rightarrow> Inl (KeyColumnMissing name k)
           | None \<Rightarrow>
               (case first_missing names (map fst enums) of
                  Some c \<Rightarrow> Inl (EnumColumnMissing name c)
                | None \<Rightarrow> Inr \<lparr>ts_name = name, ts_owner = ow, ts_columns = cols, ts_keys = keys, ts_enums = enums\<rparr>))"

definition to_lake_table_spec :: "entity_spec \<Rightarrow> convert_error + table_spec" where
  "to_lake_table_spec e =
     (if \<not> has_store Duckdb e then Inl (WrongStore (en_name e) Duckdb)
      else case new_columns (en_columns e) of
             Inl x \<Rightarrow> Inl (ConvertSchema x)
           | Inr cols \<Rightarrow>
               (let keys = (en_key e, None) # (if en_natural_key e = [] then [] else [(en_natural_key e, None)]);
                    enums = bmap_collect (List.map_filter (\<lambda>c. map_option (\<lambda>vs. (co_name c, bset_of vs)) (co_accepted_values c)) (en_columns e)) in
                case new_table_spec (en_relation e) Ddl cols keys enums of Inl x \<Rightarrow> Inl (ConvertSchema x) | Inr spec \<Rightarrow> Inr spec))"

definition nl :: string where "nl = [CHR 0x0A]"

definition column_sql :: "table_column \<Rightarrow> string" where
  "column_sql c = tc_name c @ '' '' @ (if tc_type c = ''LIST(VARCHAR)'' then ''VARCHAR[]'' else tc_type c) @ (if tc_nullable c then [] else '' NOT NULL'')"

definition create_lake_table :: "table_spec \<Rightarrow> schema_error + string" where
  "create_lake_table spec =
     (if ts_owner spec \<noteq> Ddl then Inl (StageOwnedDdl (ts_name spec))
      else Inr (''CREATE TABLE IF NOT EXISTS lake.main.'' @ ts_name spec @ '' ('' @ nl @
             join_with ('','' @ nl) (map (\<lambda>c. ''  '' @ column_sql c) (ts_columns spec)) @ nl @ '');''))"

definition emit_lake_ddl :: "entity_spec \<Rightarrow> convert_error + string" where
  "emit_lake_ddl e =
     (case to_lake_table_spec e of
        Inl x \<Rightarrow> Inl x
      | Inr spec \<Rightarrow> (case create_lake_table spec of Inl x \<Rightarrow> Inl (ConvertSchema x) | Inr s \<Rightarrow> Inr s))"

section \<open>The DDL of the control plane\<close>

fun double_quotes :: "string \<Rightarrow> string" where
  "double_quotes [] = []"
| "double_quotes (c # s) = (if c = CHR 0x27 then [c, c] else [c]) @ double_quotes s"

definition pg_column_sql :: "column_spec \<Rightarrow> string" where
  "pg_column_sql c =
     ''  '' @ co_name c @ '' '' @ (if co_serial c then ''bigserial'' else postgres_type (co_type c))
       @ (if co_nullable c then [] else '' NOT NULL'')
       @ (case co_default c of None \<Rightarrow> [] | Some d \<Rightarrow> '' DEFAULT '' @ d)
       @ (case co_references c of None \<Rightarrow> [] | Some r \<Rightarrow> '' REFERENCES '' @ rf_relation r @ ''('' @ rf_column r @ '')'')
       @ (case co_accepted_values c of None \<Rightarrow> []
          | Some vs \<Rightarrow> '' CHECK ('' @ co_name c @ '' IN ('' @ join_with '', '' (map (\<lambda>v. [CHR 0x27] @ double_quotes v @ [CHR 0x27]) vs) @ ''))'')"

definition pg_index_sql :: "string \<Rightarrow> index_spec \<Rightarrow> string" where
  "pg_index_sql relation i =
     ''CREATE '' @ (if ix_unique i then ''UNIQUE '' else []) @ ''INDEX IF NOT EXISTS '' @ ix_name i @ '' ON public.'' @ relation @ '' ('' @
       join_with '', '' (ix_columns i) @ '')'' @ (case ix_where i of None \<Rightarrow> [] | Some w \<Rightarrow> '' WHERE '' @ w) @ '';'' @ nl"

definition history_of :: "string \<Rightarrow> string" where
  "history_of relation = relation @ ''_history''"

definition emit_history_companion_ddl :: "entity_spec \<Rightarrow> string option" where
  "emit_history_companion_ddl e =
     (if \<not> gb_history (en_generate e) then None
      else let r = en_relation e; h = ''public.'' @ history_of r in
        Some (''CREATE TABLE IF NOT EXISTS '' @ h @ '' ('' @ nl @
          ''  history_id bigserial NOT NULL,'' @ nl @
          ''  row_id text NOT NULL,'' @ nl @
          ''  op text NOT NULL CHECK (op IN ('' @ join_with '', '' (map (\<lambda>v. [CHR 0x27] @ v @ [CHR 0x27]) [''insert'', ''update'', ''delete'']) @ '')),'' @ nl @
          ''  changed_at timestamptz NOT NULL DEFAULT now(),'' @ nl @
          ''  actor text NOT NULL,'' @ nl @
          ''  old_row jsonb,'' @ nl @
          ''  new_row jsonb,'' @ nl @
          ''  PRIMARY KEY (history_id)'' @ nl @ '');'' @ nl @
          ''CREATE INDEX IF NOT EXISTS '' @ r @ ''_history_row_id ON '' @ h @ '' (row_id);'' @ nl @
          ''CREATE INDEX IF NOT EXISTS '' @ r @ ''_history_changed_at ON '' @ h @ '' (changed_at);'' @ nl @
          ''CREATE OR REPLACE TRIGGER er_history_'' @ r @ nl @
          ''  AFTER INSERT OR UPDATE OR DELETE ON public.'' @ r @ nl @
          ''  FOR EACH ROW EXECUTE FUNCTION public.er_history('' @ [CHR 0x27] @ history_of r @ [CHR 0x27] @ '');'' @ nl))"

definition emit_postgres_ddl :: "entity_spec \<Rightarrow> convert_error + string" where
  "emit_postgres_ddl e =
     (if \<not> has_store Postgres e then Inl (WrongStore (en_name e) Postgres)
      else Inr (''CREATE TABLE IF NOT EXISTS public.'' @ en_relation e @ '' ('' @ nl @
             join_with ('','' @ nl) (map pg_column_sql (en_columns e) @ [''  PRIMARY KEY ('' @ join_with '', '' (en_key e) @ '')'']
               @ (if en_natural_key e = [] then [] else [''  UNIQUE ('' @ join_with '', '' (en_natural_key e) @ '')''])) @ nl @ '');'' @ nl @
             concat (map (pg_index_sql (en_relation e)) (en_indexes e)) @
             (case emit_history_companion_ddl e of None \<Rightarrow> [] | Some c \<Rightarrow> c)))"

text \<open>The schema version of a store: a digest of the rendered DDL in the order of the relations. \<open>unwrap_or_default\<close> makes a failed rendering empty.\<close>

definition or_empty :: "'e + string \<Rightarrow> string" where
  "or_empty r = (case r of Inl _ \<Rightarrow> [] | Inr s \<Rightarrow> s)"

definition catalog_hash :: "(string \<Rightarrow> nat list) \<Rightarrow> entity_spec list \<Rightarrow> store \<Rightarrow> string" where
  "catalog_hash sha256 catalog s =
     hex_bytes (sha256 (concat (map (\<lambda>e. en_relation e @ [CHR 0x00] @
       or_empty (case s of Duckdb \<Rightarrow> emit_lake_ddl e | Postgres \<Rightarrow> emit_postgres_ddl e) @ [CHR 0x00])
       (sort_key en_relation (for_store s catalog)))))"

section \<open>What loading guarantees\<close>

lemma find_None_subset: "find (\<lambda>c. c \<notin> A) xs = None \<longleftrightarrow> set xs \<subseteq> A"
  by (auto simp: find_None_iff)

lemma check_columns_None:
  "check_columns name seen cs = None \<longleftrightarrow> distinct (map co_name cs) \<and> co_name ` set cs \<inter> set seen = {}
     \<and> (\<forall>c \<in> set cs. trim (co_description c) \<noteq> [] \<and> (co_serial c \<longrightarrow> co_type c = Bigint))"
  by (induction cs arbitrary: seen) auto

lemma claim_relations_None:
  "claim_relations seen qs = None \<longleftrightarrow> distinct (map fst qs) \<and> fst ` set qs \<inter> fst ` set seen = {}"
  by (induction seen qs rule: claim_relations.induct) (auto split: option.splits simp: map_of_eq_None_iff dest!: map_of_SomeD intro: rev_image_eqI)

definition entity_ok :: "entity_spec \<Rightarrow> bool" where
  "entity_ok e \<longleftrightarrow> en_kind e = ''entity'' \<and> trim (en_description e) \<noteq> [] \<and> gb_stores (en_generate e) \<noteq> [] \<and> gb_languages (en_generate e) \<noteq> []
     \<and> en_columns e \<noteq> [] \<and> distinct (map co_name (en_columns e))
     \<and> (\<forall>c \<in> set (en_columns e). trim (co_description c) \<noteq> [] \<and> (co_serial c \<longrightarrow> co_type c = Bigint))
     \<and> en_key e \<noteq> [] \<and> set (en_key e) \<subseteq> co_name ` set (en_columns e)
     \<and> (\<forall>i \<in> set (en_indexes e). set (ix_columns i) \<subseteq> co_name ` set (en_columns e))"

lemma validate_iff: "validate_entity e = None \<longleftrightarrow> entity_ok e"
proof -
  have step: "(case x of None \<Rightarrow> z | Some y \<Rightarrow> Some (f y)) = None \<longleftrightarrow> x = None \<and> z = None" for x :: "'a option" and z :: "'b option" and f
    by (cases x) auto
  have all: "set (concat (map ix_columns is)) \<subseteq> A \<longleftrightarrow> (\<forall>i \<in> set is. set (ix_columns i) \<subseteq> A)" for "is" :: "index_spec list" and A by auto
  show ?thesis
    unfolding validate_entity_def Let_def first_missing_def entity_ok_def
    by (simp add: step find_None_subset check_columns_None all del: set_concat)
qed

lemma map_filter_Nil: "List.map_filter f xs = [] \<longleftrightarrow> (\<forall>x \<in> set xs. f x = None)"
  by (induction xs) (auto simp: List.map_filter_simps split: option.splits)

lemma from_entities_iff:
  "from_entities es = Inr cat \<longleftrightarrow> cat = es \<and> (\<forall>e \<in> set es. entity_ok e) \<and> distinct (map fst (relation_claims es))"
proof -
  have ok: "List.map_filter validate_entity es = [] \<longleftrightarrow> (\<forall>e \<in> set es. entity_ok e)" by (simp add: map_filter_Nil validate_iff)
  have claims: "claim_relations [] (relation_claims es) = None \<longleftrightarrow> distinct (map fst (relation_claims es))" by (simp add: claim_relations_None)
  show ?thesis unfolding from_entities_def ok [symmetric] claims [symmetric]
    by (auto split: list.splits option.splits)
qed

end
