(* ===== verification/SchemaDiff.thy ===== *)
theory SchemaDiff
  imports EntitySpec
begin

text \<open>
  Schema reconciliation: the comparison of the live columns with the catalog and the migration plan (\<open>er-entity-diff/src/lib.rs\<close>, \<open>migrate.rs\<close>),
  the reading of live columns (\<open>postgres.rs\<close>, \<open>lake.rs\<close>), the reconcilers with their ledger (\<open>reconcile.rs\<close>), the boot of the control plane
  (\<open>er-server/src/pg.rs\<close>, \<open>fixups.rs\<close>) and the deploy gate (\<open>er-server/src/migrate_plan.rs\<close>). What a database does with a DDL statement
  is written out for the parts the comparison looks at: tables with their columns, the names of indexes, and whether the history function
  is installed.
\<close>

section \<open>Databases\<close>

record db_column =
  dc_name :: string
  dc_type :: string
  dc_nullable :: bool

text \<open>The keys of a table are the column lists of its primary key, its unique constraints and its unconditional unique indexes.\<close>

datatype key_kind = PrimaryKey | UniqueConstraint | UniqueIndex string

record db_table =
  tb_columns :: "db_column list"
  tb_keys :: "(key_kind \<times> string list) list"

record database =
  db_tables :: "string \<Rightarrow> db_table option"
  db_indexes :: "string set"
  db_history_function :: bool

text \<open>The spelling of a type in \<open>information_schema\<close>.\<close>

definition catalog_type :: "store \<Rightarrow> column_type \<Rightarrow> string" where
  "catalog_type s t =
     (case s of
        Postgres \<Rightarrow> (case t of Timestamp \<Rightarrow> ''timestamp with time zone'' | ListVarchar \<Rightarrow> ''ARRAY'' | _ \<Rightarrow> postgres_type t)
      | Duckdb \<Rightarrow> (case t of ListVarchar \<Rightarrow> ''VARCHAR[]'' | _ \<Rightarrow> ducklake_type t))"

section \<open>Reading the live columns\<close>

record live_column =
  lc_name :: string
  lc_type :: string
  lc_nullable :: bool

definition normalize_pg_type :: "string \<Rightarrow> string" where
  "normalize_pg_type t =
     (if t = ''timestamp with time zone'' then ''timestamptz'' else if t = ''timestamp without time zone'' then ''timestamp''
      else if t = ''character varying'' then ''text'' else if t = ''ARRAY'' then ''text[]'' else t)"

definition normalize_lake_type :: "string \<Rightarrow> string" where
  "normalize_lake_type t = (if t = ''VARCHAR[]'' then ''LIST(VARCHAR)'' else t)"

definition live_of :: "store \<Rightarrow> db_column \<Rightarrow> live_column" where
  "live_of s c = \<lparr>lc_name = dc_name c,
     lc_type = (case s of Postgres \<Rightarrow> normalize_pg_type (dc_type c) | Duckdb \<Rightarrow> normalize_lake_type (dc_type c)), lc_nullable = dc_nullable c\<rparr>"

text \<open>A relation without columns has no rows in \<open>information_schema.columns\<close> and so no entry.\<close>

definition read_columns :: "store \<Rightarrow> string list \<Rightarrow> database \<Rightarrow> string \<Rightarrow> live_column list option" where
  "read_columns s relations db r =
     (if r \<notin> set relations then None
      else case db_tables db r of None \<Rightarrow> None
         | Some t \<Rightarrow> if tb_columns t = [] then None else Some (map (live_of s) (tb_columns t)))"

section \<open>The differences\<close>

datatype severity = Safe | Breaking | Ahead

record diff_item =
  df_relation :: string
  df_severity :: severity
  df_message :: string

definition expected_type :: "store \<Rightarrow> column_type \<Rightarrow> string" where
  "expected_type s t = (case s of Postgres \<Rightarrow> postgres_type t | Duckdb \<Rightarrow> ducklake_type t)"

definition item :: "store \<Rightarrow> string \<Rightarrow> severity \<Rightarrow> string \<Rightarrow> diff_item" where
  "item s relation sev msg = \<lparr>df_relation = qualify s relation, df_severity = sev, df_message = msg\<rparr>"

text \<open>Of two live columns of one name the later one is kept, as in the map the code builds.\<close>

definition live_named :: "live_column list \<Rightarrow> string \<Rightarrow> live_column option" where
  "live_named live name = find (\<lambda>l. lc_name l = name) (rev live)"

definition diff_column :: "store \<Rightarrow> string \<Rightarrow> live_column list \<Rightarrow> column_spec \<Rightarrow> diff_item list" where
  "diff_column s relation live c =
     (case live_named live (co_name c) of
        None \<Rightarrow> [item s relation (if co_nullable c then Safe else Breaking) (''column '' @ co_name c @ '' is absent; add column'')]
      | Some l \<Rightarrow>
          (if lc_type l \<noteq> expected_type s (co_type c)
           then [item s relation Breaking (''column '' @ co_name c @ '': type '' @ lc_type l @ '' -> '' @ expected_type s (co_type c))] else []) @
          (if lc_nullable l \<and> \<not> co_nullable c then [item s relation Breaking (''column '' @ co_name c @ '': nullable -> NOT NULL'')] else []))"

definition diff_entity :: "store \<Rightarrow> live_column list \<Rightarrow> entity_spec \<Rightarrow> diff_item list" where
  "diff_entity s live e =
     concat (map (diff_column s (en_relation e) live) (en_columns e)) @
     map (\<lambda>l. item s (en_relation e) Ahead (''column '' @ lc_name l @ '' is in the live store but not declared''))
       (filter (\<lambda>l. lc_name l \<notin> co_name ` set (en_columns e)) live)"

definition diff_store :: "entity_spec list \<Rightarrow> store \<Rightarrow> (string \<Rightarrow> live_column list option) \<Rightarrow> diff_item list" where
  "diff_store catalog s live =
     concat (map (\<lambda>e. case live (en_relation e) of
         None \<Rightarrow> [item s (en_relation e) Safe (''relation '' @ en_relation e @ '' is absent; create table'')]
       | Some cols \<Rightarrow> diff_entity s cols e) (for_store s catalog)) @
     (if s = Postgres
      then List.map_filter (\<lambda>e. if gb_history (en_generate e) \<and> live (history_of (en_relation e)) = None
             then Some (item s (history_of (en_relation e)) Safe (''history companion '' @ history_of (en_relation e) @ '' is absent; create companion + trigger''))
             else None) (for_store s catalog)
      else [])"

definition postgres_relations :: "entity_spec list \<Rightarrow> string list" where
  "postgres_relations catalog =
     concat (map (\<lambda>e. en_relation e # (if gb_history (en_generate e) then [history_of (en_relation e)] else [])) (for_store Postgres catalog))"

definition catalog_without :: "entity_spec list \<Rightarrow> store \<Rightarrow> string set \<Rightarrow> spec_error + entity_spec list" where
  "catalog_without catalog s skip = from_entities (filter (\<lambda>e. en_relation e \<notin> skip) (for_store s catalog))"

section \<open>The order of creation\<close>

definition by_relation :: "entity_spec list \<Rightarrow> (string, entity_spec) bmap" where
  "by_relation es = bmap_collect (map (\<lambda>e. (en_relation e, e)) es)"

definition deps :: "(string, entity_spec) bmap \<Rightarrow> entity_spec \<Rightarrow> entity_spec list" where
  "deps by_rel e = List.map_filter (\<lambda>c. Option.bind (co_references c) (\<lambda>r. map_of by_rel (rf_relation r))) (en_columns e)"

text \<open>The recursive visit, over the entities still to visit: an entity is placed after what it references.\<close>

function visit_all :: "(string, entity_spec) bmap \<Rightarrow> entity_spec list \<Rightarrow> string list \<Rightarrow> entity_spec list \<Rightarrow> string list \<times> entity_spec list" where
  "visit_all by_rel [] visited ordered = (visited, ordered)"
| "visit_all by_rel (e # es) visited ordered =
     (if en_relation e \<in> set visited then visit_all by_rel es visited ordered
      else case visit_all by_rel (deps by_rel e) (en_relation e # visited) ordered of
             (visited', ordered') \<Rightarrow> visit_all by_rel es visited' (ordered' @ [e]))"
  by pat_completeness auto

definition visitable :: "(string, entity_spec) bmap \<Rightarrow> entity_spec list \<Rightarrow> string set" where
  "visitable by_rel es = (en_relation ` snd ` set by_rel) \<union> (en_relation ` set es)"

lemma visit_grows: "visit_all_dom (by_rel, es, visited, ordered) \<Longrightarrow> set visited \<subseteq> set (fst (visit_all by_rel es visited ordered))"
  by (induction by_rel es visited ordered rule: visit_all.pinduct) (fastforce simp: visit_all.psimps split: prod.splits)+

lemma deps_mem: "d \<in> set (deps by_rel e) \<Longrightarrow> d \<in> snd ` set by_rel"
proof -
  assume "d \<in> set (deps by_rel e)"
  then obtain r where "map_of by_rel r = Some d" by (auto simp: deps_def List.map_filter_def bind_eq_Some_conv)
  then show ?thesis by (force dest: map_of_SomeD)
qed

lemma visitable_deps: "visitable by_rel (deps by_rel e) \<subseteq> visitable by_rel (e # es)"
  using deps_mem by (fastforce simp: visitable_def)

lemma visitable_tail: "visitable by_rel es \<subseteq> visitable by_rel (e # es)"
  by (auto simp: visitable_def)

lemma finite_visitable [simp]: "finite (visitable by_rel es)" by (simp add: visitable_def)

lemma visitable_shrinks:
  assumes "en_relation e \<notin> set visited" and "V \<subseteq> visitable by_rel (e # es)" and "set (en_relation e # visited) \<subseteq> W"
  shows "card (V - W) < card (visitable by_rel (e # es) - set visited)"
proof (rule psubset_card_mono)
  have "en_relation e \<in> visitable by_rel (e # es)" by (simp add: visitable_def)
  then show "V - W \<subset> visitable by_rel (e # es) - set visited" using assms by auto
qed simp

termination visit_all
proof (relation "measures [\<lambda>(by_rel, es, visited, _). card (visitable by_rel es - set visited), \<lambda>(_, es, _, _). length es]", goal_cases)
  case (2 by_rel e es visited ordered)
  have "card (visitable by_rel es - set visited) \<le> card (visitable by_rel (e # es) - set visited)"
    using visitable_tail by (intro card_mono) auto
  then show ?case by auto
next
  case (3 by_rel e es visited ordered)
  then show ?case using visitable_shrinks [OF 3 visitable_deps [of by_rel e es], of "set (en_relation e # visited)"] by simp
next
  case (4 by_rel e es visited ordered visited' ordered')
  have "set (en_relation e # visited) \<subseteq> set visited'" using visit_grows [OF 4(3)] 4(2) by (metis fst_conv)
  then show ?case using visitable_shrinks [OF 4(1) visitable_tail [of by_rel es e], of "set visited'"] by simp
qed simp

definition topo_order :: "entity_spec list \<Rightarrow> entity_spec list" where
  "topo_order es = snd (visit_all (by_relation es) es [] [])"

end
