(* ===== verification/SchemaApply.thy ===== *)
theory SchemaApply
  imports SchemaDiff
begin

text \<open>
  The migration plan (\<open>er-entity-diff/src/migrate.rs\<close>) and what a database does with its statements. A statement is kept in its structured
  form beside its text; what a store does with it is written out for tables, columns, keys, indexes and the history function. How a server
  reads an unquoted name and which type spellings the lake's parser accepts are parameters. Defaults, check constraints and index
  predicates are taken as expressions the server accepts.
\<close>

section \<open>Statements\<close>

datatype ddl = CreateTable entity_spec | AddColumn string column_spec | HistoryCompanion entity_spec | HistoryPrelude

definition add_column_sql :: "store \<Rightarrow> string \<Rightarrow> column_spec \<Rightarrow> string" where
  "add_column_sql s relation c =
     (case s of
        Duckdb \<Rightarrow> ''ALTER TABLE lake.main.'' @ relation @ '' ADD COLUMN '' @ co_name c @ '' '' @ ducklake_type (co_type c) @ '';''
      | Postgres \<Rightarrow> ''ALTER TABLE public.'' @ relation @ '' ADD COLUMN '' @ co_name c @ '' '' @ postgres_type (co_type c)
          @ (case co_default c of None \<Rightarrow> [] | Some d \<Rightarrow> '' DEFAULT '' @ d) @ '';'')"

definition create_table_sql :: "store \<Rightarrow> entity_spec \<Rightarrow> string" where
  "create_table_sql s e =
     (case s of
        Duckdb \<Rightarrow> (case emit_lake_ddl e of Inl _ \<Rightarrow> [] | Inr sql \<Rightarrow> sql @ '';'')
      | Postgres \<Rightarrow> or_empty (emit_postgres_ddl e))"

record planned =
  pl_relation :: string
  pl_sql :: string

text \<open>The text of the history function is a constant of the generator.\<close>

definition planned_of :: "string \<Rightarrow> store \<Rightarrow> ddl \<Rightarrow> planned" where
  "planned_of history_prelude s d =
     (case d of
        CreateTable e \<Rightarrow> \<lparr>pl_relation = qualify s (en_relation e), pl_sql = create_table_sql s e\<rparr>
      | AddColumn r c \<Rightarrow> \<lparr>pl_relation = qualify s r, pl_sql = add_column_sql s r c\<rparr>
      | HistoryCompanion e \<Rightarrow> \<lparr>pl_relation = qualify s (history_of (en_relation e)),
          pl_sql = (case emit_history_companion_ddl e of None \<Rightarrow> [] | Some t \<Rightarrow> t)\<rparr>
      | HistoryPrelude \<Rightarrow> \<lparr>pl_relation = ''public.er_history()'', pl_sql = history_prelude\<rparr>)"

section \<open>The plan\<close>

record migration_plan =
  mp_statements :: "ddl list"
  mp_breaking :: "diff_item list"
  mp_ahead :: "diff_item list"

definition migration_plan_empty :: "migration_plan \<Rightarrow> bool" where
  "migration_plan_empty p \<longleftrightarrow> mp_statements p = [] \<and> mp_breaking p = []"

definition lacks_companion :: "store \<Rightarrow> (string \<Rightarrow> live_column list option) \<Rightarrow> entity_spec \<Rightarrow> bool" where
  "lacks_companion s live e \<longleftrightarrow> s = Postgres \<and> gb_history (en_generate e) \<and> live (history_of (en_relation e)) = None"

definition entity_statements :: "store \<Rightarrow> (string \<Rightarrow> live_column list option) \<Rightarrow> entity_spec \<Rightarrow> ddl list" where
  "entity_statements s live e =
     (case live (en_relation e) of
        None \<Rightarrow> [CreateTable e]
      | Some cols \<Rightarrow>
          map (AddColumn (en_relation e)) (filter (\<lambda>c. co_name c \<notin> lc_name ` set cols \<and> co_nullable c) (en_columns e)) @
          (if lacks_companion s live e then [HistoryCompanion e] else []))"

definition needs_history_prelude :: "store \<Rightarrow> (string \<Rightarrow> live_column list option) \<Rightarrow> entity_spec \<Rightarrow> bool" where
  "needs_history_prelude s live e \<longleftrightarrow>
     (if live (en_relation e) = None then s = Postgres \<and> gb_history (en_generate e) else lacks_companion s live e)"

definition plan_migration :: "entity_spec list \<Rightarrow> store \<Rightarrow> (string \<Rightarrow> live_column list option) \<Rightarrow> migration_plan" where
  "plan_migration catalog s live =
     (let diffs = diff_store catalog s live; ordered = topo_order (for_store s catalog) in
      \<lparr>mp_statements = (if list_ex (needs_history_prelude s live) ordered then [HistoryPrelude] else [])
                        @ concat (map (entity_statements s live) ordered),
       mp_breaking = filter (\<lambda>d. df_severity d = Breaking) diffs,
       mp_ahead = filter (\<lambda>d. df_severity d = Ahead) diffs\<rparr>)"

section \<open>What a store does with a statement\<close>

record server =
  sv_ident :: "store \<Rightarrow> string \<Rightarrow> string option"
  sv_type :: "store \<Rightarrow> string \<Rightarrow> bool"

datatype ddl_error = UndefinedTable string | UndefinedColumn string | RepeatedColumn string | InvalidForeignKey string | DatatypeMismatch string
  | UndefinedFunction string | NotNullViolation string | DdlSyntax

definition andthen :: "'e + 'a \<Rightarrow> ('a \<Rightarrow> 'e + 'b) \<Rightarrow> 'e + 'b" where
  "andthen r f = (case r of Inl x \<Rightarrow> Inl x | Inr v \<Rightarrow> f v)"

lemma andthen_simps [simp]: "andthen (Inl x) f = Inl x" "andthen (Inr v) f = f v"
  by (simp_all add: andthen_def)

lemma andthen_Inr_iff: "andthen r f = Inr w \<longleftrightarrow> (\<exists>v. r = Inr v \<and> f v = Inr w)"
  by (cases r) auto

text \<open>The names an entity's statements mention, and the entity as the server stores it.\<close>

definition reference_names :: "column_spec \<Rightarrow> string list" where
  "reference_names c = (case co_references c of None \<Rightarrow> [] | Some r \<Rightarrow> [rf_relation r, rf_column r])"

definition entity_names :: "entity_spec \<Rightarrow> string list" where
  "entity_names e =
     en_relation e # history_of (en_relation e) # map co_name (en_columns e) @ concat (map reference_names (en_columns e))
       @ en_key e @ en_natural_key e @ concat (map (\<lambda>i. ix_name i # ix_columns i) (en_indexes e))"

definition stored_column :: "(string \<Rightarrow> string) \<Rightarrow> column_spec \<Rightarrow> column_spec" where
  "stored_column f c = c\<lparr>co_name := f (co_name c),
     co_references := map_option (\<lambda>r. \<lparr>rf_relation = f (rf_relation r), rf_column = f (rf_column r)\<rparr>) (co_references c)\<rparr>"

definition stored_entity :: "(string \<Rightarrow> string) \<Rightarrow> entity_spec \<Rightarrow> entity_spec" where
  "stored_entity f e = e\<lparr>en_relation := f (en_relation e), en_key := map f (en_key e), en_natural_key := map f (en_natural_key e),
     en_columns := map (stored_column f) (en_columns e),
     en_indexes := map (\<lambda>i. i\<lparr>ix_name := f (ix_name i), ix_columns := map f (ix_columns i)\<rparr>) (en_indexes e)\<rparr>"

definition pg_column :: "entity_spec \<Rightarrow> column_spec \<Rightarrow> db_column" where
  "pg_column e c = \<lparr>dc_name = co_name c, dc_type = catalog_type Postgres (co_type c),
     dc_nullable = (co_nullable c \<and> \<not> co_serial c \<and> co_name c \<notin> set (en_key e))\<rparr>"

definition lake_column :: "column_spec \<Rightarrow> db_column" where
  "lake_column c = \<lparr>dc_name = co_name c, dc_type = catalog_type Duckdb (co_type c), dc_nullable = co_nullable c\<rparr>"

text \<open>A foreign key needs the other table, the column there, a key on that column, and the same type.\<close>

definition reference_error :: "(string \<Rightarrow> db_table option) \<Rightarrow> column_spec \<Rightarrow> ddl_error option" where
  "reference_error tables c =
     (case co_references c of
        None \<Rightarrow> None
      | Some r \<Rightarrow>
          (case tables (rf_relation r) of
             None \<Rightarrow> Some (UndefinedTable (rf_relation r))
           | Some t \<Rightarrow>
               (case find (\<lambda>d. dc_name d = rf_column r) (tb_columns t) of
                  None \<Rightarrow> Some (UndefinedColumn (rf_column r))
                | Some d \<Rightarrow>
                    if [rf_column r] \<notin> snd ` set (tb_keys t) then Some (InvalidForeignKey (rf_relation r))
                    else if dc_type d \<noteq> catalog_type Postgres (co_type c) then Some (DatatypeMismatch (co_name c))
                    else None)))"

definition table_of :: "entity_spec \<Rightarrow> db_table" where
  "table_of e = \<lparr>tb_columns = map (pg_column e) (en_columns e), 
     tb_keys = (PrimaryKey, en_key e) # (if en_natural_key e = [] then [] else [(UniqueConstraint, en_natural_key e)])\<rparr>"

definition create_pg_table :: "entity_spec \<Rightarrow> database \<Rightarrow> ddl_error + database" where
  "create_pg_table e db =
     (let names = map co_name (en_columns e); tables = (db_tables db)(en_relation e \<mapsto> table_of e) in
      if db_tables db (en_relation e) \<noteq> None then Inr db
      else if \<not> distinct names \<or> \<not> distinct (en_key e) \<or> \<not> distinct (en_natural_key e) then Inl (RepeatedColumn (en_relation e))
      else case first_missing names (en_key e @ en_natural_key e) of
             Some c \<Rightarrow> Inl (UndefinedColumn c)
           | None \<Rightarrow> (case List.map_filter (reference_error tables) (en_columns e) of
                        x # _ \<Rightarrow> Inl x
                      | [] \<Rightarrow> Inr (db\<lparr>db_tables := tables\<rparr>)))"

fun create_indexes :: "string \<Rightarrow> index_spec list \<Rightarrow> database \<Rightarrow> ddl_error + database" where
  "create_indexes relation [] db = Inr db"
| "create_indexes relation (i # rest) db =
     (case db_tables db relation of
        None \<Rightarrow> Inl (UndefinedTable relation)
      | Some t \<Rightarrow>
          (case first_missing (map dc_name (tb_columns t)) (ix_columns i) of
             Some c \<Rightarrow> Inl (UndefinedColumn c)
           | None \<Rightarrow>
               create_indexes relation rest
                 (if ix_name i \<in> db_indexes db then db
                  else db\<lparr>db_indexes := insert (ix_name i) (db_indexes db),
                          db_tables := (if ix_unique i \<and> ix_where i = None
                            then (db_tables db)(relation \<mapsto> t\<lparr>tb_keys := (UniqueIndex (ix_name i), ix_columns i) # tb_keys t\<rparr>) else db_tables db)\<rparr>)))"

definition history_table :: db_table where
  "history_table = \<lparr>tb_columns =
     [\<lparr>dc_name = ''history_id'', dc_type = ''bigint'', dc_nullable = False\<rparr>,
      \<lparr>dc_name = ''row_id'', dc_type = ''text'', dc_nullable = False\<rparr>,
      \<lparr>dc_name = ''op'', dc_type = ''text'', dc_nullable = False\<rparr>,
      \<lparr>dc_name = ''changed_at'', dc_type = ''timestamp with time zone'', dc_nullable = False\<rparr>,
      \<lparr>dc_name = ''actor'', dc_type = ''text'', dc_nullable = False\<rparr>,
      \<lparr>dc_name = ''old_row'', dc_type = ''jsonb'', dc_nullable = True\<rparr>,
      \<lparr>dc_name = ''new_row'', dc_type = ''jsonb'', dc_nullable = True\<rparr>], tb_keys = [(PrimaryKey, [''history_id''])]\<rparr>"

definition plain_index :: "string \<Rightarrow> string list \<Rightarrow> index_spec" where
  "plain_index name cols = \<lparr>ix_name = name, ix_columns = cols, ix_unique = False, ix_where = None\<rparr>"

text \<open>The companion table with its two indexes, then the trigger on the table itself.\<close>

definition create_companion :: "string \<Rightarrow> string \<Rightarrow> database \<Rightarrow> ddl_error + database" where
  "create_companion relation history db =
     andthen (create_indexes history [plain_index (relation @ ''_history_row_id'') [''row_id''], plain_index (relation @ ''_history_changed_at'') [''changed_at'']]
        (if db_tables db history = None then db\<lparr>db_tables := (db_tables db)(history \<mapsto> history_table)\<rparr> else db))
       (\<lambda>db'. if db_tables db' relation = None then Inl (UndefinedTable relation)
              else if \<not> db_history_function db' then Inl (UndefinedFunction ''er_history'') else Inr db')"

definition create_lake :: "entity_spec \<Rightarrow> database \<Rightarrow> ddl_error + database" where
  "create_lake e db =
     (if db_tables db (en_relation e) \<noteq> None then Inr db
      else Inr (db\<lparr>db_tables := (db_tables db)(en_relation e \<mapsto> \<lparr>tb_columns = map lake_column (en_columns e), tb_keys = []\<rparr>)\<rparr>))"

text \<open>A column that is added is nullable, whatever else is declared of it.\<close>

definition add_column :: "store \<Rightarrow> string \<Rightarrow> string \<Rightarrow> column_type \<Rightarrow> database \<Rightarrow> ddl_error + database" where
  "add_column s relation name ty db =
     (case db_tables db relation of
        None \<Rightarrow> Inl (UndefinedTable relation)
      | Some t \<Rightarrow>
          if name \<in> dc_name ` set (tb_columns t) then Inl (RepeatedColumn name)
          else Inr (db\<lparr>db_tables := (db_tables db)(relation \<mapsto>
                 t\<lparr>tb_columns := tb_columns t @ [\<lparr>dc_name = name, dc_type = catalog_type s ty, dc_nullable = True\<rparr>]\<rparr>)\<rparr>))"

definition execute :: "server \<Rightarrow> store \<Rightarrow> ddl \<Rightarrow> database \<Rightarrow> ddl_error + database" where
  "execute sv s d db =
     (let stored = (\<lambda>n. the (sv_ident sv s n)); readable = list_all (\<lambda>n. sv_ident sv s n \<noteq> None) in
      case d of
        CreateTable e \<Rightarrow>
          (case s of
             Postgres \<Rightarrow>
               if \<not> has_store Postgres e then Inr db
               else if \<not> readable (entity_names e) then Inl DdlSyntax
               else let e' = stored_entity stored e in
                 andthen (create_pg_table e' db) (\<lambda>db1.
                 andthen (create_indexes (en_relation e') (en_indexes e') db1) (\<lambda>db2.
                 if gb_history (en_generate e) then create_companion (en_relation e') (stored (history_of (en_relation e))) db2 else Inr db2))
           | Duckdb \<Rightarrow>
               (case to_lake_table_spec e of
                  Inl _ \<Rightarrow> Inr db
                | Inr _ \<Rightarrow> if \<not> readable (en_relation e # map co_name (en_columns e)) then Inl DdlSyntax else create_lake (stored_entity stored e) db))
      | AddColumn r c \<Rightarrow>
          if \<not> readable [r, co_name c] \<or> \<not> sv_type sv s (expected_type s (co_type c)) then Inl DdlSyntax
          else add_column s (stored r) (stored (co_name c)) (co_type c) db
      | HistoryCompanion e \<Rightarrow>
          if \<not> readable [en_relation e, history_of (en_relation e)] then Inl DdlSyntax
          else create_companion (stored (en_relation e)) (stored (history_of (en_relation e))) db
      | HistoryPrelude \<Rightarrow> Inr (db\<lparr>db_history_function := True\<rparr>))"

fun execute_all :: "server \<Rightarrow> store \<Rightarrow> ddl list \<Rightarrow> database \<Rightarrow> ddl_error + database" where
  "execute_all sv s [] db = Inr db"
| "execute_all sv s (d # ds) db = andthen (execute sv s d db) (execute_all sv s ds)"

end
