(* ===== verification/SchemaLaws.thy ===== *)
theory SchemaLaws
  imports SchemaApply
begin

text \<open>
  Laws of schema reconciliation: the order of creation places what a table references before it, and executing the plan of a store without
  breaking differences succeeds and leaves a store for which the plan is empty, with every column that was there kept in place.
\<close>

section \<open>The order of creation\<close>

abbreviation relations_of :: "entity_spec list \<Rightarrow> string set" where
  "relations_of es \<equiv> en_relation ` set es"

text \<open>Every entity of the result was reachable, none twice, and everything asked for is visited.\<close>

definition places :: "(string, entity_spec) bmap \<Rightarrow> entity_spec list \<Rightarrow> string list \<Rightarrow> entity_spec list \<Rightarrow> string list \<Rightarrow> entity_spec list \<Rightarrow> bool" where
  "places by_rel es visited ordered visited' ordered' \<longleftrightarrow>
     (\<exists>new. ordered' = ordered @ new \<and> distinct (map en_relation new) \<and> relations_of new \<inter> set visited = {}
        \<and> set visited' = set visited \<union> relations_of new \<and> set new \<subseteq> set es \<union> snd ` set by_rel \<and> relations_of es \<subseteq> set visited')"

lemma places_skip: "en_relation e \<in> set visited \<Longrightarrow> places by_rel es visited ordered v o' \<Longrightarrow> places by_rel (e # es) visited ordered v o'"
  unfolding places_def by (elim exE) (rule exI, auto)

lemma places_visit:
  assumes inner: "places by_rel (deps by_rel e) (en_relation e # visited) ordered v1 o1" and outer: "places by_rel es v1 (o1 @ [e]) v2 o2"
    and new: "en_relation e \<notin> set visited"
  shows "places by_rel (e # es) visited ordered v2 o2"
proof -
  from inner obtain n1 where n1: "o1 = ordered @ n1" "distinct (map en_relation n1)" "relations_of n1 \<inter> set (en_relation e # visited) = {}"
    "set v1 = set (en_relation e # visited) \<union> relations_of n1" "set n1 \<subseteq> set (deps by_rel e) \<union> snd ` set by_rel" by (auto simp: places_def)
  from outer obtain n2 where n2: "o2 = (o1 @ [e]) @ n2" "distinct (map en_relation n2)" "relations_of n2 \<inter> set v1 = {}"
    "set v2 = set v1 \<union> relations_of n2" "set n2 \<subseteq> set es \<union> snd ` set by_rel" "relations_of es \<subseteq> set v2" by (auto simp: places_def)
  have "set n1 \<subseteq> snd ` set by_rel" using n1(5) deps_mem by blast
  moreover have "distinct (map en_relation (n1 @ e # n2))" using n1(2,3,4) n2(2,3) by auto
  moreover have "relations_of (n1 @ e # n2) \<inter> set visited = {}" using new n1(3,4) n2(3) by auto
  ultimately show ?thesis
    unfolding places_def using n1(1,4) n2(1,4,5,6) by (intro exI [of _ "n1 @ e # n2"]) auto
qed

lemma visit_all_places: "case visit_all by_rel es visited ordered of (v, o') \<Rightarrow> places by_rel es visited ordered v o'"
proof (induction by_rel es visited ordered rule: visit_all.induct)
  case (2 by_rel e es visited ordered)
  show ?case
  proof (cases "en_relation e \<in> set visited")
    case True
    then show ?thesis using "2.IH"(1) places_skip by (auto split: prod.splits)
  next
    case False
    then show ?thesis using "2.IH"(2,3) places_visit by (auto split: prod.splits)
  qed
qed (simp add: places_def)

lemma by_relation_mem: "snd ` set (by_relation es) \<subseteq> set es"
proof
  fix d assume "d \<in> snd ` set (by_relation es)"
  then obtain k where "(k, d) \<in> set (by_relation es)" by auto
  then have "map_of (by_relation es) k = Some d" by (simp add: by_relation_def bmap_get_mem)
  then show "d \<in> set es" by (auto simp: by_relation_def bmap_get_collect dest: map_of_SomeD)
qed

lemma by_relation_get: "distinct (map en_relation es) \<Longrightarrow> e \<in> set es \<Longrightarrow> map_of (by_relation es) (en_relation e) = Some e"
  unfolding by_relation_def bmap_get_collect by (rule map_of_is_SomeI) (auto simp: comp_def simp flip: rev_map)

lemma topo_order_permutes:
  assumes "distinct (map en_relation es)"
  shows "set (topo_order es) = set es" "distinct (map en_relation (topo_order es))"
proof -
  obtain v o' where run: "visit_all (by_relation es) es [] [] = (v, o')" by fastforce
  then have o': "topo_order es = o'" by (simp add: topo_order_def)
  from run visit_all_places [of "by_relation es" es "[]" "[]"] have p: "places (by_relation es) es [] [] v o'" by simp
  then show "distinct (map en_relation (topo_order es))" by (auto simp: places_def o')
  from p have "set o' \<subseteq> set es \<union> snd ` set (by_relation es)" by (auto simp: places_def)
  then have sub: "set o' \<subseteq> set es" using by_relation_mem by blast
  from p have cover: "relations_of es \<subseteq> relations_of o'" by (auto simp: places_def)
  have "e \<in> set o'" if e: "e \<in> set es" for e
  proof -
    from e cover obtain d where d: "d \<in> set o'" "en_relation d = en_relation e" by (metis imageE imageI subsetD)
    with sub e assms have "d = e" by (auto simp: distinct_map dest: inj_onD)
    with d show ?thesis by simp
  qed
  with sub show "set (topo_order es) = set es" unfolding o' by blast
qed

text \<open>An order is founded when what an entity references, among the known relations, is placed before it or is the entity itself.\<close>

definition referenced :: "entity_spec \<Rightarrow> string set" where
  "referenced e = rf_relation ` set (List.map_filter co_references (en_columns e))"

lemma referenced_iff: "x \<in> referenced e \<longleftrightarrow> (\<exists>c \<in> set (en_columns e). \<exists>r. co_references c = Some r \<and> rf_relation r = x)"
  by (force simp: referenced_def List.map_filter_def)

definition founded :: "string set \<Rightarrow> entity_spec list \<Rightarrow> bool" where
  "founded known ord \<longleftrightarrow> (\<forall>a e b. ord = a @ e # b \<longrightarrow> referenced e \<inter> known \<subseteq> insert (en_relation e) (relations_of a))"

definition ranked :: "(string \<Rightarrow> nat) \<Rightarrow> entity_spec list \<Rightarrow> bool" where
  "ranked rank es \<longleftrightarrow> (\<forall>e \<in> set es. \<forall>r \<in> referenced e \<inter> relations_of es. r = en_relation e \<or> rank r < rank (en_relation e))"

lemma founded_Nil [simp]: "founded known []" by (simp add: founded_def)

lemma founded_snoc:
  assumes "founded known ord" and "referenced e \<inter> known \<subseteq> insert (en_relation e) (relations_of ord)"
  shows "founded known (ord @ [e])"
  unfolding founded_def
proof (intro allI impI)
  fix a d b assume split: "ord @ [e] = a @ d # b"
  show "referenced d \<inter> known \<subseteq> insert (en_relation d) (relations_of a)"
  proof (cases b rule: rev_cases)
    case Nil
    with split assms(2) show ?thesis by simp
  next
    case (snoc b' x)
    with split have "ord = a @ d # b'" by simp
    with assms(1) show ?thesis by (simp add: founded_def)
  qed
qed

lemma deps_mem_iff: "d \<in> set (deps by_rel e) \<longleftrightarrow> (\<exists>c \<in> set (en_columns e). \<exists>r. co_references c = Some r \<and> map_of by_rel (rf_relation r) = Some d)"
  by (auto simp: deps_def List.map_filter_def bind_eq_Some_conv image_iff) force

lemma relations_deps:
  assumes "distinct (map en_relation es)"
  shows "relations_of (deps (by_relation es) e) = referenced e \<inter> relations_of es"
proof -
  have get: "map_of (by_relation es) r = Some d \<longleftrightarrow> d \<in> set es \<and> en_relation d = r" for r d
  proof
    assume "map_of (by_relation es) r = Some d"
    then show "d \<in> set es \<and> en_relation d = r" by (auto simp: by_relation_def bmap_get_collect dest!: map_of_SomeD)
  qed (use by_relation_get [OF assms] in blast)
  have "x \<in> relations_of (deps (by_relation es) e) \<longleftrightarrow> (\<exists>c \<in> set (en_columns e). \<exists>r. co_references c = Some r \<and> rf_relation r = x \<and> x \<in> relations_of es)" for x
  proof -
    have "x \<in> relations_of (deps (by_relation es) e) \<longleftrightarrow> (\<exists>d. d \<in> set (deps (by_relation es) e) \<and> en_relation d = x)" by auto
    also have "\<dots> \<longleftrightarrow> (\<exists>d. \<exists>c \<in> set (en_columns e). \<exists>r. co_references c = Some r \<and> (d \<in> set es \<and> en_relation d = rf_relation r) \<and> en_relation d = x)"
      unfolding deps_mem_iff get by blast
    also have "\<dots> \<longleftrightarrow> (\<exists>c \<in> set (en_columns e). \<exists>r. co_references c = Some r \<and> rf_relation r = x \<and> (\<exists>d \<in> set es. x = en_relation d))"
      by (metis (no_types, lifting))
    finally show ?thesis unfolding image_iff .
  qed
  then show ?thesis by (intro set_eqI) (unfold Int_iff referenced_iff, blast)
qed

lemma visit_all_founded:
  assumes "by_rel = by_relation all" and "distinct (map en_relation all)" and "ranked rank all"
    and "set es \<subseteq> set all" and "founded (relations_of all) ordered" and "relations_of ordered \<subseteq> set visited"
    and "\<forall>v \<in> set visited - relations_of ordered. \<forall>e \<in> set es. rank (en_relation e) < rank v \<or> en_relation e = v"
  shows "case visit_all by_rel es visited ordered of (v, o') \<Rightarrow>
     founded (relations_of all) o' \<and> relations_of o' \<subseteq> set v \<and> set v - relations_of o' = set visited - relations_of ordered"
  using assms
proof (induction by_rel es visited ordered rule: visit_all.induct)
  case (2 by_rel e es visited ordered)
  note prems = "2.prems"
  show ?case
  proof (cases "en_relation e \<in> set visited")
    case True
    then show ?thesis using "2.IH"(1) [OF True prems(1,2,3)] prems(4-7) by simp
  next
    case False
    have e: "e \<in> set all" and es: "set es \<subseteq> set all" using prems(4) by auto
    have deps_rel: "relations_of (deps by_rel e) = referenced e \<inter> relations_of all" using relations_deps [OF prems(2)] prems(1) by simp
    have lower: "rank r < rank (en_relation e) \<or> r = en_relation e" if "r \<in> relations_of (deps by_rel e)" for r
      using that prems(3) e unfolding deps_rel ranked_def by blast
    obtain v1 o1 where inner: "visit_all by_rel (deps by_rel e) (en_relation e # visited) ordered = (v1, o1)" by fastforce
    have p1: "places by_rel (deps by_rel e) (en_relation e # visited) ordered v1 o1" using visit_all_places [of by_rel "deps by_rel e" "en_relation e # visited" ordered] inner by simp
    have above: "v = en_relation e \<or> rank (en_relation e) < rank v" if "v \<in> set (en_relation e # visited) - relations_of ordered" for v
      using that prems(7) False by auto
    have open_above: "\<forall>v \<in> set (en_relation e # visited) - relations_of ordered. \<forall>d \<in> set (deps by_rel e). rank (en_relation d) < rank v \<or> en_relation d = v"
    proof (intro ballI)
      fix v d assume v: "v \<in> set (en_relation e # visited) - relations_of ordered" and "d \<in> set (deps by_rel e)"
      then have "rank (en_relation d) < rank (en_relation e) \<or> en_relation d = en_relation e" using lower by blast
      with above [OF v] show "rank (en_relation d) < rank v \<or> en_relation d = v" by auto
    qed
    have "set (deps by_rel e) \<subseteq> set all" using deps_mem by_relation_mem prems(1) by blast
    from "2.IH"(2) [OF False prems(1,2,3) this prems(5) _ open_above] prems(6) inner
    have f1: "founded (relations_of all) o1" "relations_of o1 \<subseteq> set v1" "set v1 - relations_of o1 = set (en_relation e # visited) - relations_of ordered" by auto
    have "relations_of (deps by_rel e) \<subseteq> insert (en_relation e) (relations_of o1)"
    proof
      fix r assume r: "r \<in> relations_of (deps by_rel e)"
      then have "r \<in> set v1" using p1 by (auto simp: places_def)
      show "r \<in> insert (en_relation e) (relations_of o1)"
      proof (rule ccontr)
        assume c: "r \<notin> insert (en_relation e) (relations_of o1)"
        with \<open>r \<in> set v1\<close> f1(3) have "r \<in> set visited - relations_of ordered" by auto
        with prems(7) have "rank (en_relation e) < rank r \<or> en_relation e = r" by simp
        with lower [OF r] c show False by auto
      qed
    qed
    then have f2: "founded (relations_of all) (o1 @ [e])" using founded_snoc [OF f1(1)] deps_rel by blast
    have covered: "relations_of (o1 @ [e]) \<subseteq> set v1" using f1(2) p1 by (auto simp: places_def)
    have same: "set v1 - relations_of (o1 @ [e]) = set visited - relations_of ordered" using f1(3) False prems(6) by auto
    have "\<forall>v \<in> set v1 - relations_of (o1 @ [e]). \<forall>d \<in> set es. rank (en_relation d) < rank v \<or> en_relation d = v" using prems(7) unfolding same by simp
    from "2.IH"(3) [OF False inner [symmetric] prems(1,2,3) es f2 covered this] show ?thesis using False inner same by simp
  qed
qed simp

lemma topo_order_founded:
  assumes "distinct (map en_relation es)" and "ranked rank es"
  shows "founded (relations_of es) (topo_order es)"
  using visit_all_founded [OF refl assms subset_refl founded_Nil, of "[]"] by (simp add: topo_order_def split: prod.splits)

end
