(* ===== verification/SchemaSettle.thy ===== *)
theory SchemaSettle
  imports SchemaLaws
begin

text \<open>
  Executing a plan: each statement of a plan without breaking differences succeeds on a store that satisfies the references of the catalog,
  touches only the tables of its own entity, and retains what the store has; after the last one the plan is empty.
\<close>

section \<open>What statements keep\<close>

definition retains :: "database \<Rightarrow> database \<Rightarrow> bool" where
  "retains db db' \<longleftrightarrow>
     (\<forall>r t. db_tables db r = Some t \<longrightarrow>
        (\<exists>t' xs. db_tables db' r = Some t' \<and> tb_columns t' = tb_columns t @ xs \<and> set (tb_keys t) \<subseteq> set (tb_keys t')))
     \<and> db_indexes db \<subseteq> db_indexes db' \<and> (db_history_function db \<longrightarrow> db_history_function db')"

definition only_at :: "string set \<Rightarrow> database \<Rightarrow> database \<Rightarrow> bool" where
  "only_at R db db' \<longleftrightarrow> retains db db' \<and> (\<forall>r. r \<notin> R \<longrightarrow> db_tables db' r = db_tables db r)"

lemma retainsI:
  assumes "\<And>r t. db_tables db r = Some t \<Longrightarrow> \<exists>t' xs. db_tables db' r = Some t' \<and> tb_columns t' = tb_columns t @ xs \<and> set (tb_keys t) \<subseteq> set (tb_keys t')"
    and "db_indexes db \<subseteq> db_indexes db'" and "db_history_function db \<Longrightarrow> db_history_function db'"
  shows "retains db db'"
  using assms by (simp add: retains_def)

lemma retainsE:
  assumes "retains db db'" and "db_tables db r = Some t"
  obtains t' xs where "db_tables db' r = Some t'" "tb_columns t' = tb_columns t @ xs" "set (tb_keys t) \<subseteq> set (tb_keys t')"
  using assms unfolding retains_def by blast

lemma retains_refl [simp]: "retains db db" by (simp add: retains_def)

lemma retains_trans: assumes "retains a b" "retains b c" shows "retains a c"
proof (rule retainsI)
  fix r t assume "db_tables a r = Some t"
  with assms(1) obtain t1 xs where 1: "db_tables b r = Some t1" "tb_columns t1 = tb_columns t @ xs" "set (tb_keys t) \<subseteq> set (tb_keys t1)" by (rule retainsE)
  from assms(2) 1(1) obtain t2 ys where "db_tables c r = Some t2" "tb_columns t2 = tb_columns t1 @ ys" "set (tb_keys t1) \<subseteq> set (tb_keys t2)" by (rule retainsE)
  with 1 show "\<exists>t' xs. db_tables c r = Some t' \<and> tb_columns t' = tb_columns t @ xs \<and> set (tb_keys t) \<subseteq> set (tb_keys t')" by auto
qed (use assms in \<open>auto simp: retains_def\<close>)

lemma only_at_refl [simp]: "only_at R db db" by (simp add: only_at_def)

lemma only_at_trans: "only_at R a b \<Longrightarrow> only_at S b c \<Longrightarrow> only_at (R \<union> S) a c"
  by (auto simp: only_at_def intro: retains_trans)

lemma only_at_mono: "only_at R a b \<Longrightarrow> R \<subseteq> S \<Longrightarrow> only_at S a b"
  by (auto simp: only_at_def)

text \<open>A table of its own that is new, or that gets columns or keys in addition.\<close>

lemma only_at_new: "db_tables db r = None \<Longrightarrow> only_at {r} db (db\<lparr>db_tables := (db_tables db)(r \<mapsto> t)\<rparr>)"
  by (auto simp: only_at_def intro!: retainsI)

lemma only_at_more:
  assumes "db_tables db r = Some t" and "tb_columns t' = tb_columns t @ xs" and "set (tb_keys t) \<subseteq> set (tb_keys t')" and "db_indexes db \<subseteq> I"
  shows "only_at {r} db (db\<lparr>db_tables := (db_tables db)(r \<mapsto> t'), db_indexes := I\<rparr>)"
  using assms by (auto simp: only_at_def subset_iff intro!: retainsI)

lemma find_append_case: "find P (xs @ ys) = (case find P xs of None \<Rightarrow> find P ys | Some x \<Rightarrow> Some x)"
  by (induction xs) auto

lemma reference_error_keeps:
  assumes "retains db db'" and "reference_error (db_tables db) c = None"
  shows "reference_error (db_tables db') c = None"
proof (cases "co_references c")
  case None
  then show ?thesis by (simp add: reference_error_def)
next
  case (Some r)
  with assms(2) obtain t d where t: "db_tables db (rf_relation r) = Some t" "find (\<lambda>d. dc_name d = rf_column r) (tb_columns t) = Some d"
    "[rf_column r] \<in> snd ` set (tb_keys t)" "dc_type d = catalog_type Postgres (co_type c)"
    by (auto simp: reference_error_def split: option.splits if_splits)
  from assms(1) t(1) obtain t' xs where "db_tables db' (rf_relation r) = Some t'" "tb_columns t' = tb_columns t @ xs" "set (tb_keys t) \<subseteq> set (tb_keys t')" by (rule retainsE)
  with t Some show ?thesis using image_mono [of "set (tb_keys t)" "set (tb_keys t')" snd] by (auto simp: reference_error_def find_append_case)
qed

section \<open>Indexes and companions\<close>

lemma create_indexes_ok:
  assumes "db_tables db r = Some t" and "\<forall>i \<in> set is. set (ix_columns i) \<subseteq> dc_name ` set (tb_columns t)"
  shows "\<exists>db' t'. create_indexes r is db = Inr db' \<and> only_at {r} db db' \<and> db_tables db' r = Some t' \<and> tb_columns t' = tb_columns t
     \<and> db_history_function db' = db_history_function db"
  using assms
proof (induction "is" arbitrary: db t)
  case Nil
  then show ?case by simp
next
  case (Cons i "is")
  define db1 where "db1 = (if ix_name i \<in> db_indexes db then db
                  else db\<lparr>db_indexes := insert (ix_name i) (db_indexes db),
                          db_tables := (if ix_unique i \<and> ix_where i = None
                            then (db_tables db)(r \<mapsto> t\<lparr>tb_keys := (UniqueIndex (ix_name i), ix_columns i) # tb_keys t\<rparr>) else db_tables db)\<rparr>)"
  have cols: "first_missing (map dc_name (tb_columns t)) (ix_columns i) = None" using Cons.prems(2) by (auto simp: first_missing_def find_None_iff)
  obtain t1 where t1: "db_tables db1 r = Some t1" "tb_columns t1 = tb_columns t" using Cons.prems(1)
    by (cases "ix_name i \<in> db_indexes db"; cases "ix_unique i \<and> ix_where i = None") (simp_all add: db1_def)
  have at: "only_at {r} db db1" unfolding db1_def only_at_def using Cons.prems(1) by (auto intro!: retainsI)
  have fn: "db_history_function db1 = db_history_function db" by (simp add: db1_def)
  obtain db2 t2 where "create_indexes r is db1 = Inr db2 \<and> only_at {r} db1 db2 \<and> db_tables db2 r = Some t2 \<and> tb_columns t2 = tb_columns t1
     \<and> db_history_function db2 = db_history_function db1" using Cons.IH [OF t1(1)] Cons.prems(2) t1(2) by auto
  moreover have "create_indexes r (i # is) db = create_indexes r is db1" using Cons.prems(1) cols by (simp add: db1_def)
  ultimately show ?case using at fn t1(2) only_at_trans [of "{r}" db db1 "{r}" db2] by auto
qed

definition history_fits :: "string \<Rightarrow> database \<Rightarrow> bool" where
  "history_fits h db \<longleftrightarrow> (case db_tables db h of None \<Rightarrow> True | Some t \<Rightarrow> {''row_id'', ''changed_at''} \<subseteq> dc_name ` set (tb_columns t))"

lemma create_companion_ok:
  assumes "db_tables db r \<noteq> None" and "r \<noteq> h" and "db_history_function db" and "history_fits h db"
  shows "\<exists>db' t. create_companion r h db = Inr db' \<and> only_at {h} db db' \<and> db_tables db' h = Some t \<and> tb_columns t \<noteq> []"
proof -
  define db1 where "db1 = (if db_tables db h = None then db\<lparr>db_tables := (db_tables db)(h \<mapsto> history_table)\<rparr> else db)"
  have at: "only_at {h} db db1" by (simp add: db1_def only_at_new)
  obtain t where t: "db_tables db1 h = Some t" "{''row_id'', ''changed_at''} \<subseteq> dc_name ` set (tb_columns t)"
    using assms(4) unfolding db1_def history_fits_def by (cases "db_tables db h") (auto simp: history_table_def)
  have "\<forall>i \<in> set [plain_index (r @ ''_history_row_id'') [''row_id''], plain_index (r @ ''_history_changed_at'') [''changed_at'']]. set (ix_columns i) \<subseteq> dc_name ` set (tb_columns t)"
    using t(2) by (simp add: plain_index_def)
  from create_indexes_ok [OF t(1) this] obtain db2 t2 where 2:
    "create_indexes h [plain_index (r @ ''_history_row_id'') [''row_id''], plain_index (r @ ''_history_changed_at'') [''changed_at'']] db1 = Inr db2"
    "only_at {h} db1 db2" "db_tables db2 h = Some t2" "tb_columns t2 = tb_columns t" "db_history_function db2 = db_history_function db1" by blast
  have "only_at {h} db db2" using only_at_trans [OF at 2(2)] by simp
  then have "db_tables db2 r \<noteq> None" using assms(1,2) by (auto simp: only_at_def)
  moreover have "db_history_function db2" using assms(3) 2(5) by (simp add: db1_def)
  moreover have "tb_columns t2 \<noteq> []" using t(2) 2(4) by auto
  ultimately show ?thesis using 2(1,3) \<open>only_at {h} db db2\<close> unfolding create_companion_def db1_def [symmetric] by auto
qed

section \<open>Names that are stored as written\<close>

definition plain_names :: "server \<Rightarrow> store \<Rightarrow> entity_spec \<Rightarrow> bool" where
  "plain_names sv s e \<longleftrightarrow> (\<forall>n \<in> set (entity_names e). sv_ident sv s n = Some n)"

lemma stored_entity_id:
  assumes "\<forall>n \<in> set (entity_names e). f n = n"
  shows "stored_entity f e = e"
proof -
  have columns: "map (stored_column f) (en_columns e) = en_columns e"
  proof (rule map_idI)
    fix c assume c: "c \<in> set (en_columns e)"
    then have "f (co_name c) = co_name c" and "\<forall>n \<in> set (reference_names c). f n = n" using assms unfolding entity_names_def by auto
    then show "stored_column f c = c" by (cases "co_references c") (simp_all add: stored_column_def reference_names_def)
  qed
  have indexes: "map (\<lambda>i. i\<lparr>ix_name := f (ix_name i), ix_columns := map f (ix_columns i)\<rparr>) (en_indexes e) = en_indexes e"
  proof (rule map_idI)
    fix i assume "i \<in> set (en_indexes e)"
    then have "f (ix_name i) = ix_name i" and "map f (ix_columns i) = ix_columns i" using assms by (auto simp: entity_names_def intro: map_idI)
    then show "i\<lparr>ix_name := f (ix_name i), ix_columns := map f (ix_columns i)\<rparr> = i" by simp
  qed
  have "f (en_relation e) = en_relation e" "map f (en_key e) = en_key e" "map f (en_natural_key e) = en_natural_key e"
    using assms by (auto simp: entity_names_def intro: map_idI)
  then show ?thesis by (simp add: stored_entity_def columns indexes)
qed

lemma execute_create_pg:
  assumes "plain_names sv Postgres e" and "has_store Postgres e"
  shows "execute sv Postgres (CreateTable e) db =
     andthen (create_pg_table e db) (\<lambda>db1. andthen (create_indexes (en_relation e) (en_indexes e) db1) (\<lambda>db2.
       if gb_history (en_generate e) then create_companion (en_relation e) (history_of (en_relation e)) db2 else Inr db2))"
proof -
  have names: "\<forall>n \<in> set (entity_names e). sv_ident sv Postgres n = Some n" using assms(1) by (simp add: plain_names_def)
  then have "stored_entity (\<lambda>n. the (sv_ident sv Postgres n)) e = e" by (intro stored_entity_id) simp
  moreover have "list_all (\<lambda>n. sv_ident sv Postgres n \<noteq> None) (entity_names e)" using names by (simp add: list_all_iff)
  moreover have "the (sv_ident sv Postgres (history_of (en_relation e))) = history_of (en_relation e)" using names by (simp add: entity_names_def)
  ultimately show ?thesis using assms(2) by (simp add: execute_def Let_def cong: if_cong)
qed

lemma execute_create_lake:
  assumes "plain_names sv Duckdb e" and "to_lake_table_spec e = Inr spec"
  shows "execute sv Duckdb (CreateTable e) db = create_lake e db"
proof -
  have names: "\<forall>n \<in> set (entity_names e). sv_ident sv Duckdb n = Some n" using assms(1) by (simp add: plain_names_def)
  then have "stored_entity (\<lambda>n. the (sv_ident sv Duckdb n)) e = e" by (intro stored_entity_id) simp
  moreover have "list_all (\<lambda>n. sv_ident sv Duckdb n \<noteq> None) (en_relation e # map co_name (en_columns e))" using names by (auto simp: list_all_iff entity_names_def)
  ultimately show ?thesis using assms(2) by (simp add: execute_def Let_def)
qed

lemma execute_add_column:
  assumes "plain_names sv s e" and "c \<in> set (en_columns e)" and "sv_type sv s (expected_type s (co_type c))"
  shows "execute sv s (AddColumn (en_relation e) c) db = add_column s (en_relation e) (co_name c) (co_type c) db"
  using assms by (simp add: execute_def plain_names_def entity_names_def)

lemma execute_companion:
  assumes "plain_names sv s e"
  shows "execute sv s (HistoryCompanion e) db = create_companion (en_relation e) (history_of (en_relation e)) db"
  using assms by (simp add: execute_def plain_names_def entity_names_def)

lemma execute_all_append: "execute_all sv s (a @ b) db = andthen (execute_all sv s a db) (execute_all sv s b)"
  by (induction a arbitrary: db) (auto simp: andthen_def split: sum.splits)

section \<open>Tables that match\<close>

lemma live_type: "lc_type (live_of s \<lparr>dc_name = n, dc_type = catalog_type s ty, dc_nullable = b\<rparr>) = expected_type s ty"
  by (cases s; cases ty)
    (simp_all add: live_of_def catalog_type_def expected_type_def postgres_type_def ducklake_type_def normalize_pg_type_def normalize_lake_type_def)

lemma find_map_option: "find P (map f xs) = map_option f (find (\<lambda>x. P (f x)) xs)"
  by (induction xs) auto

lemma live_named_map: "live_named (map (live_of s) cols) n = map_option (live_of s) (find (\<lambda>d. dc_name d = n) (rev cols))"
  by (simp add: live_named_def rev_map find_map_option) (simp add: live_of_def)

lemma find_distinct: "distinct (map f xs) \<Longrightarrow> x \<in> set xs \<Longrightarrow> find (\<lambda>y. f y = f x) xs = Some x"
  by (induction xs) auto

lemma find_named_None: "n \<notin> f ` set xs \<Longrightarrow> find (\<lambda>y. f y = n) xs = None"
  by (auto simp: find_None_iff)

text \<open>A live column of the declared type that is not looser than declared makes no difference.\<close>

lemma diff_column_Nil:
  assumes "find (\<lambda>d. dc_name d = co_name c) (rev cols) = Some \<lparr>dc_name = co_name c, dc_type = catalog_type s (co_type c), dc_nullable = b\<rparr>"
    and "b \<longrightarrow> co_nullable c"
  shows "diff_column s r (map (live_of s) cols) c = []"
  using assms(2) unfolding diff_column_def live_named_map assms(1) by (simp add: live_type) (simp add: live_of_def)

lemma diff_column_tolerated:
  assumes "\<forall>i \<in> set (diff_column s r live c). df_severity i \<noteq> Breaking"
  shows "(live_named live (co_name c) = None \<and> co_nullable c) \<or> diff_column s r live c = []"
  using assms by (auto simp: diff_column_def item_def split: option.splits if_splits)

definition cols_in :: "database \<Rightarrow> string \<Rightarrow> db_column list" where
  "cols_in db r = (case db_tables db r of None \<Rightarrow> [] | Some t \<Rightarrow> tb_columns t)"

definition matches :: "store \<Rightarrow> entity_spec \<Rightarrow> db_column list \<Rightarrow> bool" where
  "matches s e cols \<longleftrightarrow> cols \<noteq> [] \<and> (\<forall>c \<in> set (en_columns e). diff_column s (en_relation e) (map (live_of s) cols) c = [])"

text \<open>A table is settled when it matches and has only declared columns in addition to those it had.\<close>

definition settled_in :: "store \<Rightarrow> database \<Rightarrow> entity_spec \<Rightarrow> database \<Rightarrow> bool" where
  "settled_in s db0 e db \<longleftrightarrow>
     (\<exists>t xs. db_tables db (en_relation e) = Some t \<and> tb_columns t = cols_in db0 (en_relation e) @ xs
        \<and> dc_name ` set xs \<subseteq> co_name ` set (en_columns e) \<and> matches s e (tb_columns t))
     \<and> (s = Postgres \<and> gb_history (en_generate e) \<longrightarrow> cols_in db (history_of (en_relation e)) \<noteq> [])"

lemma matches_fresh:
  assumes "entity_ok e" and "\<And>c. dc_name (f c) = co_name c" and "\<And>c. dc_type (f c) = catalog_type s (co_type c)" and "\<And>c. dc_nullable (f c) \<longrightarrow> co_nullable c"
  shows "matches s e (map f (en_columns e))"
  unfolding matches_def
proof (intro conjI ballI)
  show "map f (en_columns e) \<noteq> []" using assms(1) by (simp add: entity_ok_def)
  fix c assume c: "c \<in> set (en_columns e)"
  have "distinct (map dc_name (rev (map f (en_columns e))))" using assms(1) by (simp add: rev_map [symmetric] comp_def assms(2) entity_ok_def)
  from find_distinct [OF this, of "f c"] c have "find (\<lambda>d. dc_name d = co_name c) (rev (map f (en_columns e))) = Some (f c)" by (simp add: assms(2))
  moreover have "f c = \<lparr>dc_name = co_name c, dc_type = catalog_type s (co_type c), dc_nullable = dc_nullable (f c)\<rparr>" using assms(2,3) [of c] by (cases "f c") simp
  ultimately show "diff_column s (en_relation e) (map (live_of s) (map f (en_columns e))) c = []" using diff_column_Nil assms(4) by metis
qed

section \<open>Columns that are added\<close>

definition added :: "store \<Rightarrow> column_spec \<Rightarrow> db_column" where
  "added s c = \<lparr>dc_name = co_name c, dc_type = catalog_type s (co_type c), dc_nullable = True\<rparr>"

lemma add_columns_ok:
  assumes "plain_names sv s e" and "set cs \<subseteq> set (en_columns e)" and "\<forall>c \<in> set cs. sv_type sv s (expected_type s (co_type c))"
    and "db_tables db (en_relation e) = Some t" and "distinct (map co_name cs)" and "co_name ` set cs \<inter> dc_name ` set (tb_columns t) = {}"
  shows "\<exists>db' t'. execute_all sv s (map (AddColumn (en_relation e)) cs) db = Inr db' \<and> only_at {en_relation e} db db'
     \<and> db_tables db' (en_relation e) = Some t' \<and> tb_columns t' = tb_columns t @ map (added s) cs \<and> db_history_function db' = db_history_function db"
  using assms(2-)
proof (induction cs arbitrary: db t)
  case Nil
  then show ?case by simp
next
  case (Cons c cs)
  define t1 where "t1 = t\<lparr>tb_columns := tb_columns t @ [added s c]\<rparr>"
  define db1 where "db1 = db\<lparr>db_tables := (db_tables db)(en_relation e \<mapsto> t1)\<rparr>"
  have run: "execute sv s (AddColumn (en_relation e) c) db = Inr db1"
    using Cons.prems execute_add_column [OF assms(1), of c db] by (auto simp: add_column_def db1_def t1_def added_def)
  have at: "only_at {en_relation e} db db1" using Cons.prems(3) unfolding db1_def only_at_def by (auto simp: t1_def intro!: retainsI)
  have "\<exists>db' t'. execute_all sv s (map (AddColumn (en_relation e)) cs) db1 = Inr db' \<and> only_at {en_relation e} db1 db'
     \<and> db_tables db' (en_relation e) = Some t' \<and> tb_columns t' = tb_columns t1 @ map (added s) cs \<and> db_history_function db' = db_history_function db1"
    by (rule Cons.IH) (use Cons.prems in \<open>auto simp: db1_def t1_def added_def\<close>)
  then obtain db' t' where "execute_all sv s (map (AddColumn (en_relation e)) cs) db1 = Inr db'" "only_at {en_relation e} db1 db'"
     "db_tables db' (en_relation e) = Some t'" "tb_columns t' = tb_columns t1 @ map (added s) cs" "db_history_function db' = db_history_function db1" by blast
  then show ?case using run only_at_trans [OF at, of "{en_relation e}" db'] by (auto simp: t1_def db1_def)
qed

definition absent_columns :: "entity_spec \<Rightarrow> live_column list \<Rightarrow> column_spec list" where
  "absent_columns e live = filter (\<lambda>c. co_name c \<notin> lc_name ` set live \<and> co_nullable c) (en_columns e)"

lemma live_names: "lc_name ` set (map (live_of s) cols) = dc_name ` set cols"
  by (force simp: live_of_def)

lemma absent_columns_iff:
  "c \<in> set (absent_columns e (map (live_of s) cols)) \<longleftrightarrow> c \<in> set (en_columns e) \<and> co_name c \<notin> dc_name ` set cols \<and> co_nullable c"
  by (simp add: absent_columns_def live_names del: set_map)

lemma matches_added:
  assumes "entity_ok e" and "cols \<noteq> []"
    and tolerated: "\<forall>c \<in> set (en_columns e). \<forall>i \<in> set (diff_column s (en_relation e) (map (live_of s) cols) c). df_severity i \<noteq> Breaking"
  shows "matches s e (cols @ map (added s) (absent_columns e (map (live_of s) cols)))"
  unfolding matches_def
proof (intro conjI ballI)
  let ?cs = "absent_columns e (map (live_of s) cols)"
  show "cols @ map (added s) ?cs \<noteq> []" using assms(2) by simp
  have name: "dc_name (added s c) = co_name c" for c by (simp add: added_def)
  fix c assume c: "c \<in> set (en_columns e)"
  show "diff_column s (en_relation e) (map (live_of s) (cols @ map (added s) ?cs)) c = []"
  proof (cases "co_name c \<in> dc_name ` set cols")
    case True
    have "find (\<lambda>d. dc_name d = co_name c) (rev (map (added s) ?cs)) = None"
      using True by (intro find_named_None) (auto simp: name absent_columns_iff)
    then have "live_named (map (live_of s) (cols @ map (added s) ?cs)) (co_name c) = live_named (map (live_of s) cols) (co_name c)"
      unfolding live_named_map by (simp add: find_append_case)
    then have same: "diff_column s (en_relation e) (map (live_of s) (cols @ map (added s) ?cs)) c = diff_column s (en_relation e) (map (live_of s) cols) c"
      by (simp add: diff_column_def)
    have "live_named (map (live_of s) cols) (co_name c) \<noteq> None" using True by (auto simp: live_named_map find_None_iff)
    with diff_column_tolerated c tolerated same show ?thesis by metis
  next
    case False
    then have "live_named (map (live_of s) cols) (co_name c) = None" by (simp add: live_named_map find_named_None)
    with diff_column_tolerated c tolerated have null: "co_nullable c" by (fastforce simp: diff_column_def)
    with False c have "c \<in> set ?cs" by (simp add: absent_columns_iff)
    moreover have "distinct (map dc_name (rev (map (added s) ?cs)))"
      using assms(1) by (simp add: rev_map [symmetric] comp_def name entity_ok_def absent_columns_def distinct_map_filter)
    ultimately have "find (\<lambda>d. dc_name d = dc_name (added s c)) (rev (map (added s) ?cs)) = Some (added s c)" by (intro find_distinct) auto
    then have "find (\<lambda>d. dc_name d = co_name c) (rev (cols @ map (added s) ?cs)) = Some (added s c)" by (simp add: find_append_case name)
    then show ?thesis using null by (intro diff_column_Nil) (auto simp: added_def)
  qed
qed

section \<open>One entity\<close>

definition entity_fits :: "entity_spec \<Rightarrow> bool" where
  "entity_fits e \<longleftrightarrow> entity_ok e \<and> distinct (en_key e) \<and> distinct (en_natural_key e) \<and> set (en_natural_key e) \<subseteq> co_name ` set (en_columns e)"

definition touched :: "store \<Rightarrow> entity_spec \<Rightarrow> string set" where
  "touched s e = insert (en_relation e) (if s = Postgres \<and> gb_history (en_generate e) then {history_of (en_relation e)} else {})"

lemma touched_relation [simp]: "en_relation e \<in> touched s e" "{en_relation e} \<subseteq> touched s e"
  by (simp_all add: touched_def)

lemma touched_both: "s = Postgres \<Longrightarrow> gb_history (en_generate e) \<Longrightarrow> {en_relation e} \<union> {history_of (en_relation e)} \<subseteq> touched s e"
  by (simp add: touched_def)

lemma history_of_neq [simp]: "history_of r \<noteq> r" "r \<noteq> history_of r"
  by (simp_all add: history_of_def)

lemma create_fresh_pg:
  assumes names: "plain_names sv Postgres e" and store: "has_store Postgres e" and fits: "entity_fits e"
    and absent: "db_tables db (en_relation e) = None"
    and refs: "\<forall>c \<in> set (en_columns e). reference_error ((db_tables db)(en_relation e \<mapsto> table_of e)) c = None"
    and hist: "gb_history (en_generate e) \<Longrightarrow> db_history_function db \<and> history_fits (history_of (en_relation e)) db"
  shows "\<exists>db' t. execute sv Postgres (CreateTable e) db = Inr db' \<and> only_at (touched Postgres e) db db' \<and> db_tables db' (en_relation e) = Some t
     \<and> tb_columns t = map (pg_column e) (en_columns e) \<and> set (tb_keys (table_of e)) \<subseteq> set (tb_keys t)
     \<and> (gb_history (en_generate e) \<longrightarrow> cols_in db' (history_of (en_relation e)) \<noteq> [])"
proof -
  define db1 where "db1 = db\<lparr>db_tables := (db_tables db)(en_relation e \<mapsto> table_of e)\<rparr>"
  have "first_missing (map co_name (en_columns e)) (en_key e @ en_natural_key e) = None"
    using fits by (auto simp: first_missing_def find_None_iff entity_fits_def entity_ok_def)
  moreover have "List.map_filter (reference_error ((db_tables db)(en_relation e \<mapsto> table_of e))) (en_columns e) = []" using refs by (simp add: map_filter_Nil)
  ultimately have 1: "create_pg_table e db = Inr db1" using absent fits by (simp add: create_pg_table_def Let_def db1_def entity_fits_def entity_ok_def)
  have at1: "only_at {en_relation e} db db1" using absent by (simp add: db1_def only_at_new)
  have t1: "db_tables db1 (en_relation e) = Some (table_of e)" by (simp add: db1_def)
  have "dc_name ` set (tb_columns (table_of e)) = co_name ` set (en_columns e)" by (force simp: table_of_def pg_column_def)
  then have "\<forall>i \<in> set (en_indexes e). set (ix_columns i) \<subseteq> dc_name ` set (tb_columns (table_of e))" using fits by (simp add: entity_fits_def entity_ok_def)
  from create_indexes_ok [OF t1 this] obtain db2 t2 where 2: "create_indexes (en_relation e) (en_indexes e) db1 = Inr db2" "only_at {en_relation e} db1 db2"
    "db_tables db2 (en_relation e) = Some t2" "tb_columns t2 = tb_columns (table_of e)" "db_history_function db2 = db_history_function db1" by blast
  have keys: "set (tb_keys (table_of e)) \<subseteq> set (tb_keys t2)" using 2(2,3) t1 by (auto simp: only_at_def elim!: retainsE)
  have at2: "only_at {en_relation e} db db2" using only_at_trans [OF at1 2(2)] by simp
  show ?thesis
  proof (cases "gb_history (en_generate e)")
    case False
    then show ?thesis using execute_create_pg [OF names store] 1 2(1,3,4) at2 keys by (auto simp: table_of_def intro: only_at_mono [OF _ touched_relation(2)])
  next
    case True
    have same: "db_tables db2 (history_of (en_relation e)) = db_tables db (history_of (en_relation e))" using at2 by (simp add: only_at_def)
    then have "history_fits (history_of (en_relation e)) db2" using hist [OF True] by (simp add: history_fits_def)
    moreover have "db_history_function db2" using hist [OF True] 2(5) by (simp add: db1_def)
    ultimately obtain db3 h where 3: "create_companion (en_relation e) (history_of (en_relation e)) db2 = Inr db3"
      "only_at {history_of (en_relation e)} db2 db3" "db_tables db3 (history_of (en_relation e)) = Some h" "tb_columns h \<noteq> []"
      using create_companion_ok [of db2 "en_relation e" "history_of (en_relation e)"] 2(3) by auto
    have "only_at (touched Postgres e) db db3" using only_at_mono [OF only_at_trans [OF at2 3(2)] touched_both] True by simp
    moreover have "db_tables db3 (en_relation e) = Some t2" using 3(2) 2(3) by (simp add: only_at_def)
    ultimately show ?thesis using True execute_create_pg [OF names store] 1 2(1,4) 3(1,3,4) keys by (auto simp: table_of_def cols_in_def)
  qed
qed

lemma update_existing:
  fixes s rels defines "live \<equiv> \<lambda>db. read_columns s rels db"
  assumes names: "plain_names sv s e" and ok: "entity_ok e" and rel: "en_relation e \<in> set rels" "s = Postgres \<and> gb_history (en_generate e) \<longrightarrow> history_of (en_relation e) \<in> set rels"
    and same: "\<forall>r \<in> touched s e. db_tables db r = db_tables db0 r" and t: "db_tables db0 (en_relation e) = Some t" "tb_columns t \<noteq> []"
    and tolerated: "\<forall>c \<in> set (en_columns e). \<forall>i \<in> set (diff_column s (en_relation e) (map (live_of s) (tb_columns t)) c). df_severity i \<noteq> Breaking"
    and types: "\<forall>c \<in> set (absent_columns e (map (live_of s) (tb_columns t))). sv_type sv s (expected_type s (co_type c))"
    and hist: "lacks_companion s (live db0) e \<Longrightarrow> db_history_function db \<and> history_fits (history_of (en_relation e)) db0"
  shows "\<exists>db'. execute_all sv s (entity_statements s (live db0) e) db = Inr db' \<and> only_at (touched s e) db db' \<and> settled_in s db0 e db'"
proof -
  let ?cs = "absent_columns e (map (live_of s) (tb_columns t))" and ?h = "history_of (en_relation e)"
  have stmts: "entity_statements s (live db0) e = map (AddColumn (en_relation e)) ?cs @ (if lacks_companion s (live db0) e then [HistoryCompanion e] else [])"
    using t rel(1) by (simp add: entity_statements_def live_def read_columns_def absent_columns_def)
  have "distinct (map co_name ?cs)" using ok by (simp add: absent_columns_def distinct_map_filter entity_ok_def)
  moreover have "co_name ` set ?cs \<inter> dc_name ` set (tb_columns t) = {}" by (auto simp: absent_columns_iff)
  moreover have "set ?cs \<subseteq> set (en_columns e)" by (auto simp: absent_columns_iff)
  ultimately obtain db1 t1 where 1: "execute_all sv s (map (AddColumn (en_relation e)) ?cs) db = Inr db1" "only_at {en_relation e} db db1"
     "db_tables db1 (en_relation e) = Some t1" "tb_columns t1 = tb_columns t @ map (added s) ?cs" "db_history_function db1 = db_history_function db"
    using add_columns_ok [OF names, of ?cs db t] types same t(1) by (auto simp: touched_def)
  have m: "matches s e (tb_columns t1)" unfolding 1(4) by (rule matches_added [OF ok t(2) tolerated])
  have extra: "tb_columns t1 = cols_in db0 (en_relation e) @ map (added s) ?cs" "dc_name ` set (map (added s) ?cs) \<subseteq> co_name ` set (en_columns e)"
    using 1(4) t(1) by (auto simp: cols_in_def added_def absent_columns_iff)
  have h1: "db_tables db1 ?h = db_tables db0 ?h" if "s = Postgres" "gb_history (en_generate e)" using that 1(2) same by (simp add: only_at_def touched_def)
  show ?thesis
  proof (cases "lacks_companion s (live db0) e")
    case False
    have "cols_in db0 ?h \<noteq> []" if "s = Postgres \<and> gb_history (en_generate e)"
      using False that rel(2) by (auto simp: lacks_companion_def live_def read_columns_def cols_in_def split: option.splits if_splits)
    then have "settled_in s db0 e db1" unfolding settled_in_def using 1(3) extra m h1 by (auto simp: cols_in_def)
    then show ?thesis using False 1(1,2) stmts by (auto intro: only_at_mono [OF _ touched_relation(2)])
  next
    case True
    then have s: "s = Postgres" "gb_history (en_generate e)" by (simp_all add: lacks_companion_def)
    from True hist h1 [OF s] have "db_history_function db1" "history_fits ?h db1" using 1(5) by (simp_all add: history_fits_def)
    with create_companion_ok [of db1 "en_relation e" ?h] 1(3) obtain db2 h where 2: "create_companion (en_relation e) ?h db1 = Inr db2"
      "only_at {?h} db1 db2" "db_tables db2 ?h = Some h" "tb_columns h \<noteq> []" by auto
    have "db_tables db2 (en_relation e) = Some t1" using 2(2) 1(3) by (simp add: only_at_def)
    then have "settled_in s db0 e db2" unfolding settled_in_def using extra m 2(3,4) by (auto simp: cols_in_def)
    moreover have "only_at (touched s e) db db2" using only_at_mono [OF only_at_trans [OF 1(2) 2(2)] touched_both [OF s]] .
    ultimately show ?thesis using True 1(1) 2(1) stmts by (simp add: execute_all_append execute_companion [OF names])
  qed
qed

end
