(* ===== verification/SchemaConverge.thy ===== *)
theory SchemaConverge
  imports SchemaSettle
begin

text \<open>
  Convergence of schema reconciliation: what a catalog and a live store have to satisfy, the induction over the entities in their order of
  creation, and the plan of a settled store.
\<close>

section \<open>Settled stores have an empty plan\<close>

lemma read_columns_Some: "r \<in> set rels \<Longrightarrow> db_tables db r = Some t \<Longrightarrow> tb_columns t \<noteq> [] \<Longrightarrow> read_columns s rels db r = Some (map (live_of s) (tb_columns t))"
  by (simp add: read_columns_def)

lemma read_columns_cols_in: "r \<in> set rels \<Longrightarrow> read_columns s rels db r = (if cols_in db r = [] then None else Some (map (live_of s) (cols_in db r)))"
  by (simp add: read_columns_def cols_in_def split: option.splits)

definition ahead_items :: "store \<Rightarrow> entity_spec \<Rightarrow> db_column list \<Rightarrow> diff_item list" where
  "ahead_items s e cols = map (\<lambda>l. item s (en_relation e) Ahead (''column '' @ lc_name l @ '' is in the live store but not declared''))
     (filter (\<lambda>l. lc_name l \<notin> co_name ` set (en_columns e)) (map (live_of s) cols))"

definition entity_diffs :: "entity_spec list \<Rightarrow> store \<Rightarrow> (string \<Rightarrow> live_column list option) \<Rightarrow> diff_item list" where
  "entity_diffs es s live =
     concat (map (\<lambda>e. case live (en_relation e) of
         None \<Rightarrow> [item s (en_relation e) Safe (''relation '' @ en_relation e @ '' is absent; create table'')]
       | Some cols \<Rightarrow> diff_entity s cols e) es)"

text \<open>The absent companions are safe differences, so only the differences of the tables count.\<close>

lemma filter_diff_store:
  assumes "sev \<noteq> Safe"
  shows "filter (\<lambda>d. df_severity d = sev) (diff_store catalog s live) = filter (\<lambda>d. df_severity d = sev) (entity_diffs (for_store s catalog) s live)"
proof -
  have "filter (\<lambda>d. df_severity d = sev) (List.map_filter (\<lambda>e. if P e then Some (item s (r e) Safe (m e)) else None) es) = []" for P r m and es :: "entity_spec list"
    using assms by (induction es) (auto simp: List.map_filter_simps item_def)
  then show ?thesis by (simp add: diff_store_def entity_diffs_def)
qed

lemma diff_column_not_ahead: "filter (\<lambda>d. df_severity d = Ahead) (diff_column s r live c) = []"
  by (simp add: diff_column_def item_def split: option.splits)

lemma ahead_diff_entity: "filter (\<lambda>d. df_severity d = Ahead) (diff_entity s (map (live_of s) cols) e) = ahead_items s e cols"
  by (simp add: diff_entity_def ahead_items_def filter_concat comp_def diff_column_not_ahead filter_map item_def)

lemma ahead_entity_diffs:
  assumes "\<forall>e \<in> set es. en_relation e \<in> set rels"
  shows "filter (\<lambda>d. df_severity d = Ahead) (entity_diffs es s (read_columns s rels db)) = concat (map (\<lambda>e. ahead_items s e (cols_in db (en_relation e))) es)"
  using assms
proof (induction es)
  case (Cons e es)
  then show ?case
    by (cases "cols_in db (en_relation e) = []")
      (simp_all add: entity_diffs_def read_columns_cols_in ahead_diff_entity, simp_all add: ahead_items_def item_def)
qed (simp add: entity_diffs_def)

lemma ahead_items_more: "dc_name ` set xs \<subseteq> co_name ` set (en_columns e) \<Longrightarrow> ahead_items s e (cols @ xs) = ahead_items s e cols"
  by (auto simp: ahead_items_def live_of_def filter_empty_conv)

lemma matches_diff_entity: "matches s e cols \<Longrightarrow> diff_entity s (map (live_of s) cols) e = ahead_items s e cols"
  by (simp add: diff_entity_def ahead_items_def matches_def)

lemma matches_no_statements:
  assumes "matches s e cols"
  shows "filter (\<lambda>c. co_name c \<notin> lc_name ` set (map (live_of s) cols) \<and> co_nullable c) (en_columns e) = []"
proof -
  have "co_name c \<in> lc_name ` set (map (live_of s) cols)" if "c \<in> set (en_columns e)" for c
  proof -
    have "diff_column s (en_relation e) (map (live_of s) cols) c = []" using assms that by (simp add: matches_def)
    then have "live_named (map (live_of s) cols) (co_name c) \<noteq> None" by (cases "live_named (map (live_of s) cols) (co_name c)") (simp_all add: diff_column_def)
    then show ?thesis unfolding live_names live_named_map using find_named_None [of "co_name c" dc_name "rev cols"] by (cases "co_name c \<in> dc_name ` set cols") auto
  qed
  then show ?thesis by (simp add: filter_empty_conv)
qed

lemma settled_plan:
  assumes rels: "\<forall>e \<in> set (for_store s catalog). touched s e \<subseteq> set rels"
    and settled_in: "\<forall>e \<in> set (for_store s catalog). settled_in s db0 e db" and dist: "distinct (map en_relation (for_store s catalog))"
  shows "plan_migration catalog s (read_columns s rels db) =
     \<lparr>mp_statements = [], mp_breaking = [], mp_ahead = mp_ahead (plan_migration catalog s (read_columns s rels db0))\<rparr>"
proof -
  let ?live = "read_columns s rels db" and ?es = "for_store s catalog"
  have rel: "\<forall>e \<in> set ?es. en_relation e \<in> set rels" using rels touched_relation(1) by blast
  have each: "?live (en_relation e) = Some (map (live_of s) (cols_in db (en_relation e))) \<and> matches s e (cols_in db (en_relation e))
      \<and> ahead_items s e (cols_in db (en_relation e)) = ahead_items s e (cols_in db0 (en_relation e)) \<and> \<not> lacks_companion s ?live e" if e: "e \<in> set ?es" for e
  proof -
    from settled_in e obtain t xs where t: "db_tables db (en_relation e) = Some t" "tb_columns t = cols_in db0 (en_relation e) @ xs"
      "dc_name ` set xs \<subseteq> co_name ` set (en_columns e)" "matches s e (tb_columns t)"
      and h: "s = Postgres \<and> gb_history (en_generate e) \<longrightarrow> cols_in db (history_of (en_relation e)) \<noteq> []" unfolding settled_in_def by blast
    have "cols_in db (en_relation e) = tb_columns t" using t(1) by (simp add: cols_in_def)
    moreover have "\<not> lacks_companion s ?live e" using h rels e by (auto simp: lacks_companion_def touched_def read_columns_cols_in)
    ultimately show ?thesis using t e rel ahead_items_more [OF t(3)] by (simp add: read_columns_cols_in matches_def)
  qed
  have ordered: "set (topo_order ?es) = set ?es" by (rule topo_order_permutes [OF dist])
  have "entity_statements s ?live e = []" if "e \<in> set ?es" for e
    using each [OF that] matches_no_statements [of s e "cols_in db (en_relation e)"] by (simp add: entity_statements_def)
  then have stmts: "concat (map (entity_statements s ?live) (topo_order ?es)) = []" using ordered by simp
  have prelude: "\<not> list_ex (needs_history_prelude s ?live) (topo_order ?es)"
    using each ordered by (auto simp: list_ex_iff needs_history_prelude_def)
  have "entity_diffs ?es s ?live = concat (map (\<lambda>e. ahead_items s e (cols_in db0 (en_relation e))) ?es)"
    unfolding entity_diffs_def using each matches_diff_entity by (intro arg_cong [where f = concat] map_cong refl) simp
  moreover have "filter (\<lambda>d. df_severity d = Breaking) (ahead_items s e cols) = []" for e cols by (simp add: ahead_items_def filter_empty_conv item_def)
  ultimately have breaking: "filter (\<lambda>d. df_severity d = Breaking) (entity_diffs ?es s ?live) = []" by (simp add: filter_concat comp_def)
  have "concat (map (\<lambda>e. ahead_items s e (cols_in db (en_relation e))) ?es) = concat (map (\<lambda>e. ahead_items s e (cols_in db0 (en_relation e))) ?es)"
    using each by (intro arg_cong [where f = concat] map_cong refl) simp
  then show ?thesis unfolding plan_migration_def Let_def using stmts prelude breaking by (simp add: filter_diff_store ahead_entity_diffs [OF rel])
qed

section \<open>What convergence needs\<close>

text \<open>
  What a catalog has to satisfy beyond what loading checks: keys without repetition, a natural key of its own columns, names the server
  stores as written, references to a key of another entity, a rank along the references, and companions that are not entities.
\<close>

definition key_fits :: "entity_spec \<Rightarrow> bool" where
  "key_fits e \<longleftrightarrow> distinct (en_key e) \<and> distinct (en_natural_key e) \<and> set (en_natural_key e) \<subseteq> co_name ` set (en_columns e)"

definition reference_fits :: "entity_spec list \<Rightarrow> column_spec \<Rightarrow> bool" where
  "reference_fits es c \<longleftrightarrow>
     (case co_references c of
        None \<Rightarrow> True
      | Some r \<Rightarrow> (\<exists>e \<in> set es. en_relation e = rf_relation r \<and> ([rf_column r] = en_key e \<or> [rf_column r] = en_natural_key e)
          \<and> (\<exists>d \<in> set (en_columns e). co_name d = rf_column r \<and> co_type d = co_type c)))"

definition control_fits :: "server \<Rightarrow> (string \<Rightarrow> nat) \<Rightarrow> entity_spec list \<Rightarrow> bool" where
  "control_fits sv rank catalog \<longleftrightarrow>
     (let es = for_store Postgres catalog in
      (\<forall>e \<in> set es. key_fits e \<and> plain_names sv Postgres e
         \<and> (\<forall>c \<in> set (en_columns e). reference_fits es c \<and> sv_type sv Postgres (expected_type Postgres (co_type c))))
      \<and> ranked rank es \<and> distinct (postgres_relations catalog))"

text \<open>What the live store has to satisfy: its tables have columns, its companions the two indexed ones, and existing referenced tables the keys.\<close>

definition control_store_fits :: "entity_spec list \<Rightarrow> database \<Rightarrow> bool" where
  "control_store_fits catalog db \<longleftrightarrow>
     (\<forall>r \<in> set (postgres_relations catalog). case db_tables db r of None \<Rightarrow> True | Some t \<Rightarrow> tb_columns t \<noteq> [])
     \<and> (\<forall>e \<in> set (for_store Postgres catalog). (gb_history (en_generate e) \<longrightarrow> history_fits (history_of (en_relation e)) db)
         \<and> (\<forall>c \<in> set (en_columns e). case co_references c of None \<Rightarrow> True
              | Some r \<Rightarrow> db_tables db (rf_relation r) \<noteq> None \<longrightarrow> reference_error (db_tables db) c = None))"

lemma control_store_fitsD:
  assumes "control_store_fits catalog db"
  shows "r \<in> set (postgres_relations catalog) \<Longrightarrow> db_tables db r = Some t \<Longrightarrow> tb_columns t \<noteq> []"
    and "e \<in> set (for_store Postgres catalog) \<Longrightarrow> gb_history (en_generate e) \<Longrightarrow> history_fits (history_of (en_relation e)) db"
    and "e \<in> set (for_store Postgres catalog) \<Longrightarrow> c \<in> set (en_columns e) \<Longrightarrow> co_references c = Some ref \<Longrightarrow> db_tables db (rf_relation ref) \<noteq> None
      \<Longrightarrow> reference_error (db_tables db) c = None"
  using assms by (fastforce simp: control_store_fits_def)+

lemma distinct_relations:
  assumes "distinct (map fst (relation_claims es))"
  shows "distinct (map en_relation (for_store s es))"
  using assms
proof (induction es)
  case (Cons e es)
  have tail: "distinct (map fst (relation_claims es))" using Cons.prems by (simp add: relation_claims_def)
  have mem: "qualify s (en_relation d) \<in> fst ` set (relation_claims es)" if "d \<in> set (for_store s es)" for d
    using that by (force simp: relation_claims_def for_store_def has_store_def)
  have "en_relation e \<notin> relations_of (for_store s es)" if "has_store s e"
  proof
    assume "en_relation e \<in> relations_of (for_store s es)"
    with mem have "qualify s (en_relation e) \<in> fst ` set (relation_claims es)" by auto
    moreover have "qualify s (en_relation e) \<in> fst ` set (relation_claims [e])" using that by (force simp: relation_claims_def has_store_def)
    moreover have "fst ` set (relation_claims [e]) \<inter> fst ` set (relation_claims es) = {}" using Cons.prems by (simp add: relation_claims_def image_image)
    ultimately show False by blast
  qed
  with Cons.IH [OF tail] show ?case by (simp add: for_store_def)
qed (simp add: for_store_def)

lemma touched_postgres: "set (postgres_relations catalog) = \<Union> (touched Postgres ` set (for_store Postgres catalog))"
  by (auto simp: postgres_relations_def touched_def split: if_splits)

lemma concat_disjoint: "distinct (concat (map f es)) \<Longrightarrow> d \<in> set es \<Longrightarrow> e \<in> set es \<Longrightarrow> d \<noteq> e \<Longrightarrow> set (f d) \<inter> set (f e) = {}"
  by (induction es) auto

lemma touched_disjoint:
  assumes "distinct (postgres_relations catalog)" and "d \<in> set (for_store Postgres catalog)" and "e \<in> set (for_store Postgres catalog)" and "d \<noteq> e"
  shows "touched Postgres d \<inter> touched Postgres e = {}"
proof -
  have "set (en_relation x # (if gb_history (en_generate x) then [history_of (en_relation x)] else [])) = touched Postgres x" for x by (simp add: touched_def)
  with concat_disjoint [OF assms(1) [unfolded postgres_relations_def] assms(2-4)] show ?thesis by (simp only:)
qed

lemma reference_created:
  assumes "tables (en_relation e) = Some t" and "tb_columns t = map (pg_column e) (en_columns e)" and "set (tb_keys (table_of e)) \<subseteq> set (tb_keys t)"
    and "entity_ok e" and "reference_fits es c" and "co_references c = Some r" and "rf_relation r = en_relation e" and "e \<in> set es" and "distinct (map en_relation es)"
  shows "reference_error tables c = None"
proof -
  from assms(5-7) obtain e' d where e': "e' \<in> set es" "en_relation e' = en_relation e" "[rf_column r] = en_key e' \<or> [rf_column r] = en_natural_key e'"
    "d \<in> set (en_columns e')" "co_name d = rf_column r" "co_type d = co_type c" by (auto simp: reference_fits_def)
  with assms(8,9) have e: "e' = e" by (auto simp: distinct_map dest: inj_onD)
  have "[rf_column r] \<in> snd ` set (tb_keys (table_of e))" using e'(3) e by (auto simp: table_of_def)
  then have "[rf_column r] \<in> snd ` set (tb_keys t)" using assms(3) by blast
  moreover have "find (\<lambda>x. dc_name x = rf_column r) (tb_columns t) = Some (pg_column e d)"
  proof -
    have "find (\<lambda>x. co_name x = co_name d) (en_columns e) = Some d" using e' e assms(4) by (intro find_distinct) (simp_all add: entity_ok_def)
    then show ?thesis unfolding assms(2) find_map_option using e'(5) by (simp add: pg_column_def)
  qed
  ultimately show ?thesis using assms(1,6,7) e'(6) by (auto simp: reference_error_def pg_column_def)
qed

lemma execute_entities:
  assumes step: "\<And>before e after db. es = before @ e # after \<Longrightarrow> I before db \<Longrightarrow> \<exists>db'. execute_all sv s (f e) db = Inr db' \<and> I (before @ [e]) db'"
    and start: "I [] db"
  shows "\<exists>db'. execute_all sv s (concat (map f es)) db = Inr db' \<and> I es db'"
proof -
  have "\<exists>db'. execute_all sv s (concat (map f after)) db = Inr db' \<and> I es db'" if "es = before @ after" and "I before db" for before after db
    using that
  proof (induction after arbitrary: before db)
    case (Cons e after)
    from step [OF Cons.prems] obtain db1 where 1: "execute_all sv s (f e) db = Inr db1" "I (before @ [e]) db1" by blast
    from Cons.IH [OF _ 1(2)] Cons.prems(1) obtain db2 where "execute_all sv s (concat (map f after)) db1 = Inr db2" "I es db2" by auto
    with 1(1) show ?case by (simp add: execute_all_append)
  qed simp
  from this [of "[]" es db] start show ?thesis by simp
qed

section \<open>The induction over the entities\<close>

lemma no_breaking:
  assumes "mp_breaking (plan_migration catalog s (read_columns s rels db)) = []" and e: "e \<in> set (for_store s catalog)" "en_relation e \<in> set rels"
    and t: "db_tables db (en_relation e) = Some t" "tb_columns t \<noteq> []" and c: "c \<in> set (en_columns e)"
    and i: "i \<in> set (diff_column s (en_relation e) (map (live_of s) (tb_columns t)) c)"
  shows "df_severity i \<noteq> Breaking"
proof -
  have "filter (\<lambda>d. df_severity d = Breaking) (entity_diffs (for_store s catalog) s (read_columns s rels db)) = []"
    using assms(1) by (simp add: plan_migration_def Let_def filter_diff_store)
  moreover have "i \<in> set (diff_entity s (map (live_of s) (tb_columns t)) e)" using c i by (auto simp: diff_entity_def)
  then have "i \<in> set (entity_diffs (for_store s catalog) s (read_columns s rels db))"
    unfolding entity_diffs_def set_concat set_map using e(1) read_columns_Some [OF e(2) t, of s] by (auto intro!: bexI [of _ e])
  ultimately show ?thesis by (auto simp: filter_empty_conv)
qed

text \<open>The state after some entities: only their tables differ, they are settled, and references to them can be made.\<close>

definition done_with :: "store \<Rightarrow> database \<Rightarrow> entity_spec list \<Rightarrow> entity_spec list \<Rightarrow> database \<Rightarrow> bool" where
  "done_with s db0 es before db \<longleftrightarrow>
     only_at (\<Union> (touched s ` set before)) db0 db \<and> (\<forall>d \<in> set before. settled_in s db0 d db)
     \<and> (s = Postgres \<longrightarrow> (\<forall>e \<in> set es. \<forall>c \<in> set (en_columns e). \<forall>r. co_references c = Some r \<and>
          (rf_relation r \<in> relations_of before \<or> db_tables db0 (rf_relation r) \<noteq> None) \<longrightarrow> reference_error (db_tables db) c = None))"

lemma settled_elsewhere:
  assumes "settled_in s db0 d db" and "only_at R db db'" and "touched s d \<inter> R = {}"
  shows "settled_in s db0 d db'"
proof -
  have "db_tables db' r = db_tables db r" if "r \<in> touched s d" for r using assms(2,3) that by (auto simp: only_at_def)
  then have "db_tables db' (en_relation d) = db_tables db (en_relation d)"
    and "s = Postgres \<and> gb_history (en_generate d) \<Longrightarrow> cols_in db' (history_of (en_relation d)) = cols_in db (history_of (en_relation d))"
    by (simp_all add: touched_def cols_in_def)
  with assms(1) show ?thesis unfolding settled_in_def by metis
qed

lemma done_with_step:
  assumes before: "done_with s db0 es before db" and at: "only_at (touched s e) db db'" and settled_in: "settled_in s db0 e db'"
    and disjoint: "\<forall>d \<in> set before. touched s d \<inter> touched s e = {}"
    and refs: "\<And>c r. s = Postgres \<Longrightarrow> db_tables db0 (en_relation e) = None \<Longrightarrow> c \<in> (\<Union>d \<in> set es. set (en_columns d)) \<Longrightarrow> co_references c = Some r \<Longrightarrow>
       rf_relation r = en_relation e \<Longrightarrow> reference_error (db_tables db') c = None"
  shows "done_with s db0 es (before @ [e]) db'"
  unfolding done_with_def
proof (intro conjI impI ballI allI)
  have 0: "only_at (\<Union> (touched s ` set before)) db0 db" using before by (simp add: done_with_def)
  show "only_at (\<Union> (touched s ` set (before @ [e]))) db0 db'" using only_at_trans [OF 0 at] by (simp add: Un_commute)
  fix d assume "d \<in> set (before @ [e])"
  then show "settled_in s db0 d db'" using before settled_in disjoint settled_elsewhere [OF _ at] by (auto simp: done_with_def)
next
  fix d c r assume s: "s = Postgres" and d: "d \<in> set es" "c \<in> set (en_columns d)"
    and r: "co_references c = Some r \<and> (rf_relation r \<in> relations_of (before @ [e]) \<or> db_tables db0 (rf_relation r) \<noteq> None)"
  show "reference_error (db_tables db') c = None"
  proof (cases "rf_relation r \<in> relations_of before \<or> db_tables db0 (rf_relation r) \<noteq> None")
    case True
    with before s d r have "reference_error (db_tables db) c = None" by (auto simp: done_with_def)
    then show ?thesis by (rule reference_error_keeps [rotated]) (use at in \<open>simp add: only_at_def\<close>)
  next
    case False
    with r have "rf_relation r = en_relation e" and "db_tables db0 (en_relation e) = None" by auto
    then show ?thesis using refs s d r by blast
  qed
qed

lemma settled_fresh_pg:
  assumes "entity_ok e" and "db_tables db0 (en_relation e) = None" and "db_tables db (en_relation e) = Some t"
    and "tb_columns t = map (pg_column e) (en_columns e)" and "gb_history (en_generate e) \<longrightarrow> cols_in db (history_of (en_relation e)) \<noteq> []"
  shows "settled_in Postgres db0 e db"
proof -
  have "matches Postgres e (tb_columns t)" unfolding assms(4) by (rule matches_fresh [OF assms(1)]) (simp_all add: pg_column_def)
  moreover have "dc_name ` set (tb_columns t) \<subseteq> co_name ` set (en_columns e)" by (auto simp: assms(4) pg_column_def)
  ultimately show ?thesis using assms(2,3,5) by (auto simp: settled_in_def cols_in_def)
qed

lemma needs_prelude_mem:
  "e \<in> set es \<Longrightarrow> \<not> list_ex (needs_history_prelude s live) es \<Longrightarrow> \<not> needs_history_prelude s live e"
  by (auto simp: list_ex_iff)

lemma fresh_references:
  assumes e: "e \<in> set es" and ok: "entity_ok e" and ref: "\<forall>c \<in> set (en_columns e). reference_fits es c" and dist: "distinct (map en_relation es)"
    and absent: "db_tables db (en_relation e) = None" and state: "done_with Postgres db0 es before db"
    and founded: "referenced e \<inter> relations_of es \<subseteq> insert (en_relation e) (relations_of before)"
  shows "\<forall>c \<in> set (en_columns e). reference_error ((db_tables db)(en_relation e \<mapsto> table_of e)) c = None"
proof
  fix c assume c: "c \<in> set (en_columns e)"
  show "reference_error ((db_tables db)(en_relation e \<mapsto> table_of e)) c = None"
  proof (cases "co_references c")
    case None
    then show ?thesis by (simp add: reference_error_def)
  next
    case (Some r)
    show ?thesis
    proof (cases "rf_relation r = en_relation e")
      case True
      show ?thesis by (rule reference_created [OF _ _ _ ok _ Some True e dist]) (use ref c in \<open>auto simp: table_of_def\<close>)
    next
      case False
      have "reference_fits es c" using ref c by blast
      then have "rf_relation r \<in> relations_of es" using Some unfolding reference_fits_def image_iff by (auto intro: sym)
      moreover have "rf_relation r \<in> referenced e" using c Some by (auto simp: referenced_iff)
      ultimately have "rf_relation r \<in> relations_of before" using False founded by auto
      then have "reference_error (db_tables db) c = None" using state e c Some by (auto simp: done_with_def)
      from reference_error_keeps [OF _ this, of "db\<lparr>db_tables := (db_tables db)(en_relation e \<mapsto> table_of e)\<rparr>"] only_at_new [OF absent]
      show ?thesis by (simp add: only_at_def)
    qed
  qed
qed

lemma control_step:
  assumes loaded: "\<forall>e \<in> set (for_store Postgres catalog). entity_ok e" and fits: "control_fits sv rank catalog" and store: "control_store_fits catalog db0"
    and breaking: "mp_breaking (plan_migration catalog Postgres (read_columns Postgres (postgres_relations catalog) db0)) = []"
    and split: "topo_order (for_store Postgres catalog) = before @ e # after"
    and state: "done_with Postgres db0 (for_store Postgres catalog) before db"
    and fn: "needs_history_prelude Postgres (read_columns Postgres (postgres_relations catalog) db0) e \<Longrightarrow> db_history_function db"
    and dist: "distinct (map en_relation (for_store Postgres catalog))"
  shows "\<exists>db'. execute_all sv Postgres (entity_statements Postgres (read_columns Postgres (postgres_relations catalog) db0) e) db = Inr db'
     \<and> done_with Postgres db0 (for_store Postgres catalog) (before @ [e]) db' \<and> retains db db'"
proof -
  let ?es = "for_store Postgres catalog" and ?rels = "postgres_relations catalog"
  let ?live = "read_columns Postgres ?rels db0"
  note ordered = topo_order_permutes [OF dist]
  have e: "e \<in> set ?es" and before: "set before \<subseteq> set ?es" using ordered(1) split by auto
  have "e \<notin> set before" using ordered(2) split by auto
  then have disjoint: "\<forall>d \<in> set before. touched Postgres d \<inter> touched Postgres e = {}"
    using touched_disjoint [of catalog _ e] fits e before by (auto simp: control_fits_def Let_def)
  have ok: "entity_ok e" and key: "entity_fits e" and names: "plain_names sv Postgres e" and ref: "\<forall>c \<in> set (en_columns e). reference_fits ?es c"
    using loaded fits e by (auto simp: control_fits_def Let_def entity_fits_def key_fits_def)
  have hist: "gb_history (en_generate e) \<Longrightarrow> history_fits (history_of (en_relation e)) db0" by (rule control_store_fitsD(2) [OF store e])
  have rels: "touched Postgres e \<subseteq> set ?rels" using touched_postgres e by blast
  have same: "\<forall>r \<in> touched Postgres e. db_tables db r = db_tables db0 r"
  proof -
    have "only_at (\<Union> (touched Postgres ` set before)) db0 db" using state by (simp add: done_with_def)
    then show ?thesis using disjoint unfolding only_at_def by blast
  qed
  show ?thesis
  proof (cases "db_tables db0 (en_relation e)")
    case None
    then have stmts: "entity_statements Postgres ?live e = [CreateTable e]" by (simp add: entity_statements_def read_columns_def)
    have prelude: "gb_history (en_generate e) \<Longrightarrow> db_history_function db" using None by (intro fn) (simp add: needs_history_prelude_def read_columns_def)
    have absent: "db_tables db (en_relation e) = None" using same None by simp
    have "founded (relations_of ?es) (topo_order ?es)" using topo_order_founded [OF dist] fits by (auto simp: control_fits_def Let_def)
    then have "referenced e \<inter> relations_of ?es \<subseteq> insert (en_relation e) (relations_of before)" using split by (simp add: founded_def)
    from fresh_references [OF e ok ref dist absent state this]
    have "\<forall>c \<in> set (en_columns e). reference_error ((db_tables db)(en_relation e \<mapsto> table_of e)) c = None" .
    moreover have "history_fits (history_of (en_relation e)) db" if "gb_history (en_generate e)" using that hist same by (simp add: history_fits_def touched_def)
    ultimately obtain db' t where run: "execute sv Postgres (CreateTable e) db = Inr db'" "only_at (touched Postgres e) db db'"
      "db_tables db' (en_relation e) = Some t" "tb_columns t = map (pg_column e) (en_columns e)" "set (tb_keys (table_of e)) \<subseteq> set (tb_keys t)"
      "gb_history (en_generate e) \<longrightarrow> cols_in db' (history_of (en_relation e)) \<noteq> []"
      using create_fresh_pg [OF names _ key absent] e prelude by (auto simp: for_store_def)
    have "done_with Postgres db0 ?es (before @ [e]) db'"
    proof (rule done_with_step [OF state run(2) settled_fresh_pg [OF ok None run(3,4,6)] disjoint])
      fix c r assume "c \<in> (\<Union>d \<in> set ?es. set (en_columns d))" and r: "co_references c = Some r" "rf_relation r = en_relation e"
      then have "reference_fits ?es c" using fits by (auto simp: control_fits_def Let_def)
      from reference_created [where tables = "db_tables db'", OF run(3,4,5) ok this r e dist]
      show "reference_error (db_tables db') c = None" .
    qed
    then show ?thesis using stmts run(1,2) by (simp add: only_at_def)
  next
    case (Some t)
    have t: "tb_columns t \<noteq> []" by (rule control_store_fitsD(1) [OF store subsetD [OF rels touched_relation(1)] Some])
    have in_rels: "en_relation e \<in> set ?rels" "Postgres = Postgres \<and> gb_history (en_generate e) \<longrightarrow> history_of (en_relation e) \<in> set ?rels" using rels by (auto simp: touched_def)
    have "\<forall>c \<in> set (absent_columns e (map (live_of Postgres) (tb_columns t))). sv_type sv Postgres (expected_type Postgres (co_type c))"
      using fits e by (auto simp: absent_columns_def control_fits_def Let_def)
    moreover have "db_history_function db \<and> history_fits (history_of (en_relation e)) db0" if "lacks_companion Postgres ?live e"
      using that fn hist Some t in_rels(1) by (auto simp: needs_history_prelude_def lacks_companion_def read_columns_def)
    ultimately obtain db' where run: "execute_all sv Postgres (entity_statements Postgres ?live e) db = Inr db'" "only_at (touched Postgres e) db db'" "settled_in Postgres db0 e db'"
      using update_existing [OF names ok in_rels same Some t] no_breaking [OF breaking e in_rels(1) Some t] by blast
    have "done_with Postgres db0 ?es (before @ [e]) db'" by (rule done_with_step [OF state run(2,3) disjoint]) (use Some in simp)
    then show ?thesis using run(1,2) by (auto simp: only_at_def)
  qed
qed

section \<open>Convergence\<close>

lemma control_converges:
  assumes loaded: "from_entities es = Inr catalog" and fits: "control_fits sv rank catalog" and store: "control_store_fits catalog db"
    and breaking: "mp_breaking (plan_migration catalog Postgres (read_columns Postgres (postgres_relations catalog) db)) = []"
  shows "\<exists>db'. execute_all sv Postgres (mp_statements (plan_migration catalog Postgres (read_columns Postgres (postgres_relations catalog) db))) db = Inr db'
     \<and> retains db db' \<and> plan_migration catalog Postgres (read_columns Postgres (postgres_relations catalog) db') =
         \<lparr>mp_statements = [], mp_breaking = [], mp_ahead = mp_ahead (plan_migration catalog Postgres (read_columns Postgres (postgres_relations catalog) db))\<rparr>"
proof -
  let ?es = "for_store Postgres catalog" and ?live = "read_columns Postgres (postgres_relations catalog) db"
  from loaded have "distinct (map fst (relation_claims catalog))" and "\<forall>e \<in> set catalog. entity_ok e" by (auto simp: from_entities_iff)
  then have dist: "distinct (map en_relation ?es)" and ok: "\<forall>e \<in> set ?es. entity_ok e" by (auto simp: for_store_def intro: distinct_relations [unfolded for_store_def])
  note ordered = topo_order_permutes [OF dist]
  define needs where "needs = list_ex (needs_history_prelude Postgres ?live) (topo_order ?es)"
  define db1 where "db1 = (if needs then db\<lparr>db_history_function := True\<rparr> else db)"
  have prelude: "execute_all sv Postgres (if needs then [HistoryPrelude] else []) db = Inr db1" by (simp add: db1_def execute_def)
  have "only_at {} db db1" by (auto simp: db1_def only_at_def intro!: retainsI)
  then have start: "done_with Postgres db ?es [] db1 \<and> (needs \<longrightarrow> db_history_function db1)"
    using control_store_fitsD(3) [OF store] unfolding done_with_def by (auto simp: db1_def)
  have "\<exists>db'. execute_all sv Postgres (concat (map (entity_statements Postgres ?live) (topo_order ?es))) db1 = Inr db'
     \<and> done_with Postgres db ?es (topo_order ?es) db' \<and> (needs \<longrightarrow> db_history_function db')"
  proof (rule execute_entities [where I = "\<lambda>before db'. done_with Postgres db ?es before db' \<and> (needs \<longrightarrow> db_history_function db')", OF _ start])
    fix before e "after" db2 assume split: "topo_order ?es = before @ e # after" and I: "done_with Postgres db ?es before db2 \<and> (needs \<longrightarrow> db_history_function db2)"
    have fn: "db_history_function db2" if "needs_history_prelude Postgres ?live e" using that I split by (auto simp: needs_def)
    from control_step [OF ok fits store breaking split _ fn dist] I obtain db3 where 3: "execute_all sv Postgres (entity_statements Postgres ?live e) db2 = Inr db3"
      "done_with Postgres db ?es (before @ [e]) db3" "retains db2 db3" by blast
    then show "\<exists>db'. execute_all sv Postgres (entity_statements Postgres ?live e) db2 = Inr db' \<and> done_with Postgres db ?es (before @ [e]) db' \<and> (needs \<longrightarrow> db_history_function db')"
      using I by (auto simp: retains_def)
  qed
  then obtain db' where run: "execute_all sv Postgres (concat (map (entity_statements Postgres ?live) (topo_order ?es))) db1 = Inr db'"
    and finished: "done_with Postgres db ?es (topo_order ?es) db'" by blast
  have "execute_all sv Postgres (mp_statements (plan_migration catalog Postgres ?live)) db = Inr db'"
    using prelude run by (simp add: plan_migration_def Let_def needs_def execute_all_append)
  moreover have "retains db db'" using finished by (simp add: done_with_def only_at_def)
  moreover have "\<forall>e \<in> set ?es. settled_in Postgres db e db'" using finished ordered(1) by (simp add: done_with_def)
  ultimately show ?thesis using settled_plan [OF _ _ dist] touched_postgres by (metis UN_upper)
qed

text \<open>A lake: every entity renders, and the parser takes the types of the columns that are absent.\<close>

definition lake_fits :: "server \<Rightarrow> entity_spec list \<Rightarrow> database \<Rightarrow> bool" where
  "lake_fits sv catalog db \<longleftrightarrow>
     (\<forall>e \<in> set (for_store Duckdb catalog). plain_names sv Duckdb e \<and> (case to_lake_table_spec e of Inl _ \<Rightarrow> False | Inr _ \<Rightarrow> True)
        \<and> (case db_tables db (en_relation e) of None \<Rightarrow> True
           | Some t \<Rightarrow> tb_columns t \<noteq> []
             \<and> (\<forall>c \<in> set (absent_columns e (map (live_of Duckdb) (tb_columns t))). sv_type sv Duckdb (expected_type Duckdb (co_type c)))))"

abbreviation lake_names :: "entity_spec list \<Rightarrow> string list" where
  "lake_names catalog \<equiv> map en_relation (for_store Duckdb catalog)"

lemma lake_step:
  assumes ok: "entity_ok e" and fits: "lake_fits sv catalog db0" and e: "e \<in> set (for_store Duckdb catalog)"
    and breaking: "mp_breaking (plan_migration catalog Duckdb (read_columns Duckdb (lake_names catalog) db0)) = []"
    and state: "done_with Duckdb db0 (for_store Duckdb catalog) before db" and new: "en_relation e \<notin> relations_of before"
  shows "\<exists>db'. execute_all sv Duckdb (entity_statements Duckdb (read_columns Duckdb (lake_names catalog) db0) e) db = Inr db'
     \<and> done_with Duckdb db0 (for_store Duckdb catalog) (before @ [e]) db'"
proof -
  have names: "plain_names sv Duckdb e" using fits e by (simp add: lake_fits_def)
  have disjoint: "\<forall>d \<in> set before. touched Duckdb d \<inter> touched Duckdb e = {}" using new by (auto simp: touched_def)
  have "only_at (\<Union> (touched Duckdb ` set before)) db0 db" using state by (simp add: done_with_def)
  then have same: "\<forall>r \<in> touched Duckdb e. db_tables db r = db_tables db0 r" using new by (auto simp: only_at_def touched_def)
  have "\<exists>db'. execute_all sv Duckdb (entity_statements Duckdb (read_columns Duckdb (lake_names catalog) db0) e) db = Inr db'
     \<and> only_at (touched Duckdb e) db db' \<and> settled_in Duckdb db0 e db'"
  proof (cases "db_tables db0 (en_relation e)")
    case None
    define db' where "db' = db\<lparr>db_tables := (db_tables db)(en_relation e \<mapsto> \<lparr>tb_columns = map lake_column (en_columns e), tb_keys = []\<rparr>)\<rparr>"
    obtain spec where "to_lake_table_spec e = Inr spec" using fits e by (cases "to_lake_table_spec e") (auto simp: lake_fits_def)
    then have "execute sv Duckdb (CreateTable e) db = Inr db'" using execute_create_lake [OF names] same None by (simp add: create_lake_def db'_def touched_def)
    moreover have "only_at (touched Duckdb e) db db'" using same None only_at_new [of db "en_relation e"] by (simp add: touched_def db'_def)
    moreover have "matches Duckdb e (map lake_column (en_columns e))" by (rule matches_fresh [OF ok]) (simp_all add: lake_column_def)
    then have "settled_in Duckdb db0 e db'" using None by (auto simp: settled_in_def cols_in_def db'_def lake_column_def)
    ultimately show ?thesis using None by (simp add: entity_statements_def read_columns_def)
  next
    case (Some t)
    have t: "tb_columns t \<noteq> []" "\<forall>c \<in> set (absent_columns e (map (live_of Duckdb) (tb_columns t))). sv_type sv Duckdb (expected_type Duckdb (co_type c))"
      using fits e Some by (auto simp: lake_fits_def)
    have rel: "en_relation e \<in> set (lake_names catalog)" "Duckdb = Postgres \<and> gb_history (en_generate e) \<longrightarrow> history_of (en_relation e) \<in> set (lake_names catalog)" using e by simp_all
    show ?thesis using update_existing [OF names ok rel same Some t(1)] no_breaking [OF breaking e rel(1) Some t(1)] t(2) by (auto simp: lacks_companion_def)
  qed
  then show ?thesis using done_with_step [OF state _ _ disjoint] by blast
qed

lemma lake_converges:
  assumes loaded: "from_entities es = Inr catalog" and fits: "lake_fits sv catalog db"
    and breaking: "mp_breaking (plan_migration catalog Duckdb (read_columns Duckdb (lake_names catalog) db)) = []"
  shows "\<exists>db'. execute_all sv Duckdb (mp_statements (plan_migration catalog Duckdb (read_columns Duckdb (lake_names catalog) db))) db = Inr db'
     \<and> retains db db' \<and> plan_migration catalog Duckdb (read_columns Duckdb (lake_names catalog) db') =
         \<lparr>mp_statements = [], mp_breaking = [], mp_ahead = mp_ahead (plan_migration catalog Duckdb (read_columns Duckdb (lake_names catalog) db))\<rparr>"
proof -
  let ?es = "for_store Duckdb catalog" and ?live = "read_columns Duckdb (lake_names catalog) db"
  from loaded have "distinct (map fst (relation_claims catalog))" and "\<forall>e \<in> set catalog. entity_ok e" by (auto simp: from_entities_iff)
  then have dist: "distinct (map en_relation ?es)" and ok: "\<forall>e \<in> set ?es. entity_ok e" by (auto simp: for_store_def intro: distinct_relations [unfolded for_store_def])
  note ordered = topo_order_permutes [OF dist]
  have start: "done_with Duckdb db ?es [] db" by (simp add: done_with_def)
  have "\<exists>db'. execute_all sv Duckdb (concat (map (entity_statements Duckdb ?live) (topo_order ?es))) db = Inr db' \<and> done_with Duckdb db ?es (topo_order ?es) db'"
  proof (rule execute_entities [where I = "done_with Duckdb db ?es", OF _ start])
    fix before e "after" db2 assume split: "topo_order ?es = before @ e # after" and I: "done_with Duckdb db ?es before db2"
    have e: "e \<in> set ?es" and new: "en_relation e \<notin> relations_of before" using ordered split by auto
    then show "\<exists>db'. execute_all sv Duckdb (entity_statements Duckdb ?live e) db2 = Inr db' \<and> done_with Duckdb db ?es (before @ [e]) db'"
      using lake_step [OF _ fits e breaking I new] ok by blast
  qed
  then obtain db' where run: "execute_all sv Duckdb (concat (map (entity_statements Duckdb ?live) (topo_order ?es))) db = Inr db'"
    and finished: "done_with Duckdb db ?es (topo_order ?es) db'" by blast
  have "\<not> list_ex (needs_history_prelude Duckdb ?live) (topo_order ?es)" by (auto simp: list_ex_iff needs_history_prelude_def lacks_companion_def)
  then have "execute_all sv Duckdb (mp_statements (plan_migration catalog Duckdb ?live)) db = Inr db'" using run by (simp add: plan_migration_def Let_def)
  moreover have "retains db db'" using finished by (simp add: done_with_def only_at_def)
  moreover have "\<forall>e \<in> set ?es. settled_in Duckdb db e db'" using finished ordered(1) by (simp add: done_with_def)
  moreover have "\<forall>e \<in> set ?es. touched Duckdb e \<subseteq> set (lake_names catalog)" by (simp add: touched_def)
  ultimately show ?thesis using settled_plan [OF _ _ dist] by metis
qed

end
