(* ===== verification/Migrate.thy ===== *)
theory Migrate
  imports SchemaConverge Json
begin

text \<open>
  The reconcilers with their ledgers (\<open>er-entity-diff/src/reconcile.rs\<close>), the deploy gate (\<open>er-server/src/migrate_plan.rs\<close> and the
  \<open>migrate\<close> verb of \<open>main.rs\<close>), the named fixups (\<open>er-server/src/fixups.rs\<close>) and the boot of the control plane
  (\<open>er-server/src/pg.rs\<close>). Rows of other tables are not part of the state: which relations keep a row without a dataset after the
  backfill is a parameter, and the convergence of default datasets, which only writes rows, is the identity here.
\<close>

section \<open>The ledger\<close>

record migration_row =
  mr_id :: string
  mr_created :: nat
  mr_hash :: string
  mr_kind :: string
  mr_relation :: "string option"
  mr_statement :: "string option"
  mr_applied_by :: string
  mr_snapshot :: "int option"

definition ledger_kind :: "bool \<Rightarrow> string" where
  "ledger_kind applied = (if applied then ''applied'' else ''verified'')"

definition ledger_history :: "migration_row list \<Rightarrow> migration_row list" where
  "ledger_history rows = sort_key (\<lambda>r. (mr_created r, mr_id r)) rows"

definition latest :: "migration_row list \<Rightarrow> migration_row option" where
  "latest rows = (case rev (ledger_history rows) of [] \<Rightarrow> None | r # _ \<Rightarrow> Some r)"

text \<open>One row per applied statement, else one row the first time a catalog version meets a current store. The ids are minted in order.\<close>

definition ledger_entries :: "nat \<Rightarrow> (nat \<Rightarrow> string) \<Rightarrow> string \<Rightarrow> string \<Rightarrow> int option \<Rightarrow> bool \<Rightarrow> planned list \<Rightarrow> migration_row list" where
  "ledger_entries now ids hash by snapshot current applied =
     (let row = (\<lambda>n kind relation statement. \<lparr>mr_id = ids n, mr_created = now, mr_hash = hash, mr_kind = kind, mr_relation = relation,
            mr_statement = statement, mr_applied_by = by, mr_snapshot = snapshot\<rparr>) in
      if applied = [] then if current then [] else [row 0 (ledger_kind False) None None]
      else map (\<lambda>(n, p). row n (ledger_kind True) (Some (pl_relation p)) (Some (pl_sql p))) (enumerate 0 applied))"

section \<open>The reconcilers\<close>

datatype reconcile_error = BreakingDiffs "diff_item list" | ReconcilePostgres ddl_error | ReconcileDuckdb ddl_error | ReconcileSpec spec_error

record reconciled =
  rc_catalog_hash :: string
  rc_applied :: "planned list"
  rc_ahead :: "diff_item list"
  rc_ledger_was_current :: bool

text \<open>What the reconcilers need from outside: the server, the digest, the text of the history function, the writer's name.\<close>

record tooling =
  tl_server :: server
  tl_sha256 :: "string \<Rightarrow> nat list"
  tl_prelude :: string
  tl_applied_by :: string

record managed =
  mg_db :: database
  mg_ledger :: "migration_row list"
  mg_fixups :: "string list"

definition ledger_table :: string where "ledger_table = ''schema_migrations''"

definition reconcile_postgres :: "tooling \<Rightarrow> entity_spec list \<Rightarrow> nat \<Rightarrow> (nat \<Rightarrow> string) \<Rightarrow> managed \<Rightarrow> (reconcile_error + reconciled) \<times> managed" where
  "reconcile_postgres tg catalog now ids st =
     (let hash = catalog_hash (tl_sha256 tg) catalog Postgres;
          p = plan_migration catalog Postgres (read_columns Postgres (postgres_relations catalog) (mg_db st)) in
      if mp_breaking p \<noteq> [] then (Inl (BreakingDiffs (mp_breaking p)), st)
      else case execute_all (tl_server tg) Postgres (mp_statements p) (mg_db st) of
             Inl e \<Rightarrow> (Inl (ReconcilePostgres e), st)
           | Inr db \<Rightarrow>
               if db_tables db ledger_table = None then (Inl (ReconcilePostgres (UndefinedTable ledger_table)), st)
               else let current = (map_option mr_hash (latest (mg_ledger st)) = Some hash);
                        applied = map (planned_of (tl_prelude tg) Postgres) (mp_statements p) in
                 (Inr \<lparr>rc_catalog_hash = hash, rc_applied = applied, rc_ahead = mp_ahead p, rc_ledger_was_current = current\<rparr>,
                  st\<lparr>mg_db := db, mg_ledger := mg_ledger st @ ledger_entries now ids hash (tl_applied_by tg) None current applied\<rparr>))"

text \<open>
  On a lake the statements commit before the ledger is read; the rows are written one by one. The relations a stage rebuilds whole are
  left out of the plan, not out of the version.
\<close>

definition lake_relations :: "string list \<Rightarrow> entity_spec list \<Rightarrow> string list" where
  "lake_relations stage_owned catalog = map en_relation (filter (\<lambda>e. en_relation e \<notin> set stage_owned) (for_store Duckdb catalog))"

definition reconcile_lake :: "tooling \<Rightarrow> string list \<Rightarrow> entity_spec list \<Rightarrow> nat \<Rightarrow> (nat \<Rightarrow> string) \<Rightarrow> (database \<Rightarrow> int option) \<Rightarrow> managed
    \<Rightarrow> (reconcile_error + reconciled) \<times> managed" where
  "reconcile_lake tg stage_owned catalog now ids snapshot st =
     (case catalog_without catalog Duckdb (set stage_owned) of
        Inl e \<Rightarrow> (Inl (ReconcileSpec e), st)
      | Inr owned \<Rightarrow>
          (let hash = catalog_hash (tl_sha256 tg) catalog Duckdb;
               p = plan_migration owned Duckdb (read_columns Duckdb (map en_relation (for_store Duckdb owned)) (mg_db st)) in
           if mp_breaking p \<noteq> [] then (Inl (BreakingDiffs (mp_breaking p)), st)
           else case execute_all (tl_server tg) Duckdb (mp_statements p) (mg_db st) of
                  Inl e \<Rightarrow> (Inl (ReconcileDuckdb e), st)
                | Inr db \<Rightarrow>
                    if db_tables db ledger_table = None then (Inl (ReconcileDuckdb (UndefinedTable ledger_table)), st\<lparr>mg_db := db\<rparr>)
                    else let current = (map_option mr_hash (latest (mg_ledger st)) = Some hash);
                             applied = map (planned_of (tl_prelude tg) Duckdb) (mp_statements p) in
                      (Inr \<lparr>rc_catalog_hash = hash, rc_applied = applied, rc_ahead = mp_ahead p, rc_ledger_was_current = current\<rparr>,
                       st\<lparr>mg_db := db, mg_ledger := mg_ledger st @ ledger_entries now ids hash (tl_applied_by tg) (snapshot db) current applied\<rparr>)))"

definition reconciled_status :: "reconciled \<Rightarrow> string" where
  "reconciled_status r = (if rc_applied r = [] then ''current'' else ''migrated'')"

definition reconciled_detail :: "reconciled \<Rightarrow> string" where
  "reconciled_detail r =
     join_with ''; ''
       ((if rc_applied r = [] then [''nothing pending'']
         else [''applied '' @ show_nat (length (rc_applied r)) @ '': '' @ join_with '', '' (bset_of (map pl_relation (rc_applied r)))]) @
        (if rc_ahead r = [] then []
         else [''ahead: '' @ join_with ''; '' (map (\<lambda>d. df_relation d @ '' ('' @ df_message d @ '')'') (rc_ahead r))]))"

definition breaking_message :: "diff_item list \<Rightarrow> string" where
  "breaking_message items =
     ''ERR_SCHEMA_BREAKING: '' @ show_nat (length items) @ '' difference(s) the reconciler refuses to auto-apply:'' @
     concat (map (\<lambda>d. nl @ ''  '' @ df_relation d @ '': '' @ df_message d) items)"

section \<open>The deploy gate\<close>

datatype schema_verdict = CurrentSchema | Additive | BreakingSchema

definition verdict_str :: "schema_verdict \<Rightarrow> string" where
  "verdict_str v = (case v of CurrentSchema \<Rightarrow> ''current'' | Additive \<Rightarrow> ''additive'' | BreakingSchema \<Rightarrow> ''breaking'')"

definition verdict_exit_code :: "schema_verdict \<Rightarrow> nat" where
  "verdict_exit_code v = (case v of CurrentSchema \<Rightarrow> 0 | Additive \<Rightarrow> 0 | BreakingSchema \<Rightarrow> 3)"

definition verdict_of :: "migration_plan \<Rightarrow> schema_verdict" where
  "verdict_of p = (if mp_breaking p \<noteq> [] then BreakingSchema else if mp_statements p = [] then CurrentSchema else Additive)"

definition render_diff :: "diff_item \<Rightarrow> json" where
  "render_diff d = json_object
     [(''relation'', JStr (df_relation d)),
      (''severity'', JStr (case df_severity d of Safe \<Rightarrow> ''safe'' | Breaking \<Rightarrow> ''breaking'' | Ahead \<Rightarrow> ''ahead'')),
      (''message'', JStr (df_message d))]"

definition plan_json :: "string \<Rightarrow> store \<Rightarrow> migration_plan \<Rightarrow> string \<Rightarrow> json" where
  "plan_json prelude s p hash = json_object
     [(''verdict'', JStr (verdict_str (verdict_of p))),
      (''catalog_hash'', JStr hash),
      (''statements'', JArr (map (\<lambda>d. json_object [(''relation'', JStr (pl_relation (planned_of prelude s d))), (''sql'', JStr (pl_sql (planned_of prelude s d)))]) (mp_statements p))),
      (''breaking'', JArr (map render_diff (mp_breaking p))),
      (''ahead'', JArr (map render_diff (mp_ahead p)))]"

definition SQL_PREVIEW :: nat where "SQL_PREVIEW = 120"

definition char_count :: "string \<Rightarrow> nat" where
  "char_count s = length (filter (\<lambda>c. \<not> (0x80 \<le> byte c \<and> byte c < 0xC0)) s)"

definition one_line :: "string \<Rightarrow> string" where
  "one_line sql =
     (let flat = join_with '' '' (split_whitespace sql) in
      if char_count flat \<le> SQL_PREVIEW then flat
      else take_chars SQL_PREVIEW flat @ [CHR 0xE2, CHR 0x80, CHR 0xA6] @ '' ('' @ show_nat (char_count flat) @ '' chars)'')"

text \<open>The report for people; the digest is shortened to twelve bytes.\<close>

definition render_items :: "diff_item list \<Rightarrow> string" where
  "render_items items = concat (map (\<lambda>d. ''  '' @ df_relation d @ '': '' @ df_message d @ nl) items)"

definition render_plan :: "string \<Rightarrow> store \<Rightarrow> migration_plan \<Rightarrow> string \<Rightarrow> string" where
  "render_plan prelude s p hash =
     ''verdict: '' @ verdict_str (verdict_of p) @ '' (catalog '' @ take 12 hash @ '')'' @ nl @
     (if mp_statements p = [] then []
      else nl @ show_nat (length (mp_statements p)) @ '' statement(s) would be applied:'' @ nl @
        concat (map (\<lambda>d. ''  '' @ pl_relation (planned_of prelude s d) @ '': '' @ one_line (pl_sql (planned_of prelude s d)) @ nl) (mp_statements p))) @
     (if mp_ahead p = [] then []
      else nl @ show_nat (length (mp_ahead p)) @ '' column(s) AHEAD of this catalog (tolerated, never dropped '' @ [CHR 0xE2, CHR 0x80, CHR 0x94]
        @ '' a later image has served this store):'' @ nl @ render_items (mp_ahead p)) @
     (if mp_breaking p = [] then []
      else nl @ show_nat (length (mp_breaking p)) @ '' difference(s) the reconciler REFUSES to auto-apply:'' @ nl @ render_items (mp_breaking p) @
        nl @ ''This release cannot be rolled out underneath a running older version.'' @ nl @
        ''Removing or retyping a column takes TWO releases: N stops reading it,'' @ nl @
        ''N+1 changes it once no older pod is left. Where that is genuinely not'' @ nl @
        ''possible, the operation belongs in a named fixup (er-server/src/fixups.rs)'' @ nl @
        ''whose doc comment argues why it is safe.'' @ nl)"

record migrate_args =
  ma_plan_only :: bool
  ma_expect_additive :: bool
  ma_json :: bool

definition plans :: "migrate_args \<Rightarrow> bool" where
  "plans a \<longleftrightarrow> ma_plan_only a \<or> ma_expect_additive a"

definition KNOWN_ARGS :: "string list" where
  "KNOWN_ARGS = [''--plan'', ''--json'', ''--expect-additive'']"

definition parse_migrate_args :: "string list \<Rightarrow> string + migrate_args" where
  "parse_migrate_args args =
     (case find (\<lambda>a. a \<notin> set KNOWN_ARGS) args of
        Some unknown \<Rightarrow> Inl (''er-server migrate: unknown argument '' @ debug_str unknown @ '' (expected '' @ join_with '', '' KNOWN_ARGS @ '')'')
      | None \<Rightarrow> Inr \<lparr>ma_plan_only = ''--plan'' \<in> set args, ma_expect_additive = ''--expect-additive'' \<in> set args, ma_json = ''--json'' \<in> set args\<rparr>)"

section \<open>Fixups\<close>

datatype phase = BeforeReconcile | AfterReconcile
datatype fixup_kind = SafeFixup | Contract string | ContractUngated

definition FIXUPS :: "(string \<times> phase \<times> fixup_kind) list" where
  "FIXUPS =
     [(''0002_backfill_dataset_ids'', AfterReconcile, SafeFixup),
      (''0003_per_dataset_locks'', AfterReconcile, ContractUngated),
      (''0004_dataset_id_required'', BeforeReconcile, Contract ''bbb067f8f6e59817fc972f51e6aa03379b9632bc268f189a7b0377fb06d00f87'')]"

definition contract_allowed :: "string \<Rightarrow> string list \<Rightarrow> string \<Rightarrow> bool" where
  "contract_allowed after hist current \<longleftrightarrow> after \<in> set hist \<or> list_all (\<lambda>h. h = current) hist"

definition DATASET_SCOPED :: "(string \<times> bool) list" where
  "DATASET_SCOPED =
     [(''config_versions'', True), (''matching_models'', True), (''schedules'', True), (''s3_ingest_cursors'', True), (''pair_labels'', True),
      (''tenant_schema_states'', False), (''entity_links'', True), (''taggings'', True), (''staged_steward_actions'', True), (''jobs'', False),
      (''task_instances'', False)]"

definition SUPERSEDED_ORG_UNIQUES :: "(string \<times> string list) list" where
  "SUPERSEDED_ORG_UNIQUES =
     [(''config_versions'', [''org_id'', ''version'']), (''matching_models'', [''org_id'', ''name'', ''version'']),
      (''pair_labels'', [''org_id'', ''rec_a_key'', ''rec_b_key'']), (''s3_ingest_cursors'', [''org_id'', ''source'']),
      (''entity_links'', [''org_id'', ''parent_entity_id'', ''child_entity_id'', ''kind''])]"

text \<open>A statement that names columns of a table fails when the table or one of them does not exist.\<close>

definition with_columns :: "string \<Rightarrow> string list \<Rightarrow> database \<Rightarrow> ddl_error + db_table" where
  "with_columns relation cols db =
     (case db_tables db relation of
        None \<Rightarrow> Inl (UndefinedTable relation)
      | Some t \<Rightarrow> (case first_missing (map dc_name (tb_columns t)) cols of Some c \<Rightarrow> Inl (UndefinedColumn c) | None \<Rightarrow> Inr t))"

definition fill_dataset :: "string list \<Rightarrow> string \<Rightarrow> database \<Rightarrow> ddl_error + database" where
  "fill_dataset written relation db =
     andthen (with_columns relation (written @ [''org_id'']) db) (\<lambda>_. andthen (with_columns ''datasets'' [''id'', ''org_id'', ''name''] db) (\<lambda>_. Inr db))"

fun each :: "('a \<Rightarrow> database \<Rightarrow> ddl_error + database) \<Rightarrow> 'a list \<Rightarrow> database \<Rightarrow> ddl_error + database" where
  "each f [] db = Inr db"
| "each f (x # xs) db = andthen (f x db) (each f xs)"

definition backfill_dataset_ids :: "database \<Rightarrow> ddl_error + database" where
  "backfill_dataset_ids = each (\<lambda>(relation, _). fill_dataset [''dataset_id'', ''updated_at''] relation) DATASET_SCOPED"

definition drop_index :: "string \<Rightarrow> database \<Rightarrow> database" where
  "drop_index name db = db\<lparr>db_indexes := db_indexes db - {name},
     db_tables := (\<lambda>r. map_option (\<lambda>t. t\<lparr>tb_keys := filter (\<lambda>k. fst k \<noteq> UniqueIndex name) (tb_keys t)\<rparr>) (db_tables db r))\<rparr>"

definition drop_uniques :: "(string list \<Rightarrow> bool) \<Rightarrow> string \<Rightarrow> database \<Rightarrow> database" where
  "drop_uniques P relation db = db\<lparr>db_tables := (db_tables db)(relation :=
     map_option (\<lambda>t. t\<lparr>tb_keys := filter (\<lambda>k. fst k = UniqueConstraint \<longrightarrow> \<not> P (snd k)) (tb_keys t)\<rparr>) (db_tables db relation))\<rparr>"

definition per_dataset_locks :: "database \<Rightarrow> ddl_error + database" where
  "per_dataset_locks db =
     Inr (drop_uniques (\<lambda>_. True) ''tenant_schema_states'' (drop_index ''task_instances_one_pod_per_org'' (drop_index ''jobs_one_active_per_org'' db)))"

definition add_dataset_column :: "string \<Rightarrow> database \<Rightarrow> ddl_error + database" where
  "add_dataset_column relation db =
     (case db_tables db relation of
        None \<Rightarrow> Inl (UndefinedTable relation)
      | Some t \<Rightarrow>
          if ''dataset_id'' \<in> dc_name ` set (tb_columns t) then Inr db
          else andthen (with_columns ''datasets'' [''id''] db) (\<lambda>_. add_column Postgres relation ''dataset_id'' Varchar db))"

definition set_not_null :: "(string \<Rightarrow> bool) \<Rightarrow> string \<Rightarrow> string \<Rightarrow> database \<Rightarrow> ddl_error + database" where
  "set_not_null orphans relation col db =
     andthen (with_columns relation [col] db) (\<lambda>t.
       if orphans relation then Inl (NotNullViolation relation)
       else Inr (db\<lparr>db_tables := (db_tables db)(relation \<mapsto>
              t\<lparr>tb_columns := map (\<lambda>c. if dc_name c = col then c\<lparr>dc_nullable := False\<rparr> else c) (tb_columns t)\<rparr>)\<rparr>))"

definition drop_unique_on :: "string \<Rightarrow> string list \<Rightarrow> database \<Rightarrow> database" where
  "drop_unique_on relation cols db = drop_uniques (\<lambda>k. sort k = sort cols) relation db"

definition require_dataset :: "(string \<Rightarrow> bool) \<Rightarrow> string \<times> bool \<Rightarrow> database \<Rightarrow> ddl_error + database" where
  "require_dataset orphans = (\<lambda>(relation, required) db.
     andthen (add_dataset_column relation db) (\<lambda>db1.
       if \<not> required then Inr db1
       else andthen (fill_dataset [''dataset_id''] relation db1) (set_not_null orphans relation ''dataset_id'')))"

definition dataset_id_required :: "(string \<Rightarrow> bool) \<Rightarrow> database \<Rightarrow> ddl_error + database" where
  "dataset_id_required orphans db =
     andthen (each (require_dataset orphans) DATASET_SCOPED db)
       (\<lambda>d. Inr (fold (\<lambda>(relation, cols). drop_unique_on relation cols) SUPERSEDED_ORG_UNIQUES d))"

datatype boot_error = BootPostgres ddl_error | BootReconcile reconcile_error | ContractNotReady string string | NoSuchFixup string

definition run_fixup :: "(string \<Rightarrow> bool) \<Rightarrow> string \<Rightarrow> database \<Rightarrow> boot_error + database" where
  "run_fixup orphans name db =
     (let ddl = (\<lambda>r. case r of Inl e \<Rightarrow> Inl (BootPostgres e) | Inr d \<Rightarrow> Inr d) in
      if name = ''0002_backfill_dataset_ids'' then ddl (backfill_dataset_ids db)
      else if name = ''0003_per_dataset_locks'' then ddl (per_dataset_locks db)
      else if name = ''0004_dataset_id_required'' then ddl (dataset_id_required orphans db)
      else Inl (NoSuchFixup name))"

text \<open>Each fixup is a transaction of its own: what ran before a failure stays.\<close>

fun apply_each :: "(string \<Rightarrow> bool) \<Rightarrow> string list \<Rightarrow> string \<Rightarrow> (string \<times> phase \<times> fixup_kind) list \<Rightarrow> managed \<Rightarrow> (boot_error + unit) \<times> managed" where
  "apply_each orphans hist current [] st = (Inr (), st)"
| "apply_each orphans hist current ((name, _, kind) # rest) st =
     (if name \<in> set (mg_fixups st) then apply_each orphans hist current rest st
      else case (case kind of Contract after \<Rightarrow> if contract_allowed after hist current then None else Some after | _ \<Rightarrow> None) of
             Some after \<Rightarrow> (Inl (ContractNotReady name after), st)
           | None \<Rightarrow>
               (case run_fixup orphans name (mg_db st) of
                  Inl e \<Rightarrow> (Inl e, st)
                | Inr db \<Rightarrow> apply_each orphans hist current rest (st\<lparr>mg_db := db, mg_fixups := mg_fixups st @ [name]\<rparr>)))"

definition apply_fixups :: "(string \<Rightarrow> bool) \<Rightarrow> string \<Rightarrow> phase \<Rightarrow> managed \<Rightarrow> (boot_error + unit) \<times> managed" where
  "apply_fixups orphans current ph st =
     (if db_tables (mg_db st) ledger_table = None then (Inl (BootPostgres (UndefinedTable ledger_table)), st)
      else apply_each orphans (map mr_hash (ledger_history (mg_ledger st))) current (filter (\<lambda>(_, p, _). p = ph) FIXUPS) st)"

section \<open>Boot\<close>

definition postgres_baseline :: "entity_spec list \<Rightarrow> ddl list" where
  "postgres_baseline catalog =
     (let es = for_store Postgres catalog in
      (if list_ex (\<lambda>e. gb_history (en_generate e)) es then [HistoryPrelude] else []) @ map CreateTable (topo_order es))"

text \<open>A statement that names an undefined column is rolled back to its savepoint and deferred; any other error ends the replay.\<close>

fun replay :: "server \<Rightarrow> ddl list \<Rightarrow> database \<Rightarrow> ddl_error + (database \<times> ddl list)" where
  "replay sv [] db = Inr (db, [])"
| "replay sv (d # ds) db =
     (case execute sv Postgres d db of
        Inr db' \<Rightarrow> replay sv ds db'
      | Inl (UndefinedColumn c) \<Rightarrow> andthen (replay sv ds db) (\<lambda>(db', deferred). Inr (db', d # deferred))
      | Inl e \<Rightarrow> Inl e)"

text \<open>The phases of the boot, each committed on its own.\<close>

definition ensure_schema :: "tooling \<Rightarrow> entity_spec list \<Rightarrow> (string \<Rightarrow> bool) \<Rightarrow> nat \<Rightarrow> (nat \<Rightarrow> string) \<Rightarrow> managed \<Rightarrow> (boot_error + unit) \<times> managed" where
  "ensure_schema tg catalog orphans now ids st =
     (let current = catalog_hash (tl_sha256 tg) catalog Postgres in
      case replay (tl_server tg) (postgres_baseline catalog) (mg_db st) of
        Inl e \<Rightarrow> (Inl (BootPostgres e), st)
      | Inr (db1, deferred) \<Rightarrow>
          (case apply_fixups orphans current BeforeReconcile (st\<lparr>mg_db := db1\<rparr>) of
             (Inl e, st2) \<Rightarrow> (Inl e, st2)
           | (Inr _, st2) \<Rightarrow>
               (case reconcile_postgres tg catalog now ids st2 of
                  (Inl e, st3) \<Rightarrow> (Inl (BootReconcile e), st3)
                | (Inr _, st3) \<Rightarrow>
                    (case execute_all (tl_server tg) Postgres deferred (mg_db st3) of
                       Inl e \<Rightarrow> (Inl (BootPostgres e), st3)
                     | Inr db4 \<Rightarrow> apply_fixups orphans current AfterReconcile (st3\<lparr>mg_db := db4\<rparr>)))))"

datatype migrate_outcome = BadArguments string | Exited nat | Failed boot_error | Migrated

definition migrate :: "tooling \<Rightarrow> entity_spec list \<Rightarrow> (string \<Rightarrow> bool) \<Rightarrow> nat \<Rightarrow> (nat \<Rightarrow> string) \<Rightarrow> string list \<Rightarrow> managed \<Rightarrow> migrate_outcome \<times> managed" where
  "migrate tg catalog orphans now ids args st =
     (case parse_migrate_args args of
        Inl m \<Rightarrow> (BadArguments m, st)
      | Inr a \<Rightarrow>
          (let v = verdict_of (plan_migration catalog Postgres (read_columns Postgres (postgres_relations catalog) (mg_db st))) in
           if plans a \<and> (ma_plan_only a \<or> v = BreakingSchema) then (Exited (verdict_exit_code v), st)
           else case ensure_schema tg catalog orphans now ids st of
                  (Inl e, st') \<Rightarrow> (Failed e, st')
                | (Inr _, st') \<Rightarrow> (Migrated, st')))"

section \<open>The newest row\<close>

lemma latest_greatest:
  assumes "latest rows = Some r"
  shows "r \<in> set rows" "\<forall>q \<in> set rows. (mr_created q, mr_id q) \<le> (mr_created r, mr_id r)"
proof -
  let ?k = "\<lambda>r :: migration_row. (mr_created r, mr_id r)"
  obtain qs where qs: "rev (ledger_history rows) = r # qs" using assms by (auto simp: latest_def split: list.splits)
  then have h: "ledger_history rows = rev qs @ [r]" by simp
  have "set (ledger_history rows) = set rows" by (simp add: ledger_history_def)
  with h show "r \<in> set rows" by auto
  have "sorted (map ?k (ledger_history rows))" by (simp add: ledger_history_def)
  with h have "\<forall>q \<in> set (ledger_history rows). ?k q \<le> ?k r" by (auto simp: sorted_append)
  then show "\<forall>q \<in> set rows. ?k q \<le> ?k r" using \<open>set (ledger_history rows) = set rows\<close> by simp
qed

lemma latest_appended:
  assumes "new \<noteq> []" and "\<forall>q \<in> set old. \<forall>n \<in> set new. (mr_created q, mr_id q) < (mr_created n, mr_id n)"
  shows "\<exists>r \<in> set new. latest (old @ new) = Some r"
proof -
  have "rev (ledger_history (old @ new)) \<noteq> []" using assms(1) by (metis Nil_is_append_conv Nil_is_rev_conv ledger_history_def length_0_conv length_sort)
  then obtain r where r: "latest (old @ new) = Some r" by (cases "rev (ledger_history (old @ new))") (auto simp: latest_def)
  note greatest = latest_greatest [OF r]
  have "r \<notin> set old"
  proof
    assume old: "r \<in> set old"
    obtain n where n: "n \<in> set new" using assms(1) by (meson last_in_set)
    then have "(mr_created n, mr_id n) \<le> (mr_created r, mr_id r)" using greatest(2) by simp
    with assms(2) old n show False using leD by blast
  qed
  with greatest(1) r show ?thesis by auto
qed

lemma ledger_entries_rows:
  "q \<in> set (ledger_entries now ids hash by snapshot current applied) \<Longrightarrow> mr_hash q = hash \<and> mr_created q = now \<and> (\<exists>n. mr_id q = ids n)"
  by (auto simp: ledger_entries_def Let_def split: if_splits)

lemma ledger_entries_Nil: "ledger_entries now ids hash by snapshot current applied = [] \<longleftrightarrow> applied = [] \<and> current"
  by (simp add: ledger_entries_def Let_def enumerate_eq_zip)

lemma ledger_entries_current [simp]: "ledger_entries now ids hash by snapshot True [] = []"
  by (simp add: ledger_entries_Nil)

text \<open>After the rows of a reconciliation are written, the newest row carries its version.\<close>

lemma latest_hash_after:
  assumes "mono ids" and "\<forall>q \<in> set rows. (mr_created q, mr_id q) < (now, ids 0)" and "current \<longleftrightarrow> map_option mr_hash (latest rows) = Some hash"
  shows "map_option mr_hash (latest (rows @ ledger_entries now ids hash by snapshot current applied)) = Some hash"
proof (cases "ledger_entries now ids hash by snapshot current applied = []")
  case True
  then have "current" by (simp add: ledger_entries_Nil)
  with assms(3) show ?thesis unfolding True by simp
next
  case False
  have "(mr_created q, mr_id q) < (mr_created n, mr_id n)" if "q \<in> set rows" and n: "n \<in> set (ledger_entries now ids hash by snapshot current applied)" for q n
  proof -
    obtain k where "mr_created n = now" "mr_id n = ids k" using ledger_entries_rows [OF n] by blast
    moreover have "ids 0 \<le> ids k" using assms(1) by (simp add: monoD)
    then have "(now, ids 0) \<le> (now, ids k)" by (simp add: less_eq_prod_def)
    ultimately show ?thesis using assms(2) that(1) by (metis order_less_le_trans)
  qed
  then obtain r where "r \<in> set (ledger_entries now ids hash by snapshot current applied)"
    "latest (rows @ ledger_entries now ids hash by snapshot current applied) = Some r" using latest_appended [OF False] by blast
  then show ?thesis using ledger_entries_rows by fastforce
qed

section \<open>Reconciling\<close>

text \<open>Under an empty plan every declared table exists.\<close>

lemma empty_plan_tables:
  assumes "plan_migration catalog s (read_columns s rels db) = \<lparr>mp_statements = [], mp_breaking = b, mp_ahead = a\<rparr>" and "distinct (map fst (relation_claims catalog))"
    and "r \<in> relations_of (for_store s catalog)"
  shows "db_tables db r \<noteq> None"
proof
  assume none: "db_tables db r = None"
  obtain e where e: "e \<in> set (for_store s catalog)" "r = en_relation e" using assms(3) by auto
  have "entity_statements s (read_columns s rels db) e = [CreateTable e]" using none e(2) by (simp add: entity_statements_def read_columns_def)
  moreover have "set (topo_order (for_store s catalog)) = set (for_store s catalog)" by (rule topo_order_permutes [OF distinct_relations [OF assms(2)]])
  ultimately have "CreateTable e \<in> set (mp_statements (plan_migration catalog s (read_columns s rels db)))" using e(1) by (auto simp: plan_migration_def Let_def intro!: bexI [of _ e])
  with assms(1) show False by simp
qed

lemma settled_reconcile:
  assumes "plan_migration catalog Postgres (read_columns Postgres (postgres_relations catalog) (mg_db st)) = \<lparr>mp_statements = [], mp_breaking = [], mp_ahead = ahead\<rparr>"
    and "db_tables (mg_db st) ledger_table \<noteq> None" and "map_option mr_hash (latest (mg_ledger st)) = Some (catalog_hash (tl_sha256 tg) catalog Postgres)"
  shows "reconcile_postgres tg catalog now ids st =
     (Inr \<lparr>rc_catalog_hash = catalog_hash (tl_sha256 tg) catalog Postgres, rc_applied = [], rc_ahead = ahead, rc_ledger_was_current = True\<rparr>, st)"
  using assms by (simp add: reconcile_postgres_def Let_def ledger_entries_def)

text \<open>C20: reconciling the control database converges. For a loaded catalog whose references and names the server accepts, and a live store
  without breaking differences, the reconciler succeeds; it keeps every table with its columns in place, leaves nothing to apply and the
  same columns ahead, and a second reconciliation at any time applies nothing, finds its ledger current and leaves the store as it is.\<close>

theorem reconcile_converges:
  assumes "from_entities es = Inr catalog" and "control_fits (tl_server tg) rank catalog" and "control_store_fits catalog (mg_db st)"
    and "mp_breaking (plan_migration catalog Postgres (read_columns Postgres (postgres_relations catalog) (mg_db st))) = []"
    and "ledger_table \<in> relations_of (for_store Postgres catalog)"
    and "mono ids" and "\<forall>q \<in> set (mg_ledger st). (mr_created q, mr_id q) < (now, ids 0)"
  shows "\<exists>r st'. reconcile_postgres tg catalog now ids st = (Inr r, st') \<and> retains (mg_db st) (mg_db st')
     \<and> plan_migration catalog Postgres (read_columns Postgres (postgres_relations catalog) (mg_db st')) = \<lparr>mp_statements = [], mp_breaking = [], mp_ahead = rc_ahead r\<rparr>
     \<and> (\<forall>now' ids'. reconcile_postgres tg catalog now' ids' st' = (Inr (r\<lparr>rc_applied := [], rc_ledger_was_current := True\<rparr>), st'))"
proof -
  let ?live = "\<lambda>db. read_columns Postgres (postgres_relations catalog) db"
  let ?p = "plan_migration catalog Postgres (?live (mg_db st))" and ?hash = "catalog_hash (tl_sha256 tg) catalog Postgres"
  let ?current = "map_option mr_hash (latest (mg_ledger st)) = Some ?hash" and ?applied = "map (planned_of (tl_prelude tg) Postgres) (mp_statements ?p)"
  from control_converges [OF assms(1-4)] obtain db' where db': "execute_all (tl_server tg) Postgres (mp_statements ?p) (mg_db st) = Inr db'" "retains (mg_db st) db'"
    "plan_migration catalog Postgres (?live db') = \<lparr>mp_statements = [], mp_breaking = [], mp_ahead = mp_ahead ?p\<rparr>" by blast
  define st' where "st' = st\<lparr>mg_db := db', mg_ledger := mg_ledger st @ ledger_entries now ids ?hash (tl_applied_by tg) None ?current ?applied\<rparr>"
  have table: "db_tables db' ledger_table \<noteq> None" using empty_plan_tables [OF db'(3) _ assms(5)] assms(1) by (simp add: from_entities_iff)
  have "reconcile_postgres tg catalog now ids st =
     (Inr \<lparr>rc_catalog_hash = ?hash, rc_applied = ?applied, rc_ahead = mp_ahead ?p, rc_ledger_was_current = ?current\<rparr>, st')"
    using assms(4) db'(1) table by (simp add: reconcile_postgres_def Let_def st'_def)
  moreover have "map_option mr_hash (latest (mg_ledger st')) = Some ?hash" using latest_hash_after [OF assms(6,7)] by (simp add: st'_def)
  then have "reconcile_postgres tg catalog now' ids' st' = (Inr \<lparr>rc_catalog_hash = ?hash, rc_applied = [], rc_ahead = mp_ahead ?p, rc_ledger_was_current = True\<rparr>, st')" for now' ids'
    using settled_reconcile [of catalog st' "mp_ahead ?p"] db'(3) table by (simp add: st'_def)
  ultimately show ?thesis using db'(2,3) by (simp add: st'_def)
qed

section \<open>A sample catalog\<close>

definition sample_column :: "string \<Rightarrow> column_type \<Rightarrow> bool \<Rightarrow> reference_spec option \<Rightarrow> column_spec" where
  "sample_column name ty nullable ref = \<lparr>co_name = name, co_type = ty, co_nullable = nullable, co_description = ''described'', co_volatile = False,
     co_default = None, co_serial = False, co_references = ref, co_accepted_values = None\<rparr>"

definition sample_entity :: "store \<Rightarrow> string \<Rightarrow> bool \<Rightarrow> column_spec list \<Rightarrow> index_spec list \<Rightarrow> entity_spec" where
  "sample_entity s relation hist columns indexes = \<lparr>en_kind = ''entity'', en_version = 1, en_name = relation, en_relation = relation, en_description = ''described'',
     en_key = [''id''], en_natural_key = [], en_generate = \<lparr>gb_stores = [s], gb_languages = [Rust], gb_wire = [], gb_history = hist, gb_append = False\<rparr>,
     en_columns = columns, en_indexes = indexes\<rparr>"

definition sample_catalog :: "entity_spec list" where
  "sample_catalog =
     [sample_entity Postgres ''jobs'' True
        [sample_column ''id'' Varchar False None, sample_column ''org_id'' Varchar False (Some \<lparr>rf_relation = ''orgs'', rf_column = ''id''\<rparr>),
         sample_column ''note'' Varchar True None] [plain_index ''jobs_org'' [''org_id'']],
      sample_entity Postgres ''orgs'' False [sample_column ''id'' Varchar False None] [],
      sample_entity Postgres ''schema_migrations'' False [sample_column ''id'' Varchar False None, sample_column ''created_at'' Timestamp False None] []]"

definition sample_ident :: "store \<Rightarrow> string \<Rightarrow> string option" where
  "sample_ident s n = (if n = [] then None else Some (map (\<lambda>c. if CHR ''A'' \<le> c \<and> c \<le> CHR ''Z'' then char_of (byte c + 32) else c) n))"

definition sample_tools :: tooling where
  "sample_tools = \<lparr>tl_server = \<lparr>sv_ident = sample_ident, sv_type = (\<lambda>s t. t \<noteq> ''LIST(VARCHAR)'')\<rparr>, tl_sha256 = (\<lambda>s. [length s mod 256]),
     tl_prelude = ''CREATE OR REPLACE FUNCTION'', tl_applied_by = ''er-server''\<rparr>"

text \<open>A live store with the jobs of an older release, a column ahead of the catalog, and neither organisations nor a ledger.\<close>

definition sample_store :: managed where
  "sample_store = \<lparr>mg_db = \<lparr>db_tables = [''jobs'' \<mapsto> \<lparr>tb_columns =
       [\<lparr>dc_name = ''id'', dc_type = ''text'', dc_nullable = False\<rparr>, \<lparr>dc_name = ''org_id'', dc_type = ''character varying'', dc_nullable = False\<rparr>,
        \<lparr>dc_name = ''colour'', dc_type = ''text'', dc_nullable = True\<rparr>], tb_keys = [(PrimaryKey, [''id''])]\<rparr>],
     db_indexes = {}, db_history_function = False\<rparr>, mg_ledger = [], mg_fixups = []\<rparr>"

definition sample_rank :: "string \<Rightarrow> nat" where
  "sample_rank r = (if r = ''jobs'' then 1 else 0)"

definition sample_ids :: "nat \<Rightarrow> string" where
  "sample_ids n = replicate n CHR ''x''"

lemma prefix_le: "(xs :: string) \<le> xs @ ys"
  by (induction xs) auto

lemma mono_sample_ids: "mono sample_ids"
proof (rule monoI)
  fix m n :: nat assume "m \<le> n"
  then obtain k where "n = m + k" using le_Suc_ex by blast
  then show "sample_ids m \<le> sample_ids n" by (simp add: sample_ids_def replicate_add prefix_le)
qed

lemma sample_loads: "from_entities sample_catalog = Inr sample_catalog" by code_simp

lemma sample_fits: "control_fits (tl_server sample_tools) sample_rank sample_catalog" by code_simp

lemma sample_store_fits: "control_store_fits sample_catalog (mg_db sample_store)" by code_simp

abbreviation sample_plan :: "migration_plan" where
  "sample_plan \<equiv> plan_migration sample_catalog Postgres (read_columns Postgres (postgres_relations sample_catalog) (mg_db sample_store))"

lemma sample_unbroken: "mp_breaking sample_plan = []" by code_simp

theorem reconcile_converges_witness:
  "length (mp_statements sample_plan) = 5 \<and>
   (\<exists>r st'. reconcile_postgres sample_tools sample_catalog 7 sample_ids sample_store = (Inr r, st') \<and> retains (mg_db sample_store) (mg_db st')
     \<and> plan_migration sample_catalog Postgres (read_columns Postgres (postgres_relations sample_catalog) (mg_db st')) = \<lparr>mp_statements = [], mp_breaking = [], mp_ahead = rc_ahead r\<rparr>
     \<and> (\<forall>now' ids'. reconcile_postgres sample_tools sample_catalog now' ids' st' = (Inr (r\<lparr>rc_applied := [], rc_ledger_was_current := True\<rparr>), st')))"
proof
  show "length (mp_statements sample_plan) = 5" by code_simp
  have "ledger_table \<in> relations_of (for_store Postgres sample_catalog)" by code_simp
  moreover have "\<forall>q \<in> set (mg_ledger sample_store). (mr_created q, mr_id q) < (7, sample_ids 0)" by (simp add: sample_store_def)
  ultimately show "\<exists>r st'. reconcile_postgres sample_tools sample_catalog 7 sample_ids sample_store = (Inr r, st') \<and> retains (mg_db sample_store) (mg_db st')
     \<and> plan_migration sample_catalog Postgres (read_columns Postgres (postgres_relations sample_catalog) (mg_db st')) = \<lparr>mp_statements = [], mp_breaking = [], mp_ahead = rc_ahead r\<rparr>
     \<and> (\<forall>now' ids'. reconcile_postgres sample_tools sample_catalog now' ids' st' = (Inr (r\<lparr>rc_applied := [], rc_ledger_was_current := True\<rparr>), st'))"
    using reconcile_converges [OF sample_loads sample_fits sample_store_fits sample_unbroken _ mono_sample_ids] by blast
qed

section \<open>What no statement of a boot takes away\<close>

lemma create_pg_table_keeps: "create_pg_table e db = Inr db' \<Longrightarrow> retains db db'"
  by (auto simp: create_pg_table_def Let_def split: if_splits option.splits list.splits intro!: retainsI)

lemma create_indexes_keeps: "create_indexes r is db = Inr db' \<Longrightarrow> retains db db'"
proof (induction r "is" db rule: create_indexes.induct)
  case (2 r i rest db)
  then obtain t where t: "db_tables db r = Some t" "first_missing (map dc_name (tb_columns t)) (ix_columns i) = None" by (auto split: option.splits)
  let ?db1 = "if ix_name i \<in> db_indexes db then db
                  else db\<lparr>db_indexes := insert (ix_name i) (db_indexes db),
                          db_tables := (if ix_unique i \<and> ix_where i = None
                            then (db_tables db)(r \<mapsto> t\<lparr>tb_keys := (UniqueIndex (ix_name i), ix_columns i) # tb_keys t\<rparr>) else db_tables db)\<rparr>"
  have "retains db ?db1" using t(1) by (auto intro!: retainsI)
  moreover have "retains ?db1 db'" using 2 t by simp
  ultimately show ?case by (rule retains_trans)
qed simp

lemma create_companion_keeps:
  assumes "create_companion r h db = Inr db'"
  shows "retains db db'"
proof -
  let ?db1 = "if db_tables db h = None then db\<lparr>db_tables := (db_tables db)(h \<mapsto> history_table)\<rparr> else db"
  have "retains db ?db1" by (auto intro!: retainsI)
  moreover have "retains ?db1 db'" using assms by (auto simp: create_companion_def andthen_Inr_iff simp del: create_indexes.simps split: if_splits dest: create_indexes_keeps)
  ultimately show ?thesis by (rule retains_trans)
qed

lemma add_column_keeps: "add_column s r n ty db = Inr db' \<Longrightarrow> retains db db'"
  by (auto simp: add_column_def split: option.splits if_splits intro!: retainsI)

lemma create_lake_keeps: "create_lake e db = Inr db' \<Longrightarrow> retains db db'"
  by (auto simp: create_lake_def split: if_splits intro!: retainsI)

lemmas statement_keeps = create_pg_table_keeps create_indexes_keeps create_companion_keeps add_column_keeps create_lake_keeps

lemma retains_prelude [simp]: "retains db (db\<lparr>db_history_function := True\<rparr>)"
  by (auto intro!: retainsI)

lemma execute_keeps: "execute sv s d db = Inr db' \<Longrightarrow> retains db db'"
  by (cases d; cases s)
    (auto simp: execute_def Let_def andthen_Inr_iff split: if_splits sum.splits dest!: statement_keeps intro: retains_trans)

lemma execute_all_keeps: "execute_all sv s ds db = Inr db' \<Longrightarrow> retains db db'"
proof (induction ds arbitrary: db)
  case (Cons d ds)
  then show ?case by (auto simp: andthen_Inr_iff dest!: execute_keeps intro: retains_trans)
qed simp

lemma replay_keeps: "replay sv ds db = Inr (db', deferred) \<Longrightarrow> retains db db'"
proof (induction ds arbitrary: db deferred)
  case (Cons d ds)
  then show ?case
    by (auto simp: andthen_Inr_iff split: sum.splits ddl_error.splits prod.splits dest!: execute_keeps intro: retains_trans)
qed simp

definition columns_kept :: "database \<Rightarrow> database \<Rightarrow> bool" where
  "columns_kept db db' \<longleftrightarrow>
     (\<forall>r t. db_tables db r = Some t \<longrightarrow> (\<exists>t'. db_tables db' r = Some t' \<and>
        (\<forall>c \<in> set (tb_columns t). \<exists>c' \<in> set (tb_columns t'). dc_name c' = dc_name c \<and> dc_type c' = dc_type c \<and> (dc_nullable c' \<longrightarrow> dc_nullable c))))"

lemma columns_kept_refl [simp]: "columns_kept db db" by (auto simp: columns_kept_def)

lemma columns_kept_trans: "columns_kept a b \<Longrightarrow> columns_kept b c \<Longrightarrow> columns_kept a c"
  unfolding columns_kept_def by (metis (no_types, lifting))

lemma retains_columns: "retains db db' \<Longrightarrow> columns_kept db db'"
  unfolding columns_kept_def by (fastforce elim!: retainsE)

lemma each_kept:
  assumes "\<And>x db db'. f x db = Inr db' \<Longrightarrow> columns_kept db db'"
  shows "each f xs db = Inr db' \<Longrightarrow> columns_kept db db'"
proof (induction xs arbitrary: db)
  case (Cons x xs)
  then obtain v where "f x db = Inr v" and "each f xs v = Inr db'" by (auto simp: andthen_Inr_iff)
  then show ?case using columns_kept_trans assms Cons.IH by blast
qed simp

lemma fill_dataset_same: "fill_dataset written r db = Inr db' \<Longrightarrow> db' = db"
  by (auto simp: fill_dataset_def andthen_Inr_iff)

lemma drop_index_kept: "columns_kept db (drop_index n db)"
  by (auto simp: columns_kept_def drop_index_def)

lemma drop_uniques_kept: "columns_kept db (drop_uniques P r db)"
  by (auto simp: columns_kept_def drop_uniques_def)

lemma mapped_kept:
  assumes "\<And>c. dc_name (f c) = dc_name c \<and> dc_type (f c) = dc_type c \<and> (dc_nullable (f c) \<longrightarrow> dc_nullable c)" and "db_tables db r = Some t"
  shows "columns_kept db (db\<lparr>db_tables := (db_tables db)(r \<mapsto> t\<lparr>tb_columns := map f (tb_columns t)\<rparr>)\<rparr>)"
  using assms by (auto simp: columns_kept_def)

lemma set_not_null_kept:
  assumes "set_not_null orphans r n db = Inr db'"
  shows "columns_kept db db'"
proof -
  obtain t where "db_tables db r = Some t" and "db' = db\<lparr>db_tables := (db_tables db)(r \<mapsto>
      t\<lparr>tb_columns := map (\<lambda>c. if dc_name c = n then c\<lparr>dc_nullable := False\<rparr> else c) (tb_columns t)\<rparr>)\<rparr>"
    using assms by (auto simp: set_not_null_def andthen_Inr_iff with_columns_def split: if_splits option.splits)
  then show ?thesis by (auto intro!: mapped_kept split: if_splits)
qed

lemma add_dataset_column_kept: "add_dataset_column r db = Inr db' \<Longrightarrow> columns_kept db db'"
  by (auto simp: add_dataset_column_def andthen_Inr_iff split: option.splits if_splits dest!: add_column_keeps intro: retains_columns)

lemma require_dataset_kept: "require_dataset orphans x db = Inr db' \<Longrightarrow> columns_kept db db'"
  by (cases x) (auto simp: require_dataset_def andthen_Inr_iff split: if_splits
      dest!: fill_dataset_same add_dataset_column_kept set_not_null_kept intro: columns_kept_trans)

lemma run_fixup_kept:
  assumes "run_fixup orphans name db = Inr db'"
  shows "columns_kept db db'"
proof -
  have backfill: "columns_kept db db'" if "backfill_dataset_ids db = Inr db'"
    using that unfolding backfill_dataset_ids_def by (rule each_kept [rotated]) (auto dest!: fill_dataset_same)
  have locks: "columns_kept db db'" if "per_dataset_locks db = Inr db'"
    using that columns_kept_trans [OF columns_kept_trans [OF drop_index_kept drop_index_kept] drop_uniques_kept] by (simp add: per_dataset_locks_def) blast
  have dropped: "columns_kept d (fold (\<lambda>(relation, cols). drop_unique_on relation cols) us d)" for us d
  proof (induction us arbitrary: d)
    case (Cons u us)
    show ?case using columns_kept_trans [OF drop_uniques_kept Cons.IH] by (cases u) (simp add: drop_unique_on_def)
  qed simp
  have required: "columns_kept db db'" if run: "dataset_id_required orphans db = Inr db'"
  proof -
    obtain d where d: "each (require_dataset orphans) DATASET_SCOPED db = Inr d"
      and db': "db' = fold (\<lambda>(relation, cols). drop_unique_on relation cols) SUPERSEDED_ORG_UNIQUES d"
      using run by (auto simp: dataset_id_required_def andthen_Inr_iff)
    have "columns_kept db d" using d by (rule each_kept [rotated]) (auto dest: require_dataset_kept)
    then show ?thesis using dropped columns_kept_trans unfolding db' by blast
  qed
  show ?thesis using assms backfill locks required by (auto simp: run_fixup_def Let_def split: if_splits sum.splits)
qed

lemma apply_each_kept: "columns_kept (mg_db st) (mg_db (snd (apply_each orphans hist current fs st)))"
proof (induction fs arbitrary: st)
  case (Cons f fs)
  obtain name ph kind where f: "f = (name, ph, kind)" by (cases f)
  have "columns_kept (mg_db st) (mg_db (snd (apply_each orphans hist current fs (st\<lparr>mg_db := db, mg_fixups := mg_fixups st @ [name]\<rparr>))))"
    if "run_fixup orphans name (mg_db st) = Inr db" for db
    using columns_kept_trans [OF run_fixup_kept [OF that]] Cons.IH [of "st\<lparr>mg_db := db, mg_fixups := mg_fixups st @ [name]\<rparr>"] by simp
  then show ?case unfolding f using Cons.IH [of st] by (auto split: option.splits sum.splits)
qed simp

lemma apply_fixups_kept: "columns_kept (mg_db st) (mg_db (snd (apply_fixups orphans current ph st)))"
  by (simp add: apply_fixups_def apply_each_kept)

lemma reconcile_kept: "columns_kept (mg_db st) (mg_db (snd (reconcile_postgres tg catalog now ids st)))"
  by (auto simp: reconcile_postgres_def Let_def split: sum.splits dest!: execute_all_keeps intro: retains_columns)

lemma ensure_schema_kept: "columns_kept (mg_db st) (mg_db (snd (ensure_schema tg catalog orphans now ids st)))"
proof (cases "replay (tl_server tg) (postgres_baseline catalog) (mg_db st)")
  case (Inl e)
  then show ?thesis by (simp add: ensure_schema_def)
next
  case (Inr x)
  then obtain db1 deferred where x: "replay (tl_server tg) (postgres_baseline catalog) (mg_db st) = Inr (db1, deferred)" by (cases x) simp
  let ?current = "catalog_hash (tl_sha256 tg) catalog Postgres"
  obtain r2 st2 where 2: "apply_fixups orphans ?current BeforeReconcile (st\<lparr>mg_db := db1\<rparr>) = (r2, st2)" by fastforce
  obtain r3 st3 where 3: "reconcile_postgres tg catalog now ids st2 = (r3, st3)" by fastforce
  have k1: "columns_kept (mg_db st) db1" using replay_keeps [OF x] by (rule retains_columns)
  have k2: "columns_kept (mg_db st) (mg_db st2)" using columns_kept_trans [OF k1] apply_fixups_kept [of "st\<lparr>mg_db := db1\<rparr>" orphans ?current BeforeReconcile] 2 by simp
  have k3: "columns_kept (mg_db st) (mg_db st3)" using columns_kept_trans [OF k2] reconcile_kept [of st2 tg catalog now ids] 3 by simp
  have "columns_kept (mg_db st) (mg_db (snd (apply_fixups orphans ?current AfterReconcile (st3\<lparr>mg_db := db4\<rparr>))))"
    if "execute_all (tl_server tg) Postgres deferred (mg_db st3) = Inr db4" for db4
    using columns_kept_trans [OF columns_kept_trans [OF k3 retains_columns [OF execute_all_keeps [OF that]]]] apply_fixups_kept [of "st3\<lparr>mg_db := db4\<rparr>"] by simp
  then show ?thesis using x 2 3 k2 k3 by (auto simp: ensure_schema_def Let_def split: sum.splits)
qed

text \<open>C21: whatever the outcome of \<open>er-server migrate\<close> and of a boot, no table and no column of the control database is dropped or retyped:
  every column that was there is still there under its name and with its type, at most tightened to NOT NULL.\<close>

theorem migrate_drops_no_column: "columns_kept (mg_db st) (mg_db (snd (migrate tg catalog orphans now ids args st)))"
  using ensure_schema_kept [of st tg catalog orphans now ids] by (auto simp: migrate_def Let_def split: sum.splits prod.splits)

section \<open>The gate\<close>


section \<open>Fixups run once, contracts after their expand release\<close>

lemma apply_each_recorded:
  assumes "apply_each orphans hist current fs st = (Inr (), st')"
  shows "fst ` set fs \<subseteq> set (mg_fixups st')" "set (mg_fixups st) \<subseteq> set (mg_fixups st')" "mg_ledger st' = mg_ledger st"
  using assms
proof (induction fs arbitrary: st)
  case (Cons f fs)
  obtain name ph kind where f: "f = (name, ph, kind)" by (cases f)
  have run: "\<exists>st1. apply_each orphans hist current fs st1 = (Inr (), st') \<and> name \<in> set (mg_fixups st1) \<and> set (mg_fixups st) \<subseteq> set (mg_fixups st1) \<and> mg_ledger st1 = mg_ledger st"
    if "apply_each orphans hist current (f # fs) st = (Inr (), st')" for st
    using that unfolding f by (cases "name \<in> set (mg_fixups st)") (auto split: option.splits sum.splits)
  {
    case 1
    then obtain st1 where "apply_each orphans hist current fs st1 = (Inr (), st')" "name \<in> set (mg_fixups st1)" using run by blast
    then show ?case using Cons.IH(1,2) [of st1] by (auto simp: f)
  next
    case 2
    then show ?case using run Cons.IH(2) by (meson subset_trans)
  next
    case 3
    then show ?case using run Cons.IH(3) by metis
  }
qed simp_all

lemma apply_each_skips: "fst ` set fs \<subseteq> set (mg_fixups st) \<Longrightarrow> apply_each orphans hist current fs st = (Inr (), st)"
  by (induction fs) auto

text \<open>Fixups run once. When the fixups of a phase have been applied, each is recorded by its name, and applying the phase again, with
  whatever catalog and data, succeeds without touching the store.\<close>

lemma fixups_run_once:
  assumes "apply_fixups orphans current ph st = (Inr (), st')"
  shows "(\<forall>(name, p, kind) \<in> set FIXUPS. p = ph \<longrightarrow> name \<in> set (mg_fixups st')) \<and> (\<forall>orphans' current'. apply_fixups orphans' current' ph st' = (Inr (), st'))"
proof -
  let ?fs = "filter (\<lambda>(_, p, _). p = ph) FIXUPS"
  have table: "db_tables (mg_db st) ledger_table \<noteq> None" and run: "apply_each orphans (map mr_hash (ledger_history (mg_ledger st))) current ?fs st = (Inr (), st')"
    using assms by (auto simp: apply_fixups_def split: if_splits)
  have names: "fst ` set ?fs \<subseteq> set (mg_fixups st')" by (rule apply_each_recorded(1) [OF run])
  have "columns_kept (mg_db st) (mg_db st')" using apply_fixups_kept [of st orphans current ph] assms by simp
  then have "db_tables (mg_db st') ledger_table \<noteq> None" using table unfolding columns_kept_def by blast
  then show ?thesis using names apply_each_skips [OF names] by (force simp: apply_fixups_def)
qed

definition sample_ledger_row :: "string \<Rightarrow> migration_row" where
  "sample_ledger_row hash = \<lparr>mr_id = ''m'', mr_created = 3, mr_hash = hash, mr_kind = ''verified'', mr_relation = None, mr_statement = None, mr_applied_by = ''er-server'', mr_snapshot = None\<rparr>"

text \<open>A store with the dataset-scoped tables and the tables the fixups read.\<close>

definition sample_scoped :: "string list \<Rightarrow> managed" where
  "sample_scoped hashes = \<lparr>mg_db = \<lparr>db_tables = (\<lambda>r. if r \<in> set ([''datasets'', ledger_table] @ map fst DATASET_SCOPED)
       then Some \<lparr>tb_columns = map (\<lambda>n. \<lparr>dc_name = n, dc_type = ''text'', dc_nullable = True\<rparr>) [''id'', ''org_id'', ''name'', ''updated_at''], tb_keys = []\<rparr> else None),
     db_indexes = {''jobs_one_active_per_org''}, db_history_function = True\<rparr>, mg_ledger = map sample_ledger_row hashes, mg_fixups = []\<rparr>"

lemma sample_fixups_run: "fst (apply_fixups (\<lambda>_. False) ''h1'' BeforeReconcile (sample_scoped [''h1''])) = Inr ()"
  by code_simp

lemma fixups_run_once_witness:
  "\<exists>st'. apply_fixups (\<lambda>_. False) ''h1'' BeforeReconcile (sample_scoped [''h1'']) = (Inr (), st')
     \<and> (\<forall>(name, p, kind) \<in> set FIXUPS. p = BeforeReconcile \<longrightarrow> name \<in> set (mg_fixups st'))
     \<and> (\<forall>orphans' current'. apply_fixups orphans' current' BeforeReconcile st' = (Inr (), st'))"
proof -
  obtain st' where run: "apply_fixups (\<lambda>_. False) ''h1'' BeforeReconcile (sample_scoped [''h1'']) = (Inr (), st')"
    using sample_fixups_run by (cases "apply_fixups (\<lambda>_. False) ''h1'' BeforeReconcile (sample_scoped [''h1''])") auto
  from fixups_run_once [OF this] run show ?thesis by blast
qed

lemma run_fixup_no_contract: "run_fixup orphans name db \<noteq> Inl (ContractNotReady n a)"
  by (auto simp: run_fixup_def Let_def split: sum.splits)

text \<open>Without a contract that is not allowed, no fixup is refused.\<close>

lemma apply_each_no_contract:
  assumes "\<forall>(name, p, kind) \<in> set fs. case kind of Contract after \<Rightarrow> contract_allowed after hist current | _ \<Rightarrow> True"
  shows "fst (apply_each orphans hist current fs st) \<noteq> Inl (ContractNotReady n a)"
  using assms
proof (induction fs arbitrary: st)
  case (Cons f fs)
  obtain name ph kind where f: "f = (name, ph, kind)" by (cases f)
  have "(case kind of Contract after \<Rightarrow> if contract_allowed after hist current then None else Some after | _ \<Rightarrow> None) = None"
    using Cons.prems by (auto simp: f split: fixup_kind.splits)
  then show ?case using Cons run_fixup_no_contract by (auto simp: f split: sum.splits)
qed simp

lemma phase_fixups:
  "filter (\<lambda>(_, p, _). p = BeforeReconcile) FIXUPS =
     [(''0004_dataset_id_required'', BeforeReconcile, Contract ''bbb067f8f6e59817fc972f51e6aa03379b9632bc268f189a7b0377fb06d00f87'')]"
  "\<forall>(name, p, kind) \<in> set (filter (\<lambda>(_, p, _). p = AfterReconcile) FIXUPS). kind = SafeFixup \<or> kind = ContractUngated"
  by (simp_all add: FIXUPS_def)

lemma after_no_contract: "fst (apply_fixups orphans current AfterReconcile st) \<noteq> Inl (ContractNotReady n a)"
proof -
  have "\<forall>(name, p, kind) \<in> set (filter (\<lambda>(_, p, _). p = AfterReconcile) FIXUPS). case kind of Contract after \<Rightarrow> contract_allowed after hist current | _ \<Rightarrow> True" for hist
    by (simp add: FIXUPS_def)
  from apply_each_no_contract [OF this] show ?thesis by (auto simp: apply_fixups_def)
qed


abbreviation sample_outdated :: managed where
  "sample_outdated \<equiv> sample_store\<lparr>mg_ledger := [sample_ledger_row ''older'']\<rparr>"

lemma sample_replays:
  "case replay (tl_server sample_tools) (postgres_baseline sample_catalog) (mg_db sample_outdated) of Inl _ \<Rightarrow> False | Inr (db1, _) \<Rightarrow> db_tables db1 ledger_table \<noteq> None"
  by code_simp

lemma sample_version: "catalog_hash (tl_sha256 sample_tools) sample_catalog Postgres \<noteq> ''older''"
  by code_simp


section \<open>The lakes\<close>

lemma claims_filter: "distinct (map fst (relation_claims es)) \<Longrightarrow> distinct (map fst (relation_claims (filter P es)))"
proof (induction es)
  case (Cons e es)
  have sub: "fst ` set (relation_claims (filter P es)) \<subseteq> fst ` set (relation_claims es)" by (auto simp: relation_claims_def)
  have split: "map fst (relation_claims (e # xs)) = map fst (relation_claims [e]) @ map fst (relation_claims xs)" for xs by (simp add: relation_claims_def)
  have "distinct (map fst (relation_claims [e]))" "distinct (map fst (relation_claims es))" "fst ` set (relation_claims [e]) \<inter> fst ` set (relation_claims es) = {}"
    using Cons.prems unfolding split [of es] by (simp_all only: distinct_append set_map)
  then have "distinct (map fst (relation_claims (e # filter P es)))" unfolding split [of "filter P es"] distinct_append set_map using Cons.IH sub by blast
  then show ?case using Cons.IH \<open>distinct (map fst (relation_claims es))\<close> by simp
qed (simp add: relation_claims_def)

text \<open>Narrowing a loaded catalog never fails.\<close>

lemma catalog_without_loaded:
  assumes "from_entities es = Inr catalog"
  shows "catalog_without catalog s skip = Inr (filter (\<lambda>e. en_relation e \<notin> skip) (for_store s catalog))"
  using assms claims_filter [of catalog] by (auto simp: catalog_without_def from_entities_iff for_store_def)

lemma for_store_filter [simp]: "for_store s (filter P (for_store s catalog)) = filter P (for_store s catalog)"
  by (auto simp: for_store_def intro!: filter_cong)


text \<open>A lake whose batches lack a list column, and one whose ledger entity names a natural key it has no column for.\<close>

definition sample_lake_catalog :: "column_type \<Rightarrow> entity_spec list" where
  "sample_lake_catalog ty =
     [sample_entity Duckdb ''batches'' False [sample_column ''id'' Varchar False None, sample_column ''source'' Varchar True None, sample_column ''tags'' ty True None] [],
      sample_entity Duckdb ''schema_migrations'' False [sample_column ''id'' Varchar False None] [],
      sample_entity Duckdb ''int_std_records'' False [sample_column ''id'' Varchar False None] []]"

definition sample_lake :: managed where
  "sample_lake = \<lparr>mg_db = \<lparr>db_tables = [''batches'' \<mapsto> \<lparr>tb_columns =
       [\<lparr>dc_name = ''id'', dc_type = ''VARCHAR'', dc_nullable = False\<rparr>, \<lparr>dc_name = ''source'', dc_type = ''VARCHAR'', dc_nullable = True\<rparr>], tb_keys = []\<rparr>],
     db_indexes = {}, db_history_function = False\<rparr>, mg_ledger = [], mg_fixups = []\<rparr>"

definition sample_stage :: "string list" where "sample_stage = [''int_std_records'']"

lemma sample_lake_loads: "from_entities (sample_lake_catalog Date) = Inr (sample_lake_catalog Date)" by code_simp

lemma sample_lake_fits:
  "lake_fits (tl_server sample_tools) (filter (\<lambda>e. en_relation e \<notin> set sample_stage) (for_store Duckdb (sample_lake_catalog Date))) (mg_db sample_lake)"
  by code_simp

lemma sample_lake_unbroken:
  "mp_breaking (plan_migration (filter (\<lambda>e. en_relation e \<notin> set sample_stage) (for_store Duckdb (sample_lake_catalog Date))) Duckdb
     (read_columns Duckdb (lake_relations sample_stage (sample_lake_catalog Date)) (mg_db sample_lake))) = []"
  by code_simp


text \<open>
  With a parser that does not take the logical spelling of the list type, a lake that lacks a list column can not be reconciled: the
  statement is a syntax error, although a fresh lake gets the column in its \<open>CREATE TABLE\<close>.
\<close>

lemma list_column_not_added:
  "fst (reconcile_lake sample_tools sample_stage (sample_lake_catalog ListVarchar) 7 sample_ids (\<lambda>_. None) sample_lake) = Inl (ReconcileDuckdb DdlSyntax)"
  "isl (fst (reconcile_lake sample_tools sample_stage (sample_lake_catalog ListVarchar) 7 sample_ids (\<lambda>_. None)
     (sample_lake\<lparr>mg_db := (mg_db sample_lake)\<lparr>db_tables := Map.empty\<rparr>\<rparr>))) = False"
  by code_simp+

end
