(* ===== verification/TenantSweep.thy ===== *)
theory TenantSweep
  imports Tenancy Migrate "HOL-Library.Multiset"
begin

text \<open>
  Schema reconciliation of the tenants' lakes (\<open>er-server/src/schema.rs\<close> and the \<open>migrate-tenants\<close> verb of \<open>main.rs\<close>): reconciling the
  lake of an environment, the recorded position of each lake, the sweep that enqueues one job per lake, and the report the deploy acts on.
  Opening a lake and the texts of database errors are parameters; the polls before the deadline are given as what each of them reads.
\<close>

section \<open>Reconciling the lake of an environment\<close>

definition chain :: "string list \<Rightarrow> string" where
  "chain messages = join_with '': '' messages"

definition env_str :: "json \<Rightarrow> string \<Rightarrow> string option" where
  "env_str env key = Option.bind (json_get env key) as_str"

record 'l lake_call =
  lk_open :: "string \<Rightarrow> string \<Rightarrow> string option \<Rightarrow> string + 'l"
  lk_state :: "'l \<Rightarrow> managed"
  lk_texts :: "reconcile_error \<Rightarrow> string list"
  lk_tools :: tooling
  lk_stage_owned :: "string list"
  lk_catalog :: "entity_spec list"
  lk_now :: nat
  lk_ids :: "nat \<Rightarrow> string"
  lk_snapshot :: "database \<Rightarrow> int option"

definition open_lake_env :: "'l lake_call \<Rightarrow> json \<Rightarrow> string + 'l" where
  "open_lake_env k env =
     (case env_str env ''ER_LAKE_CATALOG'' of
        None \<Rightarrow> Inl ''org env missing ER_LAKE_CATALOG''
      | Some catalog \<Rightarrow>
          (case env_str env ''ER_LAKE_DATA_PATH'' of
             None \<Rightarrow> Inl ''org env missing ER_LAKE_DATA_PATH''
           | Some data_path \<Rightarrow>
               (let schema = (case env_str env ''ER_LAKE_CATALOG_SCHEMA'' of Some s \<Rightarrow> if s = [] then None else Some s | None \<Rightarrow> None) in
                case lk_open k catalog data_path schema of Inl e \<Rightarrow> Inl (''open lake: '' @ e) | Inr l \<Rightarrow> Inr l)))"

definition reconcile_message :: "'l lake_call \<Rightarrow> reconcile_error \<Rightarrow> string" where
  "reconcile_message k e =
     (case e of
        BreakingDiffs items \<Rightarrow> breaking_message items
      | ReconcilePostgres _ \<Rightarrow> ''lake schema: '' @ chain (''reconciling the control database'' # lk_texts k e)
      | ReconcileDuckdb _ \<Rightarrow> ''lake schema: '' @ chain (''reconciling the lake'' # lk_texts k e)
      | ReconcileSpec _ \<Rightarrow> ''lake schema: '' @ chain ((''narrowing the catalog to the lake'' @ [CHR 0x27] @ ''s DDL-owned relations'') # lk_texts k e))"

definition reconcile_lake_env :: "'l lake_call \<Rightarrow> json \<Rightarrow> string + reconciled" where
  "reconcile_lake_env k env =
     (case open_lake_env k env of
        Inl e \<Rightarrow> Inl e
      | Inr l \<Rightarrow>
          (case fst (reconcile_lake (lk_tools k) (lk_stage_owned k) (lk_catalog k) (lk_now k) (lk_ids k) (lk_snapshot k) (lk_state k l)) of
             Inl e \<Rightarrow> Inl (reconcile_message k e)
           | Inr r \<Rightarrow> Inr r))"

definition lake_catalog_hash :: "'l lake_call \<Rightarrow> string" where
  "lake_catalog_hash k = catalog_hash (tl_sha256 (lk_tools k)) (lk_catalog k) Duckdb"

definition ERR_SCHEMA_BREAKING :: string where "ERR_SCHEMA_BREAKING = ''ERR_SCHEMA_BREAKING''"

definition tenant_state_of :: "'l lake_call \<Rightarrow> string + reconciled \<Rightarrow> string \<times> string \<times> string" where
  "tenant_state_of k outcome =
     (case outcome of
        Inr r \<Rightarrow> (reconciled_status r, rc_catalog_hash r, reconciled_detail r)
      | Inl m \<Rightarrow> if take (length ERR_SCHEMA_BREAKING) m = ERR_SCHEMA_BREAKING then (''breaking'', lake_catalog_hash k, m)
                else (''error'', lake_catalog_hash k, m))"

section \<open>The recorded positions\<close>

record lake_position =
  po_id :: string
  po_org_id :: string
  po_dataset_id :: "string option"
  po_catalog_hash :: string
  po_status :: string
  po_detail :: "string option"
  po_checked_at :: int

text \<open>The two upserts, each on its partial unique index: one row per dataset, and one row per organisation without a dataset.\<close>

definition record_tenant_state :: "int \<Rightarrow> string \<Rightarrow> string \<Rightarrow> string option \<Rightarrow> string \<Rightarrow> string \<Rightarrow> string option \<Rightarrow> lake_position list \<Rightarrow> lake_position list" where
  "record_tenant_state now new_id org_id dataset_id status hash info rows =
     (let hit = (\<lambda>r. case dataset_id of Some d \<Rightarrow> po_dataset_id r = Some d | None \<Rightarrow> po_dataset_id r = None \<and> po_org_id r = org_id) in
      if list_ex hit rows
      then map (\<lambda>r. if hit r then r\<lparr>po_catalog_hash := hash, po_status := status, po_detail := info, po_checked_at := now\<rparr> else r) rows
      else rows @ [\<lparr>po_id = new_id, po_org_id = org_id, po_dataset_id = dataset_id, po_catalog_hash = hash, po_status = status, po_detail = info, po_checked_at = now\<rparr>])"

section \<open>The sweep\<close>

definition LAKE_MIGRATE_KIND :: string where "LAKE_MIGRATE_KIND = ''lake_migrate''"

definition LAKE_MIGRATE_PRIORITY :: int where "LAKE_MIGRATE_PRIORITY = 100"

text \<open>The lakes the sweep visits: label, organisation and dataset.\<close>

definition org_targets :: "registry \<Rightarrow> org_row \<Rightarrow> (string \<times> string \<times> string option) list" where
  "org_targets db g =
     (if og_state g \<noteq> Active then []
      else let ds = list_datasets (og_id g) db in
        if ds = [] then [(og_name g, og_id g, None)]
        else map (\<lambda>d. (og_name g @ ''/'' @ dt_name d, og_id g, Some (dt_id d))) (filter (\<lambda>d. dt_state d = Active) ds))"

fun enqueue_targets :: "int \<Rightarrow> (nat \<Rightarrow> string) \<Rightarrow> nat \<Rightarrow> (string \<times> string \<times> string option) list \<Rightarrow> job list \<Rightarrow> (sql_error + (string \<times> job) list) outcome \<times> job list" where
  "enqueue_targets now ids n [] js = (Ret (Inr []), js)"
| "enqueue_targets now ids n ((label, org_id, dataset_id) # rest) js =
     (case enqueue now (ids n) org_id dataset_id LAKE_MIGRATE_KIND LAKE_MIGRATE_PRIORITY None None (Some ''er-server migrate-tenants'') None js of
        Panic \<Rightarrow> (Panic, js)
      | Ret (Inl e) \<Rightarrow> (Ret (Inl e), js)
      | Ret (Inr (j, js1)) \<Rightarrow>
          (case enqueue_targets now ids (Suc n) rest js1 of
             (Ret (Inr out), js2) \<Rightarrow> (Ret (Inr ((label, j) # out)), js2)
           | other \<Rightarrow> other))"

definition enqueue_tenant_migrations :: "int \<Rightarrow> (nat \<Rightarrow> string) \<Rightarrow> registry \<Rightarrow> (sql_error + (string \<times> job) list) outcome \<times> registry" where
  "enqueue_tenant_migrations now ids db =
     (case enqueue_targets now ids 0 (concat (map (org_targets db) (sort_key og_name (orgs_of db)))) (jobs_of db) of
        (r, js) \<Rightarrow> (r, put_job_rows js db))"

section \<open>Waiting and the report\<close>

record tenant_report =
  tr_org :: string
  tr_job_id :: string
  tr_outcome :: string
  tr_detail :: string

definition report_failed :: "tenant_report \<Rightarrow> bool" where
  "report_failed r \<longleftrightarrow> tr_outcome r \<noteq> ''current'' \<and> tr_outcome r \<noteq> ''migrated''"

definition ended :: "job \<Rightarrow> bool" where
  "ended j \<longleftrightarrow> jb_state j \<in> {JobSucceeded, JobFailed, JobCanceled}"

fun poll :: "ledger \<Rightarrow> (string \<times> job) list \<Rightarrow> (string \<times> job) list \<times> (string \<times> job) list" where
  "poll db [] = ([], [])"
| "poll db ((org, j) # rest) =
     (case poll db rest of (finished, still) \<Rightarrow>
        (case get_job (jb_org_id j) (jb_id j) db of
           Some j' \<Rightarrow> if ended j' then ((org, j') # finished, still) else (finished, (org, j') # still)
         | None \<Rightarrow> ((org, j) # finished, still)))"

fun wait_polls :: "ledger list \<Rightarrow> (string \<times> job) list \<Rightarrow> (string \<times> job) list \<Rightarrow> (string \<times> job) list \<times> (string \<times> job) list" where
  "wait_polls [] watched finished = (finished, watched)"
| "wait_polls (db # later) watched finished =
     (if watched = [] then (finished, [])
      else case poll db watched of (done_now, still) \<Rightarrow> wait_polls later still (finished @ done_now))"

definition positions_of :: "lake_position list \<Rightarrow> (string, string \<times> string option) bmap" where
  "positions_of rows = bmap_collect (map (\<lambda>p. (case po_dataset_id p of Some d \<Rightarrow> d | None \<Rightarrow> po_org_id p, (po_status p, po_detail p))) (sort_key po_org_id rows))"

definition lake_key :: "job \<Rightarrow> string" where
  "lake_key j = (case jb_dataset_id j of Some d \<Rightarrow> d | None \<Rightarrow> jb_org_id j)"

definition or_else :: "string option \<Rightarrow> string \<Rightarrow> string" where
  "or_else x d = (case x of None \<Rightarrow> d | Some s \<Rightarrow> s)"

definition finished_line :: "lake_position list \<Rightarrow> string \<times> job \<Rightarrow> tenant_report" where
  "finished_line rows = (\<lambda>(org, j).
     (case map_of (positions_of rows) (lake_key j) of
        Some (status, info) \<Rightarrow>
          \<lparr>tr_org = org, tr_job_id = jb_id j, tr_outcome = status,
           tr_detail = (if jb_state j = JobSucceeded then or_else info [] else or_else (case info of None \<Rightarrow> jb_error_detail j | Some s \<Rightarrow> Some s) [])\<rparr>
      | None \<Rightarrow> \<lparr>tr_org = org, tr_job_id = jb_id j, tr_outcome = ''error'', tr_detail = or_else (jb_error_detail j) (''job '' @ job_state_str (jb_state j))\<rparr>))"

definition timeout_line :: "string \<times> job \<Rightarrow> tenant_report" where
  "timeout_line = (\<lambda>(org, j). \<lparr>tr_org = org, tr_job_id = jb_id j, tr_outcome = ''timeout'', tr_detail = ''job still '' @ job_state_str (jb_state j) @ '' at the deadline''\<rparr>)"

definition wait_for_tenant_migrations :: "ledger list \<Rightarrow> lake_position list \<Rightarrow> (string \<times> job) list \<Rightarrow> tenant_report list" where
  "wait_for_tenant_migrations polls rows js =
     (case wait_polls polls js [] of (finished, watched) \<Rightarrow> sort_key tr_org (map (finished_line rows) finished @ map timeout_line watched))"

definition pad :: "nat \<Rightarrow> string \<Rightarrow> string" where
  "pad width s = s @ replicate (width - char_count s) CHR '' ''"

definition render_report :: "tenant_report list \<Rightarrow> string" where
  "render_report report =
     (let width = max 6 (fold max (map (\<lambda>r. length (tr_org r)) report) 0); line = (\<lambda>a b c. pad width a @ ''  '' @ pad 9 b @ ''  '' @ c @ nl) in
      line ''tenant'' ''outcome'' ''detail'' @ concat (map (\<lambda>r. line (tr_org r) (tr_outcome r) (tr_detail r)) report))"

definition parse_u64 :: "string \<Rightarrow> nat option" where
  "parse_u64 s =
     (case (case s of [] \<Rightarrow> None | c # cs \<Rightarrow> if c = CHR ''+'' then parse_unsigned cs else parse_unsigned s) of
        None \<Rightarrow> None | Some n \<Rightarrow> if n < 2 ^ 64 then Some (nat n) else None)"

fun parse_sweep_args :: "nat \<Rightarrow> string list \<Rightarrow> string + nat" where
  "parse_sweep_args secs [] = Inr secs"
| "parse_sweep_args secs (a # rest) =
     (if a = ''--timeout-secs''
      then case rest of
             [] \<Rightarrow> Inl ''--timeout-secs needs a value''
           | v # rest' \<Rightarrow> (case parse_u64 v of None \<Rightarrow> Inl ''--timeout-secs must be a whole number of seconds'' | Some n \<Rightarrow> parse_sweep_args n rest')
      else Inl (''unknown argument '' @ debug_str a))"

text \<open>The end of the verb: the deploy hook fails when a line of the report does.\<close>

definition sweep_result :: "tenant_report list \<Rightarrow> string + unit" where
  "sweep_result report =
     (let n = length (filter report_failed report) in
      if 0 < n then Inl (show_nat n @ '' tenant(s) did not reconcile'') else Inr ())"

section \<open>Positions\<close>

text \<open>
  The position of a lake is \<open>breaking\<close> exactly when the reconciler refused its differences: the prefix test on the failure text
  never confuses another failure with it, whatever the opener or the database reports.
\<close>

lemma breaking_classified:
  "fst (tenant_state_of k (reconcile_lake_env k env)) = ''breaking'' \<longleftrightarrow>
     (\<exists>l items. open_lake_env k env = Inr l \<and>
        fst (reconcile_lake (lk_tools k) (lk_stage_owned k) (lk_catalog k) (lk_now k) (lk_ids k) (lk_snapshot k) (lk_state k l)) = Inl (BreakingDiffs items))"
proof (cases "open_lake_env k env")
  case (Inl m)
  then have "take (length ERR_SCHEMA_BREAKING) m \<noteq> ERR_SCHEMA_BREAKING"
    by (auto simp: open_lake_env_def ERR_SCHEMA_BREAKING_def Let_def split: option.splits sum.splits if_splits)
  then show ?thesis using Inl by (simp add: reconcile_lake_env_def tenant_state_of_def)
next
  case (Inr l)
  let ?r = "fst (reconcile_lake (lk_tools k) (lk_stage_owned k) (lk_catalog k) (lk_now k) (lk_ids k) (lk_snapshot k) (lk_state k l))"
  have tested: "take (length ERR_SCHEMA_BREAKING) (reconcile_message k e) = ERR_SCHEMA_BREAKING \<longleftrightarrow> (\<exists>items. e = BreakingDiffs items)" for e
    by (cases e) (simp_all add: reconcile_message_def breaking_message_def ERR_SCHEMA_BREAKING_def)
  show ?thesis using Inr tested
    by (cases ?r) (auto simp: reconcile_lake_env_def tenant_state_of_def reconciled_status_def)
qed

section \<open>What the sweep does\<close>

lemma jobs_ok_queued:
  assumes "jobs_ok js" and "jb_id row \<notin> jb_id ` set js" and "jb_idempotency_key row = None" and "jb_state row = JobQueued"
  shows "jobs_ok (js @ [row])"
  using assms by (simp add: jobs_ok_def active_job_def)

definition sweep_job :: "int \<Rightarrow> string \<Rightarrow> string \<times> string \<times> string option \<Rightarrow> job" where
  "sweep_job now i = (\<lambda>(label, org_id, dataset_id).
     new_job now i org_id dataset_id LAKE_MIGRATE_KIND LAKE_MIGRATE_PRIORITY None None None (Some ''er-server migrate-tenants'') None)"

lemma enqueue_queued:
  assumes "jobs_ok js" and "i \<notin> jb_id ` set js" and row_def: "row = new_job now i org_id dataset_id kind priority None None None by tc"
  shows "enqueue now i org_id dataset_id kind priority None None by tc js = Ret (Inr (row, js @ [row]))" "jobs_ok (js @ [row])"
proof -
  have "jb_idempotency_key row = None" "jb_id row = i" "jb_state row = JobQueued" by (simp_all add: row_def new_job_def)
  then have "\<not> list_ex (same_request row) js" and ok: "jobs_ok (js @ [row])"
    using jobs_ok_queued [OF assms(1), of row] assms(2) by (auto simp: same_request_def list_ex_iff)
  then show "enqueue now i org_id dataset_id kind priority None None by tc js = Ret (Inr (row, js @ [row]))" "jobs_ok (js @ [row])"
    by (simp_all add: enqueue_def enqueue_sql_def upsert_job_def row_def)
qed

lemma enqueue_targets_all:
  fixes now ids ts
  assumes "jobs_ok js" and "inj ids" and "\<forall>k. n \<le> k \<longrightarrow> ids k \<notin> jb_id ` set js"
  defines "out \<equiv> \<lambda>n. map (\<lambda>(k, t). (fst t, sweep_job now (ids k) t)) (enumerate n ts)"
  shows "enqueue_targets now ids n ts js = (Ret (Inr (out n)), js @ map snd (out n)) \<and> jobs_ok (js @ map snd (out n))"
  using assms(1,3) unfolding out_def
proof (induction ts arbitrary: n js)
  case (Cons t ts)
  obtain label org_id dataset_id where t: "t = (label, org_id, dataset_id)" by (cases t)
  define row where "row = sweep_job now (ids n) t"
  have row: "row = new_job now (ids n) org_id dataset_id LAKE_MIGRATE_KIND LAKE_MIGRATE_PRIORITY None None None (Some ''er-server migrate-tenants'') None"
    by (simp add: row_def sweep_job_def t)
  have id: "jb_id row = ids n" by (simp add: row new_job_def)
  note first = enqueue_queued [OF Cons.prems(1) _ row]
  have fresh: "\<forall>k. Suc n \<le> k \<longrightarrow> ids k \<notin> jb_id ` set (js @ [row])" using Cons.prems(2) assms(2) id by (auto simp: inj_eq)
  show ?case using first Cons.prems(2) Cons.IH [OF _ fresh] by (simp add: t row_def)
qed simp

lemma org_targets_iff:
  "(label, org, Some ds) \<in> set (org_targets db g) \<longleftrightarrow> og_state g = Active \<and> org = og_id g \<and>
     (\<exists>d \<in> set (datasets_of db). dt_org_id d = og_id g \<and> dt_id d = ds \<and> dt_state d = Active \<and> label = og_name g @ ''/'' @ dt_name d)"
proof (cases "list_datasets (og_id g) db = []")
  case True
  then have "\<forall>d \<in> set (datasets_of db). dt_org_id d \<noteq> og_id g" by (metis (mono_tags, lifting) empty_filter_conv length_0_conv length_sort list_datasets_def)
  then show ?thesis using True by (auto simp: org_targets_def)
next
  case False
  then show ?thesis by (auto simp: org_targets_def list_datasets_def)
qed

text \<open>The sweep enqueues one job per lake. With fresh ids it always succeeds: it appends one queued \<open>lake_migrate\<close> job for every active
  dataset of an active organisation, in the order of the names, one organisation-level job for an active organisation without a
  dataset, and none for anyone else; the constraints of the queue still hold.\<close>

lemma sweep_enqueues_each_lake:
  fixes db
  defines "targets \<equiv> concat (map (org_targets db) (sort_key og_name (orgs_of db)))"
  assumes "jobs_ok (jobs_of db)" and "inj ids" and "range ids \<inter> jb_id ` set (jobs_of db) = {}"
  shows "\<exists>out db'. enqueue_tenant_migrations now ids db = (Ret (Inr out), db')
     \<and> map (\<lambda>(label, j). (label, jb_org_id j, jb_dataset_id j)) out = targets
     \<and> (\<forall>(label, j) \<in> set out. jb_kind j = LAKE_MIGRATE_KIND \<and> jb_state j = JobQueued)
     \<and> jobs_of db' = jobs_of db @ map snd out \<and> jobs_ok (jobs_of db')
     \<and> (\<forall>org ds. (\<exists>label. (label, org, Some ds) \<in> set targets) \<longleftrightarrow>
          (\<exists>g \<in> set (orgs_of db). og_id g = org \<and> og_state g = Active \<and> (\<exists>d \<in> set (datasets_of db). dt_org_id d = org \<and> dt_id d = ds \<and> dt_state d = Active)))"
proof -
  define out where "out = map (\<lambda>(k, t). (fst t, sweep_job now (ids k) t)) (enumerate 0 targets)"
  have run: "enqueue_targets now ids 0 targets (jobs_of db) = (Ret (Inr out), jobs_of db @ map snd out) \<and> jobs_ok (jobs_of db @ map snd out)"
    unfolding out_def by (rule enqueue_targets_all [OF assms(2,3)]) (use assms(4) in blast)
  have "enqueue_tenant_migrations now ids db = (Ret (Inr out), put_job_rows (jobs_of db @ map snd out) db)"
    using run by (simp add: enqueue_tenant_migrations_def targets_def)
  moreover have "jobs_of (put_job_rows js db) = js" for js by (simp add: put_job_rows_def put_jobs_def)
  moreover have "map (\<lambda>(label, j). (label, jb_org_id j, jb_dataset_id j)) out = map snd (enumerate 0 targets)"
    unfolding out_def map_map by (rule map_cong) (auto simp: sweep_job_def new_job_def split: prod.splits)
  then have "map (\<lambda>(label, j). (label, jb_org_id j, jb_dataset_id j)) out = targets" by simp
  moreover have "\<forall>(label, j) \<in> set out. jb_kind j = LAKE_MIGRATE_KIND \<and> jb_state j = JobQueued"
    by (auto simp: out_def sweep_job_def new_job_def split: prod.splits)
  moreover have "(\<exists>label. (label, org, Some ds) \<in> set targets) \<longleftrightarrow>
     (\<exists>g \<in> set (orgs_of db). og_id g = org \<and> og_state g = Active \<and> (\<exists>d \<in> set (datasets_of db). dt_org_id d = org \<and> dt_id d = ds \<and> dt_state d = Active))" for org ds
    by (auto simp: targets_def org_targets_iff)
  ultimately show ?thesis using run by auto
qed

definition sweep_ids :: "nat \<Rightarrow> string" where
  "sweep_ids n = ''sweep-'' @ replicate n CHR ''x''"

lemma sweep_enqueues_each_lake_witness:
  "org_targets (sample_registry []) (hd (orgs_of (sample_registry []))) \<noteq> [] \<and>
   (\<exists>out db'. enqueue_tenant_migrations 100 sweep_ids (sample_registry []) = (Ret (Inr out), db') \<and> out \<noteq> [] \<and>
     (\<forall>(label, j) \<in> set out. jb_kind j = LAKE_MIGRATE_KIND \<and> jb_state j = JobQueued) \<and>
     jobs_of db' = jobs_of (sample_registry []) @ map snd out)"
proof
  show targets: "org_targets (sample_registry []) (hd (orgs_of (sample_registry []))) \<noteq> []" by code_simp
  have some: "concat (map (org_targets (sample_registry [])) (sort_key og_name (orgs_of (sample_registry [])))) \<noteq> []" by code_simp
  have ok: "jobs_ok (jobs_of (sample_registry []))" by code_simp
  have inj: "inj sweep_ids"
  proof (rule injI)
    fix m n assume "sweep_ids m = sweep_ids n"
    then show "m = n" by (simp add: sweep_ids_def)
  qed
  have fresh: "range sweep_ids \<inter> jb_id ` set (jobs_of (sample_registry [])) = {}" by (auto simp: sample_registry_def sweep_ids_def)
  obtain out db' where run: "enqueue_tenant_migrations 100 sweep_ids (sample_registry []) = (Ret (Inr out), db')"
    and same: "map (\<lambda>(label, j). (label, jb_org_id j, jb_dataset_id j)) out = concat (map (org_targets (sample_registry [])) (sort_key og_name (orgs_of (sample_registry []))))"
    and rest: "\<forall>(label, j) \<in> set out. jb_kind j = LAKE_MIGRATE_KIND \<and> jb_state j = JobQueued" "jobs_of db' = jobs_of (sample_registry []) @ map snd out"
    using sweep_enqueues_each_lake [OF ok inj fresh, of 100] by blast
  have "out \<noteq> []" using same some by auto
  with run rest show "\<exists>out db'. enqueue_tenant_migrations 100 sweep_ids (sample_registry []) = (Ret (Inr out), db') \<and> out \<noteq> [] \<and>
     (\<forall>(label, j) \<in> set out. jb_kind j = LAKE_MIGRATE_KIND \<and> jb_state j = JobQueued) \<and> jobs_of db' = jobs_of (sample_registry []) @ map snd out" by blast
qed

section \<open>What the report says\<close>

abbreviation tags :: "(string \<times> job) list \<Rightarrow> (string \<times> string) list" where
  "tags js \<equiv> map (\<lambda>(org, j). (org, jb_id j)) js"

lemma get_job_id: "get_job org i db = Some j \<Longrightarrow> jb_id j = i"
  by (auto simp: get_job_def find_Some_iff)

lemma poll_tags: "poll db js = (a, b) \<Longrightarrow> mset (tags a) + mset (tags b) = mset (tags js)"
proof (induction js arbitrary: a b)
  case (Cons x js)
  obtain org j where x: "x = (org, j)" by (cases x)
  obtain a' b' where "poll db js = (a', b')" by fastforce
  with Cons show ?case by (auto simp: x split: option.splits if_splits dest!: get_job_id)
qed simp

lemma wait_polls_tags: "wait_polls polls js acc = (a, b) \<Longrightarrow> mset (tags a) + mset (tags b) = mset (tags acc) + mset (tags js)"
proof (induction polls js acc rule: wait_polls.induct)
  case (2 db later js acc)
  then show ?case by (cases "js = []") (auto split: prod.splits dest!: poll_tags)
qed simp

lemma finished_line_failed:
  "report_failed (finished_line rows (org, j)) \<longleftrightarrow> (\<forall>status info. map_of (positions_of rows) (lake_key j) = Some (status, info) \<longrightarrow> status \<noteq> ''current'' \<and> status \<noteq> ''migrated'')"
  by (auto simp: finished_line_def report_failed_def split: option.splits)


definition settled_job :: job where
  "settled_job = (sweep_job 100 ''j1'' (''acme/main'', ''o1'', Some ''d1''))\<lparr>jb_state := JobSucceeded\<rparr>"


text \<open>A job that failed before it reconciled, over a lake whose position an earlier release recorded: the deploy passes.\<close>

definition stale_job :: job where
  "stale_job = (sweep_job 100 ''j1'' (''acme/main'', ''o1'', Some ''d1''))\<lparr>jb_state := JobFailed, jb_error_detail := Some ''dispatcher task panicked''\<rparr>"

definition stale_position :: lake_position where
  "stale_position = \<lparr>po_id = ''p1'', po_org_id = ''o1'', po_dataset_id = Some ''d1'', po_catalog_hash = ''older'', po_status = ''current'', po_detail = Some ''nothing pending'', po_checked_at = 1\<rparr>"

lemma stale_position_passes:
  "sweep_result (wait_for_tenant_migrations [\<lparr>tasks = [], jobs = [stale_job]\<rparr>] [stale_position] [(''acme/main'', sweep_job 100 ''j1'' (''acme/main'', ''o1'', Some ''d1''))]) = Inr ()"
  by code_simp

end
