(* ===== verification/Versions.thy ===== *)
theory Versions
  imports EntitySpec
begin

text \<open>
  The guard against configuration drift (\<open>er-versions/src/lib.rs\<close>): the fingerprint of a run, the decision whether an incremental run may
  proceed on the state the last successful run left, and the reason a run is accounted as a rebuild.
\<close>

section \<open>Fingerprints\<close>

record run_fingerprint =
  fp_config_hash :: string
  fp_model_version :: "string option"
  fp_std_version :: string
  fp_survivorship_version :: string
  fp_lexicon_hash :: "string option"

definition FINGERPRINT_FIELDS :: "string list" where
  "FINGERPRINT_FIELDS = [''config_hash'', ''model_version'', ''std_version'', ''survivorship_version'', ''lexicon_hash'']"

datatype versions_error = UnknownField string | UnknownMode string

definition fingerprint_value :: "run_fingerprint \<Rightarrow> string \<Rightarrow> versions_error + string option" where
  "fingerprint_value f field =
     (if field = ''config_hash'' then Inr (Some (fp_config_hash f))
      else if field = ''model_version'' then Inr (fp_model_version f)
      else if field = ''std_version'' then Inr (Some (fp_std_version f))
      else if field = ''survivorship_version'' then Inr (Some (fp_survivorship_version f))
      else if field = ''lexicon_hash'' then Inr (fp_lexicon_hash f)
      else Inl (UnknownField field))"

text \<open>The \<open>expect\<close> on a field of the table is a panic when the table names an unknown one.\<close>

definition field_value :: "run_fingerprint \<Rightarrow> string \<Rightarrow> string option outcome" where
  "field_value f field = (case fingerprint_value f field of Inr v \<Rightarrow> Ret v | Inl _ \<Rightarrow> Panic)"

definition UNSET_VALUE :: string where "UNSET_VALUE = ''(unset)''"

definition rendered_value :: "string option \<Rightarrow> string" where
  "rendered_value v = (case v of None \<Rightarrow> UNSET_VALUE | Some s \<Rightarrow> s)"

record field_drift =
  fd_field :: string
  fd_prior :: "string option"
  fd_current :: "string option"

definition drift_text :: "field_drift \<Rightarrow> string" where
  "drift_text d = fd_field d @ '' last='' @ rendered_value (fd_prior d) @ '' now='' @ rendered_value (fd_current d)"

section \<open>The mode guard\<close>

datatype mode_outcome = Proceed | Escalate | Refuse

definition mode_outcome_str :: "mode_outcome \<Rightarrow> string" where
  "mode_outcome_str m = (case m of Proceed \<Rightarrow> ''proceed'' | Escalate \<Rightarrow> ''escalate'' | Refuse \<Rightarrow> ''refuse'')"

record mode_decision =
  md_outcome :: mode_outcome
  md_mode :: string
  md_drift :: "field_drift list"
  md_message :: string

definition mode_refused :: "mode_decision \<Rightarrow> bool" where "mode_refused d \<longleftrightarrow> md_outcome d = Refuse"

definition mode_escalated :: "mode_decision \<Rightarrow> bool" where "mode_escalated d \<longleftrightarrow> md_outcome d = Escalate"

definition MODE_INCREMENTAL :: string where "MODE_INCREMENTAL = ''incremental''"
definition MODE_FULL :: string where "MODE_FULL = ''full''"
definition MODE_CORRECTION_PASS :: string where "MODE_CORRECTION_PASS = ''correction_pass''"

fun drift_of :: "run_fingerprint \<Rightarrow> run_fingerprint \<Rightarrow> string list \<Rightarrow> field_drift list outcome" where
  "drift_of prior current [] = Ret []"
| "drift_of prior current (name # names) =
     bind_outcome (field_value prior name) (\<lambda>p. bind_outcome (field_value current name) (\<lambda>c.
       bind_outcome (drift_of prior current names) (\<lambda>rest.
         Ret (if p = c then rest else \<lparr>fd_field = name, fd_prior = p, fd_current = c\<rparr> # rest))))"

definition REFUSAL_MESSAGE :: "string \<Rightarrow> string" where
  "REFUSAL_MESSAGE drift = ''incremental run refused: the run fingerprint differs from the last successful run: '' @ drift
     @ ''. Re-run with --mode full, or with --allow-escalate to promote this run to --mode full.''"

definition ESCALATION_MESSAGE :: "string \<Rightarrow> string" where
  "ESCALATION_MESSAGE drift = ''--allow-escalate: the run fingerprint differs from the last successful run: '' @ drift @ ''. Promoting this run to --mode full.''"

definition check_mode_preconditions :: "run_fingerprint option \<Rightarrow> run_fingerprint \<Rightarrow> string \<Rightarrow> bool \<Rightarrow> (versions_error + mode_decision) outcome" where
  "check_mode_preconditions prior current mode allow_escalate =
     (let proceed = \<lparr>md_outcome = Proceed, md_mode = mode, md_drift = [], md_message = []\<rparr> in
      if mode \<noteq> MODE_INCREMENTAL \<and> mode \<noteq> MODE_FULL then Ret (Inl (UnknownMode mode))
      else case prior of
             None \<Rightarrow> Ret (Inr proceed)
           | Some before \<Rightarrow>
               if mode \<noteq> MODE_INCREMENTAL then Ret (Inr proceed)
               else bind_outcome (drift_of before current FINGERPRINT_FIELDS) (\<lambda>drift.
                 let txt = join_with ''; '' (map drift_text drift) in
                 Ret (Inr (if drift = [] then proceed
                           else if allow_escalate then \<lparr>md_outcome = Escalate, md_mode = MODE_FULL, md_drift = drift, md_message = ESCALATION_MESSAGE txt\<rparr>
                           else \<lparr>md_outcome = Refuse, md_mode = mode, md_drift = drift, md_message = REFUSAL_MESSAGE txt\<rparr>))))"

definition rebuild_reason_for :: "run_fingerprint option \<Rightarrow> run_fingerprint \<Rightarrow> string option \<Rightarrow> bool \<Rightarrow> string option" where
  "rebuild_reason_for prior current mode operator =
     (if mode = Some MODE_CORRECTION_PASS then Some ''correction_pass''
      else if operator then Some ''operator''
      else case prior of
             None \<Rightarrow> None
           | Some before \<Rightarrow>
               if fp_std_version before \<noteq> fp_std_version current then Some ''std_version_bump''
               else if fp_survivorship_version before \<noteq> fp_survivorship_version current then Some ''survivorship_version_bump''
               else if fp_lexicon_hash before \<noteq> fp_lexicon_hash current then Some ''lexicon_change''
               else None)"

section \<open>The guard is exact\<close>

text \<open>The table of fields names every part of the fingerprint, so no drift means equality; and the guard never panics.\<close>

lemma drift_total: "\<exists>ds. drift_of prior current FINGERPRINT_FIELDS = Ret ds \<and> (ds = [] \<longleftrightarrow> prior = current)"
  by (cases prior; cases current) (auto simp: FINGERPRINT_FIELDS_def field_value_def fingerprint_value_def)

text \<open>An incremental run proceeds exactly when there is no earlier successful run or its fingerprint is that of this run, in every one of
  the five fields; otherwise it is promoted to a full run when escalation is allowed and refused when it is not. A full run is never
  held back, any other mode is an error, and the guard never panics.\<close>

lemma drift_guard_exact:
  fixes prior current
  defines "drifted \<equiv> (case prior of None \<Rightarrow> False | Some before \<Rightarrow> before \<noteq> current)"
  shows "\<exists>r. check_mode_preconditions prior current mode allow = Ret r \<and>
     (if mode = ''incremental''
      then \<exists>d. r = Inr d \<and> md_outcome d = (if \<not> drifted then Proceed else if allow then Escalate else Refuse)
             \<and> md_mode d = (if drifted \<and> allow then ''full'' else mode) \<and> (md_drift d \<noteq> [] \<longleftrightarrow> drifted) \<and> (md_message d \<noteq> [] \<longleftrightarrow> drifted)
      else if mode = ''full'' then \<exists>d. r = Inr d \<and> md_outcome d = Proceed \<and> md_mode d = ''full'' \<and> md_drift d = []
      else r = Inl (UnknownMode mode))"
proof (cases "\<exists>before. prior = Some before \<and> mode = ''incremental''")
  case True
  then obtain before where p: "prior = Some before" "mode = ''incremental''" by blast
  obtain ds where "drift_of before current FINGERPRINT_FIELDS = Ret ds" "ds = [] \<longleftrightarrow> before = current" using drift_total by blast
  then show ?thesis using p
    by (auto simp: check_mode_preconditions_def drifted_def MODE_INCREMENTAL_def MODE_FULL_def Let_def REFUSAL_MESSAGE_def ESCALATION_MESSAGE_def)
next
  case False
  then show ?thesis by (cases prior) (auto simp: check_mode_preconditions_def drifted_def MODE_INCREMENTAL_def MODE_FULL_def Let_def)
qed

text \<open>A rebuild reason other than the two explicit ones means drift, so the guard has seen it too.\<close>

lemma rebuild_reason_drifts:
  "rebuild_reason_for (Some before) current mode False = Some why \<Longrightarrow> mode \<noteq> Some MODE_CORRECTION_PASS \<Longrightarrow> before \<noteq> current"
  by (auto simp: rebuild_reason_for_def split: if_splits)

end
