(* ===== verification/Spec2Isabelle.thy ===== *)
theory Spec2Isabelle
  imports
    Ids Errors DurableRefs Cluster Assertions NeverCut Identity PodClassify UrlGuard Cron Scheduler JobQueue JobApi Tenancy TenantSweep Versions
begin

text \<open>
  A verification library for the entity-resolution engine: the Rust workspace under \<open>src/rust/crates\<close>. Source paths below
  are relative to that directory.

  \<^bold>\<open>The program.\<close> The control plane \<open>er-server\<close> queues jobs (runs, corrections, provisioning, training, profiling, maintenance) in
  PostgreSQL. A claimed job is planned into one row per task of its kind's graph; the executor's readiness pass schedules tasks whose inputs
  are there, its launcher starts one Kubernetes pod per attempt, its watch turns what Kubernetes reports into verdicts on attempts, and its
  sweeps deal with cancellation, silence and pods that never start. A settled job's outcome is read off the leaves of its graph. The
  reconcile stage of a run clusters the records that matched, cuts links that steward assertions forbid and maps the clusters to durable
  entity identities.

  \<^bold>\<open>Theories and the code they model.\<close>

  \<^item> \<open>Prelude\<close>: shared collections and generic lemmas on lists, options, ordered maps and outcomes. Fallible code returns a sum with the error
    on the left; code that may panic returns \<open>outcome\<close>; an ordered map of the source is an association list sorted by key.
  \<^item> \<open>Utf8\<close>, \<open>Json\<close>: byte lengths and character prefixes of strings, and JSON values with their object constructor.
  \<^item> \<open>Ids\<close> (\<open>er-ids/src/lib.rs\<close>): record keys, lake timestamps, the deterministic UUIDv7 factory, natural ids, redirect chains.
  \<^item> \<open>Errors\<close> (\<open>er-errors/src/lib.rs\<close>): the failure taxonomy and the exit-code contract.
  \<^item> \<open>DagPolicy\<close>, \<open>Dag\<close> (\<open>er-dag/src/policy.rs\<close>, \<open>builder.rs\<close>, \<open>assembly.rs\<close>): node policies, the graph builder, every assembly check, both fingerprints.
    \<open>Readiness\<close> (\<open>readiness.rs\<close>): trigger rules, the readiness pass and the settle decision. \<open>Worklist\<close>, \<open>Resume\<close>
    (\<open>resume.rs\<close>): what a clear takes with it. \<open>DurableRefs\<close> (\<open>task.rs\<close>): references to lake states and plan documents.
  \<^item> \<open>Forest\<close>, \<open>Cluster\<close>, \<open>Assertions\<close>, \<open>ShortestPath\<close>, \<open>NeverCut\<close>, \<open>Reconcile\<close>, \<open>Identity\<close> (\<open>er-reconcile/src/*.rs\<close>): the two union-find structures, the
    contradiction check, breadth-first paths, the cut loop, the reconcile plan and what it guarantees about identities.
  \<^item> \<open>PodClassify\<close> (\<open>er-k8s/src/api.rs\<close>, \<open>record.rs\<close>, \<open>classify.rs\<close>): snapshots of jobs and pods, the terminal record and its size cap, both verdict tables.
  \<^item> \<open>TaskLedger\<close> (\<open>er-entities/src/task_instance.rs\<close>, \<open>job.rs\<close>, \<open>er-server/src/taskpg.rs\<close> and the tables' DDL): the rows, constraints, statements and
    transactions of the task ledger. \<open>LedgerLaws\<close>: the invariant of the ledger, the life cycle of an attempt, and the interface
    \<open>ledger_statement\<close> that every statement and transaction is shown to satisfy. \<open>RetryLaws\<close>: the retry decision and the launch claim in detail.
  \<^item> \<open>JobGraphs\<close> (\<open>er-server/src/dags/mod.rs\<close>, \<open>tasks.rs\<close>, \<open>control/mod.rs\<close>): the job kinds, their graphs and the dispatch tables.
  \<^item> \<open>Executor\<close> (\<open>er-server/src/executor.rs\<close>): every pass, sweep and watch handler. \<open>ExecutorLaws\<close>: the server as a step relation whose steps are those
    handlers and the API's transactions, in any order. \<open>Scheduler\<close>: the readiness transaction against the pure pass of \<open>Readiness\<close>.
  \<^item> \<open>JobQueue\<close> (\<open>er-server/src/pg.rs\<close> with the statements of \<open>job.rs\<close>): enqueueing, claiming, failing and resuming jobs.
  \<^item> \<open>Access\<close> (\<open>er-server/src/lib.rs\<close>, \<open>pg.rs\<close>, \<open>er-entities/src/api_key.rs\<close>): roles, principals, the request guard, minting and revoking of API keys.
    \<open>SaToken\<close> (\<open>er-server/src/satoken.rs\<close>): the verifier of service-account tokens with its cached key set.
  \<^item> \<open>AttemptChannel\<close> (\<open>er-server/src/lib.rs\<close>): how a task pod authenticates for its attempt, gets its work order and reports. \<open>ClearLaws\<close>, \<open>JobApi\<close>
    (\<open>lib.rs\<close>): what a clear does to the ledger, and the routes that read, cancel, resume and clear jobs.
  \<^item> \<open>Webhook\<close> (\<open>er-server/src/webhook.rs\<close>, \<open>er-entities/src/webhook.rs\<close>, \<open>webhook_delivery.rs\<close>): subscriptions, the outbox of deliveries and its drain.
  \<^item> \<open>Provision\<close> (\<open>er-server/src/provision.rs\<close>): the profile and the plans of lakes. \<open>Registry\<close>, \<open>RegistryApi\<close>, \<open>ConfigApi\<close> (\<open>er-server/src/lib.rs\<close>, \<open>pg.rs\<close>,
    \<open>fixups.rs\<close>, \<open>dispatcher.rs\<close> and the statements of \<open>org.rs\<close>, \<open>dataset.rs\<close>, \<open>config_version.rs\<close>, \<open>matching_model.rs\<close>, \<open>schedule.rs\<close>): the tenant registry, its
    handlers as functions of the state that answer or refuse, and the schedule tick. \<open>RegistryLaws\<close>: the weakest conditions of handlers, the invariant and
    that every handler keeps it. \<open>Tenancy\<close>: what the registry guarantees its callers.
  \<^item> \<open>EntitySpec\<close> (\<open>er-entity-spec/src/*.rs\<close>, \<open>er-entity-gen/src/pg_ddl.rs\<close>, \<open>ddl.rs\<close>, \<open>convert.rs\<close>, \<open>er-schema/src/model.rs\<close>): the catalog of declared tables and the DDL
    rendered from it. \<open>SchemaDiff\<close>, \<open>SchemaApply\<close> (\<open>er-entity-diff/src/lib.rs\<close>, \<open>migrate.rs\<close>, \<open>postgres.rs\<close>, \<open>lake.rs\<close>): live columns, differences, the order of
    creation, the migration plan, and what a store does with its statements. \<open>SchemaLaws\<close>: the order of creation is a permutation with references first.
    \<open>SchemaSettle\<close>, \<open>SchemaConverge\<close>: executing a plan, entity by entity. \<open>Migrate\<close> (\<open>reconcile.rs\<close>, \<open>er-server/src/migrate_plan.rs\<close>, \<open>fixups.rs\<close>, \<open>pg.rs\<close>,
    \<open>main.rs\<close>): the reconcilers with their ledgers, the fixups, the boot and the deploy gate. \<open>TenantSweep\<close> (\<open>er-server/src/schema.rs\<close>): the sweep over the
    tenants' lakes. \<open>Versions\<close> (\<open>er-versions/src/lib.rs\<close>): the drift guard of incremental runs.
  \<^item> \<open>UrlGuard\<close>, \<open>Cron\<close> (\<open>er-server/src/urlguard.rs\<close>, \<open>cron.rs\<close>): the outbound address filter and cron schedules.

  \<^bold>\<open>What is shown.\<close> Whatever order the server's handlers, the pods' reports and the operators' requests run in, the ledger keeps its
  invariant and every attempt moves along its life cycle, so that a verdict is never rewritten; the readiness transaction does to the ledger what
  the pure pass does to the state vector, and a settled job was never deadlocked; a retry is granted exactly within the budget; claims
  respect the caps, and the queue never runs two writers of one lake. Assembly accepts exactly the well-formed graphs, every job
  kind's graph is one of them, and each of its nodes (with one exception, which is a defect of the code) is dispatched to the task it declares. Label propagation computes connected components, the
  contradiction check decides satisfiability of the assertions, the cut loop ends and separates every forbidden pair it does not
  escalate, and the reconcile plan realises the clustering with stable identities. The pod classifier's verdicts rest on evidence; the
  address filter is exact; a cron expression fires when its fields say so. A request acts for an organization only with the operator's
  token or an unrevoked key of that organization; a pod's report changes only the attempt its credential was issued for; a clear reruns exactly
  a task and what lies downstream. A webhook delivery is posted at most six times with what was queued, and a drain works off what is due. The tenant registry stays consistent along
  every run, a publish takes effect where it says, jobs are queued only for active tenants, a schedule fires once a minute, and lakes are kept apart up to the
  folding of names. Reconciling a store with the catalog succeeds where no difference is breaking, converges in one pass and writes nothing the second time; no
  boot drops or retypes a column; a contract fixup waits for its expand release; the deploy gate never writes; the deploy report passes exactly on the recorded
  positions. Lemmas state what the code does where it does not do what it should: a profile node without a dispatch arm, a work order without its models, a
  cancellation that overwrites an outcome, a second dataset that cannot be published, a list column that cannot be added to a lake, a failed migration job that
  passes on an old position.

  \<^bold>\<open>Modelling choices.\<close> A table is a list of rows, a statement a function of it, a transaction a sequence that changes nothing when a statement
  fails; timestamps are integers and all statements of one call read one clock. Text columns with a closed set of spellings are data
  types. SHA-256, PostgreSQL's \<open>hashtext\<close>, the JSON parser of a terminal record, the URL parser, the name resolver, the answers of the Kubernetes API, a server's reading of unquoted names and the type spellings of a lake's parser are parameters; a
  hypothesis about one is stated where it is used. Machine integers are kept at their width where they can wrap (cron steps, timestamps, counters).
  Loops are recursive functions with termination proofs, or \<open>partial_function (option)\<close> for the union-find walks, whose return is then proved. The
  recursive query of \<open>retry_lineage\<close> unfolds as often as the table has rows, which is enough because try numbers fall along
  a chain.

  \<^bold>\<open>Not modelled.\<close> The stages that are SQL text for DuckDB (\<open>er-cli\<close>, \<open>er-golden\<close>, \<open>er-standardize\<close>, \<open>er-ingest\<close>, \<open>er-match\<close>, \<open>dedupe-core\<close>): their meaning is the
  database's. The HTTP handlers of \<open>er-server/src/lib.rs\<close> for records, reviews, sources and members, the in-process runner of jobs; mail and object
  storage. The generated statements of the other tables. The build-time tools \<open>er-entity-lint\<close>, \<open>er-entity-cli\<close> and \<open>er-sql-check\<close>, the emitters of Rust and TypeScript,
  and the literal registry of lake tables. In schema reconciliation, rows, defaults, check constraints and index predicates. Telemetry, TLS, environment
  reading. The bodies of the tasks.
\<close>

end
